(* ===== verification/Prelude.thy ===== *)
theory Prelude
  imports Main "HOL-Library.Char_ord" "HOL-Library.List_Lexorder"
begin

text \<open>
  What the components share: raising and catching as a sum type, the Python values that
  reach the code's dynamic checks, the string operations the code calls, and the
  collections of facts the component proofs use.

  A Python \<open>str\<close> is a \<^typ>\<open>string\<close>, one \<^typ>\<open>char\<close> per code point; code points above
  255 are outside the model.  Sizes that the code takes of \<open>s.encode("utf-8")\<close> are
  \<open>utf8_size\<close>, which counts two bytes for a code point from 128 on.
\<close>

named_theorems raise_simps \<open>facts on results that may be an exception\<close>
named_theorems str_simps \<open>facts on the string operations\<close>

section \<open>Results: a value or a raised exception\<close>

text \<open>\<open>Inl\<close> is the raised exception, \<open>Inr\<close> the value returned.\<close>

definition bindE :: "'e + 'a \<Rightarrow> ('a \<Rightarrow> 'e + 'b) \<Rightarrow> 'e + 'b" where
  "bindE m f = (case m of Inl e \<Rightarrow> Inl e | Inr x \<Rightarrow> f x)"

lemma bindE_simps [simp, raise_simps]:
  "bindE (Inl e) f = Inl e"
  "bindE (Inr x) f = f x"
  by (simp_all add: bindE_def)

lemma bindE_Inr_iff [raise_simps]: "bindE m f = Inr y \<longleftrightarrow> (\<exists>x. m = Inr x \<and> f x = Inr y)"
  by (cases m) (auto simp: bindE_def)

lemma bindE_Inl_iff [raise_simps]:
  "bindE m f = Inl e \<longleftrightarrow> m = Inl e \<or> (\<exists>x. m = Inr x \<and> f x = Inl e)"
  by (cases m) (auto simp: bindE_def)

lemma bindE_cong [fundef_cong]:
  "m = m' \<Longrightarrow> (\<And>x. m' = Inr x \<Longrightarrow> f x = g x) \<Longrightarrow> bindE m f = bindE m' g"
  by (cases m') (auto simp: bindE_def)

text \<open>\<open>if c: raise e\<close> before the rest of a body.\<close>

definition guardE :: "bool \<Rightarrow> 'e \<Rightarrow> 'e + 'a \<Rightarrow> 'e + 'a" where
  "guardE c e m = (if c then Inl e else m)"

lemma guardE_simps [simp, raise_simps]:
  "guardE True e m = Inl e"
  "guardE False e m = m"
  by (simp_all add: guardE_def)

lemma guardE_Inr_iff [simp, raise_simps]: "guardE c e m = Inr x \<longleftrightarrow> \<not> c \<and> m = Inr x"
  by (simp add: guardE_def)

lemma guardE_Inl_iff [raise_simps]:
  "guardE c e m = Inl e' \<longleftrightarrow> (if c then e' = e else m = Inl e')"
  by (auto simp: guardE_def)

fun is_ok :: "'e + 'a \<Rightarrow> bool" where
  "is_ok (Inl _) = False"
| "is_ok (Inr _) = True"

lemma is_ok_iff: "is_ok m \<longleftrightarrow> (\<exists>x. m = Inr x)"
  by (cases m) auto

text \<open>A comprehension whose body may raise stops at the first exception.\<close>

fun mapE :: "('a \<Rightarrow> 'e + 'b) \<Rightarrow> 'a list \<Rightarrow> 'e + 'b list" where
  "mapE f [] = Inr []"
| "mapE f (x # xs) = bindE (f x) (\<lambda>y. bindE (mapE f xs) (\<lambda>ys. Inr (y # ys)))"

lemma mapE_Inr_iff: "mapE f xs = Inr ys \<longleftrightarrow> list_all2 (\<lambda>x y. f x = Inr y) xs ys"
  by (induction xs arbitrary: ys) (auto simp: bindE_Inr_iff list_all2_Cons1)

lemma mapE_total: "(\<And>x. x \<in> set xs \<Longrightarrow> f x = Inr (g x)) \<Longrightarrow> mapE f xs = Inr (map g xs)"
  by (induction xs) auto

lemma mapE_set: "mapE f xs = Inr ys \<Longrightarrow> y \<in> set ys \<Longrightarrow> \<exists>x \<in> set xs. f x = Inr y"
  by (induction xs arbitrary: ys) (auto simp: bindE_Inr_iff)

section \<open>Strings\<close>

abbreviation code :: "char \<Rightarrow> nat" where
  "code c \<equiv> of_char c"

definition is_space :: "char \<Rightarrow> bool" where
  "is_space c \<longleftrightarrow> code c \<in> {9, 10, 11, 12, 13, 28, 29, 30, 31, 32, 133, 160}"

definition lstrip :: "string \<Rightarrow> string" where
  "lstrip s = dropWhile is_space s"

definition rstrip :: "string \<Rightarrow> string" where
  "rstrip s = rev (dropWhile is_space (rev s))"

definition strip :: "string \<Rightarrow> string" where
  "strip s = rstrip (lstrip s)"

text \<open>\<open>bool(s.strip())\<close>: the string has a character that is not white space.\<close>

definition nonblank :: "string \<Rightarrow> bool" where
  "nonblank s \<longleftrightarrow> strip s \<noteq> []"

text \<open>\<open>s.split(c)\<close> for a one-character separator, and \<open>sep.join(parts)\<close>.\<close>

fun split_on :: "char \<Rightarrow> string \<Rightarrow> string list" where
  "split_on c [] = [[]]"
| "split_on c (x # xs) =
     (if x = c then [] # split_on c xs
      else (case split_on c xs of [] \<Rightarrow> [[x]] | p # ps \<Rightarrow> (x # p) # ps))"

fun join :: "string \<Rightarrow> string list \<Rightarrow> string" where
  "join sep [] = []"
| "join sep [x] = x"
| "join sep (x # y # ys) = x @ sep @ join sep (y # ys)"

text \<open>\<open>s.split()\<close>: the maximal runs of characters that are not white space.\<close>

fun py_words_aux :: "string \<Rightarrow> string \<Rightarrow> string list" where
  "py_words_aux w [] = (if w = [] then [] else [rev w])"
| "py_words_aux w (c # cs) =
     (if is_space c then (if w = [] then py_words_aux [] cs else rev w # py_words_aux [] cs)
      else py_words_aux (c # w) cs)"

definition py_words :: "string \<Rightarrow> string list" where
  "py_words s = py_words_aux [] s"

definition replace_char :: "char \<Rightarrow> char \<Rightarrow> string \<Rightarrow> string" where
  "replace_char a b s = map (\<lambda>c. if c = a then b else c) s"

definition starts_with :: "string \<Rightarrow> string \<Rightarrow> bool" where
  "starts_with p s \<longleftrightarrow> take (length p) s = p"

definition utf8_size :: "string \<Rightarrow> nat" where
  "utf8_size s = sum_list (map (\<lambda>c. if code c < 128 then 1 else 2) s)"

fun nat_str :: "nat \<Rightarrow> string" where
  "nat_str n = (if n < 10 then [char_of (48 + n)] else nat_str (n div 10) @ [char_of (48 + n mod 10)])"

declare nat_str.simps [simp del]

definition int_str :: "int \<Rightarrow> string" where
  "int_str i = (if i < 0 then ''-'' @ nat_str (nat (- i)) else nat_str (nat i))"

definition hex_digit :: "nat \<Rightarrow> char" where
  "hex_digit n = char_of (if n < 10 then 48 + n else 87 + n)"

definition hex2 :: "nat \<Rightarrow> string" where
  "hex2 n = [hex_digit (n div 16), hex_digit (n mod 16)]"

text \<open>\<open>repr\<close> of a string.\<close>

definition py_printable :: "nat \<Rightarrow> bool" where
  "py_printable n \<longleftrightarrow> 32 \<le> n \<and> n < 127 \<or> 161 \<le> n \<and> n \<noteq> 173"

definition repr_char :: "char \<Rightarrow> char \<Rightarrow> string" where
  "repr_char q c =
     (if c = q \<or> code c = 92 then [CHR 0x5C, c]
      else if code c = 9 then [CHR 0x5C, CHR ''t'']
      else if code c = 10 then [CHR 0x5C, CHR ''n'']
      else if code c = 13 then [CHR 0x5C, CHR ''r'']
      else if py_printable (code c) then [c]
      else [CHR 0x5C, CHR ''x''] @ hex2 (code c))"

definition py_repr :: "string \<Rightarrow> string" where
  "py_repr s =
     (let q = (if CHR 0x27 \<in> set s \<and> CHR 0x22 \<notin> set s then CHR 0x22 else CHR 0x27)
      in [q] @ concat (map (repr_char q) s) @ [q])"

text \<open>\<open>json.dumps\<close> of a string with \<open>ensure_ascii=True\<close>.\<close>

definition json_char :: "char \<Rightarrow> string" where
  "json_char c =
     (let bs = CHR 0x5C; n = code c in
      if n = 34 \<or> n = 92 then [bs, c]
      else if n = 8 then [bs, CHR ''b'']
      else if n = 9 then [bs, CHR ''t'']
      else if n = 10 then [bs, CHR ''n'']
      else if n = 12 then [bs, CHR ''f'']
      else if n = 13 then [bs, CHR ''r'']
      else if 32 \<le> n \<and> n < 127 then [c]
      else [bs, CHR ''u'', CHR ''0'', CHR ''0''] @ hex2 n)"

definition json_str :: "string \<Rightarrow> string" where
  "json_str s = [CHR 0x22] @ concat (map json_char s) @ [CHR 0x22]"

text \<open>\<open>json.dumps(list, separators=(",", ":"))\<close> of a list of strings.\<close>

definition json_str_list :: "string list \<Rightarrow> string" where
  "json_str_list xs = ''['' @ join '','' (map json_str xs) @ '']''"

section \<open>Collections\<close>

text \<open>\<open>sorted(set(xs))\<close> and \<open>tuple(dict.fromkeys(xs))\<close>.\<close>

definition sorted_set :: "'a::linorder list \<Rightarrow> 'a list" where
  "sorted_set xs = sort (remdups xs)"

definition dict_fromkeys :: "'a list \<Rightarrow> 'a list" where
  "dict_fromkeys xs = rev (remdups (rev xs))"

text \<open>\<open>len(set(xs)) == len(xs)\<close>.\<close>

definition no_dups :: "'a list \<Rightarrow> bool" where
  "no_dups xs \<longleftrightarrow> length (remdups xs) = length xs"

lemma no_dups_distinct [simp]: "no_dups xs \<longleftrightarrow> distinct xs"
  by (metis no_dups_def length_remdups_eq remdups_id_iff_distinct)

lemma sorted_set_props [simp]:
  "set (sorted_set xs) = set xs"
  "sorted (sorted_set xs)"
  "distinct (sorted_set xs)"
  by (simp_all add: sorted_set_def)

lemma sorted_set_id: "sorted xs \<Longrightarrow> distinct xs \<Longrightarrow> sorted_set xs = xs"
  by (simp add: sorted_set_def sorted_sort_id distinct_remdups_id)

lemma sorted_set_cong: "set xs = set ys \<Longrightarrow> sorted_set xs = sorted_set ys"
  by (rule sorted_distinct_set_unique) auto

lemma dict_fromkeys_props [simp]:
  "set (dict_fromkeys xs) = set xs"
  "distinct (dict_fromkeys xs)"
  by (simp_all add: dict_fromkeys_def)

section \<open>Dynamically typed values\<close>

text \<open>
  The values that JSON payloads and loosely typed arguments hold: what \<open>isinstance\<close>
  checks tell apart.  A dict keeps its insertion order.
\<close>

datatype pyval =
    PNone
  | PBool bool
  | PInt int
  | PStr string
  | PList "pyval list"
  | PTuple "pyval list"
  | PDict "(string \<times> pyval) list"

fun is_str :: "pyval \<Rightarrow> bool" where
  "is_str (PStr _) = True"
| "is_str _ = False"

fun py_get :: "pyval \<Rightarrow> string \<Rightarrow> pyval" where
  "py_get (PDict kvs) k = (case map_of kvs k of None \<Rightarrow> PNone | Some v \<Rightarrow> v)"
| "py_get _ k = PNone"

fun the_str :: "pyval \<Rightarrow> string" where
  "the_str (PStr s) = s"
| "the_str _ = []"

fun opt_str :: "pyval \<Rightarrow> string option" where
  "opt_str (PStr s) = Some s"
| "opt_str _ = None"

fun of_opt_str :: "string option \<Rightarrow> pyval" where
  "of_opt_str None = PNone"
| "of_opt_str (Some s) = PStr s"

lemma opt_str_of_opt_str [simp]: "opt_str (of_opt_str x) = x"
  by (cases x) auto

text \<open>What \<open>tuple(v)\<close> iterates over; \<open>None\<close> where Python raises \<open>TypeError\<close>.\<close>

fun py_iter :: "pyval \<Rightarrow> pyval list option" where
  "py_iter (PStr s) = Some (map (\<lambda>c. PStr [c]) s)"
| "py_iter (PList xs) = Some xs"
| "py_iter (PTuple xs) = Some xs"
| "py_iter (PDict kvs) = Some (map (PStr \<circ> fst) kvs)"
| "py_iter _ = None"

text \<open>\<open>repr(v)\<close> and \<open>str(v)\<close>.\<close>

fun py_repr_val :: "pyval \<Rightarrow> string" where
  "py_repr_val PNone = ''None''"
| "py_repr_val (PBool b) = (if b then ''True'' else ''False'')"
| "py_repr_val (PInt i) = int_str i"
| "py_repr_val (PStr s) = py_repr s"
| "py_repr_val (PList xs) = ''['' @ join '', '' (map py_repr_val xs) @ '']''"
| "py_repr_val (PTuple xs) =
     (case xs of [x] \<Rightarrow> ''('' @ py_repr_val x @ '',)''
      | _ \<Rightarrow> ''('' @ join '', '' (map py_repr_val xs) @ '')'')"
| "py_repr_val (PDict kvs) =
     ''{'' @ join '', '' (map (\<lambda>(k, v). py_repr k @ '': '' @ py_repr_val v) kvs) @ ''}''"

fun py_str :: "pyval \<Rightarrow> string" where
  "py_str (PStr s) = s"
| "py_str v = py_repr_val v"

text \<open>\<open>json.dumps(v, sort_keys=True, separators=(",", ":"))\<close>.\<close>

fun json_canonical :: "pyval \<Rightarrow> string" where
  "json_canonical PNone = ''null''"
| "json_canonical (PBool b) = (if b then ''true'' else ''false'')"
| "json_canonical (PInt i) = int_str i"
| "json_canonical (PStr s) = json_str s"
| "json_canonical (PList xs) = ''['' @ join '','' (map json_canonical xs) @ '']''"
| "json_canonical (PTuple xs) = ''['' @ join '','' (map json_canonical xs) @ '']''"
| "json_canonical (PDict kvs) =
     ''{'' @ join '','' (map snd (sort_key fst
        (map (\<lambda>(k, v). (k, json_str k @ '':'' @ json_canonical v)) kvs))) @ ''}''"

text \<open>The items of a dict, and the dict without a key.\<close>

fun py_items :: "pyval \<Rightarrow> (string \<times> pyval) list" where
  "py_items (PDict kvs) = kvs"
| "py_items _ = []"

definition pop_key :: "string \<Rightarrow> (string \<times> pyval) list \<Rightarrow> (string \<times> pyval) list" where
  "pop_key k kvs = filter (\<lambda>(k', v). k' \<noteq> k) kvs"

fun of_opt_int :: "int option \<Rightarrow> pyval" where
  "of_opt_int None = PNone"
| "of_opt_int (Some i) = PInt i"

section \<open>Facts on strings\<close>

lemma split_on_not_Nil [simp]: "split_on c s \<noteq> []"
  by (cases s) (auto split: list.splits)

lemma join_Cons: "xs \<noteq> [] \<Longrightarrow> join sep (x # xs) = x @ sep @ join sep xs"
  by (cases xs) auto

lemma join_split_on [str_simps]: "join [c] (split_on c s) = s"
proof (induction s)
  case Nil
  then show ?case by simp
next
  case (Cons x xs)
  obtain p ps where ps: "split_on c xs = p # ps"
    by (cases "split_on c xs") auto
  show ?case
    using Cons ps by (cases ps) (auto simp: join_Cons)
qed

lemma split_on_no_sep: "p \<in> set (split_on c s) \<Longrightarrow> c \<notin> set p"
  by (induction s arbitrary: p) (auto split: list.splits if_splits)

lemma dropWhile_idem [simp]: "dropWhile P (dropWhile P xs) = dropWhile P xs"
  by (induction xs) auto

lemma rstrip_lstrip_fixed:
  assumes "strip s = s"
  shows "lstrip s = s" and "rstrip s = s"
proof -
  have len_r: "length (rstrip u) \<le> length u" for u
    by (simp add: rstrip_def) (metis length_dropWhile_le length_rev)
  have len_l: "length (lstrip s) \<le> length s"
    by (simp add: lstrip_def length_dropWhile_le)
  have "length s \<le> length (lstrip s)"
    using assms len_r [of "lstrip s"] by (simp add: strip_def)
  with len_l have "length (lstrip s) = length s" by simp
  then show l: "lstrip s = s"
    by (metis append_self_conv2 append_eq_append_conv lstrip_def takeWhile_dropWhile_id)
  show "rstrip s = s" using assms l by (simp add: strip_def)
qed

lemma strip_Nil [simp]: "strip [] = []"
  by (simp add: strip_def lstrip_def rstrip_def)

lemma hd_rstrip: "rstrip s \<noteq> [] \<Longrightarrow> hd (rstrip s) = hd s"
proof -
  assume ne: "rstrip s \<noteq> []"
  obtain t where "rev s = t @ dropWhile is_space (rev s)"
    by (metis takeWhile_dropWhile_id)
  then have "s = rev (dropWhile is_space (rev s)) @ rev t"
    by (metis rev_append rev_rev_ident)
  with ne show ?thesis unfolding rstrip_def by (metis hd_append2)
qed

lemma strip_strip [simp]: "strip (strip s) = strip s"
proof (cases "strip s = []")
  case True
  then show ?thesis by simp
next
  case False
  have ne: "lstrip s \<noteq> []"
    using False by (auto simp: strip_def rstrip_def)
  have "\<not> is_space (hd (lstrip s))"
    using ne hd_dropWhile [of is_space s] by (simp add: lstrip_def)
  then have "\<not> is_space (hd (strip s))"
    using False hd_rstrip by (simp add: strip_def)
  then have "lstrip (strip s) = strip s"
    using False by (cases "strip s") (auto simp: lstrip_def)
  then show ?thesis
    by (simp add: strip_def rstrip_def)
qed

lemma nonblank_strip [simp]: "nonblank (strip s) \<longleftrightarrow> nonblank s"
  by (simp add: nonblank_def)

lemma nonblank_not_Nil: "nonblank s \<Longrightarrow> s \<noteq> []"
  by (auto simp: nonblank_def)

lemma utf8_size_bounds: "length s \<le> utf8_size s" "utf8_size s \<le> 2 * length s"
  by (induction s) (auto simp: utf8_size_def)

lemma map_PStr_inj [simp]: "map PStr xs = map PStr ys \<longleftrightarrow> xs = ys"
  by (rule inj_map_eq_map) (simp add: inj_def)

lemma the_str_map [simp]: "map (the_str \<circ> PStr) xs = xs"
  by (simp add: comp_def)

section \<open>Records stored as JSON objects\<close>

text \<open>
  The contract between the code that writes a record (\<open>as_dict\<close>, \<open>to_payload\<close>) and the code
  that reads it back (\<open>from_mapping\<close>, \<open>from_payload\<close>): what was written from a well-formed
  record is read back as that record, and the reader returns well-formed records only.
\<close>

locale record_codec =
  fixes enc :: "'r \<Rightarrow> 'p"
    and dec :: "'p \<Rightarrow> 'e + 'r"
    and wf :: "'r \<Rightarrow> bool"
  assumes dec_enc: "wf r \<Longrightarrow> dec (enc r) = Inr r"
    and dec_wf: "dec v = Inr r \<Longrightarrow> wf r"
begin

lemma enc_inj: "wf r \<Longrightarrow> wf s \<Longrightarrow> enc r = enc s \<Longrightarrow> r = s"
  by (metis dec_enc sum.inject(2))

lemma reencode: "dec v = Inr r \<Longrightarrow> dec (enc r) = Inr r"
  by (rule dec_enc) (rule dec_wf)

lemma wf_iff_readable: "wf r \<longleftrightarrow> (\<exists>v. dec v = Inr r)"
  by (metis dec_enc dec_wf)

text \<open>A store of such records survives a write and a read of every entry.\<close>

lemma dec_enc_list: "\<forall>r \<in> set rs. wf r \<Longrightarrow> mapE dec (map enc rs) = Inr rs"
  by (induction rs) (simp_all add: dec_enc)

end

end
