(* ===== verification/Plan_Key.thy ===== *)
theory Plan_Key
  imports Prelude
begin

text \<open>
  The candidate key of a plan, the cross-cutting contracts and the revision descriptor, and the
  classification of a planning transition (\<open>plan_review_scheduling.py\<close>, first part).
\<close>

datatype plan_error =
    PlanUnsupportedPolicy string
  | HistoryStatusNotString
  | UnsupportedHistoryStatus string
  | UnsupportedHistoryClass string
  | RequirementIdsNotSequence
  | RequirementIdsNotStrings
  | KeyComponentInvalid string
  | KeyVersionNotInt
  | KeyMalformed
  | KeyVersionMalformed
  | KeyComponentMalformed string
  | ClosingIdsInvalid
  | CrossContractNotString string
  | ImpactStatusInvalid string
  | RevisionEntriesInvalid string
  | UnsupportedClassification string
  | PlanReviewersNotUnique
  | PlanPrimaryEmpty
  | PlanNeedsSecondary
  | PlanPrimaryNotMember
  | PlanPrimaryNotAllowed
  | PlanContractMalformed
  | PlanContractIncomplete
  | UnsupportedForceFullSource string
  | UnsupportedPlanPhase string
  | PlanHistoryUndecodable string
  | PlanPrematureReviews "string list"
  | PlanSecondaryPending "string list" "string list"

section \<open>Degraded planning history\<close>

definition PLAN_HISTORY_INTACT :: string where "PLAN_HISTORY_INTACT = ''intact''"
definition PLAN_HISTORY_ABSENT :: string where "PLAN_HISTORY_ABSENT = ''absent''"
definition PLAN_HISTORY_INVALID :: string where "PLAN_HISTORY_INVALID = ''invalid''"
definition PLAN_HISTORY_CONTRADICTORY_KEY :: string where
  "PLAN_HISTORY_CONTRADICTORY_KEY = ''contradictory-key''"
definition PLAN_HISTORY_TRANSPORT_FAILURE :: string where
  "PLAN_HISTORY_TRANSPORT_FAILURE = ''transport-failure''"

lemmas history_classes = PLAN_HISTORY_INTACT_def PLAN_HISTORY_ABSENT_def PLAN_HISTORY_INVALID_def
  PLAN_HISTORY_CONTRADICTORY_KEY_def PLAN_HISTORY_TRANSPORT_FAILURE_def

definition PLAN_HISTORY_CLASSES :: "string list" where
  "PLAN_HISTORY_CLASSES =
     [PLAN_HISTORY_INTACT, PLAN_HISTORY_ABSENT, PLAN_HISTORY_INVALID,
      PLAN_HISTORY_CONTRADICTORY_KEY, PLAN_HISTORY_TRANSPORT_FAILURE]"

definition PLAN_DEGRADED_CONTINUE_CLASSES :: "string list" where
  "PLAN_DEGRADED_CONTINUE_CLASSES =
     [PLAN_HISTORY_ABSENT, PLAN_HISTORY_INVALID, PLAN_HISTORY_CONTRADICTORY_KEY]"

definition plan_history_fallback_reasons :: "string \<rightharpoonup> string" where
  "plan_history_fallback_reasons = map_of
     [(PLAN_HISTORY_ABSENT,
       ''planning scheduler metadata is absent from the round history, so phase, ''
       @ ''ownership, and exact-plan approvals cannot be replayed''),
      (PLAN_HISTORY_INVALID,
       ''planning scheduler metadata decoded as invalid, so phase, ownership, and ''
       @ ''exact-plan approvals cannot be replayed''),
      (PLAN_HISTORY_CONTRADICTORY_KEY,
       ''persisted planning candidate-key components contradict the canonical plan, ''
       @ ''so no stored approval or panel opening can be trusted'')]"

definition classify_plan_history :: "pyval \<Rightarrow> bool \<Rightarrow> bool \<Rightarrow> plan_error + string" where
  "classify_plan_history metadata_status key_contradiction transport_failure =
     (if transport_failure then Inr PLAN_HISTORY_TRANSPORT_FAILURE
      else
        bindE (case metadata_status of
                 PNone \<Rightarrow> Inr ''absent'' | PStr s \<Rightarrow> Inr s | _ \<Rightarrow> Inl HistoryStatusNotString) (\<lambda>st.
        if st = ''absent'' then Inr PLAN_HISTORY_ABSENT
        else if st = ''invalid'' then Inr PLAN_HISTORY_INVALID
        else if st \<noteq> ''valid'' then Inl (UnsupportedHistoryStatus st)
        else if key_contradiction then Inr PLAN_HISTORY_CONTRADICTORY_KEY
        else Inr PLAN_HISTORY_INTACT))"

definition plan_history_fallback_reason :: "string \<Rightarrow> plan_error + string option" where
  "plan_history_fallback_reason c =
     guardE (c \<notin> set PLAN_HISTORY_CLASSES) (UnsupportedHistoryClass c)
     (Inr (plan_history_fallback_reasons c))"

definition plan_history_continues :: "string \<Rightarrow> plan_error + bool" where
  "plan_history_continues c =
     guardE (c \<notin> set PLAN_HISTORY_CLASSES) (UnsupportedHistoryClass c)
     (Inr (c \<noteq> PLAN_HISTORY_TRANSPORT_FAILURE))"

section \<open>Digests\<close>

definition surfaced_requirement_id_digest :: "(string \<Rightarrow> string) \<Rightarrow> pyval \<Rightarrow> plan_error + string" where
  "surfaced_requirement_id_digest sha ids =
     guardE (is_str ids) RequirementIdsNotSequence
     (case (if ids = PNone then Some [] else py_iter ids) of
        None \<Rightarrow> Inl RequirementIdsNotStrings
      | Some vs \<Rightarrow>
          guardE (\<exists>v \<in> set vs. \<not> is_str v \<or> \<not> nonblank (the_str v)) RequirementIdsNotStrings
          (Inr (take 16 (sha (json_str_list (sorted_set (map (strip \<circ> the_str) vs)))))))"

definition strip_constraint :: "pyval \<Rightarrow> pyval" where
  "strip_constraint entry =
     (case entry of PDict kvs \<Rightarrow> PDict (pop_key ''rationale'' kvs) | _ \<Rightarrow> entry)"

definition execution_recommendation_contract_projection :: "pyval \<Rightarrow> pyval option" where
  "execution_recommendation_contract_projection v =
     (case v of
        PDict kvs \<Rightarrow>
          Some (PDict (map (\<lambda>(k, w).
             (k, case (k = ''coupling_constraints'', w) of
                   (True, PList entries) \<Rightarrow> PList (map strip_constraint entries)
                 | _ \<Rightarrow> w))
             (pop_key ''caveats'' (pop_key ''rationale'' kvs))))
      | _ \<Rightarrow> None)"

definition execution_recommendation_contract_identity :: "(string \<Rightarrow> string) \<Rightarrow> pyval \<Rightarrow> string option" where
  "execution_recommendation_contract_identity sha v =
     (case execution_recommendation_contract_projection v of
        None \<Rightarrow> None
      | Some projection \<Rightarrow>
          Some (take 32 (sha (json_canonical
            (PDict [(''domain'', PStr ''er-contract-v1''), (''contract'', projection)])))))"

text \<open>The diagnostic names of the changed components of a recommendation.\<close>

fun entries_by_id_from :: "(string \<times> string) list \<Rightarrow> string \<Rightarrow> pyval list \<Rightarrow> (string \<times> string) list option" where
  "entries_by_id_from keyed id_field [] = Some keyed"
| "entries_by_id_from keyed id_field (entry # more) =
     (case entry of
        PDict _ \<Rightarrow>
          (case py_get entry id_field of
             PStr i \<Rightarrow>
               if i = [] \<or> i \<in> fst ` set keyed then None
               else entries_by_id_from (keyed @ [(i, json_canonical entry)]) id_field more
           | _ \<Rightarrow> None)
      | _ \<Rightarrow> None)"

definition entries_by_id :: "pyval \<Rightarrow> string \<Rightarrow> (string \<times> string) list option" where
  "entries_by_id v id_field =
     (case v of PList entries \<Rightarrow> entries_by_id_from [] id_field entries | _ \<Rightarrow> None)"

definition recommendation_id_field :: "string \<Rightarrow> string option" where
  "recommendation_id_field k =
     (if k = ''scope_items'' then Some ''scope_item_id''
      else if k = ''child_stages'' then Some ''stage_id'' else None)"

definition changed_entries :: "string \<Rightarrow> string \<Rightarrow> pyval \<Rightarrow> pyval \<Rightarrow> string list" where
  "changed_entries key id_field before after =
     (case (entries_by_id before id_field, entries_by_id after id_field) of
        (Some be, Some ae) \<Rightarrow>
          map (\<lambda>i. key @ ''['' @ i @ '']'')
            (filter (\<lambda>i. map_of be i \<noteq> map_of ae i) (sorted_set (map fst be @ map fst ae)))
      | _ \<Rightarrow> [])"

definition execution_recommendation_changed_components :: "pyval \<Rightarrow> pyval \<Rightarrow> string list" where
  "execution_recommendation_changed_components previous current =
     (let before = py_items previous; after = py_items current;
          entries = (\<lambda>kvs k. case map_of kvs k of None \<Rightarrow> PList [] | Some v \<Rightarrow> v)
      in concat (map (\<lambda>key.
           if (case (map_of before key, map_of after key) of
                 (Some b, Some a) \<Rightarrow> json_canonical b = json_canonical a | _ \<Rightarrow> False)
           then []
           else key # (case recommendation_id_field key of
                         None \<Rightarrow> []
                       | Some f \<Rightarrow> changed_entries key f (entries before key) (entries after key)))
         (sorted_set (map fst before @ map fst after))))"

section \<open>The candidate key\<close>

record plan_key =
  subject :: "string option"
  aggregate_plan_identity :: "string option"
  execution_strategy_identity :: "string option"
  risk_test_matrix_identity :: "string option"
  requirement_digest :: "string option"
  strategy_version :: "int option"

definition PLAN_KEY_GENERATION :: int where "PLAN_KEY_GENERATION = 1"

definition KEY_NAMES :: "string list" where
  "KEY_NAMES =
     [''subject'', ''aggregate_plan_identity'', ''execution_strategy_identity'',
      ''risk_test_matrix_identity'', ''surfaced_requirement_id_digest'']"

definition key_component :: "string \<Rightarrow> pyval \<Rightarrow> plan_error + string option" where
  "key_component name v =
     (case v of
        PNone \<Rightarrow> Inr None
      | PStr s \<Rightarrow> guardE (\<not> nonblank s) (KeyComponentInvalid name) (Inr (Some (strip s)))
      | _ \<Rightarrow> Inl (KeyComponentInvalid name))"

definition key_version :: "'e \<Rightarrow> pyval \<Rightarrow> 'e + int option" where
  "key_version e v = (case v of PNone \<Rightarrow> Inr None | PInt i \<Rightarrow> Inr (Some i) | _ \<Rightarrow> Inl e)"

definition mk_plan_key :: "pyval \<Rightarrow> pyval \<Rightarrow> pyval \<Rightarrow> pyval \<Rightarrow> pyval \<Rightarrow> pyval \<Rightarrow> plan_error + plan_key" where
  "mk_plan_key subj aggregate strategy matrix digest version =
     bindE (key_component ''subject'' subj) (\<lambda>a.
     bindE (key_component ''aggregate_plan_identity'' aggregate) (\<lambda>b.
     bindE (key_component ''execution_strategy_identity'' strategy) (\<lambda>c.
     bindE (key_component ''risk_test_matrix_identity'' matrix) (\<lambda>d.
     bindE (key_component ''surfaced_requirement_id_digest'' digest) (\<lambda>e.
     bindE (key_version KeyVersionNotInt version) (\<lambda>v.
     Inr \<lparr>subject = a, aggregate_plan_identity = b, execution_strategy_identity = c,
          risk_test_matrix_identity = d, requirement_digest = e, strategy_version = v\<rparr>))))))"

definition components :: "plan_key \<Rightarrow> string option list" where
  "components k =
     [subject k, aggregate_plan_identity k, execution_strategy_identity k,
      risk_test_matrix_identity k, requirement_digest k]"

definition missing_components :: "plan_key \<Rightarrow> string list" where
  "missing_components k = map fst (filter (\<lambda>(name, v). v = None) (zip KEY_NAMES (components k)))"

definition key_complete :: "plan_key \<Rightarrow> bool" where
  "key_complete k \<longleftrightarrow> missing_components k = [] \<and> strategy_version k = Some PLAN_KEY_GENERATION"

definition opt_int_repr :: "int option \<Rightarrow> string" where
  "opt_int_repr v = (case v of None \<Rightarrow> ''None'' | Some i \<Rightarrow> int_str i)"

definition incompleteness_reason :: "plan_key \<Rightarrow> string option" where
  "incompleteness_reason k =
     (if missing_components k \<noteq> [] then
        Some (''the candidate plan key is missing component(s) '' @ join '', '' (missing_components k))
      else if strategy_version k \<noteq> Some PLAN_KEY_GENERATION then
        Some (''the candidate plan key carries execution-strategy contract version ''
              @ opt_int_repr (strategy_version k) @ '', not generation '' @ int_str PLAN_KEY_GENERATION)
      else None)"

definition key_matches :: "plan_key \<Rightarrow> plan_key option \<Rightarrow> bool" where
  "key_matches k other =
     (case other of
        None \<Rightarrow> False
      | Some k' \<Rightarrow> key_complete k \<and> key_complete k' \<and> components k = components k')"

definition key_as_dict :: "plan_key \<Rightarrow> pyval" where
  "key_as_dict k =
     PDict [(''subject'', of_opt_str (subject k)),
            (''aggregate_plan_identity'', of_opt_str (aggregate_plan_identity k)),
            (''execution_strategy_identity'', of_opt_str (execution_strategy_identity k)),
            (''risk_test_matrix_identity'', of_opt_str (risk_test_matrix_identity k)),
            (''surfaced_requirement_id_digest'', of_opt_str (requirement_digest k)),
            (''execution_strategy_contract_version'', of_opt_int (strategy_version k))]"

definition key_from_mapping :: "pyval \<Rightarrow> plan_error + plan_key" where
  "key_from_mapping v =
     (case v of
        PDict _ \<Rightarrow>
          let version = py_get v ''execution_strategy_contract_version'';
              bad = filter (\<lambda>name. py_get v name \<noteq> PNone \<and> \<not> is_str (py_get v name)) KEY_NAMES
          in bindE (key_version KeyVersionMalformed version) (\<lambda>_.
             guardE (bad \<noteq> []) (KeyComponentMalformed (hd bad))
             (mk_plan_key (py_get v ''subject'') (py_get v ''aggregate_plan_identity'')
                (py_get v ''execution_strategy_identity'') (py_get v ''risk_test_matrix_identity'')
                (py_get v ''surfaced_requirement_id_digest'') version))
      | _ \<Rightarrow> Inl KeyMalformed)"

definition wf_component :: "string option \<Rightarrow> bool" where
  "wf_component c = (case c of None \<Rightarrow> True | Some s \<Rightarrow> s \<noteq> [] \<and> strip s = s)"

definition wf_key :: "plan_key \<Rightarrow> bool" where
  "wf_key k \<longleftrightarrow> (\<forall>c \<in> set (components k). wf_component c)"

section \<open>Cross-cutting contracts and revisions\<close>

record cross_contracts =
  execution_recommendation_identity :: "string option"
  human_requirement_disposition_digest :: "string option"
  additional_closing_issue_ids :: "string list"
  architecture_impact_status :: "string option"
  recommendation_projection :: "pyval option"

definition cross_identity :: "string \<Rightarrow> pyval \<Rightarrow> plan_error + string option" where
  "cross_identity name v =
     (case v of
        PNone \<Rightarrow> Inr None
      | PStr s \<Rightarrow> Inr (if strip s = [] then None else Some (strip s))
      | _ \<Rightarrow> Inl (CrossContractNotString name))"

definition mk_cross_contracts ::
  "pyval \<Rightarrow> pyval \<Rightarrow> pyval list \<Rightarrow> pyval \<Rightarrow> pyval option \<Rightarrow> plan_error + cross_contracts" where
  "mk_cross_contracts recommendation disposition ids status projection =
     guardE (\<exists>v \<in> set ids. \<not> is_str v \<or> v = PStr []) ClosingIdsInvalid
     (bindE (cross_identity ''execution_recommendation_identity'' recommendation) (\<lambda>a.
      bindE (cross_identity ''human_requirement_disposition_digest'' disposition) (\<lambda>b.
      bindE (cross_identity ''architecture_impact_status'' status) (\<lambda>c.
      guardE (c \<noteq> None \<and> c \<notin> {Some ''changed'', Some ''unchanged''}) (ImpactStatusInvalid (the c))
      (Inr \<lparr>execution_recommendation_identity = a, human_requirement_disposition_digest = b,
            additional_closing_issue_ids = sorted_set (map the_str ids),
            architecture_impact_status = c, recommendation_projection = projection\<rparr>)))))"

definition identity_observed :: "string option \<Rightarrow> bool" where
  "identity_observed v = (case v of None \<Rightarrow> False | Some s \<Rightarrow> nonblank s)"

definition missing_identities :: "cross_contracts \<Rightarrow> string list" where
  "missing_identities c =
     map fst (filter (\<lambda>(name, v). \<not> identity_observed v)
       [(''execution_recommendation_identity'', execution_recommendation_identity c),
        (''human_requirement_disposition_digest'', human_requirement_disposition_digest c),
        (''architecture_impact_status'', architecture_impact_status c)])"

definition differences :: "cross_contracts \<Rightarrow> cross_contracts \<Rightarrow> string list" where
  "differences c d =
     (if execution_recommendation_identity c \<noteq> execution_recommendation_identity d
      then [''execution_recommendation_identity''] else [])
     @ (if human_requirement_disposition_digest c \<noteq> human_requirement_disposition_digest d
        then [''human_requirement_disposition_digest''] else [])
     @ (if additional_closing_issue_ids c \<noteq> additional_closing_issue_ids d
        then [''additional_closing_issue_ids''] else [])
     @ (if architecture_impact_status c \<noteq> architecture_impact_status d
        then [''architecture_impact_status''] else [])"

record revision =
  response_form :: "string option"
  semantic_patch_contract_version :: "int option"
  base_state_identity :: "string option"
  sidecar_bound :: bool
  operation_fields :: "string list"
  matrix_operations :: "string list"

definition mk_revision ::
  "string option \<Rightarrow> int option \<Rightarrow> string option \<Rightarrow> bool \<Rightarrow> pyval list \<Rightarrow> pyval list \<Rightarrow> plan_error + revision" where
  "mk_revision form version base bound ops matrix =
     guardE (\<exists>v \<in> set ops. \<not> is_str v \<or> v = PStr []) (RevisionEntriesInvalid ''operation_fields'')
     (guardE (\<exists>v \<in> set matrix. \<not> is_str v \<or> v = PStr []) (RevisionEntriesInvalid ''matrix_operations'')
     (Inr \<lparr>response_form = form, semantic_patch_contract_version = version,
           base_state_identity = base, sidecar_bound = bound,
           operation_fields = map the_str ops, matrix_operations = map the_str matrix\<rparr>))"

definition authenticated_semantic_patch :: "revision \<Rightarrow> bool" where
  "authenticated_semantic_patch r \<longleftrightarrow>
     response_form r = Some ''semantic-patch-v1'' \<and> semantic_patch_contract_version r = Some 1
     \<and> sidecar_bound r \<and> base_state_identity r \<noteq> None \<and> base_state_identity r \<noteq> Some []"

section \<open>Classifying a planning transition\<close>

record plan_classification =
  pkind :: string
  preason :: string

definition mk_plan_classification :: "string \<Rightarrow> string \<Rightarrow> plan_error + plan_classification" where
  "mk_plan_classification k why =
     guardE (k \<notin> {''recheck'', ''narrow'', ''broad''}) (UnsupportedClassification k)
     (Inr \<lparr>pkind = k, preason = why\<rparr>)"

definition recheck :: "plan_classification \<Rightarrow> bool" where
  "recheck c \<longleftrightarrow> pkind c = ''recheck''"

definition plan_narrow :: "plan_classification \<Rightarrow> bool" where
  "plan_narrow c \<longleftrightarrow> pkind c = ''narrow''"

definition plan_broad :: "plan_classification \<Rightarrow> bool" where
  "plan_broad c \<longleftrightarrow> pkind c = ''broad''"

definition owner_scoped :: "plan_classification \<Rightarrow> bool" where
  "owner_scoped c \<longleftrightarrow> pkind c \<in> {''recheck'', ''narrow''}"

definition NARROW_PLAN_PATCH_FIELDS :: "string list" where
  "NARROW_PLAN_PATCH_FIELDS =
     [''summary'', ''plan_steps'', ''deferred_work'', ''plan_actions'', ''external_dependencies'']"

definition NARROW_PLAN_CONTRACT_BOUND_PATCH_FIELDS :: "string list" where
  "NARROW_PLAN_CONTRACT_BOUND_PATCH_FIELDS = [''execution_recommendation'']"

definition NARROW_PLAN_MATRIX_OPERATIONS :: "string list" where
  "NARROW_PLAN_MATRIX_OPERATIONS = [''matrix_add'', ''matrix_edit'']"

definition broad_plan :: "string \<Rightarrow> plan_classification" where
  "broad_plan why = \<lparr>pkind = ''broad'', preason = why\<rparr>"

definition rendered_difference :: "cross_contracts \<Rightarrow> cross_contracts \<Rightarrow> string \<Rightarrow> string" where
  "rendered_difference prev cur name =
     (case (name = ''execution_recommendation_identity'', recommendation_projection prev,
            recommendation_projection cur) of
        (True, Some p, Some c) \<Rightarrow>
          let names = execution_recommendation_changed_components p c in
          if names \<noteq> [] then name @ '' ('' @ join '', '' names @ '')'' else name
      | _ \<Rightarrow> name)"

definition outside_fields :: "revision \<Rightarrow> string list" where
  "outside_fields r =
     sorted_set (filter (\<lambda>f. f \<notin> set NARROW_PLAN_PATCH_FIELDS
                            \<and> f \<notin> set NARROW_PLAN_CONTRACT_BOUND_PATCH_FIELDS) (operation_fields r))"

definition outside_matrix :: "revision \<Rightarrow> string list" where
  "outside_matrix r =
     sorted_set (filter (\<lambda>m. m \<notin> set NARROW_PLAN_MATRIX_OPERATIONS) (matrix_operations r))"

text \<open>The tests of the revision against the previous key and the cross-cutting contracts, from
  the authenticated patch on: \<open>None\<close> when the revision is narrow.\<close>

definition revision_broad_reason ::
  "plan_key \<Rightarrow> revision \<Rightarrow> cross_contracts option \<Rightarrow> cross_contracts option \<Rightarrow> string option" where
  "revision_broad_reason previous_key rvs previous_contracts current_contracts =
     (if \<not> authenticated_semantic_patch rvs then
        Some ''the revision is not an authenticated semantic-patch-v1 with a bound sidecar''
      else if base_state_identity rvs \<noteq> aggregate_plan_identity previous_key then
        Some ''the revision patch is not bound to the immediately preceding plan identity''
      else case (previous_contracts, current_contracts) of
        (Some prev, Some cur) \<Rightarrow>
          let unobserved = sorted_set (missing_identities prev @ missing_identities cur);
              changed = differences prev cur
          in if unobserved \<noteq> [] then
               Some (''the cross-cutting plan contract identity/identities '' @ join '', '' unobserved
                     @ '' could not be observed on both sides'')
             else if changed \<noteq> [] then
               Some (''cross-cutting plan contract(s) changed: ''
                     @ join '', '' (map (rendered_difference prev cur) changed))
             else if operation_fields rvs = [] \<and> matrix_operations rvs = [] then
               Some (''the candidate plan key changed but the revision reports no ''
                     @ ''authenticated patch operations to classify'')
             else if outside_fields rvs \<noteq> [] then
               Some (''the revision replaces field(s) outside narrow remediation: ''
                     @ join '', '' (outside_fields rvs))
             else if outside_matrix rvs \<noteq> [] then
               Some (''the revision carries risk-matrix operation(s) beyond row add/edit: ''
                     @ join '', '' (outside_matrix rvs))
             else None
      | _ \<Rightarrow> Some ''the cross-cutting plan contract identities are unavailable'')"

definition classify_plan_transition ::
  "plan_key option \<Rightarrow> plan_key option \<Rightarrow> revision option \<Rightarrow> cross_contracts option
     \<Rightarrow> cross_contracts option \<Rightarrow> bool \<Rightarrow> plan_classification" where
  "classify_plan_transition previous_key current_key rvs previous_contracts current_contracts
     ledger_reconstructible =
     (if \<not> ledger_reconstructible then broad_plan ''the active plan finding ledger is not reconstructible''
      else case current_key of
        None \<Rightarrow> broad_plan ''no candidate plan key is available for this round''
      | Some cur \<Rightarrow>
      (case incompleteness_reason cur of
         Some why \<Rightarrow> broad_plan why
       | None \<Rightarrow>
      (case previous_key of
         None \<Rightarrow> broad_plan ''no previous candidate plan key is available for comparison''
       | Some prev \<Rightarrow>
      (case incompleteness_reason prev of
         Some why \<Rightarrow> broad_plan (''the previous candidate plan key is unusable: '' @ why)
       | None \<Rightarrow>
           if key_matches cur (Some prev) then
             \<lparr>pkind = ''recheck'', preason = ''the candidate plan key is unchanged''\<rparr>
           else case rvs of
             None \<Rightarrow> broad_plan ''the candidate plan key changed with no authenticated revision''
           | Some r \<Rightarrow>
               (case revision_broad_reason prev r previous_contracts current_contracts of
                  Some why \<Rightarrow> broad_plan why
                | None \<Rightarrow>
                    \<lparr>pkind = ''narrow'',
                     preason = ''the revision edits plan prose, plan steps, deferred allocations, and ''
                       @ ''risk-matrix rows while every cross-cutting contract is unchanged''\<rparr>)))))"

section \<open>Facts on keys\<close>

lemma missing_components_Nil: "missing_components k = [] \<longleftrightarrow> None \<notin> set (components k)"
  by (auto simp: missing_components_def components_def KEY_NAMES_def)

lemma incompleteness_iff: "incompleteness_reason k = None \<longleftrightarrow> key_complete k"
  by (simp add: incompleteness_reason_def key_complete_def)

lemma wf_component_strip [simp]: "nonblank s \<Longrightarrow> wf_component (Some (strip s))"
  by (simp add: wf_component_def nonblank_def)

lemma key_component_wf: "key_component n v = Inr c \<Longrightarrow> wf_component c"
  by (auto simp: key_component_def wf_component_def nonblank_def split: pyval.splits)

lemma key_component_id: "wf_component c \<Longrightarrow> key_component n (of_opt_str c) = Inr c"
  by (cases c) (auto simp: key_component_def wf_component_def nonblank_def)

lemma mk_plan_key_wf: "mk_plan_key a b c d e v = Inr k \<Longrightarrow> wf_key k"
  by (auto simp: mk_plan_key_def wf_key_def components_def bindE_Inr_iff dest: key_component_wf)

lemma key_from_mapping_as_dict:
  assumes "wf_key k"
  shows "key_from_mapping (key_as_dict k) = Inr k"
proof -
  have wf: "wf_component (subject k)" "wf_component (aggregate_plan_identity k)"
    "wf_component (execution_strategy_identity k)" "wf_component (risk_test_matrix_identity k)"
    "wf_component (requirement_digest k)"
    using assms by (simp_all add: wf_key_def components_def)
  have v: "key_version e (of_opt_int x) = Inr x" for e :: plan_error and x
    by (cases x) (simp_all add: key_version_def)
  have ok: "(of_opt_str x \<noteq> PNone \<and> \<not> is_str (of_opt_str x)) = False" for x
    by (cases x) simp_all
  have get: "py_get (key_as_dict k) ''subject'' = of_opt_str (subject k)"
    "py_get (key_as_dict k) ''aggregate_plan_identity'' = of_opt_str (aggregate_plan_identity k)"
    "py_get (key_as_dict k) ''execution_strategy_identity'' = of_opt_str (execution_strategy_identity k)"
    "py_get (key_as_dict k) ''risk_test_matrix_identity'' = of_opt_str (risk_test_matrix_identity k)"
    "py_get (key_as_dict k) ''surfaced_requirement_id_digest'' = of_opt_str (requirement_digest k)"
    "py_get (key_as_dict k) ''execution_strategy_contract_version'' = of_opt_int (strategy_version k)"
    by (simp_all add: key_as_dict_def)
  have bad: "filter (\<lambda>name. py_get (key_as_dict k) name \<noteq> PNone
      \<and> \<not> is_str (py_get (key_as_dict k) name)) KEY_NAMES = []"
    unfolding KEY_NAMES_def by (simp only: filter.simps get ok if_False)
  obtain kvs where kvs: "key_as_dict k = PDict kvs" by (simp add: key_as_dict_def)
  have "key_from_mapping (key_as_dict k) = mk_plan_key (of_opt_str (subject k))
      (of_opt_str (aggregate_plan_identity k)) (of_opt_str (execution_strategy_identity k))
      (of_opt_str (risk_test_matrix_identity k)) (of_opt_str (requirement_digest k))
      (of_opt_int (strategy_version k))"
    using get bad v [of KeyVersionMalformed "strategy_version k"]
    by (simp add: key_from_mapping_def kvs Let_def del: py_get.simps)
  also have "\<dots> = Inr k"
    by (simp add: mk_plan_key_def key_component_id wf v)
  finally show ?thesis .
qed

interpretation key_codec: record_codec key_as_dict key_from_mapping wf_key
proof unfold_locales
  show "wf_key r \<Longrightarrow> key_from_mapping (key_as_dict r) = Inr r" for r
    by (rule key_from_mapping_as_dict)
  show "key_from_mapping v = Inr r \<Longrightarrow> wf_key r" for v r
    by (auto simp: key_from_mapping_def Let_def bindE_Inr_iff split: pyval.splits dest: mk_plan_key_wf)
qed

section \<open>Facts on transitions\<close>

lemma differences_Nil:
  "differences c d = [] \<longleftrightarrow>
     execution_recommendation_identity c = execution_recommendation_identity d
     \<and> human_requirement_disposition_digest c = human_requirement_disposition_digest d
     \<and> additional_closing_issue_ids c = additional_closing_issue_ids d
     \<and> architecture_impact_status c = architecture_impact_status d"
  by (simp add: differences_def)

lemma sorted_set_Nil [simp]: "sorted_set xs = [] \<longleftrightarrow> xs = []"
  by (metis set_empty sorted_set_props(1))

lemma revision_broad_reason_None:
  "revision_broad_reason prev rvs pc cc = None \<longleftrightarrow>
     authenticated_semantic_patch rvs \<and> base_state_identity rvs = aggregate_plan_identity prev
     \<and> (\<exists>p c. pc = Some p \<and> cc = Some c \<and> missing_identities p = [] \<and> missing_identities c = []
          \<and> differences p c = [])
     \<and> (operation_fields rvs \<noteq> [] \<or> matrix_operations rvs \<noteq> [])
     \<and> set (operation_fields rvs)
         \<subseteq> set NARROW_PLAN_PATCH_FIELDS \<union> set NARROW_PLAN_CONTRACT_BOUND_PATCH_FIELDS
     \<and> set (matrix_operations rvs) \<subseteq> set NARROW_PLAN_MATRIX_OPERATIONS"
  by (auto simp: revision_broad_reason_def Let_def outside_fields_def outside_matrix_def
      filter_empty_conv split: option.splits)

lemma broad_plan_kinds [simp]:
  "plan_broad (broad_plan why)" "\<not> plan_narrow (broad_plan why)" "\<not> recheck (broad_plan why)"
  by (simp_all add: plan_broad_def plan_narrow_def recheck_def broad_plan_def)

lemma classify_unusable:
  assumes "\<not> (ledger \<and> (\<exists>prev cur. previous = Some prev \<and> current = Some cur
      \<and> key_complete prev \<and> key_complete cur))"
  obtains why where "classify_plan_transition previous current r pc cc ledger = broad_plan why"
proof (cases ledger)
  case l: True
  show thesis
  proof (cases current)
    case None
    then show thesis using l that by (simp add: classify_plan_transition_def)
  next
    case cur: (Some cur)
    show thesis
    proof (cases "incompleteness_reason cur")
      case (Some why)
      then show thesis using l cur that by (simp add: classify_plan_transition_def)
    next
      case inc: None
      show thesis
      proof (cases previous)
        case None
        then show thesis using l cur inc that by (simp add: classify_plan_transition_def)
      next
        case prev: (Some prev)
        with assms l cur inc have "incompleteness_reason prev \<noteq> None"
          by (simp add: incompleteness_iff)
        then obtain why where "incompleteness_reason prev = Some why" by blast
        then show thesis using l cur inc prev that by (simp add: classify_plan_transition_def)
      qed
    qed
  qed
qed (use that in \<open>simp add: classify_plan_transition_def\<close>)

section \<open>Properties\<close>

text \<open>When a planning transition keeps owner-scoped review: a recheck is a reconstructible
  ledger with two complete keys of equal components, and a transition is narrow exactly when the
  ledger is reconstructible, both keys are complete and differ, and the revision is an
  authenticated patch bound to the previous plan that carries at least one operation, touches only
  the narrow fields and matrix operations, and leaves every observed cross-cutting contract
  unchanged; everything else is broad.\<close>

theorem plan_transition_kinds:
  "recheck (classify_plan_transition previous current r pc cc ledger) =
     (ledger \<and> (\<exists>prev cur. previous = Some prev \<and> current = Some cur \<and> key_complete prev
        \<and> key_complete cur \<and> components cur = components prev))
   \<and> plan_narrow (classify_plan_transition previous current r pc cc ledger) =
     (ledger \<and> (\<exists>prev cur rvs p c. previous = Some prev \<and> current = Some cur \<and> r = Some rvs
        \<and> pc = Some p \<and> cc = Some c \<and> key_complete prev \<and> key_complete cur
        \<and> components cur \<noteq> components prev
        \<and> authenticated_semantic_patch rvs
        \<and> base_state_identity rvs = aggregate_plan_identity prev
        \<and> missing_identities p = [] \<and> missing_identities c = []
        \<and> execution_recommendation_identity p = execution_recommendation_identity c
        \<and> human_requirement_disposition_digest p = human_requirement_disposition_digest c
        \<and> additional_closing_issue_ids p = additional_closing_issue_ids c
        \<and> architecture_impact_status p = architecture_impact_status c
        \<and> (operation_fields rvs \<noteq> [] \<or> matrix_operations rvs \<noteq> [])
        \<and> set (operation_fields rvs) \<subseteq> set (''execution_recommendation'' # NARROW_PLAN_PATCH_FIELDS)
        \<and> set (matrix_operations rvs) \<subseteq> set NARROW_PLAN_MATRIX_OPERATIONS))
   \<and> plan_broad (classify_plan_transition previous current r pc cc ledger) =
     (\<not> owner_scoped (classify_plan_transition previous current r pc cc ledger))"
proof (cases "ledger \<and> (\<exists>prev cur. previous = Some prev \<and> current = Some cur
      \<and> key_complete prev \<and> key_complete cur)")
  case False
  then obtain why where "classify_plan_transition previous current r pc cc ledger = broad_plan why"
    by (rule classify_unusable)
  with False show ?thesis by (auto simp: owner_scoped_def broad_plan_def plan_broad_def
        plan_narrow_def recheck_def)
next
  case True
  then obtain prev cur where k: "ledger" "previous = Some prev" "current = Some cur"
    "key_complete prev" "key_complete cur" by blast
  then have inc: "incompleteness_reason prev = None" "incompleteness_reason cur = None"
    by (simp_all add: incompleteness_iff)
  have bound: "set NARROW_PLAN_PATCH_FIELDS \<union> set NARROW_PLAN_CONTRACT_BOUND_PATCH_FIELDS
      = set (''execution_recommendation'' # NARROW_PLAN_PATCH_FIELDS)"
    by (simp add: NARROW_PLAN_CONTRACT_BOUND_PATCH_FIELDS_def)
  show ?thesis
  proof (cases "components cur = components prev")
    case True
    then show ?thesis
      using k inc
      by (simp add: classify_plan_transition_def key_matches_def recheck_def plan_narrow_def
          plan_broad_def owner_scoped_def)
  next
    case False
    then have nm: "\<not> key_matches cur (Some prev)" by (simp add: key_matches_def)
    show ?thesis
    proof (cases r)
      case None
      then show ?thesis
        using k inc nm False
        by (simp add: classify_plan_transition_def recheck_def plan_narrow_def plan_broad_def
            owner_scoped_def broad_plan_def)
    next
      case (Some rvs)
      have cls: "classify_plan_transition previous current r pc cc ledger =
          (case revision_broad_reason prev rvs pc cc of
             Some why \<Rightarrow> broad_plan why
           | None \<Rightarrow> \<lparr>pkind = ''narrow'',
               preason = ''the revision edits plan prose, plan steps, deferred allocations, and ''
                 @ ''risk-matrix rows while every cross-cutting contract is unchanged''\<rparr>)"
        using k inc nm Some by (simp add: classify_plan_transition_def)
      have kinds: "recheck (classify_plan_transition previous current r pc cc ledger) = False"
        "plan_narrow (classify_plan_transition previous current r pc cc ledger)
           = (revision_broad_reason prev rvs pc cc = None)"
        "plan_broad (classify_plan_transition previous current r pc cc ledger)
           = (revision_broad_reason prev rvs pc cc \<noteq> None)"
        "owner_scoped (classify_plan_transition previous current r pc cc ledger)
           = (revision_broad_reason prev rvs pc cc = None)"
        unfolding cls
        by (simp_all add: recheck_def plan_narrow_def plan_broad_def owner_scoped_def broad_plan_def
            split: option.split)
      show ?thesis
        unfolding kinds revision_broad_reason_None differences_Nil bound
        using k False Some by (simp, blast)
    qed
  qed
qed

definition ex_key :: "string \<Rightarrow> plan_key" where
  "ex_key s =
     \<lparr>subject = Some s, aggregate_plan_identity = Some ''p'', execution_strategy_identity = Some ''e'',
      risk_test_matrix_identity = Some ''m'', requirement_digest = Some ''d'',
      strategy_version = Some 1\<rparr>"

definition ex_contracts :: cross_contracts where
  "ex_contracts =
     \<lparr>execution_recommendation_identity = Some ''r'', human_requirement_disposition_digest = Some ''h'',
      additional_closing_issue_ids = [], architecture_impact_status = Some ''none'',
      recommendation_projection = None\<rparr>"

definition ex_revision :: revision where
  "ex_revision =
     \<lparr>response_form = Some ''semantic-patch-v1'', semantic_patch_contract_version = Some 1,
      base_state_identity = Some ''p'', sidecar_bound = True,
      operation_fields = [''execution_recommendation''], matrix_operations = []\<rparr>"

theorem plan_transition_kinds_witness:
  "plan_narrow (classify_plan_transition (Some (ex_key ''a'')) (Some (ex_key ''b''))
      (Some ex_revision) (Some ex_contracts) (Some ex_contracts) True)"
proof -
  have "key_complete (ex_key s)" "components (ex_key ''b'') \<noteq> components (ex_key ''a'')" for s
    by (simp_all add: key_complete_def missing_components_Nil components_def ex_key_def
        PLAN_KEY_GENERATION_def)
  moreover have "missing_identities ex_contracts = []"
    by (simp add: missing_identities_def ex_contracts_def identity_observed_def nonblank_def strip_def lstrip_def
        rstrip_def is_space_def)
  moreover have "authenticated_semantic_patch ex_revision"
      "base_state_identity ex_revision = aggregate_plan_identity (ex_key ''a'')"
      "operation_fields ex_revision = [''execution_recommendation'']"
      "matrix_operations ex_revision = []"
    by (simp_all add: authenticated_semantic_patch_def ex_revision_def ex_key_def)
  ultimately show ?thesis
    using plan_transition_kinds [of "Some (ex_key ''a'')" "Some (ex_key ''b'')"
        "Some ex_revision" "Some ex_contracts" "Some ex_contracts" True]
    by simp
qed

text \<open>A persisted candidate key is read back unchanged, and a key that was read back is the same
  candidate as the one written exactly when it is complete, so an incomplete key can never carry an
  approval through a resume.\<close>

theorem plan_key_resume:
  assumes "wf_key k"
  shows "key_from_mapping (key_as_dict k) = Inr k
     \<and> (\<exists>k'. key_from_mapping (key_as_dict k) = Inr k' \<and> key_matches k (Some k') = key_complete k)"
  using key_codec.dec_enc [OF assms] by (simp add: key_matches_def)

theorem plan_key_resume_witness:
  "key_from_mapping (key_as_dict \<lparr>subject = Some ''s'', aggregate_plan_identity = None,
     execution_strategy_identity = Some ''e'', risk_test_matrix_identity = Some ''m'',
     requirement_digest = Some ''d'', strategy_version = Some 1\<rparr>)
   = Inr \<lparr>subject = Some ''s'', aggregate_plan_identity = None,
     execution_strategy_identity = Some ''e'', risk_test_matrix_identity = Some ''m'',
     requirement_digest = Some ''d'', strategy_version = Some 1\<rparr>"
proof -
  have "wf_key \<lparr>subject = Some ''s'', aggregate_plan_identity = None,
     execution_strategy_identity = Some ''e'', risk_test_matrix_identity = Some ''m'',
     requirement_digest = Some ''d'', strategy_version = Some 1\<rparr>"
    by (simp add: wf_key_def components_def wf_component_def strip_def lstrip_def rstrip_def
        is_space_def)
  from plan_key_resume [OF this] show ?thesis by blast
qed

end
