(* ===== verification/Path_Rules.thy ===== *)
theory Path_Rules
  imports Prelude
begin

text \<open>
  The paths and patterns of the pull-request review scheduler
  (\<open>review_scheduling.py\<close>): cleaning and normalising the broad-path rules and their
  digest, the exact path set of a reviewer's \<open>fix_scope\<close>, and matching a changed path
  against a rule.  \<open>posixpath.normpath\<close> and \<open>fnmatch.fnmatchcase\<close> of the standard library
  are written out; \<open>hashlib.sha256(...).hexdigest()\<close> is the parameter \<open>sha\<close>.
\<close>

datatype sched_error =
    UnsupportedPolicy string
  | BroadRuleNotString
  | InvalidBroadRule string
  | BroadRuleNul
  | BroadRulesNotSequence
  | BroadRulesNotIterable
  | BroadRulesEmpty
  | FixScopeNotArray
  | FixScopeEmpty
  | FixScopeTooManyPaths
  | FixScopeEntryNotString
  | FixScopeWhitespace string
  | FixScopeNotExactPath string
  | FixScopeNotNormalized string
  | FixScopePathTooLong
  | FixScopeDuplicate string
  | FixScopeTooLarge
  | ContractReviewersNotUnique
  | ContractPrimaryEmpty
  | ContractNeedsSecondary
  | ContractPrimaryNotMember
  | ContractPrimaryNotAllowed
  | ContractDigestMismatch
  | ContractMalformed
  | ContractIncomplete
  | UnsupportedPhaseCheckpoint string
  | PrePanelSafety "string list" "string list"

section \<open>Standard library: path normalisation\<close>

fun norm_comps :: "bool \<Rightarrow> string list \<Rightarrow> string list \<Rightarrow> string list" where
  "norm_comps rooted acc [] = rev acc"
| "norm_comps rooted acc (c # cs) =
     (if c = [] \<or> c = ''.'' then norm_comps rooted acc cs
      else if c \<noteq> ''..'' \<or> (\<not> rooted \<and> acc = []) \<or> (acc \<noteq> [] \<and> hd acc = ''..'')
        then norm_comps rooted (c # acc) cs
      else norm_comps rooted (tl acc) cs)"

definition posix_normpath :: "string \<Rightarrow> string" where
  "posix_normpath path =
     (if path = [] then ''.''
      else
        let slashes = (if \<not> starts_with ''/'' path then 0
                       else if starts_with ''//'' path \<and> \<not> starts_with ''///'' path then 2
                       else 1 :: nat);
            body = join ''/'' (norm_comps (0 < slashes) [] (split_on CHR ''/'' path));
            full = replicate slashes CHR ''/'' @ body
        in if full = [] then ''.'' else full)"

lemma norm_comps_plain:
  "\<forall>c \<in> set cs. c \<noteq> [] \<and> c \<noteq> ''.'' \<and> c \<noteq> ''..'' \<Longrightarrow> norm_comps r acc cs = rev acc @ cs"
  by (induction cs arbitrary: acc) auto

lemma normpath_plain:
  assumes "\<forall>c \<in> set (split_on CHR ''/'' p). c \<noteq> [] \<and> c \<noteq> ''.'' \<and> c \<noteq> ''..''"
  shows "posix_normpath p = p"
proof -
  have part: "[] \<notin> set (split_on CHR ''/'' p)" using assms by blast
  then have ne: "p \<noteq> []" by (cases p) simp_all
  have "\<not> starts_with ''/'' p"
    using part by (cases p) (simp_all add: starts_with_def split: if_splits)
  moreover have "norm_comps False [] (split_on CHR ''/'' p) = split_on CHR ''/'' p"
    using norm_comps_plain [OF assms, of False "[]"] by simp
  ultimately show ?thesis
    using ne join_split_on [of "CHR ''/''" p] by (simp add: posix_normpath_def Let_def del: join_split_on)
qed

section \<open>Matching by segments: \<open>*\<close> within a segment, \<open>**\<close> over segments\<close>

text \<open>
  Both matchers run over a list of pattern elements, of which the stars take any number of
  subject elements and every other element takes exactly one.
\<close>

locale star_matcher =
  fixes star :: "'p \<Rightarrow> bool"
    and one :: "'p \<Rightarrow> 'x \<Rightarrow> bool"
    and run :: "'p list \<Rightarrow> 'x list \<Rightarrow> bool"
  assumes run_Nil: "run [] xs \<longleftrightarrow> xs = []"
    and run_star: "star p \<Longrightarrow> run (p # ps) xs \<longleftrightarrow> run ps xs \<or> (\<exists>x xs'. xs = x # xs' \<and> run (p # ps) xs')"
    and run_one: "\<not> star p \<Longrightarrow> run (p # ps) xs \<longleftrightarrow> (\<exists>x xs'. xs = x # xs' \<and> one p x \<and> run ps xs')"
begin

text \<open>What a pattern element may take.\<close>

definition takes :: "'p \<Rightarrow> 'x list \<Rightarrow> bool" where
  "takes p xs \<longleftrightarrow> star p \<or> (\<exists>x. xs = [x] \<and> one p x)"

lemma run_star_iff:
  assumes "star p"
  shows "run (p # ps) xs \<longleftrightarrow> (\<exists>us vs. xs = us @ vs \<and> run ps vs)"
proof (induction xs)
  case Nil
  have "run (p # ps) [] \<longleftrightarrow> run ps []" by (subst run_star [OF assms]) simp
  then show ?case by simp
next
  case (Cons x xs)
  have "run (p # ps) (x # xs) \<longleftrightarrow> run ps (x # xs) \<or> run (p # ps) xs"
    by (subst run_star [OF assms]) simp
  then show ?case by (simp only: Cons Cons_eq_append_conv) blast
qed

theorem run_iff_split:
  "run ps xs \<longleftrightarrow> (\<exists>xss. list_all2 takes ps xss \<and> concat xss = xs)"
proof (induction ps arbitrary: xs)
  case Nil
  then show ?case by (simp add: run_Nil eq_commute)
next
  case (Cons p ps)
  have "run (p # ps) xs \<longleftrightarrow> (\<exists>us vs. xs = us @ vs \<and> takes p us \<and> run ps vs)"
  proof (cases "star p")
    case True
    then show ?thesis by (simp add: run_star_iff takes_def)
  next
    case False
    then show ?thesis
      by (simp add: run_one takes_def) (metis append_Cons append_Nil)
  qed
  also have "\<dots> \<longleftrightarrow> (\<exists>us xss. takes p us \<and> list_all2 takes ps xss \<and> xs = us @ concat xss)"
    by (simp only: Cons) blast
  also have "\<dots> \<longleftrightarrow> (\<exists>xss. list_all2 takes (p # ps) xss \<and> concat xss = xs)"
    by (simp add: list_all2_Cons1) (metis concat.simps(2))
  finally show ?case .
qed

lemma run_only_stars: "\<forall>p \<in> set ps. star p \<Longrightarrow> ps \<noteq> [] \<Longrightarrow> run ps xs"
proof (induction ps)
  case (Cons p ps)
  show ?case
  proof (cases "ps = []")
    case True
    have "xs = xs @ []" "run ps []" using True by (auto simp: run_Nil)
    then show ?thesis using Cons.prems run_star_iff [of p ps xs] by auto
  next
    case False
    have "xs = [] @ xs" "run ps xs" using Cons False by auto
    then show ?thesis using Cons.prems run_star_iff [of p ps xs] by auto
  qed
qed simp

end

section \<open>Standard library: \<open>fnmatch.fnmatchcase\<close>\<close>

text \<open>
  A bracket expression is a list of character ranges (a single character is a range to
  itself).  A range that runs backwards is empty, and \<open>fnmatch\<close> removes it; what follows it
  may then be read as a negation.
\<close>

datatype glob = GStar | GAny | GLit char | GSet bool "(char \<times> char) list"

fun set_items :: "string \<Rightarrow> (char \<times> char) list" where
  "set_items (a # h # b # rest) =
     (if h = CHR ''-'' then (a, b) # set_items rest else (a, a) # set_items (h # b # rest))"
| "set_items (a # rest) = (a, a) # set_items rest"
| "set_items [] = []"

definition proper_items :: "string \<Rightarrow> (char \<times> char) list" where
  "proper_items s = filter (\<lambda>(a, b). a \<le> b) (set_items s)"

definition bracket :: "string \<Rightarrow> glob" where
  "bracket s =
     (case s of
        [] \<Rightarrow> GSet False []
      | c # rest \<Rightarrow>
          if c = CHR ''!'' then GSet True (proper_items rest)
          else (case proper_items s of
                  (a, b) # is \<Rightarrow>
                    if a \<noteq> CHR ''!'' then GSet False ((a, b) # is)
                    else if b = CHR ''!'' then GSet True is
                    else GSet True ((CHR ''-'', CHR ''-'') # (b, b) # is)
                | [] \<Rightarrow> GSet False []))"

definition bracket_prefix :: "string \<Rightarrow> nat" where
  "bracket_prefix s =
     (let i = (if starts_with ''!'' s then 1 else 0)
      in if starts_with '']'' (drop i s) then Suc i else i)"

text \<open>The length of the text up to the closing bracket, if there is one.\<close>

definition bracket_end :: "string \<Rightarrow> nat option" where
  "bracket_end s =
     (let i = bracket_prefix s; k = length (takeWhile (\<lambda>c. c \<noteq> CHR '']'') (drop i s))
      in if i + k < length s then Some (i + k) else None)"

function glob_parse :: "string \<Rightarrow> glob list" where
  "glob_parse [] = []"
| "glob_parse (c # s) =
     (if c = CHR ''*'' then GStar # glob_parse s
      else if c = CHR ''?'' then GAny # glob_parse s
      else if c = CHR ''['' then
        (case bracket_end s of
           None \<Rightarrow> GLit c # glob_parse s
         | Some j \<Rightarrow> bracket (take j s) # glob_parse (drop (Suc j) s))
      else GLit c # glob_parse s)"
  by pat_completeness auto
termination by (relation "measure length") auto

fun glob_one :: "glob \<Rightarrow> char \<Rightarrow> bool" where
  "glob_one GStar c = True"
| "glob_one GAny c = True"
| "glob_one (GLit d) c = (c = d)"
| "glob_one (GSet neg is) c = (neg \<noteq> (\<exists>(a, b) \<in> set is. a \<le> c \<and> c \<le> b))"

fun glob_match :: "glob list \<Rightarrow> string \<Rightarrow> bool" where
  "glob_match [] s = (s = [])"
| "glob_match (GStar # g) s =
     (glob_match g s \<or> (case s of [] \<Rightarrow> False | c # s' \<Rightarrow> glob_match (GStar # g) s'))"
| "glob_match (t # g) s = (case s of [] \<Rightarrow> False | c # s' \<Rightarrow> glob_one t c \<and> glob_match g s')"

definition fnmatchcase :: "string \<Rightarrow> string \<Rightarrow> bool" where
  "fnmatchcase name pat = glob_match (glob_parse pat) name"

interpretation fn: star_matcher "\<lambda>t. t = GStar" glob_one glob_match
proof unfold_locales
  show "\<not> p = GStar \<Longrightarrow> glob_match (p # ps) xs \<longleftrightarrow> (\<exists>x xs'. xs = x # xs' \<and> glob_one p x \<and> glob_match ps xs')"
    for p ps xs by (cases p; cases xs) auto
qed (auto split: list.splits)

section \<open>Rule patterns over path segments\<close>

text \<open>\<open>_path_matches\<close>: the inner \<open>match\<close> over the split pattern and the split path.\<close>

fun match_parts :: "string list \<Rightarrow> string list \<Rightarrow> bool" where
  "match_parts [] xs = (xs = [])"
| "match_parts (part # ps) xs =
     (if part = ''**'' then
        match_parts ps xs \<or> (case xs of [] \<Rightarrow> False | x # xs' \<Rightarrow> match_parts (part # ps) xs')
      else (case xs of [] \<Rightarrow> False | x # xs' \<Rightarrow> fnmatchcase x part \<and> match_parts ps xs'))"

definition path_matches :: "string \<Rightarrow> string \<Rightarrow> bool" where
  "path_matches path pattern = match_parts (split_on CHR ''/'' pattern) (split_on CHR ''/'' path)"

interpretation pm: star_matcher "\<lambda>p. p = ''**''" "\<lambda>p x. fnmatchcase x p" match_parts
  by unfold_locales (auto split: list.splits)


section \<open>Broad-path rules\<close>

definition DEFAULT_BROAD_RULES :: "string list" where
  "DEFAULT_BROAD_RULES =
     [''.github/**'', ''**/workflows/**'', ''**/actions/**'', ''Dockerfile*'', ''docker-compose*'',
      ''Makefile'', ''pyproject.toml'', ''setup.py'', ''setup.cfg'', ''tox.ini'', ''noxfile.py'',
      ''requirements*.txt'', ''Pipfile.lock'', ''poetry.lock'', ''uv.lock'', ''package-lock.json'',
      ''npm-shrinkwrap.json'', ''pnpm-lock.yaml'', ''yarn.lock'', ''**/schema/**'', ''**/schemas/**'',
      ''**/migration/**'', ''**/migrations/**'', ''alembic.ini'', ''CODEOWNERS'', ''.gitignore'',
      ''.gitattributes'', ''.editorconfig'']"

text \<open>
  \<open>PurePosixPath(v).parts\<close> holds \<open>".."\<close> exactly when a component of \<open>v.split("/")\<close> is
  \<open>".."\<close>: the parts are the components without the empty ones and the single dots.
\<close>

definition clean_rule :: "pyval \<Rightarrow> sched_error + string" where
  "clean_rule rule =
     (case rule of
        PStr r \<Rightarrow>
          (let v = replace_char CHR 0x5C CHR ''/'' (strip r);
               parts = split_on CHR ''/'' v
           in guardE (v = [] \<or> starts_with ''/'' v \<or> ''..'' \<in> set parts
                      \<or> (\<exists>part \<in> set parts. part = [] \<or> part = ''.''))
                (InvalidBroadRule r)
              (guardE (CHR 0x00 \<in> set v) BroadRuleNul (Inr v)))
      | _ \<Rightarrow> Inl BroadRuleNotString)"

definition normalize_broad_rules :: "pyval \<Rightarrow> sched_error + string list" where
  "normalize_broad_rules rules =
     guardE (is_str rules) BroadRulesNotSequence
     (case (if rules = PNone then Some (map PStr DEFAULT_BROAD_RULES) else py_iter rules) of
        None \<Rightarrow> Inl BroadRulesNotIterable
      | Some values \<Rightarrow>
          bindE (mapE clean_rule values) (\<lambda>normalized.
          guardE (normalized = []) BroadRulesEmpty (Inr (sorted_set normalized))))"

definition broad_rules_digest :: "(string \<Rightarrow> string) \<Rightarrow> pyval \<Rightarrow> sched_error + string" where
  "broad_rules_digest sha rules =
     bindE (normalize_broad_rules rules) (\<lambda>normalized. Inr (take 16 (sha (json_str_list normalized))))"

text \<open>The rules \<open>clean_rule\<close> leaves as they are, and the shape of a normalised rule list.\<close>

definition clean_rule_ok :: "string \<Rightarrow> bool" where
  "clean_rule_ok r \<longleftrightarrow> clean_rule (PStr r) = Inr r"

definition broad_rules_normal :: "string list \<Rightarrow> bool" where
  "broad_rules_normal rs \<longleftrightarrow> rs \<noteq> [] \<and> sorted rs \<and> distinct rs \<and> (\<forall>r \<in> set rs. clean_rule_ok r)"

section \<open>Exact fix scopes\<close>

definition MAX_FIX_SCOPE_ENTRIES :: nat where "MAX_FIX_SCOPE_ENTRIES = 32"
definition MAX_FIX_SCOPE_PATH_BYTES :: nat where "MAX_FIX_SCOPE_PATH_BYTES = 240"
definition MAX_FIX_SCOPE_BYTES :: nat where "MAX_FIX_SCOPE_BYTES = 4096"

text \<open>\<open>re.match(r"^[A-Za-z]:", path)\<close>\<close>

definition has_drive :: "string \<Rightarrow> bool" where
  "has_drive p =
     (case p of
        a # b # _ \<Rightarrow> (65 \<le> code a \<and> code a \<le> 90 \<or> 97 \<le> code a \<and> code a \<le> 122) \<and> b = CHR '':''
      | _ \<Rightarrow> False)"

definition inexact_path :: "string \<Rightarrow> bool" where
  "inexact_path path \<longleftrightarrow>
     path = [] \<or> CHR 0x00 \<in> set path \<or> CHR 0x5C \<in> set path \<or> starts_with ''/'' path
     \<or> has_drive path
     \<or> (\<exists>part \<in> set (split_on CHR ''/'' path). part = [] \<or> part = ''.'' \<or> part = ''..'')
     \<or> (\<exists>c \<in> set ''*?[]{}''. c \<in> set path)"

text \<open>The loop over the entries, with the paths taken so far and their bytes.\<close>

fun fix_scope_loop :: "pyval list \<Rightarrow> string list \<Rightarrow> nat \<Rightarrow> sched_error + string list \<times> nat" where
  "fix_scope_loop [] result total_bytes = Inr (result, total_bytes)"
| "fix_scope_loop (PStr raw # more) result total_bytes =
     guardE (raw \<noteq> strip raw) (FixScopeWhitespace raw)
     (guardE (inexact_path raw) (FixScopeNotExactPath raw)
     (let normalized = posix_normpath raw; encoded_size = utf8_size normalized in
      guardE (normalized \<noteq> raw \<or> normalized = ''.'') (FixScopeNotNormalized raw)
     (guardE (encoded_size > MAX_FIX_SCOPE_PATH_BYTES) FixScopePathTooLong
     (guardE (normalized \<in> set result) (FixScopeDuplicate normalized)
     (fix_scope_loop more (result @ [normalized]) (total_bytes + encoded_size))))))"
| "fix_scope_loop (_ # more) result total_bytes = Inl FixScopeEntryNotString"

definition normalize_fix_scope :: "pyval \<Rightarrow> sched_error + string list" where
  "normalize_fix_scope v =
     (let run = (\<lambda>xs.
            guardE (xs = []) FixScopeEmpty
            (guardE (length xs > MAX_FIX_SCOPE_ENTRIES) FixScopeTooManyPaths
            (bindE (fix_scope_loop xs [] 0) (\<lambda>(result, total_bytes).
             guardE (total_bytes > MAX_FIX_SCOPE_BYTES) FixScopeTooLarge (Inr result)))))
      in case v of PList xs \<Rightarrow> run xs | PTuple xs \<Rightarrow> run xs | _ \<Rightarrow> Inl FixScopeNotArray)"

definition normalize_optional_fix_scope :: "pyval \<Rightarrow> sched_error + string list option" where
  "normalize_optional_fix_scope v =
     (if v = PNone then Inr None else bindE (normalize_fix_scope v) (\<lambda>r. Inr (Some r)))"

text \<open>An argument that holds a tuple of strings.\<close>

abbreviation str_tuple :: "string list \<Rightarrow> pyval" where
  "str_tuple xs \<equiv> PTuple (map PStr xs)"

text \<open>The paths a scope may hold, and the scopes themselves.\<close>

definition exact_path :: "string \<Rightarrow> bool" where
  "exact_path p \<longleftrightarrow> strip p = p \<and> \<not> inexact_path p \<and> utf8_size p \<le> MAX_FIX_SCOPE_PATH_BYTES"

definition valid_fix_scope :: "string list \<Rightarrow> bool" where
  "valid_fix_scope ps \<longleftrightarrow>
     ps \<noteq> [] \<and> length ps \<le> MAX_FIX_SCOPE_ENTRIES \<and> distinct ps
     \<and> (\<forall>p \<in> set ps. exact_path p)
     \<and> sum_list (map utf8_size ps) \<le> MAX_FIX_SCOPE_BYTES"

lemma inexact_normpath:
  assumes "\<not> inexact_path p"
  shows "posix_normpath p = p" and "p \<noteq> ''.''"
proof -
  have parts: "\<forall>c \<in> set (split_on CHR ''/'' p). c \<noteq> [] \<and> c \<noteq> ''.'' \<and> c \<noteq> ''..''"
    using assms unfolding inexact_path_def by blast
  show "posix_normpath p = p" by (rule normpath_plain [OF parts])
  show "p \<noteq> ''.''"
  proof
    assume "p = ''.''"
    then have "''.'' \<in> set (split_on CHR ''/'' p)" by simp
    with parts show False by blast
  qed
qed

text \<open>The \<open>normalized != path\<close> test of the loop never fires: the earlier tests exclude it.\<close>

lemma fix_scope_loop_PStr:
  "fix_scope_loop (PStr raw # more) result n =
     guardE (raw \<noteq> strip raw) (FixScopeWhitespace raw)
     (guardE (inexact_path raw) (FixScopeNotExactPath raw)
     (guardE (utf8_size raw > MAX_FIX_SCOPE_PATH_BYTES) FixScopePathTooLong
     (guardE (raw \<in> set result) (FixScopeDuplicate raw)
     (fix_scope_loop more (result @ [raw]) (n + utf8_size raw)))))"
  by (cases "raw = strip raw"; cases "inexact_path raw")
     (simp_all add: Let_def inexact_normpath guardE_def)

declare fix_scope_loop.simps(2) [simp del]

lemma fix_scope_loop_Inr:
  "fix_scope_loop xs acc n = Inr (res, m) \<longleftrightarrow>
     (\<exists>ps. xs = map PStr ps \<and> res = acc @ ps \<and> m = n + sum_list (map utf8_size ps)
        \<and> (\<forall>p \<in> set ps. exact_path p) \<and> distinct ps \<and> set ps \<inter> set acc = {})"
proof (induction xs arbitrary: acc n)
  case Nil
  then show ?case by auto
next
  case (Cons x xs)
  show ?case
  proof (cases x)
    case (PStr raw)
    have "fix_scope_loop (x # xs) acc n = Inr (res, m) \<longleftrightarrow>
        exact_path raw \<and> raw \<notin> set acc
        \<and> fix_scope_loop xs (acc @ [raw]) (n + utf8_size raw) = Inr (res, m)"
      by (auto simp: PStr fix_scope_loop_PStr exact_path_def)
    also have "\<dots> \<longleftrightarrow> (\<exists>ps. xs = map PStr ps \<and> res = acc @ raw # ps
        \<and> m = n + sum_list (map utf8_size (raw # ps)) \<and> (\<forall>p \<in> set (raw # ps). exact_path p)
        \<and> distinct (raw # ps) \<and> set (raw # ps) \<inter> set acc = {})"
      unfolding Cons by (auto simp: add.assoc)
    also have "\<dots> \<longleftrightarrow> (\<exists>ps. x # xs = map PStr ps \<and> res = acc @ ps
        \<and> m = n + sum_list (map utf8_size ps) \<and> (\<forall>p \<in> set ps. exact_path p)
        \<and> distinct ps \<and> set ps \<inter> set acc = {})"
      by (auto simp: PStr Cons_eq_map_conv)
    finally show ?thesis .
  qed (auto simp: Cons_eq_map_conv)
qed

lemma normalize_fix_scope_tuple [simp]:
  "normalize_fix_scope (PTuple xs) = normalize_fix_scope (PList xs)"
  by (simp add: normalize_fix_scope_def)

text \<open>What the validator accepts, and that it returns its input unchanged.\<close>

lemma normalize_fix_scope_Inr_iff:
  "normalize_fix_scope v = Inr ps \<longleftrightarrow>
     (v = PList (map PStr ps) \<or> v = PTuple (map PStr ps)) \<and> valid_fix_scope ps"
proof -
  have run: "guardE (xs = []) FixScopeEmpty
            (guardE (length xs > MAX_FIX_SCOPE_ENTRIES) FixScopeTooManyPaths
            (bindE (fix_scope_loop xs [] 0) (\<lambda>(result, total_bytes).
             guardE (total_bytes > MAX_FIX_SCOPE_BYTES) FixScopeTooLarge (Inr result)))) = Inr ps
        \<longleftrightarrow> xs = map PStr ps \<and> valid_fix_scope ps" for xs
    by (auto simp: bindE_Inr_iff fix_scope_loop_Inr valid_fix_scope_def)
  show ?thesis
    by (cases v) (simp_all only: normalize_fix_scope_def Let_def run pyval.case pyval.distinct
        pyval.inject sum.distinct HOL.simp_thms)
qed

lemma normalize_fix_scope_strings:
  "normalize_fix_scope (str_tuple ss) = Inr ps \<longleftrightarrow> ps = ss \<and> valid_fix_scope ss"
  by (auto simp: normalize_fix_scope_Inr_iff simp del: normalize_fix_scope_tuple)

lemma fix_scope_exact: "valid_fix_scope ps \<Longrightarrow> p \<in> set ps \<Longrightarrow> exact_path p"
  by (simp add: valid_fix_scope_def)

lemma normalize_fix_scope_single: "is_ok (normalize_fix_scope (PTuple [PStr p])) \<longleftrightarrow> exact_path p"
proof -
  have "exact_path p \<Longrightarrow> valid_fix_scope [p]"
    by (simp add: valid_fix_scope_def exact_path_def MAX_FIX_SCOPE_ENTRIES_def
        MAX_FIX_SCOPE_PATH_BYTES_def MAX_FIX_SCOPE_BYTES_def)
  moreover have "[PStr p] = map PStr ps \<longleftrightarrow> ps = [p]" for ps
    by (auto simp: Cons_eq_map_conv)
  ultimately show ?thesis
    using fix_scope_exact [of "[p]" p]
    by (auto simp: is_ok_iff normalize_fix_scope_Inr_iff simp del: normalize_fix_scope_tuple)
qed

section \<open>Facts on broad rules\<close>

lemma strip_map:
  assumes "\<And>c. is_space (f c) = is_space c"
  shows "strip (map f s) = map f (strip s)"
proof -
  have "is_space \<circ> f = is_space" using assms by (simp add: fun_eq_iff)
  then show ?thesis
    by (simp add: strip_def lstrip_def rstrip_def dropWhile_map rev_map)
qed

lemma strip_replace_backslash:
  "strip (replace_char CHR 0x5C CHR ''/'' s)
     = replace_char CHR 0x5C CHR ''/'' (strip s)"
  unfolding replace_char_def by (rule strip_map) (simp add: is_space_def)

lemma replace_char_idem [simp]: "replace_char a b (replace_char a b s) = replace_char a b s"
  by (simp add: replace_char_def)

text \<open>A cleaned rule is left as it is by cleaning it again.\<close>

lemma clean_rule_clean: "clean_rule v = Inr r \<Longrightarrow> clean_rule_ok r"
proof (cases v)
  case (PStr s)
  assume v: "clean_rule v = Inr r"
  have r: "r = replace_char CHR 0x5C CHR ''/'' (strip s)"
    using v by (simp add: PStr clean_rule_def Let_def)
  have "replace_char CHR 0x5C CHR ''/'' (strip r) = r"
    unfolding r by (simp only: strip_replace_backslash strip_strip replace_char_idem)
  then show ?thesis
    using v r by (simp add: PStr clean_rule_def clean_rule_ok_def Let_def)
qed (simp_all add: clean_rule_def)

lemma mapE_clean_rule: "\<forall>r \<in> set rs. clean_rule_ok r \<Longrightarrow> mapE clean_rule (map PStr rs) = Inr rs"
  by (induction rs) (simp_all add: clean_rule_ok_def)

lemma normalize_broad_rules_normal:
  assumes "normalize_broad_rules v = Inr rs"
  shows "broad_rules_normal rs"
proof -
  obtain ns xs where ns: "mapE clean_rule xs = Inr ns" "ns \<noteq> []" "rs = sorted_set ns"
    using assms by (auto simp: normalize_broad_rules_def bindE_Inr_iff split: option.splits)
  then have "\<forall>r \<in> set ns. clean_rule_ok r"
    using mapE_set [OF ns(1)] clean_rule_clean by blast
  then show ?thesis
    using ns(2,3) sorted_set_props(1) [of ns] by (simp add: broad_rules_normal_def flip: set_empty)
qed

lemma normalize_broad_rules_id:
  assumes "broad_rules_normal rs"
  shows "normalize_broad_rules (str_tuple rs) = Inr rs"
    and "normalize_broad_rules (PList (map PStr rs)) = Inr rs"
  using assms
  by (simp_all add: normalize_broad_rules_def broad_rules_normal_def mapE_clean_rule sorted_set_id)

section \<open>Properties\<close>

text \<open>C38: The memo-free recursion of the rule matcher decides the intended relation: a path
  matches a pattern exactly when its segments can be cut into consecutive groups, one per pattern
  part, where a double star takes any group and every other part takes one segment that it
  matches as a glob.\<close>

theorem path_matches_iff_groups:
  "path_matches p pattern \<longleftrightarrow>
     (\<exists>groups. concat groups = split_on CHR ''/'' p
        \<and> list_all2 (\<lambda>part group. part = ''**'' \<or> (\<exists>seg. group = [seg] \<and> fnmatchcase seg part))
            (split_on CHR ''/'' pattern) groups)"
  unfolding path_matches_def pm.run_iff_split pm.takes_def by blast

text \<open>The same for a glob within one segment: a name matches exactly when it can be cut into
  consecutive pieces, one per token of the pattern, where a star takes any piece and every other
  token takes one character.\<close>

theorem fnmatch_iff_pieces:
  "fnmatchcase name pat \<longleftrightarrow>
     (\<exists>pieces. concat pieces = name
        \<and> list_all2 (\<lambda>t piece. t = GStar \<or> (\<exists>c. piece = [c] \<and> glob_one t c)) (glob_parse pat) pieces)"
  unfolding fnmatchcase_def fn.run_iff_split fn.takes_def by blast

text \<open>What a reviewer may put into a fix scope: the validator returns a scope exactly for a
  list (or tuple) of 1 to 32 pairwise different strings, at most 4096 bytes together, of which
  each is a relative POSIX path without surrounding white space, at most 240 bytes, unchanged by
  path normalisation and free of empty, dot and dot-dot parts and of glob characters; and it
  returns it unchanged.\<close>

theorem fix_scope_accepts_exactly:
  "normalize_fix_scope v = Inr ps \<longleftrightarrow>
     (v = PList (map PStr ps) \<or> v = PTuple (map PStr ps))
     \<and> ps \<noteq> [] \<and> length ps \<le> 32 \<and> distinct ps \<and> sum_list (map utf8_size ps) \<le> 4096
     \<and> (\<forall>p \<in> set ps. strip p = p \<and> p \<noteq> [] \<and> utf8_size p \<le> 240 \<and> posix_normpath p = p
          \<and> \<not> starts_with ''/'' p \<and> \<not> has_drive p
          \<and> set (split_on CHR ''/'' p) \<inter> {[], ''.'', ''..''} = {}
          \<and> set p \<inter> set (CHR 0x00 # CHR 0x5C # ''*?[]{}'') = {})"
proof -
  have each: "exact_path p \<longleftrightarrow> strip p = p \<and> p \<noteq> [] \<and> utf8_size p \<le> 240 \<and> posix_normpath p = p
          \<and> \<not> starts_with ''/'' p \<and> \<not> has_drive p
          \<and> set (split_on CHR ''/'' p) \<inter> {[], ''.'', ''..''} = {}
          \<and> set p \<inter> set (CHR 0x00 # CHR 0x5C # ''*?[]{}'') = {}" for p
    using inexact_normpath(1) [of p]
    unfolding exact_path_def MAX_FIX_SCOPE_PATH_BYTES_def
    by (auto simp: inexact_path_def)
  show ?thesis
    unfolding normalize_fix_scope_Inr_iff valid_fix_scope_def each
    by (simp only: MAX_FIX_SCOPE_ENTRIES_def MAX_FIX_SCOPE_BYTES_def) blast
qed

theorem fix_scope_accepts_exactly_witness:
  "normalize_fix_scope (PList [PStr ''src/app.py'', PStr ''README.md'']) = Inr [''src/app.py'', ''README.md'']"
proof -
  have bytes: "\<forall>p \<in> set [''src/app.py'', ''README.md'']. utf8_size p = length p"
    by (simp add: utf8_size_def)
  show ?thesis
    unfolding fix_scope_accepts_exactly using bytes
    by (simp add: strip_def lstrip_def rstrip_def is_space_def posix_normpath_def starts_with_def
        has_drive_def Let_def)
qed

end
