(* ===== verification/Review_Scheduling.thy ===== *)
theory Review_Scheduling
  imports Path_Rules
begin

text \<open>
  The scheduler of pull-request re-review (\<open>review_scheduling.py\<close>): policy capabilities, the
  immutable contract and its JSON form, the classification of a candidate transition as narrow
  or broad from Git facts, and the choice of the reviewers of one round.
\<close>

section \<open>Policies\<close>

record capabilities =
  scheduler_enabled :: bool
  owner_scoped_reconciliation :: bool
  selective_pausing :: bool
  phase_aware :: bool
  counts_avoided_calls :: bool
  requires_primary :: bool
  recovery_latches_force_full :: bool

definition caps_all_reviewers :: capabilities where
  "caps_all_reviewers =
     \<lparr>scheduler_enabled = False, owner_scoped_reconciliation = False, selective_pausing = False,
      phase_aware = False, counts_avoided_calls = False, requires_primary = False,
      recovery_latches_force_full = False\<rparr>"

definition caps_selective :: capabilities where
  "caps_selective =
     \<lparr>scheduler_enabled = True, owner_scoped_reconciliation = True, selective_pausing = True,
      phase_aware = False, counts_avoided_calls = True, requires_primary = False,
      recovery_latches_force_full = False\<rparr>"

definition caps_staged :: capabilities where
  "caps_staged =
     \<lparr>scheduler_enabled = True, owner_scoped_reconciliation = True, selective_pausing = True,
      phase_aware = True, counts_avoided_calls = True, requires_primary = True,
      recovery_latches_force_full = True\<rparr>"

definition policy_capabilities :: "string \<Rightarrow> sched_error + capabilities" where
  "policy_capabilities policy =
     (if policy = ''all-reviewers'' then Inr caps_all_reviewers
      else if policy = ''selective-intermediate'' then Inr caps_selective
      else if policy = ''primary-then-panel'' then Inr caps_staged
      else Inl (UnsupportedPolicy policy))"

definition SCHEDULER_PHASES :: "string list" where
  "SCHEDULER_PHASES =
     [''capture-evidence'', ''full-board'', ''primary'', ''secondary-audit'', ''remediation'',
      ''final-secondary-sweep'']"

section \<open>The contract\<close>

record contract =
  required_reviewers :: "string list"
  policy :: string
  broad_rules :: "string list"
  rules_digest :: "string option"
  primary_reviewer :: "string option"

definition rules_hash :: "(string \<Rightarrow> string) \<Rightarrow> string list \<Rightarrow> string" where
  "rules_hash sha rules = take 16 (sha (json_str_list rules))"

text \<open>\<open>__post_init__\<close>: every contract of a run has passed these checks.\<close>

definition mk_contract ::
  "(string \<Rightarrow> string) \<Rightarrow> pyval list \<Rightarrow> string \<Rightarrow> pyval \<Rightarrow> string option \<Rightarrow> pyval \<Rightarrow> sched_error + contract" where
  "mk_contract sha reviewers pol rules digest primary =
     guardE (reviewers = [] \<or> (\<exists>r \<in> set reviewers. \<not> is_str r \<or> r = PStr []) \<or> \<not> no_dups reviewers)
       ContractReviewersNotUnique
     (bindE (policy_capabilities pol) (\<lambda>caps.
      guardE (primary \<noteq> PNone \<and> (\<not> is_str primary \<or> primary = PStr [])) ContractPrimaryEmpty
     (bindE (if requires_primary caps then
               guardE (length reviewers < 2) ContractNeedsSecondary
               (guardE (primary \<notin> set reviewers) ContractPrimaryNotMember (Inr ()))
             else guardE (primary \<noteq> PNone) ContractPrimaryNotAllowed (Inr ())) (\<lambda>_.
      bindE (normalize_broad_rules rules) (\<lambda>normal.
      bindE (broad_rules_digest sha (str_tuple normal)) (\<lambda>d.
      guardE (digest \<noteq> None \<and> digest \<noteq> Some d) ContractDigestMismatch
      (Inr \<lparr>required_reviewers = map the_str reviewers, policy = pol, broad_rules = normal,
            rules_digest = Some d, primary_reviewer = opt_str primary\<rparr>)))))))"

definition contract_as_dict :: "contract \<Rightarrow> pyval" where
  "contract_as_dict c =
     PDict [(''required_reviewers'', PList (map PStr (required_reviewers c))),
            (''policy'', PStr (policy c)),
            (''primary_reviewer'', of_opt_str (primary_reviewer c)),
            (''broad_rules'', PList (map PStr (broad_rules c))),
            (''broad_rules_digest'', of_opt_str (rules_digest c))]"

definition contract_from_mapping :: "(string \<Rightarrow> string) \<Rightarrow> pyval \<Rightarrow> sched_error + contract" where
  "contract_from_mapping sha v =
     (case v of
        PDict _ \<Rightarrow>
          (case (py_get v ''required_reviewers'', py_get v ''broad_rules'', py_get v ''policy'') of
             (PList reviewers, PList rules, PStr pol) \<Rightarrow>
               let primary = py_get v ''primary_reviewer''; digest = py_get v ''broad_rules_digest'' in
               guardE ((\<exists>r \<in> set reviewers. \<not> is_str r \<or> r = PStr [])
                       \<or> (primary \<noteq> PNone \<and> \<not> is_str primary)) ContractIncomplete
               (mk_contract sha reviewers pol (PTuple rules)
                  (if digest = PNone then None else Some (py_str digest)) primary)
           | _ \<Rightarrow> Inl ContractIncomplete)
      | _ \<Rightarrow> Inl ContractMalformed)"

definition make_contract ::
  "(string \<Rightarrow> string) \<Rightarrow> pyval list \<Rightarrow> string \<Rightarrow> pyval \<Rightarrow> pyval \<Rightarrow> sched_error + contract" where
  "make_contract sha reviewers pol rules primary =
     bindE (normalize_broad_rules rules) (\<lambda>normal.
     mk_contract sha reviewers pol (str_tuple normal) None primary)"

definition wf_contract :: "(string \<Rightarrow> string) \<Rightarrow> contract \<Rightarrow> bool" where
  "wf_contract sha c \<longleftrightarrow>
     required_reviewers c \<noteq> [] \<and> [] \<notin> set (required_reviewers c) \<and> distinct (required_reviewers c)
     \<and> (\<exists>caps. policy_capabilities (policy c) = Inr caps
          \<and> (if requires_primary caps
             then 2 \<le> length (required_reviewers c)
                  \<and> (\<exists>p. primary_reviewer c = Some p \<and> p \<in> set (required_reviewers c))
             else primary_reviewer c = None))
     \<and> broad_rules_normal (broad_rules c)
     \<and> rules_digest c = Some (rules_hash sha (broad_rules c))"

section \<open>Obligations and changes\<close>

record obligation =
  item_id :: string
  ob_status :: string
  scope :: "string list option"
  resolution_owners :: "string list"
  pending_owners :: "string list"

definition ACTIVE_STATUSES :: "string list" where
  "ACTIVE_STATUSES = [''blocking'', ''same-pr'', ''same-plan'']"

definition active :: "obligation \<Rightarrow> bool" where
  "active ob \<longleftrightarrow> ob_status ob \<in> set ACTIVE_STATUSES"

definition active_obligations :: "obligation list \<Rightarrow> obligation list" where
  "active_obligations obs = filter active obs"

record git_change =
  path :: string
  change_status :: string
  binary :: bool
  mode_changed :: bool

record classification =
  kind :: string
  reason :: string
  changed_paths :: "string list"

definition narrow :: "classification \<Rightarrow> bool" where
  "narrow c \<longleftrightarrow> kind c = ''narrow''"

definition broad :: "classification \<Rightarrow> bool" where
  "broad c \<longleftrightarrow> kind c = ''broad''"

section \<open>Classifying a transition\<close>

text \<open>The \<open>try\<close> block: the union of the scopes, or the reason that makes the transition broad.\<close>

definition ob_reconstructible :: "obligation \<Rightarrow> bool" where
  "ob_reconstructible ob \<longleftrightarrow>
     scope ob \<noteq> None \<and> resolution_owners ob \<noteq> [] \<and> no_dups (resolution_owners ob)
     \<and> pending_owners ob \<noteq> [] \<and> set (pending_owners ob) \<subseteq> set (resolution_owners ob)"

definition no_scope_reason :: string where
  "no_scope_reason = ''an obligation has no valid exact fix scope''"

fun ledger_scopes :: "obligation list \<Rightarrow> string + string list" where
  "ledger_scopes [] = Inr []"
| "ledger_scopes (ob # obs) =
     (if \<not> ob_reconstructible ob then Inl ''the active obligation ledger is not reconstructible''
      else case normalize_fix_scope (str_tuple (the (scope ob))) of
             Inl _ \<Rightarrow> Inl no_scope_reason
           | Inr ps \<Rightarrow> bindE (ledger_scopes obs) (\<lambda>qs. Inr (ps @ qs)))"

definition normalized_scopes :: "string list option \<Rightarrow> obligation list option \<Rightarrow> string + string list" where
  "normalized_scopes scopes obs =
     (case (case scopes of None \<Rightarrow> Inr [] | Some ss \<Rightarrow> normalize_fix_scope (str_tuple ss)) of
        Inl _ \<Rightarrow> Inl no_scope_reason
      | Inr given \<Rightarrow>
          (case obs of
             Some os \<Rightarrow> bindE (ledger_scopes (active_obligations os)) (\<lambda>more. Inr (given @ more))
           | None \<Rightarrow> if given = [] then Inl no_scope_reason else Inr given))"

text \<open>\<open>change.status.upper() in {"A", "M"}\<close>\<close>

definition is_text_change :: "git_change \<Rightarrow> bool" where
  "is_text_change c \<longleftrightarrow>
     change_status c \<in> {''A'', ''a'', ''M'', ''m''} \<and> \<not> binary c \<and> \<not> mode_changed c"

definition posix_path :: "git_change \<Rightarrow> string" where
  "posix_path c = replace_char CHR 0x5C CHR ''/'' (path c)"

text \<open>The loop over the observed changes: the first reason that makes the transition broad.\<close>

fun check_changes :: "string list \<Rightarrow> string list \<Rightarrow> git_change list \<Rightarrow> string option" where
  "check_changes rules scopes [] = None"
| "check_changes rules scopes (c # cs) =
     (let p = posix_path c in
      if \<not> is_ok (normalize_fix_scope (PTuple [PStr p])) then Some ''diff contained an invalid path''
      else if \<not> is_text_change c then
        Some ''diff contained a rename, deletion, binary, mode, or other non-text change''
      else if p \<notin> set scopes then
        Some (''diff path '' @ py_repr p @ '' is outside obligation scopes'')
      else if (\<exists>rule \<in> set rules. path_matches p rule) then
        Some (''diff path '' @ py_repr p @ '' matches a broad rule'')
      else check_changes rules scopes cs)"

definition broad_for :: "string \<Rightarrow> string list \<Rightarrow> classification" where
  "broad_for why paths = \<lparr>kind = ''broad'', reason = why, changed_paths = paths\<rparr>"

definition missing_sha :: "string option \<Rightarrow> bool" where
  "missing_sha s \<longleftrightarrow> s = None \<or> s = Some []"

definition classify_transition ::
  "string option \<Rightarrow> string option \<Rightarrow> git_change list \<Rightarrow> string list option \<Rightarrow> pyval
     \<Rightarrow> obligation list option \<Rightarrow> bool \<Rightarrow> bool \<Rightarrow> bool \<Rightarrow> sched_error + classification" where
  "classify_transition previous_sha current_sha changes scopes rules obs
     ancestor diff_complete history_available =
     (if missing_sha previous_sha \<or> missing_sha current_sha \<or> previous_sha = current_sha
        then Inr (broad_for ''missing or unchanged review SHA'' [])
      else if \<not> history_available \<or> \<not> ancestor
        then Inr (broad_for ''candidate history is not an available ancestor'' [])
      else if \<not> diff_complete
        then Inr (broad_for ''complete exact Git diff was unavailable'' [])
      else case normalized_scopes scopes obs of
        Inl why \<Rightarrow> Inr (broad_for why [])
      | Inr allowed \<Rightarrow>
          bindE (normalize_broad_rules rules) (\<lambda>normal.
          let paths = map path changes in
          Inr (if changes = [] then broad_for ''transition contained no observable diff'' paths
               else case check_changes normal allowed changes of
                      Some why \<Rightarrow> broad_for why paths
                    | None \<Rightarrow>
                        \<lparr>kind = ''narrow'',
                         reason = ''all text additions/modifications stay within exact obligation scopes'',
                         changed_paths = paths\<rparr>)))"

section \<open>Facts on contracts\<close>

lemma policy_capabilities_Inr:
  "policy_capabilities pol = Inr caps \<longleftrightarrow>
     pol = ''all-reviewers'' \<and> caps = caps_all_reviewers
     \<or> pol = ''selective-intermediate'' \<and> caps = caps_selective
     \<or> pol = ''primary-then-panel'' \<and> caps = caps_staged"
  by (auto simp: policy_capabilities_def)

lemma requires_primary_iff:
  "policy_capabilities pol = Inr caps \<Longrightarrow> requires_primary caps \<longleftrightarrow> pol = ''primary-then-panel''"
  by (auto simp: policy_capabilities_Inr caps_all_reviewers_def caps_selective_def caps_staged_def)

lemma broad_rules_digest_normal:
  "broad_rules_normal rs \<Longrightarrow> broad_rules_digest sha (str_tuple rs) = Inr (rules_hash sha rs)"
  by (simp add: broad_rules_digest_def normalize_broad_rules_id rules_hash_def)

lemma strings_of: "\<forall>v \<in> set vs. is_str v \<Longrightarrow> vs = map PStr (map the_str vs)"
proof (induction vs)
  case (Cons v vs)
  then show ?case by (cases v) auto
qed simp

lemma distinct_the_str: "\<forall>v \<in> set vs. is_str v \<Longrightarrow> distinct (map the_str vs) \<longleftrightarrow> distinct vs"
  by (metis distinct_map inj_on_def pyval.inject(3) strings_of)

lemma mk_contract_wf:
  assumes "mk_contract sha reviewers pol rules digest primary = Inr c"
  shows "wf_contract sha c"
proof -
  obtain caps normal d where
    rev: "reviewers \<noteq> []" "\<forall>r \<in> set reviewers. is_str r \<and> r \<noteq> PStr []" "distinct reviewers"
    and caps: "policy_capabilities pol = Inr caps"
    and prim: "primary = PNone \<or> is_str primary"
    and board: "if requires_primary caps then 2 \<le> length reviewers \<and> primary \<in> set reviewers
                else primary = PNone"
    and rules: "normalize_broad_rules rules = Inr normal"
    and d: "broad_rules_digest sha (str_tuple normal) = Inr d"
    and c: "c = \<lparr>required_reviewers = map the_str reviewers, policy = pol, broad_rules = normal,
            rules_digest = Some d, primary_reviewer = opt_str primary\<rparr>"
    using assms
    by (auto simp: mk_contract_def bindE_Inr_iff not_less split: if_splits)
  have normal: "broad_rules_normal normal"
    using rules by (rule normalize_broad_rules_normal)
  have strs: "\<forall>r \<in> set reviewers. is_str r" using rev by blast
  have ne: "[] \<notin> set (map the_str reviewers)"
  proof
    assume "[] \<in> set (map the_str reviewers)"
    then obtain v where v: "v \<in> set reviewers" "the_str v = []" by auto
    with strs have "v = PStr []" by (cases v) auto
    with v rev show False by blast
  qed
  have member: "primary \<in> set reviewers \<Longrightarrow>
      \<exists>p. opt_str primary = Some p \<and> p \<in> set (map the_str reviewers)"
    using strs by (cases primary) (force+)
  show ?thesis
    using rev(1,3) ne caps board member normal d strs distinct_the_str [OF strs]
    by (auto simp: c wf_contract_def broad_rules_digest_normal)
qed

lemma mk_contract_id:
  assumes "wf_contract sha c"
  shows "mk_contract sha (map PStr (required_reviewers c)) (policy c)
           (PTuple (map PStr (broad_rules c))) (rules_digest c) (of_opt_str (primary_reviewer c)) = Inr c"
proof -
  obtain caps where caps: "policy_capabilities (policy c) = Inr caps"
    and board: "if requires_primary caps
             then 2 \<le> length (required_reviewers c)
                  \<and> (\<exists>p. primary_reviewer c = Some p \<and> p \<in> set (required_reviewers c))
             else primary_reviewer c = None"
    and basic: "required_reviewers c \<noteq> []" "[] \<notin> set (required_reviewers c)"
      "distinct (required_reviewers c)"
    and rules: "broad_rules_normal (broad_rules c)"
    and digest: "rules_digest c = Some (rules_hash sha (broad_rules c))"
    using assms by (auto simp: wf_contract_def)
  have g1: "\<not> (map PStr (required_reviewers c) = []
      \<or> (\<exists>r \<in> set (map PStr (required_reviewers c)). \<not> is_str r \<or> r = PStr [])
      \<or> \<not> no_dups (map PStr (required_reviewers c)))"
    using basic by (auto simp: distinct_map inj_on_def)
  have g2: "primary_reviewer c \<noteq> Some []"
    using board basic by (auto split: if_splits)
  have g3: "(if requires_primary caps then
               guardE (length (map PStr (required_reviewers c)) < 2) ContractNeedsSecondary
               (guardE (of_opt_str (primary_reviewer c) \<notin> set (map PStr (required_reviewers c)))
                  ContractPrimaryNotMember (Inr ()))
             else guardE (of_opt_str (primary_reviewer c) \<noteq> PNone) ContractPrimaryNotAllowed (Inr ()))
      = Inr ()"
    using board by (auto split: if_splits)
  have g4: "\<not> (of_opt_str (primary_reviewer c) \<noteq> PNone
      \<and> (\<not> is_str (of_opt_str (primary_reviewer c)) \<or> of_opt_str (primary_reviewer c) = PStr []))"
    using g2 by (cases "primary_reviewer c") auto
  have the: "map the_str (map PStr (required_reviewers c)) = required_reviewers c" by (simp add: comp_def)
  show ?thesis
    using g1 g3 g4 caps normalize_broad_rules_id(1) [OF rules] broad_rules_digest_normal [OF rules, of sha]
      digest the
    unfolding mk_contract_def by (simp only: guardE_def bindE_simps if_False) simp
qed

lemma contract_from_mapping_as_dict:
  assumes "wf_contract sha c"
  shows "contract_from_mapping sha (contract_as_dict c) = Inr c"
proof -
  have "[] \<notin> set (required_reviewers c)" and "rules_digest c \<noteq> None"
    using assms by (auto simp: wf_contract_def)
  then show ?thesis
    using mk_contract_id [OF assms]
    by (cases "primary_reviewer c"; cases "rules_digest c")
       (auto simp: contract_from_mapping_def contract_as_dict_def Let_def guardE_def)
qed

interpretation contract_codec: record_codec contract_as_dict "contract_from_mapping sha" "wf_contract sha"
proof unfold_locales
  show "wf_contract sha r \<Longrightarrow> contract_from_mapping sha (contract_as_dict r) = Inr r" for r
    by (rule contract_from_mapping_as_dict)
  show "contract_from_mapping sha v = Inr r \<Longrightarrow> wf_contract sha r" for v r
    by (auto simp: contract_from_mapping_def Let_def split: pyval.splits
        intro: mk_contract_wf)
qed

section \<open>Facts on classification\<close>

lemma ledger_scopes_Inr:
  assumes "ledger_scopes obs = Inr ps"
  shows "\<forall>ob \<in> set obs. ob_reconstructible ob \<and> valid_fix_scope (the (scope ob))"
    and "set ps = (\<Union>ob \<in> set obs. set (the (scope ob)))"
  using assms
proof (induction obs arbitrary: ps)
  case (Cons ob obs)
  case 1
  then obtain qs rs where "ob_reconstructible ob" "ledger_scopes obs = Inr rs"
    "normalize_fix_scope (str_tuple (the (scope ob))) = Inr qs" "ps = qs @ rs"
    by (auto simp: bindE_Inr_iff split: if_splits sum.splits simp del: normalize_fix_scope_tuple)
  moreover from this have "qs = the (scope ob)" "valid_fix_scope qs"
    by (simp_all add: normalize_fix_scope_strings del: normalize_fix_scope_tuple)
  ultimately show ?case using Cons.IH by auto
next
  case (Cons ob obs)
  case 2
  then obtain qs rs where "ob_reconstructible ob" "ledger_scopes obs = Inr rs"
    "normalize_fix_scope (str_tuple (the (scope ob))) = Inr qs" "ps = qs @ rs"
    by (auto simp: bindE_Inr_iff split: if_splits sum.splits simp del: normalize_fix_scope_tuple)
  moreover from this have "qs = the (scope ob)" "valid_fix_scope qs"
    by (simp_all add: normalize_fix_scope_strings del: normalize_fix_scope_tuple)
  ultimately show ?case using Cons.IH by auto
qed simp_all

text \<open>The paths a transition may touch: the given scopes and the active obligations' scopes.\<close>

definition allowed_paths :: "string list option \<Rightarrow> obligation list option \<Rightarrow> string set" where
  "allowed_paths scopes obs =
     (case scopes of None \<Rightarrow> {} | Some ss \<Rightarrow> set ss)
     \<union> (case obs of None \<Rightarrow> {} | Some os \<Rightarrow> \<Union>ob \<in> set (active_obligations os). set (the (scope ob)))"

lemma normalized_scopes_Inr:
  assumes "normalized_scopes scopes obs = Inr ps"
  shows "set ps = allowed_paths scopes obs"
    and "\<And>os ob. obs = Some os \<Longrightarrow> ob \<in> set os \<Longrightarrow> active ob \<Longrightarrow> ob_reconstructible ob"
proof -
  define given where "given = (case scopes of None \<Rightarrow> [] | Some ss \<Rightarrow> ss)"
  have rest: "(case obs of
             Some os \<Rightarrow> bindE (ledger_scopes (active_obligations os)) (\<lambda>more. Inr (given @ more))
           | None \<Rightarrow> if given = [] then Inl no_scope_reason else Inr given) = Inr ps"
    using assms
    by (cases scopes; cases obs)
       (auto simp: given_def normalized_scopes_def normalize_fix_scope_strings
          simp del: normalize_fix_scope_tuple split: option.splits sum.splits)
  show "set ps = allowed_paths scopes obs"
    using rest
    by (auto simp: given_def allowed_paths_def bindE_Inr_iff ledger_scopes_Inr(2) split: option.splits if_splits)
  show "ob_reconstructible ob" if "obs = Some os" "ob \<in> set os" "active ob" for os ob
    using that rest ledger_scopes_Inr(1)
    by (auto simp: bindE_Inr_iff active_obligations_def)
qed

lemma check_changes_None:
  "check_changes rules scopes cs = None \<longleftrightarrow>
     (\<forall>c \<in> set cs. exact_path (posix_path c) \<and> is_text_change c \<and> posix_path c \<in> set scopes
        \<and> (\<forall>rule \<in> set rules. \<not> path_matches (posix_path c) rule))"
proof (induction cs)
  case (Cons c cs)
  then show ?case
    using normalize_fix_scope_single [of "posix_path c"]
    by (simp add: Let_def del: normalize_fix_scope_tuple)
qed simp

lemma broad_for_not_narrow [simp]: "\<not> narrow (broad_for why paths)"
  by (simp add: narrow_def broad_for_def)

section \<open>Properties\<close>

text \<open>A persisted contract is read back as it was written: for every contract that passed the
  constructor's checks, the JSON form decodes to the same contract, and whatever the decoder
  accepts passes those checks, so decoding and writing again is stable.\<close>

theorem contract_roundtrip:
  "(wf_contract sha c \<longrightarrow> contract_from_mapping sha (contract_as_dict c) = Inr c)
   \<and> (contract_from_mapping sha v = Inr c \<longrightarrow> wf_contract sha c
        \<and> contract_from_mapping sha (contract_as_dict c) = Inr c)"
  using contract_codec.dec_enc contract_codec.dec_wf contract_codec.reencode by blast

definition ex_selective :: contract where
  "ex_selective =
     \<lparr>required_reviewers = [''claude'', ''codex''], policy = ''selective-intermediate'',
      broad_rules = [''Makefile''], rules_digest = Some (rules_hash id [''Makefile'']),
      primary_reviewer = None\<rparr>"

theorem contract_roundtrip_witness:
  "contract_from_mapping id (contract_as_dict ex_selective) = Inr ex_selective"
proof -
  have "wf_contract id ex_selective"
    by (simp add: wf_contract_def ex_selective_def policy_capabilities_def caps_selective_def
        broad_rules_normal_def clean_rule_ok_def clean_rule_def Let_def strip_def lstrip_def
        rstrip_def is_space_def replace_char_def starts_with_def)
  with contract_roundtrip [of id ex_selective PNone] show ?thesis by blast
qed

text \<open>C9: When a transition is narrow: both heads are known and differ, the history and the diff
  are complete, the scopes are all valid, there is a change, and every change is a text addition
  or modification whose path is an exact path inside the given scopes or the scopes of the active
  obligations, and matches no broad rule.  In every other case it is broad.\<close>

theorem narrow_transition_iff:
  assumes "classify_transition prev cur changes scopes rules obs ancestor complete history = Inr cls"
  shows "(narrow cls \<longleftrightarrow>
      \<not> missing_sha prev \<and> \<not> missing_sha cur \<and> prev \<noteq> cur \<and> history \<and> ancestor \<and> complete
      \<and> (\<exists>allowed. normalized_scopes scopes obs = Inr allowed) \<and> changes \<noteq> []
      \<and> (\<forall>c \<in> set changes. exact_path (posix_path c) \<and> is_text_change c
           \<and> posix_path c \<in> allowed_paths scopes obs
           \<and> (\<forall>normal. normalize_broad_rules rules = Inr normal \<longrightarrow>
                (\<forall>rule \<in> set normal. \<not> path_matches (posix_path c) rule))))
     \<and> (narrow cls \<or> broad cls)"
proof (cases "missing_sha prev \<or> missing_sha cur \<or> prev = cur \<or> \<not> history \<or> \<not> ancestor \<or> \<not> complete")
  case True
  with assms obtain why where "cls = broad_for why []"
    by (auto simp: classify_transition_def split: if_splits)
  with True show ?thesis by (auto simp: broad_def broad_for_def narrow_def)
next
  case False
  show ?thesis
  proof (cases "normalized_scopes scopes obs")
    case (Inl why)
    with False assms have "cls = broad_for why []" by (simp add: classify_transition_def)
    with Inl show ?thesis by (simp add: broad_def broad_for_def narrow_def)
  next
    case (Inr allowed)
    with False assms obtain normal where normal: "normalize_broad_rules rules = Inr normal"
      and cls: "cls = (if changes = []
            then broad_for ''transition contained no observable diff'' (map path changes)
            else case check_changes normal allowed changes of
                   Some why \<Rightarrow> broad_for why (map path changes)
                 | None \<Rightarrow> \<lparr>kind = ''narrow'',
                         reason = ''all text additions/modifications stay within exact obligation scopes'',
                         changed_paths = map path changes\<rparr>)"
      by (auto simp: classify_transition_def bindE_Inr_iff Let_def)
    have "narrow cls \<longleftrightarrow> changes \<noteq> [] \<and> check_changes normal allowed changes = None"
      unfolding cls by (simp add: narrow_def broad_for_def split: option.split)
    moreover have "narrow cls \<or> broad cls"
      unfolding cls by (simp add: narrow_def broad_def broad_for_def split: option.split)
    ultimately show ?thesis
      using False Inr normal normalized_scopes_Inr(1) [OF Inr]
      by (auto simp: check_changes_None)
  qed
qed

definition ex_change :: git_change where
  "ex_change = \<lparr>path = ''src/app.py'', change_status = ''M'', binary = False, mode_changed = False\<rparr>"

lemma ex_rules: "normalize_broad_rules (PTuple [PStr ''Makefile'']) = Inr [''Makefile'']"
  using normalize_broad_rules_id(1) [of "[''Makefile'']"]
  by (simp add: broad_rules_normal_def clean_rule_ok_def clean_rule_def Let_def strip_def
      lstrip_def rstrip_def is_space_def replace_char_def starts_with_def)

lemma ex_path: "exact_path ''src/app.py''"
  by (simp add: exact_path_def inexact_path_def strip_def lstrip_def rstrip_def is_space_def
      starts_with_def has_drive_def utf8_size_def MAX_FIX_SCOPE_PATH_BYTES_def)

lemma ex_scopes: "normalized_scopes (Some [''src/app.py'']) None = Inr [''src/app.py'']"
proof -
  have "valid_fix_scope [''src/app.py'']"
    using ex_path by (simp add: valid_fix_scope_def utf8_size_def MAX_FIX_SCOPE_ENTRIES_def
        MAX_FIX_SCOPE_BYTES_def)
  then have "normalize_fix_scope (str_tuple [''src/app.py'']) = Inr [''src/app.py'']"
    by (simp only: normalize_fix_scope_strings simp_thms)
  then show ?thesis by (simp add: normalized_scopes_def)
qed

theorem narrow_transition_iff_witness:
  "\<exists>cls. classify_transition (Some ''a1'') (Some ''b2'') [ex_change] (Some [''src/app.py''])
      (PTuple [PStr ''Makefile'']) None True True True = Inr cls \<and> narrow cls"
proof -
  obtain cls where cls: "classify_transition (Some ''a1'') (Some ''b2'') [ex_change]
      (Some [''src/app.py'']) (PTuple [PStr ''Makefile'']) None True True True = Inr cls"
    by (simp add: classify_transition_def missing_sha_def ex_rules ex_scopes Let_def
        del: check_changes.simps)
  have "posix_path ex_change = ''src/app.py''" "is_text_change ex_change"
    by (simp_all add: posix_path_def ex_change_def replace_char_def is_text_change_def)
  moreover have "\<not> path_matches ''src/app.py'' ''Makefile''"
    by (simp add: path_matches_def fnmatchcase_def)
  ultimately show ?thesis
    using narrow_transition_iff [OF cls] cls ex_path
    by (auto simp: missing_sha_def ex_rules ex_scopes allowed_paths_def)
qed

end
