(* ===== verification/Scheduler_Interface.thy ===== *)
theory Scheduler_Interface
  imports Prelude
begin

text \<open>
  What the orchestrator relies on when it asks a scheduler for the board of one round: the
  selected and the paused reviewers split the required board, both in board order, and no
  unavailable reviewer is selected.  The pull-request scheduler and the plan scheduler are
  its providers.
\<close>

locale board_scheduler =
  fixes wf :: "'i \<Rightarrow> bool"
    and select :: "'i \<Rightarrow> 'e + 'd"
    and board :: "'i \<Rightarrow> string list"
    and absent :: "'i \<Rightarrow> string list"
    and chosen :: "'d \<Rightarrow> string list"
    and paused :: "'d \<Rightarrow> (string \<times> string) list"
  assumes board_distinct: "wf i \<Longrightarrow> distinct (board i)"
    and chosen_part: "wf i \<Longrightarrow> select i = Inr d \<Longrightarrow>
      \<exists>P. chosen d = filter P (filter (\<lambda>n. n \<notin> set (absent i)) (board i))"
    and paused_rest: "wf i \<Longrightarrow> select i = Inr d \<Longrightarrow>
      map fst (paused d) = filter (\<lambda>n. n \<notin> set (chosen d)) (board i)"
begin

lemma chosen_available:
  "wf i \<Longrightarrow> select i = Inr d \<Longrightarrow> n \<in> set (chosen d) \<Longrightarrow> n \<in> set (board i) \<and> n \<notin> set (absent i)"
  using chosen_part [of i d] by auto

lemma chosen_in_order:
  assumes "wf i" "select i = Inr d"
  shows "chosen d = filter (\<lambda>n. n \<in> set (chosen d)) (board i)"
proof -
  obtain P where P: "chosen d = filter (\<lambda>n. n \<notin> set (absent i) \<and> P n) (board i)"
    using chosen_part [OF assms] by (auto simp: filter_filter)
  show ?thesis
    by (subst P) (rule filter_cong, simp_all add: P)
qed

lemma paused_set:
  "wf i \<Longrightarrow> select i = Inr d \<Longrightarrow> fst ` set (paused d) = set (board i) - set (chosen d)"
  using paused_rest [of i d] by (metis set_filter set_map set_diff_eq)

lemma board_split:
  assumes "wf i" "select i = Inr d"
  shows "set (chosen d) \<union> fst ` set (paused d) = set (board i)"
    and "set (chosen d) \<inter> fst ` set (paused d) = {}"
  using paused_set [OF assms] chosen_available [OF assms] by auto

lemma each_once:
  assumes "wf i" "select i = Inr d"
  shows "distinct (chosen d)" and "distinct (map fst (paused d))"
  using board_distinct [OF assms(1)] chosen_in_order [OF assms] paused_rest [OF assms]
  by (metis distinct_filter)+

lemma board_count:
  assumes "wf i" "select i = Inr d"
  shows "length (chosen d) + length (paused d) = length (board i)"
proof -
  have "length (paused d) = length (filter (\<lambda>n. n \<notin> set (chosen d)) (board i))"
    by (metis assms length_map paused_rest)
  moreover have "length (chosen d) = length (filter (\<lambda>n. n \<in> set (chosen d)) (board i))"
    by (metis assms chosen_in_order)
  ultimately show ?thesis
    using sum_length_filter_compl [of "\<lambda>n. n \<in> set (chosen d)" "board i"] by simp
qed

lemma absent_paused:
  assumes "wf i" "select i = Inr d" "n \<in> set (board i)" "n \<in> set (absent i)"
  shows "n \<in> fst ` set (paused d)"
  using assms chosen_available paused_set by blast

end

end
