(* ===== verification/Reviewer_Selection.thy ===== *)
theory Reviewer_Selection
  imports Review_Scheduling Scheduler_Interface
begin

text \<open>
  \<open>select_reviewers\<close> of \<open>review_scheduling.py\<close>: the board of one review round.  The body is
  split where the code branches: the staged policy before and after a qualified panel
  opening (\<open>pre_panel_choice\<close>, \<open>post_panel_choice\<close>), the whole choice (\<open>board_choice\<close>), the
  reason each reviewer is paused (\<open>pause_reason\<close>) and the decision record.
\<close>

record snapshot =
  previous_sha :: "string option"
  current_sha :: "string option"
  snap_contract :: contract
  obligations :: "obligation list"
  force_full :: bool
  snap_phase :: "string option"
  operator_force_full :: bool
  panel_evidence :: bool
  fallback_reasons :: "string list"
  carried_obligations :: "string list"

record decision =
  selected_reviewers :: "string list"
  paused_reviewers :: "(string \<times> string) list"
  decision_reason :: string
  decision_classification :: classification
  final_sweep_of :: bool
  calls_avoided :: int
  decision_phase :: string
  decision_primary :: "string option"
  active_owners :: "string list"

section \<open>Texts\<close>

definition STRICT_PRE_PANEL_PREFIX :: string where
  "STRICT_PRE_PANEL_PREFIX = ''strict pre-panel fallback: ''"

definition POST_PANEL_PREFIX :: string where
  "POST_PANEL_PREFIX = ''post-panel fallback: ''"

definition OPERATOR_FORCE_FULL_REASON :: string where
  "OPERATOR_FORCE_FULL_REASON =
     ''operator force-full: the complete board is authorized by --pr-review-force-full''"

definition automatic_fallback_text :: string where
  "automatic_fallback_text = ''automatic full-board fallback requested''"

definition unscoped_text :: string where
  "unscoped_text = ''an active obligation has no valid exact fix scope''"

definition primary_rechecks_text :: string where
  "primary_rechecks_text = ''primary phase: primary rechecks its findings before the secondary panel''"

definition primary_required_text :: string where
  "primary_required_text =
     ''primary phase: exact-head primary approval is required before the secondary panel''"

definition secondary_audit_text :: string where
  "secondary_audit_text = ''independent secondary audit after exact-head primary approval''"

definition remaining_text :: "string list \<Rightarrow> string" where
  "remaining_text ids =
     ''; non-reviewer obligations remain: '' @ join '', '' ids
     @ ''; coder repair follows under post-panel rules''"

definition narrow_remediation_text :: string where
  "narrow_remediation_text =
     POST_PANEL_PREFIX @ ''narrow remediation: finding owners and primary must recheck''"

definition primary_outstanding_text :: string where
  "primary_outstanding_text =
     ''remediation: exact-head primary approval is outstanding before the final secondary sweep''"

definition final_secondary_text :: string where
  "final_secondary_text = ''final exact-head secondary sweep for missing approvals''"

section \<open>Parts of the choice\<close>

definition available_required :: "string list \<Rightarrow> string list \<Rightarrow> string list" where
  "available_required required unavailable = filter (\<lambda>n. n \<notin> set unavailable) required"

text \<open>\<open>(primary,) if primary in available_required else ()\<close>\<close>

definition primary_only :: "string option \<Rightarrow> string list \<Rightarrow> string list" where
  "primary_only primary available =
     (case primary of Some p \<Rightarrow> (if p \<in> set available then [p] else []) | None \<Rightarrow> [])"

definition secondaries_missing :: "string option \<Rightarrow> string list \<Rightarrow> string list \<Rightarrow> string list" where
  "secondaries_missing primary available approvals =
     filter (\<lambda>n. Some n \<noteq> primary \<and> n \<notin> set approvals) available"

definition pending_of :: "obligation list \<Rightarrow> string list" where
  "pending_of obs = concat (map pending_owners obs)"

definition primary_approved :: "string option \<Rightarrow> string list \<Rightarrow> bool" where
  "primary_approved primary approvals = (case primary of Some p \<Rightarrow> p \<in> set approvals | None \<Rightarrow> False)"

text \<open>The active obligations that count against the pre-panel stop.\<close>

definition uncarried :: "snapshot \<Rightarrow> obligation list" where
  "uncarried s =
     filter (\<lambda>ob. item_id ob \<notin> set (carried_obligations s)) (active_obligations (obligations s))"

definition secondary_pending :: "snapshot \<Rightarrow> string list" where
  "secondary_pending s =
     filter (\<lambda>n. n \<in> set (required_reviewers (snap_contract s))
                 \<and> Some n \<noteq> primary_reviewer (snap_contract s))
       (pending_of (uncarried s))"

definition strict_reasons :: "snapshot \<Rightarrow> classification \<Rightarrow> string list" where
  "strict_reasons s cls =
     (let fallback = join ''; '' (fallback_reasons s);
          obs = active_obligations (obligations s);
          required = set (required_reviewers (snap_contract s));
          unscoped = (\<exists>ob \<in> set obs. scope ob = None \<or> \<not> set (pending_owners ob) \<subseteq> required)
      in (if force_full s \<or> fallback \<noteq> []
          then [if fallback \<noteq> [] then fallback else automatic_fallback_text] else [])
         @ (if \<not> narrow cls \<and> (obs \<noteq> [] \<or> previous_sha s \<noteq> None) then [reason cls]
            else if unscoped then [unscoped_text] else []))"

definition primary_phase_reason :: "snapshot \<Rightarrow> classification \<Rightarrow> string" where
  "primary_phase_reason s cls =
     (let strict = strict_reasons s cls in
      if strict \<noteq> [] then
        STRICT_PRE_PANEL_PREFIX @ join ''; '' (dict_fromkeys strict)
        @ ''; primary re-invoked with full context''
      else if active_obligations (obligations s) \<noteq> [] then primary_rechecks_text
      else primary_required_text)"

type_synonym choice = "string list \<times> string \<times> string"

text \<open>\<open>not panel_opened\<close>: selected reviewers, phase and reason.\<close>

definition pre_panel_choice ::
  "snapshot \<Rightarrow> classification \<Rightarrow> string list \<Rightarrow> string list \<Rightarrow> sched_error + choice" where
  "pre_panel_choice s cls approvals available =
     (let primary = primary_reviewer (snap_contract s);
          pending = secondary_pending s;
          obs = active_obligations (obligations s)
      in guardE (pending \<noteq> [])
           (PrePanelSafety
              (sort (map item_id (filter (\<lambda>ob. set (pending_owners ob) \<inter> set pending \<noteq> {}) (uncarried s))))
              (sorted_set pending))
         (if \<not> primary_approved primary approvals then
            Inr (primary_only primary available, ''primary'', primary_phase_reason s cls)
          else
            let remaining = sort (map item_id obs) in
            Inr (secondaries_missing primary available approvals, ''secondary-audit'',
                 secondary_audit_text @ (if remaining \<noteq> [] then remaining_text remaining else []))))"

definition full_board_after_panel :: string where
  "full_board_after_panel = POST_PANEL_PREFIX @ ''full board required after panel evidence: ''"

definition full_board_required :: string where
  "full_board_required = ''full board required: ''"

text \<open>The branches after a qualified panel opening.\<close>

definition post_panel_choice ::
  "snapshot \<Rightarrow> classification \<Rightarrow> string list \<Rightarrow> string list \<Rightarrow> choice" where
  "post_panel_choice s cls approvals available =
     (let primary = primary_reviewer (snap_contract s);
          obs = active_obligations (obligations s);
          fallback = join ''; '' (fallback_reasons s)
      in if force_full s then
           (available, ''full-board'',
            POST_PANEL_PREFIX @ ''force-full latch''
            @ (if fallback \<noteq> [] then '' ('' @ fallback @ '')'' else []))
         else if obs \<noteq> [] \<and> \<not> narrow cls then
           (available, ''full-board'', POST_PANEL_PREFIX @ full_board_required @ reason cls)
         else if \<not> narrow cls then
           (available, ''full-board'', full_board_after_panel @ reason cls)
         else if obs \<noteq> [] then
           (filter (\<lambda>n. (n \<in> set (pending_of obs) \<or> Some n = primary) \<and> n \<notin> set approvals) available,
            ''remediation'', narrow_remediation_text)
         else if \<not> primary_approved primary approvals then
           (primary_only primary available, ''remediation'', primary_outstanding_text)
         else
           (secondaries_missing primary available approvals, ''final-secondary-sweep'',
            final_secondary_text))"

text \<open>The selective policy outside its force-full latch.\<close>

definition selective_choice ::
  "snapshot \<Rightarrow> classification \<Rightarrow> string list \<Rightarrow> bool \<Rightarrow> string list \<Rightarrow> choice" where
  "selective_choice s cls approvals final_sweep available =
     (if final_sweep then
        (filter (\<lambda>n. n \<notin> set approvals) available, ''final-secondary-sweep'',
         ''final exact-head sweep for missing approvals'')
      else if \<not> narrow cls then
        (available, ''full-board'', full_board_required @ reason cls)
      else
        let owners = filter (\<lambda>n. n \<in> set (pending_of (active_obligations (obligations s)))) available in
        if owners = [] \<and> available \<noteq> [] then
          (available, ''full-board'', ''narrow transition was not actionable without pending owners'')
        else (owners, ''remediation'', ''narrow transition: pending resolution owners and co-owners''))"

definition board_choice ::
  "snapshot \<Rightarrow> classification \<Rightarrow> string list \<Rightarrow> string list \<Rightarrow> bool \<Rightarrow> string option
     \<Rightarrow> capabilities \<Rightarrow> sched_error + choice" where
  "board_choice s cls approvals unavailable final_sweep ph caps =
     (let pol = policy (snap_contract s);
          available = available_required (required_reviewers (snap_contract s)) unavailable
      in if pol = ''all-reviewers''
            \<or> (\<not> requires_primary caps \<and> (force_full s \<or> operator_force_full s)) then
           Inr (available, ''full-board'',
                if pol = ''all-reviewers'' then ''compatibility policy'' else ''force-full latch'')
         else if requires_primary caps \<and> operator_force_full s then
           Inr (available, ''full-board'', OPERATOR_FORCE_FULL_REASON)
         else if requires_primary caps then
           let checkpoint = (case ph of Some p \<Rightarrow> Some p | None \<Rightarrow> snap_phase s) in
           (case checkpoint of
              Some p \<Rightarrow> guardE (p \<notin> set SCHEDULER_PHASES) (UnsupportedPhaseCheckpoint p)
            | None \<Rightarrow> id)
           (if \<not> panel_evidence s then pre_panel_choice s cls approvals available
            else Inr (post_panel_choice s cls approvals available))
         else Inr (selective_choice s cls approvals final_sweep available))"

definition pause_reason ::
  "snapshot \<Rightarrow> classification \<Rightarrow> capabilities \<Rightarrow> string list \<Rightarrow> string list \<Rightarrow> bool \<Rightarrow> string
     \<Rightarrow> string \<Rightarrow> string" where
  "pause_reason s cls caps approvals unavailable final_sweep ph name =
     (if name \<in> set unavailable then ''reviewer unavailable; required approval remains outstanding''
      else if name \<in> set approvals then ''qualifying exact-head approval carried; no new turn needed''
      else if policy (snap_contract s) = ''all-reviewers'' then
        ''compatibility scheduling did not select this reviewer''
      else if requires_primary caps \<and> ph = ''primary'' then
        ''primary phase; secondary panel waits for exact-head primary approval''
      else if requires_primary caps \<and> ph = ''secondary-audit'' then
        ''secondary audit has not selected this already qualifying reviewer''
      else if requires_primary caps \<and> ph = ''remediation'' then
        ''remediation did not identify this reviewer as an owner or primary; ''
        @ ''an exact-head secondary sweep follows clearance''
      else if requires_primary caps \<and> ph = ''final-secondary-sweep'' then
        ''final secondary sweep did not select this reviewer''
      else if final_sweep then ''qualifying exact-head approval carry''
      else if \<not> narrow cls \<or> force_full s \<or> operator_force_full s then
        ''reviewer was not selected by the full-board transition''
      else ''selective intermediate pause; no pending obligation ownership'')"

text \<open>\<open>max(0, eligible - len(selected))\<close> where the policy counts avoided calls.\<close>

definition avoided_calls :: "capabilities \<Rightarrow> string list \<Rightarrow> string list \<Rightarrow> string list \<Rightarrow> string list \<Rightarrow> int" where
  "avoided_calls caps required approvals unavailable selected =
     (let eligible = length (filter (\<lambda>n. n \<notin> set approvals \<and> n \<notin> set unavailable) required)
      in if counts_avoided_calls caps then max 0 (int eligible - int (length selected)) else 0)"

definition select_reviewers ::
  "snapshot \<Rightarrow> classification \<Rightarrow> string list \<Rightarrow> string list \<Rightarrow> bool \<Rightarrow> string option
     \<Rightarrow> sched_error + decision" where
  "select_reviewers s cls approvals unavailable final_sweep ph =
     bindE (policy_capabilities (policy (snap_contract s))) (\<lambda>caps.
     bindE (board_choice s cls approvals unavailable final_sweep ph caps)
       (\<lambda>(selected, selected_phase, why).
     let required = required_reviewers (snap_contract s) in
     Inr \<lparr>selected_reviewers = selected,
          paused_reviewers =
            map (\<lambda>n. (n, pause_reason s cls caps approvals unavailable final_sweep selected_phase n))
              (filter (\<lambda>n. n \<notin> set selected) required),
          decision_reason = why,
          decision_classification = cls,
          final_sweep_of = final_sweep,
          calls_avoided = avoided_calls caps required approvals unavailable selected,
          decision_phase = selected_phase,
          decision_primary = primary_reviewer (snap_contract s),
          active_owners = sorted_set (pending_of (active_obligations (obligations s)))\<rparr>))"

section \<open>Facts on the choice\<close>

lemma filter_eq_single: "distinct xs \<Longrightarrow> filter (\<lambda>n. n = p) xs = (if p \<in> set xs then [p] else [])"
  by (induction xs) auto

lemma primary_only_filter:
  "distinct xs \<Longrightarrow> primary_only primary xs = filter (\<lambda>n. Some n = primary) xs"
  by (cases primary) (auto simp: primary_only_def filter_eq_single)

lemma primary_only_set: "set (primary_only primary xs) = {n \<in> set xs. Some n = primary}"
  by (auto simp: primary_only_def split: option.splits)

lemma filter_itself: "\<exists>P. xs = filter P xs"
  by (rule exI [of _ "\<lambda>_. True"]) simp

lemmas choice_filters = filter_itself primary_only_filter secondaries_missing_def

lemma pre_panel_part:
  "pre_panel_choice s cls approvals av = Inr (sel, ph, why) \<Longrightarrow> distinct av \<Longrightarrow> \<exists>P. sel = filter P av"
  unfolding pre_panel_choice_def Let_def
  by (auto simp: primary_only_filter secondaries_missing_def split: if_splits)

lemma post_panel_part:
  "post_panel_choice s cls approvals av = (sel, ph, why) \<Longrightarrow> distinct av \<Longrightarrow> \<exists>P. sel = filter P av"
  unfolding post_panel_choice_def Let_def
  by (auto simp: primary_only_filter secondaries_missing_def intro: filter_itself split: if_splits)

lemma selective_part:
  "selective_choice s cls approvals fin av = (sel, ph, why) \<Longrightarrow> \<exists>P. sel = filter P av"
  unfolding selective_choice_def Let_def
  by (auto intro: filter_itself split: if_splits)

text \<open>Inversion of the choice: which branch a result came from.\<close>

lemma board_choice_cases:
  assumes "board_choice s cls approvals unav fin ph caps = Inr c"
    and "policy_capabilities (policy (snap_contract s)) = Inr caps"
  defines "av \<equiv> available_required (required_reviewers (snap_contract s)) unav"
  obtains (full) why where "c = (av, ''full-board'', why)"
      "policy (snap_contract s) = ''all-reviewers'' \<or> operator_force_full s
       \<or> (policy (snap_contract s) = ''selective-intermediate'' \<and> force_full s)"
    | (pre) "policy (snap_contract s) = ''primary-then-panel''" "\<not> operator_force_full s"
      "\<not> panel_evidence s" "pre_panel_choice s cls approvals av = Inr c"
    | (post) "policy (snap_contract s) = ''primary-then-panel''" "\<not> operator_force_full s"
      "panel_evidence s" "post_panel_choice s cls approvals av = c"
    | (selective) "policy (snap_contract s) = ''selective-intermediate''" "\<not> operator_force_full s"
      "\<not> force_full s" "selective_choice s cls approvals fin av = c"
proof -
  from assms(2) consider (a) "policy (snap_contract s) = ''all-reviewers''" "caps = caps_all_reviewers"
    | (b) "policy (snap_contract s) = ''selective-intermediate''" "caps = caps_selective"
    | (c) "policy (snap_contract s) = ''primary-then-panel''" "caps = caps_staged"
    by (auto simp: policy_capabilities_Inr)
  then show thesis
  proof cases
    case a
    then show thesis using assms(1) by (auto simp: board_choice_def Let_def av_def intro: full)
  next
    case b
    then show thesis
      using assms(1) by (auto simp: board_choice_def Let_def av_def caps_selective_def
          intro: full selective split: if_splits)
  next
    case c
    then show thesis
      using assms(1) by (auto simp: board_choice_def Let_def av_def caps_staged_def
          intro: full pre post split: if_splits option.splits)
  qed
qed

lemma board_choice_part:
  assumes "board_choice s cls approvals unav fin ph caps = Inr (sel, ph', why)"
    and "policy_capabilities (policy (snap_contract s)) = Inr caps"
    and "distinct (required_reviewers (snap_contract s))"
  shows "\<exists>P. sel = filter P (available_required (required_reviewers (snap_contract s)) unav)"
proof -
  have d: "distinct (available_required (required_reviewers (snap_contract s)) unav)"
    using assms(3) by (simp add: available_required_def)
  show ?thesis
    using assms(1,2)
  proof (cases rule: board_choice_cases)
    case full
    then show ?thesis by (auto intro: filter_itself)
  next
    case pre
    then show ?thesis using d by (blast intro: pre_panel_part)
  next
    case post
    then show ?thesis using d by (blast intro: post_panel_part)
  next
    case selective
    then show ?thesis by (blast intro: selective_part)
  qed
qed

text \<open>A decision comes from a choice.\<close>

lemma select_reviewers_Inr:
  assumes "select_reviewers s cls approvals unav fin ph = Inr d"
  obtains caps where "policy_capabilities (policy (snap_contract s)) = Inr caps"
    and "board_choice s cls approvals unav fin ph caps
           = Inr (selected_reviewers d, decision_phase d, decision_reason d)"
    and "map fst (paused_reviewers d)
           = filter (\<lambda>n. n \<notin> set (selected_reviewers d)) (required_reviewers (snap_contract s))"
    and "calls_avoided d = avoided_calls caps (required_reviewers (snap_contract s)) approvals unav
           (selected_reviewers d)"
  using assms by (auto simp: select_reviewers_def bindE_Inr_iff Let_def comp_def)

type_synonym selection_input =
  "snapshot \<times> classification \<times> string list \<times> string list \<times> bool \<times> string option"

fun select_input :: "selection_input \<Rightarrow> sched_error + decision" where
  "select_input (s, cls, approvals, unav, fin, ph) = select_reviewers s cls approvals unav fin ph"

fun input_board :: "selection_input \<Rightarrow> string list" where
  "input_board (s, _) = required_reviewers (snap_contract s)"

fun input_absent :: "selection_input \<Rightarrow> string list" where
  "input_absent (s, cls, approvals, unav, _) = unav"

fun input_wf :: "selection_input \<Rightarrow> bool" where
  "input_wf (s, _) = distinct (required_reviewers (snap_contract s))"

interpretation pr_board:
  board_scheduler input_wf select_input input_board input_absent selected_reviewers paused_reviewers
proof unfold_locales
  fix i and d :: decision
  assume wf: "input_wf i" and sel: "select_input i = Inr d"
  obtain s cls approvals unav fin ph where i: "i = (s, cls, approvals, unav, fin, ph)"
    by (cases i) auto
  from sel have "select_reviewers s cls approvals unav fin ph = Inr d" by (simp add: i)
  then obtain caps where c: "policy_capabilities (policy (snap_contract s)) = Inr caps"
      "board_choice s cls approvals unav fin ph caps
         = Inr (selected_reviewers d, decision_phase d, decision_reason d)"
    and p: "map fst (paused_reviewers d)
         = filter (\<lambda>n. n \<notin> set (selected_reviewers d)) (required_reviewers (snap_contract s))"
    by (rule select_reviewers_Inr)
  show "\<exists>P. selected_reviewers d = filter P (filter (\<lambda>n. n \<notin> set (input_absent i)) (input_board i))"
    using board_choice_part [OF c(2,1)] wf by (simp add: i available_required_def)
  show "map fst (paused_reviewers d) = filter (\<lambda>n. n \<notin> set (selected_reviewers d)) (input_board i)"
    using p by (simp add: i)
next
  fix i
  assume "input_wf i"
  then show "distinct (input_board i)" by (cases i) simp
qed

text \<open>The staged policy without an operator override: the two choices.\<close>

lemma staged_choice:
  assumes "select_reviewers s cls approvals unav fin ph = Inr d"
    and "policy (snap_contract s) = ''primary-then-panel''" and "\<not> operator_force_full s"
  defines "av \<equiv> available_required (required_reviewers (snap_contract s)) unav"
  shows "\<not> panel_evidence s \<Longrightarrow> pre_panel_choice s cls approvals av
            = Inr (selected_reviewers d, decision_phase d, decision_reason d)"
    and "panel_evidence s \<Longrightarrow> post_panel_choice s cls approvals av
            = (selected_reviewers d, decision_phase d, decision_reason d)"
proof -
  obtain caps where c: "policy_capabilities (policy (snap_contract s)) = Inr caps"
      "board_choice s cls approvals unav fin ph caps
         = Inr (selected_reviewers d, decision_phase d, decision_reason d)"
    using assms(1) by (rule select_reviewers_Inr)
  from c(2,1) show "\<not> panel_evidence s \<Longrightarrow> pre_panel_choice s cls approvals av
            = Inr (selected_reviewers d, decision_phase d, decision_reason d)"
    and "panel_evidence s \<Longrightarrow> post_panel_choice s cls approvals av
            = (selected_reviewers d, decision_phase d, decision_reason d)"
    using assms(2,3) by (cases rule: board_choice_cases; simp add: av_def)+
qed

lemma pre_panel_primary:
  assumes "pre_panel_choice s cls approvals av = Inr (sel, ph, why)"
    and "\<not> primary_approved (primary_reviewer (snap_contract s)) approvals"
  shows "sel = primary_only (primary_reviewer (snap_contract s)) av" and "ph = ''primary''"
  using assms by (simp_all add: pre_panel_choice_def Let_def)

lemma pre_panel_audit:
  assumes "pre_panel_choice s cls approvals av = Inr (sel, ph, why)"
    and "primary_approved (primary_reviewer (snap_contract s)) approvals"
  shows "sel = secondaries_missing (primary_reviewer (snap_contract s)) av approvals"
    and "ph = ''secondary-audit''"
  using assms by (simp_all add: pre_panel_choice_def Let_def)

lemma post_panel_full:
  assumes "post_panel_choice s cls approvals av = (sel, ph, why)"
    and "force_full s \<or> \<not> narrow cls"
  shows "sel = av" and "ph = ''full-board''"
  using assms by (auto simp: post_panel_choice_def Let_def split: if_splits)

lemma pre_panel_not_approved:
  "pre_panel_choice s cls approvals av = Inr (sel, ph, why) \<Longrightarrow> n \<in> set sel \<Longrightarrow> n \<notin> set approvals"
  by (auto simp: pre_panel_choice_def Let_def secondaries_missing_def primary_only_set
      primary_approved_def split: if_splits option.splits)

lemma post_panel_not_approved:
  "post_panel_choice s cls approvals av = (sel, ph, why) \<Longrightarrow> n \<in> set sel
     \<Longrightarrow> n \<in> set approvals \<Longrightarrow> ph = ''full-board''"
  by (auto simp: post_panel_choice_def Let_def secondaries_missing_def primary_only_set
      primary_approved_def split: if_splits option.splits)

section \<open>A board used in the examples\<close>

definition ex_contract :: contract where
  "ex_contract =
     \<lparr>required_reviewers = [''claude'', ''codex'', ''gemini''], policy = ''primary-then-panel'',
      broad_rules = [''Makefile''], rules_digest = None, primary_reviewer = Some ''claude''\<rparr>"

definition ex_snapshot :: snapshot where
  "ex_snapshot =
     \<lparr>previous_sha = Some ''a1'', current_sha = Some ''b2'', snap_contract = ex_contract,
      obligations = [], force_full = False, snap_phase = None, operator_force_full = False,
      panel_evidence = False, fallback_reasons = [], carried_obligations = []\<rparr>"

definition ex_obligation :: obligation where
  "ex_obligation =
     \<lparr>item_id = ''item-1'', ob_status = ''blocking'', scope = Some [''src/app.py''],
      resolution_owners = [''codex''], pending_owners = [''codex'']\<rparr>"

definition ex_narrow :: classification where
  "ex_narrow = \<lparr>kind = ''narrow'', reason = ''ok'', changed_paths = [''src/app.py'']\<rparr>"

lemmas ex_defs = ex_contract_def ex_snapshot_def ex_obligation_def ex_narrow_def

lemmas choice_defs = select_reviewers_def board_choice_def pre_panel_choice_def post_panel_choice_def
  selective_choice_def available_required_def primary_only_def secondaries_missing_def
  primary_approved_def secondary_pending_def uncarried_def pending_of_def active_obligations_def
  active_def ACTIVE_STATUSES_def policy_capabilities_def caps_staged_def caps_selective_def
  avoided_calls_def narrow_def broad_for_def Let_def

section \<open>Properties\<close>

text \<open>C6: Whatever the policy, a decision splits the required board: the selected and the paused
  reviewers are disjoint, no reviewer occurs twice, together they are the board, the selected ones
  keep the board's order, and no unavailable reviewer is selected (it is paused instead).\<close>

theorem select_reviewers_splits_board:
  assumes "select_reviewers s cls approvals unav fin ph = Inr d"
    and "distinct (required_reviewers (snap_contract s))"
  shows "set (selected_reviewers d) \<union> fst ` set (paused_reviewers d)
           = set (required_reviewers (snap_contract s))
         \<and> set (selected_reviewers d) \<inter> fst ` set (paused_reviewers d) = {}
         \<and> length (selected_reviewers d) + length (paused_reviewers d)
             = length (required_reviewers (snap_contract s))
         \<and> selected_reviewers d = filter (\<lambda>n. n \<in> set (selected_reviewers d))
             (required_reviewers (snap_contract s))
         \<and> set (selected_reviewers d) \<inter> set unav = {}"
proof -
  let ?i = "(s, cls, approvals, unav, fin, ph)"
  have i: "input_wf ?i" "select_input ?i = Inr d" using assms by simp_all
  show ?thesis
    using pr_board.board_split [OF i] pr_board.board_count [OF i] pr_board.chosen_in_order [OF i]
      pr_board.chosen_available [OF i] by auto
qed

theorem select_reviewers_splits_board_witness:
  "\<exists>d. select_reviewers ex_snapshot ex_narrow [] [''gemini''] False None = Inr d
     \<and> selected_reviewers d = [''claude'']
     \<and> set (selected_reviewers d) \<inter> set [''gemini''] = {}"
proof -
  obtain d where d: "select_reviewers ex_snapshot ex_narrow [] [''gemini''] False None = Inr d"
      "selected_reviewers d = [''claude'']"
    by (simp add: choice_defs ex_defs)
  have "distinct (required_reviewers (snap_contract ex_snapshot))" by (simp add: ex_defs)
  from select_reviewers_splits_board [OF d(1) this] d show ?thesis by blast
qed

text \<open>C4: The panel gate of the staged policy: before a qualified panel opening and without an
  operator override, a reviewer other than the primary is selected only when the primary's
  approval of the exact head is among the qualifying approvals; until then the round is the
  primary phase and its board is the primary alone, if available.\<close>

theorem panel_waits_for_primary:
  assumes "select_reviewers s cls approvals unav fin ph = Inr d"
    and "policy (snap_contract s) = ''primary-then-panel''"
    and "\<not> operator_force_full s" and "\<not> panel_evidence s"
    and "primary_reviewer (snap_contract s) = Some p" and "p \<notin> set approvals"
  shows "decision_phase d = ''primary''
     \<and> selected_reviewers d
         = (if p \<in> set (required_reviewers (snap_contract s)) \<and> p \<notin> set unav then [p] else [])"
  using pre_panel_primary [OF staged_choice(1) [OF assms(1-4)]] assms(5,6)
  by (auto simp: primary_approved_def primary_only_def available_required_def)

theorem panel_waits_for_primary_witness:
  "\<exists>d. select_reviewers (ex_snapshot\<lparr>force_full := True\<rparr>) ex_narrow [''codex''] [] False None = Inr d
     \<and> decision_phase d = ''primary'' \<and> selected_reviewers d = [''claude'']"
proof -
  let ?s = "ex_snapshot\<lparr>force_full := True\<rparr>"
  obtain d where d: "select_reviewers ?s ex_narrow [''codex''] [] False None = Inr d"
    by (simp add: choice_defs ex_defs)
  have "policy (snap_contract ?s) = ''primary-then-panel''" "\<not> operator_force_full ?s"
      "\<not> panel_evidence ?s" "primary_reviewer (snap_contract ?s) = Some ''claude''"
      "''claude'' \<notin> set [''codex'']"
    by (simp_all add: ex_defs)
  from panel_waits_for_primary [OF d this] d show ?thesis by (auto simp: ex_defs)
qed

text \<open>When the staged policy stops instead of guessing: before a qualified panel opening and
  without an operator override, the pre-panel safety error is raised exactly when an active
  obligation that was not carried over a board change is pending on a configured secondary
  reviewer, and the error names exactly those obligations' secondaries, sorted.\<close>

theorem pre_panel_stop_iff:
  assumes "policy (snap_contract s) = ''primary-then-panel''"
    and "\<not> operator_force_full s" and "\<not> panel_evidence s"
    and "ph = None" and "snap_phase s = None"
  shows "(\<exists>ids names. select_reviewers s cls approvals unav fin ph = Inl (PrePanelSafety ids names)
           \<and> set names = {n \<in> set (required_reviewers (snap_contract s)).
                 Some n \<noteq> primary_reviewer (snap_contract s)
                 \<and> (\<exists>ob \<in> set (obligations s). active ob \<and> item_id ob \<notin> set (carried_obligations s)
                      \<and> n \<in> set (pending_owners ob))}
           \<and> sorted names)
     \<longleftrightarrow> (\<exists>ob \<in> set (obligations s). \<exists>n \<in> set (pending_owners ob).
            active ob \<and> item_id ob \<notin> set (carried_obligations s)
            \<and> n \<in> set (required_reviewers (snap_contract s))
            \<and> Some n \<noteq> primary_reviewer (snap_contract s))"
    (is "?stop \<longleftrightarrow> ?pending")
proof -
  let ?av = "available_required (required_reviewers (snap_contract s)) unav"
  have caps: "policy_capabilities (policy (snap_contract s)) = Inr caps_staged"
    using assms(1) by (simp add: policy_capabilities_def)
  have choice: "board_choice s cls approvals unav fin ph caps_staged = pre_panel_choice s cls approvals ?av"
    using assms by (simp add: board_choice_def Let_def caps_staged_def)
  have mem: "set (secondary_pending s) = {n \<in> set (required_reviewers (snap_contract s)).
                 Some n \<noteq> primary_reviewer (snap_contract s)
                 \<and> (\<exists>ob \<in> set (obligations s). active ob \<and> item_id ob \<notin> set (carried_obligations s)
                      \<and> n \<in> set (pending_owners ob))}"
    by (auto simp: secondary_pending_def uncarried_def active_obligations_def pending_of_def)
  have pend: "secondary_pending s \<noteq> [] \<longleftrightarrow> ?pending"
    unfolding set_empty [symmetric] mem by blast
  have err: "select_reviewers s cls approvals unav fin ph = Inl e \<longleftrightarrow> secondary_pending s \<noteq> []
      \<and> e = PrePanelSafety (sort (map item_id (filter (\<lambda>ob. set (pending_owners ob)
                \<inter> set (secondary_pending s) \<noteq> {}) (uncarried s)))) (sorted_set (secondary_pending s))" for e
    by (auto simp: select_reviewers_def caps choice pre_panel_choice_def Let_def guardE_def
        bindE_Inl_iff split: if_splits)
  show ?thesis
  proof
    assume ?stop
    then show ?pending using err pend by blast
  next
    assume ?pending
    then have ne: "secondary_pending s \<noteq> []" using pend by blast
    then obtain ids where
      "select_reviewers s cls approvals unav fin ph = Inl (PrePanelSafety ids (sorted_set (secondary_pending s)))"
      using err by blast
    moreover have "set (sorted_set (secondary_pending s)) = set (secondary_pending s)"
      "sorted (sorted_set (secondary_pending s))" by simp_all
    ultimately show ?stop using mem by metis
  qed
qed

theorem pre_panel_stop_iff_witness:
  "\<exists>ids names. select_reviewers (ex_snapshot\<lparr>obligations := [ex_obligation]\<rparr>) ex_narrow [] [] False None
     = Inl (PrePanelSafety ids names)"
proof -
  let ?s = "ex_snapshot\<lparr>obligations := [ex_obligation]\<rparr>"
  have h: "policy (snap_contract ?s) = ''primary-then-panel''" "\<not> operator_force_full ?s"
      "\<not> panel_evidence ?s" "(None :: string option) = None" "snap_phase ?s = None"
    by (simp_all add: ex_defs)
  have "\<exists>ob \<in> set (obligations ?s). \<exists>n \<in> set (pending_owners ob).
            active ob \<and> item_id ob \<notin> set (carried_obligations ?s)
            \<and> n \<in> set (required_reviewers (snap_contract ?s))
            \<and> Some n \<noteq> primary_reviewer (snap_contract ?s)"
    by (simp add: ex_defs active_def ACTIVE_STATUSES_def)
  with pre_panel_stop_iff [OF h, of ex_narrow "[]" "[]" False] show ?thesis by blast
qed

text \<open>Under the staged policy a reviewer whose approval of the exact head is already
  qualifying gets another turn only from a full board, never from the primary phase, the secondary
  audit, remediation or the final sweep.\<close>

theorem staged_carries_approvals:
  assumes "select_reviewers s cls approvals unav fin ph = Inr d"
    and "policy (snap_contract s) = ''primary-then-panel''"
    and "n \<in> set (selected_reviewers d)" and "n \<in> set approvals"
  shows "decision_phase d = ''full-board'' \<and> (operator_force_full s \<or> panel_evidence s)"
proof (cases "operator_force_full s")
  case True
  obtain caps where c: "policy_capabilities (policy (snap_contract s)) = Inr caps"
      "board_choice s cls approvals unav fin ph caps
         = Inr (selected_reviewers d, decision_phase d, decision_reason d)"
    using assms(1) by (rule select_reviewers_Inr)
  from c(2,1) True assms(2) show ?thesis by (cases rule: board_choice_cases) simp_all
next
  case False
  note choice = staged_choice [OF assms(1,2) False]
  show ?thesis
    using choice pre_panel_not_approved post_panel_not_approved assms(3,4)
    by (cases "panel_evidence s") blast+
qed

theorem staged_carries_approvals_witness:
  "\<exists>d. select_reviewers (ex_snapshot\<lparr>panel_evidence := True, force_full := True\<rparr>) ex_narrow
         [''codex''] [] False None = Inr d
     \<and> ''codex'' \<in> set (selected_reviewers d) \<and> decision_phase d = ''full-board''"
proof -
  let ?s = "ex_snapshot\<lparr>panel_evidence := True, force_full := True\<rparr>"
  obtain d where d: "select_reviewers ?s ex_narrow [''codex''] [] False None = Inr d"
      "''codex'' \<in> set (selected_reviewers d)"
    by (simp add: choice_defs ex_defs)
  have "policy (snap_contract ?s) = ''primary-then-panel''" by (simp add: ex_defs)
  from staged_carries_approvals [OF d(1) this d(2)] d show ?thesis by simp
qed

text \<open>A transition that is not narrow puts the new head before the whole available board: under
  the selective policy outside its final sweep, and under the staged policy once the panel has
  opened.\<close>

theorem unsafe_transition_full_board:
  assumes "select_reviewers s cls approvals unav fin ph = Inr d" and "\<not> narrow cls"
    and "policy (snap_contract s) = ''selective-intermediate'' \<and> \<not> fin
         \<or> policy (snap_contract s) = ''primary-then-panel'' \<and> panel_evidence s"
  shows "decision_phase d = ''full-board''
     \<and> selected_reviewers d = filter (\<lambda>n. n \<notin> set unav) (required_reviewers (snap_contract s))"
proof -
  obtain caps where c: "policy_capabilities (policy (snap_contract s)) = Inr caps"
      "board_choice s cls approvals unav fin ph caps
         = Inr (selected_reviewers d, decision_phase d, decision_reason d)"
    using assms(1) by (rule select_reviewers_Inr)
  from c(2,1) show ?thesis
  proof (cases rule: board_choice_cases)
    case post
    then show ?thesis using assms(2) by (auto simp: available_required_def dest: post_panel_full)
  next
    case selective
    then show ?thesis
      using assms(2,3) by (auto simp: selective_choice_def available_required_def)
  qed (use assms(3) in \<open>auto simp: available_required_def\<close>)
qed

theorem unsafe_transition_full_board_witness:
  "\<exists>d. select_reviewers (ex_snapshot\<lparr>panel_evidence := True\<rparr>) (broad_for ''rename'' []) [''codex''] []
         False None = Inr d
     \<and> selected_reviewers d = [''claude'', ''codex'', ''gemini'']"
proof -
  let ?s = "ex_snapshot\<lparr>panel_evidence := True\<rparr>"
  obtain d where d: "select_reviewers ?s (broad_for ''rename'' []) [''codex''] [] False None = Inr d"
    by (simp add: choice_defs ex_defs)
  have "policy (snap_contract ?s) = ''selective-intermediate'' \<and> \<not> False
         \<or> policy (snap_contract ?s) = ''primary-then-panel'' \<and> panel_evidence ?s"
    by (simp add: ex_defs)
  from unsafe_transition_full_board [OF d broad_for_not_narrow this] d show ?thesis
    by (auto simp: ex_defs)
qed

text \<open>A round with no reviewer to invoke means that the review is finished: with every
  required reviewer available, an empty selection implies that every required reviewer's approval
  of the exact head is qualifying.  The one exception is a staged remediation round whose active
  obligations are all pending on reviewers (and a primary) that have already approved.\<close>

theorem empty_selection_means_approved:
  assumes "select_reviewers s cls approvals unav fin ph = Inr d"
    and "selected_reviewers d = []"
    and "wf_contract sha (snap_contract s)"
    and "set unav \<inter> set (required_reviewers (snap_contract s)) = {}"
  shows "set (required_reviewers (snap_contract s)) \<subseteq> set approvals
     \<or> (decision_phase d = ''remediation'' \<and> active_obligations (obligations s) \<noteq> []
        \<and> (\<forall>n \<in> set (required_reviewers (snap_contract s)).
             n \<in> set (pending_of (active_obligations (obligations s)))
             \<or> Some n = primary_reviewer (snap_contract s) \<longrightarrow> n \<in> set approvals))"
proof -
  let ?req = "required_reviewers (snap_contract s)"
  let ?prim = "primary_reviewer (snap_contract s)"
  obtain caps where c: "policy_capabilities (policy (snap_contract s)) = Inr caps"
      "board_choice s cls approvals unav fin ph caps = Inr ([], decision_phase d, decision_reason d)"
    using select_reviewers_Inr [OF assms(1)] assms(2) by metis
  have av: "available_required ?req unav = ?req"
    using assms(4) by (auto simp: available_required_def filter_id_conv)
  have req: "?req \<noteq> []" and prim: "policy (snap_contract s) = ''primary-then-panel'' \<Longrightarrow>
      \<exists>p. ?prim = Some p \<and> p \<in> set ?req"
    using assms(3) by (auto simp: wf_contract_def requires_primary_iff split: if_splits)
  from c(2,1) show ?thesis
  proof (cases rule: board_choice_cases)
    case full
    then show ?thesis using av req by simp
  next
    case pre
    then obtain p where p: "?prim = Some p" "p \<in> set ?req" using prim by blast
    with pre(4) show ?thesis
      by (auto simp: av pre_panel_choice_def Let_def secondaries_missing_def primary_only_def
          primary_approved_def filter_empty_conv split: if_splits)
  next
    case post
    then obtain p where p: "?prim = Some p" "p \<in> set ?req" using prim by blast
    with post(4) req show ?thesis
      by (auto simp: av post_panel_choice_def Let_def secondaries_missing_def primary_only_def
          primary_approved_def filter_empty_conv split: if_splits)
  next
    case selective
    then show ?thesis using req
      by (auto simp: av selective_choice_def Let_def filter_empty_conv split: if_splits)
  qed
qed

definition ex_wf_contract :: contract where
  "ex_wf_contract = ex_contract\<lparr>rules_digest := Some (rules_hash id [''Makefile''])\<rparr>"

lemma ex_wf_contract: "wf_contract id ex_wf_contract"
  by (simp add: wf_contract_def ex_wf_contract_def ex_contract_def policy_capabilities_def
      caps_staged_def broad_rules_normal_def clean_rule_ok_def clean_rule_def Let_def strip_def
      lstrip_def rstrip_def is_space_def replace_char_def starts_with_def)

theorem empty_selection_means_approved_witness:
  "\<exists>d. select_reviewers (ex_snapshot\<lparr>snap_contract := ex_wf_contract\<rparr>) ex_narrow
         [''claude'', ''codex'', ''gemini''] [] False None = Inr d
     \<and> selected_reviewers d = []
     \<and> set (required_reviewers ex_wf_contract) \<subseteq> set [''claude'', ''codex'', ''gemini'']"
proof -
  let ?s = "ex_snapshot\<lparr>snap_contract := ex_wf_contract\<rparr>"
  obtain d where d: "select_reviewers ?s ex_narrow [''claude'', ''codex'', ''gemini''] [] False None = Inr d"
      "selected_reviewers d = []" "decision_phase d = ''secondary-audit''"
    by (simp add: choice_defs ex_defs ex_wf_contract_def)
  have "wf_contract id (snap_contract ?s)" using ex_wf_contract by simp
  from empty_selection_means_approved [OF d(1,2) this] d show ?thesis by auto
qed

text \<open>The calls a decision reports as avoided are real: at most the number of available
  reviewers without a qualifying approval that it left unselected, and exactly that number when
  every selected reviewer is one of those.\<close>

theorem calls_avoided_bound:
  assumes "select_reviewers s cls approvals unav fin ph = Inr d"
    and "distinct (required_reviewers (snap_contract s))"
  defines "eligible \<equiv> filter (\<lambda>n. n \<notin> set approvals \<and> n \<notin> set unav) (required_reviewers (snap_contract s))"
  shows "0 \<le> calls_avoided d
     \<and> calls_avoided d \<le> int (card (set eligible - set (selected_reviewers d)))
     \<and> (policy (snap_contract s) \<noteq> ''all-reviewers'' \<and> set (selected_reviewers d) \<subseteq> set eligible
        \<longrightarrow> calls_avoided d = int (card (set eligible - set (selected_reviewers d))))"
proof -
  let ?sel = "selected_reviewers d"
  obtain caps where caps: "policy_capabilities (policy (snap_contract s)) = Inr caps"
    and av: "calls_avoided d
       = avoided_calls caps (required_reviewers (snap_contract s)) approvals unav ?sel"
    using assms(1) by (rule select_reviewers_Inr)
  have i: "input_wf (s, cls, approvals, unav, fin, ph)" "select_input (s, cls, approvals, unav, fin, ph) = Inr d"
    using assms by simp_all
  have ds: "card (set ?sel) = length ?sel"
    using pr_board.each_once(1) [OF i] by (rule distinct_card)
  have de: "card (set eligible) = length eligible"
    by (rule distinct_card) (simp add: assms(2) eligible_def)
  have diff: "card (set eligible) - card (set ?sel) \<le> card (set eligible - set ?sel)"
    by (rule diff_card_le_card_Diff) simp
  have counts: "counts_avoided_calls caps \<longleftrightarrow> policy (snap_contract s) \<noteq> ''all-reviewers''"
    using caps by (auto simp: policy_capabilities_Inr caps_all_reviewers_def caps_selective_def caps_staged_def)
  have val: "calls_avoided d = (if counts_avoided_calls caps
       then max 0 (int (card (set eligible)) - int (card (set ?sel))) else 0)"
    by (simp add: av avoided_calls_def Let_def ds de flip: eligible_def)
  have eq: "set ?sel \<subseteq> set eligible \<Longrightarrow>
      card (set eligible - set ?sel) = card (set eligible) - card (set ?sel)"
    by (rule card_Diff_subset) simp_all
  have le: "set ?sel \<subseteq> set eligible \<Longrightarrow> card (set ?sel) \<le> card (set eligible)"
    by (rule card_mono) simp_all
  show ?thesis using val diff eq le counts by auto
qed

theorem calls_avoided_bound_witness:
  "\<exists>d. select_reviewers ex_snapshot ex_narrow [] [] False None = Inr d \<and> calls_avoided d = 2"
proof -
  obtain d where d: "select_reviewers ex_snapshot ex_narrow [] [] False None = Inr d"
      "selected_reviewers d = [''claude'']"
    by (simp add: choice_defs ex_defs)
  have "distinct (required_reviewers (snap_contract ex_snapshot))" by (simp add: ex_defs)
  from calls_avoided_bound [OF d(1) this] d show ?thesis by (auto simp: ex_defs)
qed

end
