(* ===== verification/Plan_Selection.thy ===== *)
theory Plan_Selection
  imports Plan_Key Reviewer_Selection
begin

text \<open>
  The planning scheduler (\<open>plan_review_scheduling.py\<close>, second part): its contract, the snapshot
  it decides from and \<open>select_plan_reviewers\<close>.  Obligations, capabilities and the staged
  vocabulary are those of the pull-request scheduler, as in the code.
\<close>

section \<open>Policies and the contract\<close>

definition plan_policy_capabilities :: "string \<Rightarrow> plan_error + capabilities" where
  "plan_policy_capabilities pol =
     (if pol = ''all-reviewers'' then Inr caps_all_reviewers
      else if pol = ''primary-then-panel'' then Inr caps_staged
      else Inl (PlanUnsupportedPolicy pol))"

record plan_contract =
  plan_reviewers :: "string list"
  plan_policy :: string
  plan_primary :: "string option"

definition mk_plan_contract :: "pyval list \<Rightarrow> string \<Rightarrow> pyval \<Rightarrow> plan_error + plan_contract" where
  "mk_plan_contract reviewers pol primary =
     guardE (reviewers = [] \<or> (\<exists>r \<in> set reviewers. \<not> is_str r \<or> r = PStr []) \<or> \<not> no_dups reviewers)
       PlanReviewersNotUnique
     (bindE (plan_policy_capabilities pol) (\<lambda>caps.
      guardE (primary \<noteq> PNone \<and> (\<not> is_str primary \<or> primary = PStr [])) PlanPrimaryEmpty
     (bindE (if requires_primary caps then
               guardE (length reviewers < 2) PlanNeedsSecondary
               (guardE (primary \<notin> set reviewers) PlanPrimaryNotMember (Inr ()))
             else guardE (primary \<noteq> PNone) PlanPrimaryNotAllowed (Inr ())) (\<lambda>_.
      Inr \<lparr>plan_reviewers = map the_str reviewers, plan_policy = pol,
           plan_primary = opt_str primary\<rparr>))))"

definition secondary_reviewers :: "plan_contract \<Rightarrow> string list" where
  "secondary_reviewers c = filter (\<lambda>n. Some n \<noteq> plan_primary c) (plan_reviewers c)"

definition plan_contract_as_dict :: "plan_contract \<Rightarrow> pyval" where
  "plan_contract_as_dict c =
     PDict [(''required_reviewers'', PList (map PStr (plan_reviewers c))),
            (''policy'', PStr (plan_policy c)),
            (''primary_reviewer'', of_opt_str (plan_primary c))]"

definition plan_contract_from_mapping :: "pyval \<Rightarrow> plan_error + plan_contract" where
  "plan_contract_from_mapping v =
     (case v of
        PDict _ \<Rightarrow>
          (case (py_get v ''required_reviewers'', py_get v ''policy'') of
             (PList reviewers, PStr pol) \<Rightarrow>
               let primary = py_get v ''primary_reviewer'' in
               guardE ((\<exists>r \<in> set reviewers. \<not> is_str r \<or> r = PStr [])
                       \<or> (primary \<noteq> PNone \<and> \<not> is_str primary)) PlanContractIncomplete
               (mk_plan_contract reviewers pol primary)
           | _ \<Rightarrow> Inl PlanContractIncomplete)
      | _ \<Rightarrow> Inl PlanContractMalformed)"

definition wf_plan_contract :: "plan_contract \<Rightarrow> bool" where
  "wf_plan_contract c \<longleftrightarrow>
     plan_reviewers c \<noteq> [] \<and> [] \<notin> set (plan_reviewers c) \<and> distinct (plan_reviewers c)
     \<and> (plan_policy c = ''all-reviewers'' \<and> plan_primary c = None
        \<or> plan_policy c = ''primary-then-panel'' \<and> 2 \<le> length (plan_reviewers c)
          \<and> (\<exists>p. plan_primary c = Some p \<and> p \<in> set (plan_reviewers c)))"

section \<open>The snapshot and the decision\<close>

record plan_snapshot =
  pcontract :: plan_contract
  previous_key :: "plan_key option"
  current_key :: "plan_key option"
  plan_obligations :: "obligation list"
  plan_force_full :: bool
  plan_force_full_source :: "string option"
  plan_operator_force_full :: bool
  plan_panel_evidence :: bool
  plan_phase :: "string option"
  plan_fallback_reasons :: "string list"
  degraded_history_class :: string
  premature_secondary_reviews :: "string list"
  transport_error :: "string option"
  plan_carried :: "string list"

record plan_decision =
  plan_selected :: "string list"
  plan_paused :: "(string \<times> string) list"
  plan_reason :: string
  plan_decision_classification :: plan_classification
  plan_decision_phase :: string
  plan_decision_primary :: "string option"
  plan_active_owners :: "string list"
  plan_calls_avoided :: int
  plan_final_sweep :: bool
  plan_decision_history :: string
  latches_force_full :: bool
  records_panel_opening :: bool

definition PLAN_SCHEDULER_PHASES :: "string list" where
  "PLAN_SCHEDULER_PHASES =
     [''full-board'', ''primary'', ''secondary-audit'', ''remediation'', ''final-secondary-sweep'']"

definition PLAN_FORCE_FULL_SOURCES :: "string list" where
  "PLAN_FORCE_FULL_SOURCES = [''operator'', ''automatic'']"

definition mk_plan_snapshot :: "plan_snapshot \<Rightarrow> plan_error + plan_snapshot" where
  "mk_plan_snapshot s =
     (case plan_force_full_source s of
        Some src \<Rightarrow> guardE (src \<notin> set PLAN_FORCE_FULL_SOURCES) (UnsupportedForceFullSource src)
      | None \<Rightarrow> id)
     (guardE (degraded_history_class s \<notin> set PLAN_HISTORY_CLASSES)
        (UnsupportedHistoryClass (degraded_history_class s))
     ((case plan_phase s of
         Some p \<Rightarrow> guardE (p \<notin> set PLAN_SCHEDULER_PHASES) (UnsupportedPlanPhase p)
       | None \<Rightarrow> id)
     (Inr (s\<lparr>premature_secondary_reviews := sorted_set (premature_secondary_reviews s)\<rparr>))))"

section \<open>Texts\<close>

definition OPERATOR_PLAN_FORCE_FULL_REASON :: string where
  "OPERATOR_PLAN_FORCE_FULL_REASON =
     ''operator force-full: the complete plan board is authorized by --plan-review-force-full''"

definition superseded_text :: "string list \<Rightarrow> string" where
  "superseded_text names =
     ''; superseded premature secondary plan review(s) from '' @ join '', '' names
     @ '' are excluded from approval and ownership accounting and supplied only as ''
     @ ''non-authoritative context''"

definition premature_text :: "string list \<Rightarrow> string" where
  "premature_text names =
     ''premature blocking plan review(s) from '' @ join '', '' names
     @ '' are unqualified artifacts of the degraded history and establish no finding, ''
     @ ''ownership, or approval''"

definition claims_text :: "string list \<Rightarrow> string" where
  "claims_text names =
     ''secondary-owned plan finding claims from '' @ join '', '' names
     @ '' come from the same degraded history and are not authoritative ownership''"

definition plan_primary_rechecks_text :: string where
  "plan_primary_rechecks_text =
     ''primary phase: primary rechecks its plan findings before the secondary panel''"

definition plan_primary_required_text :: string where
  "plan_primary_required_text =
     ''primary phase: an exact-plan primary approval is required before the secondary panel''"

definition plan_audit_text :: string where
  "plan_audit_text = ''independent secondary audit after an exact-plan primary approval''"

definition premature_approvals_text :: "string list \<Rightarrow> string" where
  "premature_approvals_text names =
     ''; premature plan approval(s) from '' @ join '', '' names
     @ '' predate any qualified opening, are not carried, and do not shrink this audit''"

definition plan_remaining_text :: "string list \<Rightarrow> string" where
  "plan_remaining_text ids =
     ''; non-reviewer plan obligations remain: '' @ join '', '' ids
     @ ''; planner repair follows under post-panel rules''"

definition plan_full_board_text :: string where
  "plan_full_board_text = POST_PANEL_PREFIX @ ''full plan board required after panel evidence: ''"

definition plan_remediation_text :: string where
  "plan_remediation_text = POST_PANEL_PREFIX
     @ ''narrow plan remediation: finding owners from the canonical ledger and the primary must recheck''"

definition plan_outstanding_text :: string where
  "plan_outstanding_text =
     ''remediation: an exact-plan primary approval is outstanding before the final secondary sweep''"

definition plan_sweep_text :: string where
  "plan_sweep_text =
     ''final exact-plan sweep for every required reviewer still missing an approval''"

text \<open>The text of an undecodable history: one line, at most 300 characters.\<close>

definition plan_undecodable_detail :: "string \<Rightarrow> string" where
  "plan_undecodable_detail error =
     (let detail = join '' '' (py_words error);
          bounded = (if length detail > 300 then rstrip (take 297 detail) @ ''...'' else detail)
      in if bounded \<noteq> [] then bounded else ''unknown extraction error'')"

definition extraction_text :: string where
  "extraction_text = ''the planning round-metadata record set could not be extracted''"

section \<open>Parts of the choice\<close>

definition is_degraded :: "plan_snapshot \<Rightarrow> bool" where
  "is_degraded s \<longleftrightarrow> degraded_history_class s \<in> set PLAN_DEGRADED_CONTINUE_CLASSES"

definition degraded_reason :: "plan_snapshot \<Rightarrow> string option" where
  "degraded_reason s =
     (if is_degraded s then plan_history_fallback_reasons (degraded_history_class s) else None)"

text \<open>The approvals that count, and the ones dropped because no panel has opened yet.\<close>

definition premature_approvals :: "plan_snapshot \<Rightarrow> capabilities \<Rightarrow> string list \<Rightarrow> string list" where
  "premature_approvals s caps approvals =
     (if requires_primary caps \<and> \<not> plan_panel_evidence s
      then sorted_set (filter (\<lambda>n. Some n \<noteq> plan_primary (pcontract s)) approvals) else [])"

definition counted_approvals :: "plan_snapshot \<Rightarrow> capabilities \<Rightarrow> string list \<Rightarrow> string list" where
  "counted_approvals s caps approvals =
     filter (\<lambda>n. n \<notin> set (premature_approvals s caps approvals)) approvals"

definition plan_fallback_detail :: "plan_snapshot \<Rightarrow> string" where
  "plan_fallback_detail s =
     join ''; '' (dict_fromkeys (plan_fallback_reasons s
       @ (case degraded_reason s of Some r \<Rightarrow> [r] | None \<Rightarrow> [])))"

definition plan_uncarried :: "plan_snapshot \<Rightarrow> obligation list" where
  "plan_uncarried s =
     filter (\<lambda>ob. item_id ob \<notin> set (plan_carried s)) (active_obligations (plan_obligations s))"

definition is_plan_secondary :: "plan_snapshot \<Rightarrow> string \<Rightarrow> bool" where
  "is_plan_secondary s n \<longleftrightarrow>
     n \<in> set (plan_reviewers (pcontract s)) \<and> Some n \<noteq> plan_primary (pcontract s)"

definition plan_premature :: "plan_snapshot \<Rightarrow> string list" where
  "plan_premature s = filter (is_plan_secondary s) (premature_secondary_reviews s)"

definition plan_secondary_pending :: "plan_snapshot \<Rightarrow> string list" where
  "plan_secondary_pending s = filter (is_plan_secondary s) (pending_of (plan_uncarried s))"

definition plan_strict_reasons :: "plan_snapshot \<Rightarrow> plan_classification \<Rightarrow> string list" where
  "plan_strict_reasons s cls =
     (let fallback = plan_fallback_detail s; degraded = is_degraded s in
      (if plan_force_full s \<or> degraded \<or> fallback \<noteq> []
       then [if fallback \<noteq> [] then fallback else automatic_fallback_text] else [])
      @ (if \<not> owner_scoped cls
            \<and> (active_obligations (plan_obligations s) \<noteq> [] \<or> previous_key s \<noteq> None)
         then [preason cls] else [])
      @ (if degraded \<and> plan_premature s \<noteq> [] then [premature_text (plan_premature s)] else [])
      @ (if degraded \<and> plan_secondary_pending s \<noteq> []
         then [claims_text (sorted_set (plan_secondary_pending s))] else []))"

definition plan_primary_phase_reason :: "plan_snapshot \<Rightarrow> plan_classification \<Rightarrow> string" where
  "plan_primary_phase_reason s cls =
     (let strict = plan_strict_reasons s cls in
      if strict \<noteq> [] then
        STRICT_PRE_PANEL_PREFIX @ join ''; '' (dict_fromkeys strict)
        @ ''; primary re-invoked with full context''
      else if active_obligations (plan_obligations s) \<noteq> [] then plan_primary_rechecks_text
      else plan_primary_required_text)"

text \<open>Selected reviewers, phase, reason, and the two flags of the decision.\<close>

type_synonym plan_choice = "string list \<times> string \<times> string \<times> bool \<times> bool"

definition plan_pre_panel_choice ::
  "plan_snapshot \<Rightarrow> plan_classification \<Rightarrow> string list \<Rightarrow> string list \<Rightarrow> string list
     \<Rightarrow> plan_error + plan_choice" where
  "plan_pre_panel_choice s cls approvals dropped available =
     (let primary = plan_primary (pcontract s);
          obs = active_obligations (plan_obligations s);
          approved = primary_approved primary approvals \<and> \<not> is_degraded s;
          pending = plan_secondary_pending s
      in guardE (plan_premature s \<noteq> [] \<and> \<not> is_degraded s) (PlanPrematureReviews (plan_premature s))
        (guardE (pending \<noteq> [] \<and> \<not> is_degraded s)
           (PlanSecondaryPending
              (sort (map item_id
                 (filter (\<lambda>ob. set (pending_owners ob) \<inter> set pending \<noteq> {}) (plan_uncarried s))))
              (sorted_set pending))
        (if \<not> approved then
           Inr (primary_only primary available, ''primary'', plan_primary_phase_reason s cls, False, False)
         else
           let remaining = sort (map item_id obs) in
           Inr (secondaries_missing primary available approvals, ''secondary-audit'',
                plan_audit_text
                @ (if dropped \<noteq> [] then premature_approvals_text dropped else [])
                @ (if remaining \<noteq> [] then plan_remaining_text remaining else []),
                False, True))))"

definition plan_post_panel_choice ::
  "plan_snapshot \<Rightarrow> plan_classification \<Rightarrow> string list \<Rightarrow> string list \<Rightarrow> plan_choice" where
  "plan_post_panel_choice s cls approvals available =
     (let primary = plan_primary (pcontract s);
          obs = active_obligations (plan_obligations s);
          fallback = plan_fallback_detail s
      in if plan_force_full s \<or> is_degraded s then
           (available, ''full-board'',
            POST_PANEL_PREFIX @ ''force-full latch''
            @ (if fallback \<noteq> [] then '' ('' @ fallback @ '')'' else []),
            is_degraded s \<or> plan_force_full_source s = Some ''automatic'', False)
         else if plan_broad cls then
           (available, ''full-board'', plan_full_board_text @ preason cls, True, False)
         else if obs \<noteq> [] then
           (filter (\<lambda>n. (n \<in> set (pending_of obs) \<or> Some n = primary) \<and> n \<notin> set approvals) available,
            ''remediation'', plan_remediation_text, False, False)
         else if \<not> primary_approved primary approvals then
           (primary_only primary available, ''remediation'', plan_outstanding_text, False, False)
         else
           (filter (\<lambda>n. n \<notin> set approvals) available, ''final-secondary-sweep'', plan_sweep_text,
            False, False))"

definition plan_board_choice ::
  "plan_snapshot \<Rightarrow> plan_classification \<Rightarrow> string list \<Rightarrow> string list \<Rightarrow> string list
     \<Rightarrow> plan_error + plan_choice" where
  "plan_board_choice s cls approvals dropped available =
     (if plan_policy (pcontract s) = ''all-reviewers'' then
        Inr (available, ''full-board'', ''compatibility policy'', False, False)
      else if plan_operator_force_full s then
        let superseded = filter (\<lambda>n. n \<in> set (plan_reviewers (pcontract s))) (premature_secondary_reviews s)
        in Inr (available, ''full-board'',
                OPERATOR_PLAN_FORCE_FULL_REASON
                @ (if superseded \<noteq> [] then superseded_text superseded else []), False, True)
      else if \<not> plan_panel_evidence s then plan_pre_panel_choice s cls approvals dropped available
      else Inr (plan_post_panel_choice s cls approvals available))"

definition plan_pause_reason ::
  "plan_snapshot \<Rightarrow> string list \<Rightarrow> string list \<Rightarrow> string \<Rightarrow> string \<Rightarrow> string" where
  "plan_pause_reason s approvals unavailable ph name =
     (if name \<in> set unavailable then
        ''reviewer unavailable; required plan approval remains outstanding''
      else if name \<in> set approvals then
        ''qualifying exact-plan approval carried; no new turn needed''
      else if plan_policy (pcontract s) = ''all-reviewers'' then
        ''compatibility scheduling did not select this reviewer''
      else if ph = ''primary'' then
        ''primary phase; the secondary panel waits for an exact-plan primary approval''
      else if ph = ''secondary-audit'' then
        ''secondary audit has not selected this already qualifying reviewer''
      else if ph = ''remediation'' then
        ''remediation did not identify this reviewer as a ledger owner or the ''
        @ ''primary; a final exact-plan sweep follows clearance''
      else if ph = ''final-secondary-sweep'' then
        ''final exact-plan sweep did not select this reviewer''
      else ''reviewer was not selected by the full plan board transition'')"

definition select_plan_reviewers ::
  "plan_snapshot \<Rightarrow> plan_classification \<Rightarrow> string list \<Rightarrow> string list \<Rightarrow> string option
     \<Rightarrow> plan_error + plan_decision" where
  "select_plan_reviewers s cls approvals unavailable ph =
     (let required = plan_reviewers (pcontract s);
          available = available_required required unavailable
      in bindE (plan_policy_capabilities (plan_policy (pcontract s))) (\<lambda>caps.
         guardE (degraded_history_class s = PLAN_HISTORY_TRANSPORT_FAILURE)
           (PlanHistoryUndecodable
              (plan_undecodable_detail
                 (case transport_error s of Some e \<Rightarrow> e | None \<Rightarrow> extraction_text)))
        ((case (case ph of Some p \<Rightarrow> Some p | None \<Rightarrow> plan_phase s) of
            Some p \<Rightarrow> guardE (p \<notin> set PLAN_SCHEDULER_PHASES) (UnsupportedPlanPhase p)
          | None \<Rightarrow> id)
        (let dropped = premature_approvals s caps approvals;
             counted = counted_approvals s caps approvals
         in bindE (plan_board_choice s cls counted dropped available)
              (\<lambda>(selected, selected_phase, why, latch, opening).
            Inr \<lparr>plan_selected = selected,
                 plan_paused = map (\<lambda>n. (n, plan_pause_reason s counted unavailable selected_phase n))
                   (filter (\<lambda>n. n \<notin> set selected) required),
                 plan_reason = why,
                 plan_decision_classification = cls,
                 plan_decision_phase = selected_phase,
                 plan_decision_primary = plan_primary (pcontract s),
                 plan_active_owners = sorted_set (pending_of (active_obligations (plan_obligations s))),
                 plan_calls_avoided = avoided_calls caps required counted unavailable selected,
                 plan_final_sweep = (selected_phase = ''final-secondary-sweep''),
                 plan_decision_history = degraded_history_class s,
                 latches_force_full = latch,
                 records_panel_opening = opening\<rparr>)))))"

section \<open>Facts on the contract\<close>

lemma plan_policy_capabilities_Inr:
  "plan_policy_capabilities pol = Inr caps \<longleftrightarrow>
     pol = ''all-reviewers'' \<and> caps = caps_all_reviewers
     \<or> pol = ''primary-then-panel'' \<and> caps = caps_staged"
  by (auto simp: plan_policy_capabilities_def)

lemma mk_plan_contract_wf:
  assumes "mk_plan_contract reviewers pol primary = Inr c"
  shows "wf_plan_contract c"
proof -
  obtain caps where
    rvw: "reviewers \<noteq> []" "\<forall>r \<in> set reviewers. is_str r \<and> r \<noteq> PStr []" "distinct reviewers"
    and caps: "plan_policy_capabilities pol = Inr caps"
    and board: "if requires_primary caps then 2 \<le> length reviewers \<and> primary \<in> set reviewers
                else primary = PNone"
    and c: "c = \<lparr>plan_reviewers = map the_str reviewers, plan_policy = pol,
                 plan_primary = opt_str primary\<rparr>"
    using assms
    by (auto simp: mk_plan_contract_def bindE_Inr_iff not_less split: if_splits)
  have strs: "\<forall>r \<in> set reviewers. is_str r" using rvw by blast
  have ne: "[] \<notin> set (map the_str reviewers)"
  proof
    assume "[] \<in> set (map the_str reviewers)"
    then obtain v where v: "v \<in> set reviewers" "the_str v = []" by auto
    with strs have "v = PStr []" by (cases v) auto
    with v rvw show False by blast
  qed
  have member: "primary \<in> set reviewers \<Longrightarrow>
      \<exists>p. opt_str primary = Some p \<and> p \<in> set (map the_str reviewers)"
    using strs by (cases primary) (force+)
  show ?thesis
    using rvw(1,3) ne caps board member strs distinct_the_str [OF strs]
    by (auto simp: c wf_plan_contract_def plan_policy_capabilities_Inr caps_all_reviewers_def
        caps_staged_def)
qed

lemma plan_contract_from_mapping_as_dict:
  assumes "wf_plan_contract c"
  shows "plan_contract_from_mapping (plan_contract_as_dict c) = Inr c"
proof -
  have ne: "[] \<notin> set (plan_reviewers c)" "plan_reviewers c \<noteq> []" "distinct (plan_reviewers c)"
    using assms by (auto simp: wf_plan_contract_def)
  then have "distinct (map PStr (plan_reviewers c))" by (simp add: distinct_map inj_on_def)
  with ne assms show ?thesis
    by (cases "plan_primary c")
       (auto simp: plan_contract_from_mapping_def plan_contract_as_dict_def mk_plan_contract_def
          wf_plan_contract_def plan_policy_capabilities_def caps_all_reviewers_def caps_staged_def
          Let_def guardE_def comp_def)
qed

interpretation plan_contract_codec:
  record_codec plan_contract_as_dict plan_contract_from_mapping wf_plan_contract
proof unfold_locales
  show "wf_plan_contract r \<Longrightarrow> plan_contract_from_mapping (plan_contract_as_dict r) = Inr r" for r
    by (rule plan_contract_from_mapping_as_dict)
  show "plan_contract_from_mapping v = Inr r \<Longrightarrow> wf_plan_contract r" for v r
    by (auto simp: plan_contract_from_mapping_def Let_def split: pyval.splits
        intro: mk_plan_contract_wf)
qed

section \<open>Facts on the choice\<close>

lemma plan_pre_panel_part:
  "plan_pre_panel_choice s cls approvals dropped av = Inr (sel, ph, why, l, o') \<Longrightarrow> distinct av
     \<Longrightarrow> \<exists>P. sel = filter P av"
  unfolding plan_pre_panel_choice_def Let_def
  by (auto simp: primary_only_filter secondaries_missing_def split: if_splits)

lemma plan_post_panel_part:
  "plan_post_panel_choice s cls approvals av = (sel, ph, why, l, o') \<Longrightarrow> distinct av
     \<Longrightarrow> \<exists>P. sel = filter P av"
  unfolding plan_post_panel_choice_def Let_def
  by (auto simp: primary_only_filter intro: filter_itself split: if_splits)

lemma plan_board_choice_part:
  assumes "plan_board_choice s cls approvals dropped av = Inr (sel, ph, why, l, o')" and "distinct av"
  shows "\<exists>P. sel = filter P av"
proof -
  consider "sel = av" | "plan_pre_panel_choice s cls approvals dropped av = Inr (sel, ph, why, l, o')"
    | "plan_post_panel_choice s cls approvals av = (sel, ph, why, l, o')"
    using assms(1) by (auto simp: plan_board_choice_def Let_def split: if_splits)
  then show ?thesis
    using assms(2) by cases (auto intro: filter_itself plan_pre_panel_part plan_post_panel_part)
qed

lemma select_plan_reviewers_Inr:
  assumes "select_plan_reviewers s cls approvals unav ph = Inr d"
  obtains caps where "plan_policy_capabilities (plan_policy (pcontract s)) = Inr caps"
    and "degraded_history_class s \<noteq> PLAN_HISTORY_TRANSPORT_FAILURE"
    and "plan_board_choice s cls (counted_approvals s caps approvals)
           (premature_approvals s caps approvals)
           (available_required (plan_reviewers (pcontract s)) unav)
         = Inr (plan_selected d, plan_decision_phase d, plan_reason d, latches_force_full d,
                records_panel_opening d)"
    and "map fst (plan_paused d)
           = filter (\<lambda>n. n \<notin> set (plan_selected d)) (plan_reviewers (pcontract s))"
  using assms
  by (auto simp: select_plan_reviewers_def bindE_Inr_iff Let_def comp_def split: option.splits)

type_synonym plan_selection_input =
  "plan_snapshot \<times> plan_classification \<times> string list \<times> string list \<times> string option"

fun plan_select_input :: "plan_selection_input \<Rightarrow> plan_error + plan_decision" where
  "plan_select_input (s, cls, approvals, unav, ph) = select_plan_reviewers s cls approvals unav ph"

fun plan_input_board :: "plan_selection_input \<Rightarrow> string list" where
  "plan_input_board (s, _) = plan_reviewers (pcontract s)"

fun plan_input_absent :: "plan_selection_input \<Rightarrow> string list" where
  "plan_input_absent (s, cls, approvals, unav, _) = unav"

fun plan_input_wf :: "plan_selection_input \<Rightarrow> bool" where
  "plan_input_wf (s, _) = distinct (plan_reviewers (pcontract s))"

interpretation plan_board:
  board_scheduler plan_input_wf plan_select_input plan_input_board plan_input_absent plan_selected
    plan_paused
proof unfold_locales
  fix i and d :: plan_decision
  assume wf: "plan_input_wf i" and sel: "plan_select_input i = Inr d"
  obtain s cls approvals unav ph where i: "i = (s, cls, approvals, unav, ph)"
    by (cases i) auto
  from sel have "select_plan_reviewers s cls approvals unav ph = Inr d" by (simp add: i)
  then obtain caps where c: "plan_board_choice s cls (counted_approvals s caps approvals)
           (premature_approvals s caps approvals)
           (available_required (plan_reviewers (pcontract s)) unav)
         = Inr (plan_selected d, plan_decision_phase d, plan_reason d, latches_force_full d,
                records_panel_opening d)"
    and p: "map fst (plan_paused d)
         = filter (\<lambda>n. n \<notin> set (plan_selected d)) (plan_reviewers (pcontract s))"
    by (rule select_plan_reviewers_Inr)
  show "\<exists>P. plan_selected d = filter P (filter (\<lambda>n. n \<notin> set (plan_input_absent i)) (plan_input_board i))"
    using plan_board_choice_part [OF c] wf by (simp add: i available_required_def)
  show "map fst (plan_paused d) = filter (\<lambda>n. n \<notin> set (plan_selected d)) (plan_input_board i)"
    using p by (simp add: i)
next
  fix i
  assume "plan_input_wf i"
  then show "distinct (plan_input_board i)" by (cases i) simp
qed

text \<open>The staged policy without an operator override.\<close>

lemma plan_staged_choice:
  assumes "select_plan_reviewers s cls approvals unav ph = Inr d"
    and "plan_policy (pcontract s) = ''primary-then-panel''" and "\<not> plan_operator_force_full s"
  defines "av \<equiv> available_required (plan_reviewers (pcontract s)) unav"
  shows "\<not> plan_panel_evidence s \<Longrightarrow>
       plan_pre_panel_choice s cls (counted_approvals s caps_staged approvals)
         (premature_approvals s caps_staged approvals) av
       = Inr (plan_selected d, plan_decision_phase d, plan_reason d, latches_force_full d,
              records_panel_opening d)"
    and "plan_panel_evidence s \<Longrightarrow>
       plan_post_panel_choice s cls approvals av
       = (plan_selected d, plan_decision_phase d, plan_reason d, latches_force_full d,
          records_panel_opening d)"
proof -
  obtain caps where c: "plan_policy_capabilities (plan_policy (pcontract s)) = Inr caps"
    "plan_board_choice s cls (counted_approvals s caps approvals) (premature_approvals s caps approvals) av
     = Inr (plan_selected d, plan_decision_phase d, plan_reason d, latches_force_full d,
            records_panel_opening d)"
    using assms(1) unfolding av_def by (rule select_plan_reviewers_Inr)
  have caps: "caps = caps_staged" using c(1) assms(2) by (simp add: plan_policy_capabilities_def)
  show "\<not> plan_panel_evidence s \<Longrightarrow>
       plan_pre_panel_choice s cls (counted_approvals s caps_staged approvals)
         (premature_approvals s caps_staged approvals) av
       = Inr (plan_selected d, plan_decision_phase d, plan_reason d, latches_force_full d,
              records_panel_opening d)"
    using c(2) caps assms(2,3) by (simp add: plan_board_choice_def)
  show "plan_panel_evidence s \<Longrightarrow>
       plan_post_panel_choice s cls approvals av
       = (plan_selected d, plan_decision_phase d, plan_reason d, latches_force_full d,
          records_panel_opening d)"
    using c(2) caps assms(2,3)
    by (simp add: plan_board_choice_def counted_approvals_def premature_approvals_def)
qed

lemma counted_primary:
  "primary_approved (plan_primary (pcontract s)) (counted_approvals s caps approvals)
     \<longleftrightarrow> primary_approved (plan_primary (pcontract s)) approvals"
  by (auto simp: primary_approved_def counted_approvals_def premature_approvals_def split: option.splits)

text \<open>Before the panel, no secondary's approval is counted.\<close>

lemma counted_no_secondary:
  "\<not> plan_panel_evidence s \<Longrightarrow> n \<in> set (counted_approvals s caps_staged approvals)
     \<Longrightarrow> Some n = plan_primary (pcontract s)"
  by (auto simp: counted_approvals_def premature_approvals_def caps_staged_def)

lemma is_degraded_not_transport:
  "is_degraded s \<Longrightarrow> degraded_history_class s \<noteq> PLAN_HISTORY_TRANSPORT_FAILURE"
  by (auto simp: is_degraded_def PLAN_DEGRADED_CONTINUE_CLASSES_def history_classes)

section \<open>A board used in the examples\<close>

definition ex_plan_contract :: plan_contract where
  "ex_plan_contract =
     \<lparr>plan_reviewers = [''claude'', ''codex'', ''gemini''], plan_policy = ''primary-then-panel'',
      plan_primary = Some ''claude''\<rparr>"

definition ex_plan_snapshot :: plan_snapshot where
  "ex_plan_snapshot =
     \<lparr>pcontract = ex_plan_contract, previous_key = None, current_key = None, plan_obligations = [],
      plan_force_full = False, plan_force_full_source = None, plan_operator_force_full = False,
      plan_panel_evidence = False, plan_phase = None, plan_fallback_reasons = [],
      degraded_history_class = PLAN_HISTORY_INTACT, premature_secondary_reviews = [],
      transport_error = None, plan_carried = []\<rparr>"

definition ex_recheck :: plan_classification where
  "ex_recheck = \<lparr>pkind = ''recheck'', preason = ''same''\<rparr>"

lemmas plan_ex_defs = ex_plan_contract_def ex_plan_snapshot_def ex_recheck_def

lemmas plan_choice_defs = select_plan_reviewers_def plan_board_choice_def plan_pre_panel_choice_def
  plan_post_panel_choice_def available_required_def primary_only_def secondaries_missing_def
  primary_approved_def plan_secondary_pending_def plan_uncarried_def plan_premature_def
  is_plan_secondary_def pending_of_def active_obligations_def active_def ACTIVE_STATUSES_def
  plan_policy_capabilities_def caps_staged_def avoided_calls_def is_degraded_def
  PLAN_DEGRADED_CONTINUE_CLASSES_def history_classes premature_approvals_def counted_approvals_def
  plan_broad_def owner_scoped_def Let_def

section \<open>Properties\<close>

text \<open>Every planning decision splits the required plan board in board order, whatever the
  history, the approvals and the override, and selects no unavailable reviewer.\<close>

theorem select_plan_reviewers_splits_board:
  assumes "select_plan_reviewers s cls approvals unav ph = Inr d"
    and "distinct (plan_reviewers (pcontract s))"
  shows "set (plan_selected d) \<union> fst ` set (plan_paused d) = set (plan_reviewers (pcontract s))
     \<and> set (plan_selected d) \<inter> fst ` set (plan_paused d) = {}
     \<and> length (plan_selected d) + length (plan_paused d) = length (plan_reviewers (pcontract s))
     \<and> plan_selected d = filter (\<lambda>n. n \<in> set (plan_selected d)) (plan_reviewers (pcontract s))
     \<and> set (plan_selected d) \<inter> set unav = {}"
proof -
  let ?i = "(s, cls, approvals, unav, ph)"
  have i: "plan_input_wf ?i" "plan_select_input ?i = Inr d" using assms by simp_all
  show ?thesis
    using plan_board.board_split [OF i] plan_board.board_count [OF i] plan_board.chosen_in_order [OF i]
      plan_board.chosen_available [OF i] by auto
qed

theorem select_plan_reviewers_splits_board_witness:
  "\<exists>d. select_plan_reviewers (ex_plan_snapshot\<lparr>plan_operator_force_full := True\<rparr>) ex_recheck
         [] [''gemini''] None = Inr d
     \<and> plan_selected d = [''claude'', ''codex''] \<and> set (plan_selected d) \<inter> set [''gemini''] = {}"
proof -
  let ?s = "ex_plan_snapshot\<lparr>plan_operator_force_full := True\<rparr>"
  obtain d where d: "select_plan_reviewers ?s ex_recheck [] [''gemini''] None = Inr d"
      "plan_selected d = [''claude'', ''codex'']"
    by (simp add: plan_choice_defs plan_ex_defs)
  have "distinct (plan_reviewers (pcontract ?s))" by (simp add: plan_ex_defs)
  from select_plan_reviewers_splits_board [OF d(1) this] d show ?thesis by blast
qed

text \<open>C8: The independent audit cannot be shrunk: whatever approvals the history claims, the
  round that opens the plan panel selects every available secondary reviewer, needs the primary's
  exact-plan approval and an intact history, and is the only round without an operator override
  that records a panel opening.\<close>

theorem plan_audit_is_complete:
  assumes "select_plan_reviewers s cls approvals unav ph = Inr d"
    and "plan_policy (pcontract s) = ''primary-then-panel''"
    and "\<not> plan_operator_force_full s" and "\<not> plan_panel_evidence s"
  shows "(records_panel_opening d \<longleftrightarrow> plan_decision_phase d = ''secondary-audit'')
     \<and> (records_panel_opening d \<longrightarrow>
          primary_approved (plan_primary (pcontract s)) approvals \<and> \<not> is_degraded s
          \<and> plan_selected d = filter (\<lambda>n. Some n \<noteq> plan_primary (pcontract s) \<and> n \<notin> set unav)
              (plan_reviewers (pcontract s)))
     \<and> (\<not> records_panel_opening d \<longrightarrow> plan_decision_phase d = ''primary''
          \<and> set (plan_selected d) \<subseteq> {n. Some n = plan_primary (pcontract s)})"
proof -
  let ?av = "available_required (plan_reviewers (pcontract s)) unav"
  let ?cnt = "counted_approvals s caps_staged approvals"
  note choice = plan_staged_choice(1) [OF assms]
  have audit: "secondaries_missing (plan_primary (pcontract s)) ?av ?cnt
      = filter (\<lambda>n. Some n \<noteq> plan_primary (pcontract s) \<and> n \<notin> set unav) (plan_reviewers (pcontract s))"
    using counted_no_secondary [OF assms(4)]
    by (auto simp: secondaries_missing_def available_required_def intro: filter_cong)
  show ?thesis
    using choice audit counted_primary [of s caps_staged approvals]
      primary_only_set [of "plan_primary (pcontract s)" ?av]
    by (auto simp: plan_pre_panel_choice_def Let_def split: if_splits)
qed

theorem plan_audit_is_complete_witness:
  "\<exists>d. select_plan_reviewers ex_plan_snapshot ex_recheck [''claude'', ''codex'', ''gemini''] [] None = Inr d
     \<and> records_panel_opening d \<and> plan_selected d = [''codex'', ''gemini'']"
proof -
  obtain d where d: "select_plan_reviewers ex_plan_snapshot ex_recheck
      [''claude'', ''codex'', ''gemini''] [] None = Inr d" "plan_decision_phase d = ''secondary-audit''"
    by (simp add: plan_choice_defs plan_ex_defs)
  have "plan_policy (pcontract ex_plan_snapshot) = ''primary-then-panel''"
      "\<not> plan_operator_force_full ex_plan_snapshot" "\<not> plan_panel_evidence ex_plan_snapshot"
    by (simp_all add: plan_ex_defs)
  from plan_audit_is_complete [OF d(1) this] d show ?thesis by (auto simp: plan_ex_defs)
qed

text \<open>What each class of degraded planning history leads to under the staged policy: a
  record set that could not be extracted always stops the round, even under an operator override;
  a history that is readable but absent, invalid or contradictory never stops it, and without
  panel evidence and override it leads to the primary alone.\<close>

theorem degraded_history_outcomes:
  assumes "plan_policy (pcontract s) = ''primary-then-panel''" and "ph = None" and "plan_phase s = None"
  shows "(degraded_history_class s = PLAN_HISTORY_TRANSPORT_FAILURE \<longrightarrow>
       (\<exists>detail. select_plan_reviewers s cls approvals unav ph = Inl (PlanHistoryUndecodable detail)))
     \<and> (is_degraded s \<longrightarrow> (\<exists>d. select_plan_reviewers s cls approvals unav ph = Inr d
       \<and> (\<not> plan_operator_force_full s \<and> \<not> plan_panel_evidence s
          \<longrightarrow> plan_decision_phase d = ''primary'' \<and> \<not> records_panel_opening d)
       \<and> (\<not> plan_operator_force_full s \<and> plan_panel_evidence s
          \<longrightarrow> plan_decision_phase d = ''full-board'' \<and> latches_force_full d)))"
proof -
  have caps: "plan_policy_capabilities ''primary-then-panel'' = Inr caps_staged"
    by (simp add: plan_policy_capabilities_def)
  have "degraded_history_class s = PLAN_HISTORY_TRANSPORT_FAILURE \<longrightarrow>
       (\<exists>detail. select_plan_reviewers s cls approvals unav ph = Inl (PlanHistoryUndecodable detail))"
    by (simp add: select_plan_reviewers_def assms(1) caps Let_def)
  moreover have "is_degraded s \<longrightarrow> (\<exists>d. select_plan_reviewers s cls approvals unav ph = Inr d
       \<and> (\<not> plan_operator_force_full s \<and> \<not> plan_panel_evidence s
          \<longrightarrow> plan_decision_phase d = ''primary'' \<and> \<not> records_panel_opening d)
       \<and> (\<not> plan_operator_force_full s \<and> plan_panel_evidence s
          \<longrightarrow> plan_decision_phase d = ''full-board'' \<and> latches_force_full d))"
    using is_degraded_not_transport [of s] assms
    by (simp add: select_plan_reviewers_def caps Let_def plan_board_choice_def
        plan_pre_panel_choice_def plan_post_panel_choice_def)
  ultimately show ?thesis by blast
qed

theorem degraded_history_outcomes_witness:
  "\<exists>detail. select_plan_reviewers
     (ex_plan_snapshot\<lparr>degraded_history_class := PLAN_HISTORY_TRANSPORT_FAILURE,
        plan_operator_force_full := True\<rparr>) ex_recheck [] [] None = Inl (PlanHistoryUndecodable detail)"
proof -
  let ?s = "ex_plan_snapshot\<lparr>degraded_history_class := PLAN_HISTORY_TRANSPORT_FAILURE,
        plan_operator_force_full := True\<rparr>"
  have "plan_policy (pcontract ?s) = ''primary-then-panel''" "(None :: string option) = None"
      "plan_phase ?s = None"
    by (simp_all add: plan_ex_defs)
  from degraded_history_outcomes [OF this, of ex_recheck "[]" "[]"] show ?thesis by simp
qed

text \<open>Once the plan panel has opened, a broad transition gets the complete available board and
  raises the durable latch, and while the latch is set no later round of any transition narrows
  the board again.\<close>

theorem plan_broad_latches:
  assumes "select_plan_reviewers s cls approvals unav ph = Inr d"
    and "plan_policy (pcontract s) = ''primary-then-panel''"
    and "\<not> plan_operator_force_full s" and "plan_panel_evidence s"
    and "plan_broad cls \<or> plan_force_full s"
  shows "plan_decision_phase d = ''full-board''
     \<and> plan_selected d = filter (\<lambda>n. n \<notin> set unav) (plan_reviewers (pcontract s))
     \<and> (plan_broad cls \<and> \<not> plan_force_full s \<or> plan_force_full_source s = Some ''automatic''
        \<longrightarrow> latches_force_full d)"
  using plan_staged_choice(2) [OF assms(1-3)] assms(4,5)
  by (auto simp: plan_post_panel_choice_def Let_def available_required_def split: if_splits)

theorem plan_broad_latches_witness:
  "\<exists>d. select_plan_reviewers (ex_plan_snapshot\<lparr>plan_panel_evidence := True\<rparr>) (broad_plan ''rewrite'')
         [''claude''] [] None = Inr d
     \<and> latches_force_full d \<and> plan_selected d = [''claude'', ''codex'', ''gemini'']"
proof -
  let ?s = "ex_plan_snapshot\<lparr>plan_panel_evidence := True\<rparr>"
  obtain d where d: "select_plan_reviewers ?s (broad_plan ''rewrite'') [''claude''] [] None = Inr d"
    by (simp add: plan_choice_defs plan_ex_defs broad_plan_def)
  have "plan_policy (pcontract ?s) = ''primary-then-panel''" "\<not> plan_operator_force_full ?s"
      "plan_panel_evidence ?s" "plan_broad (broad_plan ''rewrite'') \<or> plan_force_full ?s"
    by (simp_all add: plan_ex_defs)
  from plan_broad_latches [OF d this] d show ?thesis by (auto simp: plan_ex_defs)
qed

end
