(* ===== verification/Review_Item.thy ===== *)
theory Review_Item
  imports Prelude
begin

text \<open>
  The unresolved review item, the record of the review ledger: a reviewer's finding or a
  machine-owned obligation.  \<open>mk_item\<close> is the constructor with its \<open>__post_init__\<close> checks
  (\<open>protocol.py\<close>), \<open>typed_requests\<close> and \<open>validate_item\<close> the checks on typed screenshot
  requests (\<open>review_images_coverage.py\<close>), and \<open>next_unresolved_item\<close> the minting of a new item
  (\<open>unresolved_items.py\<close>).  Every \<open>dataclasses.replace\<close> in the code runs the constructor
  checks again, so every update in the model goes through \<open>mk_item\<close>.  The hash function of the
  standard library is the parameter \<open>H\<close>.
\<close>

datatype ledger_error =
    ScreenshotCoverage string
  | ItemValueError string
  | LedgerError string
  | OwnerKeyError string
  | HumanDecisionRequired "string list"

section \<open>Constants\<close>

definition MACHINE_AUTHORITY :: string where "MACHINE_AUTHORITY = ''machine''"
definition UNKNOWN_MACHINE_AUTHORITY :: string where "UNKNOWN_MACHINE_AUTHORITY = ''unknown''"
definition EVIDENCE_OBLIGATION_KIND :: string where
  "EVIDENCE_OBLIGATION_KIND = ''human-exact-head-evidence''"
definition MANAGED_CI_OBLIGATION_KIND :: string where
  "MANAGED_CI_OBLIGATION_KIND = ''managed-exact-head-ci''"
definition ORDINARY_CI_OBLIGATION_KIND :: string where
  "ORDINARY_CI_OBLIGATION_KIND = ''github-pr-checks''"
definition MIGRATION_OBLIGATION_KIND :: string where
  "MIGRATION_OBLIGATION_KIND = ''alembic-migration''"
definition UNKNOWN_OBLIGATION_KIND :: string where "UNKNOWN_OBLIGATION_KIND = ''unknown''"

definition MACHINE_OBLIGATION_KINDS :: "string list" where
  "MACHINE_OBLIGATION_KINDS =
     [''managed-exact-head-ci'', ''github-pr-checks'', ''alembic-migration'', ''merge-conflict'',
      ''human-requirements-acknowledgement'', ''human-exact-head-evidence'', ''unknown'']"

definition EVIDENCE_LIFECYCLE_STATES :: "string list" where
  "EVIDENCE_LIFECYCLE_STATES = [''evidence_deferred'', ''evidence_frozen'']"

definition MACHINE_LIFECYCLE_STATES :: "string list" where
  "MACHINE_LIFECYCLE_STATES =
     [''repair_required'', ''awaiting_current_head_review'', ''qualification_ready'', ''qualifying'',
      ''cleared''] @ EVIDENCE_LIFECYCLE_STATES"

definition CI_MACHINE_OBLIGATION_KINDS :: "string list" where
  "CI_MACHINE_OBLIGATION_KINDS = [''managed-exact-head-ci'', ''github-pr-checks'']"

definition SUB_ITEM_STATUSES :: "string list" where
  "SUB_ITEM_STATUSES = [''open'', ''resolved'']"

lemmas kind_defs =
  MACHINE_AUTHORITY_def UNKNOWN_MACHINE_AUTHORITY_def EVIDENCE_OBLIGATION_KIND_def
  MANAGED_CI_OBLIGATION_KIND_def ORDINARY_CI_OBLIGATION_KIND_def MIGRATION_OBLIGATION_KIND_def
  UNKNOWN_OBLIGATION_KIND_def MACHINE_OBLIGATION_KINDS_def EVIDENCE_LIFECYCLE_STATES_def
  MACHINE_LIFECYCLE_STATES_def CI_MACHINE_OBLIGATION_KINDS_def

section \<open>The record\<close>

record sub_item =
  sub_item_id :: string
  sub_text :: string
  sub_status :: string
  resolved_round :: "int option"

record item =
  item_id :: string
  reviewer :: string
  source_round :: int
  item_text :: string
  status :: string
  source_status :: "string option"
  item_notes :: "string list"
  fix_scope :: "string list option"
  resolution_owners :: "string list"
  owner_states :: "(string \<times> string) list"
  owner_evidence :: "(string \<times> string) list"
  owner_dispositions :: "(string \<times> string) list"
  authority :: "string option"
  obligation_kind :: "string option"
  lifecycle :: "string option"
  failed_head_sha :: "string option"
  candidate_head_sha :: "string option"
  obligation_identity :: "string option"
  alias_item_ids :: "string list"
  alias_obligation_identities :: "string list"
  sub_items :: "sub_item list"
  evidence_row_ids :: "string list"
  converted_row_ids :: "string list"
  converted_row_id :: "string option"
  converted_matrix_identity :: "string option"
  provenance :: "string option"
  repeat_of :: "string option"
  origin_scope :: "string option"
  screenshot_request :: pyval

text \<open>The truth value of an optional string: \<open>None\<close> and the empty string are false.\<close>

definition truthy :: "string option \<Rightarrow> bool" where
  "truthy v \<longleftrightarrow> v \<noteq> None \<and> v \<noteq> Some []"

section \<open>Typed screenshot requests\<close>

text \<open>Unicode category C within the first 256 code points.\<close>

definition is_control :: "char \<Rightarrow> bool" where
  "is_control c \<longleftrightarrow> code c < 32 \<or> 127 \<le> code c \<and> code c < 160 \<or> code c = 173"

definition manifest_text :: "pyval \<Rightarrow> nat \<Rightarrow> bool" where
  "manifest_text v limit =
     (case v of PStr s \<Rightarrow> s \<noteq> [] \<and> length s \<le> limit \<and> \<not> (\<exists>c \<in> set s. is_control c) | _ \<Rightarrow> False)"

definition request_identifier :: "pyval \<Rightarrow> ledger_error + pyval" where
  "request_identifier v = guardE (\<not> manifest_text v 128) (ScreenshotCoverage ''invalid identifier'') (Inr v)"

definition bounded_text :: "pyval \<Rightarrow> nat \<Rightarrow> ledger_error + pyval" where
  "bounded_text v limit =
     guardE (case v of
         PStr s \<Rightarrow> \<not> nonblank s \<or> utf8_size s > limit
           \<or> (\<exists>c \<in> set s. code c < 32 \<and> code c \<noteq> 10 \<and> code c \<noteq> 13 \<and> code c \<noteq> 9)
       | _ \<Rightarrow> True)
       (ScreenshotCoverage ''invalid bounded text'') (Inr v)"

definition is_hex_sha :: "pyval \<Rightarrow> nat \<Rightarrow> bool" where
  "is_hex_sha v n =
     (case v of PStr s \<Rightarrow> length s = n \<and> (\<forall>c \<in> set s. 48 \<le> code c \<and> code c \<le> 57 \<or> 97 \<le> code c \<and> code c \<le> 102)
      | _ \<Rightarrow> False)"

definition image_ids :: "pyval \<Rightarrow> ledger_error + pyval list" where
  "image_ids v =
     (case v of
        PList vs \<Rightarrow>
          guardE (\<not> (0 < length vs \<and> length vs \<le> 16))
            (ScreenshotCoverage ''image IDs must be a nonempty bounded list'')
          (bindE (mapE request_identifier vs) (\<lambda>ids.
           guardE (\<not> no_dups ids) (ScreenshotCoverage ''duplicate image IDs'') (Inr ids)))
      | _ \<Rightarrow> Inl (ScreenshotCoverage ''image IDs must be a nonempty bounded list''))"

text \<open>\<open>isinstance(v, dict) and set(v) == keys\<close>.\<close>

fun has_keys :: "pyval \<Rightarrow> string set \<Rightarrow> bool" where
  "has_keys (PDict kvs) ks \<longleftrightarrow> fst ` set kvs = ks"
| "has_keys _ ks \<longleftrightarrow> False"

fun typed_requests_from :: "pyval list \<Rightarrow> pyval list \<Rightarrow> ledger_error + unit" where
  "typed_requests_from seen [] = Inr ()"
| "typed_requests_from seen (r # rs) =
     guardE (\<not> has_keys r {''request_id'', ''kind'', ''description''}
             \<or> py_get r ''kind'' \<noteq> PStr ''screenshot'')
       (ScreenshotCoverage ''invalid request schema'')
     (bindE (request_identifier (py_get r ''request_id'')) (\<lambda>rid.
      bindE (bounded_text (py_get r ''description'') 4096) (\<lambda>_.
      guardE (rid \<in> set seen) (ScreenshotCoverage ''duplicate request ID'')
      (typed_requests_from (rid # seen) rs))))"

definition typed_requests :: "pyval \<Rightarrow> ledger_error + pyval list" where
  "typed_requests v =
     (case v of
        PList rs \<Rightarrow>
          guardE (length rs > 16) (ScreenshotCoverage ''requests must be a list of at most 16'')
          (bindE (typed_requests_from [] rs) (\<lambda>_. Inr rs))
      | _ \<Rightarrow> Inl (ScreenshotCoverage ''requests must be a list of at most 16''))"

definition request_identity :: "(string \<Rightarrow> string) \<Rightarrow> pyval \<Rightarrow> pyval \<Rightarrow> pyval \<Rightarrow> pyval \<Rightarrow> string" where
  "request_identity H repo pr requester request_id =
     ''screenshot:v1:'' @ H (json_canonical (PList [repo, pr, requester, request_id]))"

definition nonempty_str :: "pyval \<Rightarrow> bool" where
  "nonempty_str v = (case v of PStr s \<Rightarrow> s \<noteq> [] | _ \<Rightarrow> False)"

definition positive_int :: "pyval \<Rightarrow> bool" where
  "positive_int v = (case v of PInt n \<Rightarrow> 0 < n | _ \<Rightarrow> False)"

definition validate_item :: "(string \<Rightarrow> string) \<Rightarrow> item \<Rightarrow> ledger_error + unit" where
  "validate_item H i =
     (let v = screenshot_request i in
      if v = PNone then Inr ()
      else
        guardE (\<not> has_keys v {''version'', ''repo'', ''pr'', ''requester'', ''request'', ''contract'', ''source''}
            \<or> py_get v ''version'' \<noteq> PInt 1 \<or> \<not> nonempty_str (py_get v ''repo'')
            \<or> \<not> positive_int (py_get v ''pr'') \<or> \<not> nonempty_str (py_get v ''requester'')
            \<or> \<not> is_hex_sha (py_get v ''contract'') 64 \<or> \<not> positive_int (py_get v ''source''))
          (ItemValueError ''invalid typed request provenance'')
        (bindE (typed_requests (PList [py_get v ''request''])) (\<lambda>_.
         guardE (obligation_identity i \<noteq>
               Some (request_identity H (py_get v ''repo'') (py_get v ''pr'') (py_get v ''requester'')
                 (py_get (py_get v ''request'') ''request_id''))
             \<or> PStr (item_text i) \<noteq> py_get (py_get v ''request'') ''description''
             \<or> authority i \<noteq> Some ''machine'' \<or> obligation_kind i \<noteq> Some ''human-exact-head-evidence'')
           (ItemValueError ''invalid typed request identity'') (Inr ()))))"

section \<open>The constructor\<close>

text \<open>\<open>any(value is not None ...)\<close>: the record has a populated machine field.\<close>

definition machine_record :: "item \<Rightarrow> bool" where
  "machine_record i \<longleftrightarrow>
     authority i \<noteq> None \<or> obligation_kind i \<noteq> None \<or> lifecycle i \<noteq> None \<or> failed_head_sha i \<noteq> None
     \<or> candidate_head_sha i \<noteq> None \<or> obligation_identity i \<noteq> None"

definition among :: "string option \<Rightarrow> string list \<Rightarrow> bool" where
  "among v vs \<longleftrightarrow> (case v of None \<Rightarrow> False | Some s \<Rightarrow> s \<in> set vs)"

definition check_finding_fields :: "item \<Rightarrow> ledger_error + unit" where
  "check_finding_fields i =
     guardE (evidence_row_ids i \<noteq> [] \<and> (authority i \<noteq> None \<or> obligation_kind i \<noteq> None \<or> lifecycle i \<noteq> None))
       (ItemValueError ''machine obligations cannot carry evidence_row_ids'')
    (guardE (converted_row_ids i \<noteq> [] \<and> \<not> set (converted_row_ids i) \<subseteq> set (evidence_row_ids i))
       (ItemValueError ''converted_row_ids must be a subset of evidence_row_ids'')
    (guardE (\<not> no_dups (converted_row_ids i))
       (ItemValueError ''converted_row_ids must be unique'')
    (guardE ((converted_row_id i = None) \<noteq> (converted_matrix_identity i = None))
       (ItemValueError ''converted row obligations need both a row ID and a matrix identity'')
    (guardE (converted_row_id i \<noteq> None \<and> obligation_kind i \<noteq> Some EVIDENCE_OBLIGATION_KIND)
       (ItemValueError ''only evidence obligations may name a converted row'')
    (guardE (status i = ''converted'' \<and>
         (converted_row_ids i = [] \<or> set (converted_row_ids i) \<noteq> set (evidence_row_ids i)))
       (ItemValueError ''a converted finding needs every tagged row converted'')
    (guardE (\<not> no_dups (map sub_item_id (sub_items i)))
       (ItemValueError ''sub-item IDs must be unique'')
    (guardE (\<exists>s \<in> set (sub_items i). sub_status s \<notin> set SUB_ITEM_STATUSES)
       (ItemValueError ''sub-item status must be open or resolved'')
    (Inr ()))))))))"

definition check_machine_fields :: "item \<Rightarrow> ledger_error + unit" where
  "check_machine_fields i =
     (let kind = obligation_kind i; lc = lifecycle i in
      guardE (\<not> among (authority i) [MACHINE_AUTHORITY, UNKNOWN_MACHINE_AUTHORITY])
        (ItemValueError ''machine obligations require a known authority value'')
     (guardE (\<not> among kind MACHINE_OBLIGATION_KINDS)
        (ItemValueError ''machine obligations require a known obligation kind'')
     (guardE (\<not> among lc MACHINE_LIFECYCLE_STATES)
        (ItemValueError ''machine obligations require a known lifecycle'')
     (bindE
        (if kind = Some EVIDENCE_OBLIGATION_KIND then
           guardE (\<not> among lc (EVIDENCE_LIFECYCLE_STATES @ [''cleared'']))
             (ItemValueError ''evidence obligations require an evidence lifecycle'')
          (guardE (lc = Some ''evidence_frozen'' \<and> \<not> truthy (candidate_head_sha i))
             (ItemValueError ''a frozen evidence obligation needs its frozen head'')
          (guardE (\<not> truthy (obligation_identity i))
             (ItemValueError ''evidence obligations need a stable identity'') (Inr ())))
         else
           guardE (among lc EVIDENCE_LIFECYCLE_STATES)
             (ItemValueError ''evidence lifecycles are valid only for evidence obligations'') (Inr ()))
      (\<lambda>_.
      guardE (lc = Some ''repair_required'' \<and> \<not> truthy (failed_head_sha i)
              \<and> among kind CI_MACHINE_OBLIGATION_KINDS)
        (ItemValueError ''repair-required machine obligations need a failed head'')
     (guardE (truthy (candidate_head_sha i) \<and> failed_head_sha i = candidate_head_sha i)
        (ItemValueError ''a qualification candidate must differ from the failed head'')
     (guardE (sub_items i \<noteq> [])
        (ItemValueError ''machine obligations cannot carry sub-items'') (Inr ()))))))))"

definition mk_item :: "(string \<Rightarrow> string) \<Rightarrow> item \<Rightarrow> ledger_error + item" where
  "mk_item H i =
     bindE (validate_item H i) (\<lambda>_.
     bindE (check_finding_fields i) (\<lambda>_.
     bindE (if machine_record i then check_machine_fields i else Inr ()) (\<lambda>_. Inr i)))"

definition wf_item :: "(string \<Rightarrow> string) \<Rightarrow> item \<Rightarrow> bool" where
  "wf_item H i \<longleftrightarrow> mk_item H i = Inr i"

section \<open>Properties of a record\<close>

definition is_machine_obligation :: "item \<Rightarrow> bool" where
  "is_machine_obligation i \<longleftrightarrow>
     among (authority i) [MACHINE_AUTHORITY, UNKNOWN_MACHINE_AUTHORITY] \<or> obligation_kind i \<noteq> None"

definition residual_evidence_row_ids :: "item \<Rightarrow> string list" where
  "residual_evidence_row_ids i = filter (\<lambda>r. r \<notin> set (converted_row_ids i)) (evidence_row_ids i)"

definition is_inert_ledger_record :: "item \<Rightarrow> bool" where
  "is_inert_ledger_record i \<longleftrightarrow>
     status i = ''converted''
     \<or> converted_row_id i \<noteq> None \<and> obligation_kind i = Some EVIDENCE_OBLIGATION_KIND
        \<and> lifecycle i = Some ''cleared''"

definition open_status :: "string \<Rightarrow> bool" where
  "open_status s \<longleftrightarrow> s = ''blocking'' \<or> s = ''same-pr''"

definition machine_obligation_is_ci :: "item \<Rightarrow> bool" where
  "machine_obligation_is_ci i \<longleftrightarrow>
     is_machine_obligation i \<and> among (obligation_kind i) CI_MACHINE_OBLIGATION_KINDS"

definition is_evidence_obligation :: "item \<Rightarrow> bool" where
  "is_evidence_obligation i \<longleftrightarrow>
     is_machine_obligation i \<and> obligation_kind i = Some EVIDENCE_OBLIGATION_KIND"

definition pending_evidence :: "item \<Rightarrow> bool" where
  "pending_evidence i \<longleftrightarrow>
     is_evidence_obligation i \<and> open_status (status i) \<and> among (lifecycle i) EVIDENCE_LIFECYCLE_STATES"

definition pending_evidence_obligations :: "item list \<Rightarrow> item list" where
  "pending_evidence_obligations items = filter pending_evidence items"

definition frozen_evidence_obligations :: "item list \<Rightarrow> item list" where
  "frozen_evidence_obligations items =
     filter (\<lambda>i. lifecycle i = Some ''evidence_frozen'') (pending_evidence_obligations items)"

definition HUMAN_REQUIREMENTS_ACK_ITEM_ID :: string where
  "HUMAN_REQUIREMENTS_ACK_ITEM_ID = ''item-human-requirements-acknowledgement''"
definition MERGE_CONFLICT_ITEM_ID :: string where
  "MERGE_CONFLICT_ITEM_ID = ''item-merge-conflict''"
definition CODER_NON_CLASSIFIABLE_ITEM_IDS :: "string list" where
  "CODER_NON_CLASSIFIABLE_ITEM_IDS = [HUMAN_REQUIREMENTS_ACK_ITEM_ID, MERGE_CONFLICT_ITEM_ID]"

definition select_coder_followup_items :: "item list \<Rightarrow> item list" where
  "select_coder_followup_items items =
     filter (\<lambda>i. item_id i \<notin> set CODER_NON_CLASSIFIABLE_ITEM_IDS \<and> \<not> is_evidence_obligation i
               \<and> status i \<noteq> ''future'' \<and> \<not> is_inert_ledger_record i) items"

definition excluded_coder_followup_item_ids :: "item list \<Rightarrow> string list" where
  "excluded_coder_followup_item_ids items =
     map item_id (filter (\<lambda>i. is_evidence_obligation i \<or> status i = ''future'' \<or> is_inert_ledger_record i) items)"

definition coder_followup_is_ci_repair :: "item list \<Rightarrow> bool" where
  "coder_followup_is_ci_repair items \<longleftrightarrow> items \<noteq> [] \<and> (\<forall>i \<in> set items. machine_obligation_is_ci i)"

section \<open>Minting a new item\<close>

definition item_name :: "nat \<Rightarrow> string" where
  "item_name n = ''item-'' @ nat_str n"

text \<open>\<open>x or y\<close> on optional strings.\<close>

definition or_else :: "string option \<Rightarrow> string \<Rightarrow> string" where
  "or_else v d = (case v of None \<Rightarrow> d | Some s \<Rightarrow> if s = [] then d else s)"

fun numbered_sub_items :: "nat \<Rightarrow> nat \<Rightarrow> string list \<Rightarrow> sub_item list" where
  "numbered_sub_items n k [] = []"
| "numbered_sub_items n k (t # ts) =
     \<lparr>sub_item_id = item_name n @ ''.s'' @ nat_str k, sub_text = t, sub_status = ''open'',
      resolved_round = None\<rparr> # numbered_sub_items n (Suc k) ts"

text \<open>The keyword arguments of \<open>_next_unresolved_item\<close> that have defaults.\<close>

record new_item_args =
  arg_notes :: "string list"
  arg_fix_scope :: "string list option"
  arg_owners :: "string list option"
  arg_authority :: "string option"
  arg_kind :: "string option"
  arg_lifecycle :: "string option"
  arg_failed_head :: "string option"
  arg_candidate_head :: "string option"
  arg_identity :: "string option"
  arg_sub_items :: "string list"
  arg_evidence_rows :: "string list"
  arg_provenance :: "string option"
  arg_repeat_of :: "string option"

definition no_args :: new_item_args where
  "no_args =
     \<lparr>arg_notes = [], arg_fix_scope = None, arg_owners = None, arg_authority = None, arg_kind = None,
      arg_lifecycle = None, arg_failed_head = None, arg_candidate_head = None, arg_identity = None,
      arg_sub_items = [], arg_evidence_rows = [], arg_provenance = None, arg_repeat_of = None\<rparr>"

definition next_unresolved_item ::
  "(string \<Rightarrow> string) \<Rightarrow> nat \<Rightarrow> string \<Rightarrow> int \<Rightarrow> string \<Rightarrow> string \<Rightarrow> new_item_args \<Rightarrow> ledger_error + item" where
  "next_unresolved_item H number rvwr round claim st args =
     (let auth = (if arg_kind args \<noteq> None \<and> arg_authority args = None
                  then Some MACHINE_AUTHORITY else arg_authority args);
          machine = among auth [MACHINE_AUTHORITY, UNKNOWN_MACHINE_AUTHORITY];
          kind = (if machine then Some (or_else (arg_kind args) UNKNOWN_OBLIGATION_KIND)
                  else arg_kind args);
          lc = (if machine then Some (or_else (arg_lifecycle args) ''repair_required'')
                else arg_lifecycle args);
          owners = (if machine then []
                    else case arg_owners args of Some os \<Rightarrow> os | None \<Rightarrow> [rvwr])
      in mk_item H
        \<lparr>item_id = item_name number, reviewer = rvwr, source_round = round, item_text = claim,
         status = st, source_status = Some st, item_notes = arg_notes args,
         fix_scope = arg_fix_scope args, resolution_owners = owners,
         owner_states = map (\<lambda>ow. (ow, ''pending'')) owners, owner_evidence = [],
         owner_dispositions = [], authority = auth, obligation_kind = kind, lifecycle = lc,
         failed_head_sha = arg_failed_head args, candidate_head_sha = arg_candidate_head args,
         obligation_identity =
           (if truthy (arg_identity args) then arg_identity args
            else if truthy kind then Some (the kind @ '':'' @ item_name number) else None),
         alias_item_ids = [], alias_obligation_identities = [],
         sub_items = (if machine then [] else numbered_sub_items number 1 (arg_sub_items args)),
         evidence_row_ids = (if machine then [] else arg_evidence_rows args),
         converted_row_ids = [], converted_row_id = None, converted_matrix_identity = None,
         provenance = (if machine then None else arg_provenance args),
         repeat_of = (if machine then None else arg_repeat_of args),
         origin_scope = None, screenshot_request = PNone\<rparr>)"

section \<open>Facts on the constructor\<close>

lemma mk_item_Inr [raise_simps]: "mk_item H i = Inr j \<longleftrightarrow> j = i \<and> wf_item H i"
  by (auto simp: wf_item_def mk_item_def bindE_Inr_iff)

lemma mk_item_id: "wf_item H i \<Longrightarrow> mk_item H i = Inr i"
  by (simp add: wf_item_def)

lemma wf_item_iff:
  "wf_item H i \<longleftrightarrow> validate_item H i = Inr () \<and> check_finding_fields i = Inr ()
     \<and> (machine_record i \<longrightarrow> check_machine_fields i = Inr ())"
  by (auto simp: wf_item_def mk_item_def bindE_Inr_iff split: if_splits)

lemma check_finding_fields_ok:
  "check_finding_fields i = Inr () \<longleftrightarrow>
     (evidence_row_ids i = [] \<or> authority i = None \<and> obligation_kind i = None \<and> lifecycle i = None)
     \<and> set (converted_row_ids i) \<subseteq> set (evidence_row_ids i) \<and> distinct (converted_row_ids i)
     \<and> (converted_row_id i = None \<longleftrightarrow> converted_matrix_identity i = None)
     \<and> (converted_row_id i \<noteq> None \<longrightarrow> obligation_kind i = Some EVIDENCE_OBLIGATION_KIND)
     \<and> (status i = ''converted'' \<longrightarrow>
          converted_row_ids i \<noteq> [] \<and> set (converted_row_ids i) = set (evidence_row_ids i))
     \<and> distinct (map sub_item_id (sub_items i))
     \<and> (\<forall>s \<in> set (sub_items i). sub_status s \<in> set SUB_ITEM_STATUSES)"
  by (auto simp: check_finding_fields_def)

lemma check_machine_fields_ok:
  "check_machine_fields i = Inr () \<longleftrightarrow>
     among (authority i) [MACHINE_AUTHORITY, UNKNOWN_MACHINE_AUTHORITY]
     \<and> among (obligation_kind i) MACHINE_OBLIGATION_KINDS
     \<and> among (lifecycle i) MACHINE_LIFECYCLE_STATES
     \<and> (if obligation_kind i = Some EVIDENCE_OBLIGATION_KIND
        then among (lifecycle i) (EVIDENCE_LIFECYCLE_STATES @ [''cleared''])
             \<and> (lifecycle i = Some ''evidence_frozen'' \<longrightarrow> truthy (candidate_head_sha i))
             \<and> truthy (obligation_identity i)
        else \<not> among (lifecycle i) EVIDENCE_LIFECYCLE_STATES)
     \<and> (lifecycle i = Some ''repair_required'' \<and> among (obligation_kind i) CI_MACHINE_OBLIGATION_KINDS
          \<longrightarrow> truthy (failed_head_sha i))
     \<and> \<not> (truthy (candidate_head_sha i) \<and> failed_head_sha i = candidate_head_sha i)
     \<and> sub_items i = []"
  unfolding check_machine_fields_def Let_def bindE_Inr_iff guardE_Inr_iff
  by (cases "obligation_kind i = Some EVIDENCE_OBLIGATION_KIND") auto

lemma among_Some [simp]: "among (Some s) vs \<longleftrightarrow> s \<in> set vs"
  and among_None [simp]: "\<not> among None vs"
  by (simp_all add: among_def)

lemma truthy_simps [simp]: "\<not> truthy None" "truthy (Some s) \<longleftrightarrow> s \<noteq> []"
  by (simp_all add: truthy_def)

lemma among_iff: "among v vs \<longleftrightarrow> v \<in> Some ` set vs"
  by (cases v) auto

text \<open>A well-formed record with a populated machine field is a machine obligation.\<close>

lemma machine_record_iff:
  "wf_item H i \<Longrightarrow> machine_record i \<longleftrightarrow> is_machine_obligation i"
  by (cases "authority i") (auto simp: wf_item_iff check_machine_fields_ok machine_record_def
      is_machine_obligation_def)

lemma wf_machine:
  assumes "wf_item H i" and "is_machine_obligation i"
  shows "check_machine_fields i = Inr ()" and "evidence_row_ids i = []"
    and "converted_row_ids i = []" and "status i \<noteq> ''converted''"
proof -
  show c: "check_machine_fields i = Inr ()"
    using assms machine_record_iff wf_item_iff by blast
  have f: "check_finding_fields i = Inr ()" using assms by (simp add: wf_item_iff)
  show e: "evidence_row_ids i = []"
    using c f by (auto simp: check_finding_fields_ok check_machine_fields_ok)
  show "converted_row_ids i = []" "status i \<noteq> ''converted''"
    using e f by (auto simp: check_finding_fields_ok)
qed

text \<open>The fields the typed-request check reads.\<close>

lemma validate_item_cong:
  "screenshot_request i = screenshot_request j \<Longrightarrow> obligation_identity i = obligation_identity j
   \<Longrightarrow> item_text i = item_text j \<Longrightarrow> authority i = authority j
   \<Longrightarrow> obligation_kind i = obligation_kind j \<Longrightarrow> validate_item H i = validate_item H j"
  by (simp only: validate_item_def)

lemma validate_item_untyped: "screenshot_request i = PNone \<Longrightarrow> validate_item H i = Inr ()"
  by (simp add: validate_item_def)

text \<open>Notes and owner bookkeeping are free: replacing them keeps a record well-formed.\<close>

lemma wf_item_bookkeeping [simp]:
  "wf_item H (i\<lparr>item_notes := ns\<rparr>) = wf_item H i"
  "wf_item H (i\<lparr>resolution_owners := os\<rparr>) = wf_item H i"
  "wf_item H (i\<lparr>owner_states := sts\<rparr>) = wf_item H i"
  "wf_item H (i\<lparr>owner_evidence := evs\<rparr>) = wf_item H i"
  "wf_item H (i\<lparr>owner_dispositions := ds\<rparr>) = wf_item H i"
  "wf_item H (i\<lparr>source_round := r\<rparr>) = wf_item H i"
  "wf_item H (i\<lparr>source_status := ss\<rparr>) = wf_item H i"
  "wf_item H (i\<lparr>reviewer := rv\<rparr>) = wf_item H i"
  by (simp_all add: wf_item_iff validate_item_def check_finding_fields_ok check_machine_fields_ok
      machine_record_def Let_def)

section \<open>Numbering\<close>

lemma nat_str_not_Nil [simp]: "nat_str n \<noteq> []"
  by (subst nat_str.simps) simp

lemma digit_inj: "a < 10 \<Longrightarrow> b < 10 \<Longrightarrow> (char_of (48 + a) :: char) = char_of (48 + b) \<longleftrightarrow> a = (b :: nat)"
  by (simp add: char_of_eq_iff take_bit_nat_eq_self)

lemma nat_str_inj: "nat_str m = nat_str n \<longleftrightarrow> m = n"
proof
  show "nat_str m = nat_str n \<Longrightarrow> m = n"
  proof (induction m arbitrary: n rule: less_induct)
    case (less m)
    have e: "nat_str k = (if k < 10 then [char_of (48 + k)]
        else nat_str (k div 10) @ [char_of (48 + k mod 10)])" for k
      by (subst nat_str.simps) simp
    show ?case
    proof (cases "m < 10"; cases "n < 10")
      assume "m < 10" "n < 10"
      then show ?thesis using less.prems e [of m] e [of n] digit_inj by simp
    next
      assume "m < 10" "\<not> n < 10"
      then have "[char_of (48 + m)] = nat_str (n div 10) @ [char_of (48 + n mod 10)]"
        using less.prems e [of m] e [of n] by simp
      then show ?thesis by (cases "nat_str (n div 10)") auto
    next
      assume "\<not> m < 10" "n < 10"
      then have "[char_of (48 + n)] = nat_str (m div 10) @ [char_of (48 + m mod 10)]"
        using less.prems e [of m] e [of n] by simp
      then show ?thesis by (cases "nat_str (m div 10)") auto
    next
      assume big: "\<not> m < 10" "\<not> n < 10"
      then have "nat_str (m div 10) = nat_str (n div 10)"
        and "(char_of (48 + m mod 10) :: char) = char_of (48 + n mod 10)"
        using less.prems e [of m] e [of n] by simp_all
      then have "m div 10 = n div 10" "m mod 10 = n mod 10"
        using less.IH [of "m div 10"] big digit_inj [of "m mod 10" "n mod 10"] by simp_all
      then show ?thesis by (metis div_mult_mod_eq)
    qed
  qed
qed simp

lemma item_name_inj [simp]: "item_name m = item_name n \<longleftrightarrow> m = n"
  by (simp add: item_name_def nat_str_inj)

lemma numbered_sub_items_facts:
  "distinct (map sub_item_id (numbered_sub_items n k ts))"
  "s \<in> set (numbered_sub_items n k ts) \<Longrightarrow> sub_status s = ''open'' \<and> resolved_round s = None"
  "map sub_text (numbered_sub_items n k ts) = ts"
proof -
  have ids: "sub_item_id s \<in> (\<lambda>j. item_name n @ ''.s'' @ nat_str j) ` {k..}"
    if "s \<in> set (numbered_sub_items n k ts)" for s k ts
    using that by (induction ts arbitrary: k) fastforce+
  show "distinct (map sub_item_id (numbered_sub_items n k ts))"
  proof (induction ts arbitrary: k)
    case (Cons t ts)
    have "item_name n @ ''.s'' @ nat_str k \<notin> sub_item_id ` set (numbered_sub_items n (Suc k) ts)"
    proof
      assume "item_name n @ ''.s'' @ nat_str k \<in> sub_item_id ` set (numbered_sub_items n (Suc k) ts)"
      then obtain s where s: "s \<in> set (numbered_sub_items n (Suc k) ts)"
        and eq: "sub_item_id s = item_name n @ ''.s'' @ nat_str k" by auto
      obtain j where "Suc k \<le> j" and "sub_item_id s = item_name n @ ''.s'' @ nat_str j"
        using ids [OF s] by auto
      with eq show False by (simp add: nat_str_inj)
    qed
    then show ?case using Cons by simp
  qed simp
  show "s \<in> set (numbered_sub_items n k ts) \<Longrightarrow> sub_status s = ''open'' \<and> resolved_round s = None"
    by (induction ts arbitrary: k) auto
  show "map sub_text (numbered_sub_items n k ts) = ts"
    by (induction ts arbitrary: k) auto
qed

section \<open>Properties\<close>

definition ex_finding :: item where
  "ex_finding =
     \<lparr>item_id = ''item-1'', reviewer = ''codex'', source_round = 1, item_text = ''leak'',
      status = ''blocking'', source_status = Some ''blocking'', item_notes = [], fix_scope = None,
      resolution_owners = [''codex''], owner_states = [(''codex'', ''pending'')],
      owner_evidence = [], owner_dispositions = [], authority = None, obligation_kind = None,
      lifecycle = None, failed_head_sha = None, candidate_head_sha = None,
      obligation_identity = None, alias_item_ids = [], alias_obligation_identities = [],
      sub_items = [], evidence_row_ids = [], converted_row_ids = [], converted_row_id = None,
      converted_matrix_identity = None, provenance = None, repeat_of = None, origin_scope = None,
      screenshot_request = PNone\<rparr>"

definition ex_ci :: item where
  "ex_ci = ex_finding\<lparr>item_id := ''item-2'', reviewer := ''GitHub PR checks'',
     resolution_owners := [], owner_states := [], authority := Some ''machine'',
     obligation_kind := Some ''github-pr-checks'', lifecycle := Some ''repair_required'',
     failed_head_sha := Some ''h1'', obligation_identity := Some ''github-pr-checks:item-2''\<rparr>"

definition ex_evidence :: item where
  "ex_evidence = ex_finding\<lparr>item_id := ''item-3'', authority := Some ''machine'',
     obligation_kind := Some ''human-exact-head-evidence'', lifecycle := Some ''evidence_frozen'',
     candidate_head_sha := Some ''h2'', obligation_identity := Some ''e:1''\<rparr>"

lemma ex_items_wf: "wf_item H ex_finding" "wf_item H ex_ci" "wf_item H ex_evidence"
  by (simp_all add: wf_item_iff validate_item_untyped check_finding_fields_ok check_machine_fields_ok
      machine_record_def ex_finding_def ex_ci_def ex_evidence_def kind_defs)

text \<open>C39: What the constructor guarantees.  Every record that exists is either a reviewer's
  finding, with no machine field at all, or a machine obligation with a known authority, kind and
  lifecycle, which carries no sub-items, evidence tags or converted rows.  Evidence obligations have
  an identity and an evidence lifecycle (or are cleared), only they have one, a frozen one knows its
  frozen head, and the candidate head of a record is never its failed head.\<close>

theorem constructed_item_kinds:
  assumes "mk_item H i = Inr j"
  shows "j = i
    \<and> (\<not> is_machine_obligation i \<longrightarrow> authority i = None \<and> obligation_kind i = None \<and> lifecycle i = None
         \<and> failed_head_sha i = None \<and> candidate_head_sha i = None \<and> obligation_identity i = None)
    \<and> (is_machine_obligation i \<longrightarrow> authority i \<in> {Some MACHINE_AUTHORITY, Some UNKNOWN_MACHINE_AUTHORITY}
         \<and> obligation_kind i \<in> Some ` set MACHINE_OBLIGATION_KINDS
         \<and> lifecycle i \<in> Some ` set MACHINE_LIFECYCLE_STATES
         \<and> sub_items i = [] \<and> evidence_row_ids i = [] \<and> converted_row_ids i = []
         \<and> (is_evidence_obligation i \<longleftrightarrow> lifecycle i \<in> Some ` set EVIDENCE_LIFECYCLE_STATES
              \<or> lifecycle i = Some ''cleared'' \<and> obligation_kind i = Some EVIDENCE_OBLIGATION_KIND)
         \<and> (is_evidence_obligation i \<longrightarrow> truthy (obligation_identity i))
         \<and> (lifecycle i = Some ''evidence_frozen'' \<longrightarrow> truthy (candidate_head_sha i)))
    \<and> (truthy (candidate_head_sha i) \<longrightarrow> failed_head_sha i \<noteq> candidate_head_sha i)"
proof (cases "is_machine_obligation i")
  case False
  have "wf_item H i" and "j = i" using assms by (simp_all add: mk_item_Inr)
  moreover have "\<not> machine_record i" using False machine_record_iff [OF \<open>wf_item H i\<close>] by simp
  ultimately show ?thesis using False by (auto simp: machine_record_def)
next
  case True
  have wf: "wf_item H i" and "j = i" using assms by (simp_all add: mk_item_Inr)
  have c: "check_machine_fields i = Inr ()" and "evidence_row_ids i = []" "converted_row_ids i = []"
    using wf_machine [OF wf True] by simp_all
  note m = c [unfolded check_machine_fields_ok among_iff]
  have ev: "is_evidence_obligation i \<longleftrightarrow> obligation_kind i = Some EVIDENCE_OBLIGATION_KIND"
    using True by (simp add: is_evidence_obligation_def)
  have lc: "is_evidence_obligation i \<longleftrightarrow> lifecycle i \<in> Some ` set EVIDENCE_LIFECYCLE_STATES
      \<or> lifecycle i = Some ''cleared'' \<and> obligation_kind i = Some EVIDENCE_OBLIGATION_KIND"
    unfolding ev using m by (cases "obligation_kind i = Some EVIDENCE_OBLIGATION_KIND") auto
  have fz: "lifecycle i = Some ''evidence_frozen'' \<longrightarrow> truthy (candidate_head_sha i)"
  proof
    assume "lifecycle i = Some ''evidence_frozen''"
    moreover from this have "obligation_kind i = Some EVIDENCE_OBLIGATION_KIND"
      using lc by (simp add: ev EVIDENCE_LIFECYCLE_STATES_def)
    ultimately show "truthy (candidate_head_sha i)" using m by simp
  qed
  have "is_evidence_obligation i \<longrightarrow> truthy (obligation_identity i)"
    using m unfolding ev by simp
  moreover have "authority i \<in> {Some MACHINE_AUTHORITY, Some UNKNOWN_MACHINE_AUTHORITY}"
    "obligation_kind i \<in> Some ` set MACHINE_OBLIGATION_KINDS"
    "lifecycle i \<in> Some ` set MACHINE_LIFECYCLE_STATES" "sub_items i = []"
    "truthy (candidate_head_sha i) \<longrightarrow> failed_head_sha i \<noteq> candidate_head_sha i"
    using m by simp_all
  ultimately show ?thesis
    using \<open>j = i\<close> True fz \<open>evidence_row_ids i = []\<close> \<open>converted_row_ids i = []\<close>
    by (intro conjI impI lc) (simp_all only: simp_thms)
qed

theorem constructed_item_kinds_witness:
  "mk_item id ex_evidence = Inr ex_evidence \<and> truthy (obligation_identity ex_evidence)
   \<and> \<not> is_machine_obligation ex_finding"
proof -
  have mk: "mk_item id ex_evidence = Inr ex_evidence"
    using ex_items_wf(3) by (simp only: wf_item_def)
  have ev: "is_machine_obligation ex_evidence" "is_evidence_obligation ex_evidence"
    by (simp_all add: is_evidence_obligation_def is_machine_obligation_def ex_evidence_def kind_defs)
  have "truthy (obligation_identity ex_evidence)"
    using constructed_item_kinds [OF mk] ev by (simp only: simp_thms)
  with mk show ?thesis by (simp add: is_machine_obligation_def ex_finding_def)
qed

text \<open>A minted item keeps its claim and takes the given number as its identity.  With a
  machine authority, given or implied by a kind, it has no owners, no sub-items and no evidence tag
  and always a kind; otherwise every owner (the reviewer when none is named) starts out pending and
  every declared sub-item starts out open under an identifier of its own.\<close>

theorem minted_item:
  assumes "next_unresolved_item H n rv round claim st args = Inr i"
  shows "wf_item H i \<and> item_id i = item_name n \<and> item_text i = claim \<and> status i = st
    \<and> (arg_kind args \<noteq> None \<or> among (arg_authority args) [MACHINE_AUTHORITY, UNKNOWN_MACHINE_AUTHORITY]
        \<longrightarrow> is_machine_obligation i \<and> obligation_kind i \<noteq> None \<and> resolution_owners i = []
            \<and> sub_items i = [] \<and> evidence_row_ids i = [])
    \<and> (arg_kind args = None \<and> arg_authority args = None
        \<longrightarrow> \<not> is_machine_obligation i
            \<and> resolution_owners i = (case arg_owners args of None \<Rightarrow> [rv] | Some os \<Rightarrow> os)
            \<and> owner_states i = map (\<lambda>ow. (ow, ''pending'')) (resolution_owners i)
            \<and> map sub_text (sub_items i) = arg_sub_items args
            \<and> distinct (map sub_item_id (sub_items i))
            \<and> (\<forall>s \<in> set (sub_items i). sub_status s = ''open''))"
proof -
  note facts = assms [unfolded next_unresolved_item_def Let_def mk_item_Inr]
  have wf: "wf_item H i" using facts by simp
  have machine: "is_machine_obligation i \<and> obligation_kind i \<noteq> None \<and> resolution_owners i = []
      \<and> sub_items i = [] \<and> evidence_row_ids i = []"
    if "arg_kind args \<noteq> None \<or> among (arg_authority args) [MACHINE_AUTHORITY, UNKNOWN_MACHINE_AUTHORITY]"
  proof -
    let ?auth = "if arg_kind args \<noteq> None \<and> arg_authority args = None then Some MACHINE_AUTHORITY
      else arg_authority args"
    have auth: "authority i = ?auth" using facts by simp
    show ?thesis
    proof (cases "among ?auth [MACHINE_AUTHORITY, UNKNOWN_MACHINE_AUTHORITY]")
      case True
      then show ?thesis using facts by (auto simp: is_machine_obligation_def)
    next
      case False
      then have "obligation_kind i = arg_kind args" and "arg_kind args \<noteq> None"
        using facts that by (auto split: if_splits)
      then have "is_machine_obligation i" by (simp add: is_machine_obligation_def)
      then show ?thesis
        using wf_machine(1) [OF wf] False auth by (simp add: check_machine_fields_ok)
    qed
  qed
  have finding: "\<not> is_machine_obligation i
      \<and> resolution_owners i = (case arg_owners args of None \<Rightarrow> [rv] | Some os \<Rightarrow> os)
      \<and> owner_states i = map (\<lambda>ow. (ow, ''pending'')) (resolution_owners i)
      \<and> map sub_text (sub_items i) = arg_sub_items args \<and> distinct (map sub_item_id (sub_items i))
      \<and> (\<forall>s \<in> set (sub_items i). sub_status s = ''open'')"
    if "arg_kind args = None \<and> arg_authority args = None"
    using facts that numbered_sub_items_facts(2)
    by (auto simp: is_machine_obligation_def numbered_sub_items_facts split: option.split)
  show ?thesis using facts wf machine finding by auto
qed

theorem minted_item_witness:
  "\<exists>i. next_unresolved_item id 7 ''codex'' 2 ''leak'' ''blocking''
        (no_args\<lparr>arg_sub_items := [''a'', ''b'']\<rparr>) = Inr i
      \<and> resolution_owners i = [''codex''] \<and> map sub_text (sub_items i) = [''a'', ''b'']"
proof -
  obtain i where i: "next_unresolved_item id 7 ''codex'' 2 ''leak'' ''blocking''
      (no_args\<lparr>arg_sub_items := [''a'', ''b'']\<rparr>) = Inr i"
    using numbered_sub_items_facts(1) [of 7 1 "[''a'', ''b'']"]
    by (simp add: next_unresolved_item_def no_args_def mk_item_Inr wf_item_iff validate_item_untyped
        check_finding_fields_ok machine_record_def SUB_ITEM_STATUSES_def)
  with minted_item [OF i] show ?thesis by (simp add: no_args_def)
qed

end
