(* ===== verification/Machine_Obligations.thy ===== *)
theory Machine_Obligations
  imports Review_Item "HOL-Library.Product_Lexorder"
begin

text \<open>
  The machine-owned side of the ledger (\<open>unresolved_items.py\<close>): one obligation per CI kind that
  is raised again in place, the binding of its revalidation to the first strictly newer head, the
  freeze of human-only evidence at a clean head, and the conversion of risk-matrix rows from
  findings into evidence obligations.  The ledger is a list of items in order of appearance.
\<close>

section \<open>Freezing evidence\<close>

definition freeze_evidence_obligations :: "(string \<Rightarrow> string) \<Rightarrow> string \<Rightarrow> item list \<Rightarrow> ledger_error + item list" where
  "freeze_evidence_obligations H head items =
     mapE (\<lambda>i. if pending_evidence i
               then mk_item H (i\<lparr>lifecycle := Some ''evidence_frozen'', candidate_head_sha := Some head\<rparr>)
               else Inr i) items"

definition release_evidence_freeze :: "(string \<Rightarrow> string) \<Rightarrow> item list \<Rightarrow> ledger_error + item list" where
  "release_evidence_freeze H items =
     mapE (\<lambda>i. if is_evidence_obligation i \<and> lifecycle i = Some ''evidence_frozen''
               then mk_item H (i\<lparr>lifecycle := Some ''evidence_deferred'', candidate_head_sha := None\<rparr>)
               else Inr i) items"

section \<open>What a machine obligation asks for\<close>

definition AWAITING_STATES :: "string list" where
  "AWAITING_STATES = [''awaiting_current_head_review'', ''qualification_ready'', ''qualifying'']"

definition machine_obligation_requires_repair :: "item \<Rightarrow> string option \<Rightarrow> bool" where
  "machine_obligation_requires_repair i current =
     (if \<not> is_machine_obligation i \<or> \<not> open_status (status i) then False
      else if is_evidence_obligation i then False
      else if obligation_kind i = Some UNKNOWN_OBLIGATION_KIND then True
      else if lifecycle i = Some ''repair_required'' then
        \<not> (truthy (failed_head_sha i) \<and> truthy current \<and> current \<noteq> failed_head_sha i)
      else if \<not> among (lifecycle i) AWAITING_STATES then True
      else truthy (failed_head_sha i) \<and> truthy current \<and> current = failed_head_sha i)"

definition machine_obligation_is_revalidation_candidate :: "item \<Rightarrow> string option \<Rightarrow> bool" where
  "machine_obligation_is_revalidation_candidate i current \<longleftrightarrow>
     is_machine_obligation i \<and> \<not> is_evidence_obligation i
     \<and> among (obligation_kind i) CI_MACHINE_OBLIGATION_KINDS
     \<and> among (lifecycle i) AWAITING_STATES
     \<and> truthy (candidate_head_sha i) \<and> candidate_head_sha i = current \<and> failed_head_sha i \<noteq> current"

definition machine_obligation_is_pending_non_ci :: "item \<Rightarrow> bool" where
  "machine_obligation_is_pending_non_ci i \<longleftrightarrow>
     is_machine_obligation i \<and> \<not> machine_obligation_is_ci i \<and> open_status (status i)"

section \<open>Raising, advancing and clearing\<close>

definition evidence_upsert_text :: string where
  "evidence_upsert_text =
     ''Evidence obligations must be upserted by identity with ''
     @ ''_upsert_evidence_obligation, not as a kind singleton.''"

definition machine_authority_of :: "string \<Rightarrow> string" where
  "machine_authority_of kind =
     (if kind \<noteq> UNKNOWN_OBLIGATION_KIND then MACHINE_AUTHORITY else UNKNOWN_MACHINE_AUTHORITY)"

definition machine_reviewer_of :: "string \<Rightarrow> string" where
  "machine_reviewer_of kind =
     (if kind = MANAGED_CI_OBLIGATION_KIND then ''GitHub managed exact-head CI''
      else if kind = ORDINARY_CI_OBLIGATION_KIND then ''GitHub PR checks''
      else if kind = MIGRATION_OBLIGATION_KIND then ''Alembic migration validation''
      else ''Orchestrator'')"

definition raised_again :: "string \<Rightarrow> int \<Rightarrow> string \<Rightarrow> string option \<Rightarrow> item \<Rightarrow> item" where
  "raised_again kind round claim failed i =
     i\<lparr>reviewer := (if reviewer i \<noteq> [] then reviewer i else ''Orchestrator''),
       source_round := round, item_text := claim, status := ''blocking'',
       source_status := Some ''blocking'', resolution_owners := [], owner_states := [],
       authority := Some (machine_authority_of kind), obligation_kind := Some kind,
       lifecycle := Some ''repair_required'', failed_head_sha := failed, candidate_head_sha := None,
       obligation_identity := Some (or_else (obligation_identity i) (kind @ '':'' @ item_id i))\<rparr>"

definition raised_args :: "string \<Rightarrow> string option \<Rightarrow> new_item_args" where
  "raised_args kind failed =
     no_args\<lparr>arg_authority := Some (machine_authority_of kind), arg_kind := Some kind,
       arg_lifecycle := Some ''repair_required'', arg_failed_head := failed\<rparr>"

text \<open>The loop over the ledger: the first obligation of the kind is replaced in place.\<close>

fun replace_first :: "('a \<Rightarrow> bool) \<Rightarrow> ('a \<Rightarrow> 'e + 'a) \<Rightarrow> 'a list \<Rightarrow> ('e + 'a list) option" where
  "replace_first P f [] = None"
| "replace_first P f (x # xs) =
     (if P x then Some (bindE (f x) (\<lambda>y. Inr (y # xs)))
      else map_option (\<lambda>r. bindE r (\<lambda>ys. Inr (x # ys))) (replace_first P f xs))"

definition upsert_machine_obligation ::
  "(string \<Rightarrow> string) \<Rightarrow> nat \<Rightarrow> string \<Rightarrow> int \<Rightarrow> string \<Rightarrow> string option \<Rightarrow> item list \<Rightarrow> ledger_error + item list" where
  "upsert_machine_obligation H number kind0 round claim failed0 items =
     guardE (kind0 = EVIDENCE_OBLIGATION_KIND) (LedgerError evidence_upsert_text)
     (let known = (kind0 \<in> set MACHINE_OBLIGATION_KINDS \<and> kind0 \<noteq> UNKNOWN_OBLIGATION_KIND);
          kind = (if known then kind0 else UNKNOWN_OBLIGATION_KIND);
          failed = (if known then failed0 else None)
      in case replace_first (\<lambda>i. is_machine_obligation i \<and> obligation_kind i = Some kind)
                (\<lambda>i. mk_item H (raised_again kind round claim failed i)) items of
           Some r \<Rightarrow> r
         | None \<Rightarrow>
             bindE (next_unresolved_item H number (machine_reviewer_of kind) round claim ''blocking''
                 (raised_args kind failed))
               (\<lambda>i. Inr (items @ [i])))"

text \<open>One item of \<open>_advance_machine_obligations_for_head\<close>.\<close>

definition advance_item :: "(string \<Rightarrow> string) \<Rightarrow> string \<Rightarrow> item \<Rightarrow> ledger_error + item" where
  "advance_item H head i =
     (if \<not> is_machine_obligation i \<or> lifecycle i = Some ''cleared'' \<or> is_evidence_obligation i then Inr i
      else if lifecycle i = Some ''repair_required'' then
        (if truthy (failed_head_sha i) \<and> failed_head_sha i \<noteq> Some head
         then mk_item H (i\<lparr>lifecycle := Some ''awaiting_current_head_review'',
                 candidate_head_sha := Some head, resolution_owners := [], owner_states := []\<rparr>)
         else Inr i)
      else if failed_head_sha i = Some head then
        mk_item H (i\<lparr>lifecycle := Some ''repair_required'', candidate_head_sha := None\<rparr>)
      else if truthy (candidate_head_sha i) \<and> candidate_head_sha i \<noteq> Some head then
        mk_item H (i\<lparr>lifecycle := Some ''awaiting_current_head_review'', candidate_head_sha := Some head\<rparr>)
      else Inr i)"

definition advance_machine_obligations_for_head ::
  "(string \<Rightarrow> string) \<Rightarrow> string option \<Rightarrow> item list \<Rightarrow> ledger_error + item list" where
  "advance_machine_obligations_for_head H current items =
     (case current of
        None \<Rightarrow> Inr items
      | Some head \<Rightarrow> if head = [] then Inr items else mapE (advance_item H head) items)"

definition clear_machine_obligations :: "string \<Rightarrow> item list \<Rightarrow> item list" where
  "clear_machine_obligations kind items =
     filter (\<lambda>i. \<not> (is_machine_obligation i \<and> obligation_kind i = Some kind)) items"

definition SETTABLE_LIFECYCLES :: "string list" where
  "SETTABLE_LIFECYCLES =
     [''repair_required'', ''awaiting_current_head_review'', ''qualification_ready'', ''qualifying'', ''cleared'']"

definition evidence_lifecycle_text :: string where
  "evidence_lifecycle_text =
     ''Evidence obligation lifecycles are owned by the evidence freeze helpers.''"

definition set_machine_obligation_lifecycle ::
  "(string \<Rightarrow> string) \<Rightarrow> string \<Rightarrow> string \<Rightarrow> item list \<Rightarrow> ledger_error + item list" where
  "set_machine_obligation_lifecycle H kind lc items =
     guardE (lc \<notin> set SETTABLE_LIFECYCLES)
       (LedgerError (''Unknown machine-obligation lifecycle: '' @ lc @ ''.''))
     (guardE (kind = EVIDENCE_OBLIGATION_KIND) (LedgerError evidence_lifecycle_text)
     (mapE (\<lambda>i. if is_machine_obligation i \<and> obligation_kind i = Some kind
                then mk_item H (i\<lparr>lifecycle := Some lc\<rparr>) else Inr i) items))"

section \<open>Converting risk-matrix rows\<close>

definition converted_evidence_obligation_identity :: "(string \<Rightarrow> string) \<Rightarrow> string \<Rightarrow> string \<Rightarrow> string" where
  "converted_evidence_obligation_identity H row matrix =
     EVIDENCE_OBLIGATION_KIND @ '':row:''
     @ take 24 (H (''['' @ json_str row @ '', '' @ json_str matrix @ '']''))"

definition is_row_converted_obligation :: "item \<Rightarrow> bool" where
  "is_row_converted_obligation i \<longleftrightarrow> is_evidence_obligation i \<and> converted_row_id i \<noteq> None"

definition converted_evidence_obligation_text :: "string \<Rightarrow> string \<Rightarrow> string \<Rightarrow> string \<Rightarrow> string" where
  "converted_evidence_obligation_text row matrix head explanation =
     (let detail = take 240 (replace_char (CHR 0x60) (CHR 0x27) (join '' '' (py_words explanation)));
          bt = [CHR 0x60]
      in ''Operator evidence for approved risk-matrix row '' @ bt @ row @ bt @ '' (matrix ''
         @ bt @ take 12 matrix @ bt @ ''), converted at head '' @ bt @ head @ bt
         @ '': the coder could not capture admissible tool evidence (''
         @ (if detail = [] then ''capture limited'' else detail) @ ''). Supply evidence ''
         @ ''that this row'' @ [CHR 0x27] @ ''s expected outcome holds, and its forbidden side effects do not occur, ''
         @ ''at exactly the frozen head.'')"

definition reopened :: "item \<Rightarrow> item" where
  "reopened i =
     i\<lparr>status := ''blocking'', source_status := Some ''blocking'',
       lifecycle := Some ''evidence_deferred'', candidate_head_sha := None,
       owner_states := map (\<lambda>ow. (ow, ''pending'')) (resolution_owners i)\<rparr>"

text \<open>The ledger, the obligation and whether a number was used.\<close>

fun upsert_converted_in ::
  "(string \<Rightarrow> string) \<Rightarrow> string \<Rightarrow> item list \<Rightarrow> (ledger_error + item list \<times> item) option" where
  "upsert_converted_in H identity [] = None"
| "upsert_converted_in H identity (i # is) =
     (if is_evidence_obligation i \<and> obligation_identity i = Some identity then
        Some (if open_status (status i) \<and> among (lifecycle i) EVIDENCE_LIFECYCLE_STATES
              then Inr (i # is, i)
              else bindE (mk_item H (reopened i)) (\<lambda>j. Inr (j # is, j)))
      else map_option (\<lambda>r. bindE r (\<lambda>(js, j). Inr (i # js, j))) (upsert_converted_in H identity is))"

definition row_obligation ::
  "(string \<Rightarrow> string) \<Rightarrow> nat \<Rightarrow> string \<Rightarrow> string \<Rightarrow> string \<Rightarrow> string list \<Rightarrow> int \<Rightarrow> string \<Rightarrow> item" where
  "row_obligation H number row matrix head owners round explanation =
     \<lparr>item_id = item_name number, reviewer = ''Orchestrator'', source_round = round,
      item_text = converted_evidence_obligation_text row matrix head explanation,
      status = ''blocking'', source_status = Some ''blocking'', item_notes = [],
      fix_scope = None, resolution_owners = dict_fromkeys owners,
      owner_states = map (\<lambda>ow. (ow, ''pending'')) (dict_fromkeys owners), owner_evidence = [],
      owner_dispositions = [], authority = Some MACHINE_AUTHORITY,
      obligation_kind = Some EVIDENCE_OBLIGATION_KIND, lifecycle = Some ''evidence_deferred'',
      failed_head_sha = None, candidate_head_sha = None,
      obligation_identity = Some (converted_evidence_obligation_identity H row matrix),
      alias_item_ids = [], alias_obligation_identities = [], sub_items = [],
      evidence_row_ids = [], converted_row_ids = [], converted_row_id = Some row,
      converted_matrix_identity = Some matrix, provenance = None, repeat_of = None,
      origin_scope = None, screenshot_request = PNone\<rparr>"

definition upsert_converted_evidence_obligation ::
  "(string \<Rightarrow> string) \<Rightarrow> nat \<Rightarrow> string \<Rightarrow> string \<Rightarrow> string \<Rightarrow> string list \<Rightarrow> int \<Rightarrow> string \<Rightarrow> item list
     \<Rightarrow> ledger_error + item list \<times> item \<times> bool" where
  "upsert_converted_evidence_obligation H number row matrix head owners round explanation items =
     (case upsert_converted_in H (converted_evidence_obligation_identity H row matrix) items of
        Some r \<Rightarrow> bindE r (\<lambda>(js, j). Inr (js, j, False))
      | None \<Rightarrow>
          bindE (mk_item H (row_obligation H number row matrix head owners round explanation))
            (\<lambda>i. Inr (items @ [i], i, True)))"

definition owners_or_reviewer :: "item \<Rightarrow> string list" where
  "owners_or_reviewer i = (if resolution_owners i \<noteq> [] then resolution_owners i else [reviewer i])"

definition open_finding :: "item \<Rightarrow> bool" where
  "open_finding i \<longleftrightarrow> \<not> is_machine_obligation i \<and> open_status (status i)"

definition converted_row_owners :: "item list \<Rightarrow> string \<Rightarrow> string list \<Rightarrow> string list" where
  "converted_row_owners items row configured =
     (let owners = dict_fromkeys (concat (map owners_or_reviewer
            (filter (\<lambda>i. open_finding i \<and> row \<in> set (residual_evidence_row_ids i)) items)))
      in if owners \<noteq> [] then owners else dict_fromkeys configured)"

definition converted_note :: "string list \<Rightarrow> string" where
  "converted_note obligations =
     ''Converted to human-only exact-head evidence obligation(s) '' @ join '', '' obligations
     @ ''; this finding is no longer coder work.''"

text \<open>
  \<open>_item_sort_key\<close>: the number after \<open>item-\<close> when it is all digits, 0 otherwise, then the text.
\<close>

fun digits_value :: "nat \<Rightarrow> string \<Rightarrow> nat option" where
  "digits_value n [] = Some n"
| "digits_value n (c # cs) =
     (if 48 \<le> code c \<and> code c \<le> 57 then digits_value (10 * n + (code c - 48)) cs else None)"

definition item_sort_key :: "string \<Rightarrow> nat \<times> string" where
  "item_sort_key s =
     ((if take 5 s = ''item-'' \<and> drop 5 s \<noteq> [] then
         (case digits_value 0 (drop 5 s) of Some n \<Rightarrow> n | None \<Rightarrow> 0)
       else 0), s)"

definition newly_converted :: "(string \<times> string) list \<Rightarrow> item \<Rightarrow> string list" where
  "newly_converted ids i =
     (if open_finding i then filter (\<lambda>r. r \<in> fst ` set ids) (residual_evidence_row_ids i) else [])"

definition convert_finding :: "(string \<Rightarrow> string) \<Rightarrow> (string \<times> string) list \<Rightarrow> item \<Rightarrow> ledger_error + item" where
  "convert_finding H ids i =
     (let newly = newly_converted ids i in
      if newly = [] then Inr i
      else
        let conv = filter (\<lambda>r. r \<in> set (converted_row_ids i) \<or> r \<in> set newly) (evidence_row_ids i) in
        if set conv = set (evidence_row_ids i) then
          let obligations = sort_key item_sort_key (remdups (map (\<lambda>r. the (map_of ids r)) newly));
              nt = converted_note obligations
          in mk_item H (i\<lparr>status := ''converted'', converted_row_ids := conv,
               item_notes := (if nt \<in> set (item_notes i) then item_notes i else item_notes i @ [nt])\<rparr>)
        else mk_item H (i\<lparr>converted_row_ids := conv\<rparr>))"

definition apply_residual_row_conversion ::
  "(string \<Rightarrow> string) \<Rightarrow> (string \<times> string) list \<Rightarrow> item list
     \<Rightarrow> ledger_error + item list \<times> (string \<times> string list) list" where
  "apply_residual_row_conversion H ids items =
     bindE (mapE (convert_finding H ids) items) (\<lambda>result.
     Inr (result, map (\<lambda>(row, ob). (row, concat (map (\<lambda>i. map (\<lambda>r. item_id i)
        (filter (\<lambda>r. r = row) (newly_converted ids i))) items))) ids))"

section \<open>Facts on updates of machine obligations\<close>

lemma wf_not_typed:
  "wf_item H i \<Longrightarrow> obligation_kind i \<noteq> Some EVIDENCE_OBLIGATION_KIND \<Longrightarrow> screenshot_request i = PNone"
  by (auto simp: wf_item_iff validate_item_def bindE_Inr_iff kind_defs Let_def split: if_splits)

lemma wf_set_lifecycle:
  assumes wf: "wf_item H i" and m: "is_machine_obligation i" and ne: "\<not> is_evidence_obligation i"
    and lc: "lc \<in> set SETTABLE_LIFECYCLES"
    and fail: "lc = ''repair_required'' \<Longrightarrow> among (obligation_kind i) CI_MACHINE_OBLIGATION_KINDS
                \<Longrightarrow> truthy (failed_head_sha i)"
    and cand: "truthy c \<Longrightarrow> failed_head_sha i \<noteq> c"
  shows "wf_item H (i\<lparr>lifecycle := Some lc, candidate_head_sha := c\<rparr>)"
proof -
  have k: "obligation_kind i \<noteq> Some EVIDENCE_OBLIGATION_KIND"
    using m ne by (simp add: is_evidence_obligation_def)
  note c = wf_machine [OF wf m]
  have "check_machine_fields (i\<lparr>lifecycle := Some lc, candidate_head_sha := c\<rparr>) = Inr ()"
    using c(1) k lc fail cand
    by (auto simp: check_machine_fields_ok SETTABLE_LIFECYCLES_def MACHINE_LIFECYCLE_STATES_def
        EVIDENCE_LIFECYCLE_STATES_def)
  moreover have "check_finding_fields (i\<lparr>lifecycle := Some lc, candidate_head_sha := c\<rparr>) = Inr ()"
    using wf c(2-4) by (auto simp: wf_item_iff check_finding_fields_ok)
  ultimately show ?thesis
    using wf_not_typed [OF wf k] by (simp add: wf_item_iff validate_item_untyped)
qed

lemma wf_set_evidence:
  assumes wf: "wf_item H i" and ev: "is_evidence_obligation i"
    and lc: "lc \<in> set (EVIDENCE_LIFECYCLE_STATES @ [''cleared''])"
    and fz: "lc = ''evidence_frozen'' \<Longrightarrow> truthy c"
    and cand: "truthy c \<Longrightarrow> failed_head_sha i \<noteq> c"
    and st: "st \<noteq> ''converted''"
  shows "wf_item H (i\<lparr>status := st, lifecycle := Some lc, candidate_head_sha := c\<rparr>)"
proof -
  have m: "is_machine_obligation i" and k: "obligation_kind i = Some EVIDENCE_OBLIGATION_KIND"
    using ev by (simp_all add: is_evidence_obligation_def)
  note c = wf_machine [OF wf m]
  let ?j = "i\<lparr>status := st, lifecycle := Some lc, candidate_head_sha := c\<rparr>"
  have "check_machine_fields ?j = Inr ()"
    using c(1) k lc fz cand
    by (auto simp: check_machine_fields_ok MACHINE_LIFECYCLE_STATES_def
        EVIDENCE_LIFECYCLE_STATES_def CI_MACHINE_OBLIGATION_KINDS_def EVIDENCE_OBLIGATION_KIND_def)
  moreover have "check_finding_fields ?j = Inr ()"
    using wf c(2-4) st by (auto simp: wf_item_iff check_finding_fields_ok)
  moreover have "validate_item H ?j = validate_item H i" by (rule validate_item_cong) simp_all
  ultimately show ?thesis using wf by (simp add: wf_item_iff)
qed

lemma set_status_id [simp]: "i\<lparr>status := status i\<rparr> = i"
  by simp

lemma mapE_all2: "list_all2 (\<lambda>x y. f x = Inr y) xs ys \<Longrightarrow> mapE f xs = Inr ys"
  by (simp add: mapE_Inr_iff)

lemma mapE_exists: "(\<And>x. x \<in> set xs \<Longrightarrow> \<exists>y. f x = Inr y \<and> R x y) \<Longrightarrow> \<exists>ys. mapE f xs = Inr ys \<and> list_all2 R xs ys"
  by (induction xs) fastforce+

section \<open>Facts on the advance\<close>

lemma advance_item_ok:
  assumes wf: "wf_item H i" and head: "head \<noteq> []"
  shows "\<exists>j. advance_item H head i = Inr j \<and> wf_item H j"
proof (cases "\<not> is_machine_obligation i \<or> lifecycle i = Some ''cleared'' \<or> is_evidence_obligation i")
  case True
  then show ?thesis using wf by (auto simp: advance_item_def)
next
  case False
  note set = wf_set_lifecycle [OF wf]
  show ?thesis
    using False head wf set [of "''awaiting_current_head_review''" "Some head"]
      set [of "''repair_required''" None]
    by (auto simp: advance_item_def mk_item_id SETTABLE_LIFECYCLES_def)
qed

lemma advance_item_frame:
  "advance_item H head i = Inr j \<Longrightarrow>
     j = i\<lparr>lifecycle := lifecycle j, candidate_head_sha := candidate_head_sha j,
           resolution_owners := resolution_owners j, owner_states := owner_states j\<rparr>"
  by (auto simp: advance_item_def mk_item_Inr split: if_splits)

text \<open>What one advanced item asks for at the new head.\<close>

definition advanced_ok :: "(string \<Rightarrow> string) \<Rightarrow> string \<Rightarrow> item \<Rightarrow> item \<Rightarrow> bool" where
  "advanced_ok H head i j \<longleftrightarrow>
     wf_item H j
     \<and> j = i\<lparr>lifecycle := lifecycle j, candidate_head_sha := candidate_head_sha j,
             resolution_owners := resolution_owners j, owner_states := owner_states j\<rparr>
     \<and> (\<not> is_machine_obligation i \<or> is_evidence_obligation i \<or> lifecycle i = Some ''cleared'' \<longrightarrow> j = i)
     \<and> (machine_obligation_is_ci i \<and> lifecycle i \<noteq> Some ''cleared'' \<and> open_status (status i) \<longrightarrow>
          (failed_head_sha i = Some head \<longrightarrow>
             machine_obligation_requires_repair j (Some head)
             \<and> \<not> machine_obligation_is_revalidation_candidate j (Some head))
          \<and> (truthy (failed_head_sha i) \<and> failed_head_sha i \<noteq> Some head
               \<and> (lifecycle i = Some ''repair_required'' \<or> truthy (candidate_head_sha i)) \<longrightarrow>
             \<not> machine_obligation_requires_repair j (Some head)
             \<and> machine_obligation_is_revalidation_candidate j (Some head)))"

lemma ci_not_evidence:
  "machine_obligation_is_ci i \<Longrightarrow> is_machine_obligation i \<and> \<not> is_evidence_obligation i
     \<and> obligation_kind i \<noteq> Some UNKNOWN_OBLIGATION_KIND"
  by (auto simp: machine_obligation_is_ci_def is_evidence_obligation_def CI_MACHINE_OBLIGATION_KINDS_def
      EVIDENCE_OBLIGATION_KIND_def UNKNOWN_OBLIGATION_KIND_def among_iff)

lemma ci_lifecycles:
  assumes "wf_item H i" and "machine_obligation_is_ci i" and "lifecycle i \<noteq> Some ''cleared''"
    and "lifecycle i \<noteq> Some ''repair_required''"
  shows "lifecycle i \<in> Some ` set AWAITING_STATES"
proof -
  have m: "is_machine_obligation i" and k: "obligation_kind i \<noteq> Some EVIDENCE_OBLIGATION_KIND"
    using ci_not_evidence [OF assms(2)] by (auto simp: is_evidence_obligation_def)
  show ?thesis
    using wf_machine(1) [OF assms(1) m, unfolded check_machine_fields_ok among_iff] k assms(3,4)
    by (auto simp: MACHINE_LIFECYCLE_STATES_def AWAITING_STATES_def)
qed

lemma advanced_kept_machine:
  "j = i\<lparr>lifecycle := l, candidate_head_sha := c, resolution_owners := os, owner_states := sts\<rparr> \<Longrightarrow>
     is_machine_obligation j = is_machine_obligation i
     \<and> is_evidence_obligation j = is_evidence_obligation i
     \<and> machine_obligation_is_ci j = machine_obligation_is_ci i
     \<and> obligation_kind j = obligation_kind i \<and> status j = status i
     \<and> failed_head_sha j = failed_head_sha i"
  by (simp add: is_machine_obligation_def is_evidence_obligation_def machine_obligation_is_ci_def)

lemma repair_required_asks:
  assumes "machine_obligation_is_ci j" and "open_status (status j)"
    and "lifecycle j = Some ''repair_required''" and "failed_head_sha j = Some head"
  shows "machine_obligation_requires_repair j (Some head)
    \<and> \<not> machine_obligation_is_revalidation_candidate j (Some head)"
  using assms ci_not_evidence [OF assms(1)]
  by (simp add: machine_obligation_requires_repair_def machine_obligation_is_revalidation_candidate_def)

lemma awaiting_is_candidate:
  assumes "machine_obligation_is_ci j" and "open_status (status j)"
    and "lifecycle j \<in> Some ` set AWAITING_STATES" and "candidate_head_sha j = Some head"
    and "head \<noteq> []" and "failed_head_sha j \<noteq> Some head"
  shows "\<not> machine_obligation_requires_repair j (Some head)
    \<and> machine_obligation_is_revalidation_candidate j (Some head)"
proof -
  have "lifecycle j \<noteq> Some ''repair_required''" using assms(3) by (auto simp: AWAITING_STATES_def)
  moreover have "among (lifecycle j) AWAITING_STATES" using assms(3) by (simp add: among_iff)
  ultimately show ?thesis
    using assms ci_not_evidence [OF assms(1)]
    by (auto simp: machine_obligation_requires_repair_def machine_obligation_is_ci_def
        machine_obligation_is_revalidation_candidate_def)
qed

lemma advance_ci_cases:
  assumes wf: "wf_item H i" and head: "head \<noteq> []" and ci: "machine_obligation_is_ci i"
    and nc: "lifecycle i \<noteq> Some ''cleared''" and j: "advance_item H head i = Inr j"
  shows "failed_head_sha i = Some head \<Longrightarrow> lifecycle j = Some ''repair_required''"
    and "truthy (failed_head_sha i) \<Longrightarrow> failed_head_sha i \<noteq> Some head
      \<Longrightarrow> lifecycle i = Some ''repair_required'' \<or> truthy (candidate_head_sha i)
      \<Longrightarrow> lifecycle j \<in> Some ` set AWAITING_STATES \<and> candidate_head_sha j = Some head"
proof -
  note ne = ci_not_evidence [OF ci]
  show "failed_head_sha i = Some head \<Longrightarrow> lifecycle j = Some ''repair_required''"
    using j ne nc head by (auto simp: advance_item_def mk_item_Inr split: if_splits)
  assume f: "truthy (failed_head_sha i)" "failed_head_sha i \<noteq> Some head"
    and c: "lifecycle i = Some ''repair_required'' \<or> truthy (candidate_head_sha i)"
  show "lifecycle j \<in> Some ` set AWAITING_STATES \<and> candidate_head_sha j = Some head"
  proof (cases "lifecycle i = Some ''repair_required''")
    case True
    then show ?thesis
      using j ne f by (auto simp: advance_item_def mk_item_Inr AWAITING_STATES_def)
  next
    case False
    then have "lifecycle i \<in> Some ` set AWAITING_STATES" by (rule ci_lifecycles [OF wf ci nc])
    then show ?thesis
      using j ne f c nc False
      by (auto simp: advance_item_def mk_item_Inr AWAITING_STATES_def split: if_splits)
  qed
qed

lemma advanced_ok_item:
  assumes wf: "wf_item H i" and head: "head \<noteq> []"
  shows "\<exists>j. advance_item H head i = Inr j \<and> advanced_ok H head i j"
proof -
  obtain j where j: "advance_item H head i = Inr j" and wj: "wf_item H j"
    using advance_item_ok [OF assms] by blast
  note fr = advance_item_frame [OF j]
  note kept = advanced_kept_machine [OF fr]
  have same: "\<not> is_machine_obligation i \<or> is_evidence_obligation i \<or> lifecycle i = Some ''cleared'' \<Longrightarrow> j = i"
    using j by (auto simp: advance_item_def)
  have "machine_obligation_requires_repair j (Some head)
      \<and> \<not> machine_obligation_is_revalidation_candidate j (Some head)"
    if "machine_obligation_is_ci i" "lifecycle i \<noteq> Some ''cleared''" "open_status (status i)"
      "failed_head_sha i = Some head"
    by (rule repair_required_asks) (use that kept advance_ci_cases(1) [OF wf head _ _ j] in simp_all)
  moreover have "\<not> machine_obligation_requires_repair j (Some head)
      \<and> machine_obligation_is_revalidation_candidate j (Some head)"
    if "machine_obligation_is_ci i" "lifecycle i \<noteq> Some ''cleared''" "open_status (status i)"
      "truthy (failed_head_sha i)" "failed_head_sha i \<noteq> Some head"
      "lifecycle i = Some ''repair_required'' \<or> truthy (candidate_head_sha i)"
    by (rule awaiting_is_candidate) (use that kept advance_ci_cases(2) [OF wf head _ _ j] head in simp_all)
  ultimately show ?thesis
    using j wj fr same unfolding advanced_ok_def by blast
qed

section \<open>Facts on raising an obligation\<close>

definition of_kind :: "string \<Rightarrow> item \<Rightarrow> bool" where
  "of_kind k i \<longleftrightarrow> is_machine_obligation i \<and> obligation_kind i = Some k"

text \<open>Where a first match is replaced, and what is left alone.\<close>

lemma replace_first_None: "replace_first P f xs = None \<longleftrightarrow> (\<forall>x \<in> set xs. \<not> P x)"
  by (induction xs) auto

lemma replace_first_Some:
  "replace_first P f xs = Some r \<Longrightarrow>
     \<exists>us x vs. xs = us @ x # vs \<and> P x \<and> (\<forall>u \<in> set us. \<not> P u)
        \<and> r = bindE (f x) (\<lambda>y. Inr (us @ y # vs))"
proof (induction xs arbitrary: r)
  case (Cons a xs)
  show ?case
  proof (cases "P a")
    case True
    then have "a # xs = [] @ a # xs \<and> P a \<and> (\<forall>u \<in> set []. \<not> P u)
        \<and> r = bindE (f a) (\<lambda>y. Inr ([] @ y # xs))" using Cons.prems by simp
    then show ?thesis by blast
  next
    case False
    then obtain r' where r': "replace_first P f xs = Some r'"
      and r: "r = bindE r' (\<lambda>ys. Inr (a # ys))" using Cons.prems by auto
    from Cons.IH [OF r'] obtain us x vs where x: "xs = us @ x # vs" "P x" "\<forall>u \<in> set us. \<not> P u"
      "r' = bindE (f x) (\<lambda>y. Inr (us @ y # vs))" by blast
    then have "a # xs = (a # us) @ x # vs \<and> P x \<and> (\<forall>u \<in> set (a # us). \<not> P u)
        \<and> r = bindE (f x) (\<lambda>y. Inr ((a # us) @ y # vs))"
      using r False by (cases "f x") simp_all
    then show ?thesis by blast
  qed
qed simp

text \<open>The kind and the failed head an obligation is raised with.\<close>

definition raised_kind :: "string \<Rightarrow> string" where
  "raised_kind kind =
     (if kind \<in> set MACHINE_OBLIGATION_KINDS \<and> kind \<noteq> UNKNOWN_OBLIGATION_KIND then kind
      else UNKNOWN_OBLIGATION_KIND)"

definition raised_head :: "string \<Rightarrow> string option \<Rightarrow> string option" where
  "raised_head kind failed =
     (if kind \<in> set MACHINE_OBLIGATION_KINDS \<and> kind \<noteq> UNKNOWN_OBLIGATION_KIND then failed else None)"

lemma raised_kind_known: "raised_kind kind \<in> set MACHINE_OBLIGATION_KINDS"
  by (auto simp: raised_kind_def MACHINE_OBLIGATION_KINDS_def UNKNOWN_OBLIGATION_KIND_def)

lemma raised_kind_not_evidence:
  "kind \<noteq> EVIDENCE_OBLIGATION_KIND \<Longrightarrow> raised_kind kind \<noteq> EVIDENCE_OBLIGATION_KIND"
  by (simp add: raised_kind_def EVIDENCE_OBLIGATION_KIND_def UNKNOWN_OBLIGATION_KIND_def)

lemma machine_authority_of_known:
  "machine_authority_of k \<in> {MACHINE_AUTHORITY, UNKNOWN_MACHINE_AUTHORITY}"
  by (simp add: machine_authority_of_def)

definition raised_ok :: "(string \<Rightarrow> string) \<Rightarrow> string \<Rightarrow> string option \<Rightarrow> string \<Rightarrow> item \<Rightarrow> bool" where
  "raised_ok H k failed claim j \<longleftrightarrow>
     wf_item H j \<and> of_kind k j \<and> item_text j = claim \<and> status j = ''blocking''
     \<and> lifecycle j = Some ''repair_required'' \<and> failed_head_sha j = failed
     \<and> candidate_head_sha j = None \<and> resolution_owners j = []"

lemma raised_again_wf:
  assumes wf: "wf_item H i" and k: "of_kind k i" and ne: "k \<noteq> EVIDENCE_OBLIGATION_KIND"
  shows "wf_item H (raised_again k round claim failed i)
      \<longleftrightarrow> (k \<in> set CI_MACHINE_OBLIGATION_KINDS \<longrightarrow> truthy failed)"
    and "raised_ok H k failed claim (raised_again k round claim failed i)
      \<longleftrightarrow> (k \<in> set CI_MACHINE_OBLIGATION_KINDS \<longrightarrow> truthy failed)"
proof -
  let ?j = "raised_again k round claim failed i"
  have m: "is_machine_obligation i" and kk: "obligation_kind i = Some k"
    using k by (simp_all add: of_kind_def)
  note c = wf_machine [OF wf m]
  have kd: "k \<in> set MACHINE_OBLIGATION_KINDS"
    using c(1) kk by (simp add: check_machine_fields_ok)
  have untyped: "screenshot_request i = PNone"
    by (rule wf_not_typed [OF wf]) (simp add: kk ne)
  have row: "converted_row_id i = None" "converted_matrix_identity i = None"
    using wf ne kk by (auto simp: wf_item_iff check_finding_fields_ok)
  have "check_finding_fields ?j = Inr ()"
    using wf c(2-4) row by (auto simp: wf_item_iff check_finding_fields_ok raised_again_def)
  moreover have "check_machine_fields ?j = Inr () \<longleftrightarrow>
      (k \<in> set CI_MACHINE_OBLIGATION_KINDS \<longrightarrow> truthy failed)"
    using c(1) kd ne machine_authority_of_known [of k]
    by (auto simp: check_machine_fields_ok raised_again_def MACHINE_LIFECYCLE_STATES_def
        EVIDENCE_LIFECYCLE_STATES_def)
  moreover have "machine_record ?j" by (simp add: machine_record_def raised_again_def)
  moreover have "validate_item H ?j = Inr ()"
    by (rule validate_item_untyped) (simp add: raised_again_def untyped)
  ultimately show wj: "wf_item H ?j \<longleftrightarrow> (k \<in> set CI_MACHINE_OBLIGATION_KINDS \<longrightarrow> truthy failed)"
    by (simp add: wf_item_iff)
  have "of_kind k ?j" by (simp add: of_kind_def is_machine_obligation_def raised_again_def)
  with wj show "raised_ok H k failed claim ?j
      \<longleftrightarrow> (k \<in> set CI_MACHINE_OBLIGATION_KINDS \<longrightarrow> truthy failed)"
    by (simp add: raised_ok_def) (simp add: raised_again_def)
qed

lemma minted_obligation:
  assumes ne: "k \<noteq> EVIDENCE_OBLIGATION_KIND" and kd: "k \<in> set MACHINE_OBLIGATION_KINDS"
  shows "(\<exists>i. next_unresolved_item H n rv round claim ''blocking'' (raised_args k failed) = Inr i)
      \<longleftrightarrow> (k \<in> set CI_MACHINE_OBLIGATION_KINDS \<longrightarrow> truthy failed)"
    and "next_unresolved_item H n rv round claim ''blocking'' (raised_args k failed) = Inr i
      \<Longrightarrow> raised_ok H k failed claim i \<and> item_id i = item_name n"
proof -
  have auth: "among (Some (machine_authority_of k)) [MACHINE_AUTHORITY, UNKNOWN_MACHINE_AUTHORITY]"
    using machine_authority_of_known [of k] by simp
  have nk: "k \<noteq> []" using kd by (auto simp: MACHINE_OBLIGATION_KINDS_def)
  show "(\<exists>i. next_unresolved_item H n rv round claim ''blocking'' (raised_args k failed) = Inr i)
      \<longleftrightarrow> (k \<in> set CI_MACHINE_OBLIGATION_KINDS \<longrightarrow> truthy failed)"
    using auth nk ne kd
    by (auto simp: raised_args_def no_args_def next_unresolved_item_def mk_item_Inr wf_item_iff
        validate_item_untyped check_finding_fields_ok check_machine_fields_ok machine_record_def
        or_else_def MACHINE_LIFECYCLE_STATES_def EVIDENCE_LIFECYCLE_STATES_def)
  show "next_unresolved_item H n rv round claim ''blocking'' (raised_args k failed) = Inr i
      \<Longrightarrow> raised_ok H k failed claim i \<and> item_id i = item_name n"
    using auth nk
    by (auto simp: raised_args_def no_args_def next_unresolved_item_def mk_item_Inr raised_ok_def of_kind_def
        is_machine_obligation_def or_else_def)
qed

text \<open>The ledger after an obligation was raised, from the ledger before.\<close>

definition raised_in :: "(item \<Rightarrow> bool) \<Rightarrow> item list \<Rightarrow> item \<Rightarrow> item list \<Rightarrow> bool" where
  "raised_in P items j items' \<longleftrightarrow>
     (\<exists>us vs. items' = us @ j # vs \<and> (\<forall>u \<in> set us. \<not> P u)
        \<and> ((\<exists>i. items = us @ i # vs \<and> P i \<and> item_id j = item_id i)
            \<or> items = us \<and> vs = []))"

lemma upsert_cases:
  fixes kind :: string and failed :: "string option"
  assumes ne: "kind \<noteq> EVIDENCE_OBLIGATION_KIND" and wf: "\<forall>i \<in> set items. wf_item H i"
  defines "k \<equiv> raised_kind kind" and "f \<equiv> raised_head kind failed"
  shows "(k \<in> set CI_MACHINE_OBLIGATION_KINDS \<longrightarrow> truthy f) \<Longrightarrow>
      \<exists>j items'. upsert_machine_obligation H n kind round claim failed items = Inr items'
        \<and> raised_ok H k f claim j \<and> raised_in (of_kind k) items j items'"
    and "\<not> (k \<in> set CI_MACHINE_OBLIGATION_KINDS \<longrightarrow> truthy f) \<Longrightarrow>
      \<not> is_ok (upsert_machine_obligation H n kind round claim failed items)"
proof -
  have nek: "k \<noteq> EVIDENCE_OBLIGATION_KIND" unfolding k_def by (rule raised_kind_not_evidence [OF ne])
  have kd: "k \<in> set MACHINE_OBLIGATION_KINDS" unfolding k_def by (rule raised_kind_known)
  let ?raise = "\<lambda>i. mk_item H (raised_again k round claim f i)"
  let ?mint = "next_unresolved_item H n (machine_reviewer_of k) round claim ''blocking'' (raised_args k f)"
  have run: "upsert_machine_obligation H n kind round claim failed items =
      (case replace_first (of_kind k) ?raise items of
         Some r \<Rightarrow> r | None \<Rightarrow> bindE ?mint (\<lambda>i. Inr (items @ [i])))"
    using ne unfolding k_def f_def upsert_machine_obligation_def raised_kind_def raised_head_def
      of_kind_def [abs_def] Let_def by simp
  show "\<exists>j items'. upsert_machine_obligation H n kind round claim failed items = Inr items'
        \<and> raised_ok H k f claim j \<and> raised_in (of_kind k) items j items'"
    if ok: "k \<in> set CI_MACHINE_OBLIGATION_KINDS \<longrightarrow> truthy f"
  proof (cases "replace_first (of_kind k) ?raise items")
    case None
    then have none: "\<forall>i \<in> set items. \<not> of_kind k i" by (simp add: replace_first_None)
    obtain i where i: "?mint = Inr i"
      using minted_obligation(1) [OF nek kd, where failed = f] ok by blast
    have "raised_ok H k f claim i" using minted_obligation(2) [OF nek kd i] by blast
    moreover have "raised_in (of_kind k) items i (items @ [i])"
      using none unfolding raised_in_def by blast
    ultimately show ?thesis using run None i by auto
  next
    case (Some r)
    from replace_first_Some [OF this] obtain us i vs where i: "items = us @ i # vs" "of_kind k i"
      "\<forall>u \<in> set us. \<not> of_kind k u" and r: "r = bindE (?raise i) (\<lambda>y. Inr (us @ y # vs))" by blast
    have wi: "wf_item H i" using wf i(1) by simp
    let ?j = "raised_again k round claim f i"
    have "wf_item H ?j" and rok: "raised_ok H k f claim ?j"
      using raised_again_wf [OF wi i(2) nek] ok by blast+
    then have "r = Inr (us @ ?j # vs)" using r by (simp add: mk_item_id)
    moreover have "raised_in (of_kind k) items ?j (us @ ?j # vs)"
      unfolding raised_in_def using i by (auto simp: raised_again_def)
    ultimately show ?thesis using run Some rok by auto
  qed
  show "\<not> is_ok (upsert_machine_obligation H n kind round claim failed items)"
    if bad: "\<not> (k \<in> set CI_MACHINE_OBLIGATION_KINDS \<longrightarrow> truthy f)"
  proof (cases "replace_first (of_kind k) ?raise items")
    case None
    have "\<not> (\<exists>i. ?mint = Inr i)" using minted_obligation(1) [OF nek kd, where failed = f] bad by blast
    then show ?thesis using run None by (cases ?mint) auto
  next
    case (Some r)
    from replace_first_Some [OF this] obtain us i vs where i: "items = us @ i # vs" "of_kind k i"
      and r: "r = bindE (?raise i) (\<lambda>y. Inr (us @ y # vs))" by blast
    have "wf_item H i" using wf i(1) by simp
    then have "\<not> wf_item H (raised_again k round claim f i)"
      using raised_again_wf(1) [OF _ i(2) nek] bad by blast
    then have "\<not> is_ok r" using r by (cases "?raise i") (auto simp: mk_item_Inr)
    then show ?thesis using run Some by simp
  qed
qed

lemma raised_in_others:
  assumes "raised_in P items j items'" and "P j"
  shows "filter (\<lambda>i. \<not> P i) items' = filter (\<lambda>i. \<not> P i) items"
    and "length (filter P items') = max 1 (length (filter P items))"
    and "j \<in> set items'"
  using assms by (auto simp: raised_in_def)

section \<open>Facts on the freeze\<close>

lemma pending_is_evidence: "pending_evidence i \<Longrightarrow> is_evidence_obligation i"
  by (simp add: pending_evidence_def)

lemma frozen_item:
  assumes wf: "wf_item H i" and ev: "is_evidence_obligation i" and head: "head \<noteq> []"
    and no: "failed_head_sha i \<noteq> Some head" and st: "status i \<noteq> ''converted''"
  shows "wf_item H (i\<lparr>lifecycle := Some ''evidence_frozen'', candidate_head_sha := Some head\<rparr>)"
proof -
  have "wf_item H (i\<lparr>status := status i, lifecycle := Some ''evidence_frozen'',
      candidate_head_sha := Some head\<rparr>)"
    by (rule wf_set_evidence [OF wf ev]) (use head no st in \<open>auto simp: EVIDENCE_LIFECYCLE_STATES_def\<close>)
  then show ?thesis by simp
qed

lemma deferred_item:
  assumes wf: "wf_item H i" and ev: "is_evidence_obligation i" and st: "status i \<noteq> ''converted''"
  shows "wf_item H (i\<lparr>lifecycle := Some ''evidence_deferred'', candidate_head_sha := None\<rparr>)"
proof -
  have "wf_item H (i\<lparr>status := status i, lifecycle := Some ''evidence_deferred'',
      candidate_head_sha := None\<rparr>)"
    by (rule wf_set_evidence [OF wf ev]) (use st in \<open>auto simp: EVIDENCE_LIFECYCLE_STATES_def\<close>)
  then show ?thesis by simp
qed

definition frozen_at :: "string \<Rightarrow> item \<Rightarrow> item" where
  "frozen_at head i =
     (if pending_evidence i
      then i\<lparr>lifecycle := Some ''evidence_frozen'', candidate_head_sha := Some head\<rparr> else i)"

definition thawed :: "item \<Rightarrow> item" where
  "thawed i =
     (if is_evidence_obligation i \<and> lifecycle i = Some ''evidence_frozen''
      then i\<lparr>lifecycle := Some ''evidence_deferred'', candidate_head_sha := None\<rparr> else i)"

lemma freeze_total:
  assumes "\<forall>i \<in> set items. wf_item H i" and "head \<noteq> []"
    and "\<forall>i \<in> set items. pending_evidence i \<longrightarrow> failed_head_sha i \<noteq> Some head"
  shows "freeze_evidence_obligations H head items = Inr (map (frozen_at head) items)
    \<and> (\<forall>i \<in> set items. wf_item H (frozen_at head i))"
proof -
  have w: "wf_item H (frozen_at head i)" if "i \<in> set items" for i
    using frozen_item [of H i head] that assms pending_is_evidence [of i]
    by (auto simp: frozen_at_def pending_evidence_def open_status_def)
  have "freeze_evidence_obligations H head items = Inr (map (frozen_at head) items)"
    unfolding freeze_evidence_obligations_def
  proof (rule mapE_total)
    fix i assume "i \<in> set items"
    from w [OF this] show "(if pending_evidence i
        then mk_item H (i\<lparr>lifecycle := Some ''evidence_frozen'', candidate_head_sha := Some head\<rparr>)
        else Inr i) = Inr (frozen_at head i)"
      by (auto simp: frozen_at_def mk_item_id split: if_splits)
  qed
  with w show ?thesis by blast
qed

lemma release_total:
  assumes "\<forall>i \<in> set items. wf_item H i"
  shows "release_evidence_freeze H items = Inr (map thawed items) \<and> (\<forall>i \<in> set items. wf_item H (thawed i))"
proof -
  have w: "wf_item H (thawed i)" if "i \<in> set items" for i
    using deferred_item [of H i] that assms wf_machine(4) [of H i]
    by (auto simp: thawed_def is_evidence_obligation_def)
  have "release_evidence_freeze H items = Inr (map thawed items)"
    unfolding release_evidence_freeze_def
  proof (rule mapE_total)
    fix i assume "i \<in> set items"
    from w [OF this] show "(if is_evidence_obligation i \<and> lifecycle i = Some ''evidence_frozen''
        then mk_item H (i\<lparr>lifecycle := Some ''evidence_deferred'', candidate_head_sha := None\<rparr>)
        else Inr i) = Inr (thawed i)"
      by (auto simp: thawed_def mk_item_id split: if_splits)
  qed
  with w show ?thesis by blast
qed

lemma frozen_at_other: "\<not> pending_evidence i \<Longrightarrow> frozen_at head i = i"
  by (simp add: frozen_at_def)

lemma frozen_at_kinds [simp]:
  "is_evidence_obligation (frozen_at head i) = is_evidence_obligation i"
  "is_machine_obligation (frozen_at head i) = is_machine_obligation i"
  "status (frozen_at head i) = status i"
  "pending_evidence (frozen_at head i) = pending_evidence i"
  by (simp_all add: frozen_at_def is_evidence_obligation_def is_machine_obligation_def
      pending_evidence_def EVIDENCE_LIFECYCLE_STATES_def)

section \<open>Facts on row conversion\<close>

lemma convert_finding_ok:
  assumes wf: "wf_item H i" and rows: "distinct (evidence_row_ids i)"
  shows "\<exists>j. convert_finding H ids i = Inr j \<and> wf_item H j
    \<and> item_id j = item_id i \<and> item_text j = item_text i \<and> evidence_row_ids j = evidence_row_ids i
    \<and> (\<not> open_finding i \<longrightarrow> j = i)
    \<and> (open_finding i \<longrightarrow>
         residual_evidence_row_ids j = filter (\<lambda>r. r \<notin> fst ` set ids) (residual_evidence_row_ids i)
         \<and> (status j = ''converted'' \<longleftrightarrow>
              residual_evidence_row_ids i \<noteq> [] \<and> residual_evidence_row_ids j = []))"
proof (cases "newly_converted ids i = []")
  case True
  have "open_finding i \<Longrightarrow> filter (\<lambda>r. r \<notin> fst ` set ids) (residual_evidence_row_ids i)
      = residual_evidence_row_ids i"
    using True by (auto simp: newly_converted_def filter_id_conv filter_empty_conv)
  moreover have "open_finding i \<Longrightarrow> status i \<noteq> ''converted''"
    by (auto simp: open_finding_def open_status_def)
  ultimately show ?thesis using True wf by (simp add: convert_finding_def)
next
  case False
  then have op: "open_finding i" by (auto simp: newly_converted_def split: if_splits)
  then have nm: "\<not> is_machine_obligation i" by (simp add: open_finding_def)
  have plain: "authority i = None" "obligation_kind i = None" "lifecycle i = None"
    "\<not> machine_record i"
    using nm machine_record_iff [OF wf] by (simp_all add: machine_record_def)
  let ?conv = "filter (\<lambda>r. r \<in> set (converted_row_ids i) \<or> r \<in> set (newly_converted ids i)) (evidence_row_ids i)"
  have sub: "set (converted_row_ids i) \<subseteq> set (evidence_row_ids i)"
    using wf by (simp add: wf_item_iff check_finding_fields_ok)
  have ne: "?conv \<noteq> []" and newly: "newly_converted ids i = filter (\<lambda>r. r \<in> fst ` set ids) (residual_evidence_row_ids i)"
    using False op by (auto simp: newly_converted_def residual_evidence_row_ids_def filter_empty_conv)
  have upd: "wf_item H (i\<lparr>status := st, converted_row_ids := ?conv, item_notes := ns\<rparr>)"
    if "st = ''converted'' \<Longrightarrow> set ?conv = set (evidence_row_ids i)" for st ns
    using wf plain rows ne that
    by (auto simp: wf_item_iff check_finding_fields_ok machine_record_def validate_item_def Let_def
        kind_defs bindE_Inr_iff split: if_splits)
  have res: "filter (\<lambda>r. r \<notin> set ?conv) (evidence_row_ids i)
      = filter (\<lambda>r. r \<notin> fst ` set ids) (residual_evidence_row_ids i)"
    unfolding newly residual_evidence_row_ids_def by (auto simp: filter_filter intro!: filter_cong)
  have full: "set ?conv = set (evidence_row_ids i) \<longleftrightarrow> filter (\<lambda>r. r \<notin> set ?conv) (evidence_row_ids i) = []"
    by (auto simp: filter_empty_conv)
  have some: "residual_evidence_row_ids i \<noteq> []" using False op by (auto simp: newly_converted_def)
  have st: "status i \<noteq> ''converted''" using op by (auto simp: open_finding_def open_status_def)
  show ?thesis
  proof (cases "set ?conv = set (evidence_row_ids i)")
    case True
    let ?nt = "converted_note (sort_key item_sort_key (remdups (map (\<lambda>r. the (map_of ids r)) (newly_converted ids i))))"
    let ?j = "i\<lparr>status := ''converted'', converted_row_ids := ?conv,
        item_notes := (if ?nt \<in> set (item_notes i) then item_notes i else item_notes i @ [?nt])\<rparr>"
    have "convert_finding H ids i = Inr ?j"
      using False True upd [of "''converted''"] by (simp add: convert_finding_def Let_def mk_item_id)
    moreover have "residual_evidence_row_ids ?j = filter (\<lambda>r. r \<notin> fst ` set ids) (residual_evidence_row_ids i)"
      using res by (simp add: residual_evidence_row_ids_def)
    moreover have "residual_evidence_row_ids ?j = []"
      using True full by (simp add: residual_evidence_row_ids_def)
    ultimately show ?thesis using upd [of "''converted''"] True op some by simp
  next
    case part: False
    let ?j = "i\<lparr>converted_row_ids := ?conv\<rparr>"
    have wj: "wf_item H ?j" using upd [of "status i" "item_notes i"] st by simp
    then have "convert_finding H ids i = Inr ?j"
      using False part by (simp add: convert_finding_def Let_def mk_item_id)
    moreover have "residual_evidence_row_ids ?j = filter (\<lambda>r. r \<notin> fst ` set ids) (residual_evidence_row_ids i)"
      using res by (simp add: residual_evidence_row_ids_def)
    moreover have "residual_evidence_row_ids ?j \<noteq> []"
      using part full by (simp add: residual_evidence_row_ids_def)
    ultimately show ?thesis using wj op st some by simp
  qed
qed

text \<open>An evidence obligation of an identity, open and not yet cleared.\<close>

definition pending_identity :: "string \<Rightarrow> item \<Rightarrow> bool" where
  "pending_identity identity i \<longleftrightarrow> pending_evidence i \<and> obligation_identity i = Some identity"

lemma reopened_pending:
  "is_evidence_obligation i \<Longrightarrow> obligation_identity i = Some identity \<Longrightarrow> pending_identity identity (reopened i)"
  by (simp add: pending_identity_def pending_evidence_def reopened_def is_evidence_obligation_def
      is_machine_obligation_def open_status_def EVIDENCE_LIFECYCLE_STATES_def)

lemma upsert_converted_in_again:
  "upsert_converted_in H identity items = Some (Inr (js, j)) \<Longrightarrow>
     pending_identity identity j \<and> j \<in> set js
     \<and> upsert_converted_in H identity js = Some (Inr (js, j))
     \<and> map item_id js = map item_id items"
proof (induction items arbitrary: js j)
  case (Cons i xs)
  show ?case
  proof (cases "is_evidence_obligation i \<and> obligation_identity i = Some identity")
    case True
    then have p: "pending_identity identity (reopened i)" using reopened_pending by blast
    show ?thesis
    proof (cases "open_status (status i) \<and> among (lifecycle i) EVIDENCE_LIFECYCLE_STATES")
      case open_it: True
      then show ?thesis using Cons.prems True
        by (auto simp: pending_identity_def pending_evidence_def)
    next
      case False
      then have "js = reopened i # xs" "j = reopened i"
        using Cons.prems True by (auto simp: bindE_Inr_iff mk_item_Inr)
      moreover have "upsert_converted_in H identity (reopened i # xs) = Some (Inr (reopened i # xs, reopened i))"
        using p by (simp add: pending_identity_def pending_evidence_def)
      ultimately show ?thesis using p by (simp add: reopened_def)
    qed
  next
    case False
    then obtain js' where js': "upsert_converted_in H identity xs = Some (Inr (js', j))" "js = i # js'"
      using Cons.prems by (auto simp: bindE_Inr_iff)
    then show ?thesis using Cons.IH [OF js'(1)] False by auto
  qed
qed simp

lemma row_obligation_ok:
  "wf_item H (row_obligation H n row matrix head owners round why)"
  "pending_identity (converted_evidence_obligation_identity H row matrix)
     (row_obligation H n row matrix head owners round why)"
  by (simp_all add: wf_item_iff validate_item_untyped check_finding_fields_ok check_machine_fields_ok
      row_obligation_def kind_defs converted_evidence_obligation_identity_def pending_identity_def
      pending_evidence_def is_evidence_obligation_def is_machine_obligation_def open_status_def)

lemma reopened_wf:
  assumes "wf_item H i" and "is_evidence_obligation i" shows "wf_item H (reopened i)"
proof -
  have "wf_item H (i\<lparr>status := ''blocking'', lifecycle := Some ''evidence_deferred'', candidate_head_sha := None\<rparr>)"
    by (rule wf_set_evidence [OF assms]) (simp_all add: EVIDENCE_LIFECYCLE_STATES_def)
  moreover have "reopened i =
      (i\<lparr>status := ''blocking'', lifecycle := Some ''evidence_deferred'', candidate_head_sha := None\<rparr>)
        \<lparr>source_status := Some ''blocking'',
         owner_states := map (\<lambda>ow. (ow, ''pending'')) (resolution_owners i)\<rparr>"
    by (simp add: reopened_def)
  ultimately show ?thesis by (simp only: wf_item_bookkeeping)
qed

lemma upsert_converted_in_ok:
  "\<forall>i \<in> set items. wf_item H i \<Longrightarrow> upsert_converted_in H identity items = Some r \<Longrightarrow>
     \<exists>js j. r = Inr (js, j) \<and> (\<forall>i \<in> set js. wf_item H i)"
proof (induction items arbitrary: r)
  case (Cons i xs)
  show ?case
  proof (cases "is_evidence_obligation i \<and> obligation_identity i = Some identity")
    case True
    then show ?thesis
      using Cons.prems reopened_wf [of H i] by (auto simp: mk_item_id split: if_splits)
  next
    case False
    then obtain r' where r': "upsert_converted_in H identity xs = Some r'"
      and r: "r = bindE r' (\<lambda>(js, j). Inr (i # js, j))" using Cons.prems by auto
    then obtain js j where "r' = Inr (js, j)" "\<forall>i \<in> set js. wf_item H i"
      using Cons.IH [OF _ r'] Cons.prems by auto
    then show ?thesis using r Cons.prems by auto
  qed
qed simp

lemma upsert_converted_in_None:
  "upsert_converted_in H identity items = None \<longleftrightarrow>
     (\<forall>i \<in> set items. \<not> (is_evidence_obligation i \<and> obligation_identity i = Some identity))"
  by (induction items) auto

lemma upsert_converted_in_append:
  "upsert_converted_in H identity items = None \<Longrightarrow> pending_identity identity i
   \<Longrightarrow> upsert_converted_in H identity (items @ [i]) = Some (Inr (items @ [i], i))"
  by (induction items) (auto simp: pending_identity_def pending_evidence_def split: if_splits)

section \<open>Properties\<close>

text \<open>C5: Advancing a well-formed ledger to a head never raises and keeps every record well-formed;
  it changes only the lifecycle, the candidate head and the (unused) owners of machine obligations.
  A failed head is never requalified: at the head it failed at, an open CI obligation asks for a
  repair and is no candidate.  At any other head an obligation that waits for a repair, or already
  had a candidate, becomes a candidate for exactly this head.\<close>

theorem failed_head_never_requalified:
  assumes "\<forall>i \<in> set items. wf_item H i" and "head \<noteq> []"
  shows "\<exists>items'. advance_machine_obligations_for_head H (Some head) items = Inr items'
    \<and> list_all2 (advanced_ok H head) items items'"
proof -
  have "\<exists>items'. mapE (advance_item H head) items = Inr items' \<and> list_all2 (advanced_ok H head) items items'"
    by (rule mapE_exists) (use assms advanced_ok_item in blast)
  then show ?thesis using assms(2) by (simp add: advance_machine_obligations_for_head_def)
qed

theorem failed_head_never_requalified_witness:
  "\<exists>j. advance_machine_obligations_for_head id (Some ''h2'') [ex_finding, ex_ci] = Inr [ex_finding, j]
     \<and> machine_obligation_is_revalidation_candidate j (Some ''h2'')"
proof -
  obtain js where js: "advance_machine_obligations_for_head id (Some ''h2'') [ex_finding, ex_ci] = Inr js"
    "list_all2 (advanced_ok id ''h2'') [ex_finding, ex_ci] js"
    using failed_head_never_requalified [of "[ex_finding, ex_ci]" id "''h2''"] ex_items_wf by auto
  then obtain a j where j: "js = [a, j]" "advanced_ok id ''h2'' ex_finding a" "advanced_ok id ''h2'' ex_ci j"
    by (auto simp: list_all2_Cons1)
  have "a = ex_finding" using j(2) by (simp add: advanced_ok_def is_machine_obligation_def ex_finding_def)
  moreover have "machine_obligation_is_ci ex_ci" "open_status (status ex_ci)"
      "lifecycle ex_ci = Some ''repair_required''" "failed_head_sha ex_ci = Some ''h1''"
    by (simp_all add: machine_obligation_is_ci_def is_machine_obligation_def ex_ci_def ex_finding_def
        kind_defs open_status_def)
  then have "machine_obligation_is_revalidation_candidate j (Some ''h2'')"
    using j(3) unfolding advanced_ok_def by (simp del: is_ok.simps)
  ultimately show ?thesis using js j by simp
qed

text \<open>Raising a machine obligation of a kind never accumulates records.  In a well-formed
  ledger it succeeds exactly when the kind is not an evidence kind and a CI kind comes with a failed
  head.  Then there is at least one obligation of the (normalised) kind and no more than before or
  one, the raised one is well-formed, blocks, asks for a repair at the failed head and has no owner,
  and every other record is untouched, in order.\<close>

theorem raised_obligation_is_single:
  assumes "\<forall>i \<in> set items. wf_item H i"
  shows "(is_ok (upsert_machine_obligation H n kind round claim failed items) \<longleftrightarrow>
      kind \<noteq> EVIDENCE_OBLIGATION_KIND
      \<and> (raised_kind kind \<in> set CI_MACHINE_OBLIGATION_KINDS \<longrightarrow> truthy (raised_head kind failed)))
    \<and> (\<forall>items'. upsert_machine_obligation H n kind round claim failed items = Inr items' \<longrightarrow>
        filter (\<lambda>i. \<not> of_kind (raised_kind kind) i) items' = filter (\<lambda>i. \<not> of_kind (raised_kind kind) i) items
        \<and> length (filter (of_kind (raised_kind kind)) items')
            = max 1 (length (filter (of_kind (raised_kind kind)) items))
        \<and> (\<exists>j \<in> set items'. raised_ok H (raised_kind kind) (raised_head kind failed) claim j
              \<and> machine_obligation_requires_repair j (raised_head kind failed)))"
proof (cases "kind = EVIDENCE_OBLIGATION_KIND")
  case True
  then show ?thesis by (simp add: upsert_machine_obligation_def)
next
  case ne: False
  let ?k = "raised_kind kind" and ?f = "raised_head kind failed"
  let ?up = "upsert_machine_obligation H n kind round claim failed items"
  note cs = upsert_cases [OF ne assms, of failed n round claim]
  show ?thesis
  proof (cases "?k \<in> set CI_MACHINE_OBLIGATION_KINDS \<longrightarrow> truthy ?f")
    case False
    then have "\<not> is_ok ?up" by (rule cs(2))
    moreover from this have "?up \<noteq> Inr items'" for items' by auto
    ultimately show ?thesis using ne False by blast
  next
    case True
    then obtain j items' where up: "?up = Inr items'" and j: "raised_ok H ?k ?f claim j"
      and r: "raised_in (of_kind ?k) items j items'" using cs(1) by blast
    have k: "of_kind ?k j" using j by (simp add: raised_ok_def)
    have "machine_obligation_requires_repair j ?f"
      using j raised_kind_not_evidence [OF ne]
      by (auto simp: raised_ok_def of_kind_def machine_obligation_requires_repair_def
          is_evidence_obligation_def open_status_def)
    then show ?thesis using ne True up j raised_in_others [OF r k] by auto
  qed
qed

theorem raised_obligation_is_single_witness:
  "\<exists>js. upsert_machine_obligation id 9 ''github-pr-checks'' 3 ''red'' (Some ''h2'') [ex_finding, ex_ci]
      = Inr js \<and> length (filter (of_kind ''github-pr-checks'') js) = 1
      \<and> (\<exists>j \<in> set js. machine_obligation_requires_repair j (Some ''h2''))"
proof -
  have wf: "\<forall>i \<in> set [ex_finding, ex_ci]. wf_item id i" using ex_items_wf by simp
  have k: "raised_kind ''github-pr-checks'' = ''github-pr-checks''"
    and h: "raised_head ''github-pr-checks'' (Some ''h2'') = Some ''h2''"
    by (simp_all add: raised_kind_def raised_head_def kind_defs)
  let ?up = "upsert_machine_obligation id 9 ''github-pr-checks'' 3 ''red'' (Some ''h2'') [ex_finding, ex_ci]"
  note th = raised_obligation_is_single [OF wf, of 9 "''github-pr-checks''" 3 "''red''" "Some ''h2''"]
  have "is_ok ?up" using th k h by (simp add: kind_defs)
  then obtain js where js: "?up = Inr js" by (cases ?up) auto
  have "filter (of_kind ''github-pr-checks'') [ex_finding, ex_ci] = [ex_ci]"
    by (simp add: of_kind_def is_machine_obligation_def ex_finding_def ex_ci_def kind_defs)
  then have "length (filter (of_kind ''github-pr-checks'') js) = 1"
    and "\<exists>j \<in> set js. machine_obligation_requires_repair j (Some ''h2'')"
    using th js k h by auto
  with js show ?thesis by blast
qed

text \<open>The evidence freeze.  In a well-formed ledger whose pending evidence did not fail at the
  head, freezing succeeds, keeps every record well-formed, leaves everything but the pending evidence
  untouched, keeps the same requests pending and freezes all of them at exactly this head.
  Releasing then defers every one of them again and leaves nothing frozen.\<close>

theorem freeze_and_release:
  assumes "\<forall>i \<in> set items. wf_item H i" and "head \<noteq> []"
    and "\<forall>i \<in> set items. pending_evidence i \<longrightarrow> failed_head_sha i \<noteq> Some head"
  shows "\<exists>frozen released.
      freeze_evidence_obligations H head items = Inr frozen
      \<and> release_evidence_freeze H frozen = Inr released
      \<and> (\<forall>i \<in> set frozen \<union> set released. wf_item H i)
      \<and> frozen_evidence_obligations frozen = pending_evidence_obligations frozen
      \<and> map item_id (pending_evidence_obligations frozen) = map item_id (pending_evidence_obligations items)
      \<and> (\<forall>i \<in> set (frozen_evidence_obligations frozen). candidate_head_sha i = Some head)
      \<and> filter (\<lambda>i. \<not> pending_evidence i) frozen = filter (\<lambda>i. \<not> pending_evidence i) items
      \<and> frozen_evidence_obligations released = []
      \<and> map item_id (pending_evidence_obligations released) = map item_id (pending_evidence_obligations items)"
proof -
  let ?fz = "map (frozen_at head) items" and ?rl = "map (thawed \<circ> frozen_at head) items"
  have f: "freeze_evidence_obligations H head items = Inr ?fz" and wf: "\<forall>i \<in> set ?fz. wf_item H i"
    using freeze_total [OF assms] by simp_all
  have r: "release_evidence_freeze H ?fz = Inr ?rl" and wr: "\<forall>i \<in> set ?rl. wf_item H i"
    using release_total [OF wf] by simp_all
  have pt: "pending_evidence (thawed i) = pending_evidence i" for i
    by (simp add: thawed_def pending_evidence_def is_evidence_obligation_def is_machine_obligation_def
        EVIDENCE_LIFECYCLE_STATES_def)
  have nt: "\<not> (pending_evidence (thawed i) \<and> lifecycle (thawed i) = Some ''evidence_frozen'')" for i
    by (auto simp: thawed_def pending_evidence_def)
  have ids: "item_id (frozen_at head i) = item_id i" "item_id (thawed i) = item_id i" for i
    by (simp_all add: frozen_at_def thawed_def)
  have fl: "pending_evidence i \<Longrightarrow> lifecycle (frozen_at head i) = Some ''evidence_frozen''" for i
    by (simp add: frozen_at_def)
  have fc: "pending_evidence i \<Longrightarrow> candidate_head_sha (frozen_at head i) = Some head" for i
    by (simp add: frozen_at_def)
  have all: "frozen_evidence_obligations ?fz = pending_evidence_obligations ?fz"
    using fl by (auto simp: frozen_evidence_obligations_def pending_evidence_obligations_def filter_id_conv
        simp del: filter_filter)
  have heads: "\<forall>i \<in> set (frozen_evidence_obligations ?fz). candidate_head_sha i = Some head"
    using fc by (auto simp: frozen_evidence_obligations_def pending_evidence_obligations_def)
  have same: "filter (\<lambda>i. \<not> pending_evidence i) ?fz = filter (\<lambda>i. \<not> pending_evidence i) items"
    by (induction items) (auto simp: frozen_at_other)
  have p1: "map item_id (pending_evidence_obligations ?fz) = map item_id (pending_evidence_obligations items)"
    and p2: "map item_id (pending_evidence_obligations ?rl) = map item_id (pending_evidence_obligations items)"
    by (simp_all add: pending_evidence_obligations_def filter_map comp_def pt ids)
  have none: "frozen_evidence_obligations ?rl = []"
    using nt by (auto simp: frozen_evidence_obligations_def pending_evidence_obligations_def filter_empty_conv)
  show ?thesis using f r wf wr all heads same p1 p2 none by (intro exI [of _ ?fz] exI [of _ ?rl]) auto
qed

theorem freeze_and_release_witness:
  "\<exists>fz. freeze_evidence_obligations id ''h3'' [ex_finding, ex_evidence] = Inr fz
      \<and> (\<forall>i \<in> set (frozen_evidence_obligations fz). candidate_head_sha i = Some ''h3'')"
proof -
  have "\<forall>i \<in> set [ex_finding, ex_evidence]. wf_item id i" using ex_items_wf by simp
  from freeze_and_release [OF this, of "''h3''"] show ?thesis
    by (auto simp: ex_finding_def ex_evidence_def)
qed

text \<open>Converting rows.  In a well-formed ledger without repeated tags the conversion never
  raises; it keeps every record well-formed and every claim, name and original tag.  From an open
  finding exactly the named rows leave the residual demand, and the finding becomes \<open>converted\<close>
  exactly when it had a residual demand and none is left; machine obligations and closed findings
  are untouched.\<close>

theorem conversion_moves_rows:
  assumes "\<forall>i \<in> set items. wf_item H i \<and> distinct (evidence_row_ids i)"
  shows "\<exists>result by_row. apply_residual_row_conversion H ids items = Inr (result, by_row)
    \<and> list_all2 (\<lambda>i j. wf_item H j \<and> item_id j = item_id i \<and> item_text j = item_text i
         \<and> evidence_row_ids j = evidence_row_ids i
         \<and> (\<not> open_finding i \<longrightarrow> j = i)
         \<and> (open_finding i \<longrightarrow>
              residual_evidence_row_ids j = filter (\<lambda>r. r \<notin> fst ` set ids) (residual_evidence_row_ids i)
              \<and> (status j = ''converted'' \<longleftrightarrow>
                   residual_evidence_row_ids i \<noteq> [] \<and> residual_evidence_row_ids j = []))) items result"
  (is "\<exists>result by_row. _ \<and> list_all2 ?R items result")
proof -
  have "\<exists>result. mapE (convert_finding H ids) items = Inr result \<and> list_all2 ?R items result"
    by (rule mapE_exists) (use assms convert_finding_ok in blast)
  then show ?thesis by (auto simp: apply_residual_row_conversion_def)
qed

theorem conversion_moves_rows_witness:
  "\<exists>j by_row. apply_residual_row_conversion id [(''r1'', ''item-9'')] [ex_finding\<lparr>evidence_row_ids := [''r1'']\<rparr>]
      = Inr ([j], by_row) \<and> status j = ''converted''"
proof -
  let ?i = "ex_finding\<lparr>evidence_row_ids := [''r1'']\<rparr>"
  have "wf_item id ?i"
    by (simp add: wf_item_iff validate_item_untyped check_finding_fields_ok machine_record_def
        ex_finding_def)
  moreover have "open_finding ?i" "residual_evidence_row_ids ?i = [''r1'']"
    by (simp_all add: open_finding_def is_machine_obligation_def open_status_def ex_finding_def
        residual_evidence_row_ids_def)
  ultimately show ?thesis
    using conversion_moves_rows [of "[?i]" id "[(''r1'', ''item-9'')]"]
    by (auto simp: list_all2_Cons1 ex_finding_def)
qed

text \<open>A row is never converted twice.  In a well-formed ledger asking for the obligation of a
  row succeeds and keeps the ledger well-formed; the obligation is in the returned ledger, pending,
  under the row's stable identity.  Asking again, with any number, owners, head or explanation,
  returns the same ledger and obligation and uses no number.\<close>

theorem converted_row_is_single:
  assumes "\<forall>i \<in> set items. wf_item H i"
  shows "\<exists>js j used.
    upsert_converted_evidence_obligation H n row matrix head owners round why items = Inr (js, j, used)
    \<and> (\<forall>i \<in> set js. wf_item H i) \<and> j \<in> set js \<and> pending_evidence j
    \<and> obligation_identity j = Some (converted_evidence_obligation_identity H row matrix)
    \<and> (\<forall>n' head' owners' round' why'.
         upsert_converted_evidence_obligation H n' row matrix head' owners' round' why' js = Inr (js, j, False))
    \<and> map item_id js = map item_id items @ (if used then [item_name n] else [])"
proof (cases "upsert_converted_in H (converted_evidence_obligation_identity H row matrix) items")
  case (Some r)
  with upsert_converted_in_ok [OF assms] obtain js j where r: "r = Inr (js, j)"
    and wf: "\<forall>i \<in> set js. wf_item H i" by blast
  note again = upsert_converted_in_again [OF Some [unfolded r]]
  have "upsert_converted_evidence_obligation H n' row matrix head' owners' round' why' js = Inr (js, j, False)"
    for n' head' owners' round' why'
    using again by (simp add: upsert_converted_evidence_obligation_def)
  moreover have "upsert_converted_evidence_obligation H n row matrix head owners round why items
      = Inr (js, j, False)"
    using Some r by (simp add: upsert_converted_evidence_obligation_def)
  moreover have "pending_evidence j"
    "obligation_identity j = Some (converted_evidence_obligation_identity H row matrix)"
    using again by (simp_all add: pending_identity_def)
  ultimately show ?thesis
    using again wf by (intro exI [of _ js] exI [of _ j] exI [of _ False]) simp
next
  case None
  let ?j = "row_obligation H n row matrix head owners round why"
  note ok = row_obligation_ok(1) [of H n row matrix head owners round why]
    row_obligation_ok(2) [of H row matrix n head owners round why]
  have "upsert_converted_evidence_obligation H n row matrix head owners round why items
      = Inr (items @ [?j], ?j, True)"
    using None mk_item_id [OF ok(1)] by (simp add: upsert_converted_evidence_obligation_def)
  moreover have "upsert_converted_evidence_obligation H n' row matrix head' owners' round' why' (items @ [?j])
      = Inr (items @ [?j], ?j, False)" for n' head' owners' round' why'
    using upsert_converted_in_append [OF None ok(2)]
    by (simp add: upsert_converted_evidence_obligation_def)
  moreover have "item_id ?j = item_name n" by (simp add: row_obligation_def)
  ultimately show ?thesis
    using ok assms by (intro exI [of _ "items @ [?j]"] exI [of _ ?j] exI [of _ True])
      (auto simp: pending_identity_def)
qed

theorem converted_row_is_single_witness:
  "\<exists>js j used. upsert_converted_evidence_obligation id 4 ''r1'' ''m'' ''h1'' [''codex''] 2 ''none'' [ex_finding]
        = Inr (js, j, used)
     \<and> upsert_converted_evidence_obligation id 5 ''r1'' ''m'' ''h2'' [] 3 ''again'' js = Inr (js, j, False)"
  using converted_row_is_single [of "[ex_finding]" id 4 "''r1''" "''m''" "''h1''" "[''codex'']" 2 "''none''"]
    ex_items_wf(1) by fastforce

end
