(* ===== verification/Reconciliation.thy ===== *)
theory Reconciliation
  imports Machine_Obligations
begin

text \<open>
  How one round's reviewer dispositions change the ledger (\<open>unresolved_items.py\<close>): the item-level
  outcome with its owner bookkeeping, the sub-items of a conjunctive finding, the clearance of
  human-only evidence, and disputes.  Python dictionaries that are only looked up are maps; the
  lists the code appends to (\<open>evidence_clearances\<close>, \<open>cleared_items_progress\<close>,
  \<open>sub_item_degradations\<close>) are returned.
\<close>

section \<open>Dispositions\<close>

record review_disposition =
  disp_item_id :: string
  disp_reviewer :: string
  disposition :: string
  disp_note :: "string option"
  sub_item_dispositions :: "(string \<times> string) list"
  evidence_requirement_ids :: "string list"

text \<open>\<open>if note not in notes: notes.append(note)\<close>.\<close>

definition add_note :: "string \<Rightarrow> string list \<Rightarrow> string list" where
  "add_note nt ns = (if nt \<in> set ns then ns else ns @ [nt])"

text \<open>The map a Python dict built from pairs looks up: a later pair wins.\<close>

definition dict_of :: "(string \<times> 'v) list \<Rightarrow> string \<rightharpoonup> 'v" where
  "dict_of kvs = map_of (rev kvs)"

definition vote_note :: "review_disposition \<Rightarrow> string" where
  "vote_note d = disp_reviewer d @ '': '' @ the (disp_note d)"

section \<open>The item-level outcome\<close>

record owner_book =
  book_owners :: "string list"
  book_states :: "string \<rightharpoonup> string"
  book_evidence :: "string \<rightharpoonup> string"
  book_outcomes :: "string \<rightharpoonup> string"

definition initial_book :: "item \<Rightarrow> owner_book" where
  "initial_book i =
     \<lparr>book_owners = owners_or_reviewer i,
      book_states = dict_of (if owner_states i \<noteq> [] then owner_states i
                             else map (\<lambda>ow. (ow, ''pending'')) (owners_or_reviewer i)),
      book_evidence = dict_of (owner_evidence i), book_outcomes = dict_of (owner_dispositions i)\<rparr>"

text \<open>One disposition in owner-scoped mode.\<close>

definition book_vote :: "string \<Rightarrow> review_disposition \<Rightarrow> owner_book \<Rightarrow> owner_book" where
  "book_vote same_status d b =
     (let rv = disp_reviewer d;
          b1 = (if disposition d = ''blocking'' \<or> disposition d = same_status then
                  b\<lparr>book_owners := (if rv \<in> set (book_owners b) then book_owners b else book_owners b @ [rv]),
                    book_states := (book_states b)(rv \<mapsto> ''pending''),
                    book_outcomes := (book_outcomes b)(rv \<mapsto> disposition d)\<rparr>
                else if (disposition d = ''resolved'' \<or> disposition d = ''future'') \<and> rv \<in> set (book_owners b) then
                  b\<lparr>book_states := (book_states b)(rv \<mapsto> ''cleared''),
                    book_outcomes := (book_outcomes b)(rv \<mapsto> disposition d)\<rparr>
                else b)
      in if truthy (disp_note d) then b1\<lparr>book_evidence := (book_evidence b1)(rv \<mapsto> the (disp_note d))\<rparr> else b1)"

definition set_defaults :: "string list \<Rightarrow> (string \<rightharpoonup> string) \<Rightarrow> string \<rightharpoonup> string" where
  "set_defaults owners m = (\<lambda>ow. if ow \<in> set owners \<and> m ow = None then Some ''pending'' else m ow)"

definition owner_scoped_book :: "string \<Rightarrow> review_disposition list \<Rightarrow> item \<Rightarrow> owner_book" where
  "owner_scoped_book same_status ds i =
     (let b = fold (book_vote same_status) ds (initial_book i); owners = dict_fromkeys (book_owners b)
      in b\<lparr>book_owners := owners, book_states := set_defaults owners (book_states b)\<rparr>)"

definition bare_vote_text :: "review_disposition \<Rightarrow> string" where
  "bare_vote_text d =
     disp_reviewer d @ '': saved review kept this item '' @ disposition d
     @ '' without an item-specific explanation. Consult the review summary; do not infer a new claim.''"

definition note_vote :: "string \<Rightarrow> review_disposition \<Rightarrow> string list \<Rightarrow> string list" where
  "note_vote same_status d ns =
     (if truthy (disp_note d) then add_note (vote_note d) ns
      else if same_status = ''same-pr'' \<and> (disposition d = ''blocking'' \<or> disposition d = ''same-pr'')
      then add_note (bare_vote_text d) ns else ns)"

definition book_pairs :: "string list \<Rightarrow> (string \<rightharpoonup> string) \<Rightarrow> (string \<times> string) list" where
  "book_pairs owners m = map (\<lambda>ow. (ow, the (m ow))) (filter (\<lambda>ow. m ow \<noteq> None) owners)"

text \<open>\<open>kept\<close>: \<open>owner_states[owner]\<close> raises \<open>KeyError\<close> for an owner without a state.\<close>

definition kept_item :: "(string \<Rightarrow> string) \<Rightarrow> item \<Rightarrow> owner_book \<Rightarrow> string list \<Rightarrow> string \<Rightarrow> ledger_error + item" where
  "kept_item H i b ns st =
     (case filter (\<lambda>ow. book_states b ow = None) (book_owners b) of
        ow # _ \<Rightarrow> Inl (OwnerKeyError ow)
      | [] \<Rightarrow> mk_item H (i\<lparr>status := st, item_notes := ns, resolution_owners := book_owners b,
                owner_states := map (\<lambda>ow. (ow, the (book_states b ow))) (book_owners b),
                owner_evidence := book_pairs (book_owners b) (book_evidence b),
                owner_dispositions := book_pairs (book_owners b) (book_outcomes b)\<rparr>))"

definition reconcile_reviewer_item ::
  "(string \<Rightarrow> string) \<Rightarrow> string \<Rightarrow> bool \<Rightarrow> review_disposition list \<Rightarrow> item \<Rightarrow> ledger_error + item option" where
  "reconcile_reviewer_item H same_status scoped ds i =
     (let outcomes = set (map disposition ds);
          b = (if scoped then owner_scoped_book same_status ds i else initial_book i);
          ns = fold (note_vote same_status) ds (item_notes i);
          kept = (\<lambda>st. bindE (kept_item H i b ns st) (\<lambda>j. Inr (Some j)))
      in if ''blocking'' \<in> outcomes then kept ''blocking''
         else if same_status \<in> outcomes then kept same_status
         else if scoped \<and> (\<exists>ow \<in> set (book_owners b). book_states b ow \<noteq> Some ''cleared'') then kept (status i)
         else if ''future'' \<in> outcomes \<or> Some ''future'' \<in> range (book_outcomes b) then kept ''future''
         else Inr None)"

section \<open>Sub-items\<close>

record cleared_progress =
  cleared_item_id :: string
  cleared_resolved :: nat
  cleared_total :: nat
  cleared_cause :: string
  cleared_round :: "int option"
  closed_sub_item_ids :: "string list"

definition entry_completes_sub_items :: "review_disposition \<Rightarrow> string list \<Rightarrow> string \<Rightarrow> bool" where
  "entry_completes_sub_items d open_ids same_status =
     (if \<not> (disposition d = ''blocking'' \<or> disposition d = same_status) \<or> open_ids = [] then False
      else let mapped = dict_of (sub_item_dispositions d) in
        if \<exists>k \<in> set (map fst (sub_item_dispositions d)). mapped k = Some ''unresolved'' then False
        else \<forall>k \<in> set open_ids. mapped k = Some ''resolved'')"

definition sub_item_count :: "sub_item list \<Rightarrow> nat \<times> nat" where
  "sub_item_count subs = (length (filter (\<lambda>s. sub_status s = ''resolved'') subs), length subs)"

definition in_quotes :: "string \<Rightarrow> string" where
  "in_quotes s = [CHR 0x22] @ s @ [CHR 0x22]"

definition in_ticks :: "string \<Rightarrow> string" where
  "in_ticks s = [CHR 0x60] @ s @ [CHR 0x60]"

text \<open>\<open>enumerate(xs)\<close>.\<close>

definition enumerated :: "'a list \<Rightarrow> (nat \<times> 'a) list" where
  "enumerated xs = zip [0..<length xs] xs"

definition open_disposition :: "string \<Rightarrow> review_disposition \<Rightarrow> bool" where
  "open_disposition same_status d \<longleftrightarrow> disposition d = ''blocking'' \<or> disposition d = same_status"

text \<open>
  The states after the round that the explanation judges pending owners by: an owner that
  resolved or deferred the item in this round has concurred.
\<close>

definition post_round_states :: "string list \<Rightarrow> review_disposition list \<Rightarrow> (string \<rightharpoonup> string) \<Rightarrow> string \<rightharpoonup> string" where
  "post_round_states owners ds m =
     fold (\<lambda>d s. if (disposition d = ''resolved'' \<or> disposition d = ''future'') \<and> disp_reviewer d \<in> set owners
                 then s(disp_reviewer d \<mapsto> ''cleared'') else s) ds m"

definition completion_explanation ::
  "item \<Rightarrow> sub_item \<Rightarrow> review_disposition \<Rightarrow> review_disposition list \<Rightarrow> string \<Rightarrow> bool \<Rightarrow> nat set
     \<Rightarrow> (string \<Rightarrow> string list) \<Rightarrow> string" where
  "completion_explanation i sub d ds same_status scoped derived reopeners =
     (let prefix = ''completion of '' @ item_id i @ '' did not take effect: sub-item ''
            @ sub_item_id sub @ '' ('' @ in_quotes (sub_text sub) @ '') remains open because '';
          reopened_by = filter (\<lambda>rv. rv \<noteq> disp_reviewer d) (reopeners (sub_item_id sub));
          others = filter (\<lambda>(n, o'). n \<notin> derived \<and> disp_reviewer o' \<noteq> disp_reviewer d
                     \<and> open_disposition same_status o') (enumerated ds);
          owners = owners_or_reviewer i;
          states = post_round_states owners ds (book_states (initial_book i))
      in if reopened_by \<noteq> [] then prefix @ hd reopened_by @ '' reopened it''
         else if others \<noteq> [] then
           (let o' = snd (hd others);
                quoted = join '' '' (py_words (case disp_note o' of None \<Rightarrow> [] | Some s \<Rightarrow> s))
            in prefix @ disp_reviewer o' @ '' kept item-level '' @ disposition o'
               @ (if quoted \<noteq> [] then '': '' @ in_quotes quoted else '' without an item-specific note''))
         else if scoped \<and> (\<exists>ow \<in> set owners. ow \<noteq> disp_reviewer d \<and> states ow \<noteq> Some ''cleared'') then
           prefix @ ''pending owner ''
           @ hd (filter (\<lambda>ow. ow \<noteq> disp_reviewer d \<and> states ow \<noteq> Some ''cleared'') owners)
           @ '' has not concurred''
         else if scoped \<and> disp_reviewer d \<notin> set owners then
           prefix @ disp_reviewer d @ '' became an owner this round and its own item-level ''
           @ disposition d @ '' entry keeps the item pending; send item-level ''
           @ in_ticks ''resolved'' @ '' once the remaining sub-item is confirmed''
         else prefix @ ''another reviewer has not concurred'')"

definition sub_vote_eligible :: "string \<Rightarrow> bool \<Rightarrow> item \<Rightarrow> review_disposition \<Rightarrow> bool" where
  "sub_vote_eligible same_status scoped i d \<longleftrightarrow>
     \<not> scoped \<or> disp_reviewer d \<in> set (owners_or_reviewer i) \<or> open_disposition same_status d"

text \<open>Who reopened, and who resolved, a sub-item this round, in order.\<close>

definition sub_voters :: "(string \<Rightarrow> bool) \<Rightarrow> string \<Rightarrow> bool \<Rightarrow> item \<Rightarrow> review_disposition list \<Rightarrow> string \<Rightarrow> string list" where
  "sub_voters P same_status scoped i ds key =
     concat (map (\<lambda>d. map (\<lambda>_. disp_reviewer d)
         (filter (\<lambda>(k, v). k = key \<and> P v) (sub_item_dispositions d)))
       (filter (sub_vote_eligible same_status scoped i) ds))"

definition sub_vote_remarks :: "string \<Rightarrow> bool \<Rightarrow> item \<Rightarrow> review_disposition list \<Rightarrow> string list" where
  "sub_vote_remarks same_status scoped i ds =
     concat (map (\<lambda>d. concat (map (\<lambda>(key, v).
         if key \<notin> set (map sub_item_id (sub_items i)) then
           [item_id i @ '': ignored unknown sub-item key '' @ in_ticks key @ '' from '' @ disp_reviewer d]
         else if \<not> sub_vote_eligible same_status scoped i d then
           [item_id i @ '': ignored '' @ disp_reviewer d @ [CHR 0x27] @ ''s disposition of '' @ in_ticks key
             @ '': only owners may change sub-item status'']
         else []) (sub_item_dispositions d))) ds)"

definition voted_sub_item ::
  "int \<Rightarrow> (string \<Rightarrow> string list) \<Rightarrow> (string \<Rightarrow> string list) \<Rightarrow> sub_item \<Rightarrow> sub_item" where
  "voted_sub_item stamp reopeners resolvers s =
     (if reopeners (sub_item_id s) \<noteq> [] then s\<lparr>sub_status := ''open'', resolved_round := None\<rparr>
      else if resolvers (sub_item_id s) \<noteq> [] \<and> sub_status s = ''open''
      then s\<lparr>sub_status := ''resolved'', resolved_round := Some stamp\<rparr>
      else s)"

definition round_closures ::
  "(string \<Rightarrow> string list) \<Rightarrow> (string \<Rightarrow> string list) \<Rightarrow> sub_item list \<Rightarrow> string list" where
  "round_closures reopeners resolvers subs =
     map sub_item_id (filter (\<lambda>s. reopeners (sub_item_id s) = [] \<and> resolvers (sub_item_id s) \<noteq> []
        \<and> sub_status s = ''open'') subs)"

definition all_resolved :: "sub_item list \<Rightarrow> bool" where
  "all_resolved subs \<longleftrightarrow> (\<forall>s \<in> set subs. sub_status s = ''resolved'')"

definition effective_dispositions ::
  "item \<Rightarrow> string \<Rightarrow> bool \<Rightarrow> review_disposition list \<Rightarrow> (string \<Rightarrow> string list) \<Rightarrow> nat set \<Rightarrow> sub_item list
     \<Rightarrow> nat set \<Rightarrow> review_disposition list" where
  "effective_dispositions i same_status scoped ds reopeners completing subs derived =
     map (\<lambda>(n, d).
        if n \<in> derived then d\<lparr>disposition := ''resolved''\<rparr>
        else if n \<in> completing \<and> \<not> nonblank (case disp_note d of None \<Rightarrow> [] | Some s \<Rightarrow> s)
            \<and> (\<exists>s \<in> set subs. sub_status s = ''open'')
        then d\<lparr>disp_note := Some (completion_explanation i (hd (filter (\<lambda>s. sub_status s = ''open'') subs))
                d ds same_status scoped derived reopeners)\<rparr>
        else d) (enumerated ds)"

definition deferred_text :: "item \<Rightarrow> string \<Rightarrow> string \<Rightarrow> string" where
  "deferred_text i deferred txt =
     ''Orchestrator: deferred closing '' @ deferred @ '' ('' @ in_quotes txt @ ''): '' @ item_id i
     @ '' stays open because another reviewer or pending owner has not concurred, so ''
     @ ''that sub-item stays open.''"

definition is_open_result :: "string \<Rightarrow> item option \<Rightarrow> bool" where
  "is_open_result same_status r =
     (case r of None \<Rightarrow> False | Some j \<Rightarrow> status j = ''blocking'' \<or> status j = same_status)"

definition assertion_text :: string where
  "assertion_text = ''assert result is not None''"

text \<open>What one item contributes to the lists the caller passes in.\<close>

record reconciled =
  outcome :: "item option"
  progress :: "cleared_progress list"
  remarks :: "string list"

text \<open>
  The dispositions that complete the sub-items, by position, and those of them that derive to
  \<open>resolved\<close> when every sub-item is now resolved.
\<close>

definition completing_indexes :: "string \<Rightarrow> bool \<Rightarrow> item \<Rightarrow> review_disposition list \<Rightarrow> nat list" where
  "completing_indexes same_status scoped i ds =
     map fst (filter (\<lambda>(n, d).
        entry_completes_sub_items d
          (map sub_item_id (filter (\<lambda>s. sub_status s = ''open'') (sub_items i))) same_status
        \<and> sub_vote_eligible same_status scoped i d) (enumerated ds))"

definition derivable_indexes :: "string \<Rightarrow> bool \<Rightarrow> item \<Rightarrow> review_disposition list \<Rightarrow> nat list" where
  "derivable_indexes same_status scoped i ds =
     filter (\<lambda>n. \<not> scoped \<or> disp_reviewer (ds ! n) \<in> set (owners_or_reviewer i))
       (completing_indexes same_status scoped i ds)"

definition reopen_sub_item :: "string \<Rightarrow> sub_item list \<Rightarrow> sub_item list" where
  "reopen_sub_item sid subs =
     map (\<lambda>s. if sub_item_id s = sid then s\<lparr>sub_status := ''open'', resolved_round := None\<rparr> else s) subs"

text \<open>The end of the function, where the item stays open with its last closure deferred.\<close>

definition defer_closure ::
  "(string \<Rightarrow> string) \<Rightarrow> string \<Rightarrow> bool \<Rightarrow> review_disposition list \<Rightarrow> item \<Rightarrow> (string \<Rightarrow> string list)
     \<Rightarrow> nat set \<Rightarrow> sub_item list \<Rightarrow> string \<Rightarrow> ledger_error + item \<times> string" where
  "defer_closure H same_status scoped ds i reopeners completing subs deferred =
     (let txt = sub_text (hd (filter (\<lambda>s. sub_item_id s = deferred) (sub_items i)));
          subs2 = reopen_sub_item deferred subs
      in bindE (reconcile_reviewer_item H same_status scoped
             (effective_dispositions i same_status scoped ds reopeners completing subs2 {}) i) (\<lambda>r2.
         case r2 of
           None \<Rightarrow> Inl (LedgerError assertion_text)
         | Some j \<Rightarrow>
             bindE (mk_item H (j\<lparr>item_notes := add_note (deferred_text i deferred txt) (item_notes j)\<rparr>)) (\<lambda>j2.
             bindE (mk_item H (j2\<lparr>sub_items := subs2\<rparr>)) (\<lambda>j3.
             Inr (j3, item_id i @ '': deferred closing '' @ deferred
                 @ '': the item stays open, so its last sub-item stays open too'')))))"

definition reconcile_item_with_sub_items ::
  "(string \<Rightarrow> string) \<Rightarrow> string \<Rightarrow> bool \<Rightarrow> int option \<Rightarrow> review_disposition list \<Rightarrow> item
     \<Rightarrow> ledger_error + reconciled" where
  "reconcile_item_with_sub_items H same_status scoped round_number ds i =
     (if sub_items i = [] then
        bindE (reconcile_reviewer_item H same_status scoped ds i) (\<lambda>r.
        Inr \<lparr>outcome = r, progress = [],
             remarks = (if \<exists>d \<in> set ds. sub_item_dispositions d \<noteq> []
                        then [item_id i @ '': ignored sub-item dispositions for an item without sub-items'']
                        else [])\<rparr>)
      else
        let reopeners = sub_voters (\<lambda>v. v = ''unresolved'') same_status scoped i ds;
            resolvers = sub_voters (\<lambda>v. v \<noteq> ''unresolved'') same_status scoped i ds;
            stamp = (case round_number of None \<Rightarrow> 0 | Some n \<Rightarrow> n);
            subs = map (voted_sub_item stamp reopeners resolvers) (sub_items i);
            closures = round_closures reopeners resolvers (sub_items i);
            completing = set (completing_indexes same_status scoped i ds);
            derived = (if all_resolved subs then set (derivable_indexes same_status scoped i ds) else {});
            notes = sub_vote_remarks same_status scoped i ds
        in bindE (reconcile_reviewer_item H same_status scoped
               (effective_dispositions i same_status scoped ds reopeners completing subs derived) i) (\<lambda>r.
           case r of
             None \<Rightarrow>
               Inr \<lparr>outcome = None,
                 progress = [\<lparr>cleared_item_id = item_id i, cleared_resolved = fst (sub_item_count subs),
                    cleared_total = snd (sub_item_count subs),
                    cleared_cause = (if all_resolved subs then ''all-sub-items-resolved'' else ''item-level-resolved''),
                    cleared_round = round_number, closed_sub_item_ids = closures\<rparr>],
                 remarks = notes\<rparr>
           | Some j \<Rightarrow>
               if \<not> is_open_result same_status r \<or> \<not> (all_resolved subs \<and> closures \<noteq> []) then
                 bindE (mk_item H (j\<lparr>sub_items := subs\<rparr>)) (\<lambda>j2.
                 Inr \<lparr>outcome = Some j2, progress = [], remarks = notes\<rparr>)
               else
                 bindE (defer_closure H same_status scoped ds i reopeners completing subs (last closures)) (\<lambda>(j3, remark).
                 Inr \<lparr>outcome = Some j3, progress = [], remarks = notes @ [remark]\<rparr>)))"

section \<open>Evidence obligations\<close>

definition evidence_clearance_authorized :: "item \<Rightarrow> review_disposition list \<Rightarrow> string list option \<Rightarrow> bool" where
  "evidence_clearance_authorized i ds configured =
     (let conflicting = disp_reviewer ` {d \<in> set ds. disposition d \<noteq> ''resolved''};
          resolved_by = disp_reviewer ` {d \<in> set ds. disposition d = ''resolved''} - conflicting
      in if converted_row_id i \<noteq> None then
           (let owners = set (owners_or_reviewer i);
                required = (case configured of
                    None \<Rightarrow> owners
                  | Some board \<Rightarrow> if owners \<inter> set board \<noteq> {} then owners \<inter> set board else set board)
            in required \<noteq> {} \<and> required \<subseteq> resolved_by)
         else case configured of
             Some board \<Rightarrow>
               if reviewer i \<notin> set board then board \<noteq> [] \<and> set board \<subseteq> resolved_by
               else reviewer i \<in> resolved_by
           | None \<Rightarrow> reviewer i \<in> resolved_by)"

definition vote_notes :: "review_disposition list \<Rightarrow> string list \<Rightarrow> string list" where
  "vote_notes ds ns = fold (\<lambda>d ns. if truthy (disp_note d) then add_note (vote_note d) ns else ns) ds ns"

definition identities :: "item \<Rightarrow> string option list" where
  "identities i = dict_fromkeys (obligation_identity i # map Some (alias_obligation_identities i))"

text \<open>The result of one item: what stays, what becomes future work, and the collected lists.\<close>

record ledger_update =
  kept_items :: "item list"
  future_items :: "item list"
  clearances :: "(string \<times> string) list"
  all_progress :: "cleared_progress list"
  all_remarks :: "string list"

definition keep_only :: "item \<Rightarrow> ledger_update" where
  "keep_only i = \<lparr>kept_items = [i], future_items = [], clearances = [], all_progress = [], all_remarks = []\<rparr>"

definition drop_item :: ledger_update where
  "drop_item = \<lparr>kept_items = [], future_items = [], clearances = [], all_progress = [], all_remarks = []\<rparr>"

definition cleared_text :: "string \<Rightarrow> string list \<Rightarrow> string" where
  "cleared_text head clearers =
     ''Cleared at head '' @ head @ '' by '' @ join '', '' clearers @ '' after signed human evidence.''"

text \<open>The durable record of a cleared row obligation, which a head change can reopen.\<close>

definition tombstone :: "string \<Rightarrow> review_disposition list \<Rightarrow> item \<Rightarrow> item" where
  "tombstone head ds i =
     i\<lparr>status := ''resolved'', lifecycle := Some ''cleared'', candidate_head_sha := Some head,
       owner_states := map (\<lambda>ow. (ow, ''cleared'')) (resolution_owners i),
       item_notes := item_notes i @
         [cleared_text head (sorted_set (map disp_reviewer (filter (\<lambda>d. disposition d = ''resolved'') ds)))]\<rparr>"

definition settle_evidence ::
  "(string \<Rightarrow> string) \<Rightarrow> string option \<Rightarrow> string list option \<Rightarrow> review_disposition list \<Rightarrow> item
     \<Rightarrow> ledger_error + ledger_update" where
  "settle_evidence H response_head configured ds i =
     bindE (mk_item H (i\<lparr>item_notes := vote_notes ds (item_notes i)\<rparr>)) (\<lambda>preserved.
     case response_head of
       None \<Rightarrow> Inr (keep_only preserved)
     | Some head \<Rightarrow>
       if lifecycle i = Some ''evidence_frozen'' \<and> candidate_head_sha i = Some head
          \<and> evidence_clearance_authorized i ds configured
       then
         (let cs = (if truthy (obligation_identity i)
                    then map (\<lambda>v. (the v, head)) (filter truthy (identities i)) else [])
          in if is_row_converted_obligation i then
               bindE (mk_item H (tombstone head ds preserved)) (\<lambda>tomb. Inr ((keep_only tomb)\<lparr>clearances := cs\<rparr>))
             else Inr (drop_item\<lparr>clearances := cs\<rparr>))
       else Inr (keep_only preserved))"

section \<open>The whole ledger\<close>

definition votes_for :: "(string \<rightharpoonup> review_disposition list) \<Rightarrow> item \<Rightarrow> review_disposition list" where
  "votes_for by_item i =
     concat (map (\<lambda>key. case by_item key of None \<Rightarrow> [] | Some ds \<Rightarrow> ds) (item_id i # alias_item_ids i))"

record reconcile_settings =
  same_status :: string
  retain_future :: bool
  reconciliation_mode :: string
  evidence_response_head :: "string option"
  configured_reviewers :: "string list option"
  round_number :: "int option"

definition settle_item ::
  "(string \<Rightarrow> string) \<Rightarrow> reconcile_settings \<Rightarrow> (string \<rightharpoonup> review_disposition list) \<Rightarrow> item
     \<Rightarrow> ledger_error + ledger_update" where
  "settle_item H cfg by_item i =
     (let ds = votes_for by_item i;
          sub_remark = (if (\<exists>d \<in> set ds. sub_item_dispositions d \<noteq> []) \<and> is_machine_obligation i
              then [item_id i @ '': ignored sub-item dispositions for a machine obligation''] else [])
      in if ds = [] \<or> is_inert_ledger_record i then Inr (keep_only i)
         else if is_evidence_obligation i then
           bindE (settle_evidence H (evidence_response_head cfg) (configured_reviewers cfg) ds i) (\<lambda>u.
           Inr (u\<lparr>all_remarks := sub_remark @ all_remarks u\<rparr>))
         else if is_machine_obligation i then
           bindE (mk_item H (i\<lparr>item_notes := vote_notes ds (item_notes i)\<rparr>)) (\<lambda>preserved.
           Inr ((if open_status (status preserved) then keep_only preserved
                 else if status preserved = ''future'' \<and> retain_future cfg then keep_only preserved
                 else if status preserved = ''future'' then drop_item\<lparr>future_items := [preserved]\<rparr>
                 else drop_item)\<lparr>all_remarks := sub_remark\<rparr>))
         else
           bindE (reconcile_item_with_sub_items H (same_status cfg)
               (origin_scope i = Some ''visible-defects'' \<or> reconciliation_mode cfg = ''owner-scoped'')
               (round_number cfg) ds i) (\<lambda>r.
           Inr ((case outcome r of
                   None \<Rightarrow> drop_item
                 | Some j \<Rightarrow> if status j = ''future'' \<and> \<not> retain_future cfg
                             then drop_item\<lparr>future_items := [j]\<rparr> else keep_only j)
                \<lparr>all_progress := progress r, all_remarks := remarks r\<rparr>)))"

definition merge_updates :: "ledger_update list \<Rightarrow> ledger_update" where
  "merge_updates us =
     \<lparr>kept_items = concat (map kept_items us), future_items = concat (map future_items us),
      clearances = concat (map clearances us), all_progress = concat (map all_progress us),
      all_remarks = concat (map all_remarks us)\<rparr>"

definition reconciliation_mode_text :: string where
  "reconciliation_mode_text =
     ''reconciliation_mode must be '' @ in_ticks ''aggregate'' @ '' or '' @ in_ticks ''owner-scoped'' @ ''.''"

definition apply_unresolved_item_dispositions ::
  "(string \<Rightarrow> string) \<Rightarrow> reconcile_settings \<Rightarrow> (string \<rightharpoonup> review_disposition list) \<Rightarrow> item list
     \<Rightarrow> ledger_error + ledger_update" where
  "apply_unresolved_item_dispositions H cfg by_item items =
     guardE (reconciliation_mode cfg \<noteq> ''aggregate'' \<and> reconciliation_mode cfg \<noteq> ''owner-scoped'')
       (LedgerError reconciliation_mode_text)
     (bindE (mapE (settle_item H cfg by_item) items) (\<lambda>us. Inr (merge_updates us)))"

section \<open>Facts on kept items\<close>

text \<open>What reconciliation leaves alone in a record.\<close>

definition same_claim :: "item \<Rightarrow> item \<Rightarrow> bool" where
  "same_claim i j \<longleftrightarrow>
     item_id j = item_id i \<and> item_text j = item_text i \<and> source_round j = source_round i
     \<and> reviewer j = reviewer i \<and> fix_scope j = fix_scope i \<and> evidence_row_ids j = evidence_row_ids i
     \<and> obligation_kind j = obligation_kind i \<and> obligation_identity j = obligation_identity i
     \<and> map sub_item_id (sub_items j) = map sub_item_id (sub_items i)
     \<and> map sub_text (sub_items j) = map sub_text (sub_items i)"

lemma wf_status:
  assumes "wf_item H i" and "st = ''converted'' \<Longrightarrow> status i = ''converted''"
  shows "wf_item H (i\<lparr>status := st\<rparr>)"
proof -
  have "validate_item H (i\<lparr>status := st\<rparr>) = validate_item H i" by (rule validate_item_cong) simp_all
  moreover have "check_machine_fields (i\<lparr>status := st\<rparr>) = Inr () \<longleftrightarrow> check_machine_fields i = Inr ()"
    "machine_record (i\<lparr>status := st\<rparr>) = machine_record i"
    by (simp_all add: check_machine_fields_ok machine_record_def)
  moreover have "check_finding_fields (i\<lparr>status := st\<rparr>) = Inr ()"
    using assms unfolding wf_item_iff check_finding_fields_ok by auto
  ultimately show ?thesis using assms(1) unfolding wf_item_iff by simp
qed

lemma wf_kept:
  "wf_item H i \<Longrightarrow> (st = ''converted'' \<Longrightarrow> status i = ''converted'') \<Longrightarrow>
     wf_item H (i\<lparr>status := st, item_notes := ns, resolution_owners := os, owner_states := sts,
        owner_evidence := evs, owner_dispositions := dps\<rparr>)"
  by (simp only: wf_item_bookkeeping) (rule wf_status)

definition tracked_book :: "owner_book \<Rightarrow> bool" where
  "tracked_book b \<longleftrightarrow> (\<forall>ow \<in> set (book_owners b). book_states b ow \<noteq> None)"

definition owners_tracked :: "item \<Rightarrow> bool" where
  "owners_tracked i \<longleftrightarrow> owner_states i = [] \<or> set (owners_or_reviewer i) \<subseteq> fst ` set (owner_states i)"

lemma dict_of_None [simp]: "dict_of kvs k = None \<longleftrightarrow> k \<notin> fst ` set kvs"
  by (simp add: dict_of_def map_of_eq_None_iff)

lemma kept_item_Inr:
  "kept_item H i b ns st = Inr j \<longleftrightarrow>
     tracked_book b
     \<and> j = i\<lparr>status := st, item_notes := ns, resolution_owners := book_owners b,
            owner_states := map (\<lambda>ow. (ow, the (book_states b ow))) (book_owners b),
            owner_evidence := book_pairs (book_owners b) (book_evidence b),
            owner_dispositions := book_pairs (book_owners b) (book_outcomes b)\<rparr>
     \<and> wf_item H j"
  by (auto simp: kept_item_def tracked_book_def filter_empty_conv mk_item_Inr split: list.splits)

lemma kept_item_ok:
  assumes "tracked_book b" and "wf_item H i" and "st = ''converted'' \<Longrightarrow> status i = ''converted''"
  shows "\<exists>j. kept_item H i b ns st = Inr j"
  using assms wf_kept by (simp add: kept_item_Inr)

lemma kept_item_frame:
  "kept_item H i b ns st = Inr j \<Longrightarrow>
     wf_item H j \<and> status j = st \<and> same_claim i j \<and> sub_items j = sub_items i \<and> item_notes j = ns
     \<and> is_machine_obligation j = is_machine_obligation i \<and> resolution_owners j = book_owners b
     \<and> (book_owners b \<noteq> [] \<longrightarrow> owners_tracked j) \<and> lifecycle j = lifecycle i"
  by (auto simp: kept_item_Inr same_claim_def is_machine_obligation_def owners_tracked_def
      owners_or_reviewer_def image_image)

lemma owners_or_reviewer_ne [simp]: "owners_or_reviewer i \<noteq> []"
  by (simp add: owners_or_reviewer_def)

lemma initial_book_tracked: "owners_tracked i \<Longrightarrow> tracked_book (initial_book i)"
  by (auto simp: tracked_book_def initial_book_def owners_tracked_def comp_def image_image)

lemma owner_scoped_book_tracked: "tracked_book (owner_scoped_book ss ds i)"
  by (auto simp: tracked_book_def owner_scoped_book_def set_defaults_def Let_def)

lemma book_vote_owners: "set (book_owners b) \<subseteq> set (book_owners (book_vote ss d b))"
  by (auto simp: book_vote_def Let_def)

lemma fold_book_owners: "set (book_owners b) \<subseteq> set (book_owners (fold (book_vote ss) ds b))"
proof (induction ds arbitrary: b)
  case (Cons d ds)
  then show ?case using book_vote_owners [of b ss d] by fastforce
qed simp

text \<open>The books a reconciliation reads.\<close>

definition round_book :: "string \<Rightarrow> bool \<Rightarrow> review_disposition list \<Rightarrow> item \<Rightarrow> owner_book" where
  "round_book ss scoped ds i = (if scoped then owner_scoped_book ss ds i else initial_book i)"

lemma round_book_tracked: "owners_tracked i \<Longrightarrow> tracked_book (round_book ss scoped ds i)"
  by (simp add: round_book_def owner_scoped_book_tracked initial_book_tracked)

lemma round_book_owners: "set (owners_or_reviewer i) \<subseteq> set (book_owners (round_book ss scoped ds i))"
  using fold_book_owners [of "initial_book i" ss ds]
  by (simp add: round_book_def owner_scoped_book_def Let_def initial_book_def)

lemma round_book_ne: "book_owners (round_book ss scoped ds i) \<noteq> []"
  using round_book_owners [of i ss scoped ds] owners_or_reviewer_ne [of i]
  by (metis set_empty subset_empty)

lemma reconcile_unfold:
  "reconcile_reviewer_item H ss scoped ds i =
     (let b = round_book ss scoped ds i; ns = fold (note_vote ss) ds (item_notes i);
          kept = (\<lambda>st. bindE (kept_item H i b ns st) (\<lambda>j. Inr (Some j)))
      in if \<exists>d \<in> set ds. disposition d = ''blocking'' then kept ''blocking''
         else if \<exists>d \<in> set ds. disposition d = ss then kept ss
         else if scoped \<and> (\<exists>ow \<in> set (book_owners b). book_states b ow \<noteq> Some ''cleared'') then kept (status i)
         else if (\<exists>d \<in> set ds. disposition d = ''future'') \<or> Some ''future'' \<in> range (book_outcomes b) then kept ''future''
         else Inr None)"
proof -
  have mem: "x \<in> set (map disposition ds) \<longleftrightarrow> (\<exists>d \<in> set ds. disposition d = x)" for x by auto
  show ?thesis
    unfolding reconcile_reviewer_item_def round_book_def Let_def mem by (rule refl)
qed

text \<open>The status a finding ends with, and when it leaves the ledger.\<close>

definition leaves_ledger :: "string \<Rightarrow> bool \<Rightarrow> review_disposition list \<Rightarrow> item \<Rightarrow> bool" where
  "leaves_ledger ss scoped ds i \<longleftrightarrow>
     (\<forall>d \<in> set ds. \<not> open_disposition ss d \<and> disposition d \<noteq> ''future'')
     \<and> (scoped \<longrightarrow> (\<forall>ow \<in> set (book_owners (round_book ss scoped ds i)).
           book_states (round_book ss scoped ds i) ow = Some ''cleared''))
     \<and> Some ''future'' \<notin> range (book_outcomes (round_book ss scoped ds i))"

lemma reconcile_cases:
  assumes wf: "wf_item H i" and tr: "owners_tracked i" and ss: "ss \<noteq> ''converted''"
  shows "leaves_ledger ss scoped ds i \<Longrightarrow> reconcile_reviewer_item H ss scoped ds i = Inr None"
    and "\<not> leaves_ledger ss scoped ds i \<Longrightarrow> \<exists>j. reconcile_reviewer_item H ss scoped ds i = Inr (Some j)"
proof -
  show "leaves_ledger ss scoped ds i \<Longrightarrow> reconcile_reviewer_item H ss scoped ds i = Inr None"
    unfolding reconcile_unfold Let_def leaves_ledger_def open_disposition_def by auto
  have k: "\<exists>j. bindE (kept_item H i (round_book ss scoped ds i) ns st) (\<lambda>j. Inr (Some j)) = Inr (Some j)"
    if "st = ''converted'' \<Longrightarrow> status i = ''converted''" for ns st
    using kept_item_ok [OF round_book_tracked [OF tr] wf that] by (metis bindE_simps(2))
  assume stays: "\<not> leaves_ledger ss scoped ds i"
  let ?b = "round_book ss scoped ds i" and ?ns = "fold (note_vote ss) ds (item_notes i)"
  obtain A B C D where A: "A = (\<exists>d \<in> set ds. disposition d = ''blocking'')"
    and B: "B = (\<exists>d \<in> set ds. disposition d = ss)"
    and C: "C = (scoped \<and> (\<exists>ow \<in> set (book_owners ?b). book_states ?b ow \<noteq> Some ''cleared''))"
    and D: "D = ((\<exists>d \<in> set ds. disposition d = ''future'') \<or> Some ''future'' \<in> range (book_outcomes ?b))"
    by blast
  have "A \<or> B \<or> C \<or> D"
    using stays unfolding leaves_ledger_def open_disposition_def A B C D by blast
  moreover have "reconcile_reviewer_item H ss scoped ds i =
      (let kept = (\<lambda>st. bindE (kept_item H i ?b ?ns st) (\<lambda>j. Inr (Some j)))
       in if A then kept ''blocking'' else if B then kept ss else if C then kept (status i)
          else if D then kept ''future'' else Inr None)"
    unfolding reconcile_unfold Let_def A B C D by (rule refl)
  ultimately show "\<exists>j. reconcile_reviewer_item H ss scoped ds i = Inr (Some j)"
    using k [of "''blocking''" ?ns] k [of ss ?ns] k [of "status i" ?ns] k [of "''future''" ?ns] ss
    unfolding Let_def by (cases A; cases B; cases C; cases D) simp_all
qed

lemma reconcile_Some:
  assumes r: "reconcile_reviewer_item H ss scoped ds i = Inr (Some j)"
  shows "wf_item H j" and "same_claim i j" and "sub_items j = sub_items i"
    and "is_machine_obligation j = is_machine_obligation i" and "owners_tracked j"
    and "item_notes j = fold (note_vote ss) ds (item_notes i)"
    and "set (owners_or_reviewer i) \<subseteq> set (owners_or_reviewer j)"
    and "(\<exists>d \<in> set ds. open_disposition ss d) \<Longrightarrow> status j = ''blocking'' \<or> status j = ss"
proof -
  obtain st where k: "kept_item H i (round_book ss scoped ds i) (fold (note_vote ss) ds (item_notes i)) st = Inr j"
    and st: "(\<exists>d \<in> set ds. open_disposition ss d) \<Longrightarrow> st = ''blocking'' \<or> st = ss"
    using r unfolding reconcile_unfold Let_def open_disposition_def
    by (auto simp: bindE_Inr_iff split: if_splits)
  note f = kept_item_frame [OF k]
  show "wf_item H j" "same_claim i j" "sub_items j = sub_items i"
    "is_machine_obligation j = is_machine_obligation i" "owners_tracked j"
    "item_notes j = fold (note_vote ss) ds (item_notes i)"
    using f round_book_ne by blast+
  show "set (owners_or_reviewer i) \<subseteq> set (owners_or_reviewer j)"
    using f round_book_owners [of i ss scoped ds] by (simp add: owners_or_reviewer_def [of j] round_book_ne)
  show "(\<exists>d \<in> set ds. open_disposition ss d) \<Longrightarrow> status j = ''blocking'' \<or> status j = ss"
    using f st by blast
qed

section \<open>Facts on owners\<close>

definition clears :: "string list \<Rightarrow> string \<Rightarrow> review_disposition \<Rightarrow> bool" where
  "clears owners ow d \<longleftrightarrow>
     ow \<in> set owners \<and> disp_reviewer d = ow \<and> (disposition d = ''resolved'' \<or> disposition d = ''future'')"

lemma book_vote_closed:
  assumes "\<not> open_disposition ss d"
  shows "book_owners (book_vote ss d b) = book_owners b"
    and "book_states (book_vote ss d b) ow
      = (if clears (book_owners b) ow d then Some ''cleared'' else book_states b ow)"
    and "disposition d \<noteq> ''future'' \<Longrightarrow> book_outcomes (book_vote ss d b) ow
      = (if clears (book_owners b) ow d then Some ''resolved'' else book_outcomes b ow)"
  using assms by (auto simp: book_vote_def clears_def open_disposition_def Let_def)

lemma fold_votes_closed:
  assumes "\<forall>d \<in> set ds. \<not> open_disposition ss d"
  shows "book_owners (fold (book_vote ss) ds b) = book_owners b"
    and "book_states (fold (book_vote ss) ds b) ow
      = (if \<exists>d \<in> set ds. clears (book_owners b) ow d then Some ''cleared'' else book_states b ow)"
    and "\<forall>d \<in> set ds. disposition d \<noteq> ''future'' \<Longrightarrow> book_outcomes (fold (book_vote ss) ds b) ow
      = (if \<exists>d \<in> set ds. clears (book_owners b) ow d then Some ''resolved'' else book_outcomes b ow)"
proof -
  show "book_owners (fold (book_vote ss) ds b) = book_owners b"
    using assms by (induction ds arbitrary: b) (simp_all add: book_vote_closed)
  show "book_states (fold (book_vote ss) ds b) ow
      = (if \<exists>d \<in> set ds. clears (book_owners b) ow d then Some ''cleared'' else book_states b ow)"
    using assms by (induction ds arbitrary: b) (simp_all add: book_vote_closed)
  show "book_outcomes (fold (book_vote ss) ds b) ow
      = (if \<exists>d \<in> set ds. clears (book_owners b) ow d then Some ''resolved'' else book_outcomes b ow)"
    if "\<forall>d \<in> set ds. disposition d \<noteq> ''future''"
    using assms that by (induction ds arbitrary: b) (simp_all add: book_vote_closed)
qed

text \<open>When an owner-scoped item leaves the ledger, said without the bookkeeping.\<close>

lemma leaves_scoped_iff:
  "leaves_ledger ss True ds i \<longleftrightarrow>
     (\<forall>d \<in> set ds. \<not> open_disposition ss d \<and> disposition d \<noteq> ''future'')
     \<and> (\<forall>ow \<in> set (owners_or_reviewer i).
          (\<exists>d \<in> set ds. disp_reviewer d = ow \<and> disposition d = ''resolved'')
          \<or> dict_of (owner_states i) ow = Some ''cleared'')
     \<and> (\<forall>ow. dict_of (owner_dispositions i) ow = Some ''future'' \<longrightarrow>
          ow \<in> set (owners_or_reviewer i)
          \<and> (\<exists>d \<in> set ds. disp_reviewer d = ow \<and> disposition d = ''resolved''))"
proof (cases "\<forall>d \<in> set ds. \<not> open_disposition ss d \<and> disposition d \<noteq> ''future''")
  case False
  then show ?thesis by (auto simp: leaves_ledger_def)
next
  case True
  then have no: "\<forall>d \<in> set ds. \<not> open_disposition ss d" and nf: "\<forall>d \<in> set ds. disposition d \<noteq> ''future''"
    by blast+
  note fc = fold_votes_closed [OF no, of "initial_book i"]
  let ?own = "owners_or_reviewer i"
  have cl: "(\<exists>d \<in> set ds. clears ?own ow d) \<longleftrightarrow>
      ow \<in> set ?own \<and> (\<exists>d \<in> set ds. disp_reviewer d = ow \<and> disposition d = ''resolved'')" for ow
    using nf by (auto simp: clears_def)
  have ob: "book_owners (initial_book i) = ?own" by (simp add: initial_book_def)
  have owners: "set (book_owners (round_book ss True ds i)) = set ?own"
    using fc(1) ob by (simp add: round_book_def owner_scoped_book_def Let_def)
  have pend: "dict_of (map (\<lambda>ow. (ow, ''pending'')) os) ow \<noteq> Some ''cleared''" for os ow
    by (auto simp: dict_of_def dest!: map_of_SomeD)
  have init: "book_states (initial_book i) ow = Some ''cleared'' \<longleftrightarrow> dict_of (owner_states i) ow = Some ''cleared''" for ow
    using pend [of ?own ow] by (auto simp: initial_book_def dict_of_def)
  have states: "book_states (round_book ss True ds i) ow = Some ''cleared'' \<longleftrightarrow>
      (\<exists>d \<in> set ds. disp_reviewer d = ow \<and> disposition d = ''resolved'')
      \<or> dict_of (owner_states i) ow = Some ''cleared''" if "ow \<in> set ?own" for ow
  proof -
    have "book_states (round_book ss True ds i) ow = Some ''cleared'' \<longleftrightarrow>
        book_states (fold (book_vote ss) ds (initial_book i)) ow = Some ''cleared''"
      by (simp add: round_book_def owner_scoped_book_def set_defaults_def Let_def)
    then show ?thesis using fc(2) [of ow] cl [of ow] init [of ow] that unfolding ob by auto
  qed
  have outs: "Some ''future'' \<in> range (book_outcomes (round_book ss True ds i)) \<longleftrightarrow>
      (\<exists>ow. dict_of (owner_dispositions i) ow = Some ''future'' \<and> \<not> (\<exists>d \<in> set ds. clears ?own ow d))"
  proof -
    have "book_outcomes (round_book ss True ds i) ow = Some ''future'' \<longleftrightarrow>
        dict_of (owner_dispositions i) ow = Some ''future'' \<and> \<not> (\<exists>d \<in> set ds. clears ?own ow d)" for ow
      using fc(3) [OF nf, of ow] unfolding ob
      by (simp add: round_book_def owner_scoped_book_def Let_def initial_book_def)
    then show ?thesis unfolding image_iff by (metis UNIV_I)
  qed
  show ?thesis
    unfolding leaves_ledger_def owners outs using True states by (auto simp: cl)
qed

lemma leaves_aggregate_iff:
  "leaves_ledger ss False ds i \<longleftrightarrow>
     (\<forall>d \<in> set ds. \<not> open_disposition ss d \<and> disposition d \<noteq> ''future'')
     \<and> (\<forall>ow. dict_of (owner_dispositions i) ow \<noteq> Some ''future'')"
  by (auto simp: leaves_ledger_def round_book_def initial_book_def image_iff) metis+

text \<open>Leaving depends on who voted what, not on the notes.\<close>

lemma leaves_cong:
  assumes "map (\<lambda>d. (disp_reviewer d, disposition d)) ds = map (\<lambda>d. (disp_reviewer d, disposition d)) es"
  shows "leaves_ledger ss scoped ds i \<longleftrightarrow> leaves_ledger ss scoped es i"
proof -
  have key: "(\<exists>d \<in> set xs. P (disp_reviewer d) (disposition d)) \<longleftrightarrow>
      (\<exists>(r, v) \<in> set (map (\<lambda>d. (disp_reviewer d, disposition d)) xs). P r v)" for P xs by auto
  have ex: "(\<exists>d \<in> set ds. P (disp_reviewer d) (disposition d)) \<longleftrightarrow>
      (\<exists>d \<in> set es. P (disp_reviewer d) (disposition d))" for P
    unfolding key [of ds P] key [of es P] assms ..
  have all: "(\<forall>d \<in> set ds. \<not> open_disposition ss d \<and> disposition d \<noteq> ''future'') \<longleftrightarrow>
      (\<forall>d \<in> set es. \<not> open_disposition ss d \<and> disposition d \<noteq> ''future'')"
    using ex [of "\<lambda>r v. v = ''blocking'' \<or> v = ss \<or> v = ''future''"]
    unfolding open_disposition_def by blast
  have res: "(\<exists>d \<in> set ds. disp_reviewer d = ow \<and> disposition d = ''resolved'') \<longleftrightarrow>
      (\<exists>d \<in> set es. disp_reviewer d = ow \<and> disposition d = ''resolved'')" for ow
    using ex [of "\<lambda>r v. r = ow \<and> v = ''resolved''"] .
  show ?thesis by (cases scoped) (simp_all only: leaves_scoped_iff leaves_aggregate_iff all res)
qed

section \<open>Facts on sub-items\<close>

lemma enumerated_snd: "map (f \<circ> snd) (enumerated xs) = map f xs"
  by (simp add: enumerated_def map_map [symmetric] del: map_map)

lemma enumerated_mem: "(n, d) \<in> set (enumerated ds) \<Longrightarrow> n < length ds \<and> d = ds ! n"
  by (auto simp: enumerated_def set_zip)

lemma literal_votes:
  "map (\<lambda>d. (disp_reviewer d, disposition d)) (effective_dispositions i ss scoped ds reopeners completing subs {})
     = map (\<lambda>d. (disp_reviewer d, disposition d)) ds"
proof -
  have "map (\<lambda>d. (disp_reviewer d, disposition d)) (effective_dispositions i ss scoped ds reopeners completing subs {})
      = map ((\<lambda>d. (disp_reviewer d, disposition d)) \<circ> snd) (enumerated ds)"
    by (auto simp: effective_dispositions_def)
  then show ?thesis by (simp only: enumerated_snd)
qed

lemma derivable_open:
  "n \<in> set (derivable_indexes ss scoped i ds) \<Longrightarrow> \<exists>d \<in> set ds. open_disposition ss d"
  by (auto simp: derivable_indexes_def completing_indexes_def entry_completes_sub_items_def
      open_disposition_def dest!: enumerated_mem split: if_splits)

lemma voted_keeps [simp]:
  "sub_item_id (voted_sub_item stamp ro rs s) = sub_item_id s"
  "sub_text (voted_sub_item stamp ro rs s) = sub_text s"
  by (simp_all add: voted_sub_item_def)

lemma voted_status:
  "sub_status s \<in> set SUB_ITEM_STATUSES \<Longrightarrow> sub_status (voted_sub_item stamp ro rs s) \<in> set SUB_ITEM_STATUSES"
  by (simp add: voted_sub_item_def SUB_ITEM_STATUSES_def)

lemma reopen_keeps [simp]:
  "map sub_item_id (reopen_sub_item sid subs) = map sub_item_id subs"
  "map sub_text (reopen_sub_item sid subs) = map sub_text subs"
  by (simp_all add: reopen_sub_item_def)

lemma reopen_not_resolved:
  assumes "sid \<in> set (map sub_item_id subs)" shows "\<not> all_resolved (reopen_sub_item sid subs)"
proof -
  obtain s where "s \<in> set subs" "sub_item_id s = sid" using assms by auto
  then have "s\<lparr>sub_status := ''open'', resolved_round := None\<rparr> \<in> set (reopen_sub_item sid subs)"
    by (force simp: reopen_sub_item_def)
  then show ?thesis by (force simp: all_resolved_def)
qed

lemma owners_or_reviewer_frame [simp]:
  "owners_or_reviewer (j\<lparr>sub_items := subs\<rparr>) = owners_or_reviewer j"
  "owners_or_reviewer (j\<lparr>item_notes := ns\<rparr>) = owners_or_reviewer j"
  "owners_or_reviewer (j\<lparr>item_notes := ns, sub_items := subs\<rparr>) = owners_or_reviewer j"
  by (simp_all add: owners_or_reviewer_def)

text \<open>If every sub-item is resolved now and one was not before, this round closed one.\<close>

lemma closures_ne:
  assumes "all_resolved (map (voted_sub_item stamp ro rs) subs)" and "\<not> all_resolved subs"
    and "\<forall>s \<in> set subs. sub_status s \<in> set SUB_ITEM_STATUSES"
  shows "round_closures ro rs subs \<noteq> []"
proof -
  obtain s where s: "s \<in> set subs" "sub_status s \<noteq> ''resolved''" using assms(2) by (auto simp: all_resolved_def)
  then have "sub_status (voted_sub_item stamp ro rs s) = ''resolved''" and "sub_status s = ''open''"
    using assms(1,3) by (auto simp: all_resolved_def SUB_ITEM_STATUSES_def)
  then have "ro (sub_item_id s) = []" "rs (sub_item_id s) \<noteq> []" "sub_status s = ''open''"
    by (auto simp: voted_sub_item_def split: if_splits)
  with s(1) show ?thesis by (auto simp: round_closures_def filter_empty_conv)
qed

lemma wf_sub_items:
  assumes "wf_item H j" and "\<not> is_machine_obligation j" and "distinct (map sub_item_id subs)"
    and "\<forall>s \<in> set subs. sub_status s \<in> set SUB_ITEM_STATUSES"
  shows "wf_item H (j\<lparr>sub_items := subs\<rparr>)"
proof -
  have "validate_item H (j\<lparr>sub_items := subs\<rparr>) = validate_item H j" by (rule validate_item_cong) simp_all
  moreover have "\<not> machine_record (j\<lparr>sub_items := subs\<rparr>)"
    using assms(1,2) machine_record_iff by (simp add: machine_record_def)
  moreover have "check_finding_fields (j\<lparr>sub_items := subs\<rparr>) = Inr ()"
    using assms unfolding wf_item_iff check_finding_fields_ok by auto
  ultimately show ?thesis using assms(1) unfolding wf_item_iff by simp
qed

lemma wf_add_note: "wf_item H j \<Longrightarrow> mk_item H (j\<lparr>item_notes := ns\<rparr>) = Inr (j\<lparr>item_notes := ns\<rparr>)"
  by (simp add: mk_item_id)

text \<open>What reconciliation promises of an item it keeps.\<close>

definition kept_ok :: "(string \<Rightarrow> string) \<Rightarrow> string \<Rightarrow> item \<Rightarrow> item \<Rightarrow> bool" where
  "kept_ok H ss i j \<longleftrightarrow>
     wf_item H j \<and> same_claim i j \<and> \<not> is_machine_obligation j \<and> owners_tracked j
     \<and> set (owners_or_reviewer i) \<subseteq> set (owners_or_reviewer j)
     \<and> (sub_items i \<noteq> [] \<and> \<not> all_resolved (sub_items i) \<and> (status j = ''blocking'' \<or> status j = ss)
          \<longrightarrow> \<not> all_resolved (sub_items j))"

lemma kept_with_subs:
  assumes wf: "wf_item H i" and nm: "\<not> is_machine_obligation i"
    and r: "reconcile_reviewer_item H ss scoped ds i = Inr (Some j)"
    and ids: "map sub_item_id subs = map sub_item_id (sub_items i)"
    and tx: "map sub_text subs = map sub_text (sub_items i)"
    and st: "\<forall>s \<in> set subs. sub_status s \<in> set SUB_ITEM_STATUSES"
    and inv: "sub_items i \<noteq> [] \<and> \<not> all_resolved (sub_items i)
      \<and> (status j = ''blocking'' \<or> status j = ss) \<longrightarrow> \<not> all_resolved subs"
  shows "mk_item H (j\<lparr>sub_items := subs\<rparr>) = Inr (j\<lparr>sub_items := subs\<rparr>)"
    and "kept_ok H ss i (j\<lparr>sub_items := subs\<rparr>)"
    and "kept_ok H ss i (j\<lparr>item_notes := ns, sub_items := subs\<rparr>)"
proof -
  note f = reconcile_Some(1-5) [OF r] reconcile_Some(7) [OF r]
  have dis: "distinct (map sub_item_id subs)"
    using wf ids by (simp add: wf_item_iff check_finding_fields_ok)
  have nmj: "\<not> is_machine_obligation j" using f(4) nm by simp
  have w: "wf_item H (j\<lparr>sub_items := subs\<rparr>)"
    by (rule wf_sub_items [OF f(1) nmj dis st])
  have w2: "wf_item H (j\<lparr>item_notes := ns, sub_items := subs\<rparr>)"
    by (rule wf_sub_items [OF _ _ dis st]) (use f(1) nmj in \<open>simp_all add: is_machine_obligation_def\<close>)
  show "mk_item H (j\<lparr>sub_items := subs\<rparr>) = Inr (j\<lparr>sub_items := subs\<rparr>)"
    using w by (rule mk_item_id)
  show "kept_ok H ss i (j\<lparr>sub_items := subs\<rparr>)" "kept_ok H ss i (j\<lparr>item_notes := ns, sub_items := subs\<rparr>)"
    using w w2 f(2) nmj f(5,6) ids tx inv
    by (simp_all add: kept_ok_def same_claim_def is_machine_obligation_def owners_tracked_def)
qed

text \<open>The literal dispositions keep an item that the derived ones keep open.\<close>

lemma literal_stays:
  assumes wf: "wf_item H i" and tr: "owners_tracked i" and ss: "ss \<noteq> ''converted''"
    and derived: "derived \<subseteq> set (derivable_indexes ss scoped i ds)"
    and r: "reconcile_reviewer_item H ss scoped
        (effective_dispositions i ss scoped ds reopeners completing subs derived) i = Inr (Some j)"
  shows "\<exists>j2. reconcile_reviewer_item H ss scoped
        (effective_dispositions i ss scoped ds reopeners completing subs2 {}) i = Inr (Some j2)"
proof (rule reconcile_cases(2) [OF wf tr ss], rule notI)
  let ?lit = "effective_dispositions i ss scoped ds reopeners completing subs2 {}"
  assume "leaves_ledger ss scoped ?lit i"
  then have l: "leaves_ledger ss scoped ds i" by (simp only: leaves_cong [OF literal_votes])
  then have "\<not> (\<exists>d \<in> set ds. open_disposition ss d)" by (auto simp: leaves_ledger_def)
  then have "derived = {}" using derived derivable_open by blast
  then have "leaves_ledger ss scoped (effective_dispositions i ss scoped ds reopeners completing subs derived) i"
    using l by (simp only: leaves_cong [OF literal_votes])
  then show False using reconcile_cases(1) [OF wf tr ss] r by simp
qed

lemma defer_closure_ok:
  assumes wf: "wf_item H i" and tr: "owners_tracked i" and ss: "ss \<noteq> ''converted''"
    and nm: "\<not> is_machine_obligation i"
    and derived: "derived \<subseteq> set (derivable_indexes ss scoped i ds)"
    and r: "reconcile_reviewer_item H ss scoped
        (effective_dispositions i ss scoped ds reopeners completing subs derived) i = Inr (Some j)"
    and ids: "map sub_item_id subs = map sub_item_id (sub_items i)"
    and tx: "map sub_text subs = map sub_text (sub_items i)"
    and st: "\<forall>s \<in> set subs. sub_status s \<in> set SUB_ITEM_STATUSES"
    and sid: "sid \<in> set (map sub_item_id (sub_items i))"
  shows "\<exists>j3 remark. defer_closure H ss scoped ds i reopeners completing subs sid = Inr (j3, remark)
    \<and> kept_ok H ss i j3"
proof -
  let ?subs2 = "reopen_sub_item sid subs"
  obtain j2 where r2: "reconcile_reviewer_item H ss scoped
      (effective_dispositions i ss scoped ds reopeners completing ?subs2 {}) i = Inr (Some j2)"
    using literal_stays [OF wf tr ss derived r] by blast
  have st2: "\<forall>s \<in> set ?subs2. sub_status s \<in> set SUB_ITEM_STATUSES"
    using st by (auto simp: reopen_sub_item_def SUB_ITEM_STATUSES_def)
  have open2: "\<not> all_resolved ?subs2" by (rule reopen_not_resolved) (simp only: ids sid)
  have ids2: "map sub_item_id ?subs2 = map sub_item_id (sub_items i)"
    and tx2: "map sub_text ?subs2 = map sub_text (sub_items i)" using ids tx by simp_all
  have kept: "kept_ok H ss i (j2\<lparr>item_notes := ns, sub_items := ?subs2\<rparr>)" for ns
    by (rule kept_with_subs(3) [OF wf nm r2 ids2 tx2 st2]) (use open2 in blast)
  have w: "wf_item H (j2\<lparr>item_notes := ns, sub_items := ?subs2\<rparr>)" for ns
    using kept by (simp add: kept_ok_def)
  have wj: "wf_item H (j2\<lparr>item_notes := ns\<rparr>)" for ns using reconcile_Some(1) [OF r2] by simp
  show ?thesis
    unfolding defer_closure_def Let_def r2
    using kept by (simp add: mk_item_id [OF wj] mk_item_id [OF w])
qed

lemma reconcile_item_ok:
  assumes wf: "wf_item H i" and tr: "owners_tracked i" and ss: "ss \<noteq> ''converted''"
    and nm: "\<not> is_machine_obligation i"
  shows "\<exists>r. reconcile_item_with_sub_items H ss scoped rn ds i = Inr r
    \<and> (\<forall>j. outcome r = Some j \<longrightarrow> kept_ok H ss i j)"
proof (cases "sub_items i = []")
  case True
  obtain r where r: "reconcile_reviewer_item H ss scoped ds i = Inr r"
    using reconcile_cases [OF wf tr ss, of scoped ds] by blast
  have "kept_ok H ss i j" if "r = Some j" for j
    using reconcile_Some [OF r [unfolded that]] nm True by (auto simp: kept_ok_def)
  then show ?thesis using True r by (simp add: reconcile_item_with_sub_items_def)
next
  case False
  define ro where "ro = sub_voters (\<lambda>v. v = ''unresolved'') ss scoped i ds"
  define rs where "rs = sub_voters (\<lambda>v. v \<noteq> ''unresolved'') ss scoped i ds"
  define stamp where "stamp = (case rn of None \<Rightarrow> 0 | Some n \<Rightarrow> n)"
  define subs where "subs = map (voted_sub_item stamp ro rs) (sub_items i)"
  define closures where "closures = round_closures ro rs (sub_items i)"
  define completing where "completing = set (completing_indexes ss scoped i ds)"
  define derived where "derived = (if all_resolved subs then set (derivable_indexes ss scoped i ds) else {})"
  define eff where "eff = effective_dispositions i ss scoped ds ro completing subs derived"
  note defs = ro_def [symmetric] rs_def [symmetric] stamp_def [symmetric] subs_def [symmetric]
    closures_def [symmetric] completing_def [symmetric] derived_def [symmetric] eff_def [symmetric]
  have sts: "\<forall>s \<in> set (sub_items i). sub_status s \<in> set SUB_ITEM_STATUSES"
    using wf by (simp add: wf_item_iff check_finding_fields_ok)
  have st: "\<forall>s \<in> set subs. sub_status s \<in> set SUB_ITEM_STATUSES"
    using sts voted_status by (auto simp: subs_def)
  have ids: "map sub_item_id subs = map sub_item_id (sub_items i)"
    and tx: "map sub_text subs = map sub_text (sub_items i)" by (simp_all add: subs_def comp_def)
  have dsub: "derived \<subseteq> set (derivable_indexes ss scoped i ds)" by (simp add: derived_def)
  have run: "reconcile_item_with_sub_items H ss scoped rn ds i =
      bindE (reconcile_reviewer_item H ss scoped eff i) (\<lambda>r.
        case r of
          None \<Rightarrow>
            Inr \<lparr>outcome = None,
              progress = [\<lparr>cleared_item_id = item_id i, cleared_resolved = fst (sub_item_count subs),
                 cleared_total = snd (sub_item_count subs),
                 cleared_cause = (if all_resolved subs then ''all-sub-items-resolved'' else ''item-level-resolved''),
                 cleared_round = rn, closed_sub_item_ids = closures\<rparr>],
              remarks = sub_vote_remarks ss scoped i ds\<rparr>
        | Some j \<Rightarrow>
            if \<not> is_open_result ss r \<or> \<not> (all_resolved subs \<and> closures \<noteq> []) then
              bindE (mk_item H (j\<lparr>sub_items := subs\<rparr>)) (\<lambda>j2.
              Inr \<lparr>outcome = Some j2, progress = [], remarks = sub_vote_remarks ss scoped i ds\<rparr>)
            else
              bindE (defer_closure H ss scoped ds i ro completing subs (last closures)) (\<lambda>(j3, remark).
              Inr \<lparr>outcome = Some j3, progress = [], remarks = sub_vote_remarks ss scoped i ds @ [remark]\<rparr>))"
    using False by (simp only: reconcile_item_with_sub_items_def Let_def defs if_False simp_thms)
  obtain r where r: "reconcile_reviewer_item H ss scoped eff i = Inr r"
    using reconcile_cases [OF wf tr ss, of scoped eff] by blast
  show ?thesis
  proof (cases r)
    case None
    then show ?thesis using run r by simp
  next
    case (Some j)
    note rj = r [unfolded Some]
    show ?thesis
    proof (cases "\<not> is_open_result ss r \<or> \<not> (all_resolved subs \<and> closures \<noteq> [])")
      case True
      have "sub_items i \<noteq> [] \<and> \<not> all_resolved (sub_items i) \<and> (status j = ''blocking'' \<or> status j = ss)
          \<longrightarrow> \<not> all_resolved subs"
        using True Some closures_ne [OF _ _ sts, of stamp ro rs]
        by (auto simp: is_open_result_def subs_def closures_def)
      from kept_with_subs(1,2) [OF wf nm rj ids tx st this] show ?thesis
        using run r Some True by simp
    next
      case False
      then have "last closures \<in> set closures" by simp
      then have "last closures \<in> set (map sub_item_id (sub_items i))"
        by (auto simp: closures_def round_closures_def)
      from defer_closure_ok [OF wf tr ss nm dsub rj [unfolded eff_def] ids tx st this]
      obtain j3 remark where "defer_closure H ss scoped ds i ro completing subs (last closures) = Inr (j3, remark)"
        and "kept_ok H ss i j3" by blast
      then show ?thesis using run r Some False by simp
    qed
  qed
qed

section \<open>Facts on evidence and the whole ledger\<close>

text \<open>
  Who must have voted \<open>resolved\<close>, unopposed, before a frozen evidence request may be settled at
  the head it is frozen at.
\<close>

definition unopposed :: "review_disposition list \<Rightarrow> string \<Rightarrow> bool" where
  "unopposed ds rv \<longleftrightarrow>
     (\<exists>d \<in> set ds. disp_reviewer d = rv) \<and> (\<forall>d \<in> set ds. disp_reviewer d = rv \<longrightarrow> disposition d = ''resolved'')"

definition clearance_earned :: "reconcile_settings \<Rightarrow> review_disposition list \<Rightarrow> item \<Rightarrow> bool" where
  "clearance_earned cfg ds i \<longleftrightarrow>
     evidence_response_head cfg \<noteq> None \<and> lifecycle i = Some ''evidence_frozen''
     \<and> candidate_head_sha i = evidence_response_head cfg
     \<and> (if converted_row_id i \<noteq> None then
          (case configured_reviewers cfg of
             None \<Rightarrow> \<forall>rv \<in> set (owners_or_reviewer i). unopposed ds rv
           | Some board \<Rightarrow>
               if set (owners_or_reviewer i) \<inter> set board \<noteq> {}
               then \<forall>rv \<in> set (owners_or_reviewer i) \<inter> set board. unopposed ds rv
               else board \<noteq> [] \<and> (\<forall>rv \<in> set board. unopposed ds rv))
        else unopposed ds (reviewer i) \<and> (\<forall>board. configured_reviewers cfg = Some board \<longrightarrow> reviewer i \<in> set board)
             \<or> (\<exists>board. configured_reviewers cfg = Some board \<and> reviewer i \<notin> set board \<and> board \<noteq> []
                  \<and> (\<forall>rv \<in> set board. unopposed ds rv)))"

lemma resolved_unopposed:
  "rv \<in> disp_reviewer ` {d \<in> set ds. disposition d = ''resolved''}
        - disp_reviewer ` {d \<in> set ds. disposition d \<noteq> ''resolved''} \<longleftrightarrow> unopposed ds rv"
  unfolding unopposed_def Diff_iff image_iff mem_Collect_eq Bex_def by blast

lemma authorized_earned:
  "evidence_response_head cfg = Some head \<and> lifecycle i = Some ''evidence_frozen''
     \<and> candidate_head_sha i = Some head \<and> evidence_clearance_authorized i ds (configured_reviewers cfg)
   \<longleftrightarrow> clearance_earned cfg ds i \<and> evidence_response_head cfg = Some head"
proof -
  let ?R = "disp_reviewer ` {d \<in> set ds. disposition d = ''resolved''}
        - disp_reviewer ` {d \<in> set ds. disposition d \<noteq> ''resolved''}"
  have sub: "A \<subseteq> ?R \<longleftrightarrow> (\<forall>rv \<in> A. unopposed ds rv)" for A
    unfolding subset_iff resolved_unopposed by blast
  show ?thesis
    unfolding clearance_earned_def evidence_clearance_authorized_def Let_def sub resolved_unopposed
    by (cases "configured_reviewers cfg") auto
qed

text \<open>What one item contributes, whatever its kind.\<close>

definition settled_ok ::
  "(string \<Rightarrow> string) \<Rightarrow> reconcile_settings \<Rightarrow> (string \<rightharpoonup> review_disposition list) \<Rightarrow> item \<Rightarrow> ledger_update \<Rightarrow> bool" where
  "settled_ok H cfg by_item i u \<longleftrightarrow>
     (\<forall>j \<in> set (kept_items u) \<union> set (future_items u).
        wf_item H j \<and> same_claim i j \<and> is_machine_obligation j = is_machine_obligation i
        \<and> (is_machine_obligation j \<or> owners_tracked j))
     \<and> length (kept_items u) + length (future_items u) \<le> 1
     \<and> (votes_for by_item i = [] \<or> is_inert_ledger_record i \<longrightarrow> kept_items u = [i] \<and> future_items u = [])
     \<and> (is_machine_obligation i \<and> \<not> is_evidence_obligation i \<and> open_status (status i) \<longrightarrow>
          (\<exists>ns. kept_items u = [i\<lparr>item_notes := ns\<rparr>]))
     \<and> (is_evidence_obligation i \<and> \<not> clearance_earned cfg (votes_for by_item i) i \<longrightarrow>
          (\<exists>ns. kept_items u = [i\<lparr>item_notes := ns\<rparr>]))
     \<and> (clearances u \<noteq> [] \<longrightarrow> is_evidence_obligation i \<and> clearance_earned cfg (votes_for by_item i) i)"

lemma same_claim_refl [simp]: "same_claim i i"
  by (simp add: same_claim_def)

lemma same_claim_notes [simp]: "same_claim i (i\<lparr>item_notes := ns\<rparr>)"
  by (simp add: same_claim_def)

lemma is_machine_notes [simp]:
  "is_machine_obligation (i\<lparr>item_notes := ns\<rparr>) = is_machine_obligation i"
  by (simp add: is_machine_obligation_def)

lemma tombstone_ok:
  assumes wf: "wf_item H i" and ev: "is_evidence_obligation i"
    and fz: "lifecycle i = Some ''evidence_frozen''" and head: "candidate_head_sha i = Some head"
  shows "wf_item H (tombstone head ds (i\<lparr>item_notes := ns\<rparr>))"
    and "same_claim i (tombstone head ds (i\<lparr>item_notes := ns\<rparr>))"
    and "is_machine_obligation (tombstone head ds (i\<lparr>item_notes := ns\<rparr>))"
proof -
  have m: "is_machine_obligation i" using ev by (simp add: is_evidence_obligation_def)
  note c = wf_machine(1) [OF wf m]
  have k: "obligation_kind i = Some EVIDENCE_OBLIGATION_KIND" using ev by (simp add: is_evidence_obligation_def)
  have "truthy (candidate_head_sha i)" using c fz k by (simp add: check_machine_fields_ok)
  then have nf: "failed_head_sha i \<noteq> Some head" using c head by (auto simp: check_machine_fields_ok)
  have "wf_item H ((i\<lparr>item_notes := ns\<rparr>)\<lparr>status := ''resolved'', lifecycle := Some ''cleared'',
      candidate_head_sha := Some head\<rparr>)"
    by (rule wf_set_evidence) (use wf ev nf in \<open>auto simp: is_evidence_obligation_def\<close>)
  then show "wf_item H (tombstone head ds (i\<lparr>item_notes := ns\<rparr>))"
    unfolding tombstone_def by (simp only: wf_item_bookkeeping)
  show "same_claim i (tombstone head ds (i\<lparr>item_notes := ns\<rparr>))"
    "is_machine_obligation (tombstone head ds (i\<lparr>item_notes := ns\<rparr>))"
    using m by (simp_all add: tombstone_def same_claim_def is_machine_obligation_def)
qed

lemma settle_evidence_ok:
  assumes wf: "wf_item H i" and ev: "is_evidence_obligation i"
  shows "\<exists>u. settle_evidence H (evidence_response_head cfg) (configured_reviewers cfg) ds i = Inr u
    \<and> (\<forall>j \<in> set (kept_items u). wf_item H j \<and> same_claim i j \<and> is_machine_obligation j)
    \<and> length (kept_items u) \<le> 1 \<and> future_items u = []
    \<and> (\<not> clearance_earned cfg ds i \<longrightarrow> (\<exists>ns. kept_items u = [i\<lparr>item_notes := ns\<rparr>]) \<and> clearances u = [])"
proof -
  let ?p = "i\<lparr>item_notes := vote_notes ds (item_notes i)\<rparr>"
  have m: "is_machine_obligation i" using ev by (simp add: is_evidence_obligation_def)
  have wp: "mk_item H ?p = Inr ?p" by (rule wf_add_note [OF wf])
  have stay: "\<forall>j \<in> set (kept_items (keep_only ?p)). wf_item H j \<and> same_claim i j \<and> is_machine_obligation j"
    using wf m by (simp add: keep_only_def)
  have keep: "settle_evidence H (evidence_response_head cfg) (configured_reviewers cfg) ds i = Inr (keep_only ?p) \<Longrightarrow> ?thesis"
    using stay by (auto simp: keep_only_def)
  show ?thesis
  proof (cases "evidence_response_head cfg")
    case None
    then show ?thesis by (intro keep) (simp add: settle_evidence_def wp)
  next
    case (Some head)
    show ?thesis
    proof (cases "lifecycle i = Some ''evidence_frozen'' \<and> candidate_head_sha i = Some head
        \<and> evidence_clearance_authorized i ds (configured_reviewers cfg)")
      case False
      then show ?thesis by (intro keep) (simp only: settle_evidence_def wp bindE_simps Some option.case if_False simp_thms)
    next
      case True
      then have earned: "clearance_earned cfg ds i" using Some authorized_earned by blast
      note tomb = tombstone_ok [OF wf ev conjunct1 [OF True] conjunct1 [OF conjunct2 [OF True]]]
      show ?thesis
        using True earned m tomb
        by (simp add: settle_evidence_def wp Some mk_item_id keep_only_def drop_item_def del: wf_item_bookkeeping)
    qed
  qed
qed

lemma settle_item_ok:
  assumes wf: "wf_item H i" and tr: "is_machine_obligation i \<or> owners_tracked i"
    and ss: "same_status cfg \<noteq> ''converted''"
  shows "\<exists>u. settle_item H cfg by_item i = Inr u \<and> settled_ok H cfg by_item i u"
proof -
  let ?ds = "votes_for by_item i"
  define sub where "sub = (if (\<exists>d \<in> set ?ds. sub_item_dispositions d \<noteq> []) \<and> is_machine_obligation i
      then [item_id i @ '': ignored sub-item dispositions for a machine obligation''] else [])"
  consider (inert) "?ds = [] \<or> is_inert_ledger_record i"
    | (evid) "\<not> (?ds = [] \<or> is_inert_ledger_record i)" "is_evidence_obligation i"
    | (mach) "\<not> (?ds = [] \<or> is_inert_ledger_record i)" "\<not> is_evidence_obligation i" "is_machine_obligation i"
    | (find) "\<not> (?ds = [] \<or> is_inert_ledger_record i)" "\<not> is_machine_obligation i"
    by (cases "is_machine_obligation i") auto
  then show ?thesis
  proof cases
    case inert
    then have "settle_item H cfg by_item i = Inr (keep_only i)" by (simp add: settle_item_def Let_def)
    moreover have "\<exists>ns. i = i\<lparr>item_notes := ns\<rparr>" by (rule exI [of _ "item_notes i"]) simp
    ultimately show ?thesis using wf tr by (auto simp: settled_ok_def keep_only_def)
  next
    case evid
    have m: "is_machine_obligation i" using evid by (simp add: is_evidence_obligation_def)
    obtain u where u: "settle_evidence H (evidence_response_head cfg) (configured_reviewers cfg) ?ds i = Inr u"
      and ok: "\<forall>j \<in> set (kept_items u). wf_item H j \<and> same_claim i j \<and> is_machine_obligation j"
        "length (kept_items u) \<le> 1" "future_items u = []"
        "\<not> clearance_earned cfg ?ds i \<longrightarrow> (\<exists>ns. kept_items u = [i\<lparr>item_notes := ns\<rparr>]) \<and> clearances u = []"
      using settle_evidence_ok [OF wf evid(2), of cfg ?ds] by blast
    have run: "settle_item H cfg by_item i = Inr (u\<lparr>all_remarks := sub @ all_remarks u\<rparr>)"
      using evid u by (simp add: settle_item_def Let_def sub_def)
    have "settled_ok H cfg by_item i (u\<lparr>all_remarks := sub @ all_remarks u\<rparr>)"
      unfolding settled_ok_def using ok m evid by (auto split: if_splits)
    with run show ?thesis by blast
  next
    case mach
    let ?p = "i\<lparr>item_notes := vote_notes ?ds (item_notes i)\<rparr>"
    have run: "settle_item H cfg by_item i =
        Inr ((if open_status (status i) then keep_only ?p
              else if status i = ''future'' \<and> retain_future cfg then keep_only ?p
              else if status i = ''future'' then drop_item\<lparr>future_items := [?p]\<rparr>
              else drop_item)\<lparr>all_remarks := sub\<rparr>)"
      using mach wf_add_note [OF wf] by (simp add: settle_item_def Let_def sub_def)
    show ?thesis
      unfolding run using mach wf
      by (auto simp: settled_ok_def keep_only_def drop_item_def)
  next
    case find
    let ?scoped = "origin_scope i = Some ''visible-defects'' \<or> reconciliation_mode cfg = ''owner-scoped''"
    have ne: "\<not> is_evidence_obligation i" using find by (simp add: is_evidence_obligation_def)
    obtain r where r: "reconcile_item_with_sub_items H (same_status cfg) ?scoped (round_number cfg) ?ds i = Inr r"
      and ok: "\<forall>j. outcome r = Some j \<longrightarrow> kept_ok H (same_status cfg) i j"
      using reconcile_item_ok [OF wf _ ss find(2)] tr find(2) by blast
    have run: "settle_item H cfg by_item i = Inr ((case outcome r of
           None \<Rightarrow> drop_item
         | Some j \<Rightarrow> if status j = ''future'' \<and> \<not> retain_future cfg
                     then drop_item\<lparr>future_items := [j]\<rparr> else keep_only j)
        \<lparr>all_progress := progress r, all_remarks := remarks r\<rparr>)"
      using find ne r by (simp add: settle_item_def Let_def)
    show ?thesis
    proof (cases "outcome r")
      case None
      then show ?thesis unfolding run using find ne by (auto simp: settled_ok_def drop_item_def)
    next
      case (Some j)
      have "wf_item H j" "same_claim i j" "\<not> is_machine_obligation j" "owners_tracked j"
        using ok Some by (auto simp: kept_ok_def)
      then show ?thesis
        unfolding run using Some find ne by (auto simp: settled_ok_def drop_item_def keep_only_def)
    qed
  qed
qed

text \<open>A ledger that reconciliation can work on: every record passed the constructor, and every
  finding with owner states has one for each of its owners.\<close>

definition sound_ledger :: "(string \<Rightarrow> string) \<Rightarrow> item list \<Rightarrow> bool" where
  "sound_ledger H items \<longleftrightarrow> (\<forall>i \<in> set items. wf_item H i \<and> (is_machine_obligation i \<or> owners_tracked i))"

lemma ex_ledger_sound: "sound_ledger H [ex_finding, ex_ci, ex_evidence]"
  using ex_items_wf by (simp add: sound_ledger_def owners_tracked_def owners_or_reviewer_def ex_finding_def
      is_machine_obligation_def ex_ci_def ex_evidence_def)

section \<open>Properties\<close>

text \<open>C3: The owner-scoped quorum.  A finding without sub-items leaves the ledger exactly when
  nobody blocks it or keeps it open or defers it this round, every owner resolved it, now or in an
  earlier round, and no reviewer's recorded deferral is still in force.  In particular a reviewer who
  is not an owner can never clear it, and one pending owner keeps it.\<close>

theorem owner_scoped_quorum:
  assumes "wf_item H i" and "owners_tracked i" and "ss \<noteq> ''converted''"
  shows "reconcile_reviewer_item H ss True ds i = Inr None \<longleftrightarrow>
     (\<forall>d \<in> set ds. disposition d \<notin> {''blocking'', ss, ''future''})
     \<and> (\<forall>ow \<in> set (owners_or_reviewer i).
          (\<exists>d \<in> set ds. disp_reviewer d = ow \<and> disposition d = ''resolved'')
          \<or> dict_of (owner_states i) ow = Some ''cleared'')
     \<and> (\<forall>ow. dict_of (owner_dispositions i) ow = Some ''future'' \<longrightarrow>
          ow \<in> set (owners_or_reviewer i)
          \<and> (\<exists>d \<in> set ds. disp_reviewer d = ow \<and> disposition d = ''resolved''))"
proof -
  have "reconcile_reviewer_item H ss True ds i = Inr None \<longleftrightarrow> leaves_ledger ss True ds i"
    using reconcile_cases [OF assms, of True ds] by (cases "leaves_ledger ss True ds i") auto
  then show ?thesis unfolding leaves_scoped_iff open_disposition_def by auto
qed

definition ex_vote :: "string \<Rightarrow> string \<Rightarrow> review_disposition" where
  "ex_vote rv verdict = \<lparr>disp_item_id = ''item-1'', disp_reviewer = rv, disposition = verdict,
     disp_note = None, sub_item_dispositions = [], evidence_requirement_ids = []\<rparr>"

theorem owner_scoped_quorum_witness:
  "reconcile_reviewer_item id ''same-pr'' True [ex_vote ''codex'' ''resolved''] ex_finding = Inr None
   \<and> reconcile_reviewer_item id ''same-pr'' True [ex_vote ''claude'' ''resolved''] ex_finding \<noteq> Inr None"
proof -
  have w: "wf_item id ex_finding" and o: "owners_tracked ex_finding"
    using ex_items_wf by (simp_all add: owners_tracked_def owners_or_reviewer_def ex_finding_def)
  have f: "owners_or_reviewer ex_finding = [''codex'']"
    "\<And>ow. dict_of (owner_states ex_finding) ow \<noteq> Some ''cleared''"
    "\<And>ow. dict_of (owner_dispositions ex_finding) ow = None"
    by (simp_all add: owners_or_reviewer_def ex_finding_def dict_of_def)
  show ?thesis
    using owner_scoped_quorum [OF w o, of "''same-pr''" "[ex_vote ''codex'' ''resolved'']"]
      owner_scoped_quorum [OF w o, of "''same-pr''" "[ex_vote ''claude'' ''resolved'']"] f
    by (simp add: ex_vote_def)
qed


definition ex_subs :: "sub_item list" where
  "ex_subs = [\<lparr>sub_item_id = ''a'', sub_text = ''A'', sub_status = ''open'', resolved_round = None\<rparr>,
     \<lparr>sub_item_id = ''b'', sub_text = ''B'', sub_status = ''open'', resolved_round = None\<rparr>]"


text \<open>C1: The whole round.  On a sound ledger, in either of the two modes, applying any dispositions
  succeeds, item by item.  Whatever stays, in the ledger or as future work, is well-formed, keeps its
  name, claim and kind, has a state for each of its owners, and comes from one record.  An open machine obligation
  always stays with nothing but notes changed, so no vote clears it; a record nobody voted on, or an
  inert one, stays as it is; and an evidence obligation leaves, or is recorded as cleared, only when
  it is frozen at the very head of the human response and the reviewers it needs resolved it
  unopposed.\<close>

theorem round_settles_ledger:
  assumes "sound_ledger H items" and "same_status cfg \<noteq> ''converted''"
    and "reconciliation_mode cfg \<in> {''aggregate'', ''owner-scoped''}"
  shows "\<exists>us. apply_unresolved_item_dispositions H cfg by_item items = Inr (merge_updates us)
    \<and> list_all2 (settled_ok H cfg by_item) items us"
proof -
  have "\<exists>us. mapE (settle_item H cfg by_item) items = Inr us \<and> list_all2 (settled_ok H cfg by_item) items us"
    by (rule mapE_exists) (use assms(1,2) settle_item_ok in \<open>auto simp: sound_ledger_def\<close>)
  then show ?thesis using assms(3) by (auto simp: apply_unresolved_item_dispositions_def)
qed

definition ex_settings :: reconcile_settings where
  "ex_settings = \<lparr>same_status = ''same-pr'', retain_future = True, reconciliation_mode = ''aggregate'',
     evidence_response_head = None, configured_reviewers = None, round_number = Some 2\<rparr>"

theorem round_settles_ledger_witness:
  "\<exists>u. apply_unresolved_item_dispositions id ex_settings (\<lambda>_. Some [ex_vote ''codex'' ''resolved''])
        [ex_finding, ex_ci, ex_evidence] = Inr u
      \<and> (\<exists>ns. ex_ci\<lparr>item_notes := ns\<rparr> \<in> set (kept_items u))"
proof -
  obtain us where us: "apply_unresolved_item_dispositions id ex_settings (\<lambda>_. Some [ex_vote ''codex'' ''resolved''])
      [ex_finding, ex_ci, ex_evidence] = Inr (merge_updates us)"
    "list_all2 (settled_ok id ex_settings (\<lambda>_. Some [ex_vote ''codex'' ''resolved''])) [ex_finding, ex_ci, ex_evidence] us"
    using round_settles_ledger [OF ex_ledger_sound [of id], of ex_settings "\<lambda>_. Some [ex_vote ''codex'' ''resolved'']"]
    by (auto simp: ex_settings_def)
  then obtain a b c where "us = [a, b, c]"
    and b: "settled_ok id ex_settings (\<lambda>_. Some [ex_vote ''codex'' ''resolved'']) ex_ci b"
    by (auto simp: list_all2_Cons1)
  moreover have "is_machine_obligation ex_ci" "\<not> is_evidence_obligation ex_ci" "open_status (status ex_ci)"
    by (simp_all add: is_machine_obligation_def is_evidence_obligation_def open_status_def ex_ci_def
        ex_finding_def kind_defs)
  then obtain ns where "kept_items b = [ex_ci\<lparr>item_notes := ns\<rparr>]"
    using b unfolding settled_ok_def by blast
  ultimately have "ex_ci\<lparr>item_notes := ns\<rparr> \<in> set (kept_items (merge_updates us))"
    by (simp add: merge_updates_def)
  with us(1) show ?thesis by blast
qed

end
