(* ===== verification/Ledger_Run.thy ===== *)
theory Ledger_Run
  imports Reconciliation
begin

text \<open>
  The review ledger over a whole run: every operation of the ledger as a step of a relation, and
  what holds in every ledger that a run can reach.  New records take a number no record of the
  ledger has, which is what the callers' running counter gives them.  The loops file findings only
  (machine obligations come from their own operations) and set only the two qualification
  lifecycles.
\<close>

datatype ledger_event = Updates | Clears string | Settles

definition fresh_number :: "nat \<Rightarrow> item list \<Rightarrow> bool" where
  "fresh_number n items \<longleftrightarrow> item_name n \<notin> item_id ` set items"

text \<open>The settings the review and the plan loops pass: \<open>same-pr\<close> or \<open>same-plan\<close>.\<close>

definition loop_settings :: "reconcile_settings \<Rightarrow> bool" where
  "loop_settings cfg \<longleftrightarrow> same_status cfg \<in> {''same-pr'', ''same-plan''}"

inductive ledger_step :: "(string \<Rightarrow> string) \<Rightarrow> ledger_event \<Rightarrow> item list \<Rightarrow> item list \<Rightarrow> bool" for H where
  file_finding: "next_unresolved_item H n rv rnd claim st args = Inr i \<Longrightarrow> fresh_number n items
    \<Longrightarrow> arg_kind args = None \<Longrightarrow> arg_authority args = None
    \<Longrightarrow> ledger_step H Updates items (items @ [i])"
| raise_machine: "upsert_machine_obligation H n kind rnd claim failed items = Inr items' \<Longrightarrow> fresh_number n items
    \<Longrightarrow> ledger_step H Updates items items'"
| new_head: "advance_machine_obligations_for_head H head items = Inr items' \<Longrightarrow> ledger_step H Updates items items'"
| clear_kind: "ledger_step H (Clears kind) items (clear_machine_obligations kind items)"
| set_lifecycle: "set_machine_obligation_lifecycle H kind lc items = Inr items'
    \<Longrightarrow> lc \<in> {''qualification_ready'', ''qualifying''} \<Longrightarrow> ledger_step H Updates items items'"
| freeze: "freeze_evidence_obligations H sha items = Inr items' \<Longrightarrow> ledger_step H Updates items items'"
| release: "release_evidence_freeze H items = Inr items' \<Longrightarrow> ledger_step H Updates items items'"
| convert_row: "upsert_converted_evidence_obligation H n row matrix sha owners rnd why items = Inr (items', j, used)
    \<Longrightarrow> fresh_number n items \<Longrightarrow> ledger_step H Updates items items'"
| move_rows: "apply_residual_row_conversion H ids items = Inr (items', by_row) \<Longrightarrow> ledger_step H Updates items items'"
| settle_round: "apply_unresolved_item_dispositions H cfg by_item items = Inr u \<Longrightarrow> loop_settings cfg
    \<Longrightarrow> ledger_step H Settles items (kept_items u)"

inductive ledger_run :: "(string \<Rightarrow> string) \<Rightarrow> ledger_event list \<Rightarrow> item list \<Rightarrow> item list \<Rightarrow> bool" for H where
  start: "ledger_run H [] items items"
| more: "ledger_run H es items items' \<Longrightarrow> ledger_step H e items' items'' \<Longrightarrow> ledger_run H (es @ [e]) items items''"

inductive_cases ledger_stepE: "ledger_step H e items items'"

section \<open>One record at a time\<close>

definition sound_item :: "(string \<Rightarrow> string) \<Rightarrow> item \<Rightarrow> bool" where
  "sound_item H i \<longleftrightarrow> wf_item H i \<and> (is_machine_obligation i \<or> owners_tracked i)"

lemma sound_ledger_items: "sound_ledger H items \<longleftrightarrow> (\<forall>i \<in> set items. sound_item H i)"
  by (simp add: sound_ledger_def sound_item_def)

text \<open>An obligation that blocks the run: a machine obligation of a kind, not evidence, still open.\<close>

definition blocking_obligation :: "string option \<Rightarrow> item \<Rightarrow> bool" where
  "blocking_obligation k i \<longleftrightarrow>
     is_machine_obligation i \<and> \<not> is_evidence_obligation i \<and> open_status (status i) \<and> obligation_kind i = k"

text \<open>What an update in place keeps.\<close>

definition same_record :: "item \<Rightarrow> item \<Rightarrow> bool" where
  "same_record i j \<longleftrightarrow>
     item_id j = item_id i \<and> is_machine_obligation j = is_machine_obligation i
     \<and> (\<forall>k. blocking_obligation k i \<longrightarrow> blocking_obligation k j)"

lemma same_record_refl [simp]: "same_record i i"
  by (simp add: same_record_def)

lemma machine_fields:
  assumes "authority j = authority i" and "obligation_kind j = obligation_kind i" and "status j = status i"
  shows "is_machine_obligation j = is_machine_obligation i" and "blocking_obligation k j = blocking_obligation k i"
  using assms by (simp_all add: blocking_obligation_def is_machine_obligation_def is_evidence_obligation_def)

definition kept_record :: "(string \<Rightarrow> string) \<Rightarrow> item \<Rightarrow> item \<Rightarrow> bool" where
  "kept_record H i j \<longleftrightarrow> sound_item H j \<and> same_record i j"

lemma kept_record_self: "sound_item H i \<Longrightarrow> kept_record H i i"
  by (simp add: kept_record_def)

lemma kept_machine_record:
  assumes "wf_item H j" and "is_machine_obligation i"
    and "item_id j = item_id i" "authority j = authority i" "obligation_kind j = obligation_kind i" "status j = status i"
  shows "kept_record H i j"
  using assms machine_fields [of j i] by (simp add: kept_record_def sound_item_def same_record_def)

lemma advance_record:
  assumes "advance_item H head i = Inr j" and "sound_item H i"
  shows "kept_record H i j"
proof (cases "is_machine_obligation i")
  case True
  have "wf_item H j \<and> item_id j = item_id i \<and> authority j = authority i \<and> obligation_kind j = obligation_kind i \<and> status j = status i"
    using assms by (auto simp: advance_item_def mk_item_Inr sound_item_def split: if_splits)
  then show ?thesis using True by (intro kept_machine_record) simp_all
next
  case False
  then show ?thesis using assms kept_record_self by (simp add: advance_item_def)
qed

lemma lifecycle_record:
  assumes "(if is_machine_obligation i \<and> P then mk_item H (i\<lparr>lifecycle := lc\<rparr>) else Inr i) = Inr j"
    and "sound_item H i"
  shows "kept_record H i j"
proof (cases "is_machine_obligation i \<and> P")
  case True
  then show ?thesis using assms(1) by (intro kept_machine_record) (auto simp: mk_item_Inr)
next
  case False
  then have "j = i" using assms(1) by (simp only: if_False sum.inject)
  then show ?thesis using assms(2) kept_record_self by simp
qed

lemma candidate_record:
  assumes "(if P then mk_item H (i\<lparr>lifecycle := lc, candidate_head_sha := c\<rparr>) else Inr i) = Inr j"
    and "P \<longrightarrow> is_evidence_obligation i" and "sound_item H i"
  shows "kept_record H i j"
proof (cases P)
  case True
  then show ?thesis using assms(1,2) by (intro kept_machine_record) (auto simp: mk_item_Inr is_evidence_obligation_def)
next
  case False
  then show ?thesis using assms kept_record_self by simp
qed

lemma convert_record:
  assumes "convert_finding H ids i = Inr j" and "sound_item H i"
  shows "kept_record H i j"
proof (cases "is_machine_obligation i")
  case True
  then have "j = i" using assms(1) by (simp add: convert_finding_def newly_converted_def open_finding_def)
  then show ?thesis using assms(2) kept_record_self by simp
next
  case False
  have "wf_item H j \<and> item_id j = item_id i \<and> authority j = authority i \<and> resolution_owners j = resolution_owners i
      \<and> reviewer j = reviewer i \<and> owner_states j = owner_states i \<and> obligation_kind j = obligation_kind i"
    using assms by (auto simp: convert_finding_def Let_def mk_item_Inr sound_item_def split: if_splits)
  then have "owners_tracked j = owners_tracked i" and "wf_item H j" and "item_id j = item_id i"
    and "is_machine_obligation j = is_machine_obligation i"
    by (simp_all only: owners_tracked_def owners_or_reviewer_def is_machine_obligation_def)
  then show ?thesis using assms(2) False
    by (simp add: kept_record_def sound_item_def same_record_def blocking_obligation_def)
qed

section \<open>One step of the whole ledger\<close>

text \<open>A ledger after an update: its records in place, then records under new names.\<close>

definition grown :: "(string \<Rightarrow> string) \<Rightarrow> item list \<Rightarrow> item list \<Rightarrow> bool" where
  "grown H items items' \<longleftrightarrow>
     (\<exists>js new. items' = js @ new \<and> list_all2 (kept_record H) items js
        \<and> (\<forall>j \<in> set new. sound_item H j) \<and> distinct (map item_id new)
        \<and> item_id ` set new \<inter> item_id ` set items = {})"

lemma grown_in_place: "list_all2 (kept_record H) items js \<Longrightarrow> grown H items js"
  unfolding grown_def by (intro exI [of _ js] exI [of _ "[]"]) simp

lemma all_kept: "sound_ledger H items \<Longrightarrow> list_all2 (kept_record H) items items"
  by (simp add: sound_ledger_items list.rel_refl_strong kept_record_self)

lemma grown_by_one:
  assumes "sound_ledger H items" and "sound_item H j" and "item_id j = item_name n" and "fresh_number n items"
  shows "grown H items (items @ [j])"
  unfolding grown_def
  by (intro exI [of _ items] exI [of _ "[j]"])
    (use assms all_kept in \<open>auto simp: fresh_number_def\<close>)

lemma grown_by_mapE:
  assumes "mapE f items = Inr js" and "sound_ledger H items"
    and "\<And>i j. i \<in> set items \<Longrightarrow> f i = Inr j \<Longrightarrow> sound_item H i \<Longrightarrow> kept_record H i j"
  shows "grown H items js"
proof (rule grown_in_place, rule list.rel_mono_strong)
  show "list_all2 (\<lambda>i j. f i = Inr j) items js" using assms(1) by (simp add: mapE_Inr_iff)
  show "kept_record H i j" if "i \<in> set items" "f i = Inr j" for i j
    using that assms(2,3) by (simp add: sound_ledger_items)
qed

lemma kept_ids: "list_all2 (kept_record H) items js \<Longrightarrow> map item_id js = map item_id items"
  by (induction rule: list_all2_induct) (simp_all add: kept_record_def same_record_def)

lemma grown_facts:
  assumes "grown H items items'" and "distinct (map item_id items)"
  shows "sound_ledger H items'" and "distinct (map item_id items')"
    and "i \<in> set items \<Longrightarrow> \<exists>j \<in> set items'. same_record i j"
proof -
  obtain js new where items': "items' = js @ new" and js: "list_all2 (kept_record H) items js"
    and new: "\<forall>j \<in> set new. sound_item H j" "distinct (map item_id new)"
      "item_id ` set new \<inter> item_id ` set items = {}"
    using assms(1) unfolding grown_def by blast
  have "\<forall>j \<in> set js. sound_item H j"
    using js by (auto simp: list_all2_conv_all_nth in_set_conv_nth kept_record_def)
  then show "sound_ledger H items'" using items' new(1) by (auto simp: sound_ledger_items)
  have "item_id ` set js = item_id ` set items" using arg_cong [OF kept_ids [OF js], of set] by simp
  then show "distinct (map item_id items')"
    using items' kept_ids [OF js] assms(2) new by (auto simp: distinct_map)
  show "\<exists>j \<in> set items'. same_record i j" if i: "i \<in> set items"
  proof -
    obtain n where n: "n < length items" "i = items ! n" using i by (auto simp: in_set_conv_nth)
    then have "kept_record H i (js ! n)" and "js ! n \<in> set js"
      using js by (simp_all add: list_all2_conv_all_nth)
    then show ?thesis using items' unfolding kept_record_def by auto
  qed
qed

lemma filed_item:
  assumes "next_unresolved_item H n rv rnd claim st args = Inr i"
  shows "sound_item H i" and "item_id i = item_name n"
proof -
  have "owner_states i = map (\<lambda>ow. (ow, ''pending'')) (resolution_owners i)" "wf_item H i" "item_id i = item_name n"
    using assms unfolding next_unresolved_item_def Let_def mk_item_Inr by simp_all
  then show "sound_item H i" and "item_id i = item_name n"
    by (auto simp: sound_item_def owners_tracked_def owners_or_reviewer_def image_image)
qed

lemma raised_again_kept:
  assumes "mk_item H (raised_again k rnd claim failed i) = Inr j"
    and "is_machine_obligation i" and "obligation_kind i = Some k"
  shows "kept_record H i j"
  using assms by (auto simp: mk_item_Inr kept_record_def sound_item_def same_record_def blocking_obligation_def
      raised_again_def is_machine_obligation_def is_evidence_obligation_def open_status_def)

lemma grown_in_middle:
  assumes "sound_ledger H (us @ i # vs)" and "kept_record H i j"
  shows "grown H (us @ i # vs) (us @ j # vs)"
  by (rule grown_in_place)
    (use assms in \<open>auto simp: sound_ledger_items intro!: list_all2_appendI all_kept\<close>)

lemma raised_grown:
  assumes "upsert_machine_obligation H n kind rnd claim failed items = Inr items'"
    and "sound_ledger H items" and "fresh_number n items"
  shows "grown H items items'"
proof -
  let ?k = "raised_kind kind" and ?f = "raised_head kind failed"
  let ?raise = "\<lambda>i. mk_item H (raised_again ?k rnd claim ?f i)"
  have "kind \<noteq> EVIDENCE_OBLIGATION_KIND" using assms(1) by (auto simp: upsert_machine_obligation_def)
  then have run: "(case replace_first (of_kind ?k) ?raise items of Some r \<Rightarrow> r
      | None \<Rightarrow> bindE (next_unresolved_item H n (machine_reviewer_of ?k) rnd claim ''blocking'' (raised_args ?k ?f))
               (\<lambda>i. Inr (items @ [i]))) = Inr items'"
    using assms(1) unfolding upsert_machine_obligation_def raised_kind_def raised_head_def
      of_kind_def [abs_def] Let_def by simp
  show ?thesis
  proof (cases "replace_first (of_kind ?k) ?raise items")
    case None
    then obtain j where "next_unresolved_item H n (machine_reviewer_of ?k) rnd claim ''blocking'' (raised_args ?k ?f) = Inr j"
      and "items' = items @ [j]" using run by (auto simp: bindE_Inr_iff)
    then show ?thesis using filed_item grown_by_one assms(2,3) by blast
  next
    case (Some r)
    then obtain us i vs where "items = us @ i # vs" "of_kind ?k i" "r = bindE (?raise i) (\<lambda>y. Inr (us @ y # vs))"
      using replace_first_Some [OF Some] by blast
    then show ?thesis using run Some raised_again_kept grown_in_middle assms(2) by (auto simp: bindE_Inr_iff of_kind_def)
  qed
qed

lemma converted_in_grown:
  "upsert_converted_in H identity items = Some (Inr (js, j)) \<Longrightarrow> sound_ledger H items
    \<Longrightarrow> list_all2 (kept_record H) items js"
proof (induction items arbitrary: js j)
  case (Cons i xs)
  have i: "sound_item H i" and xs: "sound_ledger H xs" using Cons.prems(2) by (simp_all add: sound_ledger_items)
  show ?case
  proof (cases "is_evidence_obligation i \<and> obligation_identity i = Some identity")
    case True
    have "kept_record H i (reopened i)" if "wf_item H (reopened i)"
      using that True by (simp add: kept_record_def sound_item_def same_record_def blocking_obligation_def
          reopened_def is_machine_obligation_def is_evidence_obligation_def)
    then show ?thesis using Cons.prems(1) True i kept_record_self all_kept [OF xs]
      by (auto simp: bindE_Inr_iff mk_item_Inr split: if_splits)
  next
    case False
    then obtain js' where "upsert_converted_in H identity xs = Some (Inr (js', j))" "js = i # js'"
      using Cons.prems(1) by (auto simp: bindE_Inr_iff)
    then show ?thesis using Cons.IH xs i kept_record_self by auto
  qed
qed simp

lemma converted_grown:
  assumes "upsert_converted_evidence_obligation H n row matrix sha owners rnd why items = Inr (items', j, used)"
    and "sound_ledger H items" and "fresh_number n items"
  shows "grown H items items'"
proof (cases "upsert_converted_in H (converted_evidence_obligation_identity H row matrix) items")
  case None
  let ?j = "row_obligation H n row matrix sha owners rnd why"
  have "items' = items @ [?j]" and "wf_item H ?j"
    using assms(1) None by (auto simp: upsert_converted_evidence_obligation_def bindE_Inr_iff mk_item_Inr)
  moreover have "is_machine_obligation ?j" and "item_id ?j = item_name n"
    by (simp_all add: row_obligation_def is_machine_obligation_def)
  ultimately show ?thesis using grown_by_one assms(2,3) by (simp add: sound_item_def)
next
  case (Some r)
  then have "r = Inr (items', j)"
    using assms(1) by (auto simp: upsert_converted_evidence_obligation_def bindE_Inr_iff)
  then show ?thesis using Some converted_in_grown assms(2) grown_in_place by blast
qed

lemma update_grows:
  assumes "ledger_step H Updates items items'" and "sound_ledger H items"
  shows "grown H items items'"
  using assms(1)
proof cases
  case (file_finding n rv rnd claim st args i)
  then show ?thesis using filed_item grown_by_one assms(2) by blast
next
  case raise_machine
  then show ?thesis using raised_grown assms(2) by blast
next
  case (new_head head)
  show ?thesis
  proof (cases "head = None \<or> head = Some []")
    case True
    then have "items' = items" using new_head by (auto simp: advance_machine_obligations_for_head_def)
    then show ?thesis using grown_in_place all_kept assms(2) by blast
  next
    case False
    then obtain sha where "head = Some sha" and "sha \<noteq> []" by (cases head) auto
    then have "mapE (advance_item H sha) items = Inr items'"
      using new_head by (simp add: advance_machine_obligations_for_head_def)
    then show ?thesis using grown_by_mapE assms(2) advance_record by blast
  qed
next
  case (set_lifecycle kind lc)
  then have "mapE (\<lambda>i. if is_machine_obligation i \<and> obligation_kind i = Some kind
                then mk_item H (i\<lparr>lifecycle := Some lc\<rparr>) else Inr i) items = Inr items'"
    by (auto simp: set_machine_obligation_lifecycle_def)
  then show ?thesis by (rule grown_by_mapE [OF _ assms(2)]) (rule lifecycle_record)
next
  case (freeze sha)
  show ?thesis
    by (rule grown_by_mapE [OF freeze [unfolded freeze_evidence_obligations_def] assms(2)],
        rule candidate_record) (auto dest: pending_is_evidence)
next
  case release
  show ?thesis
    by (rule grown_by_mapE [OF release [unfolded release_evidence_freeze_def] assms(2)],
        rule candidate_record) auto
next
  case convert_row
  then show ?thesis using converted_grown assms(2) by blast
next
  case (move_rows ids by_row)
  then have "mapE (convert_finding H ids) items = Inr items'"
    by (auto simp: apply_residual_row_conversion_def bindE_Inr_iff)
  then show ?thesis using grown_by_mapE assms(2) convert_record by blast
qed

lemma apart_sets: "x \<notin> C \<Longrightarrow> A \<subseteq> {x} \<Longrightarrow> B \<subseteq> C \<Longrightarrow> A \<inter> B = {}"
  by auto

text \<open>A round: each record leaves at most one behind, under its own name.\<close>

lemma settled_ledger:
  "list_all2 (settled_ok H cfg by_item) items us \<Longrightarrow> distinct (map item_id items) \<Longrightarrow>
     sound_ledger H (concat (map kept_items us))
     \<and> distinct (map item_id (concat (map kept_items us)))
     \<and> item_id ` set (concat (map kept_items us)) \<subseteq> item_id ` set items
     \<and> (\<forall>i \<in> set items. \<forall>k. blocking_obligation k i \<longrightarrow>
          (\<exists>j \<in> set (concat (map kept_items us)). same_record i j))"
proof (induction rule: list_all2_induct)
  case (Cons i items u us)
  have ok: "settled_ok H cfg by_item i u" using Cons.hyps by simp
  have len: "length (kept_items u) \<le> 1" using ok unfolding settled_ok_def by linarith
  have names: "\<forall>j \<in> set (kept_items u). item_id j = item_id i \<and> sound_item H j"
    using ok unfolding settled_ok_def same_claim_def sound_item_def by blast
  have kept: "\<exists>j \<in> set (kept_items u). same_record i j" if b: "blocking_obligation k i" for k
  proof -
    obtain ns where "kept_items u = [i\<lparr>item_notes := ns\<rparr>]"
      using ok b unfolding settled_ok_def blocking_obligation_def by blast
    moreover have "same_record i (i\<lparr>item_notes := ns\<rparr>)"
      by (simp add: same_record_def blocking_obligation_def is_evidence_obligation_def)
    ultimately show ?thesis by simp
  qed
  have d: "distinct (map item_id (kept_items u))"
    using len by (cases "kept_items u") (auto simp: le_Suc_eq)
  have IH: "sound_ledger H (concat (map kept_items us))"
    "distinct (map item_id (concat (map kept_items us)))"
    "item_id ` set (concat (map kept_items us)) \<subseteq> item_id ` set items"
    "\<forall>i \<in> set items. \<forall>k. blocking_obligation k i \<longrightarrow>
       (\<exists>j \<in> set (concat (map kept_items us)). same_record i j)"
    using Cons.IH Cons.prems by simp_all
  have "item_id i \<notin> item_id ` set items" using Cons.prems by simp
  moreover have "item_id ` set (kept_items u) \<subseteq> {item_id i}" using names by auto
  ultimately have apart: "item_id ` set (kept_items u) \<inter> item_id ` set (concat (map kept_items us)) = {}"
    using IH(3) by (intro apart_sets)
  have cat: "concat (map kept_items (u # us)) = kept_items u @ concat (map kept_items us)" by simp
  show ?case
    unfolding cat
  proof (intro conjI)
    show "sound_ledger H (kept_items u @ concat (map kept_items us))"
      using IH(1) names unfolding sound_ledger_items by (simp only: set_append ball_Un) blast
    show "distinct (map item_id (kept_items u @ concat (map kept_items us)))"
      using IH(2) d apart by (simp only: map_append distinct_append set_map)
    show "item_id ` set (kept_items u @ concat (map kept_items us)) \<subseteq> item_id ` set (i # items)"
      using IH(3) names by (simp only: set_append image_Un) auto
    show "\<forall>i' \<in> set (i # items). \<forall>k. blocking_obligation k i' \<longrightarrow>
          (\<exists>j \<in> set (kept_items u @ concat (map kept_items us)). same_record i' j)"
      using IH(4) kept by (simp only: list.set set_append) blast
  qed
qed (simp add: sound_ledger_items)

text \<open>Every step keeps a sound ledger with names of its own; what it may drop.\<close>

lemma step_facts:
  assumes step: "ledger_step H e items items'" and sound: "sound_ledger H items" and d: "distinct (map item_id items)"
  shows "sound_ledger H items'" and "distinct (map item_id items')"
    and "i \<in> set items \<Longrightarrow> blocking_obligation (Some k) i \<Longrightarrow> e \<noteq> Clears k \<Longrightarrow> \<exists>j \<in> set items'. same_record i j"
    and "i \<in> set items \<Longrightarrow> \<not> is_machine_obligation i \<Longrightarrow> e \<noteq> Settles \<Longrightarrow> \<exists>j \<in> set items'. same_record i j"
proof -
  have "sound_ledger H items' \<and> distinct (map item_id items')
    \<and> (\<forall>i \<in> set items. (blocking_obligation (Some k) i \<and> e \<noteq> Clears k \<or> \<not> is_machine_obligation i \<and> e \<noteq> Settles)
         \<longrightarrow> (\<exists>j \<in> set items'. same_record i j))" for k
  proof (cases e)
    case Updates
    then show ?thesis using grown_facts [OF update_grows d] step sound by blast
  next
    case (Clears kind)
    then have items': "items' = clear_machine_obligations kind items" using step by (auto elim: ledger_stepE)
    have stays: "i \<in> set items'" if "i \<in> set items" "\<not> (is_machine_obligation i \<and> obligation_kind i = Some kind)" for i
      using that items' by (simp add: clear_machine_obligations_def)
    have "sound_ledger H items'" and "distinct (map item_id items')"
      using sound d items' by (auto simp: clear_machine_obligations_def sound_ledger_items distinct_map_filter)
    moreover have "\<exists>j \<in> set items'. same_record i j" if "i \<in> set items"
      "blocking_obligation (Some k) i \<and> e \<noteq> Clears k \<or> \<not> is_machine_obligation i" for i
    proof -
      have "\<not> (is_machine_obligation i \<and> obligation_kind i = Some kind)"
        using that(2) Clears by (auto simp: blocking_obligation_def)
      then show ?thesis using stays that(1) same_record_refl by blast
    qed
    ultimately show ?thesis by blast
  next
    case Settles
    then obtain cfg by_item u where u: "apply_unresolved_item_dispositions H cfg by_item items = Inr u"
      and cfg: "loop_settings cfg" and items': "items' = kept_items u"
      using step by (auto elim: ledger_stepE)
    have "same_status cfg \<noteq> ''converted''" using cfg by (auto simp: loop_settings_def)
    then have all: "\<exists>us. mapE (settle_item H cfg by_item) items = Inr us \<and> list_all2 (settled_ok H cfg by_item) items us"
      by (intro mapE_exists) (use settle_item_ok sound in \<open>auto simp: sound_ledger_def\<close>)
    then obtain us where us: "list_all2 (settled_ok H cfg by_item) items us" and "u = merge_updates us"
      using u by (auto simp: apply_unresolved_item_dispositions_def)
    then have "items' = concat (map kept_items us)" using items' by (simp add: merge_updates_def)
    then show ?thesis using settled_ledger [OF us d] Settles by blast
  qed
  then show "sound_ledger H items'" and "distinct (map item_id items')"
    and "i \<in> set items \<Longrightarrow> blocking_obligation (Some k) i \<Longrightarrow> e \<noteq> Clears k \<Longrightarrow> \<exists>j \<in> set items'. same_record i j"
    and "i \<in> set items \<Longrightarrow> \<not> is_machine_obligation i \<Longrightarrow> e \<noteq> Settles \<Longrightarrow> \<exists>j \<in> set items'. same_record i j"
    by blast+
qed

lemma run_sound:
  "ledger_run H es items items' \<Longrightarrow> sound_ledger H items \<Longrightarrow> distinct (map item_id items)
    \<Longrightarrow> sound_ledger H items' \<and> distinct (map item_id items')"
  by (induction rule: ledger_run.induct) (use step_facts in blast)+

text \<open>What a whole run keeps of one record.\<close>

lemma run_keeps_obligation:
  assumes "ledger_run H es items items'" and "sound_ledger H items" and "distinct (map item_id items)"
    and "i \<in> set items" and "blocking_obligation (Some k) i" and "Clears k \<notin> set es"
  shows "\<exists>j \<in> set items'. same_record i j"
  using assms
proof (induction rule: ledger_run.induct)
  case (start items)
  then show ?case using same_record_refl by blast
next
  case (more es items items' e items'')
  obtain j where j: "j \<in> set items'" "same_record i j" using more by auto
  have "blocking_obligation (Some k) j" using j(2) more.prems(4) by (simp add: same_record_def)
  moreover have "sound_ledger H items'" "distinct (map item_id items')"
    using run_sound [OF more.hyps(1)] more.prems by blast+
  moreover have "e \<noteq> Clears k" using more.prems(5) by auto
  ultimately obtain l where "l \<in> set items''" "same_record j l"
    using step_facts(3) [OF more.hyps(2)] j(1) by blast
  then show ?case using j(2) by (auto simp: same_record_def)
qed

lemma run_keeps_finding:
  assumes "ledger_run H es items items'" and "sound_ledger H items" and "distinct (map item_id items)"
    and "i \<in> set items" and "\<not> is_machine_obligation i" and "Settles \<notin> set es"
  shows "\<exists>j \<in> set items'. same_record i j"
  using assms
proof (induction rule: ledger_run.induct)
  case (start items)
  then show ?case using same_record_refl by blast
next
  case (more es items items' e items'')
  obtain j where j: "j \<in> set items'" "same_record i j" using more by auto
  have "\<not> is_machine_obligation j" using j(2) more.prems(4) by (simp add: same_record_def)
  moreover have "sound_ledger H items'" "distinct (map item_id items')"
    using run_sound [OF more.hyps(1)] more.prems by blast+
  moreover have "e \<noteq> Settles" using more.prems(5) by auto
  ultimately obtain l where "l \<in> set items''" "same_record j l"
    using step_facts(4) [OF more.hyps(2)] j(1) by blast
  then show ?case using j(2) by (auto simp: same_record_def)
qed

section \<open>Properties\<close>


lemma ex_clearing_run: "ledger_run id [Updates, Clears ''github-pr-checks''] [ex_finding] [ex_finding]"
proof -
  have "mapE (advance_item id ''h2'') [ex_finding] = Inr [ex_finding]"
    by (simp add: advance_item_def ex_finding_def is_machine_obligation_def)
  then have "advance_machine_obligations_for_head id (Some ''h2'') [ex_finding] = Inr [ex_finding]"
    by (simp add: advance_machine_obligations_for_head_def)
  then have s1: "ledger_step id Updates [ex_finding] [ex_finding]" by (rule ledger_step.new_head)
  have "clear_machine_obligations ''github-pr-checks'' [ex_finding] = [ex_finding]"
    by (simp add: clear_machine_obligations_def ex_finding_def is_machine_obligation_def)
  then have s2: "ledger_step id (Clears ''github-pr-checks'') [ex_finding] [ex_finding]"
    using ledger_step.clear_kind [where H = id and items = "[ex_finding]" and kind = "''github-pr-checks''"] by simp
  have "ledger_run id ([] @ [Updates]) [ex_finding] [ex_finding]"
    by (rule ledger_run.more [OF ledger_run.start s1])
  from ledger_run.more [OF this s2] show ?thesis by simp
qed




end
