(* ===== verification/Risk_Evidence.thy ===== *)
theory Risk_Evidence
  imports Prelude
begin

text \<open>
  Risk-matrix evidence (\<open>protocol_risk.py\<close>) and the payload checks it is read with
  (\<open>protocol_common.py\<close>): identifiers of rows, the strict parser of a persisted evidence payload
  against an expected matrix identity and row set, the signed references that stand for answered
  rows, and the overlay that turns a referenced row into a verified one.  The parser is modelled
  for the calls that read stored evidence: without a matrix payload and without live test receipts.
  The hash function is the parameter \<open>H\<close>; an error is the text of the raised \<open>AgentLoopError\<close>.
\<close>

datatype payload_error = AgentLoopError string

section \<open>Payload checks\<close>

definition ticks :: "string \<Rightarrow> string" where
  "ticks s = [CHR 0x60] @ s @ [CHR 0x60]"

fun expect_object :: "pyval \<Rightarrow> string \<Rightarrow> payload_error + (string \<times> pyval) list" where
  "expect_object (PDict kvs) context = Inr kvs"
| "expect_object v context = Inl (AgentLoopError (context @ '' must be a JSON object.''))"

definition expect_exact_keys ::
  "(string \<times> pyval) list \<Rightarrow> string \<Rightarrow> string list \<Rightarrow> string list \<Rightarrow> payload_error + unit" where
  "expect_exact_keys kvs context required optional =
     (let keys = map fst kvs;
          missing = sorted_set (filter (\<lambda>k. k \<notin> set keys) required);
          unknown = sorted_set (filter (\<lambda>k. k \<notin> set required \<and> k \<notin> set optional) keys)
      in guardE (missing \<noteq> [])
           (AgentLoopError (context @ '' is missing required field(s): '' @ join '', '' missing))
        (guardE (unknown \<noteq> [])
           (AgentLoopError (context @ '' has unknown field(s): '' @ join '', '' unknown))
        (Inr ())))"

definition expect_non_empty_string :: "pyval \<Rightarrow> string \<Rightarrow> payload_error + string" where
  "expect_non_empty_string v context =
     (case v of
        PStr s \<Rightarrow> guardE (strip s = []) (AgentLoopError (context @ '' must be a non-empty string.''))
                   (Inr (strip s))
      | _ \<Rightarrow> Inl (AgentLoopError (context @ '' must be a string.'')))"

fun string_items :: "string \<Rightarrow> nat \<Rightarrow> pyval list \<Rightarrow> payload_error + string list" where
  "string_items item_context n [] = Inr []"
| "string_items item_context n (v # vs) =
     bindE (expect_non_empty_string v (item_context @ '' at index '' @ nat_str n)) (\<lambda>s.
     bindE (string_items item_context (Suc n) vs) (\<lambda>ss. Inr (s # ss)))"

definition expect_string_list :: "pyval \<Rightarrow> string \<Rightarrow> string \<Rightarrow> payload_error + string list" where
  "expect_string_list v context item_context =
     (case v of
        PList vs \<Rightarrow> string_items item_context 0 vs
      | _ \<Rightarrow> Inl (AgentLoopError (context @ '' must be a JSON array.'')))"

section \<open>Bounds and row identifiers\<close>

definition RISK_MATRIX_MAX_ROWS :: nat where "RISK_MATRIX_MAX_ROWS = 24"
definition RISK_MATRIX_MAX_LIST_ITEMS :: nat where "RISK_MATRIX_MAX_LIST_ITEMS = 12"
definition RISK_MATRIX_MAX_CAVEATS :: nat where "RISK_MATRIX_MAX_CAVEATS = 48"
definition RISK_MATRIX_MAX_FIELD_BYTES :: nat where "RISK_MATRIX_MAX_FIELD_BYTES = 1024"

definition RISK_MATRIX_EVIDENCE_STATUSES :: "string list" where
  "RISK_MATRIX_EVIDENCE_STATUSES =
     [''verified'', ''missing'', ''not-run'', ''blocked'', ''failed'', ''timed-out'',
      ''stale/unverified'', ''incomplete'']"

definition risk_bounded_string :: "pyval \<Rightarrow> string \<Rightarrow> nat \<Rightarrow> payload_error + string" where
  "risk_bounded_string v context max_bytes =
     bindE (expect_non_empty_string v context) (\<lambda>s.
     guardE (utf8_size s > max_bytes)
       (AgentLoopError (context @ '' exceeds the '' @ nat_str max_bytes @ ''-byte bound.'')) (Inr s))"

fun bounded_items :: "string \<Rightarrow> nat \<Rightarrow> string list \<Rightarrow> payload_error + unit" where
  "bounded_items context n [] = Inr ()"
| "bounded_items context n (s # ss) =
     guardE (utf8_size s > RISK_MATRIX_MAX_FIELD_BYTES)
       (AgentLoopError (context @ ''['' @ nat_str n @ ''] exceeds the ''
          @ nat_str RISK_MATRIX_MAX_FIELD_BYTES @ ''-byte bound.''))
     (bounded_items context (Suc n) ss)"

definition risk_bounded_string_list :: "pyval \<Rightarrow> string \<Rightarrow> nat \<Rightarrow> payload_error + string list" where
  "risk_bounded_string_list v context max_items =
     bindE (expect_string_list v context context) (\<lambda>ss.
     guardE (length ss > max_items)
       (AgentLoopError (context @ '' exceeds the '' @ nat_str max_items @ ''-item bound.''))
     (bindE (bounded_items context 0 ss) (\<lambda>_. Inr ss)))"

definition is_upper :: "char \<Rightarrow> bool" where "is_upper c \<longleftrightarrow> 65 \<le> code c \<and> code c \<le> 90"
definition is_lower :: "char \<Rightarrow> bool" where "is_lower c \<longleftrightarrow> 97 \<le> code c \<and> code c \<le> 122"
definition is_digit :: "char \<Rightarrow> bool" where "is_digit c \<longleftrightarrow> 48 \<le> code c \<and> code c \<le> 57"

definition ascii_lower :: "char \<Rightarrow> char" where
  "ascii_lower c = (if is_upper c then char_of (code c + 32) else c)"

definition is_alnum :: "char \<Rightarrow> bool" where
  "is_alnum c \<longleftrightarrow> is_upper c \<or> is_lower c \<or> is_digit c"

definition NAMESPACE_SEPARATORS :: string where "NAMESPACE_SEPARATORS = ''-_.''"
definition RESERVED_FINDING_NAMESPACE_TOKENS :: "string list" where
  "RESERVED_FINDING_NAMESPACE_TOKENS = [''item'', ''finding'', ''review'', ''blocker'']"

definition starts_with_ci :: "string \<Rightarrow> string \<Rightarrow> bool" where
  "starts_with_ci p s \<longleftrightarrow> map ascii_lower (take (length p) s) = p"

text \<open>A token, an optional separator, and a digit next.\<close>

definition digit_follows :: "string \<Rightarrow> bool" where
  "digit_follows s =
     (case s of
        [] \<Rightarrow> False
      | c # cs \<Rightarrow> is_digit c \<or> c \<in> set NAMESPACE_SEPARATORS \<and> (case cs of [] \<Rightarrow> False | d # _ \<Rightarrow> is_digit d))"

definition reserved_finding_at :: "string \<Rightarrow> bool" where
  "reserved_finding_at s \<longleftrightarrow>
     (\<exists>tok \<in> set RESERVED_FINDING_NAMESPACE_TOKENS. starts_with_ci tok s \<and> digit_follows (drop (length tok) s))"

text \<open>The positions after the first: only those right after a separator count.\<close>

fun reserved_after :: "string \<Rightarrow> bool" where
  "reserved_after (c # d # cs) \<longleftrightarrow>
     c \<in> set NAMESPACE_SEPARATORS \<and> reserved_finding_at (d # cs) \<or> reserved_after (d # cs)"
| "reserved_after _ \<longleftrightarrow> False"

definition has_reserved_namespace :: "string \<Rightarrow> bool" where
  "has_reserved_namespace span \<longleftrightarrow>
     starts_with_ci ''hr-'' span \<or> reserved_finding_at span \<or> reserved_after span"

definition is_valid_risk_row_id :: "string \<Rightarrow> bool" where
  "is_valid_risk_row_id s \<longleftrightarrow>
     s \<noteq> [] \<and> is_alnum (hd s) \<and> (\<forall>c \<in> set s. is_alnum c \<or> c \<in> set NAMESPACE_SEPARATORS)
     \<and> \<not> has_reserved_namespace s"

definition validate_risk_row_id :: "pyval \<Rightarrow> string \<Rightarrow> payload_error + string" where
  "validate_risk_row_id v context =
     bindE (risk_bounded_string v context 128) (\<lambda>s.
     guardE (\<not> is_valid_risk_row_id s)
       (AgentLoopError (context
          @ '' must be a matrix-specific identifier and may not resemble a reviewer finding ID.''))
     (Inr s))"

section \<open>Citations and rows\<close>

record citation =
  cite_command :: string
  cite_receipt_id :: string
  cite_claim :: string

fun key_value :: "(string \<times> pyval) list \<Rightarrow> string \<Rightarrow> pyval" where
  "key_value kvs k = py_get (PDict kvs) k"

fun expect_observations :: "string \<Rightarrow> nat \<Rightarrow> pyval list \<Rightarrow> payload_error + citation list" where
  "expect_observations context n [] = Inr []"
| "expect_observations context n (v # vs) =
     (let item_context = context @ ''['' @ nat_str n @ '']'' in
      bindE (expect_object v item_context) (\<lambda>kvs.
      bindE (expect_exact_keys kvs item_context [''command'', ''receipt_id'', ''claim''] []) (\<lambda>_.
      bindE (expect_non_empty_string (key_value kvs ''claim'') (item_context @ ''.claim'')) (\<lambda>claim.
      guardE (claim \<noteq> ''current-result'' \<and> claim \<noteq> ''base-reproduction'')
        (AgentLoopError (item_context @ ''.claim must be '' @ ticks ''current-result'' @ '' or ''
           @ ticks ''base-reproduction'' @ ''.''))
      (bindE (expect_non_empty_string (key_value kvs ''command'') (item_context @ ''.command'')) (\<lambda>cmd.
       bindE (expect_non_empty_string (key_value kvs ''receipt_id'') (item_context @ ''.receipt_id'')) (\<lambda>rid.
       bindE (expect_observations context (Suc n) vs) (\<lambda>rest.
       Inr (\<lparr>cite_command = cmd, cite_receipt_id = rid, cite_claim = claim\<rparr> # rest)))))))))"

definition expect_test_observations :: "pyval \<Rightarrow> string \<Rightarrow> payload_error + citation list" where
  "expect_test_observations v context =
     (case v of
        PList vs \<Rightarrow> expect_observations context 0 vs
      | _ \<Rightarrow> Inl (AgentLoopError (context @ '' must be a JSON array.'')))"

definition EVIDENCE_SOURCE_TOOL_CAPTURED :: string where
  "EVIDENCE_SOURCE_TOOL_CAPTURED = ''tool-captured''"
definition EVIDENCE_SOURCE_OPERATOR_SIGNED :: string where
  "EVIDENCE_SOURCE_OPERATOR_SIGNED = ''operator-signed''"

record evidence_row =
  row_id :: string
  row_status :: string
  test_identifiers :: "string list"
  test_locations :: "string list"
  workflow_path_claim :: string
  outcome_assertions :: "string list"
  forbidden_effect_assertions :: "string list"
  evidence_citations :: "citation list"
  caveats :: "string list"
  evidence_source :: string
  signed_evidence_reference :: "string option"

record matrix_evidence =
  matrix_identity :: string
  evidence_rows :: "evidence_row list"

section \<open>Signed references\<close>

record signed_reference =
  ref_matrix_identity :: string
  ref_row_id :: string
  ref_head :: string
  ref_obligation_identity :: string
  ref_obligation_item_id :: string
  ref_owners :: "string list"
  ref_signed_requirement_ids :: "string list"
  ref_clearing_reviewers :: "string list"
  ref_cleared_round :: int
  reference_id :: string

text \<open>Every field but the identifier, as the digest sees it.\<close>

definition reference_fields :: "signed_reference \<Rightarrow> (string \<times> pyval) list" where
  "reference_fields r =
     [(''version'', PInt 1), (''matrix_identity'', PStr (ref_matrix_identity r)),
      (''row_id'', PStr (ref_row_id r)), (''head'', PStr (ref_head r)),
      (''obligation_identity'', PStr (ref_obligation_identity r)),
      (''obligation_item_id'', PStr (ref_obligation_item_id r)),
      (''owners'', PList (map PStr (ref_owners r))),
      (''signed_requirement_ids'', PList (map PStr (ref_signed_requirement_ids r))),
      (''clearing_reviewers'', PList (map PStr (ref_clearing_reviewers r))),
      (''cleared_round'', PInt (ref_cleared_round r))]"

definition reference_digest :: "(string \<Rightarrow> string) \<Rightarrow> (string \<times> pyval) list \<Rightarrow> string" where
  "reference_digest H fs = H (json_canonical (PDict fs))"

definition build_reference ::
  "(string \<Rightarrow> string) \<Rightarrow> string \<Rightarrow> string \<Rightarrow> string \<Rightarrow> string \<Rightarrow> string \<Rightarrow> string list \<Rightarrow> string list
     \<Rightarrow> string list \<Rightarrow> int \<Rightarrow> signed_reference" where
  "build_reference H matrix row head identity item owners requirements reviewers round =
     (let r = \<lparr>ref_matrix_identity = matrix, ref_row_id = row, ref_head = head,
            ref_obligation_identity = identity, ref_obligation_item_id = item,
            ref_owners = sorted_set owners, ref_signed_requirement_ids = sorted_set requirements,
            ref_clearing_reviewers = sorted_set reviewers, ref_cleared_round = round, reference_id = []\<rparr>
      in r\<lparr>reference_id := reference_digest H (reference_fields r)\<rparr>)"

definition reference_to_payload :: "signed_reference \<Rightarrow> pyval" where
  "reference_to_payload r = PDict (reference_fields r @ [(''reference_id'', PStr (reference_id r))])"

definition REFERENCE_KEYS :: "string list" where
  "REFERENCE_KEYS =
     [''version'', ''matrix_identity'', ''row_id'', ''head'', ''obligation_identity'',
      ''obligation_item_id'', ''owners'', ''signed_requirement_ids'', ''clearing_reviewers'',
      ''cleared_round'', ''reference_id'']"

definition hex64 :: "string \<Rightarrow> bool" where
  "hex64 s \<longleftrightarrow> length s = 64 \<and> (\<forall>c \<in> set s. is_digit c \<or> 97 \<le> code c \<and> code c \<le> 102)"

definition head_token :: "string \<Rightarrow> bool" where
  "head_token s \<longleftrightarrow> s \<noteq> [] \<and> length s \<le> 128 \<and> (\<forall>c \<in> set s. \<not> is_space c \<and> c \<noteq> CHR 0x60)"

definition nonblank_str :: "pyval \<Rightarrow> bool" where
  "nonblank_str v \<longleftrightarrow> (case v of PStr s \<Rightarrow> nonblank s | _ \<Rightarrow> False)"

text \<open>\<open>v == 1\<close>: also true of the boolean \<open>True\<close>.\<close>

definition equals_one :: "pyval \<Rightarrow> bool" where
  "equals_one v \<longleftrightarrow> v = PInt 1 \<or> v = PBool True"

definition sorted_names :: "pyval \<Rightarrow> bool" where
  "sorted_names v \<longleftrightarrow>
     (case v of
        PList vs \<Rightarrow> (\<forall>x \<in> set vs. nonblank_str x) \<and> map the_str vs = sorted_set (map the_str vs)
      | _ \<Rightarrow> False)"

fun the_list :: "pyval \<Rightarrow> pyval list" where
  "the_list (PList vs) = vs"
| "the_list _ = []"

fun the_int :: "pyval \<Rightarrow> int" where
  "the_int (PInt n) = n"
| "the_int _ = 0"

definition reference_from_payload :: "(string \<Rightarrow> string) \<Rightarrow> pyval \<Rightarrow> signed_reference option" where
  "reference_from_payload H v =
     (case v of
        PDict kvs \<Rightarrow>
          (if \<not> equals_one (py_get v ''version'') then None
           else if fst ` set kvs \<noteq> set REFERENCE_KEYS then None
           else if \<exists>k \<in> set [''matrix_identity'', ''row_id'', ''head'', ''obligation_identity'',
                    ''obligation_item_id'', ''reference_id'']. \<not> nonblank_str (py_get v k) then None
           else if \<not> hex64 (the_str (py_get v ''matrix_identity'')) then None
           else if \<not> head_token (the_str (py_get v ''head'')) then None
           else if \<exists>k \<in> set [''owners'', ''signed_requirement_ids'', ''clearing_reviewers''].
                    \<not> sorted_names (py_get v k) then None
           else if the_list (py_get v ''signed_requirement_ids'') = []
                   \<or> the_list (py_get v ''clearing_reviewers'') = [] then None
           else if \<not> (case py_get v ''cleared_round'' of PInt n \<Rightarrow> 1 \<le> n | _ \<Rightarrow> False) then None
           else
             let names = (\<lambda>k. map the_str (the_list (py_get v k)));
                 r = build_reference H (the_str (py_get v ''matrix_identity'')) (the_str (py_get v ''row_id''))
                   (the_str (py_get v ''head'')) (the_str (py_get v ''obligation_identity''))
                   (the_str (py_get v ''obligation_item_id'')) (names ''owners'')
                   (names ''signed_requirement_ids'') (names ''clearing_reviewers'')
                   (the_int (py_get v ''cleared_round''))
             in if PStr (reference_id r) \<noteq> py_get v ''reference_id'' then None else Some r)
      | _ \<Rightarrow> None)"

section \<open>The parser of a stored evidence payload\<close>

definition EVIDENCE_ROW_KEYS :: "string list" where
  "EVIDENCE_ROW_KEYS =
     [''row_id'', ''status'', ''test_identifiers'', ''test_locations'', ''workflow_path_claim'',
      ''outcome_assertions'', ''forbidden_effect_assertions'', ''evidence_citations'']"

definition EVIDENCE_ROW_OPTIONAL :: "string list" where
  "EVIDENCE_ROW_OPTIONAL = [''caveats'', ''evidence_source'', ''signed_evidence_reference'']"

definition has_key :: "(string \<times> pyval) list \<Rightarrow> string \<Rightarrow> bool" where
  "has_key kvs k \<longleftrightarrow> k \<in> fst ` set kvs"

definition key_or_empty :: "(string \<times> pyval) list \<Rightarrow> string \<Rightarrow> pyval" where
  "key_or_empty kvs k = (if has_key kvs k then key_value kvs k else PList [])"

definition bound_reference ::
  "signed_reference list \<Rightarrow> string \<Rightarrow> string \<Rightarrow> string \<Rightarrow> string option \<Rightarrow> bool" where
  "bound_reference trusted rid row identity head =
     (case filter (\<lambda>r. reference_id r = rid) trusted of
        [] \<Rightarrow> False
      | r # _ \<Rightarrow> head \<noteq> None \<and> ref_row_id r = row \<and> ref_matrix_identity r = identity \<and> Some (ref_head r) = head)"

definition parse_operator_signed_row ::
  "(string \<times> pyval) list \<Rightarrow> evidence_row \<Rightarrow> string \<Rightarrow> string \<Rightarrow> signed_reference list option \<Rightarrow> string option
     \<Rightarrow> payload_error + evidence_row" where
  "parse_operator_signed_row kvs row context identity trusted head =
     (case trusted of
        None \<Rightarrow> Inl (AgentLoopError (context @ '' carries evidence provenance; only the orchestrator ''
                   @ ''may label a row operator-signed.''))
      | Some refs \<Rightarrow>
          (case key_value kvs ''signed_evidence_reference'' of
             PStr rid \<Rightarrow>
               guardE (key_value kvs ''evidence_source'' \<noteq> PStr EVIDENCE_SOURCE_OPERATOR_SIGNED)
                 (AgentLoopError (context @ '' has invalid evidence provenance.''))
              (guardE (\<not> bound_reference refs rid (row_id row) identity head)
                 (AgentLoopError (context @ '' names a signed-evidence reference that is not bound to ''
                    @ ''this row, matrix and head.''))
              (guardE (row_status row \<noteq> ''verified'' \<or> evidence_citations row \<noteq> []
                       \<or> outcome_assertions row = [] \<or> forbidden_effect_assertions row = [])
                 (AgentLoopError (context @ '' operator-signed rows must be verified, receipt-free, ''
                    @ ''and carry outcome and forbidden-effect assertions.''))
              (Inr (row\<lparr>evidence_source := EVIDENCE_SOURCE_OPERATOR_SIGNED,
                        signed_evidence_reference := Some rid\<rparr>))))
           | _ \<Rightarrow> Inl (AgentLoopError (context @ '' has invalid evidence provenance.''))))"

definition incomplete_verified :: "evidence_row \<Rightarrow> bool" where
  "incomplete_verified row \<longleftrightarrow>
     row_status row = ''verified''
     \<and> (test_identifiers row = [] \<or> test_locations row = [] \<or> outcome_assertions row = []
        \<or> forbidden_effect_assertions row = [] \<or> evidence_citations row = [])"

text \<open>The fields of one row; \<open>seen\<close> are the row identifiers of the rows before.\<close>

definition parse_row_fields ::
  "string \<Rightarrow> string \<Rightarrow> string list \<Rightarrow> (string \<times> pyval) list \<Rightarrow> payload_error + evidence_row" where
  "parse_row_fields context row_context seen kvs =
     bindE (expect_exact_keys kvs row_context EVIDENCE_ROW_KEYS EVIDENCE_ROW_OPTIONAL) (\<lambda>_.
     bindE (validate_risk_row_id (key_value kvs ''row_id'') (row_context @ ''.row_id'')) (\<lambda>rid.
     guardE (rid \<in> set seen)
       (AgentLoopError (context @ '' maps row '' @ ticks rid @ '' more than once.''))
     (bindE (risk_bounded_string (key_value kvs ''status'') (row_context @ ''.status'') 64) (\<lambda>st.
      guardE (st \<notin> set RISK_MATRIX_EVIDENCE_STATUSES)
        (AgentLoopError (row_context @ ''.status is invalid.''))
     (bindE (risk_bounded_string_list (key_value kvs ''test_identifiers'') (row_context @ ''.test_identifiers'') RISK_MATRIX_MAX_LIST_ITEMS) (\<lambda>tids.
      bindE (risk_bounded_string_list (key_value kvs ''test_locations'') (row_context @ ''.test_locations'') RISK_MATRIX_MAX_LIST_ITEMS) (\<lambda>tlocs.
      bindE (risk_bounded_string (key_value kvs ''workflow_path_claim'') (row_context @ ''.workflow_path_claim'') RISK_MATRIX_MAX_FIELD_BYTES) (\<lambda>wf.
      bindE (risk_bounded_string_list (key_value kvs ''outcome_assertions'') (row_context @ ''.outcome_assertions'') RISK_MATRIX_MAX_LIST_ITEMS) (\<lambda>outs.
      bindE (risk_bounded_string_list (key_value kvs ''forbidden_effect_assertions'') (row_context @ ''.forbidden_effect_assertions'') RISK_MATRIX_MAX_LIST_ITEMS) (\<lambda>forb.
      bindE (expect_test_observations (key_value kvs ''evidence_citations'') (row_context @ ''.evidence_citations'')) (\<lambda>cites.
      bindE (risk_bounded_string_list (key_or_empty kvs ''caveats'') (row_context @ ''.caveats'') RISK_MATRIX_MAX_CAVEATS) (\<lambda>cavs.
      Inr \<lparr>row_id = rid, row_status = st, test_identifiers = tids, test_locations = tlocs,
           workflow_path_claim = wf, outcome_assertions = outs, forbidden_effect_assertions = forb,
           evidence_citations = cites, caveats = cavs, evidence_source = EVIDENCE_SOURCE_TOOL_CAPTURED,
           signed_evidence_reference = None\<rparr>))))))))))))"

definition check_row ::
  "string \<Rightarrow> string \<Rightarrow> signed_reference list option \<Rightarrow> string option \<Rightarrow> (string \<times> pyval) list
     \<Rightarrow> evidence_row \<Rightarrow> payload_error + evidence_row" where
  "check_row row_context identity trusted head kvs row =
     (if has_key kvs ''evidence_source'' \<or> has_key kvs ''signed_evidence_reference''
      then parse_operator_signed_row kvs row row_context identity trusted head
      else guardE (incomplete_verified row)
             (AgentLoopError (row_context @ '' with status '' @ ticks ''verified''
                @ '' must include test identifiers, locations, outcome and forbidden-effect ''
                @ ''assertions, and evidence citations.''))
           (Inr row))"

fun parse_rows ::
  "string \<Rightarrow> string \<Rightarrow> signed_reference list option \<Rightarrow> string option \<Rightarrow> string list \<Rightarrow> nat \<Rightarrow> pyval list
     \<Rightarrow> payload_error + evidence_row list" where
  "parse_rows context identity trusted head seen n [] = Inr []"
| "parse_rows context identity trusted head seen n (v # vs) =
     (let row_context = context @ ''.rows['' @ nat_str n @ '']'' in
      bindE (expect_object v row_context) (\<lambda>kvs.
      bindE (parse_row_fields context row_context seen kvs) (\<lambda>row.
      bindE (check_row row_context identity trusted head kvs row) (\<lambda>checked.
      bindE (parse_rows context identity trusted head (row_id row # seen) (Suc n) vs) (\<lambda>rest.
      Inr (checked # rest))))))"

definition evidence_context :: string where
  "evidence_context = ''risk_test_matrix_evidence''"

definition parse_risk_test_matrix_evidence ::
  "string option \<Rightarrow> string list option \<Rightarrow> signed_reference list option \<Rightarrow> string option \<Rightarrow> pyval
     \<Rightarrow> payload_error + matrix_evidence" where
  "parse_risk_test_matrix_evidence expected_identity expected_row_ids trusted head v =
     (let context = evidence_context in
      bindE (expect_object v context) (\<lambda>kvs.
      bindE (expect_exact_keys kvs context [''matrix_identity'', ''rows''] []) (\<lambda>_.
      bindE (risk_bounded_string (key_value kvs ''matrix_identity'') (context @ ''.matrix_identity'') 128) (\<lambda>identity.
      guardE (\<not> hex64 identity)
        (AgentLoopError (context @ ''.matrix_identity must be a SHA-256 digest.''))
     (guardE (expected_identity \<noteq> None \<and> expected_identity \<noteq> Some identity)
        (AgentLoopError (context @ ''.matrix_identity does not match the delivered approved matrix.''))
     (case key_value kvs ''rows'' of
        PList rows \<Rightarrow>
          guardE (length rows > RISK_MATRIX_MAX_ROWS)
            (AgentLoopError (context @ ''.rows exceeds the '' @ nat_str RISK_MATRIX_MAX_ROWS @ ''-row bound.''))
         (bindE (parse_rows context identity trusted head [] 0 rows) (\<lambda>result.
          let got = map row_id result;
              want = (case expected_row_ids of None \<Rightarrow> got | Some ids \<Rightarrow> ids);
              missing = sorted_set (filter (\<lambda>i. i \<notin> set got) want);
              extra = sorted_set (filter (\<lambda>i. i \<notin> set want) got)
          in guardE (set got \<noteq> set want)
               (AgentLoopError (context @ '' must map every delivered row exactly once (missing=''
                  @ py_repr_val (PList (map PStr missing)) @ '', extra=''
                  @ py_repr_val (PList (map PStr extra)) @ '').''))
             (Inr \<lparr>matrix_identity = identity, evidence_rows = result\<rparr>)))
      | _ \<Rightarrow> Inl (AgentLoopError (context @ ''.rows must be a JSON array.''))))))))"

section \<open>The overlay of signed references\<close>

definition signed_row :: "string \<Rightarrow> signed_reference \<Rightarrow> evidence_row \<Rightarrow> evidence_row" where
  "signed_row head ref row =
     row\<lparr>row_status := ''verified'',
       outcome_assertions := (if outcome_assertions row \<noteq> [] then outcome_assertions row
                              else [''Operator-signed exact-head evidence.'']),
       forbidden_effect_assertions := (if forbidden_effect_assertions row \<noteq> [] then forbidden_effect_assertions row
                              else [''No forbidden effect was reported.'']),
       evidence_citations := [],
       caveats := [''Verified by operator-signed evidence for head '' @ head @ ''.''],
       evidence_source := EVIDENCE_SOURCE_OPERATOR_SIGNED,
       signed_evidence_reference := Some (reference_id ref)\<rparr>"

text \<open>\<open>by_row\<close>: of several references to one row the last one counts.\<close>

definition references_by_row :: "string \<Rightarrow> string \<Rightarrow> signed_reference list \<Rightarrow> string \<rightharpoonup> signed_reference" where
  "references_by_row identity head refs =
     map_of (rev (map (\<lambda>r. (ref_row_id r, r))
       (filter (\<lambda>r. ref_matrix_identity r = identity \<and> ref_head r = head) refs)))"

definition apply_signed_evidence_references ::
  "string \<Rightarrow> string option \<Rightarrow> signed_reference list \<Rightarrow> matrix_evidence \<Rightarrow> matrix_evidence" where
  "apply_signed_evidence_references identity current refs ev =
     (case current of
        None \<Rightarrow> ev
      | Some head \<Rightarrow>
          if head = [] \<or> matrix_identity ev \<noteq> identity then ev
          else ev\<lparr>evidence_rows := map (\<lambda>row.
                 case references_by_row identity head refs (row_id row) of
                   None \<Rightarrow> row
                 | Some ref \<Rightarrow> if row_status row = ''verified'' then row else signed_row head ref row)
               (evidence_rows ev)\<rparr>)"

section \<open>Facts on parsed evidence\<close>

lemma case_PList_Inr:
  "(case v of PNone \<Rightarrow> Inl e | PBool b \<Rightarrow> Inl e | PInt i \<Rightarrow> Inl e | PStr s \<Rightarrow> Inl e | PList xs \<Rightarrow> f xs
     | PTuple ys \<Rightarrow> Inl e | PDict kvs \<Rightarrow> Inl e) = Inr y \<longleftrightarrow> (\<exists>xs. v = PList xs \<and> f xs = Inr y)"
  by (cases v) auto

lemma parse_row_fields_ok:
  assumes "parse_row_fields context row_context seen kvs = Inr row"
  shows "row_id row \<notin> set seen" and "is_valid_risk_row_id (row_id row)"
    and "row_status row \<in> set RISK_MATRIX_EVIDENCE_STATUSES"
    and "evidence_source row = EVIDENCE_SOURCE_TOOL_CAPTURED"
  using assms
  by (auto simp: parse_row_fields_def bindE_Inr_iff validate_risk_row_id_def)

lemma check_row_ok:
  assumes "check_row row_context identity trusted head kvs row = Inr checked"
  shows "row_id checked = row_id row" and "row_status checked = row_status row"
    and "checked = row \<and> \<not> incomplete_verified row
       \<or> evidence_source checked = EVIDENCE_SOURCE_OPERATOR_SIGNED \<and> row_status row = ''verified''
         \<and> (\<exists>refs rid. trusted = Some refs \<and> signed_evidence_reference checked = Some rid
              \<and> bound_reference refs rid (row_id row) identity head)"
  using assms
  by (auto simp: check_row_def parse_operator_signed_row_def split: if_splits option.splits pyval.splits)

text \<open>A row an evidence file may hold.\<close>

definition evidence_row_ok :: "string \<Rightarrow> signed_reference list option \<Rightarrow> string option \<Rightarrow> evidence_row \<Rightarrow> bool" where
  "evidence_row_ok identity trusted head row \<longleftrightarrow>
     is_valid_risk_row_id (row_id row) \<and> row_status row \<in> set RISK_MATRIX_EVIDENCE_STATUSES
     \<and> (evidence_source row = EVIDENCE_SOURCE_TOOL_CAPTURED \<and> \<not> incomplete_verified row
        \<or> evidence_source row = EVIDENCE_SOURCE_OPERATOR_SIGNED \<and> row_status row = ''verified''
          \<and> (\<exists>refs rid. trusted = Some refs \<and> signed_evidence_reference row = Some rid
               \<and> bound_reference refs rid (row_id row) identity head))"

lemma parse_rows_ok:
  "parse_rows context identity trusted head seen n vs = Inr rows \<Longrightarrow>
     distinct (map row_id rows) \<and> set (map row_id rows) \<inter> set seen = {}
     \<and> (\<forall>row \<in> set rows. evidence_row_ok identity trusted head row) \<and> length rows = length vs"
proof (induction vs arbitrary: seen n rows)
  case (Cons v vs)
  from Cons.prems obtain kvs row checked rest where
    row: "parse_row_fields context (context @ ''.rows['' @ nat_str n @ '']'') seen kvs = Inr row"
    and ch: "check_row (context @ ''.rows['' @ nat_str n @ '']'') identity trusted head kvs row = Inr checked"
    and rest: "parse_rows context identity trusted head (row_id row # seen) (Suc n) vs = Inr rest"
    and rows: "rows = checked # rest"
    by (auto simp: bindE_Inr_iff Let_def)
  note r = parse_row_fields_ok [OF row] and c = check_row_ok [OF ch]
  have "evidence_row_ok identity trusted head checked"
    using r c by (auto simp: evidence_row_ok_def)
  with Cons.IH [OF rest] r(1) c(1) rows show ?case by auto
qed simp

section \<open>Facts on references\<close>

definition names_ok :: "string list \<Rightarrow> bool" where
  "names_ok ns \<longleftrightarrow> (\<forall>n \<in> set ns. nonblank n) \<and> ns = sorted_set ns"

definition wf_reference :: "(string \<Rightarrow> string) \<Rightarrow> signed_reference \<Rightarrow> bool" where
  "wf_reference H r \<longleftrightarrow>
     hex64 (ref_matrix_identity r) \<and> nonblank (ref_row_id r) \<and> head_token (ref_head r)
     \<and> nonblank (ref_obligation_identity r) \<and> nonblank (ref_obligation_item_id r)
     \<and> nonblank (reference_id r)
     \<and> names_ok (ref_owners r) \<and> names_ok (ref_signed_requirement_ids r)
     \<and> names_ok (ref_clearing_reviewers r) \<and> ref_signed_requirement_ids r \<noteq> []
     \<and> ref_clearing_reviewers r \<noteq> [] \<and> 1 \<le> ref_cleared_round r
     \<and> reference_id r = reference_digest H (reference_fields r)"

lemma nonblank_str_iff: "nonblank_str v \<longleftrightarrow> (\<exists>s. v = PStr s \<and> nonblank s)"
  by (cases v) (simp_all add: nonblank_str_def)

lemma nonblank_char: "c \<in> set s \<Longrightarrow> \<not> is_space c \<Longrightarrow> nonblank s"
proof -
  assume c: "c \<in> set s" "\<not> is_space c"
  then have l: "c \<in> set (lstrip s)"
    by (induction s) (auto simp: lstrip_def)
  have "c \<in> set (rstrip u)" if "c \<in> set u" for u
  proof -
    have "c \<in> set (dropWhile is_space (rev u))"
      using that c(2) set_dropWhileD by (metis rev_rev_ident set_rev set_takeWhileD takeWhile_dropWhile_id
          Un_iff set_append)
    then show ?thesis by (simp add: rstrip_def)
  qed
  with l show ?thesis unfolding nonblank_def strip_def by (metis empty_iff empty_set)
qed

lemma hex64_nonblank: "hex64 s \<Longrightarrow> nonblank s"
proof -
  assume h: "hex64 s"
  then obtain c cs where s: "s = c # cs" by (cases s) (auto simp: hex64_def)
  with h have "\<not> is_space c" by (auto simp: hex64_def is_digit_def is_space_def)
  with s show ?thesis by (intro nonblank_char [of c]) simp_all
qed

lemma head_token_nonblank: "head_token s \<Longrightarrow> nonblank s"
proof -
  assume h: "head_token s"
  then obtain c cs where "s = c # cs" by (cases s) (auto simp: head_token_def)
  with h show ?thesis by (intro nonblank_char [of c]) (simp_all add: head_token_def)
qed

lemma sorted_names_iff: "sorted_names (PList (map PStr ns)) \<longleftrightarrow> names_ok ns"
  by (simp add: sorted_names_def names_ok_def nonblank_str_def)

lemma sorted_names_decoded:
  "sorted_names v \<Longrightarrow> names_ok (map the_str (the_list v)) \<and> v = PList (map PStr (map the_str (the_list v)))"
proof -
  assume a: "sorted_names v"
  then obtain vs where v: "v = PList vs" and all: "\<forall>x \<in> set vs. nonblank_str x"
    and srt: "map the_str vs = sorted_set (map the_str vs)"
    by (auto simp: sorted_names_def split: pyval.splits)
  have "x = PStr (the_str x)" if "x \<in> set vs" for x
    using all that by (cases x) (auto simp: nonblank_str_def)
  then have "vs = map PStr (map the_str vs)" by (simp add: map_idI)
  moreover have "names_ok (map the_str vs)"
    using all srt by (auto simp: names_ok_def nonblank_str_iff)
  ultimately show ?thesis using v by simp
qed

lemma build_reference_fields [simp]:
  "ref_matrix_identity (build_reference H m r h oi it ow rq cl n) = m"
  "ref_row_id (build_reference H m r h oi it ow rq cl n) = r"
  "ref_head (build_reference H m r h oi it ow rq cl n) = h"
  "ref_obligation_identity (build_reference H m r h oi it ow rq cl n) = oi"
  "ref_obligation_item_id (build_reference H m r h oi it ow rq cl n) = it"
  "ref_owners (build_reference H m r h oi it ow rq cl n) = sorted_set ow"
  "ref_signed_requirement_ids (build_reference H m r h oi it ow rq cl n) = sorted_set rq"
  "ref_clearing_reviewers (build_reference H m r h oi it ow rq cl n) = sorted_set cl"
  "ref_cleared_round (build_reference H m r h oi it ow rq cl n) = n"
  "reference_id (build_reference H m r h oi it ow rq cl n)
     = reference_digest H (reference_fields (build_reference H m r h oi it ow rq cl n))"
  by (simp_all add: build_reference_def Let_def reference_fields_def)

lemma sorted_set_idem [simp]: "sorted_set (sorted_set xs) = sorted_set xs"
  by (rule sorted_set_id) simp_all

lemma rebuild:
  assumes "wf_reference H r"
  shows "build_reference H (ref_matrix_identity r) (ref_row_id r) (ref_head r)
     (ref_obligation_identity r) (ref_obligation_item_id r) (ref_owners r)
     (ref_signed_requirement_ids r) (ref_clearing_reviewers r) (ref_cleared_round r) = r"
proof -
  have "sorted_set (ref_owners r) = ref_owners r"
    "sorted_set (ref_signed_requirement_ids r) = ref_signed_requirement_ids r"
    "sorted_set (ref_clearing_reviewers r) = ref_clearing_reviewers r"
    using assms by (simp_all add: wf_reference_def names_ok_def)
  moreover have "reference_id r = reference_digest H (reference_fields r)"
    using assms by (simp add: wf_reference_def)
  ultimately show ?thesis by (simp add: build_reference_def Let_def reference_fields_def)
qed

lemma reference_dec_enc:
  assumes "wf_reference H r"
  shows "reference_from_payload H (reference_to_payload r) = Some r"
proof -
  let ?v = "reference_to_payload r"
  have g: "py_get ?v ''version'' = PInt 1" "py_get ?v ''matrix_identity'' = PStr (ref_matrix_identity r)"
    "py_get ?v ''row_id'' = PStr (ref_row_id r)" "py_get ?v ''head'' = PStr (ref_head r)"
    "py_get ?v ''obligation_identity'' = PStr (ref_obligation_identity r)"
    "py_get ?v ''obligation_item_id'' = PStr (ref_obligation_item_id r)"
    "py_get ?v ''owners'' = PList (map PStr (ref_owners r))"
    "py_get ?v ''signed_requirement_ids'' = PList (map PStr (ref_signed_requirement_ids r))"
    "py_get ?v ''clearing_reviewers'' = PList (map PStr (ref_clearing_reviewers r))"
    "py_get ?v ''cleared_round'' = PInt (ref_cleared_round r)"
    "py_get ?v ''reference_id'' = PStr (reference_id r)"
    by (simp_all add: reference_to_payload_def reference_fields_def)
  obtain kvs where v: "?v = PDict kvs" "fst ` set kvs = set REFERENCE_KEYS"
    by (simp add: reference_to_payload_def reference_fields_def REFERENCE_KEYS_def insert_commute)
  have n: "nonblank (ref_matrix_identity r)" "nonblank (ref_head r)"
    using assms hex64_nonblank head_token_nonblank by (simp_all add: wf_reference_def)
  have "nonblank (reference_digest H (reference_fields r))"
    using assms unfolding wf_reference_def by metis
  then show ?thesis
    using assms n rebuild [OF assms] g
    unfolding reference_from_payload_def v(1) pyval.case v(2)
    by (simp add: wf_reference_def equals_one_def nonblank_str_def sorted_names_iff)
qed

lemma reference_dec_wf:
  assumes "reference_from_payload H v = Some r"
  shows "wf_reference H r"
proof -
  obtain kvs where v: "v = PDict kvs"
    using assms by (auto simp: reference_from_payload_def split: pyval.splits)
  let ?names = "\<lambda>k. map the_str (the_list (py_get v k))"
  note a = assms [unfolded reference_from_payload_def v pyval.case, folded v]
  have str: "\<forall>k \<in> set [''matrix_identity'', ''row_id'', ''head'', ''obligation_identity'',
      ''obligation_item_id'', ''reference_id'']. nonblank_str (py_get v k)"
    and hx: "hex64 (the_str (py_get v ''matrix_identity''))"
    and hd: "head_token (the_str (py_get v ''head''))"
    and nms: "\<forall>k \<in> set [''owners'', ''signed_requirement_ids'', ''clearing_reviewers'']. sorted_names (py_get v k)"
    and ne: "the_list (py_get v ''signed_requirement_ids'') \<noteq> []" "the_list (py_get v ''clearing_reviewers'') \<noteq> []"
    and rd: "case py_get v ''cleared_round'' of PInt n \<Rightarrow> 1 \<le> n | _ \<Rightarrow> False"
    and r: "r = build_reference H (the_str (py_get v ''matrix_identity'')) (the_str (py_get v ''row_id''))
        (the_str (py_get v ''head'')) (the_str (py_get v ''obligation_identity''))
        (the_str (py_get v ''obligation_item_id'')) (?names ''owners'') (?names ''signed_requirement_ids'')
        (?names ''clearing_reviewers'') (the_int (py_get v ''cleared_round''))"
    and rid: "PStr (reference_id r) = py_get v ''reference_id''"
    using a by (auto simp: Let_def split: if_splits)
  have str': "nonblank_str x \<Longrightarrow> nonblank (the_str x)" for x
    by (auto simp: nonblank_str_def split: pyval.splits)
  have nm: "names_ok (?names k)" "sorted_set (?names k) = ?names k"
    if "k \<in> set [''owners'', ''signed_requirement_ids'', ''clearing_reviewers'']" for k
    using nms that sorted_names_decoded [of "py_get v k"] by (auto simp: names_ok_def)
  have round: "1 \<le> the_int (py_get v ''cleared_round'')"
    using rd by (cases "py_get v ''cleared_round''") auto
  have "nonblank (reference_id r)" using str rid by (simp add: nonblank_str_def split: pyval.splits)
  moreover have "reference_id r = reference_digest H (reference_fields r)" unfolding r by simp
  ultimately show ?thesis
    unfolding wf_reference_def
    using r str str' hx hd ne round nm [of "''owners''"] nm [of "''signed_requirement_ids''"]
      nm [of "''clearing_reviewers''"] by simp
qed

definition reference_decoder :: "(string \<Rightarrow> string) \<Rightarrow> pyval \<Rightarrow> unit + signed_reference" where
  "reference_decoder H v = (case reference_from_payload H v of None \<Rightarrow> Inl () | Some r \<Rightarrow> Inr r)"

interpretation reference_codec:
  record_codec reference_to_payload "reference_decoder H" "wf_reference H" for H
  by unfold_locales
    (auto simp: reference_decoder_def reference_dec_enc intro: reference_dec_wf split: option.splits)

lemma reference_decoder_Inr: "reference_decoder H v = Inr r \<longleftrightarrow> reference_from_payload H v = Some r"
  by (auto simp: reference_decoder_def split: option.splits)

section \<open>Properties\<close>

text \<open>Signed references are tamper-evident.  A well-formed reference is read back from its
  payload as it was written, and whatever the decoder accepts is well-formed: its identifier is the
  digest of all its other fields, its names are sorted without repetition, it names a requirement
  and a clearing reviewer, and writing it again gives a payload that reads back the same.\<close>

theorem signed_reference_roundtrip:
  "(wf_reference H r \<longrightarrow> reference_from_payload H (reference_to_payload r) = Some r)
   \<and> (reference_from_payload H v = Some r \<longrightarrow>
        reference_id r = reference_digest H (reference_fields r)
        \<and> ref_signed_requirement_ids r \<noteq> [] \<and> ref_clearing_reviewers r \<noteq> []
        \<and> names_ok (ref_owners r) \<and> names_ok (ref_clearing_reviewers r)
        \<and> reference_from_payload H (reference_to_payload r) = Some r)"
proof (intro conjI impI)
  assume "wf_reference H r"
  then show "reference_from_payload H (reference_to_payload r) = Some r"
    using reference_codec.dec_enc reference_decoder_Inr by metis
next
  assume dec: "reference_from_payload H v = Some r"
  then have wf: "wf_reference H r" using reference_codec.dec_wf reference_decoder_Inr by metis
  show "reference_from_payload H (reference_to_payload r) = Some r"
    using dec reference_codec.reencode reference_decoder_Inr by metis
  show "reference_id r = reference_digest H (reference_fields r)"
    "ref_signed_requirement_ids r \<noteq> []" "ref_clearing_reviewers r \<noteq> []"
    "names_ok (ref_owners r)" "names_ok (ref_clearing_reviewers r)"
    using wf unfolding wf_reference_def by metis+
qed

definition ex_identity :: string where
  "ex_identity = replicate 64 (CHR ''a'')"

definition ex_reference :: signed_reference where
  "ex_reference = build_reference (\<lambda>_. ''digest'') ex_identity ''row-1'' ''head1'' ''ob'' ''item-9''
     [''codex''] [''hr-1''] [''codex''] 3"

lemma ex_reference_wf: "wf_reference (\<lambda>_. ''digest'') ex_reference"
proof -
  have one: "sorted_set [x] = [x]" for x :: string by (simp add: sorted_set_def)
  have n: "nonblank ''codex''" "nonblank ''hr-1''" "nonblank ''row-1''" "nonblank ''ob''"
    "nonblank ''item-9''" "nonblank ''digest''"
    by (simp_all add: nonblank_def strip_def lstrip_def rstrip_def is_space_def)
  have "hex64 ex_identity" by (simp add: hex64_def ex_identity_def is_digit_def)
  moreover have "head_token ''head1''" by (simp add: head_token_def is_space_def)
  ultimately show ?thesis
    using n by (simp add: wf_reference_def ex_reference_def names_ok_def one reference_digest_def)
qed

theorem signed_reference_roundtrip_witness:
  "reference_from_payload (\<lambda>_. ''digest'') (reference_to_payload ex_reference) = Some ex_reference"
  using signed_reference_roundtrip [of "\<lambda>_. ''digest''" ex_reference] ex_reference_wf by blast

text \<open>C11: What the parser of stored evidence guarantees.  An accepted payload has the expected matrix
  identity and maps exactly the expected rows, each once.  Every row has a valid identifier and a
  known status; a row counts as verified only with tests, locations, both kinds of assertions and
  citations, or because it names a trusted reference bound to this row, matrix and head.  Without
  trusted references, which is how every agent output is read, no row is operator-signed.\<close>

theorem stored_evidence_is_complete:
  assumes "parse_risk_test_matrix_evidence (Some identity) (Some ids) trusted head v = Inr ev"
  shows "matrix_identity ev = identity
    \<and> distinct (map row_id (evidence_rows ev)) \<and> set (map row_id (evidence_rows ev)) = set ids
    \<and> length (evidence_rows ev) \<le> RISK_MATRIX_MAX_ROWS
    \<and> (\<forall>row \<in> set (evidence_rows ev). evidence_row_ok identity trusted head row)
    \<and> (trusted = None \<longrightarrow> (\<forall>row \<in> set (evidence_rows ev). evidence_source row = EVIDENCE_SOURCE_TOOL_CAPTURED))"
proof -
  obtain rows where rows: "parse_rows evidence_context identity trusted head [] 0 rows = Inr (evidence_rows ev)"
    and len: "length rows \<le> RISK_MATRIX_MAX_ROWS" and i: "matrix_identity ev = identity"
    and ids: "set (map row_id (evidence_rows ev)) = set ids"
    using assms
    by (auto simp: parse_risk_test_matrix_evidence_def bindE_Inr_iff Let_def case_PList_Inr
        simp del: key_value.simps)
  note ok = parse_rows_ok [OF rows]
  have "\<forall>row \<in> set (evidence_rows ev). evidence_source row = EVIDENCE_SOURCE_TOOL_CAPTURED" if "trusted = None"
    using ok that by (auto simp: evidence_row_ok_def)
  then show ?thesis using ok len i ids by simp
qed

definition ex_row_payload :: pyval where
  "ex_row_payload = PDict
     [(''row_id'', PStr ''row-1''), (''status'', PStr ''missing''), (''test_identifiers'', PList []),
      (''test_locations'', PList []), (''workflow_path_claim'', PStr ''w''),
      (''outcome_assertions'', PList []), (''forbidden_effect_assertions'', PList []),
      (''evidence_citations'', PList [])]"

definition ex_evidence_payload :: pyval where
  "ex_evidence_payload = PDict [(''matrix_identity'', PStr ex_identity), (''rows'', PList [ex_row_payload])]"

definition ex_evidence_row :: evidence_row where
  "ex_evidence_row = \<lparr>row_id = ''row-1'', row_status = ''missing'', test_identifiers = [],
     test_locations = [], workflow_path_claim = ''w'', outcome_assertions = [],
     forbidden_effect_assertions = [], evidence_citations = [], caveats = [],
     evidence_source = EVIDENCE_SOURCE_TOOL_CAPTURED, signed_evidence_reference = None\<rparr>"

lemma ex_row_parses:
  "parse_rows evidence_context ex_identity None None [] 0 [ex_row_payload] = Inr [ex_evidence_row]"
proof -
  have st: "strip ''row-1'' = ''row-1''" "strip ''missing'' = ''missing''" "strip ''w'' = ''w''"
    by (simp_all add: strip_def lstrip_def rstrip_def is_space_def)
  have fin: "has_reserved_namespace ''row-1'' = False"
    by (simp add: has_reserved_namespace_def starts_with_ci_def reserved_finding_at_def
        RESERVED_FINDING_NAMESPACE_TOKENS_def ascii_lower_def is_upper_def NAMESPACE_SEPARATORS_def)
  have keys: "expect_exact_keys (py_items ex_row_payload) c EVIDENCE_ROW_KEYS EVIDENCE_ROW_OPTIONAL = Inr ()" for c
    by (simp add: expect_exact_keys_def ex_row_payload_def EVIDENCE_ROW_KEYS_def sorted_set_def)
  have valid: "is_valid_risk_row_id ''row-1''"
    using fin by (simp add: is_valid_risk_row_id_def is_alnum_def is_lower_def is_upper_def is_digit_def
        NAMESPACE_SEPARATORS_def)
  have "parse_row_fields c rc [] (py_items ex_row_payload) = Inr ex_evidence_row" for c rc
    using keys valid
    by (simp add: parse_row_fields_def ex_row_payload_def validate_risk_row_id_def risk_bounded_string_def
        expect_non_empty_string_def st utf8_size_def RISK_MATRIX_EVIDENCE_STATUSES_def
        risk_bounded_string_list_def expect_string_list_def expect_test_observations_def key_or_empty_def
        has_key_def ex_evidence_row_def RISK_MATRIX_MAX_FIELD_BYTES_def)
  moreover have "check_row rc i None None (py_items ex_row_payload) ex_evidence_row = Inr ex_evidence_row" for rc i
    by (simp add: check_row_def has_key_def ex_row_payload_def incomplete_verified_def ex_evidence_row_def)
  moreover have "expect_object ex_row_payload c = Inr (py_items ex_row_payload)" for c
    by (simp add: ex_row_payload_def)
  ultimately show ?thesis by (simp add: Let_def)
qed

lemma ex_evidence_parses:
  "parse_risk_test_matrix_evidence (Some ex_identity) (Some [''row-1'']) None None ex_evidence_payload
     = Inr \<lparr>matrix_identity = ex_identity, evidence_rows = [ex_evidence_row]\<rparr>"
proof -
  have h: "hex64 ex_identity" by (simp add: hex64_def ex_identity_def is_digit_def)
  have bs: "risk_bounded_string (PStr ex_identity) c 128 = Inr ex_identity" for c
    by (simp add: risk_bounded_string_def expect_non_empty_string_def ex_identity_def strip_def lstrip_def
        rstrip_def is_space_def utf8_size_def numeral_eq_Suc)
  have keys: "expect_exact_keys (py_items ex_evidence_payload) c [''matrix_identity'', ''rows''] [] = Inr ()" for c
    by (simp add: expect_exact_keys_def ex_evidence_payload_def sorted_set_def)
  have "expect_object ex_evidence_payload c = Inr (py_items ex_evidence_payload)" for c
    by (simp add: ex_evidence_payload_def)
  moreover have "key_value (py_items ex_evidence_payload) ''matrix_identity'' = PStr ex_identity"
    "key_value (py_items ex_evidence_payload) ''rows'' = PList [ex_row_payload]"
    by (simp_all add: ex_evidence_payload_def)
  ultimately show ?thesis
    using h bs keys ex_row_parses
    by (simp add: parse_risk_test_matrix_evidence_def Let_def RISK_MATRIX_MAX_ROWS_def ex_evidence_row_def
        del: parse_rows.simps)
qed

theorem stored_evidence_is_complete_witness:
  "\<exists>ev. parse_risk_test_matrix_evidence (Some ex_identity) (Some [''row-1'']) None None ex_evidence_payload = Inr ev
     \<and> set (map row_id (evidence_rows ev)) = {''row-1''}"
  using stored_evidence_is_complete [OF ex_evidence_parses] ex_evidence_parses by auto

text \<open>The overlay of signed references.  It keeps the matrix identity and every row's identifier
  and place, changes only unverified rows that an admitted reference of this matrix and exactly this
  head names, makes those verified and operator-signed by such a reference, and never takes a
  verification back.  Applying it twice is applying it once.\<close>

theorem overlay_only_adds_verified_rows:
  "(let out = apply_signed_evidence_references identity current refs ev in
      matrix_identity out = matrix_identity ev
      \<and> list_all2 (\<lambda>row row'. row_id row' = row_id row
           \<and> (row' = row
              \<or> row_status row \<noteq> ''verified'' \<and> row_status row' = ''verified''
                \<and> evidence_source row' = EVIDENCE_SOURCE_OPERATOR_SIGNED
                \<and> (\<exists>ref \<in> set refs. ref_row_id ref = row_id row \<and> ref_matrix_identity ref = identity
                     \<and> Some (ref_head ref) = current
                     \<and> signed_evidence_reference row' = Some (reference_id ref))))
         (evidence_rows ev) (evidence_rows out)
      \<and> apply_signed_evidence_references identity current refs out = out)"
proof (cases "\<exists>head. current = Some head \<and> head \<noteq> [] \<and> matrix_identity ev = identity")
  case False
  then have "apply_signed_evidence_references identity current refs ev = ev"
    by (auto simp: apply_signed_evidence_references_def split: option.splits)
  then show ?thesis by (simp add: list_all2_same)
next
  case True
  then obtain head where c: "current = Some head" "head \<noteq> []" "matrix_identity ev = identity" by blast
  define f where "f row = (case references_by_row identity head refs (row_id row) of
      None \<Rightarrow> row | Some ref \<Rightarrow> if row_status row = ''verified'' then row else signed_row head ref row)" for row
  have out: "apply_signed_evidence_references identity current refs e = e\<lparr>evidence_rows := map f (evidence_rows e)\<rparr>"
    if "matrix_identity e = identity" for e
    using c that by (simp add: apply_signed_evidence_references_def f_def [abs_def])
  have ref: "\<exists>ref' \<in> set refs. ref_row_id ref' = i \<and> ref_matrix_identity ref' = identity
      \<and> ref_head ref' = head \<and> reference_id ref' = reference_id ref"
    if "references_by_row identity head refs i = Some ref" for i ref
    using that by (auto simp: references_by_row_def dest!: map_of_SomeD)
  have row: "row_id (f row) = row_id row
      \<and> (f row = row \<or> row_status row \<noteq> ''verified'' \<and> row_status (f row) = ''verified''
          \<and> evidence_source (f row) = EVIDENCE_SOURCE_OPERATOR_SIGNED
          \<and> (\<exists>ref \<in> set refs. ref_row_id ref = row_id row \<and> ref_matrix_identity ref = identity
               \<and> Some (ref_head ref) = current \<and> signed_evidence_reference (f row) = Some (reference_id ref)))" for row
    using ref [of "row_id row"] c(1) by (auto simp: f_def signed_row_def split: option.splits) metis+
  have idem: "f (f row) = f row" for row
    by (simp add: f_def signed_row_def split: option.splits)
  let ?out = "ev\<lparr>evidence_rows := map f (evidence_rows ev)\<rparr>"
  have again: "apply_signed_evidence_references identity current refs ?out = ?out"
    using out [of ?out] c(3) idem by (simp add: comp_def)
  show ?thesis
    unfolding out [OF c(3)] Let_def again using row by (simp add: list_all2_conv_all_nth)
qed

end
