(* ===== verification/Evidence_Stall.thy ===== *)
theory Evidence_Stall
  imports Review_Item Risk_Evidence
begin

text \<open>
  The evidence-only stall detector (\<open>evidence_stall.py\<close>): which approved rows are still
  unsatisfied, whether a review round is evidence-only, and whether enough consecutive rounds are
  stuck on the same rows.  A persisted snapshot is the JSON object the code reads back; the prior
  snapshots are a map from round numbers.
\<close>

section \<open>Unsatisfied rows\<close>

definition STALL_REASONS :: "string list" where
  "STALL_REASONS =
     [''no-applicable-matrix'', ''evidence-head-unbound'', ''evidence-absent'',
      ''evidence-matrix-mismatch'', ''no-unsatisfied-rows'', ''no-open-items'', ''untagged-finding'',
      ''tag-names-satisfied-row'', ''machine-obligation-open'', ''checks-failing'',
      ''checks-unavailable'', ''evidence-freeze-active'']"

definition CANONICAL_STATUS_PREFIX :: string where
  "CANONICAL_STATUS_PREFIX = ''canonical-status:''"

record check_board =
  failing :: "string list"
  infrastructure_stalls :: "string list"

record unsatisfied =
  unsat_rows :: "(string \<times> string) list"
  unsat_reason :: "string option"

definition unsat_row_ids :: "unsatisfied \<Rightarrow> string list" where
  "unsat_row_ids u = sort (map fst (unsat_rows u))"

text \<open>The diagnostic codes of one row, sorted and stripped.\<close>

definition row_codes :: "pyval list \<Rightarrow> string \<Rightarrow> string list" where
  "row_codes diagnostics rid =
     sorted_set (map (\<lambda>d. strip (the_str (py_get d ''code'')))
       (filter (\<lambda>d. py_get d ''row_id'' = PStr rid
                  \<and> (case py_get d ''code'' of PStr c \<Rightarrow> nonblank c | _ \<Rightarrow> False)) diagnostics))"

definition row_explanation :: "pyval list \<Rightarrow> evidence_row \<Rightarrow> string" where
  "row_explanation diagnostics row =
     join '', '' ((CANONICAL_STATUS_PREFIX @ row_status row) # row_codes diagnostics (row_id row))"

definition unsatisfied_rows ::
  "pyval \<Rightarrow> pyval list \<Rightarrow> string list \<Rightarrow> string \<Rightarrow> string list \<Rightarrow> signed_reference list \<Rightarrow> string option \<Rightarrow> unsatisfied" where
  "unsatisfied_rows evidence diagnostics enforceable identity excluded refs head =
     (if evidence = PNone then \<lparr>unsat_rows = [], unsat_reason = Some ''evidence-absent''\<rparr>
      else case parse_risk_test_matrix_evidence (Some identity) (Some enforceable) None None evidence of
        Inl _ \<Rightarrow> \<lparr>unsat_rows = [], unsat_reason = Some ''evidence-matrix-mismatch''\<rparr>
      | Inr parsed \<Rightarrow>
          let parsed' = (if refs \<noteq> [] then apply_signed_evidence_references identity head refs parsed else parsed)
          in \<lparr>unsat_rows = map (\<lambda>row. (row_id row, row_explanation diagnostics row))
                (filter (\<lambda>row. row_id row \<in> set enforceable \<and> row_status row \<noteq> ''verified''
                           \<and> row_id row \<notin> set excluded)
                   (sort_key row_id (evidence_rows parsed'))),
              unsat_reason = None\<rparr>)"

section \<open>One round\<close>

record stall_snapshot =
  review_round :: int
  review_head :: string
  snap_matrix_identity :: string
  qualifies :: bool
  unsatisfied_row_ids :: "string list"
  reasons :: "string list"
  bound_attempt_round :: "int option"

definition snapshot_to_payload :: "stall_snapshot \<Rightarrow> pyval" where
  "snapshot_to_payload s = PDict
     ([(''version'', PInt 1), (''review_round'', PInt (review_round s)), (''review_head'', PStr (review_head s)),
       (''matrix_identity'', PStr (snap_matrix_identity s)), (''qualifies'', PBool (qualifies s)),
       (''unsatisfied_row_ids'', PList (map PStr (sort (unsatisfied_row_ids s)))),
       (''reasons'', PList (map PStr (sort (reasons s))))]
      @ (case bound_attempt_round s of None \<Rightarrow> [] | Some n \<Rightarrow> [(''bound_attempt_round'', PInt n)]))"

definition mandatory_items :: "item list \<Rightarrow> item list" where
  "mandatory_items items = filter (\<lambda>i. open_status (status i)) items"

definition machine_reasons :: "item list \<Rightarrow> string list" where
  "machine_reasons items =
     (if \<exists>i \<in> set items. is_machine_obligation i \<and> obligation_kind i \<noteq> Some EVIDENCE_OBLIGATION_KIND
      then [''machine-obligation-open''] else [])"

definition finding_reasons :: "string list \<Rightarrow> item list \<Rightarrow> string list" where
  "finding_reasons usable items =
     (let findings = filter (\<lambda>i. \<not> is_machine_obligation i) items in
      (if \<exists>i \<in> set findings. evidence_row_ids i = [] then [''untagged-finding''] else [])
      @ (if \<exists>i \<in> set findings. evidence_row_ids i \<noteq> []
             \<and> (residual_evidence_row_ids i = [] \<or> \<not> set (residual_evidence_row_ids i) \<subseteq> set usable)
         then [''tag-names-satisfied-row''] else [])
      @ (if findings = [] then [''no-open-items''] else []))"

definition row_reasons :: "string option \<Rightarrow> unsatisfied option \<Rightarrow> string list" where
  "row_reasons identity u =
     (case identity of
        None \<Rightarrow> [''no-applicable-matrix'']
      | Some _ \<Rightarrow>
          (case u of
             None \<Rightarrow> [''evidence-head-unbound'']
           | Some us \<Rightarrow>
               (case unsat_reason us of
                  Some why \<Rightarrow> [why]
                | None \<Rightarrow> if unsat_rows us = [] then [''no-unsatisfied-rows''] else [])))"

definition usable_rows :: "string option \<Rightarrow> unsatisfied option \<Rightarrow> string list" where
  "usable_rows identity u =
     (case (identity, u) of
        (Some _, Some us) \<Rightarrow> if unsat_reason us = None \<and> unsat_rows us \<noteq> [] then unsat_row_ids us else []
      | _ \<Rightarrow> [])"

definition check_reasons :: "check_board option \<Rightarrow> string list" where
  "check_reasons checks =
     (case checks of
        None \<Rightarrow> [''checks-unavailable'']
      | Some b \<Rightarrow> if failing b \<noteq> [] \<or> infrastructure_stalls b \<noteq> [] then [''checks-failing''] else [])"

definition classify_round ::
  "int \<Rightarrow> string \<Rightarrow> string option \<Rightarrow> item list \<Rightarrow> unsatisfied option \<Rightarrow> check_board option \<Rightarrow> bool
     \<Rightarrow> int option \<Rightarrow> stall_snapshot" where
  "classify_round rnd head identity open_items u checks freeze_active bound =
     (let rows = usable_rows identity u;
          mandatory = mandatory_items open_items;
          why = row_reasons identity u @ machine_reasons mandatory @ finding_reasons rows mandatory
                @ check_reasons checks @ (if freeze_active then [''evidence-freeze-active''] else [])
      in \<lparr>review_round = rnd, review_head = head,
          snap_matrix_identity = (case identity of None \<Rightarrow> [] | Some i \<Rightarrow> i),
          qualifies = (why = []), unsatisfied_row_ids = rows, reasons = sorted_set why,
          bound_attempt_round = bound\<rparr>)"

section \<open>Persisted snapshots\<close>

fun sequence_items :: "pyval \<Rightarrow> pyval list option" where
  "sequence_items (PList vs) = Some vs"
| "sequence_items (PTuple vs) = Some vs"
| "sequence_items _ = None"

definition bound_round_ok :: "pyval \<Rightarrow> pyval \<Rightarrow> bool" where
  "bound_round_ok bound rnd \<longleftrightarrow>
     (case (bound, rnd) of (PInt b, PInt r) \<Rightarrow> 1 \<le> b \<and> b \<le> r | _ \<Rightarrow> False)"

definition snapshot_is_consistent :: "pyval \<Rightarrow> bool" where
  "snapshot_is_consistent s \<longleftrightarrow>
     (case (py_get s ''qualifies'', sequence_items (py_get s ''reasons''),
            sequence_items (py_get s ''unsatisfied_row_ids'')) of
        (PBool q, Some rs, Some ids) \<Rightarrow>
          (\<forall>r \<in> set rs. is_str r \<and> the_str r \<in> set STALL_REASONS)
          \<and> (\<forall>i \<in> set ids. is_str i \<and> nonblank (the_str i))
          \<and> no_dups rs \<and> no_dups ids
          \<and> (''bound_attempt_round'' \<in> fst ` set (py_items s) \<longrightarrow>
               bound_round_ok (py_get s ''bound_attempt_round'') (py_get s ''review_round''))
          \<and> q = (rs = [])
          \<and> (q \<longrightarrow> ids \<noteq> []
               \<and> (case py_get s ''review_head'' of PStr h \<Rightarrow> nonblank h | _ \<Rightarrow> False)
               \<and> (case py_get s ''matrix_identity'' of PStr m \<Rightarrow> nonblank m | _ \<Rightarrow> False))
      | _ \<Rightarrow> False)"

fun py_truthy :: "pyval \<Rightarrow> bool" where
  "py_truthy PNone = False"
| "py_truthy (PBool b) = b"
| "py_truthy (PInt n) = (n \<noteq> 0)"
| "py_truthy (PStr s) = (s \<noteq> [])"
| "py_truthy (PList vs) = (vs \<noteq> [])"
| "py_truthy (PTuple vs) = (vs \<noteq> [])"
| "py_truthy (PDict kvs) = (kvs \<noteq> [])"

text \<open>\<open>v == n\<close> of an integer: \<open>True\<close> and \<open>False\<close> compare equal to 1 and 0.\<close>

fun equals_int :: "pyval \<Rightarrow> int \<Rightarrow> bool" where
  "equals_int (PInt m) n = (m = n)"
| "equals_int (PBool b) n = (n = (if b then 1 else 0))"
| "equals_int _ n = False"

definition is_dict :: "pyval \<Rightarrow> bool" where
  "is_dict v \<longleftrightarrow> (case v of PDict _ \<Rightarrow> True | _ \<Rightarrow> False)"

definition counted_ids :: "pyval \<Rightarrow> string list" where
  "counted_ids s = sort (map the_str (case sequence_items (py_get s ''unsatisfied_row_ids'') of None \<Rightarrow> [] | Some vs \<Rightarrow> vs))"

text \<open>A prior round continues the run of the current one.\<close>

definition continues_run :: "stall_snapshot \<Rightarrow> (int \<rightharpoonup> pyval) \<Rightarrow> int \<Rightarrow> bool" where
  "continues_run cur prior n \<longleftrightarrow>
     (case prior n of
        None \<Rightarrow> False
      | Some s \<Rightarrow>
          is_dict s \<and> \<not> py_truthy (py_get s ''invalid'') \<and> snapshot_is_consistent s
          \<and> equals_int (py_get s ''review_round'') n \<and> py_get s ''qualifies'' = PBool True
          \<and> py_get s ''matrix_identity'' = PStr (snap_matrix_identity cur)
          \<and> counted_ids s = sort (unsatisfied_row_ids cur))"

text \<open>The walk down from the round before: how many rounds continue the run.\<close>

fun run_before :: "stall_snapshot \<Rightarrow> (int \<rightharpoonup> pyval) \<Rightarrow> nat \<Rightarrow> nat" where
  "run_before cur prior 0 = 0"
| "run_before cur prior (Suc n) =
     (if continues_run cur prior (int (Suc n)) then Suc (run_before cur prior n) else 0)"

record stall_window =
  stop :: bool
  window_length :: nat

definition stall_window_of :: "stall_snapshot \<Rightarrow> (int \<rightharpoonup> pyval) \<Rightarrow> int \<Rightarrow> stall_window" where
  "stall_window_of cur prior k =
     (if \<not> qualifies cur then \<lparr>stop = False, window_length = 0\<rparr>
      else let len = Suc (run_before cur prior (nat (review_round cur - 1)))
           in \<lparr>stop = (0 < k \<and> k \<le> int len), window_length = len\<rparr>)"

text \<open>\<open>approved_matrix_row_ids\<close> of a plan context: whether a matrix is available, and its rows.\<close>

definition approved_matrix_row_ids :: "(bool \<times> string list option) option \<Rightarrow> string list option" where
  "approved_matrix_row_ids ctx =
     (case ctx of
        Some (True, Some ids) \<Rightarrow> if ids = [] then None else Some ids
      | _ \<Rightarrow> None)"

section \<open>Facts\<close>

lemma run_before_bound: "run_before cur prior n \<le> n"
  by (induction n) auto

lemma run_before_ge_iff:
  "m \<le> run_before cur prior n \<longleftrightarrow> m \<le> n \<and> (\<forall>j. n - m < j \<and> j \<le> n \<longrightarrow> continues_run cur prior (int j))"
proof (induction n arbitrary: m)
  case (Suc n)
  show ?case
  proof (cases m)
    case 0
    then show ?thesis by auto
  next
    case (Suc m')
    have "(\<forall>j. Suc n - Suc m' < j \<and> j \<le> Suc n \<longrightarrow> continues_run cur prior (int j)) \<longleftrightarrow>
        continues_run cur prior (int (Suc n))
        \<and> (\<forall>j. n - m' < j \<and> j \<le> n \<longrightarrow> continues_run cur prior (int j))" if "m' \<le> n"
      using that by (auto simp: le_Suc_eq simp del: of_nat_Suc)
    then show ?thesis using Suc Suc.IH [of m'] by (auto simp del: of_nat_Suc)
  qed
qed auto

lemma stall_reason_mem:
  "''no-applicable-matrix'' \<in> set STALL_REASONS" "''evidence-head-unbound'' \<in> set STALL_REASONS"
  "''evidence-absent'' \<in> set STALL_REASONS" "''evidence-matrix-mismatch'' \<in> set STALL_REASONS"
  "''no-unsatisfied-rows'' \<in> set STALL_REASONS" "''no-open-items'' \<in> set STALL_REASONS"
  "''untagged-finding'' \<in> set STALL_REASONS" "''tag-names-satisfied-row'' \<in> set STALL_REASONS"
  "''machine-obligation-open'' \<in> set STALL_REASONS" "''checks-failing'' \<in> set STALL_REASONS"
  "''checks-unavailable'' \<in> set STALL_REASONS" "''evidence-freeze-active'' \<in> set STALL_REASONS"
  by (simp_all add: STALL_REASONS_def)

lemma stall_reasons_known:
  assumes "\<And>us why. u = Some us \<Longrightarrow> unsat_reason us = Some why \<Longrightarrow>
      why = ''evidence-absent'' \<or> why = ''evidence-matrix-mismatch''"
  shows "set (reasons (classify_round rnd head identity items u checks fz bound)) \<subseteq> set STALL_REASONS"
proof -
  have "set (row_reasons identity u) \<subseteq> set STALL_REASONS"
    using assms stall_reason_mem by (auto simp: row_reasons_def split: option.splits)
  moreover have "set (machine_reasons xs) \<subseteq> set STALL_REASONS"
    "set (finding_reasons rows xs) \<subseteq> set STALL_REASONS" "set (check_reasons checks) \<subseteq> set STALL_REASONS" for xs rows
    using stall_reason_mem
    by (auto simp: machine_reasons_def finding_reasons_def check_reasons_def Let_def split: option.split)
  moreover note stall_reason_mem(12)
  ultimately show ?thesis by (auto simp: classify_round_def Let_def)
qed

lemma unsatisfied_rows_reason:
  "unsat_reason (unsatisfied_rows ev ds enf identity ex refs head) = Some why \<Longrightarrow>
     why = ''evidence-absent'' \<or> why = ''evidence-matrix-mismatch''"
  by (auto simp: unsatisfied_rows_def Let_def split: if_splits sum.splits)

lemma unsatisfied_rows_ids:
  assumes "unsatisfied_rows ev ds enf identity ex refs head = u"
  shows "distinct (unsat_row_ids u)" and "set (unsat_row_ids u) \<subseteq> set enf - set ex"
    and "\<forall>i \<in> set (unsat_row_ids u). is_valid_risk_row_id i"
proof -
  have all: "distinct (unsat_row_ids u) \<and> set (unsat_row_ids u) \<subseteq> set enf - set ex
      \<and> (\<forall>i \<in> set (unsat_row_ids u). is_valid_risk_row_id i)"
  proof (cases "ev = PNone \<or> (\<exists>e. parse_risk_test_matrix_evidence (Some identity) (Some enf) None None ev = Inl e)")
    case True
    then have "unsat_rows u = []" using assms by (auto simp: unsatisfied_rows_def)
    then show ?thesis by (simp add: unsat_row_ids_def)
  next
    case False
    then obtain parsed where p: "parse_risk_test_matrix_evidence (Some identity) (Some enf) None None ev = Inr parsed"
      by (cases "parse_risk_test_matrix_evidence (Some identity) (Some enf) None None ev") auto
    define out where "out = (if refs \<noteq> [] then apply_signed_evidence_references identity head refs parsed else parsed)"
    obtain rows where rows: "parse_rows evidence_context identity None None [] 0 rows = Inr (evidence_rows parsed)"
      using p by (auto simp: parse_risk_test_matrix_evidence_def bindE_Inr_iff Let_def case_PList_Inr
          simp del: key_value.simps)
    have ids: "map row_id (evidence_rows out) = map row_id (evidence_rows parsed)"
      by (auto simp: out_def apply_signed_evidence_references_def signed_row_def comp_def split: option.split)
    have u: "unsat_rows u = map (\<lambda>row. (row_id row, row_explanation ds row))
        (filter (\<lambda>row. row_id row \<in> set enf \<and> row_status row \<noteq> ''verified'' \<and> row_id row \<notin> set ex)
           (sort_key row_id (evidence_rows out)))"
      using assms False p by (auto simp: unsatisfied_rows_def out_def Let_def)
    have dist: "distinct (map row_id (sort_key row_id (evidence_rows out)))"
      using parse_rows_ok [OF rows] ids by (metis distinct_map distinct_sort set_sort)
    have val: "is_valid_risk_row_id (row_id r)" if "r \<in> set (evidence_rows out)" for r
    proof -
      have "row_id r \<in> set (map row_id (evidence_rows parsed))"
        using that ids by (metis imageI list.set_map)
      then show ?thesis using parse_rows_ok [OF rows] by (auto simp: evidence_row_ok_def)
    qed
    show ?thesis
      using dist val by (auto simp: unsat_row_ids_def u comp_def distinct_map_filter)
  qed
  then show "distinct (unsat_row_ids u)" "set (unsat_row_ids u) \<subseteq> set enf - set ex"
    "\<forall>i \<in> set (unsat_row_ids u). is_valid_risk_row_id i" by blast+
qed

section \<open>Properties\<close>

text \<open>When a round is evidence-only.  A round qualifies exactly when a matrix applies, evidence of
  the current head could be read and leaves at least one row unsatisfied, there is an open reviewer
  finding and every open finding is tagged with rows that all still are unsatisfied, the only open
  machine obligations are requests for human evidence, checks are known and neither fail nor stall,
  and no freeze is active.\<close>

theorem round_qualifies_iff:
  "qualifies (classify_round rnd head identity items u checks freeze_active bound) \<longleftrightarrow>
     (\<exists>i us. identity = Some i \<and> u = Some us \<and> unsat_reason us = None \<and> unsat_rows us \<noteq> []
        \<and> (\<forall>it \<in> set items. open_status (status it) \<and> \<not> is_machine_obligation it \<longrightarrow>
             evidence_row_ids it \<noteq> [] \<and> residual_evidence_row_ids it \<noteq> []
             \<and> set (residual_evidence_row_ids it) \<subseteq> set (unsat_row_ids us)))
     \<and> (\<exists>it \<in> set items. open_status (status it) \<and> \<not> is_machine_obligation it)
     \<and> (\<forall>it \<in> set items. open_status (status it) \<and> is_machine_obligation it \<longrightarrow>
          obligation_kind it = Some EVIDENCE_OBLIGATION_KIND)
     \<and> (\<exists>b. checks = Some b \<and> failing b = [] \<and> infrastructure_stalls b = [])
     \<and> \<not> freeze_active"
proof -
  have m: "machine_reasons (mandatory_items items) = [] \<longleftrightarrow>
      (\<forall>it \<in> set items. open_status (status it) \<and> is_machine_obligation it \<longrightarrow>
          obligation_kind it = Some EVIDENCE_OBLIGATION_KIND)"
    by (auto simp: machine_reasons_def mandatory_items_def)
  have f: "finding_reasons rows (mandatory_items items) = [] \<longleftrightarrow>
      (\<forall>it \<in> set items. open_status (status it) \<and> \<not> is_machine_obligation it \<longrightarrow>
          evidence_row_ids it \<noteq> [] \<and> residual_evidence_row_ids it \<noteq> []
          \<and> set (residual_evidence_row_ids it) \<subseteq> set rows)
      \<and> (\<exists>it \<in> set items. open_status (status it) \<and> \<not> is_machine_obligation it)" for rows
    by (auto simp: finding_reasons_def mandatory_items_def Let_def filter_empty_conv)
  have c: "check_reasons checks = [] \<longleftrightarrow> (\<exists>b. checks = Some b \<and> failing b = [] \<and> infrastructure_stalls b = [])"
    by (auto simp: check_reasons_def split: option.splits)
  have r: "row_reasons identity u = [] \<longleftrightarrow>
      (\<exists>i us. identity = Some i \<and> u = Some us \<and> unsat_reason us = None \<and> unsat_rows us \<noteq> [])"
    by (auto simp: row_reasons_def split: option.splits if_splits)
  have us: "usable_rows identity u = unsat_row_ids v"
    if "identity = Some i" "u = Some v" "unsat_reason v = None" "unsat_rows v \<noteq> []" for i v
    using that by (simp add: usable_rows_def)
  have q: "qualifies (classify_round rnd head identity items u checks freeze_active bound) \<longleftrightarrow>
      row_reasons identity u = [] \<and> machine_reasons (mandatory_items items) = []
      \<and> finding_reasons (usable_rows identity u) (mandatory_items items) = []
      \<and> check_reasons checks = [] \<and> \<not> freeze_active"
    by (simp add: classify_round_def Let_def)
  show ?thesis
  proof (cases "\<exists>i us. identity = Some i \<and> u = Some us \<and> unsat_reason us = None \<and> unsat_rows us \<noteq> []")
    case True
    then obtain i v where v: "identity = Some i" "u = Some v" "unsat_reason v = None" "unsat_rows v \<noteq> []"
      by blast
    have usable: "usable_rows identity u = unsat_row_ids v" by (rule us [OF v])
    show ?thesis unfolding q m f c r usable using v by auto
  next
    case False
    then show ?thesis unfolding q r by blast
  qed
qed

definition ex_board :: check_board where
  "ex_board = \<lparr>failing = [], infrastructure_stalls = []\<rparr>"

definition ex_unsatisfied :: unsatisfied where
  "ex_unsatisfied = \<lparr>unsat_rows = [(''row-1'', ''canonical-status:missing'')], unsat_reason = None\<rparr>"

theorem round_qualifies_iff_witness:
  "qualifies (classify_round 4 ''h'' (Some ''m'') [ex_finding\<lparr>evidence_row_ids := [''row-1'']\<rparr>]
      (Some ex_unsatisfied) (Some ex_board) False None)
   \<and> \<not> qualifies (classify_round 4 ''h'' (Some ''m'') [ex_finding] (Some ex_unsatisfied) (Some ex_board) False None)"
proof -
  have "is_machine_obligation (ex_finding\<lparr>evidence_row_ids := rs\<rparr>) = False"
    "open_status (status (ex_finding\<lparr>evidence_row_ids := rs\<rparr>))"
    "residual_evidence_row_ids (ex_finding\<lparr>evidence_row_ids := rs\<rparr>) = rs"
    "evidence_row_ids (ex_finding\<lparr>evidence_row_ids := rs\<rparr>) = rs" for rs
    by (simp_all add: is_machine_obligation_def open_status_def residual_evidence_row_ids_def ex_finding_def)
  moreover from this [of "[]"] have "\<not> is_machine_obligation ex_finding" "open_status (status ex_finding)"
    "evidence_row_ids ex_finding = []"
    by (simp_all add: is_machine_obligation_def open_status_def ex_finding_def)
  moreover have "unsat_reason ex_unsatisfied = None" "unsat_rows ex_unsatisfied \<noteq> []"
    "unsat_row_ids ex_unsatisfied = [''row-1'']" "failing ex_board = []" "infrastructure_stalls ex_board = []"
    by (simp_all add: ex_unsatisfied_def unsat_row_ids_def ex_board_def)
  ultimately show ?thesis unfolding round_qualifies_iff by simp
qed

text \<open>C10: When the detector stops.  It stops exactly when the limit is positive, the current round
  qualifies, and each of the preceding rounds that the limit asks for exists and has a consistent,
  valid snapshot of that very round that qualifies with the same matrix identity and the same rows.
  A missing or corrupt snapshot in between always ends the run, and no run reaches before round 1.\<close>

theorem stall_stops_iff:
  "stop (stall_window_of cur prior k) \<longleftrightarrow>
     0 < k \<and> qualifies cur \<and> (k = 1 \<or> k \<le> review_round cur)
     \<and> (\<forall>n. review_round cur - k < n \<and> n < review_round cur \<longrightarrow> continues_run cur prior n)"
proof (cases "qualifies cur \<and> 0 < k")
  case False
  then show ?thesis by (auto simp: stall_window_of_def Let_def)
next
  case True
  let ?n = "nat (review_round cur - 1)" and ?m = "nat (k - 1)"
  have "stop (stall_window_of cur prior k) \<longleftrightarrow> ?m \<le> run_before cur prior ?n"
    using True by (auto simp: stall_window_of_def Let_def)
  also have "\<dots> \<longleftrightarrow> ?m \<le> ?n \<and> (\<forall>j. ?n - ?m < j \<and> j \<le> ?n \<longrightarrow> continues_run cur prior (int j))"
    by (rule run_before_ge_iff)
  also have "\<dots> \<longleftrightarrow> (k = 1 \<or> k \<le> review_round cur)
      \<and> (\<forall>n. review_round cur - k < n \<and> n < review_round cur \<longrightarrow> continues_run cur prior n)"
  proof (cases "k = 1")
    case True
    then show ?thesis by auto
  next
    case False
    show ?thesis
    proof (cases "k \<le> review_round cur")
      case True
      have "(\<forall>j. ?n - ?m < j \<and> j \<le> ?n \<longrightarrow> continues_run cur prior (int j)) \<longleftrightarrow>
          (\<forall>n. review_round cur - k < n \<and> n < review_round cur \<longrightarrow> continues_run cur prior n)"
      proof (intro iffI allI impI)
        fix n assume all: "\<forall>j. ?n - ?m < j \<and> j \<le> ?n \<longrightarrow> continues_run cur prior (int j)"
          and n: "review_round cur - k < n \<and> n < review_round cur"
        have "?n - ?m < nat n \<and> nat n \<le> ?n" using n True \<open>qualifies cur \<and> 0 < k\<close> by auto
        with all have "continues_run cur prior (int (nat n))" by blast
        moreover have "int (nat n) = n" using n True by simp
        ultimately show "continues_run cur prior n" by simp
      next
        fix j assume all: "\<forall>n. review_round cur - k < n \<and> n < review_round cur \<longrightarrow> continues_run cur prior n"
          and j: "?n - ?m < j \<and> j \<le> ?n"
        have "review_round cur - k < int j \<and> int j < review_round cur"
          using j True \<open>qualifies cur \<and> 0 < k\<close> by linarith
        then show "continues_run cur prior (int j)" using all by blast
      qed
      then show ?thesis using True \<open>qualifies cur \<and> 0 < k\<close> by auto
    next
      case False
      then show ?thesis using \<open>k \<noteq> 1\<close> \<open>qualifies cur \<and> 0 < k\<close> by auto
    qed
  qed
  finally show ?thesis using True by simp
qed

definition ex_snapshot :: "int \<Rightarrow> stall_snapshot" where
  "ex_snapshot n = \<lparr>review_round = n, review_head = ''h'', snap_matrix_identity = ''m'', qualifies = True,
     unsatisfied_row_ids = [''row-1''], reasons = [], bound_attempt_round = None\<rparr>"

lemma ex_snapshot_continues:
  "continues_run (ex_snapshot 5) (\<lambda>n. Some (snapshot_to_payload (ex_snapshot n))) n"
  by (simp add: continues_run_def snapshot_to_payload_def ex_snapshot_def is_dict_def
      snapshot_is_consistent_def counted_ids_def nonblank_def strip_def lstrip_def rstrip_def is_space_def)

theorem stall_stops_iff_witness:
  "stop (stall_window_of (ex_snapshot 5) (\<lambda>n. Some (snapshot_to_payload (ex_snapshot n))) 3)
   \<and> \<not> stop (stall_window_of (ex_snapshot 2) (\<lambda>n. None) 3)"
  unfolding stall_stops_iff using ex_snapshot_continues by (simp add: ex_snapshot_def)

text \<open>A round written down is found again.  A qualifying round that was classified on rows read
  from evidence is a consistent snapshot once persisted, and continues the run of any later round
  with the same matrix identity and the same set of rows.\<close>

theorem persisted_round_continues:
  assumes "s = classify_round rnd head (Some identity) items
      (Some (unsatisfied_rows ev diagnostics enforceable identity excluded refs evhead)) checks freeze bound"
    and "qualifies s" and "nonblank head" and "nonblank identity"
    and "\<forall>b. bound = Some b \<longrightarrow> 1 \<le> b \<and> b \<le> rnd"
    and "prior rnd = Some (snapshot_to_payload s)"
    and "snap_matrix_identity cur = identity"
    and "sort (unsatisfied_row_ids cur) = sort (unsatisfied_row_ids s)"
  shows "snapshot_is_consistent (snapshot_to_payload s) \<and> continues_run cur prior rnd"
proof -
  let ?u = "unsatisfied_rows ev diagnostics enforceable identity excluded refs evhead"
  let ?p = "snapshot_to_payload s"
  have why: "reasons s = []" and sets: "review_round s = rnd" "review_head s = head"
    "snap_matrix_identity s = identity" "bound_attempt_round s = bound"
    "unsatisfied_row_ids s = usable_rows (Some identity) (Some ?u)"
    using assms(1,2) by (simp_all add: classify_round_def Let_def sorted_set_def)
  have "row_reasons (Some identity) (Some ?u) = []"
    using assms(1,2) by (simp add: classify_round_def Let_def)
  then have u: "unsat_reason ?u = None" "unsat_rows ?u \<noteq> []"
    by (auto simp: row_reasons_def split: option.splits if_splits)
  then have ids: "unsatisfied_row_ids s = unsat_row_ids ?u" by (simp add: sets usable_rows_def)
  note facts = unsatisfied_rows_ids [OF refl, of ev diagnostics enforceable identity excluded refs evhead]
  have ne: "unsatisfied_row_ids s \<noteq> []" using u ids by (simp add: unsat_row_ids_def) (metis length_map length_sort list.size(3) length_0_conv)
  have nb: "nonblank i" if "i \<in> set (unsatisfied_row_ids s)" for i
  proof -
    have "is_valid_risk_row_id i" using that facts(3) ids by auto
    then obtain c cs where "i = c # cs" "is_alnum c" by (cases i) (auto simp: is_valid_risk_row_id_def)
    moreover have "\<not> is_space c" using \<open>is_alnum c\<close>
      by (auto simp: is_alnum_def is_upper_def is_lower_def is_digit_def is_space_def)
    ultimately show ?thesis by (intro nonblank_char [of c]) simp_all
  qed
  have g: "py_get ?p ''qualifies'' = PBool True" "py_get ?p ''reasons'' = PList []"
    "py_get ?p ''unsatisfied_row_ids'' = PList (map PStr (sort (unsatisfied_row_ids s)))"
    "py_get ?p ''review_head'' = PStr head" "py_get ?p ''matrix_identity'' = PStr identity"
    "py_get ?p ''review_round'' = PInt rnd" "py_get ?p ''invalid'' = PNone" "is_dict ?p"
    using assms(2) why sets by (simp_all add: snapshot_to_payload_def is_dict_def split: option.split)
  have b: "''bound_attempt_round'' \<in> fst ` set (py_items ?p) \<longrightarrow>
      bound_round_ok (py_get ?p ''bound_attempt_round'') (PInt rnd)"
    using assms(5) sets by (auto simp: snapshot_to_payload_def bound_round_ok_def split: option.splits)
  have dist: "distinct (unsatisfied_row_ids s)" using facts(1) ids by simp
  have inj: "distinct (map PStr xs) = distinct xs" for xs by (simp add: distinct_map inj_on_def)
  have ne2: "sort (unsatisfied_row_ids s) \<noteq> []" using ne by (metis set_empty set_sort)
  have con: "snapshot_is_consistent ?p"
    unfolding snapshot_is_consistent_def g
    using b nb dist ne2 assms(3,4) by (simp add: inj)
  moreover have "continues_run cur prior rnd"
    using con g assms(6-8) by (simp add: continues_run_def counted_ids_def comp_def sorted_sort_id)
  ultimately show ?thesis by blast
qed

theorem persisted_round_continues_witness:
  "\<exists>s. snapshot_is_consistent (snapshot_to_payload s) \<and> unsatisfied_row_ids s = [''row-1'']"
proof -
  let ?u = "unsatisfied_rows ex_evidence_payload [] [''row-1''] ex_identity [] [] None"
  define s where "s = classify_round 4 ''h'' (Some ex_identity) [ex_finding\<lparr>evidence_row_ids := [''row-1'']\<rparr>]
      (Some ?u) (Some ex_board) False None"
  have ne: "ex_evidence_payload \<noteq> PNone" by (simp add: ex_evidence_payload_def)
  have u: "unsat_rows ?u = [(''row-1'', row_explanation [] ex_evidence_row)]" "unsat_reason ?u = None"
    using ne ex_evidence_parses
    by (simp_all add: unsatisfied_rows_def ex_evidence_row_def Let_def)
  have q: "qualifies s" and rows: "unsatisfied_row_ids s = [''row-1'']" and m: "snap_matrix_identity s = ex_identity"
    using u by (simp_all add: s_def classify_round_def Let_def row_reasons_def usable_rows_def unsat_row_ids_def
        machine_reasons_def finding_reasons_def mandatory_items_def check_reasons_def ex_board_def
        is_machine_obligation_def open_status_def residual_evidence_row_ids_def ex_finding_def)
  have nb: "nonblank ''h''" "nonblank ex_identity"
    by (simp_all add: nonblank_def ex_identity_def strip_def lstrip_def rstrip_def is_space_def numeral_eq_Suc)
  from persisted_round_continues [OF s_def q nb, of "\<lambda>_. Some (snapshot_to_payload s)" s] m rows
  show ?thesis by auto
qed

end
