(* ===== verification/Reviewer_Floor.thy ===== *)
theory Reviewer_Floor
  imports Prelude "HOL-Library.Multiset"
begin

text \<open>
  The effective reviewer-board floor (\<open>reviewer_floor.py\<close>): how many reviewers and distinct
  providers a board needs after signed amendments, and the refusal of a board below it.  The
  configuration's two options and the seats of its board are arguments.
\<close>

record board_seat =
  seat_id :: string
  backend :: string
  model_chain :: "string option list option"
  effort :: "string option"

definition binding_known :: "board_seat \<Rightarrow> bool" where
  "binding_known s \<longleftrightarrow> model_chain s \<noteq> None"

record board_authorization =
  seats :: "board_seat list"
  lowered_reviewers :: bool
  lowered_providers :: bool

datatype floor_error = BoardBelowFloor string

definition distinct_providers :: "board_seat list \<Rightarrow> nat" where
  "distinct_providers ss = length (remdups (map backend ss))"

definition board_floor_enabled :: "int option \<Rightarrow> int option \<Rightarrow> bool" where
  "board_floor_enabled min_reviewers min_providers \<longleftrightarrow> min_reviewers \<noteq> None \<or> min_providers \<noteq> None"

definition or_zero :: "int option \<Rightarrow> int" where
  "or_zero v = (case v of None \<Rightarrow> 0 | Some n \<Rightarrow> n)"

definition relax :: "board_authorization \<Rightarrow> int \<times> int \<Rightarrow> int \<times> int" where
  "relax a rp =
     (let (r, p) = rp in
      (if lowered_reviewers a then min r (int (length (seats a))) else r,
       if lowered_providers a then min p (int (distinct_providers (seats a))) else p))"

definition required_floor :: "int option \<Rightarrow> int option \<Rightarrow> board_authorization list \<Rightarrow> int \<times> int" where
  "required_floor min_reviewers min_providers auths =
     fold relax auths (or_zero min_reviewers, or_zero min_providers)"

definition seat_text :: "board_seat \<Rightarrow> string" where
  "seat_text s = seat_id s @ '' ('' @ backend s @ '')''"

definition floor_problems :: "board_seat list \<Rightarrow> int \<times> int \<Rightarrow> string list" where
  "floor_problems ss required =
     (if int (length ss) < fst required
      then [nat_str (length ss) @ '' reviewer(s) is below the floor of '' @ int_str (fst required)] else [])
     @ (if int (distinct_providers ss) < snd required
      then [nat_str (distinct_providers ss) @ '' distinct provider(s) is below the floor of ''
            @ int_str (snd required)] else [])"

definition check_reviewer_floor ::
  "board_seat list \<Rightarrow> int option \<Rightarrow> int option \<Rightarrow> board_authorization list \<Rightarrow> string \<Rightarrow> floor_error + unit" where
  "check_reviewer_floor ss min_reviewers min_providers auths context =
     (if min_reviewers = None \<and> min_providers = None then Inr ()
      else
        let problems = floor_problems ss (required_floor min_reviewers min_providers auths);
            board = (if ss = [] then ''(empty)'' else join '', '' (map seat_text ss))
        in guardE (problems \<noteq> [])
             (BoardBelowFloor (context @ '' '' @ board @ '': '' @ join ''; '' problems
                @ ''. No agent was invoked and no comment was posted. Configure a larger board, or post a ''
                @ ''signed reviewer-board amendment to authorize a smaller one.''))
           (Inr ()))"

definition enforce_configured_board_floor ::
  "board_seat list \<Rightarrow> int option \<Rightarrow> int option \<Rightarrow> board_authorization list \<Rightarrow> string \<Rightarrow> floor_error + unit" where
  "enforce_configured_board_floor ss min_reviewers min_providers auths context =
     (if \<not> board_floor_enabled min_reviewers min_providers then Inr ()
      else check_reviewer_floor ss min_reviewers min_providers auths context)"

section \<open>Facts\<close>

lemma distinct_providers_card: "distinct_providers ss = card (backend ` set ss)"
  by (simp add: distinct_providers_def length_remdups_card_conv)

text \<open>What is required, as a bound on the board: every measure at the smallest of the configured
  minimum and the boards that lowered it.\<close>

lemma required_floor_le:
  "m \<le> fst (fold relax auths (r, p)) \<longleftrightarrow>
     m \<le> r \<and> (\<forall>a \<in> set auths. lowered_reviewers a \<longrightarrow> m \<le> int (length (seats a)))"
  "m \<le> snd (fold relax auths (r, p)) \<longleftrightarrow>
     m \<le> p \<and> (\<forall>a \<in> set auths. lowered_providers a \<longrightarrow> m \<le> int (distinct_providers (seats a)))"
  by (induction auths arbitrary: r p) (auto simp: relax_def Let_def)

lemma floor_problems_Nil:
  "floor_problems ss (r, p) = [] \<longleftrightarrow> r \<le> int (length ss) \<and> p \<le> int (distinct_providers ss)"
  by (auto simp: floor_problems_def)

section \<open>Properties\<close>

text \<open>When a board is accepted.  With a floor configured, a board is accepted exactly when each
  measure is met by the board itself, or some signed amendment lowered that very measure to a board
  no larger than this one.  An amendment that lowered only the reviewers never relaxes the providers,
  and the other way round; without a floor every board is accepted.\<close>

theorem board_accepted_iff:
  "is_ok (enforce_configured_board_floor ss mr mp auths context) \<longleftrightarrow>
     (or_zero mr \<le> int (length ss)
        \<or> (\<exists>a \<in> set auths. lowered_reviewers a \<and> length (seats a) \<le> length ss))
     \<and> (or_zero mp \<le> int (card (backend ` set ss))
        \<or> (\<exists>a \<in> set auths. lowered_providers a \<and> card (backend ` set (seats a)) \<le> card (backend ` set ss)))"
proof (cases "mr = None \<and> mp = None")
  case True
  then show ?thesis by (simp add: enforce_configured_board_floor_def board_floor_enabled_def or_zero_def)
next
  case False
  obtain r p where rp: "required_floor mr mp auths = (r, p)" by fastforce
  have r: "r \<le> n \<longleftrightarrow> or_zero mr \<le> n \<or> (\<exists>a \<in> set auths. lowered_reviewers a \<and> int (length (seats a)) \<le> n)" for n
    using required_floor_le(1) [of "n + 1" auths "or_zero mr" "or_zero mp"] rp
    by (auto simp: required_floor_def) (force+)?
  have p: "p \<le> n \<longleftrightarrow> or_zero mp \<le> n \<or> (\<exists>a \<in> set auths. lowered_providers a \<and> int (distinct_providers (seats a)) \<le> n)" for n
    using required_floor_le(2) [of "n + 1" auths "or_zero mr" "or_zero mp"] rp
    by (auto simp: required_floor_def) (force+)?
  have "is_ok (enforce_configured_board_floor ss mr mp auths context) \<longleftrightarrow>
      floor_problems ss (r, p) = []"
    using False rp
    by (auto simp: enforce_configured_board_floor_def board_floor_enabled_def check_reviewer_floor_def
        is_ok_iff Let_def)
  then show ?thesis using False by (simp add: floor_problems_Nil r p distinct_providers_card)
qed

text \<open>The floor does not depend on the order in which signed amendments or seats are read, and more
  amendments can only lower it.\<close>

theorem floor_order_independent:
  "(mset auths = mset auths' \<longrightarrow> required_floor mr mp auths = required_floor mr mp auths')
   \<and> (set auths \<subseteq> set auths' \<longrightarrow>
        fst (required_floor mr mp auths') \<le> fst (required_floor mr mp auths)
        \<and> snd (required_floor mr mp auths') \<le> snd (required_floor mr mp auths))
   \<and> (mset ss = mset ss' \<longrightarrow>
        is_ok (check_reviewer_floor ss mr mp auths c) = is_ok (check_reviewer_floor ss' mr mp auths c))"
proof (intro conjI impI)
  have le: "fst (required_floor mr mp bs) \<le> fst (required_floor mr mp as)
      \<and> snd (required_floor mr mp bs) \<le> snd (required_floor mr mp as)" if "set as \<subseteq> set bs" for as bs
    unfolding required_floor_def
    using that required_floor_le(1) [of "fst (fold relax bs (or_zero mr, or_zero mp))"]
      required_floor_le(2) [of "snd (fold relax bs (or_zero mr, or_zero mp))"] by blast
  show "mset auths = mset auths' \<Longrightarrow> required_floor mr mp auths = required_floor mr mp auths'"
  proof -
    assume "mset auths = mset auths'"
    then have "set auths = set auths'" by (metis set_mset_mset)
    then show ?thesis using le [of auths auths'] le [of auths' auths] by (simp add: prod_eq_iff)
  qed
  assume "set auths \<subseteq> set auths'"
  then show "fst (required_floor mr mp auths') \<le> fst (required_floor mr mp auths)"
    and "snd (required_floor mr mp auths') \<le> snd (required_floor mr mp auths)" using le by blast+
next
  assume "mset ss = mset ss'"
  then have "length ss = length ss'" "distinct_providers ss = distinct_providers ss'"
    by (metis size_mset, metis distinct_providers_card set_mset_mset)
  moreover obtain r p where "required_floor mr mp auths = (r, p)" by fastforce
  ultimately show "is_ok (check_reviewer_floor ss mr mp auths c) = is_ok (check_reviewer_floor ss' mr mp auths c)"
    by (simp add: check_reviewer_floor_def is_ok_iff Let_def floor_problems_Nil)
qed

definition ex_seat :: "string \<Rightarrow> string \<Rightarrow> board_seat" where
  "ex_seat i b = \<lparr>seat_id = i, backend = b, model_chain = None, effort = None\<rparr>"

theorem board_accepted_iff_witness:
  "\<not> is_ok (enforce_configured_board_floor [ex_seat ''a'' ''claude'', ex_seat ''b'' ''claude''] (Some 2) (Some 2) [] ''Board'')
   \<and> is_ok (enforce_configured_board_floor [ex_seat ''a'' ''claude'', ex_seat ''b'' ''codex''] (Some 2) (Some 2) [] ''Board'')"
  unfolding board_accepted_iff by (simp add: ex_seat_def or_zero_def)

theorem floor_order_independent_witness:
  "required_floor (Some 3) None
      [\<lparr>seats = [ex_seat ''a'' ''claude''], lowered_reviewers = True, lowered_providers = False\<rparr>,
       \<lparr>seats = [], lowered_reviewers = False, lowered_providers = True\<rparr>]
   = required_floor (Some 3) None
      [\<lparr>seats = [], lowered_reviewers = False, lowered_providers = True\<rparr>,
       \<lparr>seats = [ex_seat ''a'' ''claude''], lowered_reviewers = True, lowered_providers = False\<rparr>]"
  using floor_order_independent
    [of "[\<lparr>seats = [ex_seat ''a'' ''claude''], lowered_reviewers = True, lowered_providers = False\<rparr>,
       \<lparr>seats = [], lowered_reviewers = False, lowered_providers = True\<rparr>]"
      "[\<lparr>seats = [], lowered_reviewers = False, lowered_providers = True\<rparr>,
       \<lparr>seats = [ex_seat ''a'' ''claude''], lowered_reviewers = True, lowered_providers = False\<rparr>]"
      "Some 3" None "[]" "[]" "[]"] by simp

end
