(* ===== verification/Text_Ops.thy ===== *)
theory Text_Ops
  imports Prelude
begin

text \<open>
  String operations of the standard library that several components share: \<open>lower\<close>, substring
  search, \<open>replace\<close>, \<open>count\<close>, \<open>rsplit\<close>, \<open>endswith\<close>, \<open>strip\<close> with a set of characters, and the runs
  of word characters that \<open>re.findall\<close> returns.
\<close>

section \<open>Definitions\<close>

text \<open>\<open>str.lower\<close> on the modelled code points.\<close>

definition lower_char :: "char \<Rightarrow> char" where
  "lower_char c =
     (if 65 \<le> code c \<and> code c \<le> 90 \<or> 192 \<le> code c \<and> code c \<le> 222 \<and> code c \<noteq> 215
      then char_of (code c + 32) else c)"

definition py_lower :: "string \<Rightarrow> string" where
  "py_lower s = map lower_char s"

definition ends_with :: "string \<Rightarrow> string \<Rightarrow> bool" where
  "ends_with p s \<longleftrightarrow> starts_with (rev p) (rev s)"

text \<open>\<open>s.strip(chars)\<close>.\<close>

definition strip_chars :: "char set \<Rightarrow> string \<Rightarrow> string" where
  "strip_chars cs s = rev (dropWhile (\<lambda>c. c \<in> cs) (rev (dropWhile (\<lambda>c. c \<in> cs) s)))"

text \<open>\<open>p in s\<close>.\<close>

fun contains :: "string \<Rightarrow> string \<Rightarrow> bool" where
  "contains p [] = (p = [])"
| "contains p (c # cs) = (starts_with p (c # cs) \<or> contains p cs)"

text \<open>What follows the last occurrence: \<open>s.rsplit(p, 1)[-1]\<close> when \<open>p in s\<close>.\<close>

fun after_last :: "string \<Rightarrow> string \<Rightarrow> string option" where
  "after_last p [] = None"
| "after_last p (c # cs) =
     (case after_last p cs of
        Some t \<Rightarrow> Some t
      | None \<Rightarrow> if starts_with p (c # cs) then Some (drop (length p) (c # cs)) else None)"

text \<open>\<open>s.replace(p, r)\<close> and \<open>s.count(p)\<close> for a nonempty \<open>p\<close>; the number is how much of a match is left.\<close>

fun replace_from :: "string \<Rightarrow> string \<Rightarrow> nat \<Rightarrow> string \<Rightarrow> string" where
  "replace_from p r k [] = []"
| "replace_from p r (Suc k) (c # cs) = replace_from p r k cs"
| "replace_from p r 0 (c # cs) =
     (if starts_with p (c # cs) then r @ replace_from p r (length p - 1) cs
      else c # replace_from p r 0 cs)"

definition replace_all :: "string \<Rightarrow> string \<Rightarrow> string \<Rightarrow> string" where
  "replace_all p r s = replace_from p r 0 s"

fun count_from :: "string \<Rightarrow> nat \<Rightarrow> string \<Rightarrow> nat" where
  "count_from p k [] = 0"
| "count_from p (Suc k) (c # cs) = count_from p k cs"
| "count_from p 0 (c # cs) =
     (if starts_with p (c # cs) then Suc (count_from p (length p - 1) cs) else count_from p 0 cs)"

definition count_sub :: "string \<Rightarrow> string \<Rightarrow> nat" where
  "count_sub p s = count_from p 0 s"

text \<open>\<open>re.findall(r"[...]+", s)\<close> for a class of characters: the maximal runs.\<close>

fun runs_aux :: "(char \<Rightarrow> bool) \<Rightarrow> string \<Rightarrow> string \<Rightarrow> string list" where
  "runs_aux P w [] = (if w = [] then [] else [rev w])"
| "runs_aux P w (c # cs) =
     (if P c then runs_aux P (c # w) cs
      else if w = [] then runs_aux P [] cs else rev w # runs_aux P [] cs)"

definition runs :: "(char \<Rightarrow> bool) \<Rightarrow> string \<Rightarrow> string list" where
  "runs P s = runs_aux P [] s"

definition is_ascii_digit :: "char \<Rightarrow> bool" where
  "is_ascii_digit c \<longleftrightarrow> 48 \<le> code c \<and> code c \<le> 57"

definition is_ascii_lower :: "char \<Rightarrow> bool" where
  "is_ascii_lower c \<longleftrightarrow> 97 \<le> code c \<and> code c \<le> 122"

text \<open>\<open>re.fullmatch\<close> of a fixed-length lower-case hexadecimal pattern.\<close>

definition is_hex :: "char \<Rightarrow> bool" where
  "is_hex c \<longleftrightarrow> is_ascii_digit c \<or> 97 \<le> code c \<and> code c \<le> 102"

definition hex_of_length :: "nat \<Rightarrow> string \<Rightarrow> bool" where
  "hex_of_length n s \<longleftrightarrow> length s = n \<and> (\<forall>c \<in> set s. is_hex c)"

section \<open>Facts\<close>

lemma starts_with_iff: "starts_with p s \<longleftrightarrow> (\<exists>t. s = p @ t)"
  unfolding starts_with_def by (metis append_eq_conv_conj append_take_drop_id)

lemma ends_with_iff: "ends_with p s \<longleftrightarrow> (\<exists>t. s = t @ p)"
proof -
  have "(\<exists>t. rev s = rev p @ t) \<longleftrightarrow> (\<exists>t. s = t @ p)"
    by (metis rev_append rev_rev_ident)
  then show ?thesis by (simp add: ends_with_def starts_with_iff)
qed

lemma contains_iff: "contains p s \<longleftrightarrow> (\<exists>a b. s = a @ p @ b)"
proof (induction s)
  case Nil
  then show ?case by simp
next
  case (Cons c cs)
  note Cons_IH = Cons.IH
  show ?case
  proof
    assume "contains p (c # cs)"
    then show "\<exists>a b. c # cs = a @ p @ b"
      using Cons by (auto simp: starts_with_iff) (metis append_Cons append_Nil)+
  next
    assume "\<exists>a b. c # cs = a @ p @ b"
    then obtain a b where ab: "c # cs = a @ p @ b" by blast
    show "contains p (c # cs)"
    proof (cases a)
      case Nil
      then have "starts_with p (c # cs)" using ab unfolding starts_with_iff by auto
      then show ?thesis by simp
    next
      case (Cons x xs)
      then have "contains p cs" using ab Cons_IH by auto
      then show ?thesis by simp
    qed
  qed
qed

lemma after_last_suffix: "after_last p s = Some t \<Longrightarrow> \<exists>a. s = a @ p @ t"
proof (induction s arbitrary: t)
  case (Cons c cs)
  show ?case
  proof (cases "after_last p cs")
    case None
    then show ?thesis using Cons.prems by (auto simp: starts_with_iff split: if_splits)
  next
    case (Some u)
    then show ?thesis using Cons by (metis after_last.simps(2) append_Cons option.simps(5))
  qed
qed simp

lemma runs_aux_chars:
  "w \<in> set (runs_aux P v s) \<Longrightarrow> \<forall>c \<in> set v. P c \<Longrightarrow> w \<noteq> [] \<and> (\<forall>c \<in> set w. P c)"
proof (induction s arbitrary: v)
  case Nil
  then show ?case by (auto split: if_splits)
next
  case (Cons c cs)
  show ?case
  proof (cases "P c")
    case True
    then show ?thesis using Cons.IH [of "c # v"] Cons.prems by simp
  next
    case False
    then show ?thesis using Cons.IH [of "[]"] Cons.prems by (cases "v = []") auto
  qed
qed

lemma runs_chars: "w \<in> set (runs P s) \<Longrightarrow> w \<noteq> [] \<and> (\<forall>c \<in> set w. P c)"
  unfolding runs_def by (rule runs_aux_chars) auto

end
