(* ===== verification/CI_Health.thy ===== *)
theory CI_Health
  imports Text_Ops
begin

text \<open>
  What the check board of a pull request says (\<open>ci_health.py\<close>), and where the loop sends a failure
  after approval (\<open>pr_loop_decisions.py\<close>): to the coder, to one rerun, back to watching, or to a
  stop on infrastructure.

  Times are microseconds.  \<open>clock\<close> is \<open>datetime.fromisoformat\<close>: the instant of a timestamp, as UTC
  when it names no zone.  The dash of a message, which is outside the modelled code points, is
  written as the character 0x97.
\<close>

section \<open>The board\<close>

record pr_check =
  check_name :: string
  check_kind :: string
  check_status :: string
  check_url :: "string option"
  check_id :: "int option"
  check_run_id :: "string option"
  created_at :: "string option"
  started_at :: "string option"
  completed_at :: "string option"
  creator_login :: "string option"
  creator_id :: "int option"
  check_description :: "string option"
  check_suite_id :: "int option"
  app_slug :: "string option"

record stalled_check =
  stall_name :: string
  stall_kind :: string
  stall_reason_of :: string
  stall_check_id :: "int option"
  stall_run_id :: "string option"
  stall_url :: "string option"
  stall_age :: "int option"

record pr_checks =
  board_state :: string
  required_checks :: "string list"
  passing :: "pr_check list"
  pending_checks :: "pr_check list"
  failing :: "pr_check list"
  missing_required :: "string list"
  protection_status :: string
  protection_note :: "string option"
  query_status :: string
  query_errors :: "string list"
  infrastructure_stalls :: "stalled_check list"
  shadowed :: "pr_check list"
  listing_complete :: bool
  excluded_checks :: "pr_check list"
  exclusion_notes :: "string list"

definition lower_status :: "pr_check \<Rightarrow> string" where
  "lower_status c = py_lower (strip (check_status c))"

definition nonempty :: "string option \<Rightarrow> bool" where
  "nonempty s \<longleftrightarrow> s \<noteq> None \<and> s \<noteq> Some []"

definition format_age :: "int option \<Rightarrow> string" where
  "format_age age = (case age of None \<Rightarrow> ''for an unknown duration'' | Some us \<Rightarrow> int_str (us div 60000000) @ ''m'')"

definition describe_stall :: "stalled_check \<Rightarrow> string" where
  "describe_stall s =
     (let parts = (case stall_check_id s of Some n \<Rightarrow> [''check run '' @ int_str n] | None \<Rightarrow> [])
            @ (case stall_run_id s of Some n \<Rightarrow> [''workflow run '' @ n] | None \<Rightarrow> [])
            @ (if nonempty (stall_url s) then [the (stall_url s)] else []);
          location = (if parts \<noteq> [] then '' ('' @ join '', '' parts @ '')'' else []);
          detail = (if stall_reason_of s = ''queued_too_long''
                    then ''queued '' @ format_age (stall_age s) @ '' without starting a job''
                    else ''cancelled before any job started (runner unavailable)'')
      in stall_name s @ location @ '' '' @ [CHR 0x97] @ '' '' @ detail)"

definition stall_identifiers :: "stalled_check \<Rightarrow> string list" where
  "stall_identifiers s =
     dict_fromkeys (filter (\<lambda>n. n \<noteq> [])
       ([stall_name s] @ (case stall_run_id s of Some n \<Rightarrow> [n] | None \<Rightarrow> [])
        @ (case stall_check_id s of Some n \<Rightarrow> [int_str n] | None \<Rightarrow> [])
        @ (case stall_url s of Some n \<Rightarrow> [n] | None \<Rightarrow> [])))"

definition EXCLUSION_NOTE_SUFFIX :: string where
  "EXCLUSION_NOTE_SUFFIX = '': not a PR check''"

definition partition_exclusion_notes :: "pr_checks \<Rightarrow> string list \<times> string list" where
  "partition_exclusion_notes b =
     (let exclusions = filter (ends_with EXCLUSION_NOTE_SUFFIX) (exclusion_notes b)
      in (if excluded_checks b \<noteq> [] \<and> exclusions = []
          then map (\<lambda>c. check_name c @ '' ('' @ py_lower (check_status c) @ '')'') (excluded_checks b)
          else exclusions,
          filter (\<lambda>n. \<not> ends_with EXCLUSION_NOTE_SUFFIX n) (exclusion_notes b)))"

section \<open>Stalls of the infrastructure\<close>

definition parse_timestamp :: "(string \<Rightarrow> int option) \<Rightarrow> string option \<Rightarrow> int option" where
  "parse_timestamp clock raw =
     (case raw of
        None \<Rightarrow> None
      | Some r \<Rightarrow>
          let txt = strip r in
          if r = [] \<or> txt = [] then None
          else if last txt \<in> {CHR ''Z'', CHR ''z''} then clock (butlast txt @ ''+00:00'') else clock txt)"

definition age_of :: "(string \<Rightarrow> int option) \<Rightarrow> int \<Rightarrow> string option \<Rightarrow> int option" where
  "age_of clock now created = map_option (\<lambda>t. max 0 (now - t)) (parse_timestamp clock created)"

definition QUEUED_LIKE_STATUSES :: "string list" where
  "QUEUED_LIKE_STATUSES = [''queued'', ''pending'', ''waiting'', ''requested'']"

definition UNSTARTED_CANCEL_CONCLUSIONS :: "string list" where
  "UNSTARTED_CANCEL_CONCLUSIONS = [''cancelled'', ''startup_failure'']"

definition stall_of :: "pr_check \<Rightarrow> string \<Rightarrow> int option \<Rightarrow> stalled_check" where
  "stall_of c why age =
     \<lparr>stall_name = check_name c, stall_kind = check_kind c, stall_reason_of = why,
      stall_check_id = check_id c, stall_run_id = check_run_id c, stall_url = check_url c,
      stall_age = age\<rparr>"

definition stall_check :: "(string \<Rightarrow> int option) \<Rightarrow> int \<Rightarrow> int \<Rightarrow> pr_check \<Rightarrow> stalled_check option" where
  "stall_check clock now grace_seconds c =
     (if check_kind c \<noteq> ''check_run'' then None
      else if lower_status c \<in> set UNSTARTED_CANCEL_CONCLUSIONS
              \<and> (started_at c = None \<or> started_at c = completed_at c)
      then Some (stall_of c ''runner_unavailable'' (age_of clock now (created_at c)))
      else if lower_status c \<in> set QUEUED_LIKE_STATUSES \<and> started_at c = None then
        (case age_of clock now (created_at c) of
           Some age \<Rightarrow> if age > grace_seconds * 1000000
                       then Some (stall_of c ''queued_too_long'' (Some age)) else None
         | None \<Rightarrow> None)
      else None)"

definition classify_ci_infrastructure_stall ::
  "(string \<Rightarrow> int option) \<Rightarrow> pr_check list \<Rightarrow> int \<Rightarrow> int \<Rightarrow> stalled_check list" where
  "classify_ci_infrastructure_stall clock checks now grace_seconds =
     List.map_filter (stall_check clock now grace_seconds) checks"

definition is_wholly_infrastructure_blocked :: "pr_checks \<Rightarrow> bool" where
  "is_wholly_infrastructure_blocked b =
     (if infrastructure_stalls b = [] then False
      else if missing_required b \<noteq> [] then False
      else if board_state b = ''unavailable'' then False
      else if protection_status b = ''unavailable'' then False
      else if query_status b \<noteq> ''ok'' then False
      else \<forall>c \<in> set (failing b @ pending_checks b).
             (check_kind c, check_name c)
               \<in> set (map (\<lambda>s. (stall_kind s, stall_name s)) (infrastructure_stalls b)))"

section \<open>Texts that only report a state\<close>

text \<open>
  The sentences the pattern of \<open>is_canonical_pending_only_text\<close> matches: one choice per slot.
\<close>

definition one_of_each :: "string list list \<Rightarrow> string list" where
  "one_of_each slots = foldr (\<lambda>xs ys. concat (map (\<lambda>x. map (\<lambda>y. x @ y) ys) xs)) slots [[]]"

definition ci_subjects :: "string list" where
  "ci_subjects =
     one_of_each [[''github''], [[], '' pr''], ['' check'', '' checks'', '' check status'']]
     @ [''ci'', ''ci check'', ''ci checks'']"

definition pending_statuses :: "string list" where
  "pending_statuses =
     [''pending'', ''pending/in_progress'', ''in progress'', ''in_progress'', ''queued'', ''running'',
      ''unavailable'', ''not yet reporting'']"

definition named_subjects :: "string list \<Rightarrow> string list" where
  "named_subjects names =
     (let given = map py_lower (filter nonblank names);
          named = map (\<lambda>n. [CHR 0x60] @ n @ [CHR 0x60]) given @ given
      in if given = [] then ci_subjects
         else one_of_each [ci_subjects, [] # map (\<lambda>n. '' '' @ n) named]
              @ map (\<lambda>n. ''check '' @ n) named @ named)"

definition is_canonical_pending_only_text :: "string \<Rightarrow> string list \<Rightarrow> bool" where
  "is_canonical_pending_only_text s names \<longleftrightarrow>
     s \<noteq> [] \<and> length s \<le> 400
     \<and> py_lower (strip s) \<in> set (one_of_each
          [[[], ''the ''], named_subjects names, ['' is '', '' are '', '' remain '', '' remains ''],
           [[], ''still '', ''currently ''], pending_statuses, [[], ''.'', ''!'']])"

definition STALL_SEMANTIC_PHRASES :: "string list" where
  "STALL_SEMANTIC_PHRASES =
     [''runner unavailable'', ''hosted runner'', ''never started'', ''did not start'',
      ''no runner'', ''before execution'', ''runner acquisition'', ''queued'', ''cancelled'',
      ''canceled'', ''runner'', ''capacity'']"

definition STALL_VOCABULARY_WORDS :: "string list" where
  "STALL_VOCABULARY_WORDS =
     [''queued'', ''cancelled'', ''canceled'', ''runner'', ''runners'', ''hosted'', ''never'',
      ''started'', ''starting'', ''start'', ''did'', ''no'', ''not'', ''unavailable'',
      ''before'', ''execution'', ''capacity'', ''acquire'', ''acquired'', ''acquisition'',
      ''recover'', ''recovers'', ''recovered'']"

definition FUNCTION_WORDS :: "string list" where
  "FUNCTION_WORDS =
     [''a'', ''an'', ''the'', ''and'', ''or'', ''but'', ''is'', ''was'', ''were'', ''this'',
      ''that'', ''these'', ''those'', ''for'', ''of'', ''to'', ''with'', ''without'', ''than'',
      ''over'', ''past'', ''its'', ''it'', ''has'', ''have'', ''had'', ''been'', ''being'',
      ''be'', ''still'', ''remains'', ''remained'', ''remain'', ''so'', ''because'', ''due'',
      ''on'', ''in'', ''at'', ''as'', ''any'', ''job'', ''jobs'', ''more'', ''external'',
      ''infrastructure'', ''issue'', ''since'', ''once'', ''will'', ''should'', ''resume'',
      ''after'', ''work'', ''affected'', ''which'', ''there'', ''not'', ''all'', ''one'',
      ''run'', ''runs'', ''runner'']"

definition CI_NOUNS :: "string list" where
  "CI_NOUNS =
     [''check'', ''checks'', ''workflow'', ''workflows'', ''run'', ''runs'', ''job'', ''jobs'',
      ''github'', ''actions'', ''ci'', ''infrastructure'', ''external'']"

definition TIME_UNITS :: "string list" where
  "TIME_UNITS =
     [''m'', ''min'', ''mins'', ''minute'', ''minutes'', ''h'', ''hr'', ''hrs'', ''hour'',
      ''hours'', ''s'', ''sec'', ''secs'', ''second'', ''seconds'']"

definition CLOSED_VOCABULARY :: "string list" where
  "CLOSED_VOCABULARY = STALL_VOCABULARY_WORDS @ FUNCTION_WORDS @ CI_NOUNS @ TIME_UNITS"

definition IDENTIFIER_SENTINEL :: string where
  "IDENTIFIER_SENTINEL = ''identsentinel''"

text \<open>\<open>https?://\S+\<close> replaced by a word; the number is how much of an address is left.\<close>

definition url_length :: "string \<Rightarrow> nat" where
  "url_length s =
     (let scheme = (if starts_with ''http://'' s then 7 else if starts_with ''https://'' s then 8 else 0);
          rest = length (takeWhile (\<lambda>c. \<not> is_space c) (drop scheme s))
      in if scheme = 0 \<or> rest = 0 then 0 else scheme + rest)"

fun hide_urls :: "nat \<Rightarrow> string \<Rightarrow> string" where
  "hide_urls k [] = []"
| "hide_urls (Suc k) (c # cs) = hide_urls k cs"
| "hide_urls 0 (c # cs) =
     (if url_length (c # cs) > 0 then '' url '' @ hide_urls (url_length (c # cs) - 1) cs
      else c # hide_urls 0 cs)"

text \<open>A space between two neighbours of two classes.\<close>

fun space_between :: "(char \<Rightarrow> bool) \<Rightarrow> (char \<Rightarrow> bool) \<Rightarrow> string \<Rightarrow> string" where
  "space_between P Q (c # d # cs) =
     (if P c \<and> Q d then c # CHR '' '' # space_between P Q (d # cs) else c # space_between P Q (d # cs))"
| "space_between P Q s = s"

text \<open>One identifier of the stalls: how often it occurs and the text without it.\<close>

definition hide_identifier :: "string \<Rightarrow> nat \<times> string \<Rightarrow> nat \<times> string" where
  "hide_identifier n acc =
     (if contains n (snd acc)
      then (fst acc + count_sub n (snd acc), replace_all n ('' '' @ IDENTIFIER_SENTINEL @ '' '') (snd acc))
      else acc)"

text \<open>
  The longest identifiers first.  Python leaves the order of equally long ones to the set; here it is
  the order of first occurrence.
\<close>

definition stall_names :: "stalled_check list \<Rightarrow> string list" where
  "stall_names stalls =
     rev (sort_key length (rev (dict_fromkeys (map py_lower (concat (map stall_identifiers stalls))))))"

definition stall_word :: "string \<Rightarrow> bool" where
  "stall_word w \<longleftrightarrow> w = IDENTIFIER_SENTINEL \<or> w = ''url'' \<or> (\<forall>c \<in> set w. is_ascii_digit c)
     \<or> w \<in> set CLOSED_VOCABULARY"

definition stall_words :: "string \<Rightarrow> string list" where
  "stall_words s = runs (\<lambda>c. is_ascii_lower c \<or> is_ascii_digit c)
     (space_between is_ascii_lower is_ascii_digit (space_between is_ascii_digit is_ascii_lower s))"

definition canonical_text :: "string \<Rightarrow> string" where
  "canonical_text s =
     strip_chars {CHR 0x60, CHR 0x27, CHR 0x22, CHR '' '', CHR 0x09}
       (dropWhile (\<lambda>c. is_space c \<or> c \<in> {CHR ''-'', CHR ''*'', CHR 0x60, CHR 0x27, CHR 0x22})
          (py_lower (strip s)))"

definition is_canonical_stall_only_text :: "string \<Rightarrow> stalled_check list \<Rightarrow> bool" where
  "is_canonical_stall_only_text s stalls =
     (if \<not> nonblank s \<or> length s > 400 \<or> canonical_text s = [] then False
      else let (hits, hidden) = fold hide_identifier (stall_names stalls) (0, canonical_text s)
           in if hits = 0 then False
              else let body = hide_urls 0 hidden in
                (\<exists>p \<in> set STALL_SEMANTIC_PHRASES. contains p body)
                \<and> (\<forall>w \<in> set (stall_words body). stall_word w))"

section \<open>Failures after approval\<close>

definition PASSED_STATUSES :: "string list" where
  "PASSED_STATUSES = [''success'', ''neutral'']"

definition check_name_matches :: "string \<Rightarrow> string list \<Rightarrow> bool" where
  "check_name_matches name names =
     (let candidates = filter (\<lambda>n. n \<noteq> []) names in
      if name = [] \<or> candidates = [] then False
      else if name \<in> set candidates then True
      else case after_last '' / '' name of
             None \<Rightarrow> False
           | Some segment \<Rightarrow> segment \<in> set candidates)"

definition board_tests_passed :: "pr_checks \<Rightarrow> string list \<Rightarrow> bool" where
  "board_tests_passed b plumbing =
     (\<forall>c \<in> set (passing b). \<not> check_name_matches (check_name c) plumbing
        \<longrightarrow> lower_status c \<in> set PASSED_STATUSES)"

definition check_key :: "pr_check \<Rightarrow> string \<times> string" where
  "check_key c = (check_kind c, check_name c)"

definition classify_watch_failure ::
  "pr_checks \<Rightarrow> string list \<Rightarrow> pr_check list \<Rightarrow> string list \<Rightarrow> string list \<Rightarrow> string" where
  "classify_watch_failure b plumbing stuck no_failed_jobs test_failures =
     (let stuck_keys = map check_key stuck;
          unsettled = filter (\<lambda>c. check_key c \<notin> set stuck_keys) (pending_checks b);
          tests = filter (\<lambda>c. \<not> check_name_matches (check_name c) plumbing) (passing b)
      in if (\<exists>c \<in> set (failing b). \<not> check_name_matches (check_name c) plumbing) then ''test-failure''
         else if (\<exists>k \<in> set stuck_keys. snd k \<in> set test_failures) then ''test-failure''
         else if \<not> (query_status b = ''ok'' \<and> listing_complete b
                    \<and> protection_status b \<in> {''configured'', ''not_found''} \<and> missing_required b = [])
         then ''not-classifiable''
         else if failing b = [] \<and> stuck_keys = [] then ''not-classifiable''
         else if stuck_keys \<noteq> [] \<and> (\<exists>k \<in> set stuck_keys. snd k \<in> set no_failed_jobs) then
           (if unsettled \<noteq> [] then ''plumbing-awaiting-tests'' else ''stuck-infrastructure'')
         else if \<not> board_tests_passed b plumbing then ''not-classifiable''
         else if unsettled \<noteq> [] then ''plumbing-awaiting-tests''
         else if tests = [] then ''not-classifiable''
         else ''plumbing-only'')"

definition FAILED_JOB_CONCLUSIONS :: "string list" where
  "FAILED_JOB_CONCLUSIONS = [''failure'', ''cancelled'', ''timed_out'', ''action_required'', ''startup_failure'']"

text \<open>A job is its name, its conclusion and its page.\<close>

definition classify_run_jobs ::
  "(string \<times> string \<times> string) list option \<Rightarrow> string list \<Rightarrow> bool \<Rightarrow> string" where
  "classify_run_jobs jobs plumbing require_passing_tests =
     (case jobs of
        None \<Rightarrow> ''not-classifiable''
      | Some js \<Rightarrow>
          let failed = filter (\<lambda>(n, c, u). c \<in> set FAILED_JOB_CONCLUSIONS) js;
              tests = filter (\<lambda>(n, c, u). \<not> check_name_matches n plumbing) js
          in if (\<exists>(n, c, u) \<in> set failed. \<not> check_name_matches n plumbing) then ''test-failure''
             else if failed = [] then ''no-failed-jobs''
             else if require_passing_tests \<and> (tests = [] \<or> (\<exists>(n, c, u) \<in> set tests. c \<noteq> ''success''))
             then ''not-classifiable''
             else ''plumbing-only'')"

definition route_post_approval_ci_failure :: "string option \<Rightarrow> bool \<Rightarrow> string" where
  "route_post_approval_ci_failure cls rerun_used =
     (if cls = Some ''plumbing-only'' then (if rerun_used then ''infra_stop'' else ''rerun_and_watch'')
      else if cls = Some ''stuck-infrastructure'' then ''infra_stop''
      else if cls = Some ''plumbing-awaiting-tests'' then ''hold''
      else ''coder'')"

text \<open>\<open>observation_is_stale\<close> lives in the GitHub reader and is an argument.\<close>

definition plumbing_rerun_decision ::
  "(pr_check \<Rightarrow> bool) \<Rightarrow> pr_check list \<Rightarrow> bool \<Rightarrow> bool \<Rightarrow> bool \<Rightarrow> string" where
  "plumbing_rerun_decision is_stale observations rerun_spent filter_stale budget_left =
     (if rerun_spent then
        (if filter (\<lambda>c. \<not> (filter_stale \<and> is_stale c)) observations = [] then ''watch'' else ''infra_stop'')
      else if budget_left then ''rerun'' else ''budget_exhausted'')"

section \<open>Facts\<close>

lemma check_name_matches_iff:
  "check_name_matches name names \<longleftrightarrow>
     name \<noteq> [] \<and> (name \<in> set names
        \<or> (\<exists>segment. after_last '' / '' name = Some segment \<and> segment \<noteq> [] \<and> segment \<in> set names))"
  by (auto simp: check_name_matches_def Let_def filter_empty_conv split: option.splits)

definition authoritative :: "pr_checks \<Rightarrow> bool" where
  "authoritative b \<longleftrightarrow> query_status b = ''ok'' \<and> listing_complete b
     \<and> protection_status b \<in> {''configured'', ''not_found''} \<and> missing_required b = []"

lemma classify_cases:
  "classify_watch_failure b plumbing stuck nfj tf \<in>
     {''test-failure'', ''plumbing-only'', ''plumbing-awaiting-tests'', ''stuck-infrastructure'', ''not-classifiable''}"
  by (simp add: classify_watch_failure_def Let_def)

definition test_failed :: "pr_checks \<Rightarrow> string list \<Rightarrow> pr_check list \<Rightarrow> string list \<Rightarrow> bool" where
  "test_failed b plumbing stuck tf \<longleftrightarrow>
     (\<exists>c \<in> set (failing b). \<not> check_name_matches (check_name c) plumbing)
     \<or> (\<exists>c \<in> set stuck. check_name c \<in> set tf)"

lemma classify_test_failure:
  "classify_watch_failure b plumbing stuck nfj tf = ''test-failure'' \<longleftrightarrow> test_failed b plumbing stuck tf"
  by (simp add: classify_watch_failure_def test_failed_def check_key_def Let_def)

lemma classify_plumbing_only:
  "classify_watch_failure b plumbing stuck nfj tf = ''plumbing-only'' \<longleftrightarrow>
     \<not> test_failed b plumbing stuck tf \<and> authoritative b \<and> (failing b \<noteq> [] \<or> stuck \<noteq> [])
     \<and> (\<forall>c \<in> set stuck. check_name c \<notin> set nfj)
     \<and> (\<forall>c \<in> set (pending_checks b). check_key c \<in> check_key ` set stuck)
     \<and> (\<exists>c \<in> set (passing b). \<not> check_name_matches (check_name c) plumbing)
     \<and> board_tests_passed b plumbing"
  by (auto simp: classify_watch_failure_def test_failed_def authoritative_def check_key_def Let_def filter_empty_conv)

lemma classify_stuck:
  "classify_watch_failure b plumbing stuck nfj tf = ''stuck-infrastructure'' \<longleftrightarrow>
     \<not> test_failed b plumbing stuck tf \<and> authoritative b \<and> (\<exists>c \<in> set stuck. check_name c \<in> set nfj)
     \<and> (\<forall>c \<in> set (pending_checks b). check_key c \<in> check_key ` set stuck)"
  by (auto simp: classify_watch_failure_def test_failed_def authoritative_def check_key_def Let_def filter_empty_conv)

lemma no_name_no_stall: "stall_names stalls = [] \<Longrightarrow> \<not> is_canonical_stall_only_text s stalls"
  by (simp add: is_canonical_stall_only_text_def)

section \<open>Properties\<close>

text \<open>Where a failure after approval goes.  It goes to the coder whenever a check that is not
  catalogued plumbing failed, or the producer of a stuck status had a failed test job.  One automatic
  rerun happens, and only if none was spent, exactly when the complete, readable board has a failure,
  all of it plumbing, nothing unsettled, at least one test, and no test that did not pass.  A stop on
  infrastructure needs the same certainty, or a stuck status whose producer failed no job and nothing
  else unsettled; the loop never stops or waits for a board it could not read completely.\<close>

theorem ci_failure_routing:
  defines "cls b plumbing stuck nfj tf \<equiv> Some (classify_watch_failure b plumbing stuck nfj tf)"
  shows "(test_failed b plumbing stuck tf \<longrightarrow>
          route_post_approval_ci_failure (cls b plumbing stuck nfj tf) used = ''coder'')
    \<and> (route_post_approval_ci_failure (cls b plumbing stuck nfj tf) used = ''rerun_and_watch'' \<longleftrightarrow>
         \<not> used \<and> authoritative b \<and> (failing b \<noteq> [] \<or> stuck \<noteq> []) \<and> \<not> test_failed b plumbing stuck tf
         \<and> (\<forall>c \<in> set stuck. check_name c \<notin> set nfj)
         \<and> (\<forall>c \<in> set (pending_checks b). check_key c \<in> check_key ` set stuck)
         \<and> (\<exists>c \<in> set (passing b). \<not> check_name_matches (check_name c) plumbing)
         \<and> (\<forall>c \<in> set (passing b). \<not> check_name_matches (check_name c) plumbing \<longrightarrow>
              lower_status c \<in> {''success'', ''neutral''}))
    \<and> (route_post_approval_ci_failure (cls b plumbing stuck nfj tf) used \<noteq> ''coder'' \<longrightarrow> authoritative b)
    \<and> (route_post_approval_ci_failure (cls b plumbing stuck nfj tf) used = ''infra_stop'' \<longrightarrow>
         \<not> test_failed b plumbing stuck tf
         \<and> (\<forall>c \<in> set (pending_checks b). check_key c \<in> check_key ` set stuck)
         \<and> (used \<or> (\<exists>c \<in> set stuck. check_name c \<in> set nfj)))"
proof -
  let ?c = "classify_watch_failure b plumbing stuck nfj tf"
  have route: "route_post_approval_ci_failure (Some ?c) used = ''rerun_and_watch'' \<longleftrightarrow> ?c = ''plumbing-only'' \<and> \<not> used"
    "route_post_approval_ci_failure (Some ?c) used = ''infra_stop'' \<longleftrightarrow>
       ?c = ''plumbing-only'' \<and> used \<or> ?c = ''stuck-infrastructure''"
    "route_post_approval_ci_failure (Some ?c) used = ''coder'' \<longleftrightarrow>
       ?c \<notin> {''plumbing-only'', ''stuck-infrastructure'', ''plumbing-awaiting-tests''}"
    by (simp_all add: route_post_approval_ci_failure_def)
  have wait: "?c = ''plumbing-awaiting-tests'' \<Longrightarrow> authoritative b"
    by (auto simp: classify_watch_failure_def authoritative_def Let_def split: if_splits)
  show ?thesis
    unfolding cls_def route classify_plumbing_only classify_stuck
    using wait classify_test_failure [of b plumbing stuck nfj tf]
      classify_plumbing_only [of b plumbing stuck nfj tf] classify_stuck [of b plumbing stuck nfj tf]
    by (auto simp: board_tests_passed_def PASSED_STATUSES_def)
qed

definition ex_check :: "string \<Rightarrow> string \<Rightarrow> pr_check" where
  "ex_check name st =
     \<lparr>check_name = name, check_kind = ''check_run'', check_status = st, check_url = None, check_id = None,
      check_run_id = None, created_at = None, started_at = None, completed_at = None, creator_login = None,
      creator_id = None, check_description = None, check_suite_id = None, app_slug = None\<rparr>"

definition ex_board :: pr_checks where
  "ex_board =
     \<lparr>board_state = ''failing'', required_checks = [], passing = [ex_check ''unit'' ''success''],
      pending_checks = [], failing = [ex_check ''ci / publish'' ''failure''], missing_required = [],
      protection_status = ''configured'', protection_note = None, query_status = ''ok'', query_errors = [],
      infrastructure_stalls = [], shadowed = [], listing_complete = True, excluded_checks = [],
      exclusion_notes = []\<rparr>"

theorem ci_failure_routing_witness:
  "route_post_approval_ci_failure (Some (classify_watch_failure ex_board [''publish''] [] [] [])) False = ''rerun_and_watch''
   \<and> route_post_approval_ci_failure (Some (classify_watch_failure ex_board [] [] [] [])) False = ''coder''"
proof -
  have names: "check_name_matches ''ci / publish'' [''publish'']" "\<not> check_name_matches ''unit'' [''publish'']"
    "\<not> check_name_matches ''ci / publish'' []"
    by code_simp+
  have low: "lower_status (ex_check ''unit'' ''success'') = ''success''" by code_simp
  show ?thesis
    using ci_failure_routing [of ex_board "[''publish'']" "[]" "[]" "[]" False]
      ci_failure_routing [of ex_board "[]" "[]" "[]" "[]" False] names low
    by (simp add: test_failed_def authoritative_def ex_board_def) (simp add: ex_check_def)
qed

end
