(* ===== verification/Qualification_Checkpoint.thy ===== *)
theory Qualification_Checkpoint
  imports Ledger_Run Text_Ops
begin

text \<open>
  The durable checkpoint of a qualification attempt (\<open>qualification_checkpoint.py\<close>), the historical
  managed run it may name (\<open>managed_ci_result.py\<close>, \<open>managed_ci_reconciliation.py\<close>), and how the PR
  loop writes one from the ledger and trusts one on resume (\<open>pr_loop_support.py\<close>, \<open>round_state.py\<close>).
  A \<open>ValueError\<close> is its message.
\<close>

section \<open>The failed managed run\<close>

record failed_run =
  fr_repository :: string
  fr_pr_number :: int
  fr_head_sha :: string
  fr_base_ref :: string
  fr_identity :: string
  fr_source_round :: int
  fr_comment_id :: int
  fr_nonce :: string
  fr_run_id :: int
  fr_failed_attempt :: int
  fr_generation :: string
  fr_workflow_revision :: string

definition RUN_INTS :: "string list" where
  "RUN_INTS = [''pr_number'', ''source_round'', ''audit_comment_id'', ''run_id'', ''failed_attempt'']"

definition RUN_STRINGS :: "string list" where
  "RUN_STRINGS =
     [''repository'', ''head_sha'', ''base_ref'', ''obligation_identity'', ''nonce'', ''generation'',
      ''workflow_revision'']"

fun positive_pint :: "pyval \<Rightarrow> bool" where
  "positive_pint (PInt i) = (0 < i)"
| "positive_pint _ = False"

fun the_int :: "pyval \<Rightarrow> int" where
  "the_int (PInt i) = i"
| "the_int _ = 0"

fun solid_str :: "pyval \<Rightarrow> bool" where
  "solid_str (PStr s) = (s \<noteq> [] \<and> (\<forall>c \<in> set s. \<not> is_space c))"
| "solid_str _ = False"

definition is_repository :: "string \<Rightarrow> bool" where
  "is_repository s \<longleftrightarrow>
     (\<exists>n < length s. s ! n = CHR ''/'' \<and> 0 < n \<and> Suc n < length s
        \<and> CHR ''/'' \<notin> set (take n s) \<and> CHR ''/'' \<notin> set (drop (Suc n) s))"

definition nonce_char :: "char \<Rightarrow> bool" where
  "nonce_char c \<longleftrightarrow>
     is_ascii_digit c \<or> is_ascii_lower c \<or> 65 \<le> code c \<and> code c \<le> 90 \<or> c = CHR ''_'' \<or> c = CHR ''-''"

definition invalid_result :: "string \<Rightarrow> string" where
  "invalid_result n = ''invalid historical result '' @ n"

text \<open>\<open>FailedManagedRun(**g)\<close> with \<open>__post_init__\<close>.\<close>

definition mk_failed_run :: "(string \<Rightarrow> pyval) \<Rightarrow> string + failed_run" where
  "mk_failed_run g =
     (case filter (\<lambda>n. \<not> positive_pint (g n)) RUN_INTS of
        n # _ \<Rightarrow> Inl (invalid_result n)
      | [] \<Rightarrow>
     (case filter (\<lambda>n. \<not> solid_str (g n)) RUN_STRINGS of
        n # _ \<Rightarrow> Inl (invalid_result n)
      | [] \<Rightarrow>
      guardE (\<not> is_repository (the_str (g ''repository''))) ''invalid repository''
     (guardE (\<not> (length (the_str (g ''nonce'')) = 32 \<and> (\<forall>c \<in> set (the_str (g ''nonce'')). nonce_char c)))
        ''invalid nonce''
     (guardE (\<not> (hex_of_length 40 (the_str (g ''head_sha'')) \<and> hex_of_length 40 (the_str (g ''workflow_revision''))))
        ''invalid result revision''
     (Inr \<lparr>fr_repository = the_str (g ''repository''), fr_pr_number = the_int (g ''pr_number''),
           fr_head_sha = the_str (g ''head_sha''), fr_base_ref = the_str (g ''base_ref''),
           fr_identity = the_str (g ''obligation_identity''), fr_source_round = the_int (g ''source_round''),
           fr_comment_id = the_int (g ''audit_comment_id''), fr_nonce = the_str (g ''nonce''),
           fr_run_id = the_int (g ''run_id''), fr_failed_attempt = the_int (g ''failed_attempt''),
           fr_generation = the_str (g ''generation''),
           fr_workflow_revision = the_str (g ''workflow_revision'')\<rparr>)))))"

definition run_fields :: "failed_run \<Rightarrow> (string \<times> pyval) list" where
  "run_fields r =
     [(''repository'', PStr (fr_repository r)), (''pr_number'', PInt (fr_pr_number r)),
      (''head_sha'', PStr (fr_head_sha r)), (''base_ref'', PStr (fr_base_ref r)),
      (''obligation_identity'', PStr (fr_identity r)), (''source_round'', PInt (fr_source_round r)),
      (''audit_comment_id'', PInt (fr_comment_id r)), (''nonce'', PStr (fr_nonce r)),
      (''run_id'', PInt (fr_run_id r)), (''failed_attempt'', PInt (fr_failed_attempt r)),
      (''generation'', PStr (fr_generation r)), (''workflow_revision'', PStr (fr_workflow_revision r))]"

definition run_as_dict :: "failed_run \<Rightarrow> pyval" where
  "run_as_dict r = PDict (run_fields r)"

definition RUN_FIELDS :: "string list" where
  "RUN_FIELDS =
     [''repository'', ''pr_number'', ''head_sha'', ''base_ref'', ''obligation_identity'', ''source_round'',
      ''audit_comment_id'', ''nonce'', ''run_id'', ''failed_attempt'', ''generation'', ''workflow_revision'']"

definition has_exactly :: "string list \<Rightarrow> pyval \<Rightarrow> bool" where
  "has_exactly names v = (case v of PDict kvs \<Rightarrow> set (map fst kvs) = set names | _ \<Rightarrow> False)"

definition run_from_mapping :: "pyval \<Rightarrow> string + failed_run" where
  "run_from_mapping v =
     guardE (\<not> has_exactly RUN_FIELDS v) ''partial historical result'' (mk_failed_run (py_get v))"

definition wf_run :: "failed_run \<Rightarrow> bool" where
  "wf_run r \<longleftrightarrow> mk_failed_run (py_get (run_as_dict r)) = Inr r"

record verified_result =
  vr_failed_run :: failed_run
  vr_attempt :: int

definition mk_verified :: "failed_run \<Rightarrow> pyval \<Rightarrow> string + verified_result" where
  "mk_verified r attempt =
     (case attempt of
        PInt n \<Rightarrow> guardE (n \<le> fr_failed_attempt r) ''result must identify a later attempt''
                    (Inr \<lparr>vr_failed_run = r, vr_attempt = n\<rparr>)
      | _ \<Rightarrow> Inl ''result must identify a later attempt'')"

definition verified_as_dict :: "verified_result \<Rightarrow> pyval" where
  "verified_as_dict r =
     PDict [(''failed_run'', run_as_dict (vr_failed_run r)), (''successful_attempt'', PInt (vr_attempt r))]"

definition verified_from_mapping :: "pyval \<Rightarrow> string + verified_result" where
  "verified_from_mapping v =
     guardE (\<not> has_exactly [''failed_run'', ''successful_attempt''] v) ''partial verified result''
     (bindE (run_from_mapping (py_get v ''failed_run'')) (\<lambda>r. mk_verified r (py_get v ''successful_attempt'')))"

definition require_binding :: "verified_result \<Rightarrow> string \<Rightarrow> int \<Rightarrow> string \<Rightarrow> string \<Rightarrow> string + unit" where
  "require_binding v repository pr head base =
     (let r = vr_failed_run v in
      guardE ((fr_repository r, fr_pr_number r, fr_head_sha r, fr_base_ref r) \<noteq> (repository, pr, head, base))
        ''historical result binding drifted'' (Inr ()))"

section \<open>Reading back what was written\<close>

lemma positive_pint_iff: "positive_pint v \<longleftrightarrow> (\<exists>i > 0. v = PInt i)"
  by (cases v) auto

lemma solid_str_iff: "solid_str v \<longleftrightarrow> (\<exists>s. v = PStr s \<and> s \<noteq> [] \<and> (\<forall>c \<in> set s. \<not> is_space c))"
  by (cases v) auto

lemma solid_PStr: "solid_str v \<Longrightarrow> PStr (the_str v) = v"
  by (cases v) auto

lemma positive_PInt: "positive_pint v \<Longrightarrow> PInt (the_int v) = v"
  by (cases v) auto

lemma run_get [simp]:
  "py_get (run_as_dict r) ''repository'' = PStr (fr_repository r)"
  "py_get (run_as_dict r) ''pr_number'' = PInt (fr_pr_number r)"
  "py_get (run_as_dict r) ''head_sha'' = PStr (fr_head_sha r)"
  "py_get (run_as_dict r) ''base_ref'' = PStr (fr_base_ref r)"
  "py_get (run_as_dict r) ''obligation_identity'' = PStr (fr_identity r)"
  "py_get (run_as_dict r) ''source_round'' = PInt (fr_source_round r)"
  "py_get (run_as_dict r) ''audit_comment_id'' = PInt (fr_comment_id r)"
  "py_get (run_as_dict r) ''nonce'' = PStr (fr_nonce r)"
  "py_get (run_as_dict r) ''run_id'' = PInt (fr_run_id r)"
  "py_get (run_as_dict r) ''failed_attempt'' = PInt (fr_failed_attempt r)"
  "py_get (run_as_dict r) ''generation'' = PStr (fr_generation r)"
  "py_get (run_as_dict r) ''workflow_revision'' = PStr (fr_workflow_revision r)"
  by (simp_all add: run_as_dict_def run_fields_def)

lemma mk_failed_run_Inr:
  "mk_failed_run g = Inr r \<longleftrightarrow>
     (\<forall>n \<in> set RUN_INTS. positive_pint (g n)) \<and> (\<forall>n \<in> set RUN_STRINGS. solid_str (g n))
     \<and> is_repository (fr_repository r) \<and> length (fr_nonce r) = 32 \<and> (\<forall>c \<in> set (fr_nonce r). nonce_char c)
     \<and> hex_of_length 40 (fr_head_sha r) \<and> hex_of_length 40 (fr_workflow_revision r)
     \<and> (\<forall>n \<in> set RUN_FIELDS. py_get (run_as_dict r) n = g n)"
  (is "?l \<longleftrightarrow> ?r")
proof -
  let ?R = "\<lparr>fr_repository = the_str (g ''repository''), fr_pr_number = the_int (g ''pr_number''),
           fr_head_sha = the_str (g ''head_sha''), fr_base_ref = the_str (g ''base_ref''),
           fr_identity = the_str (g ''obligation_identity''), fr_source_round = the_int (g ''source_round''),
           fr_comment_id = the_int (g ''audit_comment_id''), fr_nonce = the_str (g ''nonce''),
           fr_run_id = the_int (g ''run_id''), fr_failed_attempt = the_int (g ''failed_attempt''),
           fr_generation = the_str (g ''generation''),
           fr_workflow_revision = the_str (g ''workflow_revision'')\<rparr>"
  have l: "?l \<longleftrightarrow> (\<forall>n \<in> set RUN_INTS. positive_pint (g n)) \<and> (\<forall>n \<in> set RUN_STRINGS. solid_str (g n))
     \<and> is_repository (the_str (g ''repository''))
     \<and> length (the_str (g ''nonce'')) = 32 \<and> (\<forall>c \<in> set (the_str (g ''nonce'')). nonce_char c)
     \<and> hex_of_length 40 (the_str (g ''head_sha'')) \<and> hex_of_length 40 (the_str (g ''workflow_revision''))
     \<and> ?R = r"
    unfolding mk_failed_run_def by (auto simp: filter_empty_conv split: list.splits)
  have same: "?R = r \<longleftrightarrow> (\<forall>n \<in> set RUN_FIELDS. py_get (run_as_dict r) n = g n)"
    if "\<forall>n \<in> set RUN_INTS. positive_pint (g n)" "\<forall>n \<in> set RUN_STRINGS. solid_str (g n)"
  proof
    assume "?R = r"
    then show "\<forall>n \<in> set RUN_FIELDS. py_get (run_as_dict r) n = g n"
      using that by (auto simp: RUN_FIELDS_def RUN_INTS_def RUN_STRINGS_def solid_PStr positive_PInt)
  next
    assume "\<forall>n \<in> set RUN_FIELDS. py_get (run_as_dict r) n = g n"
    then have "\<forall>n \<in> set RUN_FIELDS. g n = py_get (run_as_dict r) n" by simp
    then show "?R = r" by (simp add: RUN_FIELDS_def)
  qed
  show ?thesis
    unfolding l using same by auto
qed

lemma wf_run_iff:
  "wf_run r \<longleftrightarrow>
     (\<forall>n \<in> set RUN_INTS. positive_pint (py_get (run_as_dict r) n))
     \<and> (\<forall>n \<in> set RUN_STRINGS. solid_str (py_get (run_as_dict r) n))
     \<and> is_repository (fr_repository r) \<and> length (fr_nonce r) = 32 \<and> (\<forall>c \<in> set (fr_nonce r). nonce_char c)
     \<and> hex_of_length 40 (fr_head_sha r) \<and> hex_of_length 40 (fr_workflow_revision r)"
  by (simp add: wf_run_def mk_failed_run_Inr)

lemma mk_failed_run_wf:
  assumes "mk_failed_run g = Inr r" shows "wf_run r"
proof -
  note facts = assms [unfolded mk_failed_run_Inr]
  have "\<forall>n \<in> set RUN_INTS \<union> set RUN_STRINGS. py_get (run_as_dict r) n = g n"
    using facts by (auto simp: RUN_FIELDS_def RUN_INTS_def RUN_STRINGS_def)
  then show ?thesis using facts by (simp add: wf_run_iff)
qed

interpretation run_codec: record_codec run_as_dict run_from_mapping wf_run
proof
  show "run_from_mapping (run_as_dict r) = Inr r" if "wf_run r" for r
  proof -
    have "has_exactly RUN_FIELDS (run_as_dict r)"
      by (auto simp: has_exactly_def run_as_dict_def run_fields_def RUN_FIELDS_def)
    with that show ?thesis by (simp add: run_from_mapping_def wf_run_def)
  qed
  show "wf_run r" if "run_from_mapping v = Inr r" for v r
    using that mk_failed_run_wf by (auto simp: run_from_mapping_def)
qed

definition wf_verified :: "verified_result \<Rightarrow> bool" where
  "wf_verified v \<longleftrightarrow> wf_run (vr_failed_run v) \<and> fr_failed_attempt (vr_failed_run v) < vr_attempt v"

lemma mk_verified_Inr:
  "mk_verified r a = Inr v \<longleftrightarrow> vr_failed_run v = r \<and> a = PInt (vr_attempt v) \<and> fr_failed_attempt r < vr_attempt v"
  by (cases a) (auto simp: mk_verified_def)

interpretation verified_codec: record_codec verified_as_dict verified_from_mapping wf_verified
proof
  show "verified_from_mapping (verified_as_dict v) = Inr v" if "wf_verified v" for v
    using that run_codec.dec_enc
    by (auto simp: verified_from_mapping_def verified_as_dict_def has_exactly_def wf_verified_def
        mk_verified_Inr bindE_Inr_iff)
  show "wf_verified v" if "verified_from_mapping p = Inr v" for p v
    using that run_codec.dec_wf
    by (auto simp: verified_from_mapping_def wf_verified_def mk_verified_Inr bindE_Inr_iff)
qed

section \<open>The checkpoint\<close>

record checkpoint =
  cp_kind :: string
  cp_identity :: "string option"
  cp_lifecycle :: string
  cp_failed_head :: "string option"
  cp_candidate_head :: "string option"
  cp_base_branch :: "string option"
  cp_approval_digest :: "string option"
  cp_plan_digest :: "string option"
  cp_requirements_digest :: "string option"
  cp_acquisition_digest :: "string option"
  cp_scheduler_digest :: "string option"
  cp_attempt_id :: "string option"
  cp_failure_extension :: bool
  cp_head_extension :: bool
  cp_allowed_rounds :: int
  cp_valid :: bool
  cp_failed_run :: "failed_run option"
  cp_verified :: "verified_result option"

definition CHECKPOINT_KINDS :: "string list" where
  "CHECKPOINT_KINDS =
     filter (\<lambda>k. k \<noteq> UNKNOWN_OBLIGATION_KIND \<and> k \<noteq> EVIDENCE_OBLIGATION_KIND) MACHINE_OBLIGATION_KINDS"

definition CHECKPOINT_LIFECYCLES :: "string list" where
  "CHECKPOINT_LIFECYCLES =
     filter (\<lambda>l. l \<notin> {''cleared'', ''evidence_deferred'', ''evidence_frozen''}) MACHINE_LIFECYCLE_STATES"

definition run_contradicts :: "checkpoint \<Rightarrow> failed_run \<Rightarrow> bool" where
  "run_contradicts c r \<longleftrightarrow>
     cp_kind c \<noteq> MANAGED_CI_OBLIGATION_KIND \<or> Some (fr_identity r) \<noteq> cp_identity c
     \<or> Some (fr_head_sha r) \<noteq> cp_failed_head c \<or> Some (fr_base_ref r) \<noteq> cp_base_branch c"

definition mk_checkpoint :: "checkpoint \<Rightarrow> string + checkpoint" where
  "mk_checkpoint c =
     (if \<not> cp_valid c then Inr c
      else guardE (\<exists>r. cp_failed_run c = Some r \<and> run_contradicts c r) ''failed run contradicts checkpoint''
     (guardE (\<exists>v. cp_verified c = Some v \<and> Some (vr_failed_run v) \<noteq> cp_failed_run c)
        ''settlement contradicts failed run''
     (guardE (cp_kind c \<notin> set CHECKPOINT_KINDS) ''qualification checkpoints require a known machine kind''
     (guardE (cp_lifecycle c \<notin> set CHECKPOINT_LIFECYCLES) ''qualification checkpoints require an active lifecycle''
     (guardE (cp_lifecycle c = ''repair_required'' \<and> cp_kind c \<in> set CI_MACHINE_OBLIGATION_KINDS
              \<and> \<not> truthy (cp_failed_head c)) ''CI qualification checkpoints need a failed head''
     (guardE (cp_lifecycle c \<in> set AWAITING_STATES \<and> \<not> truthy (cp_candidate_head c))
        ''qualification-ready checkpoints need a candidate head''
     (guardE (truthy (cp_candidate_head c) \<and> cp_candidate_head c = cp_failed_head c)
        ''qualification checkpoints cannot target the failed head''
     (Inr c))))))))"

definition invalid_checkpoint :: checkpoint where
  "invalid_checkpoint =
     \<lparr>cp_kind = ''unknown'', cp_identity = Some ''invalid-checkpoint'', cp_lifecycle = ''repair_required'',
      cp_failed_head = None, cp_candidate_head = None, cp_base_branch = None, cp_approval_digest = None,
      cp_plan_digest = None, cp_requirements_digest = None, cp_acquisition_digest = None,
      cp_scheduler_digest = None, cp_attempt_id = None, cp_failure_extension = False,
      cp_head_extension = False, cp_allowed_rounds = 0, cp_valid = False, cp_failed_run = None,
      cp_verified = None\<rparr>"

definition checkpoint_as_dict :: "checkpoint \<Rightarrow> pyval" where
  "checkpoint_as_dict c = PDict
     ([(''obligation_kind'', PStr (cp_kind c)), (''obligation_identity'', of_opt_str (cp_identity c)),
       (''lifecycle'', PStr (cp_lifecycle c)), (''failed_head_sha'', of_opt_str (cp_failed_head c)),
       (''candidate_head_sha'', of_opt_str (cp_candidate_head c)),
       (''base_branch'', of_opt_str (cp_base_branch c)),
       (''approval_digest'', of_opt_str (cp_approval_digest c)),
       (''plan_digest'', of_opt_str (cp_plan_digest c)),
       (''requirements_digest'', of_opt_str (cp_requirements_digest c)),
       (''acquisition_digest'', of_opt_str (cp_acquisition_digest c)),
       (''scheduler_digest'', of_opt_str (cp_scheduler_digest c)),
       (''qualification_attempt_id'', of_opt_str (cp_attempt_id c)),
       (''watch_failure_extension_used'', PBool (cp_failure_extension c)),
       (''watch_head_extension_used'', PBool (cp_head_extension c)),
       (''allowed_rounds'', PInt (cp_allowed_rounds c)), (''valid'', PBool (cp_valid c))]
      @ (case cp_failed_run c of Some r \<Rightarrow> [(''failed_managed_run'', run_as_dict r)] | None \<Rightarrow> [])
      @ (case cp_verified c of Some r \<Rightarrow> [(''verified_managed_result'', verified_as_dict r)] | None \<Rightarrow> []))"

definition CHECKPOINT_STRINGS :: "string list" where
  "CHECKPOINT_STRINGS =
     [''obligation_kind'', ''obligation_identity'', ''lifecycle'', ''failed_head_sha'',
      ''candidate_head_sha'', ''base_branch'', ''approval_digest'', ''plan_digest'',
      ''requirements_digest'', ''acquisition_digest'', ''scheduler_digest'', ''qualification_attempt_id'']"

definition CHECKPOINT_REQUIRED :: "string list" where
  "CHECKPOINT_REQUIRED =
     CHECKPOINT_STRINGS @ [''watch_failure_extension_used'', ''watch_head_extension_used'', ''allowed_rounds'']"

definition has_all :: "string list \<Rightarrow> pyval \<Rightarrow> bool" where
  "has_all names v = (case v of PDict kvs \<Rightarrow> set names \<subseteq> set (map fst kvs) | _ \<Rightarrow> False)"

definition in_dict :: "string \<Rightarrow> pyval \<Rightarrow> bool" where
  "in_dict k v = has_all [k] v"

fun is_opt_str :: "pyval \<Rightarrow> bool" where
  "is_opt_str PNone = True"
| "is_opt_str (PStr s) = True"
| "is_opt_str _ = False"

fun is_bool :: "pyval \<Rightarrow> bool" where
  "is_bool (PBool b) = True"
| "is_bool _ = False"

fun the_bool :: "pyval \<Rightarrow> bool" where
  "the_bool (PBool b) = b"
| "the_bool _ = False"

fun is_nat :: "pyval \<Rightarrow> bool" where
  "is_nat (PInt i) = (0 \<le> i)"
| "is_nat _ = False"

fun nonblank_val :: "pyval \<Rightarrow> bool" where
  "nonblank_val (PStr s) = nonblank s"
| "nonblank_val _ = False"

definition CONTRACT_DIGESTS :: "string list" where
  "CONTRACT_DIGESTS = [''approval_digest'', ''requirements_digest'', ''acquisition_digest'', ''scheduler_digest'']"

definition optional_field :: "string \<Rightarrow> (pyval \<Rightarrow> string + 'a) \<Rightarrow> pyval \<Rightarrow> string + 'a option" where
  "optional_field k dec v = (if in_dict k v then map_sum id Some (dec (py_get v k)) else Inr None)"

text \<open>The checks of \<open>from_mapping\<close> that return the invalid checkpoint, in their order.\<close>

definition checkpoint_refused :: "pyval \<Rightarrow> bool" where
  "checkpoint_refused v \<longleftrightarrow>
     (let g = py_get v in
      \<not> has_all CHECKPOINT_REQUIRED v
      \<or> (\<exists>k \<in> set CHECKPOINT_STRINGS. \<not> is_opt_str (g k))
      \<or> g ''obligation_kind'' \<notin> PStr ` set CHECKPOINT_KINDS
      \<or> g ''lifecycle'' \<notin> PStr ` set CHECKPOINT_LIFECYCLES
      \<or> g ''lifecycle'' \<in> {PStr ''qualification_ready'', PStr ''qualifying''}
          \<and> (\<exists>k \<in> set CONTRACT_DIGESTS. \<not> nonblank_val (g k))
      \<or> g ''lifecycle'' = PStr ''qualifying'' \<and> \<not> nonblank_val (g ''qualification_attempt_id'')
      \<or> \<not> is_bool (g ''watch_failure_extension_used'') \<or> \<not> is_bool (g ''watch_head_extension_used'')
      \<or> \<not> is_nat (g ''allowed_rounds'')
      \<or> in_dict ''valid'' v \<and> g ''valid'' \<noteq> PBool True
      \<or> g ''candidate_head_sha'' \<noteq> PNone \<and> g ''candidate_head_sha'' = g ''failed_head_sha'')"

definition decoded_checkpoint :: "pyval \<Rightarrow> failed_run option \<Rightarrow> verified_result option \<Rightarrow> checkpoint" where
  "decoded_checkpoint v run settled =
     (let g = py_get v in
      \<lparr>cp_kind = the_str (g ''obligation_kind''), cp_identity = opt_str (g ''obligation_identity''),
       cp_lifecycle = the_str (g ''lifecycle''), cp_failed_head = opt_str (g ''failed_head_sha''),
       cp_candidate_head = opt_str (g ''candidate_head_sha''), cp_base_branch = opt_str (g ''base_branch''),
       cp_approval_digest = opt_str (g ''approval_digest''), cp_plan_digest = opt_str (g ''plan_digest''),
       cp_requirements_digest = opt_str (g ''requirements_digest''),
       cp_acquisition_digest = opt_str (g ''acquisition_digest''),
       cp_scheduler_digest = opt_str (g ''scheduler_digest''),
       cp_attempt_id = opt_str (g ''qualification_attempt_id''),
       cp_failure_extension = the_bool (g ''watch_failure_extension_used''),
       cp_head_extension = the_bool (g ''watch_head_extension_used''),
       cp_allowed_rounds = the_int (g ''allowed_rounds''), cp_valid = True,
       cp_failed_run = run, cp_verified = settled\<rparr>)"

definition checkpoint_from_mapping :: "pyval \<Rightarrow> checkpoint" where
  "checkpoint_from_mapping v =
     (if checkpoint_refused v then invalid_checkpoint
      else case bindE (optional_field ''failed_managed_run'' run_from_mapping v) (\<lambda>run.
                bindE (optional_field ''verified_managed_result'' verified_from_mapping v) (\<lambda>settled.
                mk_checkpoint (decoded_checkpoint v run settled))) of
             Inl _ \<Rightarrow> invalid_checkpoint
           | Inr c \<Rightarrow> c)"

section \<open>What a readable checkpoint is\<close>

definition digests_present :: "checkpoint \<Rightarrow> bool" where
  "digests_present c \<longleftrightarrow>
     (\<forall>d \<in> {cp_approval_digest c, cp_requirements_digest c, cp_acquisition_digest c, cp_scheduler_digest c}.
        d \<noteq> None \<and> nonblank (the d))"

definition sound_checkpoint :: "checkpoint \<Rightarrow> bool" where
  "sound_checkpoint c \<longleftrightarrow>
     cp_valid c \<and> mk_checkpoint c = Inr c \<and> 0 \<le> cp_allowed_rounds c
     \<and> (cp_lifecycle c \<in> {''qualification_ready'', ''qualifying''} \<longrightarrow> digests_present c)
     \<and> (cp_lifecycle c = ''qualifying'' \<longrightarrow> cp_attempt_id c \<noteq> None \<and> nonblank (the (cp_attempt_id c)))
     \<and> (cp_candidate_head c \<noteq> None \<longrightarrow> cp_candidate_head c \<noteq> cp_failed_head c)
     \<and> (\<forall>r. cp_failed_run c = Some r \<longrightarrow> wf_run r) \<and> (\<forall>v. cp_verified c = Some v \<longrightarrow> wf_verified v)"

lemma mk_checkpoint_Inr:
  "mk_checkpoint c = Inr d \<longleftrightarrow> d = c \<and>
     (cp_valid c \<longrightarrow>
        (\<forall>r. cp_failed_run c = Some r \<longrightarrow> \<not> run_contradicts c r)
        \<and> (\<forall>v. cp_verified c = Some v \<longrightarrow> cp_failed_run c = Some (vr_failed_run v))
        \<and> cp_kind c \<in> set CHECKPOINT_KINDS \<and> cp_lifecycle c \<in> set CHECKPOINT_LIFECYCLES
        \<and> (cp_lifecycle c = ''repair_required'' \<and> cp_kind c \<in> set CI_MACHINE_OBLIGATION_KINDS
             \<longrightarrow> truthy (cp_failed_head c))
        \<and> (cp_lifecycle c \<in> set AWAITING_STATES \<longrightarrow> truthy (cp_candidate_head c))
        \<and> (truthy (cp_candidate_head c) \<longrightarrow> cp_candidate_head c \<noteq> cp_failed_head c))"
  by (auto simp: mk_checkpoint_def)

lemma is_opt_strE: "is_opt_str v \<longleftrightarrow> of_opt_str (opt_str v) = v"
  by (cases v) auto

lemma of_opt_str_simps [simp]: "is_opt_str (of_opt_str s)" "of_opt_str s = PNone \<longleftrightarrow> s = None"
  "nonblank_val (of_opt_str s) \<longleftrightarrow> s \<noteq> None \<and> nonblank (the s)" "of_opt_str s = of_opt_str t \<longleftrightarrow> s = t"
  by (cases s; cases t; simp)+

lemma checkpoint_get [simp]:
  "py_get (checkpoint_as_dict c) ''obligation_kind'' = PStr (cp_kind c)"
  "py_get (checkpoint_as_dict c) ''obligation_identity'' = of_opt_str (cp_identity c)"
  "py_get (checkpoint_as_dict c) ''lifecycle'' = PStr (cp_lifecycle c)"
  "py_get (checkpoint_as_dict c) ''failed_head_sha'' = of_opt_str (cp_failed_head c)"
  "py_get (checkpoint_as_dict c) ''candidate_head_sha'' = of_opt_str (cp_candidate_head c)"
  "py_get (checkpoint_as_dict c) ''base_branch'' = of_opt_str (cp_base_branch c)"
  "py_get (checkpoint_as_dict c) ''approval_digest'' = of_opt_str (cp_approval_digest c)"
  "py_get (checkpoint_as_dict c) ''plan_digest'' = of_opt_str (cp_plan_digest c)"
  "py_get (checkpoint_as_dict c) ''requirements_digest'' = of_opt_str (cp_requirements_digest c)"
  "py_get (checkpoint_as_dict c) ''acquisition_digest'' = of_opt_str (cp_acquisition_digest c)"
  "py_get (checkpoint_as_dict c) ''scheduler_digest'' = of_opt_str (cp_scheduler_digest c)"
  "py_get (checkpoint_as_dict c) ''qualification_attempt_id'' = of_opt_str (cp_attempt_id c)"
  "py_get (checkpoint_as_dict c) ''watch_failure_extension_used'' = PBool (cp_failure_extension c)"
  "py_get (checkpoint_as_dict c) ''watch_head_extension_used'' = PBool (cp_head_extension c)"
  "py_get (checkpoint_as_dict c) ''allowed_rounds'' = PInt (cp_allowed_rounds c)"
  "py_get (checkpoint_as_dict c) ''valid'' = PBool (cp_valid c)"
  by (simp_all add: checkpoint_as_dict_def)

lemma checkpoint_optional:
  "optional_field ''failed_managed_run'' dec (checkpoint_as_dict c)
     = (case cp_failed_run c of None \<Rightarrow> Inr None | Some r \<Rightarrow> map_sum id Some (dec (run_as_dict r)))"
  "optional_field ''verified_managed_result'' dec' (checkpoint_as_dict c)
     = (case cp_verified c of None \<Rightarrow> Inr None | Some r \<Rightarrow> map_sum id Some (dec' (verified_as_dict r)))"
  by (simp_all add: optional_field_def in_dict_def has_all_def checkpoint_as_dict_def split: option.splits)

lemma checkpoint_has_all: "has_all CHECKPOINT_REQUIRED (checkpoint_as_dict c)" "in_dict ''valid'' (checkpoint_as_dict c)"
  by (simp_all add: has_all_def in_dict_def checkpoint_as_dict_def CHECKPOINT_REQUIRED_def CHECKPOINT_STRINGS_def)

lemma checkpoint_reads_back:
  assumes "sound_checkpoint c"
  shows "checkpoint_from_mapping (checkpoint_as_dict c) = c"
proof -
  note f = assms [unfolded sound_checkpoint_def mk_checkpoint_Inr]
  have run: "optional_field ''failed_managed_run'' run_from_mapping (checkpoint_as_dict c) = Inr (cp_failed_run c)"
    using f run_codec.dec_enc by (cases "cp_failed_run c") (auto simp: checkpoint_optional)
  have settled: "optional_field ''verified_managed_result'' verified_from_mapping (checkpoint_as_dict c) = Inr (cp_verified c)"
    using f verified_codec.dec_enc by (cases "cp_verified c") (auto simp: checkpoint_optional)
  have "\<forall>k \<in> set CHECKPOINT_STRINGS. is_opt_str (py_get (checkpoint_as_dict c) k)"
    by (simp add: CHECKPOINT_STRINGS_def)
  moreover have "cp_lifecycle c \<in> {''qualification_ready'', ''qualifying''} \<Longrightarrow>
      \<forall>k \<in> set CONTRACT_DIGESTS. nonblank_val (py_get (checkpoint_as_dict c) k)"
    using f by (auto simp: CONTRACT_DIGESTS_def digests_present_def)
  ultimately have "\<not> checkpoint_refused (checkpoint_as_dict c)"
    using f checkpoint_has_all unfolding checkpoint_refused_def Let_def by auto
  moreover have "decoded_checkpoint (checkpoint_as_dict c) (cp_failed_run c) (cp_verified c) = c"
    using f by (simp add: decoded_checkpoint_def)
  moreover have "mk_checkpoint c = Inr c" using assms by (simp add: sound_checkpoint_def)
  ultimately show ?thesis
    using run settled by (simp add: checkpoint_from_mapping_def)
qed

lemma optional_field_Inr:
  "optional_field k dec v = Inr x \<Longrightarrow> x = Some r \<Longrightarrow> dec (py_get v k) = Inr r"
  by (cases "dec (py_get v k)") (auto simp: optional_field_def split: if_splits)

lemma checkpoint_read_sound:
  "checkpoint_from_mapping v = invalid_checkpoint \<or> sound_checkpoint (checkpoint_from_mapping v)"
proof (cases "checkpoint_refused v \<or> \<not> is_ok (bindE (optional_field ''failed_managed_run'' run_from_mapping v) (\<lambda>run.
      bindE (optional_field ''verified_managed_result'' verified_from_mapping v) (\<lambda>settled.
      mk_checkpoint (decoded_checkpoint v run settled))))")
  case True
  then show ?thesis by (auto simp: checkpoint_from_mapping_def is_ok_iff split: sum.split)
next
  case False
  then obtain run settled c where run: "optional_field ''failed_managed_run'' run_from_mapping v = Inr run"
    and settled: "optional_field ''verified_managed_result'' verified_from_mapping v = Inr settled"
    and mk: "mk_checkpoint (decoded_checkpoint v run settled) = Inr c"
    by (auto simp: is_ok_iff bindE_Inr_iff)
  have ok: "\<not> checkpoint_refused v" using False by blast
  have c: "c = decoded_checkpoint v run settled" using mk by (simp only: mk_checkpoint_Inr)
  have read: "checkpoint_from_mapping v = c"
    using ok run settled mk by (simp add: checkpoint_from_mapping_def)
  have "\<forall>k \<in> set CONTRACT_DIGESTS. nonblank_val (py_get v k)"
    if "cp_lifecycle c \<in> {''qualification_ready'', ''qualifying''}"
    using ok that c by (auto simp: checkpoint_refused_def decoded_checkpoint_def Let_def)
  moreover have nb: "nonblank_val w \<Longrightarrow> opt_str w \<noteq> None \<and> nonblank (the (opt_str w))" for w by (cases w) auto
  ultimately have digests: "cp_lifecycle c \<in> {''qualification_ready'', ''qualifying''} \<Longrightarrow> digests_present c"
    unfolding c by (auto simp: digests_present_def CONTRACT_DIGESTS_def decoded_checkpoint_def Let_def)
  have attempt: "cp_lifecycle c = ''qualifying'' \<Longrightarrow> cp_attempt_id c \<noteq> None \<and> nonblank (the (cp_attempt_id c))"
    using ok nb c by (auto simp: checkpoint_refused_def decoded_checkpoint_def Let_def)
  have nat: "is_nat w \<Longrightarrow> 0 \<le> the_int w" for w by (cases w) auto
  have "0 \<le> cp_allowed_rounds c" "cp_valid c"
    using ok c nat by (auto simp: checkpoint_refused_def decoded_checkpoint_def Let_def)
  moreover have "cp_candidate_head c \<noteq> None \<longrightarrow> cp_candidate_head c \<noteq> cp_failed_head c"
  proof -
    have "is_opt_str (py_get v ''candidate_head_sha'')" "is_opt_str (py_get v ''failed_head_sha'')"
      using ok by (auto simp: checkpoint_refused_def CHECKPOINT_STRINGS_def Let_def)
    moreover have "py_get v ''candidate_head_sha'' = PNone \<or> py_get v ''candidate_head_sha'' \<noteq> py_get v ''failed_head_sha''"
      using ok by (auto simp: checkpoint_refused_def Let_def)
    ultimately show ?thesis
      unfolding c decoded_checkpoint_def Let_def
      by (cases "py_get v ''candidate_head_sha''"; cases "py_get v ''failed_head_sha''") auto
  qed
  moreover have "\<forall>r. cp_failed_run c = Some r \<longrightarrow> wf_run r" "\<forall>r. cp_verified c = Some r \<longrightarrow> wf_verified r"
    using optional_field_Inr [OF run] optional_field_Inr [OF settled] run_codec.dec_wf verified_codec.dec_wf c
    by (auto simp: decoded_checkpoint_def Let_def)
  moreover have "mk_checkpoint c = Inr c" using mk c by (simp add: mk_checkpoint_Inr)
  ultimately show ?thesis
    using digests attempt read by (simp add: sound_checkpoint_def)
qed

section \<open>From the ledger\<close>

text \<open>\<open>_prior_item_ledger_signature\<close> and its digest.\<close>

definition opt_strs :: "string list option \<Rightarrow> pyval" where
  "opt_strs x = (case x of None \<Rightarrow> PNone | Some ss \<Rightarrow> PTuple (map PStr ss))"

definition pair_tuple :: "(string \<times> string) list \<Rightarrow> pyval" where
  "pair_tuple kvs = PTuple (map (\<lambda>(a, b). PTuple [PStr a, PStr b]) kvs)"

definition item_signature :: "item \<Rightarrow> pyval" where
  "item_signature i = PTuple
     ([PStr (item_id i), PStr (reviewer i), PInt (source_round i), PStr (item_text i), PStr (status i),
       of_opt_str (source_status i), PTuple (map PStr (item_notes i)), opt_strs (fix_scope i),
       PTuple (map PStr (resolution_owners i)), pair_tuple (owner_states i), pair_tuple (owner_evidence i),
       pair_tuple (owner_dispositions i), of_opt_str (authority i), of_opt_str (obligation_kind i),
       of_opt_str (lifecycle i), of_opt_str (failed_head_sha i), of_opt_str (candidate_head_sha i),
       of_opt_str (obligation_identity i)]
      @ (if alias_item_ids i \<noteq> [] \<or> alias_obligation_identities i \<noteq> []
         then [PTuple [PStr ''evidence_aliases'', PTuple (map PStr (alias_item_ids i)),
                 PTuple (map PStr (alias_obligation_identities i))]] else [])
      @ (case origin_scope i of None \<Rightarrow> [] | Some s \<Rightarrow> [PTuple [PStr ''origin_scope'', PStr s]])
      @ (if screenshot_request i = PNone then []
         else [PTuple [PStr ''screenshot_request'', PStr (py_repr_val (screenshot_request i))]])
      @ (if sub_items i = [] then []
         else [PTuple (map (\<lambda>s. PTuple [PStr (sub_item_id s), PStr (sub_text s), PStr (sub_status s),
                 of_opt_int (resolved_round s)]) (sub_items i))]))"

definition prior_item_ledger_signature :: "item list \<Rightarrow> pyval" where
  "prior_item_ledger_signature items = PTuple (map item_signature items)"

definition is_visual_item :: "item \<Rightarrow> bool" where
  "is_visual_item i \<longleftrightarrow> origin_scope i = Some ''visible-defects''"

definition scheduler_item_ledger_signature :: "item list \<Rightarrow> pyval" where
  "scheduler_item_ledger_signature items =
     prior_item_ledger_signature (filter (\<lambda>i. \<not> is_visual_item i) items)"

definition qualification_digest :: "(string \<Rightarrow> string) \<Rightarrow> pyval \<Rightarrow> string" where
  "qualification_digest H v = take 16 (H (py_repr_val v))"

text \<open>What \<open>capture_failed_run\<close> and the resume checks read of a managed CI contract.\<close>

record managed_contract =
  mc_repository :: "string option"
  mc_pr_number :: "int option"
  mc_expected_head :: "string option"
  mc_base_ref :: "string option"
  mc_intent_comment :: "int option"
  mc_nonce :: "string option"
  mc_run_id :: "int option"
  mc_run_attempt :: "int option"
  mc_generation :: "string option"
  mc_revision :: "string option"
  mc_protocol_version :: int
  mc_activation_path :: string
  mc_dispatch_issued :: bool

definition captured_field :: "managed_contract \<Rightarrow> checkpoint \<Rightarrow> int \<Rightarrow> string \<Rightarrow> pyval" where
  "captured_field m c rnd n =
     (if n = ''repository'' then of_opt_str (mc_repository m)
      else if n = ''pr_number'' then of_opt_int (mc_pr_number m)
      else if n = ''head_sha'' then of_opt_str (cp_failed_head c)
      else if n = ''base_ref'' then of_opt_str (cp_base_branch c)
      else if n = ''obligation_identity'' then of_opt_str (cp_identity c)
      else if n = ''source_round'' then PInt rnd
      else if n = ''audit_comment_id'' then of_opt_int (mc_intent_comment m)
      else if n = ''nonce'' then of_opt_str (mc_nonce m)
      else if n = ''run_id'' then of_opt_int (mc_run_id m)
      else if n = ''failed_attempt'' then of_opt_int (mc_run_attempt m)
      else if n = ''generation'' then of_opt_str (mc_generation m)
      else if n = ''workflow_revision'' then of_opt_str (mc_revision m)
      else PNone)"

definition capture_failed_run :: "managed_contract option \<Rightarrow> checkpoint \<Rightarrow> int \<Rightarrow> failed_run option" where
  "capture_failed_run contract c rnd =
     (case contract of
        None \<Rightarrow> None
      | Some m \<Rightarrow>
          if cp_kind c \<noteq> MANAGED_CI_OBLIGATION_KIND then None
          else if mc_expected_head m \<noteq> cp_failed_head c \<or> mc_base_ref m \<noteq> cp_base_branch c then None
          else case mk_failed_run (captured_field m c rnd) of Inl _ \<Rightarrow> None | Inr r \<Rightarrow> Some r)"

record checkpoint_args =
  ca_base_branch :: "string option"
  ca_allowed_rounds :: int
  ca_failure_extension :: bool
  ca_head_extension :: bool
  ca_lifecycle :: "string option"
  ca_attempt_id :: "string option"
  ca_approval :: "string option"
  ca_plan :: "string option"
  ca_requirements :: "string option"
  ca_acquisition :: "string option"
  ca_scheduler :: "string option"
  ca_previous :: "checkpoint option"
  ca_contract :: "managed_contract option"

definition opt_or :: "string option \<Rightarrow> string option \<Rightarrow> string option" where
  "opt_or a b = (if truthy a then a else b)"

definition active_ci :: "item \<Rightarrow> bool" where
  "active_ci i \<longleftrightarrow> machine_obligation_is_ci i \<and> open_status (status i)"

definition checkpoint_item :: "item list \<Rightarrow> string option \<Rightarrow> item option" where
  "checkpoint_item items head =
     (let candidates = filter active_ci items in
      case filter (\<lambda>i. machine_obligation_is_revalidation_candidate i head) candidates of
        i # _ \<Rightarrow> Some i
      | [] \<Rightarrow> (case candidates of i # _ \<Rightarrow> Some i | [] \<Rightarrow> None))"

definition effective_lifecycle :: "item \<Rightarrow> string option \<Rightarrow> string" where
  "effective_lifecycle i requested =
     (if \<not> truthy (candidate_head_sha i) \<or> candidate_head_sha i = failed_head_sha i
         \<or> lifecycle i = Some ''repair_required'' then ''repair_required''
      else or_else requested (or_else (lifecycle i) ''repair_required''))"

definition checkpoint_identity :: "item \<Rightarrow> string" where
  "checkpoint_identity i = or_else (obligation_identity i) (item_id i)"

definition previous_reference :: "checkpoint_args \<Rightarrow> item \<Rightarrow> failed_run option" where
  "previous_reference a i =
     (case ca_previous a of
        Some p \<Rightarrow>
          if cp_valid p \<and> cp_identity p = Some (checkpoint_identity i)
             \<and> cp_failed_head p = failed_head_sha i \<and> cp_base_branch p = ca_base_branch a
          then cp_failed_run p else None
      | None \<Rightarrow> None)"

definition drafted_checkpoint ::
  "(string \<Rightarrow> string) \<Rightarrow> item list \<Rightarrow> string option \<Rightarrow> checkpoint_args \<Rightarrow> item \<Rightarrow> checkpoint" where
  "drafted_checkpoint H items head a i =
     (let ref = previous_reference a i;
          inherit = (case (ref, ca_previous a) of
              (Some _, Some p) \<Rightarrow> head = cp_failed_head p | _ \<Rightarrow> False);
          pick = (\<lambda>own old. if inherit then opt_or own (old (the (ca_previous a))) else own)
      in \<lparr>cp_kind = or_else (obligation_kind i) UNKNOWN_OBLIGATION_KIND,
          cp_identity = Some (checkpoint_identity i), cp_lifecycle = effective_lifecycle i (ca_lifecycle a),
          cp_failed_head = failed_head_sha i, cp_candidate_head = candidate_head_sha i,
          cp_base_branch = ca_base_branch a,
          cp_approval_digest = pick (ca_approval a) cp_approval_digest,
          cp_plan_digest = pick (ca_plan a) cp_plan_digest,
          cp_requirements_digest = pick (ca_requirements a) cp_requirements_digest,
          cp_acquisition_digest = pick (ca_acquisition a) cp_acquisition_digest,
          cp_scheduler_digest =
            (if inherit then opt_or (ca_scheduler a)
               (Some (qualification_digest H (scheduler_item_ledger_signature items)))
             else ca_scheduler a),
          cp_attempt_id = ca_attempt_id a, cp_failure_extension = ca_failure_extension a,
          cp_head_extension = ca_head_extension a, cp_allowed_rounds = ca_allowed_rounds a,
          cp_valid = True, cp_failed_run = ref, cp_verified = None\<rparr>)"

definition machine_obligation_checkpoint ::
  "(string \<Rightarrow> string) \<Rightarrow> item list \<Rightarrow> string option \<Rightarrow> checkpoint_args \<Rightarrow> string + checkpoint option" where
  "machine_obligation_checkpoint H items head a =
     (case checkpoint_item items head of
        None \<Rightarrow> Inr None
      | Some i \<Rightarrow>
          bindE (mk_checkpoint (drafted_checkpoint H items head a i)) (\<lambda>c.
          let ref = (case previous_reference a i of
                       Some r \<Rightarrow> Some r
                     | None \<Rightarrow> capture_failed_run (ca_contract a) c (source_round i))
          in bindE (mk_checkpoint (c\<lparr>cp_failed_run := ref\<rparr>)) (\<lambda>d. Inr (Some d))))"

section \<open>On resume\<close>

text \<open>A posted record is its index, its subject and the checkpoint in its metadata.\<close>

fun latest_qualification_checkpoint ::
  "(int \<times> string \<times> checkpoint option) list \<Rightarrow> string \<Rightarrow> int \<Rightarrow> checkpoint option" where
  "latest_qualification_checkpoint newest_first head min_index =
     (case newest_first of
        [] \<Rightarrow> None
      | (index, subject, c) # older \<Rightarrow>
          if index \<le> min_index then None
          else if c \<noteq> None \<and> subject = head then c
          else latest_qualification_checkpoint older head min_index)"

definition managed_checkpoint_needs_fresh_attempt ::
  "checkpoint option \<Rightarrow> managed_contract option \<Rightarrow> string option \<Rightarrow> bool" where
  "managed_checkpoint_needs_fresh_attempt c m head \<longleftrightarrow>
     (case (c, m) of
        (Some c, Some m) \<Rightarrow>
          cp_valid c \<and> cp_lifecycle c = ''qualifying'' \<and> cp_kind c = ''managed-exact-head-ci''
          \<and> truthy head \<and> cp_candidate_head c = head
          \<and> mc_protocol_version m = 2 \<and> mc_activation_path m = ''managed''
          \<and> (mc_expected_head m = None \<or> mc_expected_head m = head)
          \<and> mc_run_id m = None \<and> mc_run_attempt m = None \<and> mc_nonce m = None \<and> \<not> mc_dispatch_issued m
      | _ \<Rightarrow> False)"

record review_identity =
  ri_reviewers :: "string list"
  ri_approvals :: "string list"
  ri_plan :: "string option"
  ri_requirements :: string
  ri_acquisition :: string
  ri_attempt_id :: "string option"
  ri_historical :: bool

definition qualification_checkpoint_review_identity_matches ::
  "(string \<Rightarrow> string) \<Rightarrow> checkpoint \<Rightarrow> item list \<Rightarrow> review_identity \<Rightarrow> bool" where
  "qualification_checkpoint_review_identity_matches H c items r =
     (if \<not> ri_historical r \<and> cp_lifecycle c \<notin> {''qualification_ready'', ''qualifying''} then True
      else if set (ri_approvals r) \<noteq> set (ri_reviewers r) then False
      else if \<not> truthy (cp_approval_digest c) \<or> \<not> truthy (cp_requirements_digest c)
              \<or> \<not> truthy (cp_acquisition_digest c) \<or> \<not> truthy (cp_scheduler_digest c) then False
      else cp_approval_digest c
             = Some (qualification_digest H (PTuple (map PStr (sorted_set (ri_approvals r)))))
           \<and> cp_plan_digest c = ri_plan r \<and> cp_requirements_digest c = Some (ri_requirements r)
           \<and> cp_acquisition_digest c = Some (ri_acquisition r)
           \<and> cp_scheduler_digest c = Some (qualification_digest H (scheduler_item_ledger_signature items))
           \<and> (cp_lifecycle c \<noteq> ''qualifying''
              \<or> ri_attempt_id r \<noteq> None \<and> cp_attempt_id c = ri_attempt_id r))"

declare latest_qualification_checkpoint.simps [simp del]

section \<open>CI obligations of a reachable ledger\<close>

text \<open>What every CI obligation that the loops raise keeps: it stays open, names the head that failed,
  is never \<open>cleared\<close>, and its identity starts with its kind.\<close>

definition names_kind :: "string option \<Rightarrow> string \<Rightarrow> bool" where
  "names_kind identity k \<longleftrightarrow> (\<exists>n. identity = Some (k @ '':'' @ n))"

definition ci_ready :: "item \<Rightarrow> bool" where
  "ci_ready i \<longleftrightarrow> (machine_obligation_is_ci i \<longrightarrow>
     open_status (status i) \<and> truthy (failed_head_sha i) \<and> lifecycle i \<noteq> Some ''cleared''
     \<and> (\<exists>k. obligation_kind i = Some k \<and> names_kind (obligation_identity i) k))"

lemma ci_ready_finding: "obligation_kind i = None \<Longrightarrow> ci_ready i"
  by (simp add: ci_ready_def machine_obligation_is_ci_def among_def)

lemma ci_ready_evidence: "is_evidence_obligation i \<Longrightarrow> ci_ready i"
  by (auto simp: ci_ready_def machine_obligation_is_ci_def is_evidence_obligation_def among_def kind_defs)

lemma ci_ready_frame:
  assumes "ci_ready i" and "authority j = authority i" "obligation_kind j = obligation_kind i"
    and "status j = status i" "failed_head_sha j = failed_head_sha i" "obligation_identity j = obligation_identity i"
    and "lifecycle j \<noteq> Some ''cleared'' \<or> lifecycle j = lifecycle i"
  shows "ci_ready j"
  using assms by (auto simp: ci_ready_def machine_obligation_is_ci_def is_machine_obligation_def)

lemma ci_ready_mapE:
  assumes "mapE f items = Inr js" and "\<forall>i \<in> set items. ci_ready i"
    and "\<And>i j. f i = Inr j \<Longrightarrow> ci_ready i \<Longrightarrow> ci_ready j"
  shows "\<forall>j \<in> set js. ci_ready j"
  using assms mapE_set by fast

lemma advance_ci_ready: "advance_item H head i = Inr j \<Longrightarrow> ci_ready i \<Longrightarrow> ci_ready j"
  by (rule ci_ready_frame [of i]) (auto simp: advance_item_def mk_item_Inr split: if_splits)

lemma lifecycle_ci_ready:
  assumes "(if is_machine_obligation i \<and> obligation_kind i = Some kind
      then mk_item H (i\<lparr>lifecycle := Some lc\<rparr>) else Inr i) = Inr j"
    and "lc \<noteq> ''cleared''" and "ci_ready i"
  shows "ci_ready j"
  by (rule ci_ready_frame [OF assms(3)]) (use assms in \<open>auto simp: mk_item_Inr split: if_splits\<close>)

lemma candidate_ci_ready:
  assumes "(if P then mk_item H (i\<lparr>lifecycle := Some lc, candidate_head_sha := c\<rparr>) else Inr i) = Inr j"
    and "lc \<noteq> ''cleared''" and "ci_ready i"
  shows "ci_ready j"
  by (rule ci_ready_frame [OF assms(3)]) (use assms in \<open>auto simp: mk_item_Inr split: if_splits\<close>)

lemma convert_ci_ready: 
  assumes "convert_finding H ids i = Inr j" and "ci_ready i" shows "ci_ready j"
proof (cases "is_machine_obligation i")
  case True
  then have "j = i" using assms(1) by (simp add: convert_finding_def newly_converted_def open_finding_def)
  then show ?thesis using assms(2) by simp
next
  case False
  have "obligation_kind j = obligation_kind i"
    using assms(1) by (auto simp: convert_finding_def Let_def mk_item_Inr split: if_splits)
  then show ?thesis using False by (intro ci_ready_finding) (simp add: is_machine_obligation_def)
qed

lemma raised_ci_ready:
  assumes up: "upsert_machine_obligation H n kind rnd claim failed items = Inr items'"
    and sound: "sound_ledger H items" and ready: "\<forall>i \<in> set items. ci_ready i"
  shows "\<forall>j \<in> set items'. ci_ready j"
proof -
  let ?k = "raised_kind kind" and ?f = "raised_head kind failed"
  let ?raise = "\<lambda>i. mk_item H (raised_again ?k rnd claim ?f i)"
  let ?mint = "next_unresolved_item H n (machine_reviewer_of ?k) rnd claim ''blocking'' (raised_args ?k ?f)"
  have ne: "kind \<noteq> EVIDENCE_OBLIGATION_KIND" using up by (auto simp: upsert_machine_obligation_def)
  then have run: "(case replace_first (of_kind ?k) ?raise items of Some r \<Rightarrow> r
      | None \<Rightarrow> bindE ?mint (\<lambda>i. Inr (items @ [i]))) = Inr items'"
    using up unfolding upsert_machine_obligation_def raised_kind_def raised_head_def
      of_kind_def [abs_def] Let_def by simp
  have head: "?k \<in> set CI_MACHINE_OBLIGATION_KINDS \<longrightarrow> truthy ?f"
    using upsert_cases(2) [OF ne, of items H failed n rnd claim] sound up
    by (auto simp: sound_ledger_def)
  show ?thesis
  proof (cases "replace_first (of_kind ?k) ?raise items")
    case None
    then obtain j where j: "?mint = Inr j" and items': "items' = items @ [j]" using run by (auto simp: bindE_Inr_iff)
    have nk: "?k \<noteq> []" using raised_kind_known [of kind] by (auto simp: MACHINE_OBLIGATION_KINDS_def)
    have "ci_ready j"
      using j head nk
      by (auto simp: raised_args_def no_args_def next_unresolved_item_def mk_item_Inr Let_def ci_ready_def
          machine_obligation_is_ci_def among_def or_else_def names_kind_def truthy_def open_status_def)
    then show ?thesis using ready items' by simp
  next
    case (Some r)
    then obtain us i vs where i: "items = us @ i # vs" "of_kind ?k i" and r: "r = bindE (?raise i) (\<lambda>y. Inr (us @ y # vs))"
      using replace_first_Some [OF Some] by blast
    then obtain j where j: "j = raised_again ?k rnd claim ?f i" and items': "items' = us @ j # vs"
      using run Some by (auto simp: bindE_Inr_iff mk_item_Inr)
    have "ci_ready i" using ready i by simp
    then have "ci_ready j"
      using head i(2) unfolding j
      by (auto simp: ci_ready_def raised_again_def machine_obligation_is_ci_def of_kind_def among_def
          names_kind_def or_else_def is_machine_obligation_def open_status_def)
    then show ?thesis using ready items' i by simp
  qed
qed

lemma converted_in_ci_ready:
  "upsert_converted_in H identity items = Some (Inr (js, j)) \<Longrightarrow> \<forall>i \<in> set items. ci_ready i
    \<Longrightarrow> \<forall>i \<in> set js. ci_ready i"
proof (induction items arbitrary: js j)
  case (Cons i xs)
  show ?case
  proof (cases "is_evidence_obligation i \<and> obligation_identity i = Some identity")
    case True
    have "is_evidence_obligation (reopened i)"
      using True by (simp add: is_evidence_obligation_def is_machine_obligation_def reopened_def)
    then show ?thesis using Cons.prems True ci_ready_evidence
      by (auto simp: bindE_Inr_iff mk_item_Inr split: if_splits)
  next
    case False
    then obtain js' where "upsert_converted_in H identity xs = Some (Inr (js', j))" "js = i # js'"
      using Cons.prems(1) by (auto simp: bindE_Inr_iff)
    then show ?thesis using Cons by auto
  qed
qed simp

lemma converted_ci_ready:
  assumes "upsert_converted_evidence_obligation H n row matrix sha owners rnd why items = Inr (items', j, used)"
    and ready: "\<forall>i \<in> set items. ci_ready i"
  shows "\<forall>i \<in> set items'. ci_ready i"
proof (cases "upsert_converted_in H (converted_evidence_obligation_identity H row matrix) items")
  case None
  have "is_evidence_obligation (row_obligation H n row matrix sha owners rnd why)"
    by (simp add: row_obligation_def is_evidence_obligation_def is_machine_obligation_def kind_defs)
  moreover have "items' = items @ [row_obligation H n row matrix sha owners rnd why]"
    using assms(1) None by (auto simp: upsert_converted_evidence_obligation_def bindE_Inr_iff mk_item_Inr)
  ultimately show ?thesis using ready ci_ready_evidence by auto
next
  case (Some r)
  then have "r = Inr (items', j)"
    using assms(1) by (auto simp: upsert_converted_evidence_obligation_def bindE_Inr_iff)
  then show ?thesis using Some converted_in_ci_ready ready by blast
qed

lemma settled_ci_ready:
  assumes ok: "settled_ok H cfg by_item i u" and ready: "ci_ready i" and j: "j \<in> set (kept_items u)"
  shows "ci_ready j"
proof (cases "machine_obligation_is_ci i")
  case True
  then have "is_machine_obligation i" "\<not> is_evidence_obligation i" "open_status (status i)"
    using ready by (auto simp: ci_ready_def machine_obligation_is_ci_def is_evidence_obligation_def among_def kind_defs)
  then obtain ns where "kept_items u = [i\<lparr>item_notes := ns\<rparr>]" using ok unfolding settled_ok_def by blast
  then have "j = i\<lparr>item_notes := ns\<rparr>" using j by simp
  then show ?thesis using ready ci_ready_frame [OF ready, of j] by simp
next
  case False
  have "same_claim i j" "is_machine_obligation j = is_machine_obligation i"
    using ok j unfolding settled_ok_def by blast+
  then have "\<not> machine_obligation_is_ci j"
    using False by (simp add: machine_obligation_is_ci_def same_claim_def)
  then show ?thesis by (simp add: ci_ready_def)
qed

lemma step_ci_ready:
  assumes step: "ledger_step H e items items'" and sound: "sound_ledger H items"
    and ready: "\<forall>i \<in> set items. ci_ready i"
  shows "\<forall>i \<in> set items'. ci_ready i"
  using step
proof cases
  case (file_finding n rv rnd claim st args i)
  then have "obligation_kind i = None"
    unfolding next_unresolved_item_def Let_def mk_item_Inr by (auto simp: among_def)
  then show ?thesis using ready file_finding ci_ready_finding by auto
next
  case raise_machine
  then show ?thesis using raised_ci_ready sound ready by blast
next
  case (new_head head)
  show ?thesis
  proof (cases "head = None \<or> head = Some []")
    case True
    then have "items' = items" using new_head by (auto simp: advance_machine_obligations_for_head_def)
    then show ?thesis using ready by simp
  next
    case False
    then obtain sha where "head = Some sha" and "sha \<noteq> []" by (cases head) auto
    then have "mapE (advance_item H sha) items = Inr items'"
      using new_head by (simp add: advance_machine_obligations_for_head_def)
    then show ?thesis using ci_ready_mapE ready advance_ci_ready by blast
  qed
next
  case (clear_kind kind)
  then show ?thesis using ready by (simp add: clear_machine_obligations_def)
next
  case (set_lifecycle kind lc)
  then have "mapE (\<lambda>i. if is_machine_obligation i \<and> obligation_kind i = Some kind
                then mk_item H (i\<lparr>lifecycle := Some lc\<rparr>) else Inr i) items = Inr items'"
    and "lc \<noteq> ''cleared''"
    by (auto simp: set_machine_obligation_lifecycle_def)
  then show ?thesis using ci_ready_mapE [OF _ ready] lifecycle_ci_ready by blast
next
  case (freeze sha)
  show ?thesis
    by (rule ci_ready_mapE [OF freeze(2) [unfolded freeze_evidence_obligations_def] ready])
      (erule candidate_ci_ready, simp_all)
next
  case release
  show ?thesis
    by (rule ci_ready_mapE [OF release(2) [unfolded release_evidence_freeze_def] ready])
      (erule candidate_ci_ready, simp_all)
next
  case convert_row
  then show ?thesis using converted_ci_ready ready by blast
next
  case (move_rows ids by_row)
  then have "mapE (convert_finding H ids) items = Inr items'"
    by (auto simp: apply_residual_row_conversion_def bindE_Inr_iff)
  then show ?thesis using ci_ready_mapE ready convert_ci_ready by blast
next
  case (settle_round cfg by_item u)
  have "same_status cfg \<noteq> ''converted''" using settle_round by (auto simp: loop_settings_def)
  then have "\<exists>us. mapE (settle_item H cfg by_item) items = Inr us \<and> list_all2 (settled_ok H cfg by_item) items us"
    by (intro mapE_exists) (use settle_item_ok sound in \<open>auto simp: sound_ledger_def\<close>)
  then obtain us where us: "list_all2 (settled_ok H cfg by_item) items us" and u: "u = merge_updates us"
    using settle_round by (auto simp: apply_unresolved_item_dispositions_def)
  have "ci_ready j" if j: "j \<in> set (kept_items v)" and v: "v \<in> set us" for j v
  proof -
    obtain m where "m < length us" "v = us ! m" using v by (auto simp: in_set_conv_nth)
    then have "settled_ok H cfg by_item (items ! m) v" "items ! m \<in> set items"
      using us by (simp_all add: list_all2_conv_all_nth)
    then show ?thesis using settled_ci_ready ready j by blast
  qed
  then show ?thesis using settle_round u by (auto simp: merge_updates_def)
qed

lemma run_ci_ready:
  "ledger_run H es items items' \<Longrightarrow> sound_ledger H items \<Longrightarrow> distinct (map item_id items)
    \<Longrightarrow> \<forall>i \<in> set items. ci_ready i \<Longrightarrow> \<forall>i \<in> set items'. ci_ready i"
proof (induction rule: ledger_run.induct)
  case (more es items items' e items'')
  have "sound_ledger H items'" using run_sound [OF more.hyps(1)] more.prems by blast
  then show ?case using step_ci_ready [OF more.hyps(2)] more by blast
qed simp

section \<open>The checkpoint of a reachable ledger\<close>

lemma checkpoint_item_active:
  "checkpoint_item items head = Some i \<Longrightarrow> i \<in> set items \<and> active_ci i"
  "checkpoint_item items head = None \<longleftrightarrow> (\<forall>i \<in> set items. \<not> active_ci i)"
proof -
  have first: "filter P xs = y # ys \<Longrightarrow> y \<in> set xs \<and> P y" for P :: "item \<Rightarrow> bool" and xs y ys
    by (metis (mono_tags, lifting) list.set_intros(1) mem_Collect_eq set_filter)
  show "checkpoint_item items head = Some i \<Longrightarrow> i \<in> set items \<and> active_ci i"
  proof -
    let ?A = "filter active_ci items" let ?R = "filter (\<lambda>i. machine_obligation_is_revalidation_candidate i head) ?A"
    assume some: "checkpoint_item items head = Some i"
    then obtain zs where "?A = i # zs \<or> ?R = i # zs"
      by (simp only: checkpoint_item_def Let_def) (auto simp del: filter_filter split: list.splits)
    then have "i \<in> set ?A" by (metis first list.set_intros(1))
    then show "i \<in> set items \<and> active_ci i" by simp
  qed
  have "checkpoint_item items head = None \<longleftrightarrow> filter active_ci items = []"
    by (auto simp: checkpoint_item_def Let_def simp del: filter_filter split: list.splits)
  then show "checkpoint_item items head = None \<longleftrightarrow> (\<forall>i \<in> set items. \<not> active_ci i)"
    by (simp only: filter_empty_conv)
qed

lemma ready_lifecycle:
  assumes "wf_item H i" and "active_ci i" and "ci_ready i"
  shows "\<exists>l. lifecycle i = Some l \<and> l \<noteq> [] \<and> l \<in> set CHECKPOINT_LIFECYCLES"
proof -
  have m: "is_machine_obligation i" and k: "among (obligation_kind i) CI_MACHINE_OBLIGATION_KINDS"
    using assms(2) by (simp_all add: active_ci_def machine_obligation_is_ci_def)
  have "obligation_kind i \<noteq> Some EVIDENCE_OBLIGATION_KIND" using k by (auto simp: among_def kind_defs)
  then have "among (lifecycle i) MACHINE_LIFECYCLE_STATES \<and> \<not> among (lifecycle i) EVIDENCE_LIFECYCLE_STATES"
    using wf_machine(1) [OF assms(1) m] by (simp add: check_machine_fields_ok)
  moreover have "lifecycle i \<noteq> Some ''cleared''" using assms(2,3) by (simp add: ci_ready_def active_ci_def)
  ultimately show ?thesis
    by (auto simp: among_def CHECKPOINT_LIFECYCLES_def MACHINE_LIFECYCLE_STATES_def EVIDENCE_LIFECYCLE_STATES_def
        split: option.splits)
qed

lemma ci_kind_checkpoint: "k \<in> set CI_MACHINE_OBLIGATION_KINDS \<Longrightarrow> k \<in> set CHECKPOINT_KINDS \<and> k \<noteq> []"
  by (auto simp: CHECKPOINT_KINDS_def kind_defs)

lemma same_kind_named:
  assumes "names_kind x k" "names_kind x ''managed-exact-head-ci''" "k \<in> set CI_MACHINE_OBLIGATION_KINDS"
  shows "k = ''managed-exact-head-ci''"
  using assms by (auto simp: names_kind_def CI_MACHINE_OBLIGATION_KINDS_def kind_defs)

lemma captured_fits:
  assumes "capture_failed_run m c rnd = Some r"
  shows "wf_run r \<and> \<not> run_contradicts c r"
proof -
  obtain mc where "m = Some mc" and k: "cp_kind c = MANAGED_CI_OBLIGATION_KIND"
    and r: "mk_failed_run (captured_field mc c rnd) = Inr r"
    using assms by (auto simp: capture_failed_run_def split: option.splits if_splits sum.splits)
  have f: "\<forall>n \<in> set RUN_FIELDS. py_get (run_as_dict r) n = captured_field mc c rnd n"
    using r unfolding mk_failed_run_Inr by blast
  have eq: "PStr s = of_opt_str x \<Longrightarrow> x = Some s" for s x by (cases x) auto
  have "PStr (fr_head_sha r) = of_opt_str (cp_failed_head c)" "PStr (fr_base_ref r) = of_opt_str (cp_base_branch c)"
    "PStr (fr_identity r) = of_opt_str (cp_identity c)"
    using f by (simp_all add: RUN_FIELDS_def captured_field_def)
  then show ?thesis using mk_failed_run_wf [OF r] k eq by (auto simp: run_contradicts_def)
qed

text \<open>A checkpoint that a loop wrote before names its kind in its identity.\<close>

definition previous_ok :: "checkpoint_args \<Rightarrow> bool" where
  "previous_ok a \<longleftrightarrow>
     (\<forall>p. ca_previous a = Some p \<and> cp_valid p \<longrightarrow>
        sound_checkpoint p \<and> (\<exists>k. cp_kind p = k \<and> names_kind (cp_identity p) k))"

lemma previous_fits:
  assumes prev: "previous_ok a" and ref: "previous_reference a i = Some r"
    and kind: "obligation_kind i = Some k" "k \<in> set CI_MACHINE_OBLIGATION_KINDS"
    and named: "names_kind (obligation_identity i) k"
    and c: "cp_kind c = k" "cp_identity c = Some (checkpoint_identity i)" "cp_failed_head c = failed_head_sha i"
      "cp_base_branch c = ca_base_branch a"
  shows "\<not> run_contradicts c r"
proof -
  obtain p where p: "ca_previous a = Some p" "cp_valid p" "cp_identity p = Some (checkpoint_identity i)"
    "cp_failed_head p = failed_head_sha i" "cp_base_branch p = ca_base_branch a" "cp_failed_run p = Some r"
    using ref by (auto simp: previous_reference_def split: option.splits if_splits)
  have sound: "sound_checkpoint p" and pk: "names_kind (cp_identity p) (cp_kind p)"
    using prev p by (auto simp: previous_ok_def)
  have fits: "\<not> run_contradicts p r"
    using sound p by (auto simp: sound_checkpoint_def mk_checkpoint_Inr)
  have "checkpoint_identity i = the (obligation_identity i)" "obligation_identity i \<noteq> None"
    using named by (auto simp: names_kind_def checkpoint_identity_def or_else_def)
  then have "names_kind (obligation_identity i) (cp_kind p)" using pk p(3) by (auto simp: names_kind_def)
  then have "k = MANAGED_CI_OBLIGATION_KIND"
    using same_kind_named named kind(2) fits by (auto simp: run_contradicts_def MANAGED_CI_OBLIGATION_KIND_def)
  then show ?thesis using fits p c by (simp add: run_contradicts_def)
qed

lemma draft_ok:
  assumes wf: "wf_item H i" and act: "active_ci i" and ready: "ci_ready i" and prev: "previous_ok a"
    and lc: "ca_lifecycle a = None \<or> ca_lifecycle a \<in> Some ` set CHECKPOINT_LIFECYCLES"
    and d: "d = (drafted_checkpoint H items head a i)\<lparr>cp_failed_run := ref\<rparr>"
    and ref: "\<forall>r. ref = Some r \<longrightarrow> \<not> run_contradicts (drafted_checkpoint H items head a i) r"
  shows "mk_checkpoint d = Inr d"
proof -
  let ?c = "drafted_checkpoint H items head a i"
  obtain k where k: "obligation_kind i = Some k" "k \<in> set CI_MACHINE_OBLIGATION_KINDS"
    using act by (auto simp: active_ci_def machine_obligation_is_ci_def among_def split: option.splits)
  have failed: "truthy (failed_head_sha i)" using act ready by (simp add: ci_ready_def active_ci_def)
  have m: "is_machine_obligation i" using act by (simp add: active_ci_def machine_obligation_is_ci_def)
  have fresh: "truthy (candidate_head_sha i) \<Longrightarrow> failed_head_sha i \<noteq> candidate_head_sha i"
    using wf_machine(1) [OF wf m] by (simp add: check_machine_fields_ok)
  obtain l where l: "lifecycle i = Some l" "l \<noteq> []" "l \<in> set CHECKPOINT_LIFECYCLES"
    using ready_lifecycle [OF wf act ready] by blast
  have lif: "effective_lifecycle i (ca_lifecycle a) \<in> set CHECKPOINT_LIFECYCLES
      \<and> (effective_lifecycle i (ca_lifecycle a) \<noteq> ''repair_required'' \<longrightarrow> truthy (candidate_head_sha i))"
  proof (cases "\<not> truthy (candidate_head_sha i) \<or> candidate_head_sha i = failed_head_sha i
      \<or> lifecycle i = Some ''repair_required''")
    case True
    then have "effective_lifecycle i (ca_lifecycle a) = ''repair_required''" by (simp add: effective_lifecycle_def)
    then show ?thesis by (simp add: CHECKPOINT_LIFECYCLES_def MACHINE_LIFECYCLE_STATES_def)
  next
    case False
    then have "effective_lifecycle i (ca_lifecycle a) = or_else (ca_lifecycle a) l"
      using l by (simp add: effective_lifecycle_def or_else_def)
    moreover have "or_else (ca_lifecycle a) l \<in> set CHECKPOINT_LIFECYCLES"
      using l lc by (auto simp: or_else_def)
    ultimately show ?thesis using False by simp
  qed
  have fields: "cp_kind ?c = k" "cp_lifecycle ?c = effective_lifecycle i (ca_lifecycle a)"
    "cp_failed_head ?c = failed_head_sha i" "cp_candidate_head ?c = candidate_head_sha i" "cp_valid ?c" "cp_verified ?c = None"
    using k ci_kind_checkpoint by (auto simp: drafted_checkpoint_def Let_def or_else_def)
  have contr: "run_contradicts d r = run_contradicts ?c r" for r by (simp add: d run_contradicts_def)
  have "''repair_required'' \<notin> set AWAITING_STATES" by (simp add: AWAITING_STATES_def)
  then show ?thesis
    unfolding mk_checkpoint_Inr contr
    using lif failed fresh fields ref k(2) ci_kind_checkpoint by (auto simp: d)
qed

lemma checkpoint_total:
  assumes sound: "sound_ledger H items" and ready: "\<forall>i \<in> set items. ci_ready i" and prev: "previous_ok a"
    and lc: "ca_lifecycle a = None \<or> ca_lifecycle a \<in> Some ` set CHECKPOINT_LIFECYCLES"
  shows "machine_obligation_checkpoint H items head a = Inr None \<and> (\<forall>i \<in> set items. \<not> active_ci i)
    \<or> (\<exists>c i. machine_obligation_checkpoint H items head a = Inr (Some c) \<and> mk_checkpoint c = Inr c \<and> cp_valid c
         \<and> i \<in> set items \<and> active_ci i \<and> obligation_kind i = Some (cp_kind c)
         \<and> cp_failed_head c = failed_head_sha i \<and> cp_candidate_head c = candidate_head_sha i
         \<and> cp_lifecycle c = effective_lifecycle i (ca_lifecycle a)
         \<and> names_kind (cp_identity c) (cp_kind c))"
proof (cases "checkpoint_item items head")
  case None
  have "machine_obligation_checkpoint H items head a = Inr None"
    by (simp only: machine_obligation_checkpoint_def None option.case)
  moreover have "\<forall>i \<in> set items. \<not> active_ci i" using None checkpoint_item_active(2) by blast
  ultimately show ?thesis by blast
next
  case (Some i)
  let ?c = "drafted_checkpoint H items head a i"
  have i: "i \<in> set items" "active_ci i" using checkpoint_item_active(1) [OF Some] by simp_all
  have wf: "wf_item H i" and rd: "ci_ready i" using sound ready i by (simp_all add: sound_ledger_def)
  obtain k where k: "obligation_kind i = Some k" "k \<in> set CI_MACHINE_OBLIGATION_KINDS" "k \<noteq> []"
    using i ci_kind_checkpoint by (auto simp: active_ci_def machine_obligation_is_ci_def among_def split: option.splits)
  have named: "names_kind (obligation_identity i) k" using rd i k by (auto simp: ci_ready_def active_ci_def)
  have c: "cp_kind ?c = k" "cp_identity ?c = Some (checkpoint_identity i)" "cp_failed_head ?c = failed_head_sha i"
    "cp_base_branch ?c = ca_base_branch a" "cp_candidate_head ?c = candidate_head_sha i"
    "cp_lifecycle ?c = effective_lifecycle i (ca_lifecycle a)" "cp_valid ?c" "cp_failed_run ?c = previous_reference a i"
    using k by (simp_all add: drafted_checkpoint_def Let_def or_else_def)
  have prevfits: "\<forall>r. previous_reference a i = Some r \<longrightarrow> \<not> run_contradicts ?c r"
    using previous_fits [OF prev _ k(1,2) named c(1-4)] by blast
  have mk1: "mk_checkpoint ?c = Inr ?c"
    by (rule draft_ok [OF wf i(2) rd prev lc _ prevfits]) (simp add: c(8) [symmetric])
  define ref where "ref = (case previous_reference a i of
      Some r \<Rightarrow> Some r | None \<Rightarrow> capture_failed_run (ca_contract a) ?c (source_round i))"
  have "\<forall>r. ref = Some r \<longrightarrow> \<not> run_contradicts ?c r"
    using prevfits captured_fits by (auto simp: ref_def split: option.splits)
  from draft_ok [OF wf i(2) rd prev lc refl this]
  have mk2: "mk_checkpoint (?c\<lparr>cp_failed_run := ref\<rparr>) = Inr (?c\<lparr>cp_failed_run := ref\<rparr>)" .
  have "machine_obligation_checkpoint H items head a = Inr (Some (?c\<lparr>cp_failed_run := ref\<rparr>))"
    using Some mk1 mk2 by (simp add: machine_obligation_checkpoint_def Let_def ref_def)
  moreover have "names_kind (cp_identity ?c) k"
    using named c(2) by (auto simp: names_kind_def checkpoint_identity_def or_else_def)
  ultimately show ?thesis using mk2 i k c by (intro disjI2 exI [of _ "?c\<lparr>cp_failed_run := ref\<rparr>"] exI [of _ i]) simp
qed

section \<open>Properties\<close>

text \<open>C40: A checkpoint that may be written is read back as it was; whatever else is stored, reading
  never raises and gives either the invalid checkpoint, which forces full reconstruction, or a
  checkpoint that never targets the failed head, names the failed head of a repair, and when it says
  that qualification is ready or under way carries every digest it needs.\<close>

theorem checkpoint_fails_closed:
  shows "(sound_checkpoint c \<longrightarrow> checkpoint_from_mapping (checkpoint_as_dict c) = c)
    \<and> (\<not> cp_valid (checkpoint_from_mapping v) \<longrightarrow> checkpoint_from_mapping v = invalid_checkpoint)
    \<and> (\<forall>d. d = checkpoint_from_mapping v \<and> cp_valid d \<longrightarrow>
         sound_checkpoint d
         \<and> (truthy (cp_candidate_head d) \<longrightarrow> cp_candidate_head d \<noteq> cp_failed_head d)
         \<and> (cp_lifecycle d = ''repair_required'' \<and> cp_kind d \<in> set CI_MACHINE_OBLIGATION_KINDS
              \<longrightarrow> truthy (cp_failed_head d))
         \<and> (cp_lifecycle d \<in> {''qualification_ready'', ''qualifying''} \<longrightarrow>
              truthy (cp_candidate_head d) \<and> digests_present d))"
proof -
  have "\<not> cp_valid invalid_checkpoint" by (simp add: invalid_checkpoint_def)
  then have valid: "cp_valid (checkpoint_from_mapping v) \<Longrightarrow> sound_checkpoint (checkpoint_from_mapping v)"
    and invalid: "\<not> cp_valid (checkpoint_from_mapping v) \<Longrightarrow> checkpoint_from_mapping v = invalid_checkpoint"
    using checkpoint_read_sound [of v] by (auto simp: sound_checkpoint_def)
  have "sound_checkpoint d \<Longrightarrow>
      (truthy (cp_candidate_head d) \<longrightarrow> cp_candidate_head d \<noteq> cp_failed_head d)
      \<and> (cp_lifecycle d = ''repair_required'' \<and> cp_kind d \<in> set CI_MACHINE_OBLIGATION_KINDS
           \<longrightarrow> truthy (cp_failed_head d))
      \<and> (cp_lifecycle d \<in> {''qualification_ready'', ''qualifying''} \<longrightarrow>
           truthy (cp_candidate_head d) \<and> digests_present d)" for d
    by (auto simp: sound_checkpoint_def mk_checkpoint_Inr AWAITING_STATES_def)
  note laws = this
  have "sound_checkpoint c \<longrightarrow> checkpoint_from_mapping (checkpoint_as_dict c) = c"
    using checkpoint_reads_back by (rule impI)
  moreover have "\<not> cp_valid (checkpoint_from_mapping v) \<longrightarrow> checkpoint_from_mapping v = invalid_checkpoint"
    using invalid by (rule impI)
  moreover have "sound_checkpoint d \<and> (truthy (cp_candidate_head d) \<longrightarrow> cp_candidate_head d \<noteq> cp_failed_head d)
      \<and> (cp_lifecycle d = ''repair_required'' \<and> cp_kind d \<in> set CI_MACHINE_OBLIGATION_KINDS
           \<longrightarrow> truthy (cp_failed_head d))
      \<and> (cp_lifecycle d \<in> {''qualification_ready'', ''qualifying''} \<longrightarrow>
           truthy (cp_candidate_head d) \<and> digests_present d)"
    if d: "d = checkpoint_from_mapping v \<and> cp_valid d" for d
  proof -
    have "sound_checkpoint d" using d valid by metis
    from this laws [OF this] show ?thesis by (rule conjI)
  qed
  ultimately show ?thesis by metis
qed

definition ex_args :: checkpoint_args where
  "ex_args = \<lparr>ca_base_branch = Some ''main'', ca_allowed_rounds = 3, ca_failure_extension = False,
     ca_head_extension = False, ca_lifecycle = None, ca_attempt_id = None, ca_approval = None, ca_plan = None,
     ca_requirements = None, ca_acquisition = None, ca_scheduler = None, ca_previous = None,
     ca_contract = None\<rparr>"

definition ex_repair_checkpoint :: checkpoint where
  "ex_repair_checkpoint =
     \<lparr>cp_kind = ''github-pr-checks'', cp_identity = Some ''github-pr-checks:item-2'',
      cp_lifecycle = ''repair_required'', cp_failed_head = Some ''h1'', cp_candidate_head = None,
      cp_base_branch = Some ''main'', cp_approval_digest = None, cp_plan_digest = None,
      cp_requirements_digest = None, cp_acquisition_digest = None, cp_scheduler_digest = None,
      cp_attempt_id = None, cp_failure_extension = False, cp_head_extension = False,
      cp_allowed_rounds = 3, cp_valid = True, cp_failed_run = None, cp_verified = None\<rparr>"

theorem checkpoint_fails_closed_witness:
  "checkpoint_from_mapping (checkpoint_as_dict ex_repair_checkpoint) = ex_repair_checkpoint
   \<and> checkpoint_from_mapping PNone = invalid_checkpoint"
proof -
  have "sound_checkpoint ex_repair_checkpoint"
    by (simp add: sound_checkpoint_def mk_checkpoint_Inr ex_repair_checkpoint_def CHECKPOINT_KINDS_def
        CHECKPOINT_LIFECYCLES_def AWAITING_STATES_def kind_defs truthy_def)
  moreover have "\<not> cp_valid (checkpoint_from_mapping PNone)"
    by (simp add: checkpoint_from_mapping_def checkpoint_refused_def has_all_def Let_def invalid_checkpoint_def)
  ultimately show ?thesis
    using checkpoint_fails_closed [of ex_repair_checkpoint PNone] by (simp only: simp_thms)
qed

text \<open>From the ledger to the checkpoint, over a whole run.  On every ledger that a run reaches from
  an empty one, at any head, the checkpoint of the CI obligation is built without raising, whatever
  lifecycle the caller asks for and whatever earlier checkpoint of its own it continues.  There is none
  exactly when no CI obligation is open; otherwise it is valid, never targets the failed head, asks for
  a repair exactly of a recorded failed head, and names its kind, so that the next one may continue it.\<close>

theorem checkpoint_always_buildable:
  assumes "ledger_run H es [] items" and "previous_ok a"
    and "ca_lifecycle a = None \<or> ca_lifecycle a \<in> Some ` set CHECKPOINT_LIFECYCLES"
  shows "(\<forall>i \<in> set items. \<not> active_ci i) \<and> machine_obligation_checkpoint H items head a = Inr None
    \<or> (\<exists>c. machine_obligation_checkpoint H items head a = Inr (Some c) \<and> cp_valid c
         \<and> names_kind (cp_identity c) (cp_kind c) \<and> truthy (cp_failed_head c)
         \<and> (\<exists>i \<in> set items. active_ci i \<and> obligation_kind i = Some (cp_kind c)
              \<and> failed_head_sha i = cp_failed_head c \<and> candidate_head_sha i = cp_candidate_head c)
         \<and> (cp_lifecycle c = ''repair_required''
              \<or> truthy (cp_candidate_head c) \<and> cp_candidate_head c \<noteq> cp_failed_head c))"
proof -
  have sound: "sound_ledger H items" using run_sound [OF assms(1)] by (simp add: sound_ledger_items)
  have ready: "\<forall>i \<in> set items. ci_ready i" using run_ci_ready [OF assms(1)] by (simp add: sound_ledger_items)
  from checkpoint_total [OF sound ready assms(2,3), of head] show ?thesis
  proof (elim disjE exE conjE)
    fix c i
    assume c: "machine_obligation_checkpoint H items head a = Inr (Some c)" "cp_valid c"
      "names_kind (cp_identity c) (cp_kind c)"
      and i: "i \<in> set items" "active_ci i" "obligation_kind i = Some (cp_kind c)"
      "cp_failed_head c = failed_head_sha i" "cp_candidate_head c = candidate_head_sha i"
      "cp_lifecycle c = effective_lifecycle i (ca_lifecycle a)"
    have "truthy (cp_failed_head c)" using ready i by (auto simp: ci_ready_def active_ci_def)
    moreover have "cp_lifecycle c = ''repair_required''
        \<or> truthy (cp_candidate_head c) \<and> cp_candidate_head c \<noteq> cp_failed_head c"
      using i by (auto simp: effective_lifecycle_def)
    moreover have "\<exists>i \<in> set items. active_ci i \<and> obligation_kind i = Some (cp_kind c)
        \<and> failed_head_sha i = cp_failed_head c \<and> candidate_head_sha i = cp_candidate_head c"
      using i by (intro bexI [of _ i] conjI) simp_all
    ultimately show ?thesis using c by blast
  next
    assume "machine_obligation_checkpoint H items head a = Inr None" "\<forall>i \<in> set items. \<not> active_ci i"
    then show ?thesis by (intro disjI1 conjI)
  qed
qed

theorem checkpoint_always_buildable_witness:
  "\<exists>items c. upsert_machine_obligation id 2 ''github-pr-checks'' 1 ''red'' (Some ''h1'') [] = Inr items
     \<and> machine_obligation_checkpoint id items (Some ''h1'') ex_args = Inr (Some c) \<and> cp_valid c"
proof -
  have k: "raised_kind ''github-pr-checks'' = ''github-pr-checks''" "raised_head ''github-pr-checks'' (Some ''h1'') = Some ''h1''"
    by (simp_all add: raised_kind_def raised_head_def kind_defs)
  obtain j items where up: "upsert_machine_obligation id 2 ''github-pr-checks'' 1 ''red'' (Some ''h1'') [] = Inr items"
    and j: "raised_ok id ''github-pr-checks'' (Some ''h1'') ''red'' j" "raised_in (of_kind ''github-pr-checks'') [] j items"
    using upsert_cases(1) [of "''github-pr-checks''" "[]" id "Some ''h1''" 2 1 "''red''"] k
    by (auto simp: kind_defs truthy_def)
  have step: "ledger_step id Updates [] items"
    by (rule ledger_step.raise_machine [OF up]) (simp add: fresh_number_def)
  have "j \<in> set items" "active_ci j"
    using j by (auto simp: raised_in_def raised_ok_def of_kind_def active_ci_def machine_obligation_is_ci_def
        among_def kind_defs open_status_def)
  then show ?thesis
    using checkpoint_always_buildable [OF ledger_run.more [OF ledger_run.start step], of ex_args "Some ''h1''"] up
    by (auto simp: previous_ok_def ex_args_def)
qed

end
