(* ===== verification/Ledger_Scheduling.thy ===== *)
theory Ledger_Scheduling
  imports Ledger_Run Qualification_Checkpoint Reviewer_Selection
begin

text \<open>
  From the ledger to the scheduler: the obligations that a ledger puts before \<open>select_reviewers\<close>
  and \<open>classify_transition\<close> (\<open>_scheduler_obligations\<close> of \<open>pr_loop_support.py\<close>), the split of a ledger by
  who has to act (\<open>_partition_unresolved_items\<close>), and the items that a change of the board carries
  (\<open>carried_secondary_obligations\<close> of \<open>board_change.py\<close>).
\<close>

section \<open>Obligations of a ledger\<close>

definition CODER_DISPUTE_NOTE_PREFIX :: string where
  "CODER_DISPUTE_NOTE_PREFIX = ''Coder disputes this item''"

text \<open>\<open>dict(raw_states or ((owner, "pending") for owner in owners))\<close>\<close>

definition owner_state_of :: "item \<Rightarrow> string \<rightharpoonup> string" where
  "owner_state_of i =
     dict_of (if item.owner_states i \<noteq> [] then item.owner_states i
              else map (\<lambda>ow. (ow, ''pending'')) (owners_or_reviewer i))"

definition item_reconstructible :: "string list \<Rightarrow> item \<Rightarrow> bool" where
  "item_reconstructible required i \<longleftrightarrow>
     (let owners = owners_or_reviewer i; raw = item.owner_states i; states = owner_state_of i in
      owners \<noteq> [] \<and> no_dups owners \<and> [] \<notin> set owners
      \<and> (raw = [] \<or> length raw = length owners \<and> fst ` set raw = set owners)
      \<and> (\<forall>st \<in> ran states. st \<in> {''pending'', ''cleared''})
      \<and> item.reviewer i \<in> set required
      \<and> \<not> (\<exists>n \<in> set (item_notes i). starts_with CODER_DISPUTE_NOTE_PREFIX n))"

definition pending_owners_of :: "item \<Rightarrow> string list" where
  "pending_owners_of i = filter (\<lambda>ow. owner_state_of i ow \<noteq> Some ''cleared'') (owners_or_reviewer i)"

definition item_obligation :: "string list \<Rightarrow> item \<Rightarrow> obligation" where
  "item_obligation required i =
     \<lparr>obligation.item_id = item.item_id i, ob_status = status i,
      scope = (if \<not> item_reconstructible required i \<or> item.reviewer i = ''Orchestrator''
                  \<or> item.reviewer i \<notin> set required then None else fix_scope i),
      obligation.resolution_owners = owners_or_reviewer i, pending_owners = pending_owners_of i\<rparr>"

text \<open>The items that become obligations: no evidence and no visual item.\<close>

definition schedulable :: "string list \<Rightarrow> item \<Rightarrow> bool" where
  "schedulable statuses i \<longleftrightarrow> status i \<in> set statuses \<and> \<not> is_evidence_obligation i \<and> \<not> is_visual_item i"

definition scheduler_obligations :: "item list \<Rightarrow> string list \<Rightarrow> string list \<Rightarrow> obligation list" where
  "scheduler_obligations items required statuses =
     map (item_obligation required) (filter (schedulable statuses) items)"

definition PR_STATUSES :: "string list" where
  "PR_STATUSES = [''blocking'', ''same-pr'']"

section \<open>Who has to act\<close>

record partition =
  reviewer_blockers :: "item list"
  repair_required :: "item list"
  revalidation_candidates :: "item list"
  finalization_blockers :: "item list"
  coder_blockers :: "item list"
  evidence_items :: "item list"

definition needs_repair :: "string option \<Rightarrow> item \<Rightarrow> bool" where
  "needs_repair head i \<longleftrightarrow>
     is_machine_obligation i \<and> \<not> is_evidence_obligation i
     \<and> (machine_obligation_requires_repair i head \<or> \<not> machine_obligation_is_revalidation_candidate i head)"

definition partition_unresolved_items :: "item list \<Rightarrow> string option \<Rightarrow> partition" where
  "partition_unresolved_items items head =
     (let opened = filter (\<lambda>i. open_status (status i)) items;
          work = filter (\<lambda>i. \<not> is_evidence_obligation i) opened;
          reviewed = filter (\<lambda>i. \<not> is_machine_obligation i) work;
          repair = filter (needs_repair head) work
      in \<lparr>reviewer_blockers = reviewed, repair_required = repair,
          revalidation_candidates = filter (\<lambda>i. is_machine_obligation i \<and> \<not> needs_repair head i) work,
          finalization_blockers = opened, coder_blockers = reviewed @ repair,
          evidence_items = filter is_evidence_obligation opened\<rparr>)"

definition carried_secondary_obligations ::
  "item list \<Rightarrow> int option \<Rightarrow> string option \<Rightarrow> string list \<Rightarrow> string \<Rightarrow> string list" where
  "carried_secondary_obligations items epoch primary eligible same =
     (case epoch of
        None \<Rightarrow> []
      | Some e \<Rightarrow>
          map item.item_id (filter (\<lambda>i. \<not> is_visual_item i \<and> (status i = ''blocking'' \<or> status i = same)
            \<and> \<not> source_round i \<ge> e \<and> item.item_id i \<in> set eligible
            \<and> (\<exists>ow \<in> set (owners_or_reviewer i). Some ow \<noteq> primary \<and> owner_state_of i ow \<noteq> Some ''cleared'')) items))"

section \<open>Facts\<close>

lemma active_pr: "schedulable PR_STATUSES i \<Longrightarrow> active (item_obligation required i)"
  by (auto simp: schedulable_def PR_STATUSES_def active_def ACTIVE_STATUSES_def item_obligation_def)

lemma active_scheduler_obligations:
  "active_obligations (scheduler_obligations items required PR_STATUSES) = scheduler_obligations items required PR_STATUSES"
  by (auto simp: active_obligations_def scheduler_obligations_def filter_id_conv intro: active_pr)

lemma pending_in_obligations:
  assumes "i \<in> set items" and "schedulable PR_STATUSES i" and "ow \<in> set (pending_owners_of i)"
  shows "ow \<in> set (pending_of (active_obligations (scheduler_obligations items required PR_STATUSES)))"
    and "active_obligations (scheduler_obligations items required PR_STATUSES) \<noteq> []"
  unfolding active_scheduler_obligations
  using assms by (auto simp: scheduler_obligations_def pending_of_def item_obligation_def filter_empty_conv)

lemma post_panel_invokes:
  assumes "post_panel_choice s cls approvals av = (sel, ph, why)"
    and "active_obligations (obligations s) \<noteq> []" and "n \<in> set (pending_of (active_obligations (obligations s)))"
    and "n \<in> set av" and "n \<notin> set approvals"
  shows "n \<in> set sel"
  using assms by (auto simp: post_panel_choice_def Let_def split: if_splits)

lemma selective_invokes:
  assumes "selective_choice s cls approvals fin av = (sel, ph, why)"
    and "n \<in> set (pending_of (active_obligations (obligations s)))" and "n \<in> set av" and "n \<notin> set approvals"
  shows "n \<in> set sel"
  using assms by (auto simp: selective_choice_def Let_def filter_empty_conv split: if_splits)

lemma open_is_partitioned:
  assumes "open_status (status i)"
  shows "is_evidence_obligation i \<or> \<not> is_machine_obligation i \<or> needs_repair head i
     \<or> machine_obligation_is_revalidation_candidate i head \<and> \<not> machine_obligation_requires_repair i head"
  by (auto simp: needs_repair_def)

section \<open>Properties\<close>

text \<open>C19: An open finding always calls on the reviewers that still own it.  Take any ledger, turn it into
  obligations and let any policy decide, outside the strict phase before the panel: a reviewer of the board
  that has not cleared an open finding it owns, is available and has not approved the exact head is selected,
  whatever the transition, the latches and the final sweep.\<close>

theorem pending_owner_is_invoked:
  assumes "select_reviewers s cls approvals unav fin ph = Inr d"
    and "obligations s = scheduler_obligations items required PR_STATUSES"
    and "policy (snap_contract s) = ''primary-then-panel'' \<longrightarrow> panel_evidence s \<or> operator_force_full s"
    and "i \<in> set items" and "open_status (status i)" and "\<not> is_evidence_obligation i" and "\<not> is_visual_item i"
    and "ow \<in> set (owners_or_reviewer i)" and "owner_state_of i ow \<noteq> Some ''cleared''"
    and "ow \<in> set (required_reviewers (snap_contract s))" and "ow \<notin> set unav" and "ow \<notin> set approvals"
  shows "ow \<in> set (selected_reviewers d)"
proof -
  have av: "ow \<in> set (available_required (required_reviewers (snap_contract s)) unav)"
    using assms(10,11) by (simp add: available_required_def)
  have "schedulable PR_STATUSES i" using assms(5-7) by (auto simp: schedulable_def PR_STATUSES_def open_status_def)
  moreover have "ow \<in> set (pending_owners_of i)" using assms(8,9) by (simp add: pending_owners_of_def)
  ultimately have p: "ow \<in> set (pending_of (active_obligations (obligations s)))"
    "active_obligations (obligations s) \<noteq> []"
    unfolding assms(2) using pending_in_obligations [OF assms(4)] by blast+
  obtain caps where caps: "policy_capabilities (policy (snap_contract s)) = Inr caps"
    and choice: "board_choice s cls approvals unav fin ph caps
         = Inr (selected_reviewers d, decision_phase d, decision_reason d)"
    using assms(1) by (rule select_reviewers_Inr)
  from choice caps show ?thesis
  proof (cases rule: board_choice_cases)
    case full
    then show ?thesis using av by simp
  next
    case pre
    then show ?thesis using assms(3) by simp
  next
    case post
    then show ?thesis using post_panel_invokes p av assms(12) by blast
  next
    case selective
    then show ?thesis using selective_invokes p av assms(12) by blast
  qed
qed

lemma ex_finding_facts:
  "open_status (status ex_finding)" "\<not> is_evidence_obligation ex_finding" "\<not> is_visual_item ex_finding"
  "owners_or_reviewer ex_finding = [''codex'']" "owner_state_of ex_finding ''codex'' = Some ''pending''"
  by (simp_all add: open_status_def is_evidence_obligation_def is_machine_obligation_def is_visual_item_def
      owners_or_reviewer_def owner_state_of_def dict_of_def ex_finding_def)

lemma post_panel_decides:
  assumes "policy (snap_contract s) = ''primary-then-panel''" and "panel_evidence s" and "snap_phase s = None"
  shows "\<exists>d. select_reviewers s cls approvals unav fin None = Inr d"
  using assms by (cases "post_panel_choice s cls approvals (available_required (required_reviewers (snap_contract s)) unav)")
    (simp add: select_reviewers_def board_choice_def policy_capabilities_def caps_staged_def Let_def)

theorem pending_owner_is_invoked_witness:
  "\<exists>d. select_reviewers (ex_snapshot\<lparr>panel_evidence := True,
          obligations := scheduler_obligations [ex_finding] [''codex''] PR_STATUSES\<rparr>) ex_narrow [''claude''] [] False None = Inr d
     \<and> ''codex'' \<in> set (selected_reviewers d)"
proof -
  let ?s = "ex_snapshot\<lparr>panel_evidence := True, obligations := scheduler_obligations [ex_finding] [''codex''] PR_STATUSES\<rparr>"
  obtain d where d: "select_reviewers ?s ex_narrow [''claude''] [] False None = Inr d"
    using post_panel_decides [of ?s ex_narrow "[''claude'']" "[]" False] by (auto simp: ex_defs)
  have "''codex'' \<in> set (selected_reviewers d)"
    by (rule pending_owner_is_invoked [OF d, of "[ex_finding]" "[''codex'']" ex_finding])
      (use ex_finding_facts in \<open>simp_all add: ex_defs\<close>)
  with d show ?thesis by blast
qed

text \<open>Who acts on an open item.  The blockers of finalization are the open items, in order, and every one
  of them is in exactly one of four parts: findings for reviewers and coder, machine obligations to repair,
  machine obligations whose candidate head is ready to be judged again, and human evidence.  What the coder
  works on are the first two.  If the ledger was just advanced to the current head, an ordinary or managed CI
  obligation is coder work at the head that failed and a candidate at any other head, so the failed head is
  never handed back to qualification and a repaired head is never handed back to the coder.\<close>

theorem ledger_parts:
  assumes "\<forall>i \<in> set items. wf_item H i" and "head \<noteq> []"
    and "advance_machine_obligations_for_head H (Some head) items = Inr items'"
  defines "p \<equiv> partition_unresolved_items items' (Some head)"
  shows "finalization_blockers p = filter (\<lambda>i. open_status (status i)) items'
    \<and> (\<forall>i \<in> set (finalization_blockers p). of_bool (i \<in> set (reviewer_blockers p)) + of_bool (i \<in> set (repair_required p))
          + of_bool (i \<in> set (revalidation_candidates p)) + of_bool (i \<in> set (evidence_items p)) = (1::nat))
    \<and> coder_blockers p = reviewer_blockers p @ repair_required p
    \<and> (\<forall>n < length items. machine_obligation_is_ci (items ! n) \<and> open_status (status (items ! n))
          \<and> lifecycle (items ! n) \<noteq> Some ''cleared'' \<longrightarrow>
        (failed_head_sha (items ! n) = Some head \<longrightarrow>
           items' ! n \<in> set (repair_required p) \<and> items' ! n \<notin> set (revalidation_candidates p))
        \<and> (truthy (failed_head_sha (items ! n)) \<and> failed_head_sha (items ! n) \<noteq> Some head
             \<and> (lifecycle (items ! n) = Some ''repair_required'' \<or> truthy (candidate_head_sha (items ! n))) \<longrightarrow>
           items' ! n \<in> set (revalidation_candidates p) \<and> items' ! n \<notin> set (coder_blockers p)))"
proof -
  have adv: "list_all2 (\<lambda>i j. advance_item H head i = Inr j) items items'"
    using assms(2,3) by (simp add: advance_machine_obligations_for_head_def mapE_Inr_iff)
  have parts: "finalization_blockers p = filter (\<lambda>i. open_status (status i)) items'"
    "coder_blockers p = reviewer_blockers p @ repair_required p"
    "\<And>i. i \<in> set (finalization_blockers p) \<Longrightarrow> of_bool (i \<in> set (reviewer_blockers p)) + of_bool (i \<in> set (repair_required p))
          + of_bool (i \<in> set (revalidation_candidates p)) + of_bool (i \<in> set (evidence_items p)) = (1::nat)"
    by (auto simp: p_def partition_unresolved_items_def Let_def is_evidence_obligation_def needs_repair_def)
  have ci: "(failed_head_sha (items ! n) = Some head \<longrightarrow>
           items' ! n \<in> set (repair_required p) \<and> items' ! n \<notin> set (revalidation_candidates p))
        \<and> (truthy (failed_head_sha (items ! n)) \<and> failed_head_sha (items ! n) \<noteq> Some head
             \<and> (lifecycle (items ! n) = Some ''repair_required'' \<or> truthy (candidate_head_sha (items ! n))) \<longrightarrow>
           items' ! n \<in> set (revalidation_candidates p) \<and> items' ! n \<notin> set (coder_blockers p))"
    if n: "n < length items" and c: "machine_obligation_is_ci (items ! n)" "open_status (status (items ! n))"
      "lifecycle (items ! n) \<noteq> Some ''cleared''" for n
  proof -
    let ?i = "items ! n" and ?j = "items' ! n"
    have "wf_item H ?i" using assms(1) n by simp
    then have ok: "advanced_ok H head ?i ?j"
      using advanced_ok_item [OF _ assms(2)] adv n by (fastforce simp: list_all2_conv_all_nth)
    have "?j \<in> set items'" using adv n by (simp add: list_all2_conv_all_nth)
    moreover have "open_status (status ?j)" "is_machine_obligation ?j" "\<not> is_evidence_obligation ?j"
      using ok c ci_not_evidence [OF c(1)] advanced_kept_machine
      unfolding advanced_ok_def by metis+
    ultimately show ?thesis
      using ok c by (auto simp: advanced_ok_def p_def partition_unresolved_items_def Let_def needs_repair_def)
  qed
  show ?thesis using parts ci by blast
qed

theorem ledger_parts_witness:
  "\<exists>items'. advance_machine_obligations_for_head id (Some ''h2'') [ex_finding, ex_ci] = Inr items'
     \<and> items' ! 1 \<in> set (revalidation_candidates (partition_unresolved_items items' (Some ''h2'')))"
proof -
  have wf: "\<forall>i \<in> set [ex_finding, ex_ci]. wf_item id i" using ex_items_wf by simp
  obtain items' where a: "advance_machine_obligations_for_head id (Some ''h2'') [ex_finding, ex_ci] = Inr items'"
    using advanced_ok_item [of id ex_finding "''h2''"] advanced_ok_item [of id ex_ci "''h2''"] wf
    by (auto simp: advance_machine_obligations_for_head_def)
  have "machine_obligation_is_ci ([ex_finding, ex_ci] ! 1)" "open_status (status ([ex_finding, ex_ci] ! 1))"
    "failed_head_sha ([ex_finding, ex_ci] ! 1) = Some ''h1''" "lifecycle ([ex_finding, ex_ci] ! 1) = Some ''repair_required''"
    by (simp_all add: machine_obligation_is_ci_def is_machine_obligation_def open_status_def ex_ci_def ex_finding_def
        kind_defs among_iff)
  then show ?thesis
    using ledger_parts [OF wf _ a] a by (auto simp: truthy_def dest!: spec [of _ "1::nat"])
qed

end
