(* ===== verification/Round_Record.thy ===== *)
theory Round_Record
  imports Plan_Selection Text_Ops
begin

text \<open>
  The posted round records that every decision about history reads (\<open>round_metadata.py\<close>), the
  authority of a reviewer record (\<open>review_scope.py\<close>), and the approvals that count for one exact head
  (\<open>code_approval.py\<close>, \<open>review_approval.py\<close> and the resume check of \<open>response_validation.py\<close>).

  A record keeps the fields that these readers, the scheduler codec and the panel evidence use; of a
  disposition it keeps only its word.  A decoded field that the code types as \<open>object\<close> is a \<open>pyval\<close>.
\<close>

section \<open>Records\<close>

record sched_meta =
  sm_status :: string
  sm_contract :: pyval
  sm_previous_sha :: "string option"
  sm_current_sha :: "string option"
  sm_digest :: "string option"
  sm_selected :: "string list"
  sm_paused :: "(string \<times> string) list"
  sm_reasons :: "string list"
  sm_final_sweep :: "bool option"
  sm_force_full :: "bool option"
  sm_calls_avoided :: "int option"
  sm_phase :: "string option"
  sm_primary :: "string option"
  sm_approved :: "string list"
  sm_owners :: "string list"
  sm_scope_digest :: "string option"
  sm_source :: "string option"
  sm_previous_key :: pyval
  sm_issue_digest :: "string option"
  sm_stall_reset :: bool
  sm_step_back :: bool
  sm_mode :: "string option"

definition no_sched :: sched_meta where
  "no_sched =
     \<lparr>sm_status = ''absent'', sm_contract = PNone, sm_previous_sha = None, sm_current_sha = None,
      sm_digest = None, sm_selected = [], sm_paused = [], sm_reasons = [], sm_final_sweep = None,
      sm_force_full = None, sm_calls_avoided = None, sm_phase = None, sm_primary = None, sm_approved = [],
      sm_owners = [], sm_scope_digest = None, sm_source = None, sm_previous_key = PNone,
      sm_issue_digest = None, sm_stall_reset = False, sm_step_back = False, sm_mode = None\<rparr>"

record round_meta =
  rm_flow :: string
  rm_role :: string
  rm_agent :: string
  rm_round :: int
  rm_subject :: string
  rm_state :: "string option"
  rm_phase :: string
  rm_dispositions :: "string list"
  rm_requirement_ids :: "string list"
  rm_parent_ids :: "string list option"
  rm_plan_key :: pyval
  rm_plan_hash :: "string option"
  rm_plan_subject :: "string option"
  rm_outcome :: string
  rm_model :: "string option"
  rm_effort :: "string option"
  rm_provider :: "string option"
  rm_architecture :: "int option"
  rm_sched :: sched_meta
  rm_scope :: pyval
  rm_scope_present :: bool
  rm_visual :: pyval
  rm_visual_present :: bool
  rm_coverage :: pyval
  rm_seats :: pyval

record posted =
  index :: int
  meta :: round_meta
  body :: string

text \<open>Equality of JSON values: dictionaries are equal whatever their order.\<close>

function py_eq :: "pyval \<Rightarrow> pyval \<Rightarrow> bool" where
  "py_eq (PDict a) w =
     (case w of
        PDict b \<Rightarrow> set (map fst a) = set (map fst b)
          \<and> list_all (\<lambda>(k, v). case map_of b k of None \<Rightarrow> False | Some x \<Rightarrow> py_eq v x) a
      | _ \<Rightarrow> False)"
| "py_eq (PList xs) w =
     (case w of PList ys \<Rightarrow> length xs = length ys \<and> list_all (\<lambda>(x, y). py_eq x y) (zip xs ys) | _ \<Rightarrow> False)"
| "py_eq (PTuple xs) w =
     (case w of PTuple ys \<Rightarrow> length xs = length ys \<and> list_all (\<lambda>(x, y). py_eq x y) (zip xs ys) | _ \<Rightarrow> False)"
| "py_eq (PBool b) w = (w = PBool b \<or> w = PInt (if b then 1 else 0))"
| "py_eq (PInt n) w = (w = PInt n \<or> (\<exists>b \<in> {True, False}. w = PBool b \<and> n = (if b then 1 else 0)))"
| "py_eq PNone w = (w = PNone)"
| "py_eq (PStr s) w = (w = PStr s)"
  by pat_completeness auto

termination py_eq
  by (relation "measure (size \<circ> fst)")
    (auto simp: less_Suc_eq_le intro!: size_list_estimation' dest: set_zip_leftD)

section \<open>Authority of a review\<close>

text \<open>The readers take a decoded record or its raw payload.\<close>

datatype reader = Decoded round_meta | Raw pyval

definition has_key_in :: "string \<Rightarrow> pyval \<Rightarrow> bool" where
  "has_key_in k p \<longleftrightarrow> k \<in> set (map fst (py_items p))"

fun reader_get :: "reader \<Rightarrow> string \<Rightarrow> pyval" where
  "reader_get (Raw p) k = py_get p k"
| "reader_get (Decoded m) k =
     (if k = ''flow'' then PStr (rm_flow m) else if k = ''role'' then PStr (rm_role m)
      else if k = ''agent'' then PStr (rm_agent m) else if k = ''subject'' then PStr (rm_subject m)
      else if k = ''phase'' then PStr (rm_phase m) else if k = ''review_scope'' then rm_scope m
      else if k = ''screenshot_coverage'' then rm_coverage m else PNone)"

fun scope_present :: "reader \<Rightarrow> bool" where
  "scope_present (Raw p) = has_key_in ''review_scope'' p"
| "scope_present (Decoded m) = (rm_scope_present m \<or> rm_scope m \<noteq> PNone)"

fun lifecycle_present :: "reader \<Rightarrow> bool" where
  "lifecycle_present (Raw p) = has_key_in ''visual_lifecycle'' p"
| "lifecycle_present (Decoded m) = (rm_visual_present m \<or> rm_visual m \<noteq> PNone)"

definition key_set_is :: "string list \<Rightarrow> pyval \<Rightarrow> bool" where
  "key_set_is keys v \<longleftrightarrow> (case v of PDict kvs \<Rightarrow> set (map fst kvs) = set keys | _ \<Rightarrow> False)"

definition is_visual_review :: "reader \<Rightarrow> bool" where
  "is_visual_review r =
     (let sc = reader_get r ''review_scope'';
          head = py_get sc ''head''; seat = py_get sc ''seat'' in
      reader_get r ''flow'' = PStr ''pr'' \<and> reader_get r ''role'' = PStr ''reviewer''
      \<and> key_set_is [''version'', ''kind'', ''head'', ''seat''] sc
      \<and> py_get sc ''version'' = PInt 1 \<and> py_get sc ''kind'' = PStr ''visible-defects''
      \<and> is_str head \<and> hex_of_length 40 (the_str head)
      \<and> head = reader_get r ''subject'' \<and> seat = reader_get r ''agent'' \<and> is_str seat \<and> the_str seat \<noteq> [])"

definition scope_kind_is :: "string \<Rightarrow> pyval \<Rightarrow> bool" where
  "scope_kind_is k v \<longleftrightarrow> (case v of PDict _ \<Rightarrow> py_get v ''kind'' = PStr k | _ \<Rightarrow> False)"

definition visual_candidate :: "reader \<Rightarrow> bool" where
  "visual_candidate r \<longleftrightarrow> lifecycle_present r \<or> is_visual_review r
     \<or> scope_kind_is ''visible-defects'' (reader_get r ''review_scope'')"

text \<open>\<open>str(get('phase') or '')\<close>.\<close>

definition phase_text :: "pyval \<Rightarrow> string" where
  "phase_text v = (if v \<in> {PNone, PBool False, PInt 0, PStr [], PList [], PTuple [], PDict []} then [] else py_str v)"

definition coverage_candidate :: "reader \<Rightarrow> bool" where
  "coverage_candidate r \<longleftrightarrow>
     (case r of Raw p \<Rightarrow> has_key_in ''screenshot_coverage'' p | Decoded m \<Rightarrow> rm_coverage m \<noteq> PNone)
     \<or> starts_with ''screenshot-coverage'' (phase_text (reader_get r ''phase''))
     \<or> scope_kind_is ''screenshot-coverage'' (reader_get r ''review_scope'')"

definition is_complete_code_review :: "reader \<Rightarrow> bool" where
  "is_complete_code_review r \<longleftrightarrow>
     reader_get r ''role'' = PStr ''reviewer'' \<and> \<not> scope_present r \<and> \<not> visual_candidate r \<and> \<not> coverage_candidate r"

definition authority_records :: "posted list \<Rightarrow> posted list" where
  "authority_records rs =
     filter (\<lambda>r. \<not> visual_candidate (Decoded (meta r)) \<and> \<not> coverage_candidate (Decoded (meta r))) rs"

definition valid_evidence_scope :: "pyval \<Rightarrow> bool" where
  "valid_evidence_scope sc \<longleftrightarrow>
     key_set_is [''version'', ''kind'', ''capture'', ''head'', ''matrix'', ''rows'', ''contract''] sc
     \<and> py_get sc ''version'' = PInt 1 \<and> py_get sc ''kind'' = PStr ''capture-evidence''
     \<and> (\<forall>k \<in> set [''capture'', ''head'', ''matrix'', ''contract''].
          is_str (py_get sc k) \<and> py_get sc k \<noteq> PStr [])
     \<and> (case py_get sc ''rows'' of
          PList rows \<Rightarrow> rows \<noteq> [] \<and> (\<forall>v \<in> set rows. is_str v \<and> v \<noteq> PStr []) \<and> no_dups rows
        | _ \<Rightarrow> False)"

section \<open>Approvals of one exact head\<close>

definition contradictory_evidence_approval :: "round_meta \<Rightarrow> bool" where
  "contradictory_evidence_approval m \<longleftrightarrow>
     rm_state m = Some ''approved'' \<and> (\<exists>d \<in> set (rm_dispositions m). d \<in> {''blocking'', ''same-pr''})"

text \<open>What the seats of a board were configured to be: the models, the effort and the provider of each.\<close>

definition acquisition_matches :: "(string \<rightharpoonup> pyval list) option \<Rightarrow> round_meta \<Rightarrow> bool" where
  "acquisition_matches contract m =
     (case contract of
        None \<Rightarrow> True
      | Some c \<Rightarrow>
         (case c (rm_agent m) of
            None \<Rightarrow> False
          | Some expected \<Rightarrow>
              length expected \<ge> 2 \<and> rm_outcome m = ''success''
              \<and> (case expected ! 0 of
                   PTuple models \<Rightarrow> of_opt_str (rm_model m) \<in> set models
                 | model \<Rightarrow> of_opt_str (rm_model m) = model)
              \<and> of_opt_str (rm_effort m) = expected ! 1
              \<and> (length expected < 3 \<or> of_opt_str (rm_provider m) = expected ! 2)))"

text \<open>The approved plan of a run is its hash and its subject.\<close>

definition plan_matches :: "(string \<times> string) option \<Rightarrow> round_meta \<Rightarrow> bool" where
  "plan_matches context m =
     (case context of None \<Rightarrow> True
      | Some (h, s) \<Rightarrow> rm_plan_hash m = Some h \<and> rm_plan_subject m = Some s)"

record head_query =
  hq_reviewers :: "string list"
  hq_plan :: "(string \<times> string) option"
  hq_requirements :: "string list"
  hq_acquisition :: "(string \<rightharpoonup> pyval list) option"
  hq_architecture :: bool

definition requirements_named :: "string list \<Rightarrow> posted \<Rightarrow> bool" where
  "requirements_named ids r \<longleftrightarrow>
     ids = [] \<or> contains ''HUMAN_REQUIREMENTS_RESOLVED'' (body r) \<and> set ids \<subseteq> set (rm_requirement_ids (meta r))"

text \<open>The records the lookup passes over.\<close>

definition reviews_head :: "head_query \<Rightarrow> string \<Rightarrow> posted \<Rightarrow> bool" where
  "reviews_head q head r \<longleftrightarrow>
     rm_subject (meta r) = head \<and> is_complete_code_review (Decoded (meta r))
     \<and> rm_agent (meta r) \<in> set (hq_reviewers q)
     \<and> (hq_architecture q \<longrightarrow> rm_architecture (meta r) = Some 1)"

fun latest_by_reviewer :: "head_query \<Rightarrow> string \<Rightarrow> posted list \<Rightarrow> (string \<times> posted) list \<Rightarrow> (string \<times> posted) list" where
  "latest_by_reviewer q head [] latest = latest"
| "latest_by_reviewer q head (r # older) latest =
     latest_by_reviewer q head older
       (if reviews_head q head r \<and> rm_agent (meta r) \<notin> set (map fst latest)
        then latest @ [(rm_agent (meta r), r)] else latest)"

definition counts_as_approval :: "head_query \<Rightarrow> posted \<Rightarrow> bool" where
  "counts_as_approval q r \<longleftrightarrow>
     rm_state (meta r) = Some ''approved'' \<and> \<not> contradictory_evidence_approval (meta r)
     \<and> acquisition_matches (hq_acquisition q) (meta r) \<and> plan_matches (hq_plan q) (meta r)
     \<and> requirements_named (hq_requirements q) r"

definition approved_reviews_for_head :: "posted list \<Rightarrow> head_query \<Rightarrow> string option \<Rightarrow> (string \<times> posted) list" where
  "approved_reviews_for_head records q head =
     (case head of
        None \<Rightarrow> []
      | Some h \<Rightarrow> if h = [] then []
                  else filter (\<lambda>(n, r). counts_as_approval q r) (latest_by_reviewer q h (rev records) []))"

section \<open>Resumed reviews\<close>

definition RESOLVED_MARK :: string where
  "RESOLVED_MARK = ''HUMAN_REQUIREMENTS_RESOLVED''"

text \<open>\<open><!--\s*HUMAN_REQUIREMENTS_RESOLVED\s*-->\<close>, ignoring case, at the start of a text and anywhere.\<close>

definition resolved_here :: "string \<Rightarrow> bool" where
  "resolved_here s \<longleftrightarrow>
     starts_with ''<!--'' s
     \<and> (let rest = dropWhile is_space (drop 4 s) in
        starts_with (py_lower RESOLVED_MARK) (py_lower rest)
        \<and> starts_with ''-->'' (dropWhile is_space (drop (length RESOLVED_MARK) rest)))"

fun human_requirements_resolved :: "string \<Rightarrow> bool" where
  "human_requirements_resolved [] = False"
| "human_requirements_resolved (c # cs) = (resolved_here (c # cs) \<or> human_requirements_resolved cs)"

definition requirement_coverage_matches :: "string list \<Rightarrow> string list \<Rightarrow> bool" where
  "requirement_coverage_matches ids persisted \<longleftrightarrow>
     (if ids = [] then True
      else if \<exists>p \<in> set persisted. \<not> (starts_with ''hr-'' p \<and> hex_of_length 64 (drop 3 p)) then False
      else set ids \<subseteq> set persisted)"

definition resumed_reviewer_matches :: "posted \<Rightarrow> head_query \<Rightarrow> bool" where
  "resumed_reviewer_matches r q =
     (if contradictory_evidence_approval (meta r) then False
      else plan_matches (hq_plan q) (meta r) \<and> acquisition_matches (hq_acquisition q) (meta r)
        \<and> (hq_requirements q = []
           \<or> human_requirements_resolved (body r)
             \<and> requirement_coverage_matches (hq_requirements q) (rm_requirement_ids (meta r))))"

text \<open>\<open>_classify_pr_reviewer_prelaunch\<close>: what one reviewer's turn in a round is.\<close>

definition classify_prelaunch ::
  "string \<Rightarrow> bool \<Rightarrow> bool \<Rightarrow> bool \<Rightarrow> string list \<Rightarrow> posted option \<Rightarrow> bool \<Rightarrow> int \<Rightarrow> string list \<Rightarrow> string" where
  "classify_prelaunch name unavailable resumed selective selected prior full_board rnd ids =
     (if unavailable then ''skip''
      else if resumed then ''resumed''
      else if selective \<and> name \<notin> set selected then ''skip''
      else case prior of
             None \<Rightarrow> ''turn''
           | Some r \<Rightarrow>
               if \<not> full_board \<and> rm_round (meta r) < rnd
                  \<and> (ids = [] \<or> human_requirements_resolved (body r)
                       \<and> requirement_coverage_matches ids (rm_requirement_ids (meta r)))
               then ''carried'' else ''turn'')"


section \<open>Facts\<close>

lemma latest_by_reviewer_map:
  "map_of (latest_by_reviewer q head rs latest) n =
     (case map_of latest n of Some r \<Rightarrow> Some r
      | None \<Rightarrow> find (\<lambda>r. reviews_head q head r \<and> rm_agent (meta r) = n) rs)"
proof (induction rs arbitrary: latest)
  case (Cons r rs)
  have dom: "rm_agent (meta r) \<in> set (map fst latest) \<longleftrightarrow> map_of latest (rm_agent (meta r)) \<noteq> None"
    by (simp only: map_of_eq_None_iff) simp
  show ?case
    by (cases "reviews_head q head r \<and> rm_agent (meta r) \<notin> set (map fst latest)")
      (use dom in \<open>auto simp: Cons.IH map_add_def split: option.splits\<close>)
qed (auto split: option.splits)

lemma latest_by_reviewer_distinct:
  "distinct (map fst latest) \<Longrightarrow> distinct (map fst (latest_by_reviewer q head rs latest))"
  by (induction rs arbitrary: latest) auto

lemma find_rev_split:
  "find P (rev xs) = Some x \<longleftrightarrow>
     (\<exists>before after. xs = before @ x # after \<and> P x \<and> (\<forall>y \<in> set after. \<not> P y))"
proof (induction xs rule: rev_induct)
  case (snoc y ys)
  show ?case
  proof (cases "P y")
    case True
    have "x = y" if "ys @ [y] = before @ x # after" "\<forall>z \<in> set after. \<not> P z" for before after
      using that True by (cases after rule: rev_cases) auto
    moreover have "\<exists>before after. ys @ [y] = before @ y # after \<and> (\<forall>z \<in> set after. \<not> P z)"
      by (intro exI [of _ ys] exI [of _ "[]"]) simp
    ultimately show ?thesis using True by auto
  next
    case False
    have "(\<exists>before after. ys @ [y] = before @ x # after \<and> P x \<and> (\<forall>z \<in> set after. \<not> P z))
        \<longleftrightarrow> (\<exists>before after. ys = before @ x # after \<and> P x \<and> (\<forall>z \<in> set after. \<not> P z))" (is "?l \<longleftrightarrow> ?r")
    proof
      assume ?l
      then obtain before after where "ys @ [y] = before @ x # after" "P x" "\<forall>z \<in> set after. \<not> P z" by blast
      then show ?r using False by (cases after rule: rev_cases) auto
    next
      assume ?r
      then obtain before after where "ys @ [y] = before @ x # (after @ [y])" "P x" "\<forall>z \<in> set after. \<not> P z" by auto
      then show ?l using False by fastforce
    qed
    then show ?thesis using False snoc.IH by simp
  qed
qed simp

lemma approved_iff:
  assumes "h \<noteq> []"
  shows "(n, r) \<in> set (approved_reviews_for_head records q (Some h)) \<longleftrightarrow>
    counts_as_approval q r \<and> find (\<lambda>x. reviews_head q h x \<and> rm_agent (meta x) = n) (rev records) = Some r"
proof -
  have "(n, r) \<in> set (latest_by_reviewer q h (rev records) []) \<longleftrightarrow>
      map_of (latest_by_reviewer q h (rev records) []) n = Some r"
    using latest_by_reviewer_distinct [of "[]" q h "rev records"] by (simp add: map_of_eq_Some_iff)
  then show ?thesis using assms by (auto simp: approved_reviews_for_head_def latest_by_reviewer_map)
qed

section \<open>Properties\<close>

text \<open>The approvals of an exact head.  Without a head there are none.  Otherwise a reviewer's record
  counts exactly when it is that reviewer's last complete code review of this very head and of the
  configured board (so an older approval never outlives a later blocking review of the same head), its
  state is approved without a disposition that keeps an item blocking, it was acquired as the seat is
  configured, against the same approved plan, and it names every current human requirement.  Each
  reviewer counts at most once.\<close>

theorem head_approval_iff:
  "(head = None \<or> head = Some [] \<longrightarrow> approved_reviews_for_head records q head = [])
   \<and> (head = Some h \<and> h \<noteq> [] \<longrightarrow>
       ((n, r) \<in> set (approved_reviews_for_head records q head) \<longleftrightarrow>
          (\<exists>before after. records = before @ r # after
             \<and> rm_agent (meta r) = n \<and> n \<in> set (hq_reviewers q) \<and> rm_subject (meta r) = h
             \<and> is_complete_code_review (Decoded (meta r))
             \<and> (hq_architecture q \<longrightarrow> rm_architecture (meta r) = Some 1)
             \<and> (\<forall>x \<in> set after. \<not> (reviews_head q h x \<and> rm_agent (meta x) = n)))
          \<and> rm_state (meta r) = Some ''approved''
          \<and> set (rm_dispositions (meta r)) \<inter> {''blocking'', ''same-pr''} = {}
          \<and> acquisition_matches (hq_acquisition q) (meta r) \<and> plan_matches (hq_plan q) (meta r)
          \<and> requirements_named (hq_requirements q) r))
   \<and> distinct (map fst (approved_reviews_for_head records q head))"
proof -
  have "distinct (map fst (approved_reviews_for_head records q head))"
    using latest_by_reviewer_distinct [of "[]" q _ "rev records"]
    by (auto simp: approved_reviews_for_head_def distinct_map_filter split: option.splits)
  moreover have "(n, r) \<in> set (approved_reviews_for_head records q head) \<longleftrightarrow>
      (\<exists>before after. records = before @ r # after \<and> (reviews_head q h r \<and> rm_agent (meta r) = n)
         \<and> (\<forall>x \<in> set after. \<not> (reviews_head q h x \<and> rm_agent (meta x) = n))) \<and> counts_as_approval q r"
    if "head = Some h \<and> h \<noteq> []"
    using that by (simp add: approved_iff find_rev_split conj_commute)
  ultimately show ?thesis
    by (auto simp: approved_reviews_for_head_def reviews_head_def counts_as_approval_def
        contradictory_evidence_approval_def)
qed

definition ex_meta :: "string \<Rightarrow> string \<Rightarrow> round_meta" where
  "ex_meta name st =
     \<lparr>rm_flow = ''pr'', rm_role = ''reviewer'', rm_agent = name, rm_round = 1, rm_subject = ''h1'',
      rm_state = Some st, rm_phase = ''authoritative'', rm_dispositions = [], rm_requirement_ids = [],
      rm_parent_ids = None, rm_plan_key = PNone, rm_plan_hash = None, rm_plan_subject = None,
      rm_outcome = ''success'', rm_model = None, rm_effort = None, rm_provider = None,
      rm_architecture = None, rm_sched = no_sched, rm_scope = PNone, rm_scope_present = False,
      rm_visual = PNone, rm_visual_present = False, rm_coverage = PNone, rm_seats = PNone\<rparr>"

definition ex_posted :: "int \<Rightarrow> string \<Rightarrow> string \<Rightarrow> posted" where
  "ex_posted i name st = \<lparr>index = i, meta = ex_meta name st, body = []\<rparr>"

definition ex_query :: head_query where
  "ex_query = \<lparr>hq_reviewers = [''ann'', ''bob''], hq_plan = None, hq_requirements = [],
     hq_acquisition = None, hq_architecture = False\<rparr>"

lemma ex_complete: "is_complete_code_review (Decoded (ex_meta name st))"
  by (simp add: is_complete_code_review_def visual_candidate_def coverage_candidate_def is_visual_review_def
      scope_kind_is_def key_set_is_def phase_text_def starts_with_def ex_meta_def Let_def)

theorem head_approval_iff_witness:
  "(''ann'', ex_posted 1 ''ann'' ''approved'')
      \<in> set (approved_reviews_for_head [ex_posted 1 ''ann'' ''approved''] ex_query (Some ''h1''))
   \<and> (''ann'', ex_posted 1 ''ann'' ''approved'')
      \<notin> set (approved_reviews_for_head [ex_posted 1 ''ann'' ''approved'', ex_posted 2 ''ann'' ''blocking'']
               ex_query (Some ''h1''))"
proof -
  let ?a = "ex_posted 1 ''ann'' ''approved''" and ?b = "ex_posted 2 ''ann'' ''blocking''"
  have "?a \<noteq> ?b" by (simp add: ex_posted_def)
  then have split: "[?a, ?b] = before @ ?a # after \<Longrightarrow> ?b \<in> set after" for before after
    by (auto simp: append_eq_Cons_conv Cons_eq_append_conv)
  have rev: "reviews_head ex_query ''h1'' (ex_posted i ''ann'' st)" for i st
    by (simp add: reviews_head_def ex_posted_def ex_complete) (simp add: ex_meta_def ex_query_def)
  have fields: "rm_agent (meta ?a) = ''ann''" "rm_agent (meta ?b) = ''ann''" "rm_subject (meta ?a) = ''h1''"
    "rm_state (meta ?a) = Some ''approved''" "rm_dispositions (meta ?a) = []"
    "is_complete_code_review (Decoded (meta ?a))" "acquisition_matches (hq_acquisition ex_query) (meta ?a)"
    "plan_matches (hq_plan ex_query) (meta ?a)" "requirements_named (hq_requirements ex_query) ?a"
    "''ann'' \<in> set (hq_reviewers ex_query)" "\<not> hq_architecture ex_query"
    by (simp_all add: ex_posted_def ex_complete)
      (simp_all add: ex_meta_def ex_query_def acquisition_matches_def plan_matches_def requirements_named_def)
  note counts = head_approval_iff [of "Some ''h1''" _ ex_query "''h1''" "''ann''" ?a, THEN conjunct2, THEN conjunct1, THEN mp]
  have one: "\<exists>before after. [?a] = before @ ?a # after \<and> (\<forall>x \<in> set after. \<not> (reviews_head ex_query ''h1'' x \<and> rm_agent (meta x) = ''ann''))"
    by (intro exI [of _ "[]"]) simp
  have "(''ann'', ?a) \<in> set (approved_reviews_for_head [?a] ex_query (Some ''h1''))"
    by (subst counts) (simp_all only: fields one simp_thms option.inject list.distinct list.set Int_empty_left)
  moreover have "\<not> (\<exists>before after. [?a, ?b] = before @ ?a # after \<and> (\<forall>x \<in> set after. \<not> (reviews_head ex_query ''h1'' x \<and> rm_agent (meta x) = ''ann'')))"
    using split rev fields(2) by blast
  then have "(''ann'', ?a) \<notin> set (approved_reviews_for_head [?a, ?b] ex_query (Some ''h1''))"
    by (subst counts) (auto simp only: simp_thms option.inject list.distinct)
  ultimately show ?thesis by (rule conjI)
qed

text \<open>The two checks of a reviewer's answer to human requirements differ, in both directions: a body
  that only mentions the marker counts for the head but not on resume, and a marker in lower case counts
  on resume but not for the head.\<close>

theorem requirement_checks_differ:
  fixes m :: round_meta
  assumes "rm_requirement_ids m = [''hr-'' @ replicate 64 CHR ''0'']"
  defines "ids \<equiv> [''hr-'' @ replicate 64 CHR ''0'']"
    and "mention \<equiv> ''no HUMAN_REQUIREMENTS_RESOLVED yet''" and "lower \<equiv> ''<!-- human_requirements_resolved -->''"
  shows "requirements_named ids \<lparr>index = i, meta = m, body = mention\<rparr> \<and> \<not> human_requirements_resolved mention
    \<and> \<not> requirements_named ids \<lparr>index = i, meta = m, body = lower\<rparr> \<and> human_requirements_resolved lower"
proof -
  have "contains ''HUMAN_REQUIREMENTS_RESOLVED'' mention" "\<not> human_requirements_resolved mention"
    "\<not> contains ''HUMAN_REQUIREMENTS_RESOLVED'' lower" "human_requirements_resolved lower"
    unfolding mention_def lower_def by code_simp+
  then show ?thesis using assms(1) by (simp add: requirements_named_def ids_def)
qed

end
