(* ===== verification/Scheduler_Records.thy ===== *)
theory Scheduler_Records
  imports Round_Record Qualification_Checkpoint
begin

text \<open>
  The scheduler checkpoint of a posted record: the writer in \<open>round_metadata.py\<close>, the readers of
  \<open>round_state_scheduler.py\<close> for both flows, and the checkpoints that the loops post before they launch
  reviewers (\<open>pr_loop.py\<close>, \<open>plan_first_loop.py\<close>).  A payload is the JSON object of a record; the other
  keys of the record stand beside the scheduler keys.
\<close>

section \<open>Keys\<close>

definition SCHEDULER_METADATA_KEYS :: "string list" where
  "SCHEDULER_METADATA_KEYS =
     [''scheduler_contract'', ''scheduler_previous_sha'', ''scheduler_current_sha'',
      ''scheduler_obligation_digest'', ''scheduler_selected_reviewers'',
      ''scheduler_paused_reviewers'', ''scheduler_reasons'', ''scheduler_final_sweep'',
      ''scheduler_force_full'', ''scheduler_calls_avoided'']"

definition PLAN_ONLY_SCHEDULER_KEYS :: "string list" where
  "PLAN_ONLY_SCHEDULER_KEYS =
     [''scheduler_issue_digest'', ''scheduler_stall_reset'', ''scheduler_step_back_deferral'',
      ''scheduler_execution_mode'']"

definition SCHEDULER_AUXILIARY_KEYS :: "string list" where
  "SCHEDULER_AUXILIARY_KEYS =
     [''scheduler_phase'', ''scheduler_primary_reviewer'', ''scheduler_approved_reviewers'',
      ''scheduler_active_owners'', ''scheduler_scope_digest'', ''scheduler_force_full_source'',
      ''scheduler_plan_previous_key'']"

definition PLAN_SCHEDULER_METADATA_KEYS :: "string list" where
  "PLAN_SCHEDULER_METADATA_KEYS =
     [''scheduler_contract'', ''scheduler_obligation_digest'', ''scheduler_selected_reviewers'',
      ''scheduler_paused_reviewers'', ''scheduler_reasons'', ''scheduler_final_sweep'',
      ''scheduler_force_full'', ''scheduler_calls_avoided'']"

definition PR_ONLY_SCHEDULER_KEYS :: "string list" where
  "PR_ONLY_SCHEDULER_KEYS =
     [''scheduler_previous_sha'', ''scheduler_current_sha'', ''scheduler_scope_digest'']"

definition FORCE_FULL_SOURCES :: "string list" where
  "FORCE_FULL_SOURCES = [''operator'', ''automatic'']"

definition PLAN_EXECUTION_MODES :: "string list" where
  "PLAN_EXECUTION_MODES =
     [''plan-only'', ''decompose-only'', ''implement-one-shot'', ''implement-by-phase'', ''auto'']"

section \<open>Writing\<close>

definition strs :: "string list \<Rightarrow> pyval" where
  "strs xs = PList (map PStr xs)"

definition of_opt_bool :: "bool option \<Rightarrow> pyval" where
  "of_opt_bool b = (case b of None \<Rightarrow> PNone | Some x \<Rightarrow> PBool x)"

definition scheduler_values :: "sched_meta \<Rightarrow> (string \<times> pyval) list" where
  "scheduler_values m =
     [(''scheduler_contract'', sm_contract m),
      (''scheduler_previous_sha'', of_opt_str (sm_previous_sha m)),
      (''scheduler_current_sha'', of_opt_str (sm_current_sha m)),
      (''scheduler_obligation_digest'', of_opt_str (sm_digest m)),
      (''scheduler_selected_reviewers'', strs (sm_selected m)),
      (''scheduler_paused_reviewers'', PList (map (\<lambda>(n, w). PList [PStr n, PStr w]) (sm_paused m))),
      (''scheduler_reasons'', strs (sm_reasons m)),
      (''scheduler_final_sweep'', of_opt_bool (sm_final_sweep m)),
      (''scheduler_force_full'', of_opt_bool (sm_force_full m)),
      (''scheduler_calls_avoided'', of_opt_int (sm_calls_avoided m)),
      (''scheduler_phase'', of_opt_str (sm_phase m)),
      (''scheduler_primary_reviewer'', of_opt_str (sm_primary m)),
      (''scheduler_approved_reviewers'', strs (sm_approved m)),
      (''scheduler_active_owners'', strs (sm_owners m)),
      (''scheduler_scope_digest'', of_opt_str (sm_scope_digest m)),
      (''scheduler_force_full_source'', of_opt_str (sm_source m)),
      (''scheduler_plan_previous_key'', sm_previous_key m)]"

definition plan_only_values :: "sched_meta \<Rightarrow> (string \<times> pyval) list" where
  "plan_only_values m =
     (case sm_issue_digest m of None \<Rightarrow> [] | Some d \<Rightarrow> [(''scheduler_issue_digest'', PStr d)])
     @ (if sm_stall_reset m then [(''scheduler_stall_reset'', PBool True)] else [])
     @ (if sm_step_back m then [(''scheduler_step_back_deferral'', PBool True)] else [])
     @ (case sm_mode m of None \<Rightarrow> [] | Some x \<Rightarrow> [(''scheduler_execution_mode'', PStr x)])"

definition encode_sched :: "sched_meta \<Rightarrow> (string \<times> pyval) list" where
  "encode_sched m =
     (if \<exists>(k, v) \<in> set (scheduler_values m). v \<notin> {PNone, PTuple [], PList []}
      then filter (\<lambda>(k, v). k \<notin> set SCHEDULER_AUXILIARY_KEYS \<or> v \<notin> {PNone, PList []}) (scheduler_values m)
      else [])
     @ plan_only_values m"

section \<open>Reading\<close>

definition str_list :: "pyval \<Rightarrow> string list option" where
  "str_list v = (case v of PList xs \<Rightarrow> if \<forall>x \<in> set xs. is_str x then Some (map the_str xs) else None | _ \<Rightarrow> None)"

fun pair_of :: "pyval \<Rightarrow> (string \<times> string) option" where
  "pair_of (PList [PStr n, PStr w]) = (if n \<noteq> [] \<and> w \<noteq> [] then Some (n, w) else None)"
| "pair_of _ = None"

definition pair_list :: "pyval \<Rightarrow> (string \<times> string) list option" where
  "pair_list v =
     (case v of PList xs \<Rightarrow> if \<forall>x \<in> set xs. pair_of x \<noteq> None then Some (map (the \<circ> pair_of) xs) else None
      | _ \<Rightarrow> None)"

definition get_or :: "pyval \<Rightarrow> string \<Rightarrow> pyval \<Rightarrow> pyval" where
  "get_or p k d = (if has_key_in k p then py_get p k else d)"

definition source_ok :: "bool \<Rightarrow> pyval \<Rightarrow> bool" where
  "source_ok force v = (case v of PNone \<Rightarrow> True | PStr s \<Rightarrow> s \<in> set FORCE_FULL_SOURCES \<and> force | _ \<Rightarrow> False)"

definition board_ok :: "string list \<Rightarrow> string list \<Rightarrow> (string \<times> string) list \<Rightarrow> bool" where
  "board_ok required selected paused \<longleftrightarrow>
     no_dups selected \<and> set selected \<subseteq> set required
     \<and> no_dups (map fst paused) \<and> fst ` set paused \<subseteq> set required
     \<and> set selected \<inter> fst ` set paused = {} \<and> set selected \<union> fst ` set paused = set required"

definition decode_lists :: "pyval \<Rightarrow> string list \<Rightarrow> sched_meta option" where
  "decode_lists p required =
     (case (str_list (py_get p ''scheduler_selected_reviewers''), pair_list (py_get p ''scheduler_paused_reviewers''),
            str_list (py_get p ''scheduler_reasons''), py_get p ''scheduler_final_sweep'',
            py_get p ''scheduler_force_full'', py_get p ''scheduler_calls_avoided'',
            str_list (get_or p ''scheduler_approved_reviewers'' (PList [])),
            str_list (get_or p ''scheduler_active_owners'' (PList []))) of
        (Some selected, Some paused, Some reasons, PBool sweep, PBool force, PInt calls, Some approved, Some owners) \<Rightarrow>
          let source = py_get p ''scheduler_force_full_source'' in
          if board_ok required selected paused \<and> [] \<notin> set reasons \<and> 0 \<le> calls
             \<and> no_dups approved \<and> set approved \<subseteq> set required
             \<and> [] \<notin> set owners \<and> no_dups owners \<and> source_ok force source
          then Some (no_sched\<lparr>sm_status := ''valid'', sm_selected := selected, sm_paused := paused,
                      sm_reasons := reasons, sm_final_sweep := Some sweep, sm_force_full := Some force,
                      sm_calls_avoided := Some calls, sm_approved := approved, sm_owners := owners,
                      sm_source := opt_str source\<rparr>)
          else None
      | _ \<Rightarrow> None)"

definition invalid_sched :: sched_meta where
  "invalid_sched = no_sched\<lparr>sm_status := ''invalid''\<rparr>"

definition or_invalid :: "sched_meta option \<Rightarrow> sched_meta" where
  "or_invalid x = (case x of None \<Rightarrow> invalid_sched | Some m \<Rightarrow> m)"

definition hex16 :: "pyval \<Rightarrow> bool" where
  "hex16 v \<longleftrightarrow> is_str v \<and> hex_of_length 16 (the_str v)"

definition phase_ok :: "string list \<Rightarrow> pyval \<Rightarrow> bool" where
  "phase_ok phases v = (case v of PNone \<Rightarrow> True | PStr s \<Rightarrow> s \<in> set phases | _ \<Rightarrow> False)"

definition primary_ok :: "string option \<Rightarrow> pyval \<Rightarrow> bool" where
  "primary_ok primary v = (case v of PNone \<Rightarrow> True | PStr s \<Rightarrow> primary = Some s | _ \<Rightarrow> False)"

definition decode_pr_fields :: "(string \<Rightarrow> string) \<Rightarrow> pyval \<Rightarrow> sched_meta option" where
  "decode_pr_fields sha p =
     (case contract_from_mapping sha (py_get p ''scheduler_contract'') of
        Inl _ \<Rightarrow> None
      | Inr c \<Rightarrow>
         let previous = py_get p ''scheduler_previous_sha''; current = py_get p ''scheduler_current_sha'';
             digest = py_get p ''scheduler_obligation_digest''; ph = py_get p ''scheduler_phase'';
             primary = py_get p ''scheduler_primary_reviewer''; scope_digest = py_get p ''scheduler_scope_digest''
         in if (previous = PNone \<or> is_str previous \<and> previous \<noteq> PStr [])
               \<and> is_str current \<and> current \<noteq> PStr [] \<and> hex16 digest
               \<and> phase_ok SCHEDULER_PHASES ph \<and> primary_ok (primary_reviewer c) primary
               \<and> (scope_digest = PNone \<or> hex16 scope_digest)
            then map_option (\<lambda>m. m\<lparr>sm_contract := contract_as_dict c, sm_previous_sha := opt_str previous,
                    sm_current_sha := opt_str current, sm_digest := opt_str digest, sm_phase := opt_str ph,
                    sm_primary := opt_str primary, sm_scope_digest := opt_str scope_digest\<rparr>)
                  (decode_lists p (required_reviewers c))
            else None)"

text \<open>The board record of a named \<open>all-reviewers\<close> plan: a contract, a seat board and no vote.\<close>

definition NEUTRAL :: "(string \<times> pyval) list" where
  "NEUTRAL =
     [(''scheduler_obligation_digest'', PNone), (''scheduler_selected_reviewers'', PList []),
      (''scheduler_paused_reviewers'', PList []), (''scheduler_reasons'', PList []),
      (''scheduler_final_sweep'', PNone), (''scheduler_force_full'', PNone),
      (''scheduler_calls_avoided'', PNone)]"

definition neutral_board :: "pyval \<Rightarrow> plan_contract option" where
  "neutral_board p =
     (case (py_get p ''seat_binding'', plan_contract_from_mapping (py_get p ''scheduler_contract'')) of
        (PDict _, Inr c) \<Rightarrow>
          if py_get p ''scheduler_contract'' \<noteq> PNone
             \<and> plan_policy c = ''all-reviewers'' \<and> plan_primary c = None
             \<and> (\<forall>(k, v) \<in> set NEUTRAL. py_get p k = v)
             \<and> (\<forall>k \<in> set (SCHEDULER_AUXILIARY_KEYS @ PLAN_ONLY_SCHEDULER_KEYS @ PR_ONLY_SCHEDULER_KEYS).
                  py_get p k = PNone)
          then Some c else None
      | _ \<Rightarrow> None)"

definition complete_key :: "pyval \<Rightarrow> bool" where
  "complete_key v =
     (case v of PDict _ \<Rightarrow> (case key_from_mapping v of Inr k \<Rightarrow> key_complete k | Inl _ \<Rightarrow> False) | _ \<Rightarrow> False)"

definition marker_ok :: "pyval \<Rightarrow> string \<Rightarrow> bool" where
  "marker_ok p k \<longleftrightarrow>
     has_key_in k p \<longrightarrow> py_get p k = PBool True \<and> py_get p ''scheduler_phase'' = PStr ''primary''"

definition decode_execution_mode :: "pyval \<Rightarrow> string option" where
  "decode_execution_mode v =
     (case v of PStr s \<Rightarrow> if s \<in> set PLAN_EXECUTION_MODES then Some s else None | _ \<Rightarrow> None)"

definition decode_plan_fields :: "pyval \<Rightarrow> sched_meta option" where
  "decode_plan_fields p =
     (case plan_contract_from_mapping (py_get p ''scheduler_contract'') of
        Inl _ \<Rightarrow> None
      | Inr c \<Rightarrow>
         let digest = py_get p ''scheduler_obligation_digest''; ph = py_get p ''scheduler_phase'';
             primary = py_get p ''scheduler_primary_reviewer''; previous = py_get p ''scheduler_plan_previous_key'';
             issue = py_get p ''scheduler_issue_digest''
         in if hex16 digest \<and> complete_key (py_get p ''plan_candidate_key'')
               \<and> (previous = PNone \<or> complete_key previous)
               \<and> phase_ok PLAN_SCHEDULER_PHASES ph \<and> primary_ok (plan_primary c) primary
               \<and> (has_key_in ''scheduler_issue_digest'' p \<longrightarrow> hex16 issue)
               \<and> marker_ok p ''scheduler_stall_reset'' \<and> marker_ok p ''scheduler_step_back_deferral''
            then map_option (\<lambda>m. m\<lparr>sm_contract := plan_contract_as_dict c, sm_digest := opt_str digest,
                    sm_phase := opt_str ph, sm_primary := opt_str primary, sm_previous_key := previous,
                    sm_issue_digest := opt_str issue,
                    sm_stall_reset := has_key_in ''scheduler_stall_reset'' p,
                    sm_step_back := has_key_in ''scheduler_step_back_deferral'' p,
                    sm_mode := decode_execution_mode (py_get p ''scheduler_execution_mode'')\<rparr>)
                  (decode_lists p (plan_reviewers c))
            else None)"

definition decode_plan_scheduler_fields :: "pyval \<Rightarrow> sched_meta" where
  "decode_plan_scheduler_fields p =
     (case neutral_board p of
        Some c \<Rightarrow> no_sched\<lparr>sm_status := ''valid'', sm_contract := plan_contract_as_dict c\<rparr>
      | None \<Rightarrow>
          if \<exists>k \<in> set PLAN_SCHEDULER_METADATA_KEYS. \<not> has_key_in k p then invalid_sched
          else if \<exists>k \<in> set PR_ONLY_SCHEDULER_KEYS. py_get p k \<noteq> PNone then invalid_sched
          else or_invalid (decode_plan_fields p))"

definition decode_scheduler_fields :: "(string \<Rightarrow> string) \<Rightarrow> pyval \<Rightarrow> sched_meta" where
  "decode_scheduler_fields sha p =
     (if \<forall>k \<in> set (SCHEDULER_METADATA_KEYS @ SCHEDULER_AUXILIARY_KEYS @ PLAN_ONLY_SCHEDULER_KEYS).
           \<not> has_key_in k p then no_sched
      else if py_get p ''flow'' = PStr ''plan'' then decode_plan_scheduler_fields p
      else if \<exists>k \<in> set PLAN_ONLY_SCHEDULER_KEYS. has_key_in k p then invalid_sched
      else if \<exists>k \<in> set SCHEDULER_METADATA_KEYS. \<not> has_key_in k p then invalid_sched
      else or_invalid (decode_pr_fields sha p))"

section \<open>The checkpoints before a launch\<close>

definition scheduler_recorded_force_full :: "bool \<Rightarrow> bool \<Rightarrow> bool \<times> string option" where
  "scheduler_recorded_force_full operator automatic =
     (if operator then (True, Some ''operator'') else if automatic then (True, Some ''automatic'')
      else (False, None))"

record latch_state =
  operator_latch :: bool
  automatic_latch :: bool
  total_avoided :: int

definition pr_prelaunch ::
  "(string \<Rightarrow> string) \<Rightarrow> snapshot \<Rightarrow> item list \<Rightarrow> decision \<Rightarrow> latch_state \<Rightarrow> string list \<Rightarrow> sched_meta" where
  "pr_prelaunch sha s items d l approvals =
     (let (force, source) = scheduler_recorded_force_full (operator_latch l) (automatic_latch l) in
      no_sched\<lparr>sm_status := ''valid'', sm_contract := contract_as_dict (snap_contract s),
        sm_previous_sha := previous_sha s, sm_current_sha := current_sha s,
        sm_digest := Some (qualification_digest sha (scheduler_item_ledger_signature items)),
        sm_selected := selected_reviewers d, sm_paused := paused_reviewers d,
        sm_reasons := [decision_reason d, reason (decision_classification d)],
        sm_final_sweep := Some (final_sweep_of d), sm_force_full := Some force,
        sm_calls_avoided := Some (total_avoided l), sm_phase := Some (decision_phase d),
        sm_primary := primary_reviewer (snap_contract s), sm_approved := sorted_set approvals,
        sm_owners := active_owners d,
        sm_scope_digest := Some (qualification_digest sha
          (PTuple (map PStr (changed_paths (decision_classification d))))),
        sm_source := source\<rparr>)"

definition plan_prelaunch ::
  "(string \<Rightarrow> string) \<Rightarrow> plan_snapshot \<Rightarrow> item list \<Rightarrow> plan_decision \<Rightarrow> latch_state \<Rightarrow> string list
     \<Rightarrow> string \<Rightarrow> bool \<Rightarrow> bool \<Rightarrow> string \<Rightarrow> sched_meta" where
  "plan_prelaunch sha s items d l approvals issue_digest reset step_back mode =
     (let (force, source) = scheduler_recorded_force_full (operator_latch l) (automatic_latch l);
          primary_phase = (plan_decision_phase d = ''primary'') in
      no_sched\<lparr>sm_status := ''valid'', sm_contract := plan_contract_as_dict (pcontract s),
        sm_digest := Some (qualification_digest sha (prior_item_ledger_signature items)),
        sm_selected := plan_selected d, sm_paused := plan_paused d,
        sm_reasons := [plan_reason d, preason (plan_decision_classification d)],
        sm_final_sweep := Some (plan_final_sweep d), sm_force_full := Some force,
        sm_calls_avoided := Some (total_avoided l), sm_phase := Some (plan_decision_phase d),
        sm_primary := plan_primary (pcontract s), sm_approved := approvals,
        sm_owners := plan_active_owners d, sm_source := source,
        sm_previous_key := (case previous_key s of None \<Rightarrow> PNone | Some k \<Rightarrow> key_as_dict k),
        sm_issue_digest := (if primary_phase then Some issue_digest else None),
        sm_stall_reset := (reset \<and> primary_phase), sm_step_back := (step_back \<and> primary_phase),
        sm_mode := Some mode\<rparr>)"


section \<open>What a written record reads back as\<close>

definition lists_sound :: "string list \<Rightarrow> sched_meta \<Rightarrow> bool" where
  "lists_sound required m \<longleftrightarrow>
     board_ok required (sm_selected m) (sm_paused m) \<and> (\<forall>(n, w) \<in> set (sm_paused m). n \<noteq> [] \<and> w \<noteq> [])
     \<and> [] \<notin> set (sm_reasons m) \<and> sm_final_sweep m \<noteq> None \<and> sm_force_full m \<noteq> None
     \<and> (\<exists>n. sm_calls_avoided m = Some n \<and> 0 \<le> n)
     \<and> distinct (sm_approved m) \<and> set (sm_approved m) \<subseteq> set required
     \<and> distinct (sm_owners m) \<and> [] \<notin> set (sm_owners m)
     \<and> (sm_source m = None \<or> sm_force_full m = Some True \<and> (\<exists>src \<in> set FORCE_FULL_SOURCES. sm_source m = Some src))"

definition hex16_str :: "string option \<Rightarrow> bool" where
  "hex16_str x \<longleftrightarrow> (\<exists>s. x = Some s \<and> hex_of_length 16 s)"

definition sound_pr_record :: "(string \<Rightarrow> string) \<Rightarrow> contract \<Rightarrow> sched_meta \<Rightarrow> bool" where
  "sound_pr_record sha c m \<longleftrightarrow>
     wf_contract sha c \<and> sm_contract m = contract_as_dict c \<and> sm_status m = ''valid''
     \<and> lists_sound (required_reviewers c) m
     \<and> sm_previous_sha m \<noteq> Some [] \<and> sm_current_sha m \<noteq> None \<and> sm_current_sha m \<noteq> Some []
     \<and> hex16_str (sm_digest m) \<and> (sm_scope_digest m = None \<or> hex16_str (sm_scope_digest m))
     \<and> (sm_phase m = None \<or> (\<exists>ph \<in> set SCHEDULER_PHASES. sm_phase m = Some ph))
     \<and> (sm_primary m = None \<or> sm_primary m = primary_reviewer c)
     \<and> sm_previous_key m = PNone \<and> sm_issue_digest m = None \<and> \<not> sm_stall_reset m \<and> \<not> sm_step_back m
     \<and> sm_mode m = None"

definition SCHEDULER_KEYS :: "string list" where
  "SCHEDULER_KEYS = SCHEDULER_METADATA_KEYS @ SCHEDULER_AUXILIARY_KEYS @ PLAN_ONLY_SCHEDULER_KEYS"

lemmas key_defs = SCHEDULER_KEYS_def SCHEDULER_METADATA_KEYS_def SCHEDULER_AUXILIARY_KEYS_def
  PLAN_ONLY_SCHEDULER_KEYS_def PLAN_SCHEDULER_METADATA_KEYS_def PR_ONLY_SCHEDULER_KEYS_def

lemma map_of_filter_distinct:
  "distinct (map fst kvs) \<Longrightarrow>
     map_of (filter P kvs) k = (case map_of kvs k of None \<Rightarrow> None | Some v \<Rightarrow> if P (k, v) then Some v else None)"
proof (induction kvs)
  case (Cons x xs)
  show ?case
  proof (cases "fst x = k")
    case True
    then have "map_of xs k = None" using Cons.prems by (metis (no_types) distinct.simps(2) list.simps(9) map_of_eq_None_iff list.set_map)
    then show ?thesis using True Cons by (cases x) auto
  next
    case False
    then show ?thesis using Cons by (cases x) auto
  qed
qed simp

lemma has_key_map_of: "has_key_in k (PDict kvs) \<longleftrightarrow> map_of kvs k \<noteq> None"
  by (simp add: has_key_in_def map_of_eq_None_iff)

lemma scheduler_values_keys: "map fst (scheduler_values m) = SCHEDULER_METADATA_KEYS @ SCHEDULER_AUXILIARY_KEYS"
  by (simp add: scheduler_values_def SCHEDULER_METADATA_KEYS_def SCHEDULER_AUXILIARY_KEYS_def)

lemma keys_apart:
  "distinct SCHEDULER_KEYS"
  "\<forall>k \<in> set SCHEDULER_METADATA_KEYS. k \<notin> set SCHEDULER_AUXILIARY_KEYS \<and> k \<notin> set PLAN_ONLY_SCHEDULER_KEYS"
  "\<forall>k \<in> set SCHEDULER_AUXILIARY_KEYS. k \<notin> set PLAN_ONLY_SCHEDULER_KEYS"
  by code_simp+

lemma scheduler_values_distinct: "distinct (map fst (scheduler_values m))"
  using keys_apart(1) unfolding scheduler_values_keys SCHEDULER_KEYS_def by auto

lemma scheduler_values_None:
  "map_of (scheduler_values m) k = None \<longleftrightarrow> k \<notin> set SCHEDULER_METADATA_KEYS \<and> k \<notin> set SCHEDULER_AUXILIARY_KEYS"
proof -
  have "fst ` set (scheduler_values m) = set (SCHEDULER_METADATA_KEYS @ SCHEDULER_AUXILIARY_KEYS)"
    by (metis scheduler_values_keys set_map)
  then show ?thesis by (simp add: map_of_eq_None_iff)
qed

lemma plan_only_tail:
  "k \<notin> set PLAN_ONLY_SCHEDULER_KEYS \<Longrightarrow>
     map_of (plan_only_values m) k = None"
  by (auto simp: plan_only_values_def map_of_eq_None_iff PLAN_ONLY_SCHEDULER_KEYS_def split: option.splits if_splits)

lemma strs_simps [simp]:
  "str_list (strs xs) = Some xs" "strs xs \<noteq> PNone" "strs xs = PList [] \<longleftrightarrow> xs = []" "strs [] = PList []"
  by (auto simp: str_list_def strs_def comp_def)

lemma of_opt_strs [simp]:
  "of_opt_str x \<noteq> PList []" "of_opt_str x = PNone \<longleftrightarrow> x = None" "of_opt_str x \<noteq> PTuple []"
  "is_str (of_opt_str x) \<longleftrightarrow> x \<noteq> None" "of_opt_str x = PStr s \<longleftrightarrow> x = Some s" "hex16 (of_opt_str x) \<longleftrightarrow> hex16_str x"
  by (cases x; auto simp: hex16_def hex16_str_def)+

lemma pair_list_enc:
  assumes "\<forall>(n, w) \<in> set ps. n \<noteq> [] \<and> w \<noteq> []"
  shows "pair_list (PList (map (\<lambda>(n, w). PList [PStr n, PStr w]) ps)) = Some ps"
proof -
  have each: "pair_of (PList [PStr (fst x), PStr (snd x)]) = Some x" if "x \<in> set ps" for x
    using assms that by auto
  then have "map (the \<circ> pair_of) (map (\<lambda>(n, w). PList [PStr n, PStr w]) ps) = ps"
    by (induction ps) (auto simp: case_prod_beta)
  then show ?thesis using each by (auto simp: pair_list_def case_prod_beta)
qed

lemma encoded_lookup:
  assumes "sm_contract m \<noteq> PNone" "sm_contract m \<noteq> PTuple []" "sm_contract m \<noteq> PList []"
    and apart: "\<forall>k \<in> set SCHEDULER_KEYS. k \<notin> fst ` set other"
  shows "k \<in> set SCHEDULER_METADATA_KEYS \<Longrightarrow> map_of (other @ encode_sched m) k = map_of (scheduler_values m) k"
    and "k \<in> set SCHEDULER_AUXILIARY_KEYS \<Longrightarrow> map_of (other @ encode_sched m) k =
      (case map_of (scheduler_values m) k of None \<Rightarrow> None
       | Some v \<Rightarrow> if v \<in> {PNone, PList []} then None else Some v)"
    and "k \<in> set PLAN_ONLY_SCHEDULER_KEYS \<Longrightarrow> map_of (other @ encode_sched m) k =
      (if k = ''scheduler_issue_digest'' then map_option PStr (sm_issue_digest m)
       else if k = ''scheduler_stall_reset'' then (if sm_stall_reset m then Some (PBool True) else None)
       else if k = ''scheduler_step_back_deferral'' then (if sm_step_back m then Some (PBool True) else None)
       else map_option PStr (sm_mode m))"
proof -
  have rest: "map_of other k = None" if "k \<in> set SCHEDULER_KEYS" for k
    using apart that by (simp add: map_of_eq_None_iff)
  let ?f = "\<lambda>(k, v). k \<notin> set SCHEDULER_AUXILIARY_KEYS \<or> v \<notin> {PNone, PList []}"
  have present: "\<exists>(k, v) \<in> set (scheduler_values m). v \<notin> {PNone, PTuple [], PList []}"
    using assms(1-3) by (intro bexI [of _ "(''scheduler_contract'', sm_contract m)"]) (simp_all add: scheduler_values_def)
  have first: "map_of (filter ?f (scheduler_values m)) k =
      (case map_of (scheduler_values m) k of None \<Rightarrow> None | Some v \<Rightarrow> if ?f (k, v) then Some v else None)" for k
    by (rule map_of_filter_distinct [OF scheduler_values_distinct])
  have enc: "map_of (other @ encode_sched m) k =
      (case map_of (scheduler_values m) k of None \<Rightarrow> None | Some v \<Rightarrow> if ?f (k, v) then Some v else None)"
    if "k \<in> set SCHEDULER_KEYS" "k \<notin> set PLAN_ONLY_SCHEDULER_KEYS" for k
    unfolding encode_sched_def if_P [OF present] map_of_append [of other] map_of_append [of "filter ?f (scheduler_values m)"]
      map_add_def rest [OF that(1)] plan_only_tail [OF that(2)] first option.case
    by (simp split: option.split)
  show "map_of (other @ encode_sched m) k = map_of (scheduler_values m) k" if k: "k \<in> set SCHEDULER_METADATA_KEYS"
    using keys_apart(2) k by (subst enc) (auto simp: SCHEDULER_KEYS_def split: option.split)
  show "map_of (other @ encode_sched m) k =
      (case map_of (scheduler_values m) k of None \<Rightarrow> None
       | Some v \<Rightarrow> if v \<in> {PNone, PList []} then None else Some v)" if k: "k \<in> set SCHEDULER_AUXILIARY_KEYS"
    using keys_apart(3) k by (subst enc) (auto simp: SCHEDULER_KEYS_def split: option.split)
  show "map_of (other @ encode_sched m) k =
      (if k = ''scheduler_issue_digest'' then map_option PStr (sm_issue_digest m)
       else if k = ''scheduler_stall_reset'' then (if sm_stall_reset m then Some (PBool True) else None)
       else if k = ''scheduler_step_back_deferral'' then (if sm_step_back m then Some (PBool True) else None)
       else map_option PStr (sm_mode m))" if k: "k \<in> set PLAN_ONLY_SCHEDULER_KEYS"
  proof -
    have "k \<in> set SCHEDULER_KEYS" using k by (simp add: SCHEDULER_KEYS_def)
    moreover have "map_of (scheduler_values m) k = None"
      using keys_apart(2,3) k by (auto simp: scheduler_values_None)
    ultimately have o: "map_of other k = None" and f: "map_of (filter ?f (scheduler_values m)) k = None"
      using rest first by simp_all
    have "map_of (other @ encode_sched m) k = map_of (plan_only_values m) k"
      unfolding encode_sched_def if_P [OF present] map_of_append [of other] map_of_append [of "filter ?f (scheduler_values m)"]
        map_add_def o f by (simp split: option.split)
    then show ?thesis using k by (auto simp: plan_only_values_def PLAN_ONLY_SCHEDULER_KEYS_def split: option.splits)
  qed
qed


lemma opt_bool_simps [simp]: "of_opt_bool (Some b) = PBool b" "of_opt_bool None = PNone"
  by (simp_all add: of_opt_bool_def)

lemma source_ok_enc [simp]:
  "source_ok force (of_opt_str x) \<longleftrightarrow> x = None \<or> force \<and> (\<exists>s \<in> set FORCE_FULL_SOURCES. x = Some s)"
  by (cases x) (auto simp: source_ok_def)

lemma phase_ok_enc [simp]: "phase_ok phases (of_opt_str x) \<longleftrightarrow> x = None \<or> (\<exists>s \<in> set phases. x = Some s)"
  by (cases x) (auto simp: phase_ok_def)

lemma primary_ok_enc [simp]: "primary_ok p (of_opt_str x) \<longleftrightarrow> x = None \<or> x = p"
  by (cases x) (auto simp: primary_ok_def)

definition read_lists :: "sched_meta \<Rightarrow> sched_meta" where
  "read_lists m =
     no_sched\<lparr>sm_status := ''valid'', sm_selected := sm_selected m, sm_paused := sm_paused m,
       sm_reasons := sm_reasons m, sm_final_sweep := sm_final_sweep m, sm_force_full := sm_force_full m,
       sm_calls_avoided := sm_calls_avoided m, sm_approved := sm_approved m, sm_owners := sm_owners m,
       sm_source := sm_source m\<rparr>"

lemma lists_read_back:
  assumes "lists_sound required m"
    and "py_get p ''scheduler_selected_reviewers'' = strs (sm_selected m)"
    and "py_get p ''scheduler_paused_reviewers'' = PList (map (\<lambda>(n, w). PList [PStr n, PStr w]) (sm_paused m))"
    and "py_get p ''scheduler_reasons'' = strs (sm_reasons m)"
    and "py_get p ''scheduler_final_sweep'' = of_opt_bool (sm_final_sweep m)"
    and "py_get p ''scheduler_force_full'' = of_opt_bool (sm_force_full m)"
    and "py_get p ''scheduler_calls_avoided'' = of_opt_int (sm_calls_avoided m)"
    and "get_or p ''scheduler_approved_reviewers'' (PList []) = strs (sm_approved m)"
    and "get_or p ''scheduler_active_owners'' (PList []) = strs (sm_owners m)"
    and "py_get p ''scheduler_force_full_source'' = of_opt_str (sm_source m)"
  shows "decode_lists p required = Some (read_lists m)"
proof -
  obtain sweep force calls where some: "sm_final_sweep m = Some sweep" "sm_force_full m = Some force"
      "sm_calls_avoided m = Some calls" "0 \<le> calls"
    using assms(1) by (auto simp: lists_sound_def)
  have pairs: "pair_list (PList (map (\<lambda>(n, w). PList [PStr n, PStr w]) (sm_paused m))) = Some (sm_paused m)"
    using assms(1) by (intro pair_list_enc) (simp add: lists_sound_def)
  show ?thesis
    unfolding decode_lists_def assms(2-10) pairs some
    using assms(1) some by (simp add: lists_sound_def read_lists_def)
qed

lemma str_list_Some: "str_list v = Some xs \<Longrightarrow> v = strs xs"
proof -
  assume "str_list v = Some xs"
  then obtain vs where vs: "v = PList vs" "\<forall>x \<in> set vs. is_str x" "xs = map the_str vs"
    by (auto simp: str_list_def split: pyval.splits if_splits)
  then show ?thesis using strings_of [OF vs(2)] by (simp add: strs_def)
qed

lemma pair_of_Some: "pair_of v = Some (n, w) \<Longrightarrow> n \<noteq> [] \<and> w \<noteq> []"
  by (induction v rule: pair_of.induct) (auto split: if_splits)

lemma pair_list_Some:
  assumes "pair_list v = Some ps"
  shows "\<forall>(n, w) \<in> set ps. n \<noteq> [] \<and> w \<noteq> []"
proof -
  obtain vs where vs: "\<forall>x \<in> set vs. pair_of x \<noteq> None" "ps = map (the \<circ> pair_of) vs"
    using assms by (auto simp: pair_list_def split: pyval.splits if_splits)
  then show ?thesis using pair_of_Some by fastforce
qed

lemma source_okD: "source_ok force v \<Longrightarrow>
    opt_str v = None \<or> force \<and> (\<exists>src \<in> set FORCE_FULL_SOURCES. opt_str v = Some src)"
  by (auto simp: source_ok_def split: pyval.splits)

lemma decode_lists_sound:
  assumes "decode_lists p required = Some m"
  shows "lists_sound required m \<and> m = read_lists m"
proof -
  obtain selected paused reasons sweep force calls approved owners where
    r: "pair_list (py_get p ''scheduler_paused_reviewers'') = Some paused"
      "board_ok required selected paused" "[] \<notin> set reasons" "0 \<le> calls" "distinct approved"
      "set approved \<subseteq> set required" "[] \<notin> set owners" "distinct owners"
      "source_ok force (py_get p ''scheduler_force_full_source'')"
    and m: "m = no_sched\<lparr>sm_status := ''valid'', sm_selected := selected, sm_paused := paused,
          sm_reasons := reasons, sm_final_sweep := Some sweep, sm_force_full := Some force,
          sm_calls_avoided := Some calls, sm_approved := approved, sm_owners := owners,
          sm_source := opt_str (py_get p ''scheduler_force_full_source'')\<rparr>"
    using assms by (auto simp: decode_lists_def Let_def split: option.splits pyval.splits if_splits)
  show ?thesis
    using r pair_list_Some [OF r(1)] source_okD [OF r(9)] by (auto simp: m lists_sound_def read_lists_def)
qed

lemma sound_record_shape:
  assumes "sound_pr_record sha c m"
  shows "m = (read_lists m)\<lparr>sm_contract := contract_as_dict c, sm_previous_sha := sm_previous_sha m,
      sm_current_sha := sm_current_sha m, sm_digest := sm_digest m, sm_phase := sm_phase m,
      sm_primary := sm_primary m, sm_scope_digest := sm_scope_digest m\<rparr>"
  using assms by (cases m) (simp add: sound_pr_record_def read_lists_def no_sched_def)

lemma contract_dict_solid [simp]:
  "contract_as_dict c \<noteq> PNone" "contract_as_dict c \<noteq> PTuple []" "contract_as_dict c \<noteq> PList []"
  "plan_contract_as_dict d \<noteq> PNone" "plan_contract_as_dict d \<noteq> PTuple []" "plan_contract_as_dict d \<noteq> PList []"
  by (simp_all add: contract_as_dict_def plan_contract_as_dict_def)

lemma encoded_gets:
  fixes other :: "(string \<times> pyval) list"
  assumes "sm_contract m \<noteq> PNone" "sm_contract m \<noteq> PTuple []" "sm_contract m \<noteq> PList []"
    and "\<forall>k \<in> set SCHEDULER_KEYS. k \<notin> fst ` set other"
  defines "p \<equiv> PDict (other @ encode_sched m)"
  shows "py_get p ''scheduler_contract'' = sm_contract m"
    "py_get p ''scheduler_previous_sha'' = of_opt_str (sm_previous_sha m)"
    "py_get p ''scheduler_current_sha'' = of_opt_str (sm_current_sha m)"
    "py_get p ''scheduler_obligation_digest'' = of_opt_str (sm_digest m)"
    "py_get p ''scheduler_selected_reviewers'' = strs (sm_selected m)"
    "py_get p ''scheduler_paused_reviewers'' = PList (map (\<lambda>(n, w). PList [PStr n, PStr w]) (sm_paused m))"
    "py_get p ''scheduler_reasons'' = strs (sm_reasons m)"
    "py_get p ''scheduler_final_sweep'' = of_opt_bool (sm_final_sweep m)"
    "py_get p ''scheduler_force_full'' = of_opt_bool (sm_force_full m)"
    "py_get p ''scheduler_calls_avoided'' = of_opt_int (sm_calls_avoided m)"
    "py_get p ''scheduler_phase'' = of_opt_str (sm_phase m)"
    "py_get p ''scheduler_primary_reviewer'' = of_opt_str (sm_primary m)"
    "get_or p ''scheduler_approved_reviewers'' (PList []) = strs (sm_approved m)"
    "get_or p ''scheduler_active_owners'' (PList []) = strs (sm_owners m)"
    "py_get p ''scheduler_scope_digest'' = of_opt_str (sm_scope_digest m)"
    "py_get p ''scheduler_force_full_source'' = of_opt_str (sm_source m)"
    "py_get p ''scheduler_plan_previous_key'' = (if sm_previous_key m = PList [] then PNone else sm_previous_key m)"
    "py_get p ''scheduler_issue_digest'' = of_opt_str (sm_issue_digest m)"
    "has_key_in ''scheduler_issue_digest'' p \<longleftrightarrow> sm_issue_digest m \<noteq> None"
    "py_get p ''scheduler_stall_reset'' = (if sm_stall_reset m then PBool True else PNone)"
    "has_key_in ''scheduler_stall_reset'' p \<longleftrightarrow> sm_stall_reset m"
    "py_get p ''scheduler_step_back_deferral'' = (if sm_step_back m then PBool True else PNone)"
    "has_key_in ''scheduler_step_back_deferral'' p \<longleftrightarrow> sm_step_back m"
    "py_get p ''scheduler_execution_mode'' = of_opt_str (sm_mode m)"
    "has_key_in ''scheduler_execution_mode'' p \<longleftrightarrow> sm_mode m \<noteq> None"
    "\<forall>k \<in> set SCHEDULER_METADATA_KEYS. has_key_in k p"
proof -
  note look = encoded_lookup [OF assms(1-4)]
  have mand: "py_get p k = (case map_of (scheduler_values m) k of None \<Rightarrow> PNone | Some v \<Rightarrow> v)"
    if "k \<in> set SCHEDULER_METADATA_KEYS" for k
    using look(1) [OF that] by (simp add: p_def)
  have aux: "map_of (other @ encode_sched m) k =
      (case map_of (scheduler_values m) k of None \<Rightarrow> None | Some v \<Rightarrow> if v \<in> {PNone, PList []} then None else Some v)"
    if "k \<in> set SCHEDULER_AUXILIARY_KEYS" for k
    by (rule look(2) [OF that])
  have ms: "k \<in> set SCHEDULER_METADATA_KEYS" if "k \<in> set [''scheduler_contract'', ''scheduler_previous_sha'',
      ''scheduler_current_sha'', ''scheduler_obligation_digest'', ''scheduler_selected_reviewers'',
      ''scheduler_paused_reviewers'', ''scheduler_reasons'', ''scheduler_final_sweep'',
      ''scheduler_force_full'', ''scheduler_calls_avoided'']" for k
    using that by (simp only: SCHEDULER_METADATA_KEYS_def)
  show "py_get p ''scheduler_contract'' = sm_contract m"
    "py_get p ''scheduler_previous_sha'' = of_opt_str (sm_previous_sha m)"
    "py_get p ''scheduler_current_sha'' = of_opt_str (sm_current_sha m)"
    "py_get p ''scheduler_obligation_digest'' = of_opt_str (sm_digest m)"
    "py_get p ''scheduler_selected_reviewers'' = strs (sm_selected m)"
    "py_get p ''scheduler_paused_reviewers'' = PList (map (\<lambda>(n, w). PList [PStr n, PStr w]) (sm_paused m))"
    "py_get p ''scheduler_reasons'' = strs (sm_reasons m)"
    "py_get p ''scheduler_final_sweep'' = of_opt_bool (sm_final_sweep m)"
    "py_get p ''scheduler_force_full'' = of_opt_bool (sm_force_full m)"
    "py_get p ''scheduler_calls_avoided'' = of_opt_int (sm_calls_avoided m)"
    by (subst mand, simp add: SCHEDULER_METADATA_KEYS_def, simp add: scheduler_values_def)+
  show "py_get p ''scheduler_phase'' = of_opt_str (sm_phase m)"
    "py_get p ''scheduler_primary_reviewer'' = of_opt_str (sm_primary m)"
    "py_get p ''scheduler_scope_digest'' = of_opt_str (sm_scope_digest m)"
    "py_get p ''scheduler_force_full_source'' = of_opt_str (sm_source m)"
    "py_get p ''scheduler_plan_previous_key'' = (if sm_previous_key m = PList [] then PNone else sm_previous_key m)"
    unfolding p_def py_get.simps
    by (subst aux, simp add: SCHEDULER_AUXILIARY_KEYS_def, simp add: scheduler_values_def)+
  show "get_or p ''scheduler_approved_reviewers'' (PList []) = strs (sm_approved m)"
    "get_or p ''scheduler_active_owners'' (PList []) = strs (sm_owners m)"
    unfolding p_def py_get.simps get_or_def has_key_map_of
    by (subst aux, simp add: SCHEDULER_AUXILIARY_KEYS_def, subst aux, simp add: SCHEDULER_AUXILIARY_KEYS_def,
        simp add: scheduler_values_def)+
  show "py_get p ''scheduler_issue_digest'' = of_opt_str (sm_issue_digest m)"
    "has_key_in ''scheduler_issue_digest'' p \<longleftrightarrow> sm_issue_digest m \<noteq> None"
    "py_get p ''scheduler_stall_reset'' = (if sm_stall_reset m then PBool True else PNone)"
    "has_key_in ''scheduler_stall_reset'' p \<longleftrightarrow> sm_stall_reset m"
    "py_get p ''scheduler_step_back_deferral'' = (if sm_step_back m then PBool True else PNone)"
    "has_key_in ''scheduler_step_back_deferral'' p \<longleftrightarrow> sm_step_back m"
    "py_get p ''scheduler_execution_mode'' = of_opt_str (sm_mode m)"
    "has_key_in ''scheduler_execution_mode'' p \<longleftrightarrow> sm_mode m \<noteq> None"
    unfolding p_def py_get.simps has_key_map_of
    by (subst look(3), simp add: PLAN_ONLY_SCHEDULER_KEYS_def, simp split: option.split)+
  show "\<forall>k \<in> set SCHEDULER_METADATA_KEYS. has_key_in k p"
    unfolding p_def has_key_map_of using look(1) scheduler_values_None by metis
qed

lemma flow_get:
  assumes "\<forall>k \<in> set SCHEDULER_KEYS. k \<notin> fst ` set other"
  shows "k \<notin> set SCHEDULER_KEYS \<Longrightarrow> py_get (PDict (other @ encode_sched m)) k = py_get (PDict other) k"
proof -
  assume k: "k \<notin> set SCHEDULER_KEYS"
  have "map_of (encode_sched m) k = None"
  proof -
    have "k \<notin> set PLAN_ONLY_SCHEDULER_KEYS" "map_of (scheduler_values m) k = None"
      using k by (simp_all add: SCHEDULER_KEYS_def scheduler_values_None)
    then show ?thesis
      using plan_only_tail [of k m] map_of_filter_distinct [OF scheduler_values_distinct, of _ m k]
      by (simp add: encode_sched_def map_add_def)
  qed
  then show ?thesis by (simp add: map_add_def split: option.split)
qed


section \<open>Both flows read back what they may write\<close>

lemma pr_reads_back:
  assumes sound: "sound_pr_record sha c m" and apart: "\<forall>k \<in> set SCHEDULER_KEYS. k \<notin> fst ` set other"
    and flow: "py_get (PDict other) ''flow'' \<noteq> PStr ''plan''"
  shows "decode_scheduler_fields sha (PDict (other @ encode_sched m)) = m"
proof -
  let ?p = "PDict (other @ encode_sched m)"
  have c: "wf_contract sha c" "sm_contract m = contract_as_dict c" and lists: "lists_sound (required_reviewers c) m"
    using sound by (simp_all add: sound_pr_record_def)
  note gets = encoded_gets [of m other, unfolded c(2), OF contract_dict_solid(1-3) apart]
  have "''flow'' \<notin> set SCHEDULER_KEYS" by (simp add: key_defs)
  then have "py_get ?p ''flow'' \<noteq> PStr ''plan''" using flow_get [OF apart, of "''flow''" m] flow by metis
  moreover have "\<not> (\<exists>k \<in> set PLAN_ONLY_SCHEDULER_KEYS. has_key_in k ?p)"
    using gets(19,21,23,25) sound by (simp add: PLAN_ONLY_SCHEDULER_KEYS_def sound_pr_record_def)
  moreover have "\<not> (\<exists>k \<in> set SCHEDULER_METADATA_KEYS. \<not> has_key_in k ?p)"
    "\<not> (\<forall>k \<in> set (SCHEDULER_METADATA_KEYS @ SCHEDULER_AUXILIARY_KEYS @ PLAN_ONLY_SCHEDULER_KEYS). \<not> has_key_in k ?p)"
    using gets(26) by (auto simp: SCHEDULER_METADATA_KEYS_def)
  ultimately have "decode_scheduler_fields sha ?p = or_invalid (decode_pr_fields sha ?p)"
    by (simp only: decode_scheduler_fields_def if_False)
  moreover have "decode_lists ?p (required_reviewers c) = Some (read_lists m)"
    by (rule lists_read_back [OF lists gets(5-10,13,14,16)])
  then have "decode_pr_fields sha ?p = Some m"
    unfolding decode_pr_fields_def gets(1-4,11,12,15) contract_from_mapping_as_dict [OF c(1)]
    using sound sound_record_shape [OF sound, symmetric]
    by (cases "sm_previous_sha m") (simp_all add: Let_def sound_pr_record_def)
  ultimately show ?thesis by (simp add: or_invalid_def)
qed

lemma hex16_opt_str: "hex16 v \<Longrightarrow> hex16_str (opt_str v)"
  by (cases v) (simp_all add: hex16_def hex16_str_def)

lemma phase_okD: "phase_ok phases v \<Longrightarrow> opt_str v = None \<or> (\<exists>ph \<in> set phases. opt_str v = Some ph)"
  by (cases v) (simp_all add: phase_ok_def)

lemma primary_okD: "primary_ok primary v \<Longrightarrow> opt_str v = None \<or> opt_str v = primary"
  by (cases v) (simp_all add: primary_ok_def)

lemma pr_read_sound:
  assumes "decode_pr_fields sha p = Some m"
  shows "\<exists>c. sound_pr_record sha c m"
proof -
  obtain c m0 where c: "contract_from_mapping sha (py_get p ''scheduler_contract'') = Inr c"
    and prev: "py_get p ''scheduler_previous_sha'' = PNone
        \<or> is_str (py_get p ''scheduler_previous_sha'') \<and> py_get p ''scheduler_previous_sha'' \<noteq> PStr []"
    and cur: "is_str (py_get p ''scheduler_current_sha'')" "py_get p ''scheduler_current_sha'' \<noteq> PStr []"
    and rest: "hex16 (py_get p ''scheduler_obligation_digest'')" "phase_ok SCHEDULER_PHASES (py_get p ''scheduler_phase'')"
      "primary_ok (primary_reviewer c) (py_get p ''scheduler_primary_reviewer'')"
      "py_get p ''scheduler_scope_digest'' = PNone \<or> hex16 (py_get p ''scheduler_scope_digest'')"
    and lists: "decode_lists p (required_reviewers c) = Some m0"
    and m: "m = m0\<lparr>sm_contract := contract_as_dict c, sm_previous_sha := opt_str (py_get p ''scheduler_previous_sha''),
        sm_current_sha := opt_str (py_get p ''scheduler_current_sha''),
        sm_digest := opt_str (py_get p ''scheduler_obligation_digest''),
        sm_phase := opt_str (py_get p ''scheduler_phase''),
        sm_primary := opt_str (py_get p ''scheduler_primary_reviewer''),
        sm_scope_digest := opt_str (py_get p ''scheduler_scope_digest'')\<rparr>"
    using assms by (auto simp: decode_pr_fields_def Let_def split: sum.splits if_splits)
  have ls: "lists_sound (required_reviewers c) m0" and shape: "m0 = read_lists m0"
    using decode_lists_sound [OF lists] by blast+
  have "lists_sound (required_reviewers c) m" using ls by (simp add: m lists_sound_def)
  moreover have "sm_status m0 = ''valid''" "sm_previous_key m0 = PNone" "sm_issue_digest m0 = None"
    "\<not> sm_stall_reset m0" "\<not> sm_step_back m0" "sm_mode m0 = None"
    by (subst shape, simp add: read_lists_def no_sched_def)+
  moreover have "opt_str (py_get p ''scheduler_previous_sha'') \<noteq> Some []"
    "opt_str (py_get p ''scheduler_current_sha'') \<noteq> None" "opt_str (py_get p ''scheduler_current_sha'') \<noteq> Some []"
    using prev cur by (cases "py_get p ''scheduler_previous_sha''"; cases "py_get p ''scheduler_current_sha''"; simp)+
  moreover have "wf_contract sha c" by (rule contract_codec.dec_wf [OF c])
  ultimately show ?thesis
    using hex16_opt_str rest phase_okD [OF rest(2)] primary_okD [OF rest(3)]
    by (intro exI [of _ c]) (auto simp: sound_pr_record_def m)
qed


definition sound_plan_record :: "plan_contract \<Rightarrow> sched_meta \<Rightarrow> bool" where
  "sound_plan_record c m \<longleftrightarrow>
     wf_plan_contract c \<and> sm_contract m = plan_contract_as_dict c \<and> sm_status m = ''valid''
     \<and> lists_sound (plan_reviewers c) m \<and> hex16_str (sm_digest m)
     \<and> (sm_previous_key m = PNone \<or> complete_key (sm_previous_key m))
     \<and> (sm_phase m = None \<or> (\<exists>ph \<in> set PLAN_SCHEDULER_PHASES. sm_phase m = Some ph))
     \<and> (sm_primary m = None \<or> sm_primary m = plan_primary c)
     \<and> (sm_issue_digest m = None \<or> hex16_str (sm_issue_digest m))
     \<and> (sm_stall_reset m \<or> sm_step_back m \<longrightarrow> sm_phase m = Some ''primary'')
     \<and> (sm_mode m = None \<or> (\<exists>x \<in> set PLAN_EXECUTION_MODES. sm_mode m = Some x))
     \<and> sm_previous_sha m = None \<and> sm_current_sha m = None \<and> sm_scope_digest m = None"

lemma complete_key_solid: "complete_key v \<Longrightarrow> v \<noteq> PList [] \<and> v \<noteq> PNone"
  by (auto simp: complete_key_def)

lemma mode_enc: "m = None \<or> (\<exists>x \<in> set PLAN_EXECUTION_MODES. m = Some x) \<Longrightarrow> decode_execution_mode (of_opt_str m) = m"
  by (auto simp: decode_execution_mode_def)

lemma sound_plan_shape:
  assumes "sound_plan_record c m"
  shows "m = (read_lists m)\<lparr>sm_contract := plan_contract_as_dict c, sm_digest := sm_digest m,
      sm_phase := sm_phase m, sm_primary := sm_primary m, sm_previous_key := sm_previous_key m,
      sm_issue_digest := sm_issue_digest m, sm_stall_reset := sm_stall_reset m,
      sm_step_back := sm_step_back m, sm_mode := sm_mode m\<rparr>"
  using assms by (cases m) (simp add: sound_plan_record_def read_lists_def no_sched_def)

lemma plan_reads_back:
  assumes sound: "sound_plan_record c m" and apart: "\<forall>k \<in> set SCHEDULER_KEYS. k \<notin> fst ` set other"
    and flow: "py_get (PDict other) ''flow'' = PStr ''plan''"
    and key: "complete_key (py_get (PDict other) ''plan_candidate_key'')"
  shows "decode_scheduler_fields sha (PDict (other @ encode_sched m)) = m"
proof -
  let ?p = "PDict (other @ encode_sched m)"
  have c: "wf_plan_contract c" "sm_contract m = plan_contract_as_dict c" and lists: "lists_sound (plan_reviewers c) m"
    using sound by (simp_all add: sound_plan_record_def)
  note gets = encoded_gets [of m other, unfolded c(2), OF contract_dict_solid(4-6) apart]
  have "''flow'' \<notin> set SCHEDULER_KEYS" "''plan_candidate_key'' \<notin> set SCHEDULER_KEYS" by (simp_all add: key_defs)
  then have fl: "py_get ?p ''flow'' = PStr ''plan''" and k: "complete_key (py_get ?p ''plan_candidate_key'')"
    using flow_get [OF apart, of _ m] flow key by metis+
  have "sm_final_sweep m \<noteq> None" using lists by (simp add: lists_sound_def)
  then have "py_get ?p ''scheduler_final_sweep'' \<noteq> PNone" using gets(8) by auto
  then have neutral: "neutral_board ?p = None"
    by (auto simp: neutral_board_def NEUTRAL_def split: pyval.splits sum.splits)
  have "\<forall>k \<in> set SCHEDULER_METADATA_KEYS. has_key_in k ?p" by (rule gets(26))
  then have present: "\<not> (\<exists>k \<in> set PLAN_SCHEDULER_METADATA_KEYS. \<not> has_key_in k ?p)"
    "\<not> (\<forall>k \<in> set (SCHEDULER_METADATA_KEYS @ SCHEDULER_AUXILIARY_KEYS @ PLAN_ONLY_SCHEDULER_KEYS). \<not> has_key_in k ?p)"
    by (auto simp: SCHEDULER_METADATA_KEYS_def PLAN_SCHEDULER_METADATA_KEYS_def)
  have "\<not> (\<exists>k \<in> set PR_ONLY_SCHEDULER_KEYS. py_get ?p k \<noteq> PNone)"
    using gets(2,3,15) sound by (simp add: PR_ONLY_SCHEDULER_KEYS_def sound_plan_record_def)
  then have "decode_scheduler_fields sha ?p = or_invalid (decode_plan_fields ?p)"
    by (simp only: decode_scheduler_fields_def decode_plan_scheduler_fields_def neutral present fl if_False if_True option.case simp_thms)
  moreover have dl: "decode_lists ?p (plan_reviewers c) = Some (read_lists m)"
    by (rule lists_read_back [OF lists gets(5-10,13,14,16)])
  have prev: "(if sm_previous_key m = PList [] then PNone else sm_previous_key m) = sm_previous_key m"
    using sound complete_key_solid by (auto simp: sound_plan_record_def)
  have mode: "decode_execution_mode (of_opt_str (sm_mode m)) = sm_mode m"
    using sound mode_enc by (simp add: sound_plan_record_def)
  have "decode_plan_fields ?p = Some m"
    unfolding decode_plan_fields_def gets(1,4,11,12,17-25) plan_contract_from_mapping_as_dict [OF c(1)] prev mode marker_ok_def
    using sound sound_plan_shape [OF sound, symmetric] k dl
    by (simp add: Let_def sound_plan_record_def)
  ultimately show ?thesis by (simp add: or_invalid_def)
qed

lemma plan_read_sound:
  assumes "decode_plan_fields p = Some m" and pr_only: "\<not> (\<exists>k \<in> set PR_ONLY_SCHEDULER_KEYS. py_get p k \<noteq> PNone)"
  shows "\<exists>c. sound_plan_record c m"
proof -
  obtain c m0 where c: "plan_contract_from_mapping (py_get p ''scheduler_contract'') = Inr c"
    and rest: "hex16 (py_get p ''scheduler_obligation_digest'')" "phase_ok PLAN_SCHEDULER_PHASES (py_get p ''scheduler_phase'')"
      "primary_ok (plan_primary c) (py_get p ''scheduler_primary_reviewer'')"
      "py_get p ''scheduler_plan_previous_key'' = PNone \<or> complete_key (py_get p ''scheduler_plan_previous_key'')"
      "has_key_in ''scheduler_issue_digest'' p \<longrightarrow> hex16 (py_get p ''scheduler_issue_digest'')"
      "marker_ok p ''scheduler_stall_reset''" "marker_ok p ''scheduler_step_back_deferral''"
    and lists: "decode_lists p (plan_reviewers c) = Some m0"
    and m: "m = m0\<lparr>sm_contract := plan_contract_as_dict c, sm_digest := opt_str (py_get p ''scheduler_obligation_digest''),
        sm_phase := opt_str (py_get p ''scheduler_phase''),
        sm_primary := opt_str (py_get p ''scheduler_primary_reviewer''),
        sm_previous_key := py_get p ''scheduler_plan_previous_key'',
        sm_issue_digest := opt_str (py_get p ''scheduler_issue_digest''),
        sm_stall_reset := has_key_in ''scheduler_stall_reset'' p,
        sm_step_back := has_key_in ''scheduler_step_back_deferral'' p,
        sm_mode := decode_execution_mode (py_get p ''scheduler_execution_mode'')\<rparr>"
    using assms(1) by (auto simp: decode_plan_fields_def Let_def split: sum.splits if_splits)
  have ls: "lists_sound (plan_reviewers c) m0" and shape: "m0 = read_lists m0"
    using decode_lists_sound [OF lists] by blast+
  have "lists_sound (plan_reviewers c) m" using ls by (simp add: m lists_sound_def)
  moreover have "sm_status m0 = ''valid''" "sm_previous_sha m0 = None" "sm_current_sha m0 = None" "sm_scope_digest m0 = None"
    by (subst shape, simp add: read_lists_def no_sched_def)+
  moreover have issue: "opt_str (py_get p ''scheduler_issue_digest'') = None \<or> hex16_str (opt_str (py_get p ''scheduler_issue_digest''))"
  proof (cases "has_key_in ''scheduler_issue_digest'' p")
    case True
    then show ?thesis using rest(5) hex16_opt_str by blast
  next
    case False
    then show ?thesis by (cases p) (auto simp: has_key_map_of)
  qed
  moreover have "decode_execution_mode v = None \<or> (\<exists>x \<in> set PLAN_EXECUTION_MODES. decode_execution_mode v = Some x)" for v
    by (cases v) (auto simp: decode_execution_mode_def)
  moreover have "wf_plan_contract c" by (rule plan_contract_codec.dec_wf [OF c])
  moreover have "has_key_in ''scheduler_stall_reset'' p \<or> has_key_in ''scheduler_step_back_deferral'' p
      \<longrightarrow> opt_str (py_get p ''scheduler_phase'') = Some ''primary''"
    using rest(6,7) by (auto simp: marker_ok_def)
  ultimately show ?thesis
    using hex16_opt_str rest phase_okD [OF rest(2)] primary_okD [OF rest(3)]
    by (intro exI [of _ c]) (simp add: sound_plan_record_def m)
qed

section \<open>The checkpoints of the loops may be written\<close>

lemma choice_facts:
  assumes "board_choice s cls approvals unav fin ph caps = Inr (sel, ph', why)"
    and "policy_capabilities (policy (snap_contract s)) = Inr caps"
  shows "ph' \<in> set SCHEDULER_PHASES \<and> why \<noteq> []"
proof -
  have prefix: "POST_PANEL_PREFIX \<noteq> []" "STRICT_PRE_PANEL_PREFIX \<noteq> []" "primary_rechecks_text \<noteq> []" "primary_required_text \<noteq> []"
    "secondary_audit_text \<noteq> []" "full_board_after_panel \<noteq> []" "full_board_required \<noteq> []" "narrow_remediation_text \<noteq> []"
    "primary_outstanding_text \<noteq> []" "final_secondary_text \<noteq> []" "OPERATOR_FORCE_FULL_REASON \<noteq> []"
    by (simp_all add: POST_PANEL_PREFIX_def STRICT_PRE_PANEL_PREFIX_def primary_rechecks_text_def primary_required_text_def
        secondary_audit_text_def full_board_after_panel_def full_board_required_def narrow_remediation_text_def
        primary_outstanding_text_def final_secondary_text_def OPERATOR_FORCE_FULL_REASON_def)
  have phases: "''full-board'' \<in> set SCHEDULER_PHASES" "''primary'' \<in> set SCHEDULER_PHASES" "''secondary-audit'' \<in> set SCHEDULER_PHASES"
    "''remediation'' \<in> set SCHEDULER_PHASES" "''final-secondary-sweep'' \<in> set SCHEDULER_PHASES"
    by (simp_all add: SCHEDULER_PHASES_def)
  have why: "primary_phase_reason s cls \<noteq> []" using prefix by (simp add: primary_phase_reason_def Let_def)
  show ?thesis
    using assms(1)
    unfolding board_choice_def Let_def pre_panel_choice_def post_panel_choice_def selective_choice_def
    by (auto simp: prefix phases why split: if_splits option.splits)
qed

lemma digest_hex16:
  assumes "\<forall>x. hex_of_length 64 (sha x)"
  shows "hex16_str (Some (qualification_digest sha v))"
proof -
  have "hex_of_length 64 (sha (py_repr_val v))" using assms by blast
  then show ?thesis
    by (auto simp: hex16_str_def qualification_digest_def hex_of_length_def dest: in_set_takeD)
qed

lemma latch_sound: "scheduler_recorded_force_full op au = (force, src) \<Longrightarrow>
    src = None \<or> force \<and> (\<exists>x \<in> set FORCE_FULL_SOURCES. src = Some x)"
  by (auto simp: scheduler_recorded_force_full_def FORCE_FULL_SOURCES_def split: if_splits)

lemma pause_reason_ne: "pause_reason s cls caps approvals unav fin ph n \<noteq> []"
  by (simp add: pause_reason_def)

lemma pr_prelaunch_sound:
  assumes sel: "select_reviewers s cls approvals unav fin ph = Inr d" and wf: "wf_contract sha (snap_contract s)"
    and hex: "\<forall>x. hex_of_length 64 (sha x)"
    and heads: "previous_sha s \<noteq> Some []" "current_sha s \<noteq> None" "current_sha s \<noteq> Some []"
    and cls: "reason cls \<noteq> []" and owners: "[] \<notin> set (pending_of (active_obligations (obligations s)))"
    and counts: "0 \<le> total_avoided l" and app: "set names \<subseteq> set (required_reviewers (snap_contract s))"
  shows "sound_pr_record sha (snap_contract s) (pr_prelaunch sha s items d l names)"
proof -
  let ?req = "required_reviewers (snap_contract s)"
  have req: "distinct ?req" "[] \<notin> set ?req" using wf by (simp_all add: wf_contract_def)
  obtain caps where caps: "policy_capabilities (policy (snap_contract s)) = Inr caps"
    and choice: "board_choice s cls approvals unav fin ph caps = Inr (selected_reviewers d, decision_phase d, decision_reason d)"
    and paused: "map fst (paused_reviewers d) = filter (\<lambda>n. n \<notin> set (selected_reviewers d)) ?req"
    by (rule select_reviewers_Inr [OF sel])
  have d: "active_owners d = sorted_set (pending_of (active_obligations (obligations s)))"
    "decision_classification d = cls" "final_sweep_of d = fin"
    and whys: "\<forall>x \<in> set (paused_reviewers d). snd x \<noteq> []"
    using sel by (auto simp: select_reviewers_def bindE_Inr_iff Let_def pause_reason_ne pause_reason_ne [symmetric])
  have i: "input_wf (s, cls, approvals, unav, fin, ph)" "select_input (s, cls, approvals, unav, fin, ph) = Inr d"
    using sel req by simp_all
  have "distinct (selected_reviewers d)" using pr_board.chosen_in_order [OF i] req by (metis distinct_filter input_board.simps)
  moreover have "set (selected_reviewers d) \<union> fst ` set (paused_reviewers d) = set ?req"
    "set (selected_reviewers d) \<inter> fst ` set (paused_reviewers d) = {}"
    using pr_board.board_split [OF i] by auto
  moreover have "distinct (map fst (paused_reviewers d))" using paused req by simp
  ultimately have board: "board_ok ?req (selected_reviewers d) (paused_reviewers d)"
    by (auto simp: board_ok_def)
  have "\<forall>x \<in> set (paused_reviewers d). fst x \<noteq> []"
    using paused req by (metis (no_types, lifting) filter_is_subset image_eqI list.set_map subsetD)
  then have entries: "\<forall>(n, w) \<in> set (paused_reviewers d). n \<noteq> [] \<and> w \<noteq> []" using whys by auto
  obtain force src where latch: "scheduler_recorded_force_full (operator_latch l) (automatic_latch l) = (force, src)" by force
  show ?thesis
    using board entries choice_facts [OF choice caps] latch latch_sound [OF latch] digest_hex16 [OF hex] wf heads cls owners counts app
    by (auto simp: sound_pr_record_def pr_prelaunch_def lists_sound_def d no_sched_def)
qed


lemma plan_choice_facts:
  assumes "plan_board_choice s cls approvals dropped av = Inr (sel, ph, why, latch, opening)"
  shows "ph \<in> set PLAN_SCHEDULER_PHASES \<and> why \<noteq> []"
proof -
  have prefix: "POST_PANEL_PREFIX \<noteq> []" "STRICT_PRE_PANEL_PREFIX \<noteq> []" "plan_primary_rechecks_text \<noteq> []"
    "plan_primary_required_text \<noteq> []" "plan_audit_text \<noteq> []" "plan_full_board_text \<noteq> []" "plan_remediation_text \<noteq> []"
    "plan_outstanding_text \<noteq> []" "plan_sweep_text \<noteq> []" "OPERATOR_PLAN_FORCE_FULL_REASON \<noteq> []"
    by (simp_all add: POST_PANEL_PREFIX_def STRICT_PRE_PANEL_PREFIX_def plan_primary_rechecks_text_def
        plan_primary_required_text_def plan_audit_text_def plan_full_board_text_def plan_remediation_text_def
        plan_outstanding_text_def plan_sweep_text_def OPERATOR_PLAN_FORCE_FULL_REASON_def)
  have phases: "''full-board'' \<in> set PLAN_SCHEDULER_PHASES" "''primary'' \<in> set PLAN_SCHEDULER_PHASES"
    "''secondary-audit'' \<in> set PLAN_SCHEDULER_PHASES" "''remediation'' \<in> set PLAN_SCHEDULER_PHASES"
    "''final-secondary-sweep'' \<in> set PLAN_SCHEDULER_PHASES"
    by (simp_all add: PLAN_SCHEDULER_PHASES_def)
  have why: "plan_primary_phase_reason s cls \<noteq> []" using prefix by (simp add: plan_primary_phase_reason_def Let_def)
  show ?thesis
    using assms
    unfolding plan_board_choice_def Let_def plan_pre_panel_choice_def plan_post_panel_choice_def
    by (auto simp: prefix phases why split: if_splits option.splits)
qed

lemma plan_pause_reason_ne: "plan_pause_reason s approvals unav ph n \<noteq> []"
  by (simp add: plan_pause_reason_def)

lemma complete_key_dict: "wf_key k \<Longrightarrow> key_complete k \<Longrightarrow> complete_key (key_as_dict k)"
  using key_codec.dec_enc [of k] by (simp add: complete_key_def key_as_dict_def)

lemma plan_prelaunch_sound:
  assumes sel: "select_plan_reviewers s cls approvals unav ph = Inr d" and wf: "wf_plan_contract (pcontract s)"
    and hex: "\<forall>x. hex_of_length 64 (sha x)"
    and prev: "\<forall>k. previous_key s = Some k \<longrightarrow> wf_key k \<and> key_complete k"
    and cls: "preason cls \<noteq> []" and owners: "[] \<notin> set (pending_of (active_obligations (plan_obligations s)))"
    and counts: "0 \<le> total_avoided l" and app: "distinct names" "set names \<subseteq> set (plan_reviewers (pcontract s))"
    and issue: "hex_of_length 16 issue_digest" and mode: "mode \<in> set PLAN_EXECUTION_MODES"
  shows "sound_plan_record (pcontract s) (plan_prelaunch sha s items d l names issue_digest reset step_back mode)"
proof -
  let ?req = "plan_reviewers (pcontract s)"
  have req: "distinct ?req" "[] \<notin> set ?req" using wf by (simp_all add: wf_plan_contract_def)
  obtain caps where
    choice: "plan_board_choice s cls (counted_approvals s caps approvals) (premature_approvals s caps approvals)
           (available_required ?req unav)
         = Inr (plan_selected d, plan_decision_phase d, plan_reason d, latches_force_full d, records_panel_opening d)"
    and paused: "map fst (plan_paused d) = filter (\<lambda>n. n \<notin> set (plan_selected d)) ?req"
    by (rule select_plan_reviewers_Inr [OF sel])
  have d: "plan_active_owners d = sorted_set (pending_of (active_obligations (plan_obligations s)))"
    "plan_decision_classification d = cls"
    and whys: "\<forall>x \<in> set (plan_paused d). snd x \<noteq> []"
    using sel by (auto simp: select_plan_reviewers_def bindE_Inr_iff Let_def plan_pause_reason_ne
        plan_pause_reason_ne [symmetric] split: option.splits)
  have i: "plan_input_wf (s, cls, approvals, unav, ph)" "plan_select_input (s, cls, approvals, unav, ph) = Inr d"
    using sel req by simp_all
  have "distinct (plan_selected d)" using plan_board.chosen_in_order [OF i] req by (metis distinct_filter plan_input_board.simps)
  moreover have "set (plan_selected d) \<union> fst ` set (plan_paused d) = set ?req"
    "set (plan_selected d) \<inter> fst ` set (plan_paused d) = {}"
    using plan_board.board_split [OF i] by auto
  moreover have "distinct (map fst (plan_paused d))" using paused req by simp
  ultimately have board: "board_ok ?req (plan_selected d) (plan_paused d)"
    by (auto simp: board_ok_def)
  have "\<forall>x \<in> set (plan_paused d). fst x \<noteq> []"
    using paused req by (metis (no_types, lifting) filter_is_subset image_eqI list.set_map subsetD)
  then have entries: "\<forall>(n, w) \<in> set (plan_paused d). n \<noteq> [] \<and> w \<noteq> []" using whys by auto
  obtain force src where latch: "scheduler_recorded_force_full (operator_latch l) (automatic_latch l) = (force, src)" by force
  have key: "(case previous_key s of None \<Rightarrow> PNone | Some k \<Rightarrow> key_as_dict k) = PNone
      \<or> complete_key (case previous_key s of None \<Rightarrow> PNone | Some k \<Rightarrow> key_as_dict k)"
    using prev complete_key_dict by (auto split: option.splits)
  let ?m = "plan_prelaunch sha s items d l names issue_digest reset step_back mode"
  have fields: "sm_contract ?m = plan_contract_as_dict (pcontract s)" "sm_status ?m = ''valid''"
    "sm_selected ?m = plan_selected d" "sm_paused ?m = plan_paused d" "sm_reasons ?m = [plan_reason d, preason cls]"
    "sm_final_sweep ?m = Some (plan_final_sweep d)" "sm_force_full ?m = Some force"
    "sm_calls_avoided ?m = Some (total_avoided l)" "sm_approved ?m = names"
    "sm_owners ?m = sorted_set (pending_of (active_obligations (plan_obligations s)))" "sm_source ?m = src"
    "sm_phase ?m = Some (plan_decision_phase d)" "sm_primary ?m = plan_primary (pcontract s)"
    "sm_previous_key ?m = (case previous_key s of None \<Rightarrow> PNone | Some k \<Rightarrow> key_as_dict k)"
    "sm_issue_digest ?m = (if plan_decision_phase d = ''primary'' then Some issue_digest else None)"
    "sm_stall_reset ?m = (reset \<and> plan_decision_phase d = ''primary'')"
    "sm_step_back ?m = (step_back \<and> plan_decision_phase d = ''primary'')" "sm_mode ?m = Some mode"
    "sm_previous_sha ?m = None" "sm_current_sha ?m = None" "sm_scope_digest ?m = None"
    "hex16_str (sm_digest ?m)"
    using digest_hex16 [OF hex] by (simp_all add: plan_prelaunch_def latch no_sched_def d Let_def)
  have issue_hex: "hex16_str (Some issue_digest)" using issue by (simp add: hex16_str_def)
  have "lists_sound ?req ?m"
    unfolding lists_sound_def fields
    using board entries plan_choice_facts [OF choice] latch_sound [OF latch] cls owners counts app by auto
  then show ?thesis
    unfolding sound_plan_record_def fields
    using plan_choice_facts [OF choice] wf issue_hex mode key by (auto simp: fields)
qed


section \<open>Properties\<close>

text \<open>C16: Stored scheduling state never shrinks a board by accident.  Whatever payload is read, the result
  is absent, invalid or valid.  Absent and invalid carry no authority at all.  A valid record of the pull
  request flow passes every check of its writer: its contract is well-formed, its selected and paused
  reviewers split the required board, and its phase, primary, approvals and latch belong to the contract;
  a valid planning record too, unless it is the neutral board record of an \<open>all-reviewers\<close> plan.  And what
  passes the checks reads back unchanged, whatever else the record says.\<close>

theorem stored_schedule_fails_closed:
  "(let m = decode_scheduler_fields sha p in
      (m = no_sched \<or> m = invalid_sched
       \<or> (py_get p ''flow'' \<noteq> PStr ''plan'' \<and> (\<exists>c. sound_pr_record sha c m))
       \<or> (py_get p ''flow'' = PStr ''plan''
           \<and> ((\<exists>c. sound_plan_record c m)
              \<or> (\<exists>c. plan_policy c = ''all-reviewers'' \<and> wf_plan_contract c
                   \<and> m = no_sched\<lparr>sm_status := ''valid'', sm_contract := plan_contract_as_dict c\<rparr>)))))
   \<and> ((\<forall>k \<in> set SCHEDULER_KEYS. k \<notin> fst ` set other) \<longrightarrow>
        (sound_pr_record sha c m \<and> py_get (PDict other) ''flow'' \<noteq> PStr ''plan''
           \<longrightarrow> decode_scheduler_fields sha (PDict (other @ encode_sched m)) = m)
        \<and> (sound_plan_record c' m \<and> py_get (PDict other) ''flow'' = PStr ''plan''
             \<and> complete_key (py_get (PDict other) ''plan_candidate_key'')
           \<longrightarrow> decode_scheduler_fields sha (PDict (other @ encode_sched m)) = m))"
proof -
  have neutral: "wf_plan_contract d \<and> plan_policy d = ''all-reviewers''" if "neutral_board p = Some d" for d
    using that plan_contract_codec.dec_wf by (auto simp: neutral_board_def split: pyval.splits sum.splits if_splits)
  have or_inv: "or_invalid x = invalid_sched \<or> x = Some (or_invalid x)" for x
    by (cases x) (simp_all add: or_invalid_def)
  have plan: "decode_plan_scheduler_fields p = invalid_sched \<or> (\<exists>c. sound_plan_record c (decode_plan_scheduler_fields p))
      \<or> (\<exists>c. plan_policy c = ''all-reviewers'' \<and> wf_plan_contract c
           \<and> decode_plan_scheduler_fields p = no_sched\<lparr>sm_status := ''valid'', sm_contract := plan_contract_as_dict c\<rparr>)"
  proof (cases "neutral_board p")
    case None
    then show ?thesis
      using or_inv [of "decode_plan_fields p"] plan_read_sound [of p "or_invalid (decode_plan_fields p)"]
      by (auto simp: decode_plan_scheduler_fields_def)
  next
    case (Some d)
    then show ?thesis using neutral [OF Some] by (auto simp: decode_plan_scheduler_fields_def)
  qed
  have pr: "or_invalid (decode_pr_fields sha p) = invalid_sched \<or> (\<exists>c. sound_pr_record sha c (or_invalid (decode_pr_fields sha p)))"
    using or_inv [of "decode_pr_fields sha p"] pr_read_sound [of sha p "or_invalid (decode_pr_fields sha p)"] by blast
  have "let m = decode_scheduler_fields sha p in
      (m = no_sched \<or> m = invalid_sched
       \<or> (py_get p ''flow'' \<noteq> PStr ''plan'' \<and> (\<exists>c. sound_pr_record sha c m))
       \<or> (py_get p ''flow'' = PStr ''plan''
           \<and> ((\<exists>c. sound_plan_record c m)
              \<or> (\<exists>c. plan_policy c = ''all-reviewers'' \<and> wf_plan_contract c
                   \<and> m = no_sched\<lparr>sm_status := ''valid'', sm_contract := plan_contract_as_dict c\<rparr>))))"
    unfolding Let_def decode_scheduler_fields_def using plan pr by presburger
  then show ?thesis using pr_reads_back [of sha c m other] plan_reads_back [of c' m other sha] by blast
qed

definition ex_sha :: "string \<Rightarrow> string" where
  "ex_sha s = replicate 64 CHR ''0''"

definition ex_sha_contract :: contract where
  "ex_sha_contract = \<lparr>required_reviewers = [''ann'', ''bob''], policy = ''primary-then-panel'', broad_rules = [''Makefile''],
     rules_digest = Some (replicate 16 CHR ''0''), primary_reviewer = Some ''ann''\<rparr>"

lemma ex_sha_facts: "hex_of_length 64 (ex_sha x)" "wf_contract ex_sha ex_sha_contract"
proof -
  show "hex_of_length 64 (ex_sha x)" by (simp add: ex_sha_def hex_of_length_def is_hex_def is_ascii_digit_def)
  have "broad_rules_normal [''Makefile'']"
    using ex_rules normalize_broad_rules_normal by blast
  then show "wf_contract ex_sha ex_sha_contract"
    by (simp add: wf_contract_def ex_sha_contract_def policy_capabilities_def caps_staged_def rules_hash_def ex_sha_def
        numeral_eq_Suc)
qed

definition ex_schedule :: sched_meta where
  "ex_schedule =
     no_sched\<lparr>sm_status := ''valid'', sm_contract := contract_as_dict ex_sha_contract, sm_current_sha := Some ''h1'',
       sm_digest := Some (replicate 16 CHR ''0''), sm_selected := [''ann''], sm_paused := [(''bob'', ''waits'')],
       sm_reasons := [''primary phase''], sm_final_sweep := Some False, sm_force_full := Some False,
       sm_calls_avoided := Some 1, sm_phase := Some ''primary'', sm_primary := Some ''ann''\<rparr>"

lemma ex_schedule_sound: "sound_pr_record ex_sha ex_sha_contract ex_schedule"
  using ex_sha_facts(2)
  by (simp add: sound_pr_record_def lists_sound_def board_ok_def ex_schedule_def no_sched_def hex16_str_def
      hex_of_length_def is_hex_def is_ascii_digit_def SCHEDULER_PHASES_def)
    (auto simp: ex_sha_contract_def)

theorem stored_schedule_fails_closed_witness:
  "decode_scheduler_fields ex_sha (PDict ([(''flow'', PStr ''pr'')] @ encode_sched ex_schedule)) = ex_schedule
   \<and> decode_scheduler_fields ex_sha (PDict [(''scheduler_phase'', PStr ''primary'')]) = invalid_sched"
proof -
  have "\<forall>k \<in> set SCHEDULER_KEYS. k \<notin> fst ` set [(''flow'', PStr ''pr'')]" by (simp add: key_defs)
  moreover have "py_get (PDict [(''flow'', PStr ''pr'')]) ''flow'' \<noteq> PStr ''plan''" by simp
  ultimately have "decode_scheduler_fields ex_sha (PDict ([(''flow'', PStr ''pr'')] @ encode_sched ex_schedule)) = ex_schedule"
    using stored_schedule_fails_closed [of ex_sha PNone "[(''flow'', PStr ''pr'')]" ex_sha_contract ex_schedule undefined]
      ex_schedule_sound by blast
  moreover have "decode_scheduler_fields ex_sha (PDict [(''scheduler_phase'', PStr ''primary'')]) = invalid_sched"
    by (simp add: decode_scheduler_fields_def key_defs has_key_in_def)
  ultimately show ?thesis ..
qed

text \<open>C15: What the loops decide survives the comment it is posted in.  The checkpoint that the pull request
  loop posts for a decision of \<open>select_reviewers\<close> is read back with exactly the decided board, phase and
  reasons, for every snapshot with a well-formed contract and a head; so is the planning checkpoint of a
  decision of \<open>select_plan_reviewers\<close> for a complete candidate key.\<close>

theorem posted_decision_reads_back:
  assumes hex: "\<forall>x. hex_of_length 64 (sha x)" and counts: "0 \<le> total_avoided l"
    and apart: "\<forall>k \<in> set SCHEDULER_KEYS. k \<notin> fst ` set other"
  shows "(select_reviewers s cls approvals unav fin ph = Inr d \<and> wf_contract sha (snap_contract s)
      \<and> previous_sha s \<noteq> Some [] \<and> current_sha s \<noteq> None \<and> current_sha s \<noteq> Some [] \<and> reason cls \<noteq> []
      \<and> [] \<notin> set (pending_of (active_obligations (obligations s)))
      \<and> set names \<subseteq> set (required_reviewers (snap_contract s)) \<and> py_get (PDict other) ''flow'' = PStr ''pr''
      \<longrightarrow> (let m = decode_scheduler_fields sha (PDict (other @ encode_sched (pr_prelaunch sha s items d l names))) in
           m = pr_prelaunch sha s items d l names \<and> sm_status m = ''valid'' \<and> sm_selected m = selected_reviewers d
           \<and> sm_paused m = paused_reviewers d \<and> sm_phase m = Some (decision_phase d)
           \<and> sm_contract m = contract_as_dict (snap_contract s)))
    \<and> (select_plan_reviewers ps pcls approvals unav ph = Inr pd \<and> wf_plan_contract (pcontract ps)
      \<and> (\<forall>k. previous_key ps = Some k \<longrightarrow> wf_key k \<and> key_complete k) \<and> preason pcls \<noteq> []
      \<and> [] \<notin> set (pending_of (active_obligations (plan_obligations ps)))
      \<and> distinct names \<and> set names \<subseteq> set (plan_reviewers (pcontract ps)) \<and> hex_of_length 16 issue_digest
      \<and> mode \<in> set PLAN_EXECUTION_MODES \<and> py_get (PDict other) ''flow'' = PStr ''plan''
      \<and> complete_key (py_get (PDict other) ''plan_candidate_key'')
      \<longrightarrow> (let pm = plan_prelaunch sha ps items pd l names issue_digest reset step_back mode;
               m = decode_scheduler_fields sha (PDict (other @ encode_sched pm)) in
           m = pm \<and> sm_status m = ''valid'' \<and> sm_selected m = plan_selected pd
           \<and> sm_paused m = plan_paused pd \<and> sm_phase m = Some (plan_decision_phase pd)))"
proof (intro conjI impI)
  assume a: "select_reviewers s cls approvals unav fin ph = Inr d \<and> wf_contract sha (snap_contract s)
      \<and> previous_sha s \<noteq> Some [] \<and> current_sha s \<noteq> None \<and> current_sha s \<noteq> Some [] \<and> reason cls \<noteq> []
      \<and> [] \<notin> set (pending_of (active_obligations (obligations s)))
      \<and> set names \<subseteq> set (required_reviewers (snap_contract s)) \<and> py_get (PDict other) ''flow'' = PStr ''pr''"
  let ?m = "pr_prelaunch sha s items d l names"
  have "sound_pr_record sha (snap_contract s) ?m"
    using a by (intro pr_prelaunch_sound [where cls = cls and approvals = approvals and unav = unav and fin = fin and ph = ph]
        hex counts) simp_all
  then have "decode_scheduler_fields sha (PDict (other @ encode_sched ?m)) = ?m"
    using a by (intro pr_reads_back [OF _ apart]) simp_all
  then show "let m = decode_scheduler_fields sha (PDict (other @ encode_sched ?m)) in
           m = ?m \<and> sm_status m = ''valid'' \<and> sm_selected m = selected_reviewers d
           \<and> sm_paused m = paused_reviewers d \<and> sm_phase m = Some (decision_phase d)
           \<and> sm_contract m = contract_as_dict (snap_contract s)"
    by (simp add: Let_def pr_prelaunch_def case_prod_beta)
next
  assume a: "select_plan_reviewers ps pcls approvals unav ph = Inr pd \<and> wf_plan_contract (pcontract ps)
      \<and> (\<forall>k. previous_key ps = Some k \<longrightarrow> wf_key k \<and> key_complete k) \<and> preason pcls \<noteq> []
      \<and> [] \<notin> set (pending_of (active_obligations (plan_obligations ps)))
      \<and> distinct names \<and> set names \<subseteq> set (plan_reviewers (pcontract ps)) \<and> hex_of_length 16 issue_digest
      \<and> mode \<in> set PLAN_EXECUTION_MODES \<and> py_get (PDict other) ''flow'' = PStr ''plan''
      \<and> complete_key (py_get (PDict other) ''plan_candidate_key'')"
  let ?m = "plan_prelaunch sha ps items pd l names issue_digest reset step_back mode"
  have "sound_plan_record (pcontract ps) ?m"
    using a by (intro plan_prelaunch_sound [where cls = pcls and approvals = approvals and unav = unav and ph = ph]
        hex counts) simp_all
  then have "decode_scheduler_fields sha (PDict (other @ encode_sched ?m)) = ?m"
    using a by (intro plan_reads_back [OF _ apart]) simp_all
  then show "let pm = ?m; m = decode_scheduler_fields sha (PDict (other @ encode_sched pm)) in
           m = pm \<and> sm_status m = ''valid'' \<and> sm_selected m = plan_selected pd
           \<and> sm_paused m = plan_paused pd \<and> sm_phase m = Some (plan_decision_phase pd)"
    by (simp add: Let_def plan_prelaunch_def case_prod_beta)
qed

theorem posted_decision_reads_back_witness:
  "\<exists>d. select_reviewers (ex_snapshot\<lparr>snap_contract := ex_sha_contract, current_sha := Some ''h1'', obligations := []\<rparr>) ex_narrow [] [] False None = Inr d
     \<and> sm_selected (decode_scheduler_fields ex_sha (PDict ([(''flow'', PStr ''pr'')] @ encode_sched
         (pr_prelaunch ex_sha (ex_snapshot\<lparr>snap_contract := ex_sha_contract, current_sha := Some ''h1'', obligations := []\<rparr>) [] d
            \<lparr>operator_latch = False, automatic_latch = False, total_avoided = 0\<rparr> [])))) = [''ann'']"
proof -
  let ?s = "ex_snapshot\<lparr>snap_contract := ex_sha_contract, current_sha := Some ''h1'', obligations := []\<rparr>"
  let ?l = "\<lparr>operator_latch = False, automatic_latch = False, total_avoided = 0\<rparr>"
  let ?o = "[(''flow'', PStr ''pr'')]"
  obtain d where d: "select_reviewers ?s ex_narrow [] [] False None = Inr d" "selected_reviewers d = [''ann'']"
    by (simp add: choice_defs ex_defs ex_sha_contract_def)
  have "\<forall>k \<in> set SCHEDULER_KEYS. k \<notin> fst ` set ?o" by (simp add: key_defs)
  moreover have "wf_contract ex_sha (snap_contract ?s)" "previous_sha ?s \<noteq> Some []" "reason ex_narrow \<noteq> []"
    "[] \<notin> set (pending_of (active_obligations (obligations ?s)))"
    using ex_sha_facts(2) by (simp_all add: ex_defs pending_of_def active_obligations_def)
  moreover have "current_sha ?s = Some ''h1''" "py_get (PDict ?o) ''flow'' = PStr ''pr''" "0 \<le> total_avoided ?l" by simp_all
  ultimately have "let m = decode_scheduler_fields ex_sha (PDict (?o @ encode_sched (pr_prelaunch ex_sha ?s [] d ?l []))) in
       m = pr_prelaunch ex_sha ?s [] d ?l [] \<and> sm_status m = ''valid'' \<and> sm_selected m = selected_reviewers d
       \<and> sm_paused m = paused_reviewers d \<and> sm_phase m = Some (decision_phase d)
       \<and> sm_contract m = contract_as_dict (snap_contract ?s)"
    using d(1) ex_sha_facts(1)
    by (intro posted_decision_reads_back [of ex_sha ?l ?o ?s ex_narrow "[]" "[]" False None d "[]" "[]", THEN conjunct1, THEN mp]
        allI conjI) simp_all
  then have "sm_selected (decode_scheduler_fields ex_sha (PDict (?o @ encode_sched
        (pr_prelaunch ex_sha ?s [] d ?l [])))) = selected_reviewers d"
    unfolding Let_def by (elim conjE)
  also have "\<dots> = [''ann'']" by (rule d(2))
  finally have "sm_selected (decode_scheduler_fields ex_sha (PDict (?o @ encode_sched
        (pr_prelaunch ex_sha ?s [] d ?l [])))) = [''ann'']" .
  then show ?thesis using d(1) by blast
qed

end
