(* ===== verification/Panel_Evidence.thy ===== *)
theory Panel_Evidence
  imports Round_Record Reviewer_Selection "HOL-Library.Multiset"
begin

text \<open>
  What the posted history proves about the secondary panel (\<open>panel_evidence.py\<close>,
  \<open>plan_round_closure.py\<close>): the first qualified opening of the panel in both flows, the reviews and
  approvals that count because of it, the class of a planning history, and the streak of blocking
  primary reviews.  Every reader goes through the records in the order of their comments.
\<close>

section \<open>Pull requests\<close>

definition PANEL_OPENED_PHASES :: "string list" where
  "PANEL_OPENED_PHASES = [''full-board'', ''secondary-audit'', ''remediation'', ''final-secondary-sweep'']"

record panel_evidence_record =
  pe_index :: "int option"
  pe_source :: "string option"
  pe_artifacts :: "string list"
  pe_premature :: "string list"
  pe_prepanel_latch :: bool
  pe_post_latch :: bool

definition pe_opened :: "panel_evidence_record \<Rightarrow> bool" where
  "pe_opened e \<longleftrightarrow> pe_index e \<noteq> None"

definition sched_valid :: "round_meta \<Rightarrow> bool" where
  "sched_valid m \<longleftrightarrow> sm_status (rm_sched m) = ''valid''"

definition forced_full :: "round_meta \<Rightarrow> bool" where
  "forced_full m \<longleftrightarrow> sm_force_full (rm_sched m) = Some True"

definition operator_opening :: "round_meta \<Rightarrow> bool" where
  "operator_opening m \<longleftrightarrow> sched_valid m \<and> forced_full m \<and> sm_source (rm_sched m) = Some ''operator''"

definition lists_primary_in_audit :: "string option \<Rightarrow> round_meta \<Rightarrow> bool" where
  "lists_primary_in_audit primary m \<longleftrightarrow>
     sched_valid m \<and> primary \<noteq> None \<and> sm_phase (rm_sched m) = Some ''secondary-audit''
     \<and> the primary \<in> set (sm_approved (rm_sched m))"

definition primary_approval :: "string option \<Rightarrow> round_meta \<Rightarrow> bool" where
  "primary_approval primary m \<longleftrightarrow>
     rm_role m = ''reviewer'' \<and> Some (rm_agent m) = primary \<and> rm_state m = Some ''approved''"

text \<open>How one record is read: the opening it is, or what it adds to the artifacts of a premature panel.\<close>

definition pr_opening :: "string option \<Rightarrow> string set \<Rightarrow> round_meta \<Rightarrow> string option" where
  "pr_opening primary subjects m =
     (if scope_present (Decoded m) then None
      else if operator_opening m then Some ''operator''
      else if lists_primary_in_audit primary m \<and> rm_subject m \<in> subjects then Some ''primary-approval''
      else None)"

definition pr_approved_subject :: "string option \<Rightarrow> round_meta \<Rightarrow> bool" where
  "pr_approved_subject primary m \<longleftrightarrow>
     \<not> scope_present (Decoded m) \<and> primary_approval primary m \<and> rm_subject m \<noteq> []"

definition is_secondary :: "string option \<Rightarrow> string list \<Rightarrow> round_meta \<Rightarrow> bool" where
  "is_secondary primary required m \<longleftrightarrow>
     rm_role m = ''reviewer'' \<and> rm_agent m \<in> set required \<and> Some (rm_agent m) \<noteq> primary"

definition pr_artifact :: "string option \<Rightarrow> string list \<Rightarrow> round_meta \<Rightarrow> string list" where
  "pr_artifact primary required m =
     (if scope_present (Decoded m) then []
      else if is_secondary primary required m then
        [rm_agent m @ '' review (round '' @ int_str (rm_round m) @ '', head '' @ rm_subject m @ '')'']
      else case sm_phase (rm_sched m) of
        Some ph \<Rightarrow> if sched_valid m \<and> ph \<in> set PANEL_OPENED_PHASES then
            [ph @ '' scheduler record (round '' @ int_str (rm_round m) @ '', head '' @ rm_subject m @ '')'']
          else []
      | None \<Rightarrow> [])"

record scan =
  sc_subjects :: "string list"
  sc_artifacts :: "string list"
  sc_latch :: bool

definition pr_note :: "string option \<Rightarrow> string list \<Rightarrow> posted \<Rightarrow> scan \<Rightarrow> scan" where
  "pr_note primary required r st =
     (let m = meta r in
      \<lparr>sc_subjects = (if pr_approved_subject primary m then rm_subject m # sc_subjects st else sc_subjects st),
       sc_artifacts = sc_artifacts st @ pr_artifact primary required m,
       sc_latch = (sc_latch st \<or> \<not> scope_present (Decoded m) \<and> sched_valid m \<and> forced_full m)\<rparr>)"

fun pr_scan :: "string option \<Rightarrow> string list \<Rightarrow> posted list \<Rightarrow> scan \<Rightarrow> (posted \<times> string) option \<times> scan" where
  "pr_scan primary required [] st = (None, st)"
| "pr_scan primary required (r # rs) st =
     (case pr_opening primary (set (sc_subjects st)) (meta r) of
        Some source \<Rightarrow> (Some (r, source), st)
      | None \<Rightarrow> pr_scan primary required rs (pr_note primary required r st))"

definition automatic_latch_after :: "int \<Rightarrow> posted \<Rightarrow> bool" where
  "automatic_latch_after i r \<longleftrightarrow>
     index r > i \<and> sched_valid (meta r) \<and> forced_full (meta r) \<and> sm_source (rm_sched (meta r)) \<noteq> Some ''operator''"

definition empty_scan :: scan where
  "empty_scan = \<lparr>sc_subjects = [], sc_artifacts = [], sc_latch = False\<rparr>"

definition derive_pr_panel_evidence :: "posted list \<Rightarrow> string option \<Rightarrow> string list \<Rightarrow> panel_evidence_record" where
  "derive_pr_panel_evidence records primary required =
     (let (opening, st) = pr_scan primary required (sort_key index records) empty_scan in
      \<lparr>pe_index = map_option (index \<circ> fst) opening, pe_source = map_option snd opening,
       pe_artifacts = dict_fromkeys (sc_artifacts st), pe_premature = [], pe_prepanel_latch = sc_latch st,
       pe_post_latch = (case opening of None \<Rightarrow> False
          | Some (r, _) \<Rightarrow> (\<exists>x \<in> set records. \<not> scope_present (Decoded (meta x)) \<and> automatic_latch_after (index r) x))\<rparr>)"

definition pr_record_is_panel_qualified ::
  "posted \<Rightarrow> panel_evidence_record \<Rightarrow> string option \<Rightarrow> bool \<Rightarrow> bool" where
  "pr_record_is_panel_qualified r e primary operator_force =
     (if \<not> is_complete_code_review (Decoded (meta r)) then False
      else if \<exists>i. pe_index e = Some i \<and> index r > i then True
      else if Some (rm_agent (meta r)) \<noteq> primary then False
      else if pe_source e = Some ''operator'' then False
      else \<not> (pe_index e = None \<and> operator_force))"

text \<open>The approvals that the loop hands to the scheduler: those of the head, under the same seats, qualified by
  the panel evidence of the staged policy, newer than the latest conversion of the ledger at this head and not
  from before the board change that a reviewer is fresh from.\<close>

record approval_filters =
  af_seats :: pyval
  af_panel :: "panel_evidence_record option"
  af_primary :: "string option"
  af_force :: bool
  af_fresh :: "string \<rightharpoonup> int"

definition predates_restoration :: "(string \<rightharpoonup> int) \<Rightarrow> string \<Rightarrow> int \<Rightarrow> bool" where
  "predates_restoration rounds reviewer rnd = (case rounds reviewer of None \<Rightarrow> False | Some floor \<Rightarrow> rnd < floor)"

definition EVIDENCE_CONVERSION_PHASE :: string where
  "EVIDENCE_CONVERSION_PHASE = ''evidence-conversion''"

definition latest_conversion_index :: "posted list \<Rightarrow> string option \<Rightarrow> int" where
  "latest_conversion_index records head =
     (case find (\<lambda>r. rm_phase (meta r) = EVIDENCE_CONVERSION_PHASE \<and> Some (rm_subject (meta r)) = head) (rev records) of
        None \<Rightarrow> -1 | Some r \<Rightarrow> index r)"

definition unchanged_head_approvals ::
  "posted list \<Rightarrow> head_query \<Rightarrow> string option \<Rightarrow> approval_filters \<Rightarrow> (string \<times> posted) list" where
  "unchanged_head_approvals records q head f =
     (let latest = approved_reviews_for_head records q head;
          seated = (if af_seats f = PNone then latest
                    else filter (\<lambda>(n, r). py_eq (rm_seats (meta r)) (af_seats f)) latest);
          panel = (case af_panel f of None \<Rightarrow> seated
                   | Some e \<Rightarrow> filter (\<lambda>(n, r). pr_record_is_panel_qualified r e (af_primary f) (af_force f)) seated);
          boundary = latest_conversion_index records head;
          converted = (if boundary \<ge> 0 then filter (\<lambda>(n, r). index r > boundary) panel else panel)
      in filter (\<lambda>(n, r). \<not> predates_restoration (af_fresh f) n (rm_round (meta r))) converted)"

lemma unchanged_head_approval:
  assumes "(n, r) \<in> set (unchanged_head_approvals records q head f)"
  shows "(n, r) \<in> set (approved_reviews_for_head records q head)
    \<and> (\<forall>e. af_panel f = Some e \<longrightarrow> pr_record_is_panel_qualified r e (af_primary f) (af_force f))"
  using assms by (auto simp: unchanged_head_approvals_def Let_def split: if_splits option.splits)

section \<open>Closed planning rounds\<close>

definition plan_round_is_reconciled :: "posted \<Rightarrow> bool" where
  "plan_round_is_reconciled r \<longleftrightarrow>
     rm_flow (meta r) = ''plan'' \<and> rm_role (meta r) = ''summary'' \<and> rm_phase (meta r) \<in> {''reconciliation'', ''authoritative''}"

definition plan_round_key :: "posted \<Rightarrow> string \<times> int" where
  "plan_round_key r = (rm_subject (meta r), rm_round (meta r))"

definition is_prelaunch :: "posted \<Rightarrow> bool" where
  "is_prelaunch r \<longleftrightarrow> rm_role (meta r) = ''summary'' \<and> rm_phase (meta r) = ''scheduler-prelaunch''"

fun idle_indices :: "(string \<times> int) list \<Rightarrow> posted list \<Rightarrow> int list" where
  "idle_indices closed [] = []"
| "idle_indices closed (r # later) =
     (if rm_flow (meta r) \<noteq> ''plan'' then idle_indices closed later
      else if plan_round_is_reconciled r then idle_indices (plan_round_key r # closed) later
      else if is_prelaunch r \<and> plan_round_key r \<in> set closed
              \<and> \<not> (\<exists>x \<in> set later. rm_flow (meta x) = ''plan'' \<and> plan_round_key x = plan_round_key r
                      \<and> rm_role (meta x) = ''reviewer'')
      then index r # idle_indices closed later
      else idle_indices closed later)"

definition project_plan_history :: "posted list \<Rightarrow> posted list" where
  "project_plan_history records =
     filter (\<lambda>r. index r \<notin> set (idle_indices [] (sort_key index records))) records"

section \<open>Planning\<close>

definition plan_key_from_payload :: "pyval \<Rightarrow> plan_key option" where
  "plan_key_from_payload v =
     (case v of PDict _ \<Rightarrow> (case key_from_mapping v of Inr k \<Rightarrow> Some k | Inl _ \<Rightarrow> None) | _ \<Rightarrow> None)"

definition complete_record_key :: "round_meta \<Rightarrow> plan_key option" where
  "complete_record_key m =
     (case plan_key_from_payload (rm_plan_key m) of
        Some k \<Rightarrow> if key_complete k then Some k else None | None \<Rightarrow> None)"

definition plan_opening :: "string option \<Rightarrow> string option list set \<Rightarrow> round_meta \<Rightarrow> string option" where
  "plan_opening primary keys m =
     (case complete_record_key m of
        None \<Rightarrow> None
      | Some k \<Rightarrow>
          if operator_opening m then Some ''operator''
          else if lists_primary_in_audit primary m \<and> components k \<in> keys then Some ''primary-approval''
          else None)"

definition plan_artifact :: "string option \<Rightarrow> string list \<Rightarrow> round_meta \<Rightarrow> string list" where
  "plan_artifact primary required m =
     (let place = ''(round '' @ int_str (rm_round m) @ '', plan '' @ rm_subject m @ '')'' in
      if is_secondary primary required m then [rm_agent m @ '' plan review '' @ place]
      else if sched_valid m \<and> (\<exists>ph \<in> set PANEL_OPENED_PHASES. sm_phase (rm_sched m) = Some ph) then
        [the (sm_phase (rm_sched m)) @ '' planning scheduler record '' @ place]
      else if sm_status (rm_sched m) = ''invalid'' then [''invalid planning scheduler record '' @ place]
      else [])"

record plan_scan =
  ps_keys :: "string option list list"
  ps_artifacts :: "string list"
  ps_premature :: "string list"
  ps_latch :: bool

definition plan_note :: "string option \<Rightarrow> string list \<Rightarrow> posted \<Rightarrow> plan_scan \<Rightarrow> plan_scan" where
  "plan_note primary required r st =
     (let m = meta r in
      \<lparr>ps_keys = (case complete_record_key m of
           Some k \<Rightarrow> if primary_approval primary m then components k # ps_keys st else ps_keys st
         | None \<Rightarrow> ps_keys st),
       ps_artifacts = ps_artifacts st @ plan_artifact primary required m,
       ps_premature = ps_premature st
         @ (if is_secondary primary required m \<and> rm_state m = Some ''blocking'' then [rm_agent m] else []),
       ps_latch = (ps_latch st \<or> sched_valid m \<and> forced_full m)\<rparr>)"

fun plan_panel_scan ::
  "string option \<Rightarrow> string list \<Rightarrow> posted list \<Rightarrow> plan_scan \<Rightarrow> (posted \<times> string) option \<times> plan_scan" where
  "plan_panel_scan primary required [] st = (None, st)"
| "plan_panel_scan primary required (r # rs) st =
     (case plan_opening primary (set (ps_keys st)) (meta r) of
        Some source \<Rightarrow> (Some (r, source), st)
      | None \<Rightarrow> plan_panel_scan primary required rs (plan_note primary required r st))"

definition empty_plan_scan :: plan_scan where
  "empty_plan_scan = \<lparr>ps_keys = [], ps_artifacts = [], ps_premature = [], ps_latch = False\<rparr>"

definition derive_plan_panel_evidence :: "posted list \<Rightarrow> string option \<Rightarrow> string list \<Rightarrow> panel_evidence_record" where
  "derive_plan_panel_evidence raw primary required =
     (let records = project_plan_history raw;
          (opening, st) = plan_panel_scan primary required (sort_key index records) empty_plan_scan in
      \<lparr>pe_index = map_option (index \<circ> fst) opening, pe_source = map_option snd opening,
       pe_artifacts = dict_fromkeys (ps_artifacts st), pe_premature = dict_fromkeys (ps_premature st),
       pe_prepanel_latch = ps_latch st,
       pe_post_latch = (case opening of None \<Rightarrow> False
          | Some (r, _) \<Rightarrow> (\<exists>x \<in> set records. automatic_latch_after (index r) x))\<rparr>)"

text \<open>Approvals carried from history: the last relevant record of each reviewer, whether it qualifies and
  its round.\<close>

record carry_query =
  cq_key :: plan_key
  cq_required :: "string list"
  cq_surfaced :: "string list"
  cq_evidence :: panel_evidence_record
  cq_primary :: "string option"
  cq_restored :: "string \<rightharpoonup> int"
  cq_parent :: "string list option"

definition resets_carried :: "round_meta \<Rightarrow> bool" where
  "resets_carried m \<longleftrightarrow>
     rm_role m = ''summary'' \<and> rm_phase m = ''scheduler-prelaunch'' \<and> sched_valid m
     \<and> (forced_full m
        \<or> (case (plan_key_from_payload (sm_previous_key (rm_sched m)), plan_key_from_payload (rm_plan_key m)) of
             (Some old, Some new) \<Rightarrow> subject old = subject new \<and> \<not> key_matches old (Some new)
           | _ \<Rightarrow> False))"

definition counts_for_carry :: "carry_query \<Rightarrow> posted \<Rightarrow> bool" where
  "counts_for_carry q r \<longleftrightarrow>
     (let m = meta r in
      rm_role m = ''reviewer'' \<and> rm_agent m \<in> set (cq_required q)
      \<and> \<not> predates_restoration (cq_restored q) (rm_agent m) (rm_round m)
      \<and> (Some (rm_agent m) = cq_primary q \<or> (\<exists>i. pe_index (cq_evidence q) = Some i \<and> index r > i)))"

definition carry_qualifies :: "carry_query \<Rightarrow> round_meta \<Rightarrow> bool" where
  "carry_qualifies q m \<longleftrightarrow>
     rm_state m = Some ''approved''
     \<and> (\<exists>k. plan_key_from_payload (rm_plan_key m) = Some k \<and> key_matches k (Some (cq_key q)))
     \<and> (cq_surfaced q = [] \<or> set (rm_requirement_ids m) = set (cq_surfaced q))
     \<and> (case cq_parent q of None \<Rightarrow> True
        | Some ids \<Rightarrow> set (case rm_parent_ids m of None \<Rightarrow> [] | Some xs \<Rightarrow> xs) = set ids)"

definition carry_step :: "carry_query \<Rightarrow> (string \<rightharpoonup> bool \<times> int) \<Rightarrow> posted \<Rightarrow> (string \<rightharpoonup> bool \<times> int)" where
  "carry_step q carried r =
     (let m = meta r;
          kept = (if resets_carried m
                  then (\<lambda>n. case carried n of
                          Some (ok, rnd) \<Rightarrow> if n \<in> set (sm_selected (rm_sched m)) \<and> rnd < rm_round m then None else Some (ok, rnd)
                        | None \<Rightarrow> None)
                  else carried)
      in if counts_for_carry q r then kept(rm_agent m \<mapsto> (carry_qualifies q m, rm_round m)) else kept)"

definition carried_plan_approvals :: "posted list \<Rightarrow> carry_query \<Rightarrow> string list" where
  "carried_plan_approvals records q =
     (if \<not> key_complete (cq_key q) then []
      else let carried = foldl (carry_step q) Map.empty (sort_key index (project_plan_history records)) in
        sorted_set (filter (\<lambda>n. case carried n of Some (ok, _) \<Rightarrow> ok | None \<Rightarrow> False) (cq_required q)))"


section \<open>The class of a planning history\<close>

definition latest_schedule :: "posted list \<Rightarrow> posted option" where
  "latest_schedule records = find (\<lambda>r. sched_valid (meta r) \<and> sm_contract (rm_sched (meta r)) \<noteq> PNone) (rev records)"

definition contradicts_key :: "plan_key \<Rightarrow> plan_key option \<Rightarrow> bool" where
  "contradicts_key current old =
     (case old of None \<Rightarrow> False | Some k \<Rightarrow> subject k = subject current \<and> \<not> key_matches k (Some current))"

record staged_history =
  sh_class :: string
  sh_previous_key :: "plan_key option"
  sh_latest :: "posted option"

definition record_key :: "posted \<Rightarrow> plan_key option" where
  "record_key r = plan_key_from_payload (rm_plan_key (meta r))"

definition classify_staged_plan_history :: "posted list \<Rightarrow> plan_key \<Rightarrow> plan_error + staged_history" where
  "classify_staged_plan_history raw current =
     (let records = project_plan_history raw;
          latest = latest_schedule records;
          previous = (case latest of None \<Rightarrow> None | Some r \<Rightarrow> record_key r);
          boundary = (case latest of None \<Rightarrow> -1 | Some r \<Rightarrow> index r);
          idle = filter (\<lambda>r. index r \<notin> index ` set records \<and> index r > boundary
                   \<and> contradicts_key current (record_key r)) raw;
          status = (if \<exists>r \<in> set raw. index r > boundary \<and> sm_status (rm_sched (meta r)) = ''invalid'' then ''invalid''
                    else if (\<exists>r \<in> set records. rm_role (meta r) = ''reviewer'') \<and> latest = None then ''absent''
                    else ''valid'')
      in bindE (classify_plan_history (PStr status) (contradicts_key current previous \<or> idle \<noteq> []) False)
           (\<lambda>c. Inr \<lparr>sh_class = c, sh_previous_key = (if idle = [] then previous else record_key (last idle)),
                      sh_latest = latest\<rparr>))"

text \<open>The gate on a resumed staged plan: an intact history and a carried approval of every reviewer.\<close>

definition staged_plan_approved :: "posted list \<Rightarrow> carry_query \<Rightarrow> bool" where
  "staged_plan_approved raw q \<longleftrightarrow>
     (case classify_staged_plan_history raw (cq_key q) of
        Inl _ \<Rightarrow> False
      | Inr h \<Rightarrow> sh_class h = PLAN_HISTORY_INTACT
          \<and> set (carried_plan_approvals raw
               (q\<lparr>cq_evidence := derive_plan_panel_evidence raw (cq_primary q) (cq_required q)\<rparr>)) = set (cq_required q))"

section \<open>The streak of blocking primary reviews\<close>

record streak_query =
  sq_primary :: string
  sq_opening :: "int option"
  sq_issue :: "string option"
  sq_mode :: "string option"

definition history_boundary :: "posted list \<Rightarrow> int" where
  "history_boundary ordered =
     foldl max (-1) (map index (filter (\<lambda>r. sm_status (rm_sched (meta r)) = ''invalid''
        \<or> rm_role (meta r) = ''summary'' \<and> rm_phase (meta r) = ''plan-phase-advance'') ordered))"

definition is_primary_review :: "string \<Rightarrow> posted \<Rightarrow> bool" where
  "is_primary_review primary r \<longleftrightarrow> rm_role (meta r) = ''reviewer'' \<and> rm_agent (meta r) = primary"

definition usable_primary_checkpoint :: "streak_query \<Rightarrow> int \<Rightarrow> posted \<Rightarrow> bool" where
  "usable_primary_checkpoint q boundary c \<longleftrightarrow>
     index c > boundary \<and> (case sq_opening q of None \<Rightarrow> True | Some i \<Rightarrow> index c < i)
     \<and> sched_valid (meta c) \<and> sm_phase (rm_sched (meta c)) = Some ''primary''"

definition has_reset :: "streak_query \<Rightarrow> int \<Rightarrow> posted list \<Rightarrow> bool" where
  "has_reset q boundary cps \<longleftrightarrow>
     (\<exists>c \<in> set cps. usable_primary_checkpoint q boundary c \<and> sm_stall_reset (rm_sched (meta c)))"

definition differs :: "string option \<Rightarrow> string option \<Rightarrow> bool" where
  "differs recorded current \<longleftrightarrow> recorded \<noteq> None \<and> current \<noteq> None \<and> recorded \<noteq> current"

definition round_checkpoints :: "posted list \<Rightarrow> int \<Rightarrow> posted list" where
  "round_checkpoints ordered n = filter (\<lambda>r. is_prelaunch r \<and> rm_round (meta r) = n) ordered"

definition round_review :: "string \<Rightarrow> posted list \<Rightarrow> int \<Rightarrow> posted option" where
  "round_review primary ordered n = find (\<lambda>r. is_primary_review primary r \<and> rm_round (meta r) = n) (rev ordered)"

definition counted_checkpoint :: "streak_query \<Rightarrow> int \<Rightarrow> posted list \<Rightarrow> posted \<Rightarrow> posted option" where
  "counted_checkpoint q boundary cps review =
     (if (case sq_opening q of None \<Rightarrow> False | Some i \<Rightarrow> index review \<ge> i) then None
      else case find (\<lambda>c. index c < index review) (rev cps) of
             None \<Rightarrow> None
           | Some c \<Rightarrow>
               if usable_primary_checkpoint q boundary c \<and> rm_state (meta review) = Some ''blocking''
                  \<and> \<not> differs (sm_issue_digest (rm_sched (meta c))) (sq_issue q)
                  \<and> \<not> differs (sm_mode (rm_sched (meta c))) (sq_mode q)
               then Some c else None)"

fun streak_loop :: "streak_query \<Rightarrow> posted list \<Rightarrow> int list \<Rightarrow> nat \<times> nat \<Rightarrow> nat \<times> nat" where
  "streak_loop q ordered [] acc = acc"
| "streak_loop q ordered (n # older) (streak, prefix) =
     (let boundary = history_boundary ordered; cps = round_checkpoints ordered n in
      case round_review (sq_primary q) ordered n of
        None \<Rightarrow>
          if cps \<noteq> [] \<and> usable_primary_checkpoint q boundary (last cps) \<and> \<not> has_reset q boundary cps
          then streak_loop q ordered older (streak, prefix) else (streak, prefix)
      | Some review \<Rightarrow>
          (case counted_checkpoint q boundary cps review of
             None \<Rightarrow> (streak, prefix)
           | Some c \<Rightarrow>
               let prefix' = (if sm_issue_digest (rm_sched (meta c)) = None \<and> prefix = streak then Suc prefix else prefix)
               in if has_reset q boundary cps then (Suc streak, prefix')
                  else streak_loop q ordered older (Suc streak, prefix')))"

definition plan_primary_blocking_streak :: "posted list \<Rightarrow> streak_query \<Rightarrow> nat \<times> nat" where
  "plan_primary_blocking_streak records q =
     (let ordered = sort_key index records;
          numbers = map (rm_round \<circ> meta) (filter (\<lambda>r. is_prelaunch r \<or> is_primary_review (sq_primary q) r) ordered)
      in streak_loop q ordered (rev (sorted_set numbers)) (0, 0))"

text \<open>Whether the rounds without an issue digest alone keep the stop after an edit of the issue.\<close>

definition edit_cannot_clear :: "nat \<times> nat \<Rightarrow> int \<Rightarrow> bool" where
  "edit_cannot_clear s threshold \<longleftrightarrow> threshold > 0 \<and> int (snd s) \<ge> threshold"

section \<open>Facts on openings\<close>

text \<open>The first record that opens the panel given what the records before it approved.\<close>

definition pr_subjects :: "string option \<Rightarrow> posted list \<Rightarrow> string set" where
  "pr_subjects primary rs = {rm_subject (meta r) |r. r \<in> set rs \<and> pr_approved_subject primary (meta r)}"

text \<open>Both scans look for the first record that opens the panel given what the records before it add.\<close>

fun first_opening :: "('k set \<Rightarrow> posted \<Rightarrow> string option) \<Rightarrow> (posted \<Rightarrow> 'k set) \<Rightarrow> posted list \<Rightarrow> 'k set \<Rightarrow> (posted \<times> string) option" where
  "first_opening opens adds [] K = None"
| "first_opening opens adds (r # rs) K =
     (case opens K r of Some s \<Rightarrow> Some (r, s) | None \<Rightarrow> first_opening opens adds rs (K \<union> adds r))"

definition added :: "(posted \<Rightarrow> 'k set) \<Rightarrow> posted list \<Rightarrow> 'k set" where
  "added adds rs = (\<Union>r \<in> set rs. adds r)"

lemma first_opening_Some:
  "first_opening opens adds rs K = Some (x, src) \<Longrightarrow>
     \<exists>before after. rs = before @ x # after \<and> opens (K \<union> added adds before) x = Some src"
proof (induction rs arbitrary: K)
  case (Cons r rs)
  show ?case
  proof (cases "opens K r")
    case None
    then obtain before after where "rs = before @ x # after" "opens (K \<union> adds r \<union> added adds before) x = Some src"
      using Cons.IH [of "K \<union> adds r"] Cons.prems by auto
    then show ?thesis by (intro exI [of _ "r # before"] exI [of _ after]) (simp add: added_def Un_assoc)
  next
    case (Some s)
    then show ?thesis using Cons.prems by (intro exI [of _ "[]"] exI [of _ rs]) (simp add: added_def)
  qed
qed simp

lemma first_opening_None:
  "first_opening opens adds rs K = None \<Longrightarrow> rs = before @ x # after \<Longrightarrow> opens (K \<union> added adds before) x = None"
proof (induction rs arbitrary: K before)
  case (Cons r rs)
  have none: "opens K r = None" and rest: "first_opening opens adds rs (K \<union> adds r) = None"
    using Cons.prems(1) by (auto split: option.splits)
  show ?case
  proof (cases before)
    case Nil
    then show ?thesis using Cons.prems(2) none by (simp add: added_def)
  next
    case (Cons b bs)
    then have "rs = bs @ x # after" "b = r" using Cons.prems(2) by simp_all
    then show ?thesis using Cons.IH [OF rest, of bs] Cons by (simp add: added_def Un_assoc)
  qed
qed simp

lemma pr_scan_first:
  "fst (pr_scan primary required rs st)
     = first_opening (\<lambda>K r. pr_opening primary K (meta r)) (\<lambda>r. pr_subjects primary [r]) rs (set (sc_subjects st))"
proof (induction rs arbitrary: st)
  case (Cons r rs)
  have "set (sc_subjects (pr_note primary required r st)) = set (sc_subjects st) \<union> pr_subjects primary [r]"
    by (auto simp: pr_note_def pr_subjects_def Let_def)
  then show ?case by (auto simp: Cons.IH split: option.splits)
qed simp

lemma added_pr_subjects: "added (\<lambda>r. pr_subjects primary [r]) rs = pr_subjects primary rs"
  by (auto simp: added_def pr_subjects_def)

lemma pr_scan_append:
  "fst (pr_scan primary required rs st) \<noteq> None \<Longrightarrow> pr_scan primary required (rs @ later) st = pr_scan primary required rs st"
  by (induction rs arbitrary: st) (auto split: option.splits)

lemma sort_key_split:
  assumes "\<forall>x \<in> set xs. \<forall>y \<in> set ys. f x < f y"
  shows "sort_key f (xs @ ys) = sort_key f xs @ sort_key f ys"
proof (rule properties_for_sort_key)
  show "mset (sort_key f xs @ sort_key f ys) = mset (xs @ ys)" by simp
  show "filter (\<lambda>x. f k = f x) (sort_key f xs @ sort_key f ys) = filter (\<lambda>x. f k = f x) (xs @ ys)"
    if "k \<in> set (sort_key f xs @ sort_key f ys)" for k
    using sort_key_stable [of f "f k"] by (simp add: eq_commute [of _ "f k"])
  show "sorted (map f (sort_key f xs @ sort_key f ys))"
    using assms by (fastforce simp: sorted_append)
qed


lemma sorted_parts:
  assumes "sort_key index rs = before @ x # after" and "distinct (map index rs)"
  shows "set before = {a \<in> set rs. index a < index x}" and "x \<in> set rs"
proof -
  have "set (sort_key index rs) = set rs" "sorted (map index (sort_key index rs))" by simp_all
  moreover have "distinct (map index (sort_key index rs))" using assms(2) by (metis distinct_map distinct_sort set_sort)
  ultimately have parts: "set rs = set before \<union> {x} \<union> set after" "sorted (map index before @ index x # map index after)"
    "distinct (map index before @ index x # map index after)"
    using assms(1) by auto
  then show "x \<in> set rs" by simp
  show "set before = {a \<in> set rs. index a < index x}"
  proof -
    have "\<forall>a \<in> set before. index a \<le> index x \<and> index a \<noteq> index x" "\<forall>b \<in> set after. index x \<le> index b"
      using parts(2,3) by (auto simp: sorted_append image_iff)
    then show ?thesis unfolding parts(1) by fastforce
  qed
qed

lemma sorted_position:
  assumes "x \<in> set rs"
  shows "\<exists>before after. sort_key index rs = before @ x # after"
  using assms by (metis set_sort split_list)

lemma pr_evidence_scan:
  "pe_index (derive_pr_panel_evidence rs primary required)
     = map_option (index \<circ> fst) (fst (pr_scan primary required (sort_key index rs) empty_scan))"
  "pe_source (derive_pr_panel_evidence rs primary required)
     = map_option snd (fst (pr_scan primary required (sort_key index rs) empty_scan))"
  by (simp_all add: derive_pr_panel_evidence_def Let_def split: prod.split)

text \<open>What opens the panel, over the whole history.\<close>

definition opens_panel :: "posted list \<Rightarrow> string option \<Rightarrow> posted \<Rightarrow> string \<Rightarrow> bool" where
  "opens_panel rs primary r src \<longleftrightarrow>
     \<not> scope_present (Decoded (meta r))
     \<and> (if operator_opening (meta r) then src = ''operator''
        else src = ''primary-approval'' \<and> lists_primary_in_audit primary (meta r)
          \<and> (\<exists>a \<in> set rs. index a < index r \<and> pr_approved_subject primary (meta a)
                \<and> rm_subject (meta a) = rm_subject (meta r)))"

lemma pr_opening_iff:
  assumes "sort_key index rs = before @ r # after" and "distinct (map index rs)"
  shows "pr_opening primary (pr_subjects primary before) (meta r) = Some src \<longleftrightarrow> opens_panel rs primary r src"
  using sorted_parts [OF assms] by (auto simp: pr_opening_def opens_panel_def pr_subjects_def)

lemma pr_evidence_opened:
  assumes "pe_index (derive_pr_panel_evidence rs primary required) = Some i" and "distinct (map index rs)"
  shows "\<exists>r src. r \<in> set rs \<and> index r = i \<and> opens_panel rs primary r src
    \<and> pe_source (derive_pr_panel_evidence rs primary required) = Some src"
proof -
  obtain r src where scan: "fst (pr_scan primary required (sort_key index rs) empty_scan) = Some (r, src)" "index r = i"
    using assms(1) by (auto simp: pr_evidence_scan)
  obtain before after where "sort_key index rs = before @ r # after"
      "pr_opening primary (pr_subjects primary before) (meta r) = Some src"
    using first_opening_Some [OF scan(1) [unfolded pr_scan_first]] by (auto simp: added_pr_subjects empty_scan_def)
  then show ?thesis
    using pr_opening_iff [of rs before r after primary src] sorted_parts(2) [of rs before r after] assms(2) scan
    by (auto simp: pr_evidence_scan)
qed

lemma pr_evidence_closed:
  assumes "pe_index (derive_pr_panel_evidence rs primary required) = None" and "distinct (map index rs)" and "r \<in> set rs"
  shows "\<not> opens_panel rs primary r src"
proof -
  obtain before after where split: "sort_key index rs = before @ r # after" using sorted_position [OF assms(3)] by blast
  have "fst (pr_scan primary required (sort_key index rs) empty_scan) = None"
    using assms(1) by (simp add: pr_evidence_scan)
  then have "pr_opening primary (pr_subjects primary before) (meta r) = None"
    using first_opening_None [where opens = "\<lambda>K r. pr_opening primary K (meta r)" and adds = "\<lambda>r. pr_subjects primary [r]"
        and K = "{}", OF _ split]
    by (simp add: pr_scan_first added_pr_subjects empty_scan_def)
  then show ?thesis using pr_opening_iff [OF split assms(2), of primary src] by simp
qed

lemma pr_evidence_grows:
  assumes "pe_index (derive_pr_panel_evidence rs primary required) \<noteq> None"
    and "\<forall>x \<in> set rs. \<forall>y \<in> set later. index x < index y"
  shows "pe_index (derive_pr_panel_evidence (rs @ later) primary required) = pe_index (derive_pr_panel_evidence rs primary required)
    \<and> pe_source (derive_pr_panel_evidence (rs @ later) primary required) = pe_source (derive_pr_panel_evidence rs primary required)
    \<and> pe_artifacts (derive_pr_panel_evidence (rs @ later) primary required) = pe_artifacts (derive_pr_panel_evidence rs primary required)"
proof -
  have "fst (pr_scan primary required (sort_key index rs) empty_scan) \<noteq> None" using assms(1) by (simp add: pr_evidence_scan)
  from pr_scan_append [OF this, of "sort_key index later"]
  have "pr_scan primary required (sort_key index (rs @ later)) empty_scan = pr_scan primary required (sort_key index rs) empty_scan"
    by (simp add: sort_key_split [OF assms(2)])
  then show ?thesis by (simp add: derive_pr_panel_evidence_def split: prod.split)
qed

lemma pr_opened_iff:
  assumes "distinct (map index rs)"
  shows "pe_opened (derive_pr_panel_evidence rs primary required) \<longleftrightarrow> (\<exists>r \<in> set rs. \<exists>src. opens_panel rs primary r src)"
  using pr_evidence_opened [of rs primary required] pr_evidence_closed [of rs primary required] assms
  by (cases "pe_index (derive_pr_panel_evidence rs primary required)") (auto simp: pe_opened_def)

section \<open>Facts on the planning history\<close>

definition plan_keys :: "string option \<Rightarrow> posted list \<Rightarrow> string option list set" where
  "plan_keys primary rs =
     {components k |k r. r \<in> set rs \<and> complete_record_key (meta r) = Some k \<and> primary_approval primary (meta r)}"

lemma plan_scan_first:
  "fst (plan_panel_scan primary required rs st)
     = first_opening (\<lambda>K r. plan_opening primary K (meta r)) (\<lambda>r. plan_keys primary [r]) rs (set (ps_keys st))"
proof (induction rs arbitrary: st)
  case (Cons r rs)
  have "set (ps_keys (plan_note primary required r st)) = set (ps_keys st) \<union> plan_keys primary [r]"
    by (auto simp: plan_note_def plan_keys_def Let_def split: option.splits)
  then show ?case by (auto simp: Cons.IH split: option.splits)
qed simp

lemma added_plan_keys: "added (\<lambda>r. plan_keys primary [r]) rs = plan_keys primary rs"
  by (auto simp: added_def plan_keys_def)

text \<open>What opens the panel of a plan, over the whole history: the operator's record, or an audit record that
  lists the primary after the primary's approving review of the same complete key.\<close>

definition opens_plan_panel :: "posted list \<Rightarrow> string option \<Rightarrow> posted \<Rightarrow> bool" where
  "opens_plan_panel rs primary r \<longleftrightarrow>
     (\<exists>k. complete_record_key (meta r) = Some k
        \<and> (operator_opening (meta r)
           \<or> lists_primary_in_audit primary (meta r)
             \<and> (\<exists>a \<in> set rs. \<exists>k'. index a < index r \<and> primary_approval primary (meta a)
                  \<and> complete_record_key (meta a) = Some k' \<and> components k' = components k)))"

lemma plan_evidence_opened:
  assumes "pe_index (derive_plan_panel_evidence raw primary required) = Some i" and "distinct (map index raw)"
  shows "\<exists>r \<in> set (project_plan_history raw). index r = i \<and> opens_plan_panel (project_plan_history raw) primary r"
proof -
  let ?rs = "project_plan_history raw"
  have d: "distinct (map index ?rs)" using assms(2) by (simp add: project_plan_history_def distinct_map_filter)
  obtain r src where scan: "fst (plan_panel_scan primary required (sort_key index ?rs) empty_plan_scan) = Some (r, src)" "index r = i"
    using assms(1) by (auto simp: derive_plan_panel_evidence_def Let_def split: prod.splits)
  obtain before after where split: "sort_key index ?rs = before @ r # after"
      and o': "plan_opening primary (plan_keys primary before) (meta r) = Some src"
    using first_opening_Some [OF scan(1) [unfolded plan_scan_first]] by (auto simp: added_plan_keys empty_plan_scan_def)
  have "opens_plan_panel ?rs primary r"
    using o' sorted_parts(1) [OF split d]
    by (auto simp: plan_opening_def opens_plan_panel_def plan_keys_def split: option.splits if_splits)
  then show ?thesis using sorted_parts(2) [OF split d] scan(2) by blast
qed

text \<open>What a replay carries for a reviewer: the last record that counts, unless a later reset drops it.\<close>

definition drops :: "string \<Rightarrow> int \<Rightarrow> posted \<Rightarrow> bool" where
  "drops n rnd r \<longleftrightarrow> resets_carried (meta r) \<and> n \<in> set (sm_selected (rm_sched (meta r))) \<and> rnd < rm_round (meta r)"

definition last_counting :: "carry_query \<Rightarrow> posted list \<Rightarrow> string \<Rightarrow> posted \<Rightarrow> bool" where
  "last_counting q rs n r \<longleftrightarrow>
     (\<exists>before after. rs = before @ r # after \<and> counts_for_carry q r \<and> rm_agent (meta r) = n
        \<and> (\<forall>x \<in> set after. \<not> (counts_for_carry q x \<and> rm_agent (meta x) = n) \<and> \<not> drops n (rm_round (meta r)) x))"

lemma counts_not_reset: "counts_for_carry q r \<Longrightarrow> \<not> resets_carried (meta r)"
  by (simp add: counts_for_carry_def resets_carried_def Let_def)

lemma carry_step_at:
  "carry_step q carried r n =
     (if counts_for_carry q r \<and> rm_agent (meta r) = n then Some (carry_qualifies q (meta r), rm_round (meta r))
      else case carried n of None \<Rightarrow> None | Some (ok, rnd) \<Rightarrow> if drops n rnd r then None else Some (ok, rnd))"
  by (auto simp: carry_step_def drops_def Let_def split: option.splits)

lemma carried_last:
  "foldl (carry_step q) Map.empty rs n = Some (ok, rnd) \<Longrightarrow>
     \<exists>r. last_counting q rs n r \<and> ok = carry_qualifies q (meta r) \<and> rnd = rm_round (meta r)"
proof (induction rs arbitrary: ok rnd rule: rev_induct)
  case (snoc x rs)
  show ?case
  proof (cases "counts_for_carry q x \<and> rm_agent (meta x) = n")
    case True
    then have "last_counting q (rs @ [x]) n x" unfolding last_counting_def by (intro exI [of _ rs] exI [of _ "[]"]) simp
    then show ?thesis using snoc.prems True by (auto simp: carry_step_at [of q _ x n])
  next
    case False
    then have old: "foldl (carry_step q) Map.empty rs n = Some (ok, rnd)" and keep: "\<not> drops n rnd x"
      using snoc.prems by (auto simp: carry_step_at [of q _ x n] split: option.splits if_splits)
    obtain r where r: "last_counting q rs n r" "ok = carry_qualifies q (meta r)" "rnd = rm_round (meta r)"
      using snoc.IH [OF old] by blast
    obtain before after where "rs = before @ r # after" "counts_for_carry q r" "rm_agent (meta r) = n"
        "\<forall>y \<in> set after. \<not> (counts_for_carry q y \<and> rm_agent (meta y) = n) \<and> \<not> drops n (rm_round (meta r)) y"
      using r(1) by (auto simp: last_counting_def)
    then have "last_counting q (rs @ [x]) n r" unfolding last_counting_def
      using False keep r(3) by (intro exI [of _ before] exI [of _ "after @ [x]"]) auto
    then show ?thesis using r by blast
  qed
qed simp

lemma find_rev_Some: "find P (rev xs) = Some x \<Longrightarrow> x \<in> set xs \<and> P x"
  by (metis find_Some_iff length_rev nth_mem set_rev)

lemma latest_schedule_in: "latest_schedule rs = Some r \<Longrightarrow> r \<in> set rs \<and> sched_valid (meta r)"
  unfolding latest_schedule_def by (drule find_rev_Some) simp

lemma carried_qualifying:
  assumes "n \<in> set (carried_plan_approvals raw q)"
  shows "key_complete (cq_key q) \<and> (\<exists>r. last_counting q (sort_key index (project_plan_history raw)) n r \<and> carry_qualifies q (meta r))"
  using assms carried_last [of q "sort_key index (project_plan_history raw)" n]
  by (fastforce simp: carried_plan_approvals_def Let_def split: if_splits option.splits)

section \<open>Facts on the streak\<close>

definition blocking_round :: "streak_query \<Rightarrow> posted list \<Rightarrow> int \<Rightarrow> bool" where
  "blocking_round q ordered n \<longleftrightarrow>
     (\<exists>review c. round_review (sq_primary q) ordered n = Some review
        \<and> counted_checkpoint q (history_boundary ordered) (round_checkpoints ordered n) review = Some c)"

definition streak_rounds :: "streak_query \<Rightarrow> posted list \<Rightarrow> int list \<Rightarrow> int set \<Rightarrow> bool" where
  "streak_rounds q ordered ns R \<longleftrightarrow>
     R \<subseteq> set ns \<and> (\<forall>m \<in> R. blocking_round q ordered m)
     \<and> (\<forall>m \<in> set ns. (\<exists>m' \<in> R. m' \<le> m) \<longrightarrow> m \<in> R \<or> round_review (sq_primary q) ordered m = None)"

lemma streak_rounds_empty: "streak_rounds q ordered ns {}"
  by (simp add: streak_rounds_def)

lemma streak_rounds_skip:
  "streak_rounds q ordered ns R \<Longrightarrow> round_review (sq_primary q) ordered n = None \<Longrightarrow> streak_rounds q ordered (n # ns) R"
  by (auto simp: streak_rounds_def)

lemma streak_rounds_insert:
  "streak_rounds q ordered ns R \<Longrightarrow> blocking_round q ordered n \<Longrightarrow> \<forall>m \<in> set ns. m < n
     \<Longrightarrow> streak_rounds q ordered (n # ns) (insert n R)"
  by (force simp: streak_rounds_def)

lemma streak_loop_rounds:
  assumes "sorted_wrt (>) ns" and "p \<le> s" and "streak_loop q ordered ns (s, p) = (s', p')"
  shows "p' \<le> s' \<and> (\<exists>R. streak_rounds q ordered ns R \<and> s' = s + card R)"
  using assms
proof (induction ns arbitrary: s p)
  case Nil
  then show ?case using streak_rounds_empty [of q ordered "[]"] by (intro conjI exI [of _ "{}"]) simp_all
next
  case (Cons n older)
  have stop: ?case if "(s', p') = (s, p)"
    using that Cons.prems(2) streak_rounds_empty [of q ordered "n # older"] by (intro conjI exI [of _ "{}"]) simp_all
  have below: "\<forall>m \<in> set older. m < n" and sorted: "sorted_wrt (>) older" using Cons.prems(1) by simp_all
  show ?case
  proof (cases "round_review (sq_primary q) ordered n")
    case None
    show ?thesis
    proof (cases "streak_loop q ordered (n # older) (s, p) = (s, p)")
      case True then show ?thesis using stop Cons.prems(3) by simp
    next
      case False
      then have "streak_loop q ordered older (s, p) = (s', p')"
        using Cons.prems(3) None by (simp add: Let_def split: if_splits)
      then show ?thesis using Cons.IH [OF sorted Cons.prems(2)] streak_rounds_skip [OF _ None] by blast
    qed
  next
    case (Some review)
    show ?thesis
    proof (cases "counted_checkpoint q (history_boundary ordered) (round_checkpoints ordered n) review")
      case None
      then show ?thesis using stop Cons.prems(3) Some by (simp add: Let_def)
    next
      case c: (Some c)
      define p2 where "p2 = (if sm_issue_digest (rm_sched (meta c)) = None \<and> p = s then Suc p else p)"
      have block: "blocking_round q ordered n" using Some c by (auto simp: blocking_round_def)
      have le: "p2 \<le> Suc s" using Cons.prems(2) by (simp add: p2_def)
      have one: "streak_rounds q ordered (n # older) {n}"
        using streak_rounds_insert [OF streak_rounds_empty block below] .
      show ?thesis
      proof (cases "has_reset q (history_boundary ordered) (round_checkpoints ordered n)")
        case True
        then have "(s', p') = (Suc s, p2)" using Cons.prems(3) Some c by (simp add: Let_def p2_def)
        then show ?thesis using one le by (intro conjI exI [of _ "{n}"]) simp_all
      next
        case False
        then have "streak_loop q ordered older (Suc s, p2) = (s', p')" using Cons.prems(3) Some c by (simp add: Let_def p2_def)
        then obtain R where R: "p' \<le> s'" "streak_rounds q ordered older R" "s' = Suc s + card R"
          using Cons.IH [OF sorted le] by blast
        have "finite R" "n \<notin> R" using R(2) below by (auto simp: streak_rounds_def intro: finite_subset)
        then show ?thesis using R streak_rounds_insert [OF R(2) block below]
          by (intro conjI exI [of _ "insert n R"]) simp_all
      qed
    qed
  qed
qed

text \<open>An edit of the issue text: no record has the digest of the new text.\<close>

definition fresh_digest :: "posted list \<Rightarrow> string \<Rightarrow> bool" where
  "fresh_digest rs d \<longleftrightarrow> (\<forall>r \<in> set rs. sm_issue_digest (rm_sched (meta r)) \<noteq> Some d)"

lemma counted_after_edit:
  assumes "fresh_digest cps d"
  shows "counted_checkpoint (q\<lparr>sq_issue := Some d\<rparr>) boundary cps review
     = (case counted_checkpoint q boundary cps review of
          None \<Rightarrow> None
        | Some c \<Rightarrow> if sm_issue_digest (rm_sched (meta c)) = None then Some c else None)"
proof -
  have u: "usable_primary_checkpoint (q\<lparr>sq_issue := Some d\<rparr>) boundary c = usable_primary_checkpoint q boundary c" for c
    by (simp add: usable_primary_checkpoint_def)
  show ?thesis
  proof (cases "find (\<lambda>c. index c < index review) (rev cps)")
    case None
    then show ?thesis by (simp add: counted_checkpoint_def)
  next
    case (Some c)
    then have "sm_issue_digest (rm_sched (meta c)) \<noteq> Some d" using assms find_rev_Some by (fastforce simp: fresh_digest_def)
    then show ?thesis using Some by (auto simp: counted_checkpoint_def u differs_def)
  qed
qed

lemma prefix_frozen:
  "p < s \<Longrightarrow> snd (streak_loop q ordered ns (s, p)) = p"
  by (induction ns arbitrary: s) (simp_all add: Let_def split: option.split)

lemma streak_after_edit:
  assumes "fresh_digest ordered d"
  shows "streak_loop (q\<lparr>sq_issue := Some d\<rparr>) ordered ns (s, s)
     = (snd (streak_loop q ordered ns (s, s)), snd (streak_loop q ordered ns (s, s)))"
proof (induction ns arbitrary: s)
  case (Cons n older)
  let ?cps = "round_checkpoints ordered n"
  have same: "usable_primary_checkpoint (q\<lparr>sq_issue := Some d\<rparr>) b c = usable_primary_checkpoint q b c"
    "has_reset (q\<lparr>sq_issue := Some d\<rparr>) b cs = has_reset q b cs" for b c cs
    by (simp_all add: usable_primary_checkpoint_def has_reset_def)
  have f: "fresh_digest ?cps d" using assms by (auto simp: fresh_digest_def round_checkpoints_def)
  show ?case
    by (auto simp: Let_def same counted_after_edit [OF f] Cons.IH prefix_frozen split: option.split)
qed simp

lemma foldl_max_ge: "(a::int) \<le> foldl max a xs \<and> (\<forall>x \<in> set xs. x \<le> foldl max a xs)"
proof (induction xs arbitrary: a)
  case (Cons x xs)
  have "max a x \<le> foldl max (max a x) xs" using Cons.IH [of "max a x"] by simp
  then show ?case using Cons.IH [of "max a x"] by simp
qed simp

lemma history_boundary_ge:
  assumes "r \<in> set ordered"
    and "sm_status (rm_sched (meta r)) = ''invalid'' \<or> rm_role (meta r) = ''summary'' \<and> rm_phase (meta r) = ''plan-phase-advance''"
  shows "index r \<le> history_boundary ordered"
  using foldl_max_ge [of "-1"] assms by (auto simp: history_boundary_def)

lemma blocking_round_elim:
  assumes "blocking_round q (sort_key index rs) n"
  shows "\<exists>review \<in> set rs. \<exists>c \<in> set rs.
      rm_round (meta review) = n \<and> rm_role (meta review) = ''reviewer'' \<and> rm_agent (meta review) = sq_primary q
      \<and> rm_state (meta review) = Some ''blocking''
      \<and> is_prelaunch c \<and> rm_round (meta c) = n \<and> index c < index review
      \<and> sched_valid (meta c) \<and> sm_phase (rm_sched (meta c)) = Some ''primary''
      \<and> (\<forall>i. sq_opening q = Some i \<longrightarrow> index review < i)
      \<and> \<not> differs (sm_issue_digest (rm_sched (meta c))) (sq_issue q)
      \<and> \<not> differs (sm_mode (rm_sched (meta c))) (sq_mode q)
      \<and> (\<forall>r \<in> set rs. sm_status (rm_sched (meta r)) = ''invalid''
           \<or> rm_role (meta r) = ''summary'' \<and> rm_phase (meta r) = ''plan-phase-advance'' \<longrightarrow> index r < index c)"
proof -
  obtain review c where r: "round_review (sq_primary q) (sort_key index rs) n = Some review"
    and c: "counted_checkpoint q (history_boundary (sort_key index rs)) (round_checkpoints (sort_key index rs) n) review = Some c"
    using assms by (auto simp: blocking_round_def)
  have review: "review \<in> set rs" "is_primary_review (sq_primary q) review" "rm_round (meta review) = n"
    using find_rev_Some [OF r [unfolded round_review_def]] by simp_all
  have f: "find (\<lambda>x. index x < index review) (rev (round_checkpoints (sort_key index rs) n)) = Some c"
    and u: "usable_primary_checkpoint q (history_boundary (sort_key index rs)) c" and b: "rm_state (meta review) = Some ''blocking''"
    and d: "\<not> differs (sm_issue_digest (rm_sched (meta c))) (sq_issue q)" "\<not> differs (sm_mode (rm_sched (meta c))) (sq_mode q)"
    and o': "\<forall>i. sq_opening q = Some i \<longrightarrow> index review < i"
    using c by (auto simp: counted_checkpoint_def split: if_splits option.splits)
  have cp: "c \<in> set (round_checkpoints (sort_key index rs) n)" "index c < index review"
    using find_rev_Some [OF f] by simp_all
  then have c': "c \<in> set rs" "is_prelaunch c" "rm_round (meta c) = n" by (auto simp: round_checkpoints_def)
  have u': "index c > history_boundary (sort_key index rs)" "sched_valid (meta c)" "sm_phase (rm_sched (meta c)) = Some ''primary''"
    using u by (simp_all add: usable_primary_checkpoint_def)
  have after: "\<forall>r \<in> set rs. sm_status (rm_sched (meta r)) = ''invalid''
           \<or> rm_role (meta r) = ''summary'' \<and> rm_phase (meta r) = ''plan-phase-advance'' \<longrightarrow> index r < index c"
    using history_boundary_ge [of _ "sort_key index rs"] u'(1) by (meson le_less_trans set_sort [THEN equalityD2] subsetD)
  have rev: "rm_role (meta review) = ''reviewer''" "rm_agent (meta review) = sq_primary q"
    using review(2) by (simp_all add: is_primary_review_def)
  show ?thesis
    by (intro bexI [OF _ review(1)] bexI [OF _ c'(1)] conjI) (rule review(3) rev b c' cp(2) u' o' d after)+
qed

section \<open>Properties\<close>

text \<open>When the secondary panel of a pull request is open.  Exactly when some record without a review
  scope opens it: a valid record with the operator's full-board latch, or a valid secondary audit that lists
  the primary as approved and comes after the primary's own approving review of the same head.  The opening
  that is named is such a record with its source, and no later comment closes, moves or rewrites it.\<close>

theorem panel_opening_iff:
  fixes primary :: "string option" and required :: "string list" and rs :: "posted list" and later :: "posted list"
  assumes "distinct (map index (rs @ later))" and "\<forall>x \<in> set rs. \<forall>y \<in> set later. index x < index y"
  defines "e \<equiv> derive_pr_panel_evidence rs primary required"
    and "e' \<equiv> derive_pr_panel_evidence (rs @ later) primary required"
  shows "(pe_opened e \<longleftrightarrow>
      (\<exists>r \<in> set rs. \<not> scope_present (Decoded (meta r))
         \<and> (operator_opening (meta r)
            \<or> lists_primary_in_audit primary (meta r)
              \<and> (\<exists>a \<in> set rs. index a < index r \<and> \<not> scope_present (Decoded (meta a)) \<and> rm_role (meta a) = ''reviewer''
                   \<and> Some (rm_agent (meta a)) = primary \<and> rm_state (meta a) = Some ''approved''
                   \<and> rm_subject (meta a) = rm_subject (meta r) \<and> rm_subject (meta r) \<noteq> []))))
    \<and> (\<forall>i. pe_index e = Some i \<longrightarrow>
         (\<exists>r \<in> set rs. \<exists>src. index r = i \<and> pe_source e = Some src \<and> opens_panel rs primary r src))
    \<and> (pe_opened e \<longrightarrow> pe_index e' = pe_index e \<and> pe_source e' = pe_source e \<and> pe_artifacts e' = pe_artifacts e)"
proof -
  have d: "distinct (map index rs)" using assms(1) by simp
  have opens: "(\<exists>src. opens_panel rs primary r src) \<longleftrightarrow> \<not> scope_present (Decoded (meta r))
         \<and> (operator_opening (meta r)
            \<or> lists_primary_in_audit primary (meta r)
              \<and> (\<exists>a \<in> set rs. index a < index r \<and> \<not> scope_present (Decoded (meta a)) \<and> rm_role (meta a) = ''reviewer''
                   \<and> Some (rm_agent (meta a)) = primary \<and> rm_state (meta a) = Some ''approved''
                   \<and> rm_subject (meta a) = rm_subject (meta r) \<and> rm_subject (meta r) \<noteq> []))" for r
    by (cases "operator_opening (meta r)")
      (simp add: opens_panel_def, auto simp: opens_panel_def pr_approved_subject_def primary_approval_def)
  have "pe_opened e \<longleftrightarrow> (\<exists>r \<in> set rs. \<exists>src. opens_panel rs primary r src)" unfolding e_def by (rule pr_opened_iff [OF d])
  moreover have "\<forall>i. pe_index e = Some i \<longrightarrow>
         (\<exists>r \<in> set rs. \<exists>src. index r = i \<and> pe_source e = Some src \<and> opens_panel rs primary r src)"
    using pr_evidence_opened [of rs primary required _, OF _ d] unfolding e_def by blast
  moreover have "pe_opened e \<longrightarrow> pe_index e' = pe_index e \<and> pe_source e' = pe_source e \<and> pe_artifacts e' = pe_artifacts e"
    unfolding e_def e'_def pe_opened_def using pr_evidence_grows [OF _ assms(2)] by blast
  ultimately show ?thesis unfolding opens by blast
qed


definition ex_audit :: posted where
  "ex_audit = (let m = ex_meta ''loop'' ''none'' in
     \<lparr>index = 2, meta = m\<lparr>rm_role := ''summary'', rm_state := None,
        rm_sched := no_sched\<lparr>sm_status := ''valid'', sm_phase := Some ''secondary-audit'', sm_approved := [''ann'']\<rparr>\<rparr>,
      body = []\<rparr>)"

theorem panel_opening_iff_witness:
  "pe_opened (derive_pr_panel_evidence [ex_posted 1 ''ann'' ''approved'', ex_audit] (Some ''ann'') [''ann'', ''bob''])
   \<and> \<not> pe_opened (derive_pr_panel_evidence [ex_audit] (Some ''ann'') [''ann'', ''bob''])"
proof -
  let ?a = "ex_posted 1 ''ann'' ''approved''"
  have facts: "\<not> scope_present (Decoded (meta ex_audit))" "\<not> operator_opening (meta ex_audit)"
    "lists_primary_in_audit (Some ''ann'') (meta ex_audit)" "rm_subject (meta ex_audit) = ''h1''" "rm_role (meta ex_audit) = ''summary''"
    "index ex_audit = 2"
    by (simp_all add: ex_audit_def ex_meta_def no_sched_def operator_opening_def lists_primary_in_audit_def
        sched_valid_def forced_full_def Let_def)
  have app: "\<not> scope_present (Decoded (meta ?a))" "rm_role (meta ?a) = ''reviewer''" "Some (rm_agent (meta ?a)) = Some ''ann''"
    "rm_state (meta ?a) = Some ''approved''" "rm_subject (meta ?a) = ''h1''" "index ?a = 1"
    by (simp_all add: ex_posted_def ex_meta_def)
  have "pe_opened (derive_pr_panel_evidence [?a, ex_audit] (Some ''ann'') [''ann'', ''bob''])"
    using panel_opening_iff [of "[?a, ex_audit]" "[]" "Some ''ann''" "[''ann'', ''bob'']"] facts app by simp
  moreover have "\<not> pe_opened (derive_pr_panel_evidence [ex_audit] (Some ''ann'') [''ann'', ''bob''])"
    using panel_opening_iff [of "[ex_audit]" "[]" "Some ''ann''" "[''ann'', ''bob'']"] facts by simp
  ultimately show ?thesis ..
qed

lemma approved_names_primary:
  assumes "(n, r) \<in> set (approved_reviews_for_head rs q head)"
  shows "r \<in> set rs \<and> rm_agent (meta r) = n \<and> rm_role (meta r) = ''reviewer'' \<and> rm_state (meta r) = Some ''approved''
    \<and> \<not> scope_present (Decoded (meta r)) \<and> rm_subject (meta r) \<noteq> []"
proof -
  obtain h where h: "head = Some h" "h \<noteq> []" using assms by (auto simp: approved_reviews_for_head_def split: option.splits if_splits)
  then have c: "counts_as_approval q r" and f: "find (\<lambda>x. reviews_head q h x \<and> rm_agent (meta x) = n) (rev rs) = Some r"
    using assms approved_iff [OF h(2), of n r rs q] by simp_all
  from f have "reviews_head q h r" "rm_agent (meta r) = n" "r \<in> set rs"
    by (auto simp: find_Some_iff) (metis nth_mem length_rev set_rev)
  then show ?thesis using c h by (simp add: reviews_head_def counts_as_approval_def is_complete_code_review_def)
qed




definition ex_plan_review :: posted where
  "ex_plan_review =
     \<lparr>index = 2, meta = (ex_meta ''ann'' ''approved'')\<lparr>rm_flow := ''plan'', rm_subject := ''s'', rm_plan_key := key_as_dict (ex_key ''s'')\<rparr>,
      body = []\<rparr>"

definition ex_plan_schedule :: posted where
  "ex_plan_schedule =
     \<lparr>index = 1, meta = (ex_meta ''loop'' ''none'')\<lparr>rm_flow := ''plan'', rm_role := ''summary'', rm_phase := ''scheduler-prelaunch'',
        rm_subject := ''s'', rm_state := None, rm_plan_key := key_as_dict (ex_key ''s''),
        rm_sched := no_sched\<lparr>sm_status := ''valid'', sm_phase := Some ''primary'', sm_contract := PDict []\<rparr>\<rparr>,
      body = []\<rparr>"

definition ex_carry :: carry_query where
  "ex_carry =
     \<lparr>cq_key = ex_key ''s'', cq_required = [''ann''], cq_surfaced = [],
      cq_evidence = \<lparr>pe_index = None, pe_source = None, pe_artifacts = [], pe_premature = [], pe_prepanel_latch = False, pe_post_latch = False\<rparr>,
      cq_primary = Some ''ann'', cq_restored = Map.empty, cq_parent = None\<rparr>"


lemma ex_plan_facts:
  "record_key ex_plan_review = Some (ex_key ''s'')" "record_key ex_plan_schedule = Some (ex_key ''s'')"
  "key_complete (ex_key ''s'')"
proof -
  have w: "wf_key (ex_key ''s'')"
    by (simp add: ex_key_def wf_key_def components_def wf_component_def strip_def lstrip_def rstrip_def is_space_def)
  then show "record_key ex_plan_review = Some (ex_key ''s'')" "record_key ex_plan_schedule = Some (ex_key ''s'')"
    using key_from_mapping_as_dict [OF w]
    by (simp_all add: record_key_def ex_plan_review_def ex_plan_schedule_def plan_key_from_payload_def key_as_dict_def)
  show "key_complete (ex_key ''s'')"
    by (simp add: key_complete_def missing_components_Nil components_def ex_key_def PLAN_KEY_GENERATION_def)
qed


text \<open>What the step back of a blocked plan counts.  The streak is the number of distinct rounds in which the
  last review of the primary blocks under a valid checkpoint of the primary phase, posted before the review in
  the same round, for the same issue and plan form, before the panel opened and after every invalid schedule
  and every completed phase.  It has no gaps: a round of the history from the oldest one counted on that has a
  review of the primary is counted too.  The part that rests on records without an issue digest is never
  longer than the streak.\<close>

theorem primary_streak_counts_rounds:
  fixes q :: streak_query and records :: "posted list"
  assumes "plan_primary_blocking_streak records q = (n, unbound)"
  shows "unbound \<le> n \<and> (\<exists>R. finite R \<and> card R = n
    \<and> (\<forall>m \<in> R. \<exists>review \<in> set records. \<exists>c \<in> set records.
          rm_round (meta review) = m \<and> rm_role (meta review) = ''reviewer'' \<and> rm_agent (meta review) = sq_primary q
          \<and> rm_state (meta review) = Some ''blocking''
          \<and> is_prelaunch c \<and> rm_round (meta c) = m \<and> index c < index review
          \<and> sched_valid (meta c) \<and> sm_phase (rm_sched (meta c)) = Some ''primary''
          \<and> (\<forall>i. sq_opening q = Some i \<longrightarrow> index review < i)
          \<and> \<not> differs (sm_issue_digest (rm_sched (meta c))) (sq_issue q)
          \<and> \<not> differs (sm_mode (rm_sched (meta c))) (sq_mode q)
          \<and> (\<forall>r \<in> set records. sm_status (rm_sched (meta r)) = ''invalid''
               \<or> rm_role (meta r) = ''summary'' \<and> rm_phase (meta r) = ''plan-phase-advance'' \<longrightarrow> index r < index c))
    \<and> (\<forall>r \<in> set records. is_primary_review (sq_primary q) r \<and> (\<exists>m \<in> R. m \<le> rm_round (meta r)) \<longrightarrow> rm_round (meta r) \<in> R))"
proof -
  let ?o = "sort_key index records"
  define ns where "ns = rev (sorted_set (map (rm_round \<circ> meta) (filter (\<lambda>r. is_prelaunch r \<or> is_primary_review (sq_primary q) r) ?o)))"
  have "streak_loop q ?o ns (0, 0) = (n, unbound)"
    using assms unfolding plan_primary_blocking_streak_def ns_def Let_def by simp
  moreover have "sorted_wrt (>) ns" unfolding ns_def by (simp add: sorted_wrt_rev strict_sorted_iff)
  ultimately obtain R where le: "unbound \<le> n" and R: "streak_rounds q ?o ns R" "n = card R"
    using streak_loop_rounds [of ns 0 0 q ?o n unbound] by auto
  have gaps: "\<forall>m \<in> set ns. (\<exists>m' \<in> R. m' \<le> m) \<longrightarrow> m \<in> R \<or> round_review (sq_primary q) ?o m = None"
    using R(1) by (simp add: streak_rounds_def)
  have "finite R" using R(1) by (auto simp: streak_rounds_def intro: finite_subset)
  moreover have "rm_round (meta r) \<in> R"
    if "r \<in> set records" "is_primary_review (sq_primary q) r" "m \<in> R" "m \<le> rm_round (meta r)" for r m
  proof -
    have n: "rm_round (meta r) \<in> set ns" using that unfolding ns_def by auto
    have b: "\<exists>m' \<in> R. m' \<le> rm_round (meta r)" using that(3,4) by (rule bexI [rotated])
    have "round_review (sq_primary q) ?o (rm_round (meta r)) \<noteq> None"
      using that unfolding round_review_def by (auto simp: find_None_iff)
    moreover have "rm_round (meta r) \<in> R \<or> round_review (sq_primary q) ?o (rm_round (meta r)) = None"
      by (rule mp [OF bspec [OF gaps n] b])
    ultimately show ?thesis by (elim disjE) (assumption, erule notE)
  qed
  moreover have "blocking_round q ?o m" if "m \<in> R" for m using R(1) that by (simp add: streak_rounds_def)
  ultimately show ?thesis using le R(2)
    by (intro conjI exI [of _ R] ballI impI blocking_round_elim) (assumption | rule R(2) [symmetric] | (elim conjE bexE, blast))+
qed

definition ex_streak :: "posted list" where
  "ex_streak =
     [\<lparr>index = 1, meta = (ex_meta ''loop'' ''none'')\<lparr>rm_flow := ''plan'', rm_role := ''summary'', rm_phase := ''scheduler-prelaunch'',
         rm_state := None, rm_sched := no_sched\<lparr>sm_status := ''valid'', sm_phase := Some ''primary''\<rparr>\<rparr>, body = []\<rparr>,
      \<lparr>index = 2, meta = (ex_meta ''ann'' ''blocking'')\<lparr>rm_flow := ''plan''\<rparr>, body = []\<rparr>]"

theorem primary_streak_counts_rounds_witness:
  "\<exists>n unbound. plan_primary_blocking_streak ex_streak \<lparr>sq_primary = ''ann'', sq_opening = None, sq_issue = None, sq_mode = None\<rparr>
      = (n, unbound) \<and> unbound \<le> n \<and> n = 1"
proof -
  let ?q = "\<lparr>sq_primary = ''ann'', sq_opening = None, sq_issue = None, sq_mode = None\<rparr>"
  have k: "sort_key index ex_streak = ex_streak" by (simp add: ex_streak_def)
  have "plan_primary_blocking_streak ex_streak ?q = (1, 1)"
    unfolding plan_primary_blocking_streak_def k Let_def
    by (simp add: ex_streak_def ex_meta_def no_sched_def is_prelaunch_def is_primary_review_def round_review_def
        round_checkpoints_def counted_checkpoint_def usable_primary_checkpoint_def history_boundary_def sched_valid_def
        has_reset_def differs_def sorted_set_def)
  then show ?thesis using primary_streak_counts_rounds [of ex_streak ?q 1 1] by auto
qed

text \<open>What an edit of the issue does to the stop.  If no record has the digest of the edited text, the streak
  after the edit is exactly the undigested part of the streak before it, so the hint that an edit cannot clear
  the stop is right in both directions: it is given exactly when the streak that is left still reaches the
  threshold.\<close>

theorem issue_edit_leaves_prefix:
  fixes q :: streak_query and records :: "posted list"
  assumes "\<forall>r \<in> set records. sm_issue_digest (rm_sched (meta r)) \<noteq> Some d" and "threshold > 0"
  defines "before \<equiv> plan_primary_blocking_streak records q"
    and "after \<equiv> plan_primary_blocking_streak records (q\<lparr>sq_issue := Some d\<rparr>)"
  shows "after = (snd before, snd before) \<and> edit_cannot_clear before threshold = (int (fst after) \<ge> threshold)"
proof -
  have "fresh_digest (sort_key index records) d" using assms(1) by (simp add: fresh_digest_def)
  then have "after = (snd before, snd before)"
    unfolding before_def after_def plan_primary_blocking_streak_def Let_def using streak_after_edit [where s = 0] by simp
  then show ?thesis using assms(2) by (simp add: edit_cannot_clear_def)
qed

theorem issue_edit_leaves_prefix_witness:
  "\<exists>n p. plan_primary_blocking_streak ex_streak \<lparr>sq_primary = ''ann'', sq_opening = None, sq_issue = None, sq_mode = None\<rparr> = (n, p)
     \<and> plan_primary_blocking_streak ex_streak \<lparr>sq_primary = ''ann'', sq_opening = None, sq_issue = Some ''d'', sq_mode = None\<rparr> = (p, p)"
proof -
  let ?q = "\<lparr>sq_primary = ''ann'', sq_opening = None, sq_issue = None, sq_mode = None\<rparr>"
  have f: "\<forall>r \<in> set ex_streak. sm_issue_digest (rm_sched (meta r)) \<noteq> Some ''d''"
    by (simp add: ex_streak_def ex_meta_def no_sched_def)
  have "plan_primary_blocking_streak ex_streak (?q\<lparr>sq_issue := Some ''d''\<rparr>)
      = (snd (plan_primary_blocking_streak ex_streak ?q), snd (plan_primary_blocking_streak ex_streak ?q))"
    by (rule issue_edit_leaves_prefix [OF f, of 1, THEN conjunct1]) simp
  then show ?thesis by (cases "plan_primary_blocking_streak ex_streak ?q") simp
qed

end
