(* ===== verification/Scheduling_Step.thy ===== *)
theory Scheduling_Step
  imports Ledger_Scheduling Scheduler_Records Panel_Evidence
begin

text \<open>
  One scheduling step of the pull-request loop (\<open>pr_loop.py\<close>): what Git shows of the step between two heads
  (\<open>_observe_pr_transition\<close> and \<open>_reviewer_history_is_reconstructible\<close> of \<open>pr_loop_support.py\<close>), how the loop
  classifies the transition, the snapshot it decides on, the full-board latch and what it records.

  The output of Git is a parameter; a run that raises is \<open>None\<close>.
\<close>

section \<open>What Git shows\<close>

record git_out =
  rc :: int
  out :: string

definition is_line_break :: "char \<Rightarrow> bool" where
  "is_line_break c \<longleftrightarrow> code c \<in> {10, 11, 12, 13, 28, 29, 30, 133}"

text \<open>\<open>str.splitlines()\<close>\<close>

function splitlines_from :: "string \<Rightarrow> string \<Rightarrow> string list" where
  "splitlines_from acc [] = (if acc = [] then [] else [rev acc])"
| "splitlines_from acc (c # cs) =
     (if is_line_break c
      then rev acc # splitlines_from [] (if code c = 13 \<and> cs \<noteq> [] \<and> code (hd cs) = 10 then tl cs else cs)
      else splitlines_from (c # acc) cs)"
  by pat_completeness auto

termination splitlines_from
  by (relation "measure (length \<circ> snd)") auto

definition splitlines :: "string \<Rightarrow> string list" where
  "splitlines s = splitlines_from [] s"

fun find_sub :: "string \<Rightarrow> string \<Rightarrow> nat option" where
  "find_sub p [] = (if p = [] then Some 0 else None)"
| "find_sub p (c # cs) = (if starts_with p (c # cs) then Some 0 else map_option Suc (find_sub p cs))"

definition renames :: "string \<Rightarrow> bool" where
  "renames st \<longleftrightarrow> st \<noteq> [] \<and> hd st \<in> {CHR ''R'', CHR ''r'', CHR ''C'', CHR ''c''}"

definition file_change :: "string \<Rightarrow> string \<Rightarrow> git_change" where
  "file_change st p = \<lparr>path = p, change_status = st, binary = False, mode_changed = False\<rparr>"

text \<open>The loop over the NUL-separated tokens: the changes, or the reason that makes the transition broad.\<close>

fun parse_changes :: "string list \<Rightarrow> string + git_change list" where
  "parse_changes [] = Inr []"
| "parse_changes (st # rest) =
     (if st = [] then parse_changes rest
      else if renames st then
        (case rest of
           old # new # later \<Rightarrow> bindE (parse_changes later) (\<lambda>cs. Inr (file_change st old # file_change st new # cs))
         | _ \<Rightarrow> Inl ''diff contained an incomplete rename/copy record'')
      else
        (case rest of
           p # later \<Rightarrow> bindE (parse_changes later) (\<lambda>cs. Inr (file_change st p # cs))
         | [] \<Rightarrow> Inl ''diff contained an incomplete name-status record''))"

definition BINARY_MARK :: string where
  "BINARY_MARK = ''-'' @ [CHR 0x09] @ ''-'' @ [CHR 0x09]"

definition UNSAFE_TOKENS :: "string list" where
  "UNSAFE_TOKENS = [''mode change'', ''create mode'', ''delete mode'', ''submodule'', ''rename'', ''copy'']"

definition CREATE_MARKER :: string where
  "CREATE_MARKER = ''create mode 100644 ''"

definition added_paths :: "git_change list \<Rightarrow> string set" where
  "added_paths changes = path ` {c \<in> set changes. change_status c \<noteq> [] \<and> hd (change_status c) \<in> {CHR ''A'', CHR ''a''}}"

definition unsafe_line :: "string set \<Rightarrow> string \<Rightarrow> bool" where
  "unsafe_line new_paths line =
     (let lowered = py_lower line;
          created = (case find_sub CREATE_MARKER lowered of
                       None \<Rightarrow> False
                     | Some k \<Rightarrow> strip (drop (k + length CREATE_MARKER) line) \<in> new_paths)
      in \<not> created \<and> (\<exists>token \<in> set UNSAFE_TOKENS. contains token lowered))"

record git_view =
  ancestry :: "git_out option"
  name_status :: "git_out option"
  numstat :: "git_out option"
  diff_summary :: "git_out option"

definition observation_failed :: classification where
  "observation_failed = broad_for ''repository history or diff observation failed'' []"

text \<open>One Git command: what to do when it raises, when it fails and with its output.\<close>

definition on_git :: "git_out option \<Rightarrow> string \<Rightarrow> (string \<Rightarrow> sched_error + classification) \<Rightarrow> sched_error + classification" where
  "on_git run failed next =
     (case run of None \<Rightarrow> Inr observation_failed
      | Some r \<Rightarrow> if rc r \<noteq> 0 then Inr (broad_for failed []) else next (out r))"

definition observe_pr_transition ::
  "git_view \<Rightarrow> string option \<Rightarrow> string option \<Rightarrow> string list \<Rightarrow> pyval \<Rightarrow> obligation list \<Rightarrow> sched_error + classification" where
  "observe_pr_transition git prev cur scopes rules obs =
     (if missing_sha prev \<or> missing_sha cur \<or> prev = cur then Inr (broad_for ''missing or unchanged review SHA'' [])
      else
        on_git (ancestry git) ''candidate history is not an available ancestor'' (\<lambda>_.
        on_git (name_status git) ''complete exact Git diff was unavailable'' (\<lambda>raw.
        if raw = [] then Inr (broad_for ''transition contained no observable diff'' [])
        else case parse_changes (split_on (CHR 0x00) raw) of
               Inl why \<Rightarrow> Inr (broad_for why [])
             | Inr changes \<Rightarrow>
                 on_git (numstat git) ''binary/text diff classification was unavailable'' (\<lambda>stats.
                 on_git (diff_summary git) ''diff mode-change classification was unavailable'' (\<lambda>lines.
                 if (\<exists>l \<in> set (splitlines stats). starts_with BINARY_MARK l)
                    \<or> (\<exists>l \<in> set (splitlines lines). unsafe_line (added_paths changes) l)
                 then Inr (broad_for ''diff contained binary or mode changes'' [])
                 else classify_transition prev cur changes (Some scopes) rules (Some obs) True True True)))))"

text \<open>A reviewer's own span: the two Git runs for its last reviewed head.\<close>

definition history_reconstructible :: "(string \<Rightarrow> git_out option \<times> git_out option) \<Rightarrow> posted option \<Rightarrow> string \<Rightarrow> bool" where
  "history_reconstructible spans record cur =
     (case record of
        None \<Rightarrow> False
      | Some r \<Rightarrow>
          let last_sha = rm_subject (meta r) in
          if last_sha = [] \<or> last_sha = cur then last_sha \<noteq> []
          else (case spans last_sha of
                  (Some a, Some d) \<Rightarrow> rc a = 0 \<and> rc d = 0
                | _ \<Rightarrow> False))"

section \<open>The transition of a round\<close>

record round_view =
  rv_external :: bool
  rv_recovery :: bool
  rv_previous :: "string option"
  rv_current :: string
  rv_git :: git_view
  rv_spans :: "string \<Rightarrow> git_out option \<times> git_out option"
  rv_latest :: "string \<rightharpoonup> posted"

definition first_classification :: "capabilities \<Rightarrow> contract \<Rightarrow> obligation list \<Rightarrow> round_view \<Rightarrow> sched_error + classification" where
  "first_classification caps c obs v =
     (let scopes = sorted_set (concat (map (\<lambda>ob. case scope ob of None \<Rightarrow> [] | Some ps \<Rightarrow> ps) obs)) in
      if rv_external v then Inr (broad_for ''external/unrecorded head advance requires full board'' [])
      else if rv_recovery v then
        Inr (broad_for (if requires_primary caps then ''scheduler metadata is missing or invalid''
                        else ''scheduler metadata is missing or invalid; full board required'') [])
      else case rv_previous v of
             None \<Rightarrow> Inr (broad_for ''initial candidate requires the full board'' [])
           | Some prev \<Rightarrow>
               if prev = rv_current v then
                 Inr (if \<exists>ob \<in> set obs. scope ob = None
                      then broad_for ''the active obligation ledger is not reconstructible'' []
                      else \<lparr>kind = ''narrow'', reason = ''same exact candidate head; recover missing reviewer work'', changed_paths = []\<rparr>)
               else observe_pr_transition (rv_git v) (Some prev) (Some (rv_current v)) scopes (PTuple (map PStr (broad_rules c))) obs)"

definition lost_histories :: "capabilities \<Rightarrow> contract \<Rightarrow> round_view \<Rightarrow> string list" where
  "lost_histories caps c v =
     filter (\<lambda>n. \<not> (phase_aware caps \<and> rv_latest v n = None)
               \<and> \<not> history_reconstructible (rv_spans v) (rv_latest v n) (rv_current v)) (required_reviewers c)"

definition round_classification :: "capabilities \<Rightarrow> contract \<Rightarrow> obligation list \<Rightarrow> round_view \<Rightarrow> sched_error + classification" where
  "round_classification caps c obs v =
     bindE (first_classification caps c obs v) (\<lambda>cls.
     Inr (if narrow cls \<and> rv_previous v \<noteq> Some (rv_current v) \<and> lost_histories caps c v \<noteq> []
          then broad_for ''a returning reviewer's history could not be reconstructed'' (sorted_set (lost_histories caps c v))
          else cls))"

section \<open>The step\<close>

text \<open>What the loop has at hand when it schedules a round.  The ledger is the view after board changes, the
  automatic reasons and the latch are those after the checks of a resumed run.\<close>

record round_request =
  rq_contract :: contract
  rq_items :: "item list"
  rq_board :: "string list"
  rq_view :: round_view
  rq_panel :: panel_evidence_record
  rq_automatic :: "string list"
  rq_latch :: bool
  rq_operator :: bool
  rq_checkpoint :: "string option"
  rq_carried :: "string list"
  rq_approvals :: "string list"
  rq_unavailable :: "string list"
  rq_sweep :: bool

record round_result =
  rr_snapshot :: snapshot
  rr_classification :: classification
  rr_decision :: decision
  rr_latch :: bool

definition LATCH_NOTE :: string where
  "LATCH_NOTE =
     ''an unattributed or automatic force-full latch recorded before any qualified panel opening was not honored; ''
     @ ''rerun with --pr-review-force-full to restore the complete board''"

definition prepanel_notes :: "panel_evidence_record \<Rightarrow> string list \<Rightarrow> bool \<Rightarrow> string list" where
  "prepanel_notes e automatic operator =
     automatic
     @ (if pe_prepanel_latch e \<and> \<not> operator then [LATCH_NOTE] else [])
     @ (if pe_artifacts e \<noteq> [] \<and> \<not> operator
        then [''unqualified pre-approval panel history was ignored: '' @ join '', '' (take 6 (pe_artifacts e))
              @ (if length (pe_artifacts e) > 6 then '' ...'' else [])]
        else [])"

text \<open>The latch after the recorded and the automatic reasons, the notes and what the snapshot asks for.\<close>

definition full_board_request :: "capabilities \<Rightarrow> round_request \<Rightarrow> bool \<times> string list \<times> bool" where
  "full_board_request caps rq =
     (let e = rq_panel rq in
      if requires_primary caps then
        if pe_opened e then
          let latch = rq_latch rq \<or> pe_post_latch e \<or> rq_automatic rq \<noteq> [] in (latch, rq_automatic rq, latch)
        else (rq_latch rq, prepanel_notes e (rq_automatic rq) (rq_operator rq), rq_automatic rq \<noteq> [])
      else (rq_latch rq, [], rq_latch rq \<or> rq_operator rq \<or> rv_recovery (rq_view rq)))"

definition round_snapshot :: "capabilities \<Rightarrow> round_request \<Rightarrow> snapshot" where
  "round_snapshot caps rq =
     (let (latch, notes, force) = full_board_request caps rq in
      \<lparr>previous_sha = rv_previous (rq_view rq), current_sha = Some (rv_current (rq_view rq)),
       snap_contract = rq_contract rq, obligations = scheduler_obligations (rq_items rq) (rq_board rq) PR_STATUSES,
       force_full = force, snap_phase = rq_checkpoint rq, operator_force_full = rq_operator rq,
       panel_evidence = (requires_primary caps \<and> pe_opened (rq_panel rq)), fallback_reasons = notes,
       carried_obligations = rq_carried rq\<rparr>)"

definition scheduling_step :: "round_request \<Rightarrow> sched_error + round_result" where
  "scheduling_step rq =
     bindE (policy_capabilities (policy (rq_contract rq))) (\<lambda>caps.
     let obs = scheduler_obligations (rq_items rq) (rq_board rq) PR_STATUSES; v = rq_view rq in
     bindE (round_classification caps (rq_contract rq) obs v) (\<lambda>cls.
     let sweep = (rq_sweep rq \<or> rv_previous v \<noteq> None \<and> obs = [] \<or> rv_external v);
         s = round_snapshot caps rq;
         latch = fst (full_board_request caps rq)
     in bindE (select_reviewers s cls (rq_approvals rq) (rq_unavailable rq) sweep (rq_checkpoint rq)) (\<lambda>d.
     Inr \<lparr>rr_snapshot = s, rr_classification = cls, rr_decision = d,
          rr_latch = (latch \<or> requires_primary caps \<and> pe_opened (rq_panel rq)
                        \<and> decision_phase d = ''full-board'' \<and> \<not> rq_operator rq)\<rparr>)))"

section \<open>Facts\<close>

lemma on_git_narrow:
  "on_git run failed f = Inr cls \<Longrightarrow> narrow cls \<Longrightarrow> \<exists>o'. f o' = Inr cls"
  by (auto simp: on_git_def observation_failed_def broad_for_def narrow_def split: option.splits if_splits)

lemma observed_narrow:
  assumes "observe_pr_transition git prev cur scopes rules obs = Inr cls" and "narrow cls"
  shows "\<exists>changes. classify_transition prev cur changes (Some scopes) rules (Some obs) True True True = Inr cls"
proof -
  obtain raw where "(if raw = [] then Inr (broad_for ''transition contained no observable diff'' [])
        else case parse_changes (split_on (CHR 0x00) raw) of
               Inl why \<Rightarrow> Inr (broad_for why [])
             | Inr changes \<Rightarrow>
                 on_git (numstat git) ''binary/text diff classification was unavailable'' (\<lambda>stats.
                 on_git (diff_summary git) ''diff mode-change classification was unavailable'' (\<lambda>lines.
                 if (\<exists>l \<in> set (splitlines stats). starts_with BINARY_MARK l)
                    \<or> (\<exists>l \<in> set (splitlines lines). unsafe_line (added_paths changes) l)
                 then Inr (broad_for ''diff contained binary or mode changes'' [])
                 else classify_transition prev cur changes (Some scopes) rules (Some obs) True True True))) = Inr cls"
    using assms by (auto simp: observe_pr_transition_def split: if_splits dest!: on_git_narrow)
  then show ?thesis
    using assms(2) by (auto split: if_splits sum.splits dest!: on_git_narrow)
qed

lemma unscoped_ledger:
  "ob \<in> set obs \<Longrightarrow> scope ob = None \<Longrightarrow> ledger_scopes obs \<noteq> Inr ps"
  by (induction obs arbitrary: ps) (auto simp: ob_reconstructible_def bindE_Inr_iff split: sum.splits)

lemma unscoped_not_narrow:
  assumes "classify_transition prev cur changes (Some scopes) rules (Some obs) a c h = Inr cls"
    and "ob \<in> set (active_obligations obs)" and "scope ob = None"
  shows "\<not> narrow cls"
proof -
  have "normalized_scopes (Some scopes) (Some obs) \<noteq> Inr ps" for ps
    using unscoped_ledger [OF assms(2,3)] by (auto simp: normalized_scopes_def bindE_Inr_iff split: sum.splits)
  then show ?thesis using assms(1)
    by (cases "normalized_scopes (Some scopes) (Some obs)") (auto simp: classify_transition_def split: if_splits)
qed

lemma unscoped_round_not_narrow:
  assumes "round_classification caps c obs v = Inr cls" and "ob \<in> set (active_obligations obs)" and "scope ob = None"
  shows "\<not> narrow cls"
proof -
  obtain first where f: "first_classification caps c obs v = Inr first" and cls: "narrow cls \<Longrightarrow> cls = first"
    using assms(1) by (auto simp: round_classification_def bindE_Inr_iff split: if_splits)
  have "ob \<in> set obs" using assms(2) by (simp add: active_obligations_def)
  then have "\<not> narrow first"
    using f assms(3) observed_narrow unscoped_not_narrow [OF _ assms(2,3)]
    by (fastforce simp: first_classification_def Let_def split: if_splits option.splits)
  then show ?thesis using cls by auto
qed

lemma scheduling_step_Inr:
  assumes "scheduling_step rq = Inr r"
  obtains caps sweep where "policy_capabilities (policy (rq_contract rq)) = Inr caps"
    and "round_classification caps (rq_contract rq) (scheduler_obligations (rq_items rq) (rq_board rq) PR_STATUSES) (rq_view rq)
           = Inr (rr_classification r)"
    and "rr_snapshot r = round_snapshot caps rq"
    and "select_reviewers (rr_snapshot r) (rr_classification r) (rq_approvals rq) (rq_unavailable rq) sweep (rq_checkpoint rq)
           = Inr (rr_decision r)"
    and "rr_latch r = (fst (full_board_request caps rq) \<or> requires_primary caps \<and> pe_opened (rq_panel rq)
            \<and> decision_phase (rr_decision r) = ''full-board'' \<and> \<not> rq_operator rq)"
  using assms by (auto simp: scheduling_step_def bindE_Inr_iff Let_def)

lemma scheduling_step_exists:
  assumes "policy_capabilities (policy (rq_contract rq)) = Inr caps"
    and "round_classification caps (rq_contract rq) (scheduler_obligations (rq_items rq) (rq_board rq) PR_STATUSES) (rq_view rq) = Inr cls"
    and "\<And>sweep. \<exists>d. select_reviewers (round_snapshot caps rq) cls (rq_approvals rq) (rq_unavailable rq) sweep (rq_checkpoint rq) = Inr d"
  shows "\<exists>r. scheduling_step rq = Inr r \<and> rr_classification r = cls"
proof -
  obtain d where "select_reviewers (round_snapshot caps rq) cls (rq_approvals rq) (rq_unavailable rq)
      (rq_sweep rq \<or> rv_previous (rq_view rq) \<noteq> None \<and> scheduler_obligations (rq_items rq) (rq_board rq) PR_STATUSES = []
        \<or> rv_external (rq_view rq)) (rq_checkpoint rq) = Inr d" using assms(3) by blast
  then show ?thesis using assms(1,2) by (simp add: scheduling_step_def Let_def)
qed

lemma staged_caps: "policy c = ''primary-then-panel'' \<Longrightarrow> policy_capabilities (policy c) = Inr caps_staged"
  by (simp add: policy_capabilities_def)

lemma staged_requires [simp]: "requires_primary caps_staged"
  by (simp add: caps_staged_def)

lemma operator_full:
  assumes "select_reviewers s cls approvals unav fin ph = Inr d"
    and "policy (snap_contract s) = ''primary-then-panel''" and "operator_force_full s"
  shows "selected_reviewers d = available_required (required_reviewers (snap_contract s)) unav"
    and "decision_phase d = ''full-board''"
  using assms by (auto simp: select_reviewers_def board_choice_def policy_capabilities_def bindE_Inr_iff Let_def)

lemma snapshot_fields:
  "snap_contract (round_snapshot caps rq) = rq_contract rq"
  "operator_force_full (round_snapshot caps rq) = rq_operator rq"
  "panel_evidence (round_snapshot caps rq) = (requires_primary caps \<and> pe_opened (rq_panel rq))"
  "obligations (round_snapshot caps rq) = scheduler_obligations (rq_items rq) (rq_board rq) PR_STATUSES"
  "force_full (round_snapshot caps rq) = snd (snd (full_board_request caps rq))"
  by (simp_all add: round_snapshot_def case_prod_beta)

lemma opened_request:
  "requires_primary caps \<Longrightarrow> pe_opened (rq_panel rq) \<Longrightarrow> full_board_request caps rq =
     (rq_latch rq \<or> pe_post_latch (rq_panel rq) \<or> rq_automatic rq \<noteq> [], rq_automatic rq,
      rq_latch rq \<or> pe_post_latch (rq_panel rq) \<or> rq_automatic rq \<noteq> [])"
  by (simp add: full_board_request_def Let_def)

text \<open>The staged step after the opening: what the board is and what the latch becomes.\<close>

lemma opened_step:
  assumes "scheduling_step rq = Inr r" and "policy (rq_contract rq) = ''primary-then-panel''" and "pe_opened (rq_panel rq)"
  defines "asked \<equiv> rq_latch rq \<or> pe_post_latch (rq_panel rq) \<or> rq_automatic rq \<noteq> []"
  shows "rq_operator rq \<or> asked \<or> \<not> narrow (rr_classification r) \<Longrightarrow>
      selected_reviewers (rr_decision r) = available_required (required_reviewers (rq_contract rq)) (rq_unavailable rq)
      \<and> decision_phase (rr_decision r) = ''full-board''"
    and "rr_latch r = (asked \<or> decision_phase (rr_decision r) = ''full-board'' \<and> \<not> rq_operator rq)"
proof -
  obtain caps sweep where caps: "policy_capabilities (policy (rq_contract rq)) = Inr caps"
    and snap: "rr_snapshot r = round_snapshot caps rq"
    and sel: "select_reviewers (rr_snapshot r) (rr_classification r) (rq_approvals rq) (rq_unavailable rq) sweep (rq_checkpoint rq)
           = Inr (rr_decision r)"
    and latch: "rr_latch r = (fst (full_board_request caps rq) \<or> requires_primary caps \<and> pe_opened (rq_panel rq)
            \<and> decision_phase (rr_decision r) = ''full-board'' \<and> \<not> rq_operator rq)"
    using assms(1) by (rule scheduling_step_Inr)
  have c: "caps = caps_staged" using caps staged_caps [OF assms(2)] by simp
  note req = opened_request [of caps_staged rq, simplified, OF assms(3)]
  have f: "snap_contract (rr_snapshot r) = rq_contract rq" "operator_force_full (rr_snapshot r) = rq_operator rq"
    "panel_evidence (rr_snapshot r)" "force_full (rr_snapshot r) = asked"
    using assms(3) by (simp_all add: snap c snapshot_fields req asked_def)
  show "rr_latch r = (asked \<or> decision_phase (rr_decision r) = ''full-board'' \<and> \<not> rq_operator rq)"
    using latch assms(3) by (simp add: c req asked_def)
  assume full: "rq_operator rq \<or> asked \<or> \<not> narrow (rr_classification r)"
  show "selected_reviewers (rr_decision r) = available_required (required_reviewers (rq_contract rq)) (rq_unavailable rq)
      \<and> decision_phase (rr_decision r) = ''full-board''"
  proof (cases "rq_operator rq")
    case True
    then show ?thesis using operator_full [OF sel] f assms(2) by simp
  next
    case False
    then have "post_panel_choice (rr_snapshot r) (rr_classification r) (rq_approvals rq)
          (available_required (required_reviewers (rq_contract rq)) (rq_unavailable rq))
        = (selected_reviewers (rr_decision r), decision_phase (rr_decision r), decision_reason (rr_decision r))"
      using staged_choice(2) [OF sel] f assms(2) by simp
    then show ?thesis using post_panel_full f(4) full False by blast
  qed
qed

lemma full_board_is_latched:
  assumes "scheduling_step rq = Inr r" and "policy (rq_contract rq) = ''primary-then-panel''" and "pe_opened (rq_panel rq)"
    and "decision_phase (rr_decision r) = ''full-board''" and "\<not> rq_operator rq"
  shows "rr_latch r"
  using opened_step(2) [OF assms(1-3)] assms(4,5) by simp

text \<open>What the panel evidence says after the checkpoint of a latched decision.\<close>

lemma recorded_latch:
  assumes "sorted_wrt (\<lambda>x y. index x < index y) (hist @ c # later)"
    and "pe_index (derive_pr_panel_evidence hist primary required) = Some i"
    and "\<not> scope_present (Decoded (meta c))" and "sched_valid (meta c)" and "forced_full (meta c)"
    and "sm_source (rm_sched (meta c)) = Some ''automatic''"
  defines "e \<equiv> derive_pr_panel_evidence (hist @ c # later) primary required"
  shows "pe_opened e \<and> pe_index e = Some i \<and> pe_post_latch e"
proof -
  have d: "distinct (map index hist)" using assms(1) by (auto simp: sorted_wrt_append strict_sorted_iff sorted_wrt_map [symmetric])
  have before: "\<forall>x \<in> set hist. \<forall>y \<in> set (c # later). index x < index y" using assms(1) by (simp add: sorted_wrt_append)
  have i: "pe_index e = Some i" using pr_evidence_grows [OF _ before] assms(2) by (simp add: e_def)
  then obtain r src where r: "fst (pr_scan primary required (sort_key index (hist @ c # later)) empty_scan) = Some (r, src)" "index r = i"
    by (auto simp: e_def pr_evidence_scan)
  obtain x where "x \<in> set hist" "index x = i" using pr_evidence_opened [OF assms(2) d] by blast
  then have "i < index c" using before by auto
  then have "automatic_latch_after (index r) c" using assms(4-6) r(2) by (simp add: automatic_latch_after_def)
  then have "pe_post_latch e"
    using r(1) assms(3) by (auto simp: e_def derive_pr_panel_evidence_def Let_def split: prod.split)
  then show ?thesis using i by (simp add: pe_opened_def)
qed

section \<open>Properties\<close>


definition ex_request :: round_request where
  "ex_request =
     \<lparr>rq_contract = ex_sha_contract, rq_items = [], rq_board = [''ann'', ''bob''],
      rq_view = \<lparr>rv_external = True, rv_recovery = False, rv_previous = Some ''h1'', rv_current = ''h2'',
         rv_git = \<lparr>ancestry = None, name_status = None, numstat = None, diff_summary = None\<rparr>,
         rv_spans = (\<lambda>_. (None, None)), rv_latest = Map.empty\<rparr>,
      rq_panel = derive_pr_panel_evidence [ex_posted 1 ''ann'' ''approved'', ex_audit] (Some ''ann'') [''ann'', ''bob''],
      rq_automatic = [], rq_latch = False, rq_operator = False, rq_checkpoint = None, rq_carried = [],
      rq_approvals = [], rq_unavailable = [], rq_sweep = False\<rparr>"

text \<open>The evidence of two records: the primary's approval and an audit that lists it.\<close>

lemma ex_opening:
  "fst (pr_scan (Some ''ann'') [''ann'', ''bob''] (sort_key index [ex_posted 1 ''ann'' ''approved'', ex_audit]) empty_scan)
     = Some (ex_audit, ''primary-approval'')"
proof -
  let ?a = "ex_posted 1 ''ann'' ''approved''"
  have "sort_key index [?a, ex_audit] = [?a, ex_audit]" by (simp add: ex_posted_def ex_audit_def Let_def)
  moreover have "pr_opening (Some ''ann'') K (meta ?a) = None" for K
    by (simp add: pr_opening_def operator_opening_def lists_primary_in_audit_def sched_valid_def ex_posted_def ex_meta_def no_sched_def)
  moreover have "pr_approved_subject (Some ''ann'') (meta ?a)" "rm_subject (meta ?a) = ''h1''"
    by (simp_all add: pr_approved_subject_def primary_approval_def ex_posted_def ex_meta_def)
  moreover have "pr_opening (Some ''ann'') {''h1''} (meta ex_audit) = Some ''primary-approval''"
    by (simp add: pr_opening_def operator_opening_def lists_primary_in_audit_def sched_valid_def forced_full_def
        ex_audit_def ex_meta_def no_sched_def Let_def)
  ultimately show ?thesis by (simp add: pr_note_def empty_scan_def Let_def)
qed


text \<open>Work that nobody can scope brings the complete board.  If the ledger holds an open item whose obligation
  has no exact scope - an open machine obligation of a gate, a finding whose coder disputes it or whose author is
  not on the board - then no transition of any step is narrow, whatever Git shows, not even at the same head;
  after the opening of the panel a staged step then puts the head before the whole available board.\<close>

theorem unscoped_item_brings_full_board:
  assumes "scheduling_step rq = Inr r"
    and "i \<in> set (rq_items rq)" and "open_status (status i)" and "\<not> is_evidence_obligation i" and "\<not> is_visual_item i"
    and "item.reviewer i \<notin> set (rq_board rq) \<or> item.reviewer i = ''Orchestrator''
         \<or> (\<exists>note \<in> set (item_notes i). starts_with CODER_DISPUTE_NOTE_PREFIX note) \<or> fix_scope i = None"
  shows "\<not> narrow (rr_classification r)
    \<and> (policy (rq_contract rq) = ''primary-then-panel'' \<and> pe_opened (rq_panel rq) \<longrightarrow>
         selected_reviewers (rr_decision r) = available_required (required_reviewers (rq_contract rq)) (rq_unavailable rq)
         \<and> decision_phase (rr_decision r) = ''full-board'')"
proof -
  let ?ob = "item_obligation (rq_board rq) i"
  have "schedulable PR_STATUSES i" using assms(3-5) by (auto simp: schedulable_def PR_STATUSES_def open_status_def)
  then have ob: "?ob \<in> set (active_obligations (scheduler_obligations (rq_items rq) (rq_board rq) PR_STATUSES))"
    unfolding active_scheduler_obligations using assms(2) by (simp add: scheduler_obligations_def)
  have "scope ?ob = None" using assms(6) by (auto simp: item_obligation_def item_reconstructible_def Let_def)
  then have "\<not> narrow (rr_classification r)"
    using scheduling_step_Inr [OF assms(1)] unscoped_round_not_narrow [OF _ ob] by metis
  then show ?thesis using opened_step(1) [OF assms(1)] by blast
qed

theorem unscoped_item_brings_full_board_witness:
  "\<exists>r. scheduling_step (ex_request\<lparr>rq_items := [ex_ci]\<rparr>) = Inr r
     \<and> selected_reviewers (rr_decision r) = [''ann'', ''bob'']"
proof -
  let ?rq = "ex_request\<lparr>rq_items := [ex_ci]\<rparr>"
  have opened: "pe_opened (rq_panel ?rq)"
    using ex_opening by (simp add: pe_opened_def pr_evidence_scan ex_request_def)
  have pol: "policy (rq_contract ?rq) = ''primary-then-panel''" by (simp add: ex_request_def ex_sha_contract_def)
  have cls: "round_classification caps_staged (rq_contract ?rq)
      (scheduler_obligations (rq_items ?rq) (rq_board ?rq) PR_STATUSES) (rq_view ?rq)
      = Inr (broad_for ''external/unrecorded head advance requires full board'' [])"
    by (simp add: round_classification_def first_classification_def ex_request_def)
  have "rq_checkpoint ?rq = None" "snap_phase (round_snapshot caps_staged ?rq) = None"
    by (simp_all add: ex_request_def round_snapshot_def case_prod_beta)
  then have "\<exists>d. select_reviewers (round_snapshot caps_staged ?rq) cls (rq_approvals ?rq) (rq_unavailable ?rq) sweep (rq_checkpoint ?rq) = Inr d"
    for cls sweep using opened pol by (simp add: post_panel_decides snapshot_fields)
  then obtain r where r: "scheduling_step ?rq = Inr r" using scheduling_step_exists [OF staged_caps [OF pol] cls] by blast
  have i: "ex_ci \<in> set (rq_items ?rq)" "open_status (status ex_ci)" "\<not> is_evidence_obligation ex_ci" "\<not> is_visual_item ex_ci"
    "fix_scope ex_ci = None"
    by (simp_all add: ex_ci_def ex_finding_def open_status_def is_evidence_obligation_def is_visual_item_def kind_defs)
  have "selected_reviewers (rr_decision r) = available_required (required_reviewers (rq_contract ?rq)) (rq_unavailable ?rq)"
    using unscoped_item_brings_full_board [OF r i(1-4)] i(5) pol opened by blast
  then show ?thesis using r by (auto simp: ex_request_def ex_sha_contract_def available_required_def)
qed

end
