(* ===== verification/Panel_Protocol.thy ===== *)
theory Panel_Protocol
  imports Scheduling_Step
begin

text \<open>
  The panel of a pull request as a small state machine, and the proof that the batch reader of the posted
  history (\<open>_derive_pr_panel_evidence\<close> of \<open>panel_evidence.py\<close>, run afresh in every round and after every
  restart) implements it: reading the whole history gives what one gets by following the posts one by one.
\<close>

section \<open>The abstract protocol\<close>

datatype panel_mode = Closed | Opened | Latched

text \<open>The state: the mode and the heads that the primary has approved so far.\<close>

definition panel_step :: "string option \<Rightarrow> panel_mode \<times> string set \<Rightarrow> posted \<Rightarrow> panel_mode \<times> string set" where
  "panel_step primary st r =
     (let (mode, approved) = st; m = meta r in
      if scope_present (Decoded m) then st
      else case mode of
        Closed \<Rightarrow>
          if operator_opening m \<or> lists_primary_in_audit primary m \<and> rm_subject m \<in> approved then (Opened, approved)
          else if primary_approval primary m \<and> rm_subject m \<noteq> [] then (Closed, insert (rm_subject m) approved)
          else st
      | Opened \<Rightarrow>
          if sched_valid m \<and> forced_full m \<and> sm_source (rm_sched m) \<noteq> Some ''operator'' then (Latched, approved) else st
      | Latched \<Rightarrow> st)"

text \<open>What the evidence record says of the mode.\<close>

definition mode_of :: "panel_evidence_record \<Rightarrow> panel_mode" where
  "mode_of e = (if \<not> pe_opened e then Closed else if pe_post_latch e then Latched else Opened)"

section \<open>Simulation\<close>

lemma sorted_history:
  assumes "sorted_wrt (\<lambda>x y. index x < index y) hist"
  shows "sort_key index hist = hist"
proof -
  have "sorted_wrt (\<lambda>x y. index x \<le> index y) hist" by (rule sorted_wrt_mono_rel [OF _ assms]) simp
  then show ?thesis by (intro sort_key_id_if_sorted) (simp add: sorted_map)
qed

lemma scan_subjects:
  "fst (pr_scan primary required rs st) = None \<Longrightarrow>
     set (sc_subjects (snd (pr_scan primary required rs st))) = set (sc_subjects st) \<union> pr_subjects primary rs"
proof (induction rs arbitrary: st)
  case (Cons r rs)
  then have none: "pr_opening primary (set (sc_subjects st)) (meta r) = None" by (auto split: option.splits)
  have "set (sc_subjects (pr_note primary required r st)) = set (sc_subjects st) \<union> pr_subjects primary [r]"
    by (auto simp: pr_note_def pr_subjects_def Let_def)
  moreover have "pr_subjects primary (r # rs) = pr_subjects primary [r] \<union> pr_subjects primary rs" by (auto simp: pr_subjects_def)
  ultimately show ?case using Cons none by auto
qed (simp add: pr_subjects_def)

lemma scan_snoc:
  "fst (pr_scan primary required rs st) = None \<Longrightarrow>
     fst (pr_scan primary required (rs @ [r]) st)
       = map_option (Pair r) (pr_opening primary (set (sc_subjects st) \<union> pr_subjects primary rs) (meta r))"
proof (induction rs arbitrary: st)
  case (Cons x rs)
  then have none: "pr_opening primary (set (sc_subjects st)) (meta x) = None" by (auto split: option.splits)
  have "set (sc_subjects (pr_note primary required x st)) = set (sc_subjects st) \<union> pr_subjects primary [x]"
    by (auto simp: pr_note_def pr_subjects_def Let_def)
  moreover have "pr_subjects primary (x # rs) = pr_subjects primary [x] \<union> pr_subjects primary rs" by (auto simp: pr_subjects_def)
  ultimately show ?case using Cons none by (simp add: Un_assoc)
qed (simp add: pr_subjects_def split: option.split)

lemma opening_iff:
  "pr_opening primary K m \<noteq> None \<longleftrightarrow>
     \<not> scope_present (Decoded m) \<and> (operator_opening m \<or> lists_primary_in_audit primary m \<and> rm_subject m \<in> K)"
  by (simp add: pr_opening_def)

lemma latch_at:
  assumes "sorted_wrt (\<lambda>x y. index x < index y) hist"
    and "fst (pr_scan primary required hist empty_scan) = Some (x, src)"
  shows "pe_post_latch (derive_pr_panel_evidence hist primary required)
     \<longleftrightarrow> (\<exists>r \<in> set hist. \<not> scope_present (Decoded (meta r)) \<and> automatic_latch_after (index x) r)"
  using assms(2) by (cases "pr_scan primary required hist empty_scan")
    (simp add: derive_pr_panel_evidence_def sorted_history [OF assms(1)])

lemma opened_at:
  assumes "sorted_wrt (\<lambda>x y. index x < index y) hist"
  shows "pe_opened (derive_pr_panel_evidence hist primary required) \<longleftrightarrow> fst (pr_scan primary required hist empty_scan) \<noteq> None"
  by (simp add: pe_opened_def pr_evidence_scan sorted_history [OF assms])

lemma opening_in_history: "fst (pr_scan primary required hist st) = Some (x, src) \<Longrightarrow> x \<in> set hist"
  by (induction hist arbitrary: st) (auto split: option.splits)

lemma latched_by_post:
  "index x < index r \<Longrightarrow> automatic_latch_after (index x) r \<longleftrightarrow>
     sched_valid (meta r) \<and> forced_full (meta r) \<and> sm_source (rm_sched (meta r)) \<noteq> Some ''operator''"
  by (simp add: automatic_latch_after_def)

text \<open>One more post after a history without an opening, and after one with it.\<close>

lemma closed_step:
  assumes "sorted_wrt (\<lambda>x y. index x < index y) (hist @ [r])"
    and "fst (pr_scan primary required hist empty_scan) = None"
  shows "panel_step primary (Closed, pr_subjects primary hist) r
     = (mode_of (derive_pr_panel_evidence (hist @ [r]) primary required),
        if fst (pr_scan primary required (hist @ [r]) empty_scan) = None then pr_subjects primary (hist @ [r])
        else pr_subjects primary hist)"
proof -
  have scan: "fst (pr_scan primary required (hist @ [r]) empty_scan)
      = map_option (Pair r) (pr_opening primary (pr_subjects primary hist) (meta r))"
    using scan_snoc [OF assms(2)] by (simp add: empty_scan_def)
  have before: "\<forall>x \<in> set hist. index x < index r" using assms(1) by (simp add: sorted_wrt_append)
  have subj: "pr_subjects primary (hist @ [r]) = (if pr_approved_subject primary (meta r)
      then insert (rm_subject (meta r)) (pr_subjects primary hist) else pr_subjects primary hist)"
    by (auto simp: pr_subjects_def)
  show ?thesis
  proof (cases "pr_opening primary (pr_subjects primary hist) (meta r)")
    case None
    then have "mode_of (derive_pr_panel_evidence (hist @ [r]) primary required) = Closed"
      using scan by (simp add: mode_of_def opened_at [OF assms(1)])
    then show ?thesis using None opening_iff [of primary "pr_subjects primary hist" "meta r"] scan subj
      by (auto simp: panel_step_def Let_def pr_approved_subject_def simp del: scope_present.simps)
  next
    case (Some src)
    then have s: "fst (pr_scan primary required (hist @ [r]) empty_scan) = Some (r, src)" using scan by simp
    have "\<not> pe_post_latch (derive_pr_panel_evidence (hist @ [r]) primary required)"
      using latch_at [OF assms(1) s] before by (auto simp: automatic_latch_after_def)
    then have "mode_of (derive_pr_panel_evidence (hist @ [r]) primary required) = Opened"
      using s by (simp add: mode_of_def opened_at [OF assms(1)])
    then show ?thesis using Some opening_iff [of primary "pr_subjects primary hist" "meta r"] s
      by (auto simp: panel_step_def Let_def simp del: scope_present.simps)
  qed
qed

lemma open_step:
  assumes "sorted_wrt (\<lambda>x y. index x < index y) (hist @ [r])"
    and "fst (pr_scan primary required hist empty_scan) = Some (x, src)"
  shows "fst (panel_step primary (mode_of (derive_pr_panel_evidence hist primary required), K) r)
     = mode_of (derive_pr_panel_evidence (hist @ [r]) primary required)
    \<and> fst (pr_scan primary required (hist @ [r]) empty_scan) = Some (x, src)"
proof -
  have sorted: "sorted_wrt (\<lambda>x y. index x < index y) hist" and before: "\<forall>y \<in> set hist. index y < index r"
    using assms(1) by (simp_all add: sorted_wrt_append)
  have s: "fst (pr_scan primary required (hist @ [r]) empty_scan) = Some (x, src)"
    using pr_scan_append [of primary required hist empty_scan "[r]"] assms(2) by simp
  have x: "index x < index r" using opening_in_history [OF assms(2)] before by blast
  have "pe_post_latch (derive_pr_panel_evidence (hist @ [r]) primary required) \<longleftrightarrow>
      pe_post_latch (derive_pr_panel_evidence hist primary required)
      \<or> \<not> scope_present (Decoded (meta r)) \<and> sched_valid (meta r) \<and> forced_full (meta r)
        \<and> sm_source (rm_sched (meta r)) \<noteq> Some ''operator''"
    unfolding latch_at [OF assms(1) s] latch_at [OF sorted assms(2)] by (auto simp: latched_by_post [OF x])
  moreover have "pe_opened (derive_pr_panel_evidence (hist @ [r]) primary required)"
    "pe_opened (derive_pr_panel_evidence hist primary required)"
    using s assms(2) by (simp_all add: opened_at [OF assms(1)] opened_at [OF sorted])
  ultimately show ?thesis using s by (simp add: panel_step_def mode_of_def Let_def del: scope_present.simps)
qed

lemma panel_simulation:
  assumes "sorted_wrt (\<lambda>x y. index x < index y) hist"
  shows "fst (foldl (panel_step primary) (Closed, {}) hist) = mode_of (derive_pr_panel_evidence hist primary required)
    \<and> (fst (pr_scan primary required hist empty_scan) = None \<longrightarrow>
         snd (foldl (panel_step primary) (Closed, {}) hist) = pr_subjects primary hist)"
  using assms
proof (induction hist rule: rev_induct)
  case Nil
  then show ?case by (simp add: mode_of_def opened_at pr_subjects_def)
next
  case (snoc r hist)
  have sorted: "sorted_wrt (\<lambda>x y. index x < index y) hist" using snoc.prems by (simp add: sorted_wrt_append)
  obtain mode K where run: "foldl (panel_step primary) (Closed, {}) hist = (mode, K)" by (cases "foldl (panel_step primary) (Closed, {}) hist")
  show ?case
  proof (cases "fst (pr_scan primary required hist empty_scan)")
    case None
    then have "mode = Closed" "K = pr_subjects primary hist"
      using snoc.IH [OF sorted] run by (simp_all add: mode_of_def opened_at [OF sorted])
    then show ?thesis using closed_step [OF snoc.prems None] run by simp
  next
    case (Some o')
    obtain x src where o': "fst (pr_scan primary required hist empty_scan) = Some (x, src)" using Some by (cases o') simp
    have "mode = mode_of (derive_pr_panel_evidence hist primary required)" using snoc.IH [OF sorted] run by simp
    then show ?thesis using open_step [OF snoc.prems o', of K] run by simp
  qed
qed

section \<open>Properties\<close>

text \<open>C18: The batch reader implements the protocol.  On a history in the order of its comments, the mode that the
  loop derives afresh from all records is the mode reached by following the posts one at a time from the closed
  panel; so each new post changes the derived mode by exactly one protocol step, a restart in between changes
  nothing, the latch is reached only from an open panel, and a latched panel stays latched.\<close>

theorem panel_history_refines_protocol:
  fixes primary :: "string option" and required :: "string list"
  assumes "sorted_wrt (\<lambda>x y. index x < index y) (hist @ [r])"
  defines "derived \<equiv> \<lambda>h. mode_of (derive_pr_panel_evidence h primary required)"
    and "followed \<equiv> foldl (panel_step primary) (Closed, {})"
  shows "derived (hist @ [r]) = fst (followed (hist @ [r]))
    \<and> derived (hist @ [r]) = fst (panel_step primary (derived hist, snd (followed hist)) r)
    \<and> (derived (hist @ [r]) = Latched \<longrightarrow> derived hist \<noteq> Closed)
    \<and> (derived hist = Latched \<longrightarrow> derived (hist @ [r]) = Latched)"
proof -
  have sorted: "sorted_wrt (\<lambda>x y. index x < index y) hist" using assms(1) by (simp add: sorted_wrt_append)
  have sim: "derived hist = fst (followed hist)" "derived (hist @ [r]) = fst (followed (hist @ [r]))"
    unfolding derived_def followed_def using panel_simulation [OF sorted] panel_simulation [OF assms(1)] by simp_all
  have "followed (hist @ [r]) = panel_step primary (followed hist) r" by (simp add: followed_def)
  then have step: "derived (hist @ [r]) = fst (panel_step primary (derived hist, snd (followed hist)) r)"
    using sim by simp
  moreover have "derived (hist @ [r]) = Latched \<longrightarrow> derived hist \<noteq> Closed"
    "derived hist = Latched \<longrightarrow> derived (hist @ [r]) = Latched"
    unfolding step by (auto simp: panel_step_def Let_def split: if_splits)
  ultimately show ?thesis using sim(2) by blast
qed

theorem panel_history_refines_protocol_witness:
  "mode_of (derive_pr_panel_evidence ([ex_posted 1 ''ann'' ''approved''] @ [ex_audit]) (Some ''ann'') [''ann'', ''bob''])
     = fst (foldl (panel_step (Some ''ann'')) (Closed, {}) ([ex_posted 1 ''ann'' ''approved''] @ [ex_audit]))
   \<and> mode_of (derive_pr_panel_evidence ([ex_posted 1 ''ann'' ''approved''] @ [ex_audit]) (Some ''ann'') [''ann'', ''bob'']) \<noteq> Closed"
proof -
  have s: "sorted_wrt (\<lambda>x y. index x < index y) ([ex_posted 1 ''ann'' ''approved''] @ [ex_audit])"
    by (simp add: ex_posted_def ex_audit_def Let_def)
  have "mode_of (derive_pr_panel_evidence ([ex_posted 1 ''ann'' ''approved''] @ [ex_audit]) (Some ''ann'') [''ann'', ''bob'']) \<noteq> Closed"
    using ex_opening by (simp add: mode_of_def pe_opened_def pr_evidence_scan)
  then show ?thesis using panel_history_refines_protocol [OF s, of "Some ''ann''" "[''ann'', ''bob'']"] by blast
qed

end
