(* ===== verification/Bounded_Waits.thy ===== *)
theory Bounded_Waits
  imports Text_Ops
begin

text \<open>
  What is tried again and how long a run may wait: the retry policy of read-only GitHub commands
  (\<open>github_retry.py\<close>) and the waits for a quota reset (\<open>quota_wait.py\<close>).

  The results of the commands, in the order they are run, and the signals that arrive during a wait are
  parameters.  Jittered sleeping times are not modelled, only which sleeps there are.
\<close>

section \<open>Patterns\<close>

text \<open>The part of Python's regular expressions that the two patterns use, ignoring case.\<close>

datatype rx = Lit string | Among string | Spaces nat | Boundary | Either "rx list" | Chain "rx list"

definition is_word :: "char \<Rightarrow> bool" where
  "is_word c \<longleftrightarrow>
     48 \<le> code c \<and> code c \<le> 57 \<or> 65 \<le> code c \<and> code c \<le> 90 \<or> 97 \<le> code c \<and> code c \<le> 122 \<or> code c = 95
     \<or> code c \<in> {170, 178, 179, 181, 185, 186, 188, 189, 190} \<or> 192 \<le> code c \<and> code c \<noteq> 215 \<and> code c \<noteq> 247"

definition word_at :: "char option \<Rightarrow> bool" where
  "word_at c = (case c of None \<Rightarrow> False | Some x \<Rightarrow> is_word x)"

definition first_of :: "string \<Rightarrow> char option" where
  "first_of s = (case s of [] \<Rightarrow> None | c # _ \<Rightarrow> Some c)"

text \<open>The lengths that a pattern can match at the start of \<open>s\<close>, with \<open>prev\<close> the character before it.\<close>

fun ends :: "rx \<Rightarrow> char option \<Rightarrow> string \<Rightarrow> nat list" where
  "ends (Lit p) prev s = (if starts_with (py_lower p) (py_lower s) then [length p] else [])"
| "ends (Among cs) prev s = (case s of [] \<Rightarrow> [] | c # _ \<Rightarrow> if c \<in> set cs then [1] else [])"
| "ends (Spaces least) prev s = filter (\<lambda>k. least \<le> k) [0..<Suc (length (takeWhile is_space s))]"
| "ends Boundary prev s = (if word_at prev \<noteq> word_at (first_of s) then [0] else [])"
| "ends (Either rs) prev s = concat (map (\<lambda>r. ends r prev s) rs)"
| "ends (Chain []) prev s = [0]"
| "ends (Chain (r # rs)) prev s =
     concat (map (\<lambda>k. map ((+) k) (ends (Chain rs) (if k = 0 then prev else Some (s ! (k - 1))) (drop k s))) (ends r prev s))"

fun search_from :: "rx \<Rightarrow> char option \<Rightarrow> string \<Rightarrow> bool" where
  "search_from r prev [] = (ends r prev [] \<noteq> [])"
| "search_from r prev (c # cs) = (ends r prev (c # cs) \<noteq> [] \<or> search_from r (Some c) cs)"

definition search :: "rx \<Rightarrow> string \<Rightarrow> bool" where
  "search r s = search_from r None s"

section \<open>Retrying reads\<close>

definition server_error :: rx where
  "server_error = Chain [Lit ''50'', Among ''0234'']"

definition client_error :: rx where
  "client_error = Chain [Lit ''4'', Among ''0123456789'', Among ''0123456789'']"

definition status_code :: "rx \<Rightarrow> rx list" where
  "status_code r =
     [Chain [Lit ''HTTP'', Spaces 0, r, Boundary],
      Chain [Lit ''status code'', Either [Lit '':'', Lit []], Spaces 0, r, Boundary]]"

definition TRANSIENT_TEXTS :: "string list" where
  "TRANSIENT_TEXTS =
     [''Bad Gateway'', ''Service Unavailable'', ''Gateway Timeout'', ''couldn't respond to your request in time'',
      ''couldnt respond to your request in time'', ''connection reset'', ''connection refused'', ''i/o timeout'',
      ''TLS handshake timeout'', ''unexpected EOF'']"

definition TRANSIENT_RE :: rx where
  "TRANSIENT_RE =
     Either (status_code server_error
       @ [Chain [Boundary, server_error, Spaces 1,
            Either (map Lit [''Bad Gateway'', ''Service Unavailable'', ''Gateway Timeout'', ''Internal Server Error''])]]
       @ map Lit TRANSIENT_TEXTS @ [Chain [Boundary, Lit ''EOF'', Boundary]])"

definition PERMANENT_TEXTS :: "string list" where
  "PERMANENT_TEXTS =
     [''Not Found'', ''validation'', ''Resource not accessible'', ''gh auth login'', ''authentication'',
      ''bad credentials'', ''unauthorized'', ''forbidden'', ''billing'', ''rate limit'', ''secondary rate'',
      ''abuse detection'', ''unprocessable'']"

definition PERMANENT_RE :: rx where
  "PERMANENT_RE =
     Either (status_code client_error
       @ [Chain [Boundary, client_error, Spaces 1,
            Either (map Lit [''Not Found'', ''Unauthorized'', ''Forbidden'', ''Unprocessable''])]]
       @ map Lit PERMANENT_TEXTS)"

record gh_result =
  gr_code :: int
  gr_out :: "string option"
  gr_err :: "string option"

definition or_empty :: "string option \<Rightarrow> string" where
  "or_empty v = (case v of None \<Rightarrow> [] | Some s \<Rightarrow> s)"

definition failure_text :: "gh_result \<Rightarrow> string" where
  "failure_text r = or_empty (gr_err r) @ [CHR 0x0A] @ or_empty (gr_out r)"

definition classify_gh_failure :: "gh_result \<Rightarrow> string" where
  "classify_gh_failure r =
     (if gr_code r = 0 then ''permanent''
      else if search PERMANENT_RE (failure_text r) then ''permanent''
      else if search TRANSIENT_RE (failure_text r) then ''transient''
      else ''permanent'')"

record attempt =
  at_number :: nat
  at_code :: int
  at_class :: string
  at_text :: string

definition ATTEMPT_STDERR_LIMIT :: nat where "ATTEMPT_STDERR_LIMIT = 300"

definition trim :: "string option \<Rightarrow> string" where
  "trim v =
     (let collapsed = join '' '' (py_words (or_empty v)) in
      if length collapsed > ATTEMPT_STDERR_LIMIT then take ATTEMPT_STDERR_LIMIT collapsed @ ''...'' else collapsed)"

definition diagnostic :: "gh_result \<Rightarrow> string" where
  "diagnostic r =
     (let err = trim (gr_err r); out = trim (gr_out r) in
      if err \<noteq> [] \<and> out \<noteq> [] then err @ '' | stdout: '' @ out
      else if err \<noteq> [] then err
      else if out \<noteq> [] then ''stdout: '' @ out else [])"

definition describe_attempt :: "attempt \<Rightarrow> string" where
  "describe_attempt a =
     ''attempt '' @ nat_str (at_number a) @ '': exit '' @ int_str (at_code a) @ '' ('' @ at_class a @ ''): ''
     @ (if at_text a = [] then ''<no stderr>'' else at_text a)"

definition describe_gh_failure :: "gh_result \<Rightarrow> attempt list \<Rightarrow> bool \<Rightarrow> string" where
  "describe_gh_failure r attempts exhausted =
     (let err = strip (or_empty (gr_err r)); out = strip (or_empty (gr_out r));
          shown = (if out = [] then err
                   else if err \<noteq> [] then err @ [CHR 0x0A] @ ''stdout: '' @ out else ''stdout: '' @ out)
      in if attempts = [] then err
         else shown @ [CHR 0x0A] @ ''GitHub attempt history''
              @ (if exhausted then '' (retry budget exhausted)'' else []) @ '':'' @ [CHR 0x0A]
              @ join [CHR 0x0A] (map (\<lambda>a. ''  '' @ describe_attempt a) attempts))"

text \<open>What a read ends with: the result as it is, the result with its history, the plain error, the error of an
  exhausted budget, or, without a single attempt, no result at all.\<close>

datatype gh_outcome =
  Plain gh_result
  | WithHistory gh_result "attempt list" bool
  | FailedPlain gh_result
  | Exhausted "attempt list" string
  | NoResult

record gh_read =
  gh_end :: gh_outcome
  gh_runs :: "nat list"
  gh_sleeps :: "nat list"

definition attempt_of :: "nat \<Rightarrow> gh_result \<Rightarrow> attempt" where
  "attempt_of k r = \<lparr>at_number = k, at_code = gr_code r, at_class = classify_gh_failure r, at_text = diagnostic r\<rparr>"

definition finish_read :: "bool \<Rightarrow> gh_result \<Rightarrow> attempt list \<Rightarrow> gh_outcome" where
  "finish_read check r history =
     (let exhausted = (at_class (last history) = ''transient'') in
      if check then
        (if exhausted then Exhausted history (describe_gh_failure r history exhausted) else FailedPlain r)
      else WithHistory r history exhausted)"

function gh_loop :: "(nat \<Rightarrow> gh_result) \<Rightarrow> bool \<Rightarrow> nat \<Rightarrow> nat \<Rightarrow> attempt list \<Rightarrow> gh_read" where
  "gh_loop results check n k history =
     (let r = results k; history' = history @ [attempt_of k r] in
      if gr_code r = 0 then
        \<lparr>gh_end = (if history = [] then Plain r else WithHistory r history False), gh_runs = [k], gh_sleeps = []\<rparr>
      else if classify_gh_failure r = ''permanent'' then
        \<lparr>gh_end = (if length history' = 1 then (if check then FailedPlain r else Plain r) else finish_read check r history'),
         gh_runs = [k], gh_sleeps = []\<rparr>
      else if k < n then
        (let rest = gh_loop results check n (Suc k) history' in
         rest\<lparr>gh_runs := k # gh_runs rest, gh_sleeps := k # gh_sleeps rest\<rparr>)
      else \<lparr>gh_end = finish_read check r history', gh_runs = [k], gh_sleeps = []\<rparr>)"
  by pat_completeness auto

termination gh_loop
  by (relation "measure (\<lambda>(_, _, n, k, _). n - k)") auto

definition run_gh_read :: "(nat \<Rightarrow> gh_result) \<Rightarrow> bool \<Rightarrow> int \<Rightarrow> gh_read" where
  "run_gh_read results check attempts =
     (if attempts \<le> 0 then \<lparr>gh_end = NoResult, gh_runs = [], gh_sleeps = []\<rparr>
      else gh_loop results check (nat attempts) 1 [])"

section \<open>Waiting for a quota reset\<close>

definition QUOTA_WAIT_MAX_WAITS :: int where "QUOTA_WAIT_MAX_WAITS = 2"
definition QUOTA_WAIT_MARGIN_SECONDS :: int where "QUOTA_WAIT_MARGIN_SECONDS = 60"
definition QUOTA_WAIT_SLICE_SECONDS :: int where "QUOTA_WAIT_SLICE_SECONDS = 1"

record reservation =
  sleep_seconds :: int
  wait_number :: int
  reserved_of :: int

record quota_budget =
  limit_seconds :: int
  max_waits :: int
  waits_used :: int
  seconds_waited :: int

definition new_budget :: "int \<Rightarrow> quota_budget" where
  "new_budget limit = \<lparr>limit_seconds = limit, max_waits = QUOTA_WAIT_MAX_WAITS, waits_used = 0, seconds_waited = 0\<rparr>"

definition try_reserve :: "int \<Rightarrow> quota_budget \<Rightarrow> reservation option \<times> quota_budget" where
  "try_reserve reset_seconds b =
     (let secs = max 0 reset_seconds + QUOTA_WAIT_MARGIN_SECONDS in
      if waits_used b \<ge> max_waits b then (None, b)
      else if seconds_waited b + secs > limit_seconds b then (None, b)
      else (Some \<lparr>sleep_seconds = secs, wait_number = waits_used b + 1, reserved_of = max_waits b\<rparr>,
            b\<lparr>waits_used := waits_used b + 1, seconds_waited := seconds_waited b + secs\<rparr>))"

text \<open>The requests of a whole run, one after the other: what is granted and the budget that is left.\<close>

fun reserve_all :: "int list \<Rightarrow> quota_budget \<Rightarrow> reservation list \<times> quota_budget" where
  "reserve_all [] b = ([], b)"
| "reserve_all (s # ss) b =
     (let (r, b') = try_reserve s b; (rs, b'') = reserve_all ss b' in
      ((case r of None \<Rightarrow> rs | Some x \<Rightarrow> x # rs), b''))"

datatype wait_end = Waited | Interrupted

text \<open>The loop of \<open>wait_for_reset\<close>: \<open>cancelled k\<close> is what the check before slice \<open>k\<close> sees, \<open>signal k\<close> whether the
  slice itself is interrupted.  The result carries the slices slept.\<close>

function wait_slices :: "(nat \<Rightarrow> bool) \<Rightarrow> (nat \<Rightarrow> bool) \<Rightarrow> nat \<Rightarrow> int \<Rightarrow> wait_end \<times> int list" where
  "wait_slices cancelled signal k remaining =
     (if remaining > 0 \<and> \<not> cancelled k then
        let chunk = min QUOTA_WAIT_SLICE_SECONDS remaining in
        if signal k then (Interrupted, [])
        else (let (e, slept) = wait_slices cancelled signal (Suc k) (remaining - chunk) in (e, chunk # slept))
      else (if cancelled k then Interrupted else Waited, []))"
  by pat_completeness auto

termination wait_slices
  by (relation "measure (\<lambda>(_, _, _, remaining). nat remaining)") (auto simp: QUOTA_WAIT_SLICE_SECONDS_def)

definition wait_for_reset :: "(nat \<Rightarrow> bool) \<Rightarrow> (nat \<Rightarrow> bool) \<Rightarrow> reservation \<Rightarrow> wait_end \<times> int list" where
  "wait_for_reset cancelled signal r = wait_slices cancelled signal 0 (sleep_seconds r)"

section \<open>Facts\<close>

declare gh_loop.simps [simp del] wait_slices.simps [simp del]

definition transient_failure :: "gh_result \<Rightarrow> bool" where
  "transient_failure r \<longleftrightarrow> gr_code r \<noteq> 0 \<and> classify_gh_failure r = ''transient''"

lemma classes: "classify_gh_failure r = ''permanent'' \<or> classify_gh_failure r = ''transient''"
  by (simp add: classify_gh_failure_def)

definition attempts_upto :: "(nat \<Rightarrow> gh_result) \<Rightarrow> nat \<Rightarrow> attempt list" where
  "attempts_upto results m = map (\<lambda>k. attempt_of k (results k)) [1..<Suc m]"

lemma attempts_upto_Suc: "0 < k \<Longrightarrow> attempts_upto results k = attempts_upto results (k - 1) @ [attempt_of k (results k)]"
  by (cases k) (simp_all add: attempts_upto_def)

text \<open>How a read ends that stops after run \<open>m\<close>.\<close>

definition end_at :: "(nat \<Rightarrow> gh_result) \<Rightarrow> bool \<Rightarrow> nat \<Rightarrow> gh_outcome" where
  "end_at results check m =
     (let r = results m in
      if gr_code r = 0 then (if m = 1 then Plain r else WithHistory r (attempts_upto results (m - 1)) False)
      else if \<not> transient_failure r then
        (if check then FailedPlain r else if m = 1 then Plain r else WithHistory r (attempts_upto results m) False)
      else if check then Exhausted (attempts_upto results m) (describe_gh_failure r (attempts_upto results m) True)
      else WithHistory r (attempts_upto results m) True)"

lemma finish_at:
  assumes "0 < m"
  shows "finish_read check (results m) (attempts_upto results m)
     = (if classify_gh_failure (results m) = ''transient''
        then (if check then Exhausted (attempts_upto results m) (describe_gh_failure (results m) (attempts_upto results m) True)
              else WithHistory (results m) (attempts_upto results m) True)
        else (if check then FailedPlain (results m) else WithHistory (results m) (attempts_upto results m) False))"
  using assms by (auto simp: finish_read_def attempts_upto_Suc attempt_of_def Let_def)

definition reads_from :: "(nat \<Rightarrow> gh_result) \<Rightarrow> bool \<Rightarrow> nat \<Rightarrow> nat \<Rightarrow> gh_read \<Rightarrow> bool" where
  "reads_from results check n k rd \<longleftrightarrow>
     (\<exists>m. k \<le> m \<and> m \<le> n \<and> gh_runs rd = [k..<Suc m] \<and> gh_sleeps rd = [k..<m]
        \<and> (\<forall>j. k \<le> j \<and> j < m \<longrightarrow> transient_failure (results j))
        \<and> (m = n \<or> \<not> transient_failure (results m)) \<and> gh_end rd = end_at results check m)"

lemma gh_loop_reads:
  assumes "0 < k" and "k \<le> n"
  shows "reads_from results check n k (gh_loop results check n k (attempts_upto results (k - 1)))"
  using assms
proof (induction "n - k" arbitrary: k rule: less_induct)
  case less
  let ?r = "results k"
  have hist: "attempts_upto results (k - 1) @ [attempt_of k ?r] = attempts_upto results k"
    using less.prems by (simp add: attempts_upto_Suc)
  have first: "attempts_upto results (k - 1) = [] \<longleftrightarrow> k = 1" "length (attempts_upto results k) = 1 \<longleftrightarrow> k = 1"
    using less.prems by (auto simp: attempts_upto_def)
  show ?case
  proof (cases "transient_failure ?r \<and> k < n")
    case True
    let ?rest = "gh_loop results check n (Suc k) (attempts_upto results k)"
    have run: "gh_loop results check n k (attempts_upto results (k - 1))
        = ?rest\<lparr>gh_runs := k # gh_runs ?rest, gh_sleeps := k # gh_sleeps ?rest\<rparr>"
      using True hist by (subst gh_loop.simps) (simp add: transient_failure_def Let_def)
    have "n - Suc k < n - k" using True by arith
    then have "reads_from results check n (Suc k) ?rest" using less.hyps [of "Suc k"] True by simp
    then obtain m where m: "Suc k \<le> m" "m \<le> n" "gh_runs ?rest = [Suc k..<Suc m]" "gh_sleeps ?rest = [Suc k..<m]"
      "\<forall>j. Suc k \<le> j \<and> j < m \<longrightarrow> transient_failure (results j)"
      "m = n \<or> \<not> transient_failure (results m)" "gh_end ?rest = end_at results check m"
      unfolding reads_from_def by blast
    have "\<forall>j. k \<le> j \<and> j < m \<longrightarrow> transient_failure (results j)" using m(5) True by (metis Suc_leI le_neq_implies_less)
    moreover have "k # [Suc k..<Suc m] = [k..<Suc m]" "k # [Suc k..<m] = [k..<m]" using m(1) by (simp_all add: upt_conv_Cons)
    ultimately show ?thesis unfolding reads_from_def run using m(1,2,6,7)
      by (intro exI [of _ m]) (simp add: m(3,4) del: upt_Suc)
  next
    case False
    have run: "gh_loop results check n k (attempts_upto results (k - 1))
        = \<lparr>gh_end = end_at results check k, gh_runs = [k], gh_sleeps = []\<rparr>"
    proof (cases "gr_code ?r = 0")
      case True
      moreover have "attempts_upto results 0 = []" by (simp add: attempts_upto_def)
      ultimately show ?thesis using first(1) by (subst gh_loop.simps) (auto simp: end_at_def Let_def)
    next
      case code: False
      show ?thesis
      proof (cases "classify_gh_failure ?r = ''permanent''")
        case True
        then show ?thesis using code
          by (subst gh_loop.simps)
            (simp add: hist first(2) end_at_def transient_failure_def finish_at [OF less.prems(1)] Let_def del: One_nat_def)
      next
        case transient: False
        then have "classify_gh_failure ?r = ''transient''" "\<not> k < n"
          using classes [of ?r] False code by (auto simp: transient_failure_def)
        then show ?thesis using code
          by (subst gh_loop.simps)
            (simp add: hist end_at_def transient_failure_def finish_at [OF less.prems(1)] Let_def del: One_nat_def)
      qed
    qed
    show ?thesis unfolding reads_from_def run using False less.prems by (intro exI [of _ k]) auto
  qed
qed

lemma starts_prefix: "starts_with p s \<Longrightarrow> contains p s"
  by (cases s) (auto simp: starts_with_iff)

lemma search_from_literal: "search_from (Lit p) prev s \<longleftrightarrow> contains (py_lower p) (py_lower s)"
  by (induction s arbitrary: prev) (auto simp: py_lower_def starts_with_iff)

lemma search_from_either:
  "r \<in> set rs \<Longrightarrow> search_from r prev s \<Longrightarrow> search_from (Either rs) prev s"
  by (induction s arbitrary: prev) auto

lemma permanent_literal:
  assumes "p \<in> set PERMANENT_TEXTS" and "contains (py_lower p) (py_lower (failure_text r))"
  shows "classify_gh_failure r = ''permanent''"
proof -
  have "search (Lit p) (failure_text r)" using assms(2) by (simp add: search_def search_from_literal)
  then have "search PERMANENT_RE (failure_text r)"
    unfolding search_def PERMANENT_RE_def using assms(1) by (elim search_from_either [rotated]) simp
  then show ?thesis by (simp add: classify_gh_failure_def)
qed

text \<open>Budgets: what every request keeps.\<close>

definition budget_ok :: "quota_budget \<Rightarrow> bool" where
  "budget_ok b \<longleftrightarrow>
     0 \<le> waits_used b \<and> waits_used b \<le> max 0 (max_waits b)
     \<and> QUOTA_WAIT_MARGIN_SECONDS * waits_used b \<le> seconds_waited b \<and> seconds_waited b \<le> max 0 (limit_seconds b)"

lemma new_budget_ok: "budget_ok (new_budget limit)"
  by (simp add: budget_ok_def new_budget_def QUOTA_WAIT_MAX_WAITS_def)

lemma reserve_ok:
  assumes "budget_ok b" and "try_reserve s b = (r, b')"
  shows "budget_ok b' \<and> limit_seconds b' = limit_seconds b \<and> max_waits b' = max_waits b
    \<and> waits_used b' = waits_used b + (if r = None then 0 else 1)
    \<and> seconds_waited b' = seconds_waited b + (case r of None \<Rightarrow> 0 | Some x \<Rightarrow> sleep_seconds x)
    \<and> (\<forall>x. r = Some x \<longrightarrow> sleep_seconds x = max 0 s + QUOTA_WAIT_MARGIN_SECONDS \<and> wait_number x = waits_used b')"
  using assms by (auto simp: try_reserve_def budget_ok_def QUOTA_WAIT_MARGIN_SECONDS_def Let_def split: if_splits)

lemma reserve_all_ok:
  assumes "budget_ok b" and "reserve_all ss b = (rs, b')"
  shows "budget_ok b' \<and> limit_seconds b' = limit_seconds b \<and> max_waits b' = max_waits b
    \<and> waits_used b' = waits_used b + int (length rs) \<and> seconds_waited b' = seconds_waited b + sum_list (map sleep_seconds rs)
    \<and> map wait_number rs = map (\<lambda>k. waits_used b + int k) [1..<Suc (length rs)]
    \<and> (\<forall>x \<in> set rs. sleep_seconds x \<ge> QUOTA_WAIT_MARGIN_SECONDS)"
  using assms
proof (induction ss arbitrary: b rs)
  case (Cons s ss)
  obtain r b1 where one: "try_reserve s b = (r, b1)" by (cases "try_reserve s b")
  obtain rs1 where rest: "reserve_all ss b1 = (rs1, b')" and rs: "rs = (case r of None \<Rightarrow> rs1 | Some x \<Rightarrow> x # rs1)"
    using Cons.prems(2) one by (auto split: prod.splits)
  note ok = reserve_ok [OF Cons.prems(1) one]
  note IH = Cons.IH [OF _ rest]
  show ?case
  proof (cases r)
    case None
    then show ?thesis using ok IH rs by simp
  next
    case (Some x)
    have "map wait_number (x # rs1) = map (\<lambda>k. waits_used b + int k) (1 # map Suc [1..<Suc (length rs1)])"
      using ok IH Some by (simp add: comp_def add.assoc)
    also have "1 # map Suc [1..<Suc (length rs1)] = [1..<Suc (length (x # rs1))]"
      unfolding map_Suc_upt by (simp add: upt_conv_Cons del: upt_Suc)
    finally show ?thesis using ok IH rs Some by (simp del: upt_Suc)
  qed
qed simp

lemma slices_end:
  assumes "wait_slices cancelled signal k remaining = (e, slept)"
  shows "int (length slept) \<le> max 0 remaining \<and> (\<forall>x \<in> set slept. x = 1)
    \<and> (e = Waited \<longleftrightarrow> (\<forall>j. k \<le> j \<and> j < k + nat remaining \<longrightarrow> \<not> cancelled j \<and> \<not> signal j) \<and> \<not> cancelled (k + nat remaining))
    \<and> (e = Waited \<longrightarrow> int (length slept) = max 0 remaining)"
  using assms
proof (induction "nat remaining" arbitrary: k remaining slept)
  case 0
  then show ?case by (auto simp: wait_slices.simps split: if_splits)
next
  case (Suc m)
  then have pos: "remaining > 0" and m: "nat (remaining - 1) = m" by simp_all
  show ?case
  proof (cases "cancelled k \<or> signal k")
    case True
    then have "e = Interrupted" "slept = []" using Suc.prems pos
      by (cases "cancelled k"; simp add: wait_slices.simps [of cancelled signal k remaining] Let_def)+
    then show ?thesis using True pos by (auto intro!: exI [of _ k])
  next
    case False
    then obtain slept' where rest: "wait_slices cancelled signal (Suc k) (remaining - 1) = (e, slept')" "slept = 1 # slept'"
      using Suc.prems pos
      by (auto simp: wait_slices.simps [of _ _ k] QUOTA_WAIT_SLICE_SECONDS_def Let_def min_def split: prod.splits if_splits)
    have step: "(\<forall>j. k \<le> j \<and> j < k + nat remaining \<longrightarrow> \<not> cancelled j \<and> \<not> signal j) \<longleftrightarrow>
        (\<forall>j. Suc k \<le> j \<and> j < Suc k + nat (remaining - 1) \<longrightarrow> \<not> cancelled j \<and> \<not> signal j)"
    proof -
      have "k + nat remaining = Suc k + nat (remaining - 1)" using pos by simp
      then have "(k \<le> j \<and> j < k + nat remaining) \<longleftrightarrow> (j = k \<or> Suc k \<le> j \<and> j < Suc k + nat (remaining - 1))" for j
        by arith
      then show ?thesis using False by auto
    qed
    have "k + nat remaining = Suc k + nat (remaining - 1)" using pos by simp
    then show ?thesis using Suc.hyps(1) [OF m [symmetric] rest(1)] rest(2) pos unfolding step by auto
  qed
qed

section \<open>Properties\<close>

text \<open>C33: A read of GitHub always ends, within its budget.  With a positive budget the command runs at least once
  and at most that often, with one sleep between two runs; it is run again only after a transient failure, so a
  success, a permanent failure and every failure whose text holds one of the permanent markers in any case end it
  at once.  It ends with the last result, alone if it is the first, or with the whole history, which counts as
  exhausted exactly if every run of the budget failed transiently.  With no budget there is no result at all.\<close>

theorem gh_read_ends:
  fixes results :: "nat \<Rightarrow> gh_result" and check :: bool and attempts :: int
  defines "rd \<equiv> run_gh_read results check attempts"
  shows "(attempts \<le> 0 \<longrightarrow> gh_end rd = NoResult \<and> gh_runs rd = [])
    \<and> (attempts > 0 \<longrightarrow>
        (\<exists>m. 1 \<le> m \<and> int m \<le> attempts \<and> gh_runs rd = [1..<Suc m] \<and> gh_sleeps rd = [1..<m]
           \<and> (\<forall>j. 1 \<le> j \<and> j < m \<longrightarrow> transient_failure (results j))
           \<and> (int m = attempts \<or> \<not> transient_failure (results m)) \<and> gh_end rd = end_at results check m))
    \<and> (\<forall>j \<in> set (gh_runs rd). \<forall>p \<in> set PERMANENT_TEXTS.
         contains (py_lower p) (py_lower (failure_text (results j))) \<longrightarrow> last (gh_runs rd) = j)"
proof -
  have loop: "\<exists>m. 1 \<le> m \<and> int m \<le> attempts \<and> gh_runs rd = [1..<Suc m] \<and> gh_sleeps rd = [1..<m]
           \<and> (\<forall>j. 1 \<le> j \<and> j < m \<longrightarrow> transient_failure (results j))
           \<and> (int m = attempts \<or> \<not> transient_failure (results m)) \<and> gh_end rd = end_at results check m"
    if "attempts > 0"
  proof -
    have "reads_from results check (nat attempts) 1 rd"
      using gh_loop_reads [of 1 "nat attempts" results check] that by (simp add: rd_def run_gh_read_def attempts_upto_def)
    then obtain m where "1 \<le> m" "m \<le> nat attempts" "gh_runs rd = [1..<Suc m]" "gh_sleeps rd = [1..<m]"
      "\<forall>j. 1 \<le> j \<and> j < m \<longrightarrow> transient_failure (results j)" "m = nat attempts \<or> \<not> transient_failure (results m)"
      "gh_end rd = end_at results check m" unfolding reads_from_def by blast
    then show ?thesis using that by (intro exI [of _ m]) auto
  qed
  moreover have "attempts \<le> 0 \<Longrightarrow> gh_end rd = NoResult \<and> gh_runs rd = []" by (simp add: rd_def run_gh_read_def)
  moreover have "last (gh_runs rd) = j"
    if "j \<in> set (gh_runs rd)" "p \<in> set PERMANENT_TEXTS" "contains (py_lower p) (py_lower (failure_text (results j)))" for j p
  proof -
    have "attempts > 0" using that(1) by (auto simp: rd_def run_gh_read_def split: if_splits)
    then obtain m where m: "1 \<le> m" "gh_runs rd = [1..<Suc m]" "\<forall>j. 1 \<le> j \<and> j < m \<longrightarrow> transient_failure (results j)"
      using loop by blast
    have "\<not> transient_failure (results j)" using permanent_literal [OF that(2,3)] by (simp add: transient_failure_def)
    then have "j = m" using that(1) m by (auto simp: not_less less_Suc_eq_le)
    then show ?thesis using m by simp
  qed
  ultimately show ?thesis by blast
qed

text \<open>C37: Waiting for a quota is bounded.  Whatever resets a run reports, its budget grants at most two waits, numbered
  in order, of at least a minute each and of no more seconds together than the operator allowed; and a granted
  wait ends: it sleeps one second at a time, finishes after exactly the granted seconds if nothing cancels it, and
  otherwise is interrupted before.\<close>

theorem quota_waits_are_bounded:
  fixes limit :: int and resets :: "int list"
  defines "granted \<equiv> fst (reserve_all resets (new_budget limit))"
  shows "length granted \<le> 2 \<and> sum_list (map sleep_seconds granted) \<le> max 0 limit
    \<and> map wait_number granted = map int [1..<Suc (length granted)]
    \<and> (\<forall>r \<in> set granted. 60 \<le> sleep_seconds r \<and> (\<forall>cancelled signal e slept.
          wait_for_reset cancelled signal r = (e, slept) \<longrightarrow>
            int (length slept) \<le> sleep_seconds r \<and> set slept \<subseteq> {1}
            \<and> (e = Waited \<longleftrightarrow> (\<forall>j < nat (sleep_seconds r). \<not> cancelled j \<and> \<not> signal j) \<and> \<not> cancelled (nat (sleep_seconds r)))
            \<and> (e = Waited \<longrightarrow> int (length slept) = sleep_seconds r)))"
proof -
  obtain b where run: "reserve_all resets (new_budget limit) = (granted, b)"
    by (cases "reserve_all resets (new_budget limit)") (simp add: granted_def)
  note ok = reserve_all_ok [OF new_budget_ok run]
  have "waits_used b = int (length granted)" "seconds_waited b = sum_list (map sleep_seconds granted)"
    "limit_seconds b = limit" "max_waits b = 2" "budget_ok b"
    using ok by (simp_all add: new_budget_def QUOTA_WAIT_MAX_WAITS_def del: upt_Suc)
  then have "length granted \<le> 2" "sum_list (map sleep_seconds granted) \<le> max 0 limit"
    by (simp_all add: budget_ok_def)
  moreover have "map wait_number granted = map int [1..<Suc (length granted)]" using ok by (simp add: new_budget_def)
  moreover have least: "60 \<le> sleep_seconds r" if "r \<in> set granted" for r
    using ok that by (simp add: QUOTA_WAIT_MARGIN_SECONDS_def)
  moreover have "int (length slept) \<le> sleep_seconds r \<and> set slept \<subseteq> {1}
            \<and> (e = Waited \<longleftrightarrow> (\<forall>j < nat (sleep_seconds r). \<not> cancelled j \<and> \<not> signal j) \<and> \<not> cancelled (nat (sleep_seconds r)))
            \<and> (e = Waited \<longrightarrow> int (length slept) = sleep_seconds r)"
    if "r \<in> set granted" "wait_for_reset cancelled signal r = (e, slept)" for r cancelled signal e slept
    using slices_end [OF that(2) [unfolded wait_for_reset_def]] least [OF that(1)] by (auto simp: max_def)
  ultimately show ?thesis by blast
qed

definition ex_results :: "nat \<Rightarrow> gh_result" where
  "ex_results k = (if k = 1 then \<lparr>gr_code = 1, gr_out = None, gr_err = Some ''EOF''\<rparr>
     else \<lparr>gr_code = 0, gr_out = Some ''ok'', gr_err = None\<rparr>)"

lemma ex_results_code: "gr_code (ex_results 2) = 0"
  by (simp add: ex_results_def)

lemma ex_results_classes: "transient_failure (ex_results 1)" "\<not> transient_failure (ex_results 2)"
proof -
  have shown: "failure_text (ex_results 1) = ''EOF'' @ [CHR 0x0A]" by (simp add: failure_text_def or_empty_def ex_results_def)
  have "\<not> search PERMANENT_RE (failure_text (ex_results 1))" unfolding shown
    by (simp add: search_def PERMANENT_RE_def PERMANENT_TEXTS_def status_code_def client_error_def starts_with_def py_lower_def lower_char_def)
  moreover have "search TRANSIENT_RE (failure_text (ex_results 1))" unfolding shown
    by (simp add: search_def TRANSIENT_RE_def TRANSIENT_TEXTS_def status_code_def server_error_def word_at_def first_of_def is_word_def starts_with_def py_lower_def lower_char_def)
  ultimately show "transient_failure (ex_results 1)"
    by (simp add: transient_failure_def classify_gh_failure_def) (simp add: ex_results_def)
  show "\<not> transient_failure (ex_results 2)" by (simp add: transient_failure_def ex_results_def)
qed

theorem gh_read_ends_witness:
  "gh_runs (run_gh_read ex_results True 3) = [1, 2]
   \<and> gh_end (run_gh_read ex_results True 3) = WithHistory (ex_results 2) [attempt_of 1 (ex_results 1)] False"
proof -
  obtain m where m: "1 \<le> m" "gh_runs (run_gh_read ex_results True 3) = [1..<Suc m]"
    "\<forall>j. 1 \<le> j \<and> j < m \<longrightarrow> transient_failure (ex_results j)" "int m = 3 \<or> \<not> transient_failure (ex_results m)"
    "gh_end (run_gh_read ex_results True 3) = end_at ex_results True m"
    using gh_read_ends [of 3 ex_results True] by auto
  have "m \<noteq> 1" using m(4) ex_results_classes(1) by auto
  moreover have "\<not> 2 < m" using m(3) ex_results_classes(2) by auto
  ultimately have "m = 2" using m(1) by simp
  moreover have "[1..<Suc 2] = [1, 2]" by (simp add: upt_rec)
  moreover have "attempts_upto ex_results (2 - 1) = [attempt_of 1 (ex_results 1)]" by (simp add: attempts_upto_def)
  then have "end_at ex_results True 2 = WithHistory (ex_results 2) [attempt_of 1 (ex_results 1)] False"
    unfolding end_at_def Let_def by (simp only: ex_results_code) simp
  ultimately show ?thesis using m(2,5) by simp
qed

theorem quota_waits_are_bounded_witness:
  "map sleep_seconds (fst (reserve_all [30, 100, 5] (new_budget 600))) = [90, 160]
   \<and> sum_list (map sleep_seconds (fst (reserve_all [30, 100, 5] (new_budget 600)))) \<le> 600"
proof -
  have "map sleep_seconds (fst (reserve_all [30, 100, 5] (new_budget 600))) = [90, 160]"
    by (simp add: try_reserve_def new_budget_def QUOTA_WAIT_MAX_WAITS_def QUOTA_WAIT_MARGIN_SECONDS_def Let_def)
  moreover have "sum_list (map sleep_seconds (fst (reserve_all [30, 100, 5] (new_budget 600)))) \<le> max 0 600"
    using quota_waits_are_bounded [of "[30, 100, 5]" 600] by blast
  ultimately show ?thesis by simp
qed

end
