(* ===== verification/Board_Amendment.thy ===== *)
theory Board_Amendment
  imports Ledger_Scheduling Plan_Selection Panel_Evidence Scheduler_Records
begin

text \<open>
  Signed amendments of the reviewer board (\<open>board_amendment.py\<close>): the check of a record, its application to a
  contract of either flow, the chain of amendments, the validation of a posted history against it, and the view
  of the ledger without the removed reviewers.

  The two kinds of contract meet in an interface: what a contract shows and what \<open>dataclasses.replace\<close> does to
  its board.  The texts of comments are cut into records by regular expressions that are not modelled; a record
  here is the decoded JSON object.  The hash function is the parameter \<open>H\<close>.
\<close>

section \<open>Records\<close>

definition REVIEWER_BOARD_AMENDMENT_KIND :: string where "REVIEWER_BOARD_AMENDMENT_KIND = ''reviewer-board-amendment''"
definition REVIEWER_BOARD_AMENDMENT_SCHEMA_VERSION :: int where "REVIEWER_BOARD_AMENDMENT_SCHEMA_VERSION = 1"
definition REVIEWER_BOARD_REMOVAL_REASON :: string where "REVIEWER_BOARD_REMOVAL_REASON = ''backend-unavailable''"
definition REVIEWER_SEAT_REMOVAL_REASON :: string where "REVIEWER_SEAT_REMOVAL_REASON = ''seat-unavailable''"
definition REVIEWER_MIXED_REMOVAL_REASON :: string where "REVIEWER_MIXED_REMOVAL_REASON = ''mixed-unavailable''"
definition REVIEWER_BOARD_RESTORATION_REASON :: string where "REVIEWER_BOARD_RESTORATION_REASON = ''backend-recovered''"

definition REVIEWER_BOARD_AMENDMENT_REASONS :: "string list" where
  "REVIEWER_BOARD_AMENDMENT_REASONS =
     [REVIEWER_BOARD_REMOVAL_REASON, REVIEWER_SEAT_REMOVAL_REASON, REVIEWER_MIXED_REMOVAL_REASON,
      REVIEWER_BOARD_RESTORATION_REASON]"

definition AMENDMENT_RECORD_KEYS :: "string list" where
  "AMENDMENT_RECORD_KEYS =
     [''kind'', ''schema_version'', ''flow'', ''issue'', ''pr_number'', ''original_required_reviewers'', ''policy'',
      ''primary_reviewer'', ''removed_reviewers'', ''effective_from_round'', ''reason'', ''rationale'']"

definition OPTIONAL_AMENDMENT_RECORD_KEYS :: "string list" where
  "OPTIONAL_AMENDMENT_RECORD_KEYS = [''restored_reviewers'']"

record amendment =
  am_flow :: string
  am_issue :: "int option"
  am_pr :: "int option"
  am_original :: "string list"
  am_policy :: string
  am_primary :: "string option"
  am_removed :: "string list"
  am_round :: int
  am_reason :: string
  am_rationale :: string
  am_digest :: string
  am_locator :: string
  am_index :: int
  am_restored :: "string list"

definition amended_board :: "amendment \<Rightarrow> string list \<Rightarrow> string list" where
  "amended_board a base =
     filter (\<lambda>n. n \<in> set (am_original a) - set (am_removed a) \<union> set (am_restored a)) base"

text \<open>\<open>reviewer_board_amendment_payload\<close>: the arguments are the fields of the record.\<close>

definition amendment_payload :: "amendment \<Rightarrow> string option \<Rightarrow> pyval" where
  "amendment_payload a chosen =
     (let why = (case chosen of
                   Some r \<Rightarrow> r
                 | None \<Rightarrow> if am_restored a \<noteq> [] \<and> am_removed a = [] then REVIEWER_BOARD_RESTORATION_REASON
                           else REVIEWER_BOARD_REMOVAL_REASON)
      in PDict
       ([(''kind'', PStr REVIEWER_BOARD_AMENDMENT_KIND),
         (''schema_version'', PInt REVIEWER_BOARD_AMENDMENT_SCHEMA_VERSION),
         (''flow'', PStr (am_flow a)),
         (''issue'', of_opt_int (am_issue a)),
         (''pr_number'', of_opt_int (am_pr a)),
         (''original_required_reviewers'', PList (map PStr (am_original a))),
         (''policy'', PStr (am_policy a)),
         (''primary_reviewer'', of_opt_str (am_primary a)),
         (''removed_reviewers'', PList (map PStr (am_removed a))),
         (''effective_from_round'', PInt (am_round a)),
         (''reason'', PStr why),
         (''rationale'', PStr (am_rationale a))]
        @ (if am_restored a \<noteq> [] then [(''restored_reviewers'', PList (map PStr (am_restored a)))] else [])))"

definition amendment_digest :: "(string \<Rightarrow> string) \<Rightarrow> pyval \<Rightarrow> string" where
  "amendment_digest H payload =
     H (json_canonical (PDict (filter (\<lambda>(k, v). k \<in> set (AMENDMENT_RECORD_KEYS @ OPTIONAL_AMENDMENT_RECORD_KEYS))
          (py_items payload))))"

section \<open>Checking a record\<close>

fun is_positive_int :: "pyval \<Rightarrow> bool" where
  "is_positive_int (PInt n) = (n \<ge> 1)"
| "is_positive_int _ = False"

fun unique_name_list :: "bool \<Rightarrow> pyval \<Rightarrow> bool" where
  "unique_name_list allow_empty (PList xs) =
     ((allow_empty \<or> xs \<noteq> []) \<and> (\<forall>x \<in> set xs. is_str x \<and> nonblank (the_str x)) \<and> no_dups xs)"
| "unique_name_list allow_empty _ = False"

definition repr_strs :: "string list \<Rightarrow> string" where
  "repr_strs xs = py_repr_val (PList (map PStr xs))"

definition names_in :: "pyval \<Rightarrow> string list" where
  "names_in v = (case v of PList xs \<Rightarrow> map the_str xs | _ \<Rightarrow> [])"

text \<open>\<open>Inl ()\<close>: Python raises \<open>TypeError\<close>, because a list or a dict cannot be looked up in a set.\<close>

definition reason_problem :: "string \<Rightarrow> bool \<Rightarrow> bool \<Rightarrow> string \<Rightarrow> string option" where
  "reason_problem flow no_removed no_restored why =
     (if why \<notin> set REVIEWER_BOARD_AMENDMENT_REASONS
        then Some (''reason must be one of '' @ repr_strs (sorted_set REVIEWER_BOARD_AMENDMENT_REASONS))
      else if why \<in> {REVIEWER_SEAT_REMOVAL_REASON, REVIEWER_MIXED_REMOVAL_REASON} \<and> flow \<noteq> ''pr''
        then Some (why @ '' is supported only for pr amendments'')
      else if why \<in> {REVIEWER_SEAT_REMOVAL_REASON, REVIEWER_MIXED_REMOVAL_REASON} \<and> no_removed
        then Some (why @ '' must remove at least one reviewer seat'')
      else if no_restored \<and> why \<notin> {REVIEWER_BOARD_REMOVAL_REASON, REVIEWER_SEAT_REMOVAL_REASON, REVIEWER_MIXED_REMOVAL_REASON}
        then Some ''a removal-only record must give a removal reason''
      else if no_removed \<and> why \<noteq> REVIEWER_BOARD_RESTORATION_REASON
        then Some (''a restoration-only record must give reason `'' @ REVIEWER_BOARD_RESTORATION_REASON @ ''`'')
      else None)"

definition target_problem :: "pyval \<Rightarrow> string option" where
  "target_problem payload =
     (let flow = py_get payload ''flow'' in
      if flow = PStr ''plan'' then
        (if \<not> is_positive_int (py_get payload ''issue'') then Some ''issue must be a positive integer for a plan amendment''
         else if py_get payload ''pr_number'' \<noteq> PNone then Some ''pr_number must be null for a plan amendment'' else None)
      else if flow = PStr ''pr'' then
        (if \<not> is_positive_int (py_get payload ''pr_number'') then Some ''pr_number must be a positive integer for a pr amendment''
         else if py_get payload ''issue'' \<noteq> PNone then Some ''issue must be null for a pr amendment'' else None)
      else Some ''flow must be `plan` or `pr`'')"

definition names_problem :: "pyval \<Rightarrow> string option" where
  "names_problem payload =
     (let removed = py_get payload ''removed_reviewers'';
          given = ''restored_reviewers'' \<in> fst ` set (py_items payload);
          restored = (if given then py_get payload ''restored_reviewers'' else PList []);
          overlap = filter (\<lambda>n. n \<in> set (names_in restored)) (names_in removed)
      in if \<not> unique_name_list False (py_get payload ''original_required_reviewers'')
           then Some ''original_required_reviewers must be a non-empty list of unique names''
         else if \<not> unique_name_list True removed then Some ''removed_reviewers must be a list of unique names''
         else if given \<and> \<not> unique_name_list False restored
           then Some ''restored_reviewers, when present, must be a non-empty list of unique names''
         else if removed = PList [] \<and> restored = PList []
           then Some ''removed_reviewers must be non-empty unless restored_reviewers is present''
         else if overlap \<noteq> [] then Some (''reviewer(s) '' @ repr_strs (sorted_set overlap) @ '' are both removed and restored'')
         else None)"

definition amendment_record_problem :: "pyval \<Rightarrow> unit + string option" where
  "amendment_record_problem payload =
     (let keys = map fst (py_items payload); allowed = AMENDMENT_RECORD_KEYS @ OPTIONAL_AMENDMENT_RECORD_KEYS;
          pol = py_get payload ''policy''; primary = py_get payload ''primary_reviewer'';
          given = py_get payload ''reason''; rationale = py_get payload ''rationale''
      in if \<not> (set AMENDMENT_RECORD_KEYS \<subseteq> set keys \<and> set keys \<subseteq> set allowed)
           then Inr (Some (''missing keys '' @ repr_strs (sorted_set (filter (\<lambda>k. k \<notin> set keys) AMENDMENT_RECORD_KEYS))
                           @ '', unknown keys '' @ repr_strs (sorted_set (filter (\<lambda>k. k \<notin> set allowed) keys))))
         else if py_get payload ''schema_version'' \<noteq> PInt REVIEWER_BOARD_AMENDMENT_SCHEMA_VERSION
           then Inr (Some ''schema_version must be 1'')
         else if target_problem payload \<noteq> None then Inr (target_problem payload)
         else if names_problem payload \<noteq> None then Inr (names_problem payload)
         else if \<not> is_str pol \<or> \<not> nonblank (the_str pol) then Inr (Some ''policy must be a non-empty string'')
         else if primary \<noteq> PNone \<and> (\<not> is_str primary \<or> \<not> nonblank (the_str primary))
           then Inr (Some ''primary_reviewer must be a non-empty string or null'')
         else if \<not> is_positive_int (py_get payload ''effective_from_round'')
           then Inr (Some ''effective_from_round must be a positive integer'')
         else case given of
                PList _ \<Rightarrow> Inl ()
              | PDict _ \<Rightarrow> Inl ()
              | PStr why \<Rightarrow>
                  (case reason_problem (the_str (py_get payload ''flow'')) (names_in (py_get payload ''removed_reviewers'') = [])
                          (''restored_reviewers'' \<notin> set keys) why of
                     Some problem \<Rightarrow> Inr (Some problem)
                   | None \<Rightarrow> if \<not> is_str rationale \<or> \<not> nonblank (the_str rationale)
                             then Inr (Some ''rationale must be a non-empty string'') else Inr None)
              | _ \<Rightarrow> Inr (Some (''reason must be one of '' @ repr_strs (sorted_set REVIEWER_BOARD_AMENDMENT_REASONS))))"

definition opt_int_of :: "pyval \<Rightarrow> int option" where
  "opt_int_of v = (case v of PInt n \<Rightarrow> Some n | _ \<Rightarrow> None)"

definition int_of :: "pyval \<Rightarrow> int" where
  "int_of v = (case v of PInt n \<Rightarrow> n | _ \<Rightarrow> 0)"

definition amendment_of :: "(string \<Rightarrow> string) \<Rightarrow> string \<Rightarrow> int \<Rightarrow> pyval \<Rightarrow> amendment" where
  "amendment_of H locator ix payload =
     \<lparr>am_flow = the_str (py_get payload ''flow''), am_issue = opt_int_of (py_get payload ''issue''),
      am_pr = opt_int_of (py_get payload ''pr_number''),
      am_original = names_in (py_get payload ''original_required_reviewers''), am_policy = the_str (py_get payload ''policy''),
      am_primary = opt_str (py_get payload ''primary_reviewer''), am_removed = names_in (py_get payload ''removed_reviewers''),
      am_round = int_of (py_get payload ''effective_from_round''), am_reason = the_str (py_get payload ''reason''),
      am_rationale = the_str (py_get payload ''rationale''), am_digest = amendment_digest H payload, am_locator = locator,
      am_index = ix, am_restored = names_in (py_get payload ''restored_reviewers'')\<rparr>"

text \<open>One decoded fence of a comment: nothing, a diagnostic, or a record.\<close>

datatype parsed = Elsewhere | Malformed string | Amends amendment

definition parse_amendment_payload :: "(string \<Rightarrow> string) \<Rightarrow> string \<Rightarrow> int \<Rightarrow> pyval \<Rightarrow> unit + parsed" where
  "parse_amendment_payload H locator ix payload =
     (case payload of
        PDict _ \<Rightarrow>
          if py_get payload ''kind'' \<noteq> PStr REVIEWER_BOARD_AMENDMENT_KIND then Inr Elsewhere
          else bindE (amendment_record_problem payload) (\<lambda>problem.
            Inr (case problem of
                   Some why \<Rightarrow> Malformed (locator @ '': malformed reviewer-board amendment record ignored ('' @ why @ '')'')
                 | None \<Rightarrow> Amends (amendment_of H locator ix payload)))
      | _ \<Rightarrow> Inr Elsewhere)"

section \<open>Contracts of both flows\<close>

record ('c, 'e) contract_ops =
  op_board :: "'c \<Rightarrow> string list"
  op_policy :: "'c \<Rightarrow> string"
  op_primary :: "'c \<Rightarrow> string option"
  op_rebuild :: "'c \<Rightarrow> string list \<Rightarrow> 'e + 'c"

definition pr_ops :: "(string \<Rightarrow> string) \<Rightarrow> (contract, sched_error) contract_ops" where
  "pr_ops H =
     \<lparr>op_board = required_reviewers, op_policy = policy, op_primary = primary_reviewer,
      op_rebuild = (\<lambda>c board. mk_contract H (map PStr board) (policy c) (PTuple (map PStr (broad_rules c))) (rules_digest c)
                      (of_opt_str (primary_reviewer c)))\<rparr>"

definition plan_ops :: "(plan_contract, plan_error) contract_ops" where
  "plan_ops =
     \<lparr>op_board = plan_reviewers, op_policy = plan_policy, op_primary = plan_primary,
      op_rebuild = (\<lambda>c board. mk_plan_contract (map PStr board) (plan_policy c) (of_opt_str (plan_primary c)))\<rparr>"

datatype ('c, 'e) amend_error =
    CannotApply string string
  | Unusable string 'e
  | NotFollowing string string
  | PostedBefore string string
  | Conflict "string list" "string list"
  | Unmatched "string list"
  | NeutralDigest int
  | NoContract "string list"
  | DriftFrom 'c string
  | WrongStart string int int

text \<open>The problem that a record has with the board it amends, in the order of the checks.\<close>

definition amend_problem ::
  "('c, 'e) contract_ops \<Rightarrow> 'c \<Rightarrow> amendment \<Rightarrow> string list \<Rightarrow> string list \<Rightarrow> string option" where
  "amend_problem ops original a base removed_before =
     (let required = op_board ops original; pol = op_policy ops original; primary = op_primary ops original;
          unknown = filter (\<lambda>n. n \<notin> set required) (am_removed a);
          already = filter (\<lambda>n. n \<in> set required) (am_restored a);
          never = filter (\<lambda>n. n \<notin> set removed_before \<or> n \<notin> set base) (am_restored a)
      in if am_original a \<noteq> required
           then Some (''its original_required_reviewers '' @ repr_strs (am_original a) @ '' do not match the persisted board ''
                      @ repr_strs required)
         else if am_policy a \<noteq> pol
           then Some (''it names policy '' @ py_repr (am_policy a) @ '' but the persisted policy is '' @ py_repr pol)
         else if am_primary a \<noteq> primary
           then Some (''it names primary '' @ py_repr_val (of_opt_str (am_primary a)) @ '' but the persisted primary is ''
                      @ py_repr_val (of_opt_str primary))
         else if unknown \<noteq> [] then Some (''removed reviewer(s) '' @ repr_strs unknown @ '' are not on the persisted board'')
         else if primary \<noteq> None \<and> the primary \<in> set (am_removed a)
           then Some (''it removes the primary reviewer '' @ the primary @ ''; the primary is immutable'')
         else if already \<noteq> [] then Some (''restored reviewer(s) '' @ repr_strs already @ '' are already on the persisted board'')
         else if never \<noteq> []
           then Some (''restored reviewer(s) '' @ repr_strs never @ '' were never removed by an earlier amendment in this run's ''
                      @ ''chain; a restoration can only re-add a reviewer the chain removed'')
         else if amended_board a base = [] then Some ''it removes every reviewer''
         else None)"

definition amend_contract ::
  "('c, 'e) contract_ops \<Rightarrow> 'c \<Rightarrow> amendment \<Rightarrow> string list \<Rightarrow> string list \<Rightarrow> ('c, 'e) amend_error + 'c" where
  "amend_contract ops original a base removed_before =
     (case amend_problem ops original a base removed_before of
        Some problem \<Rightarrow> Inl (CannotApply (am_locator a) problem)
      | None \<Rightarrow> (case op_rebuild ops original (amended_board a base) of
                   Inl e \<Rightarrow> Inl (Unusable (am_locator a) e)
                 | Inr c \<Rightarrow> Inr c))"

section \<open>The chain\<close>

definition next_links :: "('c, 'e) contract_ops \<Rightarrow> 'c \<Rightarrow> amendment list \<Rightarrow> amendment list" where
  "next_links ops c remaining = sort_key am_index (filter (\<lambda>a. am_original a = op_board ops c) remaining)"

definition follows :: "amendment list \<Rightarrow> amendment \<Rightarrow> ('c, 'e) amend_error + unit" where
  "follows chain a =
     (if chain = [] then Inr ()
      else if am_round a \<le> am_round (last chain) then Inl (NotFollowing (am_locator a) (am_locator (last chain)))
      else if am_index a \<le> am_index (last chain) then Inl (PostedBefore (am_locator a) (am_locator (last chain)))
      else Inr ())"

text \<open>The loop: the contracts and links so far, the records left, and the boards that several records amended.\<close>

function chain_links ::
  "('c, 'e) contract_ops \<Rightarrow> string list \<Rightarrow> 'c list \<Rightarrow> amendment list \<Rightarrow> amendment list
     \<Rightarrow> (string list \<times> amendment list) list
     \<Rightarrow> ('c, 'e) amend_error + 'c list \<times> amendment list \<times> amendment list \<times> (string list \<times> amendment list) list" where
  "chain_links ops base contracts chain remaining contested =
     (let c = last contracts; matches = next_links ops c remaining in
      if matches = [] then Inr (contracts, chain, remaining, contested)
      else
        (let a = hd matches; contested' = (if length matches > 1 then contested @ [(op_board ops c, matches)] else contested) in
         bindE (follows chain a) (\<lambda>_.
         bindE (amend_contract ops c a base (concat (map am_removed chain))) (\<lambda>c'.
         chain_links ops base (contracts @ [c']) (chain @ [a]) (remove1 a remaining) contested'))))"
  by pat_completeness auto

lemma next_link_in:
  assumes "next_links ops c remaining \<noteq> []"
  shows "hd (next_links ops c remaining) \<in> set remaining" and "am_original (hd (next_links ops c remaining)) = op_board ops c"
proof -
  have "hd (next_links ops c remaining) \<in> set (next_links ops c remaining)" using assms by simp
  then show "hd (next_links ops c remaining) \<in> set remaining" "am_original (hd (next_links ops c remaining)) = op_board ops c"
    by (auto simp: next_links_def)
qed

termination chain_links
  by (relation "measure (\<lambda>(_, _, _, _, remaining, _). length remaining)")
    (auto simp: length_remove1 dest: next_link_in(1) length_pos_if_in_set)

definition build_amendment_chain ::
  "('c, 'e) contract_ops \<Rightarrow> 'c \<Rightarrow> amendment list \<Rightarrow> ('c, 'e) amend_error + 'c list \<times> amendment list" where
  "build_amendment_chain ops base amendments =
     bindE (chain_links ops (op_board ops base) [base] [] amendments []) (\<lambda>(contracts, chain, remaining, contested).
     case find (\<lambda>(board, matches). \<exists>a \<in> set matches. a \<in> set remaining) contested of
       Some (board, matches) \<Rightarrow> Inl (Conflict (map am_locator matches) board)
     | None \<Rightarrow> if remaining \<noteq> [] then Inl (Unmatched (map am_locator remaining)) else Inr (contracts, chain))"

section \<open>The history of a surface\<close>

text \<open>What a posted record shows of its schedule.\<close>

record 'c bearing =
  be_index :: int
  be_round :: int
  be_contract :: "'c option"
  be_digest :: "string option"

record 'c lineage =
  ln_contracts :: "'c list"
  ln_amendments :: "amendment list"
  ln_pending :: "amendment list"

text \<open>The number of the link that governs a record: the last one that applies.\<close>

definition governs :: "amendment \<Rightarrow> 'c bearing \<Rightarrow> bool" where
  "governs a r \<longleftrightarrow> am_index a < be_index r \<and> be_round r \<ge> am_round a"

definition governing :: "amendment list \<Rightarrow> 'c bearing \<Rightarrow> nat" where
  "governing chain r =
     fold (\<lambda>(k, a) g. if governs a r then k else g) (zip [1..<Suc (length chain)] chain) 0"

definition link_digest :: "amendment list \<Rightarrow> nat \<Rightarrow> string option" where
  "link_digest chain g = (if g = 0 then None else Some (am_digest (chain ! (g - 1))))"

definition drift_detail :: "'c list \<Rightarrow> amendment list \<Rightarrow> 'c bearing \<Rightarrow> string" where
  "drift_detail contracts chain r =
     (let g = governing chain r; c = the (be_contract r);
          record_text = ''round '' @ int_str (be_round r) @ '' scheduler record (comment '' @ int_str (be_index r + 1) @ '')'';
          under = record_text @ '' was posted under the amendment at '' @ am_locator (chain ! (g - 1))
                    @ '' but does not carry its amended contract and digest''
      in if be_digest r \<noteq> None \<and> the (be_digest r) \<notin> am_digest ` set chain
           then record_text @ '' carries an unknown reviewer-board amendment digest''
         else if g \<noteq> 0 \<and> c = contracts ! (g - 1) \<and> be_digest r = (if g > 1 then Some (am_digest (chain ! (g - 2))) else None)
           then under @ '': it was posted after that amendment comment without the run reading it, and such records are ''
                @ ''never reinterpreted [stale-unread-amendment-record at '' @ am_locator (chain ! (g - 1)) @ '']''
         else if g \<noteq> 0 then under
         else record_text @ '' does not match the run's original contract'')"

definition judged :: "'c list \<Rightarrow> amendment list \<Rightarrow> 'c bearing \<Rightarrow> bool" where
  "judged contracts chain r \<longleftrightarrow>
     be_contract r = Some (contracts ! governing chain r) \<and> be_digest r = link_digest chain (governing chain r)"

definition resolve_contract_lineage ::
  "('c, 'e) contract_ops \<Rightarrow> 'c bearing list \<Rightarrow> amendment list \<Rightarrow> 'c option \<Rightarrow> bool \<Rightarrow> ('c, 'e) amend_error + 'c lineage" where
  "resolve_contract_lineage ops records amendments configured accept_base =
     (let ordered = sort_key be_index records;
          bearing = filter (\<lambda>r. be_contract r \<noteq> None) ordered
      in case find (\<lambda>r. be_contract r = None \<and> be_digest r \<noteq> None) ordered of
           Some r \<Rightarrow> Inl (NeutralDigest (be_index r))
         | None \<Rightarrow>
             if bearing = [] then
               (if amendments \<noteq> [] then Inl (NoContract (map am_locator amendments))
                else Inr \<lparr>ln_contracts = (case configured of None \<Rightarrow> [] | Some c \<Rightarrow> [c]), ln_amendments = [], ln_pending = []\<rparr>)
             else
               bindE (build_amendment_chain ops (the (be_contract (hd bearing))) amendments) (\<lambda>(contracts, chain).
               case find (\<lambda>r. \<not> judged contracts chain r) bearing of
                 Some r \<Rightarrow> Inl (DriftFrom (the (be_contract r)) (drift_detail contracts chain r))
               | None \<Rightarrow>
                   if configured \<noteq> Some (last contracts)
                      \<and> \<not> (accept_base \<and> chain \<noteq> [] \<and> configured = Some (hd contracts))
                   then Inl (DriftFrom (last contracts) ''the configured contract does not match it'')
                   else Inr \<lparr>ln_contracts = contracts, ln_amendments = chain,
                             ln_pending = filter (\<lambda>a. Some (am_digest a) \<notin> be_digest ` set bearing) chain\<rparr>))"

definition current_board :: "('c, 'e) contract_ops \<Rightarrow> 'c lineage \<Rightarrow> string list" where
  "current_board ops ln = (if ln_contracts ln = [] then [] else op_board ops (last (ln_contracts ln)))"

definition lineage_removed :: "('c, 'e) contract_ops \<Rightarrow> 'c lineage \<Rightarrow> string list" where
  "lineage_removed ops ln =
     dict_fromkeys (filter (\<lambda>n. n \<notin> set (current_board ops ln)) (concat (map am_removed (ln_amendments ln))))"

definition restoration_rounds :: "('c, 'e) contract_ops \<Rightarrow> 'c lineage \<Rightarrow> string \<rightharpoonup> int" where
  "restoration_rounds ops ln =
     map_of (rev (concat (map (\<lambda>a. map (\<lambda>n. (n, am_round a)) (filter (\<lambda>n. n \<in> set (current_board ops ln)) (am_restored a)))
       (ln_amendments ln))))"

definition require_amendment_activation :: "'c lineage \<Rightarrow> int \<Rightarrow> ('c, 'e) amend_error + unit" where
  "require_amendment_activation ln start =
     (case find (\<lambda>a. am_round a \<noteq> start) (ln_pending ln) of
        Some a \<Rightarrow> Inl (WrongStart (am_locator a) (am_round a) start)
      | None \<Rightarrow> Inr ())"

text \<open>The records of a surface, without repetitions, in the order of their comments.\<close>

definition distinct_amendments :: "amendment list \<Rightarrow> amendment list" where
  "distinct_amendments records =
     sort_key am_index (fold (\<lambda>a kept. if am_digest a \<in> am_digest ` set kept then kept else kept @ [a]) records [])"

definition added_in_config :: "('c, 'e) contract_ops \<Rightarrow> 'c \<Rightarrow> 'c option \<Rightarrow> string list option" where
  "added_in_config ops persisted configured =
     (case configured of
        None \<Rightarrow> None
      | Some c \<Rightarrow>
          let old = op_board ops persisted; new = op_board ops c; extra = filter (\<lambda>n. n \<notin> set old) new in
          if op_policy ops c \<noteq> op_policy ops persisted \<or> op_primary ops c \<noteq> op_primary ops persisted then None
          else if \<not> set old \<subseteq> set new then None
          else if extra = [] then None else Some extra)"

definition missing_from_config :: "('c, 'e) contract_ops \<Rightarrow> 'c \<Rightarrow> 'c option \<Rightarrow> string list option" where
  "missing_from_config ops persisted configured =
     (case configured of
        None \<Rightarrow> None
      | Some c \<Rightarrow>
          let old = op_board ops persisted; new = op_board ops c; gone = filter (\<lambda>n. n \<notin> set new) old in
          if op_policy ops c \<noteq> op_policy ops persisted \<or> op_primary ops c \<noteq> op_primary ops persisted then None
          else if gone = [] \<or> \<not> set new \<subseteq> set old then None
          else if filter (\<lambda>n. n \<in> set new) old \<noteq> new then None
          else Some gone)"

section \<open>The ledger without removed reviewers\<close>

definition ACTIVE_LEDGER_STATUSES :: "string list" where
  "ACTIVE_LEDGER_STATUSES = [''blocking'', ''same-plan'', ''same-pr'']"

record reassignment =
  rs_item :: string
  rs_removed :: "string list"
  rs_new :: "string list"

definition successors :: "string option \<Rightarrow> string list \<Rightarrow> string list" where
  "successors primary remaining = (case primary of Some p \<Rightarrow> [p] | None \<Rightarrow> remaining)"

definition is_affected :: "string list \<Rightarrow> item \<Rightarrow> bool" where
  "is_affected removed i \<longleftrightarrow>
     status i \<in> set ACTIVE_LEDGER_STATUSES \<and> removed \<noteq> [] \<and> converted_row_id i = None
     \<and> (\<exists>ow \<in> set (owners_or_reviewer i). ow \<in> set removed)"

text \<open>The owners after a removal, each with its state.\<close>

definition new_ownership :: "string list \<Rightarrow> string list \<Rightarrow> item \<Rightarrow> (string \<times> string) list" where
  "new_ownership removed heirs i =
     (let states = owner_state_of i;
          kept = filter (\<lambda>ow. ow \<notin> set removed) (owners_or_reviewer i);
          kept_state = (\<lambda>ow. case states ow of None \<Rightarrow> ''pending'' | Some st \<Rightarrow> st);
          still_pending = filter (\<lambda>ow. states ow \<noteq> Some ''cleared'') kept;
          removed_pending = filter (\<lambda>ow. ow \<in> set removed \<and> states ow \<noteq> Some ''cleared'') (owners_or_reviewer i);
          (owners, state) =
            (if removed_pending \<noteq> [] \<and> still_pending = []
             then (dict_fromkeys (kept @ heirs), \<lambda>ow. if ow \<in> set heirs then ''pending'' else kept_state ow)
             else (kept, kept_state))
      in if owners = [] then map (\<lambda>ow. (ow, ''pending'')) heirs else map (\<lambda>ow. (ow, state ow)) owners)"

definition reassigned_item :: "string list \<Rightarrow> string list \<Rightarrow> item \<Rightarrow> item" where
  "reassigned_item removed heirs i =
     i\<lparr>item.resolution_owners := map fst (new_ownership removed heirs i), owner_states := new_ownership removed heirs i,
       owner_evidence := filter (\<lambda>(ow, _). ow \<notin> set removed) (owner_evidence i),
       owner_dispositions := filter (\<lambda>(ow, _). ow \<notin> set removed) (owner_dispositions i)\<rparr>"

definition reassignment_of :: "string list \<Rightarrow> string list \<Rightarrow> item \<Rightarrow> reassignment" where
  "reassignment_of removed heirs i =
     \<lparr>rs_item = item.item_id i, rs_removed = filter (\<lambda>ow. ow \<in> set removed) (owners_or_reviewer i),
      rs_new = filter (\<lambda>ow. ow \<notin> set (owners_or_reviewer i) \<or> ow \<in> set removed) (map fst (new_ownership removed heirs i))\<rparr>"

definition apply_board_amendment_to_ledger ::
  "(string \<Rightarrow> string) \<Rightarrow> item list \<Rightarrow> string list \<Rightarrow> string list \<Rightarrow> string option \<Rightarrow> ledger_error + item list \<times> reassignment list" where
  "apply_board_amendment_to_ledger H items removed remaining primary =
     (let heirs = successors primary remaining in
      bindE (mapE (\<lambda>i. if is_affected removed i then mk_item H (reassigned_item removed heirs i) else Inr i) items) (\<lambda>items'.
      Inr (items', map (reassignment_of removed heirs) (filter (is_affected removed) items))))"

definition describe_reassignments :: "reassignment list \<Rightarrow> string" where
  "describe_reassignments rs =
     (if rs = [] then ''none''
      else join '', '' (map (\<lambda>r. if rs_new r \<noteq> []
             then rs_item r @ '' ('' @ join '', '' (rs_removed r) @ '' -> '' @ join '', '' (rs_new r) @ '')''
             else rs_item r @ '' (dropped '' @ join '', '' (rs_removed r) @ '')'') rs))"

section \<open>Contracts under amendment\<close>

locale board_contract =
  fixes ops :: "('c, 'e) contract_ops"
  assumes rebuilt: "op_rebuild ops c b = Inr c' \<Longrightarrow>
    op_board ops c' = b \<and> op_policy ops c' = op_policy ops c \<and> op_primary ops c' = op_primary ops c"
begin

lemma amended:
  assumes "amend_contract ops c a base before = Inr c'"
  shows "op_board ops c' = amended_board a base" and "op_board ops c' \<noteq> []"
    and "op_policy ops c' = op_policy ops c" and "op_primary ops c' = op_primary ops c"
    and "am_original a = op_board ops c" and "set (am_removed a) \<subseteq> set (op_board ops c)"
    and "op_primary ops c = Some p \<Longrightarrow> p \<notin> set (am_removed a)"
    and "set (am_restored a) \<inter> set (op_board ops c) = {}" and "set (am_restored a) \<subseteq> set before \<inter> set base"
proof -
  have none: "amend_problem ops c a base before = None" and r: "op_rebuild ops c (amended_board a base) = Inr c'"
    using assms by (auto simp: amend_contract_def split: option.splits sum.splits)
  note r = rebuilt [OF r]
  have facts: "am_original a = op_board ops c" "filter (\<lambda>n. n \<notin> set (op_board ops c)) (am_removed a) = []"
    "\<not> (op_primary ops c \<noteq> None \<and> the (op_primary ops c) \<in> set (am_removed a))"
    "filter (\<lambda>n. n \<in> set (op_board ops c)) (am_restored a) = []"
    "filter (\<lambda>n. n \<notin> set before \<or> n \<notin> set base) (am_restored a) = []" "amended_board a base \<noteq> []"
    using none unfolding amend_problem_def Let_def by (auto split: if_splits)
  show "op_board ops c' = amended_board a base" "op_board ops c' \<noteq> []" "op_policy ops c' = op_policy ops c"
    "op_primary ops c' = op_primary ops c" "am_original a = op_board ops c"
    using r facts(1,6) by auto
  show "set (am_removed a) \<subseteq> set (op_board ops c)" using facts(2) by (auto simp: filter_empty_conv)
  show "op_primary ops c = Some p \<Longrightarrow> p \<notin> set (am_removed a)" using facts(3) by auto
  show "set (am_restored a) \<inter> set (op_board ops c) = {}" using facts(4) by (auto simp: filter_empty_conv)
  show "set (am_restored a) \<subseteq> set before \<inter> set base" using facts(5) by (auto simp: filter_empty_conv)
qed

end

text \<open>One link: from the contract before to the contract after.\<close>

definition link_sound :: "('c, 'e) contract_ops \<Rightarrow> string list \<Rightarrow> amendment list \<Rightarrow> 'c \<Rightarrow> amendment \<Rightarrow> 'c \<Rightarrow> bool" where
  "link_sound ops base before c a c' \<longleftrightarrow>
     op_board ops c' = filter (\<lambda>n. n \<in> set (op_board ops c) \<and> n \<notin> set (am_removed a) \<or> n \<in> set (am_restored a)) base
     \<and> op_board ops c' \<noteq> [] \<and> op_policy ops c' = op_policy ops c \<and> op_primary ops c' = op_primary ops c
     \<and> am_original a = op_board ops c \<and> set (am_removed a) \<subseteq> set (op_board ops c)
     \<and> (\<forall>p. op_primary ops c = Some p \<longrightarrow> p \<notin> set (am_removed a))
     \<and> set (am_restored a) \<subseteq> (\<Union>b \<in> set before. set (am_removed b)) - set (op_board ops c)"

definition chain_sound :: "('c, 'e) contract_ops \<Rightarrow> 'c \<Rightarrow> 'c list \<Rightarrow> amendment list \<Rightarrow> bool" where
  "chain_sound ops c0 contracts chain \<longleftrightarrow>
     length contracts = Suc (length chain) \<and> contracts ! 0 = c0
     \<and> (\<forall>k < length chain. link_sound ops (op_board ops c0) (take k chain) (contracts ! k) (chain ! k) (contracts ! Suc k))
     \<and> sorted_wrt (\<lambda>a b. am_round a < am_round b \<and> am_index a < am_index b) chain"

lemma chain_sound_snoc:
  assumes "chain_sound ops c0 contracts chain" and "link_sound ops (op_board ops c0) chain (last contracts) a c'"
    and "follows chain a = (Inr () :: ('c, 'e) amend_error + unit)"
  shows "chain_sound ops c0 (contracts @ [c']) (chain @ [a])"
proof -
  have len: "length contracts = Suc (length chain)" and ne: "contracts \<noteq> []" using assms(1) by (auto simp: chain_sound_def)
  have last: "last contracts = contracts ! length chain" using len ne by (simp add: last_conv_nth)
  have "am_round b < am_round a \<and> am_index b < am_index a" if "b \<in> set chain" for b
  proof -
    have "b = last chain \<or> am_round b < am_round (last chain) \<and> am_index b < am_index (last chain)"
      using assms(1) that by (cases chain rule: rev_cases) (auto simp: chain_sound_def sorted_wrt_append)
    moreover have "am_round (last chain) < am_round a \<and> am_index (last chain) < am_index a"
      using assms(3) that by (auto simp: follows_def split: if_splits)
    ultimately show ?thesis by auto
  qed
  then have "sorted_wrt (\<lambda>a b. am_round a < am_round b \<and> am_index a < am_index b) (chain @ [a])"
    using assms(1) by (simp add: chain_sound_def sorted_wrt_append)
  moreover have "link_sound ops (op_board ops c0) (take k (chain @ [a])) ((contracts @ [c']) ! k) ((chain @ [a]) ! k) ((contracts @ [c']) ! Suc k)"
    if "k < length (chain @ [a])" for k
    using that assms(1,2) len last by (cases "k = length chain") (auto simp: chain_sound_def nth_append)
  ultimately show ?thesis using len assms(1) ne by (auto simp: chain_sound_def nth_append)
qed

declare chain_links.simps [simp del]

context board_contract begin

lemma links_sound:
  assumes "chain_links ops (op_board ops c0) contracts chain remaining contested = Inr (cs, ch, rest, con)"
    and "chain_sound ops c0 contracts chain"
  shows "chain_sound ops c0 cs ch \<and> mset ch + mset rest = mset chain + mset remaining"
  using assms
proof (induction "length remaining" arbitrary: contracts chain remaining contested rule: less_induct)
  case less
  let ?c = "last contracts" let ?m = "next_links ops ?c remaining" let ?a = "hd ?m"
  show ?case
  proof (cases "?m = []")
    case True
    then show ?thesis using less.prems by (subst (asm) chain_links.simps) (simp add: Let_def)
  next
    case False
    let ?con = "if length ?m > 1 then contested @ [(op_board ops ?c, ?m)] else contested"
    obtain c' where f: "follows chain ?a = (Inr () :: ('c, 'e) amend_error + unit)"
      and c': "amend_contract ops ?c ?a (op_board ops c0) (concat (map am_removed chain)) = Inr c'"
      and rec: "chain_links ops (op_board ops c0) (contracts @ [c']) (chain @ [?a]) (remove1 ?a remaining) ?con = Inr (cs, ch, rest, con)"
      using less.prems(1) False by (subst (asm) chain_links.simps) (auto simp: Let_def bindE_Inr_iff)
    note a = amended [OF c']
    have mem: "?a \<in> set remaining" by (rule next_link_in(1) [OF False])
    then have shorter: "length (remove1 ?a remaining) < length remaining"
      using length_pos_if_in_set [OF mem] by (simp add: length_remove1)
    have "link_sound ops (op_board ops c0) chain ?c ?a c'"
      unfolding link_sound_def using a by (auto simp: amended_board_def intro!: filter_cong)
    then have "chain_sound ops c0 (contracts @ [c']) (chain @ [?a])"
      using chain_sound_snoc [OF less.prems(2) _ f] by blast
    then have "chain_sound ops c0 cs ch \<and> mset ch + mset rest = mset (chain @ [?a]) + mset (remove1 ?a remaining)"
      using less.hyps [OF shorter] rec by blast
    then show ?thesis using mem by simp
  qed
qed

lemma chain_built:
  assumes "build_amendment_chain ops c0 amendments = Inr (contracts, chain)"
  shows "chain_sound ops c0 contracts chain \<and> mset chain = mset amendments"
proof -
  obtain rest con where "chain_links ops (op_board ops c0) [c0] [] amendments [] = Inr (contracts, chain, rest, con)" "rest = []"
    using assms by (auto simp: build_amendment_chain_def bindE_Inr_iff split: option.splits if_splits)
  then show ?thesis using links_sound [of c0 "[c0]" "[]" amendments "[]" contracts chain rest con]
    by (simp add: chain_sound_def)
qed

end

interpretation pr_board: board_contract "pr_ops H" for H
  by unfold_locales (auto simp: pr_ops_def mk_contract_def bindE_Inr_iff comp_def split: if_splits)

interpretation plan_board: board_contract plan_ops
  by unfold_locales (auto simp: plan_ops_def mk_plan_contract_def bindE_Inr_iff comp_def split: if_splits)


lemma chain_sound_bounds:
  assumes "chain_sound ops c0 contracts chain" and "k \<le> length chain"
  shows "set (op_board ops (contracts ! k)) \<subseteq> set (op_board ops c0)"
    and "op_policy ops (contracts ! k) = op_policy ops c0" and "op_primary ops (contracts ! k) = op_primary ops c0"
    and "op_primary ops c0 = Some p \<Longrightarrow> p \<in> set (op_board ops c0) \<Longrightarrow> p \<in> set (op_board ops (contracts ! k))"
  using assms(2)
proof (induction k)
  case 0
  case 1 then show ?case using assms(1) by (simp add: chain_sound_def)
  case 2 then show ?case using assms(1) by (simp add: chain_sound_def)
  case 3 then show ?case using assms(1) by (simp add: chain_sound_def)
  case 4 then show ?case using assms(1) by (simp add: chain_sound_def)
next
  case (Suc k)
  have step: "link_sound ops (op_board ops c0) (take k chain) (contracts ! k) (chain ! k) (contracts ! Suc k)" if "Suc k \<le> length chain"
    using assms(1) that by (simp add: chain_sound_def)
  case 1 then show ?case using step by (auto simp: link_sound_def)
  case 2 then show ?case using step Suc.IH(2) by (simp add: link_sound_def)
  case 3 then show ?case using step Suc.IH(3) by (simp add: link_sound_def)
  case 4 then show ?case using step Suc.IH(3,4) by (auto simp: link_sound_def)
qed

section \<open>Governing links\<close>

lemma governing_snoc: "governing (chain @ [a]) r = (if governs a r then Suc (length chain) else governing chain r)"
proof -
  have "[1..<Suc (length (chain @ [a]))] = [1..<Suc (length chain)] @ [Suc (length chain)]" by simp
  then show ?thesis by (simp add: governing_def del: upt_Suc)
qed

lemma governing_spec:
  "governing chain r \<le> length chain
   \<and> (governing chain r > 0 \<longrightarrow> governs (chain ! (governing chain r - 1)) r)
   \<and> (\<forall>k. governing chain r \<le> k \<and> k < length chain \<longrightarrow> \<not> governs (chain ! k) r)"
proof (induction chain rule: rev_induct)
  case Nil
  then show ?case by (simp add: governing_def)
next
  case (snoc a chain)
  show ?case
  proof (cases "governs a r")
    case True
    then show ?thesis by (auto simp: governing_snoc)
  next
    case False
    have "(chain @ [a]) ! k = chain ! k" if "k < length chain" for k using that by (simp add: nth_append)
    then show ?thesis using False snoc by (auto simp: governing_snoc less_Suc_eq)
  qed
qed

lemma lineage_Inr:
  assumes "resolve_contract_lineage ops records amendments configured accept_base = Inr ln"
    and "\<exists>r \<in> set records. be_contract r \<noteq> None"
  obtains c0 where "build_amendment_chain ops c0 amendments = Inr (ln_contracts ln, ln_amendments ln)"
    and "\<forall>r \<in> set records. be_contract r = None \<longrightarrow> be_digest r = None"
    and "\<forall>r \<in> set records. be_contract r \<noteq> None \<longrightarrow> judged (ln_contracts ln) (ln_amendments ln) r"
    and "configured = Some (last (ln_contracts ln))
       \<or> accept_base \<and> ln_amendments ln \<noteq> [] \<and> configured = Some (hd (ln_contracts ln))"
proof -
  let ?o = "sort_key be_index records" let ?b = "filter (\<lambda>r. be_contract r \<noteq> None) ?o"
  have neutral: "find (\<lambda>r. be_contract r = None \<and> be_digest r \<noteq> None) ?o = None" and some: "?b \<noteq> []"
    using assms by (auto simp: resolve_contract_lineage_def Let_def filter_empty_conv split: option.splits)
  obtain contracts chain where built: "build_amendment_chain ops (the (be_contract (hd ?b))) amendments = Inr (contracts, chain)"
    and j: "find (\<lambda>r. \<not> judged contracts chain r) ?b = None"
    and conf: "\<not> (configured \<noteq> Some (last contracts) \<and> \<not> (accept_base \<and> chain \<noteq> [] \<and> configured = Some (hd contracts)))"
    and ln: "ln_contracts ln = contracts" "ln_amendments ln = chain"
    using assms(1) neutral some unfolding resolve_contract_lineage_def Let_def
    by (auto simp: bindE_Inr_iff split: option.splits if_splits)
  show thesis
  proof (rule that)
    show "build_amendment_chain ops (the (be_contract (hd ?b))) amendments = Inr (ln_contracts ln, ln_amendments ln)"
      using built ln by simp
    show "\<forall>r \<in> set records. be_contract r = None \<longrightarrow> be_digest r = None" using neutral by (auto simp: find_None_iff)
    show "\<forall>r \<in> set records. be_contract r \<noteq> None \<longrightarrow> judged (ln_contracts ln) (ln_amendments ln) r"
      using j ln by (auto simp: find_None_iff)
    show "configured = Some (last (ln_contracts ln))
       \<or> accept_base \<and> ln_amendments ln \<noteq> [] \<and> configured = Some (hd (ln_contracts ln))" using conf ln by auto
  qed
qed

section \<open>The ledger view\<close>

lemma new_ownership_owners:
  assumes "heirs \<noteq> []" and "set heirs \<inter> set removed = {}"
  shows "new_ownership removed heirs i \<noteq> []" and "fst ` set (new_ownership removed heirs i) \<inter> set removed = {}"
  using assms by (auto simp: new_ownership_def Let_def split: if_splits)

lemma dict_of_map: "ow \<in> set xs \<Longrightarrow> dict_of (map (\<lambda>x. (x, f x)) xs) ow = Some (f ow)"
  by (induction xs rule: rev_induct) (auto simp: dict_of_def)


lemma new_ownership_form: "\<exists>f xs. new_ownership removed heirs i = map (\<lambda>ow. (ow, f ow)) xs"
  unfolding new_ownership_def Let_def by (auto split: if_splits)

lemma new_ownership_cleared:
  assumes "(ow, ''cleared'') \<in> set (new_ownership removed heirs i)"
  shows "owner_state_of i ow = Some ''cleared''"
  using assms by (auto simp: new_ownership_def Let_def split: if_splits option.splits)

lemma new_ownership_pending:
  assumes "heirs \<noteq> []" and "pending_owners_of i \<noteq> []"
  shows "\<exists>ow st. (ow, st) \<in> set (new_ownership removed heirs i) \<and> st \<noteq> ''cleared''"
proof -
  let ?kept = "filter (\<lambda>ow. ow \<notin> set removed) (owners_or_reviewer i)"
  let ?st = "\<lambda>ow. case owner_state_of i ow of None \<Rightarrow> ''pending'' | Some st \<Rightarrow> st"
  obtain h where h: "h \<in> set heirs" using assms(1) by (cases heirs) auto
  obtain ow where ow: "ow \<in> set (owners_or_reviewer i)" "owner_state_of i ow \<noteq> Some ''cleared''"
    using assms(2) by (auto simp: pending_owners_of_def filter_empty_conv)
  show ?thesis
  proof (cases "\<exists>o2 \<in> set ?kept. owner_state_of i o2 \<noteq> Some ''cleared''")
    case True
    then obtain o2 where o2: "o2 \<in> set ?kept" "owner_state_of i o2 \<noteq> Some ''cleared''" by blast
    then have "?st o2 \<noteq> ''cleared''" by (auto split: option.split)
    moreover have "(o2, ?st o2) \<in> set (new_ownership removed heirs i)"
      using o2 by (auto simp: new_ownership_def Let_def filter_empty_conv)
    ultimately show ?thesis by blast
  next
    case False
    then have "ow \<in> set removed" using ow by auto
    then have "(h, ''pending'') \<in> set (new_ownership removed heirs i)"
      using False ow h by (auto simp: new_ownership_def Let_def filter_empty_conv)
    then show ?thesis by force
  qed
qed

lemma reassigned_owners:
  assumes "heirs \<noteq> []"  and "set heirs \<inter> set removed = {}"
  shows "owners_or_reviewer (reassigned_item removed heirs i) = map fst (new_ownership removed heirs i)"
    and "ow \<in> set (owners_or_reviewer (reassigned_item removed heirs i)) \<Longrightarrow>
      owner_state_of (reassigned_item removed heirs i) ow = Some st \<longleftrightarrow> (ow, st) \<in> set (new_ownership removed heirs i)"
    and "owner_state_of (reassigned_item removed heirs i) ow = Some st \<Longrightarrow> (ow, st) \<in> set (new_ownership removed heirs i)"
proof -
  let ?n = "new_ownership removed heirs i"
  have ne: "?n \<noteq> []" by (rule new_ownership_owners(1) [OF assms])
  then show o: "owners_or_reviewer (reassigned_item removed heirs i) = map fst ?n"
    by (simp add: owners_or_reviewer_def reassigned_item_def)
  have st: "owner_state_of (reassigned_item removed heirs i) = dict_of ?n"
    using ne by (simp add: owner_state_of_def reassigned_item_def)
  obtain f xs where n: "?n = map (\<lambda>ow. (ow, f ow)) xs" using new_ownership_form by blast
  show "owner_state_of (reassigned_item removed heirs i) ow = Some st \<Longrightarrow> (ow, st) \<in> set ?n"
    unfolding st by (auto simp: dict_of_def dest: map_of_SomeD)
  show "owner_state_of (reassigned_item removed heirs i) ow = Some st \<longleftrightarrow> (ow, st) \<in> set ?n"
    if "ow \<in> set (owners_or_reviewer (reassigned_item removed heirs i))"
    using that unfolding st o n by (auto simp: dict_of_map)
qed

lemma reassigned_wf:
  assumes "wf_item H i"
  shows "wf_item H (reassigned_item removed heirs i)"
proof -
  let ?j = "reassigned_item removed heirs i"
  have same: "authority ?j = authority i" "obligation_kind ?j = obligation_kind i" "lifecycle ?j = lifecycle i"
    "candidate_head_sha ?j = candidate_head_sha i" "failed_head_sha ?j = failed_head_sha i"
    "obligation_identity ?j = obligation_identity i" "sub_items ?j = sub_items i" "evidence_row_ids ?j = evidence_row_ids i"
    "converted_row_ids ?j = converted_row_ids i" "converted_row_id ?j = converted_row_id i"
    "converted_matrix_identity ?j = converted_matrix_identity i" "status ?j = status i"
    by (simp_all add: reassigned_item_def)
  have "validate_item H ?j = validate_item H i" by (rule validate_item_cong) (simp_all add: reassigned_item_def)
  moreover have "check_finding_fields ?j = check_finding_fields i" "check_machine_fields ?j = check_machine_fields i"
    "machine_record ?j = machine_record i"
    by (simp_all only: check_finding_fields_def check_machine_fields_def machine_record_def same)
  ultimately show ?thesis using assms by (simp add: wf_item_iff)
qed

lemma apply_result:
  assumes "\<forall>i \<in> set items. wf_item H i"
  shows "apply_board_amendment_to_ledger H items removed remaining primary
     = Inr (map (\<lambda>i. if is_affected removed i then reassigned_item removed (successors primary remaining) i else i) items,
            map (reassignment_of removed (successors primary remaining)) (filter (is_affected removed) items))"
proof -
  have "mapE (\<lambda>i. if is_affected removed i then mk_item H (reassigned_item removed (successors primary remaining) i) else Inr i) items
     = Inr (map (\<lambda>i. if is_affected removed i then reassigned_item removed (successors primary remaining) i else i) items)"
    using assms by (auto simp: mapE_Inr_iff list_all2_map2 list_all2_same mk_item_id reassigned_wf)
  then show ?thesis by (simp add: apply_board_amendment_to_ledger_def Let_def)
qed

section \<open>Properties\<close>

text \<open>A chain of amendments never widens a board, never touches the primary and never loses a record.  If the
  signed records of a pull request can be chained at all, every one of them is a link, in the order of its comment
  and with increasing rounds; each link removes members of the board before it and restores only reviewers that an
  earlier link removed; every board is a non-empty part of the original in its order, with the same policy, the
  same primary and, if the original has one, the primary in it.\<close>

theorem amended_boards_stay_within:
  assumes "build_amendment_chain (pr_ops H) c0 amendments = Inr (contracts, chain)"
  shows "mset chain = mset amendments \<and> length contracts = Suc (length chain) \<and> contracts ! 0 = c0
    \<and> sorted_wrt (\<lambda>a b. am_round a < am_round b \<and> am_index a < am_index b) chain
    \<and> (\<forall>k < length chain.
         am_original (chain ! k) = required_reviewers (contracts ! k)
         \<and> set (am_removed (chain ! k)) \<subseteq> set (required_reviewers (contracts ! k))
         \<and> set (am_restored (chain ! k)) \<subseteq> (\<Union>b \<in> set (take k chain). set (am_removed b)) - set (required_reviewers (contracts ! k))
         \<and> required_reviewers (contracts ! Suc k)
           = filter (\<lambda>n. n \<in> set (required_reviewers (contracts ! k)) \<and> n \<notin> set (am_removed (chain ! k))
               \<or> n \<in> set (am_restored (chain ! k))) (required_reviewers c0)
         \<and> required_reviewers (contracts ! Suc k) \<noteq> [])
    \<and> (\<forall>k \<le> length chain.
         set (required_reviewers (contracts ! k)) \<subseteq> set (required_reviewers c0)
         \<and> policy (contracts ! k) = policy c0 \<and> primary_reviewer (contracts ! k) = primary_reviewer c0
         \<and> (\<forall>p. primary_reviewer c0 = Some p \<and> p \<in> set (required_reviewers c0) \<longrightarrow> p \<in> set (required_reviewers (contracts ! k))))"
proof -
  have sound: "chain_sound (pr_ops H) c0 contracts chain" and all: "mset chain = mset amendments"
    using pr_board.chain_built [OF assms] by auto
  have o: "op_board (pr_ops H) = required_reviewers" "op_policy (pr_ops H) = policy" "op_primary (pr_ops H) = primary_reviewer"
    by (simp_all add: pr_ops_def)
  note bounds = chain_sound_bounds [OF sound, unfolded o]
  have "link_sound (pr_ops H) (required_reviewers c0) (take k chain) (contracts ! k) (chain ! k) (contracts ! Suc k)"
    if "k < length chain" for k using sound that by (simp add: chain_sound_def o)
  then show ?thesis using sound all bounds by (simp add: chain_sound_def link_sound_def o)
qed

definition ex_base :: contract where
  "ex_base = ex_sha_contract\<lparr>required_reviewers := [''ann'', ''bob'', ''cid'']\<rparr>"

definition ex_removal :: amendment where
  "ex_removal =
     \<lparr>am_flow = ''pr'', am_issue = None, am_pr = Some 7, am_original = [''ann'', ''bob'', ''cid''],
      am_policy = ''primary-then-panel'', am_primary = Some ''ann'', am_removed = [''cid''], am_round = 3,
      am_reason = ''backend-unavailable'', am_rationale = ''down'', am_digest = ''d1'', am_locator = ''PR #7 comment 5'',
      am_index = 4, am_restored = []\<rparr>"

lemma ex_rebuild: "op_rebuild (pr_ops ex_sha) ex_base [''ann'', ''bob''] = Inr ex_sha_contract"
  using mk_contract_id [OF ex_sha_facts(2)] by (simp add: pr_ops_def ex_base_def) (simp add: ex_sha_contract_def)

lemma ex_built:
  "\<exists>c1. build_amendment_chain (pr_ops ex_sha) ex_base [ex_removal] = Inr ([ex_base, c1], [ex_removal])
     \<and> required_reviewers c1 = [''ann'', ''bob'']"
proof -
  let ?o = "pr_ops ex_sha"
  have b: "op_board ?o ex_base = [''ann'', ''bob'', ''cid'']" by (simp add: pr_ops_def ex_base_def)
  have p: "amend_problem ?o ex_base ex_removal [''ann'', ''bob'', ''cid''] [] = None"
    by (simp add: amend_problem_def pr_ops_def ex_base_def ex_removal_def ex_sha_contract_def amended_board_def Let_def)
  have a: "amended_board ex_removal [''ann'', ''bob'', ''cid''] = [''ann'', ''bob'']" by (simp add: amended_board_def ex_removal_def)
  obtain c1 where c1: "op_rebuild ?o ex_base [''ann'', ''bob''] = Inr c1" using ex_rebuild by blast
  have m: "next_links ?o ex_base [ex_removal] = [ex_removal]" by (simp add: next_links_def b) (simp add: ex_removal_def)
  have l1: "chain_links ?o (op_board ?o ex_base) [ex_base] [] [ex_removal] []
      = chain_links ?o (op_board ?o ex_base) [ex_base, c1] [ex_removal] [] []"
    by (subst chain_links.simps) (simp add: m follows_def amend_contract_def b p a c1)
  have l2: "chain_links ?o (op_board ?o ex_base) [ex_base, c1] [ex_removal] [] []
      = (Inr ([ex_base, c1], [ex_removal], [], []) :: (contract, sched_error) amend_error + _)"
    by (subst chain_links.simps) (simp add: next_links_def)
  have "required_reviewers c1 = [''ann'', ''bob'']" using pr_board.rebuilt [OF c1] by (simp add: pr_ops_def)
  then show ?thesis using l1 l2 by (simp add: build_amendment_chain_def)
qed

theorem amended_boards_stay_within_witness:
  "\<exists>c1. build_amendment_chain (pr_ops ex_sha) ex_base [ex_removal] = Inr ([ex_base, c1], [ex_removal])
     \<and> policy c1 = policy ex_base \<and> required_reviewers c1 = [''ann'', ''bob'']"
proof -
  obtain c1 where c1: "build_amendment_chain (pr_ops ex_sha) ex_base [ex_removal] = Inr ([ex_base, c1], [ex_removal])"
    "required_reviewers c1 = [''ann'', ''bob'']" using ex_built by blast
  then show ?thesis using amended_boards_stay_within [OF c1(1)] by (auto dest!: spec [of _ "1::nat"])
qed


definition ex_bearing :: "contract bearing" where
  "ex_bearing = \<lparr>be_index = 2, be_round = 1, be_contract = Some ex_base, be_digest = None\<rparr>"




text \<open>A decoded record whose reason is a list or a dict is not ignored with a diagnostic: the check raises.\<close>

lemma unhashable_reason_raises:
  "parse_amendment_payload H locator ix
     (PDict (map (\<lambda>(k, v). (k, if k = ''reason'' then PList [] else v)) (py_items (amendment_payload ex_removal None)))) = Inl ()"
  by (simp add: parse_amendment_payload_def amendment_payload_def amendment_record_problem_def target_problem_def names_problem_def
      ex_removal_def AMENDMENT_RECORD_KEYS_def OPTIONAL_AMENDMENT_RECORD_KEYS_def REVIEWER_BOARD_AMENDMENT_KIND_def
      REVIEWER_BOARD_AMENDMENT_SCHEMA_VERSION_def nonblank_def strip_def lstrip_def rstrip_def is_space_def names_in_def Let_def)

end
