(* ===== verification/Workdir_Claims.thy ===== *)
theory Workdir_Claims
  imports Text_Ops
begin

text \<open>
  Claims on agent checkouts (\<open>workdir_claims.py\<close>): several processes, each with its own registry, that share a
  directory of lock files and holder records.  The operating system appears as the lock table (\<open>flock\<close> on a
  POSIX host) and the holder records on disk; a crash drops the locks of a process and leaves its records.

  An operation of the code that holds the registry lock of its process is split where other processes can act in
  between: after a lock is taken and before its record is written, and after the record is removed and before
  the lock is released.  Digests of paths, the root directory and the clock are parameters.
\<close>

section \<open>State\<close>

record owner =
  run_id :: string
  ow_command :: string
  ow_number :: "int option"
  ow_target :: string

record holder =
  h_pid :: int
  h_run :: string
  h_repo :: string
  h_command :: string
  h_number :: "int option"
  h_target :: string
  h_agent :: string
  h_path :: string
  h_started :: string

record claim =
  cl_owner :: owner
  cl_meta :: holder

datatype phase = Idle | Writing string claim | Unlocking string

record process =
  registry :: "(string \<times> claim) list"
  phase :: phase
  finalizers :: "owner \<rightharpoonup> string list"
  live_runs :: nat

record system =
  locks :: "string \<rightharpoonup> int"
  metas :: "string \<rightharpoonup> holder"
  procs :: "int \<Rightarrow> process"

record claim_env =
  key_of :: "string \<Rightarrow> string"
  claim_root :: string

definition new_process :: process where
  "new_process = \<lparr>registry = [], phase = Idle, finalizers = Map.empty, live_runs = 0\<rparr>"

definition with_proc :: "int \<Rightarrow> (process \<Rightarrow> process) \<Rightarrow> system \<Rightarrow> system" where
  "with_proc p f s = s\<lparr>procs := (procs s)(p := f (procs s p))\<rparr>"

definition claimed :: "system \<Rightarrow> int \<Rightarrow> string \<rightharpoonup> claim" where
  "claimed s p = map_of (registry (procs s p))"

section \<open>Owners and holders\<close>

datatype claim_error = NoScope | WorkdirClaimed string | WriteFailed | BadOwner string

definition NUMBERED_LABELS :: "(string \<times> string) list" where
  "NUMBERED_LABELS = [(''issue'', ''issue''), (''pr'', ''PR''), (''discuss'', ''discuss'')]"

definition UNNUMBERED_COMMANDS :: "string list" where
  "UNNUMBERED_COMMANDS = [''task'', ''managed-pr'', ''library'']"

definition target_for :: "string \<Rightarrow> int option \<Rightarrow> string option \<Rightarrow> claim_error + string" where
  "target_for command num head =
     (let scope = ''workdir claim scope for '' @ py_repr command;
          numbered = map_of NUMBERED_LABELS command
      in if numbered \<noteq> None \<and> (case num of None \<Rightarrow> True | Some n \<Rightarrow> n < 1)
           then Inl (BadOwner (scope @ '' requires a positive number.''))
         else if numbered = None \<and> command \<in> set UNNUMBERED_COMMANDS \<and> num \<noteq> None
           then Inl (BadOwner (scope @ '' must not carry a number.''))
         else if numbered = None \<and> command \<notin> set UNNUMBERED_COMMANDS
           then Inl (BadOwner (''workdir claim scope has unknown command '' @ py_repr command @ ''.''))
         else if command = ''managed-pr'' then
           (case head of
              Some h \<Rightarrow> if strip h = [] then Inl (BadOwner (scope @ '' requires a head branch.''))
                         else Inr (''managed-pr from '' @ h)
            | None \<Rightarrow> Inl (BadOwner (scope @ '' requires a head branch.'')))
         else if head \<noteq> None then Inl (BadOwner (scope @ '' must not carry a head branch.''))
         else Inr (case (numbered, num) of
                     (Some label, Some n) \<Rightarrow> label @ '' #'' @ int_str n
                   | _ \<Rightarrow> command))"

definition holder_complete :: "holder \<Rightarrow> bool" where
  "holder_complete h \<longleftrightarrow>
     [] \<notin> {h_run h, h_repo h, h_command h, h_target h, h_agent h, h_path h, h_started h}"

text \<open>Three tries at a record that does not change during them.\<close>

definition read_metadata :: "system \<Rightarrow> string \<Rightarrow> holder option" where
  "read_metadata s k = (case metas s k of None \<Rightarrow> None | Some h \<Rightarrow> if holder_complete h then Some h else None)"

definition lock_path :: "claim_env \<Rightarrow> string \<Rightarrow> string" where
  "lock_path env k = claim_root env @ ''/'' @ k @ ''.lock''"

definition describe_holder :: "claim_env \<Rightarrow> string \<Rightarrow> string \<Rightarrow> holder option \<Rightarrow> string" where
  "describe_holder env path agent holder =
     (let lock = lock_path env (key_of env path);
          place = ''Agent checkout '' @ path @ '' ('' @ agent @ '') is already claimed by another agent-loop run'';
          advice = ''Wait for it to finish, or pass an explicit --'' @ agent @ ''-dir.''
      in case holder of
           None \<Rightarrow> place @ '': unidentified holder (holder metadata missing or unreadable); lock file: '' @ lock @ ''. '' @ advice
         | Some h \<Rightarrow>
             place @ '': pid '' @ int_str (h_pid h) @ '', run_id '' @ h_run h @ '', repo '' @ h_repo h @ '', command '' @ h_command h
             @ '', target '' @ h_target h @ '', started '' @ h_started h @ ''; lock file: '' @ lock @ ''. '' @ advice)"

section \<open>Acquiring\<close>

datatype acquire_result = Already | Refused string | Locking

definition new_claim :: "int \<Rightarrow> owner \<Rightarrow> string \<Rightarrow> string \<Rightarrow> string \<Rightarrow> string \<Rightarrow> claim" where
  "new_claim p ow path agent repo started =
     \<lparr>cl_owner = ow,
      cl_meta = \<lparr>h_pid = p, h_run = run_id ow, h_repo = repo, h_command = ow_command ow, h_number = ow_number ow,
                 h_target = ow_target ow, h_agent = agent, h_path = path, h_started = started\<rparr>\<rparr>"

text \<open>Up to the lock of the file.\<close>

definition acquire_start ::
  "claim_env \<Rightarrow> int \<Rightarrow> owner \<Rightarrow> string \<Rightarrow> string \<Rightarrow> string \<Rightarrow> string \<Rightarrow> system \<Rightarrow> acquire_result \<times> system" where
  "acquire_start env p ow path agent repo started s =
     (let k = key_of env path in
      case claimed s p k of
        Some c \<Rightarrow> if cl_owner c = ow then (Already, s)
                   else (Refused (describe_holder env path agent (Some (cl_meta c))), s)
      | None \<Rightarrow>
          if locks s k \<noteq> None then (Refused (describe_holder env path agent (read_metadata s k)), s)
          else (Locking,
                with_proc p (\<lambda>pr. pr\<lparr>phase := Writing k (new_claim p ow path agent repo started)\<rparr>)
                  (s\<lparr>locks := (locks s)(k \<mapsto> p)\<rparr>)))"

text \<open>From the record to the registry; without the record the file is closed, which unlocks it.\<close>

definition acquire_finish :: "int \<Rightarrow> bool \<Rightarrow> system \<Rightarrow> system" where
  "acquire_finish p written s =
     (case phase (procs s p) of
        Writing k c \<Rightarrow>
          if written
          then with_proc p (\<lambda>pr. pr\<lparr>phase := Idle, registry := registry pr @ [(k, c)]\<rparr>) (s\<lparr>metas := (metas s)(k \<mapsto> cl_meta c)\<rparr>)
          else with_proc p (\<lambda>pr. pr\<lparr>phase := Idle\<rparr>) (s\<lparr>locks := (locks s)(k := None)\<rparr>)
      | _ \<Rightarrow> s)"

definition acquire_workdir_claim ::
  "claim_env \<Rightarrow> int \<Rightarrow> owner option \<Rightarrow> string \<Rightarrow> string \<Rightarrow> string \<Rightarrow> string \<Rightarrow> bool \<Rightarrow> system \<Rightarrow> (claim_error + bool) \<times> system" where
  "acquire_workdir_claim env p active path agent repo started written s =
     (case active of
        None \<Rightarrow> (Inl NoScope, s)
      | Some ow \<Rightarrow>
          (case acquire_start env p ow path agent repo started s of
             (Already, s') \<Rightarrow> (Inr False, s')
           | (Refused why, s') \<Rightarrow> (Inl (WorkdirClaimed why), s')
           | (Locking, s') \<Rightarrow> ((if written then Inr True else Inl WriteFailed), acquire_finish p written s')))"

section \<open>Releasing\<close>

text \<open>The claim leaves the registry, and its record is removed if it can be read and is still that of this run.\<close>

definition release_start :: "int \<Rightarrow> bool \<Rightarrow> string \<Rightarrow> system \<Rightarrow> system" where
  "release_start p readable k s =
     (case claimed s p k of
        None \<Rightarrow> s
      | Some c \<Rightarrow>
          with_proc p (\<lambda>pr. pr\<lparr>phase := Unlocking k, registry := filter (\<lambda>e. fst e \<noteq> k) (registry pr)\<rparr>)
            (case metas s k of
               Some h \<Rightarrow> if readable \<and> h_pid h = p \<and> h_run h = run_id (cl_owner c)
                          then s\<lparr>metas := (metas s)(k := None)\<rparr> else s
             | None \<Rightarrow> s))"

definition release_finish :: "int \<Rightarrow> system \<Rightarrow> system" where
  "release_finish p s =
     (case phase (procs s p) of
        Unlocking k \<Rightarrow> with_proc p (\<lambda>pr. pr\<lparr>phase := Idle\<rparr>) (s\<lparr>locks := (locks s)(k := None)\<rparr>)
      | _ \<Rightarrow> s)"

definition release_claim :: "int \<Rightarrow> (string \<Rightarrow> bool) \<Rightarrow> string \<Rightarrow> system \<Rightarrow> system" where
  "release_claim p readable k s = (if claimed s p k = None then s else release_finish p (release_start p (readable k) k s))"

definition release_workdir_claims :: "int \<Rightarrow> (string \<Rightarrow> bool) \<Rightarrow> owner \<Rightarrow> system \<Rightarrow> system" where
  "release_workdir_claims p readable ow s =
     fold (release_claim p readable) (map fst (filter (\<lambda>e. cl_owner (snd e) = ow) (registry (procs s p)))) s"

text \<open>\<open>probe_free_claim\<close>: what its block sees; the probe lock is gone after it.\<close>

definition probe_free_claim :: "claim_env \<Rightarrow> int \<Rightarrow> string \<Rightarrow> system \<Rightarrow> bool" where
  "probe_free_claim env p path s \<longleftrightarrow> claimed s p (key_of env path) = None \<and> locks s (key_of env path) = None"

text \<open>The end of a process: its files are closed, its memory is gone, its records stay.\<close>

definition crash :: "int \<Rightarrow> system \<Rightarrow> system" where
  "crash p s = s\<lparr>locks := (\<lambda>k. if locks s k = Some p then None else locks s k), procs := (procs s)(p := new_process)\<rparr>"

section \<open>All checkouts of a run\<close>

text \<open>\<open>required\<close> is the sorted set of agents; two agents may share a checkout.\<close>

fun unseen_paths :: "claim_env \<Rightarrow> string set \<Rightarrow> (string \<times> string) list \<Rightarrow> (string \<times> string) list" where
  "unseen_paths env seen [] = []"
| "unseen_paths env seen ((agent, path) # rest) =
     (if key_of env path \<in> seen then unseen_paths env seen rest
      else (agent, path) # unseen_paths env (insert (key_of env path) seen) rest)"

definition agent_paths :: "claim_env \<Rightarrow> (string \<Rightarrow> string) \<Rightarrow> string list \<Rightarrow> (string \<times> string) list" where
  "agent_paths env workdir required = unseen_paths env {} (map (\<lambda>agent. (agent, workdir agent)) (sorted_set required))"

fun claim_each ::
  "claim_env \<Rightarrow> int \<Rightarrow> owner option \<Rightarrow> string \<Rightarrow> (string \<Rightarrow> string) \<Rightarrow> (string \<Rightarrow> bool) \<Rightarrow> (string \<Rightarrow> bool)
     \<Rightarrow> (string \<times> string) list \<Rightarrow> string list \<Rightarrow> system \<Rightarrow> (claim_error + string list) \<times> system" where
  "claim_each env p active repo started written readable [] taken s = (Inr taken, s)"
| "claim_each env p active repo started written readable ((agent, path) # rest) taken s =
     (case acquire_workdir_claim env p active path agent repo (started path) (written path) s of
        (Inr new, s') \<Rightarrow>
          claim_each env p active repo started written readable rest (if new then taken @ [key_of env path] else taken) s'
      | (Inl e, s') \<Rightarrow> (Inl e, fold (release_claim p readable) taken s'))"

definition claim_agent_workdirs ::
  "claim_env \<Rightarrow> int \<Rightarrow> owner option \<Rightarrow> string \<Rightarrow> (string \<Rightarrow> string) \<Rightarrow> (string \<Rightarrow> bool) \<Rightarrow> (string \<Rightarrow> bool)
     \<Rightarrow> (string \<times> string) list \<Rightarrow> system \<Rightarrow> (claim_error + string list) \<times> system" where
  "claim_agent_workdirs env p active repo started written readable paths s =
     claim_each env p active repo started written readable paths [] s"

section \<open>The scope of a run\<close>

definition register_run_finalizer :: "int \<Rightarrow> owner option \<Rightarrow> string \<Rightarrow> system \<Rightarrow> (claim_error + bool) \<times> system" where
  "register_run_finalizer p active key s =
     (case active of
        None \<Rightarrow> (Inl NoScope, s)
      | Some ow \<Rightarrow>
          (let keys = (case finalizers (procs s p) ow of None \<Rightarrow> [] | Some ks \<Rightarrow> ks) in
           if key \<in> set keys then (Inr False, s)
           else (Inr True, with_proc p (\<lambda>pr. pr\<lparr>finalizers := (finalizers pr)(ow \<mapsto> keys @ [key])\<rparr>) s)))"

text \<open>The callbacks run in reverse order; a failing one is reported and skipped.\<close>

definition run_finalizers :: "int \<Rightarrow> owner \<Rightarrow> system \<Rightarrow> string list \<times> system" where
  "run_finalizers p ow s =
     (rev (case finalizers (procs s p) ow of None \<Rightarrow> [] | Some ks \<Rightarrow> ks),
      with_proc p (\<lambda>pr. pr\<lparr>finalizers := (finalizers pr)(ow := None)\<rparr>) s)"

text \<open>Whether the hooks of a first run are called, and the new count.\<close>

definition enter_live_run :: "int \<Rightarrow> system \<Rightarrow> bool \<times> system" where
  "enter_live_run p s = (live_runs (procs s p) = 0, with_proc p (\<lambda>pr. pr\<lparr>live_runs := Suc (live_runs pr)\<rparr>) s)"

definition exit_live_run :: "int \<Rightarrow> system \<Rightarrow> system" where
  "exit_live_run p s = with_proc p (\<lambda>pr. pr\<lparr>live_runs := live_runs pr - 1\<rparr>) s"

text \<open>The body may raise: the clean-up is the same.  The result carries the callbacks run at the end.\<close>

definition workdir_claim_scope ::
  "int \<Rightarrow> (string \<Rightarrow> bool) \<Rightarrow> owner option \<Rightarrow> string \<Rightarrow> string option \<Rightarrow> int option \<Rightarrow> string option
     \<Rightarrow> (owner \<Rightarrow> system \<Rightarrow> system) \<Rightarrow> system \<Rightarrow> (claim_error + string list) \<times> system" where
  "workdir_claim_scope p readable active fresh command num head body s =
     (case active of
        Some ow \<Rightarrow> (Inr [], body ow s)
      | None \<Rightarrow>
          (let cmd = (case command of None \<Rightarrow> ''library'' | Some c \<Rightarrow> c) in
           case target_for cmd num head of
             Inl e \<Rightarrow> (Inl e, s)
           | Inr target \<Rightarrow>
               (let ow = \<lparr>run_id = fresh, ow_command = cmd, ow_number = num, ow_target = target\<rparr>;
                    (ran, s') = run_finalizers p ow (body ow (snd (enter_live_run p s)))
                in (Inr ran, exit_live_run p (release_workdir_claims p readable ow s')))))"

section \<open>Steps of several processes\<close>

inductive claim_step :: "claim_env \<Rightarrow> system \<Rightarrow> system \<Rightarrow> bool" for env where
  start: "phase (procs s p) = Idle \<Longrightarrow> claim_step env s (snd (acquire_start env p ow path agent repo started s))"
| finish: "claim_step env s (acquire_finish p written s)"
| remove: "phase (procs s p) = Idle \<Longrightarrow> claim_step env s (release_start p readable k s)"
| unlock: "claim_step env s (release_finish p s)"
| crash: "claim_step env s (crash p s)"
| scope: "claim_step env s (with_proc p (\<lambda>pr. pr\<lparr>finalizers := f, live_runs := n\<rparr>) s)"

text \<open>At the start nobody holds a lock; records of earlier runs may be left.\<close>

definition fresh_system :: "(string \<rightharpoonup> holder) \<Rightarrow> system" where
  "fresh_system left = \<lparr>locks = Map.empty, metas = left, procs = (\<lambda>_. new_process)\<rparr>"

inductive claims_reachable :: "claim_env \<Rightarrow> system \<Rightarrow> bool" for env where
  fresh: "claims_reachable env (fresh_system left)"
| step: "claims_reachable env s \<Longrightarrow> claim_step env s t \<Longrightarrow> claims_reachable env t"

section \<open>The invariant\<close>

definition names_holder :: "int \<Rightarrow> claim \<Rightarrow> bool" where
  "names_holder p c \<longleftrightarrow> h_pid (cl_meta c) = p \<and> h_run (cl_meta c) = run_id (cl_owner c)"

definition busy :: "system \<Rightarrow> int \<Rightarrow> string \<Rightarrow> bool" where
  "busy s p k \<longleftrightarrow> (\<exists>c. phase (procs s p) = Writing k c) \<or> phase (procs s p) = Unlocking k"

definition claims_ok :: "system \<Rightarrow> bool" where
  "claims_ok s \<longleftrightarrow>
     (\<forall>p k c. claimed s p k = Some c \<longrightarrow> locks s k = Some p \<and> metas s k = Some (cl_meta c) \<and> names_holder p c)
     \<and> (\<forall>p k. busy s p k \<longrightarrow> locks s k = Some p \<and> claimed s p k = None)
     \<and> (\<forall>p k c. phase (procs s p) = Writing k c \<longrightarrow> names_holder p c)
     \<and> (\<forall>p k. locks s k = Some p \<longrightarrow> claimed s p k \<noteq> None \<or> busy s p k)"

lemma claims_okI:
  assumes "\<And>p k c. claimed s p k = Some c \<Longrightarrow> locks s k = Some p \<and> metas s k = Some (cl_meta c) \<and> names_holder p c"
    and "\<And>p k. busy s p k \<Longrightarrow> locks s k = Some p \<and> claimed s p k = None"
    and "\<And>p k c. phase (procs s p) = Writing k c \<Longrightarrow> names_holder p c"
    and "\<And>p k. locks s k = Some p \<Longrightarrow> claimed s p k \<noteq> None \<or> busy s p k"
  shows "claims_ok s"
  using assms unfolding claims_ok_def by blast

lemma claims_okD:
  assumes "claims_ok s"
  shows "claimed s p k = Some c \<Longrightarrow> locks s k = Some p \<and> metas s k = Some (cl_meta c) \<and> names_holder p c"
    and "busy s p k \<Longrightarrow> locks s k = Some p \<and> claimed s p k = None"
    and "phase (procs s p) = Writing k c \<Longrightarrow> names_holder p c"
    and "locks s k = Some p \<Longrightarrow> claimed s p k \<noteq> None \<or> busy s p k"
  using assms unfolding claims_ok_def by blast+

lemma with_proc_simps [simp]:
  "locks (with_proc p f s) = locks s" "metas (with_proc p f s) = metas s"
  "procs (with_proc p f s) q = (if q = p then f (procs s p) else procs s q)"
  by (simp_all add: with_proc_def)

lemma claimed_with_proc:
  "claimed (with_proc p f s) q = (if q = p then map_of (registry (f (procs s p))) else claimed s q)"
  by (simp add: claimed_def)

lemma claimed_other [simp]:
  "claimed (s\<lparr>locks := l\<rparr>) = claimed s" "claimed (s\<lparr>metas := m\<rparr>) = claimed s"
  by (simp_all add: claimed_def fun_eq_iff)

lemma map_of_without: "map_of (filter (\<lambda>e. fst e \<noteq> k) xs) = (map_of xs)(k := None)"
  by (induction xs) (auto simp: fun_eq_iff)

lemma fresh_ok: "claims_ok (fresh_system left)"
  by (simp add: claims_ok_def fresh_system_def claimed_def busy_def new_process_def)

lemma acquire_start_ok:
  assumes "claims_ok s" and "phase (procs s p) = Idle"
  shows "claims_ok (snd (acquire_start env p ow path agent repo started s))"
proof (cases "claimed s p (key_of env path) = None \<and> locks s (key_of env path) = None")
  case False
  then show ?thesis using assms(1) by (auto simp: acquire_start_def Let_def split: option.splits)
next
  case True
  let ?k = "key_of env path" and ?c = "new_claim p ow path agent repo started"
  let ?t = "with_proc p (\<lambda>pr. pr\<lparr>phase := Writing ?k ?c\<rparr>) (s\<lparr>locks := (locks s)(?k \<mapsto> p)\<rparr>)"
  have t: "snd (acquire_start env p ow path agent repo started s) = ?t" using True by (simp add: acquire_start_def Let_def)
  have cl: "claimed ?t = claimed s" by (auto simp: claimed_def fun_eq_iff)
  have nobody: "\<not> busy s q ?k" "claimed s q ?k = None" for q
    using True claims_okD(1,2) [OF assms(1), of q ?k] by (auto intro: option.exhaust [of "claimed s q ?k"])
  have busy: "busy ?t q k \<longleftrightarrow> (if q = p then k = ?k else busy s q k)" for q k by (auto simp: busy_def)
  show ?thesis unfolding t
  proof (rule claims_okI)
    fix q k c assume "claimed ?t q k = Some c"
    then have "claimed s q k = Some c" by (simp add: cl)
    then show "locks ?t k = Some q \<and> metas ?t k = Some (cl_meta c) \<and> names_holder q c"
      using claims_okD(1) [OF assms(1)] nobody(2) by (cases "k = ?k") auto
  next
    fix q k assume "busy ?t q k"
    then show "locks ?t k = Some q \<and> claimed ?t q k = None"
      using claims_okD(2) [OF assms(1)] nobody True unfolding busy cl by (cases "q = p") auto
  next
    fix q k c assume "phase (procs ?t q) = Writing k c"
    then show "names_holder q c"
      using claims_okD(3) [OF assms(1)] by (cases "q = p") (auto simp: names_holder_def new_claim_def)
  next
    fix q k assume "locks ?t k = Some q"
    then show "claimed ?t q k \<noteq> None \<or> busy ?t q k"
      using claims_okD(4) [OF assms(1), of k q] assms(2) unfolding busy cl by (cases "k = ?k") (auto simp: busy_def)
  qed
qed

lemma unlocked_ok:
  assumes "claims_ok s" and "locks s k = Some p" and "claimed s p k = None" and "\<And>j. busy s p j \<longleftrightarrow> j = k"
  shows "claims_ok (with_proc p (\<lambda>pr. pr\<lparr>phase := Idle\<rparr>) (s\<lparr>locks := (locks s)(k := None)\<rparr>))"
proof (rule claims_okI)
  let ?t = "with_proc p (\<lambda>pr. pr\<lparr>phase := Idle\<rparr>) (s\<lparr>locks := (locks s)(k := None)\<rparr>)"
  have cl: "claimed ?t = claimed s" by (auto simp: claimed_def fun_eq_iff)
  have busy: "busy ?t q j \<longleftrightarrow> q \<noteq> p \<and> busy s q j" for q j by (auto simp: busy_def)
  have other: "\<not> busy s q k" "claimed s q k = None" if "q \<noteq> p" for q
    using assms(2) that claims_okD(1,2) [OF assms(1), of q k] by (auto intro: option.exhaust [of "claimed s q k"])
  fix q j c
  show "claimed ?t q j = Some c \<Longrightarrow> locks ?t j = Some q \<and> metas ?t j = Some (cl_meta c) \<and> names_holder q c"
    using claims_okD(1) [OF assms(1), of q j c] assms(3) other(2) [of q] unfolding cl by (cases "q = p") auto
  show "busy ?t q j \<Longrightarrow> locks ?t j = Some q \<and> claimed ?t q j = None"
    using claims_okD(2) [OF assms(1), of q j] other(1) unfolding busy cl by auto
  show "phase (procs ?t q) = Writing j c \<Longrightarrow> names_holder q c"
    using claims_okD(3) [OF assms(1)] by (auto split: if_splits)
  show "locks ?t j = Some q \<Longrightarrow> claimed ?t q j \<noteq> None \<or> busy ?t q j"
    using claims_okD(4) [OF assms(1), of j q] assms(4) unfolding busy cl by (auto split: if_splits)
qed

lemma acquire_finish_ok:
  assumes "claims_ok s"
  shows "claims_ok (acquire_finish p written s)"
proof (cases "phase (procs s p)")
  case (Writing k c)
  then have k: "locks s k = Some p" "claimed s p k = None" "names_holder p c"
    using claims_okD(2,3) [OF assms] by (auto simp: busy_def)
  have other: "\<not> busy s q k" "claimed s q k = None" if "q \<noteq> p" for q
    using k(1) that claims_okD(1,2) [OF assms, of q k] by (auto intro: option.exhaust [of "claimed s q k"])
  have mine: "busy s p j \<longleftrightarrow> j = k" for j using Writing by (auto simp: busy_def)
  show ?thesis
  proof (cases written)
    case True
    let ?t = "with_proc p (\<lambda>pr. pr\<lparr>phase := Idle, registry := registry pr @ [(k, c)]\<rparr>) (s\<lparr>metas := (metas s)(k \<mapsto> cl_meta c)\<rparr>)"
    have t: "acquire_finish p written s = ?t" using Writing True by (simp add: acquire_finish_def)
    have cl: "claimed ?t q j = (if q = p \<and> j = k then Some c else claimed s q j)" for q j
      using k(2) by (simp add: claimed_def map_add_def split: option.split)
    have busy: "busy ?t q j \<longleftrightarrow> q \<noteq> p \<and> busy s q j" for q j by (auto simp: busy_def)
    show ?thesis unfolding t
    proof (rule claims_okI)
      fix q j d assume d: "claimed ?t q j = Some d"
      show "locks ?t j = Some q \<and> metas ?t j = Some (cl_meta d) \<and> names_holder q d"
      proof (cases "q = p \<and> j = k")
        case True
        then show ?thesis using d k unfolding cl by simp
      next
        case False
        then have old: "claimed s q j = Some d" using d unfolding cl by (auto split: if_splits)
        then have "j \<noteq> k" using False k(2) other(2) [of q] by (cases "q = p") auto
        then show ?thesis using claims_okD(1) [OF assms old] by simp
      qed
    next
      fix q j assume "busy ?t q j"
      then show "locks ?t j = Some q \<and> claimed ?t q j = None"
        using claims_okD(2) [OF assms, of q j] unfolding busy cl by auto
    next
      fix q j d assume "phase (procs ?t q) = Writing j d"
      then show "names_holder q d" using claims_okD(3) [OF assms] by (cases "q = p") auto
    next
      fix q j assume "locks ?t j = Some q"
      then have "claimed s q j \<noteq> None \<or> busy s q j" using claims_okD(4) [OF assms, of j q] by simp
      then show "claimed ?t q j \<noteq> None \<or> busy ?t q j"
        unfolding busy cl using mine [of j] by (cases "q = p"; cases "j = k"; simp)
    qed
  next
    case False
    let ?t = "with_proc p (\<lambda>pr. pr\<lparr>phase := Idle\<rparr>) (s\<lparr>locks := (locks s)(k := None)\<rparr>)"
    have t: "acquire_finish p written s = ?t" using Writing False by (simp add: acquire_finish_def)
    show ?thesis unfolding t by (rule unlocked_ok [OF assms k(1,2) mine])
  qed
qed (use assms in \<open>simp_all add: acquire_finish_def\<close>)

lemma release_start_ok:
  assumes "claims_ok s" and "phase (procs s p) = Idle"
  shows "claims_ok (release_start p readable k s)"
proof (cases "claimed s p k")
  case None
  then show ?thesis using assms(1) by (simp add: release_start_def)
next
  case (Some c)
  let ?m = "if readable then s\<lparr>metas := (metas s)(k := None)\<rparr> else s"
  let ?t = "with_proc p (\<lambda>pr. pr\<lparr>phase := Unlocking k, registry := filter (\<lambda>e. fst e \<noteq> k) (registry pr)\<rparr>) ?m"
  have c: "locks s k = Some p" "metas s k = Some (cl_meta c)" "names_holder p c" using claims_okD(1) [OF assms(1) Some] by auto
  have t: "release_start p readable k s = ?t" using Some c by (simp add: release_start_def names_holder_def)
  have cl: "claimed ?t q j = (if q = p \<and> j = k then None else claimed s q j)" for q j
    by (simp add: claimed_def map_of_without)
  have other: "claimed s q k = None" if "q \<noteq> p" for q
    using c(1) that claims_okD(1) [OF assms(1), of q k] by (auto intro: option.exhaust [of "claimed s q k"])
  have busy: "busy ?t q j \<longleftrightarrow> (if q = p then j = k else busy s q j)" for q j by (auto simp: busy_def)
  have same: "locks ?t = locks s" "metas ?t j = (if j = k \<and> readable then None else metas s j)" for j by simp_all
  show ?thesis unfolding t
  proof (rule claims_okI)
    fix q j d assume d: "claimed ?t q j = Some d"
    then show "locks ?t j = Some q \<and> metas ?t j = Some (cl_meta d) \<and> names_holder q d"
      using other [of q] claims_okD(1) [OF assms(1), of q j d] unfolding cl same by (cases "j = k") (auto split: if_splits)
  next
    fix q j assume "busy ?t q j"
    then show "locks ?t j = Some q \<and> claimed ?t q j = None"
      using claims_okD(2) [OF assms(1), of q j] c(1) unfolding busy cl same by (auto split: if_splits)
  next
    fix q j d assume "phase (procs ?t q) = Writing j d"
    then show "names_holder q d" using claims_okD(3) [OF assms(1)] by (cases "q = p") (auto split: if_splits)
  next
    fix q j assume "locks ?t j = Some q"
    then show "claimed ?t q j \<noteq> None \<or> busy ?t q j"
      using claims_okD(4) [OF assms(1), of j q] assms(2) unfolding busy cl same by (auto simp: busy_def)
  qed
qed

lemma release_finish_ok:
  assumes "claims_ok s"
  shows "claims_ok (release_finish p s)"
proof (cases "phase (procs s p)")
  case (Unlocking k)
  then have "locks s k = Some p" "claimed s p k = None" using claims_okD(2) [OF assms] by (auto simp: busy_def)
  moreover have "busy s p j \<longleftrightarrow> j = k" for j using Unlocking by (auto simp: busy_def)
  ultimately show ?thesis using unlocked_ok [OF assms] Unlocking by (simp add: release_finish_def)
qed (use assms in \<open>simp_all add: release_finish_def\<close>)

lemma crash_ok:
  assumes "claims_ok s"
  shows "claims_ok (crash p s)"
proof (rule claims_okI)
  let ?t = "crash p s"
  have cl: "claimed ?t q = (if q = p then Map.empty else claimed s q)" for q
    by (simp add: crash_def claimed_def new_process_def)
  have busy: "busy ?t q k \<longleftrightarrow> q \<noteq> p \<and> busy s q k" for q k by (auto simp: crash_def busy_def new_process_def)
  fix q k c
  show "claimed ?t q k = Some c \<Longrightarrow> locks ?t k = Some q \<and> metas ?t k = Some (cl_meta c) \<and> names_holder q c"
    using claims_okD(1) [OF assms, of q k c] unfolding cl by (auto simp: crash_def split: if_splits)
  show "busy ?t q k \<Longrightarrow> locks ?t k = Some q \<and> claimed ?t q k = None"
    using claims_okD(2) [OF assms, of q k] unfolding busy cl by (auto simp: crash_def)
  show "phase (procs ?t q) = Writing k c \<Longrightarrow> names_holder q c"
    using claims_okD(3) [OF assms] by (auto simp: crash_def new_process_def split: if_splits)
  show "locks ?t k = Some q \<Longrightarrow> claimed ?t q k \<noteq> None \<or> busy ?t q k"
    using claims_okD(4) [OF assms, of k q] unfolding busy cl by (auto simp: crash_def split: if_splits)
qed

lemma scope_ok:
  assumes "claims_ok s"
  shows "claims_ok (with_proc p (\<lambda>pr. pr\<lparr>finalizers := f, live_runs := n\<rparr>) s)"
proof -
  let ?t = "with_proc p (\<lambda>pr. pr\<lparr>finalizers := f, live_runs := n\<rparr>) s"
  have "claimed ?t = claimed s" "phase (procs ?t q) = phase (procs s q)" "busy ?t = busy s" for q
    by (auto simp: claimed_def busy_def fun_eq_iff)
  then show ?thesis using assms unfolding claims_ok_def by simp
qed

lemma reachable_ok: "claims_reachable env s \<Longrightarrow> claims_ok s"
proof (induction rule: claims_reachable.induct)
  case (step s t)
  from step.hyps(2) step.IH show ?case
    by (cases rule: claim_step.cases)
      (simp_all add: acquire_start_ok acquire_finish_ok release_start_ok release_finish_ok crash_ok scope_ok)
qed (rule fresh_ok)

section \<open>Distinct keys\<close>

definition keys_distinct :: "system \<Rightarrow> bool" where
  "keys_distinct s \<longleftrightarrow> (\<forall>p. distinct (map fst (registry (procs s p))))"

lemma step_distinct:
  assumes "claims_ok s" and "keys_distinct s" and "claim_step env s t"
  shows "keys_distinct t"
  using assms(3)
proof (cases rule: claim_step.cases)
  case (start p ow path agent repo started)
  then show ?thesis using assms(2) by (auto simp: acquire_start_def keys_distinct_def Let_def split: option.splits)
next
  case (finish p written)
  have "k \<notin> fst ` set (registry (procs s p))" if "phase (procs s p) = Writing k c" for k c
    using claims_okD(2) [OF assms(1), of p k] that by (auto simp: busy_def claimed_def map_of_eq_None_iff)
  then show ?thesis using assms(2) unfolding finish
    by (cases "phase (procs s p)") (auto simp: acquire_finish_def keys_distinct_def)
next
  case (remove p readable k)
  then show ?thesis using assms(2)
    by (auto simp: release_start_def keys_distinct_def distinct_map_filter split: option.splits)
next
  case (unlock p)
  then show ?thesis using assms(2)
    by (cases "phase (procs s p)") (auto simp: release_finish_def keys_distinct_def)
next
  case (crash p)
  then show ?thesis using assms(2) by (auto simp: crash_def keys_distinct_def new_process_def)
next
  case (scope p f n)
  then show ?thesis using assms(2) by (auto simp: keys_distinct_def)
qed

lemma reachable_distinct: "claims_reachable env s \<Longrightarrow> keys_distinct s"
proof (induction rule: claims_reachable.induct)
  case (fresh left)
  then show ?case by (simp add: keys_distinct_def fresh_system_def new_process_def)
next
  case (step s t)
  then show ?case by (blast intro: step_distinct reachable_ok)
qed

section \<open>Whole operations\<close>

lemma release_claim_effect:
  assumes "phase (procs s p) = Idle" and "claimed s p k \<noteq> None"
  shows "procs (release_claim p readable k s) = (procs s)(p := (procs s p)\<lparr>registry := filter (\<lambda>e. fst e \<noteq> k) (registry (procs s p))\<rparr>)"
    and "locks (release_claim p readable k s) = (locks s)(k := None)"
    and "j \<noteq> k \<Longrightarrow> metas (release_claim p readable k s) j = metas s j"
  using assms
  by (auto simp: release_claim_def release_start_def release_finish_def with_proc_def fun_eq_iff split: option.splits)

lemma release_each:
  fixes t :: system and p :: int and readable :: "string \<Rightarrow> bool" and ks :: "string list"
  assumes "phase (procs t p) = Idle" and "distinct ks" and "\<forall>k \<in> set ks. claimed t p k \<noteq> None"
  defines "u \<equiv> fold (release_claim p readable) ks t"
  shows "procs u = (procs t)(p := (procs t p)\<lparr>registry := filter (\<lambda>e. fst e \<notin> set ks) (registry (procs t p))\<rparr>)
    \<and> locks u = (\<lambda>k. if k \<in> set ks then None else locks t k) \<and> (\<forall>k. k \<notin> set ks \<longrightarrow> metas u k = metas t k)"
  using assms(1-3) unfolding u_def
proof (induction ks arbitrary: t)
  case (Cons k ks)
  let ?t = "release_claim p readable k t"
  have k: "claimed t p k \<noteq> None" using Cons.prems(3) by simp
  note eff = release_claim_effect [OF Cons.prems(1) k, where readable = readable]
  have "phase (procs ?t p) = Idle" using Cons.prems(1) by (simp add: eff(1))
  moreover have "claimed ?t p j \<noteq> None" if "j \<in> set ks" for j
    using Cons.prems(2,3) that by (auto simp: claimed_def eff(1) map_of_without)
  ultimately have IH: "procs (fold (release_claim p readable) ks ?t)
        = (procs ?t)(p := (procs ?t p)\<lparr>registry := filter (\<lambda>e. fst e \<notin> set ks) (registry (procs ?t p))\<rparr>)"
      "locks (fold (release_claim p readable) ks ?t) = (\<lambda>j. if j \<in> set ks then None else locks ?t j)"
      "\<forall>j. j \<notin> set ks \<longrightarrow> metas (fold (release_claim p readable) ks ?t) j = metas ?t j"
    using Cons.IH [of ?t] Cons.prems(2) by auto
  have f: "filter (\<lambda>e. fst e \<notin> set ks) (filter (\<lambda>e. fst e \<noteq> k) xs) = filter (\<lambda>e. fst e \<notin> set (k # ks)) xs" for xs :: "(string \<times> claim) list"
    by (auto simp: filter_filter intro: filter_cong)
  show ?case using IH eff(3) [of _] by (auto simp: eff(1,2) f fun_eq_iff)
qed auto

lemma release_claim_ok:
  assumes "claims_ok s" and "phase (procs s p) = Idle"
  shows "claims_ok (release_claim p readable k s)" and "phase (procs (release_claim p readable k s) p) = Idle"
proof -
  show "claims_ok (release_claim p readable k s)"
    using assms by (simp add: release_claim_def release_finish_ok release_start_ok)
  show "phase (procs (release_claim p readable k s) p) = Idle"
    using release_claim_effect(1) [OF assms(2), of k readable] assms(2)
    by (cases "claimed s p k = None") (simp_all add: release_claim_def)
qed

lemma release_fold_ok:
  "claims_ok s \<Longrightarrow> phase (procs s p) = Idle \<Longrightarrow>
     claims_ok (fold (release_claim p readable) ks s) \<and> phase (procs (fold (release_claim p readable) ks s) p) = Idle"
  by (induction ks arbitrary: s) (auto intro: release_claim_ok)

lemma release_owner:
  fixes s :: system and p :: int and readable :: "string \<Rightarrow> bool" and ow :: owner
  assumes "keys_distinct s" and "phase (procs s p) = Idle"
  defines "t \<equiv> release_workdir_claims p readable ow s"
  shows "procs t = (procs s)(p := (procs s p)\<lparr>registry := filter (\<lambda>e. cl_owner (snd e) \<noteq> ow) (registry (procs s p))\<rparr>)"
    and "locks t k = (if \<exists>c. claimed s p k = Some c \<and> cl_owner c = ow then None else locks s k)"
proof -
  let ?r = "registry (procs s p)"
  let ?ks = "map fst (filter (\<lambda>e. cl_owner (snd e) = ow) ?r)"
  have d: "distinct (map fst ?r)" using assms(1) by (simp add: keys_distinct_def)
  have ks: "k \<in> set ?ks \<longleftrightarrow> (\<exists>c. claimed s p k = Some c \<and> cl_owner c = ow)" for k
    using d by (force simp: claimed_def)
  have mem: "fst e \<in> set ?ks \<longleftrightarrow> cl_owner (snd e) = ow" if "e \<in> set ?r" for e
  proof -
    have "claimed s p (fst e) = Some (snd e)" using d that by (simp add: claimed_def)
    then show ?thesis using ks [of "fst e"] by simp
  qed
  note eff = release_each [OF assms(2) distinct_map_filter [OF d], of "\<lambda>e. cl_owner (snd e) = ow" readable]
  have "\<forall>k \<in> set ?ks. claimed s p k \<noteq> None" using ks by blast
  note eff = eff [OF this, folded release_workdir_claims_def, folded t_def]
  have "filter (\<lambda>e. fst e \<notin> set ?ks) ?r = filter (\<lambda>e. cl_owner (snd e) \<noteq> ow) ?r"
    using mem by (intro filter_cong) auto
  then show "procs t = (procs s)(p := (procs s p)\<lparr>registry := filter (\<lambda>e. cl_owner (snd e) \<noteq> ow) ?r\<rparr>)" using eff by simp
  show "locks t k = (if \<exists>c. claimed s p k = Some c \<and> cl_owner c = ow then None else locks s k)"
    using eff ks [of k] by simp
qed

text \<open>One acquisition of a process that does nothing else: nothing changes, or exactly the new claim is there.\<close>

definition with_claim :: "int \<Rightarrow> string \<Rightarrow> claim \<Rightarrow> system \<Rightarrow> system" where
  "with_claim p k c s =
     with_proc p (\<lambda>pr. pr\<lparr>registry := registry pr @ [(k, c)]\<rparr>)
       (s\<lparr>locks := (locks s)(k \<mapsto> p), metas := (metas s)(k \<mapsto> cl_meta c)\<rparr>)"

lemma acquire_result:
  assumes "claims_ok s" and "phase (procs s p) = Idle"
    and "acquire_workdir_claim env p (Some ow) path agent repo started written s = (r, t)"
  shows "(\<exists>e. r = Inl e) \<and> t = s
    \<or> r = Inr False \<and> t = s \<and> (\<exists>c. claimed s p (key_of env path) = Some c \<and> cl_owner c = ow)
    \<or> r = Inr True \<and> written \<and> locks s (key_of env path) = None \<and> claimed s p (key_of env path) = None
      \<and> t = with_claim p (key_of env path) (new_claim p ow path agent repo started) s"
proof (cases "claimed s p (key_of env path)")
  case (Some c)
  then show ?thesis using assms(3) by (auto simp: acquire_workdir_claim_def acquire_start_def Let_def split: if_splits)
next
  case None
  have idle: "(procs s)(p := (procs s p)\<lparr>phase := Idle\<rparr>) = procs s" using assms(2) by (simp add: fun_eq_iff)
  have same: "(procs s p)\<lparr>phase := Idle, registry := x\<rparr> = (procs s p)\<lparr>registry := x\<rparr>" for x
    using assms(2) by simp
  show ?thesis
  proof (cases "locks s (key_of env path)")
    case None
    then have undone: "(locks s)(key_of env path := None) = locks s" by auto
    show ?thesis using None \<open>claimed s p (key_of env path) = None\<close> assms(3) idle same undone
      by (auto simp: acquire_workdir_claim_def acquire_start_def acquire_finish_def with_claim_def with_proc_def Let_def
          split: if_splits)
  qed (use None assms(3) in \<open>auto simp: acquire_workdir_claim_def acquire_start_def Let_def\<close>)
qed

text \<open>The state of a run that has claimed \<open>taken\<close> since state \<open>s\<close>.\<close>

definition grown_by :: "int \<Rightarrow> owner \<Rightarrow> system \<Rightarrow> string list \<Rightarrow> system \<Rightarrow> bool" where
  "grown_by p ow s taken t \<longleftrightarrow>
     (\<exists>new. map fst new = taken \<and> distinct taken \<and> (\<forall>e \<in> set new. cl_owner (snd e) = ow)
        \<and> (\<forall>k \<in> set taken. locks s k = None)
        \<and> procs t = (procs s)(p := (procs s p)\<lparr>registry := registry (procs s p) @ new\<rparr>)
        \<and> locks t = (\<lambda>k. if k \<in> set taken then Some p else locks s k)
        \<and> (\<forall>k. k \<notin> set taken \<longrightarrow> metas t k = metas s k))"

lemma grown_refl: "grown_by p ow s [] s"
  by (auto simp: grown_by_def)

lemma grown_step:
  assumes "grown_by p ow s taken t" and "locks t k = None" and "cl_owner c = ow"
  shows "grown_by p ow s (taken @ [k]) (with_claim p k c t)"
proof -
  obtain new where new: "map fst new = taken" "distinct taken" "\<forall>e \<in> set new. cl_owner (snd e) = ow"
    "\<forall>k \<in> set taken. locks s k = None" "procs t = (procs s)(p := (procs s p)\<lparr>registry := registry (procs s p) @ new\<rparr>)"
    "locks t = (\<lambda>k. if k \<in> set taken then Some p else locks s k)" "\<forall>k. k \<notin> set taken \<longrightarrow> metas t k = metas s k"
    using assms(1) by (auto simp: grown_by_def)
  have k: "k \<notin> set taken" "locks s k = None" using assms(2) new(6) by (auto split: if_splits)
  show ?thesis unfolding grown_by_def
    by (intro exI [of _ "new @ [(k, c)]"]) (use new k assms(3) in \<open>auto simp: with_claim_def with_proc_def fun_eq_iff\<close>)
qed

lemma grown_claimed:
  assumes "grown_by p ow s taken t" and "claimed t p k = Some c"
  shows "k \<in> set taken \<or> claimed s p k = Some c"
proof -
  obtain new where "map fst new = taken" "claimed t p = map_of new ++ claimed s p"
    using assms(1) by (auto simp: grown_by_def claimed_def)
  then show ?thesis using assms(2) by (force simp: map_add_Some_iff dest!: map_of_SomeD)
qed

lemma grown_keeps:
  assumes "grown_by p ow s taken t" and "claimed s q k = Some c" and "k \<notin> set taken"
  shows "claimed t q k = Some c"
proof -
  obtain new where "map fst new = taken" "claimed t p = map_of new ++ claimed s p" "q \<noteq> p \<Longrightarrow> claimed t q = claimed s q"
    using assms(1) by (auto simp: grown_by_def claimed_def)
  then show ?thesis using assms(2) by (cases "q = p") (simp_all add: map_add_Some_iff)
qed

lemma grown_takes:
  assumes "grown_by p ow s taken t" and "k \<in> set taken" and "claimed s p k = None"
  shows "\<exists>c. claimed t p k = Some c \<and> cl_owner c = ow"
proof -
  obtain new where new: "map fst new = taken" "claimed t p = map_of new ++ claimed s p" "\<forall>e \<in> set new. cl_owner (snd e) = ow"
    using assms(1) by (auto simp: grown_by_def claimed_def)
  obtain c where "map_of new k = Some c" using assms(2) new(1) by (metis (no_types) list.set_map map_of_eq_None_iff not_None_eq)
  then have "cl_owner c = ow" using new(3) map_of_SomeD by force
  then show ?thesis using \<open>map_of new k = Some c\<close> new(2) assms(3) by (simp add: map_add_def)
qed

lemma with_claim_steps:
  fixes env :: claim_env
  assumes "phase (procs s p) = Idle" and "locks s (key_of env path) = None" and "claimed s p (key_of env path) = None"
  shows "with_claim p (key_of env path) (new_claim p ow path agent repo started) s
      = acquire_finish p True (snd (acquire_start env p ow path agent repo started s))"
proof -
  have "snd (acquire_start env p ow path agent repo started s)
      = with_proc p (\<lambda>pr. pr\<lparr>phase := Writing (key_of env path) (new_claim p ow path agent repo started)\<rparr>)
          (s\<lparr>locks := (locks s)(key_of env path \<mapsto> p)\<rparr>)"
    using assms(2,3) by (simp add: acquire_start_def Let_def)
  then show ?thesis
    by (intro system.equality)
      (auto simp: acquire_finish_def with_claim_def with_proc_def fun_eq_iff assms(1) intro!: process.equality)
qed

lemma with_claim_ok:
  fixes env :: claim_env
  assumes "claims_ok s" and "phase (procs s p) = Idle" and "locks s (key_of env path) = None"
    and "claimed s p (key_of env path) = None"
  shows "claims_ok (with_claim p (key_of env path) (new_claim p ow path agent repo started) s)"
    and "phase (procs (with_claim p k c s) p) = Idle"
  using assms(2) by (simp_all add: with_claim_steps [OF assms(2-4)] acquire_finish_ok acquire_start_ok assms(1),
    simp add: with_claim_def)

text \<open>A rollback gives back exactly what was taken.\<close>

lemma rollback:
  fixes t :: system and p :: int and readable :: "string \<Rightarrow> bool" and taken :: "string list"
  assumes "claims_ok s" and "phase (procs s p) = Idle" and "grown_by p ow s taken t"
  defines "u \<equiv> fold (release_claim p readable) taken t"
  shows "procs u = procs s \<and> locks u = locks s \<and> (\<forall>k. locks s k \<noteq> None \<longrightarrow> metas u k = metas s k)"
proof -
  obtain new where new: "map fst new = taken" "distinct taken" "\<forall>k \<in> set taken. locks s k = None"
    "procs t = (procs s)(p := (procs s p)\<lparr>registry := registry (procs s p) @ new\<rparr>)"
    "locks t = (\<lambda>k. if k \<in> set taken then Some p else locks s k)" "\<forall>k. k \<notin> set taken \<longrightarrow> metas t k = metas s k"
    using assms(3) by (auto simp: grown_by_def)
  have old: "k \<notin> fst ` set (registry (procs s p))" if "k \<in> set taken" for k
    using claims_okD(1) [OF assms(1), of p k] new(3) that
    by (auto simp: claimed_def map_of_eq_None_iff [symmetric] intro: option.exhaust [of "map_of (registry (procs s p)) k"])
  have "claimed t p k \<noteq> None" if "k \<in> set taken" for k
    using that new(1,4) by (auto simp: claimed_def map_add_def map_of_eq_None_iff split: option.split)
  then have u: "procs u = (procs t)(p := (procs t p)\<lparr>registry := filter (\<lambda>e. fst e \<notin> set taken) (registry (procs t p))\<rparr>)"
      "locks u = (\<lambda>k. if k \<in> set taken then None else locks t k)" "\<forall>k. k \<notin> set taken \<longrightarrow> metas u k = metas t k"
    using release_each [of t p taken readable] assms(2) new(2,4) by (auto simp: u_def)
  have "filter (\<lambda>e. fst e \<notin> set taken) (registry (procs s p) @ new) = registry (procs s p)"
  proof -
    have "filter (\<lambda>e. fst e \<notin> set taken) (registry (procs s p)) = registry (procs s p)"
      using old by (intro filter_True) (meson imageI)
    moreover have "filter (\<lambda>e. fst e \<notin> set taken) new = []" using new(1) by (force simp: filter_empty_conv)
    ultimately show ?thesis by simp
  qed
  moreover have "k \<notin> set taken" if "locks s k \<noteq> None" for k using new(3) that by auto
  ultimately show ?thesis using u new(2-6) by (auto simp: fun_eq_iff)
qed

lemma claim_each_result:
  assumes "claims_ok s" and "phase (procs s p) = Idle"
    and "claim_each env p (Some ow) repo started written readable paths taken t = (r, u)"
    and "grown_by p ow s taken t" and "claims_ok t" and "phase (procs t p) = Idle"
  shows "case r of
      Inl e \<Rightarrow> procs u = procs s \<and> locks u = locks s \<and> (\<forall>k. locks s k \<noteq> None \<longrightarrow> metas u k = metas s k)
    | Inr taken' \<Rightarrow> grown_by p ow s taken' u \<and> set taken \<subseteq> set taken'
        \<and> (\<forall>(agent, path) \<in> set paths. key_of env path \<in> set taken'
             \<or> (\<exists>c. claimed s p (key_of env path) = Some c \<and> cl_owner c = ow))"
  using assms(3-6)
proof (induction paths arbitrary: taken t)
  case (Cons ap rest)
  obtain agent path where ap: "ap = (agent, path)" by (cases ap)
  let ?k = "key_of env path"
  obtain b t1 where one: "acquire_workdir_claim env p (Some ow) path agent repo (started path) (written path) t = (b, t1)"
    by (cases "acquire_workdir_claim env p (Some ow) path agent repo (started path) (written path) t")
  from acquire_result [OF Cons.prems(3,4) one] consider
      (stop) e where "b = Inl e" "t1 = t"
    | (old) c where "b = Inr False" "t1 = t" "claimed t p ?k = Some c" "cl_owner c = ow"
    | (new) "b = Inr True" "locks t ?k = None" "claimed t p ?k = None"
        "t1 = with_claim p ?k (new_claim p ow path agent repo (started path)) t" by (elim disjE conjE exE; blast)
  then show ?case
  proof cases
    case stop
    then show ?thesis using Cons.prems(1) rollback [OF assms(1,2) Cons.prems(2), of readable] by (auto simp: ap one)
  next
    case old
    have "?k \<in> set taken \<or> (\<exists>c. claimed s p ?k = Some c \<and> cl_owner c = ow)"
      using grown_claimed [OF Cons.prems(2) old(3)] old(4) by blast
    then show ?thesis using Cons.IH [of taken t] Cons.prems old(1,2) by (auto simp: ap one split: sum.splits)
  next
    case new
    have "grown_by p ow s (taken @ [?k]) t1"
      using grown_step [OF Cons.prems(2) new(2)] new(4) by (simp add: new_claim_def)
    moreover have "claims_ok t1" "phase (procs t1 p) = Idle"
      using with_claim_ok [OF Cons.prems(3,4) new(2,3)] new(4) by auto
    ultimately show ?thesis
      using Cons.IH [of "taken @ [?k]" t1] Cons.prems(1) new(1) by (auto simp: ap one split: sum.splits)
  qed
qed auto

section \<open>Properties\<close>

text \<open>C23: A checkout has at most one owner.  In every state that any number of processes reach by taking,
  failing to record, releasing and crashing at any moment, and whatever records earlier runs left behind: if a
  process holds a claim, no other process and no other run of the same process holds one on that checkout, its
  lock is taken, and the record on disk is that of the holder.  Every other run that asks for the checkout is
  refused, changes nothing, and is told the holder from a complete record.\<close>

theorem claims_are_exclusive:
  assumes "claims_reachable env s" and "claimed s p (key_of env path) = Some c"
  shows "(\<forall>q c'. claimed s q (key_of env path) = Some c' \<longrightarrow> q = p \<and> c' = c)
    \<and> locks s (key_of env path) = Some p \<and> metas s (key_of env path) = Some (cl_meta c)
    \<and> h_pid (cl_meta c) = p \<and> h_run (cl_meta c) = run_id (cl_owner c)
    \<and> (\<forall>q ow agent repo started written. \<not> (q = p \<and> ow = cl_owner c) \<longrightarrow>
         acquire_workdir_claim env q (Some ow) path agent repo started written s
         = (Inl (WorkdirClaimed (describe_holder env path agent
              (if q = p \<or> holder_complete (cl_meta c) then Some (cl_meta c) else None))), s))"
proof -
  note ok = reachable_ok [OF assms(1)]
  note c = claims_okD(1) [OF ok assms(2)]
  have only: "q = p \<and> c' = c" if "claimed s q (key_of env path) = Some c'" for q c'
    using claims_okD(1) [OF ok that] c assms(2) that by auto
  moreover have "acquire_workdir_claim env q (Some ow) path agent repo started written s
         = (Inl (WorkdirClaimed (describe_holder env path agent
              (if q = p \<or> holder_complete (cl_meta c) then Some (cl_meta c) else None))), s)"
    if "\<not> (q = p \<and> ow = cl_owner c)" for q ow agent repo started written
  proof (cases "q = p")
    case True
    then show ?thesis using that assms(2) by (auto simp: acquire_workdir_claim_def acquire_start_def Let_def)
  next
    case False
    then have "claimed s q (key_of env path) = None" using only by (cases "claimed s q (key_of env path)") auto
    then show ?thesis using False c
      by (simp add: acquire_workdir_claim_def acquire_start_def read_metadata_def Let_def)
  qed
  ultimately show ?thesis using c unfolding names_holder_def by blast
qed

text \<open>C36: A run claims all its checkouts or none.  If every one of them is free or its own, and its record can be
  written, the run holds them all afterwards and nobody's claims have changed; otherwise it gives back what it had
  taken: the locks and registries of all processes are as before, and so is the record of every held lock.\<close>

theorem claims_all_or_nothing:
  assumes "claims_reachable env s" and "phase (procs s p) = Idle"
    and "claim_agent_workdirs env p (Some ow) repo started written readable paths s = (r, t)"
  shows "case r of
      Inr taken \<Rightarrow>
        (\<forall>(agent, path) \<in> set paths. \<exists>c. claimed t p (key_of env path) = Some c \<and> cl_owner c = ow)
        \<and> (\<forall>(agent, path) \<in> set paths. locks s (key_of env path) = None
             \<or> (\<exists>c. claimed s p (key_of env path) = Some c \<and> cl_owner c = ow))
        \<and> (\<forall>q k c. claimed s q k = Some c \<longrightarrow> claimed t q k = Some c \<and> metas t k = metas s k)
    | Inl e \<Rightarrow> procs t = procs s \<and> locks t = locks s \<and> (\<forall>k. locks s k \<noteq> None \<longrightarrow> metas t k = metas s k)"
proof -
  note ok = reachable_ok [OF assms(1)]
  note res = claim_each_result [OF ok assms(2) assms(3) [unfolded claim_agent_workdirs_def] grown_refl ok assms(2)]
  show ?thesis
  proof (cases r)
    case (Inr taken)
    then have g: "grown_by p ow s taken t" and got: "\<forall>(agent, path) \<in> set paths. key_of env path \<in> set taken
        \<or> (\<exists>c. claimed s p (key_of env path) = Some c \<and> cl_owner c = ow)" using res by auto
    have free: "k \<in> set taken \<Longrightarrow> locks s k = None" for k using g by (auto simp: grown_by_def)
    have keep: "claimed t q k = Some c \<and> metas t k = metas s k" if "claimed s q k = Some c" for q k c
    proof -
      have "k \<notin> set taken" using free [of k] claims_okD(1) [OF ok that] by auto
      then show ?thesis using grown_keeps [OF g that] g unfolding grown_by_def by blast
    qed
    moreover have "\<exists>c. claimed t p k = Some c \<and> cl_owner c = ow" if "k \<in> set taken" for k
    proof -
      have "claimed s p k = None" using claims_okD(1) [OF ok, of p k] free [OF that] by (cases "claimed s p k") auto
      then show ?thesis using grown_takes [OF g that] by blast
    qed
    ultimately have "\<forall>(agent, path) \<in> set paths. \<exists>c. claimed t p (key_of env path) = Some c \<and> cl_owner c = ow"
      using got by blast
    moreover have "\<forall>(agent, path) \<in> set paths. locks s (key_of env path) = None
             \<or> (\<exists>c. claimed s p (key_of env path) = Some c \<and> cl_owner c = ow)" using got free by blast
    ultimately show ?thesis using Inr keep by simp
  qed (use res in simp)
qed

text \<open>A run that ends never blocks a later one.  When a run releases its claims, or its process dies at any
  moment, every checkout it held can be claimed at once by any run of any process that is not in the middle of
  another claim, and no claim of anybody else is lost.\<close>

theorem ended_run_frees_checkouts:
  assumes "claims_reachable env s" and "claimed s p (key_of env path) = Some c"
    and "t = crash p s \<or> phase (procs s p) = Idle \<and> t = release_workdir_claims p readable (cl_owner c) s"
    and "phase (procs s q) = Idle"
  shows "fst (acquire_workdir_claim env q (Some ow) path agent repo started True t) = Inr True
    \<and> (\<forall>q' k' c'. claimed s q' k' = Some c' \<and> (q' \<noteq> p \<or> t \<noteq> crash p s \<and> cl_owner c' \<noteq> cl_owner c) \<longrightarrow>
         claimed t q' k' = Some c' \<and> locks t k' = Some q')"
proof -
  let ?k = "key_of env path"
  note ok = reachable_ok [OF assms(1)] and distinct = reachable_distinct [OF assms(1)]
  have t: "claims_ok t \<and> locks t ?k = None
      \<and> (\<forall>q' k' c'. claimed s q' k' = Some c' \<and> (q' \<noteq> p \<or> t \<noteq> crash p s \<and> cl_owner c' \<noteq> cl_owner c) \<longrightarrow> claimed t q' k' = Some c')"
  proof (cases "t = crash p s")
    case True
    then show ?thesis using crash_ok [OF ok, of p] claims_okD(1) [OF ok assms(2)]
      by (auto simp: crash_def claimed_def)
  next
    case False
    then have idle: "phase (procs s p) = Idle" and t: "t = release_workdir_claims p readable (cl_owner c) s"
      using assms(3) by auto
    note rel = release_owner [OF distinct idle, of readable "cl_owner c", folded t]
    have "claims_ok t" unfolding t release_workdir_claims_def using release_fold_ok [OF ok idle] by blast
    moreover have "locks t ?k = None" using rel(2) [of ?k] assms(2) by auto
    moreover have "claimed t q' k' = Some c'"
      if "claimed s q' k' = Some c'" "q' \<noteq> p \<or> cl_owner c' \<noteq> cl_owner c" for q' k' c'
      using that distinct unfolding claimed_def rel(1) keys_distinct_def
      by (cases "q' = p") (auto simp: distinct_map_filter)
    ultimately show ?thesis using False by blast
  qed
  then have free: "claimed t q ?k = None" using claims_okD(1) [of t q ?k] by (cases "claimed t q ?k") auto
  have "fst (acquire_workdir_claim env q (Some ow) path agent repo started True t) = Inr True"
    using t free by (simp add: acquire_workdir_claim_def acquire_start_def Let_def)
  moreover have "locks t k' = Some q'" if "claimed t q' k' = Some c'" for q' k' c'
    using claims_okD(1) [OF _ that] t by blast
  ultimately show ?thesis using t by blast
qed

definition ex_env :: claim_env where
  "ex_env = \<lparr>key_of = (\<lambda>path. path), claim_root = ''/locks''\<rparr>"

definition ex_owner :: "string \<Rightarrow> owner" where
  "ex_owner run = \<lparr>run_id = run, ow_command = ''task'', ow_number = None, ow_target = ''task''\<rparr>"

definition ex_system :: system where
  "ex_system = with_claim 7 ''/w'' (new_claim 7 (ex_owner ''r1'') ''/w'' ''codex'' ''o/r'' ''t0'') (fresh_system Map.empty)"

lemma ex_reachable: "claims_reachable ex_env ex_system"
proof -
  let ?f = "fresh_system Map.empty"
  have free: "phase (procs ?f 7) = Idle" "locks ?f (key_of ex_env ''/w'') = None" "claimed ?f 7 (key_of ex_env ''/w'') = None"
    by (simp_all add: fresh_system_def claimed_def new_process_def)
  have "claims_reachable ex_env (snd (acquire_start ex_env 7 (ex_owner ''r1'') ''/w'' ''codex'' ''o/r'' ''t0'' ?f))"
    by (rule claims_reachable.step [OF claims_reachable.fresh]) (rule claim_step.start [OF free(1)])
  then have "claims_reachable ex_env (acquire_finish 7 True (snd (acquire_start ex_env 7 (ex_owner ''r1'') ''/w'' ''codex'' ''o/r'' ''t0'' ?f)))"
    by (rule claims_reachable.step) (rule claim_step.finish)
  moreover have "''/w'' = key_of ex_env ''/w''" by (simp add: ex_env_def)
  ultimately show ?thesis using with_claim_steps [OF free, of "ex_owner ''r1''" "''codex''" "''o/r''" "''t0''"]
    unfolding ex_system_def by simp
qed

lemma ex_held:
  "claimed ex_system 7 (key_of ex_env ''/w'') = Some (new_claim 7 (ex_owner ''r1'') ''/w'' ''codex'' ''o/r'' ''t0'')"
  "claimed ex_system 9 (key_of ex_env path) = None" "phase (procs ex_system q) = Idle" "locks ex_system (key_of ex_env ''/w'') = Some 7"
  by (simp_all add: ex_system_def with_claim_def fresh_system_def new_process_def claimed_def ex_env_def)

theorem claims_are_exclusive_witness:
  "\<exists>why. acquire_workdir_claim ex_env 9 (Some (ex_owner ''r2'')) ''/w'' ''codex'' ''o/r'' ''t1'' True ex_system
     = (Inl (WorkdirClaimed why), ex_system)"
  using claims_are_exclusive [OF ex_reachable ex_held(1)] by simp

theorem claims_all_or_nothing_witness:
  "\<exists>e t. claim_agent_workdirs ex_env 9 (Some (ex_owner ''r2'')) ''o/r'' (\<lambda>_. ''t1'') (\<lambda>_. True) (\<lambda>_. True)
       [(''claude'', ''/v''), (''codex'', ''/w'')] ex_system = (Inl e, t)
     \<and> procs t = procs ex_system \<and> locks t = locks ex_system"
proof -
  obtain r t where run: "claim_agent_workdirs ex_env 9 (Some (ex_owner ''r2'')) ''o/r'' (\<lambda>_. ''t1'') (\<lambda>_. True) (\<lambda>_. True)
       [(''claude'', ''/v''), (''codex'', ''/w'')] ex_system = (r, t)" by (meson surj_pair)
  note res = claims_all_or_nothing [OF ex_reachable ex_held(3) run]
  show ?thesis
  proof (cases r)
    case (Inl e)
    then show ?thesis using res run by auto
  next
    case (Inr taken)
    then show ?thesis using res ex_held(2,4) by simp
  qed
qed

theorem ended_run_frees_checkouts_witness:
  "fst (acquire_workdir_claim ex_env 9 (Some (ex_owner ''r2'')) ''/w'' ''codex'' ''o/r'' ''t1'' True (crash 7 ex_system)) = Inr True
   \<and> fst (acquire_workdir_claim ex_env 9 (Some (ex_owner ''r2'')) ''/w'' ''codex'' ''o/r'' ''t1'' True
        (release_workdir_claims 7 (\<lambda>_. True) (ex_owner ''r1'') ex_system)) = Inr True"
proof -
  have own: "cl_owner (new_claim 7 (ex_owner ''r1'') ''/w'' ''codex'' ''o/r'' ''t0'') = ex_owner ''r1''" by (simp add: new_claim_def)
  show ?thesis
    using ended_run_frees_checkouts [OF ex_reachable ex_held(1) disjI1 [OF refl] ex_held(3), THEN conjunct1]
      ended_run_frees_checkouts [OF ex_reachable ex_held(1) disjI2 [OF conjI [OF ex_held(3) refl]] ex_held(3), THEN conjunct1]
    unfolding own by blast
qed

end
