(* ===== verification/Closing_Contract.thy ===== *)
theory Closing_Contract
  imports Prelude
begin

text \<open>
  The issues that a pull request is expected to close (\<open>expected_closure.py\<close>) and the bounded flat set of
  child issues of a parent (\<open>child_topology.py\<close>).

  An issue declaration is a \<open>pyval\<close>: \<open>PNone\<close> where it is absent, and anything that can be iterated otherwise.
  \<open>H\<close> is the SHA-256 digest of a text.  The messages of the errors keep their data, not their wording.
\<close>

section \<open>The closing contract\<close>

datatype closing_error =
    NotIterable string
  | AssertionFailed
  | BadIssue string nat
  | Conflicting "int list" "int list" bool
  | NothingRecovered
  | PrimaryLost "int list" int
  | NothingDeclared
  | ParentIncluded int

record closing_contract =
  issue_ids :: "int list"
  contract_digest :: string
  supersedes_digest :: "string option"

fun issue_id_of :: "pyval \<Rightarrow> int option" where
  "issue_id_of (PInt n) = (if n \<le> 0 then None else Some n)"
| "issue_id_of _ = None"

fun collect_ids :: "string \<Rightarrow> nat \<Rightarrow> pyval list \<Rightarrow> closing_error + int list" where
  "collect_ids field k [] = Inr []"
| "collect_ids field k (v # vs) =
     (case issue_id_of v of
        None \<Rightarrow> Inl (BadIssue field k)
      | Some n \<Rightarrow> bindE (collect_ids field (Suc k) vs) (\<lambda>ns. Inr (n # ns)))"

definition normalize_issue_ids :: "string \<Rightarrow> pyval \<Rightarrow> closing_error + int list option" where
  "normalize_issue_ids field v =
     (if v = PNone then Inr None
      else case py_iter v of
             None \<Rightarrow> Inl (NotIterable field)
           | Some xs \<Rightarrow> bindE (collect_ids field 0 xs) (\<lambda>ns. Inr (Some (sorted_set ns))))"

definition ids_value :: "int list \<Rightarrow> pyval" where
  "ids_value ids = PTuple (map PInt ids)"

text \<open>\<open>normalized or ()\<close>.\<close>

definition ids_or_empty :: "int list option \<Rightarrow> int list" where
  "ids_or_empty ids = (case ids of None \<Rightarrow> [] | Some ns \<Rightarrow> ns)"

definition contract_hash :: "(string \<Rightarrow> string) \<Rightarrow> int list \<Rightarrow> closing_error + string" where
  "contract_hash H ids =
     bindE (normalize_issue_ids ''contract'' (ids_value ids)) (\<lambda>ns.
     Inr (H (json_canonical (PList (map PInt (ids_or_empty ns))))))"

definition make_closing_contract ::
  "(string \<Rightarrow> string) \<Rightarrow> pyval \<Rightarrow> string option \<Rightarrow> closing_error + closing_contract" where
  "make_closing_contract H v supersedes =
     bindE (normalize_issue_ids ''expected_closing_issue_ids'' v) (\<lambda>ns.
     (case ns of
        None \<Rightarrow> Inl AssertionFailed
      | Some ids \<Rightarrow> bindE (contract_hash H ids) (\<lambda>h.
          Inr \<lparr>issue_ids = ids, contract_digest = h, supersedes_digest = supersedes\<rparr>)))"

definition reconcile_contracts ::
  "(string \<Rightarrow> string) \<Rightarrow> pyval \<Rightarrow> pyval \<Rightarrow> bool \<Rightarrow> closing_error + closing_contract" where
  "reconcile_contracts H recovered current supersede =
     bindE (normalize_issue_ids ''recovered contract'' recovered) (\<lambda>r.
     bindE (normalize_issue_ids ''current contract'' current) (\<lambda>c.
     (let old = ids_or_empty r; new = ids_or_empty c in
      if old = new then
        (if supersede then Inl (Conflicting old new True) else make_closing_contract H (ids_value new) None)
      else if supersede \<and> set old \<subset> set new then
        bindE (contract_hash H old) (\<lambda>h. make_closing_contract H (ids_value new) (Some h))
      else Inl (Conflicting old new supersede))))"

definition resolve_issue_contract ::
  "(string \<Rightarrow> string) \<Rightarrow> int \<Rightarrow> pyval \<Rightarrow> pyval \<Rightarrow> pyval \<Rightarrow> bool \<Rightarrow> closing_error + closing_contract" where
  "resolve_issue_contract H primary_issue cli_additions plan_additions recovered supersede =
     bindE (normalize_issue_ids ''primary issue'' (PTuple [PInt primary_issue])) (\<lambda>primary.
     bindE (normalize_issue_ids ''--expected-closing-issue'' cli_additions) (\<lambda>cli.
     bindE (normalize_issue_ids ''additional_closing_issue_ids'' plan_additions) (\<lambda>plan.
     (let explicit = (cli \<noteq> None \<or> plan \<noteq> None);
          current = sorted_set (ids_or_empty primary @ ids_or_empty cli @ ids_or_empty plan)
      in if recovered = PNone then
           (if supersede then Inl NothingRecovered else make_closing_contract H (ids_value current) None)
         else
           bindE (normalize_issue_ids ''recovered contract'' recovered) (\<lambda>r.
           (let old = ids_or_empty r in
            if primary_issue \<notin> set old then Inl (PrimaryLost old primary_issue)
            else if \<not> explicit then
              (if supersede then Inl NothingDeclared else make_closing_contract H (ids_value old) None)
            else reconcile_contracts H (ids_value old) (ids_value current) supersede))))))"

definition resolve_direct_contract ::
  "(string \<Rightarrow> string) \<Rightarrow> pyval \<Rightarrow> pyval \<Rightarrow> bool \<Rightarrow> closing_error + closing_contract option" where
  "resolve_direct_contract H explicit recovered supersede =
     (if recovered = PNone then
        (if supersede then Inl NothingRecovered
         else if explicit = PNone then Inr None
         else bindE (make_closing_contract H explicit None) (\<lambda>c. Inr (Some c)))
      else
        bindE (normalize_issue_ids ''recovered contract'' recovered) (\<lambda>r.
        (let old = ids_or_empty r in
         if explicit = PNone then
           (if supersede then Inl NothingDeclared
            else bindE (make_closing_contract H (ids_value old) None) (\<lambda>c. Inr (Some c)))
         else bindE (reconcile_contracts H (ids_value old) explicit supersede) (\<lambda>c. Inr (Some c)))))"

definition reject_parent_from_contract :: "closing_contract \<Rightarrow> int option \<Rightarrow> closing_error + unit" where
  "reject_parent_from_contract c parent =
     (case parent of
        Some p \<Rightarrow> if p \<in> set (issue_ids c) then Inl (ParentIncluded p) else Inr ()
      | None \<Rightarrow> Inr ())"

section \<open>Flat children of a parent\<close>

record preflight =
  desired_count :: nat
  recognized_existing_count :: nat
  projected_total :: nat
  missing_count :: nat

record human_decision =
  hd_parent :: int
  hd_source :: string
  hd_requested :: nat
  hd_recognized :: nat
  hd_projected :: nat
  hd_limit :: int

definition preflight_flat_child_count ::
  "int \<Rightarrow> string \<Rightarrow> string list \<Rightarrow> string list \<Rightarrow> int \<Rightarrow> human_decision + preflight" where
  "preflight_flat_child_count parent source desired_keys recognized_keys limit =
     (let desired = dict_fromkeys desired_keys; recognized = dict_fromkeys recognized_keys;
          projected = length (dict_fromkeys (recognized_keys @ desired_keys))
      in if int projected > limit
         then Inl \<lparr>hd_parent = parent, hd_source = source, hd_requested = length desired, hd_recognized = length recognized,
                   hd_projected = projected, hd_limit = limit\<rparr>
         else Inr \<lparr>desired_count = length desired, recognized_existing_count = length recognized, projected_total = projected,
                   missing_count = length (filter (\<lambda>k. k \<notin> set recognized) desired)\<rparr>)"

record found_issue =
  fi_number :: "int option"
  fi_title :: "string option"
  fi_body :: "string option"
  fi_url :: "string option"

definition parent_child_search_queries :: "int \<Rightarrow> string list" where
  "parent_child_search_queries parent =
     [''\"(from #'' @ int_str parent @ '')\" in:title'',
      ''\"[#'' @ int_str parent @ '' stage]\" in:title'',
      ''\"Child phase issue for parent #'' @ int_str parent @ ''\" in:body'']"

text \<open>\<open>preferred or other\<close>, field by field.\<close>

definition first_nonempty :: "string option \<Rightarrow> string option \<Rightarrow> string option" where
  "first_nonempty a b = (if a = None \<or> a = Some [] then b else a)"

definition merge_found :: "found_issue \<Rightarrow> found_issue \<Rightarrow> found_issue" where
  "merge_found a b =
     \<lparr>fi_number = fi_number a, fi_title = first_nonempty (fi_title a) (fi_title b), fi_body = first_nonempty (fi_body a) (fi_body b),
      fi_url = first_nonempty (fi_url a) (fi_url b)\<rparr>"

text \<open>A dict in insertion order: an existing key keeps its place.\<close>

fun put_issue :: "int \<Rightarrow> found_issue \<Rightarrow> (int \<times> found_issue) list \<Rightarrow> (int \<times> found_issue) list" where
  "put_issue n f [] = [(n, f)]"
| "put_issue n f ((k, g) # rest) = (if k = n then (n, f) # rest else (k, g) # put_issue n f rest)"

definition add_hit ::
  "found_issue \<Rightarrow> (int \<times> found_issue) list \<times> found_issue list \<Rightarrow> (int \<times> found_issue) list \<times> found_issue list" where
  "add_hit f = (\<lambda>(merged, unnumbered).
     (case fi_number f of
        None \<Rightarrow> (merged, if f \<in> set unnumbered then unnumbered else unnumbered @ [f])
      | Some n \<Rightarrow> (put_issue n (case map_of merged n of None \<Rightarrow> f | Some old \<Rightarrow> merge_found old f) merged, unnumbered)))"

definition add_direct :: "found_issue \<Rightarrow> (int \<times> found_issue) list \<Rightarrow> (int \<times> found_issue) list" where
  "add_direct f merged =
     (case fi_number f of
        None \<Rightarrow> merged
      | Some n \<Rightarrow> put_issue n (case map_of merged n of None \<Rightarrow> f | Some old \<Rightarrow> merge_found f old) merged)"

definition merge_found_issues :: "found_issue list list \<Rightarrow> found_issue list \<Rightarrow> found_issue list" where
  "merge_found_issues result_sets preferred =
     (let (merged, unnumbered) = fold add_hit (concat result_sets) ([], [])
      in map snd (fold add_direct preferred merged) @ unnumbered)"

section \<open>Lemmas on the contract\<close>

lemma ids_or_empty_simps [simp]: "ids_or_empty None = []" "ids_or_empty (Some ns) = ns"
  by (simp_all add: ids_or_empty_def)

lemma collect_ids_ok: "collect_ids field k vs = Inr ns \<Longrightarrow> vs = map PInt ns \<and> (\<forall>n \<in> set ns. n > 0)"
proof (induction vs arbitrary: k ns)
  case (Cons v vs)
  then show ?case by (cases v) (auto simp: raise_simps split: if_splits)
qed simp

lemma collect_ids_ints: "\<forall>n \<in> set ns. n > 0 \<Longrightarrow> collect_ids field k (map PInt ns) = Inr ns"
  by (induction ns arbitrary: k) auto

lemma normalize_ok:
  assumes "normalize_issue_ids field v = Inr (Some ns)"
  shows "sorted ns \<and> distinct ns \<and> (\<forall>n \<in> set ns. n > 0)"
  using assms by (auto simp: normalize_issue_ids_def raise_simps split: if_splits option.splits dest!: collect_ids_ok)

lemma ids_ok: "normalize_issue_ids field v = Inr ns \<Longrightarrow>
    sorted (ids_or_empty ns) \<and> distinct (ids_or_empty ns) \<and> (\<forall>n \<in> set (ids_or_empty ns). n > 0)"
  by (cases ns) (auto simp: ids_or_empty_def dest: normalize_ok)

lemma normalize_ids:
  assumes "\<forall>n \<in> set ns. n > 0"
  shows "normalize_issue_ids field (ids_value ns) = Inr (Some (sorted_set ns))"
  using assms by (simp add: normalize_issue_ids_def ids_value_def collect_ids_ints)

definition digest_of :: "(string \<Rightarrow> string) \<Rightarrow> int list \<Rightarrow> string" where
  "digest_of H ids = H (json_canonical (PList (map PInt ids)))"

definition well_made :: "(string \<Rightarrow> string) \<Rightarrow> closing_contract \<Rightarrow> bool" where
  "well_made H c \<longleftrightarrow> sorted (issue_ids c) \<and> distinct (issue_ids c) \<and> (\<forall>n \<in> set (issue_ids c). n > 0)
     \<and> contract_digest c = digest_of H (issue_ids c)"

lemma make_contract_ids:
  assumes "sorted ns" "distinct ns" "\<forall>n \<in> set ns. n > 0"
  shows "make_closing_contract H (ids_value ns) prior = Inr \<lparr>issue_ids = ns, contract_digest = digest_of H ns, supersedes_digest = prior\<rparr>"
  using assms by (simp add: make_closing_contract_def contract_hash_def normalize_ids sorted_set_id ids_or_empty_def digest_of_def)

lemma make_contract_made:
  assumes "make_closing_contract H v prior = Inr c"
  shows "well_made H c \<and> supersedes_digest c = prior"
proof -
  obtain ns where ns: "normalize_issue_ids ''expected_closing_issue_ids'' v = Inr (Some ns)"
    using assms by (auto simp: make_closing_contract_def raise_simps split: option.splits)
  have "sorted ns" "distinct ns" "\<forall>n \<in> set ns. n > 0" using normalize_ok [OF ns] by auto
  then show ?thesis using assms ns
    by (simp add: make_closing_contract_def contract_hash_def normalize_ids sorted_set_id ids_or_empty_def well_made_def digest_of_def)
      auto
qed

lemma reconcile_ids:
  assumes "sorted old" "distinct old" "\<forall>n \<in> set old. n > 0" "sorted new" "distinct new" "\<forall>n \<in> set new. n > 0"
  shows "reconcile_contracts H (ids_value old) (ids_value new) supersede =
    (if old = new \<and> \<not> supersede then Inr \<lparr>issue_ids = new, contract_digest = digest_of H new, supersedes_digest = None\<rparr>
     else if supersede \<and> set old \<subset> set new
       then Inr \<lparr>issue_ids = new, contract_digest = digest_of H new, supersedes_digest = Some (digest_of H old)\<rparr>
     else Inl (Conflicting old new supersede))"
  using assms
  by (simp add: reconcile_contracts_def normalize_ids sorted_set_id ids_or_empty_def make_contract_ids contract_hash_def digest_of_def)

section \<open>A contract over the resumes of a run\<close>

text \<open>Every resume brings what the option and the plan declare, and whether the declaration supersedes.\<close>

inductive contract_history :: "(string \<Rightarrow> string) \<Rightarrow> int \<Rightarrow> closing_contract list \<Rightarrow> bool" for H primary_issue where
  opened: "resolve_issue_contract H primary_issue cli plan PNone supersede = Inr c \<Longrightarrow> contract_history H primary_issue [c]"
| resumed: "contract_history H primary_issue cs \<Longrightarrow>
    resolve_issue_contract H primary_issue cli plan (ids_value (issue_ids (last cs))) supersede = Inr c \<Longrightarrow>
    contract_history H primary_issue (cs @ [c])"

lemma primary_id: "normalize_issue_ids field (PTuple [PInt p]) = (if p \<le> 0 then Inl (BadIssue field 0) else Inr (Some [p]))"
  by (simp add: normalize_issue_ids_def sorted_set_def)

lemma ids_value_present [simp]: "ids_value ns \<noteq> PNone"
  by (simp add: ids_value_def)

lemma opening_contract:
  assumes "resolve_issue_contract H p cli plan PNone supersede = Inr c"
  shows "well_made H c \<and> p \<in> set (issue_ids c) \<and> supersedes_digest c = None"
proof -
  from assms obtain cl pl where p: "p > 0"
    and cl: "normalize_issue_ids ''--expected-closing-issue'' cli = Inr cl"
    and pl: "normalize_issue_ids ''additional_closing_issue_ids'' plan = Inr pl"
    and c: "make_closing_contract H (ids_value (sorted_set (p # ids_or_empty cl @ ids_or_empty pl))) None = Inr c"
    by (auto simp: resolve_issue_contract_def raise_simps primary_id Let_def split: if_splits)
  have "\<forall>n \<in> set (p # ids_or_empty cl @ ids_or_empty pl). n > 0" using p ids_ok [OF cl] ids_ok [OF pl] by auto
  then have "c = \<lparr>issue_ids = sorted_set (p # ids_or_empty cl @ ids_or_empty pl),
      contract_digest = digest_of H (sorted_set (p # ids_or_empty cl @ ids_or_empty pl)), supersedes_digest = None\<rparr>"
    using c by (subst (asm) make_contract_ids) auto
  then show ?thesis using make_contract_made [OF c] by auto
qed

lemma resumed_contract:
  assumes "resolve_issue_contract H p cli plan (ids_value (issue_ids old)) supersede = Inr c" and wm: "well_made H old"
  shows "well_made H c \<and> p \<in> set (issue_ids c) \<and>
    (\<not> supersede \<and> issue_ids c = issue_ids old \<and> supersedes_digest c = None
     \<or> supersede \<and> set (issue_ids old) \<subset> set (issue_ids c) \<and> supersedes_digest c = Some (contract_digest old))"
proof -
  let ?o = "issue_ids old"
  have o: "sorted ?o" "distinct ?o" "\<forall>n \<in> set ?o. n > 0" "contract_digest old = digest_of H ?o"
    using wm by (auto simp: well_made_def)
  from assms(1) obtain cl pl where p: "p > 0"
    and cl: "normalize_issue_ids ''--expected-closing-issue'' cli = Inr cl"
    and pl: "normalize_issue_ids ''additional_closing_issue_ids'' plan = Inr pl"
    by (auto simp: resolve_issue_contract_def raise_simps primary_id split: if_splits)
  have body: "(if p \<notin> set ?o then Inl (PrimaryLost ?o p)
      else if cl = None \<and> pl = None then (if supersede then Inl NothingDeclared else make_closing_contract H (ids_value ?o) None)
      else reconcile_contracts H (ids_value ?o) (ids_value (sorted_set (p # ids_or_empty cl @ ids_or_empty pl))) supersede) = Inr c"
    using assms(1) p cl pl
    by (cases cl; cases pl)
      (simp_all add: resolve_issue_contract_def primary_id normalize_ids [OF o(3)] sorted_set_id [OF o(1,2)] Let_def cong: if_cong)
  then have p: "p > 0" "p \<in> set ?o" using p by (auto split: if_splits)
  from body p have c: "if cl = None \<and> pl = None then \<not> supersede \<and> make_closing_contract H (ids_value ?o) None = Inr c
      else reconcile_contracts H (ids_value ?o) (ids_value (sorted_set (p # ids_or_empty cl @ ids_or_empty pl))) supersede = Inr c"
    by (auto split: if_splits)
  let ?n = "sorted_set (p # ids_or_empty cl @ ids_or_empty pl)"
  have pos: "\<forall>n \<in> set ?n. n > 0" using p ids_ok [OF cl] ids_ok [OF pl] by auto
  show ?thesis
  proof (cases "cl = None \<and> pl = None")
    case True
    then show ?thesis using c p o make_contract_made [of H "ids_value ?o" None c] by (simp add: make_contract_ids) auto
  next
    case False
    then have r: "reconcile_contracts H (ids_value ?o) (ids_value ?n) supersede = Inr c" using c by simp
    have rec: "reconcile_contracts H (ids_value ?o) (ids_value ?n) supersede =
      (if ?o = ?n \<and> \<not> supersede then Inr \<lparr>issue_ids = ?n, contract_digest = digest_of H ?n, supersedes_digest = None\<rparr>
       else if supersede \<and> set ?o \<subset> set ?n
         then Inr \<lparr>issue_ids = ?n, contract_digest = digest_of H ?n, supersedes_digest = Some (digest_of H ?o)\<rparr>
       else Inl (Conflicting ?o ?n supersede))"
      by (rule reconcile_ids [OF o(1-3) _ _ pos]) simp_all
    have "p \<in> set ?n" by simp
    then show ?thesis using r pos o(4) unfolding rec well_made_def
      by (auto split: if_splits)
  qed
qed

definition widens :: "closing_contract \<Rightarrow> closing_contract \<Rightarrow> bool" where
  "widens old c \<longleftrightarrow>
     issue_ids c = issue_ids old \<and> supersedes_digest c = None
     \<or> set (issue_ids old) \<subset> set (issue_ids c) \<and> supersedes_digest c = Some (contract_digest old)"

lemma history_sound:
  assumes "contract_history H p cs"
  shows "cs \<noteq> [] \<and> (\<forall>c \<in> set cs. well_made H c \<and> p \<in> set (issue_ids c)) \<and> supersedes_digest (hd cs) = None
    \<and> (\<forall>k. Suc k < length cs \<longrightarrow> widens (cs ! k) (cs ! Suc k))"
  using assms
proof induction
  case (opened cli plan supersede c)
  then show ?case using opening_contract [OF opened] by simp
next
  case (resumed cs cli plan supersede c)
  have new: "well_made H c \<and> p \<in> set (issue_ids c) \<and> widens (last cs) c"
    using resumed_contract [OF resumed.hyps(2)] resumed.IH by (auto simp: widens_def)
  have "widens ((cs @ [c]) ! k) ((cs @ [c]) ! Suc k)" if "Suc k < length (cs @ [c])" for k
  proof (cases "Suc k < length cs")
    case True
    then show ?thesis using resumed.IH by (simp add: nth_append)
  next
    case False
    then have "k = length cs - 1" "k < length cs" using that resumed.IH by (cases cs; simp)+
    then show ?thesis using new resumed.IH by (simp add: nth_append last_conv_nth)
  qed
  then show ?case using new resumed.IH by auto
qed

lemma widening_chain:
  assumes "\<forall>k. Suc k < length cs \<longrightarrow> widens (cs ! k) (cs ! Suc k)" "i \<le> j" "j < length cs"
  shows "set (issue_ids (cs ! i)) \<subseteq> set (issue_ids (cs ! j))"
  using assms(2,3)
proof (induction j rule: dec_induct)
  case (step j)
  then show ?case using assms(1) [rule_format, of j] by (auto simp: widens_def)
qed simp

section \<open>Lemmas on the children\<close>

lemma card_keys: "length (dict_fromkeys ks) = card (set ks)"
  by (metis dict_fromkeys_props distinct_card)

lemma missing_keys: "length (filter (\<lambda>k. k \<notin> R) (dict_fromkeys ks)) = card (set ks - R)"
proof -
  have "length (filter (\<lambda>k. k \<notin> R) (dict_fromkeys ks)) = card (set (filter (\<lambda>k. k \<notin> R) (dict_fromkeys ks)))"
    by (rule distinct_card [symmetric]) simp
  also have "set (filter (\<lambda>k. k \<notin> R) (dict_fromkeys ks)) = set ks - R" by auto
  finally show ?thesis .
qed

lemma preflight_cases:
  "preflight_flat_child_count parent source desired recognized limit =
     (if int (card (set recognized \<union> set desired)) > limit
      then Inl \<lparr>hd_parent = parent, hd_source = source, hd_requested = card (set desired), hd_recognized = card (set recognized),
                hd_projected = card (set recognized \<union> set desired), hd_limit = limit\<rparr>
      else Inr \<lparr>desired_count = card (set desired), recognized_existing_count = card (set recognized),
                projected_total = card (set recognized \<union> set desired), missing_count = card (set desired - set recognized)\<rparr>)"
  by (simp add: preflight_flat_child_count_def Let_def card_keys missing_keys)

lemma put_issue_map [simp]: "map_of (put_issue n f m) = (map_of m)(n \<mapsto> f)"
  by (induction m) auto

lemma put_issue_keys: "map fst (put_issue n f m) = (if n \<in> set (map fst m) then map fst m else map fst m @ [n])"
  by (induction m) (force split: if_splits)+

lemma put_issue_dom [simp]: "fst ` set (put_issue n f m) = insert n (fst ` set m)"
proof -
  have "set (map fst (put_issue n f m)) = insert n (set (map fst m))" unfolding put_issue_keys by auto
  then show ?thesis by simp
qed

definition numbered_by :: "(int \<times> found_issue) list \<Rightarrow> bool" where
  "numbered_by m \<longleftrightarrow> distinct (map fst m) \<and> (\<forall>(n, f) \<in> set m. fi_number f = Some n)"

lemma put_numbered: "numbered_by m \<Longrightarrow> fi_number f = Some n \<Longrightarrow> numbered_by (put_issue n f m)"
proof (induction m)
  case (Cons e m)
  obtain k g where e: "e = (k, g)" by (cases e)
  then have "numbered_by m" "k \<notin> set (map fst m)" using Cons.prems(1) by (auto simp: numbered_by_def)
  then show ?case using Cons e by (auto simp: numbered_by_def put_issue_keys)
qed (simp add: numbered_by_def)

lemma merge_number [simp]: "fi_number (merge_found a b) = fi_number a"
  by (simp add: merge_found_def)

lemma numbered_hit:
  assumes "numbered_by m" "\<forall>f \<in> set un. fi_number f = None" "distinct un"
  shows "numbered_by (fst (add_hit f (m, un))) \<and> (\<forall>g \<in> set (snd (add_hit f (m, un))). fi_number g = None)
    \<and> distinct (snd (add_hit f (m, un)))"
proof (cases "fi_number f")
  case (Some n)
  have "fi_number (case map_of m n of None \<Rightarrow> f | Some old \<Rightarrow> merge_found old f) = Some n"
    using Some assms(1) by (auto simp: numbered_by_def split: option.splits dest: map_of_SomeD)
  then show ?thesis using put_numbered [OF assms(1)] assms(2,3) Some by (simp add: add_hit_def)
qed (use assms in \<open>auto simp: add_hit_def\<close>)

lemma hits_fold:
  assumes "numbered_by m" "\<forall>f \<in> set un. fi_number f = None" "distinct un" "fold add_hit fs (m, un) = (m', un')"
  shows "numbered_by m' \<and> distinct un'
    \<and> Some ` fst ` set m' = Some ` fst ` set m \<union> (fi_number ` set fs - {None})
    \<and> set un' = set un \<union> {f \<in> set fs. fi_number f = None}"
  using assms
proof (induction fs arbitrary: m un)
  case (Cons f fs)
  obtain m1 un1 where one: "add_hit f (m, un) = (m1, un1)" by (cases "add_hit f (m, un)")
  have inv: "numbered_by m1" "\<forall>g \<in> set un1. fi_number g = None" "distinct un1"
    using numbered_hit [OF Cons.prems(1-3), of f] one by auto
  have keys: "Some ` fst ` set m1 = Some ` fst ` set m \<union> ({fi_number f} - {None})"
  proof (cases "fi_number f")
    case (Some n)
    then have "fst ` set m1 = insert n (fst ` set m)" using one by (simp add: add_hit_def) (metis put_issue_dom)
    then show ?thesis using Some by auto
  qed (use one in \<open>simp add: add_hit_def\<close>)
  have rest: "set un1 = set un \<union> {g \<in> {f}. fi_number g = None}"
    using one by (auto simp: add_hit_def split: option.splits if_splits)
  have "fold add_hit fs (m1, un1) = (m', un')" using Cons.prems(4) one by simp
  from Cons.IH [OF inv this] show ?case unfolding keys rest by auto
qed simp

lemma direct_step:
  assumes "numbered_by m"
  shows "numbered_by (add_direct f m) \<and> Some ` fst ` set (add_direct f m) = Some ` fst ` set m \<union> ({fi_number f} - {None})"
proof (cases "fi_number f")
  case (Some n)
  have "fi_number (case map_of m n of None \<Rightarrow> f | Some old \<Rightarrow> merge_found f old) = Some n"
    using Some by (auto split: option.splits)
  then have "numbered_by (add_direct f m)" using put_numbered [OF assms] Some by (simp add: add_direct_def)
  moreover have "fst ` set (add_direct f m) = insert n (fst ` set m)"
    using Some by (auto simp: add_direct_def)
  ultimately show ?thesis using Some by auto
qed (use assms in \<open>simp add: add_direct_def\<close>)

lemma direct_fold:
  "numbered_by m \<Longrightarrow> numbered_by (fold add_direct fs m)
     \<and> Some ` fst ` set (fold add_direct fs m) = Some ` fst ` set m \<union> (fi_number ` set fs - {None})"
proof (induction fs arbitrary: m)
  case (Cons f fs)
  note one = direct_step [OF Cons.prems, of f]
  from Cons.IH [OF conjunct1 [OF one]] show ?case using one by auto
qed simp

lemma direct_last:
  assumes "fi_number d = Some n" "\<forall>f \<in> set later. fi_number f \<noteq> Some n"
  shows "\<exists>g. map_of (fold add_direct (earlier @ d # later) m) n = Some g
    \<and> (\<forall>t. fi_title d = Some t \<and> t \<noteq> [] \<longrightarrow> fi_title g = Some t) \<and> (\<forall>t. fi_body d = Some t \<and> t \<noteq> [] \<longrightarrow> fi_body g = Some t)"
proof -
  let ?m = "fold add_direct earlier m"
  have keep: "map_of (fold add_direct later m') n = map_of m' n" for m'
    using assms(2) by (induction later arbitrary: m') (auto simp: add_direct_def split: option.splits)
  have "map_of (add_direct d ?m) n = Some (case map_of ?m n of None \<Rightarrow> d | Some old \<Rightarrow> merge_found d old)"
    using assms(1) by (simp add: add_direct_def)
  then show ?thesis by (auto simp: keep merge_found_def first_nonempty_def split: option.splits)
qed

section \<open>Properties\<close>

text \<open>C24: Over all resumes of a run the closing contract keeps the primary issue and never loses an issue: each
  contract is that of the resume before, or a proper superset of it that was declared as superseding and names the
  digest of what it supersedes; every contract is sorted, without repetition, and carries its own digest.\<close>

theorem closing_contract_only_widens:
  assumes "contract_history H primary_issue cs"
  shows "(\<forall>c \<in> set cs. primary_issue \<in> set (issue_ids c) \<and> sorted (issue_ids c) \<and> distinct (issue_ids c)
           \<and> contract_digest c = H (json_canonical (PList (map PInt (issue_ids c)))))
    \<and> (\<forall>i j. i \<le> j \<and> j < length cs \<longrightarrow> set (issue_ids (cs ! i)) \<subseteq> set (issue_ids (cs ! j)))
    \<and> (\<forall>k. Suc k < length cs \<longrightarrow>
         issue_ids (cs ! Suc k) = issue_ids (cs ! k) \<and> supersedes_digest (cs ! Suc k) = None
         \<or> set (issue_ids (cs ! k)) \<subset> set (issue_ids (cs ! Suc k))
           \<and> supersedes_digest (cs ! Suc k) = Some (contract_digest (cs ! k)))"
proof (intro conjI allI impI)
  note sound = history_sound [OF assms]
  show "\<forall>c \<in> set cs. primary_issue \<in> set (issue_ids c) \<and> sorted (issue_ids c) \<and> distinct (issue_ids c)
           \<and> contract_digest c = H (json_canonical (PList (map PInt (issue_ids c))))"
    using sound by (auto simp: well_made_def digest_of_def)
  show "set (issue_ids (cs ! i)) \<subseteq> set (issue_ids (cs ! j))" if "i \<le> j \<and> j < length cs" for i j
    using widening_chain [of cs i j] sound that by blast
  show "issue_ids (cs ! Suc k) = issue_ids (cs ! k) \<and> supersedes_digest (cs ! Suc k) = None
         \<or> set (issue_ids (cs ! k)) \<subset> set (issue_ids (cs ! Suc k))
           \<and> supersedes_digest (cs ! Suc k) = Some (contract_digest (cs ! k))" if "Suc k < length cs" for k
    using sound that by (simp add: widens_def)
qed

definition ex_first :: closing_contract where
  "ex_first = \<lparr>issue_ids = [3, 7], contract_digest = json_canonical (PList [PInt 3, PInt 7]), supersedes_digest = None\<rparr>"

definition ex_wider :: closing_contract where
  "ex_wider = \<lparr>issue_ids = [3, 5, 7], contract_digest = json_canonical (PList [PInt 3, PInt 5, PInt 7]),
     supersedes_digest = Some (contract_digest ex_first)\<rparr>"

lemma ex_history: "contract_history id 7 [ex_first, ex_wider]"
proof -
  have "resolve_issue_contract id 7 (PList [PInt 3]) PNone PNone False = Inr ex_first"
    by (simp add: resolve_issue_contract_def normalize_issue_ids_def make_closing_contract_def contract_hash_def ids_value_def sorted_set_def
        ex_first_def)
  then have one: "contract_history id 7 [ex_first]" by (rule contract_history.opened)
  have s: "{3, 7 :: int} \<subset> {3, 5, 7}" by (rule psubsetI) (auto simp: set_eq_iff intro!: exI [of _ 5])
  have "resolve_issue_contract id 7 (PList [PInt 3, PInt 5]) PNone (ids_value (issue_ids (last [ex_first]))) True = Inr ex_wider"
    by (simp add: resolve_issue_contract_def normalize_issue_ids_def reconcile_contracts_def make_closing_contract_def contract_hash_def
        ids_value_def sorted_set_def ex_first_def ex_wider_def Let_def s)
  from contract_history.resumed [OF one this] show ?thesis by simp
qed

theorem closing_contract_only_widens_witness:
  "set (issue_ids ex_first) \<subset> set (issue_ids ex_wider) \<and> supersedes_digest ex_wider = Some (contract_digest ex_first)"
  using closing_contract_only_widens [OF ex_history, THEN conjunct2, THEN conjunct2, rule_format, of 0]
  by (auto simp: ex_wider_def)

text \<open>The limit on children holds through interrupted creations.  If the preflight of a topology passes, then after
  any part of the desired children was created it passes again with the same total, within the limit, and what is
  missing is exactly what was not created yet; once all are there nothing is missing.  Otherwise nothing at all may be
  created: the total exceeds the limit, and no partial state passes either.\<close>

theorem child_limit_survives_resume:
  assumes "set created \<subseteq> set desired"
  shows "case preflight_flat_child_count parent source desired (recognized @ created) limit of
      Inl d \<Rightarrow> int (card (set recognized \<union> set desired)) > limit \<and> hd_projected d = card (set recognized \<union> set desired)
        \<and> hd_limit d = limit
    | Inr r \<Rightarrow> projected_total r = card (set recognized \<union> set desired) \<and> int (projected_total r) \<le> limit
        \<and> missing_count r = card (set desired - set recognized - set created)
        \<and> recognized_existing_count r + missing_count r = projected_total r"
proof -
  have same: "set (recognized @ created) \<union> set desired = set recognized \<union> set desired" using assms by auto
  have diff: "set desired - set (recognized @ created) = set desired - set recognized - set created" by auto
  have "card (set (recognized @ created)) + card (set desired - set (recognized @ created))
      = card (set (recognized @ created) \<union> (set desired - set (recognized @ created)))"
    by (rule card_Un_disjoint [symmetric]) auto
  also have "\<dots> = card (set recognized \<union> set desired)" by (rule arg_cong [of _ _ card]) (use assms in auto)
  finally show ?thesis unfolding preflight_cases same diff by (simp only: split: if_split sum.splits) auto
qed

theorem child_limit_survives_resume_witness:
  "missing_count (projr (preflight_flat_child_count 9 ''split'' [''a'', ''b'', ''a''] ([''old''] @ [''b'']) 3)) = 1"
proof -
  have "set [''b''] \<subseteq> set [''a'', ''b'', ''a'']" by simp
  note t = child_limit_survives_resume [OF this, where parent = 9 and source = "''split''" and recognized = "[''old'']" and limit = 3]
  have three: "card (set [''old''] \<union> set [''a'', ''b'', ''a'']) = 3"
    and one: "card (set [''a'', ''b'', ''a''] - set [''old''] - set [''b'']) = 1"
    by (simp_all add: card_insert_if insert_Diff_if)
  show ?thesis using t unfolding three one by (auto split: sum.splits)
qed

text \<open>Merging the search results names every issue once and loses none, whatever query found it; and of the issues
  that were read directly, the last reading of a number decides its title and body wherever it has them.\<close>

theorem merged_issues_are_unique:
  "distinct (map fi_number (filter (\<lambda>f. fi_number f \<noteq> None) (merge_found_issues results preferred)))
   \<and> fi_number ` set (merge_found_issues results preferred) - {None} = fi_number ` (set (concat results) \<union> set preferred) - {None}
   \<and> {f \<in> set (merge_found_issues results preferred). fi_number f = None} = {f \<in> set (concat results). fi_number f = None}
   \<and> (\<forall>earlier d later. preferred = earlier @ d # later \<longrightarrow> fi_number d \<noteq> None \<longrightarrow>
        (\<forall>f \<in> set later. fi_number f \<noteq> fi_number d) \<longrightarrow>
        (\<exists>g \<in> set (merge_found_issues results preferred). fi_number g = fi_number d
           \<and> (\<forall>t. fi_title d = Some t \<and> t \<noteq> [] \<longrightarrow> fi_title g = Some t)
           \<and> (\<forall>t. fi_body d = Some t \<and> t \<noteq> [] \<longrightarrow> fi_body g = Some t)))"
proof -
  obtain m un where hits: "fold add_hit (concat results) ([], []) = (m, un)" by (cases "fold add_hit (concat results) ([], [])")
  have h: "numbered_by m" "distinct un" "Some ` fst ` set m = fi_number ` set (concat results) - {None}"
    "set un = {f \<in> set (concat results). fi_number f = None}"
    using hits_fold [OF _ _ _ hits] by (auto simp: numbered_by_def)
  let ?m = "fold add_direct preferred m"
  have d: "numbered_by ?m" "Some ` fst ` set ?m = (fi_number ` set (concat results) - {None}) \<union> (fi_number ` set preferred - {None})"
    using direct_fold [OF h(1), of preferred] h(3) by auto
  have merged: "merge_found_issues results preferred = map snd ?m @ un" by (simp add: merge_found_issues_def hits)
  have num: "map fi_number (map snd ?m) = map Some (map fst ?m)" using d(1) by (auto simp: numbered_by_def)
  have none: "\<forall>f \<in> set un. fi_number f = None" using h(4) by simp
  have all: "\<forall>f \<in> set (map snd ?m). fi_number f \<noteq> None" using num by (metis (no_types, lifting) in_set_conv_nth length_map nth_map option.distinct(1))
  have kept: "filter (\<lambda>f. fi_number f \<noteq> None) (map snd ?m @ un) = map snd ?m"
    using all none by (simp add: filter_empty_conv filter_id_conv)
  have "distinct (map Some (map fst ?m))" using d(1) by (subst distinct_map) (simp add: numbered_by_def)
  then have one: "distinct (map fi_number (filter (\<lambda>f. fi_number f \<noteq> None) (merge_found_issues results preferred)))"
    unfolding merged kept num .
  have two: "fi_number ` set (merge_found_issues results preferred) - {None} = fi_number ` (set (concat results) \<union> set preferred) - {None}"
  proof -
    have "fi_number ` set (map snd ?m) = Some ` fst ` set ?m" using num by (metis list.set_map)
    then have a: "fi_number ` set (map snd ?m)
        = (fi_number ` set (concat results) - {None}) \<union> (fi_number ` set preferred - {None})"
      by (simp only: d(2))
    have b: "fi_number ` set un \<subseteq> {None}" using none by (auto simp only: image_subset_iff singleton_iff)
    show ?thesis unfolding merged set_append image_Un a using b by blast
  qed
  have three: "{f \<in> set (merge_found_issues results preferred). fi_number f = None} = {f \<in> set (concat results). fi_number f = None}"
  proof -
    have a: "{f \<in> set (map snd ?m). fi_number f = None} = {}" using all by (simp only: Collect_empty_eq) blast
    have b: "{f \<in> set un. fi_number f = None} = set un" using none by blast
    have c: "{f \<in> A \<union> B. fi_number f = None} = {f \<in> A. fi_number f = None} \<union> {f \<in> B. fi_number f = None}" for A B by blast
    show ?thesis unfolding merged set_append h(4) [symmetric] c a b by (rule Un_empty_left)
  qed
  have four: "\<exists>g \<in> set (merge_found_issues results preferred). fi_number g = fi_number x
           \<and> (\<forall>t. fi_title x = Some t \<and> t \<noteq> [] \<longrightarrow> fi_title g = Some t)
           \<and> (\<forall>t. fi_body x = Some t \<and> t \<noteq> [] \<longrightarrow> fi_body g = Some t)"
    if p: "preferred = earlier @ x # later" "fi_number x \<noteq> None" "\<forall>f \<in> set later. fi_number f \<noteq> fi_number x" for earlier x later
  proof -
    obtain n where n: "fi_number x = Some n" using p(2) by auto
    obtain g where g: "map_of ?m n = Some g" "\<forall>t. fi_title x = Some t \<and> t \<noteq> [] \<longrightarrow> fi_title g = Some t"
      "\<forall>t. fi_body x = Some t \<and> t \<noteq> [] \<longrightarrow> fi_body g = Some t"
      using direct_last [OF n, of later earlier m] p(1,3) n by auto
    have "(n, g) \<in> set ?m" using g(1) by (rule map_of_SomeD)
    then have "g \<in> set (merge_found_issues results preferred)" "fi_number g = Some n"
      using d(1) by (force simp: merged numbered_by_def)+
    then show ?thesis using g(2,3) n by auto
  qed
  show ?thesis by (intro conjI one two three allI impI) (rule four)
qed

theorem merged_issues_are_unique_witness:
  "\<exists>g \<in> set (merge_found_issues [[\<lparr>fi_number = Some 4, fi_title = Some ''cut off'', fi_body = None, fi_url = None\<rparr>]]
       [\<lparr>fi_number = Some 4, fi_title = Some ''whole title'', fi_body = None, fi_url = None\<rparr>]). fi_title g = Some ''whole title''"
  using merged_issues_are_unique [of "[[\<lparr>fi_number = Some 4, fi_title = Some ''cut off'', fi_body = None, fi_url = None\<rparr>]]"
      "[\<lparr>fi_number = Some 4, fi_title = Some ''whole title'', fi_body = None, fi_url = None\<rparr>]",
    THEN conjunct2, THEN conjunct2, THEN conjunct2, rule_format, of "[]" _ "[]"]
  by auto

end
