(* ===== verification/Plan_Growth.thy ===== *)
theory Plan_Growth
  imports Prelude
begin

text \<open>
  Growth of a one-shot plan (\<open>plan_growth.py\<close>): the measured signals, the gate on the justification, the verdict
  that is stored at approval and read back on resume, and the scope ledger that a conversion to stages must keep.

  A plan is a decoded mapping or the structured object, whose parts are given as their payloads.
\<close>

section \<open>Thresholds and signals\<close>

definition SIGNAL_RENDERED_SIZE :: string where "SIGNAL_RENDERED_SIZE = ''rendered-size''"
definition SIGNAL_SCOPE_ITEMS :: string where "SIGNAL_SCOPE_ITEMS = ''scope-items''"
definition SIGNAL_MATRIX_ROWS :: string where "SIGNAL_MATRIX_ROWS = ''matrix-rows''"
definition SIGNAL_REVISION_COUNT :: string where "SIGNAL_REVISION_COUNT = ''revision-count''"

definition PLAN_GROWTH_SIGNALS :: "string list" where
  "PLAN_GROWTH_SIGNALS = [SIGNAL_RENDERED_SIZE, SIGNAL_SCOPE_ITEMS, SIGNAL_MATRIX_ROWS, SIGNAL_REVISION_COUNT]"

lemmas signals = PLAN_GROWTH_SIGNALS_def SIGNAL_RENDERED_SIZE_def SIGNAL_SCOPE_ITEMS_def SIGNAL_MATRIX_ROWS_def SIGNAL_REVISION_COUNT_def

definition PLAN_GROWTH_GATE_MODES :: "string list" where "PLAN_GROWTH_GATE_MODES = [''enforce'', ''off'']"
definition MAX_GITHUB_BODY_CHARS :: int where "MAX_GITHUB_BODY_CHARS = 60000"
definition DEFAULT_PLAN_GROWTH_MAX_CHARS :: int where "DEFAULT_PLAN_GROWTH_MAX_CHARS = MAX_GITHUB_BODY_CHARS * 2"
definition DEFAULT_PLAN_GROWTH_MAX_REVISIONS :: int where "DEFAULT_PLAN_GROWTH_MAX_REVISIONS = 6"
definition DEFAULT_PLAN_GROWTH_MAX_SCOPE_ITEMS :: int where "DEFAULT_PLAN_GROWTH_MAX_SCOPE_ITEMS = 12"
definition DEFAULT_PLAN_GROWTH_MAX_MATRIX_ROWS :: int where "DEFAULT_PLAN_GROWTH_MAX_MATRIX_ROWS = 18"

record thresholds =
  max_chars :: int
  max_revisions :: int
  max_scope_items :: int
  max_matrix_rows :: int

text \<open>The settings of a run; an attribute that the configuration lacks is \<open>None\<close>.\<close>

record growth_config =
  gc_gate :: "string option"
  gc_chars :: "int option"
  gc_revisions :: "int option"
  gc_scope :: "int option"
  gc_rows :: "int option"

definition given_or :: "'a option \<Rightarrow> 'a \<Rightarrow> 'a" where
  "given_or v d = (case v of None \<Rightarrow> d | Some x \<Rightarrow> x)"

definition thresholds_from_config :: "growth_config \<Rightarrow> thresholds" where
  "thresholds_from_config cfg =
     \<lparr>max_chars = given_or (gc_chars cfg) DEFAULT_PLAN_GROWTH_MAX_CHARS,
      max_revisions = given_or (gc_revisions cfg) DEFAULT_PLAN_GROWTH_MAX_REVISIONS,
      max_scope_items = given_or (gc_scope cfg) DEFAULT_PLAN_GROWTH_MAX_SCOPE_ITEMS,
      max_matrix_rows = given_or (gc_rows cfg) DEFAULT_PLAN_GROWTH_MAX_MATRIX_ROWS\<rparr>"

definition plan_growth_gate_enforced :: "growth_config \<Rightarrow> bool" where
  "plan_growth_gate_enforced cfg \<longleftrightarrow> given_or (gc_gate cfg) ''enforce'' = ''enforce''"

record assessment =
  rendered_chars :: int
  revision_count :: "int option"
  as_scope_items :: int
  as_matrix_rows :: int
  as_thresholds :: thresholds
  crossed :: "string list"

definition describe_assessment :: "assessment \<Rightarrow> string" where
  "describe_assessment a =
     join ''; ''
       ([''canonical plan size '' @ int_str (rendered_chars a) @ '' characters (threshold '' @ int_str (max_chars (as_thresholds a))
           @ ''; the GitHub comment limit is '' @ int_str MAX_GITHUB_BODY_CHARS @ '')'',
         ''scope items '' @ int_str (as_scope_items a) @ '' (threshold '' @ int_str (max_scope_items (as_thresholds a)) @ '')'',
         ''risk-matrix rows '' @ int_str (as_matrix_rows a) @ '' (threshold '' @ int_str (max_matrix_rows (as_thresholds a)) @ '')'']
        @ (case revision_count a of
             None \<Rightarrow> []
           | Some n \<Rightarrow>
               [''planner revisions '' @ int_str n @ '' (threshold '' @ int_str (max_revisions (as_thresholds a))
                @ '', counted only when the plan is at least '' @ int_str (max_chars (as_thresholds a) div 2) @ '' characters)'']))"

section \<open>Plans\<close>

datatype plan_like = PlanMapping pyval | PlanObject "int option" "pyval option" "pyval option" "pyval option"

fun as_mapping :: "pyval \<Rightarrow> pyval option" where
  "as_mapping (PDict kvs) = Some (PDict kvs)"
| "as_mapping _ = None"

fun version_of :: "pyval \<Rightarrow> int option" where
  "version_of (PInt n) = Some n"
| "version_of _ = None"

fun plan_facts :: "plan_like \<Rightarrow> int option \<times> pyval option \<times> pyval option \<times> pyval option" where
  "plan_facts (PlanMapping p) =
     (version_of (py_get p ''execution_strategy_contract_version''), as_mapping (py_get p ''execution_recommendation''),
      as_mapping (py_get p ''risk_test_matrix''), as_mapping (py_get p ''one_shot_growth_justification''))"
| "plan_facts (PlanObject version recommendation matrix justification) = (version, recommendation, matrix, justification)"

definition scope_items :: "pyval option \<Rightarrow> pyval list" where
  "scope_items recommendation =
     (case recommendation of
        None \<Rightarrow> []
      | Some r \<Rightarrow> (case py_get r ''scope_items'' of PList xs \<Rightarrow> filter (\<lambda>x. as_mapping x \<noteq> None) xs | _ \<Rightarrow> []))"

definition plan_recommendation :: "plan_like \<Rightarrow> pyval option" where
  "plan_recommendation p = fst (snd (plan_facts p))"

definition plan_strategy :: "plan_like \<Rightarrow> string option" where
  "plan_strategy p =
     (case plan_recommendation p of
        Some r \<Rightarrow> if fst (plan_facts p) = Some 1 then opt_str (py_get r ''strategy'') else None
      | None \<Rightarrow> None)"

definition plan_justification :: "plan_like \<Rightarrow> pyval option" where
  "plan_justification p = snd (snd (snd (plan_facts p)))"

definition assess_plan_growth :: "plan_like \<Rightarrow> int \<Rightarrow> int option \<Rightarrow> thresholds \<Rightarrow> assessment" where
  "assess_plan_growth p chars revisions th =
     (let ids = dict_fromkeys (map (\<lambda>x. py_str (py_get x ''scope_item_id''))
                  (filter (\<lambda>x. py_get x ''scope_item_id'' \<noteq> PNone) (scope_items (plan_recommendation p))));
          rows = (case fst (snd (snd (plan_facts p))) of
                    None \<Rightarrow> 0
                  | Some mx \<Rightarrow> (case py_get mx ''rows'' of PList xs \<Rightarrow> length xs | _ \<Rightarrow> 0))
      in \<lparr>rendered_chars = chars, revision_count = revisions, as_scope_items = int (length ids), as_matrix_rows = int rows,
          as_thresholds = th,
          crossed =
            (if chars \<ge> max_chars th then [SIGNAL_RENDERED_SIZE] else [])
            @ (if int (length ids) \<ge> max_scope_items th then [SIGNAL_SCOPE_ITEMS] else [])
            @ (if int rows \<ge> max_matrix_rows th then [SIGNAL_MATRIX_ROWS] else [])
            @ (case revisions of
                 None \<Rightarrow> []
               | Some n \<Rightarrow> if n \<ge> max_revisions th \<and> chars * 2 \<ge> max_chars th then [SIGNAL_REVISION_COUNT] else [])\<rparr>)"

section \<open>The gate\<close>

definition quoted_list :: "string list \<Rightarrow> string" where
  "quoted_list xs = join '', '' (map (\<lambda>x. ''`'' @ x @ ''`'') xs)"

definition named_signals :: "pyval \<Rightarrow> string list" where
  "named_signals justification =
     (case py_get justification ''crossed_signals'' of PList xs \<Rightarrow> map py_str xs | _ \<Rightarrow> [])"

definition growth_justification_violation :: "plan_like \<Rightarrow> assessment \<Rightarrow> string option" where
  "growth_justification_violation p a =
     (let just = plan_justification p; ordered = filter (\<lambda>s. s \<in> set (crossed a)) PLAN_GROWTH_SIGNALS in
      case plan_strategy p of
        None \<Rightarrow> None
      | Some strategy \<Rightarrow>
          if strategy \<noteq> ''one-shot'' then
            (if just \<noteq> None
             then Some (''A staged execution_recommendation must not carry `one_shot_growth_justification`; ''
                        @ ''remove it (a semantic patch uses `replace` with value null).'') else None)
          else if crossed a = [] then
            (if just \<noteq> None
             then Some (''This one-shot plan crosses no plan-growth threshold ('' @ describe_assessment a
                        @ ''), so its `one_shot_growth_justification` is stale; remove it (a semantic patch uses ''
                        @ ''`replace` with value null).'') else None)
          else
            (case just of
               None \<Rightarrow>
                 Some (''This one-shot plan crosses plan-growth threshold(s) '' @ quoted_list ordered @ '' ('' @ describe_assessment a
                   @ ''). Either restructure it as a staged execution_recommendation, keeping scope, stage boundaries, interfaces ''
                   @ ''and acceptance criteria in this parent plan and moving per-stage design into requires-child-planning ''
                   @ ''children, or add `one_shot_growth_justification` naming exactly these signals with a rationale reviewers ''
                   @ ''can evaluate.'')
             | Some j \<Rightarrow>
                 (let named = named_signals j;
                      missing = filter (\<lambda>s. s \<notin> set named) ordered;
                      extra = sorted_set (filter (\<lambda>s. s \<notin> set (crossed a)) named);
                      details = (if missing \<noteq> [] then [''missing '' @ quoted_list missing] else [])
                        @ (if extra \<noteq> [] then [''naming signal(s) no longer crossed '' @ quoted_list extra] else [])
                  in if set named \<noteq> set (crossed a)
                     then Some (''`one_shot_growth_justification.crossed_signals` must name exactly the signals this plan crosses (''
                            @ quoted_list ordered @ ''): '' @ join ''; '' details @ ''. Measurements: '' @ describe_assessment a @ ''.'')
                     else None)))"

definition check_growth_justification :: "plan_like \<Rightarrow> assessment \<Rightarrow> string + unit" where
  "check_growth_justification p a =
     (case growth_justification_violation p a of None \<Rightarrow> Inr () | Some v \<Rightarrow> Inl (''Plan growth gate: '' @ v))"

section \<open>The verdict of an approval\<close>

definition VERDICT_COMPLIANT :: string where "VERDICT_COMPLIANT = ''compliant''"
definition VERDICT_NON_COMPLIANT :: string where "VERDICT_NON_COMPLIANT = ''non-compliant''"
definition VERDICT_NOT_APPLICABLE :: string where "VERDICT_NOT_APPLICABLE = ''not-applicable''"

definition PLAN_GROWTH_VERDICT_STATUSES :: "string list" where
  "PLAN_GROWTH_VERDICT_STATUSES = [VERDICT_COMPLIANT, VERDICT_NON_COMPLIANT, VERDICT_NOT_APPLICABLE]"

definition THRESHOLD_KEYS :: "string list" where
  "THRESHOLD_KEYS = [''max_chars'', ''max_revisions'', ''max_scope_items'', ''max_matrix_rows'']"

record verdict =
  vd_gate :: string
  vd_status :: string
  vd_crossed :: "string list"
  vd_thresholds :: thresholds

definition verdict_to_payload :: "verdict \<Rightarrow> pyval" where
  "verdict_to_payload v =
     PDict [(''gate'', PStr (vd_gate v)), (''status'', PStr (vd_status v)), (''crossed_signals'', PList (map PStr (vd_crossed v))),
            (''thresholds'',
             PDict [(''max_chars'', PInt (max_chars (vd_thresholds v))), (''max_revisions'', PInt (max_revisions (vd_thresholds v))),
                    (''max_scope_items'', PInt (max_scope_items (vd_thresholds v))),
                    (''max_matrix_rows'', PInt (max_matrix_rows (vd_thresholds v)))])]"

fun threshold_value :: "pyval \<Rightarrow> int option" where
  "threshold_value (PInt n) = (if n < 1 then None else Some n)"
| "threshold_value _ = None"

datatype verdict_error = BadKeys | UnknownGate pyval | UnknownStatus pyval | BadSignals | NotApplicableCrosses | BadThresholdKeys
  | BadThreshold string

definition exactly_keys :: "string list \<Rightarrow> pyval \<Rightarrow> bool" where
  "exactly_keys ks v \<longleftrightarrow> as_mapping v \<noteq> None \<and> set (map fst (py_items v)) = set ks"

definition canonical_signals :: "pyval \<Rightarrow> bool" where
  "canonical_signals v \<longleftrightarrow>
     (case v of
        PList xs \<Rightarrow> (\<forall>x \<in> set xs. is_str x) \<and> xs = map PStr (filter (\<lambda>s. PStr s \<in> set xs) PLAN_GROWTH_SIGNALS)
      | _ \<Rightarrow> False)"

definition verdict_from_payload :: "pyval \<Rightarrow> verdict_error + verdict" where
  "verdict_from_payload payload =
     (let gate = py_get payload ''gate''; status = py_get payload ''status''; signals = py_get payload ''crossed_signals'';
          th = py_get payload ''thresholds''; value = (\<lambda>k. threshold_value (py_get th k)) in
      if \<not> exactly_keys [''gate'', ''status'', ''crossed_signals'', ''thresholds''] payload then Inl BadKeys
      else if gate \<notin> PStr ` set PLAN_GROWTH_GATE_MODES then Inl (UnknownGate gate)
      else if status \<notin> PStr ` set PLAN_GROWTH_VERDICT_STATUSES then Inl (UnknownStatus status)
      else if \<not> canonical_signals signals then Inl BadSignals
      else if status = PStr VERDICT_NOT_APPLICABLE \<and> signals \<noteq> PList [] then Inl NotApplicableCrosses
      else if \<not> exactly_keys THRESHOLD_KEYS th then Inl BadThresholdKeys
      else case find (\<lambda>k. value k = None) THRESHOLD_KEYS of
             Some k \<Rightarrow> Inl (BadThreshold k)
           | None \<Rightarrow>
               Inr \<lparr>vd_gate = the_str gate, vd_status = the_str status, vd_crossed = (case signals of PList xs \<Rightarrow> map the_str xs | _ \<Rightarrow> []),
                    vd_thresholds = \<lparr>max_chars = the (value ''max_chars''), max_revisions = the (value ''max_revisions''),
                      max_scope_items = the (value ''max_scope_items''), max_matrix_rows = the (value ''max_matrix_rows'')\<rparr>\<rparr>)"

definition describe_verdict :: "verdict \<Rightarrow> string" where
  "describe_verdict v =
     ''gate '' @ vd_gate v @ '', '' @ vd_status v @ '' (crossed: ''
     @ (if join '', '' (vd_crossed v) = [] then ''none'' else join '', '' (vd_crossed v)) @ '')''"

definition plan_growth_approval_verdict :: "growth_config \<Rightarrow> plan_like option \<Rightarrow> assessment option \<Rightarrow> verdict" where
  "plan_growth_approval_verdict cfg p a =
     (let gate = given_or (gc_gate cfg) ''enforce'';
          exempt = \<lparr>vd_gate = gate, vd_status = VERDICT_NOT_APPLICABLE, vd_crossed = [], vd_thresholds = thresholds_from_config cfg\<rparr>
      in case (p, a) of
           (Some plan, Some asmt) \<Rightarrow>
             if plan_strategy plan = None then exempt
             else \<lparr>vd_gate = gate,
                   vd_status = (if growth_justification_violation plan asmt = None then VERDICT_COMPLIANT else VERDICT_NON_COMPLIANT),
                   vd_crossed = filter (\<lambda>s. s \<in> set (crossed asmt)) PLAN_GROWTH_SIGNALS, vd_thresholds = as_thresholds asmt\<rparr>
         | _ \<Rightarrow> exempt)"

definition handoff_growth_verdict_violation :: "verdict option \<Rightarrow> growth_config \<Rightarrow> string option" where
  "handoff_growth_verdict_violation v cfg =
     (case v of
        None \<Rightarrow> None
      | Some vd \<Rightarrow>
          if vd_status vd \<noteq> VERDICT_NON_COMPLIANT then None
          else if \<not> plan_growth_gate_enforced cfg then None
          else Some (''the handoff record says the approved plan failed the plan-growth gate when it was approved (''
            @ describe_verdict vd @ ''; crossed signals '' @ (if vd_crossed vd = [] then ''none'' else quoted_list (vd_crossed vd))
            @ ''), and the gate is enforced now. Re-plan so a revision restructures the plan as staged or carries a reviewed ''
            @ ''`one_shot_growth_justification`, or rerun with `--plan-growth-gate off` to accept it.''))"

section \<open>The scope ledger of a conversion\<close>

definition normalize_space :: "pyval \<Rightarrow> string" where
  "normalize_space v = join '' '' (py_words (py_str v))"

text \<open>\<open>item.get(key, "")\<close>.\<close>

definition get_or_empty :: "pyval \<Rightarrow> string \<Rightarrow> pyval" where
  "get_or_empty v k = (if k \<in> fst ` set (py_items v) then py_get v k else PStr [])"

definition criteria :: "pyval \<Rightarrow> pyval list" where
  "criteria x = (case py_get x ''acceptance_criteria'' of PList xs \<Rightarrow> xs | _ \<Rightarrow> [])"

definition scope_id :: "pyval \<Rightarrow> string" where
  "scope_id x = py_str (py_get x ''scope_item_id'')"

text \<open>A later item with the same id replaces an earlier one.\<close>

definition items_by_id :: "pyval list \<Rightarrow> string \<rightharpoonup> pyval" where
  "items_by_id xs = map_of (rev (map (\<lambda>x. (scope_id x, x)) xs))"

definition scope_problems :: "(string \<rightharpoonup> pyval) \<Rightarrow> pyval \<Rightarrow> string list" where
  "scope_problems candidates x =
     (case candidates (scope_id x) of
        None \<Rightarrow> [''scope item `'' @ scope_id x @ ''` was dropped or renamed'']
      | Some now \<Rightarrow>
          (let kept = normalize_space ` set (criteria now);
               lost = filter (\<lambda>c. normalize_space c \<notin> kept) (criteria x)
           in (if normalize_space (get_or_empty x ''requirement'') \<noteq> normalize_space (get_or_empty now ''requirement'')
               then [''scope item `'' @ scope_id x @ ''` changed its requirement text''] else [])
              @ (if lost \<noteq> []
                 then [''scope item `'' @ scope_id x @ ''` removed or reworded '' @ nat_str (length lost) @ '' acceptance criterion(s)'']
                 else [])))"

definition check_scope_ledger_preservation :: "plan_like option \<Rightarrow> plan_like \<Rightarrow> string + unit" where
  "check_scope_ledger_preservation prior candidate =
     (case prior of
        None \<Rightarrow> Inr ()
      | Some p \<Rightarrow>
          if plan_strategy p \<noteq> Some ''one-shot'' \<or> plan_strategy candidate \<noteq> Some ''staged'' then Inr ()
          else
            (let problems = concat (map (scope_problems (items_by_id (scope_items (plan_recommendation candidate))))
                              (scope_items (plan_recommendation p)))
             in if problems \<noteq> []
                then Inl (''Converting a one-shot plan to staged must preserve the scope ledger: '' @ join ''; '' problems
                   @ ''. Keep every prior scope item's ID, requirement text and acceptance criteria verbatim (adding criteria or ''
                   @ ''new scope items is allowed); make intentional scope edits in a separate non-converting revision.'')
                else Inr ()))"

section \<open>Notices\<close>

definition render_growth_measurements :: "assessment \<Rightarrow> string" where
  "render_growth_measurements a =
     ''Plan-growth measurements (orchestrator, not a reviewer finding): this one-shot plan crosses plan-growth threshold(s) ''
     @ quoted_list (crossed a) @ ''. Measurements: '' @ describe_assessment a
     @ ''. Evaluate its `one_shot_growth_justification` against these signals as a semantic claim, or block with the ''
     @ ''plan-growth lever.''"

definition render_growth_notice :: "assessment \<Rightarrow> string option \<Rightarrow> string option \<Rightarrow> string" where
  "render_growth_notice a violation strategy =
     (if strategy \<noteq> Some ''one-shot'' \<or> crossed a = []
      then ''Orchestrator plan-growth notice (not a reviewer finding): ''
        @ (case violation of
             Some v \<Rightarrow> if v \<noteq> [] then v else ''the plan carries a stale `one_shot_growth_justification`.''
           | None \<Rightarrow> ''the plan carries a stale `one_shot_growth_justification`.'')
        @ '' No restructuring is required for this; only the stale justification must go. Measurements: ''
        @ describe_assessment a @ ''.''
      else ''Orchestrator plan-growth notice (not a reviewer finding): the current one-shot plan crosses plan-growth threshold(s) ''
        @ quoted_list (crossed a) @ '' without a justification that covers exactly them. Measurements: ''
        @ describe_assessment a @ ''.'')"

section \<open>Stored verdicts\<close>

definition verdict_ok :: "verdict \<Rightarrow> bool" where
  "verdict_ok v \<longleftrightarrow>
     vd_gate v \<in> set PLAN_GROWTH_GATE_MODES \<and> vd_status v \<in> set PLAN_GROWTH_VERDICT_STATUSES
     \<and> vd_crossed v = filter (\<lambda>s. s \<in> set (vd_crossed v)) PLAN_GROWTH_SIGNALS
     \<and> (vd_status v = VERDICT_NOT_APPLICABLE \<longrightarrow> vd_crossed v = [])
     \<and> max_chars (vd_thresholds v) \<ge> 1 \<and> max_revisions (vd_thresholds v) \<ge> 1
     \<and> max_scope_items (vd_thresholds v) \<ge> 1 \<and> max_matrix_rows (vd_thresholds v) \<ge> 1"

lemma canonical_signals_strings:
  "canonical_signals (PList (map PStr xs)) \<longleftrightarrow> xs = filter (\<lambda>s. s \<in> set xs) PLAN_GROWTH_SIGNALS"
proof -
  have "filter (\<lambda>s. PStr s \<in> set (map PStr xs)) PLAN_GROWTH_SIGNALS = filter (\<lambda>s. s \<in> set xs) PLAN_GROWTH_SIGNALS"
    by (rule filter_cong) auto
  moreover have "\<forall>x \<in> set (map PStr xs). is_str x" by simp
  ultimately show ?thesis by (simp add: canonical_signals_def del: set_map)
qed

lemma canonical_signals_list: "canonical_signals v \<Longrightarrow> \<exists>xs. v = PList (map PStr xs) \<and> xs = filter (\<lambda>s. s \<in> set xs) PLAN_GROWTH_SIGNALS"
proof -
  assume c: "canonical_signals v"
  then obtain xs where v: "v = PList xs" and "xs = map PStr (filter (\<lambda>s. PStr s \<in> set xs) PLAN_GROWTH_SIGNALS)"
    by (cases v) (auto simp: canonical_signals_def)
  then obtain ys where "xs = map PStr ys" by metis
  then show ?thesis using c canonical_signals_strings v by auto
qed

lemma verdict_written: "verdict_ok v \<Longrightarrow> verdict_from_payload (verdict_to_payload v) = Inr v"
  by (cases v; cases "vd_thresholds v")
    (auto simp: verdict_ok_def verdict_from_payload_def verdict_to_payload_def exactly_keys_def canonical_signals_strings THRESHOLD_KEYS_def
      Let_def)

lemma verdict_read: "verdict_from_payload payload = Inr v \<Longrightarrow> verdict_ok v"
proof -
  assume r: "verdict_from_payload payload = Inr v"
  let ?th = "py_get payload ''thresholds''"
  have g: "py_get payload ''gate'' \<in> PStr ` set PLAN_GROWTH_GATE_MODES" "py_get payload ''status'' \<in> PStr ` set PLAN_GROWTH_VERDICT_STATUSES"
    and c: "canonical_signals (py_get payload ''crossed_signals'')"
    and na: "py_get payload ''status'' = PStr VERDICT_NOT_APPLICABLE \<Longrightarrow> py_get payload ''crossed_signals'' = PList []"
    and th: "\<forall>k \<in> set THRESHOLD_KEYS. threshold_value (py_get ?th k) \<noteq> None"
    and v: "v = \<lparr>vd_gate = the_str (py_get payload ''gate''), vd_status = the_str (py_get payload ''status''),
        vd_crossed = (case py_get payload ''crossed_signals'' of PList xs \<Rightarrow> map the_str xs | _ \<Rightarrow> []),
        vd_thresholds = \<lparr>max_chars = the (threshold_value (py_get ?th ''max_chars'')),
          max_revisions = the (threshold_value (py_get ?th ''max_revisions'')),
          max_scope_items = the (threshold_value (py_get ?th ''max_scope_items'')),
          max_matrix_rows = the (threshold_value (py_get ?th ''max_matrix_rows''))\<rparr>\<rparr>"
    using r by (auto simp: verdict_from_payload_def Let_def find_None_iff split: if_splits option.splits)
  obtain xs where xs: "py_get payload ''crossed_signals'' = PList (map PStr xs)" "xs = filter (\<lambda>s. s \<in> set xs) PLAN_GROWTH_SIGNALS"
    using canonical_signals_list [OF c] by blast
  have pos: "threshold_value w \<noteq> None \<Longrightarrow> the (threshold_value w) \<ge> 1" for w by (cases w) auto
  show ?thesis unfolding verdict_ok_def
  proof (intro conjI impI)
    show "vd_crossed v = filter (\<lambda>s. s \<in> set (vd_crossed v)) PLAN_GROWTH_SIGNALS" using xs by (simp add: v)
    show "vd_crossed v = []" if "vd_status v = VERDICT_NOT_APPLICABLE" using that na g(2) xs(1) by (auto simp: v)
  qed (use g th pos in \<open>auto simp: v THRESHOLD_KEYS_def\<close>)
qed

interpretation growth_verdict: record_codec verdict_to_payload verdict_from_payload verdict_ok
  by unfold_locales (rule verdict_written, assumption, rule verdict_read)

definition positive_thresholds :: "thresholds \<Rightarrow> bool" where
  "positive_thresholds th \<longleftrightarrow> max_chars th \<ge> 1 \<and> max_revisions th \<ge> 1 \<and> max_scope_items th \<ge> 1 \<and> max_matrix_rows th \<ge> 1"

lemma approval_verdict_ok:
  assumes "given_or (gc_gate cfg) ''enforce'' \<in> set PLAN_GROWTH_GATE_MODES" "positive_thresholds (thresholds_from_config cfg)"
    "\<And>asmt. a = Some asmt \<Longrightarrow> positive_thresholds (as_thresholds asmt)"
  shows "verdict_ok (plan_growth_approval_verdict cfg p a)"
proof -
  have f: "filter (\<lambda>s. s \<in> set (filter (\<lambda>s. s \<in> C) xs)) xs = filter (\<lambda>s. s \<in> C) xs" for C and xs :: "string list"
    by (rule filter_cong) auto
  have "VERDICT_COMPLIANT \<noteq> VERDICT_NOT_APPLICABLE" "VERDICT_NON_COMPLIANT \<noteq> VERDICT_NOT_APPLICABLE"
    by (simp_all add: VERDICT_COMPLIANT_def VERDICT_NON_COMPLIANT_def VERDICT_NOT_APPLICABLE_def)
  then show ?thesis using assms f
    by (cases p; cases a)
      (auto simp: plan_growth_approval_verdict_def verdict_ok_def Let_def PLAN_GROWTH_VERDICT_STATUSES_def positive_thresholds_def)
qed

section \<open>Properties\<close>

text \<open>C34: Approval survives a resume.  The verdict that is stored when a plan is approved is read back from its payload
  exactly; and a later run, whatever its own thresholds, refuses the recorded plan if and only if the gate is enforced
  now and the plan, judged against the thresholds of its approval, had a strategy and failed the gate.\<close>

theorem approval_survives_resume:
  assumes "given_or (gc_gate cfg) ''enforce'' \<in> set PLAN_GROWTH_GATE_MODES" "positive_thresholds (thresholds_from_config cfg)"
    and "v = plan_growth_approval_verdict cfg (Some p) (Some (assess_plan_growth p chars revisions (thresholds_from_config cfg)))"
  shows "verdict_from_payload (verdict_to_payload v) = Inr v
    \<and> (handoff_growth_verdict_violation (Some v) later = None
       \<longleftrightarrow> \<not> plan_growth_gate_enforced later \<or> plan_strategy p = None
         \<or> growth_justification_violation p (assess_plan_growth p chars revisions (thresholds_from_config cfg)) = None)"
proof -
  have th: "as_thresholds (assess_plan_growth p chars revisions (thresholds_from_config cfg)) = thresholds_from_config cfg"
    by (simp add: assess_plan_growth_def Let_def)
  have "verdict_ok v" unfolding assms(3) by (rule approval_verdict_ok [OF assms(1,2)]) (use assms(2) th in auto)
  then have "verdict_from_payload (verdict_to_payload v) = Inr v" by (rule growth_verdict.dec_enc)
  moreover have "VERDICT_COMPLIANT \<noteq> VERDICT_NON_COMPLIANT" "VERDICT_NOT_APPLICABLE \<noteq> VERDICT_NON_COMPLIANT"
    by (simp_all add: VERDICT_COMPLIANT_def VERDICT_NON_COMPLIANT_def VERDICT_NOT_APPLICABLE_def)
  ultimately show ?thesis
    unfolding assms(3) handoff_growth_verdict_violation_def plan_growth_approval_verdict_def by (simp add: Let_def)
qed

definition ex_growth_config :: growth_config where
  "ex_growth_config = \<lparr>gc_gate = None, gc_chars = Some 100, gc_revisions = None, gc_scope = None, gc_rows = None\<rparr>"

definition ex_plan :: plan_like where
  "ex_plan = PlanObject (Some 1) (Some (PDict [(''strategy'', PStr ''one-shot'')])) None None"

theorem approval_survives_resume_witness:
  "let v = plan_growth_approval_verdict ex_growth_config (Some ex_plan)
        (Some (assess_plan_growth ex_plan 100 None (thresholds_from_config ex_growth_config)))
   in verdict_from_payload (verdict_to_payload v) = Inr v \<and> handoff_growth_verdict_violation (Some v) ex_growth_config \<noteq> None"
proof -
  have g: "given_or (gc_gate ex_growth_config) ''enforce'' \<in> set PLAN_GROWTH_GATE_MODES"
    "positive_thresholds (thresholds_from_config ex_growth_config)" "plan_growth_gate_enforced ex_growth_config"
    by (simp_all add: ex_growth_config_def given_or_def PLAN_GROWTH_GATE_MODES_def positive_thresholds_def thresholds_from_config_def
        MAX_GITHUB_BODY_CHARS_def DEFAULT_PLAN_GROWTH_MAX_CHARS_def DEFAULT_PLAN_GROWTH_MAX_REVISIONS_def
        DEFAULT_PLAN_GROWTH_MAX_SCOPE_ITEMS_def DEFAULT_PLAN_GROWTH_MAX_MATRIX_ROWS_def plan_growth_gate_enforced_def)
  have "plan_strategy ex_plan = Some ''one-shot''" "plan_justification ex_plan = None"
    by (simp_all add: ex_plan_def plan_strategy_def plan_recommendation_def plan_justification_def)
  moreover have "crossed (assess_plan_growth ex_plan 100 None (thresholds_from_config ex_growth_config)) \<noteq> []"
    by (simp add: assess_plan_growth_def thresholds_from_config_def ex_growth_config_def given_or_def Let_def)
  ultimately have "growth_justification_violation ex_plan
      (assess_plan_growth ex_plan 100 None (thresholds_from_config ex_growth_config)) \<noteq> None" "plan_strategy ex_plan \<noteq> None"
    by (simp_all add: growth_justification_violation_def Let_def)
  then show ?thesis using approval_survives_resume [OF g(1,2) refl, of ex_plan 100 None ex_growth_config] g(3) by (auto simp: Let_def)
qed

text \<open>A conversion to stages loses no scope.  When a one-shot plan may be replaced by a staged one, every item of its
  scope is still there under its id, with the same requirement up to white space, and every one of its acceptance
  criteria is still among those of that item; and the check refuses nothing else.\<close>

theorem conversion_keeps_scope:
  assumes "plan_strategy p = Some ''one-shot''" "plan_strategy candidate = Some ''staged''"
  shows "check_scope_ledger_preservation (Some p) candidate = Inr ()
    \<longleftrightarrow> (\<forall>x \<in> set (scope_items (plan_recommendation p)). \<exists>now.
          items_by_id (scope_items (plan_recommendation candidate)) (scope_id x) = Some now
          \<and> now \<in> set (scope_items (plan_recommendation candidate)) \<and> scope_id now = scope_id x
          \<and> normalize_space (get_or_empty now ''requirement'') = normalize_space (get_or_empty x ''requirement'')
          \<and> normalize_space ` set (criteria x) \<subseteq> normalize_space ` set (criteria now))"
proof -
  let ?c = "scope_items (plan_recommendation candidate)"
  have found: "now \<in> set ?c \<and> scope_id now = k" if "items_by_id ?c k = Some now" for k now
    using map_of_SomeD [OF that [unfolded items_by_id_def]] by auto
  have one: "scope_problems (items_by_id ?c) x = [] \<longleftrightarrow>
      (\<exists>now. items_by_id ?c (scope_id x) = Some now \<and> now \<in> set ?c \<and> scope_id now = scope_id x
        \<and> normalize_space (get_or_empty now ''requirement'') = normalize_space (get_or_empty x ''requirement'')
        \<and> normalize_space ` set (criteria x) \<subseteq> normalize_space ` set (criteria now))" for x
  proof (cases "items_by_id ?c (scope_id x)")
    case (Some now)
    then show ?thesis using found [OF Some] by (auto simp: scope_problems_def Let_def filter_empty_conv image_subset_iff)
  qed (simp add: scope_problems_def)
  have "check_scope_ledger_preservation (Some p) candidate = Inr () \<longleftrightarrow>
      (\<forall>x \<in> set (scope_items (plan_recommendation p)). scope_problems (items_by_id ?c) x = [])"
    using assms by (simp add: check_scope_ledger_preservation_def Let_def)
  then show ?thesis by (simp only: one)
qed

definition ex_scope_plan :: "string \<Rightarrow> pyval list \<Rightarrow> plan_like" where
  "ex_scope_plan strategy xs = PlanObject (Some 1) (Some (PDict [(''strategy'', PStr strategy), (''scope_items'', PList xs)])) None None"

definition ex_scope_item :: "string \<Rightarrow> string list \<Rightarrow> pyval" where
  "ex_scope_item req cs =
     PDict [(''scope_item_id'', PStr ''s1''), (''requirement'', PStr req), (''acceptance_criteria'', PList (map PStr cs))]"

theorem conversion_keeps_scope_witness:
  "check_scope_ledger_preservation (Some (ex_scope_plan ''one-shot'' [ex_scope_item ''keep  it'' [''a'']]))
     (ex_scope_plan ''staged'' [ex_scope_item ''keep it'' [''b'', ''a'']]) = Inr ()"
proof -
  let ?p = "ex_scope_plan ''one-shot'' [ex_scope_item ''keep  it'' [''a'']]" and ?c = "ex_scope_plan ''staged'' [ex_scope_item ''keep it'' [''b'', ''a'']]"
  have s: "plan_strategy ?p = Some ''one-shot''" "plan_strategy ?c = Some ''staged''"
    by (simp_all add: ex_scope_plan_def plan_strategy_def plan_recommendation_def)
  show ?thesis unfolding conversion_keeps_scope [OF s]
    by (simp add: ex_scope_plan_def ex_scope_item_def plan_recommendation_def scope_items_def items_by_id_def scope_id_def criteria_def
        get_or_empty_def normalize_space_def py_words_def is_space_def image_iff ex_disj_distrib conj_disj_distribR)
qed

text \<open>What the gate accepts.  A plan without a strategy is exempt; a staged plan passes without a justification; a
  one-shot plan passes if it crosses nothing and has none, or has one that names exactly what it crosses.  The number of
  revisions never counts for a plan below half the size, and raising thresholds never adds a signal, so a one-shot plan
  that passed without a justification still passes.\<close>

theorem growth_gate_iff:
  assumes "max_chars th \<le> max_chars th'" "max_revisions th \<le> max_revisions th'"
    and "max_scope_items th \<le> max_scope_items th'" "max_matrix_rows th \<le> max_matrix_rows th'"
    and a_def: "a = assess_plan_growth p chars revisions th"
  shows "(growth_justification_violation p a = None \<longleftrightarrow>
        plan_strategy p = None
        \<or> plan_strategy p \<notin> {None, Some ''one-shot''} \<and> plan_justification p = None
        \<or> plan_strategy p = Some ''one-shot'' \<and> crossed a = [] \<and> plan_justification p = None
        \<or> plan_strategy p = Some ''one-shot'' \<and> crossed a \<noteq> []
          \<and> (\<exists>j. plan_justification p = Some j \<and> set (named_signals j) = set (crossed a)))
    \<and> (SIGNAL_REVISION_COUNT \<in> set (crossed a) \<longrightarrow> 2 * chars \<ge> max_chars th)
    \<and> set (crossed (assess_plan_growth p chars revisions th')) \<subseteq> set (crossed a)
    \<and> (growth_justification_violation p a = None \<and> plan_justification p = None \<longrightarrow>
        growth_justification_violation p (assess_plan_growth p chars revisions th') = None)"
proof (intro conjI impI)
  show gate: "growth_justification_violation p a = None \<longleftrightarrow>
        plan_strategy p = None
        \<or> plan_strategy p \<notin> {None, Some ''one-shot''} \<and> plan_justification p = None
        \<or> plan_strategy p = Some ''one-shot'' \<and> crossed a = [] \<and> plan_justification p = None
        \<or> plan_strategy p = Some ''one-shot'' \<and> crossed a \<noteq> []
          \<and> (\<exists>j. plan_justification p = Some j \<and> set (named_signals j) = set (crossed a))" for a
    by (auto simp: growth_justification_violation_def Let_def split: option.splits if_splits)
  show "2 * chars \<ge> max_chars th" if "SIGNAL_REVISION_COUNT \<in> set (crossed a)"
    using that by (auto simp: a_def assess_plan_growth_def Let_def signals split: option.splits if_splits)
  show mono: "set (crossed (assess_plan_growth p chars revisions th')) \<subseteq> set (crossed a)"
    using assms(1-4) by (auto simp: a_def assess_plan_growth_def Let_def split: option.splits)
  assume "growth_justification_violation p a = None \<and> plan_justification p = None"
  then show "growth_justification_violation p (assess_plan_growth p chars revisions th') = None"
    using mono unfolding gate by auto
qed

theorem growth_gate_iff_witness:
  "growth_justification_violation ex_plan (assess_plan_growth ex_plan 99 (Some 9)
      \<lparr>max_chars = 200, max_revisions = 6, max_scope_items = 12, max_matrix_rows = 18\<rparr>) = None"
proof -
  let ?th = "\<lparr>max_chars = 200, max_revisions = 6, max_scope_items = 12, max_matrix_rows = 18\<rparr> :: thresholds"
  have "crossed (assess_plan_growth ex_plan 99 (Some 9) ?th) = []" "plan_strategy ex_plan = Some ''one-shot''" "plan_justification ex_plan = None"
    by (simp_all add: ex_plan_def plan_strategy_def plan_recommendation_def plan_justification_def assess_plan_growth_def scope_items_def
        dict_fromkeys_def)
  then show ?thesis using growth_gate_iff [OF order.refl order.refl order.refl order.refl refl, where th = ?th and p = ex_plan and chars = 99 and revisions = "Some 9"] by simp
qed

end
