(* ===== verification/Integration_Close.thy ===== *)
theory Integration_Close
  imports Text_Ops "HOL-Library.State_Monad"
begin

text \<open>
  Closing the child issue of a merged pull request (\<open>integration_close.py\<close>).

  The calls to GitHub are numbered.  What a call answers depends on its number, so that two reads of the same thing may
  differ; every attempt to close an issue is kept with its number.  The parameters in \<open>gh_answers\<close> are the answers of
  the service and of the code that is not part of this theory: the base that the signed handoff records authorize,
  whether the repository still trusts a base, the references that close an issue, a body without its quotes, and the
  authenticated pull request, the state and the context of an issue.
\<close>

section \<open>Calls\<close>

datatype base_evidence = BaseUnavailable string | NoRecordedBase | RecordedBase string

record gh_answers =
  api_answer :: "nat \<Rightarrow> string \<Rightarrow> pyval option"
  close_succeeds :: "nat \<Rightarrow> bool"
  recorded_base :: "nat \<Rightarrow> int \<Rightarrow> base_evidence"
  base_untrusted :: "nat \<Rightarrow> string \<Rightarrow> string \<Rightarrow> bool"
  closing_reference :: "string \<Rightarrow> int \<Rightarrow> bool"
  unquoted :: "string \<Rightarrow> string"
  merge_commit :: "nat \<Rightarrow> int \<Rightarrow> string option"
  canonical_pr :: "nat \<Rightarrow> int \<Rightarrow> string + (int \<times> string) option"
  live_state :: "nat \<Rightarrow> int \<Rightarrow> string + string"
  issue_context :: "nat \<Rightarrow> int \<Rightarrow> string + unit"

record gh_world =
  now :: nat
  closes :: "(nat \<times> int) list"

record close_config =
  cc_repo :: string
  cc_base :: string
  cc_base_explicit :: bool
  cc_dry_run :: bool

definition call :: "(nat \<Rightarrow> 'a) \<Rightarrow> (gh_world, 'a) state" where
  "call answer = State (\<lambda>w. (answer (now w), w\<lparr>now := Suc (now w)\<rparr>))"

definition api :: "gh_answers \<Rightarrow> string \<Rightarrow> (gh_world, pyval option) state" where
  "api ans endpoint =
     call (\<lambda>t. case api_answer ans t endpoint of Some (PDict kvs) \<Rightarrow> Some (PDict kvs) | _ \<Rightarrow> None)"

definition close_issue :: "gh_answers \<Rightarrow> int \<Rightarrow> (gh_world, bool) state" where
  "close_issue ans n =
     State (\<lambda>w. (close_succeeds ans (now w), w\<lparr>now := Suc (now w), closes := closes w @ [(now w, n)]\<rparr>))"

definition pull_endpoint :: "close_config \<Rightarrow> int \<Rightarrow> string" where
  "pull_endpoint cfg n = ''repos/'' @ cc_repo cfg @ ''/pulls/'' @ int_str n"

definition issue_endpoint :: "close_config \<Rightarrow> int \<Rightarrow> string" where
  "issue_endpoint cfg n = ''repos/'' @ cc_repo cfg @ ''/issues/'' @ int_str n"

section \<open>Reading the answers\<close>

definition dict_or_empty :: "pyval \<Rightarrow> pyval" where
  "dict_or_empty v = (case v of PDict kvs \<Rightarrow> PDict kvs | _ \<Rightarrow> PDict [])"

text \<open>\<open>str(d.get(k, ""))\<close>.\<close>

definition text_of :: "pyval \<Rightarrow> string \<Rightarrow> string" where
  "text_of d k = (if k \<in> fst ` set (py_items d) then py_str (py_get d k) else [])"

definition base_of :: "pyval \<Rightarrow> pyval" where
  "base_of pr = dict_or_empty (py_get pr ''base'')"

definition in_repo :: "close_config \<Rightarrow> pyval \<Rightarrow> bool" where
  "in_repo cfg pr \<longleftrightarrow> py_lower (text_of (dict_or_empty (py_get (base_of pr) ''repo'')) ''full_name'') = py_lower (cc_repo cfg)"

definition merge_confirmed :: "close_config \<Rightarrow> pyval \<Rightarrow> bool" where
  "merge_confirmed cfg pr \<longleftrightarrow>
     py_get pr ''merged'' = PBool True \<and> is_str (py_get pr ''merged_at'') \<and> is_str (py_get (base_of pr) ''ref'')
     \<and> py_get (base_of pr) ''ref'' \<noteq> PStr [] \<and> in_repo cfg pr"

definition default_branch_of :: "pyval option \<Rightarrow> string option" where
  "default_branch_of answer =
     (case answer of
        None \<Rightarrow> None
      | Some repo \<Rightarrow> (case py_get repo ''default_branch'' of PStr s \<Rightarrow> if s = [] then None else Some s | _ \<Rightarrow> None))"

text \<open>\<open>str(issue.get("state", "")).lower() if issue else ""\<close>: an empty dict counts as no answer.\<close>

definition issue_state_of :: "pyval option \<Rightarrow> string" where
  "issue_state_of answer =
     (case answer of None \<Rightarrow> [] | Some issue \<Rightarrow> if py_items issue = [] then [] else py_lower (text_of issue ''state''))"

definition claimed_bases :: "close_config \<Rightarrow> string option \<Rightarrow> string list" where
  "claimed_bases cfg expected =
     filter (\<lambda>b. b \<noteq> []) ((case expected of None \<Rightarrow> [] | Some b \<Rightarrow> [b]) @ (if cc_base_explicit cfg then [cc_base cfg] else []))"

section \<open>Verification of a merge\<close>

datatype verify_outcome = NotMerged | Unresolved | DefaultBranch | AlreadyClosed | IntegrationVerified

record verification =
  vf_outcome :: verify_outcome
  vf_base :: "string option"
  vf_reason :: "string option"
  vf_default :: "string option"

definition verified :: "verify_outcome \<Rightarrow> string option \<Rightarrow> string option \<Rightarrow> string option \<Rightarrow> verification" where
  "verified out b why d = \<lparr>vf_outcome = out, vf_base = b, vf_reason = why, vf_default = d\<rparr>"

definition unresolved :: "string option \<Rightarrow> string \<Rightarrow> verification" where
  "unresolved b why = verified Unresolved b (Some why) None"

text \<open>After the merge target and the default branch are known: the authorization of the base.\<close>

definition base_authorization :: "close_config \<Rightarrow> string option \<Rightarrow> string \<Rightarrow> string \<Rightarrow> base_evidence \<Rightarrow> verification option" where
  "base_authorization cfg expected base_ref default_branch evidence =
     (let claims = claimed_bases cfg expected in
      case evidence of
        BaseUnavailable why \<Rightarrow> Some (unresolved (Some base_ref) (''recorded base not authenticated: '' @ why))
      | RecordedBase b \<Rightarrow>
          if \<not> set claims \<subseteq> {b}
            then Some (unresolved (Some base_ref) (''the claimed base disagrees with the authorized base '' @ b))
          else if b \<noteq> base_ref
            then Some (unresolved (Some base_ref) (''merged into '' @ base_ref @ '', not the authorized base '' @ b))
          else if base_ref = default_branch then Some (verified DefaultBranch (Some base_ref) None None)
          else None
      | NoRecordedBase \<Rightarrow>
          if \<not> set claims \<subseteq> {base_ref}
            then Some (unresolved (Some base_ref) ''the claimed base disagrees with the merge target'')
          else if base_ref = default_branch then Some (verified DefaultBranch (Some base_ref) None None)
          else Some (unresolved (Some base_ref) (''no authenticated authorization for base '' @ base_ref)))"

definition verify_integration_merge ::
  "gh_answers \<Rightarrow> close_config \<Rightarrow> int \<Rightarrow> int \<Rightarrow> string option \<Rightarrow> (gh_world, verification) state" where
  "verify_integration_merge ans cfg issue pr_number expected = do {
     answer \<leftarrow> api ans (pull_endpoint cfg pr_number);
     (case answer of
        None \<Rightarrow> State_Monad.return (unresolved None ''the PR could not be read'')
      | Some pr \<Rightarrow>
          if py_get pr ''merged'' = PBool False then State_Monad.return (verified NotMerged None None None)
          else if \<not> merge_confirmed cfg pr
            then State_Monad.return (unresolved None ''the PR merge into this repository could not be confirmed'')
          else
            let base_ref = the_str (py_get (base_of pr) ''ref'') in do {
              repo \<leftarrow> api ans (''repos/'' @ cc_repo cfg);
              (case default_branch_of repo of
                 None \<Rightarrow> State_Monad.return (unresolved (Some base_ref) ''the default branch could not be read'')
               | Some default_branch \<Rightarrow> do {
                   evidence \<leftarrow> call (\<lambda>t. recorded_base ans t pr_number);
                   (case base_authorization cfg expected base_ref default_branch evidence of
                      Some v \<Rightarrow> State_Monad.return v
                    | None \<Rightarrow> do {
                        untrusted \<leftarrow> call (\<lambda>t. base_untrusted ans t base_ref default_branch);
                        (if untrusted
                         then State_Monad.return (unresolved (Some base_ref) (''base '' @ base_ref @ '' is not trusted''))
                         else if \<not> closing_reference ans (the_str (py_get pr ''body'')) issue
                         then State_Monad.return
                                (unresolved (Some base_ref) (''the PR body carries no closing reference to #'' @ int_str issue))
                         else do {
                           state \<leftarrow> api ans (issue_endpoint cfg issue);
                           State_Monad.return
                             (if issue_state_of state = ''closed'' then verified AlreadyClosed (Some base_ref) None None
                              else if issue_state_of state \<noteq> ''open''
                                then unresolved (Some base_ref) ''the child issue state could not be read''
                              else verified IntegrationVerified (Some base_ref) None (Some default_branch))
                         })
                      })
                 })
            })
   }"

section \<open>Closing\<close>

datatype close_outcome = Skipped | OnDefaultBranch | NotMergedYet | Closed | ClosedBefore | Unsettled

fun outcome_of :: "verify_outcome \<Rightarrow> close_outcome" where
  "outcome_of NotMerged = NotMergedYet"
| "outcome_of Unresolved = Unsettled"
| "outcome_of DefaultBranch = OnDefaultBranch"
| "outcome_of AlreadyClosed = ClosedBefore"
| "outcome_of IntegrationVerified = Closed"

definition COMPLETE_OUTCOMES :: "close_outcome list" where
  "COMPLETE_OUTCOMES = [Skipped, OnDefaultBranch, Closed, ClosedBefore]"

definition close_child_after_integration_merge ::
  "gh_answers \<Rightarrow> close_config \<Rightarrow> int option \<Rightarrow> int \<Rightarrow> string option \<Rightarrow> (gh_world, close_outcome) state" where
  "close_child_after_integration_merge ans cfg context pr_number expected =
     (case context of
        None \<Rightarrow> State_Monad.return Skipped
      | Some issue \<Rightarrow>
          if cc_dry_run cfg then State_Monad.return Skipped
          else do {
            v \<leftarrow> verify_integration_merge ans cfg issue pr_number expected;
            (if vf_outcome v \<noteq> IntegrationVerified then State_Monad.return (outcome_of (vf_outcome v))
             else do {
               ok \<leftarrow> close_issue ans issue;
               State_Monad.return (if ok then Closed else Unsettled)
             })
          })"

text \<open>The evidence that is read again before the write of the staged repair.\<close>

definition default_merge_evidence :: "gh_answers \<Rightarrow> close_config \<Rightarrow> int \<Rightarrow> string option \<Rightarrow> pyval \<Rightarrow> bool" where
  "default_merge_evidence ans cfg issue base_ref pr \<longleftrightarrow>
     py_get pr ''merged'' = PBool True \<and> is_str (py_get pr ''merged_at'') \<and> nonblank (the_str (py_get pr ''merged_at''))
     \<and> py_get (base_of pr) ''ref'' = of_opt_str base_ref \<and> in_repo cfg pr \<and> is_str (py_get pr ''body'')
     \<and> closing_reference ans (unquoted ans (the_str (py_get pr ''body''))) issue"

definition close_staged_child_after_default_merge ::
  "gh_answers \<Rightarrow> close_config \<Rightarrow> int \<Rightarrow> int \<Rightarrow> (gh_world, close_outcome) state" where
  "close_staged_child_after_default_merge ans cfg issue pr_number =
     (if cc_dry_run cfg then State_Monad.return Skipped
      else do {
        v \<leftarrow> verify_integration_merge ans cfg issue pr_number None;
        (if vf_outcome v \<noteq> DefaultBranch then State_Monad.return Unsettled
         else do {
           answer \<leftarrow> api ans (pull_endpoint cfg pr_number);
           (case answer of
              None \<Rightarrow> State_Monad.return Unsettled
            | Some pr \<Rightarrow>
                if \<not> default_merge_evidence ans cfg issue (vf_base v) pr then State_Monad.return Unsettled
                else do {
                  sha \<leftarrow> call (\<lambda>t. merge_commit ans t pr_number);
                  (if sha = None then State_Monad.return Unsettled
                   else do {
                     before \<leftarrow> api ans (issue_endpoint cfg issue);
                     (if issue_state_of before = ''closed'' then State_Monad.return ClosedBefore
                      else if issue_state_of before \<noteq> ''open'' then State_Monad.return Unsettled
                      else do {
                        ok \<leftarrow> close_issue ans issue;
                        (if \<not> ok then State_Monad.return Unsettled
                         else do {
                           after \<leftarrow> api ans (issue_endpoint cfg issue);
                           State_Monad.return (if issue_state_of after = ''closed'' then Closed else Unsettled)
                         })
                      })
                   })
                })
         })
      })"

definition require_child_closed_or_report ::
  "gh_answers \<Rightarrow> close_config \<Rightarrow> int option \<Rightarrow> int \<Rightarrow> (gh_world, bool) state" where
  "require_child_closed_or_report ans cfg context pr_number = do {
     out \<leftarrow> close_child_after_integration_merge ans cfg context pr_number None;
     State_Monad.return (out \<in> set COMPLETE_OUTCOMES)
   }"

text \<open>\<open>Inl ()\<close>: the run stops because the merge or the closure could not be authenticated.\<close>

definition reconcile_merged_integration_child ::
  "gh_answers \<Rightarrow> close_config \<Rightarrow> int \<Rightarrow> (gh_world, unit + bool) state" where
  "reconcile_merged_integration_child ans cfg issue =
     (if cc_dry_run cfg then State_Monad.return (Inr False)
      else do {
        authenticated \<leftarrow> call (\<lambda>t. canonical_pr ans t issue);
        (case authenticated of
           Inr (Some (pr_number, pr_state)) \<Rightarrow>
             if pr_state \<noteq> ''MERGED'' then State_Monad.return (Inr False)
             else do {
               out \<leftarrow> close_child_after_integration_merge ans cfg (Some issue) pr_number None;
               State_Monad.return
                 (if out \<in> {Closed, ClosedBefore} then Inr True else if out = Unsettled then Inl () else Inr False)
             }
         | _ \<Rightarrow> State_Monad.return (Inr False))
      })"

section \<open>Calls that write nothing\<close>

definition answer_at :: "gh_answers \<Rightarrow> nat \<Rightarrow> string \<Rightarrow> pyval option" where
  "answer_at ans t endpoint = (case api_answer ans t endpoint of Some (PDict kvs) \<Rightarrow> Some (PDict kvs) | _ \<Rightarrow> None)"

lemma run_call [simp]: "run_state (call f) w = (f (now w), w\<lparr>now := Suc (now w)\<rparr>)"
  by (simp add: call_def)

lemma run_api [simp]: "run_state (api ans endpoint) w = (answer_at ans (now w) endpoint, w\<lparr>now := Suc (now w)\<rparr>)"
  by (simp add: api_def answer_at_def)

lemma run_close [simp]:
  "run_state (close_issue ans n) w = (close_succeeds ans (now w), w\<lparr>now := Suc (now w), closes := closes w @ [(now w, n)]\<rparr>)"
  by (simp add: close_issue_def)

definition quiet :: "(gh_world, 'a) state \<Rightarrow> bool" where
  "quiet m \<longleftrightarrow> (\<forall>w. closes (snd (run_state m w)) = closes w)"

named_theorems quiet_rules

lemma quiet_basics [quiet_rules]: "quiet (State_Monad.return x)" "quiet (call f)" "quiet (api ans endpoint)"
  by (simp_all add: quiet_def)

lemma quiet_bind [quiet_rules]: "quiet m \<Longrightarrow> (\<And>x. quiet (f x)) \<Longrightarrow> quiet (State_Monad.bind m f)"
  by (simp add: quiet_def split: prod.split) (metis snd_conv)

lemma quiet_choice [quiet_rules]:
  "quiet m \<Longrightarrow> quiet m' \<Longrightarrow> quiet (if c then m else m')"
  "quiet m \<Longrightarrow> (\<And>x. quiet (f x)) \<Longrightarrow> quiet (case v of None \<Rightarrow> m | Some x \<Rightarrow> f x)"
  by (simp_all split: option.split)

lemma verify_quiet [quiet_rules]: "quiet (verify_integration_merge ans cfg issue pr_number expected)"
  unfolding verify_integration_merge_def Let_def by (intro quiet_rules)

lemma quiet_run: "quiet m \<Longrightarrow> run_state m w = (x, w') \<Longrightarrow> closes w' = closes w"
  unfolding quiet_def by (metis snd_conv)

section \<open>What a verification rests on\<close>

text \<open>The evidence for a merge into the base \<open>b\<close>, read by the calls from number \<open>t\<close> on.\<close>

definition merged_into :: "gh_answers \<Rightarrow> close_config \<Rightarrow> int \<Rightarrow> nat \<Rightarrow> string \<Rightarrow> pyval \<Rightarrow> string \<Rightarrow> bool" where
  "merged_into ans cfg pr_number t b pr d \<longleftrightarrow>
     answer_at ans t (pull_endpoint cfg pr_number) = Some pr \<and> merge_confirmed cfg pr \<and> py_get (base_of pr) ''ref'' = PStr b
     \<and> default_branch_of (answer_at ans (Suc t) (''repos/'' @ cc_repo cfg)) = Some d"

definition integration_evidence :: "gh_answers \<Rightarrow> close_config \<Rightarrow> int \<Rightarrow> int \<Rightarrow> string option \<Rightarrow> nat \<Rightarrow> string \<Rightarrow> bool" where
  "integration_evidence ans cfg issue pr_number expected t b \<longleftrightarrow>
     (\<exists>pr d. merged_into ans cfg pr_number t b pr d \<and> b \<noteq> d
        \<and> recorded_base ans (t + 2) pr_number = RecordedBase b \<and> set (claimed_bases cfg expected) \<subseteq> {b}
        \<and> \<not> base_untrusted ans (t + 3) b d \<and> closing_reference ans (the_str (py_get pr ''body'')) issue
        \<and> issue_state_of (answer_at ans (t + 4) (issue_endpoint cfg issue)) = ''open'')"

lemma verified_simps [simp]:
  "vf_outcome (verified out b why d) = out" "vf_base (verified out b why d) = b" "vf_outcome (unresolved b reason) = Unresolved"
  by (simp_all add: verified_def unresolved_def)

lemma authorization_none:
  "base_authorization cfg expected b d e = None \<longleftrightarrow> e = RecordedBase b \<and> set (claimed_bases cfg expected) \<subseteq> {b} \<and> b \<noteq> d"
  by (auto simp: base_authorization_def Let_def split: base_evidence.splits if_splits)

lemma authorization_some:
  "base_authorization cfg expected b d e = Some v \<Longrightarrow> vf_outcome v \<in> {Unresolved, DefaultBranch}
     \<and> (vf_outcome v = DefaultBranch \<longrightarrow> b = d \<and> vf_base v = Some b \<and> set (claimed_bases cfg expected) \<subseteq> {b} \<and> e \<in> {RecordedBase b, NoRecordedBase})"
  by (auto simp: base_authorization_def Let_def split: base_evidence.splits if_splits)

lemma verify_integration:
  assumes "run_state (verify_integration_merge ans cfg issue pr_number expected) w = (v, w')" "vf_outcome v = IntegrationVerified"
  shows "\<exists>b. integration_evidence ans cfg issue pr_number expected (now w) b"
proof -
  obtain pr where pr: "answer_at ans (now w) (pull_endpoint cfg pr_number) = Some pr" "merge_confirmed cfg pr"
    using assms by (auto simp: verify_integration_merge_def split: option.splits if_splits)
  then obtain b where b: "py_get (base_of pr) ''ref'' = PStr b" by (cases "py_get (base_of pr) ''ref''") (auto simp: merge_confirmed_def)
  have m: "py_get pr ''merged'' \<noteq> PBool False" using pr(2) by (auto simp: merge_confirmed_def)
  obtain d where d: "default_branch_of (answer_at ans (Suc (now w)) (''repos/'' @ cc_repo cfg)) = Some d"
    using assms pr m by (auto simp: verify_integration_merge_def Let_def split: option.splits)
  have a: "base_authorization cfg expected b d (recorded_base ans (Suc (Suc (now w))) pr_number) = None"
    using assms pr m b d authorization_some [of cfg expected b d "recorded_base ans (Suc (Suc (now w))) pr_number"]
    by (cases "base_authorization cfg expected b d (recorded_base ans (Suc (Suc (now w))) pr_number)")
      (auto simp: verify_integration_merge_def Let_def)
  have "\<not> base_untrusted ans (Suc (Suc (Suc (now w)))) b d \<and> closing_reference ans (the_str (py_get pr ''body'')) issue
      \<and> issue_state_of (answer_at ans (Suc (Suc (Suc (Suc (now w))))) (issue_endpoint cfg issue)) = ''open''"
    using assms pr m b d a by (auto simp: verify_integration_merge_def Let_def split: if_splits)
  then show ?thesis using pr b d a unfolding integration_evidence_def merged_into_def authorization_none
    by (intro exI [of _ b] exI [of _ pr] exI [of _ d]) (simp add: numeral_eq_Suc)
qed

lemma verify_default:
  assumes "run_state (verify_integration_merge ans cfg issue pr_number expected) w = (v, w')" "vf_outcome v = DefaultBranch"
  shows "\<exists>b pr. vf_base v = Some b \<and> merged_into ans cfg pr_number (now w) b pr b"
proof -
  obtain pr where pr: "answer_at ans (now w) (pull_endpoint cfg pr_number) = Some pr" "merge_confirmed cfg pr"
    using assms by (auto simp: verify_integration_merge_def split: option.splits if_splits)
  then obtain b where b: "py_get (base_of pr) ''ref'' = PStr b" by (cases "py_get (base_of pr) ''ref''") (auto simp: merge_confirmed_def)
  have m: "py_get pr ''merged'' \<noteq> PBool False" using pr(2) by (auto simp: merge_confirmed_def)
  obtain d where d: "default_branch_of (answer_at ans (Suc (now w)) (''repos/'' @ cc_repo cfg)) = Some d"
    using assms pr m by (auto simp: verify_integration_merge_def Let_def split: option.splits)
  have "base_authorization cfg expected b d (recorded_base ans (Suc (Suc (now w))) pr_number) = Some v"
    using assms pr m b d
    by (cases "base_authorization cfg expected b d (recorded_base ans (Suc (Suc (now w))) pr_number)")
      (auto simp: verify_integration_merge_def Let_def split: if_splits)
  then have "b = d" "vf_base v = Some b" using authorization_some assms(2) by auto
  then show ?thesis using pr b d by (auto simp: merged_into_def)
qed

lemma outcome_not_closed: "out \<noteq> IntegrationVerified \<Longrightarrow> outcome_of out \<noteq> Closed"
  by (cases out) auto

lemma integration_close_cases:
  assumes "run_state (close_child_after_integration_merge ans cfg context pr_number expected) w = (out, w')"
  shows "closes w' = closes w \<and> out \<noteq> Closed
    \<or> (\<exists>issue b t. context = Some issue \<and> \<not> cc_dry_run cfg \<and> integration_evidence ans cfg issue pr_number expected (now w) b
         \<and> closes w' = closes w @ [(t, issue)] \<and> out = (if close_succeeds ans t then Closed else Unsettled))"
proof (cases "context = None \<or> cc_dry_run cfg")
  case True
  then show ?thesis using assms by (auto simp: close_child_after_integration_merge_def split: option.splits)
next
  case False
  then obtain issue where issue: "context = Some issue" "\<not> cc_dry_run cfg" by auto
  obtain v w1 where v: "run_state (verify_integration_merge ans cfg issue pr_number expected) w = (v, w1)" by fastforce
  have same: "closes w1 = closes w" by (rule quiet_run [OF verify_quiet v])
  show ?thesis
  proof (cases "vf_outcome v = IntegrationVerified")
    case True
    then show ?thesis using assms issue v same verify_integration [OF v True]
      by (auto simp: close_child_after_integration_merge_def)
  next
    case False
    then show ?thesis using assms issue v same outcome_not_closed [OF False] by (auto simp: close_child_after_integration_merge_def)
  qed
qed

section \<open>Properties\<close>

text \<open>C21: A child issue is closed only on complete evidence.  The integration path tries to close at most one issue, the
  one it was called for, and only if every check held in this very call: the pull request is merged into a base of this
  repository that is not the default branch, the signed records authorize exactly that base and no claim of the run
  disagrees, the repository still trusts it, the body references the issue, and the issue was read as open.  The
  outcome is "closed" exactly when that attempt succeeded, and a dry run attempts nothing.\<close>

theorem closure_needs_full_evidence:
  assumes "run_state (close_child_after_integration_merge ans cfg context pr_number expected) w = (out, w')"
  shows "closes w' = closes w \<and> out \<noteq> Closed
    \<or> (\<exists>issue b pr d t. context = Some issue \<and> \<not> cc_dry_run cfg
         \<and> closes w' = closes w @ [(t, issue)] \<and> out = (if close_succeeds ans t then Closed else Unsettled)
         \<and> merged_into ans cfg pr_number (now w) b pr d \<and> b \<noteq> d
         \<and> recorded_base ans (now w + 2) pr_number = RecordedBase b \<and> set (claimed_bases cfg expected) \<subseteq> {b}
         \<and> \<not> base_untrusted ans (now w + 3) b d \<and> closing_reference ans (the_str (py_get pr ''body'')) issue
         \<and> issue_state_of (answer_at ans (now w + 4) (issue_endpoint cfg issue)) = ''open'')"
  using integration_close_cases [OF assms] unfolding integration_evidence_def by blast

definition ex_pull :: "string \<Rightarrow> pyval" where
  "ex_pull b = PDict [(''merged'', PBool True), (''merged_at'', PStr ''2025''), (''body'', PStr ''Closes #5''),
     (''base'', PDict [(''ref'', PStr b), (''repo'', PDict [(''full_name'', PStr ''o/r'')])])]"

definition ex_close_config :: close_config where
  "ex_close_config = \<lparr>cc_repo = ''o/r'', cc_base = ''dev'', cc_base_explicit = True, cc_dry_run = False\<rparr>"

text \<open>Calls 0 to 4 verify, call 5 closes; the staged repair reads the issue as closed after call 6.\<close>

definition ex_answers :: "string \<Rightarrow> gh_answers" where
  "ex_answers b =
     \<lparr>api_answer = (\<lambda>t endpoint.
        if endpoint = ''repos/o/r/pulls/9'' then Some (ex_pull b)
        else if endpoint = ''repos/o/r'' then Some (PDict [(''default_branch'', PStr ''main'')])
        else Some (PDict [(''state'', PStr (if t \<le> 6 then ''open'' else ''closed''))])),
      close_succeeds = (\<lambda>t. True), recorded_base = (\<lambda>t n. RecordedBase b), base_untrusted = (\<lambda>t x y. False),
      closing_reference = (\<lambda>text n. n = 5), unquoted = (\<lambda>text. text), merge_commit = (\<lambda>t n. Some ''abc''),
      canonical_pr = (\<lambda>t n. Inr (Some (9, ''MERGED''))), live_state = (\<lambda>t n. Inr ''OPEN''), issue_context = (\<lambda>t n. Inr ())\<rparr>"

lemmas ex_close = ex_answers_def ex_pull_def ex_close_config_def answer_at_def pull_endpoint_def issue_endpoint_def

lemma nine_text [simp]: "nat_str 9 = ''9''"
  by code_simp

lemma ex_verified:
  "run_state (close_child_after_integration_merge (ex_answers ''dev'') ex_close_config (Some 5) 9 None) \<lparr>now = 0, closes = []\<rparr>
     = (Closed, \<lparr>now = 6, closes = [(5, 5)]\<rparr>)"
  by (simp add: close_child_after_integration_merge_def verify_integration_merge_def ex_close merge_confirmed_def base_of_def
      dict_or_empty_def in_repo_def text_of_def default_branch_of_def base_authorization_def claimed_bases_def issue_state_of_def Let_def
      verified_def int_str_def py_lower_def lower_char_def)

theorem closure_needs_full_evidence_witness:
  "\<exists>pr d. merged_into (ex_answers ''dev'') ex_close_config 9 0 ''dev'' pr d \<and> d \<noteq> ''dev''"
  using closure_needs_full_evidence [OF ex_verified] by (auto simp: ex_answers_def)

text \<open>The repair of a missed automatic closure trusts nothing it did not see.  It writes only after a verification that
  found a merge into the default branch, a second reading that confirms it and references the issue outside of quotes, a
  readable merge commit, and an open issue; and it reports "closed" only if the write succeeded and the very next reading
  shows the issue closed.\<close>

theorem staged_repair_is_observed:
  assumes "run_state (close_staged_child_after_default_merge ans cfg issue pr_number) w = (out, w')"
  shows "closes w' = closes w \<and> out \<noteq> Closed
    \<or> (\<exists>b pr again t sha. \<not> cc_dry_run cfg \<and> merged_into ans cfg pr_number (now w) b pr b
         \<and> answer_at ans t (pull_endpoint cfg pr_number) = Some again \<and> default_merge_evidence ans cfg issue (Some b) again
         \<and> merge_commit ans (t + 1) pr_number = Some sha
         \<and> issue_state_of (answer_at ans (t + 2) (issue_endpoint cfg issue)) = ''open''
         \<and> closes w' = closes w @ [(t + 3, issue)]
         \<and> (out = Closed \<longleftrightarrow> close_succeeds ans (t + 3)
              \<and> issue_state_of (answer_at ans (t + 4) (issue_endpoint cfg issue)) = ''closed''))"
proof (cases "cc_dry_run cfg")
  case True
  then show ?thesis using assms by (auto simp: close_staged_child_after_default_merge_def)
next
  case live: False
  obtain v w1 where v: "run_state (verify_integration_merge ans cfg issue pr_number None) w = (v, w1)" by fastforce
  have same: "closes w1 = closes w" by (rule quiet_run [OF verify_quiet v])
  let ?pull = "answer_at ans (now w1) (pull_endpoint cfg pr_number)"
  let ?before = "issue_state_of (answer_at ans (now w1 + 2) (issue_endpoint cfg issue))"
  show ?thesis
  proof (cases "vf_outcome v = DefaultBranch \<and> (\<exists>again. ?pull = Some again \<and> default_merge_evidence ans cfg issue (vf_base v) again)
      \<and> merge_commit ans (now w1 + 1) pr_number \<noteq> None \<and> ?before = ''open''")
    case False
    then show ?thesis using assms live v same
      by (auto simp: close_staged_child_after_default_merge_def split: option.splits if_splits)
  next
    case True
    then obtain again sha b pr where e: "?pull = Some again" "default_merge_evidence ans cfg issue (vf_base v) again"
      "merge_commit ans (now w1 + 1) pr_number = Some sha" "vf_base v = Some b" "merged_into ans cfg pr_number (now w) b pr b"
      using verify_default [OF v] by auto
    have "closes w' = closes w @ [(now w1 + 3, issue)] \<and> (out = Closed \<longleftrightarrow> close_succeeds ans (now w1 + 3)
        \<and> issue_state_of (answer_at ans (now w1 + 4) (issue_endpoint cfg issue)) = ''closed'')"
      using assms live v same True e
      by (auto simp: close_staged_child_after_default_merge_def numeral_eq_Suc split: if_splits)
    moreover have "default_merge_evidence ans cfg issue (Some b) again" using e(2,4) by simp
    ultimately show ?thesis using live e(1,3,5) True
      by (intro disjI2 exI [of _ b] exI [of _ pr] exI [of _ again] exI [of _ "now w1"] exI [of _ sha]) (simp only: simp_thms)
  qed
qed

lemma ex_repaired:
  "run_state (close_staged_child_after_default_merge (ex_answers ''main'')
      (ex_close_config\<lparr>cc_base_explicit := False\<rparr>) 5 9) \<lparr>now = 0, closes = []\<rparr> = (Closed, \<lparr>now = 8, closes = [(6, 5)]\<rparr>)"
  by (simp add: close_staged_child_after_default_merge_def verify_integration_merge_def ex_close merge_confirmed_def base_of_def
      dict_or_empty_def in_repo_def text_of_def default_branch_of_def base_authorization_def claimed_bases_def issue_state_of_def Let_def
      verified_def int_str_def py_lower_def lower_char_def default_merge_evidence_def nonblank_def strip_def lstrip_def rstrip_def
      is_space_def)

theorem staged_repair_is_observed_witness:
  "\<exists>t. closes (snd (run_state (close_staged_child_after_default_merge (ex_answers ''main'')
      (ex_close_config\<lparr>cc_base_explicit := False\<rparr>) 5 9) \<lparr>now = 0, closes = []\<rparr>)) = [(t, 5)]"
  using staged_repair_is_observed [OF ex_repaired] by (simp add: ex_repaired)

end
