(* ===== verification/Phase_Progress.thy ===== *)
theory Phase_Progress
  imports Integration_Close
begin

text \<open>
  Progress of a staged parent (\<open>phase_progress.py\<close>): the records of dispatched phases against the topology, the state
  of every phase in order, the prerequisites of a later phase, and the record that all phases are delivered.

  The records are given as decoded from the comments.  The answers of GitHub are numbered as in \<open>Integration_Close\<close>.
\<close>

section \<open>Topology and records\<close>

definition AGENT_AUTOMATION :: string where "AGENT_AUTOMATION = ''agent-pr''"
definition STATUS_NOT_DISPATCHED :: string where "STATUS_NOT_DISPATCHED = ''not-dispatched''"
definition STATUS_IN_PROGRESS :: string where "STATUS_IN_PROGRESS = ''in-progress''"
definition STATUS_COMPLETE :: string where "STATUS_COMPLETE = ''complete''"
definition STATUS_HUMAN_PENDING :: string where "STATUS_HUMAN_PENDING = ''human-pending''"

lemmas phase_statuses = STATUS_NOT_DISPATCHED_def STATUS_IN_PROGRESS_def STATUS_COMPLETE_def STATUS_HUMAN_PENDING_def

record created_phase =
  cp_number :: "int option"
  cp_url :: "string option"

record topology =
  tp_created :: "created_phase list"
  tp_stages :: "string list"
  tp_automations :: "string list"
  tp_plan_hash :: string
  tp_mode :: string

record handoff =
  hf_parent :: int
  hf_plan_hash :: string
  hf_mode :: string
  hf_index :: int
  hf_title :: string
  hf_automation :: string
  hf_child :: int
  hf_url :: "string option"
  hf_strategy :: "string option"
  hf_topology :: "string option"
  hf_version :: "int option"
  hf_recommendation :: "string option"
  hf_stage :: "string option"
  hf_subject :: "string option"
  hf_rows :: "string list"
  hf_disposition :: "string option"
  hf_override :: "string option"

datatype phase_error =
    NoPhases
  | Inconsistent nat nat nat
  | NoChildNumber int string
  | SharedChild int int int
  | OutsideTopology int nat
  | TwoRecords bool int int int
  | WrongChild int int int
  | WrongStage int string string
  | HumanRecord int string
  | ReadFailed int string int string
  | OpenButNotOpenPr int int "int option" "string option"
  | ClosedUndelivered int int "(int \<times> string) option"
  | OutOfOrder int int
  | NoSuchPhase int
  | UnknownDependency string
  | LaterDependency string
  | NotComplete
  | NoMergedPr int
  | Unreadable string

record agent_resolution =
  ar_status :: string
  ar_child_state :: string
  ar_pr :: "int option"
  ar_pr_state :: "string option"
  ar_integration :: "(verify_outcome \<times> string option \<times> string option) option"

record progress =
  pp_index :: int
  pp_stage :: string
  pp_automation :: string
  pp_handoff :: "handoff option"
  pp_child :: "int option"
  pp_child_state :: "string option"
  pp_pr :: "int option"
  pp_pr_state :: "string option"
  pp_status :: string
  pp_integration :: "(verify_outcome \<times> string option \<times> string option) option"

definition is_human :: "progress \<Rightarrow> bool" where
  "is_human p \<longleftrightarrow> pp_automation p \<noteq> AGENT_AUTOMATION"

definition find_handoffs_for_parent :: "handoff list \<Rightarrow> int \<Rightarrow> handoff list" where
  "find_handoffs_for_parent recorded parent = filter (\<lambda>h. hf_parent h = parent) recorded"

definition filter_outcome_handoffs :: "topology \<Rightarrow> handoff list \<Rightarrow> handoff list" where
  "filter_outcome_handoffs tp hs = filter (\<lambda>h. hf_plan_hash h = tp_plan_hash tp \<and> hf_mode h = tp_mode tp) hs"

definition stage_at :: "topology \<Rightarrow> int \<Rightarrow> string" where
  "stage_at tp k = tp_stages tp ! nat (k - 1)"

definition automation_at :: "topology \<Rightarrow> int \<Rightarrow> string" where
  "automation_at tp k = tp_automations tp ! nat (k - 1)"

definition child_at :: "topology \<Rightarrow> int \<Rightarrow> int option" where
  "child_at tp k = cp_number (tp_created tp ! nat (k - 1))"

section \<open>Records against the topology\<close>

fun check_children :: "topology \<Rightarrow> int \<Rightarrow> created_phase list \<Rightarrow> (int \<rightharpoonup> int) \<Rightarrow> phase_error + unit" where
  "check_children tp k [] seen = Inr ()"
| "check_children tp k (c # cs) seen =
     (case cp_number c of
        None \<Rightarrow> Inl (NoChildNumber k (stage_at tp k))
      | Some n \<Rightarrow> (case seen n of
                     Some previous \<Rightarrow> Inl (SharedChild n previous k)
                   | None \<Rightarrow> check_children tp (k + 1) cs (seen(n \<mapsto> k))))"

definition outside :: "int option \<Rightarrow> int \<Rightarrow> bool" where
  "outside through k \<longleftrightarrow> (case through of None \<Rightarrow> False | Some t \<Rightarrow> k \<ge> t)"

fun check_handoffs :: "topology \<Rightarrow> int option \<Rightarrow> handoff list \<Rightarrow> (int \<rightharpoonup> handoff) \<Rightarrow> phase_error + (int \<rightharpoonup> handoff)" where
  "check_handoffs tp through [] found = Inr found"
| "check_handoffs tp through (h # hs) found =
     (let k = hf_index h in
      if outside through k then check_handoffs tp through hs found
      else if k < 1 \<or> k > int (length (tp_created tp)) then Inl (OutsideTopology k (length (tp_created tp)))
      else case found k of
        Some old \<Rightarrow> Inl (TwoRecords (old \<noteq> h) k (hf_child old) (hf_child h))
      | None \<Rightarrow>
          if Some (hf_child h) \<noteq> child_at tp k then Inl (WrongChild k (the (child_at tp k)) (hf_child h))
          else if hf_stage h \<noteq> None \<and> hf_stage h \<noteq> Some (stage_at tp k)
            then Inl (WrongStage k (stage_at tp k) (the (hf_stage h)))
          else if automation_at tp k \<noteq> AGENT_AUTOMATION then Inl (HumanRecord k (automation_at tp k))
          else check_handoffs tp through hs (found(k \<mapsto> h)))"

definition reconcile :: "topology \<Rightarrow> handoff list \<Rightarrow> int option \<Rightarrow> phase_error + (int \<rightharpoonup> handoff)" where
  "reconcile tp hs through =
     (let n = length (tp_created tp) in
      if n = 0 then Inl NoPhases
      else if length (tp_stages tp) \<noteq> n \<or> length (tp_automations tp) \<noteq> n
        then Inl (Inconsistent n (length (tp_stages tp)) (length (tp_automations tp)))
      else bindE (check_children tp 1 (tp_created tp) Map.empty) (\<lambda>_. check_handoffs tp through hs Map.empty))"

section \<open>One phase\<close>

definition just_merged_matches :: "(int \<times> int) option \<Rightarrow> int \<Rightarrow> int \<Rightarrow> bool" where
  "just_merged_matches just_merged child pr_number \<longleftrightarrow> just_merged = Some (child, pr_number)"

definition resolved :: "string \<Rightarrow> string \<Rightarrow> (int \<times> string) option \<Rightarrow> agent_resolution" where
  "resolved st child_state auth =
     \<lparr>ar_status = st, ar_child_state = child_state, ar_pr = map_option fst auth, ar_pr_state = map_option snd auth,
      ar_integration = None\<rparr>"

text \<open>An open child whose canonical pull request is merged.\<close>

definition settle_merged_phase ::
  "gh_answers \<Rightarrow> close_config \<Rightarrow> int \<Rightarrow> int \<Rightarrow> int \<Rightarrow> (int \<times> int) option \<Rightarrow> bool \<Rightarrow> (gh_world, phase_error + agent_resolution) state" where
  "settle_merged_phase ans cfg k child pr_number just_merged read_only =
     (let auth = Some (pr_number, ''MERGED''); stuck = Inl (OpenButNotOpenPr k child (Some pr_number) (Some ''MERGED'')) in
      if read_only then do {
        v \<leftarrow> verify_integration_merge ans cfg child pr_number None;
        State_Monad.return
          (if vf_outcome v = NotMerged then stuck
           else Inr ((resolved (if vf_outcome v \<in> {IntegrationVerified, AlreadyClosed} then STATUS_COMPLETE else STATUS_IN_PROGRESS)
                        ''OPEN'' auth)
                     \<lparr>ar_integration := Some (vf_outcome v, vf_reason v, vf_base v)\<rparr>))
      } else do {
        out \<leftarrow> close_child_after_integration_merge ans cfg (Some child) pr_number None;
        (if out \<in> {Closed, ClosedBefore} then State_Monad.return (Inr (resolved STATUS_COMPLETE ''CLOSED'' auth))
         else if out = OnDefaultBranch \<and> just_merged_matches just_merged child pr_number
           then State_Monad.return (Inr (resolved STATUS_COMPLETE ''OPEN'' auth))
         else if out = OnDefaultBranch then do {
           recovered \<leftarrow> close_staged_child_after_default_merge ans cfg child pr_number;
           State_Monad.return
             (if recovered \<in> {Closed, ClosedBefore} then Inr (resolved STATUS_COMPLETE ''CLOSED'' auth) else stuck)
         } else State_Monad.return stuck)
      })"

definition resolve_agent_phase ::
  "gh_answers \<Rightarrow> close_config \<Rightarrow> int \<Rightarrow> string \<Rightarrow> int \<Rightarrow> (int \<times> int) option \<Rightarrow> bool \<Rightarrow> (gh_world, phase_error + agent_resolution) state" where
  "resolve_agent_phase ans cfg k stage child just_merged read_only = do {
     state \<leftarrow> call (\<lambda>t. live_state ans t child);
     (case state of
        Inl e \<Rightarrow> State_Monad.return (Inl (ReadFailed k stage child e))
      | Inr child_state \<Rightarrow> do {
          context \<leftarrow> call (\<lambda>t. issue_context ans t child);
          (case context of
             Inl e \<Rightarrow> State_Monad.return (Inl (ReadFailed k stage child e))
           | Inr _ \<Rightarrow> do {
               authenticated \<leftarrow> call (\<lambda>t. canonical_pr ans t child);
               (case authenticated of
                  Inl e \<Rightarrow> State_Monad.return (Inl (ReadFailed k stage child e))
                | Inr auth \<Rightarrow>
                    if child_state = ''OPEN'' then
                      (case auth of
                         None \<Rightarrow> State_Monad.return (Inr (resolved STATUS_IN_PROGRESS child_state auth))
                       | Some (pr_number, pr_state) \<Rightarrow>
                           if pr_state = ''OPEN'' then State_Monad.return (Inr (resolved STATUS_IN_PROGRESS child_state auth))
                           else if pr_state = ''MERGED'' then settle_merged_phase ans cfg k child pr_number just_merged read_only
                           else State_Monad.return (Inl (OpenButNotOpenPr k child (Some pr_number) (Some pr_state))))
                    else if map_option snd auth = Some ''MERGED''
                      then State_Monad.return (Inr (resolved STATUS_COMPLETE child_state auth))
                    else State_Monad.return (Inl (ClosedUndelivered k child auth)))
             })
        })
   }"

section \<open>All phases in order\<close>

definition human_progress ::
  "gh_answers \<Rightarrow> topology \<Rightarrow> int \<Rightarrow> int \<Rightarrow> (gh_world, phase_error + progress) state" where
  "human_progress ans tp k child = do {
     state \<leftarrow> call (\<lambda>t. live_state ans t child);
     State_Monad.return
       (case state of
          Inl e \<Rightarrow> Inl (ReadFailed k (stage_at tp k) child e)
        | Inr s \<Rightarrow> Inr \<lparr>pp_index = k, pp_stage = stage_at tp k, pp_automation = automation_at tp k, pp_handoff = None,
                         pp_child = Some child, pp_child_state = Some s, pp_pr = None, pp_pr_state = None,
                         pp_status = (if s = ''CLOSED'' then STATUS_COMPLETE else STATUS_HUMAN_PENDING), pp_integration = None\<rparr>)
   }"

definition undispatched :: "topology \<Rightarrow> int \<Rightarrow> progress" where
  "undispatched tp k =
     \<lparr>pp_index = k, pp_stage = stage_at tp k, pp_automation = automation_at tp k, pp_handoff = None, pp_child = child_at tp k,
      pp_child_state = None, pp_pr = None, pp_pr_state = None, pp_status = STATUS_NOT_DISPATCHED, pp_integration = None\<rparr>"

text \<open>\<open>first\<close> is the first phase that is not complete, once there is one.\<close>

definition resolve_phase ::
  "gh_answers \<Rightarrow> close_config \<Rightarrow> topology \<Rightarrow> (int \<rightharpoonup> handoff) \<Rightarrow> (int \<times> int) option \<Rightarrow> bool \<Rightarrow> int \<Rightarrow> int option
     \<Rightarrow> (gh_world, phase_error + progress) state" where
  "resolve_phase ans cfg tp by_index just_merged read_only k first =
     (case first of
        Some f \<Rightarrow>
          if by_index k \<noteq> None then State_Monad.return (Inl (OutOfOrder k f))
          else if automation_at tp k \<noteq> AGENT_AUTOMATION \<and> child_at tp k \<noteq> None then human_progress ans tp k (the (child_at tp k))
          else State_Monad.return (Inr (undispatched tp k))
      | None \<Rightarrow>
          if automation_at tp k \<noteq> AGENT_AUTOMATION then human_progress ans tp k (the (child_at tp k))
          else case by_index k of
            None \<Rightarrow> State_Monad.return (Inr (undispatched tp k))
          | Some h \<Rightarrow> do {
              result \<leftarrow> resolve_agent_phase ans cfg k (stage_at tp k) (the (child_at tp k)) just_merged read_only;
              State_Monad.return
                (case result of
                   Inl e \<Rightarrow> Inl e
                 | Inr r \<Rightarrow> Inr \<lparr>pp_index = k, pp_stage = stage_at tp k, pp_automation = automation_at tp k, pp_handoff = Some h,
                                  pp_child = child_at tp k, pp_child_state = Some (ar_child_state r), pp_pr = ar_pr r,
                                  pp_pr_state = ar_pr_state r, pp_status = ar_status r, pp_integration = ar_integration r\<rparr>)
            })"

fun resolve_phases ::
  "gh_answers \<Rightarrow> close_config \<Rightarrow> topology \<Rightarrow> (int \<rightharpoonup> handoff) \<Rightarrow> (int \<times> int) option \<Rightarrow> bool \<Rightarrow> int option
     \<Rightarrow> int \<Rightarrow> created_phase list \<Rightarrow> int option \<Rightarrow> (gh_world, phase_error + progress list) state" where
  "resolve_phases ans cfg tp by_index just_merged read_only through k [] first = State_Monad.return (Inr [])"
| "resolve_phases ans cfg tp by_index just_merged read_only through k (c # cs) first =
     (if outside through k then State_Monad.return (Inr [])
      else do {
        result \<leftarrow> resolve_phase ans cfg tp by_index just_merged read_only k first;
        (case result of
           Inl e \<Rightarrow> State_Monad.return (Inl e)
         | Inr p \<Rightarrow> do {
             rest \<leftarrow> resolve_phases ans cfg tp by_index just_merged read_only through (k + 1) cs
               (if first = None \<and> pp_status p \<noteq> STATUS_COMPLETE then Some k else first);
             State_Monad.return (case rest of Inl e \<Rightarrow> Inl e | Inr ps \<Rightarrow> Inr (p # ps))
           })
      })"

definition resolve_staged_phase_progress ::
  "gh_answers \<Rightarrow> close_config \<Rightarrow> int \<Rightarrow> handoff list \<Rightarrow> topology \<Rightarrow> (int \<times> int) option \<Rightarrow> bool \<Rightarrow> int option
     \<Rightarrow> (gh_world, phase_error + progress list) state" where
  "resolve_staged_phase_progress ans cfg parent recorded tp just_merged read_only through =
     (case reconcile tp (filter_outcome_handoffs tp (find_handoffs_for_parent recorded parent)) through of
        Inl e \<Rightarrow> State_Monad.return (Inl e)
      | Inr by_index \<Rightarrow> resolve_phases ans cfg tp by_index just_merged read_only through 1 (tp_created tp) None)"

section \<open>Prerequisites and selection\<close>

text \<open>A later position does not count: \<open>index\<close> finds the first one.\<close>

definition position_of :: "string \<Rightarrow> string list \<Rightarrow> nat" where
  "position_of x xs = length (takeWhile (\<lambda>y. y \<noteq> x) xs)"

definition bad_dependency :: "topology \<Rightarrow> int \<Rightarrow> string \<Rightarrow> phase_error option" where
  "bad_dependency tp k d =
     (if d \<notin> set (tp_stages tp) then Some (UnknownDependency d)
      else if int (position_of d (tp_stages tp)) + 1 \<ge> k then Some (LaterDependency d) else None)"

definition unmet_phase_prerequisites ::
  "gh_answers \<Rightarrow> close_config \<Rightarrow> int \<Rightarrow> handoff list \<Rightarrow> topology \<Rightarrow> int \<Rightarrow> string list
     \<Rightarrow> (gh_world, phase_error + (progress \<times> bool) list) state" where
  "unmet_phase_prerequisites ans cfg parent recorded tp k declared =
     (if k < 1 \<or> k > int (length (tp_stages tp)) then State_Monad.return (Inl (NoSuchPhase k))
      else case find (\<lambda>d. bad_dependency tp k d \<noteq> None) declared of
        Some d \<Rightarrow> State_Monad.return (Inl (the (bad_dependency tp k d)))
      | None \<Rightarrow>
          if k = 1 then State_Monad.return (Inr [])
          else do {
            result \<leftarrow> resolve_staged_phase_progress ans cfg parent recorded tp None True (Some k);
            State_Monad.return
              (case result of
                 Inl e \<Rightarrow> Inl e
               | Inr ps \<Rightarrow> Inr (map (\<lambda>p. (p, pp_stage p \<in> set declared)) (filter (\<lambda>p. pp_status p \<noteq> STATUS_COMPLETE) ps)))
          })"

definition select_current_phase :: "progress list \<Rightarrow> progress option" where
  "select_current_phase ps = find (\<lambda>p. pp_status p \<noteq> STATUS_COMPLETE) ps"

definition opt_number :: "int option \<Rightarrow> string" where
  "opt_number n = (case n of None \<Rightarrow> ''None'' | Some i \<Rightarrow> int_str i)"

definition render_phase_status_line :: "progress \<Rightarrow> string" where
  "render_phase_status_line p =
     (let child = ''#'' @ opt_number (pp_child p) in
      if pp_status p = STATUS_COMPLETE then
        (if is_human p then pp_stage p @ '': complete ('' @ child @ '', human attestation)''
         else pp_stage p @ '': complete ('' @ child @ '', PR #'' @ opt_number (pp_pr p) @ '')'')
      else if pp_status p = STATUS_IN_PROGRESS then pp_stage p @ '': in progress ('' @ child @ '')''
      else if pp_status p = STATUS_HUMAN_PENDING then pp_stage p @ '': pending human work ('' @ child @ '')''
      else pp_stage p @ '': pending'')"

section \<open>The record that all phases are delivered\<close>

record delivered =
  dl_index :: int
  dl_stage :: string
  dl_automation :: string
  dl_child :: int
  dl_pr :: "int option"
  dl_commit :: "string option"

record completion =
  cm_parent :: int
  cm_plan_hash :: string
  cm_mode :: string
  cm_stages :: "delivered list"

definition delivered_payload :: "delivered \<Rightarrow> pyval" where
  "delivered_payload d =
     PDict [(''phase_index'', PInt (dl_index d)), (''stage_id'', PStr (dl_stage d)), (''automation'', PStr (dl_automation d)),
            (''child_issue_number'', PInt (dl_child d)), (''pr_number'', of_opt_int (dl_pr d)),
            (''merge_commit'', of_opt_str (dl_commit d))]"

definition completion_payload :: "completion \<Rightarrow> pyval" where
  "completion_payload m =
     PDict [(''parent_issue'', PInt (cm_parent m)), (''plan_hash'', PStr (cm_plan_hash m)), (''mode'', PStr (cm_mode m)),
            (''stages'', PList (map delivered_payload (cm_stages m)))]"

text \<open>\<open>Inl ()\<close>: the exceptions that the decoder turns into its one error.\<close>

fun required_int :: "pyval \<Rightarrow> unit + int" where
  "required_int (PInt n) = Inr n"
| "required_int _ = Inl ()"

definition optional_int :: "pyval \<Rightarrow> unit + int option" where
  "optional_int v = (if v = PNone then Inr None else bindE (required_int v) (\<lambda>n. Inr (Some n)))"

definition required_key :: "pyval \<Rightarrow> string \<Rightarrow> unit + pyval" where
  "required_key d k = (case map_of (py_items d) k of None \<Rightarrow> Inl () | Some v \<Rightarrow> Inr v)"

definition decode_delivered :: "pyval \<Rightarrow> unit + delivered" where
  "decode_delivered v =
     (case v of
        PDict _ \<Rightarrow>
          guardE (py_get v ''merge_commit'' \<noteq> PNone \<and> \<not> is_str (py_get v ''merge_commit'')) ()
          (bindE (required_key v ''phase_index'') (\<lambda>k. bindE (required_int k) (\<lambda>k.
           bindE (required_key v ''stage_id'') (\<lambda>stage.
           bindE (required_key v ''automation'') (\<lambda>automation.
           bindE (required_key v ''child_issue_number'') (\<lambda>child. bindE (required_int child) (\<lambda>child.
           bindE (optional_int (py_get v ''pr_number'')) (\<lambda>pr.
           Inr \<lparr>dl_index = k, dl_stage = py_str stage, dl_automation = py_str automation, dl_child = child, dl_pr = pr,
                dl_commit = opt_str (py_get v ''merge_commit'')\<rparr>))))))))
      | _ \<Rightarrow> Inl ())"

definition decode_completion :: "pyval \<Rightarrow> unit + completion" where
  "decode_completion v =
     (case (v, py_get v ''stages'') of
        (PDict _, PList items) \<Rightarrow>
          bindE (mapE decode_delivered items) (\<lambda>stages.
          bindE (required_key v ''parent_issue'') (\<lambda>parent. bindE (required_int parent) (\<lambda>parent.
          bindE (required_key v ''plan_hash'') (\<lambda>plan_hash.
          bindE (required_key v ''mode'') (\<lambda>mode.
          Inr \<lparr>cm_parent = parent, cm_plan_hash = py_str plan_hash, cm_mode = py_str mode, cm_stages = stages\<rparr>)))))
      | _ \<Rightarrow> Inl ())"

text \<open>A comment of the parent: who wrote it, and the decoded JSON of its markers, \<open>None\<close> where it is not JSON.\<close>

record parent_comment =
  pc_author :: "string option"
  pc_author_id :: "int option"
  pc_claims :: "pyval option list"

definition claims_of :: "parent_comment \<Rightarrow> completion list" where
  "claims_of c =
     map projr (filter is_ok (map (\<lambda>v. case v of None \<Rightarrow> Inl () | Some v \<Rightarrow> decode_completion v) (pc_claims c)))"

definition find_staged_completion_records ::
  "parent_comment list \<Rightarrow> int \<Rightarrow> string \<Rightarrow> string \<Rightarrow> (parent_comment \<times> completion) list" where
  "find_staged_completion_records comments parent plan_hash mode =
     filter (\<lambda>(c, m). cm_parent m = parent \<and> cm_plan_hash m = plan_hash \<and> cm_mode m = mode)
       (concat (map (\<lambda>c. map (\<lambda>m. (c, m)) (claims_of c)) comments))"

definition strip_bot_login_suffix :: "string option \<Rightarrow> string option" where
  "strip_bot_login_suffix login =
     (case login of
        Some s \<Rightarrow> if ends_with ''[bot]'' s then Some (take (length s - 5) s) else Some s
      | None \<Rightarrow> None)"

definition authored_by :: "parent_comment \<Rightarrow> string \<Rightarrow> int \<Rightarrow> bool" where
  "authored_by c login actor_id \<longleftrightarrow>
     pc_author_id c = Some actor_id \<and> strip_bot_login_suffix (pc_author c) = strip_bot_login_suffix (Some login)"

definition delivered_stage :: "(int \<Rightarrow> string option) \<Rightarrow> progress \<Rightarrow> phase_error + delivered" where
  "delivered_stage commit p =
     (case pp_child p of
        None \<Rightarrow> Inl (NoChildNumber (pp_index p) (pp_stage p))
      | Some child \<Rightarrow>
          if is_human p
          then Inr \<lparr>dl_index = pp_index p, dl_stage = pp_stage p, dl_automation = pp_automation p, dl_child = child, dl_pr = None,
                    dl_commit = None\<rparr>
          else (case pp_pr p of
                  None \<Rightarrow> Inl (NoMergedPr (pp_index p))
                | Some n \<Rightarrow> (case commit n of
                               None \<Rightarrow> Inl (Unreadable ''merge commit'')
                             | Some sha \<Rightarrow> Inr \<lparr>dl_index = pp_index p, dl_stage = pp_stage p, dl_automation = pp_automation p,
                                                 dl_child = child, dl_pr = Some n, dl_commit = Some sha\<rparr>)))"

text \<open>The record to post, or \<open>None\<close> where the parent has it already.\<close>

definition record_staged_completion ::
  "int \<Rightarrow> progress list \<Rightarrow> topology \<Rightarrow> (int \<Rightarrow> string option) \<Rightarrow> string + parent_comment list \<Rightarrow> string + string \<times> int
     \<Rightarrow> phase_error + completion option" where
  "record_staged_completion parent ps tp commit history actor =
     (if ps = [] \<or> (\<exists>p \<in> set ps. pp_status p \<noteq> STATUS_COMPLETE) then Inl NotComplete
      else
        bindE (mapE (delivered_stage commit) ps) (\<lambda>stages.
        let m = \<lparr>cm_parent = parent, cm_plan_hash = tp_plan_hash tp, cm_mode = tp_mode tp, cm_stages = stages\<rparr> in
        case history of
          Inl e \<Rightarrow> Inl (Unreadable e)
        | Inr comments \<Rightarrow>
            (let candidates = find_staged_completion_records comments parent (tp_plan_hash tp) (tp_mode tp) in
             if (\<exists>(c, r) \<in> set candidates. r = m) then
               (case actor of
                  Inl e \<Rightarrow> Inl (Unreadable e)
                | Inr (login, actor_id) \<Rightarrow>
                    if (\<exists>(c, r) \<in> set candidates. r = m \<and> authored_by c login actor_id) then Inr None else Inr (Some m))
             else Inr (Some m))))"

section \<open>What a resolution closes\<close>

definition only_closes :: "int set \<Rightarrow> (gh_world, 'a) state \<Rightarrow> bool" where
  "only_closes S m \<longleftrightarrow> (\<forall>w. \<exists>new. closes (snd (run_state m w)) = closes w @ new \<and> snd ` set new \<subseteq> S)"

named_theorems closes_rules

lemma only_closes_quiet [closes_rules]: "quiet m \<Longrightarrow> only_closes S m"
  by (auto simp: quiet_def only_closes_def)

lemma only_closes_bind [closes_rules]:
  assumes "only_closes S m" "\<And>x. only_closes S (f x)"
  shows "only_closes S (State_Monad.bind m f)"
  unfolding only_closes_def
proof
  fix w
  obtain x w1 where x: "run_state m w = (x, w1)" by fastforce
  obtain new where new: "closes w1 = closes w @ new" "snd ` set new \<subseteq> S" using assms(1) x unfolding only_closes_def by (metis snd_conv)
  obtain new' where new': "closes (snd (run_state (f x) w1)) = closes w1 @ new'" "snd ` set new' \<subseteq> S"
    using assms(2) unfolding only_closes_def by blast
  show "\<exists>new. closes (snd (run_state (State_Monad.bind m f) w)) = closes w @ new \<and> snd ` set new \<subseteq> S"
    using x new new' by (intro exI [of _ "new @ new'"]) auto
qed

lemma only_closes_choice [closes_rules]:
  "(c \<Longrightarrow> only_closes S m) \<Longrightarrow> (\<not> c \<Longrightarrow> only_closes S m') \<Longrightarrow> only_closes S (if c then m else m')"
  "only_closes S m \<Longrightarrow> (\<And>x. only_closes S (f x)) \<Longrightarrow> only_closes S (case v of None \<Rightarrow> m | Some x \<Rightarrow> f x)"
  "(\<And>x. only_closes S (g x)) \<Longrightarrow> (\<And>x. only_closes S (f x)) \<Longrightarrow> only_closes S (case r of Inl x \<Rightarrow> g x | Inr x \<Rightarrow> f x)"
  "(\<And>x y. only_closes S (h x y)) \<Longrightarrow> only_closes S (case q of (x, y) \<Rightarrow> h x y)"
  by (simp_all split: option.split sum.split prod.split)

lemma only_closes_run:
  "only_closes S m \<Longrightarrow> run_state m w = (x, w') \<Longrightarrow> \<exists>new. closes w' = closes w @ new \<and> snd ` set new \<subseteq> S"
  unfolding only_closes_def by (drule spec [of _ w]) simp

lemma only_closes_mono: "only_closes S m \<Longrightarrow> S \<subseteq> T \<Longrightarrow> only_closes T m"
  unfolding only_closes_def by (metis subset_trans)

lemma integration_close_only [closes_rules]:
  "issue \<in> S \<Longrightarrow> only_closes S (close_child_after_integration_merge ans cfg (Some issue) pr_number expected)"
  unfolding only_closes_def
proof
  fix w
  obtain out w' where r: "run_state (close_child_after_integration_merge ans cfg (Some issue) pr_number expected) w = (out, w')" by fastforce
  assume "issue \<in> S"
  with integration_close_cases [OF r]
  show "\<exists>new. closes (snd (run_state (close_child_after_integration_merge ans cfg (Some issue) pr_number expected) w)) = closes w @ new
      \<and> snd ` set new \<subseteq> S" unfolding r snd_conv by (elim disjE conjE exE) force+
qed

lemma staged_close_only [closes_rules]: "issue \<in> S \<Longrightarrow> only_closes S (close_staged_child_after_default_merge ans cfg issue pr_number)"
proof -
  assume "issue \<in> S"
  then have c: "only_closes S (close_issue ans issue)" by (auto simp: only_closes_def)
  show ?thesis unfolding close_staged_child_after_default_merge_def
    by (intro closes_rules c quiet_rules)
qed

lemma agent_phase_only: "only_closes (if read_only then {} else {child}) (resolve_agent_phase ans cfg k stage child just_merged read_only)"
  unfolding resolve_agent_phase_def settle_merged_phase_def Let_def
  by (intro closes_rules quiet_rules) auto

lemma phase_only:
  assumes "child_at tp k \<noteq> None"
  shows "only_closes (if read_only then {} else {n. child_at tp k = Some n \<and> by_index k \<noteq> None})
     (resolve_phase ans cfg tp by_index just_merged read_only k first)"
proof (cases "first = None \<and> automation_at tp k = AGENT_AUTOMATION \<and> by_index k \<noteq> None")
  case False
  then show ?thesis unfolding resolve_phase_def human_progress_def
    by (auto split: option.split intro!: closes_rules quiet_rules)
next
  case True
  then obtain h where h: "by_index k = Some h" by auto
  let ?S = "if read_only then {} else {n. child_at tp k = Some n \<and> by_index k \<noteq> None}"
  have "only_closes ?S (resolve_agent_phase ans cfg k (stage_at tp k) (the (child_at tp k)) just_merged read_only)"
    by (rule only_closes_mono [OF agent_phase_only]) (use assms h in auto)
  then have "only_closes ?S (do {
      result \<leftarrow> resolve_agent_phase ans cfg k (stage_at tp k) (the (child_at tp k)) just_merged read_only;
      State_Monad.return (f result)})" for f :: "phase_error + agent_resolution \<Rightarrow> phase_error + progress"
    by (rule only_closes_bind) (rule only_closes_quiet, rule quiet_basics)
  then show ?thesis using True h unfolding resolve_phase_def by simp
qed

section \<open>What a resolution reports\<close>

text \<open>Phase \<open>k\<close> after the phases before it, where \<open>blocked\<close> says that one of those is not complete.\<close>

definition phase_settled :: "topology \<Rightarrow> (int \<rightharpoonup> handoff) \<Rightarrow> bool \<Rightarrow> int \<Rightarrow> progress \<Rightarrow> bool" where
  "phase_settled tp by_index blocked k p \<longleftrightarrow>
     pp_index p = k \<and> pp_stage p = stage_at tp k \<and> pp_automation p = automation_at tp k \<and> pp_child p = child_at tp k
     \<and> (blocked \<longrightarrow> by_index k = None)
     \<and> (automation_at tp k = AGENT_AUTOMATION \<longrightarrow> pp_handoff p = by_index k)
     \<and> (automation_at tp k = AGENT_AUTOMATION \<and> by_index k = None \<longrightarrow> pp_status p = STATUS_NOT_DISPATCHED)
     \<and> (automation_at tp k = AGENT_AUTOMATION \<and> pp_status p = STATUS_COMPLETE \<longrightarrow>
          by_index k \<noteq> None \<and> pp_pr p \<noteq> None \<and> pp_pr_state p = Some ''MERGED'')
     \<and> (automation_at tp k \<noteq> AGENT_AUTOMATION \<and> pp_status p = STATUS_COMPLETE \<longrightarrow> pp_child_state p = Some ''CLOSED'')"

lemma status_neqs [simp]:
  "STATUS_IN_PROGRESS \<noteq> STATUS_COMPLETE" "STATUS_NOT_DISPATCHED \<noteq> STATUS_COMPLETE" "STATUS_HUMAN_PENDING \<noteq> STATUS_COMPLETE"
  "STATUS_COMPLETE \<noteq> STATUS_IN_PROGRESS" "STATUS_COMPLETE \<noteq> STATUS_NOT_DISPATCHED" "STATUS_COMPLETE \<noteq> STATUS_HUMAN_PENDING"
  by (simp_all add: phase_statuses)

lemma settled_complete:
  assumes "run_state (settle_merged_phase ans cfg k child pr_number just_merged read_only) w = (Inr r, w')"
  shows "ar_pr r = Some pr_number \<and> ar_pr_state r = Some ''MERGED''"
  using assms
  by (auto simp: settle_merged_phase_def Let_def resolved_def split: prod.splits if_splits)

lemma agent_complete:
  assumes "run_state (resolve_agent_phase ans cfg k stage child just_merged read_only) w = (Inr r, w')"
    and "ar_status r = STATUS_COMPLETE"
  shows "ar_pr r \<noteq> None \<and> ar_pr_state r = Some ''MERGED''"
proof -
  obtain s auth where s: "live_state ans (now w) child = Inr s" "canonical_pr ans (Suc (Suc (now w))) child = Inr auth"
    using assms(1) by (auto simp: resolve_agent_phase_def split: sum.splits)
  show ?thesis
  proof (cases "s = ''OPEN'' \<and> map_option snd auth = Some ''MERGED''")
    case True
    then obtain n where "auth = Some (n, ''MERGED'')" by auto
    then obtain w1 where "run_state (settle_merged_phase ans cfg k child n just_merged read_only) w1 = (Inr r, w')"
      using assms(1) s True by (auto simp: resolve_agent_phase_def split: sum.splits)
    then show ?thesis using settled_complete by blast
  next
    case False
    then show ?thesis using assms s by (auto simp: resolve_agent_phase_def resolved_def split: sum.splits option.splits prod.splits if_splits)
  qed
qed

lemma phase_reports:
  assumes "run_state (resolve_phase ans cfg tp by_index just_merged read_only k first) w = (Inr p, w')" "child_at tp k \<noteq> None"
  shows "phase_settled tp by_index (first \<noteq> None) k p"
proof (cases "first = None \<and> automation_at tp k = AGENT_AUTOMATION \<and> by_index k \<noteq> None")
  case True
  then obtain h where h: "by_index k = Some h" by auto
  obtain out w1 where out: "run_state (resolve_agent_phase ans cfg k (stage_at tp k) (the (child_at tp k)) just_merged read_only) w = (out, w1)"
    by fastforce
  then obtain r where r: "out = Inr r" "p = \<lparr>pp_index = k, pp_stage = stage_at tp k, pp_automation = automation_at tp k,
      pp_handoff = Some h, pp_child = child_at tp k, pp_child_state = Some (ar_child_state r), pp_pr = ar_pr r,
      pp_pr_state = ar_pr_state r, pp_status = ar_status r, pp_integration = ar_integration r\<rparr>"
    using assms(1) True h by (cases out) (simp_all add: resolve_phase_def)
  then show ?thesis using True h agent_complete [OF out [unfolded r(1)]] by (simp add: phase_settled_def)
next
  case False
  then show ?thesis using assms
    by (auto simp: resolve_phase_def human_progress_def undispatched_def phase_settled_def split: option.splits sum.splits if_splits)
qed

text \<open>All phases that were resolved from number \<open>k\<close> on.\<close>

definition blocked_at :: "int option \<Rightarrow> progress list \<Rightarrow> nat \<Rightarrow> bool" where
  "blocked_at first ps i \<longleftrightarrow> first \<noteq> None \<or> (\<exists>j < i. pp_status (ps ! j) \<noteq> STATUS_COMPLETE)"

lemma blocked_Suc:
  "blocked_at first (p # ps) (Suc i)
     \<longleftrightarrow> blocked_at (if first = None \<and> pp_status p \<noteq> STATUS_COMPLETE then Some k else first) ps i"
  by (auto simp: blocked_at_def less_Suc_eq_0_disj)

lemma phases_report:
  assumes "run_state (resolve_phases ans cfg tp by_index just_merged read_only through k cs first) w = (Inr ps, w')"
    and "\<forall>i < length cs. child_at tp (k + int i) \<noteq> None"
  shows "length ps = (case through of None \<Rightarrow> length cs | Some t \<Rightarrow> min (length cs) (nat (t - k)))
    \<and> (\<forall>i < length ps. phase_settled tp by_index (blocked_at first ps i) (k + int i) (ps ! i))"
  using assms
proof (induction cs arbitrary: k first w ps)
  case Nil
  then show ?case by (auto split: option.split)
next
  case (Cons c cs)
  show ?case
  proof (cases "outside through k")
    case True
    then show ?thesis using Cons.prems(1) by (auto simp: outside_def split: option.splits)
  next
    case False
    obtain out w1 where one: "run_state (resolve_phase ans cfg tp by_index just_merged read_only k first) w = (out, w1)" by fastforce
    obtain p where p: "out = Inr p" using Cons.prems(1) False one by (cases out) auto
    let ?f = "if first = None \<and> pp_status p \<noteq> STATUS_COMPLETE then Some k else first"
    obtain rest w2 where rest: "run_state (resolve_phases ans cfg tp by_index just_merged read_only through (k + 1) cs ?f) w1 = (rest, w2)"
      by fastforce
    obtain qs where qs: "rest = Inr qs" "ps = p # qs" "w' = w2" using Cons.prems(1) False one p rest by (cases rest) (auto simp del: split_paired_All)
    have kids: "\<forall>i < length cs. child_at tp (k + 1 + int i) \<noteq> None"
    proof (intro allI impI)
      fix i assume i: "i < length cs"
      have e: "k + 1 + int i = k + int (Suc i)" by simp
      show "child_at tp (k + 1 + int i) \<noteq> None" unfolding e by (rule Cons.prems(2) [rule_format]) (simp add: i)
    qed
    note IH = Cons.IH [OF rest [unfolded qs(1) qs(3) [symmetric]] kids]
    have "phase_settled tp by_index (first \<noteq> None) k p" using phase_reports [OF one [unfolded p]] Cons.prems(2) [rule_format, of 0] by simp
    then have "phase_settled tp by_index (blocked_at first ps i) (k + int i) (ps ! i)" if "i < length ps" for i
    proof (cases i)
      case (Suc j)
      have e: "k + int i = k + 1 + int j" by (simp add: Suc)
      have j: "j < length qs" using that by (simp add: Suc qs(2))
      have b: "blocked_at first ps i = blocked_at ?f qs j" unfolding qs(2) Suc by (rule blocked_Suc)
      have n: "ps ! i = qs ! j" by (simp add: Suc qs(2))
      show ?thesis unfolding e b n by (rule IH [THEN conjunct2, rule_format, OF j])
    qed (simp add: qs(2) blocked_at_def)
    moreover have "length ps = (case through of None \<Rightarrow> length (c # cs) | Some t \<Rightarrow> min (length (c # cs)) (nat (t - k)))"
      using IH False by (auto simp: qs(2) outside_def split: option.splits)
    ultimately show ?thesis by blast
  qed
qed

lemma phases_close:
  assumes "\<forall>i < length cs. child_at tp (k + int i) \<noteq> None"
  shows "only_closes (if read_only then {} else {n. \<exists>i < length cs. child_at tp (k + int i) = Some n \<and> by_index (k + int i) \<noteq> None})
     (resolve_phases ans cfg tp by_index just_merged read_only through k cs first)"
  using assms
proof (induction cs arbitrary: k first)
  case Nil
  show ?case by (simp add: closes_rules quiet_rules)
next
  case (Cons c cs)
  let ?S = "if read_only then {} else {n. \<exists>i < length (c # cs). child_at tp (k + int i) = Some n \<and> by_index (k + int i) \<noteq> None}"
  have shift: "k + 1 + int i = k + int (Suc i)" for i by simp
  have kids: "\<forall>i < length cs. child_at tp (k + 1 + int i) \<noteq> None"
    using Cons.prems unfolding shift by (simp only: length_Cons Suc_less_eq) blast
  have one: "only_closes ?S (resolve_phase ans cfg tp by_index just_merged read_only k first)"
    by (rule only_closes_mono [OF phase_only]) (use Cons.prems [rule_format, of 0] in \<open>auto intro: exI [of _ 0]\<close>)
  have "only_closes ?S (resolve_phases ans cfg tp by_index just_merged read_only through (k + 1) cs f)" for f
  proof (rule only_closes_mono [OF Cons.IH [OF kids]])
    show "(if read_only then {} else {n. \<exists>i < length cs. child_at tp (k + 1 + int i) = Some n \<and> by_index (k + 1 + int i) \<noteq> None}) \<subseteq> ?S"
      unfolding shift by (auto simp del: of_nat_Suc)
  qed
  note parts = one this
  show ?case unfolding resolve_phases.simps by (intro closes_rules quiet_rules parts)
qed

section \<open>What reconciliation establishes\<close>

lemma children_checked:
  assumes "check_children tp k cs seen = Inr ()"
  shows "\<forall>c \<in> set cs. cp_number c \<noteq> None" "distinct (map cp_number cs)" "\<forall>c \<in> set cs. \<forall>n. cp_number c = Some n \<longrightarrow> seen n = None"
  using assms by (induction tp k cs seen rule: check_children.induct) (auto split: option.splits if_splits)

definition record_fits :: "topology \<Rightarrow> handoff \<Rightarrow> bool" where
  "record_fits tp h \<longleftrightarrow> 1 \<le> hf_index h \<and> hf_index h \<le> int (length (tp_created tp)) \<and> child_at tp (hf_index h) = Some (hf_child h)
     \<and> automation_at tp (hf_index h) = AGENT_AUTOMATION"

lemma handoffs_checked:
  assumes "check_handoffs tp through hs found = Inr by_index"
  shows "(\<forall>k h. by_index k = Some h \<longrightarrow> found k = Some h \<or> h \<in> set hs \<and> hf_index h = k \<and> record_fits tp h)
    \<and> (\<forall>h \<in> set hs. \<not> outside through (hf_index h) \<longrightarrow> by_index (hf_index h) = Some h)
    \<and> (\<forall>k h. found k = Some h \<longrightarrow> by_index k = Some h)"
  using assms
proof (induction hs arbitrary: found)
  case (Cons h hs)
  show ?case
  proof (cases "outside through (hf_index h)")
    case True
    then show ?thesis using Cons.IH [of found] Cons.prems by (simp add: Let_def) blast
  next
    case False
    then have ok: "record_fits tp h" "found (hf_index h) = None"
      and rest: "check_handoffs tp through hs (found(hf_index h \<mapsto> h)) = Inr by_index"
      using Cons.prems by (auto simp: Let_def record_fits_def split: if_splits option.splits)
    note IH = Cons.IH [OF rest]
    have "by_index (hf_index h) = Some h" using IH by simp
    moreover have "by_index k = Some g" if "found k = Some g" for k g
    proof -
      have "k \<noteq> hf_index h" using that ok(2) by auto
      then show ?thesis using IH that by simp
    qed
    moreover have "found k = Some g \<or> g \<in> set (h # hs) \<and> hf_index g = k \<and> record_fits tp g" if "by_index k = Some g" for k g
    proof (cases "k = hf_index h")
      case True
      then have "g = h" using that calculation(1) by simp
      then show ?thesis using True ok(1) by simp
    next
      case False
      then have "(found(hf_index h \<mapsto> h)) k = found k" by simp
      then show ?thesis using IH that by (metis list.set_intros(2))
    qed
    moreover have "\<forall>g \<in> set hs. \<not> outside through (hf_index g) \<longrightarrow> by_index (hf_index g) = Some g" using IH by blast
    ultimately show ?thesis by simp
  qed
qed simp

lemma reconciled:
  assumes "reconcile tp hs through = Inr by_index"
  shows "length (tp_stages tp) = length (tp_created tp)" "tp_created tp \<noteq> []"
    "\<forall>i < length (tp_created tp). child_at tp (1 + int i) \<noteq> None" "distinct (map cp_number (tp_created tp))"
    "\<And>k h. by_index k = Some h \<Longrightarrow> h \<in> set hs \<and> hf_index h = k \<and> record_fits tp h"
    "\<And>h. h \<in> set hs \<Longrightarrow> \<not> outside through (hf_index h) \<Longrightarrow> by_index (hf_index h) = Some h"
proof -
  have kids: "check_children tp 1 (tp_created tp) Map.empty = Inr ()" and hs: "check_handoffs tp through hs Map.empty = Inr by_index"
    using assms by (auto simp: reconcile_def Let_def raise_simps split: if_splits)
  show "length (tp_stages tp) = length (tp_created tp)" "tp_created tp \<noteq> []"
    using assms by (auto simp: reconcile_def Let_def split: if_splits)
  show "distinct (map cp_number (tp_created tp))" by (rule children_checked(2) [OF kids])
  show "\<forall>i < length (tp_created tp). child_at tp (1 + int i) \<noteq> None"
    using children_checked(1) [OF kids] by (auto simp: child_at_def)
  show "h \<in> set hs \<and> hf_index h = k \<and> record_fits tp h" if "by_index k = Some h" for k h
    using handoffs_checked [OF hs] that by auto
  show "by_index (hf_index h) = Some h" if "h \<in> set hs" "\<not> outside through (hf_index h)" for h
    using handoffs_checked [OF hs] that by blast
qed

text \<open>The records that count for a topology.\<close>

definition counts_for :: "topology \<Rightarrow> int \<Rightarrow> handoff list \<Rightarrow> handoff \<Rightarrow> bool" where
  "counts_for tp parent recorded h \<longleftrightarrow>
     h \<in> set recorded \<and> hf_parent h = parent \<and> hf_plan_hash h = tp_plan_hash tp \<and> hf_mode h = tp_mode tp"

lemma counted: "h \<in> set (filter_outcome_handoffs tp (find_handoffs_for_parent recorded parent)) \<longleftrightarrow> counts_for tp parent recorded h"
  by (auto simp: filter_outcome_handoffs_def find_handoffs_for_parent_def counts_for_def)

lemma progress_facts:
  assumes "run_state (resolve_staged_phase_progress ans cfg parent recorded tp just_merged read_only through) w = (Inr ps, w')"
  obtains by_index where
    "reconcile tp (filter_outcome_handoffs tp (find_handoffs_for_parent recorded parent)) through = Inr by_index"
    "length ps = (case through of None \<Rightarrow> length (tp_created tp) | Some t \<Rightarrow> min (length (tp_created tp)) (nat (t - 1)))"
    "\<forall>i < length ps. phase_settled tp by_index (\<exists>j < i. pp_status (ps ! j) \<noteq> STATUS_COMPLETE) (1 + int i) (ps ! i)"
    "\<exists>new. closes w' = closes w @ new \<and> (read_only \<longrightarrow> new = []) \<and> (\<forall>e \<in> set new. \<exists>h. counts_for tp parent recorded h \<and> hf_child h = snd e)"
proof -
  let ?hs = "filter_outcome_handoffs tp (find_handoffs_for_parent recorded parent)"
  obtain by_index where r: "reconcile tp ?hs through = Inr by_index"
    and run: "run_state (resolve_phases ans cfg tp by_index just_merged read_only through 1 (tp_created tp) None) w = (Inr ps, w')"
    using assms by (auto simp: resolve_staged_phase_progress_def split: sum.splits)
  note rec = reconciled [OF r]
  obtain new where new: "closes w' = closes w @ new"
    "snd ` set new \<subseteq> (if read_only then {} else {n. \<exists>i < length (tp_created tp). child_at tp (1 + int i) = Some n \<and> by_index (1 + int i) \<noteq> None})"
    using only_closes_run [OF phases_close [OF rec(3)] run] by blast
  have "\<exists>h. counts_for tp parent recorded h \<and> hf_child h = snd e" if "e \<in> set new" for e
  proof -
    have "snd e \<in> (if read_only then {} else {n. \<exists>i < length (tp_created tp). child_at tp (1 + int i) = Some n \<and> by_index (1 + int i) \<noteq> None})"
      using new(2) that by (rule subsetD [OF _ imageI])
    then have "\<exists>i. child_at tp (1 + int i) = Some (snd e) \<and> by_index (1 + int i) \<noteq> None" by (cases read_only) auto
    then obtain i h where i: "child_at tp (1 + int i) = Some (snd e)" "by_index (1 + int i) = Some h" by auto
    have "counts_for tp parent recorded h" "hf_index h = 1 + int i" "record_fits tp h" using rec(5) [OF i(2)] counted by auto
    then show ?thesis using i(1) by (intro exI [of _ h]) (simp add: record_fits_def)
  qed
  moreover have "read_only \<longrightarrow> new = []" using new(2) by (cases read_only) auto
  ultimately have effects: "\<exists>new. closes w' = closes w @ new \<and> (read_only \<longrightarrow> new = [])
      \<and> (\<forall>e \<in> set new. \<exists>h. counts_for tp parent recorded h \<and> hf_child h = snd e)" using new(1) by blast
  note report = phases_report [OF run rec(3)]
  show ?thesis
  proof (rule that [OF r])
    show "length ps = (case through of None \<Rightarrow> length (tp_created tp) | Some t \<Rightarrow> min (length (tp_created tp)) (nat (t - 1)))"
      by (rule report [THEN conjunct1])
    show "\<forall>i < length ps. phase_settled tp by_index (\<exists>j < i. pp_status (ps ! j) \<noteq> STATUS_COMPLETE) (1 + int i) (ps ! i)"
      using report [THEN conjunct2] by (simp only: blocked_at_def simp_thms)
  qed (rule effects)
qed

section \<open>Properties\<close>

text \<open>C22: Staged phases are delivered in order.  If the progress of a parent can be resolved, it lists every phase of the
  topology with its child; an agent phase counts as complete only with its own record and a merged canonical pull
  request; no phase has a record unless every phase before it is complete, so the selected phase is the first one that
  is not complete and nothing after it was dispatched; and the only issues that resolving tries to close are children
  with a record, none at all when it only reads.\<close>

theorem phases_in_order:
  assumes "run_state (resolve_staged_phase_progress ans cfg parent recorded tp just_merged read_only None) w = (Inr ps, w')"
  shows "length ps = length (tp_created tp)
    \<and> (\<forall>i < length ps. pp_index (ps ! i) = 1 + int i \<and> pp_stage (ps ! i) = tp_stages tp ! i \<and> pp_child (ps ! i) = cp_number (tp_created tp ! i))
    \<and> (\<forall>i < length ps. \<not> is_human (ps ! i) \<and> pp_status (ps ! i) = STATUS_COMPLETE \<longrightarrow>
         pp_pr (ps ! i) \<noteq> None \<and> pp_pr_state (ps ! i) = Some ''MERGED''
         \<and> (\<exists>h. counts_for tp parent recorded h \<and> hf_index h = 1 + int i \<and> Some (hf_child h) = pp_child (ps ! i)))
    \<and> (\<forall>h. counts_for tp parent recorded h \<longrightarrow>
         1 \<le> hf_index h \<and> hf_index h \<le> int (length ps)
         \<and> (\<forall>j < nat (hf_index h - 1). pp_status (ps ! j) = STATUS_COMPLETE))
    \<and> (case select_current_phase ps of
         None \<Rightarrow> \<forall>p \<in> set ps. pp_status p = STATUS_COMPLETE
       | Some p \<Rightarrow> \<exists>i < length ps. p = ps ! i \<and> (\<forall>j < i. pp_status (ps ! j) = STATUS_COMPLETE)
           \<and> (\<forall>h. counts_for tp parent recorded h \<longrightarrow> hf_index h \<le> 1 + int i))
    \<and> (\<exists>new. closes w' = closes w @ new \<and> (read_only \<longrightarrow> new = [])
         \<and> (\<forall>e \<in> set new. \<exists>h. counts_for tp parent recorded h \<and> hf_child h = snd e))"
proof -
  obtain by_index where r: "reconcile tp (filter_outcome_handoffs tp (find_handoffs_for_parent recorded parent)) None = Inr by_index"
    and len: "length ps = length (tp_created tp)"
    and ok: "\<forall>i < length ps. phase_settled tp by_index (\<exists>j < i. pp_status (ps ! j) \<noteq> STATUS_COMPLETE) (1 + int i) (ps ! i)"
    and closed: "\<exists>new. closes w' = closes w @ new \<and> (read_only \<longrightarrow> new = [])
      \<and> (\<forall>e \<in> set new. \<exists>h. counts_for tp parent recorded h \<and> hf_child h = snd e)"
    by (rule progress_facts [OF assms]) simp
  note rec = reconciled [OF r]
  have shown: "pp_index (ps ! i) = 1 + int i \<and> pp_stage (ps ! i) = tp_stages tp ! i \<and> pp_child (ps ! i) = cp_number (tp_created tp ! i)"
    if "i < length ps" for i
    using ok that by (auto simp: phase_settled_def stage_at_def child_at_def)
  have delivered: "pp_pr (ps ! i) \<noteq> None \<and> pp_pr_state (ps ! i) = Some ''MERGED''
         \<and> (\<exists>h. counts_for tp parent recorded h \<and> hf_index h = 1 + int i \<and> Some (hf_child h) = pp_child (ps ! i))"
    if i: "i < length ps" "\<not> is_human (ps ! i) \<and> pp_status (ps ! i) = STATUS_COMPLETE" for i
  proof -
    have o: "phase_settled tp by_index (\<exists>j < i. pp_status (ps ! j) \<noteq> STATUS_COMPLETE) (1 + int i) (ps ! i)" using ok i(1) by blast
    then obtain h where h: "by_index (1 + int i) = Some h" "pp_pr (ps ! i) \<noteq> None" "pp_pr_state (ps ! i) = Some ''MERGED''"
      using i(2) by (auto simp: phase_settled_def is_human_def)
    then show ?thesis using rec(5) [OF h(1)] o counted by (auto simp: record_fits_def phase_settled_def)
  qed
  have prefix: "1 \<le> hf_index h \<and> hf_index h \<le> int (length ps) \<and> (\<forall>j < nat (hf_index h - 1). pp_status (ps ! j) = STATUS_COMPLETE)"
    if "counts_for tp parent recorded h" for h
  proof -
    have b: "by_index (hf_index h) = Some h" using rec(6) [of h] that counted by (auto simp: outside_def)
    then have k: "1 \<le> hf_index h" "hf_index h \<le> int (length ps)" using rec(5) [OF b] len by (auto simp: record_fits_def)
    have e: "1 + int (nat (hf_index h - 1)) = hf_index h" "nat (hf_index h - 1) < length ps" using k by auto
    have "phase_settled tp by_index (\<exists>j < nat (hf_index h - 1). pp_status (ps ! j) \<noteq> STATUS_COMPLETE) (hf_index h) (ps ! nat (hf_index h - 1))"
      using ok [rule_format, OF e(2)] unfolding e(1) .
    then show ?thesis using b k by (auto simp: phase_settled_def)
  qed
  have "case select_current_phase ps of
         None \<Rightarrow> \<forall>p \<in> set ps. pp_status p = STATUS_COMPLETE
       | Some p \<Rightarrow> \<exists>i < length ps. p = ps ! i \<and> (\<forall>j < i. pp_status (ps ! j) = STATUS_COMPLETE)
           \<and> (\<forall>h. counts_for tp parent recorded h \<longrightarrow> hf_index h \<le> 1 + int i)"
  proof (cases "select_current_phase ps")
    case None
    then have "\<forall>p \<in> set ps. pp_status p = STATUS_COMPLETE" by (auto simp: select_current_phase_def find_None_iff)
    then show ?thesis unfolding None by simp
  next
    case (Some p)
    then obtain i where i: "i < length ps" "p = ps ! i" "pp_status (ps ! i) \<noteq> STATUS_COMPLETE" "\<forall>j < i. pp_status (ps ! j) = STATUS_COMPLETE"
      by (auto simp: select_current_phase_def find_Some_iff)
    have "hf_index h \<le> 1 + int i" if "counts_for tp parent recorded h" for h
    proof (rule ccontr)
      assume "\<not> hf_index h \<le> 1 + int i"
      then have "i < nat (hf_index h - 1)" by linarith
      then show False using prefix [OF that] i(3) by blast
    qed
    then show ?thesis using i(1,2,4) Some by auto
  qed
  then show ?thesis using len shown delivered prefix closed by (intro conjI allI impI) blast+
qed

definition ex_topology :: topology where
  "ex_topology = \<lparr>tp_created = [\<lparr>cp_number = Some 11, cp_url = None\<rparr>, \<lparr>cp_number = Some 12, cp_url = None\<rparr>],
     tp_stages = [''s1'', ''s2''], tp_automations = [AGENT_AUTOMATION, AGENT_AUTOMATION], tp_plan_hash = ''h'', tp_mode = ''implement-by-phase''\<rparr>"

definition ex_handoff :: handoff where
  "ex_handoff = \<lparr>hf_parent = 10, hf_plan_hash = ''h'', hf_mode = ''implement-by-phase'', hf_index = 1, hf_title = ''one'',
     hf_automation = AGENT_AUTOMATION, hf_child = 11, hf_url = None, hf_strategy = None, hf_topology = None, hf_version = None,
     hf_recommendation = None, hf_stage = Some ''s1'', hf_subject = None, hf_rows = [], hf_disposition = None, hf_override = None\<rparr>"

definition ex_phase_answers :: gh_answers where
  "ex_phase_answers = (ex_answers ''dev'')\<lparr>live_state := \<lambda>t n. Inr ''CLOSED''\<rparr>"

definition ex_first_phase :: progress where
  "ex_first_phase = \<lparr>pp_index = 1, pp_stage = ''s1'', pp_automation = AGENT_AUTOMATION, pp_handoff = Some ex_handoff, pp_child = Some 11,
     pp_child_state = Some ''CLOSED'', pp_pr = Some 9, pp_pr_state = Some ''MERGED'', pp_status = STATUS_COMPLETE, pp_integration = None\<rparr>"

lemma ex_resolved:
  "run_state (resolve_staged_phase_progress ex_phase_answers ex_close_config 10 [ex_handoff] ex_topology None False None) \<lparr>now = 0, closes = []\<rparr>
     = (Inr [ex_first_phase, undispatched ex_topology 2], \<lparr>now = 3, closes = []\<rparr>)"
  by (simp add: resolve_staged_phase_progress_def reconcile_def ex_topology_def ex_handoff_def filter_outcome_handoffs_def
      find_handoffs_for_parent_def outside_def child_at_def stage_at_def automation_at_def resolve_phase_def resolve_agent_phase_def
      ex_phase_answers_def ex_answers_def resolved_def undispatched_def ex_first_phase_def Let_def)

theorem phases_in_order_witness:
  "select_current_phase [ex_first_phase, undispatched ex_topology 2] = Some (undispatched ex_topology 2)
   \<and> pp_pr_state ([ex_first_phase, undispatched ex_topology 2] ! 0) = Some ''MERGED''"
  using phases_in_order [OF ex_resolved, THEN conjunct2, THEN conjunct2, THEN conjunct1, rule_format, of 0]
  by (simp add: ex_first_phase_def is_human_def select_current_phase_def undispatched_def)

lemma find_none: "find P xs = None \<Longrightarrow> x \<in> set xs \<Longrightarrow> \<not> P x"
  by (auto simp: find_None_iff)

lemma position_nth: "d \<in> set xs \<Longrightarrow> position_of d xs < length xs \<and> xs ! position_of d xs = d"
  unfolding position_of_def
proof (induction xs)
  case (Cons x xs)
  then show ?case by auto
qed simp


lemma ex_prerequisites:
  "run_state (unmet_phase_prerequisites ex_phase_answers ex_close_config 10 [ex_handoff] ex_topology 2 [''s1'']) \<lparr>now = 0, closes = []\<rparr>
     = (Inr [], \<lparr>now = 3, closes = []\<rparr>)"
  by (simp add: unmet_phase_prerequisites_def bad_dependency_def position_of_def resolve_staged_phase_progress_def reconcile_def
      ex_topology_def ex_handoff_def filter_outcome_handoffs_def find_handoffs_for_parent_def outside_def child_at_def stage_at_def
      automation_at_def resolve_phase_def resolve_agent_phase_def ex_phase_answers_def ex_answers_def resolved_def Let_def)


lemma delivered_read: "decode_delivered (delivered_payload d) = Inr d"
  by (cases d; cases "dl_pr d"; cases "dl_commit d")
    (simp_all add: decode_delivered_def delivered_payload_def required_key_def optional_int_def)

lemma completion_read: "decode_completion (completion_payload m) = Inr m"
proof -
  have "mapE decode_delivered (map delivered_payload ds) = Inr ds" for ds by (induction ds) (simp_all add: delivered_read)
  then show ?thesis by (cases m) (simp add: decode_completion_def completion_payload_def required_key_def)
qed

interpretation completion_record: record_codec completion_payload decode_completion "\<lambda>_. True"
  by unfold_locales (simp_all add: completion_read)

lemma claimed_record: "Some (completion_payload m) \<in> set (pc_claims c) \<Longrightarrow> m \<in> set (claims_of c)"
proof -
  let ?f = "\<lambda>v. case v of None \<Rightarrow> Inl () | Some v \<Rightarrow> decode_completion v"
  assume "Some (completion_payload m) \<in> set (pc_claims c)"
  then have "?f (Some (completion_payload m)) \<in> set (filter is_ok (map ?f (pc_claims c)))"
    by (simp add: completion_record.dec_enc) (rule image_eqI [rotated], assumption, simp add: completion_record.dec_enc)
  then have "projr (Inr m :: unit + completion) \<in> set (claims_of c)"
    unfolding claims_of_def set_map by (rule image_eqI [rotated]) (simp add: completion_record.dec_enc)
  then show ?thesis by simp
qed


definition ex_completion :: completion where
  "ex_completion = \<lparr>cm_parent = 10, cm_plan_hash = ''h'', cm_mode = ''implement-by-phase'',
     cm_stages = [\<lparr>dl_index = 1, dl_stage = ''s1'', dl_automation = AGENT_AUTOMATION, dl_child = 11, dl_pr = Some 9, dl_commit = Some ''abc''\<rparr>]\<rparr>"

definition ex_bot_comment :: parent_comment where
  "ex_bot_comment = \<lparr>pc_author = Some ''loop[bot]'', pc_author_id = Some 3, pc_claims = [None, Some (completion_payload ex_completion)]\<rparr>"


end
