(* ===== verification/Wire_Text.thy ===== *)
theory Wire_Text
  imports Text_Ops
begin

text \<open>
  The text forms of the standard library that records travel in: base64 (\<open>base64.urlsafe_b64encode\<close> and the lenient
  decoder), UTF-8, and JSON (\<open>json.dumps\<close> with sorted keys and compact separators, \<open>json.loads\<close>).

  A byte is a character.  The readers answer \<open>None\<close> where the library raises, and also for what is outside the
  model: code points from 256 on, and numbers with a fraction or an exponent.
\<close>

section \<open>Base64\<close>

definition b64_digit :: "nat \<Rightarrow> char" where
  "b64_digit n =
     (if n < 26 then char_of (65 + n) else if n < 52 then char_of (71 + n) else if n < 62 then char_of (n - 4)
      else if n = 62 then CHR ''-'' else CHR ''_'')"

fun b64 :: "string \<Rightarrow> string" where
  "b64 [] = []"
| "b64 [a] = [b64_digit (code a div 4), b64_digit (code a mod 4 * 16), CHR ''='', CHR ''='']"
| "b64 [a, b] =
     [b64_digit (code a div 4), b64_digit (code a mod 4 * 16 + code b div 16), b64_digit (code b mod 16 * 4), CHR ''='']"
| "b64 (a # b # c # cs) =
     b64_digit (code a div 4) # b64_digit (code a mod 4 * 16 + code b div 16)
     # b64_digit (code b mod 16 * 4 + code c div 64) # b64_digit (code c mod 64) # b64 cs"

text \<open>Reading takes the digits of both alphabets and skips what is none.\<close>

definition b64_value :: "char \<Rightarrow> nat option" where
  "b64_value c =
     (let n = code c in
      if 65 \<le> n \<and> n \<le> 90 then Some (n - 65) else if 97 \<le> n \<and> n \<le> 122 then Some (n - 71)
      else if 48 \<le> n \<and> n \<le> 57 then Some (n + 4) else if c = CHR ''-'' \<or> c = CHR ''+'' then Some 62
      else if c = CHR ''_'' \<or> c = CHR ''/'' then Some 63 else None)"

text \<open>The number of digits of the current group, what the last digit left over, and the padding seen in the group.\<close>

fun unb64_from :: "nat \<Rightarrow> nat \<Rightarrow> nat \<Rightarrow> string \<Rightarrow> string option" where
  "unb64_from q left pads [] = (if q = 0 then Some [] else None)"
| "unb64_from q left pads (c # cs) =
     (if c = CHR ''='' then
        (if q \<ge> 2 \<and> q + Suc pads \<ge> 4 then Some [] else unb64_from q left (if q \<ge> 2 then Suc pads else pads) cs)
      else case b64_value c of
        None \<Rightarrow> unb64_from q left pads cs
      | Some v \<Rightarrow>
          if q = 0 then unb64_from 1 v 0 cs
          else if q = 1 then map_option (Cons (char_of (left * 4 + v div 16))) (unb64_from 2 (v mod 16) 0 cs)
          else if q = 2 then map_option (Cons (char_of (left * 16 + v div 4))) (unb64_from 3 (v mod 4) 0 cs)
          else map_option (Cons (char_of (left * 64 + v))) (unb64_from 0 0 0 cs))"

definition unb64 :: "string \<Rightarrow> string option" where
  "unb64 s = (if \<exists>c \<in> set s. code c \<ge> 128 then None else unb64_from 0 0 0 s)"

lemma code_bound: "code c < 256"
  by (rule nat_of_char_less_256)

lemma b64_digit_value:
  assumes "n < 64"
  shows "b64_value (b64_digit n) = Some n" "b64_digit n \<noteq> CHR ''=''" "code (b64_digit n) < 128"
proof -
  consider "n < 26" | "26 \<le> n" "n < 52" | "52 \<le> n" "n < 62" | "n = 62" | "n = 63" using assms by linarith
  then have "b64_value (b64_digit n) = Some n \<and> code (b64_digit n) \<noteq> 61 \<and> code (b64_digit n) < 128"
    by cases (auto simp: b64_digit_def b64_value_def Let_def)
  then show "b64_value (b64_digit n) = Some n" "b64_digit n \<noteq> CHR ''=''" "code (b64_digit n) < 128" by auto
qed

lemma group_of:
  "code a div 4 < 64" "code a mod 4 * 16 < 64" "code a mod 4 * 16 + code b div 16 < 64" "code b mod 16 * 4 < 64"
  "code b mod 16 * 4 + code c div 64 < 64" "code c mod 64 < 64"
  using code_bound [of a] code_bound [of b] code_bound [of c] by linarith+

lemma group_rest: "code b div 16 < 16" "code c div 64 < 4"
  using code_bound [of b] code_bound [of c] by linarith+

lemmas b64_value_of =
  group_of [THEN b64_digit_value(1)] group_of [THEN b64_digit_value(2)]

lemma group_small [simp]:
  "code b div 16 div 16 = 0" "code b div 16 mod 16 = code b div 16" "code c div 64 div 4 = 0" "code c div 64 mod 4 = code c div 64"
  using group_rest(1) [of b] group_rest(2) [of c] by simp_all

lemma b64_reads: "unb64_from 0 0 0 (b64 s) = Some s"
proof (induction s rule: b64.induct)
  case (4 a b c cs)
  then show ?case
    by (simp add: b64_value_of)
next
  case (3 a b)
  show ?case
    by (simp add: b64_value_of)
next
  case (2 a)
  show ?case by (simp add: b64_value_of)
qed simp

definition b64_char :: "char \<Rightarrow> bool" where
  "b64_char c \<longleftrightarrow> (\<exists>n < 64. c = b64_digit n) \<or> c = CHR ''=''"

lemma b64_char_digit: "n < 64 \<Longrightarrow> b64_char (b64_digit n)" "b64_char CHR ''=''"
  by (auto simp: b64_char_def)

lemma b64_chars: "\<forall>c \<in> set (b64 s). b64_char c"
  by (induction s rule: b64.induct) (simp_all add: b64_char_digit group_of)

lemma b64_char_ascii: "b64_char c \<Longrightarrow> code c < 128"
  by (auto simp: b64_char_def b64_digit_value(3))

lemma unb64_b64 [simp]: "unb64 (b64 s) = Some s"
proof -
  have "\<not> (\<exists>c \<in> set (b64 s). code c \<ge> 128)" using b64_chars [of s] b64_char_ascii by (meson not_le)
  then show ?thesis by (simp add: unb64_def b64_reads)
qed

lemma length_b64: "length (b64 s) = (length s + 2) div 3 * 4"
proof (induction s rule: b64.induct)
  case (4 a b c cs)
  have "(5 + n) div 3 = Suc (Suc (Suc n) div 3)" for n :: nat by presburger
  then show ?case using 4 by simp
qed simp_all

section \<open>UTF-8\<close>

definition utf8 :: "string \<Rightarrow> string" where
  "utf8 s = concat (map (\<lambda>c. if code c < 128 then [c] else [char_of (192 + code c div 64), char_of (128 + code c mod 64)]) s)"

fun unutf8 :: "string \<Rightarrow> string option" where
  "unutf8 [] = Some []"
| "unutf8 [c] = (if code c < 128 then Some [c] else None)"
| "unutf8 (c # d # cs) =
     (if code c < 128 then map_option (Cons c) (unutf8 (d # cs))
      else if (code c = 194 \<or> code c = 195) \<and> 128 \<le> code d \<and> code d < 192
        then map_option (Cons (char_of ((code c - 192) * 64 + (code d - 128)))) (unutf8 cs)
      else None)"

lemma utf8_simps [simp]:
  "utf8 [] = []"
  "utf8 (c # cs) = (if code c < 128 then [c] else [char_of (192 + code c div 64), char_of (128 + code c mod 64)]) @ utf8 cs"
  by (simp_all add: utf8_def)

lemma unutf8_utf8 [simp]: "unutf8 (utf8 s) = Some s"
proof (induction s)
  case (Cons c cs)
  show ?case
  proof (cases "code c < 128")
    case True
    then show ?thesis using Cons by (cases "utf8 cs") auto
  next
    case False
    then have "code c div 64 = 2 \<or> code c div 64 = 3" using code_bound [of c] by linarith
    moreover have "code c = code c div 64 * 64 + code c mod 64" by simp
    ultimately show ?thesis using False Cons by (elim disjE) simp_all
  qed
qed simp

section \<open>JSON: writing\<close>

text \<open>A character of a string with \<open>ensure_ascii=False\<close>; with \<open>True\<close> it is \<open>json_char\<close>.\<close>

definition json_plain_char :: "char \<Rightarrow> string" where
  "json_plain_char c = (if code c < 127 then json_char c else [c])"

fun json_dumps :: "(char \<Rightarrow> string) \<Rightarrow> pyval \<Rightarrow> string" where
  "json_dumps esc PNone = ''null''"
| "json_dumps esc (PBool b) = (if b then ''true'' else ''false'')"
| "json_dumps esc (PInt i) = int_str i"
| "json_dumps esc (PStr s) = [CHR 0x22] @ concat (map esc s) @ [CHR 0x22]"
| "json_dumps esc (PList xs) = ''['' @ join '','' (map (json_dumps esc) xs) @ '']''"
| "json_dumps esc (PTuple xs) = ''['' @ join '','' (map (json_dumps esc) xs) @ '']''"
| "json_dumps esc (PDict kvs) =
     ''{'' @ join '','' (map snd (sort_key fst
        (map (\<lambda>(k, v). (k, [CHR 0x22] @ concat (map esc k) @ [CHR 0x22] @ '':'' @ json_dumps esc v)) kvs))) @ ''}''"

lemma json_canonical_dumps: "json_canonical v = json_dumps json_char v"
proof (induction v)
  case (PDict kvs)
  then have "map (\<lambda>(k, v). (k, json_str k @ '':'' @ json_canonical v)) kvs
      = map (\<lambda>(k, v). (k, [CHR 0x22] @ concat (map json_char k) @ [CHR 0x22] @ '':'' @ json_dumps json_char v)) kvs"
    by (auto simp: json_str_def)
  then show ?case by (simp only: json_canonical.simps json_dumps.simps)
next
  case (PList xs)
  then have "map json_canonical xs = map (json_dumps json_char) xs" by simp
  then show ?case by (simp only: json_canonical.simps json_dumps.simps)
next
  case (PTuple xs)
  then have "map json_canonical xs = map (json_dumps json_char) xs" by simp
  then show ?case by (simp only: json_canonical.simps json_dumps.simps)
qed (simp_all add: json_str_def)

section \<open>JSON: reading\<close>

definition skip_ws :: "string \<Rightarrow> string" where
  "skip_ws s = dropWhile (\<lambda>c. code c \<in> {9, 10, 13, 32}) s"

definition hex_value :: "char \<Rightarrow> nat option" where
  "hex_value c =
     (let n = code c in
      if 48 \<le> n \<and> n \<le> 57 then Some (n - 48) else if 97 \<le> n \<and> n \<le> 102 then Some (n - 87)
      else if 65 \<le> n \<and> n \<le> 70 then Some (n - 55) else None)"

fun hex4 :: "string \<Rightarrow> nat option" where
  "hex4 [a, b, c, d] =
     (case (hex_value a, hex_value b, hex_value c, hex_value d) of
        (Some w, Some x, Some y, Some z) \<Rightarrow> Some (((w * 16 + x) * 16 + y) * 16 + z)
      | _ \<Rightarrow> None)"
| "hex4 _ = None"

definition simple_escape :: "char \<Rightarrow> char option" where
  "simple_escape e =
     map_of [(CHR 0x22, CHR 0x22), (CHR 0x5C, CHR 0x5C), (CHR ''/'', CHR ''/''), (CHR ''b'', CHR 0x08), (CHR ''f'', CHR 0x0C),
             (CHR ''n'', CHR 0x0A), (CHR ''r'', CHR 0x0D), (CHR ''t'', CHR 0x09)] e"

text \<open>What follows the opening quote: the string and the rest after the closing one.\<close>

fun json_string :: "string \<Rightarrow> (string \<times> string) option" where
  "json_string [] = None"
| "json_string (c # cs) =
     (if c = CHR 0x22 then Some ([], cs)
      else if c = CHR 0x5C then
        (case cs of
           [] \<Rightarrow> None
         | e # ds \<Rightarrow>
             if e = CHR ''u'' then
               (case hex4 (take 4 ds) of
                  None \<Rightarrow> None
                | Some n \<Rightarrow> if n < 256 then map_option (apfst (Cons (char_of n))) (json_string (drop 4 ds)) else None)
             else (case simple_escape e of None \<Rightarrow> None | Some d \<Rightarrow> map_option (apfst (Cons d)) (json_string ds)))
      else if code c < 32 then None
      else map_option (apfst (Cons c)) (json_string cs))"

definition decimal :: "string \<Rightarrow> nat" where
  "decimal ds = foldl (\<lambda>n c. n * 10 + (code c - 48)) 0 ds"

definition digit_next :: "string \<Rightarrow> bool" where
  "digit_next s \<longleftrightarrow> s \<noteq> [] \<and> is_ascii_digit (hd s)"

definition is_float_tail :: "string \<Rightarrow> bool" where
  "is_float_tail s \<longleftrightarrow>
     s \<noteq> [] \<and> (hd s = CHR ''.'' \<and> digit_next (tl s)
       \<or> hd s \<in> {CHR ''e'', CHR ''E''}
         \<and> (digit_next (tl s) \<or> tl s \<noteq> [] \<and> hd (tl s) \<in> {CHR ''+'', CHR ''-''} \<and> digit_next (tl (tl s))))"

definition json_number :: "string \<Rightarrow> (pyval \<times> string) option" where
  "json_number s =
     (let negative = (s \<noteq> [] \<and> hd s = CHR ''-'');
          t = (if negative then tl s else s);
          ds = (if t \<noteq> [] \<and> hd t = CHR ''0'' then ''0'' else takeWhile is_ascii_digit t);
          rest = drop (length ds) t
      in if ds = [] \<or> is_float_tail rest then None
         else Some (PInt (if negative then - int (decimal ds) else int (decimal ds)), rest))"

fun dict_put :: "string \<Rightarrow> pyval \<Rightarrow> (string \<times> pyval) list \<Rightarrow> (string \<times> pyval) list" where
  "dict_put k v [] = [(k, v)]"
| "dict_put k v ((k', v') # kvs) = (if k' = k then (k, v) # kvs else (k', v') # dict_put k v kvs)"

definition dict_of_pairs :: "(string \<times> pyval) list \<Rightarrow> (string \<times> pyval) list" where
  "dict_of_pairs ps = foldl (\<lambda>d (k, v). dict_put k v d) [] ps"

text \<open>The number bounds the depth of calls; \<open>json_fuel\<close> below shows that twice the length of the text is enough.\<close>

fun json_value :: "nat \<Rightarrow> string \<Rightarrow> (pyval \<times> string) option"
  and json_elems :: "nat \<Rightarrow> string \<Rightarrow> (pyval list \<times> string) option"
  and json_members :: "nat \<Rightarrow> string \<Rightarrow> ((string \<times> pyval) list \<times> string) option" where
  "json_value 0 s = None"
| "json_value (Suc n) s =
     (if s = [] then None
      else if hd s = CHR 0x22 then map_option (apfst PStr) (json_string (tl s))
      else if hd s = CHR ''['' then
        (let t = skip_ws (tl s) in
         if t \<noteq> [] \<and> hd t = CHR '']'' then Some (PList [], tl t) else map_option (apfst PList) (json_elems n t))
      else if hd s = CHR ''{'' then
        (let t = skip_ws (tl s) in
         if t \<noteq> [] \<and> hd t = CHR ''}'' then Some (PDict [], tl t)
         else map_option (apfst PDict) (json_members n t))
      else if starts_with ''null'' s then Some (PNone, drop 4 s)
      else if starts_with ''true'' s then Some (PBool True, drop 4 s)
      else if starts_with ''false'' s then Some (PBool False, drop 5 s)
      else json_number s)"
| "json_elems 0 s = None"
| "json_elems (Suc n) s =
     (case json_value n s of
        None \<Rightarrow> None
      | Some (v, r) \<Rightarrow>
          (let t = skip_ws r in
           if t = [] then None
           else if hd t = CHR '','' then map_option (apfst (Cons v)) (json_elems n (skip_ws (tl t)))
           else if hd t = CHR '']'' then Some ([v], tl t) else None))"
| "json_members 0 s = None"
| "json_members (Suc n) s =
     (if s = [] \<or> hd s \<noteq> CHR 0x22 then None
      else case json_string (tl s) of
        None \<Rightarrow> None
      | Some (k, r) \<Rightarrow>
          (let t = skip_ws r in
           if t = [] \<or> hd t \<noteq> CHR '':'' then None
           else case json_value n (skip_ws (tl t)) of
             None \<Rightarrow> None
           | Some (v, r') \<Rightarrow>
               (let u = skip_ws r' in
                if u = [] then None
                else if hd u = CHR '','' then map_option (apfst (Cons (k, v))) (json_members n (skip_ws (tl u)))
                else if hd u = CHR ''}'' then Some ([(k, v)], tl u) else None)))"

declare json_value.simps(2) [simp del] json_elems.simps(2) [simp del] json_members.simps(2) [simp del]

text \<open>The text as a value whose dicts still are the pairs as they stand, a key possibly more than once.\<close>

definition json_pairs :: "string \<Rightarrow> pyval option" where
  "json_pairs s =
     (case json_value (2 * length s + 2) (skip_ws s) of
        None \<Rightarrow> None
      | Some (v, r) \<Rightarrow> if skip_ws r = [] then Some v else None)"

text \<open>The last value of a key counts.\<close>

fun json_dicts :: "pyval \<Rightarrow> pyval" where
  "json_dicts (PList xs) = PList (map json_dicts xs)"
| "json_dicts (PDict kvs) = PDict (dict_of_pairs (map (\<lambda>(k, v). (k, json_dicts v)) kvs))"
| "json_dicts v = v"

definition json_loads :: "string \<Rightarrow> pyval option" where
  "json_loads s = map_option json_dicts (json_pairs s)"

section \<open>JSON: the bound on the calls is enough\<close>

lemma skip_ws_shorter: "length (skip_ws s) \<le> length s"
  by (simp add: skip_ws_def length_dropWhile_le)

lemma json_string_shorter: "json_string s = Some (v, r) \<Longrightarrow> length r < length s"
proof (induction s arbitrary: v rule: json_string.induct)
  case (2 c cs)
  show ?case
  proof (cases "c = CHR 0x22 \<or> c \<noteq> CHR 0x5C")
    case True
    then show ?thesis using 2(3) 2(4) by (force split: if_splits)
  next
    case False
    then show ?thesis using 2(1,2,4) by (force split: list.splits option.splits if_splits)
  qed
qed simp

lemma json_number_shorter: "json_number s = Some (v, r) \<Longrightarrow> length r < length s"
  by (cases s) (auto simp: json_number_def Let_def split: if_splits)

lemma json_shorter:
  "json_value n s = Some (v, r) \<Longrightarrow> length r < length s"
  "json_elems n s = Some (vs, r) \<Longrightarrow> length r < length s"
  "json_members n s = Some (kvs, r) \<Longrightarrow> length r < length s"
proof (induction n arbitrary: s v vs kvs r)
  case (Suc n)
  have ws: "length (skip_ws (tl t)) < length t" if "t \<noteq> []" for t :: string
    using that skip_ws_shorter [of "tl t"] by (cases t) auto
  { case 1
    show ?case
    proof (cases "s = []")
      case False
      from Suc.IH(2) [of "skip_ws (tl s)" _ r] Suc.IH(3) [of "skip_ws (tl s)" _ r] json_string_shorter [of "tl s" _ r]
        json_number_shorter [of s v r] ws [OF False] False 1
      show ?thesis
        by (auto simp: json_value.simps(2) Let_def split: if_splits)
    qed (use 1 in \<open>simp add: json_value.simps(2)\<close>)
  next case 2
    then obtain w q where v: "json_value n s = Some (w, q)" by (auto simp: json_elems.simps(2) split: option.splits)
    have q: "length (skip_ws q) < length s" using Suc.IH(1) [OF v] skip_ws_shorter [of q] by simp
    from 2 Suc.IH(2) [of "skip_ws (tl (skip_ws q))" _ r] ws [of "skip_ws q"] q show ?case
      by (auto simp: json_elems.simps(2) v Let_def split: if_splits)
  next case 3
    then obtain k q where k: "json_string (tl s) = Some (k, q)" and s: "s \<noteq> []"
      by (auto simp: json_members.simps(2) split: option.splits if_splits)
    then obtain w u where w: "json_value n (skip_ws (tl (skip_ws q))) = Some (w, u)" "skip_ws q \<noteq> []"
      using 3 by (auto simp: json_members.simps(2) Let_def split: option.splits if_splits)
    have u: "length (skip_ws u) < length s"
      using Suc.IH(1) [OF w(1)] ws [OF w(2)] skip_ws_shorter [of u] skip_ws_shorter [of q] json_string_shorter [OF k] s by simp
    from 3 Suc.IH(3) [of "skip_ws (tl (skip_ws u))" _ r] ws [of "skip_ws u"] u s show ?case
      by (auto simp: json_members.simps(2) k w Let_def split: if_splits)
  }
qed simp_all

lemma json_fuel:
  "2 * length s < n \<Longrightarrow> 2 * length s < m \<Longrightarrow> json_value n s = json_value m s"
  "2 * length s < n - 1 \<Longrightarrow> 2 * length s < m - 1 \<Longrightarrow> json_elems n s = json_elems m s"
  "2 * length s < n - 1 \<Longrightarrow> 2 * length s < m - 1 \<Longrightarrow> json_members n s = json_members m s"
proof (induction n arbitrary: s m)
  case (Suc n)
  have ws: "length (skip_ws (tl t)) < length t" if "t \<noteq> []" for t :: string
    using that skip_ws_shorter [of "tl t"] by (cases t) auto
  { case 1
    then obtain k where m: "m = Suc k" by (cases m) auto
    show ?case
    proof (cases "s = []")
      case False
      have "2 * length (skip_ws (tl s)) < n - 1" "2 * length (skip_ws (tl s)) < k - 1" using ws [OF False] 1 m by linarith+
      then have "json_elems n (skip_ws (tl s)) = json_elems k (skip_ws (tl s))"
        "json_members n (skip_ws (tl s)) = json_members k (skip_ws (tl s))"
        using Suc.IH(2,3) [of "skip_ws (tl s)" k] by blast+
      then show ?thesis unfolding m json_value.simps(2) Let_def by (simp only:)
    qed (simp add: json_value.simps(2) m)
  next case 2
    then obtain k where m: "m = Suc k" by (cases m) auto
    have v: "json_value n s = json_value k s" using Suc.IH(1) [of s k] 2 m by simp
    show ?case
    proof (cases "json_value k s")
      case (Some p)
      obtain w q where p: "p = (w, q)" by (cases p)
      have q: "length (skip_ws q) < length s" using json_shorter(1) [of k s w q] Some p skip_ws_shorter [of q] by simp
      have "json_elems n (skip_ws (tl (skip_ws q))) = json_elems k (skip_ws (tl (skip_ws q)))" if "skip_ws q \<noteq> []"
        using Suc.IH(2) [of "skip_ws (tl (skip_ws q))" k] ws [OF that] q 2 m by simp
      then show ?thesis by (simp add: json_elems.simps(2) m v Some p Let_def)
    qed (simp add: json_elems.simps(2) m v)
  next case 3
    then obtain k where m: "m = Suc k" by (cases m) auto
    show ?case
    proof (cases "json_string (tl s)")
      case (Some p)
      obtain key q where p: "p = (key, q)" by (cases p)
      show ?thesis
      proof (cases "s = [] \<or> skip_ws q = []")
        case False
        let ?t = "skip_ws (tl (skip_ws q))"
        have t: "length ?t < length s"
          using json_string_shorter [of "tl s" key q] Some p ws [of "skip_ws q"] skip_ws_shorter [of q] False by simp
        have v: "json_value n ?t = json_value k ?t" using Suc.IH(1) [of ?t k] 3 m t by simp
        have "json_members n (skip_ws (tl (skip_ws u))) = json_members k (skip_ws (tl (skip_ws u)))"
          if "json_value k ?t = Some (w, u)" "skip_ws u \<noteq> []" for w u
          using Suc.IH(3) [of "skip_ws (tl (skip_ws u))" k] ws [OF that(2)] json_shorter(1) [OF that(1)] skip_ws_shorter [of u] t 3 m
          by simp
        then show ?thesis by (auto simp: json_members.simps(2) m Some p v Let_def split: option.splits)
      qed (auto simp: json_members.simps(2) m Some p)
    qed (simp add: json_members.simps(2) m)
  }
qed simp_all

section \<open>JSON: what is written reads back\<close>

text \<open>The value as the reader returns it: tuples are lists and keys are sorted.\<close>

fun json_norm :: "pyval \<Rightarrow> pyval" where
  "json_norm (PList xs) = PList (map json_norm xs)"
| "json_norm (PTuple xs) = PList (map json_norm xs)"
| "json_norm (PDict kvs) = PDict (sort_key fst (map (\<lambda>(k, v). (k, json_norm v)) kvs))"
| "json_norm v = v"

text \<open>A dict has each key once.\<close>

fun is_value :: "pyval \<Rightarrow> bool" where
  "is_value (PList xs) = (\<forall>x \<in> set xs. is_value x)"
| "is_value (PTuple xs) = (\<forall>x \<in> set xs. is_value x)"
| "is_value (PDict kvs) = (distinct (map fst kvs) \<and> (\<forall>(k, v) \<in> set kvs. is_value v))"
| "is_value _ = True"

definition escapes :: "(char \<Rightarrow> string) \<Rightarrow> bool" where
  "escapes esc \<longleftrightarrow> (\<forall>c rest. json_string (esc c @ rest) = map_option (apfst (Cons c)) (json_string rest))"

lemma hex_value_digit: "n < 16 \<Longrightarrow> hex_value (hex_digit n) = Some n"
  by (cases "n < 10") (auto simp: hex_value_def hex_digit_def Let_def)

lemma json_char_escapes: "escapes json_char"
  unfolding escapes_def
proof (intro allI)
  fix c rest
  have h: "hex4 (take 4 (CHR ''0'' # CHR ''0'' # hex2 (code c) @ rest)) = Some (code c)"
  proof -
    have "hex_value CHR ''0'' = Some 0" "code c div 16 < 16" using code_bound [of c] by (simp add: hex_value_def, linarith)
    then show ?thesis by (simp add: hex2_def hex_value_digit)
  qed
  show "json_string (json_char c @ rest) = map_option (apfst (Cons c)) (json_string rest)"
  proof (cases "c \<in> {CHR 0x22, CHR 0x5C, CHR 0x08, CHR 0x09, CHR 0x0A, CHR 0x0C, CHR 0x0D}")
    case True
    then show ?thesis by (elim insertE) (simp_all add: json_char_def Let_def simple_escape_def)
  next
    case False
    have inj: "c \<noteq> d \<Longrightarrow> code c \<noteq> code d" for d by simp
    have c: "code c \<noteq> 34" "code c \<noteq> 92" "code c \<noteq> 8" "code c \<noteq> 9" "code c \<noteq> 10" "code c \<noteq> 12" "code c \<noteq> 13" "c \<noteq> CHR 0x22" "c \<noteq> CHR 0x5C"
      using False inj [of "CHR 0x22"] inj [of "CHR 0x5C"] inj [of "CHR 0x08"] inj [of "CHR 0x09"] inj [of "CHR 0x0A"] inj [of "CHR 0x0C"] inj [of "CHR 0x0D"]
      by simp_all
    show ?thesis
    proof (cases "32 \<le> code c \<and> code c < 127")
      case True
      then show ?thesis using c by (simp add: json_char_def)
    next
      case False
      have l: "json_char c @ rest = CHR 0x5C # CHR ''u'' # (CHR ''0'' # CHR ''0'' # hex2 (code c) @ rest)"
        unfolding json_char_def Let_def using c False by simp
      show ?thesis unfolding l using h code_bound [of c] by (simp add: hex2_def)
    qed
  qed
qed

lemma json_plain_char_escapes: "escapes json_plain_char"
  unfolding escapes_def
proof (intro allI)
  fix c rest
  show "json_string (json_plain_char c @ rest) = map_option (apfst (Cons c)) (json_string rest)"
  proof (cases "code c < 127")
    case True
    then show ?thesis using json_char_escapes by (simp add: json_plain_char_def escapes_def)
  next
    case False
    then have "c \<noteq> CHR 0x22" "c \<noteq> CHR 0x5C" "\<not> code c < 32" by auto
    then show ?thesis using False by (simp add: json_plain_char_def)
  qed
qed

lemma json_string_reads:
  "escapes esc \<Longrightarrow> json_string (concat (map esc s) @ CHR 0x22 # rest) = Some (s, rest)"
  by (induction s) (simp_all add: escapes_def)

lemma nat_str_eq: "nat_str k = (if k < 10 then [char_of (48 + k)] else nat_str (k div 10) @ [char_of (48 + k mod 10)])"
  by (rule nat_str.simps)

lemma nat_str_reads:
  "decimal (nat_str n) = n \<and> (\<forall>c \<in> set (nat_str n). is_ascii_digit c) \<and> nat_str n \<noteq> []
     \<and> (hd (nat_str n) = CHR ''0'' \<longrightarrow> nat_str n = ''0'')"
proof (induction n rule: less_induct)
  case (less n)
  show ?case
  proof (cases "n < 10")
    case True
    then have "n \<in> {0,1,2,3,4,5,6,7,8,9}" by auto
    then show ?thesis by (auto simp: nat_str_eq [of n] decimal_def is_ascii_digit_def)
  next
    case False
    have ih: "decimal (nat_str (n div 10)) = n div 10" "\<forall>c \<in> set (nat_str (n div 10)). is_ascii_digit c" "nat_str (n div 10) \<noteq> []"
      "hd (nat_str (n div 10)) = CHR ''0'' \<longrightarrow> nat_str (n div 10) = ''0''"
      using less [of "n div 10"] False by auto
    have "n div 10 \<noteq> 0" using False by simp
    then have "nat_str (n div 10) \<noteq> ''0''" using ih(1) by (auto simp: decimal_def)
    then have "hd (nat_str (n div 10)) \<noteq> CHR ''0''" using ih(4) by blast
    moreover have "n mod 10 < 10" by simp
    ultimately show ?thesis using False ih(1-3) by (simp add: nat_str_eq [of n] decimal_def is_ascii_digit_def)
  qed
qed

definition value_ends :: "string \<Rightarrow> bool" where
  "value_ends rest \<longleftrightarrow> rest = [] \<or> hd rest \<in> {CHR '','', CHR '']'', CHR ''}''}"

lemma json_number_reads:
  assumes "value_ends rest"
  shows "json_number (int_str i @ rest) = Some (PInt i, rest)"
proof -
  have stop: "takeWhile is_ascii_digit rest = []" "\<not> is_float_tail rest"
    using assms by (cases rest; auto simp: value_ends_def is_ascii_digit_def is_float_tail_def)+
  have number: "json_number (nat_str n @ rest) = Some (PInt (int n), rest)"
    "json_number (CHR ''-'' # nat_str n @ rest) = Some (PInt (- int n), rest)" for n
  proof -
    have t: "(if nat_str n @ rest \<noteq> [] \<and> hd (nat_str n @ rest) = CHR ''0'' then ''0'' else takeWhile is_ascii_digit (nat_str n @ rest)) = nat_str n"
      using nat_str_reads [of n] stop(1) by (auto simp: takeWhile_append2)
    have minus: "(nat_str n @ rest \<noteq> [] \<and> hd (nat_str n @ rest) = CHR ''-'') = False"
      using nat_str_reads [of n] by (cases "nat_str n") (auto simp: is_ascii_digit_def)
    have d: "drop (length (nat_str n)) (nat_str n @ rest) = rest" by simp
    have r: "(nat_str n = [] \<or> is_float_tail rest) = False" "decimal (nat_str n) = n" using nat_str_reads [of n] stop(2) by blast+
    show "json_number (nat_str n @ rest) = Some (PInt (int n), rest)"
      unfolding json_number_def Let_def minus if_False t d r by (rule refl)
    have neg: "(CHR ''-'' # nat_str n @ rest \<noteq> [] \<and> hd (CHR ''-'' # nat_str n @ rest) = CHR ''-'') = True" by simp
    show "json_number (CHR ''-'' # nat_str n @ rest) = Some (PInt (- int n), rest)"
      unfolding json_number_def Let_def neg if_True list.sel(3) t d r if_False by (rule refl)
  qed
  show ?thesis using number(1) [of "nat i"] number(2) [of "nat (- i)"] by (simp add: int_str_def)
qed

lemma skip_ws_at [simp]: "code c \<notin> {9, 10, 13, 32} \<Longrightarrow> skip_ws (c # cs) = c # cs" "skip_ws [] = []"
  by (simp_all add: skip_ws_def)

lemma sort_key_map:
  assumes "\<And>x. fst (h x) = f x"
  shows "sort_key fst (map h xs) = map h (sort_key f xs)"
proof -
  have "insort_key fst (h x) (map h ys) = map h (insort_key f x ys)" for x ys by (induction ys) (simp_all add: assms)
  then show ?thesis by (induction xs) simp_all
qed

definition opens_value :: "string \<Rightarrow> bool" where
  "opens_value s \<longleftrightarrow> s \<noteq> [] \<and> code (hd s) \<notin> {9, 10, 13, 32} \<and> hd s \<noteq> CHR '']'' \<and> hd s \<noteq> CHR ''}''"

lemma opens_value_append [simp]: "opens_value s \<Longrightarrow> opens_value (s @ t)"
  by (simp add: opens_value_def)

lemma skip_ws_opens [simp]: "opens_value s \<Longrightarrow> skip_ws s = s"
  by (cases s) (simp_all add: opens_value_def)

lemma int_str_start: "int_str i \<noteq> []" "hd (int_str i) = CHR ''-'' \<or> is_ascii_digit (hd (int_str i))"
  using nat_str_reads [of "nat i"] by (auto simp: int_str_def)

lemma dumps_opens [simp]: "opens_value (json_dumps esc v)"
proof (cases v)
  case (PInt i)
  then show ?thesis using int_str_start [of i] by (auto simp: opens_value_def is_ascii_digit_def)
qed (auto simp: opens_value_def)

lemma dict_put_new: "k \<notin> fst ` set kvs \<Longrightarrow> dict_put k v kvs = kvs @ [(k, v)]"
  by (induction kvs) auto

lemma dict_of_distinct: "distinct (map fst ps) \<Longrightarrow> dict_of_pairs ps = ps"
proof (induction ps rule: rev_induct)
  case (snoc p ps)
  then show ?case by (cases p) (auto simp: dict_of_pairs_def dict_put_new)
qed (simp add: dict_of_pairs_def)

definition reads_back :: "(char \<Rightarrow> string) \<Rightarrow> pyval \<Rightarrow> bool" where
  "reads_back esc v \<longleftrightarrow>
     (\<forall>n rest. value_ends rest \<longrightarrow> 2 * length (json_dumps esc v @ rest) < n \<longrightarrow> json_value n (json_dumps esc v @ rest) = Some (json_norm v, rest))"

lemma json_elems_read:
  assumes "xs \<noteq> []" "\<forall>x \<in> set xs. reads_back esc x" "2 * length (join '','' (map (json_dumps esc) xs) @ CHR '']'' # rest) < n - 1"
  shows "json_elems n (join '','' (map (json_dumps esc) xs) @ CHR '']'' # rest) = Some (map json_norm xs, rest)"
  using assms
proof (induction xs arbitrary: n)
  case (Cons x xs)
  then obtain m where m: "n = Suc m" by (cases n) auto
  show ?case
  proof (cases "xs = []")
    case True
    have "json_value m (json_dumps esc x @ CHR '']'' # rest) = Some (json_norm x, CHR '']'' # rest)"
      using Cons.prems True m by (auto simp: reads_back_def value_ends_def)
    then show ?thesis by (simp add: m True json_elems.simps(2) Let_def)
  next
    case False
    let ?t = "join '','' (map (json_dumps esc) xs) @ CHR '']'' # rest"
    have j: "join '','' (map (json_dumps esc) (x # xs)) @ CHR '']'' # rest = json_dumps esc x @ CHR '','' # ?t"
      using False by (simp add: join_Cons)
    have "reads_back esc x" using Cons.prems(2) by simp
    then have v: "json_value m (json_dumps esc x @ CHR '','' # ?t) = Some (json_norm x, CHR '','' # ?t)"
      using Cons.prems(3) m unfolding j reads_back_def by (simp add: value_ends_def)
    have o: "opens_value ?t" using False by (cases xs; cases "tl xs") (auto simp: join_Cons)
    have "json_elems m ?t = Some (map json_norm xs, rest)"
      using Cons.IH [of m] Cons.prems m False unfolding j by simp
    then show ?thesis unfolding j m by (simp add: json_elems.simps(2) v Let_def skip_ws_opens [OF o])
  qed
qed simp

definition member_text :: "(char \<Rightarrow> string) \<Rightarrow> string \<times> pyval \<Rightarrow> string" where
  "member_text esc = (\<lambda>(k, v). [CHR 0x22] @ concat (map esc k) @ [CHR 0x22] @ '':'' @ json_dumps esc v)"

lemma json_members_read:
  assumes "kvs \<noteq> []" "escapes esc" "\<forall>(k, v) \<in> set kvs. reads_back esc v"
    and "2 * length (join '','' (map (member_text esc) kvs) @ CHR ''}'' # rest) < n - 1"
  shows "json_members n (join '','' (map (member_text esc) kvs) @ CHR ''}'' # rest) = Some (map (\<lambda>(k, v). (k, json_norm v)) kvs, rest)"
  using assms
proof (induction kvs arbitrary: n)
  case (Cons p kvs)
  obtain k v where p: "p = (k, v)" by (cases p)
  obtain m where m: "n = Suc m" using Cons.prems(4) by (cases n) auto
  have r: "reads_back esc v" using Cons.prems(3) p by simp
  have str: "json_string (concat (map esc k) @ CHR 0x22 # u) = Some (k, u)" for u by (rule json_string_reads [OF Cons.prems(2)])
  show ?case
  proof (cases "kvs = []")
    case True
    have "json_value m (json_dumps esc v @ CHR ''}'' # rest) = Some (json_norm v, CHR ''}'' # rest)"
      using Cons.prems(4) True m p r by (auto simp: reads_back_def value_ends_def member_text_def)
    then show ?thesis by (simp add: m True p member_text_def json_members.simps(2) str Let_def)
  next
    case False
    let ?t = "join '','' (map (member_text esc) kvs) @ CHR ''}'' # rest"
    have j: "join '','' (map (member_text esc) (p # kvs)) @ CHR ''}'' # rest
        = CHR 0x22 # concat (map esc k) @ CHR 0x22 # CHR '':'' # json_dumps esc v @ CHR '','' # ?t"
      using False by (simp add: join_Cons p member_text_def)
    have v: "json_value m (json_dumps esc v @ CHR '','' # ?t) = Some (json_norm v, CHR '','' # ?t)"
      using Cons.prems(4) m r unfolding j reads_back_def by (simp add: value_ends_def)
    have o: "opens_value ?t" using False by (cases kvs; cases "tl kvs") (auto simp: join_Cons member_text_def opens_value_def)
    have "json_members m ?t = Some (map (\<lambda>(k, v). (k, json_norm v)) kvs, rest)"
      using Cons.IH [of m] Cons.prems m False unfolding j by simp
    then show ?thesis unfolding j m by (simp add: json_members.simps(2) str v Let_def skip_ws_opens [OF o] p)
  qed
qed simp

lemma dict_dumps: "json_dumps esc (PDict kvs) = ''{'' @ join '','' (map (member_text esc) (sort_key fst kvs)) @ ''}''"
proof -
  have "sort_key fst (map (\<lambda>kv. (fst kv, member_text esc kv)) kvs) = map (\<lambda>kv. (fst kv, member_text esc kv)) (sort_key fst kvs)"
    by (rule sort_key_map) simp
  then have "map snd (sort_key fst (map (\<lambda>kv. (fst kv, member_text esc kv)) kvs)) = map (member_text esc) (sort_key fst kvs)" by simp
  moreover have "(\<lambda>(k, v). (k, [CHR 0x22] @ concat (map esc k) @ [CHR 0x22] @ '':'' @ json_dumps esc v)) = (\<lambda>kv. (fst kv, member_text esc kv))"
    by (auto simp: member_text_def)
  ultimately show ?thesis by simp
qed

lemma norm_dict: "json_norm (PDict kvs) = PDict (map (\<lambda>(k, v). (k, json_norm v)) (sort_key fst kvs))"
proof -
  have "sort_key fst (map (\<lambda>kv. (fst kv, json_norm (snd kv))) kvs) = map (\<lambda>kv. (fst kv, json_norm (snd kv))) (sort_key fst kvs)"
    by (rule sort_key_map) simp
  moreover have "(\<lambda>(k :: string, v). (k, json_norm v)) = (\<lambda>kv. (fst kv, json_norm (snd kv)))" by auto
  ultimately show ?thesis by (simp only: json_norm.simps)
qed

lemma list_reads_back:
  assumes "\<forall>x \<in> set xs. reads_back esc x" "json_dumps esc v = ''['' @ join '','' (map (json_dumps esc) xs) @ '']''" "json_norm v = PList (map json_norm xs)"
  shows "reads_back esc v"
  unfolding reads_back_def
proof (intro allI impI)
  fix n rest
  assume n: "2 * length (json_dumps esc v @ rest) < n"
  then obtain m where m: "n = Suc m" by (cases n) auto
  show "json_value n (json_dumps esc v @ rest) = Some (json_norm v, rest)"
  proof (cases "xs = []")
    case True
    then show ?thesis by (simp add: assms(2,3) m json_value.simps(2) Let_def)
  next
    case False
    let ?t = "join '','' (map (json_dumps esc) xs) @ CHR '']'' # rest"
    have o: "opens_value ?t" using False by (cases xs; cases "tl xs") (auto simp: join_Cons)
    have "json_elems m ?t = Some (map json_norm xs, rest)"
      using json_elems_read [OF False assms(1), of rest m] n m by (simp add: assms(2))
    then show ?thesis using o by (simp add: assms(2,3) m json_value.simps(2) Let_def opens_value_def)
  qed
qed

lemma json_value_reads:
  assumes "escapes esc"
  shows "is_value v \<Longrightarrow> reads_back esc v"
proof (induction v)
  case (PDict kvs)
  have d: "distinct (map fst kvs)" "\<forall>(k, v) \<in> set kvs. reads_back esc v" using PDict by auto
  show ?case
    unfolding reads_back_def
  proof (intro allI impI)
    fix n rest
    assume n: "2 * length (json_dumps esc (PDict kvs) @ rest) < n"
    then obtain m where m: "n = Suc m" by (cases n) auto
    show "json_value n (json_dumps esc (PDict kvs) @ rest) = Some (json_norm (PDict kvs), rest)"
    proof (cases "kvs = []")
      case True
      then show ?thesis by (simp add: m json_value.simps(2) Let_def)
    next
      case False
      let ?s = "sort_key fst kvs"
      let ?t = "join '','' (map (member_text esc) ?s) @ CHR ''}'' # rest"
      have s: "?s \<noteq> []" using False by (metis length_0_conv length_sort)
      have o: "opens_value ?t" using s by (cases ?s; cases "tl ?s") (auto simp: join_Cons member_text_def opens_value_def)
      have "json_members m ?t = Some (map (\<lambda>(k, v). (k, json_norm v)) ?s, rest)"
        using json_members_read [OF s assms, of rest m] d(2) n m by (simp add: dict_dumps del: json_dumps.simps)
      then show ?thesis
        using o by (simp add: dict_dumps norm_dict m json_value.simps(2) Let_def opens_value_def del: json_dumps.simps json_norm.simps)
    qed
  qed
next
  case (PInt i)
  have "hd (int_str i @ rest) \<notin> {CHR 0x22, CHR ''['', CHR ''{'', CHR ''n'', CHR ''t'', CHR ''f''}" for rest
    using int_str_start [of i] by (auto simp: is_ascii_digit_def)
  then have "json_value (Suc m) (int_str i @ rest) = json_number (int_str i @ rest)" for m rest
    using int_str_start [of i] by (cases "int_str i") (auto simp: json_value.simps(2) starts_with_def)
  then show ?case unfolding reads_back_def by (auto simp: json_number_reads elim: less_natE)
next
  case (PStr s)
  show ?case unfolding reads_back_def by (auto simp: json_value.simps(2) json_string_reads [OF assms] elim: less_natE)
next
  case (PList xs)
  then show ?case by (intro list_reads_back [of xs]) auto
next
  case (PTuple xs)
  then show ?case by (intro list_reads_back [of xs]) auto
next
  case (PBool b)
  show ?case unfolding reads_back_def
  proof (intro allI impI)
    fix n rest assume "2 * length (json_dumps esc (PBool b) @ rest) < n"
    then show "json_value n (json_dumps esc (PBool b) @ rest) = Some (json_norm (PBool b), rest)"
      by (cases n) (auto simp: json_value.simps(2) starts_with_def)
  qed
next
  case PNone
  show ?case unfolding reads_back_def
  proof (intro allI impI)
    fix n rest assume "2 * length (json_dumps esc PNone @ rest) < n"
    then show "json_value n (json_dumps esc PNone @ rest) = Some (json_norm PNone, rest)"
      by (cases n) (auto simp: json_value.simps(2) starts_with_def)
  qed
qed

lemma json_norm_value: "is_value v \<Longrightarrow> is_value (json_norm v)"
proof (induction v)
  case (PDict kvs)
  have k: "map fst (map (\<lambda>(k, v). (k, json_norm v)) (sort_key fst kvs)) = map fst (sort_key fst kvs)"
    by (simp add: comp_def case_prod_beta)
  have "distinct (map fst (sort_key fst kvs))" using PDict.prems by (simp add: distinct_map)
  moreover have "is_value w" if "(k, w) \<in> set (map (\<lambda>(k, v). (k, json_norm v)) (sort_key fst kvs))" for k w
    using that PDict by auto
  ultimately show ?case unfolding norm_dict is_value.simps k by blast
qed simp_all

lemma json_dicts_value: "is_value v \<Longrightarrow> json_dicts v = v"
proof (induction v)
  case (PDict kvs)
  have "map (\<lambda>(k, v). (k, json_dicts v)) kvs = kvs" using PDict by (intro map_idI) auto
  then show ?case using PDict.prems by (simp add: dict_of_distinct)
next
  case (PList xs)
  then show ?case by (simp add: map_idI)
qed simp_all

theorem pairs_dumps:
  assumes "escapes esc" "is_value v"
  shows "json_pairs (json_dumps esc v) = Some (json_norm v)"
proof -
  have "json_value (2 * length (json_dumps esc v) + 2) (json_dumps esc v @ []) = Some (json_norm v, [])"
    using json_value_reads [OF assms] unfolding reads_back_def by (simp add: value_ends_def)
  then show ?thesis by (simp add: json_pairs_def)
qed

theorem loads_dumps:
  assumes "escapes esc" "is_value v"
  shows "json_loads (json_dumps esc v) = Some (json_norm v)"
  using pairs_dumps [OF assms] json_dicts_value [OF json_norm_value [OF assms(2)]] by (simp add: json_loads_def)

end
