(* ===== verification/Py_Equality.thy ===== *)
theory Py_Equality
  imports Wire_Text
begin

text \<open>
  Equality of decoded values, the \<open>==\<close> of Python: \<open>True\<close> is 1, and a dict has no order.
\<close>

section \<open>Definition\<close>

type_synonym dict = "(string \<times> pyval) list"

text \<open>\<open>==\<close> of decoded values: \<open>True\<close> is 1, and a dict has no order.\<close>

fun py_number :: "pyval \<Rightarrow> int option" where
  "py_number (PInt i) = Some i"
| "py_number (PBool b) = Some (if b then 1 else 0)"
| "py_number _ = None"

lemma size_in_list: "x \<in> set xs \<Longrightarrow> size x < Suc (size_list size xs)"
  by (induction xs) auto

lemma size_in_dict: "(k, v) \<in> set kvs \<Longrightarrow> size v < Suc (size_list (size_prod (\<lambda>x. 0) size) kvs)"
  by (induction kvs) auto

lemma size_in_zip: "(x, y) \<in> set (zip xs ys) \<Longrightarrow> size x < Suc (size_list size xs)"
  by (rule size_in_list) (rule set_zip_leftD)

function (sequential) py_equal :: "pyval \<Rightarrow> pyval \<Rightarrow> bool" where
  "py_equal PNone w = (w = PNone)"
| "py_equal (PBool b) w = (py_number w = Some (if b then 1 else 0))"
| "py_equal (PInt i) w = (py_number w = Some i)"
| "py_equal (PStr s) w = (w = PStr s)"
| "py_equal (PList xs) w = (case w of PList ys \<Rightarrow> length xs = length ys \<and> (\<forall>(x, y) \<in> set (zip xs ys). py_equal x y) | _ \<Rightarrow> False)"
| "py_equal (PTuple xs) w = (case w of PTuple ys \<Rightarrow> length xs = length ys \<and> (\<forall>(x, y) \<in> set (zip xs ys). py_equal x y) | _ \<Rightarrow> False)"
| "py_equal (PDict kvs) w =
     (case w of
        PDict lws \<Rightarrow> length kvs = length lws \<and> (\<forall>(k, v) \<in> set kvs. case map_of lws k of None \<Rightarrow> False | Some u \<Rightarrow> py_equal v u)
      | _ \<Rightarrow> False)"
  by pat_completeness auto
termination
  by (relation "measure (size \<circ> fst)") (auto intro: size_in_zip size_in_dict)

section \<open>Facts\<close>

lemma py_equal_refl: "is_value v \<Longrightarrow> py_equal v v"
proof (induction v)
  case (PList xs)
  then show ?case by (auto simp: set_zip)
next
  case (PTuple xs)
  then show ?case by (auto simp: set_zip)
next
  case (PDict kvs)
  have d: "distinct (map fst kvs)" using PDict.prems by simp
  have "map_of kvs k = Some v \<and> py_equal v v" if "(k, v) \<in> set kvs" for k v
    using PDict that map_of_is_SomeI [OF d that] by fastforce
  then show ?case by auto
qed simp_all

declare py_equal.simps [simp del]

lemma py_equal_str [simp]: "py_equal (PStr s) w \<longleftrightarrow> w = PStr s" "py_equal v (PStr s) \<longleftrightarrow> v = PStr s"
  by (simp add: py_equal.simps) (cases v; auto simp: py_equal.simps split: pyval.splits)

lemma py_equal_none [simp]: "py_equal PNone w \<longleftrightarrow> w = PNone" "py_equal v PNone \<longleftrightarrow> v = PNone"
  by (simp add: py_equal.simps) (cases v; auto simp: py_equal.simps split: pyval.splits)

lemma py_equal_dict:
  "py_equal (PDict kvs) (PDict lws) \<longleftrightarrow>
     length kvs = length lws \<and> (\<forall>(k, v) \<in> set kvs. \<exists>u. map_of lws k = Some u \<and> py_equal v u)"
  by (auto simp: py_equal.simps split: option.splits)

lemma py_equal_entry:
  assumes "py_equal (PDict kvs) (PDict lws)" "map_of kvs k = Some v"
  shows "\<exists>u. map_of lws k = Some u \<and> py_equal v u"
  using assms(1) map_of_SomeD [OF assms(2)] unfolding py_equal_dict by auto

lemma py_equal_list:
  "py_equal (PList xs) (PList ys) \<longleftrightarrow> length xs = length ys \<and> (\<forall>i < length xs. py_equal (xs ! i) (ys ! i))"
  "py_equal (PTuple xs) (PTuple ys) \<longleftrightarrow> length xs = length ys \<and> (\<forall>i < length xs. py_equal (xs ! i) (ys ! i))"
proof -
  have z: "(\<forall>(x, y) \<in> set (zip xs ys). py_equal x y) \<longleftrightarrow> (\<forall>i < length xs. py_equal (xs ! i) (ys ! i))" if "length xs = length ys"
    using that by (simp add: all_set_conv_all_nth)
  show "py_equal (PList xs) (PList ys) \<longleftrightarrow> length xs = length ys \<and> (\<forall>i < length xs. py_equal (xs ! i) (ys ! i))"
    "py_equal (PTuple xs) (PTuple ys) \<longleftrightarrow> length xs = length ys \<and> (\<forall>i < length xs. py_equal (xs ! i) (ys ! i))"
    unfolding py_equal.simps pyval.case by (rule conj_cong [OF refl], erule z)+
qed

text \<open>Two equal dicts have the same keys.\<close>

lemma py_equal_keys:
  assumes "py_equal (PDict kvs) (PDict lws)" "distinct (map fst kvs)" "distinct (map fst lws)"
  shows "fst ` set kvs = fst ` set lws"
proof (rule card_subset_eq)
  show "finite (fst ` set lws)" by simp
  show "fst ` set kvs \<subseteq> fst ` set lws"
  proof
    fix k assume "k \<in> fst ` set kvs"
    then obtain v where "(k, v) \<in> set kvs" by auto
    then obtain u where "map_of lws k = Some u" using assms(1) unfolding py_equal_dict by auto
    from imageI [OF map_of_SomeD [OF this], of fst] show "k \<in> fst ` set lws" by simp
  qed
  have "card (fst ` set kvs) = length kvs" "card (fst ` set lws) = length lws"
    using distinct_card [OF assms(2)] distinct_card [OF assms(3)] by simp_all
  then show "card (fst ` set kvs) = card (fst ` set lws)" using assms(1) unfolding py_equal_dict by simp
qed

lemma py_equal_number: "py_number v = Some i \<Longrightarrow> py_equal v w \<longleftrightarrow> py_number w = Some i"
  by (cases v) (auto simp: py_equal.simps)

lemma py_equal_sym: "is_value v \<Longrightarrow> is_value w \<Longrightarrow> py_equal v w \<Longrightarrow> py_equal w v"
proof (induction v arbitrary: w)
  case (PList xs)
  then obtain ys where w: "w = PList ys" by (cases w) (auto simp: py_equal.simps)
  have l: "length xs = length ys" "\<And>i. i < length xs \<Longrightarrow> py_equal (xs ! i) (ys ! i)"
    using PList.prems(3) by (simp_all add: w py_equal_list)
  moreover have "is_value (xs ! i)" "is_value (ys ! i)" if "i < length xs" for i using PList.prems(1,2) that l by (auto simp: w)
  ultimately have "py_equal (ys ! i) (xs ! i)" if "i < length xs" for i using PList.IH that by simp
  then show ?case using l by (simp add: w py_equal_list)
next
  case (PTuple xs)
  then obtain ys where w: "w = PTuple ys" by (cases w) (auto simp: py_equal.simps)
  have l: "length xs = length ys" "\<And>i. i < length xs \<Longrightarrow> py_equal (xs ! i) (ys ! i)"
    using PTuple.prems(3) by (simp_all add: w py_equal_list)
  moreover have "is_value (xs ! i)" "is_value (ys ! i)" if "i < length xs" for i using PTuple.prems(1,2) that l by (auto simp: w)
  ultimately have "py_equal (ys ! i) (xs ! i)" if "i < length xs" for i using PTuple.IH that by simp
  then show ?case using l by (simp add: w py_equal_list)
next
  case (PDict kvs)
  then obtain lws where w: "w = PDict lws" by (cases w) (auto simp: py_equal.simps)
  have d: "distinct (map fst kvs)" "distinct (map fst lws)" using PDict.prems(1,2) by (simp_all add: w)
  have eq: "py_equal (PDict kvs) (PDict lws)" using PDict.prems(3) by (simp add: w)
  have "\<exists>u. map_of kvs k = Some u \<and> py_equal v u" if v: "(k, v) \<in> set lws" for k v
  proof -
    have "k \<in> fst ` set kvs" unfolding py_equal_keys [OF eq d] using v by force
    then obtain u where u: "(k, u) \<in> set kvs" by auto
    then obtain v' where "map_of lws k = Some v'" "py_equal u v'" using eq unfolding py_equal_dict by auto
    moreover have "map_of lws k = Some v" using v d(2) by simp
    ultimately have "py_equal u v" by simp
    moreover have "is_value u" "is_value v" using PDict.prems(1,2) u v by (auto simp: w)
    ultimately have "py_equal v u" using PDict.IH [of "(k, u)" u v] u by simp
    then show ?thesis using u d(1) by auto
  qed
  then show ?case using eq unfolding w py_equal_dict by auto
qed (auto simp: py_equal.simps py_equal_number)

lemma py_equal_trans: "py_equal u v \<Longrightarrow> py_equal v w \<Longrightarrow> py_equal u w"
proof (induction u arbitrary: v w)
  case (PList xs)
  then obtain ys where v: "v = PList ys" by (cases v) (auto simp: py_equal.simps)
  then obtain zs where w: "w = PList zs" using PList.prems(2) by (cases w) (auto simp: py_equal.simps)
  have "py_equal (xs ! i) (zs ! i)" if i: "i < length xs" for i
    using PList.IH [OF nth_mem [OF i], of "ys ! i" "zs ! i"] PList.prems i unfolding v w py_equal_list by simp
  then show ?case using PList.prems unfolding v w py_equal_list by simp
next
  case (PTuple xs)
  then obtain ys where v: "v = PTuple ys" by (cases v) (auto simp: py_equal.simps)
  then obtain zs where w: "w = PTuple zs" using PTuple.prems(2) by (cases w) (auto simp: py_equal.simps)
  have "py_equal (xs ! i) (zs ! i)" if i: "i < length xs" for i
    using PTuple.IH [OF nth_mem [OF i], of "ys ! i" "zs ! i"] PTuple.prems i unfolding v w py_equal_list by simp
  then show ?case using PTuple.prems unfolding v w py_equal_list by simp
next
  case (PDict kvs)
  then obtain lws where v: "v = PDict lws" by (cases v) (auto simp: py_equal.simps)
  then obtain mxs where w: "w = PDict mxs" using PDict.prems(2) by (cases w) (auto simp: py_equal.simps)
  have "\<exists>z. map_of mxs k = Some z \<and> py_equal x z" if x: "(k, x) \<in> set kvs" for k x
  proof -
    obtain y where y: "map_of lws k = Some y" "py_equal x y" using PDict.prems(1) x unfolding v py_equal_dict by auto
    obtain z where "map_of mxs k = Some z" "py_equal y z" using py_equal_entry [OF PDict.prems(2) [unfolded v w] y(1)] by auto
    then show ?thesis using PDict.IH [of "(k, x)" x y z] x y(2) by auto
  qed
  then show ?case using PDict.prems unfolding v w py_equal_dict by auto
qed (auto simp: py_equal.simps py_equal_number)

end
