(* ===== verification/Marker_Scan.thy ===== *)
theory Marker_Scan
  imports Text_Ops
begin

text \<open>
  The search for hidden markers in comments, \<open><!-- TOKEN: payload -->\<close>: the regular expressions of
  \<open>round_transport.py\<close> and of the marker registry (\<open>protocol_markers.py\<close>), which differ in the token and in whether a payload
  may hold a colon.  \<open>match_marker_iff\<close> relates the matcher to the expression read as a grammar.
\<close>

section \<open>The matcher\<close>

text \<open>The characters of a payload, with a colon in round metadata only.\<close>

definition payload_char :: "bool \<Rightarrow> char \<Rightarrow> bool" where
  "payload_char colon c \<longleftrightarrow>
     (let n = code c in 65 \<le> n \<and> n \<le> 90 \<or> 97 \<le> n \<and> n \<le> 122 \<or> 48 \<le> n \<and> n \<le> 57
        \<or> c \<in> {CHR ''+'', CHR ''/'', CHR ''='', CHR ''_'', CHR ''-''} \<or> colon \<and> c = CHR '':'')"

text \<open>
  A match at the start of a text: what precedes the payload, the payload, and what follows it.  The payload is
  greedy; it gives back two characters only when the comment is closed right behind it.
\<close>

definition match_marker :: "string \<Rightarrow> bool \<Rightarrow> string \<Rightarrow> (string \<times> string \<times> string) option" where
  "match_marker token colon s =
     (if \<not> starts_with ''<!--'' s then None
      else let s1 = drop 4 s; w1 = takeWhile is_space s1; s2 = dropWhile is_space s1; n = length token + 1 in
        if py_lower (take n s2) \<noteq> py_lower (token @ '':'') then None
        else let s3 = drop n s2; w2 = takeWhile is_space s3; s4 = dropWhile is_space s3;
                 run = takeWhile (payload_char colon) s4; rest = dropWhile (payload_char colon) s4;
                 front = ''<!--'' @ w1 @ take n s2 @ w2 in
          if run \<noteq> [] \<and> starts_with ''-->'' (dropWhile is_space rest) then Some (front, run, rest)
          else if length run > 2 \<and> ends_with ''--'' run \<and> starts_with ''>'' rest
            then Some (front, take (length run - 2) run, ''--'' @ rest)
          else None)"

text \<open>
  \<open>finditer\<close>: the text in front of the payload, the payload and the text behind it, for every match.  Matches do not overlap, because
  a match has its only \<open><\<close> at its start.
\<close>

fun find_markers :: "string \<Rightarrow> bool \<Rightarrow> string \<Rightarrow> string \<Rightarrow> (string \<times> string \<times> string) list" where
  "find_markers token colon ahead [] = []"
| "find_markers token colon ahead (c # cs) =
     (case match_marker token colon (c # cs) of
        None \<Rightarrow> []
      | Some (front, payload, rest) \<Rightarrow> [(ahead @ front, payload, rest)])
     @ find_markers token colon (ahead @ [c]) cs"

definition markers :: "string \<Rightarrow> bool \<Rightarrow> string \<Rightarrow> (string \<times> string \<times> string) list" where
  "markers token colon s = find_markers token colon [] s"

text \<open>The text of a whole match: from its \<open><\<close> to the end of the closing \<open>-->\<close>.\<close>

definition whole_match :: "string \<times> string \<times> string \<Rightarrow> string" where
  "whole_match m =
     (let front = rev (takeWhile (\<lambda>c. c \<noteq> CHR ''<'') (rev (fst m))); rest = snd (snd m) in
      CHR ''<'' # front @ fst (snd m) @ takeWhile is_space rest @ ''-->'')"


section \<open>The matcher and the expression\<close>

definition spaces :: "string \<Rightarrow> bool" where
  "spaces w \<longleftrightarrow> (\<forall>c \<in> set w. is_space c)"

definition plain_token :: "string \<Rightarrow> bool" where
  "plain_token token \<longleftrightarrow> token \<noteq> [] \<and> (\<forall>c \<in> set token. \<not> is_space c \<and> c \<noteq> CHR ''<'')"

lemma is_space_lower: "is_space (lower_char c) = is_space c"
  by (auto simp: lower_char_def is_space_def)

lemma lower_lt: "lower_char c = CHR ''<'' \<longleftrightarrow> c = CHR ''<''"
proof -
  have "code (lower_char c) = 60 \<longleftrightarrow> code c = 60" by (auto simp: lower_char_def)
  moreover have "code c = 60 \<longleftrightarrow> c = CHR ''<''" for c using of_char_eq_iff [where ?'a = nat, of c "CHR ''<''"] by simp
  ultimately show ?thesis by blast
qed

lemma payload_code: "payload_char colon c \<Longrightarrow> 43 \<le> code c \<and> code c \<le> 122"
  by (auto simp: payload_char_def Let_def)

lemma payload_not_space: "payload_char colon c \<Longrightarrow> \<not> is_space c"
  using payload_code [of colon c] by (auto simp: is_space_def)

lemma payload_special [simp]: "payload_char colon CHR ''-''" "\<not> payload_char colon CHR ''>''" "\<not> payload_char colon CHR ''<''"
  by (simp_all add: payload_char_def)

lemma span_spaces:
  assumes "spaces w" "s = [] \<or> \<not> is_space (hd s)"
  shows "takeWhile is_space (w @ s) = w" "dropWhile is_space (w @ s) = s"
proof -
  have w: "\<And>c. c \<in> set w \<Longrightarrow> is_space c" using assms(1) by (simp add: spaces_def)
  have s: "takeWhile is_space s = []" "dropWhile is_space s = s" using assms(2) by (cases s; simp)+
  show "takeWhile is_space (w @ s) = w" "dropWhile is_space (w @ s) = s"
    using takeWhile_append2 [of w is_space s] dropWhile_append2 [of w is_space s] w s by simp_all
qed

lemma take_while_spaces [simp]: "spaces (takeWhile is_space s)"
  unfolding spaces_def by (meson set_takeWhileD)

lemma token_start:
  assumes "plain_token token" "py_lower tk = py_lower (token @ '':'')"
  shows "tk \<noteq> []" "\<not> is_space (hd tk)" "length tk = length token + 1" "CHR ''<'' \<notin> set tk"
proof -
  have l: "map lower_char tk = map lower_char (token @ '':'')" using assms(2) by (simp add: py_lower_def)
  then show len: "length tk = length token + 1" using map_eq_imp_length_eq [OF l] by simp
  then show ne: "tk \<noteq> []" by auto
  have t: "token \<noteq> []" "\<not> is_space (hd token)" using assms(1) by (auto simp: plain_token_def)
  have "lower_char (hd tk) = lower_char (hd token)" using l ne t(1) by (cases tk; cases token) auto
  then show "\<not> is_space (hd tk)" using t(2) is_space_lower by metis
  have no: "lower_char d \<noteq> CHR ''<''" if "d \<in> set (token @ '':'')" for d
    using that assms(1) unfolding lower_lt plain_token_def by auto
  show "CHR ''<'' \<notin> set tk"
  proof
    assume "CHR ''<'' \<in> set tk"
    then have "lower_char (CHR ''<'') \<in> set (map lower_char (token @ '':''))" unfolding l [symmetric] by simp
    moreover have "lower_char (CHR ''<'') = CHR ''<''" by (simp only: lower_lt)
    ultimately show False using no by (metis (no_types, lifting) imageE list.set_map)
  qed
qed

text \<open>The expression as a grammar: \<open><!--\s*TOKEN:\s*(payload+)\s*-->\<close>.\<close>

definition marker_front :: "string \<Rightarrow> string \<Rightarrow> bool" where
  "marker_front token front \<longleftrightarrow>
     (\<exists>w1 tk w2. front = ''<!--'' @ w1 @ tk @ w2 \<and> spaces w1 \<and> spaces w2 \<and> py_lower tk = py_lower (token @ '':''))"

definition marker_close :: "string \<Rightarrow> bool" where
  "marker_close z \<longleftrightarrow> (\<exists>w y. z = w @ ''-->'' @ y \<and> spaces w)"

definition is_payload :: "bool \<Rightarrow> string \<Rightarrow> bool" where
  "is_payload colon p \<longleftrightarrow> p \<noteq> [] \<and> (\<forall>c \<in> set p. payload_char colon c)"

lemma match_front:
  assumes "plain_token token" "marker_front token front" "s4 = [] \<or> \<not> is_space (hd s4)"
  shows "match_marker token colon (front @ s4) =
    (let run = takeWhile (payload_char colon) s4; rest = dropWhile (payload_char colon) s4 in
     if run \<noteq> [] \<and> starts_with ''-->'' (dropWhile is_space rest) then Some (front, run, rest)
     else if length run > 2 \<and> ends_with ''--'' run \<and> starts_with ''>'' rest
       then Some (front, take (length run - 2) run, ''--'' @ rest)
     else None)"
proof -
  obtain w1 tk w2 where f: "front = ''<!--'' @ w1 @ tk @ w2" "spaces w1" "spaces w2" "py_lower tk = py_lower (token @ '':'')"
    using assms(2) by (auto simp: marker_front_def)
  note tk = token_start [OF assms(1) f(4)]
  have e: "front @ s4 = ''<!--'' @ w1 @ tk @ w2 @ s4" by (simp add: f(1))
  have h: "tk @ w2 @ s4 = [] \<or> \<not> is_space (hd (tk @ w2 @ s4))" using tk(1,2) by simp
  have st: "starts_with ''<!--'' (''<!--'' @ w1 @ tk @ w2 @ s4)" "drop 4 (''<!--'' @ w1 @ tk @ w2 @ s4) = w1 @ tk @ w2 @ s4"
    by (simp_all add: starts_with_def)
  have t: "take (length token + 1) (tk @ w2 @ s4) = tk" "drop (length token + 1) (tk @ w2 @ s4) = w2 @ s4" using tk(3) by simp_all
  show ?thesis
    unfolding e match_marker_def Let_def st span_spaces [OF f(2) h] t span_spaces [OF f(3) assms(3)]
    by (simp only: st(1) f(4) f(1) simp_thms if_False)
qed

lemma match_marker_front:
  assumes "plain_token token" "match_marker token colon s = Some m"
  shows "\<exists>front s4. marker_front token front \<and> s = front @ s4 \<and> (s4 = [] \<or> \<not> is_space (hd s4))"
proof -
  define s1 s2 n where "s1 = drop 4 s" and "s2 = dropWhile is_space s1" and "n = length token + 1"
  have a: "starts_with ''<!--'' s" using assms(2) by (auto simp: match_marker_def split: if_splits)
  have b: "py_lower (take n s2) = py_lower (token @ '':'')"
  proof (rule ccontr)
    assume "py_lower (take n s2) \<noteq> py_lower (token @ '':'')"
    then have "match_marker token colon s = None" by (simp only: match_marker_def Let_def a s1_def s2_def n_def simp_thms if_False if_True)
    then show False using assms(2) by simp
  qed
  let ?f = "''<!--'' @ takeWhile is_space s1 @ take n s2 @ takeWhile is_space (drop n s2)"
  have "s = ''<!--'' @ s1" using a by (auto simp: starts_with_iff s1_def)
  also have "s1 = takeWhile is_space s1 @ take n s2 @ takeWhile is_space (drop n s2) @ dropWhile is_space (drop n s2)"
    by (simp add: s2_def)
  finally have "s = ?f @ dropWhile is_space (drop n s2)" by simp
  moreover have "marker_front token ?f" unfolding marker_front_def
    by (intro exI conjI) (rule refl, rule take_while_spaces, rule take_while_spaces, rule b)
  moreover have "dropWhile is_space (drop n s2) = [] \<or> \<not> is_space (hd (dropWhile is_space (drop n s2)))"
    using hd_dropWhile [of is_space "drop n s2"] by blast
  ultimately show ?thesis by blast
qed

theorem match_marker_iff:
  assumes "plain_token token"
  shows "match_marker token colon s = Some (front, p, z)
    \<longleftrightarrow> s = front @ p @ z \<and> marker_front token front \<and> is_payload colon p \<and> marker_close z"
proof
  assume m: "match_marker token colon s = Some (front, p, z)"
  obtain f s4 where f: "marker_front token f" "s = f @ s4" "s4 = [] \<or> \<not> is_space (hd s4)"
    using match_marker_front [OF assms m] by blast
  let ?run = "takeWhile (payload_char colon) s4" and ?rest = "dropWhile (payload_char colon) s4"
  have chars: "\<forall>c \<in> set ?run. payload_char colon c" by (meson set_takeWhileD)
  have "?run \<noteq> [] \<and> starts_with ''-->'' (dropWhile is_space ?rest) \<and> (front, p, z) = (f, ?run, ?rest)
      \<or> length ?run > 2 \<and> ends_with ''--'' ?run \<and> starts_with ''>'' ?rest \<and> (front, p, z) = (f, take (length ?run - 2) ?run, ''--'' @ ?rest)"
    using m unfolding f(2) match_front [OF assms f(1,3)] Let_def by (auto split: if_splits)
  then show "s = front @ p @ z \<and> marker_front token front \<and> is_payload colon p \<and> marker_close z"
  proof (elim disjE conjE)
    assume a: "?run \<noteq> []" "starts_with ''-->'' (dropWhile is_space ?rest)" "(front, p, z) = (f, ?run, ?rest)"
    then obtain y where y: "dropWhile is_space ?rest = ''-->'' @ y" by (auto simp: starts_with_iff)
    have "z = takeWhile is_space ?rest @ ''-->'' @ y" using a(3) y [symmetric] by simp
    then have "marker_close z" unfolding marker_close_def using take_while_spaces by blast
    then show ?thesis using a f chars by (simp add: is_payload_def)
  next
    assume a: "length ?run > 2" "ends_with ''--'' ?run" "starts_with ''>'' ?rest" "(front, p, z) = (f, take (length ?run - 2) ?run, ''--'' @ ?rest)"
    obtain y where y: "?rest = ''>'' @ y" using a(3) by (auto simp: starts_with_iff)
    obtain q where q: "?run = q @ ''--''" using a(2) by (auto simp: ends_with_iff)
    have "z = [] @ ''-->'' @ y" using a(4) y by simp
    then have "marker_close z" unfolding marker_close_def spaces_def by (metis empty_iff empty_set)
    moreover have "p = q" "z = ''--'' @ ?rest" using a(4) q by auto
    moreover have "q \<noteq> []" using a(1) q by auto
    ultimately show ?thesis using f chars a(4) q by (simp add: is_payload_def) (metis append.assoc append_Cons append_Nil takeWhile_dropWhile_id)
  qed
next
  assume "s = front @ p @ z \<and> marker_front token front \<and> is_payload colon p \<and> marker_close z"
  then obtain w y where s: "s = front @ p @ z" "marker_front token front" "is_payload colon p" and z: "z = w @ ''-->'' @ y" "spaces w"
    by (auto simp: marker_close_def)
  have p: "p \<noteq> []" "\<forall>c \<in> set p. payload_char colon c" using s(3) by (auto simp: is_payload_def)
  have h: "p @ z = [] \<or> \<not> is_space (hd (p @ z))" using p payload_not_space by (cases p) auto
  show "match_marker token colon s = Some (front, p, z)"
  proof (cases w)
    case Nil
    have "takeWhile (payload_char colon) (p @ z) = p @ ''--''" "dropWhile (payload_char colon) (p @ z) = CHR ''>'' # y"
      using p(2) z Nil by (simp_all add: takeWhile_append2 dropWhile_append2)
    then show ?thesis
      unfolding s(1) match_front [OF assms s(2) h] Let_def using p(1) z Nil
      by (simp add: starts_with_def ends_with_iff is_space_def)
  next
    case (Cons c w')
    have c: "is_space c" using z(2) Cons by (simp add: spaces_def)
    have "takeWhile (payload_char colon) (p @ z) = p" "dropWhile (payload_char colon) (p @ z) = z"
      using p(2) z(1) Cons c payload_not_space [of colon c] by (auto simp: takeWhile_append2 dropWhile_append2)
    moreover have "dropWhile is_space z = ''-->'' @ y" using span_spaces(2) [OF z(2), of "''-->'' @ y"] by (simp add: z(1) is_space_def)
    ultimately show ?thesis
      unfolding s(1) match_front [OF assms s(2) h] Let_def using p(1) by (simp add: starts_with_def)
  qed
qed

section \<open>Where markers are found\<close>

lemma front_shape:
  assumes "plain_token token" "marker_front token front"
  shows "\<exists>g. front = CHR ''<'' # g \<and> CHR ''<'' \<notin> set g"
proof -
  obtain w1 tk w2 where f: "front = ''<!--'' @ w1 @ tk @ w2" "spaces w1" "spaces w2" "py_lower tk = py_lower (token @ '':'')"
    using assms(2) by (auto simp: marker_front_def)
  have "CHR ''<'' \<notin> set w" if "spaces w" for w using that by (auto simp: spaces_def is_space_def)
  then show ?thesis using f(1-3) token_start(4) [OF assms(1) f(4)] by simp
qed

text \<open>The text that a match takes holds its only \<open><\<close> in front.\<close>

lemma match_text:
  assumes "plain_token token" "match_marker token colon s = Some (front, p, z)"
  shows "\<exists>m y. s = m @ y \<and> m \<noteq> [] \<and> hd m = CHR ''<'' \<and> CHR ''<'' \<notin> set (tl m)
    \<and> (\<forall>y'. \<exists>z'. match_marker token colon (m @ y') = Some (front, p, z'))"
proof -
  have m: "s = front @ p @ z" "marker_front token front" "is_payload colon p" "marker_close z"
    using assms(2) unfolding match_marker_iff [OF assms(1)] by auto
  obtain w y where z: "z = w @ ''-->'' @ y" "spaces w" using m(4) by (auto simp: marker_close_def)
  obtain g where g: "front = CHR ''<'' # g" "CHR ''<'' \<notin> set g" using front_shape [OF assms(1) m(2)] by blast
  have no: "CHR ''<'' \<notin> set p" "CHR ''<'' \<notin> set w"
    using m(3) z(2) by (auto simp: is_payload_def spaces_def is_space_def)
  have "match_marker token colon ((front @ p @ w @ ''-->'') @ y') = Some (front, p, w @ ''-->'' @ y')" for y'
    unfolding match_marker_iff [OF assms(1)] using m(2,3) z(2) by (auto simp: marker_close_def)
  then show ?thesis
    using g no m(1) z(1) by (intro exI [of _ "front @ p @ w @ ''-->''"] exI [of _ y]) auto
qed

lemma match_starts: "match_marker token colon (c # cs) = Some m \<Longrightarrow> c = CHR ''<''"
  by (auto simp: match_marker_def starts_with_def split: if_splits)

lemma match_ignores_later:
  assumes "plain_token token" "a \<noteq> []" "match_marker token colon (a @ CHR ''<'' # u) = None"
  shows "match_marker token colon (a @ CHR ''<'' # v) = None"
proof (rule ccontr)
  assume "match_marker token colon (a @ CHR ''<'' # v) \<noteq> None"
  then obtain front p z where s: "match_marker token colon (a @ CHR ''<'' # v) = Some (front, p, z)" by auto
  obtain m y where M: "a @ CHR ''<'' # v = m @ y \<and> m \<noteq> [] \<and> hd m = CHR ''<'' \<and> CHR ''<'' \<notin> set (tl m)
      \<and> (\<forall>y'. \<exists>z'. match_marker token colon (m @ y') = Some (front, p, z'))"
    using match_text [OF assms(1) s] by (elim exE) (rule that)
  note m = conjunct1 [OF M] M [THEN conjunct2, THEN conjunct1] M [THEN conjunct2, THEN conjunct2, THEN conjunct2, THEN conjunct1]
    M [THEN conjunct2, THEN conjunct2, THEN conjunct2, THEN conjunct2]
  have "\<exists>us. a = m @ us"
  proof (cases "length m \<le> length a")
    case True
    have "take (length m) (a @ CHR ''<'' # v) = take (length m) (m @ y)" using m(1) by simp
    then have "take (length m) a = m" using True by simp
    then show ?thesis by (intro exI [of _ "drop (length m) a"]) (metis append_take_drop_id)
  next
    case False
    have "take (length m) (a @ CHR ''<'' # v) = take (length m) (m @ y)" using m(1) by simp
    then have "m = a @ take (length m - length a) (CHR ''<'' # v)" using False by simp
    then have "CHR ''<'' \<in> set (tl m)" using False assms(2) by (cases a; cases "length m - length a") auto
    then show ?thesis using m(3) by blast
  qed
  then obtain vs where "a = m @ vs" by blast
  then show False using m(4) [rule_format, of "vs @ CHR ''<'' # u"] assms(3) by auto
qed

definition unmarked :: "string \<Rightarrow> bool \<Rightarrow> string \<Rightarrow> bool" where
  "unmarked token colon s \<longleftrightarrow> (\<forall>i < length s. match_marker token colon (drop i s) = None)"

lemma unmarked_Cons: "unmarked token colon (c # cs) \<longleftrightarrow> match_marker token colon (c # cs) = None \<and> unmarked token colon cs"
  by (auto simp: unmarked_def less_Suc_eq_0_disj)

lemma find_markers_none: "find_markers token colon h s = [] \<longleftrightarrow> unmarked token colon s"
  by (induction s arbitrary: h) (auto simp: unmarked_Cons unmarked_def [of _ _ "[]"] split: option.splits)

lemma unmarked_plain: "CHR ''<'' \<notin> set s \<Longrightarrow> unmarked token colon s"
proof (induction s)
  case (Cons c cs)
  then show ?case using match_starts [of token colon c cs] by (cases "match_marker token colon (c # cs)") (auto simp: unmarked_Cons)
qed (simp add: unmarked_def)

lemma unmarked_append: "CHR ''<'' \<notin> set a \<Longrightarrow> unmarked token colon (a @ s) = unmarked token colon s"
proof (induction a)
  case (Cons c cs)
  then show ?case using match_starts [of token colon c "cs @ s"]
    by (cases "match_marker token colon (c # cs @ s)") (auto simp: unmarked_Cons)
qed simp

lemma find_markers_skip:
  "\<forall>i < length x. match_marker token colon (drop i (x @ s)) = None \<Longrightarrow> find_markers token colon h (x @ s) = find_markers token colon (h @ x) s"
proof (induction x arbitrary: h)
  case (Cons c cs)
  have "match_marker token colon (c # cs @ s) = None" using Cons.prems by (metis append_Cons drop0 length_greater_0_conv list.discI)
  moreover have "\<forall>i < length cs. match_marker token colon (drop i (cs @ s)) = None" using Cons.prems by auto
  ultimately show ?case using Cons.IH [of "h @ [c]"] by simp
qed simp

lemma find_markers_single:
  assumes "plain_token token" "find_markers token colon h s = [m]"
  shows "\<exists>x front p z. m = (h @ x @ front, p, z) \<and> s = x @ front @ p @ z \<and> match_marker token colon (front @ p @ z) = Some (front, p, z)
    \<and> unmarked token colon (tl (front @ p @ z)) \<and> (\<forall>i < length x. match_marker token colon (drop i s) = None)"
  using assms(2)
proof (induction s arbitrary: h)
  case (Cons c cs)
  show ?case
  proof (cases "match_marker token colon (c # cs)")
    case None
    then have "find_markers token colon (h @ [c]) cs = [m]" using Cons.prems by simp
    from Cons.IH [OF this] obtain x front p z where x: "m = ((h @ [c]) @ x @ front, p, z)" "cs = x @ front @ p @ z"
      "match_marker token colon (front @ p @ z) = Some (front, p, z)" "unmarked token colon (tl (front @ p @ z))"
      "\<forall>i < length x. match_marker token colon (drop i cs) = None" by blast
    have "\<forall>i < length (c # x). match_marker token colon (drop i (c # cs)) = None"
      using x(5) None by (auto simp: less_Suc_eq_0_disj)
    then show ?thesis using x by (intro exI [of _ "c # x"] exI [of _ front] exI [of _ p] exI [of _ z]) simp
  next
    case (Some n)
    obtain front p z where n: "n = (front, p, z)" by (cases n)
    have m: "m = (h @ front, p, z)" "find_markers token colon (h @ [c]) cs = []" using Cons.prems Some n by auto
    have "c # cs = front @ p @ z" using Some n match_marker_iff [OF assms(1)] by blast
    then have e: "front @ p @ z = c # cs" by (rule sym)
    show ?thesis
      by (intro exI [of _ "[]"] exI [of _ front] exI [of _ p] exI [of _ z])
        (use Some n m in \<open>simp add: e find_markers_none\<close>)
  qed
qed simp

lemma find_markers_hit:
  "s \<noteq> [] \<Longrightarrow> match_marker token colon s = Some (front, p, z) \<Longrightarrow> unmarked token colon (tl s)
     \<Longrightarrow> find_markers token colon h s = [(h @ front, p, z)]"
  by (cases s) (simp_all add: find_markers_none)

text \<open>Another payload in the only marker of a text leaves the rest of the search as it was.\<close>

theorem replaced_payload:
  assumes "plain_token token" "markers token colon s = [(h, p, z)]" "is_payload colon q"
  shows "markers token colon (h @ q @ z) = [(h, q, z)]" "s = h @ p @ z" "is_payload colon p"
    "\<exists>x g w y. h = x @ CHR ''<'' # g \<and> CHR ''<'' \<notin> set g \<and> z = w @ ''-->'' @ y \<and> spaces w"
proof -
  obtain x front where x: "h = x @ front" "s = x @ front @ p @ z" "match_marker token colon (front @ p @ z) = Some (front, p, z)"
      "unmarked token colon (tl (front @ p @ z))" "\<forall>i < length x. match_marker token colon (drop i s) = None"
    using find_markers_single [OF assms(1), of colon "[]" s "(h, p, z)"] assms(2) unfolding markers_def by auto
  have m: "marker_front token front" "is_payload colon p" "marker_close z"
    using x(3) unfolding match_marker_iff [OF assms(1)] by auto
  obtain g where g: "front = CHR ''<'' # g" "CHR ''<'' \<notin> set g" using front_shape [OF assms(1) m(1)] by blast
  have noq: "CHR ''<'' \<notin> set u" if "is_payload colon u" for u using that by (auto simp: is_payload_def)
  have new: "match_marker token colon (front @ q @ z) = Some (front, q, z)"
    unfolding match_marker_iff [OF assms(1)] using m assms(3) by simp
  have tail: "unmarked token colon (tl (front @ q @ z))"
    using x(4) unmarked_append [of "g @ p" token colon z] unmarked_append [of "g @ q" token colon z] g noq [OF m(2)] noq [OF assms(3)] by simp
  have "\<forall>i < length x. match_marker token colon (drop i (x @ front @ q @ z)) = None"
  proof (intro allI impI)
    fix i assume i: "i < length x"
    then have "match_marker token colon (drop i x @ CHR ''<'' # g @ p @ z) = None" using x(5) unfolding x(2) g(1) by auto
    then have "match_marker token colon (drop i x @ CHR ''<'' # g @ q @ z) = None" 
      using match_ignores_later [OF assms(1), of "drop i x" colon "g @ p @ z" "g @ q @ z"] i by simp
    then show "match_marker token colon (drop i (x @ front @ q @ z)) = None" using i by (simp add: g(1))
  qed
  then have "find_markers token colon [] (x @ front @ q @ z) = find_markers token colon x (front @ q @ z)"
    using find_markers_skip [of x token colon "front @ q @ z" "[]"] by simp
  also have "\<dots> = [(x @ front, q, z)]" using new tail by (simp add: g(1) find_markers_none)
  finally show "markers token colon (h @ q @ z) = [(h, q, z)]" by (simp add: markers_def x(1))
  show "s = h @ p @ z" by (simp add: x(1,2))
  show "is_payload colon p" by (rule m(2))
  show "\<exists>x g w y. h = x @ CHR ''<'' # g \<and> CHR ''<'' \<notin> set g \<and> z = w @ ''-->'' @ y \<and> spaces w"
    using m(3) g unfolding marker_close_def by (auto simp: x(1))
qed

lemma written_marker:
  assumes "plain_token token" "is_payload colon p" "CHR ''<'' \<notin> set a"
  shows "markers token colon (a @ ''<!-- '' @ token @ '': '' @ p @ '' -->'') = [(a @ ''<!-- '' @ token @ '': '', p, '' -->'')]"
proof -
  let ?f = "''<!-- '' @ token @ '': ''"
  have f: "marker_front token ?f"
    unfolding marker_front_def by (intro exI [of _ "'' ''"] exI [of _ "token @ '':''"]) (simp add: spaces_def is_space_def)
  have z: "marker_close '' -->''" unfolding marker_close_def by (intro exI [of _ "'' ''"] exI [of _ "[]"]) (simp add: spaces_def is_space_def)
  have m: "match_marker token colon (?f @ p @ '' -->'') = Some (?f, p, '' -->'')"
    unfolding match_marker_iff [OF assms(1)] using f z assms(2) by simp
  have "\<forall>i < length a. match_marker token colon (drop i (a @ ?f @ p @ '' -->'')) = None"
  proof (intro allI impI)
    fix i assume i: "i < length a"
    then have "drop i (a @ ?f @ p @ '' -->'') = a ! i # drop (Suc i) a @ ?f @ p @ '' -->''" by (simp add: Cons_nth_drop_Suc [symmetric])
    moreover have "a ! i \<noteq> CHR ''<''" using i assms(3) by (metis nth_mem)
    ultimately show "match_marker token colon (drop i (a @ ?f @ p @ '' -->'')) = None"
      using match_starts [of token colon "a ! i"] by (metis not_None_eq)
  qed
  then have "markers token colon (a @ ?f @ p @ '' -->'') = find_markers token colon a (?f @ p @ '' -->'')"
    unfolding markers_def by (simp only: find_markers_skip append_Nil)
  moreover have "CHR ''<'' \<notin> set token" using assms(1) unfolding plain_token_def by blast
  moreover have "CHR ''<'' \<notin> set p" using assms(2) payload_special(3) unfolding is_payload_def by blast
  ultimately have found: "markers token colon (a @ ?f @ p @ '' -->'') = find_markers token colon a (?f @ p @ '' -->'')"
    and no: "CHR ''<'' \<notin> set (tl (?f @ p @ '' -->''))" by simp_all
  from no have "unmarked token colon (tl (?f @ p @ '' -->''))" by (rule unmarked_plain)
  then have "find_markers token colon a (?f @ p @ '' -->'') = [(a @ ?f, p, '' -->'')]" by (intro find_markers_hit [OF _ m]) simp_all
  then show ?thesis using found by (simp del: find_markers.simps)
qed

lemma whole_match_text:
  assumes "CHR ''<'' \<notin> set g" "spaces w"
  shows "whole_match (x @ CHR ''<'' # g, p, w @ ''-->'' @ y) = CHR ''<'' # g @ p @ w @ ''-->''"
proof -
  have "takeWhile (\<lambda>c. c \<noteq> CHR ''<'') (rev g @ CHR ''<'' # rev x) = rev g"
  proof -
    have "c \<noteq> CHR ''<''" if "c \<in> set (rev g)" for c using assms(1) that by force
    from takeWhile_append2 [of "rev g", OF this] show ?thesis by simp
  qed
  moreover have "takeWhile is_space (w @ ''-->'' @ y) = w" by (rule span_spaces(1) [OF assms(2)]) (simp add: is_space_def)
  ultimately show ?thesis by (simp add: whole_match_def)
qed

end
