(* ===== verification/Round_Transport.thy ===== *)
theory Round_Transport
  imports Py_Equality Marker_Scan
begin

text \<open>
  Transport of round metadata in comments of bounded size (\<open>round_transport.py\<close>): metadata that does not fit is moved,
  field by field, into attachments ("sidecars") that are posted ahead of the comment, and put back when it is read.

  Compression and SHA-256 are the fields of a \<open>lib\<close>; base64, UTF-8 and JSON are those of \<open>Wire_Text\<close>, and the
  search for markers is that of \<open>Marker_Scan\<close>.  The sizes are the fields of a \<open>limits\<close>, with the module's own constants in
  \<open>round_limits\<close>.  Not here: moving an oversized execution recommendation or risk matrix out of the visible text, which
  happens first; its result (the rewritten text, its sidecars) is what \<open>transport_metadata\<close> starts from.
\<close>

section \<open>Markers\<close>

definition META_TOKEN :: string where "META_TOKEN = ''AGENT_LOOP_META''"
definition SIDECAR_TOKEN :: string where "SIDECAR_TOKEN = ''AGENT_LOOP_SIDECAR''"
definition RECOMMENDATION_TOKEN :: string where "RECOMMENDATION_TOKEN = ''AGENT_EXECUTION_RECOMMENDATION''"
definition MATRIX_TOKEN :: string where "MATRIX_TOKEN = ''AGENT_RISK_TEST_MATRIX''"

definition meta_markers :: "string \<Rightarrow> (string \<times> string \<times> string) list" where
  "meta_markers s = markers META_TOKEN True s"

definition sidecar_payloads :: "string \<Rightarrow> string list" where
  "sidecar_payloads s = map (fst \<circ> snd) (markers SIDECAR_TOKEN False s)"

section \<open>Mappings\<close>

record lib =
  deflate :: "string \<Rightarrow> string"
  inflate :: "string \<Rightarrow> (string \<times> string) option"
  sha256 :: "string \<Rightarrow> string"

text \<open>\<open>inflate\<close> gives what a stream holds and what follows its end, or \<open>None\<close> where zlib raises.\<close>

record limits =
  max_body :: nat
  max_packed :: nat
  max_raw :: nat
  part_chars :: nat

definition round_limits :: limits where
  "round_limits = \<lparr>max_body = 60000, max_packed = 8000000, max_raw = 16000000, part_chars = 40000\<rparr>"

definition decompress_bounded :: "lib \<Rightarrow> limits \<Rightarrow> string \<Rightarrow> string option" where
  "decompress_bounded L lim packed =
     (if length packed > max_packed lim then None
      else case inflate L packed of
        None \<Rightarrow> None
      | Some (raw, unused) \<Rightarrow> if length raw > max_raw lim \<or> unused \<noteq> [] then None else Some raw)"

datatype transport_error =
    BadMeta
  | MetaTooLarge
  | FieldTooLarge string
  | EvidenceAlone
  | LabelTooLong
  | SidecarTooLong
  | NoMarker
  | MarkerLost string
  | Overflow nat "(nat \<times> nat \<times> (nat \<times> string) list) option"
  | BadReference

definition encode_mapping :: "lib \<Rightarrow> limits \<Rightarrow> dict \<Rightarrow> transport_error + string" where
  "encode_mapping L lim kvs =
     (let packed = deflate L (utf8 (json_dumps json_plain_char (PDict kvs))) in
      if length packed > max_packed lim then Inl MetaTooLarge else Inr (''v1_'' @ b64 packed))"

fun dict_value :: "pyval option \<Rightarrow> dict option" where
  "dict_value (Some (PDict kvs)) = Some kvs"
| "dict_value _ = None"

definition json_of :: "string \<Rightarrow> pyval option" where
  "json_of raw = Option.bind (unutf8 raw) json_loads"

definition decode_mapping :: "lib \<Rightarrow> limits \<Rightarrow> string \<Rightarrow> transport_error + dict" where
  "decode_mapping L lim encoded =
     (let raw = (if starts_with ''v1_'' encoded then Option.bind (unb64 (drop 3 encoded)) (decompress_bounded L lim) else unb64 encoded)
      in case dict_value (Option.bind raw json_of) of None \<Rightarrow> Inl BadMeta | Some kvs \<Rightarrow> Inr kvs)"

section \<open>Sidecars\<close>

definition is_round_transport_sidecar :: "string \<Rightarrow> bool" where
  "is_round_transport_sidecar body \<longleftrightarrow> sidecar_payloads body \<noteq> []"

definition sidecar :: "dict \<Rightarrow> string" where
  "sidecar item = ''<!-- '' @ SIDECAR_TOKEN @ '': '' @ b64 (utf8 (json_dumps json_char (PDict item))) @ '' -->''"

definition GROWTH_SPILL_FIELDS :: "string list" where
  "GROWTH_SPILL_FIELDS = [''prior_items'', ''risk_test_matrix_evidence'']"

definition SPILL_FIELDS :: "string list" where
  "SPILL_FIELDS =
     [''assembled_plan_sidecar'', ''raw_patch_provenance'', ''canonical_reviewer_response'', ''screenshot_coverage'',
      ''post_merge_registry'', ''post_merge_publication'', ''raw_structured_coder_response'', ''canonical_plan'',
      ''round_synthesis'', ''final_synthesis'', ''analyzer_response'', ''final_analyzer_response'',
      ''raw_synthesis_response'', ''local_test_evidence'', ''execution_recommendation'', ''risk_test_matrix_payload'',
      ''risk_test_matrix_changes_payload'', ''risk_test_matrix_marker''] @ GROWTH_SPILL_FIELDS"

definition REVIEW_FLOWS :: "string list" where
  "REVIEW_FLOWS = [''pr'', ''managed-pr'', ''approved'', ''approved-plan-implementation'', ''direct'', ''issue-implementation'']"

definition sidecar_kind :: "dict \<Rightarrow> string" where
  "sidecar_kind kvs =
     (case (map_of kvs ''flow'', map_of kvs ''role'') of
        (Some (PStr flow), Some (PStr role)) \<Rightarrow>
          if flow = ''plan'' \<and> role = ''coder'' then ''plan''
          else if flow = ''plan'' \<and> role = ''reviewer'' then ''plan-review''
          else if flow \<in> set REVIEW_FLOWS \<and> role = ''reviewer'' then ''review'' else ''round''
      | _ \<Rightarrow> ''round'')"

definition SIDECAR_KIND_WORDING :: "(string \<times> string \<times> string) list" where
  "SIDECAR_KIND_WORDING =
     [(''plan'', ''plan attachment'', ''plan comment''), (''plan-review'', ''plan review attachment'', ''plan review comment''),
      (''review'', ''review attachment'', ''review comment''), (''round'', ''attachment'', ''agent-loop comment'')]"

definition sidecar_label :: "string \<Rightarrow> string \<Rightarrow> nat \<Rightarrow> nat \<Rightarrow> transport_error + string" where
  "sidecar_label kind field position number =
     (let (attachment, target) = (case map_of SIDECAR_KIND_WORDING kind of Some w \<Rightarrow> w | None \<Rightarrow> (''attachment'', ''agent-loop comment''));
          name = (if field \<in> set SPILL_FIELDS then field else ''metadata'');
          label = ''Agent-loop '' @ attachment @ '' '' @ nat_str position @ ''/'' @ nat_str number
            @ '' (machine-readable overflow: '' @ name @ ''). Not an agent response; see the following '' @ target @ ''.''
      in if length label > 300 \<or> (\<exists>c \<in> set label. code c \<ge> 128) then Inl LabelTooLong else Inr label)"

definition sidecar_field :: "string \<Rightarrow> string" where
  "sidecar_field body =
     (case sidecar_payloads body of
        [] \<Rightarrow> []
      | p # _ \<Rightarrow> (case dict_value (Option.bind (unb64 p) json_of) of None \<Rightarrow> [] | Some kvs \<Rightarrow> the_str (py_get (PDict kvs) ''field'')))"

fun label_from :: "string \<Rightarrow> nat \<Rightarrow> nat \<Rightarrow> string list \<Rightarrow> transport_error + string list" where
  "label_from kind number k [] = Inr []"
| "label_from kind number k (s # ss) =
     bindE (sidecar_label kind (sidecar_field s) k number) (\<lambda>label.
     bindE (label_from kind number (Suc k) ss) (\<lambda>rest.
     Inr ((label @ [CHR 0x0A, CHR 0x0A] @ s) # rest)))"

definition label_sidecars :: "string list \<Rightarrow> string \<Rightarrow> transport_error + string list" where
  "label_sidecars sidecars kind = label_from kind (length sidecars) 1 sidecars"

section \<open>Moving fields out\<close>

function (sequential) chunks :: "nat \<Rightarrow> 'a list \<Rightarrow> 'a list list" where
  "chunks n xs = (if n = 0 \<or> xs = [] then [] else take n xs # chunks n (drop n xs))"
  by pat_completeness auto
termination by (relation "measure (length \<circ> snd)") auto

declare chunks.simps [simp del]

text \<open>The bytes of a value and the name of their encoding; \<open>None\<close> is not moved.\<close>

fun spill_bytes :: "pyval \<Rightarrow> (string \<times> string) option" where
  "spill_bytes (PStr s) = Some (utf8 s, ''text'')"
| "spill_bytes PNone = None"
| "spill_bytes v = Some (utf8 (json_dumps json_plain_char v), ''json'')"

definition spill_reference :: "lib \<Rightarrow> limits \<Rightarrow> string \<Rightarrow> string \<Rightarrow> string \<Rightarrow> string \<Rightarrow> dict" where
  "spill_reference L lim anchor_id field raw encoding =
     [(''$round_transport_spill'', PStr anchor_id), (''field'', PStr field),
      (''parts'', PInt (int (length (chunks (part_chars lim) (b64 (deflate L raw)))))), (''sha256'', PStr (sha256 L raw)),
      (''spill'', PStr (sha256 L (deflate L raw))), (''encoding'', PStr encoding)]"

definition spill_item :: "lib \<Rightarrow> limits \<Rightarrow> string \<Rightarrow> string \<Rightarrow> string \<Rightarrow> string \<Rightarrow> nat \<Rightarrow> dict" where
  "spill_item L lim anchor_id field raw encoding k =
     (let parts = chunks (part_chars lim) (b64 (deflate L raw)) in
      [(''v'', PInt 1), (''anchor'', PStr anchor_id), (''spill'', PStr (sha256 L (deflate L raw))), (''field'', PStr field),
       (''index'', PInt (int k)), (''count'', PInt (int (length parts))), (''sha256'', PStr (sha256 L raw)),
       (''data'', PStr (parts ! k)), (''encoding'', PStr encoding)])"

definition build_spill :: "lib \<Rightarrow> limits \<Rightarrow> string \<Rightarrow> string \<Rightarrow> pyval \<Rightarrow> transport_error + (pyval \<times> string list) option" where
  "build_spill L lim anchor_id field v =
     (case spill_bytes v of
        None \<Rightarrow> Inr None
      | Some (raw, encoding) \<Rightarrow>
          if length (deflate L raw) > max_packed lim then Inl (FieldTooLarge field)
          else Inr (Some (PDict (spill_reference L lim anchor_id field raw encoding),
                 map (\<lambda>k. sidecar (spill_item L lim anchor_id field raw encoding k))
                   [0..<length (chunks (part_chars lim) (b64 (deflate L raw)))])))"

fun is_spill_reference :: "pyval \<Rightarrow> bool" where
  "is_spill_reference (PDict kvs) = (''$round_transport_spill'' \<in> fst ` set kvs)"
| "is_spill_reference _ = False"

definition render_anchor :: "lib \<Rightarrow> limits \<Rightarrow> string \<Rightarrow> string \<Rightarrow> dict \<Rightarrow> transport_error + string" where
  "render_anchor L lim ahead behind kvs = bindE (encode_mapping L lim kvs) (\<lambda>e. Inr (ahead @ e @ behind))"

text \<open>Evidence is moved only together with the prior items.\<close>

definition force_prior_items :: "lib \<Rightarrow> limits \<Rightarrow> string \<Rightarrow> string \<Rightarrow> dict \<Rightarrow> transport_error + dict \<times> string list" where
  "force_prior_items L lim anchor_id field kvs =
     (if field = ''risk_test_matrix_evidence'' \<and> \<not> is_spill_reference (py_get (PDict kvs) ''prior_items'') then
        (case map_of kvs ''prior_items'' of
           None \<Rightarrow> Inl EvidenceAlone
         | Some v \<Rightarrow>
             bindE (build_spill L lim anchor_id ''prior_items'' v) (\<lambda>spill.
             case spill of
               None \<Rightarrow> Inl EvidenceAlone
             | Some (reference, sidecars) \<Rightarrow> Inr (dict_put ''prior_items'' reference kvs, sidecars)))
      else Inr (kvs, []))"

definition spill_field ::
  "lib \<Rightarrow> limits \<Rightarrow> string \<Rightarrow> string \<Rightarrow> string \<Rightarrow> bool \<Rightarrow> string \<Rightarrow> string \<Rightarrow> dict \<times> string list \<Rightarrow> transport_error + dict \<times> string list" where
  "spill_field L lim anchor_id ahead behind growth_allowed current field st =
     (let (kvs, sidecars) = st in
      if field \<in> set GROWTH_SPILL_FIELDS \<and> \<not> growth_allowed then Inr st
      else case map_of kvs field of
        None \<Rightarrow> Inr st
      | Some v \<Rightarrow>
          bindE (build_spill L lim anchor_id field v) (\<lambda>spill.
          case spill of
            None \<Rightarrow> Inr st
          | Some (reference, field_sidecars) \<Rightarrow>
              bindE (render_anchor L lim ahead behind (dict_put field reference kvs)) (\<lambda>trial.
              if length trial \<ge> length current then Inr st
              else bindE (force_prior_items L lim anchor_id field kvs) (\<lambda>(kvs', prior_sidecars).
                Inr (dict_put field reference kvs', sidecars @ prior_sidecars @ field_sidecars)))))"

fun spill_fields ::
  "lib \<Rightarrow> limits \<Rightarrow> string \<Rightarrow> string \<Rightarrow> string \<Rightarrow> bool \<Rightarrow> string list \<Rightarrow> dict \<times> string list \<Rightarrow> transport_error + dict \<times> string list" where
  "spill_fields L lim anchor_id ahead behind growth_allowed [] st = Inr st"
| "spill_fields L lim anchor_id ahead behind growth_allowed (field # fs) st =
     bindE (render_anchor L lim ahead behind (fst st)) (\<lambda>current.
     if length current \<le> max_body lim then Inr st
     else bindE (spill_field L lim anchor_id ahead behind growth_allowed current field st)
       (spill_fields L lim anchor_id ahead behind growth_allowed fs))"

section \<open>Composing the comment\<close>

text \<open>A carrier is a list of segments; the marker segments carry the token they are authorized for.\<close>

type_synonym segments = "(string option \<times> string) list"

definition carrier_text :: "segments \<Rightarrow> string" where
  "carrier_text segs = concat (map snd segs)"

fun replace_segment :: "string \<Rightarrow> string \<Rightarrow> string \<Rightarrow> segments \<Rightarrow> segments option" where
  "replace_segment token old_text new_text [] = None"
| "replace_segment token old_text new_text (seg # segs) =
     (if seg = (Some token, old_text) then Some ((Some token, new_text) # segs)
      else map_option (Cons seg) (replace_segment token old_text new_text segs))"

definition replace_authorized_marker :: "segments \<Rightarrow> string \<Rightarrow> string \<Rightarrow> string \<Rightarrow> transport_error + segments" where
  "replace_authorized_marker carrier token old_text new_text =
     (if old_text = new_text then Inr carrier
      else case replace_segment token old_text new_text carrier of None \<Rightarrow> Inl (MarkerLost token) | Some segs \<Rightarrow> Inr segs)"

definition largest_fields :: "lib \<Rightarrow> limits \<Rightarrow> dict \<Rightarrow> (nat \<times> string) list" where
  "largest_fields L lim kvs =
     (let sizes = concat (map (\<lambda>(k, v). if is_spill_reference v then []
            else case encode_mapping L lim [(k, v)] of Inl e \<Rightarrow> [] | Inr s \<Rightarrow> [(length s, k)]) kvs)
      in take 5 (sort_key (\<lambda>(size, name). - int size) (sort_key snd sizes)))"

definition overflow_of :: "lib \<Rightarrow> limits \<Rightarrow> string \<times> string \<times> string \<Rightarrow> nat \<Rightarrow> dict \<Rightarrow> transport_error" where
  "overflow_of L lim m visible kvs =
     (case encode_mapping L lim kvs of
        Inl e \<Rightarrow> e
      | Inr s \<Rightarrow> Overflow visible (Some (length (whole_match m) - length (fst (snd m)) + length s, length s, largest_fields L lim kvs)))"

definition transport_metadata ::
  "lib \<Rightarrow> limits \<Rightarrow> segments \<Rightarrow> string \<Rightarrow> string list \<Rightarrow> transport_error + string list \<times> segments" where
  "transport_metadata L lim trusted_anchor body sidecars =
     (if meta_markers body = [] then
        (if length body > max_body lim then Inl (Overflow (length body) None)
         else if sidecars \<noteq> [] then bindE (label_sidecars sidecars ''round'') (\<lambda>labelled. Inr (labelled, trusted_anchor))
         else Inr ([], trusted_anchor))
      else let m = last (meta_markers body); (ahead, encoded, behind) = m; anchor_id = take 24 (sha256 L (utf8 body)) in
        bindE (decode_mapping L lim encoded) (\<lambda>kvs.
        bindE (spill_fields L lim anchor_id ahead behind (map_of kvs ''flow'' \<noteq> Some (PStr ''discuss'')) SPILL_FIELDS (kvs, sidecars))
          (\<lambda>(kvs', spilled).
        bindE (label_sidecars spilled (sidecar_kind kvs)) (\<lambda>labelled.
        bindE (render_anchor L lim ahead behind kvs') (\<lambda>anchor.
        if length anchor > max_body lim then Inl (overflow_of L lim m (length body - length encoded) kvs')
        else if \<exists>s \<in> set labelled. length s > max_body lim then Inl SidecarTooLong
        else case (meta_markers (carrier_text trusted_anchor), meta_markers anchor) of
          (old # _, new # _) \<Rightarrow>
            bindE (replace_authorized_marker trusted_anchor META_TOKEN (whole_match old) (whole_match new)) (\<lambda>segs. Inr (labelled, segs))
        | _ \<Rightarrow> Inl NoMarker)))))"

section \<open>Putting fields back\<close>

text \<open>\<open>int(v)\<close>; \<open>None\<close> where it raises.\<close>

definition int_literal :: "string \<Rightarrow> int option" where
  "int_literal s =
     (let t = strip s;
          negative = (t \<noteq> [] \<and> hd t = CHR ''-'');
          u = (if t \<noteq> [] \<and> hd t \<in> {CHR ''-'', CHR ''+''} then tl t else t);
          groups = split_on (CHR ''_'') u
      in if \<forall>g \<in> set groups. g \<noteq> [] \<and> (\<forall>c \<in> set g. is_ascii_digit c)
         then Some (if negative then - int (decimal (concat groups)) else int (decimal (concat groups))) else None)"

fun py_int :: "pyval \<Rightarrow> int option" where
  "py_int (PInt i) = Some i"
| "py_int (PBool b) = Some (if b then 1 else 0)"
| "py_int (PStr s) = int_literal s"
| "py_int _ = None"

text \<open>The keys of a decoded attachment; \<open>None\<close> where the reader skips it.\<close>

type_synonym part_key = "string \<times> string \<times> int"

definition part_of :: "dict \<Rightarrow> part_key option" where
  "part_of kvs =
     (case (map_of kvs ''anchor'', map_of kvs ''field'', Option.bind (map_of kvs ''index'') py_int, Option.bind (map_of kvs ''count'') py_int) of
        (Some a, Some f, Some i, Some n) \<Rightarrow> if i < 0 \<or> n < 1 \<or> i \<ge> n then None else Some (py_str a, py_str f, i)
      | _ \<Rightarrow> None)"

fun put_part :: "part_key \<Rightarrow> dict \<Rightarrow> (part_key \<times> dict) list \<Rightarrow> (part_key \<times> dict) list" where
  "put_part key kvs [] = [(key, kvs)]"
| "put_part key kvs ((key', old) # parts) =
     (if key' = key then (if py_equal (PDict old) (PDict kvs) then (key, kvs) # parts else parts)
      else (key', old) # put_part key kvs parts)"

definition collect_part :: "pyval \<Rightarrow> (part_key \<times> dict) list \<Rightarrow> (part_key \<times> dict) list" where
  "collect_part v parts =
     (case dict_value (Some v) of
        None \<Rightarrow> parts
      | Some kvs \<Rightarrow> (case part_of kvs of None \<Rightarrow> parts | Some key \<Rightarrow> put_part key kvs parts))"

definition sidecar_values :: "string \<Rightarrow> pyval list" where
  "sidecar_values body = List.map_filter (\<lambda>p. Option.bind (unb64 p) json_of) (sidecar_payloads body)"

definition collect_parts :: "string list \<Rightarrow> (part_key \<times> dict) list" where
  "collect_parts bodies = fold collect_part (concat (map sidecar_values bodies)) []"

definition ROUND_REFERENCE_KEYS :: "string list" where
  "ROUND_REFERENCE_KEYS = [''$round_transport_spill'', ''$round_transport_execution_recommendation'', ''$round_transport_risk_test_matrix'']"

definition reference_key :: "dict \<Rightarrow> string" where
  "reference_key ref =
     (if ''$round_transport_execution_recommendation'' \<in> fst ` set ref then ''$round_transport_execution_recommendation''
      else if ''$round_transport_risk_test_matrix'' \<in> fst ` set ref then ''$round_transport_risk_test_matrix''
      else ''$round_transport_spill'')"

definition entry_or :: "pyval \<Rightarrow> dict \<Rightarrow> string \<Rightarrow> pyval" where
  "entry_or d kvs k = (case map_of kvs k of None \<Rightarrow> d | Some v \<Rightarrow> v)"

definition part_matches :: "dict \<Rightarrow> string \<Rightarrow> string \<Rightarrow> int \<Rightarrow> dict \<Rightarrow> bool" where
  "part_matches ref anchor field n part \<longleftrightarrow>
     py_str (entry_or PNone part ''anchor'') = anchor \<and> py_str (entry_or PNone part ''field'') = field
     \<and> py_int (entry_or (PInt (- 1)) part ''count'') = Some n
     \<and> map_option py_str (map_of ref ''sha256'') = Some (py_str (entry_or PNone part ''sha256''))
     \<and> map_option py_str (map_of ref ''spill'') = Some (py_str (entry_or PNone part ''spill''))
     \<and> py_str (entry_or (PStr ''text'') part ''encoding'') = py_str (entry_or (PStr ''text'') ref ''encoding'')"

fun all_some :: "'a option list \<Rightarrow> 'a list option" where
  "all_some [] = Some []"
| "all_some (None # xs) = None"
| "all_some (Some x # xs) = map_option (Cons x) (all_some xs)"

text \<open>The parts \<open>0, ..., n - 1\<close> of an attachment, when exactly these were collected.\<close>

definition ordered_parts :: "(part_key \<times> dict) list \<Rightarrow> string \<Rightarrow> string \<Rightarrow> int \<Rightarrow> dict list option" where
  "ordered_parts parts anchor field n =
     (let entries = filter (\<lambda>((a, f, i), v). a = anchor \<and> f = field) parts in
      if n < 1 \<or> int (length entries) \<noteq> n then None
      else all_some (map (\<lambda>i. map_of entries (anchor, field, int i)) [0..<nat n]))"

definition checked_bytes :: "lib \<Rightarrow> limits \<Rightarrow> dict \<Rightarrow> string \<Rightarrow> string option" where
  "checked_bytes L lim ref packed =
     (if map_option py_str (map_of ref ''spill'') \<noteq> Some (sha256 L packed) then None
      else case decompress_bounded L lim packed of
        None \<Rightarrow> None
      | Some raw \<Rightarrow> if map_option py_str (map_of ref ''sha256'') \<noteq> Some (sha256 L raw) then None else Some raw)"

definition decode_field :: "dict \<Rightarrow> string \<Rightarrow> pyval option" where
  "decode_field ref raw =
     (let encoding = py_str (entry_or (PStr ''text'') ref ''encoding'') in
      if encoding = ''text'' then map_option PStr (unutf8 raw)
      else if encoding = ''json'' then json_of raw else None)"

definition hydrate_field :: "lib \<Rightarrow> limits \<Rightarrow> (part_key \<times> dict) list \<Rightarrow> string \<Rightarrow> dict \<Rightarrow> pyval option" where
  "hydrate_field L lim parts field ref =
     (case (map_of ref (reference_key ref), Option.bind (map_of ref ''parts'') py_int) of
        (Some a, Some n) \<Rightarrow>
          Option.bind (ordered_parts parts (py_str a) field n) (\<lambda>items.
          if \<not> list_all (part_matches ref (py_str a) field n) items then None
          else Option.bind (all_some (map (\<lambda>item. map_of item ''data'') items)) (\<lambda>data.
               Option.bind (unb64 (concat (map py_str data))) (\<lambda>packed.
               Option.bind (checked_bytes L lim ref packed) (decode_field ref))))
      | _ \<Rightarrow> None)"

definition hydrate_step :: "lib \<Rightarrow> limits \<Rightarrow> (part_key \<times> dict) list \<Rightarrow> string \<Rightarrow> dict \<times> string list \<Rightarrow> dict \<times> string list" where
  "hydrate_step L lim parts field st =
     (case dict_value (map_of (fst st) field) of
        None \<Rightarrow> st
      | Some ref \<Rightarrow>
          if reference_key ref \<notin> fst ` set ref then st
          else case hydrate_field L lim parts field ref of
            None \<Rightarrow> (dict_put field PNone (fst st), snd st @ [field])
          | Some v \<Rightarrow> (dict_put field v (fst st), snd st))"

definition hydrate_mapping :: "lib \<Rightarrow> limits \<Rightarrow> dict \<Rightarrow> string list \<Rightarrow> dict \<times> string list" where
  "hydrate_mapping L lim payload bodies = fold (hydrate_step L lim (collect_parts bodies)) SPILL_FIELDS (payload, [])"

section \<open>Which attachments a comment carries and names\<close>

definition attachment_keys :: "string \<Rightarrow> (string \<times> string) list" where
  "attachment_keys body =
     List.map_filter (\<lambda>v. case dict_value (Some v) of
         None \<Rightarrow> None
       | Some kvs \<Rightarrow> (case (map_of kvs ''anchor'', map_of kvs ''field'') of (Some a, Some f) \<Rightarrow> Some (py_str a, py_str f) | _ \<Rightarrow> None))
       (sidecar_values body)"

definition reference_keys_of :: "string \<Rightarrow> pyval option \<Rightarrow> (string \<times> string) list" where
  "reference_keys_of field v =
     (case dict_value v of
        None \<Rightarrow> []
      | Some kvs \<Rightarrow> List.map_filter (\<lambda>key. map_option (\<lambda>a. (py_str a, field)) (map_of kvs key)) ROUND_REFERENCE_KEYS)"

definition marker_references :: "string \<Rightarrow> string \<Rightarrow> transport_error + (string \<times> string) list" where
  "marker_references field encoded =
     (case Option.bind (unb64 encoded) json_of of
        None \<Rightarrow> Inl BadReference
      | Some v \<Rightarrow> Inr (reference_keys_of field (Some v) @ reference_keys_of ''*'' (Some v)))"

definition referenced_attachment_keys :: "lib \<Rightarrow> limits \<Rightarrow> string \<Rightarrow> transport_error + (string \<times> string) list" where
  "referenced_attachment_keys L lim body =
     bindE (mapE (\<lambda>m. bindE (decode_mapping L lim (fst (snd m))) (\<lambda>kvs.
         Inr (concat (map (\<lambda>field. reference_keys_of field (map_of kvs field)) SPILL_FIELDS)))) (meta_markers body)) (\<lambda>metas.
     bindE (mapE (\<lambda>m. marker_references ''execution_recommendation'' (fst (snd m))) (markers RECOMMENDATION_TOKEN False body)) (\<lambda>recs.
     bindE (mapE (\<lambda>m. marker_references ''risk_test_matrix_marker'' (fst (snd m))) (markers MATRIX_TOKEN False body)) (\<lambda>mats.
     Inr (concat metas @ concat recs @ concat mats))))"

section \<open>Facts on mappings\<close>

lemma map_of_dict_put [simp]: "map_of (dict_put k v kvs) = (map_of kvs)(k \<mapsto> v)"
  by (induction kvs) (auto simp: fun_eq_iff)

lemma keys_dict_put [simp]: "fst ` set (dict_put k v kvs) = insert k (fst ` set kvs)"
  by (simp add: dom_map_of_conv_image_fst [symmetric])

lemma distinct_dict_put: "distinct (map fst kvs) \<Longrightarrow> distinct (map fst (dict_put k v kvs))"
proof (induction kvs)
  case (Cons p kvs)
  then show ?case by (cases p) auto
qed simp

lemma is_value_dict: "is_value (PDict kvs) \<longleftrightarrow> distinct (map fst kvs) \<and> (\<forall>k v. map_of kvs k = Some v \<longrightarrow> is_value v)"
proof (cases "distinct (map fst kvs)")
  case True
  show ?thesis using map_of_eq_Some_iff [OF True] by auto
qed simp

lemma is_value_dict_put: "is_value (PDict kvs) \<Longrightarrow> is_value v \<Longrightarrow> is_value (PDict (dict_put k v kvs))"
  unfolding is_value_dict by (auto simp: distinct_dict_put)

lemma distinct_sort_key: "distinct (map fst xs) \<Longrightarrow> distinct (map fst (sort_key f xs))"
  by (simp add: distinct_map)

definition norm_items :: "dict \<Rightarrow> dict" where
  "norm_items kvs = sort_key fst (map (\<lambda>(k, v). (k, json_norm v)) kvs)"

lemma json_norm_dict: "json_norm (PDict kvs) = PDict (norm_items kvs)"
  by (simp add: norm_items_def)

lemma map_of_norm_items:
  assumes "distinct (map fst kvs)"
  shows "map_of (norm_items kvs) k = map_option json_norm (map_of kvs k)"
proof -
  let ?m = "map (\<lambda>(k, v). (k, json_norm v)) kvs"
  have d: "distinct (map fst ?m)" using assms by (simp add: comp_def case_prod_beta)
  then have "distinct (map fst (sort_key fst ?m))" by (rule distinct_sort_key)
  then have "map_of (sort_key fst ?m) = map_of ?m" using d by (simp add: map_of_inject_set)
  moreover have "map_of ?m k = map_option json_norm (map_of kvs k)" by (induction kvs) auto
  ultimately show ?thesis by (simp add: norm_items_def)
qed

lemma keys_norm_items [simp]: "fst ` set (norm_items kvs) = fst ` set kvs"
  by (force simp: norm_items_def)

lemma distinct_norm_items: "distinct (map fst kvs) \<Longrightarrow> distinct (map fst (norm_items kvs))"
  by (simp add: norm_items_def distinct_sort_key comp_def case_prod_beta)

text \<open>What the library promises of compression.\<close>

definition zlib_laws :: "lib \<Rightarrow> bool" where
  "zlib_laws L \<longleftrightarrow> (\<forall>s. inflate L (deflate L s) = Some (s, []) \<and> deflate L s \<noteq> [])"

lemma b64_payload: "\<forall>c \<in> set (b64 s). payload_char colon c"
proof -
  have "payload_char colon (b64_digit n)" if n: "n < 64" for n
  proof -
    consider "n < 26" | "26 \<le> n" "n < 52" | "52 \<le> n" "n < 62" | "n = 62" | "n = 63" using n by linarith
    then show ?thesis by cases (auto simp: b64_digit_def payload_char_def Let_def)
  qed
  then have "payload_char colon c" if "b64_char c" for c using that by (auto simp: b64_char_def payload_char_def)
  then show ?thesis using b64_chars by blast
qed

lemma b64_empty [simp]: "b64 s = [] \<longleftrightarrow> s = []"
  by (cases s rule: b64.cases) auto

lemma encoded_is_payload:
  assumes "encode_mapping L lim kvs = Inr e"
  shows "is_payload True e"
proof -
  have "e = ''v1_'' @ b64 (deflate L (utf8 (json_dumps json_plain_char (PDict kvs))))"
    using assms by (auto simp: encode_mapping_def Let_def split: if_splits)
  then show ?thesis using b64_payload [of _ True] by (auto simp: is_payload_def payload_char_def)
qed

definition mapping_bytes :: "dict \<Rightarrow> string" where
  "mapping_bytes kvs = utf8 (json_dumps json_plain_char (PDict kvs))"

lemma decode_encode:
  assumes "zlib_laws L" "encode_mapping L lim kvs = Inr e" "is_value (PDict kvs)" "length (mapping_bytes kvs) \<le> max_raw lim"
  shows "decode_mapping L lim e = Inr (norm_items kvs)"
proof -
  let ?raw = "utf8 (json_dumps json_plain_char (PDict kvs))"
  have e: "e = ''v1_'' @ b64 (deflate L ?raw)" "length (deflate L ?raw) \<le> max_packed lim"
    using assms(2) by (auto simp: encode_mapping_def Let_def split: if_splits)
  have z: "decompress_bounded L lim (deflate L ?raw) = Some ?raw"
    using assms(1,4) e(2) by (simp add: decompress_bounded_def zlib_laws_def mapping_bytes_def)
  have j: "json_of ?raw = Some (PDict (norm_items kvs))"
    using loads_dumps [OF json_plain_char_escapes assms(3)] by (simp add: json_of_def json_norm_dict del: json_dumps.simps json_norm.simps)
  have d: "starts_with ''v1_'' e" "drop 3 e = b64 (deflate L ?raw)" by (simp_all add: e(1) starts_with_def)
  show ?thesis using z j by (simp add: decode_mapping_def d del: json_dumps.simps)
qed

section \<open>Facts on sidecars\<close>

lemma plain_tokens: "plain_token META_TOKEN" "plain_token SIDECAR_TOKEN"
  by (simp_all add: plain_token_def META_TOKEN_def SIDECAR_TOKEN_def is_space_def)

lemma dumps_not_empty [simp]: "json_dumps esc v \<noteq> []"
  using dumps_opens [of esc v] by (auto simp: opens_value_def)

lemma utf8_empty [simp]: "utf8 s = [] \<longleftrightarrow> s = []"
  by (cases s) auto

lemma sidecar_values_of:
  assumes "CHR ''<'' \<notin> set label" "is_value (PDict item)"
  shows "sidecar_values (label @ sidecar item) = [PDict (norm_items item)]"
proof -
  let ?p = "b64 (utf8 (json_dumps json_char (PDict item)))"
  have "is_payload False ?p" using b64_payload [of _ False] by (auto simp: is_payload_def simp del: json_dumps.simps)
  then have "sidecar_payloads (label @ sidecar item) = [?p]"
    using written_marker [OF plain_tokens(2), of False ?p label] assms(1) by (simp add: sidecar_payloads_def sidecar_def del: json_dumps.simps)
  moreover have "json_of (utf8 (json_dumps json_char (PDict item))) = Some (PDict (norm_items item))"
    using loads_dumps [OF json_char_escapes assms(2)] by (simp add: json_of_def json_norm_dict del: json_dumps.simps json_norm.simps)
  ultimately show ?thesis by (simp add: sidecar_values_def List.map_filter_def del: json_dumps.simps)
qed

lemma label_plain:
  assumes "sidecar_label kind field position number = Inr label"
  shows "CHR ''<'' \<notin> set label"
proof -
  have n: "CHR ''<'' \<notin> set (nat_str k)" for k using nat_str_reads [of k] by (auto simp: is_ascii_digit_def)
  have f: "CHR ''<'' \<notin> set (if field \<in> set SPILL_FIELDS then field else ''metadata'')"
    by (auto simp: SPILL_FIELDS_def GROWTH_SPILL_FIELDS_def)
  define w where "w = (case map_of SIDECAR_KIND_WORDING kind of Some w \<Rightarrow> w | None \<Rightarrow> (''attachment'', ''agent-loop comment''))"
  have w: "CHR ''<'' \<notin> set (fst w)" "CHR ''<'' \<notin> set (snd w)"
    by (auto simp: w_def SIDECAR_KIND_WORDING_def split: if_splits)
  have "label = ''Agent-loop '' @ fst w @ '' '' @ nat_str position @ ''/'' @ nat_str number
      @ '' (machine-readable overflow: '' @ (if field \<in> set SPILL_FIELDS then field else ''metadata'')
      @ ''). Not an agent response; see the following '' @ snd w @ ''.''"
    using assms unfolding sidecar_label_def w_def [symmetric] Let_def case_prod_beta by (simp split: if_splits)
  then show ?thesis using n [of position] n [of number] f w by simp
qed

lemma label_from_all: "label_from kind number k ss = Inr ls \<Longrightarrow> list_all2 (\<lambda>s l. \<exists>label. CHR ''<'' \<notin> set label \<and> l = label @ s) ss ls"
proof (induction ss arbitrary: k ls)
  case (Cons s ss)
  then obtain label rest where l: "sidecar_label kind (sidecar_field s) k number = Inr label" "label_from kind number (Suc k) ss = Inr rest"
      "ls = (label @ [CHR 0x0A, CHR 0x0A] @ s) # rest"
    by (auto simp: bindE_Inr_iff)
  have "\<exists>la. CHR ''<'' \<notin> set la \<and> label @ [CHR 0x0A, CHR 0x0A] @ s = la @ s"
    using label_plain [OF l(1)] by (intro exI [of _ "label @ [CHR 0x0A, CHR 0x0A]"]) simp
  then show ?case using Cons.IH [OF l(2)] by (simp add: l(3))
qed simp

section \<open>Facts on collected parts\<close>

lemma put_part_Cons:
  "put_part key kvs (p # parts) =
     (if fst p = key then (if py_equal (PDict (snd p)) (PDict kvs) then (key, kvs) # parts else parts)
      else p # put_part key kvs parts)"
  by (cases p) simp

declare put_part.simps(2) [simp del] put_part_Cons [simp]

lemma put_part_keys: "fst ` set (put_part key kvs parts) \<subseteq> insert key (fst ` set parts)"
proof (induction parts)
  case (Cons p parts)
  show ?case
  proof (cases "fst p = key")
    case False
    then show ?thesis using Cons by (simp add: insert_commute [of key] subset_insertI2)
  qed (simp add: subset_insertI2 subset_insertI)
qed simp

lemma distinct_put_part: "distinct (map fst parts) \<Longrightarrow> distinct (map fst (put_part key kvs parts))"
proof (induction parts)
  case (Cons p parts)
  have "fst p \<notin> fst ` set (put_part key kvs parts)" if "fst p \<noteq> key"
  proof
    assume "fst p \<in> fst ` set (put_part key kvs parts)"
    then have "fst p \<in> insert key (fst ` set parts)" by (rule subsetD [OF put_part_keys])
    then show False using that Cons.prems by simp
  qed
  then show ?case using Cons by (cases "fst p = key") auto
qed simp

definition put_value :: "dict \<Rightarrow> dict option \<Rightarrow> dict option" where
  "put_value kvs old = (case old of None \<Rightarrow> Some kvs | Some o' \<Rightarrow> if py_equal (PDict o') (PDict kvs) then Some kvs else None)"

lemma map_of_put_part:
  assumes "distinct (map fst parts)"
  shows "map_of (put_part key kvs parts) key' = (if key' \<noteq> key then map_of parts key' else put_value kvs (map_of parts key))"
  using assms
proof (induction parts)
  case (Cons p parts)
  have n: "map_of parts (fst p) = None" using Cons.prems by (simp add: map_of_eq_None_iff)
  show ?case
  proof (cases "fst p = key")
    case True
    then show ?thesis using n by (cases p) (simp add: put_value_def)
  next
    case False
    have "map_of (put_part key kvs (p # parts)) key' = (if key' = fst p then Some (snd p) else map_of (put_part key kvs parts) key')"
      using False by simp
    moreover have "map_of (put_part key kvs parts) key' = (if key' \<noteq> key then map_of parts key' else put_value kvs (map_of parts key))"
      using Cons by simp
    ultimately show ?thesis using False by (cases "key' = key") simp_all
  qed
qed (simp add: put_value_def)

text \<open>What one decoded attachment is, when the reader takes it.\<close>

definition part_entry :: "pyval \<Rightarrow> (part_key \<times> dict) option" where
  "part_entry v = Option.bind (dict_value (Some v)) (\<lambda>kvs. map_option (\<lambda>key. (key, kvs)) (part_of kvs))"

lemma collect_part_entry: "collect_part v parts = (case part_entry v of None \<Rightarrow> parts | Some e \<Rightarrow> put_part (fst e) (snd e) parts)"
  by (simp add: collect_part_def part_entry_def split: option.splits)

lemma distinct_collect_part: "distinct (map fst parts) \<Longrightarrow> distinct (map fst (collect_part v parts))"
  by (simp add: collect_part_entry distinct_put_part split: option.splits)

lemma distinct_collect: "distinct (map fst parts) \<Longrightarrow> distinct (map fst (fold collect_part vs parts))"
  by (induction vs arbitrary: parts) (simp_all add: distinct_collect_part)

lemma map_of_collect_part:
  assumes "distinct (map fst parts)"
  shows "map_of (collect_part v parts) key =
    (case part_entry v of None \<Rightarrow> map_of parts key
     | Some e \<Rightarrow> if fst e = key then put_value (snd e) (map_of parts key) else map_of parts key)"
  using map_of_put_part [OF assms] by (simp add: collect_part_entry split: option.split)

lemma collected_from:
  assumes "distinct (map fst parts)" "map_of (fold collect_part vs parts) key = Some kvs"
  shows "Some (key, kvs) \<in> part_entry ` set vs \<or> map_of parts key = Some kvs"
  using assms
proof (induction vs arbitrary: parts)
  case (Cons v vs)
  have i: "Some (key, kvs) \<in> part_entry ` set vs \<or> map_of (collect_part v parts) key = Some kvs"
    using Cons.IH [OF distinct_collect_part [OF Cons.prems(1)]] Cons.prems(2) by simp
  show ?case
  proof (cases "map_of (collect_part v parts) key = Some kvs")
    case True
    then have "part_entry v = Some (key, kvs) \<or> map_of parts key = Some kvs"
      unfolding map_of_collect_part [OF Cons.prems(1)]
      by (cases "part_entry v") (auto simp: put_value_def split: if_splits option.splits)
    then show ?thesis by auto
  next
    case False
    then show ?thesis using i by auto
  qed
qed simp

lemma collects_consistent:
  assumes "\<And>v e. v \<in> set vs \<Longrightarrow> part_entry v = Some e \<Longrightarrow> fst e = key \<Longrightarrow> snd e = g" "is_value (PDict g)"
    and "distinct (map fst parts)" "map_of parts key \<in> {None, Some g}"
    and "Some (key, g) \<in> part_entry ` set vs \<or> map_of parts key = Some g"
  shows "map_of (fold collect_part vs parts) key = Some g"
  using assms
proof (induction vs arbitrary: parts)
  case (Cons v vs)
  have refl: "py_equal (PDict g) (PDict g)" by (rule py_equal_refl [OF Cons.prems(2)])
  let ?p = "collect_part v parts"
  have step: "map_of ?p key = Some g \<or> map_of ?p key = map_of parts key \<and> part_entry v \<noteq> Some (key, g)"
  proof (cases "part_entry v")
    case (Some e)
    show ?thesis
    proof (cases "fst e = key")
      case True
      then have "snd e = g" using Cons.prems(1) [of v e] Some by simp
      then show ?thesis using True Some refl Cons.prems(4) by (auto simp: map_of_collect_part [OF Cons.prems(3)] put_value_def)
    next
      case False
      then show ?thesis using Some by (auto simp: map_of_collect_part [OF Cons.prems(3)])
    qed
  qed (simp add: map_of_collect_part [OF Cons.prems(3)])
  have "map_of (fold collect_part vs ?p) key = Some g"
  proof (rule Cons.IH)
    show "snd e = g" if "w \<in> set vs" "part_entry w = Some e" "fst e = key" for w e
      by (rule Cons.prems(1) [of w e]) (simp_all add: that)
    show "map_of ?p key \<in> {None, Some g}" using step Cons.prems(4) by auto
    show "Some (key, g) \<in> part_entry ` set vs \<or> map_of ?p key = Some g" using step Cons.prems(5) by auto
  qed (use Cons.prems distinct_collect_part in auto)
  then show ?case by simp
qed simp

lemma ordered_parts_of:
  assumes "0 < n" "\<And>i. i < n \<Longrightarrow> Some ((a, f, int i), g i) \<in> part_entry ` set vs" "\<And>i. i < n \<Longrightarrow> is_value (PDict (g i))"
    and "\<And>v j kvs. v \<in> set vs \<Longrightarrow> part_entry v = Some ((a, f, j), kvs) \<Longrightarrow> \<exists>i < n. j = int i \<and> kvs = g i"
  shows "ordered_parts (fold collect_part vs []) a f (int n) = Some (map g [0..<n])"
proof -
  let ?P = "fold collect_part vs []"
  let ?E = "filter (\<lambda>((a', f', i), v). a' = a \<and> f' = f) ?P"
  have d: "distinct (map fst ?P)" by (rule distinct_collect) simp
  have known: "map_of ?P (a, f, int i) = Some (g i)" if i: "i < n" for i
  proof (rule collects_consistent)
    show "snd e = g i" if "v \<in> set vs" "part_entry v = Some e" "fst e = (a, f, int i)" for v e
    proof -
      have "part_entry v = Some ((a, f, int i), snd e)" using that by (cases e) simp
      from assms(4) [OF that(1) this] show ?thesis by simp
    qed
  qed (use assms(2,3) i in auto)
  have e: "map_of ?E (a, f, j) = map_of ?P (a, f, j)" for j
  proof -
    have "map_of (filter (\<lambda>((a', f', i), v). a' = a \<and> f' = f) xs) (a, f, j) = map_of xs (a, f, j)" for xs :: "(part_key \<times> dict) list"
      by (induction xs) auto
    then show ?thesis .
  qed
  have dE: "distinct (map fst ?E)" using d by (rule distinct_map_filter)
  have "fst ` set ?E = (\<lambda>i. (a, f, int i)) ` {..<n}"
  proof (intro set_eqI iffI)
    fix key assume "key \<in> fst ` set ?E"
    then obtain e where "e \<in> set ?E" and key: "key = fst e" by (elim imageE)
    moreover obtain a' f' j v where "e = ((a', f', j), v)" by (metis prod.exhaust)
    ultimately have k: "key = (a, f, j)" "((a, f, j), v) \<in> set ?P" by auto
    have "map_of ?P (a, f, j) = Some v" using d k(2) by simp
    then have "Some ((a, f, j), v) \<in> part_entry ` set vs" using collected_from [of "[]" vs "(a, f, j)" v] by simp
    then obtain w where "w \<in> set vs" "part_entry w = Some ((a, f, j), v)" by (metis imageE)
    from assms(4) [OF this] show "key \<in> (\<lambda>i. (a, f, int i)) ` {..<n}" using k(1) by auto
  next
    fix key assume "key \<in> (\<lambda>i. (a, f, int i)) ` {..<n}"
    then obtain i where "i < n" "key = (a, f, int i)" by auto
    then have "map_of ?E key = Some (g i)" using known e by simp
    from imageI [OF map_of_SomeD [OF this], of fst] show "key \<in> fst ` set ?E" by (simp only: fst_conv)
  qed
  moreover have "card ((\<lambda>i. (a, f, int i)) ` {..<n}) = n" by (simp add: card_image inj_on_def)
  moreover have "length ?E = card (fst ` set ?E)" using distinct_card [OF dE] by simp
  ultimately have len: "length ?E = n" by (simp only:)
  have all: "all_some (map Some xs) = Some xs" for xs :: "'z list" by (induction xs) auto
  have maps: "map (\<lambda>i. map_of ?E (a, f, int i)) [0..<n] = map Some (map g [0..<n])" using known e by simp
  have "all_some (map (\<lambda>i. map_of ?E (a, f, int i)) [0..<n]) = Some (map g [0..<n])" unfolding maps all ..
  then show ?thesis using assms(1) len by (simp add: ordered_parts_def Let_def)
qed

lemma concat_chunks: "0 < n \<Longrightarrow> concat (chunks n xs) = xs"
proof (induction n xs rule: chunks.induct)
  case (1 n xs)
  then show ?case by (subst chunks.simps) simp
qed

lemma chunks_empty: "chunks n xs = [] \<longleftrightarrow> n = 0 \<or> xs = []"
  by (subst chunks.simps) simp

end
