(* ===== verification/Transport_Recovery.thy ===== *)
theory Transport_Recovery
  imports Round_Transport
begin

text \<open>
  What \<open>Round_Transport\<close> guarantees: the invariant of the loop that moves fields (\<open>moved\<close>), the search for the marker in a composed
  comment, and the two properties: the moved metadata reads back, and only listed fields are moved.
  \<open>second_marker_not_rewritten\<close> shows what happens to a comment with two metadata markers.
\<close>

section \<open>One field, moved and put back\<close>

lemma json_norm_norm: "json_norm (json_norm v) = json_norm v"
proof (induction v)
  case (PDict kvs)
  have n: "norm_items kvs = map (\<lambda>(k, v). (k, json_norm v)) (sort_key fst kvs)"
    using norm_dict [of kvs] json_norm_dict [of kvs] by (simp del: json_norm.simps)
  have k: "map fst (norm_items kvs) = map fst (sort_key fst kvs)" by (simp add: n comp_def case_prod_beta)
  have "(\<lambda>(k, v). (k, json_norm v)) p = p" if "p \<in> set (norm_items kvs)" for p
    using that PDict by (auto simp: norm_items_def)
  then have "map (\<lambda>(k, v). (k, json_norm v)) (norm_items kvs) = norm_items kvs" by (rule map_idI)
  moreover have "sort_key fst (norm_items kvs) = norm_items kvs"
    by (rule sort_key_id_if_sorted) (simp add: k)
  ultimately show ?case unfolding json_norm_dict norm_items_def [of "norm_items kvs"] by simp
qed (simp_all del: json_norm.simps(3) add: comp_def)

lemma item_distinct: "distinct (map fst (spill_item L lim a f raw enc i))"
  by (simp add: spill_item_def Let_def)

lemma item_fields:
  assumes "g = norm_items (spill_item L lim a f raw enc i)" "c = chunks (part_chars lim) (b64 (deflate L raw))"
  shows "map_of g ''anchor'' = Some (PStr a)" "map_of g ''field'' = Some (PStr f)" "map_of g ''index'' = Some (PInt (int i))"
    "map_of g ''count'' = Some (PInt (int (length c)))" "map_of g ''sha256'' = Some (PStr (sha256 L raw))"
    "map_of g ''spill'' = Some (PStr (sha256 L (deflate L raw)))" "map_of g ''encoding'' = Some (PStr enc)"
    "map_of g ''data'' = Some (PStr (c ! i))"
  unfolding assms map_of_norm_items [OF item_distinct] by (simp_all add: spill_item_def Let_def)

lemma reference_distinct: "distinct (map fst (spill_reference L lim a f raw enc))"
  by (simp add: spill_reference_def)

lemma reference_entries:
  assumes "r = norm_items (spill_reference L lim a f raw enc)"
  shows "map_of r ''$round_transport_spill'' = Some (PStr a)"
    "map_of r ''parts'' = Some (PInt (int (length (chunks (part_chars lim) (b64 (deflate L raw))))))"
    "map_of r ''sha256'' = Some (PStr (sha256 L raw))" "map_of r ''spill'' = Some (PStr (sha256 L (deflate L raw)))"
    "map_of r ''encoding'' = Some (PStr enc)"
  unfolding assms map_of_norm_items [OF reference_distinct] by (simp_all add: spill_reference_def)

lemma reference_key_of: "reference_key (norm_items (spill_reference L lim a f raw enc)) = ''$round_transport_spill''"
  by (simp add: reference_key_def spill_reference_def)

lemma spill_item_part:
  assumes "i < length (chunks (part_chars lim) (b64 (deflate L raw)))"
  shows "part_entry (PDict (norm_items (spill_item L lim a f raw enc i))) = Some ((a, f, int i), norm_items (spill_item L lim a f raw enc i))"
proof -
  define g where "g = norm_items (spill_item L lim a f raw enc i)"
  have "chunks (part_chars lim) (b64 (deflate L raw)) \<noteq> []" using assms by auto
  then have "part_of g = Some (a, f, int i)"
    using assms by (simp add: part_of_def item_fields [OF g_def refl])
  then show ?thesis by (simp add: part_entry_def g_def)
qed

lemma is_value_norm: "is_value (PDict kvs) \<Longrightarrow> is_value (PDict (norm_items kvs))"
  using json_norm_value [of "PDict kvs"] by (simp only: json_norm_dict)

lemma spill_item_value: "is_value (PDict (spill_item L lim a f raw enc i))"
  by (simp add: spill_item_def Let_def)

lemma reference_value: "is_value (PDict (spill_reference L lim a f raw enc))"
  by (simp add: spill_reference_def)

lemma spill_bytes_decode:
  assumes "spill_bytes v = Some (raw, enc)" "is_value v"
  shows "decode_field (norm_items (spill_reference L lim a f raw enc)) raw = Some (json_norm v)"
proof -
  define r where "r = norm_items (spill_reference L lim a f raw enc)"
  have e: "entry_or (PStr ''text'') r ''encoding'' = PStr enc" unfolding r_def
    by (simp add: entry_or_def reference_entries [OF refl])
  consider s where "v = PStr s" "raw = utf8 s" "enc = ''text''" | "raw = utf8 (json_dumps json_plain_char v)" "enc = ''json''"
    using assms(1) by (cases v) (auto simp del: json_dumps.simps)
  then show ?thesis unfolding r_def [symmetric]
    by cases (simp_all add: decode_field_def Let_def e json_of_def loads_dumps [OF json_plain_char_escapes assms(2)] del: json_dumps.simps json_norm.simps(3))
qed

lemma all_some_map: "(\<And>x. x \<in> set xs \<Longrightarrow> f x = Some (g x)) \<Longrightarrow> all_some (map f xs) = Some (map g xs)"
  by (induction xs) simp_all

lemma hydrate_spilled:
  assumes L: "zlib_laws L" "0 < part_chars lim"
    and v: "spill_bytes v = Some (raw, enc)" "is_value v" "length (deflate L raw) \<le> max_packed lim" "length raw \<le> max_raw lim"
    and parts: "ordered_parts ps a f (int (length (chunks (part_chars lim) (b64 (deflate L raw))))) =
      Some (map (\<lambda>i. norm_items (spill_item L lim a f raw enc i)) [0..<length (chunks (part_chars lim) (b64 (deflate L raw)))])"
  shows "hydrate_field L lim ps f (norm_items (spill_reference L lim a f raw enc)) = Some (json_norm v)"
proof -
  let ?c = "chunks (part_chars lim) (b64 (deflate L raw))"
  let ?r = "norm_items (spill_reference L lim a f raw enc)"
  let ?g = "\<lambda>i. norm_items (spill_item L lim a f raw enc i)"
  note r = reference_entries [OF refl, of L lim a f raw enc]
  note i = item_fields [OF refl refl, of L lim a f raw enc]
  have m: "part_matches ?r a f (int (length ?c)) (?g i)" for i
    by (simp add: part_matches_def entry_or_def i r)
  have data: "all_some (map (\<lambda>item. map_of item ''data'') (map ?g [0..<length ?c])) = Some (map (\<lambda>i. PStr (?c ! i)) [0..<length ?c])"
    using all_some_map [of "[0..<length ?c]" "\<lambda>j. map_of (?g j) ''data''" "\<lambda>j. PStr (?c ! j)"] i by (simp add: comp_def)
  have "map py_str (map (\<lambda>i. PStr (?c ! i)) [0..<length ?c]) = ?c" by (simp add: comp_def map_nth)
  then have joined: "concat (map py_str (map (\<lambda>i. PStr (?c ! i)) [0..<length ?c])) = b64 (deflate L raw)"
    using concat_chunks [OF L(2)] by simp
  have bytes: "checked_bytes L lim ?r (deflate L raw) = Some raw"
    using L(1) v(3,4) by (simp add: checked_bytes_def decompress_bounded_def zlib_laws_def r)
  show ?thesis
    unfolding hydrate_field_def reference_key_of r
    by (simp add: parts list_all_length m data joined bytes spill_bytes_decode [OF v(1,2)] del: map_map)
qed

section \<open>Which fields are moved\<close>

definition field_sidecars :: "lib \<Rightarrow> limits \<Rightarrow> string \<Rightarrow> string \<Rightarrow> pyval \<Rightarrow> string list" where
  "field_sidecars L lim a f v =
     (case spill_bytes v of
        None \<Rightarrow> []
      | Some (raw, enc) \<Rightarrow> map (\<lambda>i. sidecar (spill_item L lim a f raw enc i)) [0..<length (chunks (part_chars lim) (b64 (deflate L raw)))])"

definition moved_value :: "lib \<Rightarrow> limits \<Rightarrow> string \<Rightarrow> string \<Rightarrow> pyval \<Rightarrow> pyval \<Rightarrow> bool" where
  "moved_value L lim a f v ref \<longleftrightarrow>
     (\<exists>raw enc. spill_bytes v = Some (raw, enc) \<and> length (deflate L raw) \<le> max_packed lim \<and> ref = PDict (spill_reference L lim a f raw enc))"

lemma build_spill_some:
  "build_spill L lim a f v = Inr (Some (ref, sc)) \<Longrightarrow> moved_value L lim a f v ref \<and> sc = field_sidecars L lim a f v"
  by (auto simp: build_spill_def moved_value_def field_sidecars_def split: option.splits if_splits)

lemma moved_value_reference: "moved_value L lim a f v ref \<Longrightarrow> is_spill_reference ref"
  by (auto simp: moved_value_def spill_reference_def)

text \<open>The fields \<open>F\<close> of \<open>kvs0\<close> are references in \<open>kvs\<close>, everything else is as it was, and \<open>sc\<close> are their attachments.\<close>

definition moved :: "lib \<Rightarrow> limits \<Rightarrow> string \<Rightarrow> dict \<Rightarrow> string list \<Rightarrow> dict \<Rightarrow> string list \<Rightarrow> bool" where
  "moved L lim a kvs0 F kvs sc \<longleftrightarrow>
     distinct F \<and> is_value (PDict kvs)
     \<and> (\<forall>f \<in> set F. \<exists>v ref. map_of kvs0 f = Some v \<and> map_of kvs f = Some ref \<and> moved_value L lim a f v ref)
     \<and> (\<forall>f. f \<notin> set F \<longrightarrow> map_of kvs f = map_of kvs0 f)
     \<and> sc = concat (map (\<lambda>f. field_sidecars L lim a f (the (map_of kvs0 f))) F)"

lemma movedD:
  assumes "moved L lim a kvs0 F kvs sc"
  shows "distinct F" "is_value (PDict kvs)" "f \<notin> set F \<Longrightarrow> map_of kvs f = map_of kvs0 f"
    "f \<in> set F \<Longrightarrow> \<exists>v ref. map_of kvs0 f = Some v \<and> map_of kvs f = Some ref \<and> moved_value L lim a f v ref"
    "sc = concat (map (\<lambda>f. field_sidecars L lim a f (the (map_of kvs0 f))) F)"
  using assms by (auto simp: moved_def)

lemma moved_start: "is_value (PDict kvs) \<Longrightarrow> moved L lim a kvs [] kvs []"
  by (simp add: moved_def)

lemma moved_put:
  assumes m: "moved L lim a kvs0 F kvs sc" and f: "f \<notin> set F" "map_of kvs f = Some v"
    and b: "build_spill L lim a f v = Inr (Some (ref, fsc))"
  shows "moved L lim a kvs0 (F @ [f]) (dict_put f ref kvs) (sc @ fsc)"
proof -
  note r = build_spill_some [OF b]
  have v0: "map_of kvs0 f = Some v" using movedD(3) [OF m f(1)] f(2) by simp
  have "is_value ref" using r reference_value by (auto simp: moved_value_def)
  then have "is_value (PDict (dict_put f ref kvs))" using movedD(2) [OF m] by (rule is_value_dict_put [rotated])
  moreover have "\<exists>v ref'. map_of kvs0 g = Some v \<and> map_of (dict_put f ref kvs) g = Some ref' \<and> moved_value L lim a g v ref'"
    if "g \<in> set (F @ [f])" for g
  proof (cases "g = f")
    case True
    then show ?thesis using v0 r by simp
  next
    case False
    then have "g \<in> set F" using that by simp
    from movedD(4) [OF m this] show ?thesis using False by simp
  qed
  moreover have "map_of (dict_put f ref kvs) g = map_of kvs0 g" if "g \<notin> set (F @ [f])" for g
    using that movedD(3) [OF m, of g] by simp
  ultimately show ?thesis
    using movedD(1,5) [OF m] f(1) v0 r by (simp only: moved_def) simp
qed

text \<open>The evidence is moved only together with the prior items.\<close>

definition paired :: "string list \<Rightarrow> dict \<Rightarrow> bool" where
  "paired F kvs \<longleftrightarrow> (''risk_test_matrix_evidence'' \<in> set F \<longrightarrow> is_spill_reference (py_get (PDict kvs) ''prior_items''))"

lemma py_get_dict: "py_get (PDict kvs) k = (case map_of kvs k of None \<Rightarrow> PNone | Some v \<Rightarrow> v)"
  by (simp split: option.splits)

lemma paired_put:
  assumes "paired F kvs" "is_spill_reference ref" "f \<noteq> ''risk_test_matrix_evidence''"
  shows "paired (F @ [f]) (dict_put f ref kvs)"
  using assms by (auto simp: paired_def py_get_dict)

lemma force_prior_moved:
  assumes m: "moved L lim a kvs0 F kvs sc" "paired F kvs" and f: "force_prior_items L lim a f kvs = Inr (kvs', psc)" "f \<notin> set F"
  shows "\<exists>F'. moved L lim a kvs0 (F @ F') kvs' (sc @ psc) \<and> paired (F @ F') kvs' \<and> f \<notin> set (F @ F') \<and> map_of kvs' f = map_of kvs f
     \<and> (f = ''risk_test_matrix_evidence'' \<longrightarrow> is_spill_reference (py_get (PDict kvs') ''prior_items''))
     \<and> set F' \<subseteq> (if f = ''risk_test_matrix_evidence'' then {''prior_items''} else {})"
proof (cases "f = ''risk_test_matrix_evidence'' \<and> \<not> is_spill_reference (py_get (PDict kvs) ''prior_items'')")
  case True
  then obtain v ref where v: "map_of kvs ''prior_items'' = Some v" "build_spill L lim a ''prior_items'' v = Inr (Some (ref, psc))"
      "kvs' = dict_put ''prior_items'' ref kvs"
    using f(1) by (auto simp: force_prior_items_def bindE_Inr_iff split: option.splits)
  have p: "''prior_items'' \<notin> set F"
  proof
    assume "''prior_items'' \<in> set F"
    from movedD(4) [OF m(1) this] obtain w ref' where "map_of kvs ''prior_items'' = Some ref'" "moved_value L lim a ''prior_items'' w ref'" by auto
    then show False using True moved_value_reference [of L lim a "''prior_items''" w ref'] by (simp add: py_get_dict)
  qed
  have ref: "is_spill_reference ref" using build_spill_some [OF v(2)] moved_value_reference by blast
  show ?thesis
    using moved_put [OF m(1) p v(1,2)] paired_put [OF m(2) ref, of "''prior_items''"] True f(2) ref
    by (intro exI [of _ "[''prior_items'']"]) (simp add: v(3) py_get_dict)
next
  case False
  then have "kvs' = kvs" "psc = []" using f(1) by (auto simp: force_prior_items_def)
  then show ?thesis using m f(2) False by (intro exI [of _ "[]"]) auto
qed

definition allowed_growth :: "bool \<Rightarrow> string list \<Rightarrow> bool" where
  "allowed_growth growth F \<longleftrightarrow> growth \<or> set F \<inter> set GROWTH_SPILL_FIELDS = {}"

lemma spill_field_moved:
  assumes m: "moved L lim a kvs0 F kvs sc" "paired F kvs" "allowed_growth growth F" and f: "f \<notin> set F"
    and r: "spill_field L lim a ahead behind growth current f (kvs, sc) = Inr (kvs', sc')"
  shows "\<exists>F'. moved L lim a kvs0 F' kvs' sc' \<and> paired F' kvs' \<and> allowed_growth growth F'
     \<and> set F' \<subseteq> set F \<union> {f} \<union> (if f = ''risk_test_matrix_evidence'' then {''prior_items''} else {})"
proof (cases "(kvs', sc') = (kvs, sc)")
  case True
  then show ?thesis using m by (intro exI [of _ F]) auto
next
  case False
  obtain v where v: "map_of kvs f = Some v" using r False by (auto simp: spill_field_def split: if_splits option.splits)
  have g: "f \<in> set GROWTH_SPILL_FIELDS \<Longrightarrow> growth" using r False by (auto simp: spill_field_def split: if_splits)
  obtain spill where sp: "build_spill L lim a f v = Inr spill"
    using r False v g by (auto simp: spill_field_def bindE_Inr_iff split: if_splits)
  obtain ref fsc where spill: "spill = Some (ref, fsc)" using r False v g sp by (cases spill) (auto simp: spill_field_def split: if_splits)
  obtain kvs1 psc where p: "force_prior_items L lim a f kvs = Inr (kvs1, psc)" "kvs' = dict_put f ref kvs1" "sc' = sc @ psc @ fsc"
    using r False v g sp spill by (auto simp: spill_field_def bindE_Inr_iff split: if_splits)
  note b = sp [unfolded spill]
  from force_prior_moved [OF m(1,2) p(1) f] obtain P where P: "moved L lim a kvs0 (F @ P) kvs1 (sc @ psc)" "paired (F @ P) kvs1"
      "f \<notin> set (F @ P)" "map_of kvs1 f = map_of kvs f"
      "f = ''risk_test_matrix_evidence'' \<longrightarrow> is_spill_reference (py_get (PDict kvs1) ''prior_items'')"
      "set P \<subseteq> (if f = ''risk_test_matrix_evidence'' then {''prior_items''} else {})"
    by (elim exE conjE) (rule that)
  have m': "moved L lim a kvs0 ((F @ P) @ [f]) kvs' sc'"
    using moved_put [OF P(1,3) _ b] P(4) v by (simp add: p(2,3))
  have ref: "is_spill_reference ref" using build_spill_some [OF b] moved_value_reference by blast
  have pair: "paired ((F @ P) @ [f]) kvs'"
  proof (cases "f = ''risk_test_matrix_evidence''")
    case True
    then show ?thesis using P(5) by (simp add: paired_def p(2) py_get_dict)
  next
    case False
    then show ?thesis unfolding p(2) by (rule paired_put [OF P(2) ref])
  qed
  have "allowed_growth growth ((F @ P) @ [f])"
  proof (cases "f \<in> set GROWTH_SPILL_FIELDS")
    case True
    then show ?thesis using g by (simp add: allowed_growth_def)
  next
    case False
    then have "P = []" using P(6) by (auto simp: GROWTH_SPILL_FIELDS_def split: if_splits)
    then show ?thesis using m(3) False by (auto simp: allowed_growth_def)
  qed
  then show ?thesis using m' pair P(6) by (intro exI [of _ "(F @ P) @ [f]"]) auto
qed

fun in_order :: "string list \<Rightarrow> bool" where
  "in_order [] = True"
| "in_order (f # fs) = (f \<notin> set fs \<and> (f = ''risk_test_matrix_evidence'' \<longrightarrow> ''prior_items'' \<notin> set fs) \<and> in_order fs)"

lemma spill_order: "in_order SPILL_FIELDS"
  by (simp add: SPILL_FIELDS_def GROWTH_SPILL_FIELDS_def)

lemma spill_fields_moved:
  assumes "moved L lim a kvs0 F kvs sc" "paired F kvs" "allowed_growth growth F" "in_order fs" "set fs \<inter> set F = {}"
    and "spill_fields L lim a ahead behind growth fs (kvs, sc) = Inr (kvs', sc')"
  shows "\<exists>F'. moved L lim a kvs0 F' kvs' sc' \<and> paired F' kvs' \<and> allowed_growth growth F'
     \<and> set F' \<subseteq> set F \<union> set fs \<union> (if ''risk_test_matrix_evidence'' \<in> set fs then {''prior_items''} else {})"
  using assms
proof (induction fs arbitrary: F kvs sc)
  case Nil
  then show ?case by (intro exI [of _ F]) auto
next
  case (Cons f fs)
  obtain current where c: "render_anchor L lim ahead behind kvs = Inr current"
    using Cons.prems(6) by (auto simp: bindE_Inr_iff)
  show ?case
  proof (cases "length current \<le> max_body lim")
    case True
    then have "(kvs', sc') = (kvs, sc)" using Cons.prems(6) c by simp
    then show ?thesis using Cons.prems by (intro exI [of _ F]) auto
  next
    case False
    then obtain kvs1 sc1 where s: "spill_field L lim a ahead behind growth current f (kvs, sc) = Inr (kvs1, sc1)"
        "spill_fields L lim a ahead behind growth fs (kvs1, sc1) = Inr (kvs', sc')"
      using Cons.prems(6) c by (auto simp: bindE_Inr_iff)
    have "f \<notin> set F" using Cons.prems(5) by auto
    from spill_field_moved [OF Cons.prems(1-3) this s(1)] obtain G where G: "moved L lim a kvs0 G kvs1 sc1" "paired G kvs1" "allowed_growth growth G"
        "set G \<subseteq> set F \<union> {f} \<union> (if f = ''risk_test_matrix_evidence'' then {''prior_items''} else {})"
      by (elim exE conjE) (rule that)
    have "x \<notin> set G" if x: "x \<in> set fs" for x
    proof
      assume "x \<in> set G"
      then have "x \<in> set F \<or> x = f \<or> f = ''risk_test_matrix_evidence'' \<and> x = ''prior_items''"
        using subsetD [OF G(4), of x] by (auto split: if_splits)
      then show False using Cons.prems(4,5) x by auto
    qed
    then have "set fs \<inter> set G = {}" by blast
    from Cons.IH [OF G(1-3) _ this s(2)] Cons.prems(4) obtain F' where F': "moved L lim a kvs0 F' kvs' sc'" "paired F' kvs'" "allowed_growth growth F'"
        "set F' \<subseteq> set G \<union> set fs \<union> (if ''risk_test_matrix_evidence'' \<in> set fs then {''prior_items''} else {})" by auto
    have "set F' \<subseteq> set F \<union> set (f # fs) \<union> (if ''risk_test_matrix_evidence'' \<in> set (f # fs) then {''prior_items''} else {})"
      using F'(4) G(4) by (auto split: if_splits)
    then show ?thesis using F' by blast
  qed
qed

lemma spilled_from_start:
  assumes "is_value (PDict kvs)" "spill_fields L lim a ahead behind growth SPILL_FIELDS (kvs, []) = Inr (kvs', sc')"
  shows "\<exists>F. moved L lim a kvs F kvs' sc' \<and> paired F kvs' \<and> allowed_growth growth F \<and> set F \<subseteq> set SPILL_FIELDS"
proof -
  have "\<exists>F. moved L lim a kvs F kvs' sc' \<and> paired F kvs' \<and> allowed_growth growth F
     \<and> set F \<subseteq> set [] \<union> set SPILL_FIELDS \<union> (if ''risk_test_matrix_evidence'' \<in> set SPILL_FIELDS then {''prior_items''} else {})"
    by (rule spill_fields_moved [OF moved_start [OF assms(1)] _ _ spill_order _ assms(2)]) (simp_all add: paired_def allowed_growth_def)
  moreover have "''prior_items'' \<in> set SPILL_FIELDS" by (simp add: SPILL_FIELDS_def GROWTH_SPILL_FIELDS_def)
  ultimately show ?thesis by (auto split: if_splits)
qed

section \<open>Reading a comment back\<close>

lemma hydrate_all:
  fixes goal :: "string \<Rightarrow> pyval option"
  assumes "distinct fs" "snd st = []" "\<And>k. k \<notin> set fs \<Longrightarrow> map_of (fst st) k = goal k"
    and "\<And>k. k \<in> set fs \<Longrightarrow>
      map_of (fst st) k = goal k \<and> (\<forall>d. dict_value (goal k) = Some d \<longrightarrow> reference_key d \<notin> fst ` set d)
      \<or> (\<exists>ref v. map_of (fst st) k = Some (PDict ref) \<and> reference_key ref \<in> fst ` set ref \<and> goal k = Some v
           \<and> hydrate_field L lim parts k ref = Some v)"
  shows "snd (fold (hydrate_step L lim parts) fs st) = [] \<and> map_of (fst (fold (hydrate_step L lim parts) fs st)) = goal"
  using assms
proof (induction fs arbitrary: st)
  case Nil
  then show ?case by auto
next
  case (Cons f fs)
  let ?st = "hydrate_step L lim parts f st"
  have f: "snd ?st = [] \<and> map_of (fst ?st) f = goal f \<and> (\<forall>k. k \<noteq> f \<longrightarrow> map_of (fst ?st) k = map_of (fst st) k)"
  proof -
    consider (plain) "map_of (fst st) f = goal f" "\<forall>d. dict_value (goal f) = Some d \<longrightarrow> reference_key d \<notin> fst ` set d"
      | (ref) ref v where "map_of (fst st) f = Some (PDict ref)" "reference_key ref \<in> fst ` set ref" "goal f = Some v"
          "hydrate_field L lim parts f ref = Some v"
      using Cons.prems(4) [of f] by auto
    then show ?thesis
    proof cases
      case plain
      then have "?st = st" by (auto simp: hydrate_step_def split: option.splits)
      then show ?thesis using plain Cons.prems(2) by simp
    next
      case ref
      then have "?st = (dict_put f v (fst st), snd st)" by (simp add: hydrate_step_def)
      then show ?thesis using ref Cons.prems(2) by simp
    qed
  qed
  have d: "f \<notin> set fs" "distinct fs" using Cons.prems(1) by simp_all
  have "snd (fold (hydrate_step L lim parts) fs ?st) = [] \<and> map_of (fst (fold (hydrate_step L lim parts) fs ?st)) = goal"
  proof (rule Cons.IH [OF d(2)])
    show "snd ?st = []" using f by simp
    show "map_of (fst ?st) k = goal k" if "k \<notin> set fs" for k
      using f Cons.prems(3) [of k] that by (cases "k = f") simp_all
    fix k assume k: "k \<in> set fs"
    then have "k \<noteq> f" using d by auto
    then have "map_of (fst ?st) k = map_of (fst st) k" using f by simp
    then show "map_of (fst ?st) k = goal k \<and> (\<forall>d. dict_value (goal k) = Some d \<longrightarrow> reference_key d \<notin> fst ` set d)
      \<or> (\<exists>ref v. map_of (fst ?st) k = Some (PDict ref) \<and> reference_key ref \<in> fst ` set ref \<and> goal k = Some v
           \<and> hydrate_field L lim parts k ref = Some v)"
      using Cons.prems(4) [of k] k by simp
  qed
  then show ?case by simp
qed

lemma part_entry_key:
  assumes "v \<in> set (sidecar_values b)" "part_entry v = Some ((a, f, j), kvs)"
  shows "(a, f) \<in> set (attachment_keys b)"
proof -
  have kvs: "v = PDict kvs" "part_of kvs = Some (a, f, j)" using assms(2) by (cases v; auto simp: part_entry_def)+
  then obtain x y where "map_of kvs ''anchor'' = Some x" "map_of kvs ''field'' = Some y" "a = py_str x" "f = py_str y"
    by (auto simp: part_of_def split: option.splits if_splits)
  then show ?thesis
    using assms(1) kvs(1) by (auto simp: attachment_keys_def List.map_filter_def image_iff intro!: bexI [of _ v])
qed

lemma labelled_sidecars:
  assumes "label_sidecars sc kind = Inr labelled"
  shows "b \<in> set labelled \<Longrightarrow> \<exists>s label. s \<in> set sc \<and> CHR ''<'' \<notin> set label \<and> b = label @ s"
    and "s \<in> set sc \<Longrightarrow> \<exists>b label. b \<in> set labelled \<and> CHR ''<'' \<notin> set label \<and> b = label @ s"
proof -
  have l: "list_all2 (\<lambda>s l. \<exists>label. CHR ''<'' \<notin> set label \<and> l = label @ s) sc labelled"
    using assms unfolding label_sidecars_def by (rule label_from_all)
  have len: "length labelled = length sc" using list_all2_lengthD [OF l] by simp
  show "\<exists>s label. s \<in> set sc \<and> CHR ''<'' \<notin> set label \<and> b = label @ s" if "b \<in> set labelled"
  proof -
    from that obtain i where i: "i < length sc" "labelled ! i = b" unfolding in_set_conv_nth len by blast
    from list_all2_nthD [OF l i(1)] obtain label where "CHR ''<'' \<notin> set label" "b = label @ sc ! i" using i(2) by auto
    then show ?thesis using nth_mem [OF i(1)] by blast
  qed
  show "\<exists>b label. b \<in> set labelled \<and> CHR ''<'' \<notin> set label \<and> b = label @ s" if "s \<in> set sc"
  proof -
    from that obtain i where i: "i < length sc" "sc ! i = s" unfolding in_set_conv_nth by blast
    from list_all2_nthD [OF l i(1)] obtain label where "CHR ''<'' \<notin> set label" "labelled ! i = label @ s" using i(2) by auto
    moreover have "labelled ! i \<in> set labelled" using i(1) len by simp
    ultimately show ?thesis by metis
  qed
qed

definition no_references :: "dict \<Rightarrow> bool" where
  "no_references kvs \<longleftrightarrow>
     list_all (\<lambda>f. case dict_value (map_of kvs f) of None \<Rightarrow> True | Some d \<Rightarrow> \<not> list_ex (\<lambda>k. k \<in> fst ` set d) ROUND_REFERENCE_KEYS) SPILL_FIELDS"

definition readable_fields :: "limits \<Rightarrow> dict \<Rightarrow> bool" where
  "readable_fields lim kvs \<longleftrightarrow>
     list_all (\<lambda>(k, v). case spill_bytes v of None \<Rightarrow> True | Some (raw, enc) \<Rightarrow> length raw \<le> max_raw lim) kvs"

lemma no_references_plain:
  assumes "no_references kvs" "f \<in> set SPILL_FIELDS" "dict_value (map_option json_norm (map_of kvs f)) = Some d"
  shows "reference_key d \<notin> fst ` set d"
proof -
  obtain v where v: "map_of kvs f = Some v" "dict_value (Some (json_norm v)) = Some d" using assms(3) by (cases "map_of kvs f") auto
  then obtain d0 where d0: "v = PDict d0" "d = norm_items d0" by (cases v) (auto simp: norm_items_def)
  have "case dict_value (map_of kvs f) of None \<Rightarrow> True | Some d \<Rightarrow> \<not> list_ex (\<lambda>k. k \<in> fst ` set d) ROUND_REFERENCE_KEYS"
    using assms(1) unfolding no_references_def list_all_iff by (rule bspec) (rule assms(2))
  then have "\<not> list_ex (\<lambda>k. k \<in> fst ` set d0) ROUND_REFERENCE_KEYS" by (simp only: v(1) d0(1) dict_value.simps option.case not_False_eq_True)
  then have "k \<notin> fst ` set d0" if "k \<in> set ROUND_REFERENCE_KEYS" for k using that by (auto simp: list_ex_iff)
  moreover have "reference_key d \<in> set ROUND_REFERENCE_KEYS" by (simp add: reference_key_def ROUND_REFERENCE_KEYS_def)
  ultimately show ?thesis by (simp add: d0(2))
qed

text \<open>The attachments of a moved field are collected in order, from comments in any order.\<close>

lemma moved_field_collected:
  assumes L: "zlib_laws L" "0 < part_chars lim" and m: "moved L lim a kvs F kvs' sc"
    and l: "label_sidecars sc kind = Inr labelled" "set labelled \<subseteq> set bodies"
    and other: "\<And>b. b \<in> set bodies \<Longrightarrow> b \<notin> set labelled \<Longrightarrow> a \<notin> fst ` set (attachment_keys b)"
    and f: "f \<in> set F" "map_of kvs f = Some v" "spill_bytes v = Some (raw, enc)"
  shows "ordered_parts (collect_parts bodies) a f (int (length (chunks (part_chars lim) (b64 (deflate L raw))))) =
      Some (map (\<lambda>i. norm_items (spill_item L lim a f raw enc i)) [0..<length (chunks (part_chars lim) (b64 (deflate L raw)))])"
  unfolding collect_parts_def
proof (rule ordered_parts_of)
  let ?n = "length (chunks (part_chars lim) (b64 (deflate L raw)))"
  let ?vs = "concat (map sidecar_values bodies)"
  have sc: "set sc = (\<Union>g \<in> set F. set (field_sidecars L lim a g (the (map_of kvs g))))" by (simp add: movedD(5) [OF m])
  show "0 < ?n" using L by (simp add: zlib_laws_def chunks_empty)
  show "Some ((a, f, int i), norm_items (spill_item L lim a f raw enc i)) \<in> part_entry ` set ?vs" if i: "i < ?n" for i
  proof -
    let ?s = "sidecar (spill_item L lim a f raw enc i)"
    have "?s \<in> set (field_sidecars L lim a f v)" using i f(3) by (simp add: field_sidecars_def)
    then have "?s \<in> set sc" unfolding sc using f(1,2) by force
    from labelled_sidecars(2) [OF l(1) this] obtain b label where b: "b \<in> set labelled" "CHR ''<'' \<notin> set label" "b = label @ ?s"
      by (elim exE conjE) (rule that)
    have "PDict (norm_items (spill_item L lim a f raw enc i)) \<in> set (sidecar_values b)"
      unfolding b(3) sidecar_values_of [OF b(2) spill_item_value] by simp
    then have "PDict (norm_items (spill_item L lim a f raw enc i)) \<in> set ?vs" using b(1) l(2) by auto
    from imageI [OF this, of part_entry] show ?thesis by (simp only: spill_item_part [OF i])
  qed
  show "is_value (PDict (norm_items (spill_item L lim a f raw enc i)))" for i
    by (rule is_value_norm [OF spill_item_value])
  fix w j d assume w: "w \<in> set ?vs" "part_entry w = Some ((a, f, j), d)"
  then obtain b where b: "b \<in> set bodies" "w \<in> set (sidecar_values b)" by auto
  have "a \<in> fst ` set (attachment_keys b)" using part_entry_key [OF b(2) w(2)] by force
  then have "b \<in> set labelled" using other b(1) by blast
  from labelled_sidecars(1) [OF l(1) this] obtain s label where s: "s \<in> set sc" "CHR ''<'' \<notin> set label" "b = label @ s"
    by (elim exE conjE) (rule that)
  from s(1) obtain g where g: "g \<in> set F" "s \<in> set (field_sidecars L lim a g (the (map_of kvs g)))" unfolding sc by auto
  then obtain raw' enc' where r: "spill_bytes (the (map_of kvs g)) = Some (raw', enc')"
    by (cases "spill_bytes (the (map_of kvs g))") (auto simp: field_sidecars_def)
  then obtain i where i: "s = sidecar (spill_item L lim a g raw' enc' i)" "i < length (chunks (part_chars lim) (b64 (deflate L raw')))"
    using g(2) by (auto simp: field_sidecars_def)
  have "sidecar_values b = [PDict (norm_items (spill_item L lim a g raw' enc' i))]"
    unfolding s(3) i(1) by (rule sidecar_values_of [OF s(2) spill_item_value])
  then have "w = PDict (norm_items (spill_item L lim a g raw' enc' i))" using b(2) by simp
  then have e: "(a, f, j) = (a, g, int i)" "d = norm_items (spill_item L lim a g raw' enc' i)"
    using w(2) spill_item_part [OF i(2), of a g enc'] by auto
  then have "raw' = raw" "enc' = enc" using r f(2,3) by simp_all
  then show "\<exists>i < ?n. j = int i \<and> d = norm_items (spill_item L lim a f raw enc i)" using e i(2) by auto
qed

lemma stored_reads_back:
  assumes L: "zlib_laws L" "0 < part_chars lim" and m: "moved L lim a kvs F kvs' sc" "set F \<subseteq> set SPILL_FIELDS"
    and kvs: "is_value (PDict kvs)" "no_references kvs" "readable_fields lim kvs"
    and l: "label_sidecars sc kind = Inr labelled" "set labelled \<subseteq> set bodies"
    and other: "\<And>b. b \<in> set bodies \<Longrightarrow> b \<notin> set labelled \<Longrightarrow> a \<notin> fst ` set (attachment_keys b)"
  shows "snd (hydrate_mapping L lim (norm_items kvs') bodies) = []
    \<and> map_of (fst (hydrate_mapping L lim (norm_items kvs') bodies)) = (\<lambda>k. map_option json_norm (map_of kvs k))"
  unfolding hydrate_mapping_def
proof (rule hydrate_all)
  have d: "distinct (map fst kvs')" using movedD(2) [OF m(1)] by simp
  show "distinct SPILL_FIELDS" by (simp add: SPILL_FIELDS_def GROWTH_SPILL_FIELDS_def)
  show "map_of (fst (norm_items kvs', [])) k = map_option json_norm (map_of kvs k)" if "k \<notin> set SPILL_FIELDS" for k
  proof -
    have "k \<notin> set F" using that m(2) by auto
    then show ?thesis using movedD(3) [OF m(1), of k] by (simp add: map_of_norm_items [OF d])
  qed
  fix k assume k: "k \<in> set SPILL_FIELDS"
  show "map_of (fst (norm_items kvs', [])) k = map_option json_norm (map_of kvs k)
      \<and> (\<forall>d. dict_value (map_option json_norm (map_of kvs k)) = Some d \<longrightarrow> reference_key d \<notin> fst ` set d)
    \<or> (\<exists>ref v. map_of (fst (norm_items kvs', [])) k = Some (PDict ref) \<and> reference_key ref \<in> fst ` set ref
      \<and> map_option json_norm (map_of kvs k) = Some v \<and> hydrate_field L lim (collect_parts bodies) k ref = Some v)"
  proof (cases "k \<in> set F")
    case False
    then show ?thesis using movedD(3) [OF m(1) False] no_references_plain [OF kvs(2) k] by (simp add: map_of_norm_items [OF d])
  next
    case True
    from movedD(4) [OF m(1) True] obtain v raw enc where v: "map_of kvs k = Some v" "spill_bytes v = Some (raw, enc)"
        "length (deflate L raw) \<le> max_packed lim" "map_of kvs' k = Some (PDict (spill_reference L lim a k raw enc))"
      by (auto simp: moved_value_def)
    have isv: "is_value v" using kvs(1) v(1) unfolding is_value_dict by blast
    have "length raw \<le> max_raw lim" using kvs(3) map_of_SomeD [OF v(1)] v(2) by (auto simp: readable_fields_def list_all_iff)
    note h = hydrate_spilled [OF L v(2) isv v(3) this moved_field_collected [OF L m(1) l other True v(1,2)]]
    have "map_of (norm_items kvs') k = Some (PDict (norm_items (spill_reference L lim a k raw enc)))"
      by (simp only: map_of_norm_items [OF d] v(4) option.map json_norm_dict)
    moreover have "''$round_transport_spill'' \<in> fst ` set (norm_items (spill_reference L lim a k raw enc))"
      by (simp add: spill_reference_def)
    ultimately show ?thesis using h v(1) by (simp add: reference_key_of)
  qed
qed simp

section \<open>The marker of a comment\<close>

definition META_FRONT :: string where "META_FRONT = ''<!-- '' @ META_TOKEN @ '': ''"

definition meta_comment :: "string \<Rightarrow> string" where
  "meta_comment e = META_FRONT @ e @ '' -->''"

lemma meta_matches:
  assumes "is_payload True e"
  shows "match_marker META_TOKEN True (META_FRONT @ e @ '' -->'' @ t) = Some (META_FRONT, e, '' -->'' @ t)"
proof -
  have f: "marker_front META_TOKEN META_FRONT"
    unfolding marker_front_def META_FRONT_def by (intro exI [of _ "'' ''"] exI [of _ "META_TOKEN @ '':''"]) (simp add: spaces_def is_space_def)
  have z: "marker_close ('' -->'' @ t)" unfolding marker_close_def by (intro exI [of _ "'' ''"] exI [of _ t]) (simp add: spaces_def is_space_def)
  show ?thesis unfolding match_marker_iff [OF plain_tokens(1)] using f z assms by simp
qed

lemma find_markers_member:
  assumes "match_marker token colon s = Some (front, p, z)" "s \<noteq> []"
  shows "(h @ x @ front, p, z) \<in> set (find_markers token colon h (x @ s))"
proof (induction x arbitrary: h)
  case Nil
  then show ?case using assms by (cases s) simp_all
next
  case (Cons c x)
  from Cons.IH [of "h @ [c]"] show ?case by simp
qed

lemma meta_member:
  assumes "is_payload True e"
  shows "(t1 @ META_FRONT, e, '' -->'' @ t2) \<in> set (meta_markers (t1 @ meta_comment e @ t2))"
  using find_markers_member [OF meta_matches [OF assms, of t2], of "[]" t1]
  by (simp add: meta_markers_def markers_def meta_comment_def del: find_markers.simps)

lemma single_meta:
  assumes "is_payload True e" "length (meta_markers (t1 @ meta_comment e @ t2)) = 1"
  shows "meta_markers (t1 @ meta_comment e @ t2) = [(t1 @ META_FRONT, e, '' -->'' @ t2)]"
proof -
  obtain m where m: "meta_markers (t1 @ meta_comment e @ t2) = [m]" using assms(2) by (auto simp: length_Suc_conv)
  then show ?thesis using meta_member [OF assms(1), of t1 t2] by simp
qed

lemma replaced_meta:
  assumes "meta_markers (t1 @ meta_comment e @ t2) = [(t1 @ META_FRONT, e, '' -->'' @ t2)]" "is_payload True q"
  shows "meta_markers (t1 @ meta_comment q @ t2) = [(t1 @ META_FRONT, q, '' -->'' @ t2)]"
  using replaced_payload(1) [OF plain_tokens(1) assms(1) [unfolded meta_markers_def] assms(2)] by (simp add: meta_markers_def meta_comment_def)

lemma whole_meta: "whole_match (t1 @ META_FRONT, q, '' -->'' @ t2) = meta_comment q"
proof -
  have s: "spaces '' ''" by (simp add: spaces_def is_space_def)
  have t: "CHR ''<'' \<notin> set (tl META_FRONT)" "META_FRONT = CHR ''<'' # tl META_FRONT" by (simp_all add: META_FRONT_def META_TOKEN_def)
  from whole_match_text [OF t(1) s, of t1 q t2] show ?thesis unfolding t(2) [symmetric] append_Cons [symmetric] by (simp add: meta_comment_def)
qed

lemma carrier_text_append [simp]: "carrier_text (a @ b) = carrier_text a @ carrier_text b" "carrier_text (x # b) = snd x @ carrier_text b"
  by (simp_all add: carrier_text_def)

lemma replace_segment_at:
  "(Some token, old_text) \<notin> set a \<Longrightarrow>
     replace_segment token old_text new_text (a @ (Some token, old_text) # b) = Some (a @ (Some token, new_text) # b)"
  by (induction a) auto

text \<open>A carrier with one metadata marker, which is a segment of its own.\<close>

definition one_marker :: "segments \<Rightarrow> string \<Rightarrow> segments \<Rightarrow> bool" where
  "one_marker a e b \<longleftrightarrow>
     is_payload True e \<and> length (meta_markers (carrier_text (a @ (Some META_TOKEN, meta_comment e) # b))) = 1"

lemma one_marker_text:
  assumes "one_marker a e b"
  shows "meta_markers (carrier_text (a @ (Some META_TOKEN, meta_comment e) # b)) = [(carrier_text a @ META_FRONT, e, '' -->'' @ carrier_text b)]"
    and "(Some META_TOKEN, meta_comment e) \<notin> set a"
proof -
  have e: "is_payload True e" using assms by (simp add: one_marker_def)
  show m: "meta_markers (carrier_text (a @ (Some META_TOKEN, meta_comment e) # b)) = [(carrier_text a @ META_FRONT, e, '' -->'' @ carrier_text b)]"
    using single_meta [OF e, of "carrier_text a" "carrier_text b"] assms by (simp add: one_marker_def)
  show "(Some META_TOKEN, meta_comment e) \<notin> set a"
  proof
    assume "(Some META_TOKEN, meta_comment e) \<in> set a"
    then obtain a1 a2 where a: "a = a1 @ (Some META_TOKEN, meta_comment e) # a2" by (meson split_list)
    have "(carrier_text a1 @ META_FRONT, e, '' -->'' @ carrier_text a2 @ meta_comment e @ carrier_text b)
        \<in> set (meta_markers (carrier_text (a @ (Some META_TOKEN, meta_comment e) # b)))"
      using meta_member [OF e, of "carrier_text a1" "carrier_text a2 @ meta_comment e @ carrier_text b"] by (simp add: a)
    then show False unfolding m by (simp add: a meta_comment_def META_FRONT_def)
  qed
qed

lemma transported:
  assumes one: "one_marker a e b" and carrier: "carrier = a @ (Some META_TOKEN, meta_comment e) # b"
    and run: "transport_metadata L lim carrier (carrier_text carrier) [] = Inr (sidecars, posted)"
    and kvs: "decode_mapping L lim e = Inr kvs" "is_value (PDict kvs)"
  obtains kvs' F sc q where
    "moved L lim (take 24 (sha256 L (utf8 (carrier_text carrier)))) kvs F kvs' sc" "paired F kvs'"
    "allowed_growth (map_of kvs ''flow'' \<noteq> Some (PStr ''discuss'')) F" "set F \<subseteq> set SPILL_FIELDS"
    "label_sidecars sc (sidecar_kind kvs) = Inr sidecars" "encode_mapping L lim kvs' = Inr q"
    "posted = a @ (Some META_TOKEN, meta_comment q) # b"
    "meta_markers (carrier_text posted) = [(carrier_text a @ META_FRONT, q, '' -->'' @ carrier_text b)]"
    "length (carrier_text posted) \<le> max_body lim" "\<forall>s \<in> set sidecars. length s \<le> max_body lim"
proof -
  let ?id = "take 24 (sha256 L (utf8 (carrier_text carrier)))"
  define h where "h = carrier_text a @ META_FRONT"
  define z where "z = '' -->'' @ carrier_text b"
  note m = one_marker_text(1) [OF one, folded carrier h_def z_def]
  note first = one_marker_text(2) [OF one]
  have r: "bindE (spill_fields L lim ?id h z (map_of kvs ''flow'' \<noteq> Some (PStr ''discuss'')) SPILL_FIELDS (kvs, [])) (\<lambda>(kvs', spilled).
        bindE (label_sidecars spilled (sidecar_kind kvs)) (\<lambda>labelled.
        bindE (render_anchor L lim h z kvs') (\<lambda>anchor.
        if length anchor > max_body lim then Inl (overflow_of L lim (h, e, z) (length (carrier_text carrier) - length e) kvs')
        else if \<exists>s \<in> set labelled. length s > max_body lim then Inl SidecarTooLong
        else case (meta_markers (carrier_text carrier), meta_markers anchor) of
          (old # _, new # _) \<Rightarrow>
            bindE (replace_authorized_marker carrier META_TOKEN (whole_match old) (whole_match new)) (\<lambda>segs. Inr (labelled, segs))
        | _ \<Rightarrow> Inl NoMarker))) = Inr (sidecars, posted)"
    using run unfolding transport_metadata_def m by (simp add: kvs(1) Let_def)
  then obtain kvs' sc where s: "spill_fields L lim ?id h z (map_of kvs ''flow'' \<noteq> Some (PStr ''discuss'')) SPILL_FIELDS (kvs, []) = Inr (kvs', sc)"
    by (auto simp: bindE_Inr_iff)
  obtain labelled where l: "label_sidecars sc (sidecar_kind kvs) = Inr labelled" using r s by (auto simp: bindE_Inr_iff)
  obtain q where q: "encode_mapping L lim kvs' = Inr q" using r s l by (auto simp: bindE_Inr_iff render_anchor_def)
  have pq: "is_payload True q" by (rule encoded_is_payload [OF q])
  have anchor: "render_anchor L lim h z kvs' = Inr (h @ q @ z)" by (simp add: render_anchor_def q)
  have t: "h @ q @ z = carrier_text a @ meta_comment q @ carrier_text b" by (simp add: meta_comment_def h_def z_def)
  have m0: "meta_markers (carrier_text a @ meta_comment e @ carrier_text b) = [(carrier_text a @ META_FRONT, e, '' -->'' @ carrier_text b)]"
    using m by (simp add: carrier h_def z_def)
  note mq = replaced_meta [OF m0 pq, folded t h_def z_def]
  have whole: "whole_match (h, p, z) = meta_comment p" for p unfolding h_def z_def by (rule whole_meta)
  have big: "length (h @ q @ z) \<le> max_body lim" using r s l anchor by (auto split: if_splits)
  have small: "\<not> (\<exists>s \<in> set labelled. length s > max_body lim)" using r s l anchor by (auto split: if_splits)
  have fin: "bindE (replace_authorized_marker carrier META_TOKEN (meta_comment e) (meta_comment q)) (\<lambda>segs. Inr (labelled, segs)) = Inr (sidecars, posted)"
    using r big small unfolding s l anchor bindE_simps case_prod_conv m mq by (simp add: whole)
  then have out: "sidecars = labelled" "replace_authorized_marker carrier META_TOKEN (meta_comment e) (meta_comment q) = Inr posted"
    by (auto simp: bindE_Inr_iff)
  have posted: "posted = a @ (Some META_TOKEN, meta_comment q) # b"
    using out(2) replace_segment_at [OF first] by (auto simp: replace_authorized_marker_def carrier split: if_splits)
  from spilled_from_start [OF kvs(2) s] obtain F where F: "moved L lim ?id kvs F kvs' sc" "paired F kvs'"
      "allowed_growth (map_of kvs ''flow'' \<noteq> Some (PStr ''discuss'')) F" "set F \<subseteq> set SPILL_FIELDS"
    by (elim exE conjE) (rule that)
  show ?thesis
    by (rule that [OF F l [folded out(1)] q posted]) (use mq big small in \<open>auto simp: posted out(1) t h_def z_def meta_comment_def\<close>)
qed

section \<open>Properties\<close>

text \<open>C29: A round comment that was moved to attachments reads back in full.  For a comment with one authorized metadata
  marker, the posted comment has the same text around a new payload; whatever other comments there are and in whatever
  order and number the attachments stand among them, every field hydrates to the value it had (lists for tuples, keys of
  nested dicts in order) and nothing is missing, unless some other comment carries an attachment of the same anchor.  The writer bounds only
  compressed sizes, so that the stored mapping is within the reader's bound on decompressed bytes is a condition.\<close>

theorem spilled_comment_reads_back:
  assumes "zlib_laws L" "0 < part_chars lim"
    and "one_marker a e b" "carrier = a @ (Some META_TOKEN, meta_comment e) # b"
    and "decode_mapping L lim e = Inr kvs" "is_value (PDict kvs)" "no_references kvs" "readable_fields lim kvs"
    and "transport_metadata L lim carrier (carrier_text carrier) [] = Inr (sidecars, posted)"
  shows "\<exists>stored q. posted = a @ (Some META_TOKEN, meta_comment q) # b
    \<and> meta_markers (carrier_text posted) = [(carrier_text a @ META_FRONT, q, '' -->'' @ carrier_text b)]
    \<and> encode_mapping L lim stored = Inr q
    \<and> (length (mapping_bytes stored) \<le> max_raw lim \<longrightarrow>
        (\<forall>bodies. set sidecars \<subseteq> set bodies
            \<and> (\<forall>c \<in> set bodies - set sidecars. take 24 (sha256 L (utf8 (carrier_text carrier))) \<notin> fst ` set (attachment_keys c)) \<longrightarrow>
          (\<exists>payload. decode_mapping L lim q = Inr payload
            \<and> snd (hydrate_mapping L lim payload bodies) = []
            \<and> map_of (fst (hydrate_mapping L lim payload bodies)) = (\<lambda>k. map_option json_norm (map_of kvs k)))))"
proof -
  obtain kvs' F sc q where t: "moved L lim (take 24 (sha256 L (utf8 (carrier_text carrier)))) kvs F kvs' sc" "set F \<subseteq> set SPILL_FIELDS"
      "label_sidecars sc (sidecar_kind kvs) = Inr sidecars" "encode_mapping L lim kvs' = Inr q"
      "posted = a @ (Some META_TOKEN, meta_comment q) # b"
      "meta_markers (carrier_text posted) = [(carrier_text a @ META_FRONT, q, '' -->'' @ carrier_text b)]"
    using transported [OF assms(3,4,9,5,6)] by metis
  have read: "\<exists>payload. decode_mapping L lim q = Inr payload \<and> snd (hydrate_mapping L lim payload bodies) = []
      \<and> map_of (fst (hydrate_mapping L lim payload bodies)) = (\<lambda>k. map_option json_norm (map_of kvs k))"
    if size: "length (mapping_bytes kvs') \<le> max_raw lim"
      and bodies: "set sidecars \<subseteq> set bodies"
        "\<forall>c \<in> set bodies - set sidecars. take 24 (sha256 L (utf8 (carrier_text carrier))) \<notin> fst ` set (attachment_keys c)" for bodies
  proof (intro exI conjI)
    show "decode_mapping L lim q = Inr (norm_items kvs')" by (rule decode_encode [OF assms(1) t(4) movedD(2) [OF t(1)] size])
    have other: "take 24 (sha256 L (utf8 (carrier_text carrier))) \<notin> fst ` set (attachment_keys c)" if "c \<in> set bodies" "c \<notin> set sidecars" for c
      using bodies(2) that by blast
    from stored_reads_back [OF assms(1,2) t(1,2) assms(6-8) t(3) bodies(1) other]
    show "snd (hydrate_mapping L lim (norm_items kvs') bodies) = []"
      "map_of (fst (hydrate_mapping L lim (norm_items kvs') bodies)) = (\<lambda>k. map_option json_norm (map_of kvs k))" by simp_all
  qed
  show ?thesis
    by (rule exI [of _ kvs'], rule exI [of _ q], intro conjI impI allI t(4-6)) (elim conjE, rule read)
qed

text \<open>C31: What is moved.  The comment and all attachments that are posted fit in a body; only listed fields
  differ from the original mapping, and these are references; the matrix evidence is a reference only if
  the prior items are one; in a discussion round neither of the two is moved.\<close>

theorem moved_fields_are_listed:
  assumes "one_marker a e b" "carrier = a @ (Some META_TOKEN, meta_comment e) # b"
    and "decode_mapping L lim e = Inr kvs" "is_value (PDict kvs)"
    and "transport_metadata L lim carrier (carrier_text carrier) [] = Inr (sidecars, posted)"
  shows "\<exists>stored q. posted = a @ (Some META_TOKEN, meta_comment q) # b \<and> encode_mapping L lim stored = Inr q
    \<and> length (carrier_text posted) \<le> max_body lim \<and> (\<forall>s \<in> set sidecars. length s \<le> max_body lim)
    \<and> (\<forall>k. map_of stored k = map_of kvs k \<or> k \<in> set SPILL_FIELDS \<and> is_spill_reference (py_get (PDict stored) k))
    \<and> (map_of stored ''risk_test_matrix_evidence'' \<noteq> map_of kvs ''risk_test_matrix_evidence'' \<longrightarrow>
         is_spill_reference (py_get (PDict stored) ''prior_items''))
    \<and> (map_of kvs ''flow'' = Some (PStr ''discuss'') \<longrightarrow> (\<forall>k \<in> set GROWTH_SPILL_FIELDS. map_of stored k = map_of kvs k))"
proof -
  obtain kvs' F sc q where t: "moved L lim (take 24 (sha256 L (utf8 (carrier_text carrier)))) kvs F kvs' sc" "paired F kvs'"
      "allowed_growth (map_of kvs ''flow'' \<noteq> Some (PStr ''discuss'')) F" "set F \<subseteq> set SPILL_FIELDS" "encode_mapping L lim kvs' = Inr q"
      "posted = a @ (Some META_TOKEN, meta_comment q) # b"
      "length (carrier_text posted) \<le> max_body lim" "\<forall>s \<in> set sidecars. length s \<le> max_body lim"
    using transported [OF assms(1,2,5,3,4)] by metis
  have kept: "map_of kvs' k = map_of kvs k" if "k \<notin> set F" for k using movedD(3) [OF t(1) that] .
  have ref: "is_spill_reference (py_get (PDict kvs') k)" if "k \<in> set F" for k
    using movedD(4) [OF t(1) that] moved_value_reference by (auto simp: py_get_dict)
  show ?thesis
  proof (rule exI [of _ kvs'], rule exI [of _ q], intro conjI impI allI ballI t(5-7))
    show "length s \<le> max_body lim" if "s \<in> set sidecars" for s using t(8) that by blast
    show "map_of kvs' k = map_of kvs k \<or> k \<in> set SPILL_FIELDS \<and> is_spill_reference (py_get (PDict kvs') k)" for k
      using kept [of k] ref [of k] t(4) by blast
    show "is_spill_reference (py_get (PDict kvs') ''prior_items'')"
      if "map_of kvs' ''risk_test_matrix_evidence'' \<noteq> map_of kvs ''risk_test_matrix_evidence''"
      using kept that t(2) unfolding paired_def by blast
    show "map_of kvs' k = map_of kvs k" if "map_of kvs ''flow'' = Some (PStr ''discuss'')" "k \<in> set GROWTH_SPILL_FIELDS" for k
    proof -
      have "set F \<inter> set GROWTH_SPILL_FIELDS = {}" using t(3) that(1) by (simp add: allowed_growth_def)
      then have "k \<notin> set F" using that(2) by blast
      then show ?thesis by (rule kept)
    qed
  qed
qed

text \<open>
  With two metadata markers the fields of the last are moved, but the segment that is rewritten is that of the first, which
  did not change: the comment that is posted is the original one, whatever its size.
\<close>

lemma second_marker_not_rewritten:
  assumes e: "is_payload True e1" "CHR ''<'' \<notin> set (carrier_text a)"
    and carrier: "carrier = a @ (Some META_TOKEN, meta_comment e1) # c @ (Some META_TOKEN, meta_comment e2) # b"
    and last: "last (meta_markers (carrier_text carrier)) =
      (carrier_text a @ meta_comment e1 @ carrier_text c @ META_FRONT, e2, '' -->'' @ carrier_text b)"
    and run: "transport_metadata L lim carrier (carrier_text carrier) sc0 = Inr (sidecars, posted)"
  shows "posted = carrier"
proof -
  have hd: "\<exists>ms z. meta_markers (carrier_text a @ meta_comment e1 @ t) = (carrier_text a @ META_FRONT, e1, z) # ms \<and> whole_match (carrier_text a @ META_FRONT, e1, z) = meta_comment e1" for t
  proof -
    have no: "\<forall>i < length (carrier_text a). match_marker META_TOKEN True (drop i (carrier_text a @ meta_comment e1 @ t)) = None"
    proof (intro allI impI)
      fix i assume i: "i < length (carrier_text a)"
      then have "drop i (carrier_text a @ meta_comment e1 @ t) = carrier_text a ! i # drop (Suc i) (carrier_text a) @ meta_comment e1 @ t"
        by (simp add: Cons_nth_drop_Suc [symmetric])
      moreover have "carrier_text a ! i \<noteq> CHR ''<''" using i e(2) by (metis nth_mem)
      ultimately show "match_marker META_TOKEN True (drop i (carrier_text a @ meta_comment e1 @ t)) = None"
        using match_starts [of META_TOKEN True "carrier_text a ! i"] by (metis not_None_eq)
    qed
    obtain x xs where x: "META_FRONT @ e1 @ '' -->'' @ t = x # xs" by (cases "META_FRONT @ e1 @ '' -->'' @ t") (auto simp: META_FRONT_def)
    have "meta_markers (carrier_text a @ meta_comment e1 @ t) = find_markers META_TOKEN True (carrier_text a) (META_FRONT @ e1 @ '' -->'' @ t)"
      using find_markers_skip [OF no, of "[]"] by (simp add: meta_markers_def markers_def meta_comment_def)
    also have "\<dots> = (carrier_text a @ META_FRONT, e1, '' -->'' @ t) # find_markers META_TOKEN True (carrier_text a @ [x]) xs"
      unfolding x using meta_matches [OF e(1), of t, unfolded x] by simp
    finally show ?thesis using whole_meta by blast
  qed
  have body: "carrier_text carrier = carrier_text a @ meta_comment e1 @ carrier_text c @ meta_comment e2 @ carrier_text b" by (simp add: carrier)
  obtain z0 ms0 where m0: "meta_markers (carrier_text carrier) = (carrier_text a @ META_FRONT, e1, z0) # ms0" "whole_match (carrier_text a @ META_FRONT, e1, z0) = meta_comment e1"
    using hd [of "carrier_text c @ meta_comment e2 @ carrier_text b"] unfolding body by blast
  define h where "h = carrier_text a @ meta_comment e1 @ carrier_text c @ META_FRONT"
  define z where "z = '' -->'' @ carrier_text b"
  note last' = last [folded z_def, folded h_def]
  have ne: "meta_markers (carrier_text carrier) \<noteq> []" using m0 by simp
  let ?id = "take 24 (sha256 L (utf8 (carrier_text carrier)))"
  have r: "bindE (decode_mapping L lim e2) (\<lambda>kvs.
        bindE (spill_fields L lim ?id h z (map_of kvs ''flow'' \<noteq> Some (PStr ''discuss'')) SPILL_FIELDS (kvs, sc0)) (\<lambda>(kvs', spilled).
        bindE (label_sidecars spilled (sidecar_kind kvs)) (\<lambda>labelled.
        bindE (render_anchor L lim h z kvs') (\<lambda>anchor.
        if length anchor > max_body lim then Inl (overflow_of L lim (h, e2, z) (length (carrier_text carrier) - length e2) kvs')
        else if \<exists>s \<in> set labelled. length s > max_body lim then Inl SidecarTooLong
        else case (meta_markers (carrier_text carrier), meta_markers anchor) of
          (old # _, new # _) \<Rightarrow>
            bindE (replace_authorized_marker carrier META_TOKEN (whole_match old) (whole_match new)) (\<lambda>segs. Inr (labelled, segs))
        | _ \<Rightarrow> Inl NoMarker)))) = Inr (sidecars, posted)"
    using run ne unfolding transport_metadata_def last' by (simp add: Let_def)
  obtain kvs where kvs: "decode_mapping L lim e2 = Inr kvs" using r by (auto simp: bindE_Inr_iff)
  obtain kvs' sc labelled q where s:
      "spill_fields L lim ?id h z (map_of kvs ''flow'' \<noteq> Some (PStr ''discuss'')) SPILL_FIELDS (kvs, sc0) = Inr (kvs', sc)"
      "label_sidecars sc (sidecar_kind kvs) = Inr labelled" "encode_mapping L lim kvs' = Inr q"
    using r kvs by (auto simp: bindE_Inr_iff render_anchor_def)
  have anchor: "render_anchor L lim h z kvs' = Inr (h @ q @ z)" by (simp add: render_anchor_def s(3))
  have t: "h @ q @ z = carrier_text a @ meta_comment e1 @ carrier_text c @ meta_comment q @ carrier_text b" by (simp add: h_def z_def meta_comment_def)
  obtain z1 ms1 where m1: "meta_markers (h @ q @ z) = (carrier_text a @ META_FRONT, e1, z1) # ms1" "whole_match (carrier_text a @ META_FRONT, e1, z1) = meta_comment e1"
    using hd [of "carrier_text c @ meta_comment q @ carrier_text b"] unfolding t by blast
  have "replace_authorized_marker carrier META_TOKEN (meta_comment e1) (meta_comment e1) = Inr carrier" by (simp add: replace_authorized_marker_def)
  then show ?thesis
    using r unfolding kvs s bindE_simps case_prod_conv anchor m0(1) m1(1) by (auto simp: m0(2) m1(2) split: if_splits)
qed

section \<open>An example\<close>

text \<open>Two large fields, of which the first is moved; nothing is compressed.\<close>

definition ex_text :: string where "ex_text = replicate 3000 CHR ''p''"

definition ex_lib :: lib where
  "ex_lib = \<lparr>deflate = (\<lambda>s. CHR ''z'' # s), inflate = (\<lambda>s. if s = [] then None else Some (tl s, [])), sha256 = (\<lambda>s. ''0f'')\<rparr>"

definition ex_limits :: limits where
  "ex_limits = \<lparr>max_body = 8000, max_packed = 7000, max_raw = 7000, part_chars = 5000\<rparr>"

definition ex_mapping :: dict where
  "ex_mapping = [(''assembled_plan_sidecar'', PStr ex_text), (''canonical_plan'', PStr ex_text), (''flow'', PStr ''plan'')]"

definition ex_encoded :: string where
  "ex_encoded = ''v1_'' @ b64 (CHR ''z'' # mapping_bytes ex_mapping)"

definition ex_visible :: segments where "ex_visible = [(None, ''Round 3 of the plan.'')]"

definition ex_carrier :: segments where
  "ex_carrier = ex_visible @ (Some META_TOKEN, meta_comment ex_encoded) # []"

lemma ex_text_facts: "length ex_text = 3000" "concat (map json_plain_char ex_text) = ex_text" "utf8 (ex_text @ s) = ex_text @ utf8 s"
  "utf8 ex_text = ex_text"
proof -
  have j: "concat (map json_plain_char (replicate n CHR ''p'')) = replicate n CHR ''p''" for n
    by (induction n) (simp_all add: json_plain_char_def json_char_def Let_def)
  have u: "utf8 (replicate n CHR ''p'' @ s) = replicate n CHR ''p'' @ utf8 s" for n s by (induction n) simp_all
  show "length ex_text = 3000" by (simp add: ex_text_def)
  show "concat (map json_plain_char ex_text) = ex_text" unfolding ex_text_def by (rule j)
  show "utf8 (ex_text @ s) = ex_text @ utf8 s" for s unfolding ex_text_def by (rule u)
  show "utf8 ex_text = ex_text" using u [of 3000 "[]"] by (simp add: ex_text_def)
qed

lemma ex_mapping_facts: "norm_items ex_mapping = ex_mapping" "is_value (PDict ex_mapping)" "no_references ex_mapping" "readable_fields ex_limits ex_mapping"
  by (simp_all add: ex_mapping_def norm_items_def no_references_def SPILL_FIELDS_def GROWTH_SPILL_FIELDS_def readable_fields_def ex_text_facts ex_limits_def)

lemma ex_size: "length (mapping_bytes ex_mapping) = 6063"
  by (simp add: mapping_bytes_def ex_mapping_def json_plain_char_def json_char_def Let_def ex_text_facts)

lemma ex_laws: "zlib_laws ex_lib" by (simp add: zlib_laws_def ex_lib_def)

lemma ex_encodes: "encode_mapping ex_lib ex_limits ex_mapping = Inr ex_encoded"
  using ex_size by (simp add: encode_mapping_def ex_encoded_def ex_lib_def ex_limits_def mapping_bytes_def)

lemma ex_decodes: "decode_mapping ex_lib ex_limits ex_encoded = Inr ex_mapping"
  using decode_encode [OF ex_laws ex_encodes ex_mapping_facts(2)] ex_size by (simp add: ex_mapping_facts ex_limits_def)

lemma ex_visible_text: "carrier_text ex_visible = ''Round 3 of the plan.''"
  by (simp add: ex_visible_def carrier_text_def)

lemma ex_one_marker: "one_marker ex_visible ex_encoded []"
proof -
  have "is_payload True ex_encoded" by (rule encoded_is_payload [OF ex_encodes])
  then show ?thesis
    using written_marker [OF plain_tokens(1), of True ex_encoded "carrier_text ex_visible"]
    by (simp add: one_marker_def meta_markers_def meta_comment_def META_FRONT_def ex_visible_text carrier_text_def [of "[]"])
qed

definition ex_moved :: dict where
  "ex_moved = dict_put ''assembled_plan_sidecar'' (PDict (spill_reference ex_lib ex_limits ''0f'' ''assembled_plan_sidecar'' ex_text ''text'')) ex_mapping"

definition ex_sidecar :: string where
  "ex_sidecar = sidecar (spill_item ex_lib ex_limits ''0f'' ''assembled_plan_sidecar'' ex_text ''text'' 0)"

lemma ex_chunks: "chunks (part_chars ex_limits) (b64 (deflate ex_lib ex_text)) = [b64 (deflate ex_lib ex_text)]"
proof -
  have "length (b64 (deflate ex_lib ex_text)) = 4004" by (simp add: length_b64 ex_lib_def ex_text_facts)
  then show ?thesis by (subst chunks.simps, subst chunks.simps) (auto simp: ex_limits_def)
qed

lemma ex_one: "int_str 1 = ''1''" "int_str 0 = ''0''" "nat_str 1 = ''1''"
  by code_simp+

lemma ex_moved_size: "length (mapping_bytes ex_moved) \<le> 3300"
proof -
  have r: "spill_reference ex_lib ex_limits ''0f'' ''assembled_plan_sidecar'' ex_text ''text'' =
      [(''$round_transport_spill'', PStr ''0f''), (''field'', PStr ''assembled_plan_sidecar''), (''parts'', PInt 1), (''sha256'', PStr ''0f''),
       (''spill'', PStr ''0f''), (''encoding'', PStr ''text'')]"
    by (simp add: spill_reference_def ex_chunks) (simp add: ex_lib_def)
  show ?thesis unfolding ex_moved_def r mapping_bytes_def ex_mapping_def
    by (simp add: json_plain_char_def json_char_def Let_def ex_text_facts ex_one)
qed

lemma ex_sidecar_size: "length ex_sidecar \<le> 6000"
proof -
  have r: "spill_item ex_lib ex_limits ''0f'' ''assembled_plan_sidecar'' ex_text ''text'' 0 =
      [(''v'', PInt 1), (''anchor'', PStr ''0f''), (''spill'', PStr ''0f''), (''field'', PStr ''assembled_plan_sidecar''),
       (''index'', PInt 0), (''count'', PInt 1), (''sha256'', PStr ''0f''), (''data'', PStr (b64 (deflate ex_lib ex_text))), (''encoding'', PStr ''text'')]"
    by (simp add: spill_item_def ex_chunks) (simp add: ex_lib_def)
  have c: "json_char c = [c] \<and> code c < 128" if "payload_char False c" for c
    using that by (auto simp: payload_char_def json_char_def Let_def)
  have "concat (map json_char s) = s \<and> utf8 (s @ t) = s @ utf8 t" if "\<forall>c \<in> set s. payload_char False c" for s t
    using that c by (induction s) simp_all
  then have d: "concat (map json_char (b64 (deflate ex_lib ex_text))) = b64 (deflate ex_lib ex_text)"
      "utf8 (b64 (deflate ex_lib ex_text) @ t) = b64 (deflate ex_lib ex_text) @ utf8 t" for t
    using b64_payload [of "deflate ex_lib ex_text" False] by simp_all
  have l: "length (b64 (deflate ex_lib ex_text)) = 4004" by (simp add: length_b64 ex_lib_def ex_text_facts)
  have "length (utf8 (json_dumps json_char (PDict (spill_item ex_lib ex_limits ''0f'' ''assembled_plan_sidecar'' ex_text ''text'' 0)))) \<le> 4300"
    unfolding r by (simp add: json_char_def [of "CHR 0x22"] d l ex_one) (simp add: json_char_def Let_def d l)
  then show ?thesis by (simp add: ex_sidecar_def sidecar_def SIDECAR_TOKEN_def length_b64 del: json_dumps.simps)
qed

lemma label_exists: "\<exists>label. sidecar_label ''round'' f 1 1 = Inr label \<and> length label \<le> 300"
proof -
  define name where "name = (if f \<in> set SPILL_FIELDS then f else ''metadata'')"
  have f: "length name \<le> 40 \<and> (\<forall>c \<in> set name. code c < 128)"
    by (auto simp: name_def SPILL_FIELDS_def GROWTH_SPILL_FIELDS_def)
  have one: "nat_str (Suc 0) = ''1''" using ex_one by simp
  have "sidecar_label ''round'' f 1 1 = Inr (''Agent-loop attachment 1/1 (machine-readable overflow: '' @ name
      @ ''). Not an agent response; see the following agent-loop comment.'')"
    using f by (auto simp: sidecar_label_def SIDECAR_KIND_WORDING_def Let_def one name_def [symmetric])
  then show ?thesis using f by auto
qed

lemma ex_labels: "\<exists>labelled. label_sidecars [ex_sidecar] (sidecar_kind ex_mapping) = Inr labelled \<and> (\<forall>s \<in> set labelled. length s \<le> 8000) \<and> labelled \<noteq> []"
proof -
  have k: "sidecar_kind ex_mapping = ''round''" by (simp add: sidecar_kind_def ex_mapping_def)
  obtain label where "sidecar_label ''round'' (sidecar_field ex_sidecar) 1 1 = Inr label" "length label \<le> 300" using label_exists by blast
  then show ?thesis using ex_sidecar_size by (simp add: label_sidecars_def k)
qed

lemma ex_build: "build_spill ex_lib ex_limits ''0f'' ''assembled_plan_sidecar'' (PStr ex_text) =
    Inr (Some (PDict (spill_reference ex_lib ex_limits ''0f'' ''assembled_plan_sidecar'' ex_text ''text''), [ex_sidecar]))"
  using ex_chunks by (simp add: build_spill_def ex_text_facts ex_sidecar_def) (simp add: ex_lib_def ex_limits_def ex_text_facts)

lemma ex_render:
  assumes "length (mapping_bytes kvs) < 6900"
  shows "\<exists>s. render_anchor ex_lib ex_limits h z kvs = Inr s \<and> length s = length h + length z + 3 + (length (mapping_bytes kvs) + 3) div 3 * 4"
  using assms by (simp add: render_anchor_def encode_mapping_def ex_lib_def ex_limits_def Let_def length_b64 mapping_bytes_def del: json_dumps.simps)

lemma ex_spill:
  assumes "length h = 42" "length z = 4"
  shows "spill_fields ex_lib ex_limits ''0f'' h z True SPILL_FIELDS (ex_mapping, []) = Inr (ex_moved, [ex_sidecar])"
proof -
  obtain rest where rest: "SPILL_FIELDS = ''assembled_plan_sidecar'' # ''raw_patch_provenance'' # rest" by (simp add: SPILL_FIELDS_def)
  obtain current where c: "render_anchor ex_lib ex_limits h z ex_mapping = Inr current" "length current = 8137"
    using ex_render [of ex_mapping h z] ex_size assms by auto
  obtain later where l: "render_anchor ex_lib ex_limits h z ex_moved = Inr later" "length later \<le> 5000"
    using ex_render [of ex_moved h z] ex_moved_size assms by auto
  have v: "map_of ex_mapping ''assembled_plan_sidecar'' = Some (PStr ex_text)" by (simp add: ex_mapping_def)
  have f: "force_prior_items ex_lib ex_limits ''0f'' ''assembled_plan_sidecar'' ex_mapping = Inr (ex_mapping, [])" by (simp add: force_prior_items_def)
  have "spill_field ex_lib ex_limits ''0f'' h z True current ''assembled_plan_sidecar'' (ex_mapping, []) = Inr (ex_moved, [ex_sidecar])"
    using l c(2) by (simp add: spill_field_def v ex_build f ex_moved_def [symmetric])
  moreover have "max_body ex_limits = 8000" by (simp add: ex_limits_def)
  ultimately show ?thesis using c l by (simp add: rest)
qed

lemma ex_run: "\<exists>sidecars posted. transport_metadata ex_lib ex_limits ex_carrier (carrier_text ex_carrier) [] = Inr (sidecars, posted) \<and> sidecars \<noteq> []"
proof -
  define h where "h = carrier_text ex_visible @ META_FRONT"
  define z where "z = '' -->'' @ carrier_text []"
  note m = one_marker_text(1) [OF ex_one_marker, folded ex_carrier_def h_def z_def]
  have hz: "length h = 42" "length z = 4" by (simp_all add: h_def z_def ex_visible_text META_FRONT_def META_TOKEN_def carrier_text_def [of "[]"])
  have id: "take 24 (sha256 ex_lib s) = ''0f''" for s by (simp add: ex_lib_def)
  obtain labelled where l: "label_sidecars [ex_sidecar] (sidecar_kind ex_mapping) = Inr labelled" "\<forall>s \<in> set labelled. length s \<le> 8000" "labelled \<noteq> []"
    using ex_labels by blast
  have flow: "map_of ex_mapping ''flow'' \<noteq> Some (PStr ''discuss'')" by (simp add: ex_mapping_def)
  have small: "length (mapping_bytes ex_moved) < 6900" using ex_moved_size by simp
  obtain q where q: "encode_mapping ex_lib ex_limits ex_moved = Inr q"
    using small by (auto simp: encode_mapping_def ex_lib_def ex_limits_def Let_def mapping_bytes_def)
  have lq: "length (h @ q @ z) \<le> 8000"
    using ex_render [OF small, of h z] ex_moved_size hz by (auto simp: render_anchor_def q)
  have pq: "is_payload True q" by (rule encoded_is_payload [OF q])
  have m0: "meta_markers (carrier_text ex_visible @ meta_comment ex_encoded @ carrier_text []) = [(carrier_text ex_visible @ META_FRONT, ex_encoded, '' -->'' @ carrier_text [])]"
    using m by (simp add: ex_carrier_def h_def z_def)
  have t: "h @ q @ z = carrier_text ex_visible @ meta_comment q @ carrier_text []" by (simp add: meta_comment_def h_def z_def)
  note mq = replaced_meta [OF m0 pq, folded t h_def z_def]
  have whole: "whole_match (h, p, z) = meta_comment p" for p unfolding h_def z_def by (rule whole_meta)
  have rep: "\<exists>segs. replace_authorized_marker ex_carrier META_TOKEN (meta_comment ex_encoded) (meta_comment q) = Inr segs"
    using replace_segment_at [OF one_marker_text(2) [OF ex_one_marker], of "meta_comment q" "[]"]
    by (simp add: replace_authorized_marker_def ex_carrier_def)
  then obtain segs where segs: "replace_authorized_marker ex_carrier META_TOKEN (meta_comment ex_encoded) (meta_comment q) = Inr segs" by blast
  have big: "max_body ex_limits = 8000" by (simp add: ex_limits_def)
  have "transport_metadata ex_lib ex_limits ex_carrier (carrier_text ex_carrier) [] = Inr (labelled, segs)"
    unfolding transport_metadata_def m using lq l(2)
    by (simp add: Let_def ex_decodes id flow ex_spill [OF hz] l(1) render_anchor_def q mq whole segs big not_less)
  then show ?thesis using l(3) by blast
qed

lemma packed_size:
  assumes "encode_mapping ex_lib ex_limits kvs = Inr q"
  shows "length (mapping_bytes kvs) \<le> max_raw ex_limits"
  using assms by (auto simp: encode_mapping_def ex_lib_def ex_limits_def mapping_bytes_def Let_def simp del: json_dumps.simps split: if_splits)

lemma no_sidecar_behind_plain_text:
  assumes "CHR ''<'' \<notin> set a" "is_payload True q"
  shows "attachment_keys (a @ meta_comment q) = []"
proof -
  have lt: "CHR ''<'' \<notin> set q" using assms(2) by (auto simp: is_payload_def)
  have "take 19 (''AGENT_LOOP_META: '' @ q @ '' -->'') = ''AGENT_LOOP_META: '' @ take 2 (q @ '' -->'')" by simp
  then have "match_marker SIDECAR_TOKEN False (meta_comment q) = None"
    by (simp add: match_marker_def meta_comment_def META_FRONT_def META_TOKEN_def SIDECAR_TOKEN_def starts_with_def is_space_def py_lower_def lower_char_def)
  moreover have "CHR ''<'' \<notin> set (tl (meta_comment q))" "meta_comment q = CHR ''<'' # tl (meta_comment q)"
    using lt by (simp_all add: meta_comment_def META_FRONT_def META_TOKEN_def)
  ultimately have "unmarked SIDECAR_TOKEN False (meta_comment q)"
    using unmarked_plain [of "tl (meta_comment q)"] unmarked_Cons [of SIDECAR_TOKEN False "CHR ''<''" "tl (meta_comment q)"] by simp
  then have "markers SIDECAR_TOKEN False (a @ meta_comment q) = []"
    unfolding markers_def find_markers_none using unmarked_append [OF assms(1)] by blast
  then show ?thesis by (simp add: attachment_keys_def sidecar_values_def sidecar_payloads_def List.map_filter_def)
qed

theorem spilled_comment_reads_back_witness:
  "\<exists>sidecars posted q payload. transport_metadata ex_lib ex_limits ex_carrier (carrier_text ex_carrier) [] = Inr (sidecars, posted) \<and> sidecars \<noteq> []
    \<and> posted = ex_visible @ [(Some META_TOKEN, meta_comment q)] \<and> decode_mapping ex_lib ex_limits q = Inr payload
    \<and> snd (hydrate_mapping ex_lib ex_limits payload (carrier_text posted # rev sidecars)) = []
    \<and> map_of (fst (hydrate_mapping ex_lib ex_limits payload (carrier_text posted # rev sidecars))) = (\<lambda>k. map_option json_norm (map_of ex_mapping k))"
proof -
  obtain sidecars posted where run: "transport_metadata ex_lib ex_limits ex_carrier (carrier_text ex_carrier) [] = Inr (sidecars, posted)" "sidecars \<noteq> []"
    using ex_run by blast
  have "0 < part_chars ex_limits" by (simp add: ex_limits_def)
  from spilled_comment_reads_back [OF ex_laws this ex_one_marker ex_carrier_def ex_decodes ex_mapping_facts(2-4) run(1)]
  obtain stored q where t: "posted = ex_visible @ (Some META_TOKEN, meta_comment q) # []" "encode_mapping ex_lib ex_limits stored = Inr q"
      "\<And>bodies. length (mapping_bytes stored) \<le> max_raw ex_limits \<Longrightarrow> set sidecars \<subseteq> set bodies
        \<Longrightarrow> \<forall>c \<in> set bodies - set sidecars. take 24 (sha256 ex_lib (utf8 (carrier_text ex_carrier))) \<notin> fst ` set (attachment_keys c) \<Longrightarrow>
       \<exists>payload. decode_mapping ex_lib ex_limits q = Inr payload \<and> snd (hydrate_mapping ex_lib ex_limits payload bodies) = []
        \<and> map_of (fst (hydrate_mapping ex_lib ex_limits payload bodies)) = (\<lambda>k. map_option json_norm (map_of ex_mapping k))"
    by (elim exE conjE) (rule that, assumption+, blast)
  have shown: "carrier_text posted = ''Round 3 of the plan.'' @ meta_comment q" by (simp add: t(1) ex_visible_text carrier_text_def [of "[]"])
  have "attachment_keys (carrier_text posted) = []"
    unfolding shown by (rule no_sidecar_behind_plain_text [OF _ encoded_is_payload [OF t(2)]]) simp
  then have "\<forall>c \<in> set (carrier_text posted # rev sidecars) - set sidecars. take 24 (sha256 ex_lib (utf8 (carrier_text ex_carrier))) \<notin> fst ` set (attachment_keys c)"
    by auto
  from t(3) [OF packed_size [OF t(2)] _ this] run t(1) show ?thesis by auto
qed

theorem moved_fields_are_listed_witness:
  "\<exists>sidecars posted stored q. transport_metadata ex_lib ex_limits ex_carrier (carrier_text ex_carrier) [] = Inr (sidecars, posted) \<and> sidecars \<noteq> []
    \<and> encode_mapping ex_lib ex_limits stored = Inr q \<and> length (carrier_text posted) \<le> 8000
    \<and> map_of stored ''flow'' = Some (PStr ''plan'')"
proof -
  obtain sidecars posted where run: "transport_metadata ex_lib ex_limits ex_carrier (carrier_text ex_carrier) [] = Inr (sidecars, posted)" "sidecars \<noteq> []"
    using ex_run by blast
  from moved_fields_are_listed [OF ex_one_marker ex_carrier_def ex_decodes ex_mapping_facts(2) run(1)]
  obtain stored q where t: "encode_mapping ex_lib ex_limits stored = Inr q" "length (carrier_text posted) \<le> max_body ex_limits"
      "\<forall>k. map_of stored k = map_of ex_mapping k \<or> k \<in> set SPILL_FIELDS \<and> is_spill_reference (py_get (PDict stored) k)"
    by (elim exE conjE) (rule that)
  have "''flow'' \<notin> set SPILL_FIELDS" by (simp add: SPILL_FIELDS_def GROWTH_SPILL_FIELDS_def)
  then have "map_of stored ''flow'' = map_of ex_mapping ''flow''" using t(3) by blast
  moreover have "map_of ex_mapping ''flow'' = Some (PStr ''plan'')" by (simp add: ex_mapping_def)
  moreover have "length (carrier_text posted) \<le> 8000" using t(2) by (simp add: ex_limits_def)
  ultimately show ?thesis using run t(1) by auto
qed

end
