(* ===== verification/Post_Merge.thy ===== *)
theory Post_Merge
  imports Review_Item Py_Equality Text_Ops
begin

text \<open>
  Obligations that can be met only after the merge (\<open>post_merge_obligations.py\<close>): a request names a requirement, its owner and
  a tracking issue; an authorized one is admitted to a registry that is kept in the round records; the evidence
  obligation it answers no longer blocks the merge.  The fields of the round metadata are those of \<open>post_merge_state.py\<close>.

  Sources and provenance are the dicts that the records hold, compared with \<open>py_equal\<close>; an admission that the registry holds is a record.
  SHA-256 is the parameter \<open>H\<close>, and the fences that markdown-it finds in a text are a parameter of \<open>operator_directive\<close>.
  Where the code indexes a dict of an admission or source with a key that its own constructors always write, the model reads
  \<open>None\<close> when it is missing.
\<close>

section \<open>Errors and texts\<close>

datatype pm_error = AgentError string | PyCrash

definition fail :: "string \<Rightarrow> pm_error + 'a" where
  "fail message = Inl (AgentError (''Post-merge scheduling: '' @ message))"

definition digest :: "(string \<Rightarrow> string) \<Rightarrow> pyval \<Rightarrow> string" where
  "digest H v = H (json_dumps json_char v)"

text \<open>\<open>str.splitlines\<close> up to Latin-1.\<close>

definition line_end :: "char \<Rightarrow> bool" where
  "line_end c \<longleftrightarrow> code c \<in> {10, 11, 12, 13, 28, 29, 30, 133}"

fun lines_from :: "string \<Rightarrow> string \<Rightarrow> string list" where
  "lines_from line [] = (if line = [] then [] else [line])"
| "lines_from line (c # cs) =
     (if \<not> line_end c then lines_from (line @ [c]) cs
      else if c = CHR 0x0D \<and> cs \<noteq> [] \<and> hd cs = CHR 0x0A then line # lines_from [] (tl cs)
      else line # lines_from [] cs)"

definition split_lines :: "string \<Rightarrow> string list" where
  "split_lines s = lines_from [] s"

section \<open>Requests\<close>

record request =
  rq_requirement :: string
  rq_rationale :: string
  rq_owner :: string
  rq_tracker :: string
  rq_target_kind :: "string option"
  rq_target_id :: "string option"
  rq_source_text :: "string option"
  rq_matrix :: "string option"

definition MAX_OBLIGATIONS :: nat where "MAX_OBLIGATIONS = 64"

definition REQUEST_FIELDS :: "string list" where
  "REQUEST_FIELDS = [''requirement'', ''rationale'', ''owner'', ''tracker_url'']"

definition TARGET_FIELDS :: "string list" where
  "TARGET_FIELDS = [''target_kind'', ''target_id'', ''source_requirement_text'']"

definition TARGET_KINDS :: "string list" where
  "TARGET_KINDS = [''evidence-item'', ''converted-row'', ''signed-requirement'']"

definition request_payload :: "request \<Rightarrow> dict" where
  "request_payload r =
     [(''requirement'', PStr (rq_requirement r)), (''rationale'', PStr (rq_rationale r)), (''owner'', PStr (rq_owner r)),
      (''tracker_url'', PStr (rq_tracker r))]
     @ concat (map (\<lambda>(k, v). case v of None \<Rightarrow> [] | Some s \<Rightarrow> [(k, PStr s)])
         [(''target_kind'', rq_target_kind r), (''target_id'', rq_target_id r), (''source_requirement_text'', rq_source_text r),
          (''matrix_identity'', rq_matrix r)])"

definition name_part :: "string \<Rightarrow> bool" where
  "name_part w \<longleftrightarrow> w \<noteq> [] \<and> (\<forall>c \<in> set w. let n = code c in
     65 \<le> n \<and> n \<le> 90 \<or> 97 \<le> n \<and> n \<le> 122 \<or> 48 \<le> n \<and> n \<le> 57 \<or> c \<in> {CHR ''_'', CHR ''.'', CHR ''-''})"

definition positive_number :: "string \<Rightarrow> bool" where
  "positive_number s \<longleftrightarrow> s \<noteq> [] \<and> hd s \<noteq> CHR ''0'' \<and> (\<forall>c \<in> set s. is_ascii_digit c)"

definition is_issue_url :: "string \<Rightarrow> bool" where
  "is_issue_url s \<longleftrightarrow>
     starts_with ''https://github.com/'' s
     \<and> (case split_on (CHR ''/'') (drop 19 s) of
          [owner, name, kind, n] \<Rightarrow> name_part owner \<and> name_part name \<and> kind = ''issues'' \<and> positive_number n
        | _ \<Rightarrow> False)"

fun bounded_field :: "pyval \<Rightarrow> bool" where
  "bounded_field (PStr s) = (nonblank s \<and> length s \<le> 20000)"
| "bounded_field v = False"

definition required_fields :: "bool \<Rightarrow> dict \<Rightarrow> string list" where
  "required_fields operator kvs =
     REQUEST_FIELDS @ (if operator \<or> (\<exists>k \<in> set TARGET_FIELDS. k \<in> fst ` set kvs) then TARGET_FIELDS else [])
     @ (if map_of kvs ''target_kind'' = Some (PStr ''converted-row'') then [''matrix_identity''] else [])"

definition str_at :: "dict \<Rightarrow> string \<Rightarrow> string" where
  "str_at kvs k = the_str (py_get (PDict kvs) k)"

definition opt_at :: "dict \<Rightarrow> string \<Rightarrow> string option" where
  "opt_at kvs k = opt_str (py_get (PDict kvs) k)"

definition parse_request :: "bool \<Rightarrow> pyval \<Rightarrow> pm_error + request" where
  "parse_request operator v =
     (case v of
        PDict kvs \<Rightarrow>
          (if fst ` set kvs \<noteq> set (required_fields operator kvs) then fail ''incomplete or unknown obligation fields''
           else if \<not> list_all (bounded_field \<circ> snd) kvs then fail ''all obligation fields must be non-empty bounded strings''
           else if ''target_kind'' \<in> fst ` set kvs \<and> str_at kvs ''target_kind'' \<notin> set TARGET_KINDS then fail ''unsupported target kind''
           else if ''target_kind'' \<in> fst ` set kvs \<and> str_at kvs ''source_requirement_text'' \<noteq> str_at kvs ''requirement''
             then fail ''requirement must exactly equal the full source requirement''
           else if \<not> is_issue_url (str_at kvs ''tracker_url'') then fail ''tracker must be a canonical existing GitHub issue URL''
           else Inr \<lparr>rq_requirement = str_at kvs ''requirement'', rq_rationale = str_at kvs ''rationale'', rq_owner = str_at kvs ''owner'',
                  rq_tracker = str_at kvs ''tracker_url'', rq_target_kind = opt_at kvs ''target_kind'', rq_target_id = opt_at kvs ''target_id'',
                  rq_source_text = opt_at kvs ''source_requirement_text'', rq_matrix = opt_at kvs ''matrix_identity''\<rparr>)
      | _ \<Rightarrow> fail ''each obligation must be an object'')"

text \<open>What a request is about: its target, or its requirement when it declares a new obligation.\<close>

definition request_key :: "request \<Rightarrow> string option \<times> string" where
  "request_key r = (case rq_target_id r of Some t \<Rightarrow> (rq_target_kind r, t) | None \<Rightarrow> (Some ''new'', rq_requirement r))"

definition parse_requests :: "bool \<Rightarrow> pyval \<Rightarrow> pm_error + request list" where
  "parse_requests operator v =
     (case v of
        PList xs \<Rightarrow>
          (if length xs > MAX_OBLIGATIONS \<or> operator \<and> xs = [] then fail ''obligations must be a bounded list''
           else bindE (mapE (parse_request operator) xs) (\<lambda>rs.
             if distinct (map request_key rs) then Inr rs else fail ''duplicate obligation targets''))
      | _ \<Rightarrow> fail ''obligations must be a bounded list'')"

section \<open>Requests of reviewers\<close>

definition list_at :: "dict \<Rightarrow> string \<Rightarrow> pyval list" where
  "list_at kvs k = (case map_of kvs k of Some v \<Rightarrow> (case py_iter v of Some xs \<Rightarrow> xs | None \<Rightarrow> []) | None \<Rightarrow> [])"

definition classified_texts :: "dict \<Rightarrow> pyval list" where
  "classified_texts kvs =
     list_at kvs ''exact_head_evidence_requests''
     @ concat (map (\<lambda>field. map (\<lambda>x. case x of PStr s \<Rightarrow> PStr s | PDict d \<Rightarrow> py_get x ''text'' | _ \<Rightarrow> PNone) (list_at kvs field))
         [''blocking_items'', ''same_pr_followups'', ''future_followups''])"

definition parse_review_fields :: "dict \<Rightarrow> pm_error + request list" where
  "parse_review_fields kvs =
     bindE (parse_requests False (case map_of kvs ''post_merge_obligations'' of Some v \<Rightarrow> v | None \<Rightarrow> PList [])) (\<lambda>rs.
     if \<exists>r \<in> set rs. PStr (rq_requirement r) \<in> set (classified_texts kvs)
       then fail ''contradictory pre-merge and post-merge classifications'' else Inr rs)"

definition preserve_fields :: "dict \<Rightarrow> dict \<Rightarrow> pm_error + unit" where
  "preserve_fields source target =
     (let field = (\<lambda>kvs. case map_of kvs ''post_merge_obligations'' of Some v \<Rightarrow> v | None \<Rightarrow> PList []) in
      if py_equal (field source) (field target) then Inr ()
      else fail ''repair must preserve obligation classification, targets and payload exactly'')"

section \<open>Directives of operators\<close>

record fence =
  fence_info :: string
  fence_markup :: string
  fence_content :: string
  fence_start :: nat
  fence_end :: nat

record signed_text =
  st_id :: string
  st_source_type :: string
  st_author :: pyval
  st_author_id :: pyval
  st_url :: pyval
  st_body :: string
  st_verification :: string

text \<open>\<open>json.loads\<close> with \<open>strict_object\<close>: a key that occurs twice is an error.\<close>

definition strict_loads :: "string \<Rightarrow> pm_error + pyval" where
  "strict_loads s =
     (case json_pairs s of
        None \<Rightarrow> fail ''malformed directive JSON''
      | Some v \<Rightarrow> if is_value v then Inr v else fail ''duplicate JSON key'')"

fun py_true :: "pyval \<Rightarrow> bool" where
  "py_true PNone = False"
| "py_true (PBool b) = b"
| "py_true (PInt i) = (i \<noteq> 0)"
| "py_true (PStr s) = (s \<noteq> [])"
| "py_true (PList xs) = (xs \<noteq> [])"
| "py_true (PTuple xs) = (xs \<noteq> [])"
| "py_true (PDict kvs) = (kvs \<noteq> [])"

definition closes_fence :: "nat \<Rightarrow> string \<Rightarrow> bool" where
  "closes_fence n line \<longleftrightarrow>
     (let t = lstrip line; ticks = takeWhile (\<lambda>c. c = CHR ''`'') t in
      n \<le> length ticks \<and> (\<forall>c \<in> set (drop (length ticks) t). c \<in> {CHR '' '', CHR 0x09}))"

definition nl :: string where "nl = [CHR 0x0A]"

definition operator_directive :: "(string \<Rightarrow> fence list) \<Rightarrow> signed_text \<Rightarrow> pm_error + request list \<times> string" where
  "operator_directive md r =
     (if \<not> contains ''post-merge-schedule'' (st_body r) then Inr ([], st_body r)
      else if st_verification r \<noteq> ''verified'' \<or> \<not> positive_int (st_author_id r) \<or> \<not> py_true (st_url r)
        then fail ''operator directive requires a live-verified login, numeric actor ID and comment locator''
      else if py_lower (st_source_type r) \<notin> {''pr comment'', ''pr-comment'', ''comment''}
        then fail ''operator directive must be a signed PR comment''
      else case filter (\<lambda>f. strip (fence_info f) = ''post-merge-schedule'') (md (st_body r)) of
        [f] \<Rightarrow>
          (let lines = split_lines (st_body r) in
           if \<not> starts_with ''`'' (fence_markup f) then fail ''exactly one unambiguous post-merge-schedule block is required''
           else if fence_end f > length lines then Inl PyCrash
           else if \<not> closes_fence (length (fence_markup f)) (lines ! (fence_end f - 1)) then fail ''directive fence must have a closing delimiter''
           else bindE (strict_loads (fence_content f)) (\<lambda>payload.
             case payload of
               PDict [(k, v)] \<Rightarrow>
                 if k \<noteq> ''obligations'' then fail ''directive must contain only obligations''
                 else bindE (parse_requests True v) (\<lambda>rs.
                   Inr (rs, strip (join nl (take (fence_start f) lines @ drop (fence_end f) lines))))
             | _ \<Rightarrow> fail ''directive must contain only obligations''))
      | _ \<Rightarrow> fail ''exactly one unambiguous post-merge-schedule block is required'')"

section \<open>Trackers\<close>

definition issue_prefix :: "string \<Rightarrow> string" where
  "issue_prefix repo = ''https://github.com/'' @ repo @ ''/issues/''"

definition tracker_number :: "string \<Rightarrow> string \<Rightarrow> pm_error + nat" where
  "tracker_number url repo =
     (if \<not> starts_with (issue_prefix repo) url \<or> \<not> positive_number (drop (length (issue_prefix repo)) url)
      then fail ''tracker must be an issue in the same repository'' else Inr (decimal (drop (length (issue_prefix repo)) url)))"

definition hashable :: "pyval \<Rightarrow> bool" where
  "hashable v \<longleftrightarrow> (case v of PList _ \<Rightarrow> False | PDict _ \<Rightarrow> False | _ \<Rightarrow> True)"

definition request_name :: "request \<Rightarrow> string" where
  "request_name r = (if truthy (rq_target_id r) then the (rq_target_id r) else rq_requirement r)"

text \<open>What \<open>read_issue\<close> returned decides; \<open>closing\<close> is the set of issues that the pull request closes.\<close>

definition tracker_state :: "bool \<Rightarrow> nat \<Rightarrow> pyval \<Rightarrow> pm_error + pyval" where
  "tracker_state allow_closed number issue =
     (if (case issue of PDict _ \<Rightarrow> False | _ \<Rightarrow> True) \<or> py_number (py_get issue ''number'') \<noteq> Some (int number) \<or> ''pull_request'' \<in> fst ` set (py_items issue)
        then fail (''tracker #'' @ nat_str number @ '' is missing or is a pull request'')
      else if \<not> hashable (py_get issue ''state'') then Inl PyCrash
      else if py_get issue ''state'' = PStr ''open'' \<or> allow_closed \<and> py_get issue ''state'' = PStr ''closed'' then Inr (py_get issue ''state'')
      else fail (''tracker #'' @ nat_str number @ '' must be an existing open issue''))"

definition tracker_wanted :: "request \<Rightarrow> string \<Rightarrow> nat list \<Rightarrow> pm_error + nat" where
  "tracker_wanted r repo closing =
     bindE (tracker_number (rq_tracker r) repo) (\<lambda>n.
     if n \<in> set closing then fail (request_name r @ '': tracker #'' @ nat_str n @ '' is in the PR closing set'') else Inr n)"

section \<open>Sources and authority\<close>

definition source_for_item :: "item \<Rightarrow> dict" where
  "source_for_item it =
     (if truthy (converted_row_id it) then
        [(''target_kind'', PStr ''converted-row''), (''target_id'', PStr (the (converted_row_id it))),
         (''matrix_identity'', of_opt_str (converted_matrix_identity it)), (''requirement'', PStr (item_text it))]
      else
        [(''target_kind'', PStr ''evidence-item''),
         (''target_id'', PStr (if truthy (obligation_identity it) then the (obligation_identity it) else item_id it)),
         (''requirement'', PStr (item_text it)), (''requester'', PStr (reviewer it)),
         (''owners'', PList (map PStr (if resolution_owners it \<noteq> [] then resolution_owners it else [reviewer it])))])"

definition source_owners :: "dict \<Rightarrow> pyval list option" where
  "source_owners source =
     (case map_of source ''owners'' of
        None \<Rightarrow> Some [py_get (PDict source) ''requester'']
      | Some v \<Rightarrow> (case py_iter v of None \<Rightarrow> None | Some xs \<Rightarrow> if list_all hashable xs then Some xs else None))"

type_synonym sources = "((string \<times> string) \<times> dict) list"

text \<open>The owners that must have voted: all of them, or the whole board when one has left it.\<close>

definition required_voters :: "pyval list \<Rightarrow> string list \<Rightarrow> pyval list" where
  "required_voters owners board = (if set owners \<subseteq> PStr ` set board then owners else map PStr board)"

definition authorize_target ::
  "request \<Rightarrow> string \<Rightarrow> sources \<Rightarrow> string option \<Rightarrow> string list \<Rightarrow> string list \<Rightarrow> bool \<Rightarrow> pm_error + dict" where
  "authorize_target r target sources proposer voters board operator =
     (case map_of sources (the (rq_target_kind r), target) of
        None \<Rightarrow> fail (target @ '': unknown/stale target or source text mismatch'')
      | Some source \<Rightarrow>
          if py_get (PDict source) ''requirement'' \<noteq> PStr (rq_requirement r) then fail (target @ '': unknown/stale target or source text mismatch'')
          else if of_opt_str (rq_matrix r) \<noteq> py_get (PDict source) ''matrix_identity'' then fail (target @ '': matrix identity mismatch'')
          else if operator then Inr source
          else if (case proposer of None \<Rightarrow> True | Some v \<Rightarrow> v \<notin> set board) \<or> \<not> set voters \<subseteq> set board
            then fail ''scheduling requires selected validated reviewers''
          else if rq_target_kind r \<noteq> Some ''evidence-item'' then fail (target @ '': only a verified operator may schedule this target'')
          else case source_owners source of
            None \<Rightarrow> Inl PyCrash
          | Some owners \<Rightarrow>
              (let required = required_voters owners board in
               if required = [] \<or> \<not> set required \<subseteq> PStr ` set voters
               then fail (target @ '': every resolution owner must approve the same payload'') else Inr source))"

definition authorize ::
  "(string \<Rightarrow> string) \<Rightarrow> request \<Rightarrow> sources \<Rightarrow> string option \<Rightarrow> string list \<Rightarrow> string list \<Rightarrow> bool \<Rightarrow> pm_error + dict" where
  "authorize H r sources proposer voters board operator =
     (case rq_target_id r of
        None \<Rightarrow>
          (case proposer of
             None \<Rightarrow> fail ''new declarations require a selected validated reviewer''
           | Some v \<Rightarrow>
               if v \<notin> set board \<or> operator then fail ''new declarations require a selected validated reviewer''
               else Inr [(''target_kind'', PStr ''declaration''),
                  (''target_id'', PStr (digest H (PList [PStr v, PStr (rq_requirement r)]))),
                  (''requirement'', PStr (rq_requirement r)), (''requester'', PStr v)])
      | Some target \<Rightarrow> authorize_target r target sources proposer voters board operator)"

section \<open>Admissions\<close>

record admission =
  ad_identity :: string
  ad_repo :: pyval
  ad_pr :: pyval
  ad_source :: dict
  ad_request :: dict
  ad_provenance :: dict
  ad_supersedes :: "string option"
  ad_state :: string
  ad_receipt :: pyval

definition ADMISSION_KEYS :: "string list" where
  "ADMISSION_KEYS = [''identity'', ''repo'', ''pr'', ''source'', ''request'', ''provenance'', ''supersedes'', ''state'', ''receipt'']"

definition admission_value :: "admission \<Rightarrow> pyval" where
  "admission_value a = PDict
     [(''identity'', PStr (ad_identity a)), (''repo'', ad_repo a), (''pr'', ad_pr a), (''source'', PDict (ad_source a)),
      (''request'', PDict (ad_request a)), (''provenance'', PDict (ad_provenance a)), (''supersedes'', of_opt_str (ad_supersedes a)),
      (''state'', PStr (ad_state a)), (''receipt'', ad_receipt a)]"

definition admission_identity :: "(string \<Rightarrow> string) \<Rightarrow> pyval \<Rightarrow> pyval \<Rightarrow> dict \<Rightarrow> dict \<Rightarrow> dict \<Rightarrow> pyval \<Rightarrow> string" where
  "admission_identity H repo pr source payload prov supersedes =
     ''post-merge:'' @ digest H (PList ([repo, pr, PDict source, PDict payload]
       @ (if supersedes = PNone then [] else [PDict prov, supersedes])))"

definition make_admission ::
  "(string \<Rightarrow> string) \<Rightarrow> request \<Rightarrow> string \<Rightarrow> int \<Rightarrow> dict \<Rightarrow> dict \<Rightarrow> string option \<Rightarrow> admission" where
  "make_admission H r repo pr source prov supersedes =
     \<lparr>ad_identity = admission_identity H (PStr repo) (PInt pr) source (request_payload r) prov (of_opt_str supersedes),
      ad_repo = PStr repo, ad_pr = PInt pr, ad_source = source, ad_request = request_payload r, ad_provenance = prov,
      ad_supersedes = supersedes, ad_state = ''scheduled'', ad_receipt = PNone\<rparr>"

definition PUBLICATION_STATES :: "string list" where
  "PUBLICATION_STATES = [''scheduled'', ''tracking-pending'', ''tracked'']"

text \<open>The author of an admission: an operator, whose signed text is read again, or reviewers.\<close>

definition check_provenance :: "(string \<Rightarrow> fence list) \<Rightarrow> request \<Rightarrow> dict \<Rightarrow> dict \<Rightarrow> pm_error + unit" where
  "check_provenance md r source prov =
     (let p = PDict prov in
      if py_get p ''kind'' = PStr ''operator'' then
        (case (map_of prov ''actor'', map_of prov ''actor_id'', map_of prov ''locator'', map_of prov ''body'') of
           (Some actor, Some actor_id, Some locator, Some (PStr text_body)) \<Rightarrow>
             bindE (operator_directive md \<lparr>st_id = [], st_source_type = ''PR comment'', st_author = actor, st_author_id = actor_id,
                      st_url = locator, st_body = text_body, st_verification = ''verified''\<rparr>) (\<lambda>(rs, prose).
             if r \<notin> set rs \<or> \<not> py_true (py_get p ''source_id'') then fail ''admission does not match its original operator directive'' else Inr ())
         | _ \<Rightarrow> fail ''unreconstructible operator provenance'')
      else if py_get p ''kind'' = PStr ''reviewer'' then
        (case py_get p ''reviewers'' of
           PList (v # vs) \<Rightarrow>
             (case map_of source ''target_kind'' of
                None \<Rightarrow> Inl PyCrash
              | Some k \<Rightarrow> if \<not> hashable k then Inl PyCrash
                  else if k \<notin> {PStr ''declaration'', PStr ''evidence-item''} then fail ''reviewer provenance cannot schedule operator-only targets''
                  else Inr ())
         | _ \<Rightarrow> fail ''missing reviewer admission provenance'')
      else fail ''unknown admission authority'')"

text \<open>One admission of a stored registry, given those ahead of it.\<close>

definition check_admission ::
  "(string \<Rightarrow> string) \<Rightarrow> (string \<Rightarrow> fence list) \<Rightarrow> (string \<times> int) option \<Rightarrow> admission list \<Rightarrow> pyval \<Rightarrow> pm_error + admission" where
  "check_admission H md surface ahead v =
     (if (case v of PDict kvs \<Rightarrow> fst ` set kvs \<noteq> set ADMISSION_KEYS | _ \<Rightarrow> True) then fail ''malformed registry admission''
      else bindE (parse_request False (py_get v ''request'')) (\<lambda>r.
        case (py_get v ''source'', py_get v ''provenance'', py_get v ''request'') of
          (PDict source, PDict (p # ps), PDict raw) \<Rightarrow>
            (let prov = p # ps; supersedes = py_get v ''supersedes'';
                 ident = (\<lambda>s. PStr (admission_identity H (py_get v ''repo'') (py_get v ''pr'') source (request_payload r) prov s)) in
             if py_get (PDict source) ''requirement'' \<noteq> PStr (rq_requirement r) then fail ''admission source text mismatch''
             else if \<not> hashable (py_get v ''identity'') then Inl PyCrash
             else if py_get v ''identity'' \<notin> {ident PNone, ident supersedes} \<or> the_str (py_get v ''identity'') \<in> set (map ad_identity ahead)
               then fail ''mutated or duplicated admission identity''
             else if supersedes \<noteq> PNone \<and> \<not> (\<exists>old \<in> set ahead. PStr (ad_identity old) = supersedes \<and> py_equal (PDict (ad_source old)) (PDict source))
               then fail ''supersession requires an earlier admission for the same source''
             else if (case surface of None \<Rightarrow> False | Some (repo, pr) \<Rightarrow> py_get v ''repo'' \<noteq> PStr repo \<or> py_number (py_get v ''pr'') \<noteq> Some pr)
               then fail ''foreign PR admission''
             else bindE (check_provenance md r source prov) (\<lambda>_.
               if \<not> hashable (py_get v ''state'') then Inl PyCrash
               else if py_get v ''state'' \<notin> PStr ` set PUBLICATION_STATES then fail ''unknown publication state''
               else if (py_get v ''state'' = PStr ''tracked'') \<noteq> positive_int (py_get v ''receipt'')
                 then fail ''tracked state requires a verified publication receipt''
               else Inr \<lparr>ad_identity = the_str (py_get v ''identity''), ad_repo = py_get v ''repo'', ad_pr = py_get v ''pr'', ad_source = source,
                      ad_request = raw, ad_provenance = prov, ad_supersedes = opt_str supersedes,
                      ad_state = the_str (py_get v ''state''), ad_receipt = py_get v ''receipt''\<rparr>))
        | _ \<Rightarrow> fail ''unreconstructible admission provenance''))"

fun check_admissions ::
  "(string \<Rightarrow> string) \<Rightarrow> (string \<Rightarrow> fence list) \<Rightarrow> (string \<times> int) option \<Rightarrow> admission list \<Rightarrow> pyval list \<Rightarrow> pm_error + admission list" where
  "check_admissions H md surface ahead [] = Inr ahead"
| "check_admissions H md surface ahead (v # vs) =
     bindE (check_admission H md surface ahead v) (\<lambda>a. check_admissions H md surface (ahead @ [a]) vs)"

definition validate_registry ::
  "(string \<Rightarrow> string) \<Rightarrow> (string \<Rightarrow> fence list) \<Rightarrow> (string \<times> int) option \<Rightarrow> pyval \<Rightarrow> pm_error + admission list" where
  "validate_registry H md surface v =
     (case v of
        PList xs \<Rightarrow> if length xs > MAX_OBLIGATIONS then fail ''invalid cumulative registry'' else check_admissions H md surface [] xs
      | _ \<Rightarrow> fail ''invalid cumulative registry'')"

definition registry_value :: "admission list \<Rightarrow> pyval" where
  "registry_value registry = PList (map admission_value registry)"

section \<open>What a registry releases\<close>

definition active_registry :: "admission list \<Rightarrow> admission list" where
  "active_registry registry =
     (let superseded = filter truthy (map ad_supersedes registry) in filter (\<lambda>a. Some (ad_identity a) \<notin> set superseded) registry)"

definition sole_owner :: "item \<Rightarrow> bool" where
  "sole_owner it \<longleftrightarrow> set (if resolution_owners it \<noteq> [] then resolution_owners it else [reviewer it]) = {reviewer it}"

definition scheduled_item :: "admission list \<Rightarrow> item \<Rightarrow> bool" where
  "scheduled_item registry it \<longleftrightarrow>
     obligation_kind it = Some ''human-exact-head-evidence''
     \<and> (let source = source_for_item it; active = active_registry registry in
        if py_get (PDict source) ''target_kind'' = PStr ''converted-row'' then
          \<exists>a \<in> set active. py_get (PDict (ad_source a)) ''target_kind'' = PStr ''converted-row''
            \<and> py_equal (py_get (PDict (ad_source a)) ''target_id'') (py_get (PDict source) ''target_id'')
            \<and> py_equal (py_get (PDict (ad_source a)) ''matrix_identity'') (py_get (PDict source) ''matrix_identity'')
        else
          (sole_owner it \<and> (\<exists>a \<in> set active. py_get (PDict (ad_source a)) ''target_kind'' = PStr ''declaration''
             \<and> py_get (PDict (ad_source a)) ''requester'' = PStr (reviewer it)
             \<and> py_get (PDict (ad_request a)) ''requirement'' = PStr (item_text it)))
          \<or> (\<exists>a \<in> set active. py_equal (PDict (ad_source a)) (PDict source)))"

definition filter_items :: "admission list \<Rightarrow> item list \<Rightarrow> item list" where
  "filter_items registry items = filter (\<lambda>it. \<not> scheduled_item registry it) items"

definition scheduled_rows :: "admission list \<Rightarrow> pyval \<Rightarrow> pyval list" where
  "scheduled_rows registry matrix_identity =
     map (\<lambda>a. py_get (PDict (ad_source a)) ''target_id'')
       (filter (\<lambda>a. py_get (PDict (ad_source a)) ''target_kind'' = PStr ''converted-row''
          \<and> py_equal (py_get (PDict (ad_source a)) ''matrix_identity'') matrix_identity) (active_registry registry))"

section \<open>Fields of the round metadata\<close>

text \<open>\<open>post_merge_state.py\<close>: the four fields that a round record may carry.\<close>

record pm_fields =
  pf_registry :: "admission list"
  pf_diagnostics :: "string list"
  pf_publication :: "dict option"
  pf_requests :: "dict list"

definition PUBLICATION_KEYS :: "string list" where
  "PUBLICATION_KEYS = [''version'', ''identity'', ''repo'', ''pr'', ''request'', ''source'', ''provenance'', ''merged_source_head'', ''merge_commit'']"

definition encode_fields :: "pm_fields \<Rightarrow> dict" where
  "encode_fields f =
     (if pf_registry f = [] then [] else [(''post_merge_registry'', registry_value (pf_registry f))])
     @ (if pf_diagnostics f = [] then [] else [(''post_merge_diagnostics'', PList (map PStr (pf_diagnostics f)))])
     @ (case pf_publication f of None \<Rightarrow> [] | Some d \<Rightarrow> if d = [] then [] else [(''post_merge_publication'', PDict d)])
     @ (if pf_requests f = [] then [] else [(''post_merge_requests'', PList (map PDict (pf_requests f)))])"

fun decode_diagnostics :: "pyval \<Rightarrow> pm_error + string list" where
  "decode_diagnostics (PList vs) = (if list_all (\<lambda>v. opt_str v \<noteq> None) vs then Inr (map the_str vs) else fail ''invalid admission diagnostics'')"
| "decode_diagnostics v = fail ''invalid admission diagnostics''"

fun decode_publication :: "pyval \<Rightarrow> pm_error + dict option" where
  "decode_publication (PDict kvs) = (if fst ` set kvs = set PUBLICATION_KEYS then Inr (Some kvs) else fail ''malformed publication record'')"
| "decode_publication v = fail ''malformed publication record''"

definition field_or :: "'a \<Rightarrow> (pyval \<Rightarrow> pm_error + 'a) \<Rightarrow> dict \<Rightarrow> string \<Rightarrow> pm_error + 'a" where
  "field_or absent decode kvs k = (case map_of kvs k of None \<Rightarrow> Inr absent | Some v \<Rightarrow> decode v)"

definition decode_fields :: "(string \<Rightarrow> string) \<Rightarrow> (string \<Rightarrow> fence list) \<Rightarrow> dict \<Rightarrow> pm_error + pm_fields" where
  "decode_fields H md kvs =
     bindE (field_or [] (validate_registry H md None) kvs ''post_merge_registry'') (\<lambda>registry.
     bindE (field_or [] decode_diagnostics kvs ''post_merge_diagnostics'') (\<lambda>diagnostics.
     bindE (field_or None decode_publication kvs ''post_merge_publication'') (\<lambda>publication.
     bindE (field_or [] (\<lambda>v. bindE (parse_requests False v) (\<lambda>rs. Inr (map request_payload rs))) kvs ''post_merge_requests'') (\<lambda>requests.
       Inr \<lparr>pf_registry = registry, pf_diagnostics = diagnostics, pf_publication = publication, pf_requests = requests\<rparr>))))"

section \<open>Diagnostics\<close>

definition rejection_text :: "string \<Rightarrow> string \<Rightarrow> string" where
  "rejection_text target why =
     ''Post-merge request '' @ target @ '' rejected: '' @ why @ ''. Original requirement remains blocking. ''
     @ ''Supply a non-empty owner and an existing open same-repository tracking issue outside the PR closing set; ''
     @ ''manually create/select a tracker and retry through the requesting reviewers or a verified signed post-merge-schedule directive. No coder is dispatched to obtain trackers.''"

definition retained_diagnostic :: "string \<Rightarrow> string \<Rightarrow> string" where
  "retained_diagnostic target why =
     ''Admitted post-merge obligation '' @ target @ '' retained: '' @ why @ ''. ''
     @ ''The obligation remains required after merge and does not block merge. ''
     @ ''If needed, select an eligible tracker through a new authorized scheduling request; ''
     @ ''use the requesting reviewers or a verified signed post-merge-schedule directive.''"

section \<open>Facts on stored registries\<close>

lemma opt_str_of [simp]: "opt_str (of_opt_str x) = x"
  by (cases x) simp_all

lemma admission_get:
  "py_get (admission_value a) ''identity'' = PStr (ad_identity a)" "py_get (admission_value a) ''repo'' = ad_repo a"
  "py_get (admission_value a) ''pr'' = ad_pr a" "py_get (admission_value a) ''source'' = PDict (ad_source a)"
  "py_get (admission_value a) ''request'' = PDict (ad_request a)" "py_get (admission_value a) ''provenance'' = PDict (ad_provenance a)"
  "py_get (admission_value a) ''supersedes'' = of_opt_str (ad_supersedes a)" "py_get (admission_value a) ''state'' = PStr (ad_state a)"
  "py_get (admission_value a) ''receipt'' = ad_receipt a"
  by (simp_all add: admission_value_def)

text \<open>What is read back is the admission that was written.\<close>

lemma check_admission_back:
  assumes "check_admission H md surface ahead (admission_value a) = Inr b"
  shows "b = a" "ad_identity a \<notin> ad_identity ` set ahead"
proof -
  have "ad_provenance a \<noteq> []"
  proof
    assume "ad_provenance a = []"
    then show False
      using assms unfolding check_admission_def admission_get by (auto simp: bindE_Inr_iff fail_def split: if_splits)
  qed
  then obtain p ps where p: "ad_provenance a = p # ps" by (cases "ad_provenance a") auto
  have "b = \<lparr>ad_identity = ad_identity a, ad_repo = ad_repo a, ad_pr = ad_pr a, ad_source = ad_source a, ad_request = ad_request a,
      ad_provenance = p # ps, ad_supersedes = ad_supersedes a, ad_state = ad_state a, ad_receipt = ad_receipt a\<rparr>
      \<and> ad_identity a \<notin> set (map ad_identity ahead)"
    using assms unfolding check_admission_def admission_get p
    by (auto simp: bindE_Inr_iff fail_def Let_def hashable_def split: if_splits option.splits prod.splits)
  then show "b = a" "ad_identity a \<notin> ad_identity ` set ahead" using p by (cases a, auto)+
qed

lemma check_admissions_append:
  "check_admissions H md surface ahead (vs @ us) = bindE (check_admissions H md surface ahead vs) (\<lambda>R. check_admissions H md surface R us)"
proof (induction vs arbitrary: ahead)
  case (Cons v vs)
  then show ?case by (cases "check_admission H md surface ahead v") simp_all
qed simp

lemma check_admissions_back:
  "check_admissions H md surface ahead (map admission_value R) = Inr R' \<Longrightarrow> distinct (map ad_identity ahead) \<Longrightarrow>
     R' = ahead @ R \<and> distinct (map ad_identity R')"
proof (induction R arbitrary: ahead)
  case (Cons a R)
  obtain b where b: "check_admission H md surface ahead (admission_value a) = Inr b"
      "check_admissions H md surface (ahead @ [b]) (map admission_value R) = Inr R'"
    using Cons.prems(1) by (auto simp: bindE_Inr_iff)
  note c = check_admission_back [OF b(1)]
  have "distinct (map ad_identity (ahead @ [b]))" using Cons.prems(2) c by simp
  from Cons.IH [OF b(2) this] have "R' = (ahead @ [b]) @ R" "distinct (map ad_identity R')" by (rule conjunct1, rule conjunct2)
  moreover from this(1) have "R' = ahead @ a # R" using c(1) by simp
  ultimately show ?case by (intro conjI)
qed simp

definition valid_registry :: "(string \<Rightarrow> string) \<Rightarrow> (string \<Rightarrow> fence list) \<Rightarrow> (string \<times> int) option \<Rightarrow> admission list \<Rightarrow> bool" where
  "valid_registry H md surface R \<longleftrightarrow> validate_registry H md surface (registry_value R) = Inr R"

lemma validated:
  assumes "validate_registry H md surface (registry_value R) = Inr R'"
  shows "R' = R" "valid_registry H md surface R" "distinct (map ad_identity R)"
proof -
  have "check_admissions H md surface [] (map admission_value R) = Inr R'"
    using assms by (auto simp: validate_registry_def registry_value_def fail_def split: if_splits)
  from check_admissions_back [OF this] show "R' = R" "distinct (map ad_identity R)" by auto
  then show "valid_registry H md surface R" using assms by (simp add: valid_registry_def)
qed

lemma valid_registry_ids: "valid_registry H md surface R \<Longrightarrow> distinct (map ad_identity R)"
  unfolding valid_registry_def by (rule validated(3))

lemma active_in: "a \<in> set (active_registry R) \<Longrightarrow> a \<in> set R"
  by (simp add: active_registry_def)

text \<open>A longer registry reactivates nothing.\<close>

lemma active_append: "a \<in> set (active_registry (R @ new)) \<Longrightarrow> a \<in> set R \<Longrightarrow> a \<in> set (active_registry R)"
  by (auto simp: active_registry_def)

text \<open>The fields read back.\<close>

lemma fields_read_back:
  assumes "valid_registry H md None (pf_registry f)"
    and "\<And>d. pf_publication f = Some d \<Longrightarrow> fst ` set d = set PUBLICATION_KEYS"
    and "pf_requests f = [] \<or> (\<exists>rs. parse_requests False (PList (map PDict (pf_requests f))) = Inr rs \<and> map request_payload rs = pf_requests f)"
  shows "decode_fields H md (encode_fields f) = Inr f"
proof -
  let ?kvs = "encode_fields f"
  have get: "map_of ?kvs ''post_merge_registry'' = (if pf_registry f = [] then None else Some (registry_value (pf_registry f)))"
    "map_of ?kvs ''post_merge_diagnostics'' = (if pf_diagnostics f = [] then None else Some (PList (map PStr (pf_diagnostics f))))"
    "map_of ?kvs ''post_merge_publication'' = (case pf_publication f of None \<Rightarrow> None | Some d \<Rightarrow> if d = [] then None else Some (PDict d))"
    "map_of ?kvs ''post_merge_requests'' = (if pf_requests f = [] then None else Some (PList (map PDict (pf_requests f))))"
    by (simp_all add: encode_fields_def split: option.splits)
  have "field_or [] (validate_registry H md None) ?kvs ''post_merge_registry'' = Inr (pf_registry f)"
    using assms(1) unfolding field_or_def get by (simp add: valid_registry_def)
  moreover have "field_or [] decode_diagnostics ?kvs ''post_merge_diagnostics'' = Inr (pf_diagnostics f)"
  proof -
    have "list_all (\<lambda>v. opt_str v \<noteq> None) (map PStr xs)" "map the_str (map PStr xs) = xs" for xs by (induction xs) simp_all
    then show ?thesis unfolding field_or_def get by simp
  qed
  moreover have "field_or None decode_publication ?kvs ''post_merge_publication'' = Inr (pf_publication f)"
  proof (cases "pf_publication f")
    case (Some d)
    have "set PUBLICATION_KEYS \<noteq> {}" unfolding PUBLICATION_KEYS_def list.set by (rule insert_not_empty)
    then have "d \<noteq> []" using assms(2) [OF Some] by (cases d) simp_all
    then show ?thesis using assms(2) [OF Some] Some unfolding field_or_def get by simp
  qed (simp add: field_or_def get)
  moreover have "field_or [] (\<lambda>v. bindE (parse_requests False v) (\<lambda>rs. Inr (map request_payload rs))) ?kvs ''post_merge_requests'' = Inr (pf_requests f)"
    using assms(3) unfolding field_or_def get by (cases "pf_requests f = []") auto
  ultimately show ?thesis by (simp add: decode_fields_def)
qed

end
