(* ===== verification/Post_Merge_Run.thy ===== *)
theory Post_Merge_Run
  imports Post_Merge
begin

text \<open>
  The registry of post-merge obligations over a run and after the merge (\<open>post_merge_runtime.py\<close>): restoring it from the round records,
  admitting requests of operators and reviewers, and publishing every admission in its tracking issue.

  Reads and writes are numbered, and what a call answers depends on its number, so that it may fail at any time.  A write that
  fails may still have been stored.  The world keeps what was stored: the round records with a registry, and the publications in the
  tracking issues.
  That a comment is authenticated, that it was made before the merge and the timestamps this rests on are fields of the stored record.
\<close>

section \<open>The world\<close>

record publication =
  pb_issue :: nat
  pb_record :: dict
  pb_comment :: int

record pm_world =
  pm_now :: nat
  pm_records :: "(admission list \<times> string list) list"
  pm_publications :: "publication list"

text \<open>
  A left answer and the text of an optional answer are the message of the exception; \<open>record_stored\<close> and \<open>issue_stored\<close> tell whether a
  failed write was stored all the same.
\<close>

record pm_answers =
  issue_answer :: "nat \<Rightarrow> nat \<Rightarrow> string + pyval"
  record_answer :: "nat \<Rightarrow> string option"
  record_stored :: "nat \<Rightarrow> bool"
  search_answer :: "nat \<Rightarrow> string option"
  issue_write :: "nat \<Rightarrow> string option"
  issue_stored :: "nat \<Rightarrow> bool"

record pm_config =
  pm_repo :: string
  pm_pr :: int
  pm_dry_run :: bool
  pm_sha :: "string \<Rightarrow> string"
  pm_fences :: "string \<Rightarrow> fence list"

record pm_run =
  run_registry :: "admission list"
  run_diagnostics :: "string list"

type_synonym proposal = "request \<times> dict \<times> dict"

definition tick :: "pm_world \<Rightarrow> pm_world" where
  "tick w = w\<lparr>pm_now := Suc (pm_now w)\<rparr>"

definition validate_tracker ::
  "pm_answers \<Rightarrow> pm_config \<Rightarrow> request \<Rightarrow> nat list \<Rightarrow> bool \<Rightarrow> pm_world \<Rightarrow> (pm_error + nat \<times> pyval) \<times> pm_world" where
  "validate_tracker ans cfg r closing allow_closed w =
     (case tracker_wanted r (pm_repo cfg) closing of
        Inl e \<Rightarrow> (Inl e, w)
      | Inr n \<Rightarrow>
          (case issue_answer ans (pm_now w) n of
             Inl message \<Rightarrow> (Inl (AgentError message), tick w)
           | Inr issue \<Rightarrow> (bindE (tracker_state allow_closed n issue) (\<lambda>state. Inr (n, state)), tick w)))"

section \<open>Admitting a batch\<close>

definition replayed :: "admission list \<Rightarrow> proposal \<Rightarrow> bool" where
  "replayed candidate p \<longleftrightarrow>
     (case p of (r, source, prov) \<Rightarrow>
        \<exists>a \<in> set candidate. py_equal (PDict (ad_source a)) (PDict source) \<and> py_equal (PDict (ad_request a)) (PDict (request_payload r))
          \<and> py_equal (PDict (ad_provenance a)) (PDict prov))"

definition previous :: "admission list \<Rightarrow> dict \<Rightarrow> admission option" where
  "previous candidate source = find (\<lambda>a. py_equal (PDict (ad_source a)) (PDict source)) (active_registry candidate)"

text \<open>A request that was admitted before: the directive was consumed, or the reviewers repeat the admission in force.\<close>

definition consumed :: "admission list \<Rightarrow> proposal \<Rightarrow> bool" where
  "consumed candidate p \<longleftrightarrow>
     replayed candidate p
     \<or> (case p of (r, source, prov) \<Rightarrow>
          py_get (PDict prov) ''kind'' = PStr ''reviewer''
          \<and> (case previous candidate source of None \<Rightarrow> False | Some a \<Rightarrow> py_equal (PDict (ad_request a)) (PDict (request_payload r))))"

definition replay_notes :: "request \<Rightarrow> pm_error + nat \<times> pyval \<Rightarrow> pm_error + string list" where
  "replay_notes r answer =
     (case answer of
        Inl PyCrash \<Rightarrow> Inl PyCrash
      | Inl (AgentError message) \<Rightarrow> Inr [retained_diagnostic (request_name r) message]
      | Inr (n, state) \<Rightarrow>
          if state = PStr ''closed''
          then Inr [retained_diagnostic (request_name r) (''Post-merge scheduling: tracker #'' @ nat_str n @ '' is closed'')] else Inr [])"

definition admitted :: "pm_config \<Rightarrow> admission list \<Rightarrow> proposal \<Rightarrow> admission list" where
  "admitted cfg candidate p =
     (case p of (r, source, prov) \<Rightarrow>
        let a = make_admission (pm_sha cfg) r (pm_repo cfg) (pm_pr cfg) source prov (map_option ad_identity (previous candidate source))
        in if ad_identity a \<in> ad_identity ` set candidate then candidate else candidate @ [a])"

fun admit_each ::
  "pm_answers \<Rightarrow> pm_config \<Rightarrow> nat list \<Rightarrow> proposal list \<Rightarrow> admission list \<Rightarrow> string list \<Rightarrow> pm_world
    \<Rightarrow> (pm_error + admission list \<times> string list) \<times> pm_world" where
  "admit_each ans cfg closing [] candidate replays w = (Inr (candidate, replays), w)"
| "admit_each ans cfg closing (p # ps) candidate replays w =
     (if consumed candidate p then
        (let (answer, w') = validate_tracker ans cfg (fst p) [] True w in
         case replay_notes (fst p) answer of
           Inl e \<Rightarrow> (Inl e, w')
         | Inr extra \<Rightarrow> admit_each ans cfg closing ps candidate (replays @ extra) w')
      else
        (let (answer, w') = validate_tracker ans cfg (fst p) closing False w in
         case answer of
           Inl e \<Rightarrow> (Inl e, w')
         | Inr _ \<Rightarrow> admit_each ans cfg closing ps (admitted cfg candidate p) replays w'))"

definition resolved_targets :: "proposal list \<Rightarrow> string list" where
  "resolved_targets ps =
     map (\<lambda>(r, source, prov). request_name r) ps
     @ concat (map (\<lambda>(r, source, prov).
         if py_get (PDict prov) ''kind'' = PStr ''operator'' then [the_str (py_get (PDict prov) ''source_id'')] else []) ps)"

definition REFRESH_FAILED :: string where "REFRESH_FAILED = ''Post-merge diagnostic refresh failed: ''"

definition kept_diagnostics :: "string list \<Rightarrow> string list \<Rightarrow> string list" where
  "kept_diagnostics targets diagnostics =
     filter (\<lambda>d. \<not> starts_with REFRESH_FAILED d
        \<and> \<not> (\<exists>target \<in> set targets. starts_with (''Post-merge request '' @ target @ '' rejected: '') d
               \<or> starts_with (''Admitted post-merge obligation '' @ target @ '' retained: '') d)) diagnostics"

definition refresh_problem :: "string \<Rightarrow> string" where
  "refresh_problem message =
     REFRESH_FAILED @ message @ ''. Existing admissions remain required after merge and do not block merge; ''
     @ ''rerun to retry diagnostic publication.''"

text \<open>Writing a round record.\<close>

definition persist ::
  "pm_answers \<Rightarrow> pm_config \<Rightarrow> admission list \<Rightarrow> string list \<Rightarrow> pm_world \<Rightarrow> string option \<times> pm_world" where
  "persist ans cfg registry diagnostics w =
     (if pm_dry_run cfg then (None, w)
      else
        (record_answer ans (pm_now w),
         tick (if record_answer ans (pm_now w) = None \<or> record_stored ans (pm_now w)
               then w\<lparr>pm_records := pm_records w @ [(registry, diagnostics)]\<rparr> else w)))"

definition admit ::
  "pm_answers \<Rightarrow> pm_config \<Rightarrow> nat list \<Rightarrow> proposal list \<Rightarrow> pm_run \<Rightarrow> pm_world \<Rightarrow> (pm_error + unit) \<times> pm_run \<times> pm_world" where
  "admit ans cfg closing ps run w =
     (case admit_each ans cfg closing ps (run_registry run) [] w of
        (Inl e, w1) \<Rightarrow> (Inl e, run, w1)
      | (Inr (candidate, replays), w1) \<Rightarrow>
          (case validate_registry (pm_sha cfg) (pm_fences cfg) (Some (pm_repo cfg, pm_pr cfg)) (registry_value candidate) of
             Inl e \<Rightarrow> (Inl e, run, w1)
           | Inr _ \<Rightarrow>
               (let diagnostics = dict_fromkeys (kept_diagnostics (resolved_targets ps) (run_diagnostics run) @ replays) in
                if candidate = run_registry run \<and> diagnostics = run_diagnostics run \<or> pm_dry_run cfg then (Inr (), run, w1)
                else case persist ans cfg candidate diagnostics w1 of
                  (None, w2) \<Rightarrow> (Inr (), \<lparr>run_registry = candidate, run_diagnostics = diagnostics\<rparr>, w2)
                | (Some message, w2) \<Rightarrow>
                    if candidate \<noteq> run_registry run then (Inl (AgentError message), run, w2)
                    else (Inr (), run\<lparr>run_diagnostics := diagnostics @ [refresh_problem message]\<rparr>, w2))))"

section \<open>Requests of operators and reviewers\<close>

definition source_entry :: "dict \<Rightarrow> (string \<times> string) \<times> dict" where
  "source_entry source = ((str_at source ''target_kind'', str_at source ''target_id''), source)"

definition evidence_items :: "item list \<Rightarrow> item list" where
  "evidence_items items = filter (\<lambda>it. obligation_kind it = Some ''human-exact-head-evidence'') items"

text \<open>Later entries replace earlier ones, so the list is searched from its end.\<close>

definition operator_sources :: "admission list \<Rightarrow> signed_text list \<Rightarrow> item list \<Rightarrow> sources" where
  "operator_sources registry requirements items =
     rev (map (source_entry \<circ> source_for_item) (evidence_items items)
       @ map (\<lambda>r. source_entry [(''target_kind'', PStr ''signed-requirement''), (''target_id'', PStr (st_id r)), (''requirement'', PStr (st_body r))])
           (filter (\<lambda>r. st_verification r = ''verified'') requirements)
       @ map (source_entry \<circ> ad_source) registry)"

definition operator_provenance :: "signed_text \<Rightarrow> dict" where
  "operator_provenance r =
     [(''kind'', PStr ''operator''), (''locator'', st_url r), (''actor'', st_author r), (''actor_id'', st_author_id r),
      (''body'', PStr (st_body r)), (''source_id'', PStr (st_id r))]"

definition operator_batch :: "pm_config \<Rightarrow> sources \<Rightarrow> signed_text \<Rightarrow> pm_error + proposal list \<times> string" where
  "operator_batch cfg sources r =
     bindE (operator_directive (pm_fences cfg) r) (\<lambda>(requests, prose).
     bindE (mapE (\<lambda>q. bindE (authorize (pm_sha cfg) q sources None [] [] True) (\<lambda>source. Inr (q, source, operator_provenance r))) requests)
       (\<lambda>ps. Inr (ps, prose)))"

definition rejected :: "string \<Rightarrow> string \<Rightarrow> pm_run \<Rightarrow> pm_run" where
  "rejected target message run = run\<lparr>run_diagnostics := run_diagnostics run @ [rejection_text target message]\<rparr>"

fun operator_each ::
  "pm_answers \<Rightarrow> pm_config \<Rightarrow> sources \<Rightarrow> nat list \<Rightarrow> signed_text list \<Rightarrow> signed_text list \<Rightarrow> pm_run \<Rightarrow> pm_world
    \<Rightarrow> (pm_error + signed_text list) \<times> pm_run \<times> pm_world" where
  "operator_each ans cfg sources closing [] out run w = (Inr out, run, w)"
| "operator_each ans cfg sources closing (r # rs) out run w =
     (if \<not> contains ''```post-merge-schedule'' (st_body r) then operator_each ans cfg sources closing rs (out @ [r]) run w
      else case operator_batch cfg sources r of
        Inl PyCrash \<Rightarrow> (Inl PyCrash, run, w)
      | Inl (AgentError message) \<Rightarrow> operator_each ans cfg sources closing rs (out @ [r]) (rejected (st_id r) message run) w
      | Inr (ps, prose) \<Rightarrow>
          (case admit ans cfg closing ps run w of
             (Inl PyCrash, run', w') \<Rightarrow> (Inl PyCrash, run', w')
           | (Inl (AgentError message), run', w') \<Rightarrow> operator_each ans cfg sources closing rs (out @ [r]) (rejected (st_id r) message run') w'
           | (Inr _, run', w') \<Rightarrow>
               operator_each ans cfg sources closing rs (if prose = [] then out else out @ [r\<lparr>st_body := prose\<rparr>]) run' w'))"

text \<open>The last admission of a signed requirement counts.\<close>

definition scheduled_requirement :: "admission list \<Rightarrow> string \<Rightarrow> pyval" where
  "scheduled_requirement registry ident =
     (case rev (filter (\<lambda>a. py_get (PDict (ad_source a)) ''target_kind'' = PStr ''signed-requirement''
               \<and> py_get (PDict (ad_source a)) ''target_id'' = PStr ident) (active_registry registry)) of
        [] \<Rightarrow> PNone
      | a # _ \<Rightarrow> py_get (PDict (ad_source a)) ''requirement'')"

definition operator_inputs ::
  "pm_answers \<Rightarrow> pm_config \<Rightarrow> signed_text list \<Rightarrow> item list \<Rightarrow> nat list \<Rightarrow> pm_run \<Rightarrow> pm_world
    \<Rightarrow> (pm_error + signed_text list) \<times> pm_run \<times> pm_world" where
  "operator_inputs ans cfg requirements items closing run w =
     (case operator_each ans cfg (operator_sources (run_registry run) requirements items) closing requirements [] run w of
        (Inl e, run', w') \<Rightarrow> (Inl e, run', w')
      | (Inr out, run', w') \<Rightarrow>
          (Inr (filter (\<lambda>r. scheduled_requirement (run_registry run') (st_id r) \<noteq> PStr (st_body r)) out), run', w'))"

type_synonym reviews = "(string \<times> request list) list"

definition reviewer_provenance :: "string list \<Rightarrow> int \<Rightarrow> string \<Rightarrow> dict" where
  "reviewer_provenance voters round_number head =
     [(''kind'', PStr ''reviewer''), (''reviewers'', PList (map PStr voters)), (''round'', PInt round_number), (''head'', PStr head)]"

definition voters_for :: "reviews \<Rightarrow> request \<Rightarrow> string list" where
  "voters_for reviews r = map fst (filter (\<lambda>(name, rs). r \<in> set rs) reviews)"

definition reviewer_sources :: "item list \<Rightarrow> sources" where
  "reviewer_sources items = rev (map (source_entry \<circ> source_for_item) (filter (\<lambda>it. \<not> py_true (screenshot_request it)) (evidence_items items)))"

fun propose_each ::
  "pm_config \<Rightarrow> sources \<Rightarrow> reviews \<Rightarrow> string list \<Rightarrow> int \<Rightarrow> string \<Rightarrow> (string \<times> request) list \<Rightarrow> pm_run \<Rightarrow> pm_error + proposal list \<times> pm_run" where
  "propose_each cfg sources reviews board round_number head [] run = Inr ([], run)"
| "propose_each cfg sources reviews board round_number head ((name, r) # rs) run =
     (case authorize (pm_sha cfg) r sources (Some name) (voters_for reviews r) board False of
        Inl PyCrash \<Rightarrow> Inl PyCrash
      | Inl (AgentError message) \<Rightarrow> propose_each cfg sources reviews board round_number head rs (rejected (request_name r) message run)
      | Inr source \<Rightarrow>
          bindE (propose_each cfg sources reviews board round_number head rs run) (\<lambda>(ps, run').
          Inr ((r, source, reviewer_provenance (voters_for reviews r) round_number head) # ps, run')))"

fun admit_singly ::
  "pm_answers \<Rightarrow> pm_config \<Rightarrow> nat list \<Rightarrow> proposal list \<Rightarrow> pm_run \<Rightarrow> pm_world \<Rightarrow> (pm_error + unit) \<times> pm_run \<times> pm_world" where
  "admit_singly ans cfg closing [] run w = (Inr (), run, w)"
| "admit_singly ans cfg closing (p # ps) run w =
     (case admit ans cfg closing [p] run w of
        (Inl PyCrash, run', w') \<Rightarrow> (Inl PyCrash, run', w')
      | (Inl (AgentError message), run', w') \<Rightarrow> admit_singly ans cfg closing ps (rejected (request_name (fst p)) message run') w'
      | (Inr _, run', w') \<Rightarrow> admit_singly ans cfg closing ps run' w')"

definition reviewer_inputs ::
  "pm_answers \<Rightarrow> pm_config \<Rightarrow> reviews \<Rightarrow> item list \<Rightarrow> nat list \<Rightarrow> string \<Rightarrow> int \<Rightarrow> string list \<Rightarrow> pm_run \<Rightarrow> pm_world
    \<Rightarrow> (pm_error + item list) \<times> pm_run \<times> pm_world" where
  "reviewer_inputs ans cfg reviews items closing head round_number board run w =
     (case propose_each cfg (reviewer_sources items) reviews board round_number head (concat (map (\<lambda>(name, rs). map (Pair name) rs) reviews)) run of
        Inl e \<Rightarrow> (Inl e, run, w)
      | Inr (ps, run1) \<Rightarrow>
          (case admit_singly ans cfg closing ps run1 w of
             (Inl e, run2, w2) \<Rightarrow> (Inl e, run2, w2)
           | (Inr _, run2, w2) \<Rightarrow> (Inr (filter_items (run_registry run2) items), run2, w2)))"

section \<open>Restoring the registry\<close>

record stored_record =
  sr_registry :: "pyval list"
  sr_diagnostics :: "string list"
  sr_authentic :: bool
  sr_late :: bool

definition mutated :: "admission \<Rightarrow> admission \<Rightarrow> bool" where
  "mutated old new \<longleftrightarrow>
     \<not> (py_equal (ad_repo old) (ad_repo new) \<and> py_equal (ad_pr old) (ad_pr new)
        \<and> py_equal (PDict (ad_source old)) (PDict (ad_source new)) \<and> py_equal (PDict (ad_request old)) (PDict (ad_request new))
        \<and> py_equal (PDict (ad_provenance old)) (PDict (ad_provenance new)) \<and> ad_supersedes old = ad_supersedes new)"

text \<open>\<open>merged\<close>: the call comes after the merge, when nothing new may be admitted.\<close>

definition restore_step ::
  "pm_config \<Rightarrow> bool \<Rightarrow> stored_record \<Rightarrow> admission list \<times> string list \<Rightarrow> pm_error + admission list \<times> string list" where
  "restore_step cfg merged r st =
     (if sr_registry r = [] \<or> \<not> sr_authentic r then Inr st
      else bindE (validate_registry (pm_sha cfg) (pm_fences cfg) (Some (pm_repo cfg, pm_pr cfg)) (PList (sr_registry r))) (\<lambda>candidate.
        if merged \<and> \<not> ad_identity ` set candidate \<subseteq> ad_identity ` set (fst st) \<and> sr_late r
          then fail ''recovery cannot admit obligations first recorded after merge''
        else if \<not> ad_identity ` set (fst st) \<subseteq> ad_identity ` set candidate
          then fail ''cumulative admission history lost an obligation''
        else if \<exists>old \<in> set (fst st). \<exists>new \<in> set candidate. ad_identity new = ad_identity old \<and> mutated old new
          then fail ''admission provenance or payload mutated''
        else Inr (candidate, sr_diagnostics r)))"

fun restore_from :: "pm_config \<Rightarrow> bool \<Rightarrow> stored_record list \<Rightarrow> admission list \<times> string list \<Rightarrow> pm_error + admission list \<times> string list" where
  "restore_from cfg merged [] st = Inr st"
| "restore_from cfg merged (r # rs) st = bindE (restore_step cfg merged r st) (restore_from cfg merged rs)"

text \<open>\<open>claimed\<close>: some record, authenticated or not, carries a registry; \<open>complete\<close>: the history could be read to its end.\<close>

definition restore_registry :: "pm_config \<Rightarrow> bool \<Rightarrow> bool \<Rightarrow> bool \<Rightarrow> stored_record list \<Rightarrow> pm_error + admission list \<times> string list" where
  "restore_registry cfg merged claimed complete rs =
     (if \<not> claimed then Inr ([], [])
      else if \<not> complete then fail ''complete authenticated admission history is required''
      else restore_from cfg merged rs ([], []))"

definition restore_run :: "pm_config \<Rightarrow> bool \<Rightarrow> bool \<Rightarrow> stored_record list \<Rightarrow> pm_run \<Rightarrow> pm_error + pm_run" where
  "restore_run cfg claimed complete rs run =
     bindE (restore_registry cfg False claimed complete rs) (\<lambda>(registry, diagnostics).
       Inr \<lparr>run_registry = registry @ filter (\<lambda>a. ad_identity a \<notin> ad_identity ` set registry) (run_registry run),
            run_diagnostics = (if diagnostics \<noteq> [] then diagnostics else run_diagnostics run)\<rparr>)"

text \<open>What reviewers and coders see of the signed requirements.\<close>

definition known_directive :: "admission list \<Rightarrow> string \<Rightarrow> pyval" where
  "known_directive registry ident =
     (case rev (filter (\<lambda>a. py_get (PDict (ad_provenance a)) ''kind'' = PStr ''operator''
               \<and> py_get (PDict (ad_provenance a)) ''source_id'' = PStr ident) registry) of
        [] \<Rightarrow> PNone
      | a # _ \<Rightarrow> py_get (PDict (ad_provenance a)) ''body'')"

fun visible_requirements :: "pm_config \<Rightarrow> admission list \<Rightarrow> signed_text list \<Rightarrow> pm_error + signed_text list" where
  "visible_requirements cfg registry [] = Inr []"
| "visible_requirements cfg registry (r # rs) =
     (if scheduled_requirement registry (st_id r) = PStr (st_body r) then visible_requirements cfg registry rs
      else if known_directive registry (st_id r) = PStr (st_body r) then
        bindE (operator_directive (pm_fences cfg) r) (\<lambda>(requests, prose).
        bindE (visible_requirements cfg registry rs) (\<lambda>out. Inr (if prose = [] then out else r\<lparr>st_body := prose\<rparr> # out)))
      else bindE (visible_requirements cfg registry rs) (\<lambda>out. Inr (r # out)))"

definition round_start ::
  "pm_answers \<Rightarrow> pm_config \<Rightarrow> bool \<Rightarrow> bool \<Rightarrow> stored_record list \<Rightarrow> signed_text list \<Rightarrow> item list \<Rightarrow> nat list \<Rightarrow> pm_run \<Rightarrow> pm_world
    \<Rightarrow> (pm_error + item list \<times> signed_text list) \<times> pm_run \<times> pm_world" where
  "round_start ans cfg claimed complete rs requirements items closing run w =
     (case restore_run cfg claimed complete rs run of
        Inl e \<Rightarrow> (Inl e, run, w)
      | Inr run1 \<Rightarrow>
          (case operator_inputs ans cfg requirements items closing run1 w of
             (Inl e, run2, w2) \<Rightarrow> (Inl e, run2, w2)
           | (Inr out, run2, w2) \<Rightarrow> (Inr (filter_items (run_registry run2) items, out), run2, w2)))"

section \<open>What a batch adds\<close>

text \<open>An admission made from a proposal, whose tracker was read as an open issue outside the closing set.\<close>

definition open_tracker :: "pm_answers \<Rightarrow> pm_config \<Rightarrow> nat list \<Rightarrow> request \<Rightarrow> bool" where
  "open_tracker ans cfg closing r \<longleftrightarrow>
     (\<exists>n t issue. tracker_number (rq_tracker r) (pm_repo cfg) = Inr n \<and> n \<notin> set closing
        \<and> issue_answer ans t n = Inr issue \<and> py_get issue ''state'' = PStr ''open'')"

lemma validated_tracker:
  assumes "validate_tracker ans cfg r closing False w = (Inr x, w')"
  shows "open_tracker ans cfg closing r"
proof -
  obtain n where n: "tracker_wanted r (pm_repo cfg) closing = Inr n"
    using assms by (cases "tracker_wanted r (pm_repo cfg) closing") (simp_all add: validate_tracker_def)
  obtain issue where issue: "issue_answer ans (pm_now w) n = Inr issue"
    using assms n by (cases "issue_answer ans (pm_now w) n") (simp_all add: validate_tracker_def)
  have "py_get issue ''state'' = PStr ''open''"
    using assms n issue by (auto simp: validate_tracker_def bindE_Inr_iff tracker_state_def fail_def split: if_splits)
  moreover have "tracker_number (rq_tracker r) (pm_repo cfg) = Inr n" "n \<notin> set closing"
    using n by (auto simp: tracker_wanted_def bindE_Inr_iff fail_def split: if_splits)
  ultimately show ?thesis unfolding open_tracker_def using issue by blast
qed

definition made_from :: "pm_answers \<Rightarrow> pm_config \<Rightarrow> nat list \<Rightarrow> proposal \<Rightarrow> admission \<Rightarrow> bool" where
  "made_from ans cfg closing p a \<longleftrightarrow>
     (case p of (r, source, prov) \<Rightarrow> open_tracker ans cfg closing r \<and> (\<exists>prev. a = make_admission (pm_sha cfg) r (pm_repo cfg) (pm_pr cfg) source prov prev))"

lemma admit_each_adds:
  assumes "admit_each ans cfg closing ps candidate replays w = (Inr (candidate', replays'), w')"
  shows "\<exists>new. candidate' = candidate @ new \<and> (\<forall>a \<in> set new. \<exists>p \<in> set ps. made_from ans cfg closing p a)"
  using assms
proof (induction ps arbitrary: candidate replays w)
  case Nil
  then show ?case by simp
next
  case (Cons p ps)
  have rest: "\<exists>new. candidate' = c @ new \<and> (\<forall>a \<in> set new. \<exists>q \<in> set (p # ps). made_from ans cfg closing q a)"
    if "admit_each ans cfg closing ps c rep v = (Inr (candidate', replays'), w')" for c rep v
    using Cons.IH [OF that] by (elim exE conjE) auto
  show ?case
  proof (cases "consumed candidate p")
    case True
    then obtain extra v where "admit_each ans cfg closing ps candidate (replays @ extra) v = (Inr (candidate', replays'), w')"
      using Cons.prems by (auto split: prod.splits sum.splits)
    then show ?thesis by (rule rest)
  next
    case False
    obtain answer v where tr: "validate_tracker ans cfg (fst p) closing False w = (answer, v)"
      by (cases "validate_tracker ans cfg (fst p) closing False w")
    obtain x where x: "answer = Inr x" using Cons.prems False by (cases answer) (simp_all add: tr)
    have open_: "open_tracker ans cfg closing (fst p)" by (rule validated_tracker [OF tr [unfolded x]])
    have v: "admit_each ans cfg closing ps (admitted cfg candidate p) replays v = (Inr (candidate', replays'), w')"
      using Cons.prems False by (simp add: tr x)
    from rest [OF v] obtain new where new: "candidate' = admitted cfg candidate p @ new" "\<forall>a \<in> set new. \<exists>q \<in> set (p # ps). made_from ans cfg closing q a"
      by (elim exE conjE) (rule that)
    obtain first where first: "admitted cfg candidate p = candidate @ first" "\<forall>a \<in> set first. made_from ans cfg closing p a"
    proof -
      obtain r source prov where p: "p = (r, source, prov)" by (cases p)
      let ?a = "make_admission (pm_sha cfg) r (pm_repo cfg) (pm_pr cfg) source prov (map_option ad_identity (previous candidate source))"
      have "made_from ans cfg closing p ?a" using open_ unfolding made_from_def p by auto
      then show thesis
        using that [of "[]"] that [of "[?a]"] by (cases "ad_identity ?a \<in> ad_identity ` set candidate") (simp_all add: admitted_def p Let_def)
    qed
    show ?thesis using new first by (intro exI [of _ "first @ new"]) auto
  qed
qed

text \<open>One batch: the registry of the run grows by admissions of the batch or stays, and what is written is the new registry.\<close>

definition no_lost_writes :: "pm_answers \<Rightarrow> bool" where
  "no_lost_writes ans \<longleftrightarrow> (\<forall>t. record_answer ans t \<noteq> None \<longrightarrow> \<not> record_stored ans t)"

definition registry_ok :: "pm_config \<Rightarrow> admission list \<Rightarrow> bool" where
  "registry_ok cfg R \<longleftrightarrow> valid_registry (pm_sha cfg) (pm_fences cfg) (Some (pm_repo cfg, pm_pr cfg)) R"

definition grows_by :: "pm_answers \<Rightarrow> pm_config \<Rightarrow> nat list \<Rightarrow> proposal list \<Rightarrow> admission list \<Rightarrow> admission list \<Rightarrow> bool" where
  "grows_by ans cfg closing ps R R' \<longleftrightarrow>
     (\<exists>new. R' = R @ new \<and> (\<forall>a \<in> set new. \<exists>p \<in> set ps. made_from ans cfg closing p a)) \<and> (registry_ok cfg R \<longrightarrow> registry_ok cfg R')"

lemma grows_refl: "grows_by ans cfg closing ps R R" by (simp add: grows_by_def)

lemma grows_trans: "grows_by ans cfg closing ps R R' \<Longrightarrow> grows_by ans cfg closing qs R' R'' \<Longrightarrow> grows_by ans cfg closing (ps @ qs) R R''"
  unfolding grows_by_def by (elim conjE exE) (auto simp: Ball_def)

text \<open>The records written since: each holds the registry of the moment, the last one the present registry.\<close>

fun written_chain :: "pm_config \<Rightarrow> admission list \<Rightarrow> (admission list \<times> string list) list \<Rightarrow> admission list \<Rightarrow> bool" where
  "written_chain cfg R [] R' = (R' = R)"
| "written_chain cfg R (r # rs) R' = (registry_ok cfg (fst r) \<and> (\<exists>new. fst r = R @ new) \<and> written_chain cfg (fst r) rs R')"

lemma written_chain_append:
  "written_chain cfg R rs R' \<Longrightarrow> written_chain cfg R' qs R'' \<Longrightarrow> written_chain cfg R (rs @ qs) R''"
  by (induction rs arbitrary: R) auto

definition writes :: "pm_config \<Rightarrow> admission list \<Rightarrow> pm_world \<Rightarrow> admission list \<Rightarrow> pm_world \<Rightarrow> bool" where
  "writes cfg R w R' w' \<longleftrightarrow> (\<exists>rs. pm_records w' = pm_records w @ rs \<and> written_chain cfg R rs R')"

lemma writes_refl: "pm_records w' = pm_records w \<Longrightarrow> writes cfg R w R w'"
  by (simp add: writes_def)

lemma writes_trans: "writes cfg R w R' w' \<Longrightarrow> writes cfg R' w' R'' w'' \<Longrightarrow> writes cfg R w R'' w''"
  unfolding writes_def using written_chain_append by fastforce

lemma tick_records [simp]: "pm_records (tick w) = pm_records w"
  by (simp add: tick_def)

lemma tracker_records [simp]: "pm_records (snd (validate_tracker ans cfg r closing allow_closed w)) = pm_records w"
  by (simp add: validate_tracker_def split: sum.splits)

lemma admit_each_records: "pm_records (snd (admit_each ans cfg closing ps candidate replays w)) = pm_records w"
proof (induction ps arbitrary: candidate replays w)
  case (Cons p ps)
  obtain x v where v: "validate_tracker ans cfg (fst p) [] True w = (x, v)" by (cases "validate_tracker ans cfg (fst p) [] True w")
  obtain y u where u: "validate_tracker ans cfg (fst p) closing False w = (y, u)" by (cases "validate_tracker ans cfg (fst p) closing False w")
  have "pm_records v = pm_records w" "pm_records u = pm_records w"
    using tracker_records [of ans cfg "fst p" "[]" True w] tracker_records [of ans cfg "fst p" closing False w] by (simp_all add: v u)
  then show ?case using Cons.IH by (simp add: v u split: sum.splits)
qed simp

lemma admit_run:
  assumes "admit ans cfg closing ps run w = (res, run', w')"
  shows "grows_by ans cfg closing ps (run_registry run) (run_registry run')"
    and "no_lost_writes ans \<Longrightarrow> writes cfg (run_registry run) w (run_registry run') w'"
proof -
  obtain out w1 where e: "admit_each ans cfg closing ps (run_registry run) [] w = (out, w1)"
    by (cases "admit_each ans cfg closing ps (run_registry run) [] w")
  have w1: "pm_records w1 = pm_records w" using admit_each_records [of ans cfg closing ps "run_registry run" "[]" w] by (simp add: e)
  show "grows_by ans cfg closing ps (run_registry run) (run_registry run')"
    and "no_lost_writes ans \<Longrightarrow> writes cfg (run_registry run) w (run_registry run') w'"
  proof (atomize (full), cases out)
    case (Inl err)
    then show "grows_by ans cfg closing ps (run_registry run) (run_registry run') \<and> (no_lost_writes ans \<longrightarrow> writes cfg (run_registry run) w (run_registry run') w')"
      using assms e w1 by (simp add: admit_def grows_refl writes_refl)
  next
    case (Inr cr)
    obtain candidate replays where cr: "cr = (candidate, replays)" by (cases cr)
    note e' = e [unfolded Inr cr]
    from admit_each_adds [OF e'] obtain new where new: "candidate = run_registry run @ new" "\<forall>a \<in> set new. \<exists>p \<in> set ps. made_from ans cfg closing p a"
      by (elim exE conjE) (rule that)
    show "grows_by ans cfg closing ps (run_registry run) (run_registry run') \<and> (no_lost_writes ans \<longrightarrow> writes cfg (run_registry run) w (run_registry run') w')"
    proof (cases "validate_registry (pm_sha cfg) (pm_fences cfg) (Some (pm_repo cfg, pm_pr cfg)) (registry_value candidate)")
      case (Inl err)
      then show ?thesis using assms e' w1 by (simp add: admit_def grows_refl writes_refl)
    next
      case (Inr R)
      have ok: "registry_ok cfg candidate" unfolding registry_ok_def by (rule validated(2) [OF Inr])
      then have g: "grows_by ans cfg closing ps (run_registry run) candidate" using new by (auto simp: grows_by_def)
      define diags where "diags = dict_fromkeys (kept_diagnostics (resolved_targets ps) (run_diagnostics run) @ replays)"
      show ?thesis
      proof (cases "candidate = run_registry run \<and> diags = run_diagnostics run \<or> pm_dry_run cfg")
        case True
        then show ?thesis using assms e' w1 Inr by (simp add: admit_def Let_def diags_def grows_refl writes_refl)
      next
        case False
        obtain m w2 where p: "persist ans cfg candidate diags w1 = (m, w2)" by (cases "persist ans cfg candidate diags w1")
        have "m = record_answer ans (pm_now w1)"
            "pm_records w2 = (if m = None \<or> record_stored ans (pm_now w1) then pm_records w1 @ [(candidate, diags)] else pm_records w1)"
          using p False by (auto simp: persist_def)
        then have stored: "m = None \<Longrightarrow> pm_records w2 = pm_records w @ [(candidate, diags)]"
            "no_lost_writes ans \<Longrightarrow> m \<noteq> None \<Longrightarrow> pm_records w2 = pm_records w"
          using w1 by (auto simp: no_lost_writes_def)
        show ?thesis
        proof (cases m)
          case None
          then have "run_registry run' = candidate" "w' = w2" using assms e' Inr False p by (auto simp: admit_def Let_def diags_def)
          then show ?thesis using g ok stored(1) [OF None] new(1) by (auto simp: writes_def)
        next
          case (Some message)
          have "run_registry run' = run_registry run" "w' = w2"
            using assms e' Inr False p Some by (auto simp: admit_def Let_def diags_def split: if_splits)
          then show ?thesis using stored(2) Some by (auto simp: grows_refl writes_refl)
        qed
      qed
    qed
  qed
qed

end
