(* ===== verification/Post_Merge_Example.thy ===== *)
theory Post_Merge_Example
  imports Post_Merge_Run
begin

text \<open>
  One round of two reviewers who schedule the evidence obligation that both own, evaluated step by step; the example that the properties
  of the post-merge obligations use.
\<close>

section \<open>The round\<close>

definition ex_pm_item :: item where
  "ex_pm_item = \<lparr>item_id = ''item-1'', reviewer = ''a'', source_round = 1, item_text = ''x'', status = ''open'', source_status = None,
     item_notes = [], fix_scope = None, resolution_owners = [''a'', ''b''], owner_states = [], owner_evidence = [], owner_dispositions = [],
     authority = None, obligation_kind = Some ''human-exact-head-evidence'', lifecycle = None, failed_head_sha = None, candidate_head_sha = None,
     obligation_identity = Some ''e'', alias_item_ids = [], alias_obligation_identities = [], sub_items = [], evidence_row_ids = [],
     converted_row_ids = [], converted_row_id = None, converted_matrix_identity = None, provenance = None, repeat_of = None,
     origin_scope = None, screenshot_request = PNone\<rparr>"

definition ex_pm_request :: request where
  "ex_pm_request = \<lparr>rq_requirement = ''x'', rq_rationale = ''y'', rq_owner = ''o'', rq_tracker = ''https://github.com/o/r/issues/5'',
     rq_target_kind = Some ''evidence-item'', rq_target_id = Some ''e'', rq_source_text = Some ''x'', rq_matrix = None\<rparr>"

definition ex_pm_answers :: pm_answers where
  "ex_pm_answers = \<lparr>issue_answer = (\<lambda>t n. Inr (PDict [(''number'', PInt (int n)), (''state'', PStr ''open'')])), record_answer = (\<lambda>t. None),
     record_stored = (\<lambda>t. False), search_answer = (\<lambda>t. None), issue_write = (\<lambda>t. None), issue_stored = (\<lambda>t. False)\<rparr>"

definition ex_pm_config :: pm_config where
  "ex_pm_config = \<lparr>pm_repo = ''o/r'', pm_pr = 7, pm_dry_run = False, pm_sha = (\<lambda>s. ''h''), pm_fences = (\<lambda>s. [])\<rparr>"

definition ex_pm_world :: pm_world where
  "ex_pm_world = \<lparr>pm_now = 0, pm_records = [], pm_publications = []\<rparr>"

definition ex_pm_run :: pm_run where
  "ex_pm_run = \<lparr>run_registry = [], run_diagnostics = []\<rparr>"

definition ex_pm_reviews :: reviews where
  "ex_pm_reviews = [(''a'', [ex_pm_request]), (''b'', [ex_pm_request])]"

lemma ex_pm_url: "is_issue_url ''https://github.com/o/r/issues/5''" by code_simp

lemma ex_pm_nonblank: "nonblank ''x''" "nonblank ''y''" "nonblank ''o''" "nonblank ''e''" "nonblank ''evidence-item''" "nonblank ''https://github.com/o/r/issues/5''" by code_simp+

definition ex_pm_payload :: dict where
  "ex_pm_payload = [(''requirement'', PStr ''x''), (''rationale'', PStr ''y''), (''owner'', PStr ''o''), (''tracker_url'', PStr ''https://github.com/o/r/issues/5''), (''target_kind'', PStr ''evidence-item''), (''target_id'', PStr ''e''), (''source_requirement_text'', PStr ''x'')]"

lemma ex_pm_payload_of: "request_payload ex_pm_request = ex_pm_payload"
  by (simp add: request_payload_def ex_pm_request_def ex_pm_payload_def)

lemma ex_pm_keys: "fst ` set ex_pm_payload = set (required_fields False ex_pm_payload)" by code_simp

lemma ex_pm_bounded: "list_all (bounded_field \<circ> snd) ex_pm_payload" by (simp add: ex_pm_payload_def ex_pm_nonblank)

lemma ex_pm_get: "str_at ex_pm_payload ''requirement'' = ''x''" "str_at ex_pm_payload ''rationale'' = ''y''" "str_at ex_pm_payload ''owner'' = ''o''"
   "str_at ex_pm_payload ''tracker_url'' = ''https://github.com/o/r/issues/5''" "opt_at ex_pm_payload ''target_kind'' = Some ''evidence-item''" "opt_at ex_pm_payload ''target_id'' = Some ''e''"
   "opt_at ex_pm_payload ''source_requirement_text'' = Some ''x''" "opt_at ex_pm_payload ''matrix_identity'' = None" "str_at ex_pm_payload ''target_kind'' = ''evidence-item''" "str_at ex_pm_payload ''source_requirement_text'' = ''x''"
  by code_simp+

lemma ex_pm_parsed: "parse_request False (PDict ex_pm_payload) = Inr ex_pm_request"
  unfolding parse_request_def pyval.case by (simp add: ex_pm_keys ex_pm_bounded ex_pm_get ex_pm_url TARGET_KINDS_def ex_pm_request_def)

definition ex_pm_source :: dict where
  "ex_pm_source = [(''target_kind'', PStr ''evidence-item''), (''target_id'', PStr ''e''), (''requirement'', PStr ''x''), (''requester'', PStr ''a''), (''owners'', PList [PStr ''a'', PStr ''b''])]"

definition ex_pm_provenance :: dict where
  "ex_pm_provenance = [(''kind'', PStr ''reviewer''), (''reviewers'', PList [PStr ''a'', PStr ''b'']), (''round'', PInt 1), (''head'', PStr ''s'')]"

definition ex_pm_admission :: admission where
  "ex_pm_admission = \<lparr>ad_identity = ''post-merge:h'', ad_repo = PStr ''o/r'', ad_pr = PInt 7, ad_source = ex_pm_source, ad_request = ex_pm_payload,
   ad_provenance = ex_pm_provenance, ad_supersedes = None, ad_state = ''scheduled'', ad_receipt = PNone\<rparr>"

lemma ex_pm_sources: "reviewer_sources [ex_pm_item] = [((''evidence-item'', ''e''), ex_pm_source)]" by code_simp

lemma ex_pm_voters: "voters_for ex_pm_reviews ex_pm_request = [''a'', ''b'']" by code_simp

lemma ex_pm_authorized: "authorize H ex_pm_request [((''evidence-item'', ''e''), ex_pm_source)] (Some name) [''a'',''b''] [''a'',''b''] False = (if name \<in> {''a'',''b''} then Inr ex_pm_source else fail ''scheduling requires selected validated reviewers'')"
  by (simp add: authorize_def authorize_target_def ex_pm_request_def ex_pm_source_def source_owners_def hashable_def required_voters_def Let_def)

lemma ex_pm_proposed: "propose_each ex_pm_config (reviewer_sources [ex_pm_item]) ex_pm_reviews [''a'',''b''] 1 ''s'' (concat (map (\<lambda>(name, rs). map (Pair name) rs) ex_pm_reviews)) run
   = Inr ([(ex_pm_request, ex_pm_source, ex_pm_provenance), (ex_pm_request, ex_pm_source, ex_pm_provenance)], run)"
  unfolding ex_pm_sources by (simp add: ex_pm_reviews_def ex_pm_voters [unfolded ex_pm_reviews_def] ex_pm_authorized ex_pm_provenance_def reviewer_provenance_def)

lemma ex_pm_number: "tracker_number (rq_tracker ex_pm_request) ''o/r'' = Inr 5" by code_simp

lemma ex_pm_wanted: "5 \<notin> set closing \<Longrightarrow> tracker_wanted ex_pm_request ''o/r'' closing = Inr 5"
  by (simp add: tracker_wanted_def ex_pm_number)

lemma ex_pm_tracker: "5 \<notin> set closing \<Longrightarrow> validate_tracker ex_pm_answers ex_pm_config ex_pm_request closing ac w = (Inr (5, PStr ''open''), tick w)"
  unfolding validate_tracker_def by (simp add: ex_pm_wanted ex_pm_config_def) (simp add: ex_pm_answers_def tracker_state_def hashable_def)

lemma ex_pm_made: "make_admission (\<lambda>s. ''h'') ex_pm_request ''o/r'' 7 ex_pm_source ex_pm_provenance None = ex_pm_admission"
  by (simp add: make_admission_def ex_pm_admission_def ex_pm_payload_of admission_identity_def digest_def)

lemma ex_pm_checked: "check_admission (\<lambda>s. ''h'') md (Some (''o/r'', 7)) [] (admission_value ex_pm_admission) = Inr ex_pm_admission"
  unfolding check_admission_def admission_get
  apply (simp add: ex_pm_admission_def ex_pm_parsed admission_value_def ADMISSION_KEYS_def ex_pm_provenance_def admission_identity_def digest_def hashable_def ex_pm_source_def ex_pm_request_def check_provenance_def PUBLICATION_STATES_def positive_int_def Let_def)
  done

lemma ex_pm_valid: "validate_registry (\<lambda>s. ''h'') md (Some (''o/r'', 7)) (registry_value [ex_pm_admission]) = Inr [ex_pm_admission]"
  by (simp add: validate_registry_def registry_value_def MAX_OBLIGATIONS_def ex_pm_checked)

lemma ex_pm_values: "is_value (PDict ex_pm_source)" "is_value (PDict ex_pm_payload)" "is_value (PDict ex_pm_provenance)"
  by (simp_all add: ex_pm_source_def ex_pm_payload_def ex_pm_provenance_def)

definition ex_pm_run1 :: pm_run where
  "ex_pm_run1 = \<lparr>run_registry = [ex_pm_admission], run_diagnostics = []\<rparr>"

definition ex_pm_world1 :: pm_world where
  "ex_pm_world1 = \<lparr>pm_now = 2, pm_records = [([ex_pm_admission], [])], pm_publications = []\<rparr>"

lemma ex_pm_fresh: "\<not> consumed [] (ex_pm_request, ex_pm_source, ex_pm_provenance)" "previous [] ex_pm_source = None"
  by (simp_all add: consumed_def replayed_def previous_def active_registry_def)

lemma ex_pm_admitted: "admitted ex_pm_config [] (ex_pm_request, ex_pm_source, ex_pm_provenance) = [ex_pm_admission]"
  by (simp add: admitted_def ex_pm_fresh Let_def ex_pm_made ex_pm_config_def)

lemma ex_pm_consumed: "consumed [ex_pm_admission] (ex_pm_request, ex_pm_source, ex_pm_provenance)"
  by (simp add: consumed_def replayed_def ex_pm_admission_def ex_pm_payload_of ex_pm_values [THEN py_equal_refl])

lemma ex_pm_first: "admit ex_pm_answers ex_pm_config [3] [(ex_pm_request, ex_pm_source, ex_pm_provenance)] ex_pm_run ex_pm_world = (Inr (), ex_pm_run1, ex_pm_world1)"
  by (simp add: admit_def ex_pm_run_def ex_pm_fresh ex_pm_tracker ex_pm_admitted del: py_get.simps)
     (simp add: ex_pm_config_def ex_pm_valid kept_diagnostics_def persist_def ex_pm_run1_def ex_pm_world1_def ex_pm_answers_def ex_pm_world_def tick_def dict_fromkeys_def)

lemma ex_pm_second: "admit ex_pm_answers ex_pm_config [3] [(ex_pm_request, ex_pm_source, ex_pm_provenance)] ex_pm_run1 ex_pm_world1 = (Inr (), ex_pm_run1, tick ex_pm_world1)"
  by (simp add: admit_def ex_pm_run1_def ex_pm_consumed ex_pm_tracker replay_notes_def) 
     (simp add: ex_pm_config_def ex_pm_valid kept_diagnostics_def dict_fromkeys_def)

lemma ex_pm_item_source: "source_for_item ex_pm_item = ex_pm_source" by code_simp

lemma ex_pm_kind: "py_get (PDict ex_pm_source) ''target_kind'' = PStr ''evidence-item''" "obligation_kind ex_pm_item = Some ''human-exact-head-evidence''"
  by (simp_all add: ex_pm_source_def ex_pm_item_def)

lemma ex_pm_scheduled: "\<not> scheduled_item [] ex_pm_item" "scheduled_item [ex_pm_admission] ex_pm_item"
proof -
  have "ex_pm_admission \<in> set (active_registry [ex_pm_admission])" by (simp add: active_registry_def ex_pm_admission_def)
  then show "\<not> scheduled_item [] ex_pm_item" "scheduled_item [ex_pm_admission] ex_pm_item"
    using py_equal_refl [OF ex_pm_values(1)] ex_pm_kind
    by (auto simp: scheduled_item_def ex_pm_item_source active_registry_def Let_def ex_pm_admission_def simp del: py_get.simps)
qed

lemma ex_pm_round: "reviewer_inputs ex_pm_answers ex_pm_config ex_pm_reviews [ex_pm_item] [3] ''s'' 1 [''a'',''b''] ex_pm_run ex_pm_world = (Inr [], ex_pm_run1, tick ex_pm_world1)"
proof -
  have "filter_items (run_registry ex_pm_run1) [ex_pm_item] = []" using ex_pm_scheduled(2) by (simp add: filter_items_def ex_pm_run1_def)
  then show ?thesis unfolding reviewer_inputs_def ex_pm_proposed by (simp add: ex_pm_first ex_pm_second)
qed

end
