(* ===== verification/Post_Merge_Admission.thy ===== *)
theory Post_Merge_Admission
  imports Post_Merge_Example
begin

text \<open>
  What a round admits: who must have asked for an obligation that no longer blocks the merge, and that the registry of a run only grows
  and is what a later run restores from the written records.
\<close>

section \<open>Runs\<close>

lemma rejected_registry [simp]: "run_registry (rejected target message run) = run_registry run"
  by (simp add: rejected_def)

lemma proposed:
  assumes "propose_each cfg sources reviews board n head rs run = Inr (ps, run')"
  shows "run_registry run' = run_registry run"
    and "(r, source, prov) \<in> set ps \<Longrightarrow> \<exists>name. (name, r) \<in> set rs
      \<and> authorize (pm_sha cfg) r sources (Some name) (voters_for reviews r) board False = Inr source"
proof -
  have "run_registry run' = run_registry run
      \<and> ((r, source, prov) \<in> set ps \<longrightarrow> (\<exists>name. (name, r) \<in> set rs
          \<and> authorize (pm_sha cfg) r sources (Some name) (voters_for reviews r) board False = Inr source))"
    using assms
  proof (induction rs arbitrary: run ps run')
    case Nil
    then show ?case by simp
  next
    case (Cons x rs)
    obtain name q where x: "x = (name, q)" by (cases x)
    let ?auth = "authorize (pm_sha cfg) q sources (Some name) (voters_for reviews q) board False"
    show ?case
    proof (cases ?auth)
      case (Inl e)
      then obtain message where "e = AgentError message"
          "propose_each cfg sources reviews board n head rs (rejected (request_name q) message run) = Inr (ps, run')"
        using Cons.prems by (cases e) (simp_all add: x)
      then show ?thesis using Cons.IH [of "rejected (request_name q) message run" ps run'] by auto
    next
      case (Inr src)
      then obtain qs where qs: "propose_each cfg sources reviews board n head rs run = Inr (qs, run')"
          "ps = (q, src, reviewer_provenance (voters_for reviews q) n head) # qs"
        using Cons.prems by (auto simp: x bindE_Inr_iff)
      show ?thesis using Cons.IH [OF qs(1)] qs(2) Inr x by auto
    qed
  qed
  then show "run_registry run' = run_registry run"
    and "(r, source, prov) \<in> set ps \<Longrightarrow> \<exists>name. (name, r) \<in> set rs
      \<and> authorize (pm_sha cfg) r sources (Some name) (voters_for reviews r) board False = Inr source" by blast+
qed

text \<open>A step of a run: the registry grows by what the proposals support, and the records follow it.\<close>

definition run_step :: "pm_answers \<Rightarrow> pm_config \<Rightarrow> nat list \<Rightarrow> proposal list \<Rightarrow> admission list \<Rightarrow> pm_world \<Rightarrow> admission list \<Rightarrow> pm_world \<Rightarrow> bool" where
  "run_step ans cfg closing ps R w R' w' \<longleftrightarrow> grows_by ans cfg closing ps R R' \<and> (no_lost_writes ans \<longrightarrow> writes cfg R w R' w')"

lemma run_step_refl: "run_step ans cfg closing ps R w R w"
  by (simp add: run_step_def grows_refl writes_refl)

lemma run_step_trans:
  "run_step ans cfg closing ps R w R' w' \<Longrightarrow> run_step ans cfg closing qs R' w' R'' w'' \<Longrightarrow> run_step ans cfg closing (ps @ qs) R w R'' w''"
  unfolding run_step_def by (auto intro: grows_trans writes_trans)

lemma run_step_admit:
  "admit ans cfg closing ps run w = (res, run', w') \<Longrightarrow> run_step ans cfg closing ps (run_registry run) w (run_registry run') w'"
  unfolding run_step_def using admit_run by blast

lemma run_step_singly:
  "admit_singly ans cfg closing ps run w = (res, run', w') \<Longrightarrow> run_step ans cfg closing ps (run_registry run) w (run_registry run') w'"
proof (induction ps arbitrary: run w)
  case Nil
  then show ?case by (simp add: run_step_refl)
next
  case (Cons p ps)
  obtain out run1 w1 where a: "admit ans cfg closing [p] run w = (out, run1, w1)" by (cases "admit ans cfg closing [p] run w")
  note first = run_step_admit [OF a]
  have stop: "run_step ans cfg closing (p # ps) (run_registry run) w (run_registry run1) w1"
    using run_step_trans [OF first run_step_refl [of ans cfg closing ps]] by simp
  have go: "run_step ans cfg closing (p # ps) (run_registry run) w (run_registry run') w'"
    if "admit_singly ans cfg closing ps run2 w1 = (res, run', w')" "run_registry run2 = run_registry run1" for run2
    using run_step_trans [OF first Cons.IH [OF that(1), unfolded that(2)]] by simp
  show ?case
  proof (cases out)
    case (Inl e)
    then show ?thesis using Cons.prems a stop go by (cases e) auto
  next
    case (Inr u)
    then show ?thesis using Cons.prems a go by simp
  qed
qed

lemma run_step_reviewers:
  assumes "reviewer_inputs ans cfg reviews items closing head n board run w = (res, run', w')"
  shows "\<exists>ps. run_step ans cfg closing ps (run_registry run) w (run_registry run') w'"
proof (cases "propose_each cfg (reviewer_sources items) reviews board n head (concat (map (\<lambda>(name, rs). map (Pair name) rs) reviews)) run")
  case (Inl e)
  then show ?thesis using assms by (auto simp: reviewer_inputs_def run_step_refl)
next
  case (Inr y)
  obtain ps run1 where y: "y = (ps, run1)" by (cases y)
  obtain out run2 w2 where a: "admit_singly ans cfg closing ps run1 w = (out, run2, w2)" by (cases "admit_singly ans cfg closing ps run1 w")
  have "run' = run2" "w' = w2" using assms Inr by (auto simp: reviewer_inputs_def y a split: sum.splits)
  then show ?thesis using run_step_singly [OF a] proposed(1) [OF Inr [unfolded y]] by auto
qed

lemma run_step_operators:
  "operator_each ans cfg sources closing rs out run w = (res, run', w') \<Longrightarrow>
     \<exists>ps. run_step ans cfg closing ps (run_registry run) w (run_registry run') w'"
proof (induction rs arbitrary: out run w)
  case Nil
  then show ?case by (auto simp: run_step_refl)
next
  case (Cons r rs)
  show ?case
  proof (cases "contains ''```post-merge-schedule'' (st_body r)")
    case False
    then show ?thesis using Cons.prems Cons.IH by simp
  next
    case True
    show ?thesis
    proof (cases "operator_batch cfg sources r")
      case (Inl e)
      show ?thesis
      proof (cases e)
        case (AgentError message)
        then show ?thesis
          using Cons.prems Cons.IH [of "out @ [r]" "rejected (st_id r) message run" w] True Inl by simp
      next
        case PyCrash
        then show ?thesis using Cons.prems True Inl run_step_refl by auto
      qed
    next
      case (Inr y)
      obtain ps prose where y: "y = (ps, prose)" by (cases y)
      obtain answer run1 w1 where a: "admit ans cfg closing ps run w = (answer, run1, w1)" by (cases "admit ans cfg closing ps run w")
      note first = run_step_admit [OF a]
      have go: "\<exists>ps. run_step ans cfg closing ps (run_registry run) w (run_registry run') w'"
        if "operator_each ans cfg sources closing rs out' run2 w1 = (res, run', w')" "run_registry run2 = run_registry run1" for run2 out'
        using run_step_trans [OF first] Cons.IH [OF that(1), unfolded that(2)] by blast
      show ?thesis
      proof (cases answer)
        case Inl2: (Inl e)
        show ?thesis
        proof (cases e)
          case (AgentError message)
          then show ?thesis using Cons.prems True Inr a Inl2 go [of "out @ [r]" "rejected (st_id r) message run1"] by (simp add: y)
        next
          case PyCrash
          then show ?thesis using Cons.prems True Inr a Inl2 first by (auto simp: y)
        qed
      next
        case Inr2: (Inr u)
        then show ?thesis using Cons.prems True Inr a go by (simp add: y)
      qed
    qed
  qed
qed

section \<open>Who releases an obligation\<close>

definition owners_of :: "item \<Rightarrow> string list" where
  "owners_of it = (if resolution_owners it \<noteq> [] then resolution_owners it else [reviewer it])"

definition must_vote :: "item \<Rightarrow> string list \<Rightarrow> string list" where
  "must_vote it board = (if set (owners_of it) \<subseteq> set board then owners_of it else board)"

lemma authorized_new:
  assumes "authorize H r sources (Some name) voters board False = Inr source" "rq_target_id r = None"
  shows "name \<in> set board" "py_get (PDict source) ''target_kind'' = PStr ''declaration''"
    "py_get (PDict source) ''requester'' = PStr name" "py_get (PDict source) ''requirement'' = PStr (rq_requirement r)"
  using assms by (auto simp: authorize_def fail_def split: if_splits)

lemma authorized_target:
  assumes "authorize H r sources (Some name) voters board False = Inr source" "rq_target_id r = Some target"
  shows "name \<in> set board" "set voters \<subseteq> set board" "rq_target_kind r = Some ''evidence-item''"
    "map_of sources (''evidence-item'', target) = Some source" "py_get (PDict source) ''requirement'' = PStr (rq_requirement r)"
    "\<exists>owners. source_owners source = Some owners \<and> set (required_voters owners board) \<subseteq> PStr ` set voters"
proof -
  have a: "authorize_target r target sources (Some name) voters board False = Inr source" using assms by (simp add: authorize_def)
  then have m: "map_of sources (the (rq_target_kind r), target) = Some source"
    by (auto simp: authorize_target_def fail_def Let_def split: option.splits if_splits)
  have k: "rq_target_kind r = Some ''evidence-item''"
    using a m by (auto simp: authorize_target_def fail_def split: if_splits)
  then show "rq_target_kind r = Some ''evidence-item''" .
  show "map_of sources (''evidence-item'', target) = Some source" using m k by simp
  show "name \<in> set board" "set voters \<subseteq> set board" "py_get (PDict source) ''requirement'' = PStr (rq_requirement r)"
    using a m by (auto simp: authorize_target_def fail_def split: if_splits)
  show "\<exists>owners. source_owners source = Some owners \<and> set (required_voters owners board) \<subseteq> PStr ` set voters"
    using a m by (auto simp: authorize_target_def fail_def Let_def split: if_splits option.splits)
qed

text \<open>What the sources of reviewers hold.\<close>

lemma reviewer_source:
  assumes "map_of (reviewer_sources items) (''evidence-item'', target) = Some source"
  shows "\<exists>it \<in> set items. \<not> truthy (converted_row_id it) \<and> source = source_for_item it"
proof -
  have "((''evidence-item'', target), source) \<in> set (reviewer_sources items)" by (rule map_of_SomeD [OF assms])
  then obtain it where it: "it \<in> set items" "source = source_for_item it" "str_at source ''target_kind'' = ''evidence-item''"
    by (auto simp: reviewer_sources_def source_entry_def evidence_items_def)
  then have "\<not> truthy (converted_row_id it)" by (auto simp: source_for_item_def str_at_def)
  then show ?thesis using it by blast
qed

lemma item_source:
  assumes "\<not> truthy (converted_row_id it)"
  shows "py_get (PDict (source_for_item it)) ''target_kind'' = PStr ''evidence-item''"
    "py_get (PDict (source_for_item it)) ''requirement'' = PStr (item_text it)"
    "map_of (source_for_item it) ''owners'' = Some (PList (map PStr (owners_of it)))"
    "map_of (source_for_item it) ''requirement'' = Some (PStr (item_text it))"
  using assms by (simp_all add: source_for_item_def owners_of_def)

lemma equal_strings: "py_equal (PList (map PStr xs)) (PList (map PStr ys)) \<Longrightarrow> xs = ys"
  by (auto simp: py_equal_list intro: nth_equalityI)

lemma equal_item_sources:
  assumes "\<not> truthy (converted_row_id u)" "\<not> truthy (converted_row_id it)" "py_equal (PDict (source_for_item u)) (PDict (source_for_item it))"
  shows "item_text u = item_text it" "owners_of u = owners_of it"
proof -
  show "item_text u = item_text it"
    using py_equal_entry [OF assms(3) item_source(4) [OF assms(1)]] item_source(4) [OF assms(2)] by simp
  show "owners_of u = owners_of it"
    using py_equal_entry [OF assms(3) item_source(3) [OF assms(1)]] item_source(3) [OF assms(2)] equal_strings by simp
qed

text \<open>The admission that releases an item: made from a proposal of the reviewers, or active before.\<close>

definition releases :: "admission \<Rightarrow> item \<Rightarrow> bool" where
  "releases a it \<longleftrightarrow>
     (let source = source_for_item it in
      if py_get (PDict source) ''target_kind'' = PStr ''converted-row'' then py_get (PDict (ad_source a)) ''target_kind'' = PStr ''converted-row''
      else sole_owner it \<and> py_get (PDict (ad_source a)) ''target_kind'' = PStr ''declaration''
             \<and> py_get (PDict (ad_source a)) ''requester'' = PStr (reviewer it)
             \<and> py_get (PDict (ad_request a)) ''requirement'' = PStr (item_text it)
        \<or> py_equal (PDict (ad_source a)) (PDict source))"

lemma newly_scheduled:
  assumes "scheduled_item (R @ new) it" "\<not> scheduled_item R it"
  shows "\<exists>a \<in> set new. releases a it"
proof (rule ccontr)
  assume none: "\<not> ?thesis"
  have "a \<in> set (active_registry R)" if a: "a \<in> set (active_registry (R @ new))" "releases a it" for a
  proof -
    have "a \<in> set R" using active_in [OF a(1)] a(2) none by auto
    then show ?thesis by (rule active_append [OF a(1)])
  qed
  then have "scheduled_item R it"
    using assms(1) unfolding scheduled_item_def releases_def Let_def by (auto split: if_splits)
  then show False using assms(2) by simp
qed

lemma payload_requirement: "py_get (PDict (request_payload r)) ''requirement'' = PStr (rq_requirement r)"
  by (simp add: request_payload_def)

text \<open>What a released item tells of the request behind it.\<close>

definition voted_for :: "reviews \<Rightarrow> string list \<Rightarrow> item \<Rightarrow> string \<Rightarrow> request \<Rightarrow> bool" where
  "voted_for reviews board it name r \<longleftrightarrow>
     rq_requirement r = item_text it
     \<and> (rq_target_id r = None \<and> name = reviewer it \<and> sole_owner it
        \<or> rq_target_kind r = Some ''evidence-item'' \<and> set (voters_for reviews r) \<subseteq> set board
          \<and> set (must_vote it board) \<subseteq> set (voters_for reviews r))"

lemma released_voted:
  assumes auth: "authorize (pm_sha cfg) r (reviewer_sources items) (Some name) (voters_for reviews r) board False = Inr source"
    and a: "ad_source a = source" "ad_request a = request_payload r" and released: "releases a it"
  shows "name \<in> set board" "\<not> truthy (converted_row_id it)" "voted_for reviews board it name r"
proof -
  have kinds: "py_get (PDict source) ''target_kind'' \<noteq> PStr ''converted-row''"
  proof (cases "rq_target_id r")
    case None
    then show ?thesis using authorized_new(2) [OF auth] by simp
  next
    case (Some target)
    from reviewer_source [OF authorized_target(4) [OF auth Some]] show ?thesis using item_source(1) by auto
  qed
  show row: "\<not> truthy (converted_row_id it)"
  proof
    assume "truthy (converted_row_id it)"
    then have "py_get (PDict (source_for_item it)) ''target_kind'' = PStr ''converted-row''" by (simp add: source_for_item_def)
    then show False using released kinds a(1) by (simp add: releases_def)
  qed
  show "name \<in> set board" using authorized_new(1) [OF auth] authorized_target(1) [OF auth] by (cases "rq_target_id r") auto
  have cases_: "sole_owner it \<and> py_get (PDict source) ''target_kind'' = PStr ''declaration''
      \<and> py_get (PDict source) ''requester'' = PStr (reviewer it) \<and> rq_requirement r = item_text it
    \<or> py_equal (PDict source) (PDict (source_for_item it))"
    using released unfolding releases_def Let_def item_source(1) [OF row] a payload_requirement by auto
  show "voted_for reviews board it name r"
  proof (cases "rq_target_id r")
    case None
    note new = authorized_new [OF auth None]
    have "\<not> py_equal (PDict source) (PDict (source_for_item it))"
    proof
      assume eq: "py_equal (PDict source) (PDict (source_for_item it))"
      have "map_of source ''target_kind'' = Some (PStr ''declaration'')"
        using new(2) by (simp split: option.splits)
      from py_equal_entry [OF eq this] show False
        using item_source(1) [OF row] by auto
    qed
    then show ?thesis using cases_ new None by (simp add: voted_for_def)
  next
    case (Some target)
    note old = authorized_target [OF auth Some]
    from reviewer_source [OF old(4)] obtain u where u: "\<not> truthy (converted_row_id u)" "source = source_for_item u" by blast
    have eq: "py_equal (PDict (source_for_item u)) (PDict (source_for_item it))"
      using cases_ item_source(1) [OF u(1)] unfolding u(2) by auto
    note same = equal_item_sources [OF u(1) row eq]
    have "source_owners source = Some (map PStr (owners_of it))"
      unfolding source_owners_def u(2) item_source(3) [OF u(1)] same(2) by (simp add: hashable_def list_all_iff)
    then have "set (required_voters (map PStr (owners_of it)) board) \<subseteq> PStr ` set (voters_for reviews r)" using old(6) by auto
    moreover have "required_voters (map PStr (owners_of it)) board = map PStr (must_vote it board)"
      by (auto simp: required_voters_def must_vote_def)
    ultimately have "set (must_vote it board) \<subseteq> set (voters_for reviews r)" by auto
    moreover have "rq_requirement r = item_text it" using old(5) item_source(2) [OF u(1)] same(1) unfolding u(2) by simp
    ultimately show ?thesis using old(2,3) by (simp add: voted_for_def)
  qed
qed

section \<open>Release\<close>

text \<open>C25: A round's reviews take an evidence obligation out of the way of the merge only by votes.  An item that was not scheduled before and is
  no longer returned is human evidence, not a converted row of a matrix, and a selected reviewer requested exactly its text: either a new
  obligation declared by the reviewer who alone owns the item, or the item itself with the same request from all its owners, or from the
  whole board when an owner has left it, and from nobody outside the board.  Its tracker was read as an open issue of the repository outside
  the closing set.\<close>

theorem released_by_vote:
  assumes run: "reviewer_inputs ans cfg reviews items closing head n board run w = (Inr items', run', w')"
    and item: "it \<in> set items" "it \<notin> set items'" "\<not> scheduled_item (run_registry run) it"
  shows "obligation_kind it = Some ''human-exact-head-evidence'' \<and> \<not> truthy (converted_row_id it)
    \<and> (\<exists>name rs r. name \<in> set board \<and> (name, rs) \<in> set reviews \<and> r \<in> set rs
         \<and> voted_for reviews board it name r \<and> open_tracker ans cfg closing r)"
proof -
  let ?rs = "concat (map (\<lambda>(name, rs). map (Pair name) rs) reviews)"
  obtain ps run1 where p: "propose_each cfg (reviewer_sources items) reviews board n head ?rs run = Inr (ps, run1)"
    using run by (auto simp: reviewer_inputs_def split: sum.splits)
  obtain out run2 w2 where a: "admit_singly ans cfg closing ps run1 w = (out, run2, w2)" by (cases "admit_singly ans cfg closing ps run1 w")
  have items': "items' = filter_items (run_registry run2) items" using run by (auto simp: reviewer_inputs_def p a split: sum.splits)
  have step: "run_step ans cfg closing ps (run_registry run) w (run_registry run2) w2"
    using run_step_singly [OF a] by (simp add: proposed(1) [OF p])
  then obtain new where new: "run_registry run2 = run_registry run @ new" "\<forall>a \<in> set new. \<exists>p \<in> set ps. made_from ans cfg closing p a"
    unfolding run_step_def grows_by_def by (elim conjE exE) (rule that)
  have sched: "scheduled_item (run_registry run @ new) it" using item(1,2) by (auto simp: items' filter_items_def new(1))
  from newly_scheduled [OF this item(3)] obtain b where b: "b \<in> set new" "releases b it" by (elim bexE) (rule that)
  with new(2) obtain r source prov where q: "(r, source, prov) \<in> set ps" "made_from ans cfg closing (r, source, prov) b" by auto
  from proposed(2) [OF p q(1)] obtain name where name: "(name, r) \<in> set ?rs"
      "authorize (pm_sha cfg) r (reviewer_sources items) (Some name) (voters_for reviews r) board False = Inr source" by (elim exE conjE) (rule that)
  have made: "ad_source b = source" "ad_request b = request_payload r" "open_tracker ans cfg closing r"
    using q(2) by (auto simp: made_from_def make_admission_def)
  note voted = released_voted [OF name(2) made(1,2) b(2)]
  obtain rs where "(name, rs) \<in> set reviews" "r \<in> set rs" using name(1) by auto
  then show ?thesis using voted made(3) sched by (auto simp: scheduled_item_def)
qed

theorem released_by_vote_witness:
  "ex_pm_item \<in> set [ex_pm_item] \<and> \<not> truthy (converted_row_id ex_pm_item)
   \<and> (\<exists>name rs r. name \<in> set [''a'', ''b''] \<and> (name, rs) \<in> set ex_pm_reviews \<and> r \<in> set rs
        \<and> voted_for ex_pm_reviews [''a'', ''b''] ex_pm_item name r \<and> open_tracker ex_pm_answers ex_pm_config [3] r)"
proof -
  have "ex_pm_item \<in> set [ex_pm_item]" "ex_pm_item \<notin> set []" "\<not> scheduled_item (run_registry ex_pm_run) ex_pm_item"
    using ex_pm_scheduled(1) by (simp_all add: ex_pm_run_def)
  from released_by_vote [OF ex_pm_round this] show ?thesis by simp
qed

end
