(* ===== verification/Post_Merge_History.thy ===== *)
theory Post_Merge_History
  imports Post_Merge_Admission
begin

text \<open>
  The registry of a run and its history: over the rounds of a run the registry only grows, and what a later process restores from the
  records that the run wrote is the registry that the run had.
\<close>

section \<open>The rounds of a run\<close>

inductive rounds :: "pm_answers \<Rightarrow> pm_config \<Rightarrow> pm_run \<Rightarrow> pm_world \<Rightarrow> pm_run \<Rightarrow> pm_world \<Rightarrow> bool"
  for ans :: pm_answers and cfg :: pm_config and run0 :: pm_run and w0 :: pm_world where
  at_start: "rounds ans cfg run0 w0 run0 w0"
| by_operators: "rounds ans cfg run0 w0 run w \<Longrightarrow> operator_inputs ans cfg requirements items closing run w = (res, run', w') \<Longrightarrow>
    rounds ans cfg run0 w0 run' w'"
| by_reviewers: "rounds ans cfg run0 w0 run w \<Longrightarrow> reviewer_inputs ans cfg reviews items closing head n board run w = (out, run', w') \<Longrightarrow>
    rounds ans cfg run0 w0 run' w'"

definition grown :: "pm_answers \<Rightarrow> pm_config \<Rightarrow> admission list \<Rightarrow> pm_world \<Rightarrow> admission list \<Rightarrow> pm_world \<Rightarrow> bool" where
  "grown ans cfg R w R' w' \<longleftrightarrow>
     (\<exists>new. R' = R @ new) \<and> (registry_ok cfg R \<longrightarrow> registry_ok cfg R') \<and> (no_lost_writes ans \<longrightarrow> writes cfg R w R' w')"

lemma registry_grown_step: "run_step ans cfg closing ps R w R' w' \<Longrightarrow> grown ans cfg R w R' w'"
  unfolding run_step_def grown_def grows_by_def by (elim conjE exE) auto

lemma grown_trans: "grown ans cfg R w R' w' \<Longrightarrow> grown ans cfg R' w' R'' w'' \<Longrightarrow> grown ans cfg R w R'' w''"
  unfolding grown_def by (elim conjE exE) (auto intro: writes_trans)

lemma grown_operators:
  assumes "operator_inputs ans cfg requirements items closing run w = (res, run', w')"
  shows "grown ans cfg (run_registry run) w (run_registry run') w'"
proof -
  obtain out run1 w1 where o: "operator_each ans cfg (operator_sources (run_registry run) requirements items) closing requirements [] run w = (out, run1, w1)"
    by (cases "operator_each ans cfg (operator_sources (run_registry run) requirements items) closing requirements [] run w")
  have "run' = run1" "w' = w1" using assms by (auto simp: operator_inputs_def o split: sum.splits)
  then show ?thesis using run_step_operators [OF o] registry_grown_step by auto
qed

lemma grown_rounds: "rounds ans cfg run0 w0 run w \<Longrightarrow> grown ans cfg (run_registry run0) w0 (run_registry run) w"
proof (induction rule: rounds.induct)
  case at_start
  show ?case by (rule registry_grown_step [OF run_step_refl [of ans cfg "[]" "[]"]])
next
  case (by_operators run w requirements items closing res run' w')
  then show ?case using grown_trans grown_operators by blast
next
  case (by_reviewers run w reviews items closing head n board out run' w')
  from run_step_reviewers [OF by_reviewers.hyps(2)] show ?case
    by (elim exE) (rule grown_trans [OF by_reviewers.IH registry_grown_step])
qed

section \<open>Reading the history back\<close>

text \<open>A record as it is read back: authenticated, and made before the merge.\<close>

definition stored_of :: "admission list \<times> string list \<Rightarrow> stored_record" where
  "stored_of x = \<lparr>sr_registry = map admission_value (fst x), sr_diagnostics = snd x, sr_authentic = True, sr_late = False\<rparr>"

text \<open>An admission made of decoded values: no dict has a key twice.\<close>

definition decoded :: "admission \<Rightarrow> bool" where
  "decoded a \<longleftrightarrow> is_value (admission_value a)"

lemma not_mutated: "decoded a \<Longrightarrow> \<not> mutated a a"
  unfolding decoded_def mutated_def by (simp add: admission_value_def py_equal_refl)

lemma restore_written:
  assumes "registry_ok cfg (R @ new)" "\<forall>a \<in> set R. decoded a" "stored_of (R @ new, diags) = r"
  shows "\<exists>d'. restore_step cfg merged r (R, d) = Inr (R @ new, d')"
proof (cases "R @ new")
  case Nil
  then show ?thesis using assms(3) by (auto simp: restore_step_def stored_of_def)
next
  case (Cons a as)
  have r: "sr_registry r = map admission_value (R @ new)" "sr_authentic r" "\<not> sr_late r" "sr_registry r \<noteq> []"
    using assms(3) Cons by (auto simp: stored_of_def)
  have ok: "validate_registry (pm_sha cfg) (pm_fences cfg) (Some (pm_repo cfg, pm_pr cfg)) (PList (sr_registry r)) = Inr (R @ new)"
    using assms(1) unfolding registry_ok_def valid_registry_def registry_value_def r(1) .
  have d: "distinct (map ad_identity (R @ new))" using assms(1) unfolding registry_ok_def by (rule valid_registry_ids)
  have same: "\<not> (\<exists>old \<in> set R. \<exists>new' \<in> set (R @ new). ad_identity new' = ad_identity old \<and> mutated old new')"
  proof
    assume "\<exists>old \<in> set R. \<exists>new' \<in> set (R @ new). ad_identity new' = ad_identity old \<and> mutated old new'"
    then obtain x y where xy: "x \<in> set R" "y \<in> set (R @ new)" "ad_identity y = ad_identity x" "mutated x y" by blast
    have "inj_on ad_identity (set (R @ new))" using d by (simp only: distinct_map)
    then have "y = x" using xy(1,2,3) by (auto dest: inj_onD)
    then show False using xy(1,4) assms(2) not_mutated by blast
  qed
  have sub: "ad_identity ` set R \<subseteq> ad_identity ` set (R @ new)" by auto
  show ?thesis unfolding restore_step_def
    by (simp only: ok bindE_simps fst_conv if_not_P [OF same] sub r(2,3,4) not_True_eq_False not_False_eq_True simp_thms if_False sum.inject prod.inject)
qed

lemma restore_chain:
  "written_chain cfg R rs R' \<Longrightarrow> \<forall>a \<in> set R'. decoded a \<Longrightarrow>
     \<exists>d'. restore_from cfg merged (map stored_of rs) (R, d) = Inr (R', d')"
proof (induction rs arbitrary: R d)
  case Nil
  then show ?case by simp
next
  case (Cons r rs)
  obtain new where new: "registry_ok cfg (fst r)" "fst r = R @ new" "written_chain cfg (fst r) rs R'" using Cons.prems(1) by auto
  have grow: "written_chain cfg S qs S' \<Longrightarrow> \<exists>more. S' = S @ more" for S qs S'
    by (induction qs arbitrary: S) (auto, metis append_assoc)
  from grow [OF new(3)] new(2) have "\<forall>a \<in> set R. decoded a" using Cons.prems(2) by auto
  from restore_written [OF _ this, of cfg new "snd r" "stored_of r" merged d] new(1,2)
  obtain d1 where d1: "restore_step cfg merged (stored_of r) (R, d) = Inr (R @ new, d1)"
    by (metis prod.collapse)
  show ?case using Cons.IH [OF new(3) Cons.prems(2), of d1] d1 new(2) by simp
qed

lemma restore_append:
  "restore_from cfg merged (rs @ qs) st = bindE (restore_from cfg merged rs st) (restore_from cfg merged qs)"
proof (induction rs arbitrary: st)
  case (Cons r rs)
  then show ?case by (cases "restore_step cfg merged r st") simp_all
qed simp

text \<open>C26: Admissions are durable.  Whatever operators and reviewers ask for in the rounds of a run, and whichever reads and writes fail, as long
  as no write that was reported as failed was stored after all: the registry of the run only ever grows and stays valid, and restoring it
  from the records that the run wrote behind those it started from gives exactly the registry of the run, before the merge and after it.\<close>

theorem admissions_are_durable:
  assumes "rounds ans cfg run0 w0 run w" "no_lost_writes ans" "registry_ok cfg (run_registry run0)"
    and "\<forall>a \<in> set (run_registry run). decoded a"
    and "restore_from cfg merged earlier ([], []) = Inr (run_registry run0, d)"
  shows "\<exists>new rs d'. run_registry run = run_registry run0 @ new \<and> registry_ok cfg (run_registry run) \<and> pm_records w = pm_records w0 @ rs
    \<and> restore_registry cfg merged True True (earlier @ map stored_of rs) = Inr (run_registry run, d')"
proof -
  have g: "grown ans cfg (run_registry run0) w0 (run_registry run) w" by (rule grown_rounds [OF assms(1)])
  then obtain new where new: "run_registry run = run_registry run0 @ new" unfolding grown_def by blast
  have ok: "registry_ok cfg (run_registry run)" using g assms(3) unfolding grown_def by blast
  obtain rs where rs: "pm_records w = pm_records w0 @ rs" "written_chain cfg (run_registry run0) rs (run_registry run)"
    using g assms(2) unfolding grown_def writes_def by blast
  obtain d' where "restore_from cfg merged (map stored_of rs) (run_registry run0, d) = Inr (run_registry run, d')"
    using restore_chain [OF rs(2) assms(4)] by blast
  then have "restore_registry cfg merged True True (earlier @ map stored_of rs) = Inr (run_registry run, d')"
    by (simp add: restore_registry_def restore_append assms(5))
  then show ?thesis using new ok rs(1) by blast
qed

theorem admissions_are_durable_witness:
  "\<exists>new rs d'. [ex_pm_admission] = [] @ new \<and> registry_ok ex_pm_config [ex_pm_admission] \<and> pm_records (tick ex_pm_world1) = pm_records ex_pm_world @ rs
    \<and> restore_registry ex_pm_config True True True ([] @ map stored_of rs) = Inr ([ex_pm_admission], d')"
proof -
  have "rounds ex_pm_answers ex_pm_config ex_pm_run ex_pm_world ex_pm_run1 (tick ex_pm_world1)"
    by (rule by_reviewers [OF at_start ex_pm_round])
  moreover have "no_lost_writes ex_pm_answers" by (simp add: no_lost_writes_def ex_pm_answers_def)
  moreover have "registry_ok ex_pm_config (run_registry ex_pm_run)"
    by (simp add: registry_ok_def valid_registry_def validate_registry_def registry_value_def ex_pm_run_def)
  moreover have "\<forall>a \<in> set (run_registry ex_pm_run1). decoded a"
    using ex_pm_values by (simp add: ex_pm_run1_def decoded_def admission_value_def ex_pm_admission_def)
  moreover have "restore_from ex_pm_config True [] ([], []) = Inr (run_registry ex_pm_run, [])" by (simp add: ex_pm_run_def)
  ultimately show ?thesis
    using admissions_are_durable [of ex_pm_answers ex_pm_config ex_pm_run ex_pm_world ex_pm_run1 "tick ex_pm_world1" True "[]" "[]"]
    by (simp add: ex_pm_run_def ex_pm_run1_def)
qed

text \<open>
  Without the condition on writes it fails: a registry that was stored although its write was reported as failed is unknown to the run, the next
  one that the run writes has lost an obligation, and no later process can restore the history.
\<close>

lemma lost_write_breaks_history:
  assumes "registry_ok cfg (a # R)" "registry_ok cfg (b # S)" "ad_identity a \<notin> ad_identity ` set (b # S)"
  shows "restore_from cfg merged [stored_of (a # R, d), stored_of (b # S, d')] ([], []) = fail ''cumulative admission history lost an obligation''"
  using assms by (simp add: registry_ok_def valid_registry_def registry_value_def restore_step_def stored_of_def fail_def)

end
