(* ===== verification/Post_Merge_Tracking.thy ===== *)
theory Post_Merge_Tracking
  imports Post_Merge_Example
begin

text \<open>
  After the merge (\<open>reconcile\<close> of \<open>post_merge_runtime.py\<close>): every active admission is published once in its tracking issue, and
  the registry is written back with the receipts.
\<close>

section \<open>Publishing one admission\<close>

record merge_info =
  mi_payload :: pyval
  mi_records :: "stored_record list"
  mi_claimed :: bool
  mi_complete :: bool

definition merged_head :: "pyval \<Rightarrow> pyval option" where
  "merged_head pr = (case py_get pr ''head'' of PDict kvs \<Rightarrow> map_of kvs ''sha'' | _ \<Rightarrow> None)"

definition tracker_record :: "admission \<Rightarrow> pyval \<Rightarrow> pyval \<Rightarrow> dict" where
  "tracker_record a head commit =
     [(''version'', PInt 1), (''identity'', PStr (ad_identity a)), (''repo'', ad_repo a), (''pr'', ad_pr a), (''request'', PDict (ad_request a)),
      (''source'', PDict (ad_source a)), (''provenance'', PDict (ad_provenance a)), (''merged_source_head'', head), (''merge_commit'', commit)]"

definition stored_at :: "nat \<Rightarrow> dict \<Rightarrow> pm_world \<Rightarrow> int option" where
  "stored_at n expected w =
     map_option pb_comment (find (\<lambda>p. pb_issue p = n \<and> py_equal (PDict (pb_record p)) (PDict expected)) (pm_publications w))"

definition find_publication :: "pm_answers \<Rightarrow> nat \<Rightarrow> dict \<Rightarrow> pm_world \<Rightarrow> (string + int option) \<times> pm_world" where
  "find_publication ans n expected w =
     (case search_answer ans (pm_now w) of
        Some message \<Rightarrow> (Inl message, tick w)
      | None \<Rightarrow> (Inr (stored_at n expected w), tick w))"

definition publish :: "pm_answers \<Rightarrow> nat \<Rightarrow> dict \<Rightarrow> pm_world \<Rightarrow> (string + int) \<times> pm_world" where
  "publish ans n expected w =
     (let t = pm_now w;
          stored = w\<lparr>pm_publications := pm_publications w @ [\<lparr>pb_issue = n, pb_record = expected, pb_comment = int t + 1\<rparr>]\<rparr>
      in case issue_write ans t of
           None \<Rightarrow> (Inr (int t + 1), tick stored)
         | Some message \<Rightarrow> (Inl message, tick (if issue_stored ans t then stored else w)))"

text \<open>The receipt of a publication: found, written, or found after a write that failed.\<close>

definition receipt_for :: "pm_answers \<Rightarrow> nat \<Rightarrow> dict \<Rightarrow> pm_world \<Rightarrow> (string + int) \<times> pm_world" where
  "receipt_for ans n expected w =
     (case publish ans n expected w of
        (Inr c, w1) \<Rightarrow> (Inr c, w1)
      | (Inl message, w1) \<Rightarrow>
          (case find_publication ans n expected w1 of
             (Inl message', w2) \<Rightarrow> (Inl message', w2)
           | (Inr None, w2) \<Rightarrow> (Inl message, w2)
           | (Inr (Some c), w2) \<Rightarrow> (Inr c, w2)))"

definition tracked_with :: "int \<Rightarrow> admission \<Rightarrow> admission" where
  "tracked_with c a = a\<lparr>ad_state := ''tracked'', ad_receipt := PInt c\<rparr>"

definition left_pending :: "string \<Rightarrow> admission \<Rightarrow> admission \<times> string list" where
  "left_pending message a =
     (a\<lparr>ad_state := ''tracking-pending'', ad_receipt := PNone\<rparr>, [retained_diagnostic (ad_identity a) message])"

definition track_one :: "pm_answers \<Rightarrow> pm_config \<Rightarrow> pyval \<Rightarrow> admission \<Rightarrow> pm_world \<Rightarrow> (pm_error + admission \<times> string list) \<times> pm_world" where
  "track_one ans cfg merged a w =
     (case parse_request False (PDict (ad_request a)) of
        Inl e \<Rightarrow> (Inl e, w)
      | Inr r \<Rightarrow>
          (case validate_tracker ans cfg r [] True w of
             (Inl PyCrash, w1) \<Rightarrow> (Inl PyCrash, w1)
           | (Inl (AgentError message), w1) \<Rightarrow> (Inr (left_pending message a), w1)
           | (Inr (n, state), w1) \<Rightarrow>
               (case merged_head merged of
                  None \<Rightarrow> (Inl PyCrash, w1)
                | Some head \<Rightarrow>
                    (let expected = tracker_record a head (py_get merged ''merge_commit_sha'') in
                     case find_publication ans n expected w1 of
                       (Inl message, w2) \<Rightarrow> (Inr (left_pending message a), w2)
                     | (Inr found, w2) \<Rightarrow>
                         if pm_dry_run cfg then (Inr (a, []), w2)
                         else (case found of
                             Some c \<Rightarrow> (Inr (tracked_with c a, []), w2)
                           | None \<Rightarrow>
                               (case receipt_for ans n expected w2 of
                                  (Inl message, w3) \<Rightarrow> (Inr (left_pending message a), w3)
                                | (Inr c, w3) \<Rightarrow> (Inr (tracked_with c a, []), w3)))))))"

section \<open>Reconciliation\<close>

definition put_admission :: "admission \<Rightarrow> admission list \<Rightarrow> admission list" where
  "put_admission a registry = map (\<lambda>b. if ad_identity b = ad_identity a then a else b) registry"

fun track_each ::
  "pm_answers \<Rightarrow> pm_config \<Rightarrow> pyval \<Rightarrow> admission list \<Rightarrow> admission list \<Rightarrow> string list \<Rightarrow> pm_world
    \<Rightarrow> (pm_error + admission list \<times> string list) \<times> pm_world" where
  "track_each ans cfg merged [] registry pending w = (Inr (registry, pending), w)"
| "track_each ans cfg merged (a # as) registry pending w =
     (case track_one ans cfg merged a w of
        (Inl e, w') \<Rightarrow> (Inl e, w')
      | (Inr (a', notes), w') \<Rightarrow> track_each ans cfg merged as (put_admission a' registry) (pending @ notes) w')"

text \<open>
  \<open>known\<close> is the registry of the run that merged, and \<open>None\<close> in a later call, which restores it.  The reads of the pull request, of its context
  and of the account may fail, with the message \<open>refused\<close>.  The result is the exit code.
\<close>

definition known_registry :: "pm_config \<Rightarrow> merge_info \<Rightarrow> admission list option \<Rightarrow> pm_error + admission list" where
  "known_registry cfg info known =
     (case known of
        Some registry \<Rightarrow> Inr registry
      | None \<Rightarrow> bindE (restore_registry cfg True (mi_claimed info) (mi_complete info) (mi_records info)) (\<lambda>st. Inr (fst st)))"

definition reconcile_tracking ::
  "pm_answers \<Rightarrow> pm_config \<Rightarrow> string option \<Rightarrow> merge_info \<Rightarrow> admission list option \<Rightarrow> string list \<Rightarrow> pm_world
    \<Rightarrow> (pm_error + nat) \<times> admission list \<times> pm_world" where
  "reconcile_tracking ans cfg refused info known required w =
     (case refused of
        Some message \<Rightarrow> (Inl (AgentError message), [], w)
      | None \<Rightarrow>
          if \<not> py_true (py_get (mi_payload info) ''merged'') \<or> \<not> py_true (py_get (mi_payload info) ''merged_at'')
            then (fail ''completion-only reconciliation requires a confirmed merged PR'', [], w)
          else case bindE (known_registry cfg info known) (\<lambda>registry. validate_registry (pm_sha cfg) (pm_fences cfg) (Some (pm_repo cfg, pm_pr cfg)) (registry_value registry)) of
            Inl e \<Rightarrow> (Inl e, [], w)
          | Inr registry \<Rightarrow>
              if \<not> set required \<subseteq> ad_identity ` set registry
                then (fail ''durable admission history cannot reconstruct an already admitted obligation'', registry, w)
              else (case track_each ans cfg (mi_payload info) (active_registry registry) registry [] w of
                  (Inl e, w1) \<Rightarrow> (Inl e, registry, w1)
                | (Inr (registry', pending), w1) \<Rightarrow>
                    (let code = (if pending = [] then 0 else 1) in
                     if pm_dry_run cfg \<or> registry' = [] then (Inr code, registry', w1)
                     else if merged_head (mi_payload info) = None then (Inl PyCrash, registry', w1)
                     else case persist ans cfg registry' pending w1 of
                       (Some message, w2) \<Rightarrow> (Inl (AgentError message), registry', w2)
                     | (None, w2) \<Rightarrow> (Inr code, registry', w2))))"

text \<open>After the merge of the loop itself; a failure names the command that makes up for it.\<close>

definition recovery_command :: "int \<Rightarrow> string" where
  "recovery_command pr = ''agent-loop pr '' @ int_str pr @ '' --reconcile-post-merge-obligations''"

definition complete_merge :: "pm_answers \<Rightarrow> pm_config \<Rightarrow> string option \<Rightarrow> merge_info \<Rightarrow> pm_run \<Rightarrow> pm_world \<Rightarrow> (pm_error + unit) \<times> pm_world" where
  "complete_merge ans cfg refused info run w =
     (let pr = ''PR #'' @ int_str (pm_pr cfg) @ '' merged, tracking pending''; rerun = ''. Run `'' @ recovery_command (pm_pr cfg) @ ''`.'' in
      if run_registry run = [] then (Inr (), w)
      else case reconcile_tracking ans cfg refused info None (map ad_identity (run_registry run)) w of
        (Inl (AgentError message), registry, w') \<Rightarrow> (Inl (AgentError (pr @ '': '' @ message @ rerun)), w')
      | (Inl PyCrash, registry, w') \<Rightarrow> (Inl PyCrash, w')
      | (Inr result, registry, w') \<Rightarrow> (if result \<noteq> 0 then Inl (AgentError (pr @ rerun)) else Inr (), w'))"

text \<open>Only the completion: no option of an execution may go with it.\<close>

definition RECOVERY_OPTIONS :: "string list" where
  "RECOVERY_OPTIONS = [''--reconcile-post-merge-obligations'', ''--repo'', ''--gh-cmd'', ''--dry-run'', ''--quiet'', ''--log-dir'',
     ''--human-reviewer-trusted-actor'']"

definition validate_recovery_options :: "string list \<Rightarrow> pm_error + unit" where
  "validate_recovery_options invocation =
     (let name = (\<lambda>token. takeWhile (\<lambda>c. c \<noteq> CHR ''='') token) in
      case find (\<lambda>token. starts_with ''--'' token \<and> name token \<notin> set RECOVERY_OPTIONS) invocation of
        None \<Rightarrow> Inr ()
      | Some token \<Rightarrow> fail (''completion-only reconciliation cannot be combined with execution options: '' @ name token))"

section \<open>Publications\<close>

definition same_publication :: "publication \<Rightarrow> publication \<Rightarrow> bool" where
  "same_publication p q \<longleftrightarrow> pb_issue p = pb_issue q \<and> py_equal (PDict (pb_record p)) (PDict (pb_record q))"

definition no_duplicates :: "pm_world \<Rightarrow> bool" where
  "no_duplicates w \<longleftrightarrow> sorted_wrt (\<lambda>p q. \<not> same_publication p q) (pm_publications w)"

text \<open>Publications are added behind, and a duplicate is never added.\<close>

definition published_more :: "pm_world \<Rightarrow> pm_world \<Rightarrow> bool" where
  "published_more w w' \<longleftrightarrow> (\<exists>new. pm_publications w' = pm_publications w @ new) \<and> (no_duplicates w \<longrightarrow> no_duplicates w')"

lemma more_same: "pm_publications w' = pm_publications w \<Longrightarrow> published_more w w'"
  by (simp add: published_more_def no_duplicates_def)

lemma more_trans: "published_more w w' \<Longrightarrow> published_more w' w'' \<Longrightarrow> published_more w w''"
  unfolding published_more_def by (elim conjE exE) auto

lemma tick_publications [simp]: "pm_publications (tick w) = pm_publications w"
  by (simp add: tick_def)

lemma tracker_publications [simp]: "validate_tracker ans cfg r closing allow_closed w = (x, w') \<Longrightarrow> pm_publications w' = pm_publications w"
  by (auto simp: validate_tracker_def split: sum.splits)

lemma find_publications [simp]: "find_publication ans n expected w = (x, w') \<Longrightarrow> pm_publications w' = pm_publications w"
  by (auto simp: find_publication_def split: option.splits)

lemma stored_at_append:
  "stored_at n e (w\<lparr>pm_publications := pm_publications w @ ps\<rparr>) =
     (case stored_at n e w of
        Some c \<Rightarrow> Some c
      | None \<Rightarrow> map_option pb_comment (find (\<lambda>p. pb_issue p = n \<and> py_equal (PDict (pb_record p)) (PDict e)) ps))"
proof -
  have "find P (xs @ ys) = (case find P xs of Some x \<Rightarrow> Some x | None \<Rightarrow> find P ys)" for P and xs ys :: "publication list"
    by (induction xs) auto
  then show ?thesis by (simp add: stored_at_def split: option.splits)
qed

lemma stored_at_cong: "pm_publications w' = pm_publications w \<Longrightarrow> stored_at n e w' = stored_at n e w"
  by (simp add: stored_at_def)

lemma stored_at_more:
  assumes "stored_at n e w = Some c" "published_more w w'"
  shows "stored_at n e w' = Some c"
proof -
  obtain new where "pm_publications w' = pm_publications (w\<lparr>pm_publications := pm_publications w @ new\<rparr>)"
    using assms(2) unfolding published_more_def by auto
  from stored_at_cong [OF this] show ?thesis using assms(1) by (simp add: stored_at_append)
qed

lemma publish_more:
  assumes "publish ans n e w = (x, w')" "stored_at n e w = None"
  shows "published_more w w'"
    and "x = Inr c \<Longrightarrow> is_value (PDict e) \<Longrightarrow> stored_at n e w' = Some c"
proof -
  let ?p = "\<lparr>pb_issue = n, pb_record = e, pb_comment = int (pm_now w) + 1\<rparr>"
  let ?w1 = "w\<lparr>pm_publications := pm_publications w @ [?p]\<rparr>"
  have w': "pm_publications w' = pm_publications w \<and> x \<noteq> Inr c \<or> pm_publications w' = pm_publications ?w1 \<and> (x = Inr c \<longrightarrow> c = int (pm_now w) + 1)"
    using assms(1) by (auto simp: publish_def Let_def split: option.splits if_splits)
  have fresh: "\<not> same_publication q ?p" if "q \<in> set (pm_publications w)" for q
    using assms(2) that by (auto simp: stored_at_def same_publication_def find_None_iff)
  have "published_more w ?w1" using fresh by (simp add: published_more_def no_duplicates_def sorted_wrt_append)
  moreover have "published_more ?w1 w'" if "pm_publications w' = pm_publications ?w1" by (rule more_same [OF that])
  ultimately show "published_more w w'" using w' more_same more_trans by blast
  show "stored_at n e w' = Some c" if "x = Inr c" "is_value (PDict e)"
  proof -
    have "pm_publications w' = pm_publications ?w1" "c = int (pm_now w) + 1" using w' that(1) by auto
    then show ?thesis using assms(2) py_equal_refl [OF that(2)] stored_at_cong [of w' ?w1 n e] by (simp add: stored_at_append)
  qed
qed

lemma receipt_more:
  assumes "receipt_for ans n e w = (x, w')" "stored_at n e w = None"
  shows "published_more w w'"
    and "x = Inr c \<Longrightarrow> is_value (PDict e) \<Longrightarrow> stored_at n e w' = Some c"
proof -
  obtain y w1 where p: "publish ans n e w = (y, w1)" by (cases "publish ans n e w")
  obtain z w2 where f: "find_publication ans n e w1 = (z, w2)" by (cases "find_publication ans n e w1")
  have w': "pm_publications w' = pm_publications w1"
    using assms(1) p f find_publications [OF f] by (auto simp: receipt_for_def split: sum.splits option.splits)
  then show "published_more w w'" using publish_more(1) [OF p assms(2)] more_same more_trans by blast
  show "stored_at n e w' = Some c" if "x = Inr c" "is_value (PDict e)"
  proof (cases y)
    case (Inl message)
    then have "z = Inr (Some c)" using assms(1) p f that(1) by (auto simp: receipt_for_def split: sum.splits option.splits)
    then have "stored_at n e w1 = Some c" using f by (auto simp: find_publication_def split: option.splits)
    then show ?thesis using stored_at_cong [OF w'] by simp
  next
    case (Inr d)
    then have "y = Inr c" using assms(1) p that(1) by (simp add: receipt_for_def)
    from publish_more(2) [OF p assms(2) this that(2)] show ?thesis using stored_at_cong [OF w'] by simp
  qed
qed

section \<open>One admission\<close>

definition expected_record :: "pyval \<Rightarrow> admission \<Rightarrow> dict \<Rightarrow> bool" where
  "expected_record merged a e \<longleftrightarrow> (\<exists>head. merged_head merged = Some head \<and> e = tracker_record a head (py_get merged ''merge_commit_sha''))"

text \<open>The record of an admission is in its tracking issue, in the comment \<open>c\<close>.\<close>

definition published :: "pm_config \<Rightarrow> pyval \<Rightarrow> pm_world \<Rightarrow> admission \<Rightarrow> int \<Rightarrow> bool" where
  "published cfg merged w a c \<longleftrightarrow>
     (\<exists>r n e. parse_request False (PDict (ad_request a)) = Inr r \<and> tracker_number (rq_tracker r) (pm_repo cfg) = Inr n
        \<and> expected_record merged a e \<and> stored_at n e w = Some c)"

lemma published_more_still: "published cfg merged w a c \<Longrightarrow> published_more w w' \<Longrightarrow> published cfg merged w' a c"
  unfolding published_def using stored_at_more by blast

lemma validated_number:
  "validate_tracker ans cfg r [] True w = (Inr (n, state), w') \<Longrightarrow> tracker_number (rq_tracker r) (pm_repo cfg) = Inr n"
  by (auto simp: validate_tracker_def tracker_wanted_def bindE_Inr_iff split: sum.splits)

text \<open>Either the admission is left pending or not reached, or its record is found or published.\<close>

lemma track_one_cases:
  assumes "track_one ans cfg merged a w = (res, w')"
  obtains (error) e where "res = Inl e" "pm_publications w' = pm_publications w"
  | (pending) message where "res = Inr (left_pending message a)" "pm_publications w' = pm_publications w"
  | (refused) r n e message where "res = Inr (left_pending message a)" "parse_request False (PDict (ad_request a)) = Inr r"
      "tracker_number (rq_tracker r) (pm_repo cfg) = Inr n" "expected_record merged a e" "stored_at n e w = None" "published_more w w'"
  | (dry) "res = Inr (a, [])" "pm_dry_run cfg" "pm_publications w' = pm_publications w"
  | (found) c where "res = Inr (tracked_with c a, [])" "published cfg merged w a c" "pm_publications w' = pm_publications w"
  | (fresh) r n e c w2 where "res = Inr (tracked_with c a, [])" "parse_request False (PDict (ad_request a)) = Inr r"
      "tracker_number (rq_tracker r) (pm_repo cfg) = Inr n" "expected_record merged a e" "stored_at n e w = None"
      "pm_publications w2 = pm_publications w" "receipt_for ans n e w2 = (Inr c, w')"
proof (cases "parse_request False (PDict (ad_request a))")
  case (Inl e)
  have "res = Inl e" "w' = w" using assms Inl by (simp_all add: track_one_def)
  then show thesis by (intro error) simp_all
next
  case parsed: (Inr r)
  obtain x w1 where v: "validate_tracker ans cfg r [] True w = (x, w1)" by (cases "validate_tracker ans cfg r [] True w")
  note w1 = tracker_publications [OF v]
  show thesis
  proof (cases x)
    case (Inl e)
    show thesis
    proof (cases e)
      case (AgentError message)
      then have "res = Inr (left_pending message a)" "w' = w1" using assms parsed v Inl by (simp_all add: track_one_def)
      then show thesis using pending w1 by simp
    next
      case PyCrash
      then have "res = Inl PyCrash" "w' = w1" using assms parsed v Inl by (simp_all add: track_one_def)
      then show thesis using error w1 by simp
    qed
  next
    case (Inr y)
    obtain n state where y: "y = (n, state)" by (cases y)
    note v' = v [unfolded Inr y]
    note number = validated_number [OF v']
    show thesis
    proof (cases "merged_head merged")
      case None
      then have "res = Inl PyCrash" "w' = w1" using assms parsed v' by (simp_all add: track_one_def)
      then show thesis using error w1 by simp
    next
      case (Some head)
      define e where "e = tracker_record a head (py_get merged ''merge_commit_sha'')"
      have e: "expected_record merged a e" using Some by (simp add: expected_record_def e_def)
      obtain z w2 where f: "find_publication ans n e w1 = (z, w2)" by (cases "find_publication ans n e w1")
      have w2: "pm_publications w2 = pm_publications w" using find_publications [OF f] w1 by simp
      have res: "(case z of
            Inl message \<Rightarrow> (Inr (left_pending message a), w2)
          | Inr found \<Rightarrow>
              if pm_dry_run cfg then (Inr (a, []), w2)
              else (case found of
                  Some c \<Rightarrow> (Inr (tracked_with c a, []), w2)
                | None \<Rightarrow>
                    (case receipt_for ans n e w2 of
                       (Inl message, w3) \<Rightarrow> (Inr (left_pending message a), w3)
                     | (Inr c, w3) \<Rightarrow> (Inr (tracked_with c a, []), w3)))) = (res, w')"
        using assms parsed v' Some f unfolding e_def by (simp add: track_one_def Let_def del: py_get.simps)
      show thesis
      proof (cases z)
        case (Inl message)
        then have "res = Inr (left_pending message a)" "w' = w2" using res by simp_all
        then show thesis using pending w2 by simp
      next
        case (Inr found)
        have at: "stored_at n e w = found"
          using f [unfolded Inr] stored_at_cong [OF w1] by (auto simp: find_publication_def split: option.splits)
        show thesis
        proof (cases "pm_dry_run cfg")
          case True
          then show thesis using res Inr dry w2 by simp
        next
          case False
          show thesis
          proof (cases found)
            case (Some c)
            then have p: "published cfg merged w a c" unfolding published_def using parsed number e at by blast
            have "res = Inr (tracked_with c a, [])" "w' = w2" using res Inr False Some by simp_all
            then show thesis using found [OF _ p] w2 by simp
          next
            case None
            obtain u w3 where u: "receipt_for ans n e w2 = (u, w3)" by (cases "receipt_for ans n e w2")
            have "stored_at n e w2 = None" using at None stored_at_cong [OF w2] by simp
            note more = receipt_more(1) [OF u this]
            show thesis
            proof (cases u)
              case (Inl message)
              then have "res = Inr (left_pending message a)" "w' = w3" using res Inr False None u by simp_all
              then show thesis using refused [OF _ parsed number e] at None more_trans [OF more_same [OF w2] more] by simp
            next
              case Inr': (Inr c)
              then have "res = Inr (tracked_with c a, [])" "w' = w3" using res Inr False None u by simp_all
              then show thesis using fresh [OF _ parsed number e _ w2] at None u Inr' by simp
            qed
          qed
        qed
      qed
    qed
  qed
qed

lemma track_one_more:
  assumes "track_one ans cfg merged a w = (res, w')"
  shows "published_more w w'"
  using assms
proof (cases rule: track_one_cases)
  case (fresh r n e c w2)
  have "stored_at n e w2 = None" using fresh(5) stored_at_cong [OF fresh(6)] by simp
  from more_trans [OF more_same [OF fresh(6)] receipt_more(1) [OF fresh(7) this]] show ?thesis .
qed (simp_all add: more_same)

lemma track_one_published:
  assumes "track_one ans cfg merged a w = (Inr (a', []), w')" "\<not> pm_dry_run cfg"
    and "\<And>e. expected_record merged a e \<Longrightarrow> is_value (PDict e)"
  shows "\<exists>c. a' = tracked_with c a \<and> published cfg merged w' a c"
  using assms(1)
proof (cases rule: track_one_cases)
  case (found c)
  have "published cfg merged w' a c" by (rule published_more_still [OF found(2) more_same [OF found(3)]])
  then show ?thesis using found(1) by auto
next
  case (fresh r n e c w2)
  have "stored_at n e w2 = None" using fresh(5) stored_at_cong [OF fresh(6)] by simp
  from receipt_more(2) [OF fresh(7) this refl assms(3) [OF fresh(4)]] have "published cfg merged w' a c"
    unfolding published_def using fresh(2,3,4) by blast
  then show ?thesis using fresh(1) by blast
qed (use assms(2) in \<open>simp_all add: left_pending_def\<close>)

text \<open>A published admission is not published again.\<close>

lemma expected_unique: "expected_record merged a e \<Longrightarrow> expected_record merged a e' \<Longrightarrow> e' = e"
  by (auto simp: expected_record_def)

lemma track_one_quiet:
  assumes "track_one ans cfg merged a w = (res, w')" "published cfg merged w a c"
  shows "pm_publications w' = pm_publications w"
proof -
  have not_stored: False
    if "parse_request False (PDict (ad_request a)) = Inr r" "tracker_number (rq_tracker r) (pm_repo cfg) = Inr n"
      "expected_record merged a e" "stored_at n e w = None" for r n e
  proof -
    obtain r' n' e' where o: "parse_request False (PDict (ad_request a)) = Inr r'" "tracker_number (rq_tracker r') (pm_repo cfg) = Inr n'"
        "expected_record merged a e'" "stored_at n' e' w = Some c"
      using assms(2) unfolding published_def by (elim exE conjE) (rule that)
    have "r' = r" "e' = e" using o that expected_unique [OF that(3) o(3)] by simp_all
    then show False using o(2,4) that(2,4) by simp
  qed
  show ?thesis
    using assms(1)
proof (cases rule: track_one_cases)
  case (fresh r n e d w2)
  then show ?thesis using not_stored by blast
next
  case (refused r n e message)
  then show ?thesis using not_stored by blast
qed auto
qed

section \<open>All admissions\<close>

lemma left_pending_notes [simp]: "left_pending message a \<noteq> (b, [])"
  by (simp add: left_pending_def)

lemma track_each_more: "track_each ans cfg merged as registry pending w = (res, w') \<Longrightarrow> published_more w w'"
proof (induction "as" arbitrary: registry pending w)
  case Nil
  then show ?case by (simp add: more_same)
next
  case (Cons a as')
  obtain x w1 where t: "track_one ans cfg merged a w = (x, w1)" by (cases "track_one ans cfg merged a w")
  note first = track_one_more [OF t]
  show ?case
  proof (cases x)
    case (Inl e)
    then show ?thesis using Cons.prems t first by simp
  next
    case (Inr y)
    then obtain a' said where y: "x = Inr (a', said)" by (cases y) simp
    have "track_each ans cfg merged as' (put_admission a' registry) (pending @ said) w1 = (res, w')" using Cons.prems t y by simp
    from more_trans [OF first Cons.IH [OF this]] show ?thesis .
  qed
qed

lemma track_each_pending:
  "track_each ans cfg merged as registry pending w = (Inr (registry', pending'), w') \<Longrightarrow> \<exists>more. pending' = pending @ more"
proof (induction "as" arbitrary: registry pending w)
  case (Cons a as')
  obtain x w1 where t: "track_one ans cfg merged a w = (x, w1)" by (cases "track_one ans cfg merged a w")
  obtain a' said where y: "x = Inr (a', said)" using Cons.prems t by (cases x) auto
  have "track_each ans cfg merged as' (put_admission a' registry) (pending @ said) w1 = (Inr (registry', pending'), w')"
    using Cons.prems t y by simp
  from Cons.IH [OF this] show ?case by (elim exE) simp
qed simp

text \<open>Without a pending one, all are published, and the registry holds their receipts.\<close>

lemma put_keeps: "b \<in> set registry \<Longrightarrow> ad_identity b \<noteq> ad_identity a \<Longrightarrow> b \<in> set (put_admission a registry)"
  by (force simp: put_admission_def)

lemma put_puts: "b \<in> set registry \<Longrightarrow> ad_identity b = ad_identity a \<Longrightarrow> a \<in> set (put_admission a registry)"
  by (force simp: put_admission_def)

lemma put_identities [simp]: "map ad_identity (put_admission a registry) = map ad_identity registry"
  by (simp add: put_admission_def)

lemma tracked_identity [simp]: "ad_identity (tracked_with c a) = ad_identity a"
  by (simp add: tracked_with_def)

lemma track_each_keeps:
  "track_each ans cfg merged as registry pending w = (Inr (registry', pending'), w') \<Longrightarrow>
     \<not> pm_dry_run cfg \<Longrightarrow> pending' = [] \<Longrightarrow> (\<And>a e. a \<in> set as \<Longrightarrow> expected_record merged a e \<Longrightarrow> is_value (PDict e)) \<Longrightarrow>
     b \<in> set registry \<Longrightarrow> ad_identity b \<notin> ad_identity ` set as \<Longrightarrow> b \<in> set registry'"
proof (induction "as" arbitrary: registry pending w)
  case (Cons a as')
  obtain x w1 where t: "track_one ans cfg merged a w = (x, w1)" by (cases "track_one ans cfg merged a w")
  obtain a' said where y: "x = Inr (a', said)" using Cons.prems(1) t by (cases x) auto
  have rest: "track_each ans cfg merged as' (put_admission a' registry) (pending @ said) w1 = (Inr (registry', pending'), w')"
    using Cons.prems(1) t y by simp
  have quiet: "said = []" using track_each_pending [OF rest] Cons.prems(3) by auto
  obtain c where "a' = tracked_with c a"
    using track_one_published [OF t [unfolded y quiet] Cons.prems(2)] Cons.prems(4) [OF list.set_intros(1)] by blast
  then have "b \<in> set (put_admission a' registry)" using put_keeps Cons.prems(5,6) by simp
  from Cons.IH [OF rest Cons.prems(2,3) Cons.prems(4) [OF list.set_intros(2)] this] Cons.prems(6) show ?case by simp
qed simp

lemma track_each_published:
  "track_each ans cfg merged as registry pending w = (Inr (registry', pending'), w') \<Longrightarrow>
     \<not> pm_dry_run cfg \<Longrightarrow> pending' = [] \<Longrightarrow> (\<And>a e. a \<in> set as \<Longrightarrow> expected_record merged a e \<Longrightarrow> is_value (PDict e)) \<Longrightarrow>
     distinct (map ad_identity as) \<Longrightarrow> b \<in> set as \<Longrightarrow> ad_identity b \<in> ad_identity ` set registry \<Longrightarrow>
     \<exists>c. published cfg merged w' b c \<and> tracked_with c b \<in> set registry'"
proof (induction "as" arbitrary: registry pending w)
  case (Cons a as')
  obtain x w1 where t: "track_one ans cfg merged a w = (x, w1)" by (cases "track_one ans cfg merged a w")
  obtain a' said where y: "x = Inr (a', said)" using Cons.prems(1) t by (cases x) auto
  have rest: "track_each ans cfg merged as' (put_admission a' registry) (pending @ said) w1 = (Inr (registry', pending'), w')"
    using Cons.prems(1) t y by simp
  have quiet: "said = []" using track_each_pending [OF rest] Cons.prems(3) by auto
  obtain c where c: "a' = tracked_with c a" "published cfg merged w1 a c"
    using track_one_published [OF t [unfolded y quiet] Cons.prems(2)] Cons.prems(4) [OF list.set_intros(1)] by blast
  have plain: "\<And>a e. a \<in> set as' \<Longrightarrow> expected_record merged a e \<Longrightarrow> is_value (PDict e)"
    by (rule Cons.prems(4) [OF list.set_intros(2)])
  show ?case
  proof (cases "b = a")
    case True
    then have "tracked_with c a \<in> set (put_admission a' registry)" using put_puts Cons.prems(7) c(1) by fastforce
    from track_each_keeps [OF rest Cons.prems(2,3) plain this] Cons.prems(5) have "tracked_with c b \<in> set registry'" by (auto simp: True)
    then show ?thesis using published_more_still [OF c(2) track_each_more [OF rest]] True by blast
  next
    case False
    have "ad_identity b \<in> ad_identity ` set (put_admission a' registry)"
      using Cons.prems(7) by (metis put_identities set_map)
    then show ?thesis using Cons.IH [OF rest Cons.prems(2,3) plain] Cons.prems(5,6) False by simp
  qed
qed simp

lemma track_each_quiet:
  "track_each ans cfg merged as registry pending w = (res, w') \<Longrightarrow> (\<And>a. a \<in> set as \<Longrightarrow> \<exists>c. published cfg merged w a c) \<Longrightarrow>
     pm_publications w' = pm_publications w"
proof (induction "as" arbitrary: registry pending w)
  case (Cons a as')
  obtain x w1 where t: "track_one ans cfg merged a w = (x, w1)" by (cases "track_one ans cfg merged a w")
  obtain c where "published cfg merged w a c" using Cons.prems(2) by auto
  note same = track_one_quiet [OF t this]
  show ?case
  proof (cases x)
    case (Inl e)
    then show ?thesis using Cons.prems(1) t same by simp
  next
    case (Inr y)
    then obtain a' said where y: "x = Inr (a', said)" by (cases y) simp
    have rest: "track_each ans cfg merged as' (put_admission a' registry) (pending @ said) w1 = (res, w')" using Cons.prems(1) t y by simp
    have "\<exists>d. published cfg merged w1 b d" if b: "b \<in> set as'" for b
    proof -
      obtain d where "published cfg merged w b d" using Cons.prems(2) [of b] b by auto
      from published_more_still [OF this more_same [OF same]] show ?thesis by (rule exI)
    qed
    from Cons.IH [OF rest this] same show ?thesis by simp
  qed
qed simp

section \<open>The whole registry\<close>

text \<open>The same admission, whatever is known of its publication.\<close>

definition same_admission :: "admission \<Rightarrow> admission \<Rightarrow> bool" where
  "same_admission a b \<longleftrightarrow> b = a\<lparr>ad_state := ad_state b, ad_receipt := ad_receipt b\<rparr>"

abbreviation same_registry :: "admission list \<Rightarrow> admission list \<Rightarrow> bool" where
  "same_registry \<equiv> list_all2 same_admission"

lemma same_fields:
  assumes "same_admission a b"
  shows "ad_identity b = ad_identity a" "ad_request b = ad_request a" "ad_supersedes b = ad_supersedes a" "ad_repo b = ad_repo a"
    "ad_pr b = ad_pr a" "ad_source b = ad_source a" "ad_provenance b = ad_provenance a"
  using assms unfolding same_admission_def by (cases a, cases b, simp)+

lemma same_refl: "same_admission a a"
  by (simp add: same_admission_def)

lemma same_published: "same_admission a b \<Longrightarrow> published cfg merged w b c \<longleftrightarrow> published cfg merged w a c"
  by (simp add: published_def expected_record_def tracker_record_def same_fields)

lemma same_result: "track_one ans cfg merged a w = (Inr (a', said), w') \<Longrightarrow> same_admission a a'"
  by (erule track_one_cases) (simp_all add: same_admission_def left_pending_def tracked_with_def)

lemma put_same:
  assumes "same_registry R registry" "distinct (map ad_identity R)" "a \<in> set R" "same_admission a a'"
  shows "same_registry R (put_admission a' registry)"
proof (rule list_all2_all_nthI)
  show "length R = length (put_admission a' registry)" using list_all2_lengthD [OF assms(1)] by (simp add: put_admission_def)
  fix i assume i: "i < length R"
  have same: "same_admission (R ! i) (registry ! i)" and len: "length R = length registry"
    using assms(1) i by (auto simp: list_all2_conv_all_nth)
  show "same_admission (R ! i) (put_admission a' registry ! i)"
  proof (cases "ad_identity (registry ! i) = ad_identity a'")
    case True
    then have "ad_identity (R ! i) = ad_identity a" using same_fields(1) [OF same] same_fields(1) [OF assms(4)] by simp
    moreover have "inj_on ad_identity (set R)" using assms(2) by (simp add: distinct_map)
    ultimately have "R ! i = a" using i assms(3) by (auto dest: inj_onD)
    then show ?thesis using True i len assms(4) by (simp add: put_admission_def)
  next
    case False
    then show ?thesis using same i len by (simp add: put_admission_def)
  qed
qed

lemma track_each_same:
  "track_each ans cfg merged as registry pending w = (Inr (registry', pending'), w') \<Longrightarrow> same_registry R registry \<Longrightarrow>
     distinct (map ad_identity R) \<Longrightarrow> set as \<subseteq> set R \<Longrightarrow> same_registry R registry'"
proof (induction "as" arbitrary: registry pending w)
  case (Cons a as')
  obtain x w1 where t: "track_one ans cfg merged a w = (x, w1)" by (cases "track_one ans cfg merged a w")
  obtain a' said where y: "x = Inr (a', said)" using Cons.prems(1) t by (cases x) auto
  have rest: "track_each ans cfg merged as' (put_admission a' registry) (pending @ said) w1 = (Inr (registry', pending'), w')"
    using Cons.prems(1) t y by simp
  have "same_registry R (put_admission a' registry)"
    using put_same [OF Cons.prems(2,3) _ same_result [OF t [unfolded y]]] Cons.prems(4) by simp
  from Cons.IH [OF rest this Cons.prems(3)] Cons.prems(4) show ?case by simp
qed simp

lemma same_active:
  assumes "same_registry R S" "b \<in> set (active_registry S)"
  shows "\<exists>a \<in> set (active_registry R). same_admission a b"
proof -
  have sup: "map ad_supersedes S = map ad_supersedes R"
    using assms(1) same_fields(3) by (auto simp: list_all2_conv_all_nth intro: nth_equalityI)
  obtain i where i: "i < length S" "b = S ! i" using active_in [OF assms(2)] by (auto simp: in_set_conv_nth)
  have same: "same_admission (R ! i) b" "R ! i \<in> set R" using assms(1) i by (auto simp: list_all2_conv_all_nth)
  have "R ! i \<in> set (active_registry R)"
    using assms(2) same same_fields(1) [OF same(1)] by (simp add: active_registry_def sup)
  then show ?thesis using same(1) by blast
qed

lemma same_identities: "same_registry R S \<Longrightarrow> map ad_identity S = map ad_identity R"
  using same_fields(1) by (auto simp: list_all2_conv_all_nth intro: nth_equalityI)

lemma same_trans: "same_admission a b \<Longrightarrow> same_admission b c \<Longrightarrow> same_admission a c"
  by (cases a, cases b, cases c) (simp add: same_admission_def)

section \<open>Reconciliation keeps the history and publishes once\<close>

lemma persist_publications: "persist ans cfg registry diagnostics w = (x, w') \<Longrightarrow> pm_publications w' = pm_publications w"
  by (auto simp: persist_def split: if_splits)

text \<open>The admissions are looked at, or nothing is published.\<close>

lemma tracking_cases:
  assumes "reconcile_tracking ans cfg refused info known required w = (res, R', w')"
  obtains (nothing) e where "res = Inl e" "w' = w"
  | (each) R x w1 where "known_registry cfg info known = Inr R" "registry_ok cfg R"
      "track_each ans cfg (mi_payload info) (active_registry R) R [] w = (x, w1)" "pm_publications w' = pm_publications w1"
      "\<And>code. res = Inr code \<Longrightarrow> \<exists>pending. x = Inr (R', pending) \<and> (code = 0 \<longrightarrow> pending = [])"
proof (cases "refused = None \<and> py_true (py_get (mi_payload info) ''merged'') \<and> py_true (py_get (mi_payload info) ''merged_at'')")
  case False
  then have "(\<exists>e. res = Inl e) \<and> w' = w"
    using assms by (auto simp: reconcile_tracking_def fail_def simp del: py_get.simps split: option.splits if_splits)
  then show thesis by (elim conjE exE) (rule nothing)
next
  case True
  let ?valid = "\<lambda>R. validate_registry (pm_sha cfg) (pm_fences cfg) (Some (pm_repo cfg, pm_pr cfg)) (registry_value R)"
  show thesis
  proof (cases "bindE (known_registry cfg info known) ?valid")
    case (Inl e)
    then have "res = Inl e" "w' = w" using assms True by (simp_all add: reconcile_tracking_def del: py_get.simps)
    then show thesis by (rule nothing)
  next
    case (Inr R)
    then obtain R0 where R0: "known_registry cfg info known = Inr R0" "?valid R0 = Inr R" by (auto simp: bindE_Inr_iff)
    have R: "R = R0" "registry_ok cfg R0" using validated [OF R0(2)] by (simp_all add: registry_ok_def)
    show thesis
    proof (cases "set required \<subseteq> ad_identity ` set R")
      case sub: False
      then have "(\<exists>e. res = Inl e) \<and> w' = w" using assms True Inr by (simp add: reconcile_tracking_def fail_def del: py_get.simps) blast
      then show thesis by (elim conjE exE) (rule nothing)
    next
      case sub: True
      obtain x w1 where t: "track_each ans cfg (mi_payload info) (active_registry R) R [] w = (x, w1)"
        by (cases "track_each ans cfg (mi_payload info) (active_registry R) R [] w")
      have out: "(case x of
          Inl e \<Rightarrow> (Inl e, R, w1)
        | Inr (registry', pending) \<Rightarrow>
            (let code = (if pending = [] then 0 else 1) in
             if pm_dry_run cfg \<or> registry' = [] then (Inr code, registry', w1)
             else if merged_head (mi_payload info) = None then (Inl PyCrash, registry', w1)
             else case persist ans cfg registry' pending w1 of
               (Some message, w2) \<Rightarrow> (Inl (AgentError message), registry', w2)
             | (None, w2) \<Rightarrow> (Inr code, registry', w2))) = (res, R', w')"
        using assms True Inr sub by (simp add: reconcile_tracking_def t del: py_get.simps split: sum.splits)
      show thesis
      proof (rule each [of R x w1])
        show "pm_publications w' = pm_publications w1"
          using out by (auto simp: Let_def dest: persist_publications split: sum.splits prod.splits if_splits option.splits)
        show "\<exists>pending. x = Inr (R', pending) \<and> (code = 0 \<longrightarrow> pending = [])" if "res = Inr code" for code
          using out that by (auto simp: Let_def split: sum.splits prod.splits if_splits option.splits)
      qed (use R R0 t in simp_all)
    qed
  qed
qed

text \<open>What the record of an admission holds are decoded values, when the admission and what the pull request was read as are.\<close>

definition decoded_fields :: "admission \<Rightarrow> bool" where
  "decoded_fields a \<longleftrightarrow> is_value (ad_repo a) \<and> is_value (ad_pr a) \<and> is_value (PDict (ad_request a)) \<and> is_value (PDict (ad_source a))
     \<and> is_value (PDict (ad_provenance a))"

lemma get_value: "is_value v \<Longrightarrow> is_value (py_get v k)"
  by (cases v) (auto split: option.splits dest: map_of_SomeD)

lemma expected_value:
  assumes "decoded_fields a" "is_value merged" "expected_record merged a e"
  shows "is_value (PDict e)"
proof -
  obtain head where head: "merged_head merged = Some head" "e = tracker_record a head (py_get merged ''merge_commit_sha'')"
    using assms(3) unfolding expected_record_def by blast
  have "is_value (py_get merged ''head'')" by (rule get_value [OF assms(2)])
  then have "is_value head" using head(1) by (auto simp: merged_head_def simp del: py_get.simps split: pyval.splits dest: map_of_SomeD)
  moreover have "is_value (py_get merged ''merge_commit_sha'')" by (rule get_value [OF assms(2)])
  ultimately show ?thesis using assms(1) unfolding head(2) decoded_fields_def by (simp add: tracker_record_def del: py_get.simps)
qed

lemma complete_run:
  assumes run: "reconcile_tracking ans cfg refused info known required w = (Inr 0, R', w')" "\<not> pm_dry_run cfg"
    and plain: "is_value (mi_payload info)" "\<forall>a \<in> set R'. decoded_fields a"
    and b: "b \<in> set (active_registry R')"
  shows "\<exists>c. b = tracked_with c b \<and> published cfg (mi_payload info) w' b c"
  using run(1)
proof (cases rule: tracking_cases)
  case (nothing e)
  then show ?thesis by simp
next
  case (each R x w1)
  have t: "track_each ans cfg (mi_payload info) (active_registry R) R [] w = (Inr (R', []), w1)" using each(3) each(5) [OF refl] by auto
  have d: "distinct (map ad_identity R)" using each(2) unfolding registry_ok_def by (rule valid_registry_ids)
  have act: "set (active_registry R) \<subseteq> set R" using active_in by blast
  have same: "same_registry R R'"
    by (rule track_each_same [OF t _ d act]) (simp add: list_all2_refl same_refl)
  have fields: "decoded_fields a" if a: "a \<in> set R" for a
  proof -
    obtain i where "i < length R" "a = R ! i" using a by (auto simp: in_set_conv_nth)
    then have "same_admission a (R' ! i)" "R' ! i \<in> set R'" using same by (auto simp: list_all2_conv_all_nth)
    then show ?thesis using plain(2) same_fields [of a "R' ! i"] unfolding decoded_fields_def by auto
  qed
  obtain a where a: "a \<in> set (active_registry R)" "same_admission a b" using same_active [OF same b] by blast
  have da: "distinct (map ad_identity (active_registry R))" using d by (simp add: active_registry_def distinct_map_filter)
  have "\<exists>c. published cfg (mi_payload info) w1 a c \<and> tracked_with c a \<in> set R'"
  proof (rule track_each_published [OF t run(2) refl _ da a(1)])
    show "is_value (PDict e)" if "x \<in> set (active_registry R)" "expected_record (mi_payload info) x e" for x e
      by (rule expected_value [OF _ plain(1) that(2)]) (use fields act that(1) in blast)
    show "ad_identity a \<in> ad_identity ` set R" using a(1) act by blast
  qed
  then obtain c where c: "published cfg (mi_payload info) w1 a c" "tracked_with c a \<in> set R'" by blast
  have "distinct (map ad_identity R')" unfolding same_identities [OF same] by (rule d)
  then have "inj_on ad_identity (set R')" by (simp add: distinct_map)
  then have "b = tracked_with c a"
  proof (rule inj_onD)
    show "ad_identity b = ad_identity (tracked_with c a)" using same_fields(1) [OF a(2)] by simp
  qed (use c(2) active_in [OF b] in simp_all)
  moreover have "published cfg (mi_payload info) w' b c"
    using published_more_still [OF c(1) more_same [OF each(4)]] same_published [OF a(2)] by blast
  ultimately show ?thesis by (auto simp: tracked_with_def)
qed

text \<open>C28: After the merge, exit code 0 means that every obligation is tracked.  Whichever reads and writes failed on the way, when a
  reconciliation that is not a dry run ends with 0, every admission in force is in the returned registry as tracked, and its receipt is the
  comment of its tracking issue that holds its record.\<close>

theorem zero_exit_means_tracked:
  assumes "reconcile_tracking ans cfg refused info known required w = (Inr 0, R', w')" "\<not> pm_dry_run cfg"
    and "is_value (mi_payload info)" "\<forall>a \<in> set R'. decoded_fields a" "a \<in> set (active_registry R')"
  shows "\<exists>c. ad_state a = ''tracked'' \<and> ad_receipt a = PInt c \<and> published cfg (mi_payload info) w' a c"
proof -
  obtain c where c: "a = tracked_with c a" "published cfg (mi_payload info) w' a c" using complete_run [OF assms] by blast
  have "ad_state (tracked_with c a) = ''tracked''" "ad_receipt (tracked_with c a) = PInt c" by (simp_all add: tracked_with_def)
  then show ?thesis using c by auto
qed

text \<open>C27: An obligation is published once.  No reconciliation, whichever reads and writes fail, puts a second equal record into a tracking issue,
  and after one that ended with 0 a later one of the same merge, over the same admissions, publishes nothing more.\<close>

theorem tracker_posted_once:
  assumes "reconcile_tracking ans cfg refused info known required w = (res, R', w')" "\<not> pm_dry_run cfg"
    and "is_value (mi_payload info)" "\<forall>a \<in> set R'. decoded_fields a"
    and "reconcile_tracking ans2 cfg refused2 info2 known2 required2 w' = (res2, R2', w2)"
    and "mi_payload info2 = mi_payload info" "known_registry cfg info2 known2 = Inr S" "same_registry R' S"
  shows "(no_duplicates w \<longrightarrow> no_duplicates w') \<and> (res = Inr 0 \<longrightarrow> pm_publications w2 = pm_publications w')"
proof
  have "published_more w w'"
    using assms(1)
  proof (cases rule: tracking_cases)
    case (nothing e)
    then show ?thesis by (simp add: more_same)
  next
    case (each R x w1)
    from more_trans [OF track_each_more [OF each(3)] more_same [OF each(4)]] show ?thesis .
  qed
  then show "no_duplicates w \<longrightarrow> no_duplicates w'" by (simp add: published_more_def)
  show "res = Inr 0 \<longrightarrow> pm_publications w2 = pm_publications w'"
  proof
    assume res: "res = Inr 0"
    show "pm_publications w2 = pm_publications w'"
      using assms(5)
    proof (cases rule: tracking_cases)
      case (nothing e)
      then show ?thesis by simp
    next
      case (each R x w1)
      have S: "R = S" using each(1) assms(7) by simp
      have "\<exists>c. published cfg (mi_payload info2) w' b c" if b: "b \<in> set (active_registry R)" for b
      proof -
        obtain a where a: "a \<in> set (active_registry R')" "same_admission a b" using same_active [OF assms(8) b [unfolded S]] by blast
        from complete_run [OF assms(1) [unfolded res] assms(2,3,4) a(1)] same_published [OF a(2)] assms(6) show ?thesis by auto
      qed
      from track_each_quiet [OF each(3) this] each(4) show ?thesis by simp
    qed
  qed
qed

section \<open>Example\<close>

definition ex_pm_info :: merge_info where
  "ex_pm_info = \<lparr>mi_payload = PDict [(''merged'', PBool True), (''merged_at'', PStr ''t''), (''head'', PDict [(''sha'', PStr ''s'')]),
     (''merge_commit_sha'', PStr ''m'')], mi_records = [], mi_claimed = False, mi_complete = True\<rparr>"

definition ex_pm_expected :: dict where
  "ex_pm_expected = tracker_record ex_pm_admission (PStr ''s'') (PStr ''m'')"

definition ex_pm_tracked :: "pm_world" where
  "ex_pm_tracked = \<lparr>pm_now = 4, pm_records = [([tracked_with 3 ex_pm_admission], [])],
     pm_publications = [\<lparr>pb_issue = 5, pb_record = ex_pm_expected, pb_comment = 3\<rparr>]\<rparr>"

lemma ex_pm_head: "merged_head (mi_payload ex_pm_info) = Some (PStr ''s'')" "py_get (mi_payload ex_pm_info) ''merge_commit_sha'' = PStr ''m''"
    "py_true (py_get (mi_payload ex_pm_info) ''merged'')" "py_true (py_get (mi_payload ex_pm_info) ''merged_at'')" "is_value (mi_payload ex_pm_info)"
  by (simp_all add: ex_pm_info_def merged_head_def)

lemma ex_pm_fields: "decoded_fields ex_pm_admission" "decoded_fields (tracked_with c ex_pm_admission)"
  using ex_pm_values by (simp_all add: decoded_fields_def tracked_with_def ex_pm_admission_def)

lemma ex_pm_value: "is_value (PDict ex_pm_expected)"
  by (rule expected_value [OF ex_pm_fields(1) ex_pm_head(5)]) (simp add: expected_record_def ex_pm_head ex_pm_expected_def)

lemma ex_pm_track:
  "track_one ex_pm_answers ex_pm_config (mi_payload ex_pm_info) ex_pm_admission ex_pm_world =
     (Inr (tracked_with 3 ex_pm_admission, []), ex_pm_tracked\<lparr>pm_now := 3, pm_records := []\<rparr>)"
proof -
  have parsed: "parse_request False (PDict (ad_request ex_pm_admission)) = Inr ex_pm_request"
    using ex_pm_parsed by (simp add: ex_pm_admission_def)
  have v: "validate_tracker ex_pm_answers ex_pm_config ex_pm_request [] True ex_pm_world = (Inr (5, PStr ''open''), tick ex_pm_world)"
    by (rule ex_pm_tracker) simp
  show ?thesis unfolding track_one_def parsed sum.case v prod.case ex_pm_head option.case Let_def ex_pm_expected_def [symmetric]
    by (simp add: find_publication_def stored_at_def receipt_for_def publish_def ex_pm_answers_def ex_pm_config_def ex_pm_world_def tick_def
      ex_pm_tracked_def)
qed

lemma ex_pm_complete:
  "reconcile_tracking ex_pm_answers ex_pm_config None ex_pm_info (Some [ex_pm_admission]) [] ex_pm_world =
     (Inr 0, [tracked_with 3 ex_pm_admission], ex_pm_tracked)"
proof -
  have "validate_registry (pm_sha ex_pm_config) (pm_fences ex_pm_config) (Some (pm_repo ex_pm_config, pm_pr ex_pm_config))
      (registry_value [ex_pm_admission]) = Inr [ex_pm_admission]"
    using ex_pm_valid by (simp add: ex_pm_config_def)
  moreover have "active_registry [ex_pm_admission] = [ex_pm_admission]" by (simp add: active_registry_def ex_pm_admission_def)
  moreover have "put_admission (tracked_with 3 ex_pm_admission) [ex_pm_admission] = [tracked_with 3 ex_pm_admission]" by (simp add: put_admission_def)
  moreover have "persist ex_pm_answers ex_pm_config [tracked_with 3 ex_pm_admission] [] (ex_pm_tracked\<lparr>pm_now := 3, pm_records := []\<rparr>) = (None, ex_pm_tracked)"
    by (simp add: persist_def ex_pm_answers_def ex_pm_config_def ex_pm_tracked_def tick_def)
  moreover have "\<not> pm_dry_run ex_pm_config" by (simp add: ex_pm_config_def)
  ultimately show ?thesis
    by (simp add: reconcile_tracking_def known_registry_def ex_pm_head ex_pm_track del: py_get.simps)
qed

lemma ex_pm_active: "active_registry [tracked_with 3 ex_pm_admission] = [tracked_with 3 ex_pm_admission]"
  by (simp add: active_registry_def tracked_with_def ex_pm_admission_def)

theorem zero_exit_means_tracked_witness:
  "\<exists>c. ad_state (tracked_with 3 ex_pm_admission) = ''tracked'' \<and> ad_receipt (tracked_with 3 ex_pm_admission) = PInt c
     \<and> published ex_pm_config (mi_payload ex_pm_info) ex_pm_tracked (tracked_with 3 ex_pm_admission) c"
  by (rule zero_exit_means_tracked [OF ex_pm_complete _ ex_pm_head(5)])
     (simp_all add: ex_pm_active ex_pm_fields, simp add: ex_pm_config_def)

theorem tracker_posted_once_witness:
  "no_duplicates ex_pm_tracked
   \<and> pm_publications (snd (snd (reconcile_tracking ex_pm_answers ex_pm_config None ex_pm_info (Some [ex_pm_admission]) [] ex_pm_tracked)))
       = pm_publications ex_pm_tracked"
proof -
  let ?second = "reconcile_tracking ex_pm_answers ex_pm_config None ex_pm_info (Some [ex_pm_admission]) [] ex_pm_tracked"
  have "same_registry [tracked_with 3 ex_pm_admission] [ex_pm_admission]" by (simp add: same_admission_def tracked_with_def)
  moreover have "?second = (fst ?second, fst (snd ?second), snd (snd ?second))" by simp
  moreover have "\<not> pm_dry_run ex_pm_config" by (simp add: ex_pm_config_def)
  moreover have "no_duplicates ex_pm_world" by (simp add: no_duplicates_def ex_pm_world_def)
  ultimately show ?thesis
    using tracker_posted_once [OF ex_pm_complete _ ex_pm_head(5), of ex_pm_answers None ex_pm_info "Some [ex_pm_admission]" "[]"
        "fst ?second" "fst (snd ?second)" "snd (snd ?second)" "[ex_pm_admission]"]
    by (simp add: ex_pm_fields known_registry_def)
qed

end
