(* ===== verification/Spec2Isabelle.thy ===== *)
theory Spec2Isabelle
  imports Plan_Selection Ledger_Run Evidence_Stall Reviewer_Floor CI_Health Panel_Protocol Bounded_Waits
    Board_Amendment Workdir_Claims Closing_Contract Plan_Growth Phase_Progress Transport_Recovery Post_Merge_Admission
    Post_Merge_History Post_Merge_Tracking
begin

text \<open>
  A verification library for coding-review-agent-loop, the orchestrator under
  \<open>src/coding_review_agent_loop\<close> that lets coding agents plan, write and review a change and drives the
  issue, the plan, the pull request and the child issues through GitHub comments.

  \<^bold>\<open>The program.\<close>  A run keeps nothing of its own.  In every round it reads the comments it posted before, rebuilds its
  state from the records in them, decides what happens next, and posts a new record.  So most of the program is a
  decision over a decoded history, and these decisions are what is modelled here: who reviews a head or a plan, what
  the review ledger holds after a round, whether CI may be asked again, whether a history still proves that the
  secondary panel is open, which board is in force, which child of a staged parent comes next and when a child
  may be closed.  What is left out is at the end.

  \<^bold>\<open>Conventions.\<close>  A Python \<open>str\<close> is a char list, \<open>int\<close> is \<open>int\<close> (\<open>nat\<close> for counters that only count up), a decoded
  JSON value that the code checks at run time is a \<open>pyval\<close>, a dataclass is a record, a \<open>__post_init__\<close> is a function
  \<open>mk_...\<close> into a sum type whose left side is the error, and an exception is a left value that \<open>bindE\<close> passes on.  Code
  that this repository does not hold or that is not modelled (SHA-256, JSON text, the answers of GitHub, Git,
  the clock) is an argument.  Names that begin with \<open>ex_\<close> are the concrete inputs of the witnesses.  All definitions
  of the model evaluate.

  \<^bold>\<open>Shared theories.\<close>  \<open>Prelude\<close>: errors, \<open>pyval\<close>, the string and list operations of Python, the interface
  \<open>record_codec\<close> (what is written reads back, what was read is well-formed) and the collections of facts.
  \<open>Text_Ops\<close>: search, case and the regular-expression shapes the code uses.  \<open>Scheduler_Interface\<close>: the
  interface \<open>board_scheduler\<close> of a scheduler towards its caller.

  \<^bold>\<open>The scheduler of pull requests\<close> (\<open>review_scheduling.py\<close>).  \<open>Path_Rules\<close>: broad-path rules and fix scopes, with the
  matcher of \<open>**\<close> and of \<open>fnmatch\<close> as two interpretations of one locale \<open>star_matcher\<close> that relates the recursive matcher to a
  grouping of the segments.  \<open>Review_Scheduling\<close>: the stored contract and the classification of the step
  between two heads.  \<open>Reviewer_Selection\<close>: \<open>select_reviewers\<close>, cut where its phases return, as a
  \<open>board_scheduler\<close>; the panel waits for the primary, a decision splits the board, and the empty choice is an approval.

  \<^bold>\<open>The scheduler of plans\<close> (\<open>plan_review_scheduling.py\<close>).  \<open>Plan_Key\<close>: candidate keys, revisions and the
  classification of a planning step.  \<open>Plan_Selection\<close>: \<open>select_plan_reviewers\<close>, the second provider of the interface; the
  round that opens the plan panel is a complete audit.

  \<^bold>\<open>The review ledger\<close> (\<open>protocol.py\<close>, \<open>unresolved_items.py\<close>).  \<open>Review_Item\<close>: the item and its constructor checks.
  \<open>Machine_Obligations\<close>: the obligations the machine raises, supersedes and requalifies over heads, and
  the freeze and conversion of evidence.  \<open>Reconciliation\<close>: what one round of dispositions does to the ledger, per item,
  per owner and per sub-item.  \<open>Ledger_Run\<close>: these operations as one step relation, an
  invariant of every reachable ledger, and that nothing open is dropped but in the named ways.

  \<^bold>\<open>Evidence and CI.\<close>  \<open>Risk_Evidence\<close> (\<open>protocol_risk.py\<close>, \<open>protocol_common.py\<close>): the strict parser of stored evidence and
  signed references.  \<open>Evidence_Stall\<close> (\<open>evidence_stall.py\<close>): which rounds count as evidence-only and when they stop
  the run.  \<open>CI_Health\<close> (\<open>ci_health.py\<close>, part of \<open>pr_loop_decisions.py\<close>): check boards and the routing of a
  failure.  \<open>Qualification_Checkpoint\<close> (\<open>qualification_checkpoint.py\<close> and the callers that build one): the durable
  attempt and its fail-closed reader.

  \<^bold>\<open>History.\<close>  \<open>Round_Record\<close> (\<open>round_metadata.py\<close>, \<open>code_approval.py\<close>, \<open>review_scope.py\<close>): the posted records and the
  approvals of a head.  \<open>Scheduler_Records\<close> (\<open>round_state_scheduler.py\<close>): the stored schedule, written and
  read.  \<open>Panel_Evidence\<close> (\<open>panel_evidence.py\<close>, \<open>plan_round_closure.py\<close>): what a history proves about the panel.
  \<open>Ledger_Scheduling\<close> and \<open>Scheduling_Step\<close> (\<open>pr_loop_support.py\<close>, \<open>pr_loop.py\<close>): the obligations that the
  ledger puts before the scheduler, and one step of the loop from the ledger and the history to the stored decision.
  \<open>Panel_Protocol\<close>: an abstract machine of the panel with two states, and the refinement of the batch reader to it.

  \<^bold>\<open>Boards.\<close>  \<open>Reviewer_Floor\<close> (\<open>reviewer_floor.py\<close>): the least number of reviewers and providers.  \<open>Board_Amendment\<close>
  (\<open>board_amendment.py\<close>): signed changes of the board, their chain, and what a removal does to the ledger.

  \<^bold>\<open>Waiting and sharing.\<close>  \<open>Bounded_Waits\<close> (\<open>github_retry.py\<close>, \<open>quota_wait.py\<close>): the read loop with its number of attempts as
  fuel, which is the loop's own bound, and the budget of waits.  \<open>Workdir_Claims\<close> (\<open>workdir_claims.py\<close>): claims on
  checkouts by any number of processes, split where another process may run, as a step relation.

  \<^bold>\<open>Staged work.\<close>  \<open>Closing_Contract\<close> (\<open>expected_closure.py\<close>, \<open>child_topology.py\<close>): the issues a pull request must close and
  the bounded set of children.  \<open>Plan_Growth\<close> (\<open>plan_growth.py\<close>): the growth gate of a one-shot plan, the
  verdict that survives a resume and the scope ledger of a conversion.  \<open>Integration_Close\<close> (\<open>integration_close.py\<close>): the
  verification of a merge and the closing of the child, as programs over numbered calls to GitHub, whose answers may change between
  two calls.  \<open>Phase_Progress\<close> (\<open>phase_progress.py\<close>): the topology against the posted records, the phases in order and the
  record that all are delivered.

  \<^bold>\<open>Transport\<close> (\<open>round_transport.py\<close>).  \<open>Wire_Text\<close>: base64, UTF-8 and the text of JSON, with a reader that reads back what
  the writer writes.  \<open>Marker_Scan\<close>: the search for hidden markers, equal to its regular expression read as a grammar.
  \<open>Py_Equality\<close>: the \<open>==\<close> of decoded values, an equivalence on those without a repeated key.
  \<open>Round_Transport\<close>: metadata too large for a comment is moved to attachments and put back;
  \<open>Transport_Recovery\<close>: it reads back in full from comments in any order, and only listed fields are moved.

  \<^bold>\<open>After the merge\<close> (\<open>post_merge_obligations.py\<close>, \<open>post_merge_runtime.py\<close>, \<open>post_merge_state.py\<close>).  \<open>Post_Merge\<close>: requests for
  work that can only follow the merge, who may admit one, the registry of admissions and what it releases.  \<open>Post_Merge_Run\<close>: the
  admissions of a round and the registry restored from the records; \<open>Post_Merge_Admission\<close>: an obligation is released only by votes;
  \<open>Post_Merge_History\<close>: the registry only grows and is what the records restore.  \<open>Post_Merge_Tracking\<close>: the completion after the merge,
  with reads and writes that may fail at any time: one record for each admission in its tracking issue, and none twice.
  \<open>Post_Merge_Example\<close> is the evaluated round that the witnesses use.

  \<^bold>\<open>Bounds.\<close>  Every recursion is structural or has a measure, apart from loops with a bound of their own: the read loop of
  \<open>Bounded_Waits\<close> (its attempts), the slices of a wait (the length of the wait) and the amendment chain (each
  link uses up one record).  The reader of JSON has fuel, twice the length of the text and two, and \<open>json_fuel\<close> shows that more
  fuel changes nothing.  No result of the model means that a bound was too small.

  \<^bold>\<open>Not modelled.\<close>  The processes of agents, prompts and rendering of text, the command line, the client of GitHub, managed CI and its signatures, worktrees, screenshots, the running of test suites, and the loops of
  both flows as far as they only order these effects: their subject is I/O or prose, about which the code promises nothing that a
  theorem could state.  The messages of errors are kept where another part reads them, and otherwise only the data in them.
\<close>

end
